(* ===== verification/Prelude.thy ===== *)
theory Prelude
  imports Complex_Main "HOL-Library.Char_ord" "HOL-Library.List_Lexorder"
    "HOL-Library.Product_Lexorder" "HOL-Library.Multiset"
begin

text \<open>
  The vocabulary every component of the gateway model shares: Go's \<open>time.Time\<close>, maps,
  strings and the generic lemmas on lists and maps that the component theories use.

  \<^item> A Go string is an Isabelle \<open>string\<close> (one \<open>char\<close> per byte); \<open><\<close> on strings is the
    bytewise lexicographic order (\<open>List_Lexorder\<close> over \<open>Char_ord\<close>), as in Go.
  \<^item> A \<open>time.Time\<close> and a \<open>time.Duration\<close> are integers counting nanoseconds; instant 0 is
    Go's zero time, so \<open>t.IsZero()\<close> is \<open>t = 0\<close>.
  \<^item> A Go map that is only looked up and updated is a partial function. A Go map that is
    ranged over is an association list with distinct keys; the order of the list is the
    order in which that range visits the entries (Go leaves it open, so theorems hold for
    every order of the list).
\<close>

section \<open>Types\<close>

type_synonym gotime = int
type_synonym duration = int

abbreviation (input) zero_time :: gotime where "zero_time \<equiv> 0"

definition second :: duration where "second = 1000000000"
definition minute :: duration where "minute = 60 * second"

text \<open>Arithmetic of \<open>int64\<close> wraps; \<open>Seconds n\<close> is \<open>time.Duration(n) * time.Second\<close>.\<close>

definition wrap64 :: "int \<Rightarrow> int" where
  "wrap64 z = (z + 2 ^ 63) mod 2 ^ 64 - 2 ^ 63"

definition Seconds :: "int \<Rightarrow> duration" where
  "Seconds n = wrap64 (n * second)"

lemma wrap64_exact: "- (2 ^ 63) \<le> z \<Longrightarrow> z < 2 ^ 63 \<Longrightarrow> wrap64 z = z"
  by (simp add: wrap64_def)

lemma wrap64_wrap64 [simp]: "wrap64 (wrap64 z - x) = wrap64 (z - x)"
  unfolding wrap64_def by (simp add: mod_simps algebra_simps)

lemma Seconds_0 [simp]: "Seconds 0 = 0"
  by (simp add: Seconds_def wrap64_def)

lemma Seconds_exact: "0 \<le> n \<Longrightarrow> n \<le> 9223372036 \<Longrightarrow> Seconds n = n * second"
  by (simp add: Seconds_def wrap64_def second_def)

section \<open>Collections of rewrite rules\<close>

named_theorems bf_simps \<open>values and signs of the arbitrary-precision floats\<close>
named_theorems ledger_simps \<open>field-by-field effect of the ledger operations\<close>
named_theorems fleet_simps \<open>field-by-field effect of the registry operations\<close>

section \<open>Association lists standing for Go maps\<close>

fun alookup :: "('k \<times> 'v) list \<Rightarrow> 'k \<Rightarrow> 'v option" where
  "alookup [] k = None"
| "alookup ((k', v) # m) k = (if k = k' then Some v else alookup m k)"

fun aput :: "'k \<Rightarrow> 'v \<Rightarrow> ('k \<times> 'v) list \<Rightarrow> ('k \<times> 'v) list" where
  "aput k v [] = [(k, v)]"
| "aput k v ((k', v') # m) = (if k = k' then (k, v) # m else (k', v') # aput k v m)"

definition adel :: "'k \<Rightarrow> ('k \<times> 'v) list \<Rightarrow> ('k \<times> 'v) list" where
  "adel k m = filter (\<lambda>p. fst p \<noteq> k) m"

definition akeys :: "('k \<times> 'v) list \<Rightarrow> 'k list" where
  "akeys m = map fst m"

lemma alookup_map_of: "alookup m = map_of m"
proof
  fix k show "alookup m k = map_of m k"
    by (induction m) (auto split: if_splits)
qed

lemma alookup_aput [simp]: "alookup (aput k v m) k' = (if k' = k then Some v else alookup m k')"
  by (induction m) auto

lemma alookup_adel [simp]: "alookup (adel k m) k' = (if k' = k then None else alookup m k')"
  by (induction m) (auto simp: adel_def)

lemma akeys_simps [simp]: "akeys [] = []" "akeys (p # m) = fst p # akeys m"
  by (simp_all add: akeys_def)

lemma set_akeys_aput [simp]: "set (akeys (aput k v m)) = insert k (set (akeys m))"
proof (induction m)
  case (Cons p m)
  then show ?case by (cases p) (auto simp: insert_commute)
qed simp

lemma set_akeys_adel [simp]: "set (akeys (adel k m)) = set (akeys m) - {k}"
  by (auto simp: akeys_def adel_def)

lemma distinct_aput [simp]: "distinct (akeys m) \<Longrightarrow> distinct (akeys (aput k v m))"
proof (induction m)
  case (Cons p m)
  obtain k' v' where p: "p = (k', v')" by (cases p)
  from Cons have d: "distinct (akeys (aput k v m))" and n: "k' \<notin> set (akeys m)"
    by (simp_all add: p)
  show ?case
  proof (cases "k = k'")
    case True
    with Cons.prems show ?thesis by (simp add: p)
  next
    case False
    with n have "k' \<notin> set (akeys (aput k v m))" by simp
    with d False show ?thesis by (simp add: p)
  qed
qed (simp add: akeys_def)

lemma distinct_adel [simp]: "distinct (akeys m) \<Longrightarrow> distinct (akeys (adel k m))"
  by (simp add: akeys_def adel_def distinct_map_filter)

lemma alookup_in_set: "alookup m k = Some v \<Longrightarrow> (k, v) \<in> set m"
  by (induction m) (auto split: if_splits)

lemma in_set_alookup: "distinct (akeys m) \<Longrightarrow> (k, v) \<in> set m \<Longrightarrow> alookup m k = Some v"
  by (simp add: alookup_map_of akeys_def)

lemma alookup_None_iff: "alookup m k = None \<longleftrightarrow> k \<notin> set (akeys m)"
proof (induction m)
  case (Cons p m)
  then show ?case by (cases p) auto
qed simp

section \<open>Generic list lemmas\<close>

lemma fold_invariant:
  assumes "I s" and "\<And>x s. x \<in> set xs \<Longrightarrow> I s \<Longrightarrow> I (f x s)"
  shows "I (fold f xs s)"
  using assms by (induction xs arbitrary: s) auto

lemma sum_list_nonneg_int: "(\<And>x. x \<in> set xs \<Longrightarrow> (0::int) \<le> f x) \<Longrightarrow> 0 \<le> (\<Sum>x\<leftarrow>xs. f x)"
  by (induction xs) auto

lemma set_filter_subset: "set (filter P xs) \<subseteq> set xs"
  by auto

end
