(* ===== verification/GoFloat.thy ===== *)
theory GoFloat
  imports Prelude
begin

text \<open>
  The part of Go's \<open>math/big\<close> that the billing code computes with: \<open>big.Float\<close> values with
  their precision, rounding to nearest even, and the conversions from and to \<open>big.Int\<close>.

  A finite \<open>big.Float\<close> is \<open>BF p m e\<close>: the precision in bits (0 for the zero value
  \<open>new(big.Float)\<close>) and the number \<open>m * 2^e\<close>. As documented for \<open>math/big\<close>, an operation
  \<open>z.Op(x, y)\<close> first fixes the precision of \<open>z\<close> when it is 0 (the larger one of the
  operands), then rounds the exact result to that precision, ties to even. Infinities and
  exponent overflow (the exponent is 32 bits wide) are not modelled: the code divides by
  positive prices and by powers of ten only.
\<close>

datatype bigfloat = BF (fprec: nat) (mant: int) (expo: int)

section \<open>Rounding a natural number to a given number of bits\<close>

fun nbits :: "nat \<Rightarrow> nat" where
  "nbits n = (if n = 0 then 0 else Suc (nbits (n div 2)))"

declare nbits.simps [simp del]

text \<open>\<open>n / d\<close> rounded to the nearest integer, ties to even.\<close>

definition rne_div :: "nat \<Rightarrow> nat \<Rightarrow> nat" where
  "rne_div n d =
     (let q = n div d; r = n mod d
      in if 2 * r < d then q
         else if 2 * r > d then Suc q
         else if even q then q else Suc q)"

text \<open>\<open>m * 2 ^ e\<close> rounded to \<open>p\<close> bits, and the quotient \<open>a / b\<close> rounded to \<open>p\<close> bits.\<close>

definition bf_round :: "nat \<Rightarrow> int \<Rightarrow> int \<Rightarrow> bigfloat" where
  "bf_round p m e =
     (let n = nat \<bar>m\<bar>; l = nbits n
      in if l \<le> p then BF p m e
         else BF p (sgn m * int (rne_div n (2 ^ (l - p)))) (e + int (l - p)))"

definition lead_exp :: "nat \<Rightarrow> nat \<Rightarrow> int" where
  "lead_exp n d =
     (let l = int (nbits n) - int (nbits d);
          ge = (if 0 \<le> l then d * 2 ^ nat l \<le> n else d \<le> n * 2 ^ nat (- l))
      in if ge then l + 1 else l)"

definition bf_ratio :: "nat \<Rightarrow> int \<Rightarrow> int \<Rightarrow> bigfloat" where
  "bf_ratio p a b =
     (let n = nat \<bar>a\<bar>; d = nat \<bar>b\<bar>; t = lead_exp n d - int p;
          q = (if 0 \<le> t then rne_div n (d * 2 ^ nat t) else rne_div (n * 2 ^ nat (- t)) d)
      in if a = 0 then BF p 0 0 else BF p (sgn a * sgn b * int q) t)"

lemma nbits_0 [simp]: "nbits 0 = 0"
  by (simp add: nbits.simps)

lemma nbits_upper: "n < 2 ^ nbits n"
proof (induction n rule: nbits.induct)
  case (1 n)
  show ?case
  proof (cases "n = 0")
    case False
    with 1 have "n div 2 < 2 ^ nbits (n div 2)" by simp
    then have "n < 2 * 2 ^ nbits (n div 2)" by linarith
    with False show ?thesis by (simp add: nbits.simps [of n])
  qed simp
qed

lemma nbits_lower: "0 < n \<Longrightarrow> 2 ^ (nbits n - 1) \<le> n"
proof (induction n rule: nbits.induct)
  case (1 n)
  show ?case
  proof (cases "n div 2 = 0")
    case True
    with 1(2) show ?thesis by (simp add: nbits.simps [of n])
  next
    case False
    with 1 have "2 ^ (nbits (n div 2) - 1) \<le> n div 2" by simp
    moreover have "nbits (n div 2) = Suc (nbits (n div 2) - 1)"
      using False by (simp add: nbits.simps [of "n div 2"])
    ultimately have "2 ^ nbits (n div 2) \<le> 2 * (n div 2)"
      by (metis mult_le_mono2 power_Suc)
    with 1(2) show ?thesis by (simp add: nbits.simps [of n])
  qed
qed

lemma nbits_le_iff: "nbits n \<le> p \<longleftrightarrow> n < 2 ^ p"
proof
  assume "nbits n \<le> p"
  with nbits_upper [of n] show "n < 2 ^ p"
    by (meson order_less_le_trans one_le_numeral power_increasing)
next
  assume lt: "n < 2 ^ p"
  show "nbits n \<le> p"
  proof (rule ccontr)
    assume "\<not> nbits n \<le> p"
    then have le: "p \<le> nbits n - 1" and pos: "0 < n" by (auto intro: Suc_leI gr0I)
    from le have "(2::nat) ^ p \<le> 2 ^ (nbits n - 1)" by (simp add: power_increasing)
    with nbits_lower [OF pos] lt show False by (meson leD order_trans)
  qed
qed

text \<open>The rounding error of \<open>rne_div\<close> is at most half a unit.\<close>

lemma rne_div_error:
  assumes "0 < d"
  shows "\<bar>int (rne_div n d) * int d - int n\<bar> * 2 \<le> int d"
proof -
  define q r where "q = int (n div d)" and "r = int (n mod d)"
  have "int n = int (n div d * d + n mod d)" by (simp only: div_mult_mod_eq)
  then have n: "int n = q * int d + r"
    unfolding q_def r_def by (simp only: of_nat_add of_nat_mult)
  from assms have r: "r < int d" "0 \<le> r" by (simp_all add: r_def)
  have cmp: "2 * (n mod d) < d \<longleftrightarrow> 2 * r < int d" "2 * (n mod d) > d \<longleftrightarrow> 2 * r > int d"
    unfolding r_def by linarith+
  have "int (rne_div n d) = q \<and> 2 * r \<le> int d \<or> int (rne_div n d) = q + 1 \<and> int d \<le> 2 * r"
    unfolding rne_div_def Let_def cmp by (auto simp: q_def)
  then show ?thesis
    using r by (auto simp: n algebra_simps)
qed

lemma rne_div_1 [simp]: "rne_div n (Suc 0) = n"
  by (simp add: rne_div_def)

lemma rne_div_ge: "0 < d \<Longrightarrow> k * d \<le> n \<Longrightarrow> k \<le> rne_div n d"
  by (auto simp: rne_div_def Let_def less_eq_div_iff_mult_less_eq intro: le_SucI)

lemma rne_div_le:
  assumes "0 < d" "n \<le> k * d"
  shows "rne_div n d \<le> k"
proof -
  have "int (rne_div n d) * int d * 2 \<le> 2 * (int k * int d) + int d"
    using rne_div_error [OF assms(1), of n] assms(2)
    by (smt (verit) of_nat_le_iff of_nat_mult)
  then have "2 * int (rne_div n d) * int d \<le> (2 * int k + 1) * int d" by (simp add: algebra_simps)
  then have "2 * int (rne_div n d) \<le> 2 * int k + 1" using assms(1) by simp
  then show ?thesis by linarith
qed

text \<open>A number with more than \<open>p\<close> bits keeps at least \<open>2 ^ (p - 1)\<close> after rounding.\<close>

lemma nbits_shift_lower:
  assumes "1 \<le> p" "p < nbits n"
  shows "2 ^ (p - 1) * 2 ^ (nbits n - p) \<le> n"
proof -
  from assms have pos: "0 < n" by (auto intro: gr0I)
  from assms have "nbits n - 1 = (p - 1) + (nbits n - p)" by simp
  with nbits_lower [OF pos] show ?thesis by (metis power_add)
qed

section \<open>The value of a float\<close>

definition bf_val :: "bigfloat \<Rightarrow> rat" where
  "bf_val x = of_int (mant x) * 2 powi expo x"

text \<open>Only the zero value has precision 0.\<close>

definition bf_ok :: "bigfloat \<Rightarrow> bool" where
  "bf_ok x \<longleftrightarrow> (fprec x = 0 \<longrightarrow> mant x = 0)"

lemma powi2_pos [simp]: "0 < (2::rat) powi e"
  by (simp add: zero_less_power_int)

lemma powi2_not_le [simp]: "\<not> (2::rat) powi e \<le> 0"
  by (simp add: not_le)

lemma powi2_nat: "0 \<le> k \<Longrightarrow> (2::rat) powi k = 2 ^ nat k"
  by (simp add: power_int_def)

lemma powi2_add: "(2::rat) powi (a + b) = 2 powi a * 2 powi b"
  by (simp add: power_int_add)

lemma fprec_round [simp]: "fprec (bf_round p m e) = p"
  by (simp add: bf_round_def Let_def)

lemma fprec_ratio [simp]: "fprec (bf_ratio p a b) = p"
  by (simp add: bf_ratio_def Let_def)

lemma bf_round_exact: "nat \<bar>m\<bar> < 2 ^ p \<Longrightarrow> bf_val (bf_round p m e) = of_int m * 2 powi e"
  by (simp add: bf_round_def Let_def bf_val_def nbits_le_iff)

text \<open>Rounding keeps the sign: a non-zero value never rounds to zero.\<close>

lemma bf_round_sgn:
  assumes "1 \<le> p"
  shows "sgn (mant (bf_round p m e)) = sgn m"
proof (cases "nbits (nat \<bar>m\<bar>) \<le> p")
  case True
  then show ?thesis by (simp add: bf_round_def Let_def)
next
  case False
  let ?n = "nat \<bar>m\<bar>"
  from False assms have "2 ^ (p - 1) * 2 ^ (nbits ?n - p) \<le> ?n"
    by (intro nbits_shift_lower) auto
  then have "2 ^ (p - 1) \<le> rne_div ?n (2 ^ (nbits ?n - p))"
    by (intro rne_div_ge) auto
  then have "0 < rne_div ?n (2 ^ (nbits ?n - p))"
    by (meson less_le_trans pos2 zero_less_power)
  with False show ?thesis by (simp add: bf_round_def Let_def sgn_mult)
qed

text \<open>The relative rounding error is at most \<open>2 ^ - p\<close>.\<close>

lemma bf_round_error:
  assumes p: "1 \<le> p"
  shows "\<bar>bf_val (bf_round p m e) - of_int m * 2 powi e\<bar> * 2 ^ p \<le> \<bar>of_int m * 2 powi e\<bar>"
proof (cases "nbits (nat \<bar>m\<bar>) \<le> p")
  case True
  then show ?thesis by (simp add: bf_round_def Let_def bf_val_def)
next
  case False
  define n s q where "n = nat \<bar>m\<bar>" and "s = nbits n - p" and "q = rne_div n (2 ^ s)"
  from False p have low: "2 ^ (p - 1) * 2 ^ s \<le> n"
    unfolding n_def s_def by (intro nbits_shift_lower) auto
  have "\<bar>int q * int (2 ^ s) - int n\<bar> * 2 \<le> int (2 ^ s)"
    unfolding q_def by (rule rne_div_error) simp
  then have err: "\<bar>int q * 2 ^ s - int n\<bar> * 2 \<le> 2 ^ s" by simp
  have "\<bar>int q * 2 ^ s - int n\<bar> * 2 * 2 ^ (p - 1) \<le> 2 ^ s * 2 ^ (p - 1)"
    by (rule mult_right_mono [OF err]) simp
  also have "2 ^ s * 2 ^ (p - 1) = int (2 ^ (p - 1) * 2 ^ s)" by simp
  also have "\<dots> \<le> int n" using low by (simp only: of_nat_le_iff)
  finally have "\<bar>int q * 2 ^ s - int n\<bar> * 2 ^ p \<le> int n"
    using p by (cases p) (simp_all add: mult.assoc)
  then have "rat_of_int (\<bar>int q * 2 ^ s - int n\<bar> * 2 ^ p) \<le> rat_of_int (int n)"
    by (simp only: of_int_le_iff)
  then have int_err: "\<bar>rat_of_int (int q * 2 ^ s - int n)\<bar> * 2 ^ p \<le> rat_of_int (int n)"
    by (simp only: of_int_mult of_int_abs of_int_power of_int_numeral)
  have "m = sgn m * int n" by (simp add: n_def sgn_mult_abs)
  then have m: "rat_of_int m = of_int (sgn m) * of_nat n"
    by (metis of_int_mult of_int_of_nat_eq)
  have val: "bf_val (bf_round p m e) = of_int (sgn m) * of_int (int q * 2 ^ s) * 2 powi e"
    using False
    by (simp add: bf_round_def Let_def bf_val_def n_def s_def q_def powi2_add powi2_nat nat_diff_distrib)
  have "bf_val (bf_round p m e) - of_int m * 2 powi e
      = of_int (sgn m) * of_int (int q * 2 ^ s - int n) * 2 powi e"
    unfolding val by (simp add: m algebra_simps)
  then have "\<bar>bf_val (bf_round p m e) - of_int m * 2 powi e\<bar> * 2 ^ p
      = \<bar>of_int (sgn m)\<bar> * (\<bar>rat_of_int (int q * 2 ^ s - int n)\<bar> * 2 ^ p) * 2 powi e"
    by (simp add: abs_mult)
  also have "\<dots> \<le> \<bar>of_int (sgn m)\<bar> * rat_of_int (int n) * 2 powi e"
    by (intro mult_right_mono mult_left_mono int_err) (auto simp: less_imp_le)
  also have "\<dots> = \<bar>of_int m * 2 powi e\<bar>"
    by (simp add: m abs_mult)
  finally show ?thesis .
qed

section \<open>Operations of \<open>math/big\<close>\<close>

text \<open>
  \<open>bf_addp p x y\<close> is \<open>z.Add(x, y)\<close> for a receiver \<open>z\<close> of precision \<open>p\<close>; \<open>bf_add\<close> is
  \<open>new(big.Float).Add(x, y)\<close> and \<open>bf_acc z y\<close> is \<open>z.Add(z, y)\<close>, whose receiver keeps its
  precision once it has one. The same for the other operations.
\<close>

definition res_prec :: "nat \<Rightarrow> bigfloat \<Rightarrow> bigfloat \<Rightarrow> nat" where
  "res_prec p x y = (if p = 0 then max (fprec x) (fprec y) else p)"

definition sum_mant :: "bigfloat \<Rightarrow> bigfloat \<Rightarrow> int" where
  "sum_mant x y =
     (let e = min (expo x) (expo y)
      in mant x * 2 ^ nat (expo x - e) + mant y * 2 ^ nat (expo y - e))"

definition bf_addp :: "nat \<Rightarrow> bigfloat \<Rightarrow> bigfloat \<Rightarrow> bigfloat" where
  "bf_addp p x y = bf_round (res_prec p x y) (sum_mant x y) (min (expo x) (expo y))"

definition bf_neg :: "bigfloat \<Rightarrow> bigfloat" where
  "bf_neg x = BF (fprec x) (- mant x) (expo x)"

definition bf_subp :: "nat \<Rightarrow> bigfloat \<Rightarrow> bigfloat \<Rightarrow> bigfloat" where
  "bf_subp p x y = bf_addp p x (bf_neg y)"

definition bf_mulp :: "nat \<Rightarrow> bigfloat \<Rightarrow> bigfloat \<Rightarrow> bigfloat" where
  "bf_mulp p x y = bf_round (res_prec p x y) (mant x * mant y) (expo x + expo y)"

definition bf_quop :: "nat \<Rightarrow> bigfloat \<Rightarrow> bigfloat \<Rightarrow> bigfloat" where
  "bf_quop p x y =
     (let r = bf_ratio (res_prec p x y) (mant x) (mant y)
      in BF (fprec r) (mant r) (expo r + (expo x - expo y)))"

abbreviation bf_add :: "bigfloat \<Rightarrow> bigfloat \<Rightarrow> bigfloat" where "bf_add \<equiv> bf_addp 0"
abbreviation bf_sub :: "bigfloat \<Rightarrow> bigfloat \<Rightarrow> bigfloat" where "bf_sub \<equiv> bf_subp 0"
abbreviation bf_mul :: "bigfloat \<Rightarrow> bigfloat \<Rightarrow> bigfloat" where "bf_mul \<equiv> bf_mulp 0"
abbreviation bf_quo :: "bigfloat \<Rightarrow> bigfloat \<Rightarrow> bigfloat" where "bf_quo \<equiv> bf_quop 0"

text \<open>\<open>float64\<close> arithmetic.\<close>

abbreviation f64_add :: "bigfloat \<Rightarrow> bigfloat \<Rightarrow> bigfloat" where "f64_add \<equiv> bf_addp 53"
abbreviation f64_sub :: "bigfloat \<Rightarrow> bigfloat \<Rightarrow> bigfloat" where "f64_sub \<equiv> bf_subp 53"
abbreviation f64_mul :: "bigfloat \<Rightarrow> bigfloat \<Rightarrow> bigfloat" where "f64_mul \<equiv> bf_mulp 53"
abbreviation f64_quo :: "bigfloat \<Rightarrow> bigfloat \<Rightarrow> bigfloat" where "f64_quo \<equiv> bf_quop 53"

definition bf_acc :: "bigfloat \<Rightarrow> bigfloat \<Rightarrow> bigfloat" where
  "bf_acc z y = bf_addp (fprec z) z y"

definition bf_dec :: "bigfloat \<Rightarrow> bigfloat \<Rightarrow> bigfloat" where
  "bf_dec z y = bf_subp (fprec z) z y"

text \<open>\<open>new(big.Float)\<close>, \<open>Sign\<close>, \<open>Cmp\<close>, \<open>Abs\<close>, \<open>SetInt\<close>, \<open>Int\<close> and \<open>big.NewFloat\<close> of an
  integral \<open>float64\<close>. \<open>Float64\<close> rounds to 53 bits.\<close>

definition bf_zero :: bigfloat where "bf_zero = BF 0 0 0"

definition bf_sign :: "bigfloat \<Rightarrow> int" where "bf_sign x = sgn (mant x)"

definition bf_cmp :: "bigfloat \<Rightarrow> bigfloat \<Rightarrow> int" where
  "bf_cmp x y = sgn (sum_mant x (bf_neg y))"

definition bf_abs :: "bigfloat \<Rightarrow> bigfloat" where
  "bf_abs x = BF (fprec x) \<bar>mant x\<bar> (expo x)"

definition bf_of_int :: "int \<Rightarrow> bigfloat" where
  "bf_of_int z = BF (max (nbits (nat \<bar>z\<bar>)) 64) z 0"

definition bf_to_int :: "bigfloat \<Rightarrow> int" where
  "bf_to_int x =
     (if 0 \<le> expo x then mant x * 2 ^ nat (expo x)
      else sgn (mant x) * (\<bar>mant x\<bar> div 2 ^ nat (- expo x)))"

definition float64_of_int :: "int \<Rightarrow> bigfloat" where
  "float64_of_int z = bf_round 53 z 0"

definition bf_to_float64 :: "bigfloat \<Rightarrow> bigfloat" where
  "bf_to_float64 x = bf_round 53 (mant x) (expo x)"

text \<open>
  Decimal text. \<open>ParseFloat(s, 10, 128, ToNearestEven)\<close> of a decimal numeral \<open>a / 10 ^ k\<close>
  rounds that number to 128 bits; \<open>x.Text('f', k)\<close> is the nearest multiple of
  \<open>10 ^ - k\<close>, ties to even. A text with \<open>k\<close> decimals is the integer of its units
  \<open>10 ^ - k\<close>.
\<close>

definition parse_dec :: "int \<Rightarrow> nat \<Rightarrow> bigfloat" where
  "parse_dec a k = bf_ratio 128 a (10 ^ k)"

definition text_dec :: "nat \<Rightarrow> bigfloat \<Rightarrow> int" where
  "text_dec k x =
     (if 0 \<le> expo x then mant x * 2 ^ nat (expo x) * 10 ^ k
      else sgn (mant x) * int (rne_div (nat \<bar>mant x\<bar> * 10 ^ k) (2 ^ nat (- expo x))))"

section \<open>Signs, comparisons and values of the operations\<close>

lemma res_prec_pos: "1 \<le> fprec x \<Longrightarrow> 1 \<le> res_prec p x y" "1 \<le> fprec y \<Longrightarrow> 1 \<le> res_prec p x y"
  by (auto simp: res_prec_def)

lemma bf_val_neg [bf_simps]: "bf_val (bf_neg x) = - bf_val x"
  by (simp add: bf_val_def bf_neg_def)

lemma bf_val_zero [bf_simps]: "bf_val bf_zero = 0"
  by (simp add: bf_val_def bf_zero_def)

lemma bf_val_of_int [bf_simps]: "bf_val (bf_of_int z) = of_int z"
  by (simp add: bf_val_def bf_of_int_def)

lemma bf_val_abs [bf_simps]: "bf_val (bf_abs x) = \<bar>bf_val x\<bar>"
  by (simp add: bf_val_def bf_abs_def abs_mult)

lemma of_int_sgn_rat: "rat_of_int (sgn z) = sgn (of_int z)"
  by (simp add: sgn_if)

lemma bf_sign_val: "of_int (bf_sign x) = sgn (bf_val x)"
  by (simp add: bf_sign_def bf_val_def sgn_mult of_int_sgn_rat)

lemma bf_sign_cases:
  "bf_sign x = 1 \<longleftrightarrow> 0 < bf_val x" "bf_sign x = 0 \<longleftrightarrow> bf_val x = 0" "bf_sign x = - 1 \<longleftrightarrow> bf_val x < 0"
  "0 < bf_sign x \<longleftrightarrow> 0 < bf_val x" "bf_sign x \<le> 0 \<longleftrightarrow> bf_val x \<le> 0"
  "bf_sign x < 0 \<longleftrightarrow> bf_val x < 0" "0 \<le> bf_sign x \<longleftrightarrow> 0 \<le> bf_val x"
  by (auto simp: bf_sign_def bf_val_def sgn_if zero_less_mult_iff zero_le_mult_iff mult_less_0_iff mult_le_0_iff not_less not_le less_imp_le)

lemma sum_mant_val: "of_int (sum_mant x y) * 2 powi (min (expo x) (expo y)) = bf_val x + bf_val y"
proof -
  let ?e = "min (expo x) (expo y)"
  have "2 powi a = (2::rat) ^ nat (a - ?e) * 2 powi ?e" if "?e \<le> a" for a
    using that powi2_add [of "a - ?e" ?e] powi2_nat [of "a - ?e"] by simp
  from this [of "expo x"] this [of "expo y"] show ?thesis
    by (simp add: sum_mant_def Let_def bf_val_def algebra_simps)
qed

lemma bf_cmp_val: "of_int (bf_cmp x y) = sgn (bf_val x - bf_val y)"
proof -
  have "bf_val x - bf_val y
      = of_int (sum_mant x (bf_neg y)) * 2 powi (min (expo x) (expo (bf_neg y)))"
    using sum_mant_val [of x "bf_neg y"] by (simp add: bf_simps)
  then show ?thesis by (simp add: bf_cmp_def of_int_sgn_rat sgn_mult)
qed

lemma bf_cmp_cases:
  "0 \<le> bf_cmp x y \<longleftrightarrow> bf_val y \<le> bf_val x" "bf_cmp x y < 0 \<longleftrightarrow> bf_val x < bf_val y"
  "0 < bf_cmp x y \<longleftrightarrow> bf_val y < bf_val x" "bf_cmp x y \<le> 0 \<longleftrightarrow> bf_val x \<le> bf_val y"
proof -
  have "rat_of_int (bf_cmp x y) = sgn (bf_val x - bf_val y)" by (rule bf_cmp_val)
  then show "0 \<le> bf_cmp x y \<longleftrightarrow> bf_val y \<le> bf_val x" "bf_cmp x y < 0 \<longleftrightarrow> bf_val x < bf_val y"
    "0 < bf_cmp x y \<longleftrightarrow> bf_val y < bf_val x" "bf_cmp x y \<le> 0 \<longleftrightarrow> bf_val x \<le> bf_val y"
    by (auto simp: sgn_if split: if_splits)
qed

lemma bf_val_sgn: "sgn (bf_val x) = of_int (sgn (mant x))"
  by (simp add: bf_val_def sgn_mult of_int_sgn_rat)

lemma bf_round_val_sgn: "1 \<le> p \<Longrightarrow> sgn (bf_val (bf_round p m e)) = sgn (of_int m)"
  by (simp add: bf_val_sgn bf_round_sgn of_int_sgn_rat)

lemma bf_round_0 [simp]: "bf_val (bf_round p 0 e) = 0"
  by (simp add: bf_round_def Let_def bf_val_def)

lemma res_prec_0: "res_prec p x y = 0 \<Longrightarrow> bf_ok x \<Longrightarrow> bf_ok y \<Longrightarrow> mant x = 0 \<and> mant y = 0"
  by (auto simp: res_prec_def bf_ok_def max_def split: if_splits)

lemma bf_addp_sgn:
  assumes "bf_ok x" "bf_ok y"
  shows "sgn (bf_val (bf_addp p x y)) = sgn (bf_val x + bf_val y)"
proof (cases "res_prec p x y = 0")
  case True
  with assms have "mant x = 0" "mant y = 0" by (auto dest: res_prec_0)
  then show ?thesis by (simp add: bf_addp_def sum_mant_def bf_val_def Let_def bf_round_def)
next
  case False
  then have "sgn (bf_val (bf_addp p x y)) = sgn (rat_of_int (sum_mant x y))"
    by (simp add: bf_addp_def bf_round_val_sgn)
  then show ?thesis
    by (simp add: sgn_mult flip: sum_mant_val)
qed

lemma bf_ok_neg [simp]: "bf_ok (bf_neg x) = bf_ok x"
  by (simp add: bf_ok_def bf_neg_def)

lemma bf_ok_zero [simp]: "bf_ok bf_zero" and bf_ok_of_int [simp]: "bf_ok (bf_of_int z)"
  and bf_ok_pos: "1 \<le> fprec x \<Longrightarrow> bf_ok x"
  by (auto simp: bf_ok_def bf_zero_def bf_of_int_def)

lemma bf_subp_sgn: "bf_ok x \<Longrightarrow> bf_ok y \<Longrightarrow> sgn (bf_val (bf_subp p x y)) = sgn (bf_val x - bf_val y)"
  by (simp add: bf_subp_def bf_addp_sgn bf_simps)

lemma bf_mulp_sgn:
  assumes "bf_ok x" "bf_ok y"
  shows "sgn (bf_val (bf_mulp p x y)) = sgn (bf_val x) * sgn (bf_val y)"
proof (cases "res_prec p x y = 0")
  case True
  with assms have "mant x = 0" "mant y = 0" by (auto dest: res_prec_0)
  then show ?thesis by (simp add: bf_mulp_def bf_val_def bf_round_def)
next
  case False
  then have "sgn (bf_val (bf_mulp p x y)) = sgn (rat_of_int (mant x * mant y))"
    by (simp add: bf_mulp_def bf_round_val_sgn)
  then show ?thesis by (simp add: bf_val_def sgn_mult)
qed

text \<open>The leading bit of a quotient.\<close>

lemma lead_exp_lower:
  assumes "0 < n" "0 < d"
  shows "2 powi (lead_exp n d - 1) * rat_of_nat d \<le> rat_of_nat n"
proof -
  define l where "l = int (nbits n) - int (nbits d)"
  have step: "2 powi (l - 1) * rat_of_nat d \<le> rat_of_nat n"
  proof -
    have "rat_of_nat d \<le> rat_of_nat (2 ^ nbits d)"
      using nbits_upper [of d] by (simp only: of_nat_le_iff less_imp_le)
    then have "2 powi (l - 1) * rat_of_nat d \<le> 2 powi (l - 1) * 2 ^ nbits d"
      by (intro mult_left_mono) (simp_all add: less_imp_le)
    also have "\<dots> = 2 powi (int (nbits n) - 1)"
      by (simp add: l_def flip: power_int_of_nat powi2_add)
    also have "\<dots> = rat_of_nat (2 ^ (nbits n - 1))"
    proof -
      have "1 \<le> nbits n" using assms(1) by (simp add: nbits.simps [of n])
      then have "int (nbits n) - 1 = int (nbits n - 1)" by simp
      then show ?thesis by (simp only: power_int_of_nat of_nat_power of_nat_numeral)
    qed
    also have "\<dots> \<le> rat_of_nat n" using nbits_lower [OF assms(1)] by (simp only: of_nat_le_iff)
    finally show ?thesis .
  qed
  have ge: "2 powi l * rat_of_nat d \<le> rat_of_nat n"
    if c: "if 0 \<le> l then d * 2 ^ nat l \<le> n else d \<le> n * 2 ^ nat (- l)"
  proof (cases "0 \<le> l")
    case True
    with c have "rat_of_nat (d * 2 ^ nat l) \<le> rat_of_nat n" by (simp only: of_nat_le_iff if_True)
    with True show ?thesis by (simp add: powi2_nat mult.commute)
  next
    case False
    with c have "rat_of_nat d \<le> rat_of_nat (n * 2 ^ nat (- l))" by (simp only: of_nat_le_iff if_False)
    then have "2 powi l * rat_of_nat d \<le> 2 powi l * (rat_of_nat n * 2 powi (- l))"
      using False by (intro mult_left_mono) (auto simp: powi2_nat less_imp_le)
    also have "\<dots> = rat_of_nat n * (2 powi (l + - l))" by (simp only: powi2_add ac_simps)
    finally show ?thesis by simp
  qed
  show ?thesis using step ge by (auto simp: lead_exp_def Let_def simp flip: l_def)
qed

lemma ratio_unit_error:
  assumes n: "0 < n" and d: "0 < d"
    and q: "q = (if 0 \<le> t then rne_div n (d * 2 ^ nat t) else rne_div (n * 2 ^ nat (- t)) d)"
  shows "\<bar>rat_of_nat q * 2 powi t * rat_of_nat d - rat_of_nat n\<bar> * 2 \<le> 2 powi t * rat_of_nat d"
proof (cases "0 \<le> t")
  case True
  have "\<bar>int q * int (d * 2 ^ nat t) - int n\<bar> * 2 \<le> int (d * 2 ^ nat t)"
    unfolding q using True d by (simp only: if_True) (rule rne_div_error, simp)
  then have "rat_of_int (\<bar>int q * int (d * 2 ^ nat t) - int n\<bar> * 2) \<le> rat_of_int (int (d * 2 ^ nat t))"
    by (simp only: of_int_le_iff)
  with True show ?thesis by (simp add: powi2_nat mult_ac)
next
  case False
  have "\<bar>int q * int d - int (n * 2 ^ nat (- t))\<bar> * 2 \<le> int d"
    unfolding q using False d by (simp only: if_False) (rule rne_div_error)
  then have "rat_of_int (\<bar>int q * int d - int (n * 2 ^ nat (- t))\<bar> * 2) \<le> rat_of_int (int d)"
    by (simp only: of_int_le_iff)
  then have err: "\<bar>rat_of_nat q * rat_of_nat d - rat_of_nat n * 2 powi (- t)\<bar> * 2 \<le> rat_of_nat d"
    using False by (simp add: powi2_nat)
  have "rat_of_nat q * 2 powi t * rat_of_nat d - rat_of_nat n
      = (rat_of_nat q * rat_of_nat d - rat_of_nat n * 2 powi (- t)) * 2 powi t"
    using powi2_add [of t "- t"] by (simp add: algebra_simps)
  then have "\<bar>rat_of_nat q * 2 powi t * rat_of_nat d - rat_of_nat n\<bar> * 2
      = (\<bar>rat_of_nat q * rat_of_nat d - rat_of_nat n * 2 powi (- t)\<bar> * 2) * 2 powi t"
    by (simp add: abs_mult)
  also have "\<dots> \<le> rat_of_nat d * 2 powi t"
    by (rule mult_right_mono [OF err]) (simp add: less_imp_le)
  finally show ?thesis by (simp add: mult.commute)
qed

lemma bf_ratio_error:
  assumes p: "1 \<le> p" and b: "b \<noteq> 0"
  shows "\<bar>bf_val (bf_ratio p a b) - of_int a / of_int b\<bar> * 2 ^ p \<le> \<bar>of_int a / of_int b\<bar>"
proof (cases "a = 0")
  case True
  then show ?thesis by (simp add: bf_ratio_def Let_def bf_val_def)
next
  case False
  define n d t where "n = nat \<bar>a\<bar>" and "d = nat \<bar>b\<bar>" and "t = lead_exp n d - int p"
  define q where "q = (if 0 \<le> t then rne_div n (d * 2 ^ nat t) else rne_div (n * 2 ^ nat (- t)) d)"
  from False b have nd: "0 < n" "0 < d" by (simp_all add: n_def d_def)
  have err: "\<bar>rat_of_nat q * 2 powi t * rat_of_nat d - rat_of_nat n\<bar> * 2 \<le> 2 powi t * rat_of_nat d"
    by (rule ratio_unit_error [OF nd q_def])
  have "2 powi (lead_exp n d - 1) = 2 powi t * (2::rat) ^ (p - 1)"
  proof -
    have "lead_exp n d - 1 = t + int (p - 1)" using p by (simp add: t_def)
    then show ?thesis by (simp only: powi2_add power_int_of_nat)
  qed
  with lead_exp_lower [OF nd] have low: "2 powi t * rat_of_nat d * 2 ^ (p - 1) \<le> rat_of_nat n"
    by (simp add: mult_ac)
  have "\<bar>rat_of_nat q * 2 powi t * rat_of_nat d - rat_of_nat n\<bar> * 2 * 2 ^ (p - 1)
      \<le> 2 powi t * rat_of_nat d * 2 ^ (p - 1)"
    by (rule mult_right_mono [OF err]) simp
  also note low
  finally have e2: "\<bar>rat_of_nat q * 2 powi t * rat_of_nat d - rat_of_nat n\<bar> * 2 ^ p \<le> rat_of_nat n"
    using p by (cases p) (simp_all add: mult.assoc)
  have ab: "rat_of_int a = of_int (sgn a) * rat_of_nat n" "rat_of_int b = of_int (sgn b) * rat_of_nat d"
    by (simp_all add: n_def d_def of_int_sgn_rat sgn_mult_abs)
  have sb: "rat_of_int (sgn b) * rat_of_int (sgn b) = 1" using b by (simp add: sgn_if)
  have quot: "rat_of_int a / rat_of_int b = of_int (sgn a * sgn b) * (rat_of_nat n / rat_of_nat d)"
    using b sb by (simp add: ab sgn_if)
  have val: "bf_val (bf_ratio p a b) = of_int (sgn a * sgn b) * (rat_of_nat q * 2 powi t)"
    using False by (simp add: bf_ratio_def Let_def bf_val_def n_def d_def t_def q_def)
  have sg: "\<bar>rat_of_int (sgn a * sgn b)\<bar> = 1" using False b by (simp add: sgn_if)
  have r1: "\<bar>bf_val (bf_ratio p a b) - of_int a / of_int b\<bar> = \<bar>rat_of_nat q * 2 powi t - rat_of_nat n / rat_of_nat d\<bar>"
    unfolding quot val using sg by (metis abs_mult mult_1 right_diff_distrib)
  have r2: "\<bar>rat_of_int a / rat_of_int b\<bar> = rat_of_nat n / rat_of_nat d"
    unfolding quot using sg by (simp only: abs_mult) simp
  have r3: "\<bar>rat_of_nat q * 2 powi t - rat_of_nat n / rat_of_nat d\<bar> * 2 ^ p * rat_of_nat d
      = \<bar>rat_of_nat q * 2 powi t * rat_of_nat d - rat_of_nat n\<bar> * 2 ^ p"
  proof -
    have "rat_of_nat q * 2 powi t * rat_of_nat d - rat_of_nat n
        = (rat_of_nat q * 2 powi t - rat_of_nat n / rat_of_nat d) * rat_of_nat d"
      using nd(2) by (simp add: field_simps)
    then show ?thesis by (simp add: abs_mult)
  qed
  have d_pos: "0 < rat_of_nat d" using nd(2) by simp
  show ?thesis unfolding r1 r2 pos_le_divide_eq [OF d_pos] r3 by (rule e2)
qed

text \<open>A quotient that is not zero does not round to zero, and keeps its sign.\<close>

lemma half_error_sgn:
  fixes r v :: rat
  assumes "\<bar>r - v\<bar> * 2 \<le> \<bar>v\<bar>"
  shows "sgn r = sgn v"
proof -
  have a: "(v - r) * 2 \<le> \<bar>v\<bar>" using assms abs_ge_minus_self [of "r - v"] by simp
  have b: "(r - v) * 2 \<le> \<bar>v\<bar>" using assms abs_ge_self [of "r - v"] by simp
  have "0 < r" if "0 < v" using a that by simp
  moreover have "r < 0" if "v < 0" using b that by simp
  moreover have "r = 0" if "v = 0" using a b that by simp
  ultimately show ?thesis by (cases v "0::rat" rule: linorder_cases) simp_all
qed

lemma bf_ratio_sgn:
  assumes p: "1 \<le> p" and b: "b \<noteq> 0"
  shows "sgn (bf_val (bf_ratio p a b)) = sgn (of_int a / of_int b)"
proof -
  let ?v = "rat_of_int a / rat_of_int b" and ?r = "bf_val (bf_ratio p a b)"
  have "(2::rat) ^ 1 \<le> 2 ^ p" using p by (intro power_increasing) auto
  then have "\<bar>?r - ?v\<bar> * 2 \<le> \<bar>?r - ?v\<bar> * 2 ^ p" by (intro mult_left_mono) auto
  with bf_ratio_error [OF p b, of a] have "\<bar>?r - ?v\<bar> * 2 \<le> \<bar>?v\<bar>" by (rule order_trans [rotated])
  then show ?thesis by (rule half_error_sgn)
qed

lemma bf_val_quop: "bf_val (bf_quop p x y)
    = bf_val (bf_ratio (res_prec p x y) (mant x) (mant y)) * 2 powi (expo x - expo y)"
  by (simp add: bf_quop_def Let_def bf_val_def powi2_add)

lemma bf_val_frac: "bf_val x / bf_val y = of_int (mant x) / of_int (mant y) * 2 powi (expo x - expo y)"
  using powi2_add [of "expo x - expo y" "expo y"] by (simp add: bf_val_def)

lemma bf_quop_sgn:
  assumes "1 \<le> res_prec p x y" "bf_val y \<noteq> 0"
  shows "sgn (bf_val (bf_quop p x y)) = sgn (bf_val x / bf_val y)"
proof -
  from assms(2) have "mant y \<noteq> 0" by (auto simp: bf_val_def)
  with assms(1) show ?thesis by (simp add: bf_val_quop bf_val_frac sgn_mult bf_ratio_sgn)
qed

section \<open>Error bounds\<close>

text \<open>\<open>near p r v\<close>: \<open>r\<close> is \<open>v\<close> up to a relative error of \<open>2 ^ - p\<close>.\<close>

definition near :: "nat \<Rightarrow> rat \<Rightarrow> rat \<Rightarrow> bool" where
  "near p r v \<longleftrightarrow> \<bar>r - v\<bar> * 2 ^ p \<le> \<bar>v\<bar>"

lemma near_scale:
  assumes "near p r v"
  shows "near p (r * 2 powi e) (v * 2 powi e)"
proof -
  have "r * 2 powi e - v * 2 powi e = (r - v) * 2 powi e" by (simp add: algebra_simps)
  then have "\<bar>r * 2 powi e - v * 2 powi e\<bar> * 2 ^ p = (\<bar>r - v\<bar> * 2 ^ p) * 2 powi e" by (simp add: abs_mult)
  also have "\<dots> \<le> \<bar>v\<bar> * 2 powi e"
    using assms by (intro mult_right_mono) (auto simp: near_def less_imp_le)
  finally show ?thesis by (simp add: near_def abs_mult)
qed

lemma bf_addp_near:
  "1 \<le> res_prec p x y \<Longrightarrow> near (res_prec p x y) (bf_val (bf_addp p x y)) (bf_val x + bf_val y)"
  using bf_round_error [of "res_prec p x y" "sum_mant x y" "min (expo x) (expo y)"]
  by (simp add: near_def bf_addp_def sum_mant_val)

lemma bf_mulp_near:
  "1 \<le> res_prec p x y \<Longrightarrow> near (res_prec p x y) (bf_val (bf_mulp p x y)) (bf_val x * bf_val y)"
  using bf_round_error [of "res_prec p x y" "mant x * mant y" "expo x + expo y"]
  by (simp add: near_def bf_mulp_def bf_val_def powi2_add mult_ac)

lemma bf_quop_near:
  assumes "1 \<le> res_prec p x y" "bf_val y \<noteq> 0"
  shows "near (res_prec p x y) (bf_val (bf_quop p x y)) (bf_val x / bf_val y)"
proof -
  from assms(2) have "mant y \<noteq> 0" by (auto simp: bf_val_def)
  then have "near (res_prec p x y) (bf_val (bf_ratio (res_prec p x y) (mant x) (mant y)))
      (of_int (mant x) / of_int (mant y))"
    unfolding near_def by (intro bf_ratio_error assms(1))
  then show ?thesis unfolding bf_val_quop bf_val_frac by (rule near_scale)
qed

text \<open>\<open>Int\<close> truncates towards zero.\<close>

lemma bf_to_int_floor:
  assumes "0 \<le> bf_val x"
  shows "of_int (bf_to_int x) \<le> bf_val x" "bf_val x < of_int (bf_to_int x) + 1" "0 \<le> bf_to_int x"
proof -
  from assms have m: "0 \<le> mant x" by (simp add: bf_val_def zero_le_mult_iff)
  have "of_int (bf_to_int x) \<le> bf_val x \<and> bf_val x < of_int (bf_to_int x) + 1 \<and> 0 \<le> bf_to_int x"
  proof (cases "0 \<le> expo x")
    case True
    then show ?thesis using m by (simp add: bf_to_int_def bf_val_def powi2_nat)
  next
    case False
    define D where "D = (2::int) ^ nat (- expo x)"
    have D: "0 < D" by (simp add: D_def)
    have i: "bf_to_int x = mant x div D"
      using False m by (cases "mant x = 0") (simp_all add: bf_to_int_def D_def)
    have "2 powi expo x * rat_of_int D = 1"
      using False powi2_add [of "expo x" "- expo x"] by (simp add: D_def powi2_nat)
    then have v: "bf_val x = rat_of_int (mant x) / rat_of_int D"
      using D by (simp add: bf_val_def field_simps)
    have "\<lfloor>rat_of_int (mant x) / rat_of_int D\<rfloor> = mant x div D" by (rule floor_divide_of_int_eq)
    then have fl: "bf_to_int x = \<lfloor>bf_val x\<rfloor>" by (simp add: i v)
    have "of_int \<lfloor>bf_val x\<rfloor> \<le> bf_val x" "bf_val x < of_int \<lfloor>bf_val x\<rfloor> + 1" by linarith+
    with assms show ?thesis by (simp add: fl)
  qed
  then show "of_int (bf_to_int x) \<le> bf_val x" "bf_val x < of_int (bf_to_int x) + 1" "0 \<le> bf_to_int x"
    by blast+
qed

text \<open>\<open>Float64\<close> rounds to 53 bits and keeps the sign; the literals of the code are exact.\<close>

lemma bf_to_float64_near: "near 53 (bf_val (bf_to_float64 x)) (bf_val x)"
  using bf_round_error [of 53 "mant x" "expo x"]
  by (simp add: near_def bf_to_float64_def bf_val_def)

lemma near_sgn: "1 \<le> p \<Longrightarrow> near p r v \<Longrightarrow> sgn r = sgn v"
proof (rule half_error_sgn)
  assume p: "1 \<le> p" and n: "near p r v"
  have "(2::rat) ^ 1 \<le> 2 ^ p" using p by (intro power_increasing) auto
  then have "\<bar>r - v\<bar> * 2 \<le> \<bar>r - v\<bar> * 2 ^ p" by (intro mult_left_mono) auto
  with n show "\<bar>r - v\<bar> * 2 \<le> \<bar>v\<bar>" unfolding near_def by (rule order_trans [rotated])
qed

lemma bf_to_float64_pos: "0 < bf_val (bf_to_float64 x) \<longleftrightarrow> 0 < bf_val x"
  using near_sgn [OF _ bf_to_float64_near [of x]] by (metis numeral_One one_le_numeral sgn_greater)

lemma bf_val_float64_of_int: "\<bar>z\<bar> < 2 ^ 53 \<Longrightarrow> bf_val (float64_of_int z) = of_int z"
  using bf_round_exact [of z 53 0] by (simp add: float64_of_int_def nat_less_iff)

lemma bf_ok_float64 [simp]: "bf_ok (float64_of_int z)" "bf_ok (bf_to_float64 x)"
  by (simp_all add: bf_ok_def float64_of_int_def bf_to_float64_def)

lemma fprec_float64 [simp]: "fprec (float64_of_int z) = 53" "fprec (bf_to_float64 x) = 53"
  by (simp_all add: float64_of_int_def bf_to_float64_def)

lemma fprec_ops [simp]:
  "fprec (bf_addp p x y) = res_prec p x y" "fprec (bf_subp p x y) = res_prec p x y"
  "fprec (bf_mulp p x y) = res_prec p x y" "fprec (bf_quop p x y) = res_prec p x y"
  "fprec (bf_neg x) = fprec x" "fprec (bf_of_int z) = max (nbits (nat \<bar>z\<bar>)) 64"
  "fprec bf_zero = 0"
  by (simp_all add: bf_addp_def bf_subp_def bf_mulp_def bf_quop_def Let_def bf_neg_def
      res_prec_def bf_of_int_def bf_zero_def)

text \<open>Every result of an operation on well-formed floats is well-formed.\<close>

lemma bf_ok_addp [simp]: "bf_ok x \<Longrightarrow> bf_ok y \<Longrightarrow> bf_ok (bf_addp p x y)"
proof -
  assume ok: "bf_ok x" "bf_ok y"
  show "bf_ok (bf_addp p x y)"
  proof (cases "res_prec p x y = 0")
    case True
    with ok have "mant x = 0" "mant y = 0" by (auto dest: res_prec_0)
    then show ?thesis by (simp add: bf_ok_def bf_addp_def sum_mant_def Let_def bf_round_def)
  qed (simp add: bf_ok_def)
qed

lemma bf_ok_subp [simp]: "bf_ok x \<Longrightarrow> bf_ok y \<Longrightarrow> bf_ok (bf_subp p x y)"
  by (simp add: bf_subp_def)

lemma bf_ok_mulp [simp]: "bf_ok x \<Longrightarrow> bf_ok y \<Longrightarrow> bf_ok (bf_mulp p x y)"
proof -
  assume ok: "bf_ok x" "bf_ok y"
  show "bf_ok (bf_mulp p x y)"
  proof (cases "res_prec p x y = 0")
    case True
    with ok have "mant x = 0" "mant y = 0" by (auto dest: res_prec_0)
    then show ?thesis by (simp add: bf_ok_def bf_mulp_def bf_round_def)
  qed (simp add: bf_ok_def)
qed

lemma bf_ok_acc [simp]: "bf_ok x \<Longrightarrow> bf_ok y \<Longrightarrow> bf_ok (bf_acc x y)"
  and bf_ok_dec [simp]: "bf_ok x \<Longrightarrow> bf_ok y \<Longrightarrow> bf_ok (bf_dec x y)"
  by (simp_all add: bf_acc_def bf_dec_def)

lemma fprec_parse_dec [simp]: "fprec (parse_dec a k) = 128"
  by (simp add: parse_dec_def)

lemma bf_ok_parse_dec [simp]: "bf_ok (parse_dec a k)"
  by (simp add: bf_ok_def)

lemma parse_dec_near: "near 128 (bf_val (parse_dec a k)) (of_int a / 10 ^ k)"
  using bf_ratio_error [of 128 "10 ^ k" a] by (simp add: near_def parse_dec_def)

text \<open>A near value is not much smaller, and not much larger, than the exact one.\<close>

lemma near_lower:
  assumes "near p r v"
  shows "\<bar>v\<bar> * (1 - 1 / 2 ^ p) \<le> \<bar>r\<bar>"
proof -
  have "\<bar>v\<bar> - \<bar>r\<bar> \<le> \<bar>r - v\<bar>" by linarith
  then have "(\<bar>v\<bar> - \<bar>r\<bar>) * 2 ^ p \<le> \<bar>r - v\<bar> * 2 ^ p" by (rule mult_right_mono) simp
  also have "\<dots> \<le> \<bar>v\<bar>" using assms by (simp only: near_def)
  finally have "(\<bar>v\<bar> - \<bar>r\<bar>) * 2 ^ p \<le> \<bar>v\<bar>" .
  then show ?thesis by (simp add: field_simps)
qed

lemma near_upper:
  assumes "near p r v"
  shows "\<bar>r\<bar> \<le> \<bar>v\<bar> * (1 + 1 / 2 ^ p)"
proof -
  have "\<bar>r\<bar> - \<bar>v\<bar> \<le> \<bar>r - v\<bar>" by linarith
  then have "(\<bar>r\<bar> - \<bar>v\<bar>) * 2 ^ p \<le> \<bar>r - v\<bar> * 2 ^ p" by (rule mult_right_mono) simp
  also have "\<dots> \<le> \<bar>v\<bar>" using assms by (simp only: near_def)
  finally have "(\<bar>r\<bar> - \<bar>v\<bar>) * 2 ^ p \<le> \<bar>v\<bar>" .
  then show ?thesis by (simp add: field_simps)
qed

section \<open>Chains of rounded operations\<close>

text \<open>\<open>relerr e r v\<close>: \<open>r\<close> is \<open>v\<close> up to the relative error \<open>e\<close>.\<close>

definition relerr :: "rat \<Rightarrow> rat \<Rightarrow> rat \<Rightarrow> bool" where
  "relerr e r v \<longleftrightarrow> \<bar>r - v\<bar> \<le> e * \<bar>v\<bar>"

lemma relerr_near: "near p r v \<Longrightarrow> relerr (1 / 2 ^ p) r v"
  by (simp add: near_def relerr_def field_simps)

lemma relerr_refl [simp]: "0 \<le> e \<Longrightarrow> relerr e r r"
  by (simp add: relerr_def)

lemma relerr_mono: "relerr e r v \<Longrightarrow> e \<le> f \<Longrightarrow> relerr f r v"
  unfolding relerr_def by (meson abs_ge_zero mult_right_mono order_trans)

lemma relerr_near_ge: "near p r v \<Longrightarrow> q \<le> p \<Longrightarrow> relerr (1 / 2 ^ q) r v"
  by (rule relerr_mono [OF relerr_near]) (simp_all add: field_simps)

lemma relerr_abs: "relerr e r v \<Longrightarrow> \<bar>r\<bar> \<le> (1 + e) * \<bar>v\<bar>"
  unfolding relerr_def by (simp add: distrib_right)

lemma relerr_trans:
  assumes "relerr e r v" "relerr f s r" "0 \<le> f"
  shows "relerr (e + f + e * f) s v"
proof -
  have "\<bar>s - v\<bar> \<le> \<bar>s - r\<bar> + \<bar>r - v\<bar>" by simp
  also have "\<dots> \<le> f * \<bar>r\<bar> + e * \<bar>v\<bar>" using assms(1,2) by (simp add: relerr_def add_mono)
  also have "\<dots> \<le> f * ((1 + e) * \<bar>v\<bar>) + e * \<bar>v\<bar>"
    using relerr_abs [OF assms(1)] assms(3) by (simp add: mult_left_mono)
  finally show ?thesis by (simp add: relerr_def algebra_simps)
qed

lemma relerr_mult:
  assumes "relerr e r v" "0 \<le> e"
  shows "relerr e (r * c) (v * c)"
proof -
  have "\<bar>r * c - v * c\<bar> = \<bar>r - v\<bar> * \<bar>c\<bar>" by (simp add: left_diff_distrib flip: abs_mult)
  also have "\<dots> \<le> e * \<bar>v\<bar> * \<bar>c\<bar>" using assms by (simp add: relerr_def mult_right_mono)
  finally show ?thesis by (simp add: relerr_def abs_mult mult.assoc)
qed

lemma relerr_add:
  assumes "relerr e r v" "relerr e s w" "0 \<le> v" "0 \<le> w"
  shows "relerr e (r + s) (v + w)"
proof -
  have "\<bar>(r + s) - (v + w)\<bar> \<le> \<bar>r - v\<bar> + \<bar>s - w\<bar>" by simp
  also have "\<dots> \<le> e * \<bar>v\<bar> + e * \<bar>w\<bar>" using assms(1,2) by (simp add: relerr_def add_mono)
  finally show ?thesis using assms(3,4) by (simp add: relerr_def distrib_left)
qed

lemma relerr_bounds:
  assumes "relerr e r v" "0 \<le> v"
  shows "v * (1 - e) \<le> r" "r \<le> v * (1 + e)"
  using assms by (simp_all add: relerr_def algebra_simps abs_le_iff)

lemma relerr_nonneg: "relerr e r v \<Longrightarrow> 0 \<le> v \<Longrightarrow> e \<le> 1 \<Longrightarrow> 0 \<le> r"
  using relerr_bounds(1) [of e r v] by (meson diff_ge_0_iff_ge mult_nonneg_nonneg order_trans)

end
