(* ===== verification/Types.thy ===== *)
theory Types
  imports GoFloat
begin

text \<open>
  The data the billing components exchange: a request-log row and its receipt
  (\<open>settlement/scanner.go\<close>, \<open>gateway/requestlog.go\<close>), the settlement configuration
  (\<open>settlement/config.go\<close>) and token usage (\<open>gateway/gateway.go\<close>). Token counts and
  statuses are Go \<open>int\<close>s; nothing in the code lets them come near \<open>2 ^ 63\<close>, and they are
  mathematical integers here.
\<close>

section \<open>Request records\<close>

record receipt =
  rc_v :: int
  rc_request_id :: string
  rc_model :: string
  rc_request_sha :: string
  rc_response_sha :: string
  rc_prompt :: int
  rc_completion :: int
  rc_cached :: int
  rc_ts :: int
  rc_pubkey :: string
  rc_sig :: string
  rc_verified :: bool
  rc_verify_error :: string

record request_record =
  rr_id :: string
  rr_timestamp :: gotime
  rr_api_key :: string
  rr_wallet :: string
  rr_worker :: string
  rr_path :: string
  rr_model :: string
  rr_status :: int
  rr_error :: string
  rr_duration :: int
  rr_prompt :: int
  rr_completion :: int
  rr_cached :: int
  rr_total :: int
  rr_receipt :: "receipt option"

text \<open>The gateway's row has one more field, which the settlement side ignores.\<close>

record gw_record = request_record +
  gr_resumes :: int

section \<open>Configuration\<close>

text \<open>
  A number in the configuration is text. What the code does with it depends on three
  things only: it is empty, it is a decimal numeral \<open>a / 10 ^ k\<close>, or \<open>ParseFloat\<close> rejects
  it.
\<close>

datatype usd_text = NoText | DecText int nat | BadText

definition ParseFloat :: "usd_text \<Rightarrow> bigfloat option" where
  "ParseFloat s = (case s of DecText a k \<Rightarrow> Some (parse_dec a k) | _ \<Rightarrow> None)"

record token_config =
  tok_symbol :: string
  tok_address :: string
  tok_decimals :: nat

record model_info =
  mi_input :: usd_text
  mi_cache_read :: usd_text
  mi_context_window :: int
  mi_max_output :: int

record settlement_config =
  cfg_Enabled :: bool
  cfg_RPCURL :: string
  cfg_RPCURLs :: "string list"
  cfg_ChainID :: int
  cfg_ContractAddress :: string
  cfg_ContractSchema :: int
  cfg_OperatorPrivateKey :: string
  cfg_IntervalMinutes :: int
  cfg_MaxBatchSize :: int
  cfg_ModelPricesUSD :: "(string \<times> usd_text) list option"
  cfg_FILPriceUSD :: usd_text
  cfg_FILPriceSource :: string
  cfg_FILPriceSources :: "string list"
  cfg_FILPriceRefreshSec :: int
  cfg_StablecoinSymbol :: string
  cfg_StablecoinPriceSources :: "string list"
  cfg_StablecoinDepegBps :: int
  cfg_StablecoinPriceRefreshSec :: int
  cfg_SupportedTokens :: "token_config list"
  cfg_BalanceRefreshSec :: int
  cfg_MinBalanceFIL :: usd_text
  cfg_MaxPendingSpend :: usd_text
  cfg_DefaultMaxTokens :: int
  cfg_OperatorMinBalance :: usd_text
  cfg_ConfirmationDepth :: "int option"
  cfg_ReconcileIntervalMinutes :: int
  cfg_ReconcileToleranceUSD :: usd_text
  cfg_SPAddressMap :: "string \<rightharpoonup> string"
  cfg_DeductionPriority :: "string list"
  cfg_DebtSuspendUSD :: usd_text
  cfg_ModelCatalog :: "(string \<times> model_info) list option"

text \<open>A configuration of which no key is given: Go's zero value. A nil map is \<open>None\<close>.\<close>

definition zero_config :: settlement_config where
  "zero_config = \<lparr>cfg_Enabled = False, cfg_RPCURL = '''', cfg_RPCURLs = [], cfg_ChainID = 0,
     cfg_ContractAddress = '''', cfg_ContractSchema = 0, cfg_OperatorPrivateKey = '''',
     cfg_IntervalMinutes = 0, cfg_MaxBatchSize = 0, cfg_ModelPricesUSD = None,
     cfg_FILPriceUSD = NoText, cfg_FILPriceSource = '''', cfg_FILPriceSources = [],
     cfg_FILPriceRefreshSec = 0, cfg_StablecoinSymbol = '''', cfg_StablecoinPriceSources = [],
     cfg_StablecoinDepegBps = 0, cfg_StablecoinPriceRefreshSec = 0, cfg_SupportedTokens = [],
     cfg_BalanceRefreshSec = 0, cfg_MinBalanceFIL = NoText, cfg_MaxPendingSpend = NoText,
     cfg_DefaultMaxTokens = 0, cfg_OperatorMinBalance = NoText, cfg_ConfirmationDepth = None,
     cfg_ReconcileIntervalMinutes = 0, cfg_ReconcileToleranceUSD = NoText,
     cfg_SPAddressMap = Map.empty, cfg_DeductionPriority = [], cfg_DebtSuspendUSD = NoText,
     cfg_ModelCatalog = None\<rparr>"

section \<open>Token usage\<close>

record tokenUsage =
  PromptTokens :: int
  CompletionTokens :: int
  CachedTokens :: int
  TotalTokens :: int

definition no_usage :: tokenUsage where
  "no_usage = \<lparr>PromptTokens = 0, CompletionTokens = 0, CachedTokens = 0, TotalTokens = 0\<rparr>"

text \<open>The rows settlement bills (\<open>Scanner.isBillable\<close>).\<close>

definition isBillable :: "('a) request_record_scheme \<Rightarrow> bool" where
  "isBillable rec \<longleftrightarrow>
     rr_status rec = 200 \<and> rr_total rec > 0 \<and> rr_wallet rec \<noteq> '''' \<and> rr_error rec = ''''"

text \<open>A billable row, for concrete instances.\<close>

definition sample_record :: request_record where
  "sample_record = \<lparr>rr_id = ''r1'', rr_timestamp = 1, rr_api_key = ''k'', rr_wallet = ''0xu'',
     rr_worker = ''w1'', rr_path = ''/v1/chat/completions'', rr_model = ''m'', rr_status = 200,
     rr_error = '''', rr_duration = 10, rr_prompt = 1000, rr_completion = 500, rr_cached = 0,
     rr_total = 1500, rr_receipt = None\<rparr>"

end
