(* ===== verification/Config.thy ===== *)
theory Config
  imports Types
begin

text \<open>
  The settlement configuration (\<open>settlement/config.go\<close>): the defaults and the validation run
  at start-up. The proofs show what the later components rely on: after defaulting there is
  a price entry for every model, and in a validated, enabled configuration every symbol of the
  deduction order names a supported token.
\<close>

section \<open>Defaults\<close>

definition default_price :: usd_text where "default_price = DecText 20 2"

text \<open>\<open>if_unset z d x\<close>: a field with its zero value \<open>z\<close> takes the default \<open>d\<close>. The defaults of the
  fields are independent of each other, so one record update makes all of them.\<close>

definition if_unset :: "'a \<Rightarrow> 'a \<Rightarrow> 'a \<Rightarrow> 'a" where
  "if_unset z d x = (if x = z then d else x)"

definition default_model_prices :: "(string \<times> usd_text) list option \<Rightarrow> (string \<times> usd_text) list" where
  "default_model_prices m =
     (case m of
        None \<Rightarrow> [(''default'', default_price)]
      | Some prices \<Rightarrow>
          if alookup prices ''default'' = None then aput ''default'' default_price prices else prices)"

definition ApplyDefaults :: "settlement_config \<Rightarrow> settlement_config" where
  "ApplyDefaults c = c\<lparr>
     cfg_IntervalMinutes := if_unset 0 15 (cfg_IntervalMinutes c),
     cfg_MaxBatchSize := if_unset 0 50 (cfg_MaxBatchSize c),
     cfg_BalanceRefreshSec := if_unset 0 30 (cfg_BalanceRefreshSec c),
     cfg_FILPriceRefreshSec := if_unset 0 300 (cfg_FILPriceRefreshSec c),
     cfg_DefaultMaxTokens := if_unset 0 4096 (cfg_DefaultMaxTokens c),
     cfg_FILPriceSource := if_unset '''' ''manual'' (cfg_FILPriceSource c),
     cfg_FILPriceSources := if_unset [] [''coingecko'', ''binance''] (cfg_FILPriceSources c),
     cfg_StablecoinSymbol := if_unset '''' ''USDC'' (cfg_StablecoinSymbol c),
     cfg_StablecoinDepegBps := if_unset 0 200 (cfg_StablecoinDepegBps c),
     cfg_StablecoinPriceRefreshSec := if_unset 0 300 (cfg_StablecoinPriceRefreshSec c),
     cfg_DeductionPriority := if_unset [] [''USDC'', ''FIL''] (cfg_DeductionPriority c),
     cfg_OperatorMinBalance := if_unset NoText (DecText 1 1) (cfg_OperatorMinBalance c),
     cfg_ConfirmationDepth := if_unset None (Some 5) (cfg_ConfirmationDepth c),
     cfg_MinBalanceFIL := if_unset NoText (DecText 1 3) (cfg_MinBalanceFIL c),
     cfg_FILPriceUSD := if_unset NoText (DecText 350 2) (cfg_FILPriceUSD c),
     cfg_ModelPricesUSD := Some (default_model_prices (cfg_ModelPricesUSD c)),
     cfg_ModelCatalog := if_unset None (Some []) (cfg_ModelCatalog c)\<rparr>"

section \<open>Validation\<close>

datatype config_error =
    RpcUrlRequired | ContractAddressRequired | OperatorKeyRequired | ChainIdRequired
  | UnknownDeductionSymbol string
  | DepegBpsOutOfRange int
  | BadCatalogPrice string string

definition check_priority :: "settlement_config \<Rightarrow> string option" where
  "check_priority c =
     find (\<lambda>symb. symb \<notin> tok_symbol ` set (cfg_SupportedTokens c)) (cfg_DeductionPriority c)"

definition catalog_fields :: "settlement_config \<Rightarrow> (string \<times> string \<times> usd_text) list" where
  "catalog_fields c =
     concat (List.map (\<lambda>(model, info). [(model, ''input'', mi_input info), (model, ''cache_read'', mi_cache_read info)])
       (case cfg_ModelCatalog c of Some m \<Rightarrow> m | None \<Rightarrow> []))"

text \<open>\<open>Inl\<close> is the returned error. The range over the catalog map may report any of its bad
  fields; the model reports the first of the list.\<close>

definition Validate :: "settlement_config \<Rightarrow> config_error + unit" where
  "Validate c =
     (if \<not> cfg_Enabled c then Inr ()
      else if cfg_RPCURL c = '''' then Inl RpcUrlRequired
      else if cfg_ContractAddress c = '''' then Inl ContractAddressRequired
      else if cfg_OperatorPrivateKey c = '''' then Inl OperatorKeyRequired
      else if cfg_ChainID c = 0 then Inl ChainIdRequired
      else (case check_priority c of
              Some symb \<Rightarrow> Inl (UnknownDeductionSymbol symb)
            | None \<Rightarrow>
                if cfg_StablecoinDepegBps c < 0 \<or> cfg_StablecoinDepegBps c \<ge> 10000
                then Inl (DepegBpsOutOfRange (cfg_StablecoinDepegBps c))
                else (case find (\<lambda>(model, fld, v). v \<noteq> NoText \<and> ParseFloat v = None) (catalog_fields c) of
                        Some (model, fld, v) \<Rightarrow> Inl (BadCatalogPrice model fld)
                      | None \<Rightarrow> Inr ())))"

section \<open>What start-up guarantees\<close>

lemma check_priority_None:
  "check_priority c = None \<longleftrightarrow>
   (\<forall>symb\<in>set (cfg_DeductionPriority c). \<exists>t\<in>set (cfg_SupportedTokens c). tok_symbol t = symb)"
  by (auto simp: check_priority_def find_None_iff image_iff)

lemma catalog_fields_ok:
  assumes "find (\<lambda>(model, fld, v). v \<noteq> NoText \<and> ParseFloat v = None) (catalog_fields c) = None"
    and "cfg_ModelCatalog c = Some m" "(model, info) \<in> set m"
  shows "(mi_input info = NoText \<or> ParseFloat (mi_input info) \<noteq> None) \<and>
         (mi_cache_read info = NoText \<or> ParseFloat (mi_cache_read info) \<noteq> None)"
proof -
  let ?bad = "\<lambda>(model, fld, v). v \<noteq> NoText \<and> ParseFloat v = None"
  have "(model, ''input'', mi_input info) \<in> set (catalog_fields c)"
    "(model, ''cache_read'', mi_cache_read info) \<in> set (catalog_fields c)"
    using assms(2,3) by (auto simp: catalog_fields_def intro!: bexI)
  moreover have "\<not> ?bad e" if "e \<in> set (catalog_fields c)" for e
    using assms(1) that by (auto simp: find_None_iff) (metis option.distinct(1))
  ultimately have "\<not> ?bad (model, ''input'', mi_input info)"
    "\<not> ?bad (model, ''cache_read'', mi_cache_read info)" by blast+
  then show ?thesis by simp
qed

definition configured_price :: "settlement_config \<Rightarrow> string \<Rightarrow> usd_text option" where
  "configured_price c model = (case cfg_ModelPricesUSD c of None \<Rightarrow> None | Some prices \<Rightarrow> alookup prices model)"

lemma default_prices_kept:
  "\<exists>prices. cfg_ModelPricesUSD (ApplyDefaults c) = Some prices \<and>
     (\<forall>model. alookup prices model =
        (if configured_price c model = None \<and> model = ''default'' then Some default_price else configured_price c model))"
  by (auto simp: ApplyDefaults_def default_model_prices_def configured_price_def split: option.split)

lemma default_price_positive: "\<exists>p. ParseFloat default_price = Some p \<and> 0 < bf_val p"
proof -
  have "sgn (bf_val (parse_dec 20 2)) = sgn (of_int 20 / 10 ^ 2)" by (rule near_sgn [OF _ parse_dec_near]) simp
  then have "0 < bf_val (parse_dec 20 2)" by (simp add: sgn_if split: if_splits)
  then show ?thesis by (simp add: ParseFloat_def default_price_def)
qed

text \<open>
  C37: What start-up guarantees of an enabled configuration it accepts, with the defaults applied: node, contract, key and chain are set; the model
  prices are the configured ones and, if no entry \<open>default\<close> is configured, a built-in default that is a positive
  price (a configured entry is not parsed here, so its text may be no price); the deduction order is not empty and names only
  supported tokens, the depeg band is a reachable number of basis points, and every catalog price that is given parses. A configuration
  that is not enabled is accepted unchecked.
\<close>

theorem validated_config:
  assumes "Validate (ApplyDefaults c) = Inr ()" "cfg_Enabled c"
  shows "cfg_RPCURL (ApplyDefaults c) \<noteq> [] \<and> cfg_ContractAddress (ApplyDefaults c) \<noteq> [] \<and> cfg_OperatorPrivateKey (ApplyDefaults c) \<noteq> [] \<and>
    cfg_ChainID (ApplyDefaults c) \<noteq> 0 \<and>
    (\<exists>prices p. cfg_ModelPricesUSD (ApplyDefaults c) = Some prices \<and> ParseFloat default_price = Some p \<and> 0 < bf_val p \<and>
       (\<forall>model. alookup prices model =
          (if configured_price c model = None \<and> model = ''default'' then Some default_price else configured_price c model))) \<and>
    cfg_DeductionPriority (ApplyDefaults c) \<noteq> [] \<and>
    (\<forall>symb\<in>set (cfg_DeductionPriority (ApplyDefaults c)).
       \<exists>t\<in>set (cfg_SupportedTokens (ApplyDefaults c)). tok_symbol t = symb) \<and>
    0 < cfg_StablecoinDepegBps (ApplyDefaults c) \<and> cfg_StablecoinDepegBps (ApplyDefaults c) < 10000 \<and>
    (\<forall>m model info. cfg_ModelCatalog (ApplyDefaults c) = Some m \<longrightarrow> (model, info) \<in> set m \<longrightarrow>
       (mi_input info = NoText \<or> ParseFloat (mi_input info) \<noteq> None) \<and>
       (mi_cache_read info = NoText \<or> ParseFloat (mi_cache_read info) \<noteq> None))"
proof -
  let ?c = "ApplyDefaults c"
  have en: "cfg_Enabled ?c" using assms(2) by (simp add: ApplyDefaults_def)
  have nz: "cfg_DeductionPriority ?c \<noteq> []" "cfg_StablecoinDepegBps ?c \<noteq> 0"
    by (simp_all add: ApplyDefaults_def if_unset_def)
  from assms(1) en have ok: "check_priority ?c = None"
    "find (\<lambda>(model, fld, v). v \<noteq> NoText \<and> ParseFloat v = None) (catalog_fields ?c) = None"
    "0 \<le> cfg_StablecoinDepegBps ?c" "cfg_StablecoinDepegBps ?c < 10000"
    and set: "cfg_RPCURL ?c \<noteq> []" "cfg_ContractAddress ?c \<noteq> []" "cfg_OperatorPrivateKey ?c \<noteq> []" "cfg_ChainID ?c \<noteq> 0"
    by (auto simp: Validate_def not_less split: if_splits option.splits)
  obtain prices where prices: "cfg_ModelPricesUSD ?c = Some prices" "\<forall>model. alookup prices model =
      (if configured_price c model = None \<and> model = ''default'' then Some default_price else configured_price c model)"
    using default_prices_kept by blast
  obtain p where p: "ParseFloat default_price = Some p" "0 < bf_val p" using default_price_positive by blast
  show ?thesis
    using set nz prices p ok(1) [unfolded check_priority_None] ok(3,4) catalog_fields_ok [OF ok(2)]
    by (intro conjI exI [of _ prices] exI [of _ p]) auto
qed

definition sample_config :: settlement_config where
  "sample_config = zero_config\<lparr>cfg_Enabled := True, cfg_RPCURL := ''http://rpc'', cfg_ChainID := 314,
     cfg_ContractAddress := ''0xC0'', cfg_OperatorPrivateKey := ''k'',
     cfg_FILPriceSource := ''auto'', cfg_StablecoinPriceSources := [''binance''],
     cfg_SupportedTokens := [\<lparr>tok_symbol = ''USDC'', tok_address = ''0xUSDC'', tok_decimals = 6\<rparr>,
       \<lparr>tok_symbol = ''FIL'', tok_address = ''0x0'', tok_decimals = 18\<rparr>],
     cfg_ModelCatalog := Some [(''m'', \<lparr>mi_input = DecText 1 1, mi_cache_read = NoText,
       mi_context_window = 8192, mi_max_output = 1024\<rparr>)]\<rparr>"

lemma sample_config_valid: "Validate (ApplyDefaults sample_config) = Inr ()"
  by (simp add: sample_config_def zero_config_def ApplyDefaults_def if_unset_def Validate_def check_priority_def
      catalog_fields_def ParseFloat_def)

theorem validated_config_witness:
  "(\<exists>prices p. cfg_ModelPricesUSD (ApplyDefaults sample_config) = Some prices \<and> ParseFloat default_price = Some p \<and> 0 < bf_val p \<and>
     alookup prices ''default'' = Some default_price) \<and>
   0 < cfg_StablecoinDepegBps (ApplyDefaults sample_config)"
proof -
  have "cfg_Enabled sample_config" "configured_price sample_config ''default'' = None"
    by (simp_all add: sample_config_def zero_config_def configured_price_def)
  then show ?thesis using validated_config [OF sample_config_valid] by auto
qed

end
