(* ===== verification/Pricer.thy ===== *)
theory Pricer
  imports Config
begin

text \<open>
  The price oracle (\<open>settlement/pricer.go\<close>): the FIL/USD price with its staleness rule and
  plausibility filter, and the stablecoin price with its depeg latch. The HTTP sources are
  parameters: what a GET of an endpoint answered is an \<open>http_reply\<close>. Logging, metrics and the
  ticker loops are not modelled; a refresh is one call.
\<close>

section \<open>State\<close>

record pricer =
  filPriceUSD :: bigfloat
  sources :: "string list"
  pmode :: string
  lastUpdateTime :: gotime
  maxAge :: duration
  stableSymbol :: string
  stableSources :: "string list"
  stableDepegBps :: int
  stablePriceUSD :: bigfloat
  stableDepegged :: bool
  stableLastUpdate :: gotime

definition float64_3_50 :: bigfloat where "float64_3_50 = BF 53 7 (- 1)"
definition float64_1 :: bigfloat where "float64_1 = float64_of_int 1"

definition NewPricer :: "settlement_config \<Rightarrow> pricer" where
  "NewPricer cfg =
     (let initialPrice = (case ParseFloat (cfg_FILPriceUSD cfg) of
            None \<Rightarrow> float64_3_50
          | Some p \<Rightarrow> if bf_sign p \<le> 0 then float64_3_50 else p);
          age = wrap64 (cfg_FILPriceRefreshSec cfg * 4 * second);
          age' = (if age < 15 * minute then 15 * minute else age)
      in \<lparr>filPriceUSD = initialPrice, sources = cfg_FILPriceSources cfg,
          pmode = cfg_FILPriceSource cfg, lastUpdateTime = zero_time, maxAge = age',
          stableSymbol = cfg_StablecoinSymbol cfg,
          stableSources = cfg_StablecoinPriceSources cfg,
          stableDepegBps = cfg_StablecoinDepegBps cfg, stablePriceUSD = float64_1,
          stableDepegged = False, stableLastUpdate = zero_time\<rparr>)"

definition IsStale :: "pricer \<Rightarrow> gotime \<Rightarrow> bool" where
  "IsStale p now =
     (if pmode p \<noteq> ''auto'' then False
      else if lastUpdateTime p = zero_time then True
      else now - lastUpdateTime p > maxAge p)"

definition GetFILPriceUSD :: "pricer \<Rightarrow> bigfloat" where
  "GetFILPriceUSD p = filPriceUSD p"

definition SetFILPriceUSD :: "bigfloat \<Rightarrow> gotime \<Rightarrow> pricer \<Rightarrow> pricer" where
  "SetFILPriceUSD price now p = p\<lparr>filPriceUSD := price, lastUpdateTime := now\<rparr>"

section \<open>Fetching from the sources\<close>

text \<open>
  A reply of an endpoint: no answer, or a status with the decoded body. CoinGecko's body
  holds a JSON number (a \<open>float64\<close>), Binance's a decimal text; \<open>None\<close> is a body that does not
  decode, and a body without the field decodes to 0 or the empty text.
\<close>

datatype http_reply = NoReply | Reply int "bigfloat option" "usd_text option"

definition fetchCoinGecko :: "http_reply \<Rightarrow> bigfloat option" where
  "fetchCoinGecko r = (case r of
       NoReply \<Rightarrow> None
     | Reply status usd _ \<Rightarrow>
         if status \<noteq> 200 then None
         else (case usd of None \<Rightarrow> None
               | Some f \<Rightarrow> if bf_sign f \<le> 0 then None else Some (bf_to_float64 f)))"

definition fetchBinance :: "http_reply \<Rightarrow> bigfloat option" where
  "fetchBinance r = (case r of
       NoReply \<Rightarrow> None
     | Reply status _ price \<Rightarrow>
         if status \<noteq> 200 then None
         else (case price of None \<Rightarrow> None
               | Some s \<Rightarrow> (case ParseFloat s of None \<Rightarrow> None
                            | Some p \<Rightarrow> if bf_sign p \<le> 0 then None else Some p)))"

definition fetchFromSource :: "(string \<Rightarrow> http_reply) \<Rightarrow> string \<Rightarrow> bigfloat option" where
  "fetchFromSource get source =
     (if source = ''coingecko'' then fetchCoinGecko (get source)
      else if source = ''binance'' then fetchBinance (get source)
      else None)"

text \<open>The stablecoin endpoints have the same shape (another URL and JSON field name).\<close>

definition fetchStableFromSource :: "(string \<Rightarrow> http_reply) \<Rightarrow> string \<Rightarrow> bigfloat option" where
  "fetchStableFromSource get source =
     (if source = ''coingecko'' then fetchCoinGecko (get source)
      else if source = ''binance'' then fetchBinance (get source)
      else None)"

section \<open>The FIL price\<close>

definition maxPriceDeviationRatio :: bigfloat where "maxPriceDeviationRatio = bf_ratio 53 1 2"
definition minPlausiblePriceUSD :: bigfloat where "minPlausiblePriceUSD = bf_ratio 53 1 100"
definition maxPlausiblePriceUSD :: bigfloat where "maxPlausiblePriceUSD = float64_of_int 10000"

definition isImplausiblePrice :: "pricer \<Rightarrow> bigfloat \<Rightarrow> bool" where
  "isImplausiblePrice p price =
     (let f = bf_to_float64 price
      in if bf_cmp f minPlausiblePriceUSD < 0 \<or> bf_cmp f maxPlausiblePriceUSD > 0 then True
         else if lastUpdateTime p = zero_time then False
         else let last = bf_to_float64 (filPriceUSD p)
              in if bf_sign last \<le> 0 then False
                 else let dev = bf_quop 53 (bf_subp 53 f last) last;
                          dev' = (if bf_sign dev < 0 then bf_neg dev else dev)
                      in bf_cmp dev' maxPriceDeviationRatio > 0)"

fun refresh_from :: "(string \<Rightarrow> bigfloat option) \<Rightarrow> gotime \<Rightarrow> string list \<Rightarrow> pricer \<Rightarrow> pricer" where
  "refresh_from fetch now [] p = p"
| "refresh_from fetch now (source # rest) p =
     (case fetch source of
        None \<Rightarrow> refresh_from fetch now rest p
      | Some price \<Rightarrow>
          if isImplausiblePrice p price then refresh_from fetch now rest p
          else p\<lparr>filPriceUSD := price, lastUpdateTime := now\<rparr>)"

definition refresh :: "(string \<Rightarrow> http_reply) \<Rightarrow> gotime \<Rightarrow> pricer \<Rightarrow> pricer" where
  "refresh get now p = refresh_from (fetchFromSource get) now (sources p) p"

section \<open>The stablecoin\<close>

definition minPlausibleStableUSD :: bigfloat where "minPlausibleStableUSD = bf_ratio 53 1 2"
definition maxPlausibleStableUSD :: bigfloat where "maxPlausibleStableUSD = float64_of_int 2"

definition StablecoinPriceUSD :: "pricer \<Rightarrow> string \<Rightarrow> bigfloat" where
  "StablecoinPriceUSD p symbol =
     (if stableSymbol p \<noteq> '''' \<and> symbol = stableSymbol p then stablePriceUSD p else float64_1)"

definition IsStablecoinDepegged :: "pricer \<Rightarrow> string \<Rightarrow> bool" where
  "IsStablecoinDepegged p symbol \<longleftrightarrow>
     stableSymbol p \<noteq> '''' \<and> symbol = stableSymbol p \<and> stableDepegged p"

fun first_stable :: "(string \<Rightarrow> bigfloat option) \<Rightarrow> string list \<Rightarrow> bigfloat option" where
  "first_stable fetch [] = None"
| "first_stable fetch (source # rest) =
     (case fetch source of
        None \<Rightarrow> first_stable fetch rest
      | Some price \<Rightarrow>
          let f = bf_to_float64 price
          in if bf_cmp f minPlausibleStableUSD < 0 \<or> bf_cmp f maxPlausibleStableUSD > 0
             then first_stable fetch rest
             else Some price)"

definition stable_deviates :: "bigfloat \<Rightarrow> int \<Rightarrow> bool" where
  "stable_deviates fetched bps =
     (let dev = bf_subp 53 (bf_to_float64 fetched) float64_1;
          dev' = (if bf_sign dev < 0 then bf_neg dev else dev)
      in bf_cmp (bf_mulp 53 dev' (float64_of_int 10000)) (float64_of_int bps) > 0)"

definition refreshStable :: "(string \<Rightarrow> http_reply) \<Rightarrow> gotime \<Rightarrow> pricer \<Rightarrow> pricer" where
  "refreshStable get now p =
     (case first_stable (fetchStableFromSource get) (stableSources p) of
        None \<Rightarrow> p
      | Some fetched \<Rightarrow>
          p\<lparr>stablePriceUSD := fetched,
            stableDepegged := stable_deviates fetched (stableDepegBps p),
            stableLastUpdate := now\<rparr>)"

section \<open>What the price filter guarantees\<close>

text \<open>
  \<open>plausible_move p f\<close>: \<open>f\<close> is inside the absolute band and, when there is a fresh positive
  price to compare with, at most half of that price away from it. The filter computes the
  deviation in \<open>float64\<close>, so the guarantee has a slack of \<open>2 ^ - 52\<close> of the price.
\<close>

definition plausible_move :: "pricer \<Rightarrow> rat \<Rightarrow> bool" where
  "plausible_move p f \<longleftrightarrow>
     bf_val minPlausiblePriceUSD \<le> f \<and> f \<le> 10000 \<and>
     (lastUpdateTime p = zero_time \<or> bf_val (filPriceUSD p) \<le> 0 \<or>
      \<bar>f - bf_val (bf_to_float64 (filPriceUSD p))\<bar>
        \<le> bf_val (bf_to_float64 (filPriceUSD p)) * (1 / 2 + 1 / 2 ^ 52))"

lemma half_val: "bf_val maxPriceDeviationRatio = 1 / 2"
  by (simp add: maxPriceDeviationRatio_def bf_ratio_def lead_exp_def Let_def bf_val_def
      rne_div_def nbits.simps power_int_minus)

lemma max_price_val: "bf_val maxPlausiblePriceUSD = 10000"
  by (simp add: maxPlausiblePriceUSD_def bf_val_float64_of_int)

lemma deviation_bound:
  assumes l: "0 < bf_val l" and fl: "fprec f = 53" "fprec l = 53"
    and d: "\<bar>bf_val (bf_quop 53 (bf_subp 53 f l) l)\<bar> \<le> 1 / 2"
  shows "\<bar>bf_val f - bf_val l\<bar> \<le> bf_val l * (1 / 2 + 1 / 2 ^ 52)"
proof -
  define u :: rat where "u = 1 / 2 ^ 53"
  have u: "0 < u" "u < 1 / 16" by (simp_all add: u_def)
  define x where "x = \<bar>bf_val f - bf_val l\<bar>"
  have "near 53 (bf_val (bf_subp 53 f l)) (bf_val f - bf_val l)"
    using bf_addp_near [of 53 f "bf_neg l"] by (simp add: bf_subp_def res_prec_def bf_simps)
  from near_lower [OF this] have 1: "x * (1 - u) \<le> \<bar>bf_val (bf_subp 53 f l)\<bar>" by (simp add: x_def u_def)
  have "near 53 (bf_val (bf_quop 53 (bf_subp 53 f l) l)) (bf_val (bf_subp 53 f l) / bf_val l)"
    using bf_quop_near [of 53 "bf_subp 53 f l" l] l by (simp add: res_prec_def)
  from near_lower [OF this]
  have "\<bar>bf_val (bf_subp 53 f l) / bf_val l\<bar> * (1 - u) \<le> 1 / 2"
    using d unfolding u_def by (rule order_trans)
  then have "\<bar>bf_val (bf_subp 53 f l)\<bar> * (1 - u) \<le> bf_val l / 2"
    using l by (simp add: abs_divide pos_divide_le_eq)
  moreover have "x * (1 - u) * (1 - u) \<le> \<bar>bf_val (bf_subp 53 f l)\<bar> * (1 - u)"
    using u by (intro mult_right_mono 1) simp
  ultimately have "x * (1 - u) * (1 - u) \<le> bf_val l / 2" by simp
  moreover have "x * (1 - 2 * u) \<le> x * (1 - u) * (1 - u)"
  proof -
    have "x * (1 - u) * (1 - u) = x * (1 - 2 * u) + x * u * u" by (simp add: algebra_simps)
    moreover have "0 \<le> x * u * u" using u by (simp add: x_def)
    ultimately show ?thesis by simp
  qed
  ultimately have le: "x * (1 - 2 * u) \<le> bf_val l / 2" by simp
  have "(1 / 2 :: rat) \<le> (1 / 2 + 2 * u) * (1 - 2 * u)" using u by (simp add: algebra_simps)
  then have "bf_val l / 2 \<le> bf_val l * (1 / 2 + 2 * u) * (1 - 2 * u)"
    using l mult_left_mono [of "1 / 2" "(1 / 2 + 2 * u) * (1 - 2 * u)" "bf_val l"] by (simp add: mult.assoc)
  with le have "x * (1 - 2 * u) \<le> bf_val l * (1 / 2 + 2 * u) * (1 - 2 * u)" by simp
  then have "x \<le> bf_val l * (1 / 2 + 2 * u)" using u by simp
  then show ?thesis by (simp add: x_def u_def)
qed

lemma plausible_accepted:
  assumes "\<not> isImplausiblePrice p price"
  shows "plausible_move p (bf_val (bf_to_float64 price))"
proof -
  let ?f = "bf_to_float64 price" and ?l = "bf_to_float64 (filPriceUSD p)"
  have band: "bf_val minPlausiblePriceUSD \<le> bf_val ?f" "bf_val ?f \<le> 10000"
    using assms by (auto simp: isImplausiblePrice_def Let_def bf_cmp_cases not_less max_price_val
        split: if_splits)
  have "\<bar>bf_val ?f - bf_val ?l\<bar> \<le> bf_val ?l * (1 / 2 + 1 / 2 ^ 52)"
    if t: "lastUpdateTime p \<noteq> zero_time" and pos: "0 < bf_val (filPriceUSD p)"
  proof (rule deviation_bound)
    show l: "0 < bf_val ?l" using pos by (simp add: bf_to_float64_pos)
    show "\<bar>bf_val (bf_quop 53 (bf_subp 53 ?f ?l) ?l)\<bar> \<le> 1 / 2"
      using assms t l
      by (auto simp: isImplausiblePrice_def Let_def bf_cmp_cases bf_sign_cases not_less bf_simps
          half_val abs_if split: if_splits)
  qed simp_all
  then show ?thesis
    unfolding plausible_move_def using band by (metis not_le)
qed

lemma refresh_from_cases:
  "refresh_from fetch now ss p = p \<or>
   (\<exists>s\<in>set ss. \<exists>price. fetch s = Some price \<and> \<not> isImplausiblePrice p price \<and>
      refresh_from fetch now ss p = p\<lparr>filPriceUSD := price, lastUpdateTime := now\<rparr>)"
  by (induction fetch now ss p rule: refresh_from.induct) (auto split: option.splits if_splits)

lemma refresh_from_reject:
  "(\<And>s price. s \<in> set ss \<Longrightarrow> fetch s = Some price \<Longrightarrow> isImplausiblePrice p price) \<Longrightarrow>
   refresh_from fetch now ss p = p"
  by (induction fetch now ss p rule: refresh_from.induct) (auto split: option.splits)


section \<open>The operator's override\<close>

text \<open>
  \<open>PUT /api/v1/fil-price\<close> (\<open>admin/settlement_api.go\<close>): \<open>None\<close> is the 400 answer, which leaves
  the oracle alone.
\<close>

definition handlePutFILPrice :: "usd_text \<Rightarrow> gotime \<Rightarrow> pricer \<Rightarrow> pricer option" where
  "handlePutFILPrice body now p =
     (case ParseFloat body of
        None \<Rightarrow> None
      | Some price \<Rightarrow> if bf_sign price \<le> 0 then None else Some (SetFILPriceUSD price now p))"

section \<open>Runs of the oracle\<close>

text \<open>
  What can happen to the oracle while the gateway runs: a tick of either monitor, with whatever
  the sources answer at that moment, or an accepted override.
\<close>

inductive pricer_step :: "pricer \<Rightarrow> pricer \<Rightarrow> bool" where
  tick_fil: "pricer_step p (refresh get now p)"
| tick_stable: "pricer_step p (refreshStable get now p)"
| override: "handlePutFILPrice body now p = Some p' \<Longrightarrow> pricer_step p p'"

inductive_cases pricer_stepE: "pricer_step p p'"

definition prices_ok :: "pricer \<Rightarrow> bool" where
  "prices_ok p \<longleftrightarrow>
     0 < bf_val (filPriceUSD p) \<and> 53 \<le> fprec (filPriceUSD p) \<and>
     0 < bf_val (stablePriceUSD p) \<and> 53 \<le> fprec (stablePriceUSD p)"

lemma ParseFloat_prec: "ParseFloat t = Some v \<Longrightarrow> fprec v = 128"
  by (auto simp: ParseFloat_def split: usd_text.splits)

lemma fetched_ok:
  "fetchFromSource get s = Some v \<Longrightarrow> 0 < bf_val v \<and> 53 \<le> fprec v"
  "fetchStableFromSource get s = Some v \<Longrightarrow> 0 < bf_val v \<and> 53 \<le> fprec v"
  by (auto simp: fetchFromSource_def fetchStableFromSource_def fetchCoinGecko_def fetchBinance_def
      bf_sign_cases not_le bf_to_float64_pos
      dest: ParseFloat_prec split: if_splits http_reply.splits option.splits)

lemma first_stable_fetched: "first_stable fetch ss = Some v \<Longrightarrow> \<exists>s. s \<in> set ss \<and> fetch s = Some v"
  by (induction fetch ss rule: first_stable.induct)
    (auto simp: Let_def split: option.splits if_splits)

lemma prices_ok_new: "prices_ok (NewPricer cfg)"
proof -
  have "bf_val float64_3_50 = 7 / 2" "bf_val float64_1 = 1" "fprec float64_3_50 = 53" "fprec float64_1 = 53"
    by (simp_all add: float64_3_50_def float64_1_def bf_val_float64_of_int)
      (simp add: bf_val_def power_int_minus)
  then show ?thesis
    by (auto simp: prices_ok_def NewPricer_def Let_def bf_sign_cases not_le
        dest: ParseFloat_prec split: option.splits)
qed

lemma prices_ok_step: "pricer_step p p' \<Longrightarrow> prices_ok p \<Longrightarrow> prices_ok p'"
proof (induction rule: pricer_step.induct)
  case (tick_fil p get now)
  then show ?case
    using refresh_from_cases [of "fetchFromSource get" now "sources p" p]
    by (auto simp: refresh_def prices_ok_def dest: fetched_ok)
next
  case (tick_stable p get now)
  then show ?case
    by (auto simp: refreshStable_def prices_ok_def dest!: first_stable_fetched fetched_ok
        split: option.splits)
next
  case (override body now p p')
  then show ?case
    by (auto simp: handlePutFILPrice_def SetFILPriceUSD_def prices_ok_def bf_sign_cases not_le
        dest: ParseFloat_prec split: option.splits if_splits)
qed

section \<open>Properties\<close>

text \<open>
  C18: However the sources answer and whatever the operator sets, a FIL price or a stablecoin
  price of the running oracle is always positive and carries at least \<open>float64\<close> precision, so
  no division by a price in the settlement divides by zero.
\<close>

theorem prices_always_positive:
  assumes "pricer_step\<^sup>*\<^sup>* (NewPricer cfg) p"
  shows "0 < bf_val (GetFILPriceUSD p) \<and> 53 \<le> fprec (GetFILPriceUSD p) \<and>
         0 < bf_val (StablecoinPriceUSD p symbol) \<and> 53 \<le> fprec (StablecoinPriceUSD p symbol)"
proof -
  from assms have "prices_ok p"
    by (induction rule: rtranclp_induct) (auto intro: prices_ok_new prices_ok_step)
  then show ?thesis
    by (simp add: prices_ok_def GetFILPriceUSD_def StablecoinPriceUSD_def float64_1_def
        bf_val_float64_of_int)
qed

theorem prices_always_positive_witness:
  "0 < bf_val (GetFILPriceUSD (refresh (\<lambda>s. Reply 200 None (Some (DecText 4 0))) 7 (NewPricer sample_config)))"
  by (intro prices_always_positive [where cfg = sample_config, THEN conjunct1] r_into_rtranclp tick_fil)

text \<open>
  A refresh takes the price of the first configured source whose answer passes the
  plausibility filter and changes nothing else; when no source passes, the oracle is unchanged.
  An accepted price came from a configured source and is a plausible move: inside the absolute
  band and within half of the last good price (up to one rounding of the deviation).
\<close>

theorem refresh_takes_first_plausible:
  "case find (\<lambda>s. \<exists>v. fetchFromSource get s = Some v \<and> \<not> isImplausiblePrice p v) (sources p) of
     None \<Rightarrow> refresh get now p = p
   | Some s \<Rightarrow> (\<exists>v. fetchFromSource get s = Some v \<and> 0 < bf_val v \<and>
        plausible_move p (bf_val (bf_to_float64 v)) \<and>
        refresh get now p = p\<lparr>filPriceUSD := v, lastUpdateTime := now\<rparr>)"
proof -
  have "case find (\<lambda>s. \<exists>v. fetchFromSource get s = Some v \<and> \<not> isImplausiblePrice p v) ss of
      None \<Rightarrow> refresh_from (fetchFromSource get) now ss p = p
    | Some s \<Rightarrow> (\<exists>v. fetchFromSource get s = Some v \<and> 0 < bf_val v \<and>
        plausible_move p (bf_val (bf_to_float64 v)) \<and>
        refresh_from (fetchFromSource get) now ss p = p\<lparr>filPriceUSD := v, lastUpdateTime := now\<rparr>)" for ss
    by (induction ss) (auto simp: plausible_accepted dest: fetched_ok split: option.splits)
  from this [of "sources p"] show ?thesis unfolding refresh_def .
qed

text \<open>
  Staleness. In manual mode the price is never stale. In automatic mode an accepted refresh
  at instant \<open>now\<close> makes the price fresh until more than \<open>maxAge\<close> has passed, and a refresh whose
  sources all fail or are rejected leaves the staleness of the old price in force. The age
  limit is at least fifteen minutes.
\<close>

theorem refresh_staleness:
  "IsStale (refresh get now p) later =
     (if pmode p \<noteq> ''auto'' then False
      else if refresh get now p = p then IsStale p later
      else now = zero_time \<or> later - now > maxAge p) \<and>
   15 * minute \<le> maxAge (NewPricer cfg) \<and> wrap64 (cfg_FILPriceRefreshSec cfg * 4 * second) \<le> maxAge (NewPricer cfg)"
proof -
  have "15 * minute \<le> maxAge (NewPricer cfg)"
    by (simp add: NewPricer_def Let_def minute_def second_def)
  moreover have "wrap64 (cfg_FILPriceRefreshSec cfg * 4 * second) \<le> maxAge (NewPricer cfg)"
    by (simp add: NewPricer_def Let_def minute_def second_def)
  moreover have "IsStale (refresh get now p) later =
     (if pmode p \<noteq> ''auto'' then False
      else if refresh get now p = p then IsStale p later
      else now = zero_time \<or> later - now > maxAge p)"
    using refresh_from_cases [of "fetchFromSource get" now "sources p" p]
    by (auto simp: refresh_def IsStale_def)
  ultimately show ?thesis by blast
qed

end
