(* ===== verification/Aggregator.thy ===== *)
theory Aggregator
  imports Pricer
begin

text \<open>
  Pricing and aggregation (\<open>settlement/aggregator.go\<close>): the billing formula every component
  shares, the resolution of a worker to its provider's payout address, and the allocation of a
  wallet's token balances to what it owes each provider. Addresses are the texts the code
  compares and hashes: \<open>hexa s\<close> is \<open>common.HexToAddress(s).Hex()\<close> of go-ethereum, a parameter of
  the operations that use it.
\<close>

section \<open>Pricing\<close>

definition parsePerToken :: "usd_text \<Rightarrow> bigfloat option" where
  "parsePerToken s =
     (if s = NoText then None
      else (case ParseFloat s of
              None \<Rightarrow> None
            | Some p \<Rightarrow> Some (bf_quop (fprec p) p (float64_of_int 1000000))))"

definition lookupPrice :: "(string \<rightharpoonup> bigfloat) \<Rightarrow> string \<Rightarrow> bigfloat option" where
  "lookupPrice m model =
     (case m model of Some p \<Rightarrow> Some p
      | None \<Rightarrow> (case m ''default'' of Some p \<Rightarrow> Some p | None \<Rightarrow> None))"

definition cached_part :: "int \<Rightarrow> int \<Rightarrow> int" where
  "cached_part cachedTokens promptTokens =
     (let cached = (if cachedTokens < 0 then 0 else cachedTokens)
      in if cached > promptTokens then promptTokens else cached)"

definition CostBreakdownUSD ::
  "string \<Rightarrow> int \<Rightarrow> int \<Rightarrow> int \<Rightarrow> int \<Rightarrow> (string \<rightharpoonup> bigfloat) \<Rightarrow> (string \<rightharpoonup> bigfloat) \<Rightarrow>
   (string \<rightharpoonup> bigfloat) \<Rightarrow> bigfloat" where
  "CostBreakdownUSD model promptTokens completionTokens cachedTokens totalTokens
       outPrices catalogInput catalogCacheRead =
     (let out = (case lookupPrice outPrices model of Some p \<Rightarrow> p | None \<Rightarrow> bf_zero)
      in case lookupPrice catalogInput model of
           None \<Rightarrow> bf_mul out (float64_of_int totalTokens)
         | Some inp \<Rightarrow>
             let cached = cached_part cachedTokens promptTokens;
                 nonCached = promptTokens - cached;
                 cost = bf_mul inp (float64_of_int nonCached);
                 cr = (case lookupPrice catalogCacheRead model of Some p \<Rightarrow> p | None \<Rightarrow> inp);
                 cost = bf_acc cost (bf_mul cr (float64_of_int cached))
             in bf_acc cost (bf_mul out (float64_of_int completionTokens)))"

text \<open>The parsed catalog: presence of an input rate switches a model to split billing.\<close>

definition parse_rates :: "(string \<times> usd_text) list \<Rightarrow> (string \<rightharpoonup> bigfloat)" where
  "parse_rates rates =
     fold (\<lambda>(model, s) prices. case parsePerToken s of None \<Rightarrow> prices | Some p \<Rightarrow> prices(model \<mapsto> p))
       rates Map.empty"

definition ParseCatalogPrices ::
  "(string \<times> model_info) list \<Rightarrow> (string \<rightharpoonup> bigfloat) \<times> (string \<rightharpoonup> bigfloat)" where
  "ParseCatalogPrices catalog =
     (parse_rates (List.map (\<lambda>(model, info). (model, mi_input info)) catalog),
      parse_rates (List.map (\<lambda>(model, info). (model, mi_cache_read info)) catalog))"

definition EstimateCostUSD :: "string \<Rightarrow> int \<Rightarrow> (string \<rightharpoonup> bigfloat) \<Rightarrow> bigfloat" where
  "EstimateCostUSD model maxTokens prices =
     (case prices model of
        Some p \<Rightarrow> bf_mul p (float64_of_int maxTokens)
      | None \<Rightarrow> (case prices ''default'' of
                   Some p \<Rightarrow> bf_mul p (float64_of_int maxTokens)
                 | None \<Rightarrow> bf_zero))"

section \<open>The aggregator\<close>

record aggregator =
  agg_modelPrices :: "string \<rightharpoonup> bigfloat"
  agg_catalogInput :: "string \<rightharpoonup> bigfloat"
  agg_catalogCacheRead :: "string \<rightharpoonup> bigfloat"
  agg_spAddressMap :: "string \<rightharpoonup> string"
  agg_minerPayoutMap :: "string \<rightharpoonup> string"
  agg_workerSPMap :: "string \<rightharpoonup> string"
  agg_tokens :: "token_config list"
  agg_deductPriority :: "string list"
  agg_pricer :: "pricer option"

definition NewAggregator :: "settlement_config \<Rightarrow> (string \<rightharpoonup> string) \<Rightarrow> aggregator" where
  "NewAggregator cfg workers =
     (let (catInput, catCacheRead) =
            ParseCatalogPrices (case cfg_ModelCatalog cfg of Some c \<Rightarrow> c | None \<Rightarrow> [])
      in \<lparr>agg_modelPrices = parse_rates (case cfg_ModelPricesUSD cfg of Some m \<Rightarrow> m | None \<Rightarrow> []),
          agg_catalogInput = catInput, agg_catalogCacheRead = catCacheRead,
          agg_spAddressMap = cfg_SPAddressMap cfg, agg_minerPayoutMap = Map.empty,
          agg_workerSPMap = workers, agg_tokens = cfg_SupportedTokens cfg,
          agg_deductPriority = cfg_DeductionPriority cfg, agg_pricer = None\<rparr>)"

definition UpdateWorkerSPMap :: "(string \<rightharpoonup> string) \<Rightarrow> aggregator \<Rightarrow> aggregator" where
  "UpdateWorkerSPMap m a = a\<lparr>agg_workerSPMap := m\<rparr>"

definition UpdateMinerPayoutMap :: "(string \<rightharpoonup> string) \<Rightarrow> aggregator \<Rightarrow> aggregator" where
  "UpdateMinerPayoutMap m a = a\<lparr>agg_minerPayoutMap := m\<rparr>"

text \<open>The empty text is the code's ``not resolvable''.\<close>

definition resolveWorkerToEVM :: "aggregator \<Rightarrow> string \<Rightarrow> string" where
  "resolveWorkerToEVM a workerID =
     (case agg_workerSPMap a workerID of
        None \<Rightarrow> ''''
      | Some miner \<Rightarrow>
          (case agg_minerPayoutMap a miner of
             Some evm \<Rightarrow> if evm \<noteq> '''' then evm
                         else (case agg_spAddressMap a miner of None \<Rightarrow> '''' | Some e \<Rightarrow> e)
           | None \<Rightarrow> (case agg_spAddressMap a miner of None \<Rightarrow> '''' | Some e \<Rightarrow> e)))"

definition recordCostUSD :: "aggregator \<Rightarrow> 'r request_record_scheme \<Rightarrow> bigfloat" where
  "recordCostUSD a rec =
     CostBreakdownUSD (rr_model rec) (rr_prompt rec) (rr_completion rec) (rr_cached rec)
       (rr_total rec) (agg_modelPrices a) (agg_catalogInput a) (agg_catalogCacheRead a)"

definition RecordEarningUSD :: "aggregator \<Rightarrow> request_record \<Rightarrow> int \<Rightarrow> bigfloat" where
  "RecordEarningUSD a rec platformFeeBps =
     (let cost = recordCostUSD a rec
      in if platformFeeBps \<le> 0 then cost
         else bf_mul cost (bf_sub (float64_of_int 1)
                (bf_quo (float64_of_int platformFeeBps) (float64_of_int 10000))))"

definition findToken :: "aggregator \<Rightarrow> string \<Rightarrow> token_config option" where
  "findToken a s = find (\<lambda>t. tok_symbol t = s) (agg_tokens a)"

section \<open>Smallest units\<close>

primrec pow10 :: "nat \<Rightarrow> int" where
  "pow10 0 = 1"
| "pow10 (Suc n) = pow10 n * 10"

definition floatToWei :: "bigfloat \<Rightarrow> nat \<Rightarrow> int" where
  "floatToWei f decimals = bf_to_int (bf_mul f (bf_of_int (pow10 decimals)))"

definition weiToFloat :: "int \<Rightarrow> nat \<Rightarrow> bigfloat" where
  "weiToFloat wei decimals = bf_quo (bf_of_int wei) (bf_of_int (pow10 decimals))"

section \<open>Allocation\<close>

record settlement_item =
  it_wallet :: string
  it_userEVM :: string
  it_spEVM :: string
  it_amount :: int
  it_tokenAddr :: string
  it_token :: token_config
  it_usd :: bigfloat
  it_tokens :: int
  it_ids :: "string list"

record carried_debt =
  cd_wallet :: string
  cd_spEVM :: string
  cd_usd :: "bigfloat option"
  cd_ids :: "string list"

record cost_entry =
  ce_usd :: bigfloat
  ce_tokens :: int
  ce_ids :: "string list"

type_synonym agg_key = "string \<times> string"
type_synonym token_balances = "string \<rightharpoonup> int"

text \<open>The USD price at which one whole token is collected.\<close>

definition token_price :: "aggregator \<Rightarrow> bigfloat \<Rightarrow> string \<Rightarrow> bigfloat" where
  "token_price a filPrice s =
     (if s = ''FIL'' then filPrice
      else case agg_pricer a of
             Some p \<Rightarrow> StablecoinPriceUSD p s
           | None \<Rightarrow> float64_of_int 1)"

definition depegged :: "aggregator \<Rightarrow> string \<Rightarrow> bool" where
  "depegged a s \<longleftrightarrow>
     s \<noteq> ''FIL'' \<and> (case agg_pricer a of Some p \<Rightarrow> IsStablecoinDepegged p s | None \<Rightarrow> False)"

text \<open>
  The loop over the deduction order: the remaining USD, the wallet's working balances and the
  items made so far are the loop's state.
\<close>

fun allocate_loop ::
  "(string \<Rightarrow> string) \<Rightarrow> aggregator \<Rightarrow> agg_key \<Rightarrow> int \<Rightarrow> string list \<Rightarrow> bigfloat \<Rightarrow> string list \<Rightarrow>
   bigfloat \<Rightarrow> token_balances \<Rightarrow> settlement_item list \<Rightarrow>
   settlement_item list \<times> bigfloat \<times> token_balances" where
  "allocate_loop hexa a key toks ids fil [] remainingUSD working items = (items, remainingUSD, working)"
| "allocate_loop hexa a key toks ids fil (symbol # rest) remainingUSD working items =
     (if bf_sign remainingUSD \<le> 0 then (items, remainingUSD, working)
      else case findToken a symbol of
        None \<Rightarrow> allocate_loop hexa a key toks ids fil rest remainingUSD working items
      | Some tok \<Rightarrow>
         (case working (tok_address tok) of
            None \<Rightarrow> allocate_loop hexa a key toks ids fil rest remainingUSD working items
          | Some balance \<Rightarrow>
             if balance \<le> 0 \<or> depegged a symbol
             then allocate_loop hexa a key toks ids fil rest remainingUSD working items
             else
               let priceUSD = token_price a fil symbol;
                   amount = floatToWei (bf_quo remainingUSD priceUSD) (tok_decimals tok);
                   partial = amount > balance;
                   usedUSD = bf_mul (weiToFloat balance (tok_decimals tok)) priceUSD;
                   amount' = (if partial then balance else amount);
                   itemUSD = (if partial then usedUSD else remainingUSD);
                   remaining' = (if partial then bf_dec remainingUSD usedUSD else bf_zero);
                   item = \<lparr>it_wallet = fst key, it_userEVM = hexa (fst key), it_spEVM = hexa (snd key),
                           it_amount = amount', it_tokenAddr = hexa (tok_address tok), it_token = tok,
                           it_usd = itemUSD, it_tokens = toks, it_ids = ids\<rparr>
               in if amount' > 0
                  then allocate_loop hexa a key toks ids fil rest remaining'
                         (working(tok_address tok \<mapsto> balance - amount')) (items @ [item])
                  else allocate_loop hexa a key toks ids fil rest remaining' working items))"

definition allocate ::
  "(string \<Rightarrow> string) \<Rightarrow> aggregator \<Rightarrow> agg_key \<Rightarrow> cost_entry \<Rightarrow> bigfloat \<Rightarrow> token_balances \<Rightarrow>
   settlement_item list \<times> bigfloat \<times> token_balances" where
  "allocate hexa a key entry fil working =
     allocate_loop hexa a key (ce_tokens entry) (ce_ids entry) fil (agg_deductPriority a)
       (ce_usd entry) working []"

section \<open>Aggregation\<close>

definition new_entry :: cost_entry where
  "new_entry = \<lparr>ce_usd = bf_zero, ce_tokens = 0, ce_ids = []\<rparr>"

definition entry_of :: "(agg_key \<times> cost_entry) list \<Rightarrow> agg_key \<Rightarrow> cost_entry" where
  "entry_of costs key = (case alookup costs key of Some e \<Rightarrow> e | None \<Rightarrow> new_entry)"

definition add_record ::
  "aggregator \<Rightarrow> request_record \<Rightarrow> (agg_key \<times> cost_entry) list \<times> request_record list \<Rightarrow>
   (agg_key \<times> cost_entry) list \<times> request_record list" where
  "add_record a rec = (\<lambda>(costs, unresolved).
     (let spEVM = resolveWorkerToEVM a (rr_worker rec)
      in if spEVM = '''' then (costs, unresolved @ [rec])
         else let key = (rr_wallet rec, spEVM);
                  e = entry_of costs key
              in (aput key (e\<lparr>ce_usd := bf_acc (ce_usd e) (recordCostUSD a rec),
                     ce_tokens := ce_tokens e + rr_total rec,
                     ce_ids := (if rr_id rec \<noteq> '''' then ce_ids e @ [rr_id rec] else ce_ids e)\<rparr>) costs,
                  unresolved)))"

definition add_debt :: "carried_debt \<Rightarrow> (agg_key \<times> cost_entry) list \<Rightarrow> (agg_key \<times> cost_entry) list" where
  "add_debt d costs =
     (case cd_usd d of
        None \<Rightarrow> costs
      | Some usd \<Rightarrow>
          if bf_sign usd \<le> 0 then costs
          else let key = (cd_wallet d, cd_spEVM d); e = entry_of costs key
               in aput key (e\<lparr>ce_usd := bf_acc (ce_usd e) usd, ce_ids := ce_ids e @ cd_ids d\<rparr>) costs)"

text \<open>
  Sequencing within one wallet: the working balances are threaded through its providers in the
  order of their addresses. \<open>settledPerWallet\<close> is a map, remaining debts and items are lists.
\<close>

record agg_out =
  ao_items :: "settlement_item list"
  ao_settled :: "(string \<times> bigfloat) list"
  ao_debts :: "carried_debt list"

definition add_settled :: "string \<Rightarrow> bigfloat \<Rightarrow> (string \<times> bigfloat) list \<Rightarrow> (string \<times> bigfloat) list" where
  "add_settled wallet usd m =
     aput wallet (bf_acc (case alookup m wallet of Some u \<Rightarrow> u | None \<Rightarrow> bf_zero) usd) m"

definition settle_key ::
  "(string \<Rightarrow> string) \<Rightarrow> aggregator \<Rightarrow> bigfloat \<Rightarrow> (agg_key \<times> cost_entry) list \<Rightarrow> agg_key \<Rightarrow>
   token_balances \<times> agg_out \<Rightarrow> token_balances \<times> agg_out" where
  "settle_key hexa a fil costs key = (\<lambda>(working, out).
     (let entry = entry_of costs key;
          (userItems, shortfall, working') = allocate hexa a key entry fil working;
          settled = bf_sub (ce_usd entry) shortfall
      in (working', out\<lparr>
            ao_items := ao_items out @ userItems,
            ao_settled := (if bf_sign settled > 0 then add_settled (fst key) settled (ao_settled out)
                           else ao_settled out),
            ao_debts := (if bf_sign shortfall > 0
               then ao_debts out @ [\<lparr>cd_wallet = fst key, cd_spEVM = snd key, cd_usd = Some shortfall,
                                     cd_ids = ce_ids entry\<rparr>]
               else ao_debts out)\<rparr>)))"

definition wallet_keys :: "(agg_key \<times> cost_entry) list \<Rightarrow> string \<Rightarrow> agg_key list" where
  "wallet_keys costs wallet = sort_key snd (filter (\<lambda>k. fst k = wallet) (akeys costs))"

definition cost_wallets :: "(agg_key \<times> cost_entry) list \<Rightarrow> string list" where
  "cost_wallets costs = sort (remdups (List.map fst (akeys costs)))"

definition settle_wallet ::
  "(string \<Rightarrow> string) \<Rightarrow> aggregator \<Rightarrow> bigfloat \<Rightarrow> (agg_key \<times> cost_entry) list \<Rightarrow>
   (string \<Rightarrow> token_balances) \<Rightarrow> string \<Rightarrow> agg_out \<Rightarrow> agg_out" where
  "settle_wallet hexa a fil costs balances wallet out =
     snd (fold (settle_key hexa a fil costs) (wallet_keys costs wallet) (balances wallet, out))"

definition item_key :: "settlement_item \<Rightarrow> string \<times> string \<times> string" where
  "item_key it = (it_wallet it, it_spEVM it, it_tokenAddr it)"

definition collect_costs ::
  "aggregator \<Rightarrow> request_record list \<Rightarrow> carried_debt list \<Rightarrow>
   (agg_key \<times> cost_entry) list \<times> request_record list" where
  "collect_costs a records debts =
     (let (costs, unresolved) = fold (add_record a) records ([], [])
      in (fold add_debt debts costs, unresolved))"

text \<open>A nil price is \<open>None\<close>.\<close>

definition AggregateWithDebts ::
  "(string \<Rightarrow> string) \<Rightarrow> aggregator \<Rightarrow> request_record list \<Rightarrow> carried_debt list \<Rightarrow> bigfloat option \<Rightarrow>
   (string \<Rightarrow> token_balances) \<Rightarrow>
   settlement_item list \<times> request_record list \<times> (string \<times> bigfloat) list \<times> carried_debt list" where
  "AggregateWithDebts hexa a records carriedDebts filPrice balances =
     (case filPrice of
        None \<Rightarrow> ([], records, [], carriedDebts)
      | Some fil \<Rightarrow>
         if bf_sign fil \<le> 0 then ([], records, [], carriedDebts)
         else let (costs, unresolved) = collect_costs a records carriedDebts;
                  out = fold (settle_wallet hexa a fil costs balances) (cost_wallets costs)
                          \<lparr>ao_items = [], ao_settled = [], ao_debts = []\<rparr>
              in (sort_key item_key (ao_items out), unresolved, ao_settled out, ao_debts out))"

definition Aggregate ::
  "(string \<Rightarrow> string) \<Rightarrow> aggregator \<Rightarrow> request_record list \<Rightarrow> bigfloat option \<Rightarrow>
   (string \<Rightarrow> token_balances) \<Rightarrow> settlement_item list \<times> request_record list" where
  "Aggregate hexa a records filPrice balances =
     (let (items, unresolved, _, _) = AggregateWithDebts hexa a records [] filPrice balances
      in (items, unresolved))"

section \<open>The allocation as a step relation\<close>

text \<open>
  The loop's effect without its accumulator. A symbol is skipped unless it is usable; a usable
  token either runs dry (its whole balance is taken and the loop goes on), covers the rest, or
  the rest is worth less than one unit of it and nothing is moved.
\<close>

definition usable :: "aggregator \<Rightarrow> token_balances \<Rightarrow> string \<Rightarrow> token_config \<Rightarrow> int \<Rightarrow> bool" where
  "usable a w s tok b \<longleftrightarrow>
     findToken a s = Some tok \<and> w (tok_address tok) = Some b \<and> 0 < b \<and> \<not> depegged a s"

definition units_due :: "aggregator \<Rightarrow> bigfloat \<Rightarrow> string \<Rightarrow> token_config \<Rightarrow> bigfloat \<Rightarrow> int" where
  "units_due a fil s tok usd = floatToWei (bf_quo usd (token_price a fil s)) (tok_decimals tok)"

definition usd_value :: "aggregator \<Rightarrow> bigfloat \<Rightarrow> string \<Rightarrow> token_config \<Rightarrow> int \<Rightarrow> bigfloat" where
  "usd_value a fil s tok units = bf_mul (weiToFloat units (tok_decimals tok)) (token_price a fil s)"

definition mk_item ::
  "(string \<Rightarrow> string) \<Rightarrow> agg_key \<Rightarrow> int \<Rightarrow> string list \<Rightarrow> token_config \<Rightarrow> int \<Rightarrow> bigfloat \<Rightarrow> settlement_item" where
  "mk_item hexa key toks ids tok amount usd =
     \<lparr>it_wallet = fst key, it_userEVM = hexa (fst key), it_spEVM = hexa (snd key),
      it_amount = amount, it_tokenAddr = hexa (tok_address tok), it_token = tok,
      it_usd = usd, it_tokens = toks, it_ids = ids\<rparr>"

lemma mk_item_simps [simp]:
  "it_wallet (mk_item hexa key toks ids tok n usd) = fst key"
  "it_spEVM (mk_item hexa key toks ids tok n usd) = hexa (snd key)"
  "it_amount (mk_item hexa key toks ids tok n usd) = n"
  "it_token (mk_item hexa key toks ids tok n usd) = tok"
  "it_usd (mk_item hexa key toks ids tok n usd) = usd"
  "it_ids (mk_item hexa key toks ids tok n usd) = ids"
  by (simp_all add: mk_item_def)

inductive alloc ::
  "(string \<Rightarrow> string) \<Rightarrow> aggregator \<Rightarrow> agg_key \<Rightarrow> int \<Rightarrow> string list \<Rightarrow> bigfloat \<Rightarrow> string list \<Rightarrow>
   bigfloat \<Rightarrow> token_balances \<Rightarrow> settlement_item list \<Rightarrow> bigfloat \<Rightarrow> token_balances \<Rightarrow> bool"
  for hexa a key toks ids fil where
  exhausted: "alloc hexa a key toks ids fil [] rem w [] rem w"
| paid: "bf_sign rem \<le> 0 \<Longrightarrow> alloc hexa a key toks ids fil syms rem w [] rem w"
| skip: "0 < bf_sign rem \<Longrightarrow> (\<And>tok b. \<not> usable a w s tok b) \<Longrightarrow>
    alloc hexa a key toks ids fil rest rem w its r w' \<Longrightarrow>
    alloc hexa a key toks ids fil (s # rest) rem w its r w'"
| drain: "0 < bf_sign rem \<Longrightarrow> usable a w s tok b \<Longrightarrow> b < units_due a fil s tok rem \<Longrightarrow>
    alloc hexa a key toks ids fil rest (bf_dec rem (usd_value a fil s tok b))
      (w(tok_address tok \<mapsto> 0)) its r w' \<Longrightarrow>
    alloc hexa a key toks ids fil (s # rest) rem w
      (mk_item hexa key toks ids tok b (usd_value a fil s tok b) # its) r w'"
| cover: "0 < bf_sign rem \<Longrightarrow> usable a w s tok b \<Longrightarrow> n = units_due a fil s tok rem \<Longrightarrow> 0 < n \<Longrightarrow> n \<le> b \<Longrightarrow>
    alloc hexa a key toks ids fil (s # rest) rem w [mk_item hexa key toks ids tok n rem]
      bf_zero (w(tok_address tok \<mapsto> b - n))"
| dust: "0 < bf_sign rem \<Longrightarrow> usable a w s tok b \<Longrightarrow> units_due a fil s tok rem \<le> 0 \<Longrightarrow>
    alloc hexa a key toks ids fil (s # rest) rem w [] bf_zero w"

inductive_cases alloc_NilE: "alloc hexa a key toks ids fil [] rem w its r w'"
inductive_simps alloc_Cons: "alloc hexa a key toks ids fil (s # rest) rem w its r w'"

lemma allocate_loop_zero:
  "allocate_loop hexa a key toks ids fil syms bf_zero w items = (items, bf_zero, w)"
  by (cases syms) (simp_all add: bf_zero_def bf_sign_def)

lemma allocate_loop_alloc:
  "allocate_loop hexa a key toks ids fil syms rem w items = (items', r, w') \<Longrightarrow>
   \<exists>its. items' = items @ its \<and> alloc hexa a key toks ids fil syms rem w its r w'"
proof (induction syms arbitrary: rem w items)
  case Nil
  then show ?case by (auto intro: alloc.exhausted)
next
  case (Cons s rest)
  show ?case
  proof (cases "bf_sign rem \<le> 0")
    case True
    with Cons.prems show ?thesis by (auto intro: alloc.paid)
  next
    case pos: False
    show ?thesis
    proof (cases "\<exists>tok b. usable a w s tok b")
      case False
      then have "allocate_loop hexa a key toks ids fil rest rem w items = (items', r, w')"
        using Cons.prems pos by (auto simp: usable_def not_le split: option.splits if_splits)
      from Cons.IH [OF this] False pos show ?thesis by (auto intro!: alloc.skip)
    next
      case True
      then obtain tok b where u: "usable a w s tok b" by blast
      then have f: "findToken a s = Some tok" "w (tok_address tok) = Some b" "0 < b" "\<not> depegged a s"
        by (auto simp: usable_def)
      let ?n = "units_due a fil s tok rem" and ?used = "usd_value a fil s tok b"
      consider (drain) "b < ?n" | (cover) "0 < ?n" "?n \<le> b" | (dust) "?n \<le> 0" by linarith
      then show ?thesis
      proof cases
        case drain
        then have "allocate_loop hexa a key toks ids fil rest (bf_dec rem ?used)
            (w(tok_address tok \<mapsto> 0)) (items @ [mk_item hexa key toks ids tok b ?used]) = (items', r, w')"
          using Cons.prems f pos
          by (simp add: Let_def units_due_def usd_value_def mk_item_def)
        from Cons.IH [OF this] obtain its where
          "items' = (items @ [mk_item hexa key toks ids tok b ?used]) @ its"
          "alloc hexa a key toks ids fil rest (bf_dec rem ?used) (w(tok_address tok \<mapsto> 0)) its r w'"
          by blast
        moreover from pos have "0 < bf_sign rem" by simp
        ultimately show ?thesis using alloc.drain [OF _ u drain]
          by (intro exI [of _ "mk_item hexa key toks ids tok b ?used # its"]) simp
      next
        case cover
        then show ?thesis
          using Cons.prems f pos u
          by (simp add: Let_def units_due_def usd_value_def allocate_loop_zero)
            (auto simp: mk_item_def [symmetric] units_due_def intro!: alloc.cover)
      next
        case dust
        then show ?thesis
          using Cons.prems f pos u
          by (auto simp: Let_def units_due_def usd_value_def allocate_loop_zero intro!: alloc.dust)
      qed
    qed
  qed
qed

lemma allocate_alloc:
  assumes "allocate hexa a key e fil w = (its, r, w')"
  shows "alloc hexa a key (ce_tokens e) (ce_ids e) fil (agg_deductPriority a) (ce_usd e) w its r w'"
  using allocate_loop_alloc [of hexa a key "ce_tokens e" "ce_ids e" fil "agg_deductPriority a" "ce_usd e" w "[]"]
    assms by (auto simp: allocate_def)

section \<open>No balance is allocated twice\<close>

definition balance_in :: "token_balances \<Rightarrow> string \<Rightarrow> int" where
  "balance_in w t = (case w t of Some b \<Rightarrow> b | None \<Rightarrow> 0)"

definition taken :: "settlement_item list \<Rightarrow> string \<Rightarrow> string \<Rightarrow> int" where
  "taken its wallet t =
     (\<Sum>it\<leftarrow>its. if it_wallet it = wallet \<and> tok_address (it_token it) = t then it_amount it else 0)"

lemma taken_simps [simp]:
  "taken [] wallet t = 0" "taken (its @ its') wallet t = taken its wallet t + taken its' wallet t"
  "taken (it # its) wallet t =
     (if it_wallet it = wallet \<and> tok_address (it_token it) = t then it_amount it else 0) + taken its wallet t"
  by (simp_all add: taken_def)

lemma taken_mset: "mset its = mset its' \<Longrightarrow> taken its wallet t = taken its' wallet t"
  by (simp add: taken_def flip: sum_mset_sum_list)

lemma alloc_balance:
  "alloc hexa a key toks ids fil syms rem w its r w' \<Longrightarrow>
   balance_in w' t = balance_in w t - taken its (fst key) t \<and> taken its (fst key) t \<le> max 0 (balance_in w t)"
proof (induction rule: alloc.induct)
  case (drain rem w s tok b rest its r w')
  then have b: "0 < b" "w (tok_address tok) = Some b" by (simp_all add: usable_def)
  show ?case
  proof (cases "t = tok_address tok")
    case True
    with drain b show ?thesis by (simp add: balance_in_def)
  next
    case False
    with drain b show ?thesis by (simp add: balance_in_def)
  qed
next
  case (cover rem w s tok b n rest)
  then have b: "0 < b" "w (tok_address tok) = Some b" by (simp_all add: usable_def)
  with cover show ?case by (cases "t = tok_address tok") (auto simp: balance_in_def)
qed auto

lemma alloc_items:
  "alloc hexa a key toks ids fil syms rem w its r w' \<Longrightarrow> it \<in> set its \<Longrightarrow>
   0 < it_amount it \<and> it_wallet it = fst key \<and> it_spEVM it = hexa (snd key) \<and> it_ids it = ids \<and>
   (\<exists>s\<in>set syms. findToken a s = Some (it_token it) \<and> \<not> depegged a s)"
  by (induction rule: alloc.induct) (auto simp: usable_def)

section \<open>The billing formula is exact up to rounding\<close>

definition rates_ok :: "(string \<rightharpoonup> bigfloat) \<Rightarrow> bool" where
  "rates_ok m \<longleftrightarrow> (\<forall>p\<in>ran m. fprec p = 128 \<and> 0 \<le> bf_val p)"

definition rate_at :: "(string \<rightharpoonup> bigfloat) \<Rightarrow> string \<Rightarrow> rat" where
  "rate_at m model = (case lookupPrice m model of Some p \<Rightarrow> bf_val p | None \<Rightarrow> 0)"

text \<open>What the formula means, in exact arithmetic.\<close>

definition exact_cost ::
  "string \<Rightarrow> int \<Rightarrow> int \<Rightarrow> int \<Rightarrow> int \<Rightarrow> (string \<rightharpoonup> bigfloat) \<Rightarrow> (string \<rightharpoonup> bigfloat) \<Rightarrow>
   (string \<rightharpoonup> bigfloat) \<Rightarrow> rat" where
  "exact_cost model prompt completion cached toks outP catIn catCR =
     (if lookupPrice catIn model = None then rate_at outP model * of_int toks
      else rate_at catIn model * of_int (prompt - cached_part cached prompt)
         + (if lookupPrice catCR model = None then rate_at catIn model else rate_at catCR model)
             * of_int (cached_part cached prompt)
         + rate_at outP model * of_int completion)"

lemma lookupPrice_ok: "rates_ok m \<Longrightarrow> lookupPrice m x = Some p \<Longrightarrow> fprec p = 128 \<and> 0 \<le> bf_val p"
  by (auto simp: lookupPrice_def rates_ok_def intro: ranI split: option.splits)

lemma cached_part_bounds: "0 \<le> p \<Longrightarrow> 0 \<le> cached_part c p \<and> cached_part c p \<le> p"
  by (simp add: cached_part_def Let_def)

lemma rate_times:
  assumes "fprec p = 128 \<or> p = bf_zero" "0 \<le> bf_val p" "0 \<le> n" "n < 2 ^ 53"
  shows "relerr (1 / 2 ^ 128) (bf_val (bf_mul p (float64_of_int n))) (bf_val p * of_int n)"
    "0 \<le> bf_val p * of_int n"
proof -
  have n: "bf_val (float64_of_int n) = of_int n" using assms by (simp add: bf_val_float64_of_int)
  show "relerr (1 / 2 ^ 128) (bf_val (bf_mul p (float64_of_int n))) (bf_val p * of_int n)"
    using assms(1)
  proof
    assume "fprec p = 128"
    then have "near 128 (bf_val (bf_mul p (float64_of_int n))) (bf_val p * of_int n)"
      using bf_mulp_near [of 0 p "float64_of_int n"] n by (simp add: res_prec_def)
    then show ?thesis by (rule relerr_near)
  next
    assume "p = bf_zero"
    then show ?thesis
      by (simp add: bf_mulp_def bf_zero_def bf_val_def [of "BF 0 0 0"])
  qed
  show "0 \<le> bf_val p * of_int n" using assms by simp
qed

lemma acc_relerr:
  assumes "relerr e (bf_val x) v" "relerr e (bf_val y) w" "0 \<le> v" "0 \<le> w" "1 \<le> fprec x"
  shows "relerr (e + 1 / 2 ^ fprec x + e * (1 / 2 ^ fprec x)) (bf_val (bf_acc x y)) (v + w)"
proof -
  have "near (fprec x) (bf_val (bf_acc x y)) (bf_val x + bf_val y)"
    using bf_addp_near [of "fprec x" x y] assms(5) by (simp add: bf_acc_def res_prec_def)
  from relerr_near [OF this] relerr_add [OF assms(1-4)] show ?thesis
    by (intro relerr_trans [where r = "bf_val x + bf_val y"]) auto
qed

lemma parsePerToken_prec: "parsePerToken s = Some p \<Longrightarrow> fprec p = 128"
  by (auto simp: parsePerToken_def res_prec_def dest: ParseFloat_prec split: if_splits option.splits)

lemma parsePerToken_nonneg:
  assumes "parsePerToken (DecText c k) = Some p" "0 \<le> c" shows "0 \<le> bf_val p"
proof -
  have q: "p = bf_quop 128 (parse_dec c k) (float64_of_int 1000000)"
    using assms(1) by (simp add: parsePerToken_def ParseFloat_def)
  have m: "bf_val (float64_of_int 1000000) = 1000000" by (simp add: bf_val_float64_of_int)
  have "sgn (bf_val p) = sgn (bf_val (parse_dec c k) / 1000000)"
    using bf_quop_sgn [of 128 "parse_dec c k" "float64_of_int 1000000"] m by (simp add: q res_prec_def)
  moreover have "sgn (bf_val (parse_dec c k)) = sgn (of_int c / 10 ^ k)"
    by (rule near_sgn [OF _ parse_dec_near]) simp
  then have "0 \<le> bf_val (parse_dec c k)" using assms(2) by (simp add: sgn_if split: if_splits)
  ultimately show ?thesis by (simp add: sgn_if split: if_splits)
qed

lemma parse_rates_ok:
  assumes "\<And>x s. (x, s) \<in> set rates \<Longrightarrow> \<exists>c k. s = DecText c k \<and> 0 \<le> c"
  shows "rates_ok (parse_rates rates)"
  unfolding parse_rates_def
proof (rule fold_invariant [where I = rates_ok])
  show "rates_ok Map.empty" by (simp add: rates_ok_def)
next
  fix r m assume r: "r \<in> set rates" and m: "rates_ok m"
  obtain x s where xs: "r = (x, s)" by (cases r)
  with assms r obtain c k where s: "s = DecText c k" "0 \<le> c" by blast
  show "rates_ok ((\<lambda>(model, s) prices. case parsePerToken s of None \<Rightarrow> prices
      | Some p \<Rightarrow> prices(model \<mapsto> p)) r m)"
    using m s parsePerToken_nonneg [of c k] parsePerToken_prec [of s]
    by (auto simp: xs rates_ok_def ran_def split: option.splits)
qed

lemma split_cost_error:
  assumes "relerr (1 / 2 ^ 128) (bf_val t1) v1" "relerr (1 / 2 ^ 128) (bf_val t2) v2"
    "relerr (1 / 2 ^ 128) (bf_val t3) v3" "0 \<le> v1" "0 \<le> v2" "0 \<le> v3" "fprec t1 = 128"
  shows "relerr (1 / 2 ^ 126) (bf_val (bf_acc (bf_acc t1 t2) t3)) (v1 + v2 + v3)"
proof -
  let ?u = "1 / 2 ^ 128 :: rat"
  have 1: "relerr (?u + ?u + ?u * ?u) (bf_val (bf_acc t1 t2)) (v1 + v2)"
    using acc_relerr [OF assms(1,2,4,5)] assms(7) by simp
  have "fprec (bf_acc t1 t2) = 128" using assms(7) by (simp add: bf_acc_def res_prec_def)
  then have "relerr (?u + ?u + ?u * ?u + ?u + (?u + ?u + ?u * ?u) * ?u)
      (bf_val (bf_acc (bf_acc t1 t2) t3)) (v1 + v2 + v3)"
    using acc_relerr [OF 1 relerr_mono [OF assms(3)]] assms(4-6) by simp
  then show ?thesis by (rule relerr_mono) simp
qed

text \<open>
  C8: The cost is the exact split. With non-negative rates and non-negative token counts below \<open>2 ^ 53\<close>, the billed cost of a request is the
  exact input/cache-read/output split (or the flat price where the model has no catalog entry) up
  to a relative error of \<open>2 ^ - 126\<close>, and so not negative. (The gateway does not refuse a worker's negative counts:
  \<open>negative_usage_is_billed\<close>.)
\<close>

theorem cost_is_exact_split:
  assumes "rates_ok outP" "rates_ok catIn" "rates_ok catCR"
    and "0 \<le> prompt" "0 \<le> completion" "0 \<le> toks"
    and "prompt < 2 ^ 53" "completion < 2 ^ 53" "toks < 2 ^ 53"
  shows "\<bar>bf_val (CostBreakdownUSD model prompt completion cached toks outP catIn catCR)
            - exact_cost model prompt completion cached toks outP catIn catCR\<bar>
         \<le> exact_cost model prompt completion cached toks outP catIn catCR / 2 ^ 126 \<and>
         0 \<le> bf_val (CostBreakdownUSD model prompt completion cached toks outP catIn catCR)"
proof -
  let ?c = "bf_val (CostBreakdownUSD model prompt completion cached toks outP catIn catCR)"
  let ?e = "exact_cost model prompt completion cached toks outP catIn catCR"
  let ?k = "cached_part cached prompt"
  define out where "out = (case lookupPrice outP model of Some p \<Rightarrow> p | None \<Rightarrow> bf_zero)"
  have out: "fprec out = 128 \<or> out = bf_zero" "0 \<le> bf_val out" "bf_val out = rate_at outP model"
    using lookupPrice_ok [OF assms(1), of model]
    by (auto simp: out_def rate_at_def bf_simps split: option.splits)
  have k: "0 \<le> ?k" "?k \<le> prompt" using cached_part_bounds [OF assms(4)] by auto
  have "relerr (1 / 2 ^ 126) ?c ?e \<and> 0 \<le> ?e"
  proof (cases "lookupPrice catIn model")
    case None
    with rate_times [OF out(1,2) assms(6,9)] show ?thesis
      by (auto simp: CostBreakdownUSD_def Let_def exact_cost_def out_def [symmetric] out(3)
          elim: relerr_mono)
  next
    case (Some inp)
    define cr where "cr = (case lookupPrice catCR model of Some p \<Rightarrow> p | None \<Rightarrow> inp)"
    have i: "fprec inp = 128" "0 \<le> bf_val inp" using lookupPrice_ok [OF assms(2) Some] by auto
    have c: "fprec cr = 128 \<or> cr = bf_zero" "0 \<le> bf_val cr"
      using lookupPrice_ok [OF assms(3), of model] i by (auto simp: cr_def split: option.splits)
    have e: "?e = bf_val inp * of_int (prompt - ?k) + bf_val cr * of_int ?k + bf_val out * of_int completion"
      using Some by (simp add: exact_cost_def rate_at_def cr_def out(3) split: option.splits)
    note r1 = rate_times [of inp "prompt - ?k"] and r2 = rate_times [OF c k(1)]
      and r3 = rate_times [OF out(1,2) assms(5,8)]
    have eq: "CostBreakdownUSD model prompt completion cached toks outP catIn catCR
        = bf_acc (bf_acc (bf_mul inp (float64_of_int (prompt - ?k))) (bf_mul cr (float64_of_int ?k)))
            (bf_mul out (float64_of_int completion))"
      using Some by (simp add: CostBreakdownUSD_def Let_def out_def [symmetric] cr_def [symmetric])
    have "relerr (1 / 2 ^ 126) ?c ?e"
      unfolding e eq
      by (rule split_cost_error [OF r1(1) r2(1) r3(1) r1(2) r2(2) r3(2)])
        (use i k assms in \<open>simp_all add: res_prec_def\<close>)
    moreover have "0 \<le> ?e" unfolding e using r1(2) r2(2) r3(2) i k assms by simp
    ultimately show ?thesis by blast
  qed
  then have r: "relerr (1 / 2 ^ 126) ?c ?e" and e: "0 \<le> ?e" by auto
  from relerr_nonneg [OF r e] have "0 \<le> ?c" by simp
  with r e show ?thesis by (simp add: relerr_def abs_of_nonneg)
qed

theorem cost_is_exact_split_witness:
  "0 \<le> bf_val (CostBreakdownUSD ''m'' 1000 500 200 1500 (parse_rates [(''default'', DecText 20 2)])
     (parse_rates [(''m'', DecText 5 2)]) (parse_rates [(''m'', DecText 1 2)]))"
  by (rule cost_is_exact_split [THEN conjunct2]) (auto intro!: parse_rates_ok)

section \<open>From one key to the whole aggregation\<close>

lemma settle_key_cases:
  obtains its r w' where
    "alloc hexa a key (ce_tokens (entry_of costs key)) (ce_ids (entry_of costs key)) fil
       (agg_deductPriority a) (ce_usd (entry_of costs key)) w its r w'"
    "fst (settle_key hexa a fil costs key (w, out)) = w'"
    "ao_items (snd (settle_key hexa a fil costs key (w, out))) = ao_items out @ its"
    "ao_debts (snd (settle_key hexa a fil costs key (w, out))) =
       (if bf_sign r > 0 then ao_debts out @ [\<lparr>cd_wallet = fst key, cd_spEVM = snd key, cd_usd = Some r,
          cd_ids = ce_ids (entry_of costs key)\<rparr>] else ao_debts out)"
proof -
  obtain its r w' where a: "allocate hexa a key (entry_of costs key) fil w = (its, r, w')"
    by (cases "allocate hexa a key (entry_of costs key) fil w") auto
  show ?thesis
    by (rule that [OF allocate_alloc [OF a]]) (simp_all add: settle_key_def a Let_def)
qed

lemma taken_other: "(\<And>it. it \<in> set its \<Longrightarrow> it_wallet it \<noteq> wallet) \<Longrightarrow> taken its wallet t = 0"
  by (induction its) auto

lemma settle_keys_items:
  assumes "\<And>k. k \<in> set ks \<Longrightarrow> fst k = wallet"
  shows "\<exists>its. ao_items (snd (fold (settle_key hexa a fil costs) ks (w, out))) = ao_items out @ its \<and>
     (\<forall>it\<in>set its. it_wallet it = wallet) \<and> taken its wallet t \<le> max 0 (balance_in w t)"
  using assms
proof (induction ks arbitrary: w out)
  case (Cons k ks)
  obtain its r w' where k:
    "alloc hexa a k (ce_tokens (entry_of costs k)) (ce_ids (entry_of costs k)) fil
       (agg_deductPriority a) (ce_usd (entry_of costs k)) w its r w'"
    "fst (settle_key hexa a fil costs k (w, out)) = w'"
    "ao_items (snd (settle_key hexa a fil costs k (w, out))) = ao_items out @ its"
    by (rule settle_key_cases [of hexa a k costs fil w out])
  obtain out' where out': "settle_key hexa a fil costs k (w, out) = (w', out')"
    using k(2) by (metis prod.collapse)
  obtain its' where IH: "ao_items (snd (fold (settle_key hexa a fil costs) ks (w', out'))) = ao_items out' @ its'"
    "\<forall>it\<in>set its'. it_wallet it = wallet" "taken its' wallet t \<le> max 0 (balance_in w' t)"
    using Cons.IH [of w' out'] Cons.prems by auto
  have f: "fst k = wallet" using Cons.prems by simp
  have "\<forall>it\<in>set its. it_wallet it = wallet" using alloc_items [OF k(1)] f by auto
  moreover have "taken (its @ its') wallet t \<le> max 0 (balance_in w t)"
    using alloc_balance [OF k(1), of t] IH(3) f by auto
  ultimately show ?case
    using IH(1,2) k(3) out' by (intro exI [of _ "its @ its'"]) auto
qed simp

lemma wallet_keys_wallet: "k \<in> set (wallet_keys costs wallet) \<Longrightarrow> fst k = wallet"
  by (simp add: wallet_keys_def)

lemma settle_wallets_taken:
  "distinct ws \<Longrightarrow> (\<And>v. v \<in> set ws \<Longrightarrow> \<forall>it\<in>set (ao_items out). it_wallet it \<noteq> v) \<Longrightarrow>
   taken (ao_items (fold (settle_wallet hexa a fil costs balances) ws out)) wallet t
     \<le> taken (ao_items out) wallet t
        + (if wallet \<in> set ws then max 0 (balance_in (balances wallet) t) else 0)"
proof (induction ws arbitrary: out)
  case (Cons v ws)
  obtain its where i: "ao_items (settle_wallet hexa a fil costs balances v out) = ao_items out @ its"
    "\<forall>it\<in>set its. it_wallet it = v" "taken its v t \<le> max 0 (balance_in (balances v) t)"
    using settle_keys_items [of "wallet_keys costs v" v hexa a fil costs "balances v" out t]
      wallet_keys_wallet unfolding settle_wallet_def by blast
  let ?out = "settle_wallet hexa a fil costs balances v out"
  have "taken (ao_items (fold (settle_wallet hexa a fil costs balances) ws ?out)) wallet t
      \<le> taken (ao_items ?out) wallet t + (if wallet \<in> set ws then max 0 (balance_in (balances wallet) t) else 0)"
    by (rule Cons.IH) (use Cons.prems i in auto)
  moreover have "taken its wallet t = 0" if "wallet \<noteq> v"
    using i(2) that by (intro taken_other) auto
  ultimately show ?case using i Cons.prems(1) by (cases "wallet = v") auto
qed simp

lemma taken_sort [simp]: "taken (sort_key f its) wallet t = taken its wallet t"
  by (rule taken_mset) simp

lemma distinct_cost_wallets [simp]: "distinct (cost_wallets costs)"
  by (simp add: cost_wallets_def)

text \<open>
  C1: No overdraft. For every wallet and every token, the amounts of all the items made for that
  wallet, over all its providers and its carried debts together, add up to at most the balance
  the cycle read for it.
\<close>

theorem no_balance_allocated_twice:
  "taken (fst (AggregateWithDebts hexa a records debts fil balances)) wallet t
     \<le> max 0 (balance_in (balances wallet) t)"
proof (cases fil)
  case (Some p)
  then show ?thesis
    using settle_wallets_taken [of "cost_wallets (fst (collect_costs a records debts))"
        "\<lparr>ao_items = [], ao_settled = [], ao_debts = []\<rparr>" hexa a p "fst (collect_costs a records debts)"
        balances wallet t]
    by (auto simp: AggregateWithDebts_def Let_def split: prod.splits if_splits)
qed (simp add: AggregateWithDebts_def)

section \<open>Every key is allocated, every item comes from a key\<close>

definition alloc_for ::
  "(string \<Rightarrow> string) \<Rightarrow> aggregator \<Rightarrow> bigfloat \<Rightarrow> (agg_key \<times> cost_entry) list \<Rightarrow> agg_key \<Rightarrow>
   settlement_item list \<Rightarrow> bigfloat \<Rightarrow> bool" where
  "alloc_for hexa a fil costs key its r \<longleftrightarrow>
     (\<exists>w w'. alloc hexa a key (ce_tokens (entry_of costs key)) (ce_ids (entry_of costs key)) fil
        (agg_deductPriority a) (ce_usd (entry_of costs key)) w its r w')"

definition debt_for :: "(agg_key \<times> cost_entry) list \<Rightarrow> agg_key \<Rightarrow> bigfloat \<Rightarrow> carried_debt" where
  "debt_for costs key r =
     \<lparr>cd_wallet = fst key, cd_spEVM = snd key, cd_usd = Some r, cd_ids = ce_ids (entry_of costs key)\<rparr>"

text \<open>\<open>out'\<close> extends \<open>out\<close> by the allocation of exactly the keys \<open>K\<close>.\<close>

definition extends_by ::
  "(string \<Rightarrow> string) \<Rightarrow> aggregator \<Rightarrow> bigfloat \<Rightarrow> (agg_key \<times> cost_entry) list \<Rightarrow> agg_key set \<Rightarrow>
   agg_out \<Rightarrow> agg_out \<Rightarrow> bool" where
  "extends_by hexa a fil costs K out out' \<longleftrightarrow>
     set (ao_items out) \<subseteq> set (ao_items out') \<and> set (ao_debts out) \<subseteq> set (ao_debts out') \<and>
     (\<forall>k\<in>K. \<exists>its r. alloc_for hexa a fil costs k its r \<and> set its \<subseteq> set (ao_items out') \<and>
        (0 < bf_sign r \<longrightarrow> debt_for costs k r \<in> set (ao_debts out'))) \<and>
     (\<forall>it\<in>set (ao_items out'). it \<in> set (ao_items out) \<or>
        (\<exists>k\<in>K. \<exists>its r. alloc_for hexa a fil costs k its r \<and> it \<in> set its))"

lemma extends_refl: "extends_by hexa a fil costs {} out out"
  by (simp add: extends_by_def)

lemma extends_byD:
  assumes "extends_by hexa a fil costs K out out'"
  shows "set (ao_items out) \<subseteq> set (ao_items out')" "set (ao_debts out) \<subseteq> set (ao_debts out')"
    "k \<in> K \<Longrightarrow> \<exists>its r. alloc_for hexa a fil costs k its r \<and> set its \<subseteq> set (ao_items out') \<and>
        (0 < bf_sign r \<longrightarrow> debt_for costs k r \<in> set (ao_debts out'))"
    "it \<in> set (ao_items out') \<Longrightarrow> it \<in> set (ao_items out) \<or>
        (\<exists>k\<in>K. \<exists>its r. alloc_for hexa a fil costs k its r \<and> it \<in> set its)"
  using assms by (simp_all add: extends_by_def)

lemma extends_trans:
  assumes 1: "extends_by hexa a fil costs K out out'" and 2: "extends_by hexa a fil costs K' out' out''"
  shows "extends_by hexa a fil costs (K \<union> K') out out''"
  unfolding extends_by_def
proof (intro conjI ballI)
  note m = extends_byD(1,2) [OF 1] extends_byD(1,2) [OF 2]
  show "set (ao_items out) \<subseteq> set (ao_items out'')" "set (ao_debts out) \<subseteq> set (ao_debts out'')"
    using m by auto
  fix k assume k: "k \<in> K \<union> K'"
  show "\<exists>its r. alloc_for hexa a fil costs k its r \<and> set its \<subseteq> set (ao_items out'') \<and>
      (0 < bf_sign r \<longrightarrow> debt_for costs k r \<in> set (ao_debts out''))"
  proof (cases "k \<in> K")
    case True
    from extends_byD(3) [OF 1 this] m show ?thesis by (meson subset_iff subset_trans)
  next
    case False
    with k extends_byD(3) [OF 2] show ?thesis by blast
  qed
next
  fix it assume "it \<in> set (ao_items out'')"
  from extends_byD(4) [OF 2 this] extends_byD(4) [OF 1, of it]
  show "it \<in> set (ao_items out) \<or>
      (\<exists>k\<in>K \<union> K'. \<exists>its r. alloc_for hexa a fil costs k its r \<and> it \<in> set its)" by blast
qed

lemma settle_key_extends:
  "extends_by hexa a fil costs {key} out (snd (settle_key hexa a fil costs key (w, out)))"
proof -
  obtain its r w' where k:
    "alloc hexa a key (ce_tokens (entry_of costs key)) (ce_ids (entry_of costs key)) fil
       (agg_deductPriority a) (ce_usd (entry_of costs key)) w its r w'"
    "ao_items (snd (settle_key hexa a fil costs key (w, out))) = ao_items out @ its"
    "ao_debts (snd (settle_key hexa a fil costs key (w, out))) =
       (if bf_sign r > 0 then ao_debts out @ [\<lparr>cd_wallet = fst key, cd_spEVM = snd key, cd_usd = Some r,
          cd_ids = ce_ids (entry_of costs key)\<rparr>] else ao_debts out)"
    by (rule settle_key_cases [of hexa a key costs fil w out])
  then have "alloc_for hexa a fil costs key its r" by (auto simp: alloc_for_def)
  with k(2,3) show ?thesis unfolding extends_by_def
    by (auto simp: debt_for_def)
qed

lemma settle_keys_extends:
  "extends_by hexa a fil costs (set ks) out (snd (fold (settle_key hexa a fil costs) ks (w, out)))"
proof (induction ks arbitrary: w out)
  case (Cons k ks)
  obtain w' out' where s: "settle_key hexa a fil costs k (w, out) = (w', out')" by fastforce
  have "extends_by hexa a fil costs {k} out out'"
    using settle_key_extends [of hexa a fil costs k out w] by (simp add: s)
  from extends_trans [OF this Cons.IH [of out' w']] show ?case by (simp add: s)
qed (simp add: extends_refl)

lemma settle_wallets_extends:
  "extends_by hexa a fil costs (\<Union>v\<in>set ws. set (wallet_keys costs v)) out
     (fold (settle_wallet hexa a fil costs balances) ws out)"
proof (induction ws arbitrary: out)
  case (Cons v ws)
  have "extends_by hexa a fil costs (set (wallet_keys costs v)) out
      (settle_wallet hexa a fil costs balances v out)"
    unfolding settle_wallet_def by (rule settle_keys_extends)
  from extends_trans [OF this Cons.IH] show ?case by simp
qed (simp add: extends_refl)

lemma all_wallet_keys: "(\<Union>v\<in>set (cost_wallets costs). set (wallet_keys costs v)) = set (akeys costs)"
  by (auto simp: cost_wallets_def wallet_keys_def)

text \<open>The four results of an aggregation at a positive price, in terms of the collected costs.\<close>

lemma aggregate_facts:
  assumes "AggregateWithDebts hexa a records debts (Some fil) balances = (items, unresolved, settled, remaining)"
    and "0 < bf_sign fil" and "costs = fst (collect_costs a records debts)"
  shows "unresolved = snd (collect_costs a records debts)"
    "k \<in> set (akeys costs) \<Longrightarrow> \<exists>its r. alloc_for hexa a fil costs k its r \<and> set its \<subseteq> set items \<and>
        (0 < bf_sign r \<longrightarrow> debt_for costs k r \<in> set remaining)"
    "it \<in> set items \<Longrightarrow> \<exists>k its r. k \<in> set (akeys costs) \<and> alloc_for hexa a fil costs k its r \<and> it \<in> set its"
proof -
  let ?start = "\<lparr>ao_items = [], ao_settled = [], ao_debts = []\<rparr>"
  let ?out = "fold (settle_wallet hexa a fil costs balances) (cost_wallets costs) ?start"
  have e: "unresolved = snd (collect_costs a records debts)" "set items = set (ao_items ?out)"
    "remaining = ao_debts ?out"
    using assms by (auto simp: AggregateWithDebts_def Let_def split: prod.splits)
  then show "unresolved = snd (collect_costs a records debts)" by simp
  have x: "extends_by hexa a fil costs (set (akeys costs)) ?start ?out"
    using settle_wallets_extends [where ws = "cost_wallets costs" and out = ?start and costs = costs
        and hexa = hexa and a = a and fil = fil and balances = balances]
    by (simp only: all_wallet_keys)
  show "k \<in> set (akeys costs) \<Longrightarrow> \<exists>its r. alloc_for hexa a fil costs k its r \<and> set its \<subseteq> set items \<and>
        (0 < bf_sign r \<longrightarrow> debt_for costs k r \<in> set remaining)"
    using extends_byD(3) [OF x, of k] e(2,3) by simp
  show "it \<in> set items \<Longrightarrow> \<exists>k its r. k \<in> set (akeys costs) \<and> alloc_for hexa a fil costs k its r \<and> it \<in> set its"
    using extends_byD(4) [OF x, of it] e(2) by auto
qed

section \<open>Collected costs remember every record\<close>

definition ids_at :: "(agg_key \<times> cost_entry) list \<Rightarrow> agg_key \<Rightarrow> string list" where
  "ids_at costs key = ce_ids (entry_of costs key)"

lemma entry_of_aput [simp]: "entry_of (aput k e costs) k' = (if k' = k then e else entry_of costs k')"
  by (simp add: entry_of_def)

lemma add_record_keeps:
  "set (ids_at costs k) \<subseteq> set (ids_at (fst (add_record a rec (costs, un))) k)"
  "set (akeys costs) \<subseteq> set (akeys (fst (add_record a rec (costs, un))))"
  "set un \<subseteq> set (snd (add_record a rec (costs, un)))"
  by (auto simp: add_record_def Let_def ids_at_def)

lemma add_debt_keeps:
  "set (ids_at costs k) \<subseteq> set (ids_at (add_debt d costs) k)"
  "set (akeys costs) \<subseteq> set (akeys (add_debt d costs))"
  by (auto simp: add_debt_def Let_def ids_at_def split: option.splits)

lemma add_records_keeps:
  "set (ids_at costs k) \<subseteq> set (ids_at (fst (fold (add_record a) recs (costs, un))) k) \<and>
   set (akeys costs) \<subseteq> set (akeys (fst (fold (add_record a) recs (costs, un)))) \<and>
   set un \<subseteq> set (snd (fold (add_record a) recs (costs, un)))"
proof (induction recs arbitrary: costs un)
  case (Cons r recs)
  obtain c' u' where s: "add_record a r (costs, un) = (c', u')" by fastforce
  have "set (ids_at costs k) \<subseteq> set (ids_at c' k)" "set (akeys costs) \<subseteq> set (akeys c')" "set un \<subseteq> set u'"
    using add_record_keeps(1) [of costs k a r un] add_record_keeps(2) [of costs a r un]
      add_record_keeps(3) [of un a r costs] by (simp_all add: s)
  with Cons.IH [of c' u'] show ?case by (simp add: s) blast
qed simp

lemma add_debts_keeps:
  "set (ids_at costs k) \<subseteq> set (ids_at (fold add_debt ds costs) k) \<and>
   set (akeys costs) \<subseteq> set (akeys (fold add_debt ds costs))"
proof (induction ds arbitrary: costs)
  case (Cons d ds)
  from Cons.IH [of "add_debt d costs"] add_debt_keeps(1) [of costs k d] add_debt_keeps(2) [of costs d]
  show ?case by simp blast
qed simp

lemma add_records_covers:
  "r \<in> set recs \<Longrightarrow> rr_id r \<noteq> '''' \<Longrightarrow>
   r \<in> set (snd (fold (add_record a) recs (costs, un))) \<or>
   (let k = (rr_wallet r, resolveWorkerToEVM a (rr_worker r)); c = fst (fold (add_record a) recs (costs, un))
    in k \<in> set (akeys c) \<and> rr_id r \<in> set (ids_at c k))"
proof (induction recs arbitrary: costs un)
  case (Cons r' recs)
  obtain c' u' where s: "add_record a r' (costs, un) = (c', u')" by fastforce
  show ?case
  proof (cases "r = r'")
    case True
    have "r \<in> set u' \<or> (let k = (rr_wallet r, resolveWorkerToEVM a (rr_worker r))
        in k \<in> set (akeys c') \<and> rr_id r \<in> set (ids_at c' k))"
      using s Cons.prems(2) True
      by (auto simp: add_record_def Let_def ids_at_def split: if_splits)
    with add_records_keeps [of c' "(rr_wallet r, resolveWorkerToEVM a (rr_worker r))" a recs u']
    show ?thesis by (auto simp: Let_def s)
  next
    case False
    with Cons s show ?thesis by simp
  qed
qed simp

lemma collect_covers:
  assumes "r \<in> set records" "rr_id r \<noteq> ''''"
  shows "r \<in> set (snd (collect_costs a records debts)) \<or>
   (let k = (rr_wallet r, resolveWorkerToEVM a (rr_worker r)); c = fst (collect_costs a records debts)
    in k \<in> set (akeys c) \<and> rr_id r \<in> set (ids_at c k))"
proof -
  let ?k = "(rr_wallet r, resolveWorkerToEVM a (rr_worker r))"
  let ?c = "fst (fold (add_record a) records ([], []))"
  from add_records_covers [OF assms, of a "[]" "[]"] add_debts_keeps [where costs = ?c and k = ?k and ds = debts]
  show ?thesis by (auto simp: collect_costs_def Let_def split: prod.splits)
qed

section \<open>Items are priced fairly\<close>

definition prices_usable :: "aggregator \<Rightarrow> bigfloat \<Rightarrow> bool" where
  "prices_usable a fil \<longleftrightarrow>
     0 < bf_val fil \<and> 53 \<le> fprec fil \<and> (\<forall>p. agg_pricer a = Some p \<longrightarrow> prices_ok p)"

lemma token_price_ok:
  "prices_usable a fil \<Longrightarrow> 0 < bf_val (token_price a fil s) \<and> 53 \<le> fprec (token_price a fil s)"
  by (auto simp: prices_usable_def token_price_def StablecoinPriceUSD_def prices_ok_def float64_1_def
      bf_val_float64_of_int split: option.splits)

lemma pow10_power: "pow10 n = 10 ^ n"
  by (induction n) auto

lemma relerr_twice:
  assumes "near p r v" "near q s r" "53 \<le> p" "53 \<le> q"
  shows "relerr (1 / 2 ^ 51) s v"
proof -
  have "relerr (1 / 2 ^ 53) r v" "relerr (1 / 2 ^ 53) s r"
    by (rule relerr_near_ge [OF assms(1,3)], rule relerr_near_ge [OF assms(2,4)])
  from relerr_trans [OF this] have "relerr (1 / 2 ^ 53 + 1 / 2 ^ 53 + 1 / 2 ^ 53 * (1 / 2 ^ 53)) s v"
    by simp
  then show ?thesis by (rule relerr_mono) simp
qed

text \<open>\<open>unit_usd\<close>: the USD worth of one smallest unit.\<close>

definition unit_usd :: "aggregator \<Rightarrow> bigfloat \<Rightarrow> string \<Rightarrow> token_config \<Rightarrow> rat" where
  "unit_usd a fil s tok = bf_val (token_price a fil s) / 10 ^ tok_decimals tok"

lemma unit_usd_pos: "prices_usable a fil \<Longrightarrow> 0 < unit_usd a fil s tok"
  by (simp add: unit_usd_def token_price_ok)

lemma near_times:
  assumes "near p r v" shows "near p (r * c) (v * c)"
  using relerr_mult [OF relerr_near [OF assms], of c] by (simp add: near_def relerr_def field_simps)

lemma units_due_bounds:
  fixes s :: string and tok :: token_config
  assumes ok: "prices_usable a fil" and rem: "0 < bf_val rem"
  defines "n \<equiv> units_due a fil s tok rem" and "v \<equiv> unit_usd a fil s tok"
  shows "0 \<le> n" "of_int n * v \<le> bf_val rem * (1 + 1 / 2 ^ 51)"
    "bf_val rem * (1 - 1 / 2 ^ 51) < (of_int n + 1) * v"
proof -
  let ?p = "token_price a fil s" and ?d = "bf_of_int (pow10 (tok_decimals tok))"
  let ?q = "bf_quo rem ?p" and ?x = "bf_mul (bf_quo rem (token_price a fil s)) (bf_of_int (pow10 (tok_decimals tok)))"
  have p: "0 < bf_val ?p" "53 \<le> fprec ?p" using token_price_ok [OF ok] by auto
  have d: "bf_val ?d = 10 ^ tok_decimals tok" by (simp add: bf_simps pow10_power)
  have rq: "53 \<le> res_prec 0 rem ?p" "53 \<le> res_prec 0 ?q ?d"
    using p by (auto simp: res_prec_def)
  have "near (res_prec 0 rem ?p) (bf_val ?q) (bf_val rem / bf_val ?p)"
    using bf_quop_near [of 0 rem ?p] p rq by simp
  from near_times [OF this] have
    "near (res_prec 0 rem ?p) (bf_val ?q * bf_val ?d) (bf_val rem / bf_val ?p * bf_val ?d)" .
  moreover have "near (res_prec 0 ?q ?d) (bf_val ?x) (bf_val ?q * bf_val ?d)"
    using bf_mulp_near [of 0 ?q ?d] rq by simp
  ultimately have e: "relerr (1 / 2 ^ 51) (bf_val ?x) (bf_val rem / bf_val ?p * bf_val ?d)"
    using rq by (rule relerr_twice)
  have vd: "bf_val rem / bf_val ?p * bf_val ?d = bf_val rem / v"
    using p by (simp add: v_def unit_usd_def d)
  have v: "0 < v" using unit_usd_pos [OF ok] by (simp add: v_def)
  have nn: "0 \<le> bf_val rem / v" using rem v by simp
  note b = relerr_bounds [OF e [unfolded vd] nn]
  have x: "0 \<le> bf_val ?x" using relerr_nonneg [OF e [unfolded vd] nn] by simp
  have n: "n = bf_to_int ?x" by (simp add: n_def units_due_def floatToWei_def)
  show "0 \<le> n" using bf_to_int_floor(3) [OF x] by (simp add: n)
  have "of_int n \<le> bf_val rem / v * (1 + 1 / 2 ^ 51)"
    using bf_to_int_floor(1) [OF x] b(2) by (simp add: n)
  then show "of_int n * v \<le> bf_val rem * (1 + 1 / 2 ^ 51)"
    using v by (simp add: pos_le_divide_eq)
  have "bf_val rem / v * (1 - 1 / 2 ^ 51) < of_int n + 1"
    using bf_to_int_floor(2) [OF x] b(1) by (simp add: n)
  then show "bf_val rem * (1 - 1 / 2 ^ 51) < (of_int n + 1) * v"
    using v by (simp add: pos_divide_less_eq)
qed

lemma usd_value_error:
  assumes ok: "prices_usable a fil"
  shows "relerr (1 / 2 ^ 51) (bf_val (usd_value a fil s tok n)) (of_int n * unit_usd a fil s tok)"
proof -
  let ?p = "token_price a fil s" and ?d = "bf_of_int (pow10 (tok_decimals tok))"
  let ?q = "bf_quo (bf_of_int n) ?d"
  have p: "0 < bf_val ?p" "53 \<le> fprec ?p" using token_price_ok [OF ok] by auto
  have d: "bf_val ?d = 10 ^ tok_decimals tok" by (simp add: bf_simps pow10_power)
  have rq: "53 \<le> res_prec 0 (bf_of_int n) ?d" "53 \<le> res_prec 0 ?q ?p"
    using p by (auto simp: res_prec_def)
  have "near (res_prec 0 (bf_of_int n) ?d) (bf_val ?q) (bf_val (bf_of_int n) / bf_val ?d)"
    using bf_quop_near [of 0 "bf_of_int n" ?d] rq d by simp
  from near_times [OF this, of "bf_val ?p"] have
    "near (res_prec 0 (bf_of_int n) ?d) (bf_val ?q * bf_val ?p) (of_int n * unit_usd a fil s tok)"
    by (simp add: unit_usd_def d bf_simps pow10_power)
  moreover have "near (res_prec 0 ?q ?p) (bf_val (bf_mul ?q ?p)) (bf_val ?q * bf_val ?p)"
    using bf_mulp_near [of 0 ?q ?p] rq by simp
  ultimately show ?thesis using rq unfolding usd_value_def weiToFloat_def by (rule relerr_twice)
qed

lemma drain_value:
  assumes ok: "prices_usable a fil" and rem: "0 < bf_val rem"
    and b: "0 \<le> b" "b < units_due a fil s tok rem"
  shows "0 \<le> bf_val (usd_value a fil s tok b)" "bf_val (usd_value a fil s tok b) \<le> 2 * bf_val rem"
proof -
  let ?v = "unit_usd a fil s tok" and ?used = "bf_val (usd_value a fil s tok b)"
  have v: "0 < ?v" by (rule unit_usd_pos [OF ok])
  then have bv: "0 \<le> of_int b * ?v" using b by simp
  note r = usd_value_error [OF ok, of s tok b]
  show "0 \<le> ?used" using relerr_nonneg [OF r bv] by simp
  have "of_int b * ?v \<le> of_int (units_due a fil s tok rem) * ?v"
    using b v by (intro mult_right_mono) auto
  also have "\<dots> \<le> bf_val rem * (1 + 1 / 2 ^ 51)" by (rule units_due_bounds(2) [OF ok rem])
  finally have "of_int b * ?v * (1 + 1 / 2 ^ 51) \<le> bf_val rem * (1 + 1 / 2 ^ 51) * (1 + 1 / 2 ^ 51)"
    by (intro mult_right_mono) auto
  with relerr_bounds(2) [OF r bv] have "?used \<le> bf_val rem * (1 + 1 / 2 ^ 51) * (1 + 1 / 2 ^ 51)" by simp
  also have "\<dots> \<le> 2 * bf_val rem" using rem by simp
  finally show "?used \<le> 2 * bf_val rem" .
qed

definition fairly_priced :: "aggregator \<Rightarrow> bigfloat \<Rightarrow> string list \<Rightarrow> settlement_item \<Rightarrow> bool" where
  "fairly_priced a fil syms it \<longleftrightarrow>
     (\<exists>s. s \<in> set syms \<and> findToken a s = Some (it_token it) \<and> \<not> depegged a s \<and> 0 < it_amount it \<and>
        \<bar>of_int (it_amount it) * unit_usd a fil s (it_token it) - bf_val (it_usd it)\<bar>
          \<le> bf_val (it_usd it) / 2 ^ 50 + unit_usd a fil s (it_token it))"

lemma drain_fair:
  fixes x v :: rat
  assumes "relerr (1 / 2 ^ 51) x v" "0 \<le> v" shows "\<bar>v - x\<bar> \<le> x / 2 ^ 50"
proof -
  have "\<bar>v - x\<bar> \<le> v / 2 ^ 51" using assms by (simp add: relerr_def abs_minus_commute)
  moreover have "v * (1 - 1 / 2 ^ 51) \<le> x" by (rule relerr_bounds(1) [OF assms])
  moreover have "v / 2 \<le> v * (1 - 1 / 2 ^ 51)" using assms(2) by simp
  ultimately show ?thesis by simp
qed

lemma alloc_fair:
  assumes ok: "prices_usable a fil"
  shows "alloc hexa a key toks ids fil syms rem w its r w' \<Longrightarrow> it \<in> set its \<Longrightarrow> fairly_priced a fil syms it"
proof (induction rule: alloc.induct)
  case (skip rem w s rest its r w')
  then show ?case by (auto simp: fairly_priced_def)
next
  case (drain rem w s tok b rest its r w')
  show ?case
  proof (cases "it \<in> set its")
    case True
    with drain.IH show ?thesis by (auto simp: fairly_priced_def)
  next
    case False
    with drain.prems have it: "it = mk_item hexa key toks ids tok b (usd_value a fil s tok b)" by simp
    have b: "0 < b" using drain.hyps by (simp add: usable_def)
    have "0 \<le> of_int b * unit_usd a fil s tok" using unit_usd_pos [OF ok, of s tok] b by simp
    from drain_fair [OF usd_value_error [OF ok] this]
    have "\<bar>of_int b * unit_usd a fil s tok - bf_val (usd_value a fil s tok b)\<bar>
        \<le> bf_val (usd_value a fil s tok b) / 2 ^ 50 + unit_usd a fil s tok"
      using unit_usd_pos [OF ok, of s tok] by linarith
    with drain.hyps b show ?thesis by (auto simp: fairly_priced_def it usable_def)
  qed
next
  case (cover rem w s tok b n rest)
  then have it: "it = mk_item hexa key toks ids tok n rem" by simp
  have rem: "0 < bf_val rem" using cover.hyps by (simp add: bf_sign_cases)
  note u = units_due_bounds(2,3) [OF ok rem, of s tok]
  have "\<bar>of_int n * unit_usd a fil s tok - bf_val rem\<bar> \<le> bf_val rem / 2 ^ 50 + unit_usd a fil s tok"
    using u rem unit_usd_pos [OF ok, of s tok] cover.hyps(3)
    by (simp add: abs_le_iff algebra_simps)
  with cover.hyps show ?case by (auto simp: fairly_priced_def it usable_def)
qed auto

section \<open>USD is conserved by an allocation\<close>

definition usd_sum :: "settlement_item list \<Rightarrow> rat" where
  "usd_sum its = (\<Sum>it\<leftarrow>its. bf_val (it_usd it))"

definition growth :: "nat \<Rightarrow> rat" where
  "growth k = (1 + 1 / 2 ^ 53) ^ k - 1"

lemma growth_Suc: "growth (Suc k) = 1 / 2 ^ 53 + (1 + 1 / 2 ^ 53) * growth k"
  by (simp add: growth_def algebra_simps)

lemma growth_nonneg [simp]: "0 \<le> growth k"
  by (simp add: growth_def)

lemma dec_step:
  assumes "0 < bf_val rem" "53 \<le> fprec rem" "0 \<le> bf_val x" "bf_val x \<le> 2 * bf_val rem"
  shows "\<bar>bf_val (bf_dec rem x) - (bf_val rem - bf_val x)\<bar> \<le> bf_val rem / 2 ^ 53"
    "bf_val (bf_dec rem x) \<le> bf_val rem * (1 + 1 / 2 ^ 53)" "fprec (bf_dec rem x) = fprec rem"
proof -
  have "near (fprec rem) (bf_val (bf_dec rem x)) (bf_val rem - bf_val x)"
    using bf_addp_near [of "fprec rem" rem "bf_neg x"] assms(2)
    by (simp add: bf_dec_def bf_subp_def res_prec_def bf_simps)
  from relerr_near_ge [OF this assms(2)]
  have e: "\<bar>bf_val (bf_dec rem x) - (bf_val rem - bf_val x)\<bar> \<le> 1 / 2 ^ 53 * \<bar>bf_val rem - bf_val x\<bar>"
    by (simp add: relerr_def)
  also have "\<dots> \<le> 1 / 2 ^ 53 * bf_val rem" using assms by (intro mult_left_mono) auto
  finally show a: "\<bar>bf_val (bf_dec rem x) - (bf_val rem - bf_val x)\<bar> \<le> bf_val rem / 2 ^ 53" by simp
  show "bf_val (bf_dec rem x) \<le> bf_val rem * (1 + 1 / 2 ^ 53)"
    using order_trans [OF abs_ge_self a] assms(3) by (simp add: algebra_simps)
  show "fprec (bf_dec rem x) = fprec rem" using assms(2) by (simp add: bf_dec_def res_prec_def)
qed

text \<open>
  \<open>dust a fil syms d\<close>: \<open>d\<close> USD is nothing, or less than one smallest unit of a supported token of
  the deduction order (up to rounding); the allocation drops such a rest without an item.
\<close>

definition dust :: "aggregator \<Rightarrow> bigfloat \<Rightarrow> string list \<Rightarrow> rat \<Rightarrow> bool" where
  "dust a fil syms d \<longleftrightarrow> d = 0 \<or>
     (\<exists>s tok. s \<in> set syms \<and> findToken a s = Some tok \<and> 0 < d \<and> d * (1 - 1 / 2 ^ 51) < unit_usd a fil s tok)"

lemma dust_mono: "dust a fil syms d \<Longrightarrow> set syms \<subseteq> set syms' \<Longrightarrow> dust a fil syms' d"
  unfolding dust_def by blast

definition conserves :: "aggregator \<Rightarrow> bigfloat \<Rightarrow> string list \<Rightarrow> rat \<Rightarrow> rat \<Rightarrow> bool" where
  "conserves a fil syms owed accounted \<longleftrightarrow>
     (\<exists>d. dust a fil syms d \<and> \<bar>owed - (accounted + d)\<bar> \<le> max 0 owed * growth (length syms))"

lemma dust_unit:
  assumes "prices_usable a fil" "0 < bf_val rem" "units_due a fil s tok rem \<le> 0"
    "findToken a s = Some tok" "s \<in> set syms"
  shows "dust a fil syms (bf_val rem)"
proof -
  have "units_due a fil s tok rem = 0"
    using units_due_bounds(1) [OF assms(1,2), of s tok] assms(3) by simp
  then have "bf_val rem * (1 - 1 / 2 ^ 51) < unit_usd a fil s tok"
    using units_due_bounds(3) [OF assms(1,2), of s tok] by simp
  with assms show ?thesis unfolding dust_def by blast
qed

lemma conserves_drain:
  fixes rem used rem' acc :: rat
  assumes "\<bar>rem' - (rem - used)\<bar> \<le> rem / 2 ^ 53" "rem' \<le> rem * (1 + 1 / 2 ^ 53)" "0 < rem"
    and "conserves a fil syms rem' acc"
  shows "conserves a fil (s # syms) rem (used + acc)"
proof -
  obtain d where d: "dust a fil syms d" "\<bar>rem' - (acc + d)\<bar> \<le> max 0 rem' * growth (length syms)"
    using assms(4) by (auto simp: conserves_def)
  have "\<bar>rem - (used + acc + d)\<bar> \<le> \<bar>rem' - (rem - used)\<bar> + \<bar>rem' - (acc + d)\<bar>" by simp
  also have "\<dots> \<le> rem / 2 ^ 53 + max 0 rem' * growth (length syms)"
    using assms(1) d(2) by (rule add_mono)
  also have "max 0 rem' \<le> rem * (1 + 1 / 2 ^ 53)" using assms(2,3) by simp
  then have "rem / 2 ^ 53 + max 0 rem' * growth (length syms)
      \<le> rem / 2 ^ 53 + rem * (1 + 1 / 2 ^ 53) * growth (length syms)"
    by (intro add_left_mono mult_right_mono) simp_all
  also have "\<dots> = max 0 rem * growth (length (s # syms))"
    using assms(3) by (simp add: growth_Suc algebra_simps)
  finally show ?thesis using d(1) dust_mono [of a fil syms d "s # syms"]
    unfolding conserves_def by auto
qed

lemma conserves_exact:
  assumes "dust a fil syms d" "owed = accounted + d" shows "conserves a fil syms owed accounted"
  unfolding conserves_def using assms by (intro exI [of _ d]) simp

lemma alloc_conserves:
  assumes ok: "prices_usable a fil"
  shows "alloc hexa a key toks ids fil syms rem w its r w' \<Longrightarrow> 53 \<le> fprec rem \<Longrightarrow>
     conserves a fil syms (bf_val rem) (usd_sum its + bf_val r)"
proof (induction rule: alloc.induct)
  case (skip rem w s rest its r w')
  then obtain d where d: "dust a fil rest d"
    "\<bar>bf_val rem - (usd_sum its + bf_val r + d)\<bar> \<le> max 0 (bf_val rem) * growth (length rest)"
    by (auto simp: conserves_def)
  have "growth (length rest) \<le> growth (length (s # rest))"
    by (simp add: growth_def)
  then have "max 0 (bf_val rem) * growth (length rest) \<le> max 0 (bf_val rem) * growth (length (s # rest))"
    by (intro mult_left_mono) simp_all
  with d dust_mono [of a fil rest d "s # rest"] show ?case
    unfolding conserves_def by (intro exI [of _ d]) auto
next
  case (drain rem w s tok b rest its r w')
  let ?used = "usd_value a fil s tok b"
  have rem: "0 < bf_val rem" using drain.hyps by (simp add: bf_sign_cases)
  have b: "0 \<le> b" using drain.hyps by (simp add: usable_def)
  note v = drain_value [OF ok rem b drain.hyps(3)]
  note st = dec_step [OF rem drain.prems v]
  have "conserves a fil rest (bf_val (bf_dec rem ?used)) (usd_sum its + bf_val r)"
    using drain.IH st(3) drain.prems by simp
  from conserves_drain [OF st(1,2) rem this, of s] show ?case
    by (simp add: usd_sum_def add.assoc)
next
  case (cover rem w s tok b n rest)
  show ?case
    by (rule conserves_exact [where d = 0]) (simp_all add: usd_sum_def dust_def bf_simps)
next
  case (dust rem w s tok b rest)
  then show ?case
    by (intro conserves_exact [where d = "bf_val rem"] dust_unit [where s = s and tok = tok, OF ok])
      (auto simp: usd_sum_def bf_simps bf_sign_cases usable_def)
qed (auto intro!: conserves_exact [where d = 0] simp: usd_sum_def dust_def)

section \<open>Properties of the aggregation\<close>

text \<open>
  C7: USD accounting. What a (wallet, provider) pair owes is, up to the rounding of one
  subtraction per token of the deduction order, the USD of its items plus the shortfall carried
  as debt, plus at most a rest worth less than one smallest token unit.
\<close>

theorem allocation_conserves_usd:
  assumes "prices_usable a fil" "53 \<le> fprec (ce_usd e)"
    and "allocate hexa a key e fil w = (its, shortfall, w')"
  shows "conserves a fil (agg_deductPriority a) (bf_val (ce_usd e)) (usd_sum its + bf_val shortfall)"
  by (rule alloc_conserves [OF assms(1) allocate_alloc [OF assms(3)] assms(2)])

text \<open>
  C5: Fair prices. Every item an aggregation makes is of a supported token of the deduction order
  that is not depegged, moves a positive amount, and that amount at the token's price is worth
  the USD booked for the item, up to one smallest unit and a relative error of \<open>2 ^ - 50\<close>.
\<close>

theorem items_fairly_priced:
  assumes "prices_usable a fil"
    and "it \<in> set (fst (AggregateWithDebts hexa a records debts (Some fil) balances))"
  shows "fairly_priced a fil (agg_deductPriority a) it"
proof -
  obtain items un st rd where e: "AggregateWithDebts hexa a records debts (Some fil) balances = (items, un, st, rd)"
    by (cases "AggregateWithDebts hexa a records debts (Some fil) balances") auto
  have "0 < bf_sign fil" using assms(1) by (simp add: prices_usable_def bf_sign_cases)
  from aggregate_facts(3) [OF e this refl, of it] assms(2) obtain k its r where
    "alloc_for hexa a fil (fst (collect_costs a records debts)) k its r" "it \<in> set its"
    by (auto simp: e)
  then show ?thesis unfolding alloc_for_def by (blast intro: alloc_fair [OF assms(1)])
qed

lemma alloc_nothing:
  "alloc hexa a key toks ids fil syms rem w its r w' \<Longrightarrow> its = [] \<Longrightarrow> prices_usable a fil \<Longrightarrow>
   r = rem \<or> dust a fil syms (bf_val rem)"
proof (induction rule: alloc.induct)
  case (skip rem w s rest its r w')
  then show ?case by (auto intro: dust_mono)
next
  case (dust rem w s tok b rest)
  then show ?case
    using dust_unit [of a fil rem s tok "s # rest"] by (auto simp: bf_sign_cases usable_def)
qed auto

lemma request_covered:
  assumes "prices_usable a fil" "r \<in> set records" "rr_id r \<noteq> ''''"
    and "AggregateWithDebts hexa a records debts (Some fil) balances = (items, unresolved, settled, remaining)"
  defines "sp \<equiv> resolveWorkerToEVM a (rr_worker r)"
  shows "r \<in> set unresolved \<or>
    (\<exists>it\<in>set items. it_wallet it = rr_wallet r \<and> it_spEVM it = hexa sp \<and> rr_id r \<in> set (it_ids it)) \<or>
    (\<exists>d\<in>set remaining. cd_wallet d = rr_wallet r \<and> cd_spEVM d = sp \<and> rr_id r \<in> set (cd_ids d)) \<or>
    (let owed = bf_val (ce_usd (entry_of (fst (collect_costs a records debts)) (rr_wallet r, sp)))
     in owed \<le> 0 \<or> dust a fil (agg_deductPriority a) owed)"
proof -
  let ?c = "fst (collect_costs a records debts)" and ?k = "(rr_wallet r, sp)"
  have s: "0 < bf_sign fil" using assms(1) by (simp add: prices_usable_def bf_sign_cases)
  note facts = aggregate_facts [OF assms(4) s refl]
  show ?thesis
  proof (cases "r \<in> set unresolved")
    case False
    then have k: "?k \<in> set (akeys ?c)" "rr_id r \<in> set (ids_at ?c ?k)"
      using collect_covers [OF assms(2,3), of a debts] facts(1) by (auto simp: Let_def sp_def)
    obtain its rest where a: "alloc_for hexa a fil ?c ?k its rest" "set its \<subseteq> set items"
      "0 < bf_sign rest \<longrightarrow> debt_for ?c ?k rest \<in> set remaining"
      using facts(2) [OF k(1)] by blast
    show ?thesis
    proof (cases its)
      case Nil
      with a(1) have "rest = ce_usd (entry_of ?c ?k) \<or>
          dust a fil (agg_deductPriority a) (bf_val (ce_usd (entry_of ?c ?k)))"
        unfolding alloc_for_def using alloc_nothing [OF _ _ assms(1)] by fast
      with a(3) k(2) show ?thesis
        by (cases "bf_sign rest \<le> 0") (force simp: Let_def bf_sign_cases debt_for_def ids_at_def)+
    next
      case (Cons it its')
      with a k(2) alloc_items [of hexa a ?k] have "it \<in> set items" "it_wallet it = rr_wallet r"
        "it_spEVM it = hexa sp" "rr_id r \<in> set (it_ids it)"
        by (fastforce simp: alloc_for_def ids_at_def)+
      then show ?thesis by blast
    qed
  qed simp
qed

text \<open>
  C2: No request is forgotten. After a cycle's aggregation at a usable price, every record with
  a request id is returned as unresolved, or is settled by an item of its own wallet and provider, or is
  carried by a debt of that wallet and provider; the one exception is a (wallet, provider) total
  that is not positive or worth less than one smallest unit of a supported token.
\<close>

theorem no_request_forgotten:
  assumes "prices_usable a fil" "r \<in> set records" "rr_id r \<noteq> ''''"
    and "AggregateWithDebts hexa a records debts (Some fil) balances = (items, unresolved, settled, remaining)"
  defines "sp \<equiv> resolveWorkerToEVM a (rr_worker r)"
  shows "r \<in> set unresolved \<or>
    (\<exists>it\<in>set items. it_wallet it = rr_wallet r \<and> it_spEVM it = hexa sp \<and> rr_id r \<in> set (it_ids it)) \<or>
    (\<exists>d\<in>set remaining. cd_wallet d = rr_wallet r \<and> cd_spEVM d = sp \<and> rr_id r \<in> set (cd_ids d)) \<or>
    (let owed = bf_val (ce_usd (entry_of (fst (collect_costs a records debts)) (rr_wallet r, sp)))
     in owed \<le> 0 \<or> dust a fil (agg_deductPriority a) owed)"
  using request_covered [OF assms(1-4)] by (simp add: sp_def)

section \<open>Concrete instances\<close>

definition sample_agg :: aggregator where
  "sample_agg = (NewAggregator (ApplyDefaults sample_config) [''w1'' \<mapsto> ''f01'', ''w2'' \<mapsto> ''f02''])
     \<lparr>agg_minerPayoutMap := [''f01'' \<mapsto> ''0xsp1''], agg_pricer := Some (NewPricer sample_config)\<rparr>"

lemma float64_3_50_ok: "0 < bf_val float64_3_50" "53 \<le> fprec float64_3_50"
  by (simp_all add: float64_3_50_def bf_val_def)

lemma sample_prices_usable: "prices_usable sample_agg float64_3_50"
  by (simp add: prices_usable_def float64_3_50_ok sample_agg_def prices_ok_new)

theorem allocation_conserves_usd_witness:
  "\<exists>its shortfall w'. allocate (\<lambda>s. s) sample_agg (''0xu'', ''0xsp1'')
       \<lparr>ce_usd = float64_of_int 7, ce_tokens = 1500, ce_ids = [''r1'']\<rparr> float64_3_50
       [''0xUSDC'' \<mapsto> 5000000, ''0x0'' \<mapsto> 10 ^ 18] = (its, shortfall, w') \<and>
     conserves sample_agg float64_3_50 (agg_deductPriority sample_agg) 7 (usd_sum its + bf_val shortfall)"
proof -
  let ?e = "\<lparr>ce_usd = float64_of_int 7, ce_tokens = 1500, ce_ids = [''r1'']\<rparr>"
    and ?w = "[''0xUSDC'' \<mapsto> 5000000, ''0x0'' \<mapsto> 10 ^ 18] :: token_balances"
  obtain its r w' where e: "allocate (\<lambda>s. s) sample_agg (''0xu'', ''0xsp1'') ?e float64_3_50 ?w = (its, r, w')"
    by (cases "allocate (\<lambda>s. s) sample_agg (''0xu'', ''0xsp1'') ?e float64_3_50 ?w") auto
  from allocation_conserves_usd [OF sample_prices_usable _ e] e show ?thesis
    by (auto simp: bf_val_float64_of_int)
qed

theorem items_fairly_priced_witness:
  "list_all (fairly_priced sample_agg float64_3_50 (agg_deductPriority sample_agg))
     (fst (AggregateWithDebts (\<lambda>s. s) sample_agg [sample_record] [] (Some float64_3_50)
        (\<lambda>w. [''0xUSDC'' \<mapsto> 5000000])))"
  unfolding list_all_iff by (intro ballI items_fairly_priced [OF sample_prices_usable])

theorem no_request_forgotten_witness:
  "\<exists>items unresolved settled remaining.
     AggregateWithDebts (\<lambda>s. s) sample_agg [sample_record] [] (Some float64_3_50)
       (\<lambda>w. [''0xUSDC'' \<mapsto> 5000000]) = (items, unresolved, settled, remaining) \<and>
     (sample_record \<in> set unresolved \<or> (\<exists>it\<in>set items. ''r1'' \<in> set (it_ids it)) \<or>
      (\<exists>d\<in>set remaining. ''r1'' \<in> set (cd_ids d)) \<or>
      (let owed = bf_val (ce_usd (entry_of (fst (collect_costs sample_agg [sample_record] []))
          (''0xu'', resolveWorkerToEVM sample_agg ''w1'')))
       in owed \<le> 0 \<or> dust sample_agg float64_3_50 (agg_deductPriority sample_agg) owed))"
proof -
  let ?r = "AggregateWithDebts (\<lambda>s. s) sample_agg [sample_record] [] (Some float64_3_50)
       (\<lambda>w. [''0xUSDC'' \<mapsto> 5000000])"
  obtain items un st rd where e: "?r = (items, un, st, rd)" by (cases ?r) auto
  have "rr_id sample_record = ''r1''" "rr_wallet sample_record = ''0xu''" "rr_worker sample_record = ''w1''"
    by (simp_all add: sample_record_def)
  with no_request_forgotten [OF sample_prices_usable _ _ e, of sample_record] e show ?thesis
    by (simp add: Let_def) blast
qed

end
