(* ===== verification/Sha256.thy ===== *)
theory Sha256
  imports Prelude "HOL-Library.Word"
begin

unbundle bit_operations_syntax

text \<open>
  \<open>crypto/sha256\<close> of the standard library (FIPS 180-4), which \<open>settlement/merkle.go\<close> and
  \<open>settlement/aggregator.go\<close> call. Byte sequences are strings. The theorems about commitments only
  use that a digest has 32 bytes; where they would need collision resistance they exhibit the
  two colliding inputs instead.
\<close>

section \<open>Bytes and words\<close>

definition byte_val :: "char \<Rightarrow> nat" where "byte_val c = of_char c"

definition be32 :: "char list \<Rightarrow> 32 word" where
  "be32 bs = foldl (\<lambda>w c. push_bit 8 w + of_nat (byte_val c)) 0 bs"

definition be32_bytes :: "32 word \<Rightarrow> char list" where
  "be32_bytes w = List.map (\<lambda>s. char_of (unat (drop_bit s w AND 255))) [24, 16, 8, 0]"

definition be64_bytes :: "nat \<Rightarrow> char list" where
  "be64_bytes n = List.map (\<lambda>i. char_of (n div 256 ^ i mod 256)) [7, 6, 5, 4, 3, 2, 1, 0]"

function chunks :: "nat \<Rightarrow> 'a list \<Rightarrow> 'a list list" where
  "chunks n xs = (if n = 0 \<or> xs = [] then [] else take n xs # chunks n (drop n xs))"
  by auto
termination by (relation "measure (\<lambda>(n, xs). length xs)") auto

declare chunks.simps [simp del]

section \<open>The compression function\<close>

text \<open>The fractional parts of the cube roots of the first 64 primes, to 32 bits.\<close>

definition sha_K :: "32 word list" where
  "sha_K =
     concat [[1116352408, 1899447441, 3049323471, 3921009573, 961987163, 1508970993, 2453635748, 2870763221],
       [3624381080, 310598401, 607225278, 1426881987, 1925078388, 2162078206, 2614888103, 3248222580],
       [3835390401, 4022224774, 264347078, 604807628, 770255983, 1249150122, 1555081692, 1996064986],
       [2554220882, 2821834349, 2952996808, 3210313671, 3336571891, 3584528711, 113926993, 338241895],
       [666307205, 773529912, 1294757372, 1396182291, 1695183700, 1986661051, 2177026350, 2456956037],
       [2730485921, 2820302411, 3259730800, 3345764771, 3516065817, 3600352804, 4094571909, 275423344],
       [430227734, 506948616, 659060556, 883997877, 958139571, 1322822218, 1537002063, 1747873779],
       [1955562222, 2024104815, 2227730452, 2361852424, 2428436474, 2756734187, 3204031479, 3329325298]]"

definition rotr32 :: "nat \<Rightarrow> 32 word \<Rightarrow> 32 word" where
  "rotr32 n w = drop_bit n w OR push_bit (32 - n) w"

definition small_s0 :: "32 word \<Rightarrow> 32 word" where
  "small_s0 x = (rotr32 7 x) XOR (rotr32 18 x) XOR (drop_bit 3 x)"

definition small_s1 :: "32 word \<Rightarrow> 32 word" where
  "small_s1 x = (rotr32 17 x) XOR (rotr32 19 x) XOR (drop_bit 10 x)"

definition big_s0 :: "32 word \<Rightarrow> 32 word" where
  "big_s0 x = (rotr32 2 x) XOR (rotr32 13 x) XOR (rotr32 22 x)"

definition big_s1 :: "32 word \<Rightarrow> 32 word" where
  "big_s1 x = (rotr32 6 x) XOR (rotr32 11 x) XOR (rotr32 25 x)"

text \<open>The last sixteen schedule words, newest first, are enough to make the next one.\<close>

fun schedule :: "nat \<Rightarrow> 32 word list \<Rightarrow> 32 word list" where
  "schedule 0 w = w"
| "schedule (Suc n) w =
     schedule n ((small_s1 (w ! 1) + w ! 6 + small_s0 (w ! 14) + w ! 15) # w)"

type_synonym sha_state = "32 word \<times> 32 word \<times> 32 word \<times> 32 word \<times> 32 word \<times> 32 word \<times> 32 word \<times> 32 word"

definition sha_round :: "32 word \<times> 32 word \<Rightarrow> sha_state \<Rightarrow> sha_state" where
  "sha_round = (\<lambda>(k, w) (a, b, c, d, e, f, g, h).
     (let t1 = h + big_s1 e + ((e AND f) XOR ((NOT e) AND g)) + k + w;
          t2 = big_s0 a + ((a AND b) XOR (a AND c) XOR (b AND c))
      in (t1 + t2, a, b, c, d + t1, e, f, g)))"

definition sha_block :: "char list \<Rightarrow> sha_state \<Rightarrow> sha_state" where
  "sha_block blk = (\<lambda>(a, b, c, d, e, f, g, h).
     (let w = rev (schedule 48 (rev (List.map be32 (chunks 4 blk))));
          (a', b', c', d', e', f', g', h') = fold sha_round (zip sha_K w) (a, b, c, d, e, f, g, h)
      in (a + a', b + b', c + c', d + d', e + e', f + f', g + g', h + h')))"

text \<open>Likewise of the square roots of the first eight primes.\<close>

definition sha_init :: sha_state where
  "sha_init = (1779033703, 3144134277, 1013904242, 2773480762, 1359893119, 2600822924, 528734635, 1541459225)"

definition sha_pad :: "char list \<Rightarrow> char list" where
  "sha_pad m =
     m @ [char_of (128 :: nat)] @ replicate (nat ((55 - int (length m)) mod 64)) (char_of (0 :: nat))
       @ be64_bytes (8 * length m)"

definition sha256 :: "char list \<Rightarrow> char list" where
  "sha256 m =
     (let (a, b, c, d, e, f, g, h) = fold sha_block (chunks 64 (sha_pad m)) sha_init
      in concat (List.map be32_bytes [a, b, c, d, e, f, g, h]))"

lemma length_be32_bytes [simp]: "length (be32_bytes w) = 4"
  by (simp add: be32_bytes_def)

lemma length_sha256 [simp]: "length (sha256 m) = 32"
  by (simp add: sha256_def split: prod.split)

end
