(* ===== verification/GoJson.thy ===== *)
theory GoJson
  imports Prelude
begin

text \<open>
  The parts of Go's text formatting that hashed payloads are made with: \<open>%d\<close>, and the string
  encoding of \<open>encoding/json\<close> (HTML-safe escaping, invalid UTF-8 replaced). The lemmas show that
  both are prefix codes, so a payload made of them determines its parts.
\<close>

section \<open>Integers\<close>

definition digit :: "nat \<Rightarrow> char" where "digit n = char_of (48 + n)"

fun dec_nat :: "nat \<Rightarrow> string" where
  "dec_nat n = (if n < 10 then [digit n] else dec_nat (n div 10) @ [digit (n mod 10)])"

declare dec_nat.simps [simp del]

definition dec_int :: "int \<Rightarrow> string" where
  "dec_int z = (if z < 0 then ''-'' @ dec_nat (nat (- z)) else dec_nat (nat z))"

definition is_digit :: "char \<Rightarrow> bool" where
  "is_digit c \<longleftrightarrow> 48 \<le> (of_char c :: nat) \<and> (of_char c :: nat) \<le> 57"

definition undec :: "string \<Rightarrow> nat" where
  "undec s = foldl (\<lambda>n c. n * 10 + (of_char c - 48)) 0 s"

lemma of_char_digit: "n < 10 \<Longrightarrow> (of_char (digit n) :: nat) = 48 + n"
  by (simp add: digit_def)

lemma dec_nat_props: "undec (dec_nat n) = n \<and> (\<forall>c\<in>set (dec_nat n). is_digit c) \<and> dec_nat n \<noteq> []"
proof (induction n rule: dec_nat.induct)
  case (1 n)
  then show ?case
    by (subst (1 2 3) dec_nat.simps) (auto simp: undec_def of_char_digit is_digit_def)
qed

text \<open>Reading an integer in base 10 (\<open>big.Int.SetString\<close>), and one of 64 bits (\<open>strconv.ParseInt\<close>).\<close>

definition parse_nat :: "string \<Rightarrow> nat option" where
  "parse_nat s = (if s = [] \<or> list_ex (\<lambda>c. \<not> is_digit c) s then None else Some (undec s))"

definition parse_int :: "string \<Rightarrow> int option" where
  "parse_int s =
     (case s of
        [] \<Rightarrow> None
      | c # r \<Rightarrow>
          if c = CHR ''-'' then map_option (\<lambda>n. - int n) (parse_nat r)
          else if c = CHR ''+'' then map_option int (parse_nat r)
          else map_option int (parse_nat s))"

definition ParseInt64 :: "string \<Rightarrow> int option" where
  "ParseInt64 s =
     (case parse_int s of None \<Rightarrow> None | Some v \<Rightarrow> if - (2 ^ 63) \<le> v \<and> v < 2 ^ 63 then Some v else None)"

lemma parse_nat_dec: "parse_nat (dec_nat n) = Some n"
  using dec_nat_props [of n] by (auto simp: parse_nat_def list_ex_iff)

lemma parse_int_dec: "parse_int (dec_int z) = Some z"
proof (cases "z < 0")
  case True
  then show ?thesis by (simp add: dec_int_def parse_int_def parse_nat_dec)
next
  case False
  obtain c r where s: "dec_nat (nat z) = c # r" "is_digit c"
    using dec_nat_props [of "nat z"] by (cases "dec_nat (nat z)") auto
  then have "c \<noteq> CHR ''-''" "c \<noteq> CHR ''+''" by (auto simp: is_digit_def)
  moreover have "parse_nat (c # r) = Some (nat z)" using parse_nat_dec [of "nat z"] s by simp
  ultimately show ?thesis using False s by (simp add: dec_int_def parse_int_def)
qed

lemma digits_split:
  assumes "\<forall>c\<in>set xs. is_digit c" "\<forall>c\<in>set ys. is_digit c" "xs @ d # r = ys @ d' # r'"
    "\<not> is_digit d" "\<not> is_digit d'"
  shows "xs = ys \<and> d # r = d' # r'"
  using assms
proof (induction xs arbitrary: ys)
  case Nil
  then show ?case by (cases ys) auto
next
  case (Cons x xs)
  then show ?case by (cases ys) auto
qed

lemma dec_nat_prefix:
  assumes "dec_nat m @ d # r = dec_nat n @ d' # r'" "\<not> is_digit d" "\<not> is_digit d'"
  shows "m = n \<and> d # r = d' # r'"
  using digits_split [OF _ _ assms] dec_nat_props by metis

lemma minus_no_digit [simp]: "\<not> is_digit CHR ''-''"
  by (simp add: is_digit_def)

lemma dec_int_prefix:
  assumes "dec_int m @ d # r = dec_int n @ d' # r'" "\<not> is_digit d" "\<not> is_digit d'"
  shows "m = n \<and> d # r = d' # r'"
proof -
  have hd: "hd (dec_nat k @ s) \<noteq> CHR ''-''" for k s
    using dec_nat_props [of k] minus_no_digit by (metis hd_append2 hd_in_set)
  show ?thesis
  proof (cases "m < 0"; cases "n < 0")
    assume "m < 0" "n < 0"
    with assms dec_nat_prefix [of "nat (- m)" d r "nat (- n)" d' r'] show ?thesis
      by (auto simp: dec_int_def)
  next
    assume "m < 0" "\<not> n < 0"
    with assms(1) hd [of "nat n" "d' # r'"] show ?thesis
      by (metis append_Cons dec_int_def list.sel(1))
  next
    assume "\<not> m < 0" "n < 0"
    with assms(1) hd [of "nat m" "d # r"] show ?thesis
      by (metis append_Cons dec_int_def list.sel(1))
  next
    assume "\<not> m < 0" "\<not> n < 0"
    with assms dec_nat_prefix [of "nat m" d r "nat n" d' r'] show ?thesis
      by (auto simp: dec_int_def)
  qed
qed

lemma dec_int_peel:
  "\<not> is_digit d \<Longrightarrow> \<not> is_digit d' \<Longrightarrow>
   dec_int m @ d # r = dec_int n @ d' # r' \<longleftrightarrow> m = n \<and> d # r = d' # r'"
  using dec_int_prefix by blast

section \<open>Strings\<close>

definition hex_digit :: "nat \<Rightarrow> char" where
  "hex_digit n = (if n < 10 then char_of (48 + n) else char_of (87 + n))"

definition u_escape :: "nat \<Rightarrow> string" where
  "u_escape n = [CHR 0x5C, CHR ''u'', CHR ''0'', CHR ''0'', hex_digit (n div 16), hex_digit (n mod 16)]"

text \<open>One ASCII byte, as \<open>appendString\<close> of \<open>encoding/json\<close> writes it with \<open>escapeHTML\<close>.\<close>

definition esc :: "char \<Rightarrow> string" where
  "esc c =
     (let n = of_char c :: nat
      in if c = CHR 0x22 then [CHR 0x5C, CHR 0x22]
         else if c = CHR 0x5C then [CHR 0x5C, CHR 0x5C]
         else if c = CHR 0x08 then [CHR 0x5C, CHR ''b'']
         else if c = CHR 0x09 then [CHR 0x5C, CHR ''t'']
         else if c = CHR 0x0A then [CHR 0x5C, CHR ''n'']
         else if c = CHR 0x0C then [CHR 0x5C, CHR ''f'']
         else if c = CHR 0x0D then [CHR 0x5C, CHR ''r'']
         else if n < 32 \<or> c = CHR 0x3C \<or> c = CHR 0x3E \<or> c = CHR 0x26 then u_escape n
         else [c])"

definition in_rng :: "nat \<Rightarrow> nat \<Rightarrow> char \<Rightarrow> bool" where
  "in_rng lo hi c \<longleftrightarrow> lo \<le> (of_char c :: nat) \<and> (of_char c :: nat) \<le> hi"

text \<open>The length of the well-formed UTF-8 sequence at the head of a text, 0 if there is none.\<close>

definition utf8_len :: "string \<Rightarrow> nat" where
  "utf8_len s =
     (case s of
        [] \<Rightarrow> 0
      | c # s1 \<Rightarrow>
         if in_rng 0 127 c then 1
         else (case s1 of
            [] \<Rightarrow> 0
          | c1 # s2 \<Rightarrow>
             if in_rng 0xC2 0xDF c then (if in_rng 0x80 0xBF c1 then 2 else 0)
             else (case s2 of
                [] \<Rightarrow> 0
              | c2 # s3 \<Rightarrow>
                 if in_rng 0xE0 0xEF c
                 then (if in_rng (if in_rng 0xE0 0xE0 c then 0xA0 else 0x80)
                                 (if in_rng 0xED 0xED c then 0x9F else 0xBF) c1 \<and> in_rng 0x80 0xBF c2
                       then 3 else 0)
                 else (case s3 of
                    [] \<Rightarrow> 0
                  | c3 # _ \<Rightarrow>
                     if in_rng 0xF0 0xF4 c \<and> in_rng (if in_rng 0xF0 0xF0 c then 0x90 else 0x80)
                          (if in_rng 0xF4 0xF4 c then 0x8F else 0xBF) c1
                        \<and> in_rng 0x80 0xBF c2 \<and> in_rng 0x80 0xBF c3
                     then 4 else 0))))"

text \<open>U+2028 and U+2029 are escaped, an invalid byte becomes the escape of U+FFFD.\<close>

function json_chars :: "string \<Rightarrow> string" where
  "json_chars s =
     (case s of
        [] \<Rightarrow> []
      | c # rest \<Rightarrow>
          if in_rng 0 127 c then esc c @ json_chars rest
          else let n = utf8_len s
               in if n = 0 then CHR 0x5C # ''ufffd'' @ json_chars rest
                  else if take n s = [CHR 0xE2, CHR 0x80, CHR 0xA8]
                  then CHR 0x5C # ''u2028'' @ json_chars (drop n s)
                  else if take n s = [CHR 0xE2, CHR 0x80, CHR 0xA9]
                  then CHR 0x5C # ''u2029'' @ json_chars (drop n s)
                  else take n s @ json_chars (drop n s))"
  by auto
termination by (relation "measure length") (auto simp: Let_def)

declare json_chars.simps [simp del]

definition json_string :: "string \<Rightarrow> string" where
  "json_string s = CHR 0x22 # json_chars s @ [CHR 0x22]"

fun json_sep :: "string list \<Rightarrow> string" where
  "json_sep [] = []"
| "json_sep [x] = x"
| "json_sep (x # y # xs) = x @ '','' @ json_sep (y # xs)"

definition json_array :: "string list \<Rightarrow> string" where
  "json_array xs = ''['' @ json_sep xs @ '']''"

section \<open>Texts of ASCII bytes are recovered\<close>

definition ascii :: "string \<Rightarrow> bool" where
  "ascii s \<longleftrightarrow> (\<forall>c\<in>set s. (of_char c :: nat) < 128)"

lemma json_chars_Nil [simp]: "json_chars [] = []"
  by (simp add: json_chars.simps)

lemma json_chars_ascii: "ascii s \<Longrightarrow> json_chars s = concat (List.map esc s)"
  by (induction s) (simp_all add: json_chars.simps [of "_ # _"] ascii_def in_rng_def)

text \<open>\<open>unesc\<close> reads one escape or plain byte back.\<close>

definition hex_val :: "char \<Rightarrow> nat" where
  "hex_val d = of_char d - (if (of_char d :: nat) < 58 then 48 else 87)"

fun unesc :: "string \<Rightarrow> (char \<times> string) option" where
  "unesc [] = None"
| "unesc (c # r) =
     (if c = CHR 0x22 then None
      else if c \<noteq> CHR 0x5C then Some (c, r)
      else (case r of
              k # r' \<Rightarrow>
                if k = CHR ''b'' then Some (CHR 0x08, r')
                else if k = CHR ''t'' then Some (CHR 0x09, r')
                else if k = CHR ''n'' then Some (CHR 0x0A, r')
                else if k = CHR ''f'' then Some (CHR 0x0C, r')
                else if k = CHR ''r'' then Some (CHR 0x0D, r')
                else if k \<noteq> CHR ''u'' then Some (k, r')
                else (case r' of
                        _ # _ # h # l # r4 \<Rightarrow> Some (char_of (hex_val h * 16 + hex_val l), r4)
                      | _ \<Rightarrow> None)
            | [] \<Rightarrow> None))"

lemma hex_val_digit: "n < 16 \<Longrightarrow> hex_val (hex_digit n) = n"
  by (auto simp: hex_val_def hex_digit_def)

lemma unesc_esc: "unesc (esc c @ r) = Some (c, r)"
proof -
  have "(of_char c :: nat) < 256" by (metis of_char_mod_256 mod_less_divisor zero_less_numeral)
  then have "(of_char c :: nat) div 16 < 16" by (simp add: less_mult_imp_div_less)
  then have "hex_val (hex_digit (of_char c div 16)) * 16 + hex_val (hex_digit (of_char c mod 16)) = of_char c"
    by (simp add: hex_val_digit)
  then show ?thesis by (simp add: esc_def Let_def u_escape_def)
qed

lemma escs_prefix:
  "concat (List.map esc s) @ CHR 0x22 # r = concat (List.map esc s') @ CHR 0x22 # r' \<Longrightarrow> s = s' \<and> r = r'"
proof (induction s arbitrary: s')
  case Nil
  show ?case
  proof (cases s')
    case (Cons c t)
    with arg_cong [OF Nil, of unesc] unesc_esc [of c "concat (List.map esc t) @ CHR 0x22 # r'"]
    show ?thesis by simp
  qed (use Nil in simp)
next
  case (Cons c s)
  show ?case
  proof (cases s')
    case Nil
    from arg_cong [OF Cons.prems, of unesc] have
      "unesc (esc c @ concat (List.map esc s) @ CHR 0x22 # r) = unesc (CHR 0x22 # r')"
      by (simp only: Nil list.map concat.simps append_Nil append_assoc)
    then show ?thesis by (simp only: unesc_esc) simp
  next
    case (Cons c' t)
    from arg_cong [OF Cons.prems, of unesc] have
      "unesc (esc c @ concat (List.map esc s) @ CHR 0x22 # r)
        = unesc (esc c' @ concat (List.map esc t) @ CHR 0x22 # r')"
      by (simp only: Cons list.map concat.simps append_assoc)
    then have "c = c'" "concat (List.map esc s) @ CHR 0x22 # r = concat (List.map esc t) @ CHR 0x22 # r'"
      by (simp_all only: unesc_esc option.inject prod.inject)
    with Cons.IH [of t] Cons show ?thesis by simp
  qed
qed

lemma json_string_prefix:
  assumes "ascii s" "ascii s'" "json_string s @ r = json_string s' @ r'"
  shows "s = s' \<and> r = r'"
  using assms escs_prefix [of s r s' r'] by (simp add: json_string_def json_chars_ascii)

lemma json_string_peel:
  "ascii s \<Longrightarrow> ascii s' \<Longrightarrow> json_string s @ r = json_string s' @ r' \<longleftrightarrow> s = s' \<and> r = r'"
  using json_string_prefix by blast

lemma json_string_inj: "ascii s \<Longrightarrow> ascii s' \<Longrightarrow> json_string s = json_string s' \<Longrightarrow> s = s'"
  using json_string_prefix [of s s' "[]" "[]"] by simp

lemma json_string_inj_iff: "ascii s \<Longrightarrow> ascii s' \<Longrightarrow> json_string s = json_string s' \<longleftrightarrow> s = s'"
  using json_string_inj by blast

section \<open>Arrays of prefix codes\<close>

text \<open>
  An encoder \<open>f\<close> whose words on \<open>A\<close> can be told apart whatever follows, and none of which starts
  like the end of an array: then JSON arrays of such words can be told apart, too.
\<close>

locale prefix_code =
  fixes f :: "'a \<Rightarrow> string" and A :: "'a \<Rightarrow> bool"
  assumes prefix: "A x \<Longrightarrow> A y \<Longrightarrow> f x @ r = f y @ r' \<Longrightarrow> x = y \<and> r = r'"
    and no_close: "f x @ r \<noteq> CHR '']'' # r'"
begin

lemma sep_prefix:
  "list_all A xs \<Longrightarrow> list_all A ys \<Longrightarrow>
   json_sep (List.map f xs) @ '']'' @ r = json_sep (List.map f ys) @ '']'' @ r' \<Longrightarrow> xs = ys \<and> r = r'"
proof (induction xs arbitrary: ys)
  case Nil
  show ?case
  proof (cases ys)
    case (Cons y zs)
    from no_close [of y, symmetric] have "CHR '']'' # r \<noteq> f y @ t" for t by blast
    with Nil(3) Cons show ?thesis by (cases zs) simp_all
  qed (use Nil in simp)
next
  case (Cons x xs)
  show ?case
  proof (cases ys)
    case Nil
    with Cons.prems(3) no_close [of x] show ?thesis by (cases xs) simp_all
  next
    case ys: (Cons y zs)
    let ?tail = "\<lambda>l s. if l = [] then '']'' @ s else '','' @ json_sep (List.map f l) @ '']'' @ s"
    have "f x @ ?tail xs r = f y @ ?tail zs r'"
      using Cons.prems(3) ys by (cases xs; cases zs) simp_all
    then have xy: "x = y" "?tail xs r = ?tail zs r'"
      using prefix [of x y "?tail xs r" "?tail zs r'"] Cons.prems(1,2) ys by simp_all
    show ?thesis
    proof (cases "xs = []")
      case True
      with xy ys show ?thesis by (cases "zs = []") simp_all
    next
      case False
      with xy(2) have z: "zs \<noteq> []" by (cases "zs = []") simp_all
      with xy(2) False have "json_sep (List.map f xs) @ '']'' @ r = json_sep (List.map f zs) @ '']'' @ r'" by simp
      from Cons.IH [OF _ _ this] Cons.prems(1,2) ys xy(1) show ?thesis by simp
    qed
  qed
qed

lemma array_prefix:
  "list_all A xs \<Longrightarrow> list_all A ys \<Longrightarrow> json_array (List.map f xs) @ r = json_array (List.map f ys) @ r' \<Longrightarrow>
   xs = ys \<and> r = r'"
  using sep_prefix [of xs ys r r'] by (simp add: json_array_def)

lemma array_peel:
  "list_all A xs \<Longrightarrow> list_all A ys \<Longrightarrow>
   json_array (List.map f xs) @ r = json_array (List.map f ys) @ r' \<longleftrightarrow> xs = ys \<and> r = r'"
  using array_prefix by blast

end

interpretation js: prefix_code json_string ascii
proof
  show "ascii x \<Longrightarrow> ascii y \<Longrightarrow> json_string x @ r = json_string y @ r' \<Longrightarrow> x = y \<and> r = r'" for x y r r'
    by (rule json_string_prefix)
  show "json_string x @ r \<noteq> CHR '']'' # r'" for x r r'
    by (simp add: json_string_def)
qed

end
