(* ===== verification/Merkle.thy ===== *)
theory Merkle
  imports Aggregator Sha256 GoJson
begin

text \<open>
  Batch identity and receipts: \<open>BatchHash\<close> (\<open>settlement/aggregator.go\<close>) and the Merkle commitment
  of \<open>settlement/merkle.go\<close>. A 32-byte array is a string of 32 bytes. The theorems: proofs of
  inclusion verify; a payload whose digest verifies at a position of the batch without being the payload there
  exhibits a SHA-256 collision; the hashed payloads determine what they are made of.
\<close>

section \<open>The tree\<close>

type_synonym digest = string

definition zero_hash :: digest where "zero_hash = replicate 32 (char_of (0 :: nat))"

definition hashPair :: "digest \<Rightarrow> digest \<Rightarrow> digest" where
  "hashPair a b = sha256 (a @ b)"

definition CombinedDetailsHash :: "digest \<Rightarrow> digest \<Rightarrow> digest" where
  "CombinedDetailsHash legacy rt = sha256 (legacy @ rt)"

fun next_level :: "digest list \<Rightarrow> digest list" where
  "next_level [] = []"
| "next_level [a] = [hashPair a a]"
| "next_level (a # b # rest) = hashPair a b # next_level rest"

lemma length_next_level: "length (next_level ls) = (length ls + 1) div 2"
  by (induction ls rule: next_level.induct) auto

function root_loop :: "digest list \<Rightarrow> digest" where
  "root_loop level = (if length level > 1 then root_loop (next_level level) else level ! 0)"
  by auto
termination by (relation "measure length") (auto simp: length_next_level)

declare root_loop.simps [simp del]

definition MerkleRoot :: "digest list \<Rightarrow> digest" where
  "MerkleRoot leaves = (if leaves = [] then zero_hash else root_loop leaves)"

function proof_loop :: "digest list \<Rightarrow> nat \<Rightarrow> digest list" where
  "proof_loop level idx =
     (if length level > 1
      then let s = idx XOR 1; sib = (if s \<ge> length level then idx else s)
           in level ! sib # proof_loop (next_level level) (idx div 2)
      else [])"
  by auto
termination by (relation "measure (\<lambda>(l, i). length l)") (auto simp: length_next_level)

declare proof_loop.simps [simp del]

definition MerkleProofFor :: "digest list \<Rightarrow> int \<Rightarrow> digest list" where
  "MerkleProofFor leaves idx =
     (if idx < 0 \<or> idx \<ge> int (length leaves) then [] else proof_loop leaves (nat idx))"

fun verify_loop :: "digest \<Rightarrow> nat \<Rightarrow> digest list \<Rightarrow> digest" where
  "verify_loop h idx [] = h"
| "verify_loop h idx (sib # rest) =
     verify_loop (if idx mod 2 = 0 then hashPair h sib else hashPair sib h) (idx div 2) rest"

definition VerifyMerkleProof :: "digest \<Rightarrow> nat \<Rightarrow> digest list \<Rightarrow> digest \<Rightarrow> bool" where
  "VerifyMerkleProof leaf idx path rt \<longleftrightarrow> verify_loop leaf idx path = rt"

section \<open>Leaves\<close>

definition receipt_payload ::
  "string \<Rightarrow> string \<Rightarrow> string \<Rightarrow> string \<Rightarrow> int \<Rightarrow> int \<Rightarrow> int \<Rightarrow> string \<Rightarrow> string" where
  "receipt_payload rid wallet spEVM model promptTokens completionTokens cachedTokens sig =
     ''{\"cached_tokens\":'' @ dec_int cachedTokens @ '',\"completion_tokens\":'' @ dec_int completionTokens
     @ '',\"model\":'' @ json_string model @ '',\"prompt_tokens\":'' @ dec_int promptTokens
     @ '',\"request_id\":'' @ json_string rid @ '',\"sig\":'' @ json_string sig
     @ '',\"sp\":'' @ json_string spEVM @ '',\"wallet\":'' @ json_string wallet @ ''}''"

definition ReceiptLeaf ::
  "string \<Rightarrow> string \<Rightarrow> string \<Rightarrow> string \<Rightarrow> int \<Rightarrow> int \<Rightarrow> int \<Rightarrow> string \<Rightarrow> digest" where
  "ReceiptLeaf rid wallet spEVM model promptTokens completionTokens cachedTokens sig =
     sha256 (receipt_payload rid wallet spEVM model promptTokens completionTokens cachedTokens sig)"

definition debt_payload :: "string \<Rightarrow> string \<Rightarrow> string \<Rightarrow> string" where
  "debt_payload rid wallet spEVM =
     ''{\"debt\":true,\"request_id\":'' @ json_string rid @ '',\"sp\":'' @ json_string spEVM
     @ '',\"wallet\":'' @ json_string wallet @ ''}''"

definition DebtLeaf :: "string \<Rightarrow> string \<Rightarrow> string \<Rightarrow> digest" where
  "DebtLeaf rid wallet spEVM = sha256 (debt_payload rid wallet spEVM)"

definition leaf_of :: "(string \<rightharpoonup> request_record) \<Rightarrow> settlement_item \<Rightarrow> string \<Rightarrow> digest" where
  "leaf_of recordsByID it rid =
     (case recordsByID rid of
        Some rec \<Rightarrow> ReceiptLeaf rid (rr_wallet rec) (it_spEVM it) (rr_model rec) (rr_prompt rec)
                      (rr_completion rec) (rr_cached rec)
                      (case rr_receipt rec of Some rc \<Rightarrow> rc_sig rc | None \<Rightarrow> '''')
      | None \<Rightarrow> DebtLeaf rid (it_wallet it) (it_spEVM it))"

definition batch_ents ::
  "settlement_item list \<Rightarrow> (string \<rightharpoonup> request_record) \<Rightarrow> (string \<times> digest) list" where
  "batch_ents batch recordsByID =
     fold (\<lambda>it. fold (\<lambda>rid ents.
         if rid \<in> set (akeys ents) then ents else ents @ [(rid, leaf_of recordsByID it rid)])
       (it_ids it)) batch []"

definition batchLeaves ::
  "settlement_item list \<Rightarrow> (string \<rightharpoonup> request_record) \<Rightarrow> string list \<times> digest list" where
  "batchLeaves batch recordsByID =
     (let ents = sort_key fst (batch_ents batch recordsByID)
      in (List.map fst ents, List.map snd ents))"

section \<open>The legacy batch hash\<close>

text \<open>An item as hashed: user, provider, amount in decimal, token.\<close>

type_synonym hash_item = "string \<times> string \<times> string \<times> string"

definition hash_item :: "settlement_item \<Rightarrow> hash_item" where
  "hash_item it = (it_userEVM it, it_spEVM it, dec_int (it_amount it), it_tokenAddr it)"

definition hash_item_key :: "hash_item \<Rightarrow> string \<times> string \<times> string \<times> string" where
  "hash_item_key = (\<lambda>(u, s, a, t). (u, s, t, a))"

definition hash_item_json :: "hash_item \<Rightarrow> string" where
  "hash_item_json = (\<lambda>(u, s, a, t).
     ''{\"u\":'' @ json_string u @ '',\"s\":'' @ json_string s @ '',\"a\":'' @ json_string a
     @ '',\"t\":'' @ json_string t @ ''}'')"

definition batch_payload :: "settlement_item list \<Rightarrow> string" where
  "batch_payload items =
     (let hItems = sort_key hash_item_key (List.map hash_item items);
          reqIDs = sort (remdups (concat (List.map it_ids items)))
      in ''{\"items\":'' @ json_array (List.map hash_item_json hItems)
         @ '',\"request_ids\":'' @ json_array (List.map json_string reqIDs) @ ''}'')"

definition BatchHash :: "settlement_item list \<Rightarrow> digest" where
  "BatchHash items = sha256 (batch_payload items)"

section \<open>Inclusion proofs verify\<close>

lemma next_level_nth:
  "i < length (next_level ls) \<Longrightarrow> next_level ls ! i =
     hashPair (ls ! (2 * i)) (ls ! (if 2 * i + 1 < length ls then 2 * i + 1 else 2 * i))"
proof (induction ls arbitrary: i rule: next_level.induct)
  case (3 a b rest)
  then show ?case by (cases i) auto
qed auto

lemma xor_one_nat:
  "(2 * k :: nat) XOR Suc 0 = Suc (2 * k)" "Suc (2 * k) XOR Suc 0 = 2 * k"
  by (simp_all add: xor_nat_unfold)

lemma sibling:
  assumes "idx < length level"
  shows "next_level level ! (idx div 2) =
    (let s = idx XOR 1; sib = (if s \<ge> length level then idx else s)
     in if idx mod 2 = 0 then hashPair (level ! idx) (level ! sib) else hashPair (level ! sib) (level ! idx))"
proof -
  have lt: "idx div 2 < length (next_level level)" using assms by (simp add: length_next_level)
  show ?thesis
  proof (cases "idx mod 2 = 0")
    case True
    then obtain k where "idx = 2 * k" by (metis evenE even_iff_mod_2_eq_zero)
    with lt show ?thesis by (auto simp: next_level_nth Let_def xor_one_nat)
  next
    case False
    then obtain k where "idx = 2 * k + 1" by (metis oddE even_iff_mod_2_eq_zero)
    with lt assms show ?thesis by (simp add: next_level_nth Let_def xor_one_nat)
  qed
qed

lemma verify_proof_loop:
  "idx < length level \<Longrightarrow> verify_loop (level ! idx) idx (proof_loop level idx) = root_loop level"
proof (induction level idx rule: proof_loop.induct)
  case (1 level idx)
  show ?case
  proof (cases "length level > 1")
    case True
    let ?sib = "if idx XOR 1 \<ge> length level then idx else idx XOR 1"
    have "idx div 2 < length (next_level level)" using 1(2) by (simp add: length_next_level)
    with 1(1) [OF True refl refl] have IH:
      "verify_loop (next_level level ! (idx div 2)) (idx div 2) (proof_loop (next_level level) (idx div 2))
        = root_loop (next_level level)" by blast
    have p: "proof_loop level idx = level ! ?sib # proof_loop (next_level level) (idx div 2)"
      using True by (subst proof_loop.simps) (simp add: Let_def)
    have r: "root_loop level = root_loop (next_level level)"
      using True by (subst root_loop.simps) simp
    show ?thesis
      unfolding p r IH [symmetric] sibling [OF 1(2)] by (simp add: Let_def)
  next
    case False
    with 1(2) have "length level = 1" "idx = 0" by auto
    then show ?thesis by (subst proof_loop.simps, subst root_loop.simps) simp
  qed
qed

text \<open>
Completeness of receipts: for every leaf of a batch, the sibling path the gateway serves
  verifies against the batch's root.
\<close>

theorem merkle_proof_complete:
  assumes "i < length leaves"
  shows "VerifyMerkleProof (leaves ! i) i (MerkleProofFor leaves (int i)) (MerkleRoot leaves)"
  using assms verify_proof_loop [of i leaves]
  by (auto simp: VerifyMerkleProof_def MerkleProofFor_def MerkleRoot_def)

theorem merkle_proof_complete_witness:
  "VerifyMerkleProof ([''a'', ''b'', ''c''] ! 2) 2 (MerkleProofFor [''a'', ''b'', ''c''] 2) (MerkleRoot [''a'', ''b'', ''c''])"
  using merkle_proof_complete [of 2 "[''a'', ''b'', ''c'']"] by simp

section \<open>A false leaf is a collision\<close>

text \<open>The inputs SHA-256 is applied to by the two folds.\<close>

fun verify_inputs :: "digest \<Rightarrow> nat \<Rightarrow> digest list \<Rightarrow> string list" where
  "verify_inputs h idx [] = []"
| "verify_inputs h idx (sib # rest) =
     (let x = (if idx mod 2 = 0 then h @ sib else sib @ h)
      in x # verify_inputs (sha256 x) (idx div 2) rest)"

fun level_inputs :: "digest list \<Rightarrow> string list" where
  "level_inputs [] = []"
| "level_inputs [a] = [a @ a]"
| "level_inputs (a # b # rest) = (a @ b) # level_inputs rest"

lemma length_level_inputs: "length (level_inputs ls) = (length ls + 1) div 2"
  by (induction ls rule: next_level.induct) auto

lemma next_level_inputs: "next_level ls = List.map sha256 (level_inputs ls)"
  by (induction ls rule: next_level.induct) (auto simp: hashPair_def)

lemma next_level_32: "\<forall>l\<in>set (next_level ls). length l = 32"
  by (simp add: next_level_inputs)

function tree_inputs :: "digest list \<Rightarrow> string list" where
  "tree_inputs level = (if length level > 1 then level_inputs level @ tree_inputs (next_level level) else [])"
  by auto
termination by (relation "measure length") (auto simp: length_next_level)

declare tree_inputs.simps [simp del]

text \<open>The number of levels above the leaves, which is the length of a served path.\<close>

function depth :: "nat \<Rightarrow> nat" where
  "depth n = (if n > 1 then Suc (depth ((n + 1) div 2)) else 0)"
  by auto
termination by (relation "measure id") auto

declare depth.simps [simp del]

definition collides :: "string list \<Rightarrow> string list \<Rightarrow> bool" where
  "collides xs ys \<longleftrightarrow> (\<exists>x\<in>set xs. \<exists>y\<in>set ys. x \<noteq> y \<and> sha256 x = sha256 y)"

lemma collides_mono: "collides xs ys \<Longrightarrow> set xs \<subseteq> set xs' \<Longrightarrow> set ys \<subseteq> set ys' \<Longrightarrow> collides xs' ys'"
  unfolding collides_def by blast

lemma level_inputs_nth:
  "i < length (level_inputs ls) \<Longrightarrow> level_inputs ls ! i =
     ls ! (2 * i) @ ls ! (if 2 * i + 1 < length ls then 2 * i + 1 else 2 * i)"
proof (induction ls arbitrary: i rule: next_level.induct)
  case (3 a b rest)
  then show ?case by (cases i) auto
qed auto

lemma tree_soundness:
  "\<forall>l\<in>set level. length l = 32 \<Longrightarrow> length h = 32 \<Longrightarrow> idx < length level \<Longrightarrow>
   length path = depth (length level) \<Longrightarrow> \<forall>l\<in>set path. length l = 32 \<Longrightarrow>
   verify_loop h idx path = root_loop level \<Longrightarrow>
   h = level ! idx \<or> collides (verify_inputs h idx path) (tree_inputs level)"
proof (induction level arbitrary: h idx path rule: root_loop.induct)
  case (1 level)
  show ?case
  proof (cases "length level > 1")
    case False
    with 1(4,5) have "length level = 1" "idx = 0" "path = []" by (auto simp: depth.simps [of "length level"])
    with 1(7) show ?thesis by (simp add: root_loop.simps [of level])
  next
    case True
    then have "depth (length level) = Suc (depth (length (next_level level)))"
      by (subst depth.simps) (simp add: length_next_level)
    with 1(5) obtain sib rest where path: "path = sib # rest" "length rest = depth (length (next_level level))"
      by (cases path) auto
    define x where "x = (if idx mod 2 = 0 then h @ sib else sib @ h)"
    define i where "i = idx div 2"
    have i: "i < length (next_level level)" using 1(4) by (simp add: i_def length_next_level)
    have ver: "verify_loop (sha256 x) i rest = root_loop (next_level level)"
      using 1(7) True
      by (cases "idx mod 2 = 0") (simp_all add: path x_def i_def hashPair_def root_loop.simps [of level])
    note len = next_level_32 [of level]
    have inputs: "verify_inputs h idx path = x # verify_inputs (sha256 x) i rest"
      "tree_inputs level = level_inputs level @ tree_inputs (next_level level)"
      using True by (simp_all add: path x_def i_def Let_def tree_inputs.simps [of level])
    have "sha256 x = next_level level ! i \<or> collides (verify_inputs (sha256 x) i rest) (tree_inputs (next_level level))"
      by (rule 1(1) [OF True len _ i path(2) _ ver]) (use 1(6) path in auto)
    then show ?thesis
    proof
      assume eq: "sha256 x = next_level level ! i"
      let ?y = "level_inputs level ! i"
      have y: "?y \<in> set (level_inputs level)" "next_level level ! i = sha256 ?y"
        using i by (simp_all add: next_level_inputs length_level_inputs)
      show ?thesis
      proof (cases "x = ?y")
        case False
        with eq y show ?thesis unfolding inputs collides_def by auto
      next
        case True
        let ?r = "if 2 * i + 1 < length level then 2 * i + 1 else 2 * i"
        have "2 * i < length level" "?r < length level" using i by (simp_all add: length_next_level) linarith
        then have l32: "length (level ! (2 * i)) = 32" "length (level ! ?r) = 32" "length sib = 32"
          using 1(2,6) path by (auto simp del: nth_mem intro: bspec [OF 1(2)] nth_mem)
        have "?y = level ! (2 * i) @ level ! ?r" using i
          by (simp add: level_inputs_nth length_level_inputs length_next_level)
        with True have "(if idx mod 2 = 0 then h @ sib else sib @ h) = level ! (2 * i) @ level ! ?r"
          by (simp add: x_def)
        then have "h = level ! (if idx mod 2 = 0 then 2 * i else ?r)"
          using l32 1(3) by (auto split: if_splits)
        moreover have "idx = (if idx mod 2 = 0 then 2 * i else ?r)"
          using 1(4) unfolding i_def by (auto simp: minus_mod_eq_mult_div [symmetric])
        ultimately show ?thesis by simp
      qed
    next
      assume "collides (verify_inputs (sha256 x) i rest) (tree_inputs (next_level level))"
      then show ?thesis unfolding inputs by (auto intro: collides_mono)
    qed
  qed
qed

text \<open>A path of the tree's depth ends at some leaf, whatever the position says.\<close>

lemma level_inputs_parts:
  "y \<in> set (level_inputs level) \<Longrightarrow> \<exists>a b. a \<in> set level \<and> b \<in> set level \<and> y = a @ b"
proof (induction level rule: level_inputs.induct)
  case (3 a b rest)
  then show ?case by (force simp: set_ConsD)
qed auto

lemma tree_member:
  "\<forall>l\<in>set level. length l = 32 \<Longrightarrow> level \<noteq> [] \<Longrightarrow> length h = 32 \<Longrightarrow> length path = depth (length level) \<Longrightarrow>
   \<forall>l\<in>set path. length l = 32 \<Longrightarrow> verify_loop h idx path = root_loop level \<Longrightarrow>
   h \<in> set level \<or> collides (verify_inputs h idx path) (tree_inputs level)"
proof (induction level arbitrary: h idx path rule: root_loop.induct)
  case (1 level)
  show ?case
  proof (cases "length level > 1")
    case False
    with 1(3,5) have "length level = 1" "path = []" by (auto simp: depth.simps [of "length level"]) (cases level; simp)
    with 1(7) show ?thesis by (simp add: root_loop.simps [of level])
  next
    case True
    then have "depth (length level) = Suc (depth (length (next_level level)))"
      by (subst depth.simps) (simp add: length_next_level)
    with 1(5) obtain sib rest where path: "path = sib # rest" "length rest = depth (length (next_level level))"
      by (cases path) auto
    define x where "x = (if idx mod 2 = 0 then h @ sib else sib @ h)"
    have ver: "verify_loop (sha256 x) (idx div 2) rest = root_loop (next_level level)"
      using 1(7) True by (cases "idx mod 2 = 0") (simp_all add: path x_def hashPair_def root_loop.simps [of level])
    have inputs: "verify_inputs h idx path = x # verify_inputs (sha256 x) (idx div 2) rest"
      "tree_inputs level = level_inputs level @ tree_inputs (next_level level)"
      using True by (simp_all add: path x_def Let_def tree_inputs.simps [of level])
    have ne: "next_level level \<noteq> []" using 1(3) by (cases level rule: next_level.cases) auto
    have "sha256 x \<in> set (next_level level) \<or> collides (verify_inputs (sha256 x) (idx div 2) rest) (tree_inputs (next_level level))"
      by (rule 1(1) [OF True next_level_32 ne _ path(2) _ ver]) (use 1(6) path in auto)
    then show ?thesis
    proof
      assume "sha256 x \<in> set (next_level level)"
      then obtain y where y: "y \<in> set (level_inputs level)" "sha256 x = sha256 y" by (auto simp: next_level_inputs)
      show ?thesis
      proof (cases "x = y")
        case False
        with y show ?thesis unfolding inputs collides_def by auto
      next
        case True
        obtain a b where ab: "a \<in> set level" "b \<in> set level" "y = a @ b" using level_inputs_parts [OF y(1)] by blast
        have "length a = 32" "length sib = 32" using ab 1(2,6) path by auto
        then have "h = a \<or> h = b" using True ab(3) 1(4) by (auto simp: x_def split: if_splits)
        then show ?thesis using ab by blast
      qed
    next
      assume "collides (verify_inputs (sha256 x) (idx div 2) rest) (tree_inputs (next_level level))"
      then show ?thesis unfolding inputs by (auto intro: collides_mono)
    qed
  qed
qed

text \<open>A path of another length, from a digest of something that is not 64 bytes long, ends at a collision.\<close>

lemma verify_loop_append:
  "verify_loop h idx (p @ q) = verify_loop (verify_loop h idx p) (idx div 2 ^ length p) q"
  by (induction p arbitrary: h idx) (auto simp: div_mult2_eq)

lemma verify_inputs_append:
  "verify_inputs h idx (p @ q) = verify_inputs h idx p @ verify_inputs (verify_loop h idx p) (idx div 2 ^ length p) q"
  by (induction p arbitrary: h idx) (auto simp: div_mult2_eq hashPair_def Let_def)

lemma verify_loop_digest:
  "path \<noteq> [] \<Longrightarrow> length h = 32 \<Longrightarrow> \<forall>l\<in>set path. length l = 32 \<Longrightarrow>
   \<exists>x\<in>set (verify_inputs h idx path). length x = 64 \<and> verify_loop h idx path = sha256 x"
proof (induction path arbitrary: h idx)
  case (Cons sib rest)
  show ?case
  proof (cases "rest = []")
    case True
    then show ?thesis using Cons.prems by (simp add: hashPair_def)
  next
    case False
    define x where "x = (if idx mod 2 = 0 then h @ sib else sib @ h)"
    have "\<exists>y\<in>set (verify_inputs (sha256 x) (idx div 2) rest). length y = 64 \<and> verify_loop (sha256 x) (idx div 2) rest = sha256 y"
      using Cons.IH [OF False, of "sha256 x" "idx div 2"] Cons.prems(3) by simp
    then show ?thesis by (auto simp: x_def hashPair_def Let_def split: if_splits)
  qed
qed simp

lemma upper_level:
  assumes "k < depth (length level)" "level \<noteq> []" "\<forall>l\<in>set level. length l = 32"
  shows "\<exists>up. up \<noteq> [] \<and> depth (length up) = k \<and> root_loop up = root_loop level \<and> (\<forall>l\<in>set up. length l = 32) \<and>
    set (tree_inputs up) \<subseteq> set (tree_inputs level) \<and> (\<forall>h\<in>set up. \<exists>y\<in>set (tree_inputs level). length y = 64 \<and> h = sha256 y)"
  using assms
proof (induction level rule: root_loop.induct)
  case (1 level)
  have big: "length level > 1" using 1(2) by (cases "length level > 1") (simp_all add: depth.simps [of "length level"])
  have d: "depth (length level) = Suc (depth (length (next_level level)))"
    using big by (subst depth.simps) (simp add: length_next_level)
  have ne: "next_level level \<noteq> []" using 1(3) by (cases level rule: next_level.cases) auto
  have r: "root_loop level = root_loop (next_level level)" "tree_inputs level = level_inputs level @ tree_inputs (next_level level)"
    using big by (simp_all add: root_loop.simps [of level] tree_inputs.simps [of level])
  show ?case
  proof (cases "k = depth (length (next_level level))")
    case True
    have "length y = 64" if y: "y \<in> set (level_inputs level)" for y
      using level_inputs_parts [OF y] 1(4) by auto
    then have "\<forall>h\<in>set (next_level level). \<exists>y\<in>set (tree_inputs level). length y = 64 \<and> h = sha256 y"
      by (auto simp: r(2) next_level_inputs)
    then show ?thesis using True ne next_level_32 by (intro exI [of _ "next_level level"]) (auto simp: r)
  next
    case False
    then have "k < depth (length (next_level level))" using 1(2) d by simp
    from 1(1) [OF big this ne next_level_32] show ?thesis unfolding r by (auto 0 4)
  qed
qed

text \<open>
  C23: Soundness of receipts. The batch commits to the digests of its payloads. If the digest of any payload verifies at a position of
  the batch, with a path of 32-byte digests of any length, then it is the payload at that position, or two different inputs
  that the batch and the check hash are a SHA-256 collision. No payload may be 64 bytes long, the length of what an inner
  node hashes (receipt payloads are longer, \<open>payloads_long\<close>): the check itself does not compare the path's length with the tree's
  depth, and takes an inner node for a leaf (\<open>inner_node_verifies\<close>).
\<close>

theorem merkle_proof_sound:
  assumes "idx < length payloads" "\<forall>q\<in>set (p # payloads). length q \<noteq> 64" "\<forall>l\<in>set path. length l = 32"
    and "VerifyMerkleProof (sha256 p) idx path (MerkleRoot (List.map sha256 payloads))"
  shows "p = payloads ! idx \<or>
    collides (p # verify_inputs (sha256 p) idx path) (payloads @ tree_inputs (List.map sha256 payloads))"
proof -
  let ?leaves = "List.map sha256 payloads"
  have l: "?leaves \<noteq> []" "\<forall>l\<in>set ?leaves. length l = 32" "idx < length ?leaves" using assms(1) by auto
  have v: "verify_loop (sha256 p) idx path = root_loop ?leaves" using assms(4) l(1) by (simp add: VerifyMerkleProof_def MerkleRoot_def)
  consider "length path = depth (length ?leaves)" | "length path < depth (length ?leaves)" | "depth (length ?leaves) < length path" by linarith
  then show ?thesis
  proof cases
    case 1
    from tree_soundness [OF l(2) _ l(3) 1 assms(3) v] have "sha256 p = sha256 (payloads ! idx) \<or> collides (verify_inputs (sha256 p) idx path) (tree_inputs ?leaves)"
      using assms(1) by simp
    then show ?thesis using assms(1) by (auto simp: collides_def)
  next
    case 2
    obtain up where up: "up \<noteq> []" "depth (length up) = length path" "root_loop up = root_loop ?leaves" "\<forall>l\<in>set up. length l = 32"
      "set (tree_inputs up) \<subseteq> set (tree_inputs ?leaves)" "\<forall>h\<in>set up. \<exists>y\<in>set (tree_inputs ?leaves). length y = 64 \<and> h = sha256 y"
      using upper_level [OF 2 l(1,2)] by blast
    from tree_member [OF up(4,1) _ _ assms(3), of "sha256 p" idx] v up(2,3)
    have "sha256 p \<in> set up \<or> collides (verify_inputs (sha256 p) idx path) (tree_inputs up)" by simp
    then show ?thesis
    proof
      assume "sha256 p \<in> set up"
      then obtain y where "y \<in> set (tree_inputs ?leaves)" "length y = 64" "sha256 p = sha256 y" using up(6) by blast
      then show ?thesis using assms(2) by (auto simp: collides_def)
    next
      assume "collides (verify_inputs (sha256 p) idx path) (tree_inputs up)"
      then show ?thesis by (rule disjI2 [OF collides_mono]) (use up(5) in auto)
    qed
  next
    case 3
    define a b where "a = take (length path - depth (length ?leaves)) path" and "b = drop (length path - depth (length ?leaves)) path"
    have ab: "path = a @ b" "a \<noteq> []" "length b = depth (length ?leaves)" "\<forall>l\<in>set a. length l = 32" "\<forall>l\<in>set b. length l = 32"
      using 3 assms(3) by (auto simp: a_def b_def dest: in_set_takeD in_set_dropD)
    obtain x where x: "x \<in> set (verify_inputs (sha256 p) idx a)" "length x = 64" "verify_loop (sha256 p) idx a = sha256 x"
      using verify_loop_digest [OF ab(2) _ ab(4)] by (metis length_sha256)
    have "set (verify_inputs (sha256 p) idx a) \<subseteq> set (verify_inputs (sha256 p) idx path)"
      by (simp add: ab(1) verify_inputs_append)
    then have xin: "x \<in> set (verify_inputs (sha256 p) idx path)" using x(1) by blast
    have "verify_loop (sha256 x) (idx div 2 ^ length a) b = root_loop ?leaves" using v x(3) by (simp add: ab(1) verify_loop_append)
    from tree_member [OF l(2,1) _ ab(3,5) this]
    have "sha256 x \<in> set ?leaves \<or> collides (verify_inputs (sha256 x) (idx div 2 ^ length a) b) (tree_inputs ?leaves)" by simp
    then show ?thesis
    proof
      assume "sha256 x \<in> set ?leaves"
      then show ?thesis using xin x(2) assms(2) by (force simp: collides_def)
    next
      assume "collides (verify_inputs (sha256 x) (idx div 2 ^ length a) b) (tree_inputs ?leaves)"
      then show ?thesis
        by (rule disjI2 [OF collides_mono]) (simp_all add: ab(1) verify_inputs_append x(3), blast)
    qed
  qed
qed

lemma json_string_longer: "ascii s \<Longrightarrow> length s + 2 \<le> length (json_string s)"
proof -
  have e: "1 \<le> length (esc c)" for c by (simp add: esc_def Let_def u_escape_def)
  have "length s \<le> length (concat (List.map esc s))"
  proof (induction s)
    case (Cons c s)
    then show ?case using e [of c] by simp
  qed simp
  then show "ascii s \<Longrightarrow> length s + 2 \<le> length (json_string s)" by (simp add: json_string_def json_chars_ascii)
qed

text \<open>A receipt's payload is longer than 64 bytes, and so is a debt's with an address.\<close>

lemma payloads_long:
  "64 < length (receipt_payload rid wallet spEVM model promptTokens completionTokens cachedTokens sig)"
  "ascii spEVM \<Longrightarrow> 42 \<le> length spEVM \<Longrightarrow> 64 < length (debt_payload rid wallet spEVM)"
  using json_string_longer [of spEVM] by (simp_all add: receipt_payload_def debt_payload_def)

text \<open>The check admits an inner node as a leaf, with the path from there.\<close>

theorem inner_node_verifies:
  "VerifyMerkleProof (hashPair a b) 0 [hashPair c d] (MerkleRoot [a, b, c, d])"
  by (simp add: VerifyMerkleProof_def MerkleRoot_def root_loop.simps)

lemma proof_loop_shape:
  "idx < length level \<Longrightarrow> \<forall>l\<in>set level. length l = 32 \<Longrightarrow>
   length (proof_loop level idx) = depth (length level) \<and> (\<forall>l\<in>set (proof_loop level idx). length l = 32)"
proof (induction level idx rule: proof_loop.induct)
  case (1 level idx)
  show ?case
  proof (cases "length level > 1")
    case True
    let ?sib = "if idx XOR 1 \<ge> length level then idx else idx XOR 1"
    have "idx div 2 < length (next_level level)" using 1(2) by (simp add: length_next_level)
    with next_level_32 [of level] 1(1) [OF True refl refl] have IH:
      "length (proof_loop (next_level level) (idx div 2)) = depth (length (next_level level))"
      "\<forall>l\<in>set (proof_loop (next_level level) (idx div 2)). length l = 32" by blast+
    have "?sib < length level" using 1(2) by auto
    then have "length (level ! ?sib) = 32" using 1(3) nth_mem by blast
    with IH True show ?thesis
      by (subst (1 2) proof_loop.simps, subst depth.simps) (simp add: Let_def length_next_level split: if_splits)
  next
    case False
    then show ?thesis by (simp add: proof_loop.simps [of level] depth.simps [of "length level"])
  qed
qed

theorem merkle_proof_sound_witness:
  "\<exists>path. VerifyMerkleProof (sha256 ''a'') 0 path (MerkleRoot [sha256 ''a'', sha256 ''b'']) \<and>
     (''a'' = [''a'', ''b''] ! 0 \<or>
      collides (''a'' # verify_inputs (sha256 ''a'') 0 path) ([''a'', ''b''] @ tree_inputs [sha256 ''a'', sha256 ''b'']))"
proof -
  define l where "l = [sha256 ''a'', sha256 ''b'']"
  have l: "l \<noteq> []" "\<forall>x\<in>set l. length x = 32" "length l = 2" "l ! 0 = sha256 ''a''" by (simp_all add: l_def)
  have v: "VerifyMerkleProof (sha256 ''a'') 0 (proof_loop l 0) (MerkleRoot (List.map sha256 [''a'', ''b'']))"
    using verify_proof_loop [of 0 l] l(1,3,4) by (simp add: VerifyMerkleProof_def MerkleRoot_def l_def)
  have "\<forall>x\<in>set (proof_loop l 0). length x = 32" using proof_loop_shape [of 0 l] l by simp
  from merkle_proof_sound [OF _ _ this v] v show ?thesis by (intro exI [of _ "proof_loop l 0"]) simp
qed

section \<open>Payloads determine their parts\<close>

lemma comma_no_digit [simp]: "\<not> is_digit CHR '',''" "\<not> is_digit CHR 0x7D"
  by (simp_all add: is_digit_def)

text \<open>
  A receipt leaf binds every billed value. Two ASCII requests with the same leaf payload agree in
  request id, wallet, provider, model, signature and all three token counts; so equal leaves
  with a different value anywhere would be a SHA-256 collision.
\<close>

theorem receipt_payload_binds:
  assumes "list_all ascii [rid, wallet, sp, model, sig, rid', wallet', sp', model', sig']"
    and "receipt_payload rid wallet sp model p c k sig = receipt_payload rid' wallet' sp' model' p' c' k' sig'"
  shows "rid = rid' \<and> wallet = wallet' \<and> sp = sp' \<and> model = model' \<and> sig = sig' \<and> p = p' \<and> c = c' \<and> k = k'"
  using assms(2) by (simp add: receipt_payload_def json_string_peel json_string_inj_iff dec_int_peel assms(1) [simplified])

theorem receipt_payload_binds_witness:
  "receipt_payload ''r1'' ''0xu'' ''0xs'' ''m'' 10 20 0 ''s'' \<noteq> receipt_payload ''r1'' ''0xu'' ''0xs'' ''m'' 10 21 0 ''s''"
  using receipt_payload_binds [of "''r1''" "''0xu''" "''0xs''" "''m''" "''s''" "''r1''" "''0xu''" "''0xs''" "''m''" "''s''"
      10 20 0 10 21 0]
  by (auto simp: ascii_def)

definition ascii_item :: "hash_item \<Rightarrow> bool" where
  "ascii_item = (\<lambda>(u, s, a, t). ascii u \<and> ascii s \<and> ascii a \<and> ascii t)"

interpretation items_json: prefix_code hash_item_json ascii_item
proof
  fix x y :: hash_item and r r'
  obtain u s a t where x: "x = (u, s, a, t)" by (cases x)
  obtain u' s' a' t' where y: "y = (u', s', a', t')" by (cases y)
  assume "ascii_item x" "ascii_item y" and e: "hash_item_json x @ r = hash_item_json y @ r'"
  then have asc: "ascii u" "ascii s" "ascii a" "ascii t" "ascii u'" "ascii s'" "ascii a'" "ascii t'"
    by (simp_all add: ascii_item_def x y)
  from e show "x = y \<and> r = r'" by (simp add: hash_item_json_def x y json_string_peel asc)
qed (simp add: hash_item_json_def split: prod.split)

lemma sort_key_perm: "inj f \<Longrightarrow> mset xs = mset ys \<Longrightarrow> sort_key f xs = sort_key f ys"
  by (metis inj_on_subset properties_for_sort_key mset_sort sorted_sort_key subset_UNIV sort_key_inj_key_eq)

lemma inj_hash_item_key: "inj hash_item_key"
  by (auto simp: inj_def hash_item_key_def split: prod.splits)

lemma sort_sets: "set xs = set ys \<Longrightarrow> sort (remdups xs) = sort (remdups ys)"
  by (simp add: sorted_list_of_set_sort_remdups [symmetric])

text \<open>
  The batch hash is the batch's economic identity. For ASCII items, two batches have the same
  hashed payload exactly when they consist of the same (user, provider, amount, token) tuples,
  with multiplicity and in any order, and settle the same set of request ids; neither the
  cursor nor the USD value nor the order of the items enters it.
\<close>

theorem batch_payload_identity:
  assumes "list_all ascii_item (List.map hash_item items)" "list_all ascii_item (List.map hash_item items')"
    and "list_all (\<lambda>it. list_all ascii (it_ids it)) (items @ items')"
  shows "batch_payload items = batch_payload items' \<longleftrightarrow>
     mset (List.map hash_item items) = mset (List.map hash_item items') \<and>
     (\<Union>it\<in>set items. set (it_ids it)) = (\<Union>it\<in>set items'. set (it_ids it))"
proof -
  define h where "h its = sort_key hash_item_key (List.map hash_item its)" for its :: "settlement_item list"
  define q where "q its = sort (remdups (concat (List.map it_ids its)))" for its :: "settlement_item list"
  have asc: "list_all ascii_item (h items)" "list_all ascii_item (h items')"
    "list_all ascii (q items)" "list_all ascii (q items')"
    using assms by (auto simp: h_def q_def list_all_iff)
  have p: "batch_payload its = ''{\"items\":'' @ json_array (List.map hash_item_json (h its))
      @ '',\"request_ids\":'' @ json_array (List.map json_string (q its)) @ ''}''" for its
    by (simp add: batch_payload_def Let_def h_def q_def)
  have "batch_payload items = batch_payload items' \<longleftrightarrow> h items = h items' \<and> q items = q items'"
    unfolding p
    by (simp only: append_assoc same_append_eq items_json.array_peel [OF asc(1,2)] js.array_peel [OF asc(3,4)] simp_thms)
  moreover have "h items = h items' \<longleftrightarrow> mset (List.map hash_item items) = mset (List.map hash_item items')"
    unfolding h_def by (metis mset_sort sort_key_perm [OF inj_hash_item_key])
  moreover have "q items = q items' \<longleftrightarrow> (\<Union>it\<in>set items. set (it_ids it)) = (\<Union>it\<in>set items'. set (it_ids it))"
  proof -
    have s: "set (q its) = (\<Union>it\<in>set its. set (it_ids it))" for its by (simp add: q_def)
    have "q items = q items'" if "set (q items) = set (q items')"
      using that unfolding q_def by (intro sort_sets) simp
    then show ?thesis unfolding s [symmetric] by metis
  qed
  ultimately show ?thesis by blast
qed

theorem batch_payload_identity_witness:
  "\<exists>it it'. it_amount it \<noteq> it_amount it' \<and> batch_payload [it, it'] = batch_payload [it', it] \<and>
     batch_payload [it] \<noteq> batch_payload [it']"
proof -
  define mk where "mk z = \<lparr>it_wallet = ''w'', it_userEVM = ''0xu'', it_spEVM = ''0xs'', it_amount = z,
    it_tokenAddr = ''0xt'', it_token = \<lparr>tok_symbol = ''T'', tok_address = ''0xt'', tok_decimals = 6\<rparr>,
    it_usd = newbf, it_tokens = 0, it_ids = [''r1'']\<rparr>" for z
  have v: "dec_int 1 = ''1''" "dec_int 2 = ''2''"
    by (simp_all add: dec_int_def dec_nat.simps digit_def char_of_def bit_numeral_rec bit_0)
  have d: "dec_int 1 \<noteq> dec_int 2" and dig: "ascii (dec_int 1)" "ascii (dec_int 2)"
    by (simp_all add: v ascii_def)
  have asc: "ascii_item (hash_item (mk z))" if "ascii (dec_int z)" for z
    using that by (simp add: ascii_item_def hash_item_def mk_def ascii_def)
  have ids: "it_ids (mk z) = [''r1'']" "ascii ''r1''" for z by (simp_all add: mk_def ascii_def)
  have ne: "hash_item (mk 1) \<noteq> hash_item (mk 2)" using d by (simp add: hash_item_def mk_def)
  have "batch_payload [mk 1, mk 2] = batch_payload [mk 2, mk 1]"
    by (rule batch_payload_identity [THEN iffD2]) (simp_all add: asc dig ids)
  moreover have "batch_payload [mk 1] \<noteq> batch_payload [mk 2]"
    using batch_payload_identity [of "[mk 1]" "[mk 2]"] ne by (simp add: asc dig ids)
  moreover have "it_amount (mk 1) \<noteq> it_amount (mk 2)" by (simp add: mk_def)
  ultimately show ?thesis by blast
qed

section \<open>The leaf set of a batch\<close>

definition ents_ok :: "(string \<rightharpoonup> request_record) \<Rightarrow> settlement_item list \<Rightarrow> (string \<times> digest) list \<Rightarrow> bool" where
  "ents_ok recs batch ents \<longleftrightarrow> distinct (akeys ents) \<and>
     (\<forall>(rid, l)\<in>set ents. \<exists>it\<in>set batch. rid \<in> set (it_ids it) \<and> l = leaf_of recs it rid)"

definition add_ids :: "(string \<rightharpoonup> request_record) \<Rightarrow> settlement_item \<Rightarrow> string list \<Rightarrow>
    (string \<times> digest) list \<Rightarrow> (string \<times> digest) list" where
  "add_ids recs it = fold (\<lambda>rid ents.
      if rid \<in> set (akeys ents) then ents else ents @ [(rid, leaf_of recs it rid)])"

lemma add_ids_ok:
  assumes "ents_ok recs batch ents" "it \<in> set batch" "set ids \<subseteq> set (it_ids it)"
  shows "ents_ok recs batch (add_ids recs it ids ents)
    \<and> set (akeys (add_ids recs it ids ents)) = set (akeys ents) \<union> set ids"
  using assms
proof (induction ids arbitrary: ents)
  case (Cons r ids)
  have "ents_ok recs batch (if r \<in> set (akeys ents) then ents else ents @ [(r, leaf_of recs it r)])"
    using Cons.prems by (auto simp: ents_ok_def akeys_def)
  from Cons.IH [OF this Cons.prems(2)] Cons.prems(3) show ?case by (auto simp: add_ids_def akeys_def)
qed (simp add: add_ids_def)

lemma batch_ents_ok:
  "ents_ok recs batch (batch_ents batch recs) \<and>
   set (akeys (batch_ents batch recs)) = (\<Union>it\<in>set batch. set (it_ids it))"
proof -
  have "ents_ok recs batch (fold (\<lambda>it. add_ids recs it (it_ids it)) its ents)
    \<and> set (akeys (fold (\<lambda>it. add_ids recs it (it_ids it)) its ents))
      = set (akeys ents) \<union> (\<Union>it\<in>set its. set (it_ids it))"
    if "ents_ok recs batch ents" "set its \<subseteq> set batch" for its ents
    using that
  proof (induction its arbitrary: ents)
    case (Cons it its)
    from add_ids_ok [OF Cons.prems(1), of it "it_ids it"] Cons.prems(2)
    have a: "ents_ok recs batch (add_ids recs it (it_ids it) ents)"
      "set (akeys (add_ids recs it (it_ids it) ents)) = set (akeys ents) \<union> set (it_ids it)" by simp_all
    with Cons.IH [OF a(1)] Cons.prems(2) show ?case by auto
  qed simp
  from this [of "[]" batch] show ?thesis
    by (simp add: batch_ents_def add_ids_def ents_ok_def)
qed

text \<open>
  The tree of a batch has exactly one leaf per request id the batch settles, in ascending order of
  the ids and independent of anything but the batch; the i-th leaf is the receipt leaf (debt leaf
  where the record is no longer at hand) of an item that settles the i-th id, and the path
  served for position i verifies that leaf against the batch's root.
\<close>

theorem batch_tree_complete:
  "case batchLeaves batch recordsByID of (rids, leaves) \<Rightarrow>
     sorted rids \<and> distinct rids \<and> set rids = (\<Union>it\<in>set batch. set (it_ids it)) \<and>
     length leaves = length rids \<and>
     list_all (\<lambda>i. list_ex (\<lambda>it. rids ! i \<in> set (it_ids it) \<and> leaves ! i = leaf_of recordsByID it (rids ! i)) batch \<and>
        VerifyMerkleProof (leaves ! i) i (MerkleProofFor leaves (int i)) (MerkleRoot leaves)) [0..<length rids]"
proof -
  define ents where "ents = sort_key fst (batch_ents batch recordsByID)"
  have ok: "ents_ok recordsByID batch (batch_ents batch recordsByID)"
    and keys: "set (akeys (batch_ents batch recordsByID)) = (\<Union>it\<in>set batch. set (it_ids it))"
    using batch_ents_ok by blast+
  have ms: "mset (List.map fst ents) = mset (akeys (batch_ents batch recordsByID))"
    by (simp add: ents_def akeys_def)
  have d: "distinct (List.map fst ents)" using ok ms by (metis ents_ok_def mset_eq_imp_distinct_iff)
  have s: "set (List.map fst ents) = (\<Union>it\<in>set batch. set (it_ids it))" using keys ms by (metis mset_eq_setD)
  have ex: "list_ex (\<lambda>it. List.map fst ents ! i \<in> set (it_ids it) \<and>
      List.map snd ents ! i = leaf_of recordsByID it (List.map fst ents ! i)) batch" if "i < length ents" for i
  proof -
    obtain r l where e: "ents ! i = (r, l)" by (cases "ents ! i")
    have "(r, l) \<in> set (batch_ents batch recordsByID)"
      using that e nth_mem [of i ents] by (simp add: ents_def)
    with ok obtain it where "it \<in> set batch" "r \<in> set (it_ids it)" "l = leaf_of recordsByID it r"
      unfolding ents_ok_def by fastforce
    with e that show ?thesis by (auto simp: list_ex_iff)
  qed
  have ver: "VerifyMerkleProof (List.map snd ents ! i) i (MerkleProofFor (List.map snd ents) (int i)) (MerkleRoot (List.map snd ents))"
    if "i < length ents" for i
    using that verify_proof_loop [of i "List.map snd ents"]
    by (auto simp: VerifyMerkleProof_def MerkleProofFor_def MerkleRoot_def)
  have "sorted (List.map fst ents)" unfolding ents_def by (rule sorted_sort_key)
  with d s ex ver show ?thesis
    by (simp add: batchLeaves_def Let_def ents_def [symmetric] list_all_iff)
qed

lemma batch_leaves_rids:
  assumes "batchLeaves batch recs = (rids, leaves)"
  shows "distinct rids \<and> set rids = (\<Union>it\<in>set batch. set (it_ids it)) \<and> length leaves = length rids"
proof -
  define ents where "ents = sort_key fst (batch_ents batch recs)"
  have b: "rids = List.map fst ents" "leaves = List.map snd ents"
    using assms by (auto simp: batchLeaves_def Let_def ents_def)
  have ms: "mset (List.map fst ents) = mset (akeys (batch_ents batch recs))"
    by (simp add: ents_def akeys_def)
  have "ents_ok recs batch (batch_ents batch recs)"
    and k: "set (akeys (batch_ents batch recs)) = (\<Union>it\<in>set batch. set (it_ids it))"
    using batch_ents_ok by blast+
  then have "distinct (List.map fst ents)" using ms by (metis ents_ok_def mset_eq_imp_distinct_iff)
  moreover have "set (List.map fst ents) = (\<Union>it\<in>set batch. set (it_ids it))" using k ms by (metis mset_eq_setD)
  ultimately show ?thesis by (simp add: b)
qed

section \<open>Odd levels\<close>

lemma next_level_dup: "odd (length ls) \<Longrightarrow> next_level (ls @ [last ls]) = next_level ls"
  by (induction ls rule: next_level.induct) auto

text \<open>
  Pairing an odd node with itself makes the root ambiguous about the number of leaves: a batch with
  an odd number of leaves and the same batch with its last leaf repeated have one root. (The
  contract's details hash is still unambiguous, as it binds the batch hash too.)
\<close>

theorem repeated_last_leaf_same_root:
  assumes "odd (length leaves)" "1 < length leaves"
  shows "MerkleRoot (leaves @ [last leaves]) = MerkleRoot leaves"
proof -
  have ne: "leaves \<noteq> []" using assms by auto
  then have "root_loop (leaves @ [last leaves]) = root_loop leaves"
    using assms by (subst (1 2) root_loop.simps) (simp add: next_level_dup)
  moreover note ne
  ultimately show ?thesis by (simp add: MerkleRoot_def)
qed

theorem repeated_last_leaf_same_root_witness:
  "MerkleRoot [''a'', ''b'', ''c'', ''c''] = MerkleRoot [''a'', ''b'', ''c'']"
  using repeated_last_leaf_same_root [of "[''a'', ''b'', ''c'']"] by simp

end
