(* ===== verification/RequestLog.thy ===== *)
theory RequestLog
  imports Types
begin

text \<open>
  The request log the gateway writes (\<open>gateway/requestlog.go\<close>): a JSONL file that is rotated into
  numbered backups when it is large enough. The directory maps the suffix number (0 is the main
  file, \<open>i\<close> is \<open>.i\<close>) to a file. A file is its inode and its lines, each with its length in bytes
  (newline included); a line is a decodable row or anything else. The length of a row's JSON
  is a parameter. Inode numbers of new files are fresh.
\<close>

section \<open>Files\<close>

datatype line = Row request_record | Malformed

record 'l lines_file =
  lf_ino :: nat
  lf_dev :: nat
  lf_lines :: "(nat \<times> 'l) list"

definition lf_size :: "'l lines_file \<Rightarrow> nat" where
  "lf_size f = (\<Sum>p\<leftarrow>lf_lines f. fst p)"

record 'l file_dir =
  ld_files :: "(nat \<times> 'l lines_file) list"
  ld_next :: nat

type_synonym logfile = "line lines_file"
type_synonym log_dir = "line file_dir"

abbreviation file_at :: "'l file_dir \<Rightarrow> nat \<Rightarrow> 'l lines_file option" where
  "file_at d i \<equiv> alookup (ld_files d) i"

section \<open>The logger\<close>

record req_logger =
  rl_currentSize :: nat
  rl_maxSize :: nat
  rl_maxBackups :: int

definition maxFileSize :: nat where "maxFileSize = 50 * 2 ^ 20"
definition defaultMaxBackups :: int where "defaultMaxBackups = 10"

text \<open>\<open>os.OpenFile(path, O_CREATE|O_APPEND|O_WRONLY)\<close>: an existing file is kept.\<close>

definition open_main :: "'l file_dir \<Rightarrow> 'l file_dir" where
  "open_main d =
     (case file_at d 0 of
        Some _ \<Rightarrow> d
      | None \<Rightarrow> d\<lparr>ld_files := aput 0 \<lparr>lf_ino = ld_next d, lf_dev = 1, lf_lines = []\<rparr> (ld_files d),
                 ld_next := ld_next d + 1\<rparr>)"

definition NewRequestLogger :: "'l file_dir \<Rightarrow> req_logger \<times> 'l file_dir" where
  "NewRequestLogger d =
     (let d' = open_main d;
          size = (case file_at d' 0 of Some f \<Rightarrow> lf_size f | None \<Rightarrow> 0)
      in (\<lparr>rl_currentSize = size, rl_maxSize = maxFileSize, rl_maxBackups = defaultMaxBackups\<rparr>, d'))"

definition rename_file :: "nat \<Rightarrow> nat \<Rightarrow> 'l file_dir \<Rightarrow> 'l file_dir" where
  "rename_file i j d =
     (case file_at d i of
        None \<Rightarrow> d
      | Some f \<Rightarrow> d\<lparr>ld_files := aput j f (adel i (ld_files d))\<rparr>)"

definition remove_file :: "nat \<Rightarrow> 'l file_dir \<Rightarrow> 'l file_dir" where
  "remove_file i d = d\<lparr>ld_files := adel i (ld_files d)\<rparr>"

definition shift_backups :: "nat \<Rightarrow> 'l file_dir \<Rightarrow> 'l file_dir" where
  "shift_backups n d = fold (\<lambda>i d. rename_file i (i + 1) d) (rev [1..<n]) d"

definition backups_kept :: "req_logger \<Rightarrow> nat" where
  "backups_kept rl = (let backups = rl_maxBackups rl in nat (if backups < 1 then 1 else backups))"

text \<open>Re-opening the main file after the renames is taken to succeed.\<close>

definition rotate_log :: "req_logger \<times> 'l file_dir \<Rightarrow> req_logger \<times> 'l file_dir" where
  "rotate_log = (\<lambda>(rl, d).
     (let backups = backups_kept rl;
          d = remove_file backups d;
          d = shift_backups backups d;
          d = rename_file 0 1 d;
          d = open_main d
      in (rl\<lparr>rl_currentSize := 0\<rparr>, d)))"

definition append_line :: "nat \<times> 'l \<Rightarrow> 'l file_dir \<Rightarrow> 'l file_dir" where
  "append_line l d =
     (case file_at d 0 of
        None \<Rightarrow> d
      | Some f \<Rightarrow> d\<lparr>ld_files := aput 0 (f\<lparr>lf_lines := lf_lines f @ [l]\<rparr>) (ld_files d)\<rparr>)"

definition Log :: "(request_record \<Rightarrow> nat) \<Rightarrow> request_record \<Rightarrow> req_logger \<times> log_dir \<Rightarrow> req_logger \<times> log_dir" where
  "Log json_len rec = (\<lambda>(rl, d).
     (let n = json_len rec + 1;
          d = append_line (n, Row rec) d;
          rl = rl\<lparr>rl_currentSize := rl_currentSize rl + n\<rparr>
      in if rl_currentSize rl \<ge> rl_maxSize rl then rotate_log (rl, d) else (rl, d)))"

section \<open>The directory as a chain of files\<close>

text \<open>
  \<open>chain d m bs\<close>: the main file is \<open>m\<close> and the backups are exactly \<open>bs\<close>, newest first; inodes
  are distinct, not 0 and older than the next one.
\<close>

definition chain :: "'l file_dir \<Rightarrow> 'l lines_file \<Rightarrow> 'l lines_file list \<Rightarrow> bool" where
  "chain d m bs \<longleftrightarrow>
     file_at d 0 = Some m \<and>
     (\<forall>i. file_at d (Suc i) = (if i < length bs then Some (bs ! i) else None)) \<and>
     distinct (List.map lf_ino (m # bs)) \<and> (\<forall>f\<in>set (m # bs). 0 < lf_ino f \<and> lf_ino f < ld_next d)"

lemma file_at_rename [simp]:
  "i \<noteq> j \<Longrightarrow> file_at (rename_file i j d) k =
     (case file_at d i of None \<Rightarrow> file_at d k
      | Some f \<Rightarrow> if k = j then Some f else if k = i then None else file_at d k)"
  by (auto simp: rename_file_def split: option.split)

lemma file_at_remove [simp]: "file_at (remove_file i d) k = (if k = i then None else file_at d k)"
  by (simp add: remove_file_def)

lemma ld_next_frame [simp]:
  "ld_next (rename_file i j d) = ld_next d" "ld_next (remove_file i d) = ld_next d"
  "ld_next (append_line l d) = ld_next d"
  by (simp_all add: rename_file_def remove_file_def append_line_def split: option.split)

lemma file_at_shift:
  "1 \<le> n \<Longrightarrow> file_at d n = None \<Longrightarrow>
   file_at (shift_backups n d) k =
     (if k = 1 then None else if 2 \<le> k \<and> k \<le> n then file_at d (k - 1) else file_at d k)"
proof (induction n arbitrary: d)
  case (Suc n)
  show ?case
  proof (cases n)
    case 0
    with Suc.prems show ?thesis by (auto simp: shift_backups_def)
  next
    case (Suc m)
    let ?d = "rename_file n (Suc n) d"
    have s: "shift_backups (Suc n) d = shift_backups n ?d" by (simp add: shift_backups_def Suc)
    have at: "file_at ?d k = (if k = Suc n then file_at d n else if k = n then None else file_at d k)" for k
      using Suc.prems(2) by (auto split: option.split)
    have IH: "file_at (shift_backups n ?d) k =
        (if k = 1 then None else if 2 \<le> k \<and> k \<le> n then file_at ?d (k - 1) else file_at ?d k)"
      by (rule Suc.IH) (simp_all only: at, simp_all add: Suc)
    show ?thesis unfolding s IH at by (use Suc in auto)
  qed
qed simp

lemma ld_next_shift [simp]: "ld_next (shift_backups n d) = ld_next d"
proof -
  have "ld_next (fold (\<lambda>i d. rename_file i (i + 1) d) is d) = ld_next d" for "is"
    by (induction "is" arbitrary: d) simp_all
  then show ?thesis by (simp add: shift_backups_def)
qed

lemma chain_rotate:
  assumes "chain d m bs" "n = backups_kept rl"
  shows "\<exists>m'. chain (snd (rotate_log (rl, d))) m' (m # take (n - 1) bs @ drop n bs) \<and> lf_lines m' = []"
proof -
  have n: "1 \<le> n" using assms(2) by (auto simp: backups_kept_def Let_def)
  define d1 where "d1 = shift_backups n (remove_file n d)"
  define d2 where "d2 = rename_file 0 1 d1"
  let ?m = "\<lparr>lf_ino = ld_next d, lf_dev = 1, lf_lines = []\<rparr>"
  let ?bs = "m # take (n - 1) bs @ drop n bs"
  note c = assms(1) [unfolded chain_def]
  have sub: "set (take (n - 1) bs @ drop n bs) \<subseteq> set bs"
    using set_take_subset set_drop_subset by fastforce
  have at1: "file_at d1 k = (if k = 1 then None else if 2 \<le> k \<and> k \<le> n then file_at d (k - 1)
      else if k = n then None else file_at d k)" for k
    unfolding d1_def using n by (subst file_at_shift) auto
  have at2: "file_at d2 k = (if k = 1 then Some m else if k = 0 then None else file_at d1 k)" for k
    using c n at1 [of 0] by (simp add: d2_def)
  have "snd (rotate_log (rl, d)) = open_main d2"
    by (simp add: rotate_log_def Let_def d2_def d1_def assms(2))
  moreover have "file_at d2 0 = None" using at2 [of 0] by simp
  moreover have "ld_next d2 = ld_next d" by (simp add: d2_def d1_def)
  ultimately have r: "snd (rotate_log (rl, d)) = d2\<lparr>ld_files := aput 0 ?m (ld_files d2), ld_next := ld_next d + 1\<rparr>"
    by (simp add: open_main_def)
  have "file_at d2 (Suc i) = (if i < length ?bs then Some (?bs ! i) else None)" for i
  proof (cases i)
    case 0
    then show ?thesis by (simp add: at2)
  next
    case (Suc j)
    have "file_at d2 (Suc i) = (if Suc j \<le> n - 1 then file_at d (Suc j)
        else if Suc i = n then None else file_at d (Suc i))"
      using n by (auto simp: at2 at1 Suc)
    also have "\<dots> = (if i < length ?bs then Some (?bs ! i) else None)"
      using c n by (auto simp: Suc nth_append min_def)
    finally show ?thesis .
  qed
  moreover have "distinct (List.map lf_ino (?m # ?bs))"
  proof -
    have "distinct (List.map lf_ino bs)" using c by simp
    then have "distinct (take (n - 1) (List.map lf_ino bs) @ drop n (List.map lf_ino bs))"
      by (simp add: set_take_disj_set_drop_if_distinct)
    then have "distinct (List.map lf_ino (take (n - 1) bs @ drop n bs))"
      by (simp add: take_map drop_map)
    moreover have "lf_ino m \<notin> lf_ino ` set bs" "\<forall>f\<in>set (m # bs). lf_ino f \<noteq> ld_next d"
      using c by auto
    ultimately show ?thesis using sub by auto
  qed
  moreover have "\<forall>f\<in>set (?m # ?bs). 0 < lf_ino f \<and> lf_ino f < ld_next d + 1"
  proof -
    have "\<forall>f\<in>set (m # bs). 0 < lf_ino f \<and> lf_ino f < ld_next d" using c by blast
    then have "0 < ld_next d" and "\<forall>f\<in>set (m # bs). 0 < lf_ino f \<and> lf_ino f < ld_next d + 1" by auto
    then show ?thesis using sub by fastforce
  qed
  ultimately have "chain (snd (rotate_log (rl, d))) ?m ?bs"
    unfolding chain_def r by simp
  then show ?thesis by (intro exI [of _ ?m]) simp
qed

lemma chain_append:
  assumes "chain d m bs"
  shows "chain (append_line l d) (m\<lparr>lf_lines := lf_lines m @ [l]\<rparr>) bs"
  using assms by (auto simp: chain_def append_line_def)

end
