(* ===== verification/Scanner.thy ===== *)
theory Scanner
  imports RequestLog
begin

text \<open>
  The settlement's reader of the request log (\<open>settlement/scanner.go\<close>): the cursor, one scan of a
  file, and \<open>Peek\<close>, which survives the log's rotations by following the cursor's inode through
  the numbered backups. One \<open>Peek\<close> is taken to see one snapshot of the directory.
\<close>

section \<open>Cursor and scan of one file\<close>

record cursor =
  cu_offset :: nat
  cu_ts :: gotime
  cu_size :: nat
  cu_ino :: nat
  cu_dev :: nat

definition zero_cursor :: cursor where
  "zero_cursor = \<lparr>cu_offset = 0, cu_ts = zero_time, cu_size = 0, cu_ino = 0, cu_dev = 0\<rparr>"

text \<open>Seeking into the middle of a line leaves a fragment, which does not decode.\<close>

fun from_offset :: "nat \<Rightarrow> (nat \<times> line) list \<Rightarrow> (nat \<times> line) list" where
  "from_offset off [] = []"
| "from_offset off ((k, l) # ls) =
     (if off = 0 then (k, l) # ls
      else if k \<le> off then from_offset (off - k) ls
      else (k - off, Malformed) # ls)"

text \<open>\<open>bufio.Scanner\<close> with a 1 MiB buffer refuses a longer line, and the whole scan fails.\<close>

definition max_line :: nat where "max_line = 1024 * 1024"

type_synonym scan_result = "(request_record list \<times> nat \<times> gotime) option"

fun scan_lines :: "(nat \<times> line) list \<Rightarrow> request_record list \<Rightarrow> gotime \<Rightarrow> (request_record list \<times> gotime) option" where
  "scan_lines [] recs ts = Some (recs, ts)"
| "scan_lines ((k, l) # ls) recs ts =
     (if k > max_line then None
      else case l of
        Malformed \<Rightarrow> scan_lines ls recs ts
      | Row rec \<Rightarrow> if \<not> isBillable rec then scan_lines ls recs ts
                   else scan_lines ls (recs @ [rec]) (rr_timestamp rec))"

definition scanFrom :: "logfile option \<Rightarrow> nat \<Rightarrow> scan_result" where
  "scanFrom file startOffset =
     (case file of
        None \<Rightarrow> None
      | Some f \<Rightarrow>
          (case scan_lines (from_offset startOffset (lf_lines f)) [] zero_time of
             None \<Rightarrow> None
           | Some (recs, ts) \<Rightarrow> Some (recs, max startOffset (lf_size f), ts)))"

section \<open>Peek\<close>

datatype scan_error = ScanLogFile | ScanRotatedTail | ScanRotatedBackup | ScanRotatedMain

type_synonym peek_result = "scan_error + (request_record list \<times> cursor \<times> cursor)"

text \<open>The search for the backup that holds the cursor's file, upwards until a number is missing.\<close>

function find_backup :: "log_dir \<Rightarrow> nat \<Rightarrow> nat \<Rightarrow> nat option" where
  "find_backup d ino i =
     (case file_at d i of
        None \<Rightarrow> None
      | Some f \<Rightarrow> if lf_ino f \<noteq> ino then find_backup d ino (i + 1) else Some i)"
  by auto
termination
proof (relation "measure (\<lambda>(d, ino, i). card {k \<in> set (akeys (ld_files d)). i \<le> k})")
  fix d :: log_dir and ino i f
  assume "file_at d i = Some f"
  then have "i \<in> set (akeys (ld_files d))" by (metis alookup_None_iff option.distinct(1))
  then have "i \<in> {k \<in> set (akeys (ld_files d)). i \<le> k} - {k \<in> set (akeys (ld_files d)). i + 1 \<le> k}" by simp
  moreover have "{k \<in> set (akeys (ld_files d)). i + 1 \<le> k} \<subseteq> {k \<in> set (akeys (ld_files d)). i \<le> k}" by auto
  ultimately have "{k \<in> set (akeys (ld_files d)). i + 1 \<le> k} \<subset> {k \<in> set (akeys (ld_files d)). i \<le> k}"
    by blast
  then show "((d, ino, i + 1), d, ino, i) \<in> measure (\<lambda>(d, ino, i). card {k \<in> set (akeys (ld_files d)). i \<le> k})"
    by (simp add: psubset_card_mono)
qed simp

declare find_backup.simps [simp del]

text \<open>The newer backups \<open>.j\<close> down to \<open>.1\<close>, each read from its beginning.\<close>

fun drain_newer :: "log_dir \<Rightarrow> nat \<Rightarrow> request_record list \<Rightarrow> gotime \<Rightarrow> (request_record list \<times> gotime) option" where
  "drain_newer d 0 recs ts = Some (recs, ts)"
| "drain_newer d (Suc j) recs ts =
     (case scanFrom (file_at d (Suc j)) 0 of
        None \<Rightarrow> None
      | Some (rs, _, t) \<Rightarrow> drain_newer d j (recs @ rs) (if rs \<noteq> [] then t else ts))"

definition drain_backups :: "log_dir \<Rightarrow> cursor \<Rightarrow> scan_error + (request_record list \<times> gotime)" where
  "drain_backups d old =
     (case (if cu_ino old \<noteq> 0 then find_backup d (cu_ino old) 1 else None) of
        Some i \<Rightarrow>
          (case scanFrom (file_at d i) (cu_offset old) of
             None \<Rightarrow> Inl ScanRotatedTail
           | Some (tail, _, t) \<Rightarrow>
               (case drain_newer d (i - 1) tail (if tail \<noteq> [] then t else zero_time) of
                  None \<Rightarrow> Inl ScanRotatedBackup
                | Some r \<Rightarrow> Inr r))
      | None \<Rightarrow>
          (case file_at d 1 of
             None \<Rightarrow> Inr ([], zero_time)
           | Some b \<Rightarrow>
               let startAt = (if cu_ino old = 0 \<or> lf_ino b = cu_ino old then cu_offset old else 0)
               in (case scanFrom (Some b) startAt of
                     None \<Rightarrow> Inr ([], zero_time)
                   | Some (tail, _, t) \<Rightarrow> Inr (tail, if tail \<noteq> [] then t else zero_time))))"

definition rotated :: "logfile \<Rightarrow> cursor \<Rightarrow> bool" where
  "rotated m old \<longleftrightarrow>
     (cu_ino old \<noteq> 0 \<and> lf_ino m \<noteq> cu_ino old) \<or> (cu_offset old > 0 \<and> lf_size m < cu_offset old)"

definition cursor_at :: "logfile \<Rightarrow> nat \<Rightarrow> gotime \<Rightarrow> cursor" where
  "cursor_at m end ts =
     \<lparr>cu_offset = end, cu_ts = ts, cu_size = lf_size m, cu_ino = lf_ino m, cu_dev = lf_dev m\<rparr>"

text \<open>\<open>saved\<close> is what \<open>loadCursor\<close> decodes from the cursor file, \<open>None\<close> when that fails.\<close>

definition Peek :: "cursor option \<Rightarrow> log_dir \<Rightarrow> peek_result" where
  "Peek saved d =
     (let old = (case saved of Some c \<Rightarrow> c | None \<Rightarrow> zero_cursor)
      in case file_at d 0 of
           None \<Rightarrow>
             (case scanFrom (file_at d 1) (cu_offset old) of
                Some (tail, _, _) \<Rightarrow> Inr (tail, old, old)
              | None \<Rightarrow> Inr ([], old, old))
         | Some m \<Rightarrow>
             if rotated m old
             then (case drain_backups d old of
                     Inl e \<Rightarrow> Inl e
                   | Inr (recs, lastTS) \<Rightarrow>
                       (case scanFrom (Some m) 0 of
                          None \<Rightarrow> Inl ScanRotatedMain
                        | Some (newRecs, end, newTS) \<Rightarrow>
                            let lastTS = (if newRecs \<noteq> [] then newTS else lastTS);
                                lastTS = (if lastTS = zero_time then cu_ts old else lastTS)
                            in Inr (recs @ newRecs, old, cursor_at m end lastTS)))
             else (case scanFrom (Some m) (cu_offset old) of
                     None \<Rightarrow> Inl ScanLogFile
                   | Some (recs, end, ts) \<Rightarrow>
                       Inr (recs, old, cursor_at m end (if ts = zero_time then cu_ts old else ts))))"

text \<open>The cursor file is replaced by a rename, so it holds the old or the new cursor.\<close>

definition CommitCursor :: "cursor \<Rightarrow> cursor option \<Rightarrow> cursor option" where
  "CommitCursor c saved = Some c"

section \<open>What a scan returns\<close>

definition billable_rows :: "(nat \<times> line) list \<Rightarrow> request_record list" where
  "billable_rows ls = [r. (k, Row r) \<leftarrow> ls, isBillable r]"

lemma billable_rows_simps [simp]:
  "billable_rows [] = []"
  "billable_rows (ls @ ls') = billable_rows ls @ billable_rows ls'"
  "billable_rows ((k, Malformed) # ls) = billable_rows ls"
  "billable_rows ((k, Row r) # ls) = (if isBillable r then r # billable_rows ls else billable_rows ls)"
  by (simp_all add: billable_rows_def)

definition lines_fit :: "(nat \<times> line) list \<Rightarrow> bool" where
  "lines_fit ls \<longleftrightarrow> (\<forall>p\<in>set ls. 0 < fst p \<and> fst p \<le> max_line)"

lemma scan_lines_rows:
  "lines_fit ls \<Longrightarrow> \<exists>ts'. scan_lines ls recs ts = Some (recs @ billable_rows ls, ts')"
  by (induction ls recs ts rule: scan_lines.induct)
    (auto simp: lines_fit_def split: line.splits)

lemma from_offset_fit: "lines_fit ls \<Longrightarrow> lines_fit (from_offset off ls)"
  by (induction off ls rule: from_offset.induct) (auto simp: lines_fit_def)

definition file_fits :: "logfile \<Rightarrow> bool" where
  "file_fits f \<longleftrightarrow> lines_fit (lf_lines f)"

lemma scanFrom_rows:
  "file_fits f \<Longrightarrow> \<exists>ts. scanFrom (Some f) off =
     Some (billable_rows (from_offset off (lf_lines f)), max off (lf_size f), ts)"
  using scan_lines_rows [OF from_offset_fit, of "lf_lines f" off "[]" zero_time]
  by (auto simp: scanFrom_def file_fits_def)

lemma from_offset_end: "lines_fit ls \<Longrightarrow> from_offset (\<Sum>p\<leftarrow>ls. fst p) ls = []"
  by (induction ls) (auto simp: lines_fit_def)

lemma from_offset_0 [simp]: "from_offset 0 ls = ls"
  by (cases ls) auto

lemma from_offset_append:
  "off \<le> (\<Sum>p\<leftarrow>ls. fst p) \<Longrightarrow> from_offset off (ls @ ls') = from_offset off ls @ ls'"
proof (induction off ls rule: from_offset.induct)
  case (2 off k l ls)
  then show ?case by (cases "k \<le> off") auto
qed simp

section \<open>Nothing is skipped\<close>

text \<open>
  \<open>points_at fs c i\<close>: the cursor is inside the \<open>i\<close>-th youngest file of the log.
  \<open>unread fs i off\<close>: every line written after that position, oldest first.
\<close>

definition points_at :: "logfile list \<Rightarrow> cursor \<Rightarrow> nat \<Rightarrow> bool" where
  "points_at fs c i \<longleftrightarrow> i < length fs \<and> cu_ino c = lf_ino (fs ! i) \<and> cu_offset c \<le> lf_size (fs ! i)"

definition unread :: "logfile list \<Rightarrow> nat \<Rightarrow> nat \<Rightarrow> (nat \<times> line) list" where
  "unread fs i off = from_offset off (lf_lines (fs ! i)) @ concat (List.map lf_lines (rev (take i fs)))"

lemma chain_inos:
  assumes "chain d m bs" "j < length bs"
  shows "0 < lf_ino (bs ! j)" "lf_ino m \<noteq> lf_ino (bs ! j)"
    "i < length bs \<Longrightarrow> lf_ino (bs ! i) = lf_ino (bs ! j) \<Longrightarrow> i = j"
proof -
  have "bs ! j \<in> set bs" using assms(2) by simp
  then show "0 < lf_ino (bs ! j)" "lf_ino m \<noteq> lf_ino (bs ! j)"
    using assms(1) by (auto simp: chain_def image_iff)
  have "distinct (List.map lf_ino bs)" using assms(1) by (simp add: chain_def)
  then show "i < length bs \<Longrightarrow> lf_ino (bs ! i) = lf_ino (bs ! j) \<Longrightarrow> i = j"
    using assms(2) nth_eq_iff_index_eq [of "List.map lf_ino bs" i j] by simp
qed

lemma find_backup_chain:
  "chain d m bs \<Longrightarrow> i < length bs \<Longrightarrow> ino = lf_ino (bs ! i) \<Longrightarrow> j \<le> i \<Longrightarrow>
   find_backup d ino (Suc j) = Some (Suc i)"
proof (induction "i - j" arbitrary: j)
  case 0
  then show ?case by (subst find_backup.simps) (auto simp: chain_def)
next
  case (Suc k)
  then have "j < i" by simp
  then have "lf_ino (bs ! j) \<noteq> ino"
    using chain_inos(3) [OF Suc.prems(1,2), of j] Suc.prems(2,3) by fastforce
  moreover have "find_backup d ino (Suc (Suc j)) = Some (Suc i)"
    using Suc.hyps(1) [of "Suc j"] Suc.hyps(2) Suc.prems \<open>j < i\<close> by simp
  ultimately show ?case
    using Suc.prems \<open>j < i\<close> by (subst find_backup.simps) (simp add: chain_def)
qed

lemma drain_newer_chain:
  "chain d m bs \<Longrightarrow> \<forall>f\<in>set bs. file_fits f \<Longrightarrow> j \<le> length bs \<Longrightarrow>
   \<exists>ts'. drain_newer d j recs ts = Some (recs @ billable_rows (concat (List.map lf_lines (rev (take j bs)))), ts')"
proof (induction j arbitrary: recs ts)
  case (Suc j)
  then have "file_at d (Suc j) = Some (bs ! j)" "file_fits (bs ! j)" by (simp_all add: chain_def)
  then obtain t where s: "scanFrom (file_at d (Suc j)) 0
      = Some (billable_rows (lf_lines (bs ! j)), max 0 (lf_size (bs ! j)), t)"
    using scanFrom_rows [of "bs ! j" 0] by auto
  have "rev (take (Suc j) bs) = bs ! j # rev (take j bs)"
    using Suc.prems(3) by (simp add: take_Suc_conv_app_nth)
  with Suc.IH [OF Suc.prems(1,2)] Suc.prems(3) s show ?case
    by (simp add: append_assoc [symmetric] del: append_assoc)
qed simp

lemma Peek_chain:
  assumes c: "chain d m bs" and fit: "\<forall>f\<in>set (m # bs). file_fits f" and p: "points_at (m # bs) c i"
  shows "\<exists>ts. Peek (Some c) d = Inr (billable_rows (unread (m # bs) i (cu_offset c)), c, cursor_at m (lf_size m) ts)"
proof (cases i)
  case 0
  have m: "file_at d 0 = Some m" using c by (simp add: chain_def)
  obtain ts where "scanFrom (Some m) (cu_offset c) =
      Some (billable_rows (from_offset (cu_offset c) (lf_lines m)), max (cu_offset c) (lf_size m), ts)"
    using scanFrom_rows [of m] fit by auto
  moreover have "\<not> rotated m c" "max (cu_offset c) (lf_size m) = lf_size m"
    using p 0 by (auto simp: points_at_def rotated_def)
  ultimately show ?thesis
    by (simp add: Peek_def m unread_def 0) metis
next
  case (Suc j)
  have m: "file_at d 0 = Some m" using c by (simp add: chain_def)
  have j: "j < length bs" "cu_ino c = lf_ino (bs ! j)" using p Suc by (auto simp: points_at_def)
  then have f: "find_backup d (cu_ino c) 1 = Some (Suc j)" "file_at d (Suc j) = Some (bs ! j)"
    using find_backup_chain [OF c j, of 0] c by (simp_all add: chain_def)
  have ino: "cu_ino c \<noteq> 0" "lf_ino m \<noteq> cu_ino c"
    using chain_inos(1,2) [OF c j(1)] j(2) by auto
  obtain t where s1: "scanFrom (Some (bs ! j)) (cu_offset c) =
      Some (billable_rows (from_offset (cu_offset c) (lf_lines (bs ! j))), max (cu_offset c) (lf_size (bs ! j)), t)"
    using scanFrom_rows [of "bs ! j"] fit j(1) by auto
  let ?tail = "billable_rows (from_offset (cu_offset c) (lf_lines (bs ! j)))"
  obtain ts where dr: "drain_newer d j ?tail (if ?tail \<noteq> [] then t else zero_time) =
      Some (?tail @ billable_rows (concat (List.map lf_lines (rev (take j bs)))), ts)"
    using drain_newer_chain [OF c, of j ?tail "if ?tail \<noteq> [] then t else zero_time"] fit j(1) by auto
  have db: "drain_backups d c = Inr (?tail @ billable_rows (concat (List.map lf_lines (rev (take j bs)))), ts)"
    using ino(1) f s1 dr by (simp add: drain_backups_def)
  obtain u where s0: "scanFrom (Some m) 0 = Some (billable_rows (lf_lines m), lf_size m, u)"
    using scanFrom_rows [of m 0] fit by auto
  have "rotated m c" using ino by (simp add: rotated_def)
  then show ?thesis
    using m db s0 by (simp add: Peek_def Let_def unread_def Suc append_assoc) blast
qed

section \<open>The log between two cycles\<close>

fun rotations :: "(request_record \<Rightarrow> nat) \<Rightarrow> request_record list \<Rightarrow> req_logger \<times> log_dir \<Rightarrow> nat" where
  "rotations json_len [] s = 0"
| "rotations json_len (r # rs) s =
     (if rl_currentSize (fst s) + (json_len r + 1) \<ge> rl_maxSize (fst s) then 1 else 0)
       + rotations json_len rs (Log json_len r s)"

lemma unread_append:
  assumes "points_at (m # bs) c i"
  shows "unread (m\<lparr>lf_lines := lf_lines m @ [l]\<rparr> # bs) i (cu_offset c) = unread (m # bs) i (cu_offset c) @ [l]"
    "points_at (m\<lparr>lf_lines := lf_lines m @ [l]\<rparr> # bs) c i"
proof -
  show "unread (m\<lparr>lf_lines := lf_lines m @ [l]\<rparr> # bs) i (cu_offset c) = unread (m # bs) i (cu_offset c) @ [l]"
    using assms by (cases i) (auto simp: unread_def points_at_def lf_size_def from_offset_append)
  show "points_at (m\<lparr>lf_lines := lf_lines m @ [l]\<rparr> # bs) c i"
    using assms by (cases i) (auto simp: points_at_def lf_size_def)
qed

lemma unread_rotate:
  assumes "points_at (m # bs) c i" "Suc i \<le> n" "lf_lines m' = []" "1 \<le> n"
  shows "points_at (m' # m # take (n - 1) bs @ drop n bs) c (Suc i)"
    "unread (m' # m # take (n - 1) bs @ drop n bs) (Suc i) (cu_offset c) = unread (m # bs) i (cu_offset c)"
proof -
  have i: "i < length (m # bs)" "i \<le> n - 1" using assms by (auto simp: points_at_def)
  have nth: "(m # take (n - 1) bs @ drop n bs) ! i = (m # bs) ! i"
    using i by (cases i) (auto simp: nth_append)
  have tk: "take i (m # take (n - 1) bs @ drop n bs) = take i (m # bs)"
    using i by (cases i) (auto simp: min_def)
  have len: "i < length (m # take (n - 1) bs @ drop n bs)" using i by auto
  show "points_at (m' # m # take (n - 1) bs @ drop n bs) c (Suc i)"
    using assms(1) len nth by (simp add: points_at_def)
  show "unread (m' # m # take (n - 1) bs @ drop n bs) (Suc i) (cu_offset c) = unread (m # bs) i (cu_offset c)"
    using nth tk assms(3) by (simp add: unread_def)
qed

text \<open>The state of the log and the cursor: what one logged row does to it.\<close>

definition log_ok :: "req_logger \<times> log_dir \<Rightarrow> cursor \<Rightarrow> nat \<Rightarrow> (nat \<times> line) list \<Rightarrow> bool" where
  "log_ok s c i ls \<longleftrightarrow>
     (\<exists>m bs. chain (snd s) m bs \<and> (\<forall>f\<in>set (m # bs). file_fits f) \<and> points_at (m # bs) c i \<and>
        unread (m # bs) i (cu_offset c) = ls)"

lemma Log_ok:
  assumes "log_ok s c i ls" "json_len r + 1 \<le> max_line"
    and rot: "b = (if rl_currentSize (fst s) + (json_len r + 1) \<ge> rl_maxSize (fst s) then 1 else 0)"
    and "i + b \<le> backups_kept (fst s)"
  shows "log_ok (Log json_len r s) c (i + b) (ls @ [(json_len r + 1, Row r)])"
    "backups_kept (fst (Log json_len r s)) = backups_kept (fst s)"
proof -
  obtain rl d where s: "s = (rl, d)" by (cases s)
  obtain m bs where c: "chain d m bs" "\<forall>f\<in>set (m # bs). file_fits f" "points_at (m # bs) c i"
    "unread (m # bs) i (cu_offset c) = ls" using assms(1) by (auto simp: log_ok_def s)
  let ?l = "(json_len r + 1, Row r)"
  let ?m = "m\<lparr>lf_lines := lf_lines m @ [?l]\<rparr>"
  have ch: "chain (append_line ?l d) ?m bs" by (rule chain_append [OF c(1)])
  have fit: "file_fits ?m" using c(2) assms(2) by (simp add: file_fits_def lines_fit_def)
  note u = unread_append [OF c(3), of ?l]
  show "backups_kept (fst (Log json_len r s)) = backups_kept (fst s)"
    by (simp add: s Log_def Let_def rotate_log_def backups_kept_def split: prod.split)
  show "log_ok (Log json_len r s) c (i + b) (ls @ [?l])"
  proof (cases "rl_currentSize rl + (json_len r + 1) \<ge> rl_maxSize rl")
    case False
    then have b: "b = 0" using rot by (simp add: s)
    have "Log json_len r s = (rl\<lparr>rl_currentSize := rl_currentSize rl + (json_len r + 1)\<rparr>, append_line ?l d)"
      using False by (simp add: s Log_def Let_def)
    then show ?thesis
      unfolding log_ok_def using ch fit c(2,4) u by (intro exI [of _ ?m] exI [of _ bs]) (simp add: b)
  next
    case True
    then have b: "b = 1" using rot by (simp add: s)
    let ?rl = "rl\<lparr>rl_currentSize := rl_currentSize rl + (json_len r + 1)\<rparr>"
    let ?n = "backups_kept rl"
    have n: "Suc i \<le> ?n" "1 \<le> ?n" using assms(4) b by (simp_all add: s)
    have k: "backups_kept ?rl = ?n" by (simp add: backups_kept_def)
    have L: "Log json_len r s = rotate_log (?rl, append_line ?l d)"
      using True by (simp add: s Log_def Let_def)
    obtain m' where m': "chain (snd (Log json_len r s)) m' (?m # take (?n - 1) bs @ drop ?n bs)" "lf_lines m' = []"
      using chain_rotate [OF ch refl, of ?rl] unfolding L k by blast
    have "\<forall>f\<in>set (m' # ?m # take (?n - 1) bs @ drop ?n bs). file_fits f"
      using c(2) fit m'(2) by (auto simp: file_fits_def lines_fit_def dest!: in_set_takeD in_set_dropD)
    with m' unread_rotate [OF u(2) n(1) m'(2) n(2)] u(1) c(4) show ?thesis
      unfolding log_ok_def by (intro exI [of _ m'] exI [of _ "?m # take (?n - 1) bs @ drop ?n bs"]) (simp add: b)
  qed
qed

definition logged :: "(request_record \<Rightarrow> nat) \<Rightarrow> request_record list \<Rightarrow> (nat \<times> line) list" where
  "logged json_len recs = List.map (\<lambda>r. (json_len r + 1, Row r)) recs"

lemma Logs_ok:
  "log_ok s c i ls \<Longrightarrow> \<forall>r\<in>set recs. json_len r + 1 \<le> max_line \<Longrightarrow>
   i + rotations json_len recs s \<le> backups_kept (fst s) \<Longrightarrow>
   log_ok (fold (Log json_len) recs s) c (i + rotations json_len recs s) (ls @ logged json_len recs)"
proof (induction recs arbitrary: s i ls)
  case (Cons r recs)
  define b :: nat where "b = (if rl_currentSize (fst s) + (json_len r + 1) \<ge> rl_maxSize (fst s) then 1 else 0)"
  have le: "i + b + rotations json_len recs (Log json_len r s) \<le> backups_kept (fst s)"
    using Cons.prems(3) by (simp add: b_def)
  have "json_len r + 1 \<le> max_line" "i + b \<le> backups_kept (fst s)"
    using Cons.prems(2) Cons.prems(3) by (simp_all add: b_def)
  note L = Log_ok [where json_len = json_len and r = r and b = b, OF Cons.prems(1) this(1) b_def this(2)]
  have "log_ok (fold (Log json_len) recs (Log json_len r s)) c (i + b + rotations json_len recs (Log json_len r s))
      ((ls @ [(json_len r + 1, Row r)]) @ logged json_len recs)"
    by (rule Cons.IH) (use L Cons.prems le in auto)
  then show ?case by (simp add: logged_def b_def add.assoc)
qed (simp add: logged_def)

lemma billable_logged: "billable_rows (logged json_len recs) = filter isBillable recs"
  by (induction recs) (simp_all add: logged_def)

lemma unread_fresh:
  assumes "\<forall>f\<in>set (m # bs). file_fits f"
  shows "points_at (m # bs) (cursor_at m (lf_size m) ts) 0" "unread (m # bs) 0 (lf_size m) = []"
  using assms from_offset_end [of "lf_lines m"]
  by (simp_all add: points_at_def cursor_at_def unread_def lf_size_def file_fits_def)

text \<open>
  C19: Exactly once. Let a cycle have committed the cursor at the end of the main file, the log consist of the main file and its
  backups, in files whose lines are at most 1 MiB long (\<open>max_line\<close>), and let rows of such lines be logged, rotating the log at most as often as
  backups are kept. Then the next
  \<open>Peek\<close>, which sees the directory as it is between two rows, returns exactly the billable records logged since, each once and in order,
  and its new cursor is again the end of the main file. A \<open>Peek\<close> in the middle of a rotation, when the main file is missing
  (\<open>window_rows_returned_twice\<close>), and a longer line (\<open>oversized_line_blocks_peek\<close>) are the exceptions.
\<close>

theorem peek_exactly_once:
  assumes "chain d m bs" "\<forall>f\<in>set (m # bs). file_fits f"
    and "c = cursor_at m (lf_size m) ts"
    and "\<forall>r\<in>set recs. json_len r + 1 \<le> max_line"
    and "rotations json_len recs (rl, d) \<le> backups_kept rl"
  shows "\<exists>m' bs' ts'. chain (snd (fold (Log json_len) recs (rl, d))) m' bs' \<and> (\<forall>f\<in>set (m' # bs'). file_fits f) \<and>
     Peek (Some c) (snd (fold (Log json_len) recs (rl, d)))
       = Inr (filter isBillable recs, c, cursor_at m' (lf_size m') ts')"
proof -
  have "log_ok (rl, d) c 0 []"
    using assms(1,2) unread_fresh [OF assms(2)] unfolding log_ok_def assms(3)
    by (intro exI [of _ m] exI [of _ bs]) (simp add: cursor_at_def)
  from Logs_ok [OF this assms(4)] assms(5) obtain m' bs' where
    l: "chain (snd (fold (Log json_len) recs (rl, d))) m' bs'" "\<forall>f\<in>set (m' # bs'). file_fits f"
    "points_at (m' # bs') c (rotations json_len recs (rl, d))"
    "unread (m' # bs') (rotations json_len recs (rl, d)) (cu_offset c) = logged json_len recs"
    by (auto simp: log_ok_def)
  obtain ts' where "Peek (Some c) (snd (fold (Log json_len) recs (rl, d))) =
      Inr (billable_rows (logged json_len recs), c, cursor_at m' (lf_size m') ts')"
    using Peek_chain [OF l(1-3)] l(4) by auto
  with l show ?thesis unfolding billable_logged by blast
qed

text \<open>A fresh installation: an empty log directory with a new main file.\<close>

definition empty_dir :: log_dir where "empty_dir = \<lparr>ld_files = [], ld_next = 1\<rparr>"

definition fresh_main :: logfile where "fresh_main = \<lparr>lf_ino = 1, lf_dev = 1, lf_lines = []\<rparr>"

lemma fresh_log:
  "snd (NewRequestLogger empty_dir) = \<lparr>ld_files = [(0, fresh_main)], ld_next = 2\<rparr>"
  "chain (snd (NewRequestLogger empty_dir)) fresh_main []"
  by (simp_all add: NewRequestLogger_def open_main_def empty_dir_def fresh_main_def chain_def Let_def)

theorem peek_exactly_once_witness:
  "\<exists>c'. Peek (Some (cursor_at fresh_main 0 0)) (snd (Log (\<lambda>r. 300) sample_record (NewRequestLogger empty_dir)))
     = Inr ([sample_record], cursor_at fresh_main 0 0, c')"
proof -
  obtain rl d where s: "NewRequestLogger empty_dir = (rl, d)" by (cases "NewRequestLogger empty_dir") auto
  have ch: "chain d fresh_main []" using fresh_log(2) s by simp
  have rl: "rl_currentSize rl = 0" "rl_maxSize rl = maxFileSize" "backups_kept rl = 10"
    using s by (auto simp: NewRequestLogger_def Let_def empty_dir_def open_main_def backups_kept_def
        defaultMaxBackups_def lf_size_def)
  have c: "cursor_at fresh_main 0 0 = cursor_at fresh_main (lf_size fresh_main) 0"
    by (simp add: fresh_main_def lf_size_def)
  have fits: "\<forall>f\<in>set [fresh_main]. file_fits f" by (simp add: file_fits_def lines_fit_def fresh_main_def)
  have sz: "\<forall>r\<in>set [sample_record]. (300::nat) + 1 \<le> max_line" by (simp add: max_line_def)
  have rot: "rotations (\<lambda>r. 300) [sample_record] (rl, d) \<le> backups_kept rl" by (simp add: rl)
  have bill: "isBillable sample_record" by (simp add: isBillable_def sample_record_def)
  from peek_exactly_once [where json_len = "\<lambda>r. 300", OF ch fits c sz rot] bill show ?thesis
    by (auto simp: s)
qed

section \<open>The window without a main file\<close>

text \<open>
  Between the rename and the re-opening of a rotation the main file is missing. A \<open>Peek\<close> in that
  window returns the tail of the file that was just renamed but leaves the cursor where it was,
  so after the cycle has settled those rows and committed that cursor, the next \<open>Peek\<close> returns
  the same rows again, and a second charge for them is built.
\<close>

theorem window_rows_returned_twice:
  assumes "file_at d 0 = None" "file_at d 1 = Some b" "file_fits b"
    and "lf_ino b = cu_ino c" "0 < cu_ino c" "cu_ino c < ld_next d"
  shows "\<exists>c'. Peek (Some c) d = Inr (billable_rows (from_offset (cu_offset c) (lf_lines b)), c, c) \<and>
     Peek (CommitCursor c (Some c)) (open_main d)
       = Inr (billable_rows (from_offset (cu_offset c) (lf_lines b)), c, c')"
proof -
  let ?m = "\<lparr>lf_ino = ld_next d, lf_dev = 1, lf_lines = []\<rparr>"
  let ?d = "open_main d"
  obtain ts where s: "scanFrom (Some b) (cu_offset c) =
      Some (billable_rows (from_offset (cu_offset c) (lf_lines b)), max (cu_offset c) (lf_size b), ts)"
    using scanFrom_rows [OF assms(3)] by blast
  have m: "file_at ?d 0 = Some ?m" and one: "file_at ?d 1 = Some b"
    using assms(1,2) by (simp_all add: open_main_def)
  have "find_backup ?d (cu_ino c) 1 = Some 1" using one assms(4) by (subst find_backup.simps) simp
  then obtain ts' where d: "drain_backups ?d c = Inr (billable_rows (from_offset (cu_offset c) (lf_lines b)), ts')"
    using one s assms(5) by (simp add: drain_backups_def)
  have e: "scanFrom (Some ?m) 0 = Some ([], 0, zero_time)" by (simp add: scanFrom_def lf_size_def)
  have "rotated ?m c" using assms(5,6) by (simp add: rotated_def)
  then have "\<exists>c'. Peek (Some c) ?d = Inr (billable_rows (from_offset (cu_offset c) (lf_lines b)), c, c')"
    using m d e by (simp add: Peek_def)
  moreover have "Peek (Some c) d = Inr (billable_rows (from_offset (cu_offset c) (lf_lines b)), c, c)"
    using assms(1,2) s by (simp add: Peek_def)
  ultimately show ?thesis by (simp add: CommitCursor_def)
qed

theorem window_rows_returned_twice_witness:
  "\<exists>d c c'. file_at d 0 = None \<and> Peek (Some c) d = Inr ([sample_record], c, c) \<and>
     Peek (CommitCursor c (Some c)) (open_main d) = Inr ([sample_record], c, c')"
proof -
  define b where "b = \<lparr>lf_ino = 1, lf_dev = 1, lf_lines = [(300, Row sample_record)]\<rparr>"
  define d where "d = \<lparr>ld_files = [(1, b)], ld_next = 2\<rparr>"
  define c where "c = cursor_at fresh_main 0 0"
  have f: "file_at d 0 = None" "file_at d 1 = Some b" "file_fits b" "lf_ino b = cu_ino c"
    "0 < cu_ino c" "cu_ino c < ld_next d"
    by (simp_all add: d_def b_def c_def cursor_at_def fresh_main_def file_fits_def lines_fit_def max_line_def)
  have "billable_rows (from_offset (cu_offset c) (lf_lines b)) = [sample_record]"
    by (simp add: b_def c_def cursor_at_def isBillable_def sample_record_def)
  with window_rows_returned_twice [OF f] f(1) show ?thesis by metis
qed

section \<open>A line the scan refuses\<close>

definition oversized :: "(nat \<times> line) list \<Rightarrow> bool" where
  "oversized ls \<longleftrightarrow> (\<exists>p\<in>set ls. max_line < fst p)"

lemma oversized_simps [simp]:
  "oversized [] = False" "oversized (p # ls) = (max_line < fst p \<or> oversized ls)"
  "oversized (ls @ ls') = (oversized ls \<or> oversized ls')"
  by (auto simp: oversized_def)

lemma scan_lines_None: "scan_lines ls recs ts = None \<longleftrightarrow> oversized ls"
  by (induction ls recs ts rule: scan_lines.induct) (auto split: line.splits)

lemma scanFrom_None: "scanFrom (Some f) off = None \<longleftrightarrow> oversized (from_offset off (lf_lines f))"
  using scan_lines_None [of "from_offset off (lf_lines f)" "[]" zero_time]
  by (auto simp: scanFrom_def split: option.split)

lemma drain_newer_None:
  "chain d m bs \<Longrightarrow> j \<le> length bs \<Longrightarrow>
   drain_newer d j recs ts = None \<longleftrightarrow> oversized (concat (List.map lf_lines (rev (take j bs))))"
proof (induction j arbitrary: recs ts)
  case (Suc j)
  then have f: "file_at d (Suc j) = Some (bs ! j)" by (simp add: chain_def)
  have r: "rev (take (Suc j) bs) = bs ! j # rev (take j bs)"
    using Suc.prems by (simp add: take_Suc_conv_app_nth)
  show ?case
    using Suc.IH [OF Suc.prems(1)] Suc.prems(2) scanFrom_None [of "bs ! j" 0]
    by (auto simp: f r split: option.split)
qed simp

lemma Peek_oversized:
  assumes c: "chain d m bs" and p: "points_at (m # bs) c i" and o: "oversized (unread (m # bs) i (cu_offset c))"
  shows "\<exists>e. Peek (Some c) d = Inl e"
proof (cases i)
  case 0
  then have "\<not> rotated m c" using p by (auto simp: points_at_def rotated_def)
  then show ?thesis
    using c o 0 scanFrom_None [of m "cu_offset c"] by (simp add: Peek_def chain_def unread_def)
next
  case (Suc j)
  have m: "file_at d 0 = Some m" using c by (simp add: chain_def)
  have j: "j < length bs" "cu_ino c = lf_ino (bs ! j)" using p Suc by (auto simp: points_at_def)
  then have f: "find_backup d (cu_ino c) 1 = Some (Suc j)" "file_at d (Suc j) = Some (bs ! j)"
    using find_backup_chain [OF c j, of 0] c by (simp_all add: chain_def)
  have ino: "cu_ino c \<noteq> 0" "rotated m c"
    using chain_inos(1,2) [OF c j(1)] j(2) by (auto simp: rotated_def)
  have o': "oversized (from_offset (cu_offset c) (lf_lines (bs ! j))) \<or>
      oversized (concat (List.map lf_lines (rev (take j bs)))) \<or> oversized (lf_lines m)"
    using o by (auto simp: unread_def Suc)
  show ?thesis
    using m f ino o' scanFrom_None [of "bs ! j" "cu_offset c"] scanFrom_None [of m 0]
      drain_newer_None [OF c, of j] j(1)
    by (auto simp: Peek_def drain_backups_def Let_def split: option.split)
qed

definition blocked :: "req_logger \<times> log_dir \<Rightarrow> cursor \<Rightarrow> nat \<Rightarrow> bool" where
  "blocked s c i \<longleftrightarrow> (\<exists>m bs. chain (snd s) m bs \<and> points_at (m # bs) c i \<and>
     oversized (unread (m # bs) i (cu_offset c)))"

lemma blocked_Log:
  assumes "blocked s c i"
    and "b = (if rl_currentSize (fst s) + (json_len r + 1) \<ge> rl_maxSize (fst s) then 1 else 0)"
    and "i + b \<le> backups_kept (fst s)"
  shows "blocked (Log json_len r s) c (i + b) \<and> backups_kept (fst (Log json_len r s)) = backups_kept (fst s)"
proof -
  obtain rl d where s: "s = (rl, d)" by (cases s)
  obtain m bs where c: "chain d m bs" "points_at (m # bs) c i" "oversized (unread (m # bs) i (cu_offset c))"
    using assms(1) by (auto simp: blocked_def s)
  let ?l = "(json_len r + 1, Row r)"
  let ?m = "m\<lparr>lf_lines := lf_lines m @ [?l]\<rparr>"
  let ?rl = "rl\<lparr>rl_currentSize := rl_currentSize rl + (json_len r + 1)\<rparr>"
  have ch: "chain (append_line ?l d) ?m bs" by (rule chain_append [OF c(1)])
  note u = unread_append [OF c(2), of ?l]
  have k: "backups_kept (fst (Log json_len r s)) = backups_kept (fst s)"
    by (simp add: s Log_def Let_def rotate_log_def backups_kept_def split: prod.split)
  show ?thesis
  proof (cases "rl_currentSize rl + (json_len r + 1) \<ge> rl_maxSize rl")
    case False
    then have "b = 0" "Log json_len r s = (?rl, append_line ?l d)"
      using assms(2) by (simp_all add: s Log_def Let_def)
    then show ?thesis using ch u c(3) k unfolding blocked_def
      by (intro conjI exI [of _ ?m] exI [of _ bs]) simp_all
  next
    case True
    then have b: "b = 1" and L: "Log json_len r s = rotate_log (?rl, append_line ?l d)"
      using assms(2) by (simp_all add: s Log_def Let_def)
    let ?n = "backups_kept rl"
    have n: "Suc i \<le> ?n" "1 \<le> ?n" "backups_kept ?rl = ?n"
      using assms(3) b by (simp_all add: s backups_kept_def)
    obtain m' where m': "chain (snd (Log json_len r s)) m' (?m # take (?n - 1) bs @ drop ?n bs)" "lf_lines m' = []"
      using chain_rotate [OF ch refl, of ?rl] unfolding L n(3) by blast
    show ?thesis
      using m' unread_rotate [OF u(2) n(1) m'(2) n(2)] u(1) c(3) k unfolding blocked_def b
      by (intro conjI exI [of _ m'] exI [of _ "?m # take (?n - 1) bs @ drop ?n bs"]) simp_all
  qed
qed

text \<open>
  One line longer than the scan's buffer behind the cursor stops settlement: \<open>Peek\<close> fails then and
  after everything logged later, as long as the file with the line is among the kept backups.
\<close>

theorem oversized_line_blocks_peek:
  assumes "chain d m bs" "points_at (m # bs) c i" "oversized (unread (m # bs) i (cu_offset c))"
    and "i + rotations json_len recs (rl, d) \<le> backups_kept rl"
  shows "\<exists>e. Peek (Some c) (snd (fold (Log json_len) recs (rl, d))) = Inl e"
proof -
  have "blocked (fold (Log json_len) recs s) c (i + rotations json_len recs s)"
    if "blocked s c i" "i + rotations json_len recs s \<le> backups_kept (fst s)" for s
    using that
  proof (induction recs arbitrary: s i)
    case (Cons r recs)
    define b :: nat where "b = (if rl_currentSize (fst s) + (json_len r + 1) \<ge> rl_maxSize (fst s) then 1 else 0)"
    have le: "i + b + rotations json_len recs (Log json_len r s) \<le> backups_kept (fst s)"
      using Cons.prems(2) by (simp add: b_def)
    have "blocked (Log json_len r s) c (i + b)" "backups_kept (fst (Log json_len r s)) = backups_kept (fst s)"
      using blocked_Log [where json_len = json_len and r = r and b = b, OF Cons.prems(1) b_def] le by simp_all
    with Cons.IH [of "Log json_len r s" "i + b"] le show ?case by (simp add: b_def add.assoc)
  qed simp
  from this [of "(rl, d)"] assms show ?thesis
    by (auto simp: blocked_def intro: Peek_oversized)
qed

theorem oversized_line_blocks_peek_witness:
  "\<exists>e. Peek (Some (cursor_at fresh_main 0 0))
      (append_line (2 * max_line, Malformed) (snd (NewRequestLogger empty_dir))) = Inl e"
proof -
  let ?l = "(2 * max_line, Malformed)"
  let ?d = "append_line ?l (snd (NewRequestLogger empty_dir))"
  let ?m = "fresh_main\<lparr>lf_lines := lf_lines fresh_main @ [?l]\<rparr>"
  let ?c = "cursor_at fresh_main 0 0"
  have ch: "chain ?d ?m []" by (rule chain_append [OF fresh_log(2)])
  have p: "points_at [?m] ?c 0" by (simp add: points_at_def cursor_at_def fresh_main_def)
  have o: "oversized (unread [?m] 0 (cu_offset ?c))"
    by (simp add: unread_def cursor_at_def fresh_main_def max_line_def)
  from oversized_line_blocks_peek [OF ch p o, of "\<lambda>r. 0" "[]"] show ?thesis by simp
qed

end
