(* ===== verification/Balance.thy ===== *)
theory Balance
  imports Aggregator
begin

text \<open>
  The credit gate (\<open>settlement/balance.go\<close>): cached on-chain balances, the unsettled spending of
  every wallet, the spendable credit, and suspension for unpaid debt. The shared price oracle is
  an argument of the operations that read it. The mutex makes every operation atomic, so an
  operation is a function on the cache. The contract's balance reads are parameters.
\<close>

section \<open>State\<close>

record balance_cache =
  chainBalances :: "string \<rightharpoonup> token_balances"
  pendingSpend :: "(string \<times> bigfloat) list"
  bc_tokens :: "token_config list"
  bc_wallets :: "string list"
  minBalanceFIL :: "bigfloat option"
  maxPendingSpendFIL :: "bigfloat option"
  suspendThreshold :: "bigfloat option"
  suspended :: "(string \<times> bigfloat) list"

definition NewBalanceCache :: "token_config list \<Rightarrow> balance_cache" where
  "NewBalanceCache tokens =
     \<lparr>chainBalances = Map.empty, pendingSpend = [], bc_tokens = tokens, bc_wallets = [],
      minBalanceFIL = None, maxPendingSpendFIL = None, suspendThreshold = None, suspended = []\<rparr>"

definition SetCreditLimits :: "bigfloat option \<Rightarrow> bigfloat option \<Rightarrow> balance_cache \<Rightarrow> balance_cache" where
  "SetCreditLimits lo hi bc = bc\<lparr>minBalanceFIL := lo, maxPendingSpendFIL := hi\<rparr>"

definition SetWallets :: "string list \<Rightarrow> balance_cache \<Rightarrow> balance_cache" where
  "SetWallets ws bc = bc\<lparr>bc_wallets := ws\<rparr>"

section \<open>Suspension\<close>

definition SetDebtSuspension :: "bigfloat option \<Rightarrow> balance_cache \<Rightarrow> balance_cache" where
  "SetDebtSuspension t bc = bc\<lparr>suspendThreshold := t\<rparr>"

definition UpdateDebts :: "(string \<times> bigfloat option) list \<Rightarrow> balance_cache \<Rightarrow> balance_cache \<times> nat" where
  "UpdateDebts debtByWallet bc =
     (case suspendThreshold bc of
        None \<Rightarrow> (bc\<lparr>suspended := []\<rparr>, 0)
      | Some threshold \<Rightarrow>
          let s = fold (\<lambda>(wallet, debt) s.
                     case debt of
                       None \<Rightarrow> s
                     | Some d \<Rightarrow> if bf_sign d \<le> 0 then s
                                 else if bf_cmp d threshold \<ge> 0 then aput wallet d s else s)
                   debtByWallet []
          in (bc\<lparr>suspended := s\<rparr>, length s))"

definition IsSuspended :: "balance_cache \<Rightarrow> string \<Rightarrow> bigfloat option" where
  "IsSuspended bc wallet = alookup (suspended bc) wallet"

definition SuspendedCount :: "balance_cache \<Rightarrow> nat" where
  "SuspendedCount bc = length (suspended bc)"

section \<open>Spendable credit\<close>

definition token_credit :: "pricer \<Rightarrow> token_balances \<Rightarrow> token_config \<Rightarrow> bigfloat \<Rightarrow> bigfloat" where
  "token_credit p bals tok acc =
     (case bals (tok_address tok) of
        None \<Rightarrow> acc
      | Some balance \<Rightarrow>
          if balance \<le> 0 then acc
          else let balFloat = weiToFloat balance (tok_decimals tok)
               in if tok_symbol tok = ''FIL'' then bf_acc acc (bf_mul balFloat (GetFILPriceUSD p))
                  else if IsStablecoinDepegged p (tok_symbol tok) then acc
                  else bf_acc acc (bf_mul balFloat (StablecoinPriceUSD p (tok_symbol tok))))"

definition grossUSD :: "balance_cache \<Rightarrow> pricer \<Rightarrow> string \<Rightarrow> bigfloat" where
  "grossUSD bc p wallet =
     (case chainBalances bc wallet of
        None \<Rightarrow> bf_zero
      | Some bals \<Rightarrow> fold (token_credit p bals) (bc_tokens bc) bf_zero)"

definition availableUSD :: "balance_cache \<Rightarrow> pricer \<Rightarrow> string \<Rightarrow> bigfloat" where
  "availableUSD bc p wallet =
     (let amt = grossUSD bc p wallet;
          amt = (case alookup (pendingSpend bc) wallet of Some pending \<Rightarrow> bf_dec amt pending | None \<Rightarrow> amt)
      in case minBalanceFIL bc of
           Some m \<Rightarrow> if bf_sign m > 0 then bf_dec amt (bf_mul m (GetFILPriceUSD p)) else amt
         | None \<Rightarrow> amt)"

definition HasSufficientBalance :: "balance_cache \<Rightarrow> pricer \<Rightarrow> string \<Rightarrow> bigfloat \<Rightarrow> bool" where
  "HasSufficientBalance bc p wallet est \<longleftrightarrow> bf_cmp (availableUSD bc p wallet) est \<ge> 0"

section \<open>Unsettled spending\<close>

definition pending_of :: "balance_cache \<Rightarrow> string \<Rightarrow> bigfloat" where
  "pending_of bc wallet = (case alookup (pendingSpend bc) wallet of Some u \<Rightarrow> u | None \<Rightarrow> bf_zero)"

definition GetPendingSpend :: "balance_cache \<Rightarrow> string \<Rightarrow> bigfloat" where
  "GetPendingSpend bc wallet = pending_of bc wallet"

definition TotalPendingSpendUSD :: "balance_cache \<Rightarrow> bigfloat" where
  "TotalPendingSpendUSD bc = fold (\<lambda>(w, ps) acc. bf_acc acc ps) (pendingSpend bc) bf_zero"

definition over_cap :: "balance_cache \<Rightarrow> pricer \<Rightarrow> bigfloat \<Rightarrow> bool" where
  "over_cap bc p newPending \<longleftrightarrow>
     (case maxPendingSpendFIL bc of
        None \<Rightarrow> False
      | Some m \<Rightarrow> bf_sign m > 0 \<and> bf_cmp newPending (bf_mul m (GetFILPriceUSD p)) > 0)"

definition Reserve :: "pricer \<Rightarrow> string \<Rightarrow> bigfloat \<Rightarrow> balance_cache \<Rightarrow> bool \<times> balance_cache" where
  "Reserve p wallet est bc =
     (if bf_cmp (availableUSD bc p wallet) est < 0 then (False, bc)
      else let newPending = bf_add (pending_of bc wallet) est
           in if over_cap bc p newPending then (False, bc)
              else (True, bc\<lparr>pendingSpend := aput wallet newPending (pendingSpend bc)\<rparr>))"

definition Adjust :: "string \<Rightarrow> bigfloat \<Rightarrow> bigfloat \<Rightarrow> balance_cache \<Rightarrow> balance_cache" where
  "Adjust wallet estimated actual bc =
     (let diff = bf_sub estimated actual
      in case alookup (pendingSpend bc) wallet of
           None \<Rightarrow> bc
         | Some pending \<Rightarrow>
             let new = bf_sub pending diff;
                 new' = (if bf_sign new < 0 then bf_zero else new)
             in bc\<lparr>pendingSpend := aput wallet new' (pendingSpend bc)\<rparr>)"

text \<open>\<open>1e-12\<close> as a \<open>float64\<close>.\<close>

definition float64_1e_12 :: bigfloat where "float64_1e_12 = bf_ratio 53 1 (10 ^ 12)"

definition SettleSpend :: "string \<Rightarrow> bigfloat \<Rightarrow> balance_cache \<Rightarrow> balance_cache" where
  "SettleSpend wallet settledUSD bc =
     (case alookup (pendingSpend bc) wallet of
        None \<Rightarrow> bc
      | Some pending \<Rightarrow>
          let remaining = bf_sub pending settledUSD
          in if bf_sign remaining \<le> 0 \<or> bf_cmp remaining float64_1e_12 < 0
             then bc\<lparr>pendingSpend := adel wallet (pendingSpend bc)\<rparr>
             else bc\<lparr>pendingSpend := aput wallet remaining (pendingSpend bc)\<rparr>)"

definition AddPendingSpend :: "string \<Rightarrow> bigfloat option \<Rightarrow> balance_cache \<Rightarrow> balance_cache" where
  "AddPendingSpend wallet usd bc =
     (case usd of
        None \<Rightarrow> bc
      | Some u \<Rightarrow> if bf_sign u \<le> 0 then bc
                 else bc\<lparr>pendingSpend := aput wallet (bf_add (pending_of bc wallet) u) (pendingSpend bc)\<rparr>)"

definition RestorePendingSpend ::
  "request_record list \<Rightarrow> (request_record \<Rightarrow> bigfloat) \<Rightarrow> balance_cache \<Rightarrow> balance_cache" where
  "RestorePendingSpend records costFn bc =
     fold (\<lambda>rec bc.
        let cost = costFn rec
        in if bf_sign cost \<le> 0 then bc
           else bc\<lparr>pendingSpend := aput (rr_wallet rec) (bf_add (pending_of bc (rr_wallet rec)) cost)
                     (pendingSpend bc)\<rparr>) records bc"

section \<open>Balance refresh\<close>

text \<open>
  \<open>get\<close> and \<open>confirm\<close> are what the contract answers to the first and to the second read of a
  (user, token) pair; \<open>None\<close> is a failed read.
\<close>

type_synonym balance_reads = "string \<Rightarrow> string \<Rightarrow> int option"

definition read_token :: "int option \<Rightarrow> int option \<Rightarrow> int option \<Rightarrow> int option" where
  "read_token prev r1 r2 =
     (case r1 of
        None \<Rightarrow> prev
      | Some balance \<Rightarrow>
          (case prev of
             Some b \<Rightarrow>
               if b > 0 \<and> balance = 0
               then (case r2 of
                       None \<Rightarrow> prev
                     | Some c \<Rightarrow> if c \<noteq> 0 then Some c else Some balance)
               else Some balance
           | None \<Rightarrow> Some balance))"

definition refresh_token ::
  "(string \<Rightarrow> string) \<Rightarrow> balance_reads \<Rightarrow> balance_reads \<Rightarrow> string \<Rightarrow> token_config \<Rightarrow> token_balances \<Rightarrow> token_balances" where
  "refresh_token hexa get confirm wallet tok bals =
     bals(tok_address tok := read_token (bals (tok_address tok))
            (get (hexa wallet) (hexa (tok_address tok))) (confirm (hexa wallet) (hexa (tok_address tok))))"

definition refreshWallet ::
  "(string \<Rightarrow> string) \<Rightarrow> balance_reads \<Rightarrow> balance_reads \<Rightarrow> string \<Rightarrow> balance_cache \<Rightarrow> balance_cache" where
  "refreshWallet hexa get confirm wallet bc =
     (let start = (case chainBalances bc wallet of Some b \<Rightarrow> b | None \<Rightarrow> Map.empty);
          bals = fold (refresh_token hexa get confirm wallet) (bc_tokens bc) start
      in bc\<lparr>chainBalances := (chainBalances bc)(wallet \<mapsto> bals)\<rparr>)"

definition refreshAll ::
  "(string \<Rightarrow> string) \<Rightarrow> balance_reads \<Rightarrow> balance_reads \<Rightarrow> balance_cache \<Rightarrow> balance_cache" where
  "refreshAll hexa get confirm bc = fold (refreshWallet hexa get confirm) (bc_wallets bc) bc"

text \<open>
  \<open>same\<close> is \<open>strings.EqualFold\<close>; the background refresh that follows a genuine add is a separate
  \<open>refreshWallet\<close> step.
\<close>

definition ForceRefresh ::
  "(string \<Rightarrow> string) \<Rightarrow> balance_reads \<Rightarrow> balance_reads \<Rightarrow> balance_cache \<Rightarrow> balance_cache" where
  "ForceRefresh hexa get confirm bc = refreshAll hexa get confirm bc"

definition WalletCount :: "balance_cache \<Rightarrow> nat" where
  "WalletCount bc = length (bc_wallets bc)"

definition AvailableUSDView :: "balance_cache \<Rightarrow> pricer \<Rightarrow> string \<Rightarrow> bigfloat" where
  "AvailableUSDView bc p wallet = availableUSD bc p wallet"

text \<open>On a missing cache or one without a price oracle the rate is \<open>nil\<close>.\<close>

definition FILPriceUSD :: "balance_cache option \<Rightarrow> pricer option \<Rightarrow> bigfloat option" where
  "FILPriceUSD bc p = (case bc of None \<Rightarrow> None | Some _ \<Rightarrow> map_option GetFILPriceUSD p)"

definition AddWallet :: "(string \<Rightarrow> string \<Rightarrow> bool) \<Rightarrow> string \<Rightarrow> balance_cache \<Rightarrow> balance_cache" where
  "AddWallet same wallet bc =
     (if wallet = '''' \<or> list_ex (\<lambda>w. same w wallet) (bc_wallets bc) then bc
      else bc\<lparr>bc_wallets := bc_wallets bc @ [wallet]\<rparr>)"

definition GetAllBalances :: "balance_cache \<Rightarrow> string \<Rightarrow> token_balances" where
  "GetAllBalances bc wallet = (case chainBalances bc wallet of Some b \<Rightarrow> b | None \<Rightarrow> Map.empty)"

definition TokenBalancesView :: "balance_cache \<Rightarrow> string \<Rightarrow> (string \<times> bigfloat) list" where
  "TokenBalancesView bc wallet =
     (case chainBalances bc wallet of
        None \<Rightarrow> []
      | Some bals \<Rightarrow>
          fold (\<lambda>tok out. case bals (tok_address tok) of
                   Some b \<Rightarrow> if b > 0 then aput (tok_symbol tok) (weiToFloat b (tok_decimals tok)) out else out
                 | None \<Rightarrow> out) (bc_tokens bc) [])"

section \<open>The ledger invariant\<close>

definition ledger_ok :: "balance_cache \<Rightarrow> bool" where
  "ledger_ok bc \<longleftrightarrow> distinct (akeys (pendingSpend bc)) \<and>
     (\<forall>w u. alookup (pendingSpend bc) w = Some u \<longrightarrow> bf_ok u \<and> 0 \<le> bf_val u)"

text \<open>Everything that can happen to the cache: the gateway's reservations and corrections, the
  settler's clearing and re-reservations, the refresh loop and the start-up configuration.\<close>

inductive ledger_step :: "balance_cache \<Rightarrow> balance_cache \<Rightarrow> bool" where
  reserve: "bf_ok est \<Longrightarrow> 0 \<le> bf_val est \<Longrightarrow> Reserve p w est bc = (ok, bc') \<Longrightarrow> ledger_step bc bc'"
| adjust: "bf_ok est \<Longrightarrow> bf_ok act \<Longrightarrow> ledger_step bc (Adjust w est act bc)"
| settle: "bf_ok u \<Longrightarrow> ledger_step bc (SettleSpend w u bc)"
| add: "(\<And>v. u = Some v \<Longrightarrow> bf_ok v) \<Longrightarrow> ledger_step bc (AddPendingSpend w u bc)"
| restore: "(\<And>r. bf_ok (cost r)) \<Longrightarrow> ledger_step bc (RestorePendingSpend recs cost bc)"
| refresh: "ledger_step bc (refreshWallet hexa get confirm w bc)"
| track: "ledger_step bc (AddWallet same w bc)"
| wallets: "ledger_step bc (SetWallets ws bc)"
| limits: "ledger_step bc (SetCreditLimits lo hi bc)"
| threshold: "ledger_step bc (SetDebtSuspension t bc)"
| debts: "ledger_step bc (fst (UpdateDebts ds bc))"

inductive_cases ledger_stepE: "ledger_step bc bc'"

lemma pending_frame [ledger_simps]:
  "pendingSpend (refreshWallet hexa get confirm w bc) = pendingSpend bc"
  "pendingSpend (AddWallet same w bc) = pendingSpend bc"
  "pendingSpend (SetWallets ws bc) = pendingSpend bc"
  "pendingSpend (SetCreditLimits lo hi bc) = pendingSpend bc"
  "pendingSpend (SetDebtSuspension t bc) = pendingSpend bc"
  "pendingSpend (fst (UpdateDebts ds bc)) = pendingSpend bc"
  by (simp_all add: refreshWallet_def AddWallet_def SetWallets_def SetCreditLimits_def
      SetDebtSuspension_def UpdateDebts_def Let_def split: option.split)

lemma ledger_ok_frame [ledger_simps]:
  "ledger_ok (refreshWallet hexa get confirm w bc) = ledger_ok bc"
  "ledger_ok (AddWallet same w bc) = ledger_ok bc"
  "ledger_ok (SetWallets ws bc) = ledger_ok bc"
  "ledger_ok (SetCreditLimits lo hi bc) = ledger_ok bc"
  "ledger_ok (SetDebtSuspension t bc) = ledger_ok bc"
  "ledger_ok (fst (UpdateDebts ds bc)) = ledger_ok bc"
  by (simp_all only: ledger_ok_def pending_frame)

lemma ledger_ok_new: "ledger_ok (NewBalanceCache toks)"
  by (simp add: ledger_ok_def NewBalanceCache_def)

lemma pending_of_ok: "ledger_ok bc \<Longrightarrow> bf_ok (pending_of bc w) \<and> 0 \<le> bf_val (pending_of bc w)"
  by (auto simp: pending_of_def ledger_ok_def bf_simps split: option.splits)

lemma ledger_ok_put:
  "ledger_ok bc \<Longrightarrow> bf_ok u \<Longrightarrow> 0 \<le> bf_val u \<Longrightarrow>
   ledger_ok (bc\<lparr>pendingSpend := aput w u (pendingSpend bc)\<rparr>)"
  by (simp add: ledger_ok_def)

lemma bf_add_nonneg:
  "bf_ok x \<Longrightarrow> bf_ok y \<Longrightarrow> 0 \<le> bf_val x \<Longrightarrow> 0 \<le> bf_val y \<Longrightarrow> 0 \<le> bf_val (bf_add x y)"
  using bf_addp_sgn [of x y 0] by (metis add_nonneg_nonneg sgn_0 sgn_less not_le)

lemma ledger_ok_add:
  "ledger_ok bc \<Longrightarrow> bf_ok u \<Longrightarrow> 0 \<le> bf_val u \<Longrightarrow>
   ledger_ok (bc\<lparr>pendingSpend := aput w (bf_add (pending_of bc w) u) (pendingSpend bc)\<rparr>)"
  using pending_of_ok [of bc w] by (intro ledger_ok_put bf_add_nonneg) simp_all

lemma ledger_ok_Adjust: "ledger_ok bc \<Longrightarrow> bf_ok est \<Longrightarrow> bf_ok act \<Longrightarrow> ledger_ok (Adjust w est act bc)"
proof (cases "alookup (pendingSpend bc) w")
  case (Some u)
  assume ok: "ledger_ok bc" "bf_ok est" "bf_ok act"
  with Some have "bf_ok u" by (auto simp: ledger_ok_def)
  with ok Some show ?thesis
    by (simp add: Adjust_def Let_def ledger_ok_put bf_sign_cases not_less bf_simps)
qed (simp add: Adjust_def)

lemma ledger_ok_Settle: "ledger_ok bc \<Longrightarrow> bf_ok u \<Longrightarrow> ledger_ok (SettleSpend w u bc)"
proof (cases "alookup (pendingSpend bc) w")
  case (Some v)
  assume ok: "ledger_ok bc" "bf_ok u"
  with Some have v: "bf_ok v" by (auto simp: ledger_ok_def)
  have "ledger_ok (bc\<lparr>pendingSpend := adel w (pendingSpend bc)\<rparr>)"
    using ok(1) by (simp add: ledger_ok_def)
  with ok Some v show ?thesis
    by (auto simp: SettleSpend_def Let_def ledger_ok_put bf_sign_cases)
qed (simp add: SettleSpend_def)

lemma ledger_ok_Restore:
  assumes "ledger_ok bc" "\<And>r. bf_ok (cost r)"
  shows "ledger_ok (RestorePendingSpend recs cost bc)"
  unfolding RestorePendingSpend_def
  using assms(1)
proof (rule fold_invariant [where I = ledger_ok])
  fix r bc assume "ledger_ok bc"
  then show "ledger_ok (let c = cost r in if bf_sign c \<le> 0 then bc
      else bc\<lparr>pendingSpend := aput (rr_wallet r) (bf_add (pending_of bc (rr_wallet r)) c) (pendingSpend bc)\<rparr>)"
    using ledger_ok_add [of bc "cost r" "rr_wallet r"] assms(2) [of r]
    by (auto simp: Let_def bf_sign_cases)
qed

lemma ledger_ok_step: "ledger_step bc bc' \<Longrightarrow> ledger_ok bc \<Longrightarrow> ledger_ok bc'"
proof (induction rule: ledger_step.induct)
  case (reserve est p w bc ok bc')
  then show ?case
    by (auto simp: Reserve_def Let_def intro: ledger_ok_add split: if_splits)
next
  case (add u bc w)
  then show ?case
    by (auto simp: AddPendingSpend_def bf_sign_cases intro: ledger_ok_add split: option.splits)
qed (simp_all add: ledger_ok_Adjust ledger_ok_Settle ledger_ok_Restore ledger_simps)

text \<open>
  C21: Unsettled spending is never negative. Whatever sequence of reservations of non-negative estimates, corrections, settlements, restores, refreshes and
  changes of settings happens after start-up, the unsettled spending of every wallet is never negative (a negative tally would be
  spendable credit out of nothing). A negative estimate can arise from a \<open>max_tokens\<close> that wraps, and is the exception
  (\<open>reservation_can_wrap\<close>).
\<close>

theorem pending_never_negative:
  assumes "ledger_step\<^sup>*\<^sup>* (NewBalanceCache toks) bc"
  shows "0 \<le> bf_val (GetPendingSpend bc wallet)"
proof -
  from assms have "ledger_ok bc"
    by (induction rule: rtranclp_induct) (auto intro: ledger_ok_step ledger_ok_new)
  then show ?thesis using pending_of_ok by (simp add: GetPendingSpend_def)
qed

theorem pending_never_negative_witness:
  "0 \<le> bf_val (GetPendingSpend (Adjust ''0xu'' (float64_of_int 5) (float64_of_int 9)
     (AddPendingSpend ''0xu'' (Some (float64_of_int 3)) (NewBalanceCache []))) ''0xu'')"
proof (rule pending_never_negative [where toks = "[]"])
  let ?bc = "AddPendingSpend ''0xu'' (Some (float64_of_int 3)) (NewBalanceCache [])"
  have "ledger_step (NewBalanceCache []) ?bc" by (rule ledger_step.add) simp
  moreover have "ledger_step ?bc (Adjust ''0xu'' (float64_of_int 5) (float64_of_int 9) ?bc)"
    by (rule ledger_step.adjust) simp_all
  ultimately show "ledger_step\<^sup>*\<^sup>* (NewBalanceCache [])
      (Adjust ''0xu'' (float64_of_int 5) (float64_of_int 9) ?bc)"
    by (meson rtranclp.rtrancl_into_rtrancl r_into_rtranclp)
qed

section \<open>Reservation\<close>

text \<open>
  A reservation succeeds exactly when the spendable credit covers the estimate and the new
  unsettled total stays within the cap. On success the total grows by the estimate and nothing
  else changes; on refusal nothing changes at all.
\<close>

theorem Reserve_spec:
  "Reserve p wallet est bc =
     (if bf_val est \<le> bf_val (availableUSD bc p wallet) \<and>
         (case maxPendingSpendFIL bc of
            None \<Rightarrow> True
          | Some m \<Rightarrow> bf_val m \<le> 0 \<or>
              bf_val (bf_add (GetPendingSpend bc wallet) est) \<le> bf_val (bf_mul m (GetFILPriceUSD p)))
      then (True, bc\<lparr>pendingSpend := aput wallet (bf_add (GetPendingSpend bc wallet) est) (pendingSpend bc)\<rparr>)
      else (False, bc))"
proof -
  have "over_cap bc p u = (\<not>
     (case maxPendingSpendFIL bc of
        None \<Rightarrow> True
      | Some m \<Rightarrow> bf_val m \<le> 0 \<or> bf_val u \<le> bf_val (bf_mul m (GetFILPriceUSD p))))" for u
    by (cases "maxPendingSpendFIL bc") (auto simp: over_cap_def bf_sign_cases bf_cmp_cases not_le not_less)
  then show ?thesis
    unfolding Reserve_def Let_def GetPendingSpend_def by (simp add: bf_cmp_cases not_less)
qed

section \<open>The life of one request's credit\<close>

lemma sub_error:
  assumes "53 \<le> fprec x \<or> 53 \<le> fprec y"
  shows "\<bar>bf_val (bf_sub x y) - (bf_val x - bf_val y)\<bar> \<le> \<bar>bf_val x - bf_val y\<bar> / 2 ^ 53"
proof -
  have p: "53 \<le> res_prec 0 x (bf_neg y)" using assms by (auto simp: res_prec_def)
  have "near (res_prec 0 x (bf_neg y)) (bf_val (bf_sub x y)) (bf_val x - bf_val y)"
    using bf_addp_near [of 0 x "bf_neg y"] p by (simp add: bf_subp_def bf_simps)
  from relerr_near_ge [OF this p] show ?thesis by (simp add: relerr_def)
qed

lemma add_error:
  assumes "53 \<le> fprec x \<or> 53 \<le> fprec y"
  shows "\<bar>bf_val (bf_add x y) - (bf_val x + bf_val y)\<bar> \<le> \<bar>bf_val x + bf_val y\<bar> / 2 ^ 53"
proof -
  have p: "53 \<le> res_prec 0 x y" using assms by (auto simp: res_prec_def)
  have "near (res_prec 0 x y) (bf_val (bf_add x y)) (bf_val x + bf_val y)"
    using bf_addp_near [of 0 x y] p by simp
  from relerr_near_ge [OF this p] show ?thesis by (simp add: relerr_def)
qed

lemma lifecycle_arith:
  fixes p0 e c p1 d p2 p3 u :: rat
  assumes nn: "0 \<le> p0" "0 \<le> e" "0 \<le> c" and u: "0 \<le> u" "u \<le> 1 / 16"
    and 1: "\<bar>p1 - (p0 + e)\<bar> \<le> \<bar>p0 + e\<bar> * u" and 2: "\<bar>d - (e - c)\<bar> \<le> \<bar>e - c\<bar> * u"
    and 3: "\<bar>p2 - (p1 - d)\<bar> \<le> \<bar>p1 - d\<bar> * u" and 4: "\<bar>p3 - (max 0 p2 - c)\<bar> \<le> \<bar>max 0 p2 - c\<bar> * u"
  shows "\<bar>p3 - p0\<bar> \<le> 6 * u * (p0 + e + c)"
proof -
  define S where "S = p0 + e + c"
  have S: "0 \<le> S" using nn by (simp add: S_def)
  have le: "x * u \<le> y * u" if "x \<le> y" for x y :: rat using that u(1) by (rule mult_right_mono)
  have Su: "0 \<le> S * u" "S * u \<le> S / 16" using S u mult_left_mono [OF u(2) S] by simp_all
  have a: "\<bar>p1 - (p0 + e)\<bar> \<le> S * u" using 1 le [of "\<bar>p0 + e\<bar>" S] nn by (simp add: S_def)
  have b: "\<bar>d - (e - c)\<bar> \<le> S * u" using 2 le [of "\<bar>e - c\<bar>" S] nn by (simp add: S_def abs_le_iff)
  have ab: "\<bar>(p1 - d) - (p0 + c)\<bar> \<le> 2 * (S * u)" using a b by linarith
  then have "\<bar>p1 - d\<bar> \<le> 2 * S" using Su nn by (simp add: S_def)
  from le [OF this] 3 have "\<bar>p2 - (p1 - d)\<bar> \<le> 2 * (S * u)" by (simp add: mult.assoc)
  with ab have "\<bar>p2 - (p0 + c)\<bar> \<le> 4 * (S * u)" by linarith
  then have m: "\<bar>max 0 p2 - (p0 + c)\<bar> \<le> 4 * (S * u)" using nn by (auto simp: max_def abs_le_iff)
  then have "\<bar>max 0 p2 - c\<bar> \<le> 2 * S" using Su nn by (simp add: S_def)
  from le [OF this] 4 have "\<bar>p3 - (max 0 p2 - c)\<bar> \<le> 2 * (S * u)" by (simp add: mult.assoc)
  with m have "\<bar>p3 - p0\<bar> \<le> 6 * (S * u)" by linarith
  then show ?thesis by (simp add: S_def mult_ac)
qed

lemma tiny_val: "bf_val float64_1e_12 \<le> 2 / 10 ^ 12"
proof -
  have "relerr (1 / 2 ^ 53) (bf_val float64_1e_12) (1 / 10 ^ 12)"
    using bf_ratio_error [of 53 "10 ^ 12" 1] by (intro relerr_near) (simp add: near_def float64_1e_12_def)
  from relerr_bounds(2) [OF this] show ?thesis by simp
qed

text \<open>
  The life of a request's credit. Reserving an estimate, correcting it to the actual cost when the
  response is complete and clearing that cost when it has settled leaves the wallet's unsettled
  total where it was, up to the rounding of four float operations and the threshold of
  \<open>1e-12\<close> USD below which an entry is dropped.
\<close>

theorem request_credit_lifecycle:
  assumes "ledger_step\<^sup>*\<^sup>* (NewBalanceCache toks) bc"
    and "53 \<le> fprec est" "0 \<le> bf_val est" "53 \<le> fprec actual" "0 \<le> bf_val actual"
    and "Reserve p wallet est bc = (True, bc1)"
  shows "\<bar>bf_val (GetPendingSpend (SettleSpend wallet actual (Adjust wallet est actual bc1)) wallet)
           - bf_val (GetPendingSpend bc wallet)\<bar>
         \<le> (bf_val (GetPendingSpend bc wallet) + bf_val est + bf_val actual) / 2 ^ 50 + 2 / 10 ^ 12"
proof -
  have ok: "ledger_ok bc"
    using assms(1) by (induction rule: rtranclp_induct) (auto intro: ledger_ok_step ledger_ok_new)
  define p0 where "p0 = GetPendingSpend bc wallet"
  define p1 where "p1 = bf_add p0 est"
  define d where "d = bf_sub est actual"
  define p2 where "p2 = bf_sub p1 d"
  define p2' where "p2' = (if bf_sign p2 < 0 then bf_zero else p2)"
  define p3 where "p3 = bf_sub p2' actual"
  define final where "final = GetPendingSpend (SettleSpend wallet actual (Adjust wallet est actual bc1)) wallet"
  have p0: "0 \<le> bf_val p0" using pending_of_ok [OF ok] by (simp add: p0_def GetPendingSpend_def)
  have bc1: "bc1 = bc\<lparr>pendingSpend := aput wallet p1 (pendingSpend bc)\<rparr>"
    using assms(6) by (simp add: Reserve_spec p1_def p0_def split: if_splits)
  have bc2: "Adjust wallet est actual bc1 =
      bc\<lparr>pendingSpend := aput wallet p2' (aput wallet p1 (pendingSpend bc))\<rparr>"
    by (simp add: bc1 Adjust_def Let_def d_def p2_def p2'_def)
  have fin: "final = (if bf_sign p3 \<le> 0 \<or> bf_cmp p3 float64_1e_12 < 0 then bf_zero else p3)"
    by (simp add: final_def bc2 SettleSpend_def GetPendingSpend_def pending_of_def Let_def p3_def [symmetric])
  have fp: "53 \<le> fprec p1" "53 \<le> fprec d"
    using assms(2,4) by (simp_all add: p1_def d_def res_prec_def)
  have m: "bf_val p2' = max 0 (bf_val p2)"
    by (simp add: p2'_def bf_sign_cases bf_simps)
  have "\<bar>bf_val p3 - bf_val p0\<bar> \<le> 6 * (1 / 2 ^ 53) * (bf_val p0 + bf_val est + bf_val actual)"
  proof (rule lifecycle_arith [where d = "bf_val d" and ?p1.0 = "bf_val p1" and ?p2.0 = "bf_val p2"])
    show "\<bar>bf_val p1 - (bf_val p0 + bf_val est)\<bar> \<le> \<bar>bf_val p0 + bf_val est\<bar> * (1 / 2 ^ 53)"
      unfolding p1_def using add_error [of p0 est] assms(2) by simp
    show "\<bar>bf_val d - (bf_val est - bf_val actual)\<bar> \<le> \<bar>bf_val est - bf_val actual\<bar> * (1 / 2 ^ 53)"
      unfolding d_def using sub_error [of est actual] assms(2) by simp
    show "\<bar>bf_val p2 - (bf_val p1 - bf_val d)\<bar> \<le> \<bar>bf_val p1 - bf_val d\<bar> * (1 / 2 ^ 53)"
      unfolding p2_def using sub_error [of p1 d] fp by simp
    show "\<bar>bf_val p3 - (max 0 (bf_val p2) - bf_val actual)\<bar>
        \<le> \<bar>max 0 (bf_val p2) - bf_val actual\<bar> * (1 / 2 ^ 53)"
      unfolding p3_def m [symmetric] using sub_error [of p2' actual] assms(4) by simp
  qed (use p0 assms in simp_all)
  moreover have "\<bar>bf_val final - bf_val p0\<bar> \<le> \<bar>bf_val p3 - bf_val p0\<bar> + 2 / 10 ^ 12"
    using p0 tiny_val by (auto simp: fin bf_sign_cases bf_cmp_cases bf_simps)
  moreover have "6 * (1 / 2 ^ 53) * (bf_val p0 + bf_val est + bf_val actual)
      \<le> (bf_val p0 + bf_val est + bf_val actual) / 2 ^ 50" using p0 assms by simp
  ultimately show ?thesis unfolding final_def p0_def by linarith
qed

theorem request_credit_lifecycle_witness:
  "\<exists>bc1. Reserve (NewPricer sample_config) ''0xu'' (float64_of_int 0) (NewBalanceCache []) = (True, bc1) \<and>
     bf_val (GetPendingSpend (SettleSpend ''0xu'' (float64_of_int 5) (Adjust ''0xu'' (float64_of_int 0) (float64_of_int 5) bc1)) ''0xu'')
       \<le> 5 / 2 ^ 50 + 2 / 10 ^ 12"
proof -
  let ?bc = "NewBalanceCache []" and ?p = "NewPricer sample_config"
  obtain bc1 where r: "Reserve ?p ''0xu'' (float64_of_int 0) ?bc = (True, bc1)"
    by (simp add: Reserve_spec NewBalanceCache_def availableUSD_def grossUSD_def bf_val_float64_of_int bf_simps)
  have z: "bf_val (GetPendingSpend ?bc ''0xu'') = 0"
    by (simp add: GetPendingSpend_def pending_of_def NewBalanceCache_def bf_simps)
  have "\<bar>bf_val (GetPendingSpend (SettleSpend ''0xu'' (float64_of_int 5) (Adjust ''0xu'' (float64_of_int 0) (float64_of_int 5) bc1)) ''0xu'')
      - bf_val (GetPendingSpend ?bc ''0xu'')\<bar>
    \<le> (bf_val (GetPendingSpend ?bc ''0xu'') + bf_val (float64_of_int 0) + bf_val (float64_of_int 5)) / 2 ^ 50 + 2 / 10 ^ 12"
    by (rule request_credit_lifecycle [where toks = "[]", OF _ _ _ _ _ r]) (simp_all add: bf_val_float64_of_int)
  with r z show ?thesis by (auto simp: bf_val_float64_of_int)
qed

section \<open>Refreshing balances\<close>

lemma read_token_idem:
  "(\<And>c. r2 = Some c \<Longrightarrow> 0 \<le> c) \<Longrightarrow> read_token (read_token prev r1 r2) r1 r2 = read_token prev r1 r2"
  by (cases prev; cases r1; cases r2) (auto simp: read_token_def)

lemma refresh_tokens_at:
  assumes "\<And>v t c. confirm v t = Some c \<Longrightarrow> 0 \<le> c"
  shows "fold (refresh_token hexa get confirm w) toks bals t =
     (if t \<in> tok_address ` set toks then read_token (bals t) (get (hexa w) (hexa t)) (confirm (hexa w) (hexa t))
      else bals t)"
  by (induction toks arbitrary: bals) (auto simp: refresh_token_def read_token_idem assms)

text \<open>
  A balance refresh never loses money it has not been told about twice. A failed read keeps
  the last known balance; a cached positive balance becomes zero only when two reads in a row
  answered zero; every other successful read is taken over. Balances of other tokens and of other
  wallets, and all pending spending, are untouched. (The contract's balances are not negative.)
\<close>

theorem refresh_keeps_last_known:
  assumes "\<And>v t c. confirm v t = Some c \<Longrightarrow> 0 \<le> c"
  shows "let r1 = get (hexa wallet) (hexa t); r2 = confirm (hexa wallet) (hexa t);
       old = GetAllBalances bc wallet t; new = GetAllBalances (refreshWallet hexa get confirm wallet bc) wallet t
   in (t \<notin> tok_address ` set (bc_tokens bc) \<or> r1 = None \<longrightarrow> new = old) \<and>
      (\<forall>b. old = Some b \<longrightarrow> 0 < b \<longrightarrow> new = Some 0 \<longrightarrow> r1 = Some 0 \<and> r2 = Some 0) \<and>
      (\<forall>b. t \<in> tok_address ` set (bc_tokens bc) \<longrightarrow> r1 = Some b \<longrightarrow> b \<noteq> 0 \<longrightarrow> new = Some b) \<and>
      (\<forall>v. v \<noteq> wallet \<longrightarrow>
         GetAllBalances (refreshWallet hexa get confirm wallet bc) v = GetAllBalances bc v) \<and>
      pendingSpend (refreshWallet hexa get confirm wallet bc) = pendingSpend bc"
proof -
  let ?start = "case chainBalances bc wallet of Some b \<Rightarrow> b | None \<Rightarrow> Map.empty"
  have new: "GetAllBalances (refreshWallet hexa get confirm wallet bc) wallet t =
      fold (refresh_token hexa get confirm wallet) (bc_tokens bc) ?start t"
    by (simp add: GetAllBalances_def refreshWallet_def Let_def)
  have old: "GetAllBalances bc wallet t = ?start t" by (simp add: GetAllBalances_def)
  have other: "GetAllBalances (refreshWallet hexa get confirm wallet bc) v = GetAllBalances bc v"
    if "v \<noteq> wallet" for v
    using that by (simp add: GetAllBalances_def refreshWallet_def Let_def)
  have at: "GetAllBalances (refreshWallet hexa get confirm wallet bc) wallet t =
      (if t \<in> tok_address ` set (bc_tokens bc)
       then read_token (GetAllBalances bc wallet t) (get (hexa wallet) (hexa t)) (confirm (hexa wallet) (hexa t))
       else GetAllBalances bc wallet t)"
    unfolding new old by (rule refresh_tokens_at [OF assms])
  show ?thesis
    unfolding Let_def at
    using other by (auto simp: read_token_def ledger_simps split: option.splits if_splits)
qed

theorem refresh_keeps_last_known_witness:
  "let bc = (NewBalanceCache (cfg_SupportedTokens sample_config))
        \<lparr>chainBalances := [''0xu'' \<mapsto> [''0x0'' \<mapsto> 7]]\<rparr>
   in GetAllBalances (refreshWallet (\<lambda>s. s) (\<lambda>w t. None) (\<lambda>w t. None) ''0xu'' bc) ''0xu'' ''0x0'' = Some 7"
  using refresh_keeps_last_known [where get = "\<lambda>w t. None" and confirm = "\<lambda>w t. None" and hexa = "\<lambda>s. s"
      and wallet = "''0xu''" and t = "''0x0''" and bc = "(NewBalanceCache (cfg_SupportedTokens sample_config))
        \<lparr>chainBalances := [''0xu'' \<mapsto> [''0x0'' \<mapsto> 7]]\<rparr>"]
  by (simp add: Let_def GetAllBalances_def)

section \<open>Suspension\<close>

lemma suspended_fold:
  "distinct (akeys ds) \<Longrightarrow>
   alookup (fold (\<lambda>(wallet, debt) s. case debt of None \<Rightarrow> s
       | Some d \<Rightarrow> if bf_sign d \<le> 0 then s else if bf_cmp d thr \<ge> 0 then aput wallet d s else s) ds s0) w =
     (case alookup ds w of
        Some (Some d) \<Rightarrow> if 0 < bf_sign d \<and> bf_cmp d thr \<ge> 0 then Some d else alookup s0 w
      | _ \<Rightarrow> alookup s0 w)"
proof (induction ds arbitrary: s0)
  case (Cons p ds)
  obtain v o' where p: "p = (v, o')" by (cases p)
  from Cons.prems have "distinct (akeys ds)" "alookup ds v = None"
    by (simp_all add: p alookup_None_iff)
  with Cons.IH show ?case
    by (cases o'; cases "w = v") (auto simp: p not_le split: option.split)
qed simp

text \<open>
  Suspension follows the debt ledger exactly. After an update, a wallet is suspended, with its
  current debt, exactly when a threshold is set and the wallet's debt is positive and at least the
  threshold; so a collected debt lifts the suspension and no threshold means no suspension.
\<close>

theorem suspension_follows_debts:
  assumes "distinct (akeys ds)"
  shows "IsSuspended (fst (UpdateDebts ds bc)) wallet = Some d \<longleftrightarrow>
     alookup ds wallet = Some (Some d) \<and> 0 < bf_val d \<and>
     (\<exists>thr. suspendThreshold bc = Some thr \<and> bf_val thr \<le> bf_val d)"
proof (cases "suspendThreshold bc")
  case (Some thr)
  then show ?thesis
    using suspended_fold [OF assms, of thr "[]" wallet]
    by (auto simp: IsSuspended_def UpdateDebts_def Let_def bf_sign_cases bf_cmp_cases
        split: option.splits if_splits)
qed (simp add: IsSuspended_def UpdateDebts_def)

theorem suspension_follows_debts_witness:
  "IsSuspended (fst (UpdateDebts [(''0xu'', Some (float64_of_int 5))]
      (SetDebtSuspension (Some (float64_of_int 3)) (NewBalanceCache [])))) ''0xu'' = Some (float64_of_int 5)"
  by (subst suspension_follows_debts)
    (simp_all add: SetDebtSuspension_def bf_val_float64_of_int)

section \<open>The gate and the settlement value a balance alike\<close>

definition token_worth :: "aggregator \<Rightarrow> bigfloat \<Rightarrow> token_balances \<Rightarrow> string \<Rightarrow> rat" where
  "token_worth a fil w s =
     (case findToken a s of None \<Rightarrow> 0
      | Some tok \<Rightarrow>
          (case w (tok_address tok) of None \<Rightarrow> 0
           | Some b \<Rightarrow> if b \<le> 0 \<or> depegged a s then 0 else bf_val (usd_value a fil s tok b)))"

lemma token_worth_usable:
  "usable a w s tok b \<Longrightarrow> token_worth a fil w s = bf_val (usd_value a fil s tok b)"
  "(\<And>tok b. \<not> usable a w s tok b) \<Longrightarrow> token_worth a fil w s = 0"
  by (auto simp: token_worth_def usable_def not_le split: option.splits)

lemma token_worth_nonneg:
  assumes "prices_usable a fil" shows "0 \<le> token_worth a fil w s"
proof -
  have "0 \<le> bf_val (usd_value a fil s tok b)" if "0 \<le> b" for tok b
    using relerr_nonneg [OF usd_value_error [OF assms, of s tok b]] unit_usd_pos [OF assms, of s tok] that
    by simp
  then show ?thesis by (simp add: token_worth_def split: option.split)
qed

definition addresses_differ :: "aggregator \<Rightarrow> string list \<Rightarrow> bool" where
  "addresses_differ a syms \<longleftrightarrow> distinct syms \<and>
     (\<forall>s\<in>set syms. \<forall>s'\<in>set syms. \<forall>t t'. findToken a s = Some t \<longrightarrow> findToken a s' = Some t' \<longrightarrow>
        tok_address t = tok_address t' \<longrightarrow> s = s')"

text \<open>An allocation that leaves a positive rest has drained every usable token of the order.\<close>

lemma alloc_drains_all:
  "alloc hexa a key toks ids fil syms rem w its r w' \<Longrightarrow> 0 < bf_sign r \<Longrightarrow> addresses_differ a syms \<Longrightarrow>
   usd_sum its = (\<Sum>s\<leftarrow>syms. token_worth a fil w s)"
proof (induction rule: alloc.induct)
  case (skip rem w s rest its r w')
  then show ?case
    by (auto simp: addresses_differ_def token_worth_usable(2))
next
  case (drain rem w s tok b rest its r w')
  have ad: "addresses_differ a rest" using drain.prems(2) by (auto simp: addresses_differ_def)
  have "token_worth a fil (w(tok_address tok \<mapsto> 0)) s' = token_worth a fil w s'" if "s' \<in> set rest" for s'
    using drain.prems(2) drain.hyps(2) that
    by (fastforce simp: addresses_differ_def usable_def token_worth_def split: option.split)
  then have "(\<Sum>s'\<leftarrow>rest. token_worth a fil (w(tok_address tok \<mapsto> 0)) s') = (\<Sum>s'\<leftarrow>rest. token_worth a fil w s')"
    by (intro arg_cong [where f = sum_list] map_cong) auto
  with drain.IH [OF drain.prems(1) ad]
  have "usd_sum its = (\<Sum>s'\<leftarrow>rest. token_worth a fil w s')" by (rule trans)
  then show ?case
    using token_worth_usable(1) [OF drain.hyps(2)] by (simp add: usd_sum_def)
next
  case (paid rem syms w)
  then show ?case by (simp add: bf_sign_cases)
qed (simp_all add: usd_sum_def bf_sign_cases bf_simps)

lemma token_credit_usd:
  assumes "agg_pricer a = Some p"
  shows "token_credit p w tok acc =
     (case w (tok_address tok) of None \<Rightarrow> acc
      | Some b \<Rightarrow> if b \<le> 0 \<or> depegged a (tok_symbol tok) then acc
                 else bf_acc acc (usd_value a (GetFILPriceUSD p) (tok_symbol tok) tok b))"
  by (simp add: token_credit_def usd_value_def token_price_def depegged_def assms Let_def split: option.split)

lemma usd_value_prec:
  "prices_usable a fil \<Longrightarrow> 53 \<le> fprec (usd_value a fil s tok n)"
  using token_price_ok [of a fil s] by (auto simp: usd_value_def res_prec_def)

lemma acc_upper:
  assumes "53 \<le> fprec x" "53 \<le> fprec acc \<or> acc = bf_zero" "0 \<le> bf_val acc" "0 \<le> bf_val x"
  shows "bf_val (bf_acc acc x) \<le> (bf_val acc + bf_val x) * (1 + 1 / 2 ^ 53)" "53 \<le> fprec (bf_acc acc x)"
    "0 \<le> bf_val (bf_acc acc x)"
proof -
  have p: "53 \<le> res_prec (fprec acc) acc x"
    using assms(1,2) by (auto simp: res_prec_def bf_zero_def)
  have n: "near (res_prec (fprec acc) acc x) (bf_val (bf_acc acc x)) (bf_val acc + bf_val x)"
    using bf_addp_near [of "fprec acc" acc x] p by (simp add: bf_acc_def)
  have r: "relerr (1 / 2 ^ 53) (bf_val (bf_acc acc x)) (bf_val acc + bf_val x)"
    by (rule relerr_near_ge [OF n p])
  have v: "0 \<le> bf_val acc + bf_val x" using assms by simp
  show "bf_val (bf_acc acc x) \<le> (bf_val acc + bf_val x) * (1 + 1 / 2 ^ 53)"
    by (rule relerr_bounds(2) [OF r v])
  show "53 \<le> fprec (bf_acc acc x)" using p by (simp add: bf_acc_def)
  show "0 \<le> bf_val (bf_acc acc x)" using relerr_nonneg [OF r v] by simp
qed

lemma growth_1: "1 + growth (Suc k) = (1 + 1 / 2 ^ 53) * (1 + growth k)"
  by (simp add: growth_def)

lemma gross_upper:
  assumes a: "agg_pricer a = Some p" and ok: "prices_usable a (GetFILPriceUSD p)"
    and f: "\<And>tok. tok \<in> set toks \<Longrightarrow> findToken a (tok_symbol tok) = Some tok"
    and acc: "53 \<le> fprec acc \<or> acc = bf_zero" "0 \<le> bf_val acc"
  shows "bf_val (fold (token_credit p w) toks acc)
     \<le> (bf_val acc + (\<Sum>tok\<leftarrow>toks. token_worth a (GetFILPriceUSD p) w (tok_symbol tok))) * (1 + growth (length toks))"
  using f acc
proof (induction toks arbitrary: acc)
  case (Cons tok toks)
  let ?W = "\<Sum>tok\<leftarrow>toks. token_worth a (GetFILPriceUSD p) w (tok_symbol tok)"
  let ?x = "token_worth a (GetFILPriceUSD p) w (tok_symbol tok)"
  let ?acc = "token_credit p w tok acc"
  have W: "0 \<le> ?W" by (induction toks) (auto simp: token_worth_nonneg [OF ok])
  have x: "0 \<le> ?x" by (rule token_worth_nonneg [OF ok])
  have "(?acc = acc \<and> ?x = 0) \<or> (\<exists>v. ?acc = bf_acc acc v \<and> ?x = bf_val v \<and> 53 \<le> fprec v)"
    using Cons.prems(1) usd_value_prec [OF ok]
    by (auto simp: token_credit_usd [OF a] token_worth_def split: option.split)
  then have step: "bf_val ?acc \<le> (bf_val acc + ?x) * (1 + 1 / 2 ^ 53)" "53 \<le> fprec ?acc \<or> ?acc = bf_zero"
    "0 \<le> bf_val ?acc"
    using acc_upper [of _ acc] Cons.prems(2,3) x by auto
  have "bf_val (fold (token_credit p w) toks ?acc) \<le> (bf_val ?acc + ?W) * (1 + growth (length toks))"
    using Cons.IH [OF _ step(2,3)] Cons.prems(1) by simp
  also have "\<dots> \<le> (bf_val acc + ?x + ?W) * (1 + 1 / 2 ^ 53) * (1 + growth (length toks))"
  proof (rule mult_right_mono)
    have "?W \<le> ?W * (1 + 1 / 2 ^ 53)" using W by simp
    with step(1) show "bf_val ?acc + ?W \<le> (bf_val acc + ?x + ?W) * (1 + 1 / 2 ^ 53)"
      by (simp add: distrib_right)
  qed (simp add: add_nonneg_nonneg)
  also have "\<dots> = (bf_val acc + ?x + ?W) * (1 + growth (length (tok # toks)))"
    by (simp only: growth_1 length_Cons mult.assoc)
  finally show ?case by (simp add: add.assoc)
qed (simp add: growth_def)

lemma findToken_distinct:
  "distinct (List.map tok_symbol (agg_tokens a)) \<Longrightarrow> tok \<in> set (agg_tokens a) \<Longrightarrow>
   findToken a (tok_symbol tok) = Some tok"
proof -
  have "distinct (List.map tok_symbol ts) \<Longrightarrow> tok \<in> set ts \<Longrightarrow> find (\<lambda>t. tok_symbol t = tok_symbol tok) ts = Some tok"
    for ts by (induction ts) (auto simp: rev_image_eqI)
  then show "distinct (List.map tok_symbol (agg_tokens a)) \<Longrightarrow> tok \<in> set (agg_tokens a) \<Longrightarrow> ?thesis"
    by (simp add: findToken_def)
qed

lemma findToken_in: "findToken a s = Some t \<Longrightarrow> t \<in> set (agg_tokens a) \<and> tok_symbol t = s"
  by (auto simp: findToken_def find_Some_iff)

definition gate_matches :: "balance_cache \<Rightarrow> pricer \<Rightarrow> aggregator \<Rightarrow> bool" where
  "gate_matches bc p a \<longleftrightarrow>
     agg_pricer a = Some p \<and> prices_ok p \<and> agg_tokens a = bc_tokens bc \<and>
     distinct (List.map tok_symbol (bc_tokens bc)) \<and> distinct (List.map tok_address (bc_tokens bc)) \<and>
     distinct (agg_deductPriority a) \<and> tok_symbol ` set (bc_tokens bc) \<subseteq> set (agg_deductPriority a)"

lemma gate_matches_differ: "gate_matches bc p a \<Longrightarrow> addresses_differ a (agg_deductPriority a)"
proof -
  assume g: "gate_matches bc p a"
  then have inj: "inj_on tok_address (set (agg_tokens a))" by (simp add: gate_matches_def distinct_map)
  have "s = s'" if "findToken a s = Some t" "findToken a s' = Some t'" "tok_address t = tok_address t'"
    for s s' t t'
    using inj_onD [OF inj that(3)] findToken_in [OF that(1)] findToken_in [OF that(2)] by auto
  with g show ?thesis unfolding addresses_differ_def gate_matches_def by blast
qed

lemma gate_matches_prices: "gate_matches bc p a \<Longrightarrow> prices_usable a (GetFILPriceUSD p)"
  by (simp add: gate_matches_def prices_usable_def prices_ok_def GetFILPriceUSD_def)

lemma gate_worth:
  assumes "gate_matches bc p a"
  shows "bf_val (grossUSD bc p wallet)
     \<le> (\<Sum>s\<leftarrow>agg_deductPriority a. token_worth a (GetFILPriceUSD p) (GetAllBalances bc wallet) s)
        * (1 + growth (length (bc_tokens bc)))"
proof -
  let ?f = "token_worth a (GetFILPriceUSD p) (GetAllBalances bc wallet)"
  note g = assms [unfolded gate_matches_def]
  note ok = gate_matches_prices [OF assms]
  have nn: "0 \<le> ?f s" for s by (rule token_worth_nonneg [OF ok])
  have "grossUSD bc p wallet = fold (token_credit p (GetAllBalances bc wallet)) (bc_tokens bc) bf_zero"
  proof (cases "chainBalances bc wallet")
    case None
    have "fold (token_credit p Map.empty) ts bf_zero = bf_zero" for ts
      by (induction ts) (simp_all add: token_credit_def)
    with None show ?thesis by (simp add: grossUSD_def GetAllBalances_def)
  qed (simp add: grossUSD_def GetAllBalances_def)
  then have "bf_val (grossUSD bc p wallet)
      \<le> (bf_val bf_zero + (\<Sum>tok\<leftarrow>bc_tokens bc. ?f (tok_symbol tok))) * (1 + growth (length (bc_tokens bc)))"
    using g findToken_distinct [of a] by (simp only:) (rule gross_upper [OF _ ok], auto simp: bf_simps)
  also have "(\<Sum>tok\<leftarrow>bc_tokens bc. ?f (tok_symbol tok)) = (\<Sum>s\<in>tok_symbol ` set (bc_tokens bc). ?f s)"
    using g sum_list_distinct_conv_sum_set [of "List.map tok_symbol (bc_tokens bc)" ?f] by (simp add: o_def)
  also have "bf_val bf_zero + \<dots> \<le> (\<Sum>s\<in>set (agg_deductPriority a). ?f s)"
    using g nn by (simp add: bf_simps) (intro sum_mono2, auto)
  also have "\<dots> = (\<Sum>s\<leftarrow>agg_deductPriority a. ?f s)"
    using g sum_list_distinct_conv_sum_set [of "agg_deductPriority a" ?f] by simp
  finally show ?thesis by (simp add: mult_right_mono add_nonneg_nonneg)
qed


lemma sample_gate: "gate_matches (NewBalanceCache (cfg_SupportedTokens sample_config)) (NewPricer sample_config) sample_agg"
  by (simp add: gate_matches_def sample_agg_def prices_ok_new NewBalanceCache_def NewAggregator_def
      sample_config_def zero_config_def ApplyDefaults_def if_unset_def Let_def split: prod.split)


text \<open>
  What the validation leaves open: a supported token that the deduction order does not name is
  spendable credit (the gate adds its full value) but is never collected, so a wallet that holds
  only this token runs up its whole usage as carried debt.
\<close>

theorem unlisted_token_is_uncollectable_credit:
  assumes "tok_symbol tok \<notin> set (agg_deductPriority a)" "GetAllBalances bc wallet = [tok_address tok \<mapsto> b]"
    and "0 < b" "agg_pricer a = Some p" "\<not> depegged a (tok_symbol tok)" "bc_tokens bc = [tok]"
    and "agg_tokens a = bc_tokens bc"
  shows "fst (allocate hexa a key e (GetFILPriceUSD p) (GetAllBalances bc wallet)) = [] \<and>
    fst (snd (allocate hexa a key e (GetFILPriceUSD p) (GetAllBalances bc wallet))) = ce_usd e \<and>
    grossUSD bc p wallet = bf_acc bf_zero (usd_value a (GetFILPriceUSD p) (tok_symbol tok) tok b)"
proof -
  let ?w = "GetAllBalances bc wallet"
  have "findToken a s = None" if "s \<in> set (agg_deductPriority a)" for s
    using that assms(1,6,7) by (auto simp: findToken_def)
  moreover have "(\<And>s. s \<in> set syms \<Longrightarrow> findToken a s = None) \<Longrightarrow>
      allocate_loop hexa a key toks ids fil syms rem ?w items = (items, rem, ?w)"
    for toks ids fil syms rem items
    by (induction syms) auto
  ultimately have "allocate hexa a key e (GetFILPriceUSD p) ?w = ([], ce_usd e, ?w)"
    by (simp add: allocate_def)
  moreover have "grossUSD bc p wallet = token_credit p ?w tok bf_zero"
    using fun_cong [OF assms(2), of "tok_address tok"] assms(6)
    by (cases "chainBalances bc wallet") (auto simp: grossUSD_def GetAllBalances_def)
  ultimately show ?thesis
    using assms(2,3,5) by (simp add: token_credit_usd [OF assms(4)])
qed

theorem unlisted_token_is_uncollectable_credit_witness:
  "let tok = \<lparr>tok_symbol = ''USDT'', tok_address = ''0xT'', tok_decimals = 6\<rparr>;
       a = sample_agg\<lparr>agg_tokens := [tok]\<rparr>;
       bc = (NewBalanceCache [tok])\<lparr>chainBalances := [''0xu'' \<mapsto> [''0xT'' \<mapsto> 1000000]]\<rparr>
   in fst (allocate (\<lambda>s. s) a (''0xu'', ''0xsp'') new_entry (GetFILPriceUSD (NewPricer sample_config))
        (GetAllBalances bc ''0xu'')) = []"
proof -
  let ?tok = "\<lparr>tok_symbol = ''USDT'', tok_address = ''0xT'', tok_decimals = 6\<rparr>"
  let ?a = "sample_agg\<lparr>agg_tokens := [?tok]\<rparr>"
  let ?bc = "(NewBalanceCache [?tok])\<lparr>chainBalances := [''0xu'' \<mapsto> [''0xT'' \<mapsto> 1000000]]\<rparr>"
  have "tok_symbol ?tok \<notin> set (agg_deductPriority ?a)"
    by (simp add: sample_agg_def NewAggregator_def sample_config_def zero_config_def ApplyDefaults_def
        if_unset_def split: prod.split)
  moreover have "\<not> depegged ?a (tok_symbol ?tok)"
    by (simp add: depegged_def sample_agg_def IsStablecoinDepegged_def NewPricer_def Let_def)
  ultimately show ?thesis
    using unlisted_token_is_uncollectable_credit [where tok = ?tok and a = ?a and bc = ?bc and wallet = "''0xu''"
        and b = 1000000 and p = "NewPricer sample_config" and hexa = "\<lambda>s. s" and key = "(''0xu'', ''0xsp'')"
        and e = new_entry]
    by (simp add: Let_def GetAllBalances_def NewBalanceCache_def sample_agg_def)
qed

section \<open>The pricing interface\<close>

text \<open>
  What the restart path and the reconciliation need of a pricing function: a cost is a
  well-formed float. They are handed the aggregator's \<open>RecordCostUSD\<close>.
\<close>

locale billing_cost =
  fixes cost :: "request_record \<Rightarrow> bigfloat"
  assumes cost_ok: "bf_ok (cost r)"
begin

lemma restore_keeps_ledger: "ledger_ok bc \<Longrightarrow> ledger_ok (RestorePendingSpend recs cost bc)"
  by (rule ledger_ok_Restore [OF _ cost_ok])

lemma restore_is_step: "ledger_step bc (RestorePendingSpend recs cost bc)"
  by (rule ledger_step.restore) (rule cost_ok)

lemma restored_entry:
  assumes "0 < bf_sign (cost r)"
  shows "GetPendingSpend (RestorePendingSpend [r] cost bc) (rr_wallet r)
    = bf_add (GetPendingSpend bc (rr_wallet r)) (cost r)"
  using assms by (simp add: RestorePendingSpend_def GetPendingSpend_def Let_def) (simp add: pending_of_def)

end

lemma parse_rates_prec: "parse_rates rates x = Some p \<Longrightarrow> fprec p = 128"
proof -
  have "\<forall>x p. parse_rates rates x = Some p \<longrightarrow> fprec p = 128"
    unfolding parse_rates_def
  proof (rule fold_invariant [where I = "\<lambda>m. \<forall>x p. m x = Some p \<longrightarrow> fprec p = 128"])
    fix r :: "string \<times> usd_text" and m :: "string \<rightharpoonup> bigfloat" assume m: "\<forall>x p. m x = Some p \<longrightarrow> fprec (p :: bigfloat) = 128"
    obtain y s where r: "r = (y, s)" by (cases r)
    show "\<forall>x p. (\<lambda>(model, s) prices. case parsePerToken s of None \<Rightarrow> prices
        | Some p \<Rightarrow> prices(model \<mapsto> p)) r m x = Some p \<longrightarrow> fprec p = 128"
      using m parsePerToken_prec [of s] by (cases "parsePerToken s") (simp_all add: r)
  qed simp
  then show "parse_rates rates x = Some p \<Longrightarrow> fprec p = 128" by blast
qed

lemma recordCost_ok: "bf_ok (recordCostUSD (NewAggregator cfg ws) r)"
proof -
  have *: "lookupPrice (parse_rates rates) m = Some p \<Longrightarrow> bf_ok p" for rates m p
    by (auto simp: lookupPrice_def bf_ok_def dest: parse_rates_prec split: option.splits)
  show ?thesis
    by (auto simp: recordCostUSD_def CostBreakdownUSD_def NewAggregator_def ParseCatalogPrices_def Let_def
        dest!: * split: option.splits)
qed

interpretation settle_cost: billing_cost "recordCostUSD (NewAggregator cfg ws)" for cfg ws
  by unfold_locales (rule recordCost_ok)

end
