(* ===== verification/Wal.thy ===== *)
theory Wal
  imports Merkle Scanner Balance
begin

text \<open>
  The settlement plan that is frozen before anything is sent to the chain
  (\<open>settlement/settler.go\<close>: \<open>splitBatches\<close>, \<open>buildPending\<close>, \<open>toBatch\<close>, \<open>reverseFailedItems\<close> and the
  persisted forms of amounts, hashes and debts). Writing a plan as JSON and reading it back is the
  identity on these records. An address is its checksummed hexadecimal text; \<open>hexa\<close> is
  \<open>common.HexToAddress\<close> followed by \<open>Hex\<close>.
\<close>

section \<open>Texts of amounts and hashes\<close>

definition Text18 :: "bigfloat \<Rightarrow> usd_text" where
  "Text18 x = DecText (text_dec 18 x) 18"

definition hex_encode :: "string \<Rightarrow> string" where
  "hex_encode s = concat (List.map (\<lambda>c. [hex_digit (of_char c div 16), hex_digit (of_char c mod 16)]) s)"

definition unhex :: "char \<Rightarrow> nat option" where
  "unhex c =
     (let n = of_char c :: nat
      in if 48 \<le> n \<and> n \<le> 57 then Some (n - 48)
         else if 97 \<le> n \<and> n \<le> 102 then Some (n - 87)
         else if 65 \<le> n \<and> n \<le> 70 then Some (n - 55)
         else None)"

fun hex_decode :: "string \<Rightarrow> string option" where
  "hex_decode [] = Some []"
| "hex_decode [c] = None"
| "hex_decode (c # d # s) =
     (case (unhex c, unhex d) of
        (Some a, Some b) \<Rightarrow> map_option (Cons (char_of (a * 16 + b))) (hex_decode s)
      | _ \<Rightarrow> None)"

definition hexToHash32 :: "string \<Rightarrow> digest option" where
  "hexToHash32 s =
     (case hex_decode s of None \<Rightarrow> None | Some b \<Rightarrow> if length b \<noteq> 32 then None else Some b)"

lemma unhex_digit: "n < 16 \<Longrightarrow> unhex (hex_digit n) = Some n"
  by (auto simp: unhex_def hex_digit_def Let_def)

lemma hex_roundtrip [simp]: "hex_decode (hex_encode s) = Some s"
proof (induction s)
  case (Cons c s)
  have "(of_char c :: nat) < 256" by (metis of_char_mod_256 mod_less_divisor zero_less_numeral)
  then have "(of_char c :: nat) div 16 < 16" by (simp add: less_mult_imp_div_less)
  with Cons show ?case by (simp add: hex_encode_def unhex_digit)
qed (simp add: hex_encode_def)

lemma hexToHash32_encode: "length h = 32 \<Longrightarrow> hexToHash32 (hex_encode h) = Some h"
  by (simp add: hexToHash32_def)

section \<open>Debts and settled amounts as persisted\<close>

record debt_record =
  dr_wallet :: string
  dr_spEVM :: string
  dr_usd :: usd_text
  dr_ids :: "string list"

definition carriedDebtsToRecords :: "carried_debt list \<Rightarrow> debt_record list" where
  "carriedDebtsToRecords ds =
     List.map (\<lambda>d. \<lparr>dr_wallet = cd_wallet d, dr_spEVM = cd_spEVM d,
                dr_usd = (case cd_usd d of Some u \<Rightarrow> Text18 u | None \<Rightarrow> DecText 0 0),
                dr_ids = cd_ids d\<rparr>) ds"

definition floatMapToStrings :: "(string \<times> bigfloat) list \<Rightarrow> (string \<times> usd_text) list" where
  "floatMapToStrings m = List.map (\<lambda>(k, v). (k, Text18 v)) m"

definition decode_debt :: "debt_record \<Rightarrow> carried_debt option" where
  "decode_debt r =
     (case ParseFloat (dr_usd r) of
        None \<Rightarrow> None
      | Some usd \<Rightarrow>
          if bf_sign usd \<le> 0 then None
          else Some \<lparr>cd_wallet = dr_wallet r, cd_spEVM = dr_spEVM r, cd_usd = Some usd, cd_ids = dr_ids r\<rparr>)"

text \<open>\<open>file\<close> is what the debt file decodes to, \<open>None\<close> when it is missing or unreadable.\<close>

definition loadDebts :: "debt_record list option \<Rightarrow> carried_debt list" where
  "loadDebts file = (case file of None \<Rightarrow> [] | Some recs \<Rightarrow> List.map_filter decode_debt recs)"

text \<open>The outstanding debt per wallet, over all its providers.\<close>

definition add_debt_usd :: "string \<Rightarrow> bigfloat \<Rightarrow> (string \<times> bigfloat) list \<Rightarrow> (string \<times> bigfloat) list" where
  "add_debt_usd w v m = (case alookup m w of Some cur \<Rightarrow> aput w (bf_acc cur v) m | None \<Rightarrow> aput w v m)"

definition debt_by_wallet :: "debt_record list \<Rightarrow> (string \<times> bigfloat) list" where
  "debt_by_wallet debts =
     fold (\<lambda>d m. case ParseFloat (dr_usd d) of
              None \<Rightarrow> m
            | Some v \<Rightarrow> if bf_sign v \<le> 0 then m else add_debt_usd (dr_wallet d) v m) debts []"

section \<open>Batches\<close>

function split_loop :: "nat \<Rightarrow> 'a list \<Rightarrow> 'a list list" where
  "split_loop n items =
     (if items = [] \<or> n = 0 then [] else take n items # split_loop n (drop n items))"
  by auto
termination by (relation "measure (\<lambda>(n, items). length items)") auto

declare split_loop.simps [simp del]

definition splitBatches :: "'a list \<Rightarrow> int \<Rightarrow> 'a list list" where
  "splitBatches items maxSize =
     (let n = nat (if maxSize \<le> 0 then 50 else maxSize)
      in if items = [] then []
         else if length items \<le> n then [items]
         else split_loop n items)"

record merkle_leaf =
  ml_rid :: string
  ml_leaf :: string
  ml_record :: "request_record option"
  ml_sp :: string

record pending_item =
  pi_user :: string
  pi_sp :: string
  pi_amount :: string
  pi_token :: string
  pi_usd :: usd_text
  pi_ids :: "string list"
  pi_requests :: int
  pi_tokens :: int

record pending_batch =
  pb_hash :: string
  pb_confirmed :: bool
  pb_items :: "pending_item list"
  pb_legacy :: string
  pb_root :: string
  pb_leaves :: "merkle_leaf list"

record pending_settlement =
  ps_cursor :: cursor
  ps_settled :: "(string \<times> usd_text) list"
  ps_debts :: "debt_record list"
  ps_batches :: "pending_batch list"
  ps_created :: gotime

section \<open>Freezing the plan\<close>

text \<open>The provider of a request id: the first item of the batch that carries it.\<close>

definition rid_sp :: "settlement_item list \<Rightarrow> string \<Rightarrow> string" where
  "rid_sp batch rid =
     (case List.find (\<lambda>it. rid \<in> set (it_ids it)) batch of Some it \<Rightarrow> it_spEVM it | None \<Rightarrow> '''')"

definition freeze_leaf ::
  "(string \<rightharpoonup> request_record) \<Rightarrow> settlement_item list \<Rightarrow> string \<times> digest \<Rightarrow> merkle_leaf" where
  "freeze_leaf recordsByID batch =
     (\<lambda>(rid, leaf). \<lparr>ml_rid = rid, ml_leaf = hex_encode leaf, ml_record = recordsByID rid, ml_sp = rid_sp batch rid\<rparr>)"

text \<open>Each request id is counted in the first item that carries it.\<close>

definition count_rid ::
  "(string \<rightharpoonup> request_record) \<Rightarrow> string \<Rightarrow> string set \<times> int \<times> int \<Rightarrow> string set \<times> int \<times> int" where
  "count_rid recordsByID rid = (\<lambda>(seen, reqs, toks).
     if rid \<in> seen then (seen, reqs, toks)
     else (insert rid seen, reqs + 1,
           (case recordsByID rid of Some rec \<Rightarrow> toks + rr_prompt rec + rr_completion rec | None \<Rightarrow> toks)))"

definition freeze_item ::
  "(string \<rightharpoonup> request_record) \<Rightarrow> settlement_item \<Rightarrow> string set \<times> pending_item list \<Rightarrow> string set \<times> pending_item list" where
  "freeze_item recordsByID it = (\<lambda>(seen, out).
     (let (seen', reqs, toks) = fold (count_rid recordsByID) (it_ids it) (seen, 0, 0)
      in (seen', out @ [\<lparr>pi_user = it_userEVM it, pi_sp = it_spEVM it, pi_amount = dec_int (it_amount it),
                          pi_token = it_tokenAddr it, pi_usd = Text18 (it_usd it), pi_ids = it_ids it,
                          pi_requests = reqs, pi_tokens = toks\<rparr>])))"

definition freeze_batch :: "(string \<rightharpoonup> request_record) \<Rightarrow> settlement_item list \<Rightarrow> pending_batch" where
  "freeze_batch recordsByID batch =
     (let legacy = BatchHash batch;
          (rids, leaves) = batchLeaves batch recordsByID;
          rt = MerkleRoot leaves;
          combined = CombinedDetailsHash legacy rt
      in \<lparr>pb_hash = hex_encode combined, pb_confirmed = False,
          pb_items = snd (fold (freeze_item recordsByID) batch ({}, [])),
          pb_legacy = hex_encode legacy, pb_root = hex_encode rt,
          pb_leaves = List.map (freeze_leaf recordsByID batch) (zip rids leaves)\<rparr>)"

definition buildPending ::
  "int \<Rightarrow> settlement_item list \<Rightarrow> cursor \<Rightarrow> (string \<times> usd_text) list \<Rightarrow> debt_record list \<Rightarrow>
   (string \<rightharpoonup> request_record) \<Rightarrow> gotime \<Rightarrow> pending_settlement" where
  "buildPending maxBatchSize items c settledUSD debts recordsByID now =
     \<lparr>ps_cursor = c, ps_settled = settledUSD, ps_debts = debts,
      ps_batches = List.map (freeze_batch recordsByID) (splitBatches items maxBatchSize),
      ps_created = now\<rparr>"

section \<open>Thawing a batch for submission\<close>

record settlement_batch =
  sb_users :: "string list"
  sb_sps :: "string list"
  sb_amounts :: "int list"
  sb_tokens :: "string list"
  sb_requests :: "int list"
  sb_tokenCounts :: "int list"
  sb_hash :: digest

text \<open>An amount that does not parse fails the whole batch.\<close>

definition toBatch :: "(string \<Rightarrow> string) \<Rightarrow> digest \<Rightarrow> pending_batch \<Rightarrow> settlement_batch option" where
  "toBatch hexa hash pb =
     (let its = pb_items pb; amts = List.map (parse_int \<circ> pi_amount) its
      in if None \<in> set amts then None
         else Some \<lparr>sb_users = List.map (hexa \<circ> pi_user) its, sb_sps = List.map (hexa \<circ> pi_sp) its,
                    sb_amounts = List.map the amts, sb_tokens = List.map (hexa \<circ> pi_token) its,
                    sb_requests = List.map pi_requests its, sb_tokenCounts = List.map pi_tokens its,
                    sb_hash = hash\<rparr>)"

section \<open>Items the chain skipped\<close>

record settlement_outcome =
  so_found :: bool
  so_settled :: nat
  so_failed :: nat
  so_indexes :: "nat list"

type_synonym books = "(string \<times> usd_text) list \<times> debt_record list"

text \<open>
  One skipped item. The wallets are walked in the order of the list, which stands for the order of one walk over the Go map; where two
  keys differ in case only, Go may take either of them in each walk, the model takes the first.
\<close>

definition reverse_item :: "(string \<Rightarrow> string \<Rightarrow> bool) \<Rightarrow> pending_item list \<Rightarrow> nat \<Rightarrow> books \<Rightarrow> books" where
  "reverse_item same its idx = (\<lambda>(settled, debts).
     if idx \<ge> length its then (settled, debts)
     else let it = its ! idx
          in case ParseFloat (pi_usd it) of
               None \<Rightarrow> (settled, debts)
             | Some usd \<Rightarrow>
                 if bf_sign usd \<le> 0 then (settled, debts)
                 else case List.find (\<lambda>(w, s). same w (pi_user it)) settled of
                        None \<Rightarrow> (settled, debts)
                      | Some (w, s) \<Rightarrow>
                          let cur = (case ParseFloat s of Some c \<Rightarrow> c | None \<Rightarrow> bf_zero);
                              cur = bf_dec cur usd;
                              cur = (if bf_sign cur < 0 then bf_zero else cur)
                          in (aput w (Text18 cur) settled,
                              debts @ [\<lparr>dr_wallet = w, dr_spEVM = pi_sp it, dr_usd = Text18 usd, dr_ids = pi_ids it\<rparr>]))"

definition reverseFailedItems ::
  "(string \<Rightarrow> string \<Rightarrow> bool) \<Rightarrow> pending_batch \<Rightarrow> settlement_outcome \<Rightarrow> pending_settlement \<Rightarrow> pending_settlement" where
  "reverseFailedItems same b outcome p =
     (if \<not> so_found outcome \<or> so_failed outcome = 0 then p
      else let (settled, debts) = fold (reverse_item same (pb_items b)) (so_indexes outcome) (ps_settled p, ps_debts p)
           in p\<lparr>ps_settled := settled, ps_debts := debts\<rparr>)"

section \<open>The plan is split completely\<close>

lemma concat_split_loop: "0 < n \<Longrightarrow> concat (split_loop n items) = items"
  by (induction n items rule: split_loop.induct) (subst split_loop.simps, simp)

lemma split_loop_sizes:
  "0 < n \<Longrightarrow> list_all (\<lambda>b. b \<noteq> [] \<and> length b \<le> n) (split_loop n items)"
proof (induction n items rule: split_loop.induct)
  case (1 n items)
  show ?case
  proof (cases "items = []")
    case False
    with 1 have "list_all (\<lambda>b. b \<noteq> [] \<and> length b \<le> n) (split_loop n (drop n items))" by blast
    with False 1(2) show ?thesis by (subst split_loop.simps) simp
  next
    case True
    then show ?thesis by (subst split_loop.simps) simp
  qed
qed

lemma one_batch: "xs \<noteq> [] \<Longrightarrow> length xs \<le> n \<Longrightarrow> (length xs + n - 1) div n = Suc 0"
proof -
  assume a: "xs \<noteq> []" "length xs \<le> n"
  then have e: "length xs + n - 1 = (length xs - 1) + n" and l: "length xs - 1 < n" "n \<noteq> 0" by (cases xs; simp)+
  show ?thesis unfolding e div_add_self2 [OF l(2)] using l(1) by simp
qed

lemma length_split_loop: "0 < n \<Longrightarrow> length (split_loop n items) = (length items + n - 1) div n"
proof (induction n items rule: split_loop.induct)
  case (1 n items)
  show ?case
  proof (cases "items = []")
    case True
    with 1(2) show ?thesis by (simp add: split_loop.simps)
  next
    case False
    with 1 have IH: "length (split_loop n (drop n items)) = (length items - n + n - 1) div n" by simp
    have "Suc ((length items - n + n - 1) div n) = (length items + n - 1) div n"
    proof (cases "n \<le> length items")
      case True
      then have "length items + n - 1 = (length items - n + n - 1) + n" using 1(2) by simp
      then show ?thesis using 1(2) by (simp only: div_add_self2)
    next
      case F: False
      then have "(length items + n - 1) div n = Suc 0"
        using False 1(2) by (intro one_batch) simp_all
      then show ?thesis using 1(2) F by simp
    qed
    with IH 1(2) False show ?thesis by (subst split_loop.simps) simp
  qed
qed

text \<open>
  Splitting a plan loses no item and reorders none, submits no empty batch, exceeds the configured
  size in no batch (50 when the configuration gives none) and uses as few batches as possible.
\<close>

theorem splitBatches_partition:
  "let n = (if maxSize \<le> 0 then 50 else nat maxSize)
   in concat (splitBatches items maxSize) = items \<and>
      list_all (\<lambda>b. b \<noteq> [] \<and> length b \<le> n) (splitBatches items maxSize) \<and>
      length (splitBatches items maxSize) = (length items + n - 1) div n"
proof -
  define n where "n = (if maxSize \<le> 0 then 50 else nat maxSize)"
  have n: "0 < n" by (simp add: n_def)
  have s: "splitBatches items maxSize =
      (if items = [] then [] else if length items \<le> n then [items] else split_loop n items)"
    by (simp add: splitBatches_def n_def Let_def)
  show ?thesis
    unfolding Let_def n_def [symmetric] s
    using concat_split_loop [OF n, of items] split_loop_sizes [OF n, of items]
      length_split_loop [OF n, of items] one_batch [of items n] n by auto
qed

section \<open>The frozen plan is what will be submitted\<close>

lemma freeze_items_fold:
  "List.map (\<lambda>p. (pi_user p, pi_sp p, pi_amount p, pi_token p, pi_usd p, pi_ids p))
      (snd (fold (freeze_item recs) batch (seen, out))) =
   List.map (\<lambda>p. (pi_user p, pi_sp p, pi_amount p, pi_token p, pi_usd p, pi_ids p)) out @
   List.map (\<lambda>it. (it_userEVM it, it_spEVM it, dec_int (it_amount it), it_tokenAddr it, Text18 (it_usd it), it_ids it)) batch"
proof (induction batch arbitrary: seen out)
  case (Cons it batch)
  obtain seen' r t where "fold (count_rid recs) (it_ids it) (seen, 0, 0) = (seen', r, t)"
    by (cases "fold (count_rid recs) (it_ids it) (seen, 0, 0)") auto
  with Cons.IH show ?case by (simp add: freeze_item_def)
qed simp

lemma frozen_items:
  "List.map (\<lambda>p. (pi_user p, pi_sp p, pi_amount p, pi_token p, pi_usd p, pi_ids p)) (pb_items (freeze_batch recs batch)) =
   List.map (\<lambda>it. (it_userEVM it, it_spEVM it, dec_int (it_amount it), it_tokenAddr it, Text18 (it_usd it), it_ids it)) batch"
  using freeze_items_fold [of recs batch "{}" "[]"] by (simp add: freeze_batch_def Let_def split: prod.split)

lemma frozen_field:
  assumes "\<And>p. f p = g (pi_user p, pi_sp p, pi_amount p, pi_token p, pi_usd p, pi_ids p)"
  shows "List.map f (pb_items (freeze_batch recs batch)) =
     List.map (\<lambda>it. g (it_userEVM it, it_spEVM it, dec_int (it_amount it), it_tokenAddr it, Text18 (it_usd it), it_ids it)) batch"
proof -
  have "f = (\<lambda>p. g (pi_user p, pi_sp p, pi_amount p, pi_token p, pi_usd p, pi_ids p))" using assms by blast
  then show ?thesis
    using arg_cong [OF frozen_items [of recs batch], of "List.map g"] by (simp add: comp_def)
qed

definition addresses_canonical :: "(string \<Rightarrow> string) \<Rightarrow> settlement_item list \<Rightarrow> bool" where
  "addresses_canonical hexa batch \<longleftrightarrow>
     list_all (\<lambda>it. hexa (it_userEVM it) = it_userEVM it \<and> hexa (it_spEVM it) = it_spEVM it \<and>
                    hexa (it_tokenAddr it) = it_tokenAddr it) batch"

lemma length_digest [simp]: "length (CombinedDetailsHash a b) = 32" "length (BatchHash batch) = 32"
  by (simp_all add: CombinedDetailsHash_def BatchHash_def)

text \<open>
  Freezing a batch into the plan and thawing it for submission is lossless: the submitted batch
  has the items' users, providers, tokens and exact integer amounts in the plan's order, under
  the details hash that binds the batch hash and the receipt root. A retry from the file
  therefore submits exactly what the first attempt did.
\<close>

theorem frozen_batch_submits_plan:
  assumes "addresses_canonical hexa batch"
  shows "hexToHash32 (pb_hash (freeze_batch recs batch)) =
      Some (CombinedDetailsHash (BatchHash batch) (MerkleRoot (snd (batchLeaves batch recs)))) \<and>
    toBatch hexa h (freeze_batch recs batch) =
      Some \<lparr>sb_users = List.map it_userEVM batch, sb_sps = List.map it_spEVM batch,
            sb_amounts = List.map it_amount batch, sb_tokens = List.map it_tokenAddr batch,
            sb_requests = List.map pi_requests (pb_items (freeze_batch recs batch)),
            sb_tokenCounts = List.map pi_tokens (pb_items (freeze_batch recs batch)), sb_hash = h\<rparr>"
proof -
  let ?b = "freeze_batch recs batch"
  have "pb_hash ?b = hex_encode (CombinedDetailsHash (BatchHash batch) (MerkleRoot (snd (batchLeaves batch recs))))"
    by (simp add: freeze_batch_def Let_def split: prod.split)
  then have h: "hexToHash32 (pb_hash ?b) =
      Some (CombinedDetailsHash (BatchHash batch) (MerkleRoot (snd (batchLeaves batch recs))))"
    by (simp add: hexToHash32_encode)
  have am: "List.map (parse_int \<circ> pi_amount) (pb_items ?b) = List.map (Some \<circ> it_amount) batch"
    by (subst frozen_field [where g = "\<lambda>(u, s, a, t, d, i). parse_int a"]) (simp_all add: parse_int_dec)
  have us: "List.map (hexa \<circ> pi_user) (pb_items ?b) = List.map it_userEVM batch"
    using assms by (subst frozen_field [where g = "\<lambda>(u, s, a, t, d, i). hexa u"])
      (auto simp: addresses_canonical_def list_all_iff)
  have sp: "List.map (hexa \<circ> pi_sp) (pb_items ?b) = List.map it_spEVM batch"
    using assms by (subst frozen_field [where g = "\<lambda>(u, s, a, t, d, i). hexa s"])
      (auto simp: addresses_canonical_def list_all_iff)
  have tk: "List.map (hexa \<circ> pi_token) (pb_items ?b) = List.map it_tokenAddr batch"
    using assms by (subst frozen_field [where g = "\<lambda>(u, s, a, t, d, i). hexa t"])
      (auto simp: addresses_canonical_def list_all_iff)
  have "None \<notin> set (List.map (Some \<circ> it_amount) batch)" by auto
  moreover have "List.map the (List.map (Some \<circ> it_amount) batch) = List.map it_amount batch" by simp
  ultimately show ?thesis using h by (simp only: toBatch_def Let_def am us sp tk if_False simp_thms)
qed

section \<open>The statistics sent along\<close>

definition tokens_of :: "(string \<rightharpoonup> request_record) \<Rightarrow> string \<Rightarrow> int" where
  "tokens_of recs rid = (case recs rid of Some rec \<Rightarrow> rr_prompt rec + rr_completion rec | None \<Rightarrow> 0)"

lemma count_rids:
  "finite seen \<Longrightarrow> fold (count_rid recs) ids (seen, r, t) =
     (seen \<union> set ids, r + int (card (set ids - seen)), t + (\<Sum>rid\<in>set ids - seen. tokens_of recs rid))"
proof (induction ids arbitrary: seen r t)
  case (Cons x ids)
  show ?case
  proof (cases "x \<in> seen")
    case True
    with Cons show ?thesis by (simp add: count_rid_def insert_absorb insert_Diff_if)
  next
    case False
    have fin: "finite (set ids - insert x seen)" "x \<notin> set ids - insert x seen" by simp_all
    have s: "set (x # ids) - seen = insert x (set ids - insert x seen)" using False by auto
    have "count_rid recs x (seen, r, t) = (insert x seen, r + 1, t + tokens_of recs x)"
      using False by (simp add: count_rid_def tokens_of_def split: option.split)
    moreover have "finite (insert x seen)" using Cons.prems by simp
    ultimately show ?thesis
      unfolding s using Cons.IH [of "insert x seen"] fin by (simp add: card_insert_disjoint)
  qed
qed simp

lemma freeze_items_stats:
  assumes "finite seen"
  shows "fst (fold (freeze_item recs) batch (seen, out)) = seen \<union> (\<Union>it\<in>set batch. set (it_ids it)) \<and>
    (\<Sum>p\<leftarrow>snd (fold (freeze_item recs) batch (seen, out)). pi_requests p) =
      (\<Sum>p\<leftarrow>out. pi_requests p) + int (card ((\<Union>it\<in>set batch. set (it_ids it)) - seen)) \<and>
    (\<Sum>p\<leftarrow>snd (fold (freeze_item recs) batch (seen, out)). pi_tokens p) =
      (\<Sum>p\<leftarrow>out. pi_tokens p) + (\<Sum>rid\<in>(\<Union>it\<in>set batch. set (it_ids it)) - seen. tokens_of recs rid)"
  using assms
proof (induction batch arbitrary: seen out)
  case (Cons it batch)
  let ?A = "set (it_ids it)" and ?B = "\<Union>it\<in>set batch. set (it_ids it)"
  have fin: "finite (?A - seen)" "finite (?B - (seen \<union> ?A))" "(?A - seen) \<inter> (?B - (seen \<union> ?A)) = {}"
    by auto
  have un: "(\<Union>it\<in>set (it # batch). set (it_ids it)) - seen = (?A - seen) \<union> (?B - (seen \<union> ?A))"
    by auto
  let ?p = "\<lparr>pi_user = it_userEVM it, pi_sp = it_spEVM it, pi_amount = dec_int (it_amount it),
      pi_token = it_tokenAddr it, pi_usd = Text18 (it_usd it), pi_ids = it_ids it,
      pi_requests = int (card (?A - seen)), pi_tokens = \<Sum>rid\<in>?A - seen. tokens_of recs rid\<rparr>"
  have step: "freeze_item recs it (seen, out) = (seen \<union> ?A, out @ [?p])"
    using count_rids [OF Cons.prems, of recs "it_ids it" 0 0] by (simp add: freeze_item_def)
  have f: "finite (seen \<union> ?A)" using Cons.prems by simp
  show ?case
    using Cons.IH [OF f, of "out @ [?p]"] card_Un_disjoint [OF fin]
      sum.union_disjoint [OF fin, of "tokens_of recs"]
    unfolding un by (auto simp: step)
qed simp

text \<open>
  The statistics submitted with a batch count every settled request exactly once, however its cost
  was split over tokens: the items' request counts add up to the number of leaves of the
  batch's receipt tree, and their token counts to the tokens of the distinct recorded requests.
\<close>

theorem batch_stats_match_leaves:
  "(\<Sum>p\<leftarrow>pb_items (freeze_batch recs batch). pi_requests p) = int (length (pb_leaves (freeze_batch recs batch))) \<and>
   (\<Sum>p\<leftarrow>pb_items (freeze_batch recs batch). pi_tokens p) =
     (\<Sum>l\<leftarrow>pb_leaves (freeze_batch recs batch).
        case ml_record l of Some rec \<Rightarrow> rr_prompt rec + rr_completion rec | None \<Rightarrow> 0)"
proof -
  obtain rids leaves where b: "batchLeaves batch recs = (rids, leaves)" by (cases "batchLeaves batch recs")
  have r: "distinct rids" "set rids = (\<Union>it\<in>set batch. set (it_ids it))" "length leaves = length rids"
    using batch_leaves_rids [OF b] by simp_all
  have items: "pb_items (freeze_batch recs batch) = snd (fold (freeze_item recs) batch ({}, []))"
    and lv: "pb_leaves (freeze_batch recs batch) = List.map (freeze_leaf recs batch) (zip rids leaves)"
    by (simp_all add: freeze_batch_def Let_def b)
  have "(\<Sum>l\<leftarrow>pb_leaves (freeze_batch recs batch).
      case ml_record l of Some rec \<Rightarrow> rr_prompt rec + rr_completion rec | None \<Rightarrow> 0)
     = (\<Sum>x\<leftarrow>zip rids leaves. tokens_of recs (fst x))"
    unfolding lv by (simp add: comp_def freeze_leaf_def tokens_of_def case_prod_beta)
  also have "\<dots> = (\<Sum>rid\<leftarrow>rids. tokens_of recs rid)"
    using arg_cong [OF map_fst_zip [OF r(3) [symmetric]], of "List.map (tokens_of recs)"]
    by (simp add: comp_def)
  also have "\<dots> = (\<Sum>rid\<in>set rids. tokens_of recs rid)"
    by (rule sum_list_distinct_conv_sum_set [OF r(1)])
  finally show ?thesis
    using freeze_items_stats [of "{}" recs batch "[]"] r distinct_card [OF r(1)]
    by (simp add: items lv)
qed

section \<open>The books after a reversal\<close>

definition usd_val :: "usd_text \<Rightarrow> rat" where
  "usd_val s = (case s of DecText a k \<Rightarrow> of_int a / 10 ^ k | _ \<Rightarrow> 0)"

definition books_total :: "books \<Rightarrow> rat" where
  "books_total = (\<lambda>(settled, debts). (\<Sum>p\<leftarrow>settled. usd_val (snd p)) + (\<Sum>d\<leftarrow>debts. usd_val (dr_usd d)))"

lemma text_dec_error: "\<bar>of_int (text_dec k x) / 10 ^ k - bf_val x\<bar> \<le> 1 / (2 * 10 ^ k)"
proof (cases "0 \<le> expo x")
  case True
  then show ?thesis by (simp add: text_dec_def bf_val_def powi2_nat)
next
  case False
  define d :: nat where "d = 2 ^ nat (- expo x)"
  define n where "n = nat \<bar>mant x\<bar> * 10 ^ k"
  have d: "0 < d" by (simp add: d_def)
  have dv: "2 powi expo x = 1 / rat_of_nat d"
    using False by (simp add: d_def power_int_def field_simps)
  have e: "\<bar>rat_of_nat (rne_div n d) * of_nat d - of_nat n\<bar> * 2 \<le> of_nat d"
  proof -
    have "rat_of_int (\<bar>int (rne_div n d) * int d - int n\<bar> * 2) \<le> rat_of_int (int d)"
      using rne_div_error [OF d, of n] by (simp only: of_int_le_iff)
    then show ?thesis by simp
  qed
  have "bf_val x = of_int (sgn (mant x)) * (of_nat n / (of_nat d * 10 ^ k))"
  proof -
    have "of_int (mant x) = of_int (sgn (mant x)) * rat_of_nat (nat \<bar>mant x\<bar>)"
      by (simp add: sgn_if)
    then show ?thesis by (simp add: bf_val_def dv n_def)
  qed
  moreover have "text_dec k x = sgn (mant x) * int (rne_div n d)"
    using False by (simp add: text_dec_def d_def n_def)
  ultimately have eq: "of_int (text_dec k x) / 10 ^ k - bf_val x =
      of_int (sgn (mant x)) * ((rat_of_nat (rne_div n d) * of_nat d - of_nat n) / (of_nat d * 10 ^ k))"
    using d by (simp add: field_simps)
  have "\<bar>of_int (sgn (mant x)) :: rat\<bar> \<le> 1" by (simp add: sgn_if)
  then have "\<bar>of_int (text_dec k x) / 10 ^ k - bf_val x\<bar>
      \<le> \<bar>(rat_of_nat (rne_div n d) * of_nat d - of_nat n) / (of_nat d * 10 ^ k)\<bar>"
    unfolding eq abs_mult by (rule mult_left_le_one_le [OF abs_ge_zero abs_ge_zero])
  also have "\<dots> \<le> 1 / (2 * 10 ^ k)"
    using e d by (simp add: field_simps)
  finally show ?thesis .
qed

lemma usd_val_Text18: "\<bar>usd_val (Text18 x) - bf_val x\<bar> \<le> 1 / (2 * 10 ^ 18)"
  using text_dec_error [of 18 x] by (simp add: usd_val_def Text18_def)

lemma sum_aput:
  "distinct (akeys m) \<Longrightarrow> alookup m w = Some s \<Longrightarrow>
   (\<Sum>p\<leftarrow>aput w v m. f (snd p)) = (\<Sum>p\<leftarrow>m. f (snd p)) - f s + (f v :: rat)"
  by (induction m) (auto split: if_splits)

lemma reversal_arith:
  fixes v c u r :: rat
  assumes "0 < u" "u \<le> v" "\<bar>c - v\<bar> * 2 ^ 128 \<le> \<bar>v\<bar>" "\<bar>r - (c - u)\<bar> * 2 ^ 128 \<le> \<bar>c - u\<bar>"
    "sgn r = sgn (c - u)"
  shows "\<bar>(if r < 0 then 0 else r) + u - v\<bar> \<le> v / 2 ^ 126"
proof -
  define e where "e = v / (2 ^ 128 :: rat)"
  have v: "0 < v" using assms by simp
  then have e: "0 < e" "4 * e = v / 2 ^ 126" "e \<le> v" by (simp_all add: e_def)
  have 1: "\<bar>c - v\<bar> \<le> e" using assms(3) v by (simp add: e_def field_simps)
  then have "\<bar>c - u\<bar> \<le> 2 * v" using assms(1,2) e by linarith
  then have "\<bar>r - (c - u)\<bar> \<le> 2 * e" using assms(4) by (simp add: e_def field_simps)
  moreover have "\<bar>c - u\<bar> \<le> e" if "r < 0"
    using that assms(2,5) 1 by (simp add: sgn_if split: if_splits)
  ultimately show ?thesis using 1 unfolding e(2) [symmetric] by (auto simp: abs_le_iff)
qed

lemma rounding_sum:
  fixes c u v tc tu e :: rat
  assumes "\<bar>c + u - v\<bar> \<le> e" "\<bar>tc - c\<bar> \<le> 1 / (2 * 10 ^ 18)" "\<bar>tu - u\<bar> \<le> 1 / (2 * 10 ^ 18)"
  shows "\<bar>tc - v + tu\<bar> \<le> e + 1 / 10 ^ 18"
proof -
  define h where "h = (1 :: rat) / (2 * 10 ^ 18)"
  have "1 / 10 ^ 18 = 2 * h" by (simp add: h_def)
  then show ?thesis using assms unfolding h_def [symmetric] by linarith
qed

text \<open>
  When the chain skipped an item of a confirmed batch, reversing it moves exactly the item's planned
  USD from the wallet's settled amount to a new debt of the same wallet, provider and request
  ids: the books' total changes by no more than the rounding of the two decimal texts and of
  one subtraction, and no other wallet's entry changes.
\<close>

theorem reversal_keeps_books:
  assumes "distinct (akeys settled)" "idx < length its"
    and "ParseFloat (pi_usd (its ! idx)) = Some usd" "0 < bf_val usd"
    and "List.find (\<lambda>(w, s). same w (pi_user (its ! idx))) settled = Some (w, DecText a k)"
    and "bf_val usd \<le> of_int a / 10 ^ k"
  shows "case reverse_item same its idx (settled, debts) of (settled', debts') \<Rightarrow>
     \<bar>books_total (settled', debts') - books_total (settled, debts)\<bar> \<le> of_int a / 10 ^ k / 2 ^ 126 + 1 / 10 ^ 18 \<and>
     debts' = debts @ [\<lparr>dr_wallet = w, dr_spEVM = pi_sp (its ! idx), dr_usd = Text18 usd, dr_ids = pi_ids (its ! idx)\<rparr>] \<and>
     alookup settled' = (\<lambda>w'. if w' = w then alookup settled' w else alookup settled w')"
proof -
  let ?cur = "parse_dec a k"
  define r where "r = bf_dec ?cur usd"
  define c where "c = (if bf_sign r < 0 then bf_zero else r)"
  have "(w, DecText a k) \<in> set settled" using assms(5) unfolding find_Some_iff by (metis nth_mem)
  then have lk: "alookup settled w = Some (DecText a k)" by (rule in_set_alookup [OF assms(1)])
  have rev: "reverse_item same its idx (settled, debts) = (aput w (Text18 c) settled,
      debts @ [\<lparr>dr_wallet = w, dr_spEVM = pi_sp (its ! idx), dr_usd = Text18 usd, dr_ids = pi_ids (its ! idx)\<rparr>])"
    using assms(2-5) by (simp add: reverse_item_def Let_def r_def c_def bf_sign_cases ParseFloat_def)
  have u: "bf_ok usd" using assms(3) by (auto simp: ParseFloat_def split: usd_text.splits)
  have "near 128 (bf_val r) (bf_val ?cur - bf_val usd)"
    using bf_addp_near [of 128 ?cur "bf_neg usd"]
    by (simp add: r_def bf_dec_def bf_subp_def res_prec_def bf_simps)
  moreover have "sgn (bf_val r) = sgn (bf_val ?cur - bf_val usd)"
    unfolding r_def bf_dec_def using u by (intro bf_subp_sgn) simp_all
  ultimately have "\<bar>(if bf_val r < 0 then 0 else bf_val r) + bf_val usd - of_int a / 10 ^ k\<bar>
      \<le> of_int a / 10 ^ k / 2 ^ 126"
    using parse_dec_near [of a k] assms(4,6) by (intro reversal_arith) (simp_all add: near_def)
  moreover have "bf_val c = (if bf_val r < 0 then 0 else bf_val r)"
    by (simp add: c_def bf_sign_cases bf_simps)
  ultimately have "\<bar>bf_val c + bf_val usd - of_int a / 10 ^ k\<bar> \<le> of_int a / 10 ^ k / 2 ^ 126"
    by (simp only:)
  moreover have "books_total (aput w (Text18 c) settled, debts @ [d]) - books_total (settled, debts)
      = usd_val (Text18 c) - of_int a / 10 ^ k + usd_val (dr_usd d)" for d
    using sum_aput [OF assms(1) lk, of usd_val "Text18 c"] by (simp add: books_total_def usd_val_def)
  ultimately have "\<bar>books_total (aput w (Text18 c) settled,
        debts @ [\<lparr>dr_wallet = w, dr_spEVM = pi_sp (its ! idx), dr_usd = Text18 usd, dr_ids = pi_ids (its ! idx)\<rparr>])
      - books_total (settled, debts)\<bar> \<le> of_int a / 10 ^ k / 2 ^ 126 + 1 / 10 ^ 18"
    using rounding_sum [OF _ usd_val_Text18 [of c] usd_val_Text18 [of usd]] by simp
  then show ?thesis unfolding rev by auto
qed

section \<open>Concrete instances\<close>

definition sample_item :: settlement_item where
  "sample_item = \<lparr>it_wallet = ''0xu'', it_userEVM = ''0xu'', it_spEVM = ''0xs'', it_amount = 700,
     it_tokenAddr = ''0xt'', it_token = \<lparr>tok_symbol = ''T'', tok_address = ''0xt'', tok_decimals = 6\<rparr>,
     it_usd = float64_of_int 7, it_tokens = 1500, it_ids = [''r1'']\<rparr>"

theorem frozen_batch_submits_plan_witness:
  "map_option sb_amounts (toBatch (\<lambda>s. s) (sha256 ''x'') (freeze_batch [''r1'' \<mapsto> sample_record] [sample_item])) = Some [700]"
  using frozen_batch_submits_plan [of "\<lambda>s. s" "[sample_item]" "[''r1'' \<mapsto> sample_record]" "sha256 ''x''"]
  by (simp add: addresses_canonical_def sample_item_def)

theorem reversal_keeps_books_witness:
  "let it = \<lparr>pi_user = ''0xu'', pi_sp = ''0xs'', pi_amount = ''700'', pi_token = ''0xt'', pi_usd = DecText 7 0,
        pi_ids = [''r1''], pi_requests = 1, pi_tokens = 1500\<rparr>;
       (settled, debts) = reverse_item (=) [it] 0 ([(''0xu'', DecText 9 0)], [])
   in \<bar>books_total (settled, debts) - 9\<bar> \<le> 9 / 2 ^ 126 + 1 / 10 ^ 18 \<and> List.map dr_ids debts = [[''r1'']]"
proof -
  define it where "it = \<lparr>pi_user = ''0xu'', pi_sp = ''0xs'', pi_amount = ''700'', pi_token = ''0xt'', pi_usd = DecText 7 0,
        pi_ids = [''r1''], pi_requests = 1, pi_tokens = 1500\<rparr>"
  have v: "bf_val (parse_dec 7 0) = 7" "bf_val (parse_dec 9 0) = 9"
    by (simp_all add: parse_dec_def bf_ratio_def lead_exp_def nbits.simps Let_def rne_div_def bf_val_def)
  obtain settled debts where r: "reverse_item (=) [it] 0 ([(''0xu'', DecText 9 0)], []) = (settled, debts)"
    by (cases "reverse_item (=) [it] 0 ([(''0xu'', DecText 9 0)], [])") auto
  have "books_total ([(''0xu'', DecText 9 0)], []) = 9" by (simp add: books_total_def usd_val_def)
  moreover have "case reverse_item (=) [it] 0 ([(''0xu'', DecText 9 0)], []) of (settled', debts') \<Rightarrow>
     \<bar>books_total (settled', debts') - books_total ([(''0xu'', DecText 9 0)], [])\<bar> \<le> of_int 9 / 10 ^ 0 / 2 ^ 126 + 1 / 10 ^ 18 \<and>
     debts' = [] @ [\<lparr>dr_wallet = ''0xu'', dr_spEVM = pi_sp ([it] ! 0), dr_usd = Text18 (parse_dec 7 0), dr_ids = pi_ids ([it] ! 0)\<rparr>] \<and>
     alookup settled' = (\<lambda>w'. if w' = ''0xu'' then alookup settled' ''0xu'' else alookup [(''0xu'', DecText 9 0)] w')"
    by (rule reversal_keeps_books [where usd = "parse_dec 7 0"]) (simp_all add: it_def ParseFloat_def v)
  ultimately show ?thesis unfolding it_def [symmetric] Let_def r by (auto simp: it_def)
qed

end
