(* ===== verification/ReceiptStore.thy ===== *)
theory ReceiptStore
  imports Wal
begin

text \<open>
  The store behind the public receipt endpoint: the Merkle ledger and the record store the settler
  appends to (\<open>settlement/settler.go\<close>: \<open>appendMerkleLedger\<close>, \<open>findMerkleBatch\<close>), their indexes and
  the sidecar the indexes are restored from (\<open>settlement/merkle_store.go\<close>), and the proof the
  endpoint serves (\<open>settlement/merkle.go\<close>: \<open>BuildReceiptProof\<close>). A JSONL file is its lines, each with
  its length in bytes and what it decodes to (\<open>None\<close>: it does not). The lengths of encoded rows are
  parameters. Whether a write succeeds is an argument, so that a write that fails, and a crash
  before it, are both covered.
\<close>

section \<open>Files\<close>

type_synonym 'a jsonl = "(nat \<times> 'a option) list"

definition fileSize :: "'a jsonl \<Rightarrow> nat" where
  "fileSize ls = (\<Sum>p\<leftarrow>ls. fst p)"

text \<open>The line that begins at an offset, with its length.\<close>

fun line_at :: "'a jsonl \<Rightarrow> nat \<Rightarrow> (nat \<times> 'a) option" where
  "line_at [] off = None"
| "line_at ((k, l) # ls) off =
     (if off = 0 then map_option (Pair k) l else if off < k then None else line_at ls (off - k))"

record merkle_row =
  mr_hash :: string
  mr_legacy :: string
  mr_root :: string
  mr_tx :: string
  mr_block :: nat
  mr_leaves :: "merkle_leaf list"

definition row_rids :: "merkle_row \<Rightarrow> string list" where
  "row_rids row = List.map ml_rid (mr_leaves row)"

record record_loc =
  lo_off :: nat
  lo_len :: nat

record idx_line =
  xl_off :: int
  xl_merkle :: nat
  xl_record :: nat
  xl_rids :: "string list"
  xl_recs :: "(string \<times> record_loc) list"

record receipt_store =
  rs_ledger :: "merkle_row jsonl"
  rs_records :: "(string \<times> request_record) jsonl"
  rs_sidecar :: "idx_line option list option"
  rs_midx :: "(string \<rightharpoonup> int) option"
  rs_ridx :: "(string \<rightharpoonup> record_loc) option"
  rs_warm :: bool

definition empty_store :: receipt_store where
  "empty_store = \<lparr>rs_ledger = [], rs_records = [], rs_sidecar = None, rs_midx = None, rs_ridx = None, rs_warm = False\<rparr>"

text \<open>After a restart only the files are left.\<close>

definition restart_store :: "receipt_store \<Rightarrow> receipt_store" where
  "restart_store st = st\<lparr>rs_midx := None, rs_ridx := None, rs_warm := False\<rparr>"

record store_env =
  en_row :: "merkle_row \<Rightarrow> nat"
  en_rec :: "string \<times> request_record \<Rightarrow> nat"
  en_ledger_ok :: bool
  en_sidecar_ok :: bool
  en_record_ok :: bool

section \<open>Appending a confirmed batch\<close>

text \<open>The ledger is searched for the hash up to the first line of more than 4 MiB.\<close>

fun ledgerHasHash :: "merkle_row jsonl \<Rightarrow> string \<Rightarrow> bool" where
  "ledgerHasHash [] h = False"
| "ledgerHasHash ((k, l) # ls) h =
     (if k > 4 * 1024 * 1024 then False
      else (case l of Some row \<Rightarrow> mr_hash row = h | None \<Rightarrow> False) \<or> ledgerHasHash ls h)"

definition appendReceiptRecord ::
  "store_env \<Rightarrow> string \<Rightarrow> request_record \<Rightarrow> receipt_store \<Rightarrow> record_loc option \<times> receipt_store" where
  "appendReceiptRecord e rid rec st =
     (if \<not> en_record_ok e then (None, st)
      else let n = en_rec e (rid, rec)
           in (Some \<lparr>lo_off = fileSize (rs_records st), lo_len = n\<rparr>,
               st\<lparr>rs_records := rs_records st @ [(n, Some (rid, rec))]\<rparr>))"

definition store_leaf ::
  "store_env \<Rightarrow> merkle_leaf \<Rightarrow> (string \<times> record_loc) list \<times> receipt_store \<Rightarrow> (string \<times> record_loc) list \<times> receipt_store" where
  "store_leaf e l = (\<lambda>(locs, st).
     (case ml_record l of
        None \<Rightarrow> (locs, st)
      | Some rec \<Rightarrow>
          (case appendReceiptRecord e (ml_rid l) rec st of
             (Some loc, st) \<Rightarrow> (aput (ml_rid l) loc locs, st)
           | (None, st) \<Rightarrow> (locs, st))))"

definition appendReceiptIdxLine ::
  "store_env \<Rightarrow> nat \<Rightarrow> string list \<Rightarrow> (string \<times> record_loc) list \<Rightarrow> receipt_store \<Rightarrow> receipt_store" where
  "appendReceiptIdxLine e off rids locs st =
     (if \<not> en_sidecar_ok e then st
      else st\<lparr>rs_sidecar := Some ((case rs_sidecar st of Some ls \<Rightarrow> ls | None \<Rightarrow> []) @
             [Some \<lparr>xl_off = int off, xl_merkle = fileSize (rs_ledger st), xl_record = fileSize (rs_records st),
                    xl_rids = rids, xl_recs = locs\<rparr>])\<rparr>)"

definition put_rids :: "int \<Rightarrow> string list \<Rightarrow> (string \<rightharpoonup> int) \<Rightarrow> (string \<rightharpoonup> int)" where
  "put_rids off rids m = fold (\<lambda>rid m. m(rid \<mapsto> off)) rids m"

definition put_locs :: "(string \<times> record_loc) list \<Rightarrow> (string \<rightharpoonup> record_loc) \<Rightarrow> (string \<rightharpoonup> record_loc)" where
  "put_locs locs m = fold (\<lambda>(rid, loc) m. m(rid \<mapsto> loc)) locs m"

definition thin_leaf :: "merkle_leaf \<Rightarrow> merkle_leaf" where
  "thin_leaf l = \<lparr>ml_rid = ml_rid l, ml_leaf = ml_leaf l, ml_record = None, ml_sp = ml_sp l\<rparr>"

definition batch_row :: "pending_batch \<Rightarrow> string \<Rightarrow> nat \<Rightarrow> merkle_row" where
  "batch_row b txHash block =
     \<lparr>mr_hash = pb_hash b, mr_legacy = pb_legacy b, mr_root = pb_root b, mr_tx = txHash,
      mr_block = block, mr_leaves = List.map thin_leaf (pb_leaves b)\<rparr>"

definition appendMerkleLedger ::
  "store_env \<Rightarrow> pending_batch \<Rightarrow> string \<Rightarrow> nat \<Rightarrow> receipt_store \<Rightarrow> receipt_store" where
  "appendMerkleLedger e b txHash block st =
     (if pb_leaves b = [] \<or> ledgerHasHash (rs_ledger st) (pb_hash b) then st
      else let rids = List.map ml_rid (pb_leaves b);
               (locs, st) = fold (store_leaf e) (pb_leaves b) ([], st);
               row = batch_row b txHash block;
               off = fileSize (rs_ledger st)
           in if \<not> en_ledger_ok e then st
              else appendReceiptIdxLine e off rids locs
                     (st\<lparr>rs_ledger := rs_ledger st @ [(en_row e row, Some row)],
                         rs_midx := map_option (put_rids (int off) rids) (rs_midx st),
                         rs_ridx := map_option (put_locs locs) (rs_ridx st)\<rparr>))"

section \<open>Warming the indexes\<close>

definition replay_line ::
  "idx_line \<Rightarrow> (string \<rightharpoonup> int) \<times> (string \<rightharpoonup> record_loc) \<times> nat \<times> nat \<Rightarrow>
   (string \<rightharpoonup> int) \<times> (string \<rightharpoonup> record_loc) \<times> nat \<times> nat" where
  "replay_line l = (\<lambda>(m, rr, _, _). (put_rids (xl_off l) (xl_rids l) m, put_locs (xl_recs l) rr, xl_merkle l, xl_record l))"

definition replaySidecar :: "receipt_store \<Rightarrow> ((string \<rightharpoonup> int) \<times> (string \<rightharpoonup> record_loc)) option" where
  "replaySidecar st =
     (case rs_sidecar st of
        None \<Rightarrow>
          if fileSize (rs_ledger st) = 0 \<and> fileSize (rs_records st) = 0 then Some (Map.empty, Map.empty) else None
      | Some ls \<Rightarrow>
          if None \<in> set ls then None
          else (case fold replay_line (List.map the ls) (Map.empty, Map.empty, 0, 0) of
                  (m, rr, lastMerkle, lastRecord) \<Rightarrow>
                    if lastMerkle \<noteq> fileSize (rs_ledger st) \<or> lastRecord \<noteq> fileSize (rs_records st) then None
                    else Some (m, rr)))"

fun scan_records :: "(string \<times> request_record) jsonl \<Rightarrow> nat \<Rightarrow> (string \<rightharpoonup> record_loc) \<Rightarrow> (string \<rightharpoonup> record_loc)" where
  "scan_records [] off m = m"
| "scan_records ((k, l) # ls) off m =
     scan_records ls (off + k)
       (case l of Some (rid, _) \<Rightarrow> if rid \<noteq> '''' then m(rid \<mapsto> \<lparr>lo_off = off, lo_len = k\<rparr>) else m | None \<Rightarrow> m)"

definition scanRecordStore :: "receipt_store \<Rightarrow> (string \<rightharpoonup> record_loc)" where
  "scanRecordStore st = scan_records (rs_records st) 0 Map.empty"

fun scan_ledger :: "merkle_row jsonl \<Rightarrow> nat \<Rightarrow> (string \<rightharpoonup> int) \<Rightarrow> (string \<rightharpoonup> int)" where
  "scan_ledger [] off m = m"
| "scan_ledger ((k, l) # ls) off m =
     scan_ledger ls (off + k) (case l of Some row \<Rightarrow> put_rids (int off) (row_rids row) m | None \<Rightarrow> m)"

fun rebuild_lines :: "(string \<rightharpoonup> record_loc) \<Rightarrow> merkle_row jsonl \<Rightarrow> nat \<Rightarrow> idx_line list" where
  "rebuild_lines ridx [] off = []"
| "rebuild_lines ridx ((k, l) # ls) off =
     (case l of
        Some row \<Rightarrow>
          [\<lparr>xl_off = int off, xl_merkle = 0, xl_record = 0, xl_rids = row_rids row,
            xl_recs = [(rid, loc). rid \<leftarrow> remdups (row_rids row), Some loc \<leftarrow> [ridx rid]]\<rparr>]
      | None \<Rightarrow> []) @ rebuild_lines ridx ls (off + k)"

definition rebuildFromData :: "store_env \<Rightarrow> receipt_store \<Rightarrow> receipt_store" where
  "rebuildFromData e st =
     (let ridx = scanRecordStore st;
          marker = \<lparr>xl_off = -1, xl_merkle = fileSize (rs_ledger st), xl_record = fileSize (rs_records st),
                    xl_rids = [], xl_recs = []\<rparr>
      in st\<lparr>rs_ridx := Some ridx, rs_midx := Some (scan_ledger (rs_ledger st) 0 Map.empty),
            rs_sidecar := (if en_sidecar_ok e
                           then Some (List.map Some (rebuild_lines ridx (rs_ledger st) 0 @ [marker]))
                           else rs_sidecar st)\<rparr>)"

definition loadOrWarmIndexes :: "store_env \<Rightarrow> receipt_store \<Rightarrow> receipt_store" where
  "loadOrWarmIndexes e st =
     (case replaySidecar st of
        Some (m, rr) \<Rightarrow> st\<lparr>rs_midx := Some m, rs_ridx := Some rr, rs_warm := True\<rparr>
      | None \<Rightarrow> (rebuildFromData e st)\<lparr>rs_warm := True\<rparr>)"

definition WarmReceiptIndex :: "store_env \<Rightarrow> receipt_store \<Rightarrow> receipt_store" where
  "WarmReceiptIndex e st = (if rs_warm st then st else loadOrWarmIndexes e st)"

section \<open>Queries\<close>

definition index_lookup :: "(string \<rightharpoonup> 'v) option \<Rightarrow> string \<Rightarrow> 'v option" where
  "index_lookup idx rid = (case idx of Some m \<Rightarrow> m rid | None \<Rightarrow> None)"

definition readMerkleBatchAt :: "receipt_store \<Rightarrow> int \<Rightarrow> string \<Rightarrow> merkle_row option" where
  "readMerkleBatchAt st off rid =
     (if off < 0 then None
      else case line_at (rs_ledger st) (nat off) of
             None \<Rightarrow> None
           | Some (_, row) \<Rightarrow> if rid \<in> set (row_rids row) then Some row else None)"

definition findMerkleBatch :: "store_env \<Rightarrow> string \<Rightarrow> receipt_store \<Rightarrow> merkle_row option \<times> receipt_store" where
  "findMerkleBatch e rid st =
     (let st = WarmReceiptIndex e st
      in case index_lookup (rs_midx st) rid of
           None \<Rightarrow> (None, st)
         | Some off \<Rightarrow>
             (case readMerkleBatchAt st off rid of
                Some row \<Rightarrow> (Some row, st)
              | None \<Rightarrow>
                  let st = rebuildFromData e st
                  in (case index_lookup (rs_midx st) rid of
                        None \<Rightarrow> (None, st)
                      | Some off \<Rightarrow> (readMerkleBatchAt st off rid, st))))"

definition loadRecordForRID :: "store_env \<Rightarrow> string \<Rightarrow> receipt_store \<Rightarrow> request_record option \<times> receipt_store" where
  "loadRecordForRID e rid st =
     (let st = WarmReceiptIndex e st
      in (case index_lookup (rs_ridx st) rid of
            None \<Rightarrow> None
          | Some loc \<Rightarrow>
              (case line_at (rs_records st) (lo_off loc) of
                 Some (n, r) \<Rightarrow> if n = lo_len loc then Some (snd r) else None
               | None \<Rightarrow> None), st))"

datatype proof_error = NotSettled | CorruptLeaf | NotInLeafSet

record receipt_proof =
  rp_rid :: string
  rp_sp :: string
  rp_record :: "request_record option"
  rp_leaf :: string
  rp_index :: nat
  rp_proof :: "string list"
  rp_root :: string
  rp_legacy :: string
  rp_details :: string
  rp_tx :: string
  rp_block :: nat

text \<open>The loop keeps the last position that carries the request id.\<close>

fun last_index :: "(string \<Rightarrow> bool) \<Rightarrow> string list \<Rightarrow> nat \<Rightarrow> int \<Rightarrow> int" where
  "last_index P [] i acc = acc"
| "last_index P (x # xs) i acc = last_index P xs (Suc i) (if P x then int i else acc)"

definition BuildReceiptProof ::
  "store_env \<Rightarrow> string \<Rightarrow> receipt_store \<Rightarrow> (proof_error + receipt_proof) \<times> receipt_store" where
  "BuildReceiptProof e rid st =
     (case findMerkleBatch e rid st of
        (None, st) \<Rightarrow> (Inl NotSettled, st)
      | (Some batch, st) \<Rightarrow>
          let hashes = List.map (hexToHash32 \<circ> ml_leaf) (mr_leaves batch);
              idx = last_index (\<lambda>r. r = rid) (row_rids batch) 0 (-1)
          in if None \<in> set hashes then (Inl CorruptLeaf, st)
             else if idx < 0 then (Inl NotInLeafSet, st)
             else let leaf = mr_leaves batch ! nat idx;
                      (rec, st) = (case ml_record leaf of Some r \<Rightarrow> (Some r, st) | None \<Rightarrow> loadRecordForRID e rid st)
                  in (Inr \<lparr>rp_rid = rid, rp_sp = ml_sp leaf, rp_record = rec, rp_leaf = ml_leaf leaf,
                           rp_index = nat idx,
                           rp_proof = List.map hex_encode (MerkleProofFor (List.map the hashes) idx),
                           rp_root = mr_root batch, rp_legacy = mr_legacy batch, rp_details = mr_hash batch,
                           rp_tx = mr_tx batch, rp_block = mr_block batch\<rparr>, st))"

section \<open>The ledger's index\<close>

definition ledger_index :: "merkle_row jsonl \<Rightarrow> (string \<rightharpoonup> int)" where
  "ledger_index ls = scan_ledger ls 0 Map.empty"

definition lines_pos :: "'a jsonl \<Rightarrow> bool" where
  "lines_pos ls \<longleftrightarrow> (\<forall>p\<in>set ls. 0 < fst p)"

definition rows :: "'a jsonl \<Rightarrow> 'a list" where
  "rows ls = [r. (k, Some r) \<leftarrow> ls]"

text \<open>The newest batch that carries a request id.\<close>

definition newest_batch :: "merkle_row jsonl \<Rightarrow> string \<Rightarrow> merkle_row option" where
  "newest_batch ls rid = List.find (\<lambda>row. rid \<in> set (row_rids row)) (rev (rows ls))"

lemma fileSize_simps [simp]:
  "fileSize [] = 0" "fileSize (p # ls) = fst p + fileSize ls" "fileSize (ls @ ls') = fileSize ls + fileSize ls'"
  by (simp_all add: fileSize_def)

lemma rows_append [simp]:
  "rows [] = []" "rows (ls @ ls') = rows ls @ rows ls'" "rows ((k, Some r) # ls) = r # rows ls"
  "rows ((k, None) # ls) = rows ls"
  by (simp_all add: rows_def)

lemma lines_pos_simps [simp]:
  "lines_pos []" "lines_pos (p # ls) \<longleftrightarrow> 0 < fst p \<and> lines_pos ls" "lines_pos (ls @ ls') \<longleftrightarrow> lines_pos ls \<and> lines_pos ls'"
  by (auto simp: lines_pos_def)

lemma fileSize_0: "lines_pos ls \<Longrightarrow> fileSize ls = 0 \<longleftrightarrow> ls = []"
  by (cases ls) auto

lemma put_rids_apply: "put_rids off rids m rid = (if rid \<in> set rids then Some off else m rid)"
  by (induction rids arbitrary: m) (auto simp: put_rids_def)

lemma scan_ledger_append:
  "scan_ledger (ls @ ls') off m = scan_ledger ls' (off + fileSize ls) (scan_ledger ls off m)"
  by (induction ls off m rule: scan_ledger.induct) (auto simp: add.assoc)

lemma ledger_index_snoc:
  "ledger_index (ls @ [(k, Some row)]) = put_rids (int (fileSize ls)) (row_rids row) (ledger_index ls)"
  by (simp add: ledger_index_def scan_ledger_append)

lemma line_at_append:
  "line_at ls off = Some x \<Longrightarrow> line_at (ls @ ls') off = Some x"
  by (induction ls off rule: line_at.induct) (auto split: if_splits)

lemma line_at_end: "lines_pos ls \<Longrightarrow> line_at (ls @ [(k, Some r)]) (fileSize ls) = Some (k, r)"
  by (induction ls) auto

lemma newest_snoc:
  "newest_batch (ls @ [(k, l)]) rid =
     (case l of Some row \<Rightarrow> if rid \<in> set (row_rids row) then Some row else newest_batch ls rid
      | None \<Rightarrow> newest_batch ls rid)"
  by (cases l) (simp_all add: newest_batch_def)

text \<open>Looking a request id up in the index and reading the line there finds its newest batch.\<close>

lemma index_reads_newest:
  "lines_pos ls \<Longrightarrow>
   (case ledger_index ls rid of
      None \<Rightarrow> newest_batch ls rid = None
    | Some off \<Rightarrow> 0 \<le> off \<and> (\<exists>n row. line_at ls (nat off) = Some (n, row) \<and> rid \<in> set (row_rids row) \<and>
                    newest_batch ls rid = Some row))"
proof (induction ls rule: rev_induct)
  case Nil
  then show ?case by (simp add: ledger_index_def newest_batch_def)
next
  case (snoc p ls)
  obtain k l where p: "p = (k, l)" by (cases p)
  show ?case
  proof (cases "\<exists>row. l = Some row \<and> rid \<in> set (row_rids row)")
    case True
    then obtain row where l: "l = Some row" "rid \<in> set (row_rids row)" by blast
    have "lines_pos ls" using snoc.prems by simp
    from line_at_end [OF this, of k row] show ?thesis
      by (simp add: p l newest_snoc ledger_index_snoc put_rids_apply)
  next
    case False
    then have i: "ledger_index (ls @ [p]) rid = ledger_index ls rid"
      by (cases l) (auto simp: p ledger_index_snoc put_rids_apply, simp add: ledger_index_def scan_ledger_append)
    have n: "newest_batch (ls @ [p]) rid = newest_batch ls rid"
      using False by (auto simp: p newest_snoc split: option.split)
    show ?thesis
      using snoc line_at_append [of ls _ _ "[p]"] unfolding i n by (fastforce split: option.splits)
  qed
qed

section \<open>The sidecar never lies\<close>

text \<open>
  \<open>synced\<close>: the sidecar lists exactly what the ledger's index has. \<open>side_size\<close>: the ledger size its
  last line accounts for.
\<close>

definition side_fold :: "receipt_store \<Rightarrow> (string \<rightharpoonup> int) \<times> (string \<rightharpoonup> record_loc) \<times> nat \<times> nat" where
  "side_fold st = (case rs_sidecar st of
      None \<Rightarrow> (Map.empty, Map.empty, 0, 0)
    | Some ls \<Rightarrow> fold replay_line (List.map the ls) (Map.empty, Map.empty, 0, 0))"

definition side_size :: "receipt_store \<Rightarrow> nat" where
  "side_size st = fst (snd (snd (side_fold st)))"

definition synced :: "receipt_store \<Rightarrow> bool" where
  "synced st \<longleftrightarrow> fst (side_fold st) = ledger_index (rs_ledger st) \<and>
     (case rs_sidecar st of None \<Rightarrow> True | Some ls \<Rightarrow> None \<notin> set ls)"

definition store_ok :: "receipt_store \<Rightarrow> bool" where
  "store_ok st \<longleftrightarrow> lines_pos (rs_ledger st) \<and> side_size st \<le> fileSize (rs_ledger st) \<and>
     (synced st \<or> replaySidecar st = None) \<and>
     (rs_warm st \<longrightarrow> synced st \<and> rs_midx st = Some (ledger_index (rs_ledger st)))"

definition env_ok :: "store_env \<Rightarrow> bool" where
  "env_ok e \<longleftrightarrow> (\<forall>r. 0 < en_row e r)"

lemma replay_Some:
  assumes "replaySidecar st = Some (m, rr)"
  shows "side_fold st = (m, rr, fileSize (rs_ledger st), fileSize (rs_records st))"
  using assms by (auto simp: replaySidecar_def side_fold_def split: option.splits if_splits prod.splits)

lemma side_snoc:
  assumes "rs_sidecar st = Some ((case rs_sidecar st0 of Some ls \<Rightarrow> ls | None \<Rightarrow> []) @ [Some l])"
  shows "side_fold st = replay_line l (side_fold st0)"
  by (simp add: side_fold_def assms split: option.split)

lemma rebuild_replay:
  "fst (fold replay_line (rebuild_lines ridx ls off) (m, rr, a, b)) = scan_ledger ls off m"
proof (induction ridx ls off arbitrary: m rr a b rule: rebuild_lines.induct)
  case (2 ridx k l ls off)
  show ?case
  proof (cases l)
    case (Some row)
    then show ?thesis using 2 by (simp add: replay_line_def)
  qed (use 2 in simp)
qed simp

lemma rebuild_synced:
  assumes "en_sidecar_ok e"
  shows "synced (rebuildFromData e st)" "rs_ledger (rebuildFromData e st) = rs_ledger st"
    "side_size (rebuildFromData e st) = fileSize (rs_ledger st)"
    "rs_midx (rebuildFromData e st) = Some (ledger_index (rs_ledger st))"
proof -
  define ls where "ls = rebuild_lines (scanRecordStore st) (rs_ledger st) 0"
  define mk where "mk = \<lparr>xl_off = -1, xl_merkle = fileSize (rs_ledger st), xl_record = fileSize (rs_records st),
      xl_rids = [], xl_recs = []\<rparr>"
  have r: "rebuildFromData e st = st\<lparr>rs_ridx := Some (scanRecordStore st),
      rs_midx := Some (ledger_index (rs_ledger st)), rs_sidecar := Some (List.map Some (ls @ [mk]))\<rparr>"
    using assms by (simp add: rebuildFromData_def Let_def ls_def mk_def ledger_index_def)
  have f: "side_fold (rebuildFromData e st) = replay_line mk (fold replay_line ls (Map.empty, Map.empty, 0, 0))"
    by (simp add: side_fold_def r comp_def)
  have "fst (fold replay_line ls (Map.empty, Map.empty, 0, 0)) = ledger_index (rs_ledger st)"
    by (simp add: ls_def rebuild_replay ledger_index_def)
  moreover have "fst (replay_line mk x) = fst x" "fst (snd (snd (replay_line mk x))) = fileSize (rs_ledger st)" for x
    by (cases x; simp add: replay_line_def mk_def put_rids_def)+
  ultimately show "synced (rebuildFromData e st)" "side_size (rebuildFromData e st) = fileSize (rs_ledger st)"
    unfolding synced_def side_size_def f by (auto simp: r)
  show "rs_ledger (rebuildFromData e st) = rs_ledger st"
    "rs_midx (rebuildFromData e st) = Some (ledger_index (rs_ledger st))"
    by (simp_all add: r)
qed

lemma side_frame:
  assumes "rs_sidecar st' = rs_sidecar st"
  shows "side_fold st' = side_fold st" "side_size st' = side_size st"
    "rs_ledger st' = rs_ledger st \<Longrightarrow> synced st' = synced st"
    "rs_ledger st' = rs_ledger st \<Longrightarrow> rs_records st' = rs_records st \<Longrightarrow> replaySidecar st' = replaySidecar st"
proof -
  show f: "side_fold st' = side_fold st" by (simp only: side_fold_def assms)
  then show "side_size st' = side_size st" by (simp only: side_size_def)
  show "rs_ledger st' = rs_ledger st \<Longrightarrow> synced st' = synced st"
    by (simp only: synced_def f assms)
  show "rs_ledger st' = rs_ledger st \<Longrightarrow> rs_records st' = rs_records st \<Longrightarrow> replaySidecar st' = replaySidecar st"
    by (simp only: replaySidecar_def assms)
qed

lemma warm_ok:
  assumes "store_ok st" "en_sidecar_ok e"
  shows "store_ok (WarmReceiptIndex e st) \<and> rs_warm (WarmReceiptIndex e st) \<and>
     rs_ledger (WarmReceiptIndex e st) = rs_ledger st"
proof (cases "rs_warm st")
  case True
  with assms show ?thesis by (simp add: WarmReceiptIndex_def)
next
  case False
  show ?thesis
  proof (cases "replaySidecar st")
    case None
    let ?r = "(rebuildFromData e st)\<lparr>rs_warm := True\<rparr>"
    have w: "WarmReceiptIndex e st = ?r"
      using False None by (simp add: WarmReceiptIndex_def loadOrWarmIndexes_def)
    have "synced ?r" "side_size ?r = fileSize (rs_ledger st)"
      using side_frame(2,3) [of ?r "rebuildFromData e st"] rebuild_synced(1,3) [OF assms(2), of st] by simp_all
    then show ?thesis
      using assms(1) rebuild_synced(2,4) [OF assms(2), of st] by (simp add: w store_ok_def)
  next
    case (Some x)
    obtain m rr where x: "x = (m, rr)" by (cases x)
    let ?r = "st\<lparr>rs_midx := Some m, rs_ridx := Some rr, rs_warm := True\<rparr>"
    have w: "WarmReceiptIndex e st = ?r"
      using False Some x by (simp add: WarmReceiptIndex_def loadOrWarmIndexes_def)
    have i: "synced st" using assms(1) Some by (auto simp: store_ok_def)
    then have "m = ledger_index (rs_ledger st)" using replay_Some [of st m rr] Some x by (simp add: synced_def)
    moreover have "synced ?r" "side_size ?r = side_size st" using side_frame(2,3) [of ?r st] i by simp_all
    ultimately show ?thesis using assms(1) by (simp add: w store_ok_def)
  qed
qed

lemma store_leaves:
  "\<exists>locs' ys. fold (store_leaf e) ls (locs, st) = (locs', st\<lparr>rs_records := rs_records st @ ys\<rparr>)"
proof (induction ls arbitrary: locs st)
  case Nil
  show ?case by (intro exI [of _ locs] exI [of _ "[]"]) simp
next
  case (Cons l ls)
  obtain locs1 ys1 where 1: "store_leaf e l (locs, st) = (locs1, st\<lparr>rs_records := rs_records st @ ys1\<rparr>)"
  proof (cases "ml_record l = None \<or> \<not> en_record_ok e")
    case True
    then have "store_leaf e l (locs, st) = (locs, st\<lparr>rs_records := rs_records st @ []\<rparr>)"
      by (auto simp: store_leaf_def appendReceiptRecord_def split: option.split)
    with that show ?thesis by blast
  next
    case False
    then obtain rec where "ml_record l = Some rec" "en_record_ok e" by auto
    then have "store_leaf e l (locs, st) =
        (aput (ml_rid l) \<lparr>lo_off = fileSize (rs_records st), lo_len = en_rec e (ml_rid l, rec)\<rparr> locs,
         st\<lparr>rs_records := rs_records st @ [(en_rec e (ml_rid l, rec), Some (ml_rid l, rec))]\<rparr>)"
      by (simp add: store_leaf_def appendReceiptRecord_def Let_def)
    with that show ?thesis by blast
  qed
  obtain locs2 ys2 where "fold (store_leaf e) ls (locs1, st\<lparr>rs_records := rs_records st @ ys1\<rparr>) =
      (locs2, st\<lparr>rs_records := rs_records st @ ys1\<rparr>\<lparr>rs_records := (rs_records st @ ys1) @ ys2\<rparr>)"
    using Cons.IH [of locs1 "st\<lparr>rs_records := rs_records st @ ys1\<rparr>"] by auto
  with 1 show ?case by (intro exI [of _ locs2] exI [of _ "ys1 @ ys2"]) simp
qed

lemma row_rids_batch [simp]: "row_rids (batch_row b txh blk) = List.map ml_rid (pb_leaves b)"
  by (simp add: row_rids_def batch_row_def thin_leaf_def comp_def)

text \<open>What an append does, by whether its writes succeed.\<close>

lemma append_cases:
  obtains (same) "appendMerkleLedger e b txh blk st = st"
    | (records) ys where "appendMerkleLedger e b txh blk st = st\<lparr>rs_records := rs_records st @ ys\<rparr>"
        "\<not> en_ledger_ok e"
    | (gap) st' where "appendMerkleLedger e b txh blk st = st'" "\<not> en_sidecar_ok e"
        "rs_sidecar st' = rs_sidecar st" "rs_warm st' = rs_warm st"
        "rs_ledger st' = rs_ledger st @ [(en_row e (batch_row b txh blk), Some (batch_row b txh blk))]"
        "rs_midx st' = map_option (put_rids (int (fileSize (rs_ledger st))) (List.map ml_rid (pb_leaves b))) (rs_midx st)"
    | (full) st' l where "appendMerkleLedger e b txh blk st = st'" "en_sidecar_ok e"
        "rs_sidecar st' = Some ((case rs_sidecar st of Some ls \<Rightarrow> ls | None \<Rightarrow> []) @ [Some l])"
        "rs_warm st' = rs_warm st"
        "rs_ledger st' = rs_ledger st @ [(en_row e (batch_row b txh blk), Some (batch_row b txh blk))]"
        "rs_midx st' = map_option (put_rids (int (fileSize (rs_ledger st))) (List.map ml_rid (pb_leaves b))) (rs_midx st)"
        "xl_off l = int (fileSize (rs_ledger st))" "xl_rids l = List.map ml_rid (pb_leaves b)"
        "xl_merkle l = fileSize (rs_ledger st')" "xl_record l = fileSize (rs_records st')"
proof -
  show thesis
  proof (cases "pb_leaves b = [] \<or> ledgerHasHash (rs_ledger st) (pb_hash b)")
    case True
    then show thesis by (intro same) (simp add: appendMerkleLedger_def)
  next
    case False
    obtain locs ys where f: "fold (store_leaf e) (pb_leaves b) ([], st) = (locs, st\<lparr>rs_records := rs_records st @ ys\<rparr>)"
      using store_leaves [of e "pb_leaves b" "[]" st] by blast
    note d = appendMerkleLedger_def [of e b txh blk st] f
    show thesis
    proof (cases "en_ledger_ok e")
      case ok: False
      with False show thesis by (intro records [of ys]) (simp_all add: d)
    next
      case ok: True
      show thesis
      proof (cases "en_sidecar_ok e")
        case s: False
        with False ok show thesis
          by (intro gap [OF refl]) (simp_all add: d Let_def appendReceiptIdxLine_def)
      next
        case s: True
        with False ok show thesis
          by (intro full [OF refl, where l = "\<lparr>xl_off = int (fileSize (rs_ledger st)),
              xl_merkle = fileSize (rs_ledger st @ [(en_row e (batch_row b txh blk), Some (batch_row b txh blk))]),
              xl_record = fileSize (rs_records st @ ys), xl_rids = List.map ml_rid (pb_leaves b), xl_recs = locs\<rparr>"])
            (simp_all add: d Let_def appendReceiptIdxLine_def)
      qed
    qed
  qed
qed

section \<open>A settled request is always found\<close>

text \<open>
  The life of the store when the indexes are warm before a batch is appended: appends whose index
  line is written, and appends any write of which fails because the process dies.
\<close>

inductive store_step :: "receipt_store \<Rightarrow> receipt_store \<Rightarrow> bool" where
  warm: "en_sidecar_ok e \<Longrightarrow> store_step st (WarmReceiptIndex e st)"
| append: "env_ok e \<Longrightarrow> en_sidecar_ok e \<Longrightarrow> rs_warm st \<Longrightarrow> store_step st (appendMerkleLedger e b txh blk st)"
| crash: "env_ok e \<Longrightarrow> rs_warm st \<Longrightarrow> store_step st (restart_store (appendMerkleLedger e b txh blk st))"
| restart: "store_step st (restart_store st)"

inductive_cases store_stepE: "store_step st st'"

lemma replay_behind: "side_size st < fileSize (rs_ledger st) \<Longrightarrow> replaySidecar st = None"
proof (rule ccontr)
  assume lt: "side_size st < fileSize (rs_ledger st)" and "replaySidecar st \<noteq> None"
  then obtain m rr where "replaySidecar st = Some (m, rr)" by auto
  from replay_Some [OF this] lt show False by (simp add: side_size_def)
qed

lemma index_append:
  "rs_ledger st' = rs_ledger st @ [(k, Some (batch_row b txh blk))] \<Longrightarrow>
   ledger_index (rs_ledger st') = put_rids (int (fileSize (rs_ledger st))) (List.map ml_rid (pb_leaves b)) (ledger_index (rs_ledger st))"
  by (simp add: ledger_index_snoc)

lemma append_full_ok:
  assumes ok: "store_ok st" and s: "synced st" and e: "env_ok e" "en_sidecar_ok e"
  shows "store_ok (appendMerkleLedger e b txh blk st) \<and> synced (appendMerkleLedger e b txh blk st)"
proof (cases rule: append_cases [of e b txh blk st])
  case same
  then show ?thesis using ok s by simp
next
  case (records ys)
  let ?r = "st\<lparr>rs_records := rs_records st @ ys\<rparr>"
  have "synced ?r" "side_size ?r = side_size st" using side_frame(2,3) [of ?r st] s by simp_all
  then show ?thesis using ok records(1) by (simp add: store_ok_def)
next
  case gap
  then show ?thesis using e(2) by simp
next
  case (full st' l)
  have f: "side_fold st' = replay_line l (side_fold st)" by (rule side_snoc [OF full(3)])
  have "fst (side_fold st') = ledger_index (rs_ledger st')"
    using s unfolding f index_append [OF full(5)]
    by (cases "side_fold st") (simp add: replay_line_def full(7,8) synced_def)
  moreover have "case rs_sidecar st' of None \<Rightarrow> True | Some ls \<Rightarrow> None \<notin> set ls"
    using s by (auto simp: full(3) synced_def split: option.splits)
  ultimately have sy: "synced st'" by (simp add: synced_def)
  have sz: "side_size st' = fileSize (rs_ledger st')"
    unfolding side_size_def f by (simp add: replay_line_def full(9) split: prod.split)
  have "lines_pos (rs_ledger st')" using ok e(1) by (simp add: full(5) store_ok_def env_ok_def)
  then have "store_ok st'"
    using ok sy sz index_append [OF full(5)] by (auto simp: store_ok_def full(4,6))
  then show ?thesis using sy full(1) by simp
qed

lemma restart_ok: "store_ok st \<Longrightarrow> store_ok (restart_store st)"
  using side_frame [of "restart_store st" st] by (simp add: store_ok_def restart_store_def)

lemma append_gap_ok:
  assumes ok: "store_ok st" and w: "rs_warm st" and e: "env_ok e"
  shows "store_ok (restart_store (appendMerkleLedger e b txh blk st))"
proof (cases "en_sidecar_ok e")
  case True
  have "synced st" using ok w by (simp add: store_ok_def)
  from append_full_ok [OF ok this e True] show ?thesis by (intro restart_ok) simp
next
  case False
  show ?thesis
  proof (cases rule: append_cases [of e b txh blk st])
    case same
    then show ?thesis using ok by (simp add: restart_ok)
  next
    case (records ys)
    let ?r = "restart_store (st\<lparr>rs_records := rs_records st @ ys\<rparr>)"
    have "synced ?r" "side_size ?r = side_size st"
      using side_frame(2,3) [of ?r st] ok w by (simp_all add: restart_store_def store_ok_def)
    then show ?thesis using ok records(1) by (simp add: store_ok_def restart_store_def)
  next
    case (gap st')
    let ?r = "restart_store st'"
    have "side_size ?r = side_size st" using side_frame(2) [of ?r st] gap(3) by (simp add: restart_store_def)
    moreover have "fileSize (rs_ledger st) < fileSize (rs_ledger ?r)" "lines_pos (rs_ledger ?r)"
      using ok e by (simp_all add: restart_store_def gap(5) env_ok_def store_ok_def)
    moreover have "side_size st \<le> fileSize (rs_ledger st)" using ok by (simp add: store_ok_def)
    ultimately have "side_size ?r < fileSize (rs_ledger ?r)" "lines_pos (rs_ledger ?r)" by simp_all
    then show ?thesis using replay_behind [of ?r] gap(1) by (simp add: store_ok_def restart_store_def)
  qed (use False in simp)
qed

lemma empty_store_ok: "store_ok empty_store"
  by (simp add: store_ok_def empty_store_def synced_def side_size_def side_fold_def ledger_index_def)

lemma store_steps_ok: "store_step\<^sup>*\<^sup>* empty_store st \<Longrightarrow> store_ok st"
proof (induction rule: rtranclp_induct)
  case (step st st')
  from step.hyps(2) step.IH show ?case
    by cases (auto simp: warm_ok append_gap_ok restart_ok store_ok_def [of st] intro: append_full_ok [THEN conjunct1])
qed (rule empty_store_ok)

lemma find_newest:
  assumes "store_ok st" "en_sidecar_ok e"
  shows "findMerkleBatch e rid st = (newest_batch (rs_ledger st) rid, WarmReceiptIndex e st)"
proof -
  let ?w = "WarmReceiptIndex e st"
  have w: "store_ok ?w" "rs_warm ?w" "rs_ledger ?w = rs_ledger st" using warm_ok [OF assms] by simp_all
  then have m: "rs_midx ?w = Some (ledger_index (rs_ledger st))" and p: "lines_pos (rs_ledger st)"
    by (auto simp: store_ok_def)
  show ?thesis
  proof (cases "ledger_index (rs_ledger st) rid")
    case None
    with index_reads_newest [OF p, of rid] show ?thesis
      by (simp add: findMerkleBatch_def Let_def index_lookup_def m)
  next
    case (Some off)
    with index_reads_newest [OF p, of rid] obtain n row where
      "0 \<le> off" "line_at (rs_ledger st) (nat off) = Some (n, row)" "rid \<in> set (row_rids row)"
      "newest_batch (rs_ledger st) rid = Some row" by auto
    with Some show ?thesis
      by (simp add: findMerkleBatch_def Let_def index_lookup_def m readMerkleBatchAt_def w(3))
  qed
qed


section \<open>The served proof verifies\<close>

lemma last_index_nth:
  "distinct xs \<Longrightarrow> j < length xs \<Longrightarrow> xs ! j = x \<Longrightarrow> last_index (\<lambda>r. r = x) xs i acc = int (i + j)"
proof (induction xs arbitrary: i acc j)
  case (Cons y xs)
  have skip: "x \<notin> set xs \<Longrightarrow> last_index (\<lambda>r. r = x) xs i' acc' = acc'" for i' acc'
    by (induction xs arbitrary: i' acc') auto
  show ?case
  proof (cases j)
    case 0
    with Cons.prems skip show ?thesis by simp
  next
    case (Suc j')
    with Cons.prems have "y \<noteq> x" by auto
    with Cons Suc show ?thesis by simp
  qed
qed simp

lemma batch_leaves_32: "batchLeaves batch recs = (rids, leaves) \<Longrightarrow> \<forall>l\<in>set leaves. length l = 32"
proof -
  assume b: "batchLeaves batch recs = (rids, leaves)"
  then have "leaves = List.map snd (sort_key fst (batch_ents batch recs))"
    by (auto simp: batchLeaves_def Let_def)
  moreover have "ents_ok recs batch (batch_ents batch recs)" using batch_ents_ok by blast
  ultimately show ?thesis
    by (fastforce simp: ents_ok_def leaf_of_def ReceiptLeaf_def DebtLeaf_def split: option.splits)
qed

lemma BuildReceiptProof_found:
  assumes "findMerkleBatch e rid st = (Some row, st')"
    and "List.map (hexToHash32 \<circ> ml_leaf) (mr_leaves row) = List.map Some leaves"
    and "last_index (\<lambda>r. r = rid) (row_rids row) 0 (-1) = int j"
  shows "\<exists>p. fst (BuildReceiptProof e rid st) = Inr p \<and> rp_index p = j \<and>
     rp_leaf p = ml_leaf (mr_leaves row ! j) \<and> rp_proof p = List.map hex_encode (MerkleProofFor leaves (int j)) \<and>
     rp_root p = mr_root row \<and> rp_details p = mr_hash row"
proof -
  obtain rec st2 where r: "(case ml_record (mr_leaves row ! j) of Some r \<Rightarrow> (Some r, st') | None \<Rightarrow> loadRecordForRID e rid st')
      = (rec, st2)" by (cases "case ml_record (mr_leaves row ! j) of Some r \<Rightarrow> (Some r, st') | None \<Rightarrow> loadRecordForRID e rid st'") auto
  have nn: "None \<notin> set (List.map Some leaves)" "List.map the (List.map Some leaves) = leaves"
    by (auto simp: comp_def)
  have i: "\<not> int j < 0" "nat (int j) = j" by simp_all
  show ?thesis
    unfolding BuildReceiptProof_def assms(1) prod.case option.case Let_def assms(2,3) nn(2) if_not_P [OF nn(1)]
      if_not_P [OF i(1)] i(2) r
    by simp
qed

text \<open>
  C25: End to end: the proof served for a settled request verifies. When the ledger's newest batch of a
  request id is one the settler froze, the endpoint returns a proof whose decoded path folds
  the decoded leaf, at the served position, to the batch's root, which together with the batch
  hash gives the details hash that was submitted; and the leaf at that position is this
  request's.
\<close>

theorem served_proof_verifies:
  assumes "store_ok st" "en_sidecar_ok e"
    and "newest_batch (rs_ledger st) rid = Some (batch_row (freeze_batch recs batch) txh blk)"
  shows "case batchLeaves batch recs of (rids, leaves) \<Rightarrow>
    (\<exists>p leaf path. fst (BuildReceiptProof e rid st) = Inr p \<and> rids ! rp_index p = rid \<and>
       hexToHash32 (rp_leaf p) = Some leaf \<and> List.map hexToHash32 (rp_proof p) = List.map Some path \<and>
       VerifyMerkleProof leaf (rp_index p) path (MerkleRoot leaves) \<and>
       rp_root p = hex_encode (MerkleRoot leaves) \<and>
       hexToHash32 (rp_details p) = Some (CombinedDetailsHash (BatchHash batch) (MerkleRoot leaves)))"
proof -
  obtain rids leaves where b: "batchLeaves batch recs = (rids, leaves)" by (cases "batchLeaves batch recs")
  let ?row = "batch_row (freeze_batch recs batch) txh blk"
  have r: "distinct rids" "length leaves = length rids" using batch_leaves_rids [OF b] by simp_all
  have l32: "\<forall>l\<in>set leaves. length l = 32" by (rule batch_leaves_32 [OF b])
  have lv: "mr_leaves ?row = List.map (\<lambda>x. thin_leaf (freeze_leaf recs batch x)) (zip rids leaves)"
    by (simp add: batch_row_def freeze_batch_def Let_def b comp_def)
  have rids: "row_rids ?row = rids"
    using r(2) by (simp add: row_rids_def lv comp_def thin_leaf_def freeze_leaf_def case_prod_beta map_fst_zip_take)
  have hs: "List.map (hexToHash32 \<circ> ml_leaf) (mr_leaves ?row) = List.map Some leaves"
    using r(2) l32 by (auto simp: lv comp_def thin_leaf_def freeze_leaf_def case_prod_beta hexToHash32_encode
        intro!: nth_equalityI)
  have "rid \<in> set (row_rids ?row)" using assms(3) unfolding newest_batch_def find_Some_iff by metis
  then have "rid \<in> set rids" by (simp only: rids)
  then obtain j where j: "j < length rids" "rids ! j = rid" by (auto simp: in_set_conv_nth)
  have idx: "last_index (\<lambda>r. r = rid) (row_rids ?row) 0 (-1) = int j"
    unfolding rids using last_index_nth [OF r(1) j, of 0 "-1"] by simp
  have lf: "ml_leaf (mr_leaves ?row ! j) = hex_encode (leaves ! j)"
    using j r(2) by (simp add: lv thin_leaf_def freeze_leaf_def)
  have jl: "j < length leaves" using j r(2) by simp
  have path: "length (proof_loop leaves j) = depth (length leaves) \<and> (\<forall>l\<in>set (proof_loop leaves j). length l = 32)"
    by (rule proof_loop_shape [OF jl l32])
  obtain p where p: "fst (BuildReceiptProof e rid st) = Inr p" "rp_index p = j"
    "rp_leaf p = hex_encode (leaves ! j)" "rp_proof p = List.map hex_encode (MerkleProofFor leaves (int j))"
    "rp_root p = mr_root ?row" "rp_details p = mr_hash ?row"
    using BuildReceiptProof_found [OF _ hs idx, of e st "WarmReceiptIndex e st"]
      find_newest [OF assms(1,2), of rid] assms(3) lf by auto
  have mp: "MerkleProofFor leaves (int j) = proof_loop leaves j" using jl by (simp add: MerkleProofFor_def)
  have "List.map hexToHash32 (rp_proof p) = List.map Some (proof_loop leaves j)"
    using path by (simp add: p(4) mp hexToHash32_encode)
  moreover have "VerifyMerkleProof (leaves ! j) j (proof_loop leaves j) (MerkleRoot leaves)"
    using verify_proof_loop [OF jl] jl by (auto simp: VerifyMerkleProof_def MerkleRoot_def)
  moreover have "hexToHash32 (rp_leaf p) = Some (leaves ! j)" using l32 jl by (simp add: p(3) hexToHash32_encode)
  moreover have "rp_root p = hex_encode (MerkleRoot leaves)"
    "hexToHash32 (rp_details p) = Some (CombinedDetailsHash (BatchHash batch) (MerkleRoot leaves))"
    by (simp_all add: p(5,6) batch_row_def freeze_batch_def Let_def b hexToHash32_encode)
  ultimately show ?thesis using p(1,2) j(2) by (auto simp: b)
qed

section \<open>Appending before the indexes are warm\<close>

text \<open>
  The sidecar's size check is not enough on its own. If the process dies between a batch's ledger
  line and its index line, and after the restart another batch is appended before the indexes
  have been warmed, the new index line accounts for the sizes of both: the replay is accepted,
  and every request of the first batch is answered \<open>not settled\<close> although the ledger has it.
\<close>

theorem cold_append_hides_batch:
  assumes "store_ok st" "rs_warm st" "env_ok e1" "env_ok e2"
    and "en_ledger_ok e1" "\<not> en_sidecar_ok e1" "en_ledger_ok e2" "en_sidecar_ok e2"
    and "rid \<in> set (List.map ml_rid (pb_leaves b1))" "rid \<notin> set (List.map ml_rid (pb_leaves b2))"
    and "pb_leaves b2 \<noteq> []" "\<not> ledgerHasHash (rs_ledger st) (pb_hash b1)"
    and "newest_batch (rs_ledger st) rid = None"
    and "st1 = restart_store (appendMerkleLedger e1 b1 txh1 blk1 st)"
    and "\<not> ledgerHasHash (rs_ledger st1) (pb_hash b2)"
    and "st2 = appendMerkleLedger e2 b2 txh2 blk2 st1"
  shows "newest_batch (rs_ledger st2) rid = Some (batch_row b1 txh1 blk1) \<and>
     fst (findMerkleBatch e2 rid st2) = None"
proof -
  have lv1: "pb_leaves b1 \<noteq> []" using assms(9) by auto
  obtain locs1 ys1 where f1: "fold (store_leaf e1) (pb_leaves b1) ([], st) = (locs1, st\<lparr>rs_records := rs_records st @ ys1\<rparr>)"
    using store_leaves [of e1 "pb_leaves b1" "[]" st] by blast
  have st1: "rs_ledger st1 = rs_ledger st @ [(en_row e1 (batch_row b1 txh1 blk1), Some (batch_row b1 txh1 blk1))]"
    "rs_sidecar st1 = rs_sidecar st" "\<not> rs_warm st1"
    using assms(5,6,12) lv1
    by (simp_all add: assms(14) appendMerkleLedger_def f1 Let_def appendReceiptIdxLine_def restart_store_def)
  obtain locs2 ys2 where f2: "fold (store_leaf e2) (pb_leaves b2) ([], st1) = (locs2, st1\<lparr>rs_records := rs_records st1 @ ys2\<rparr>)"
    using store_leaves [of e2 "pb_leaves b2" "[]" st1] by blast
  define l where "l = \<lparr>xl_off = int (fileSize (rs_ledger st1)), xl_merkle = fileSize (rs_ledger st2),
      xl_record = fileSize (rs_records st2), xl_rids = List.map ml_rid (pb_leaves b2), xl_recs = locs2\<rparr>"
  have st2: "rs_ledger st2 = rs_ledger st1 @ [(en_row e2 (batch_row b2 txh2 blk2), Some (batch_row b2 txh2 blk2))]"
    "rs_sidecar st2 = Some ((case rs_sidecar st1 of Some ls \<Rightarrow> ls | None \<Rightarrow> []) @ [Some l])" "\<not> rs_warm st2"
    using assms(7,8,11,15) st1(3)
    by (simp_all add: assms(16) l_def appendMerkleLedger_def f2 Let_def appendReceiptIdxLine_def)
  have s: "synced st" "lines_pos (rs_ledger st)" using assms(1,2) by (auto simp: store_ok_def)
  have fold2: "side_fold st2 = replay_line l (side_fold st1)" by (rule side_snoc [OF st2(2)])
  have fold1: "side_fold st1 = side_fold st" by (rule side_frame(1) [OF st1(2)])
  have no: "None \<notin> set ((case rs_sidecar st1 of Some ls \<Rightarrow> ls | None \<Rightarrow> []) @ [Some l])"
    using s(1) by (auto simp: synced_def st1(2) split: option.splits)
  obtain m rr a c where sf: "side_fold st = (m, rr, a, c)" by (cases "side_fold st") auto
  have "m = ledger_index (rs_ledger st)" using s(1) sf by (simp add: synced_def)
  then have m: "m rid = None" using index_reads_newest [OF s(2), of rid] assms(13) by (auto split: option.splits)
  have sf2: "side_fold st2 = (put_rids (xl_off l) (xl_rids l) m, put_locs (xl_recs l) rr,
      fileSize (rs_ledger st2), fileSize (rs_records st2))"
    unfolding fold2 fold1 sf by (simp add: replay_line_def l_def)
  then have "replaySidecar st2 = Some (put_rids (xl_off l) (xl_rids l) m, put_locs (xl_recs l) rr)"
    using no unfolding replaySidecar_def side_fold_def st2(2) by simp
  then have "index_lookup (rs_midx (WarmReceiptIndex e2 st2)) rid = None"
    using m assms(10) st2(3)
    by (simp add: WarmReceiptIndex_def loadOrWarmIndexes_def index_lookup_def put_rids_apply l_def)
  then have "fst (findMerkleBatch e2 rid st2) = None" by (simp add: findMerkleBatch_def Let_def)
  moreover have "newest_batch (rs_ledger st2) rid = newest_batch (rs_ledger st1) rid"
    using assms(10) by (simp add: st2(1) newest_snoc)
  moreover have "newest_batch (rs_ledger st1) rid = Some (batch_row b1 txh1 blk1)"
    using assms(9) by (simp add: st1(1) newest_snoc)
  ultimately show ?thesis by simp
qed

section \<open>Concrete instances\<close>

definition sample_batch :: "string \<Rightarrow> string \<Rightarrow> pending_batch" where
  "sample_batch h rid = \<lparr>pb_hash = h, pb_confirmed = True, pb_items = [], pb_legacy = '''', pb_root = '''',
     pb_leaves = [\<lparr>ml_rid = rid, ml_leaf = hex_encode (sha256 rid), ml_record = None, ml_sp = ''0xs''\<rparr>]\<rparr>"

definition sample_env :: "bool \<Rightarrow> store_env" where
  "sample_env ok = \<lparr>en_row = (\<lambda>r. 100), en_rec = (\<lambda>r. 50), en_ledger_ok = True, en_sidecar_ok = ok, en_record_ok = True\<rparr>"

lemma sample_env_ok: "env_ok (sample_env b)" "en_sidecar_ok (sample_env b) = b" "en_ledger_ok (sample_env b)"
  by (simp_all add: sample_env_def env_ok_def)

lemma sample_append:
  "rs_ledger st = [] \<Longrightarrow>
   rs_ledger (appendMerkleLedger (sample_env b) (sample_batch h rid) t k st) = [(100, Some (batch_row (sample_batch h rid) t k))]"
  by (simp add: appendMerkleLedger_def sample_batch_def store_leaf_def Let_def appendReceiptIdxLine_def sample_env_def)


lemma line_of_sample: "\<not> ledgerHasHash [(100, Some (batch_row (sample_batch ''h1'' ''r1'') t k))] ''h2''"
  by (simp add: batch_row_def sample_batch_def)

theorem cold_append_hides_batch_witness:
  "fst (findMerkleBatch (sample_env True) ''r1''
     (appendMerkleLedger (sample_env True) (sample_batch ''h2'' ''r2'') ''0xt2'' 8
       (restart_store (appendMerkleLedger (sample_env False) (sample_batch ''h1'' ''r1'') ''0xt1'' 7
          (WarmReceiptIndex (sample_env True) empty_store))))) = None"
proof -
  let ?w = "WarmReceiptIndex (sample_env True) empty_store"
  let ?s1 = "restart_store (appendMerkleLedger (sample_env False) (sample_batch ''h1'' ''r1'') ''0xt1'' 7 ?w)"
  have w: "store_ok ?w" "rs_warm ?w" "rs_ledger ?w = []"
    using warm_ok [OF empty_store_ok sample_env_ok(2) [of True, simplified]] by (simp_all add: empty_store_def)
  have s1: "rs_ledger ?s1 = [(100, Some (batch_row (sample_batch ''h1'' ''r1'') ''0xt1'' 7))]"
    using sample_append [OF w(3)] by (simp add: restart_store_def)
  have no: "newest_batch (rs_ledger ?w) ''r1'' = None" by (simp add: w newest_batch_def)
  have h: "\<not> ledgerHasHash (rs_ledger ?s1) (pb_hash (sample_batch ''h2'' ''r2''))"
    unfolding s1 using line_of_sample by (simp add: sample_batch_def)
  show ?thesis
    by (rule conjunct2 [OF cold_append_hides_batch [OF w(1,2) sample_env_ok(1) sample_env_ok(1) sample_env_ok(3)
        _ sample_env_ok(3) _ _ _ _ _ no refl h refl]])
      (simp_all add: sample_env_ok sample_batch_def w)
qed

theorem served_proof_verifies_witness:
  "\<exists>st p. newest_batch (rs_ledger st) ''r1'' =
       Some (batch_row (freeze_batch [''r1'' \<mapsto> sample_record] [sample_item]) ''0xt'' 7) \<and>
     fst (BuildReceiptProof (sample_env True) ''r1'' st) = Inr p"
proof -
  let ?b = "freeze_batch [''r1'' \<mapsto> sample_record] [sample_item]"
  define st where "st = empty_store\<lparr>rs_ledger := [(100, Some (batch_row ?b ''0xt'' 7))]\<rparr>"
  obtain rids leaves where b: "batchLeaves [sample_item] [''r1'' \<mapsto> sample_record] = (rids, leaves)"
    by (cases "batchLeaves [sample_item] [''r1'' \<mapsto> sample_record]")
  have r: "set rids = {''r1''}" "length leaves = length rids"
    using batch_leaves_rids [OF b] by (simp_all add: sample_item_def)
  have "''r1'' \<in> set (row_rids (batch_row ?b ''0xt'' 7))"
    using r by (simp add: freeze_batch_def Let_def b freeze_leaf_def comp_def case_prod_beta map_fst_zip_take image_iff
        flip: set_map)
  then have n: "newest_batch (rs_ledger st) ''r1'' = Some (batch_row ?b ''0xt'' 7)"
    using newest_snoc [of "[]" 100 "Some (batch_row ?b ''0xt'' 7)" "''r1''"] by (simp add: st_def)
  have "side_size st < fileSize (rs_ledger st)"
    by (simp add: st_def side_size_def side_fold_def empty_store_def)
  then have "store_ok st"
    using replay_behind [of st] by (simp add: store_ok_def st_def empty_store_def)
  from served_proof_verifies [OF this _ n, of "sample_env True"] n show ?thesis
    by (auto simp: b sample_env_ok)
qed

end
