(* ===== verification/GoStrings.thy ===== *)
theory GoStrings
  imports Prelude
begin

text \<open>
  The functions of Go's \<open>strings\<close> package the gateway calls, on texts of bytes. Case folding and
  white space are those of ASCII; the code applies them to addresses, URLs and identifiers.
\<close>

definition is_space :: "char \<Rightarrow> bool" where
  "is_space c \<longleftrightarrow> (let n = of_char c :: nat in n = 32 \<or> (9 \<le> n \<and> n \<le> 13))"

definition TrimSpace :: "string \<Rightarrow> string" where
  "TrimSpace s = rev (dropWhile is_space (rev (dropWhile is_space s)))"

definition lower_char :: "char \<Rightarrow> char" where
  "lower_char c = (let n = of_char c :: nat in if 65 \<le> n \<and> n \<le> 90 then char_of (n + 32) else c)"

definition ToLower :: "string \<Rightarrow> string" where
  "ToLower s = List.map lower_char s"

definition EqualFold :: "string \<Rightarrow> string \<Rightarrow> bool" where
  "EqualFold s t \<longleftrightarrow> ToLower s = ToLower t"

definition HasPrefix :: "string \<Rightarrow> string \<Rightarrow> bool" where
  "HasPrefix s p \<longleftrightarrow> take (length p) s = p"

definition HasSuffix :: "string \<Rightarrow> string \<Rightarrow> bool" where
  "HasSuffix s p \<longleftrightarrow> HasPrefix (rev s) (rev p)"

definition TrimPrefix :: "string \<Rightarrow> string \<Rightarrow> string" where
  "TrimPrefix s p = (if HasPrefix s p then drop (length p) s else s)"

definition TrimSuffix :: "string \<Rightarrow> string \<Rightarrow> string" where
  "TrimSuffix s p = (if HasSuffix s p then take (length s - length p) s else s)"

fun Contains :: "string \<Rightarrow> string \<Rightarrow> bool" where
  "Contains [] p = (p = [])"
| "Contains (c # s) p = (HasPrefix (c # s) p \<or> Contains s p)"

lemma EqualFold_equiv:
  "EqualFold s s" "EqualFold s t \<Longrightarrow> EqualFold t s" "EqualFold s t \<Longrightarrow> EqualFold t u \<Longrightarrow> EqualFold s u"
  by (simp_all add: EqualFold_def)

lemma lower_char_idem [simp]: "lower_char (lower_char c) = lower_char c"
  by (auto simp: lower_char_def Let_def)

lemma ToLower_idem [simp]: "ToLower (ToLower s) = ToLower s"
  by (simp add: ToLower_def comp_def)

lemma EqualFold_ToLower: "EqualFold (ToLower s) s"
  by (simp add: EqualFold_def)

lemma HasPrefix_append [simp]: "HasPrefix (p @ s) p"
  by (simp add: HasPrefix_def)

lemma HasPrefix_iff: "HasPrefix s p \<longleftrightarrow> (\<exists>r. s = p @ r)"
proof
  assume "HasPrefix s p"
  then have "s = p @ drop (length p) s" by (metis HasPrefix_def append_take_drop_id)
  then show "\<exists>r. s = p @ r" by blast
qed auto

lemma TrimPrefix_append [simp]: "TrimPrefix (p @ s) p = s"
  by (simp add: TrimPrefix_def)

section \<open>Searching and replacing\<close>

text \<open>First and last position of a substring; \<open>cut_last\<close> keeps what follows the last one.\<close>

fun Index :: "string \<Rightarrow> string \<Rightarrow> nat option" where
  "Index sub [] = (if sub = [] then Some 0 else None)"
| "Index sub (c # s) = (if HasPrefix (c # s) sub then Some 0 else map_option Suc (Index sub s))"

fun LastIndex :: "string \<Rightarrow> string \<Rightarrow> nat option" where
  "LastIndex sub [] = (if sub = [] then Some 0 else None)"
| "LastIndex sub (c # s) =
     (case LastIndex sub s of
        Some i \<Rightarrow> Some (Suc i)
      | None \<Rightarrow> if HasPrefix (c # s) sub then Some 0 else None)"

definition after_last :: "string \<Rightarrow> string \<Rightarrow> string" where
  "after_last sub s = (case LastIndex sub s of Some i \<Rightarrow> drop (i + length sub) s | None \<Rightarrow> s)"

text \<open>\<open>strings.Replace\<close> of the first occurrence, and \<open>strings.SplitN (s, sep, 2)\<close>.\<close>

definition replace_first :: "string \<Rightarrow> string \<Rightarrow> string \<Rightarrow> string" where
  "replace_first old new s =
     (case Index old s of None \<Rightarrow> s | Some i \<Rightarrow> take i s @ new @ drop (i + length old) s)"

definition split2 :: "string \<Rightarrow> string \<Rightarrow> (string \<times> string) option" where
  "split2 sep s = map_option (\<lambda>i. (take i s, drop (i + length sep) s)) (Index sep s)"

text \<open>\<open>filepath.Base\<close> on a slash-separated path.\<close>

definition path_base :: "string \<Rightarrow> string" where
  "path_base p =
     (if p = '''' then ''.''
      else let q = rev (dropWhile (\<lambda>c. c = CHR ''/'') (rev p)); b = after_last ''/'' q
           in if b = '''' then ''/'' else b)"

lemma HasPrefix_length: "HasPrefix s p \<Longrightarrow> length p \<le> length s"
  by (auto simp: HasPrefix_iff)

lemma Index_Some: "Index sub s = Some i \<Longrightarrow> s = take i s @ sub @ drop (i + length sub) s"
proof (induction sub s arbitrary: i rule: Index.induct)
  case (2 sub c s)
  show ?case
  proof (cases "HasPrefix (c # s) sub")
    case True
    then obtain r where "c # s = sub @ r" by (auto simp: HasPrefix_iff)
    moreover have "i = 0" using 2(2) True by simp
    ultimately show ?thesis by simp
  next
    case False
    with 2(2) obtain j where "Index sub s = Some j" "i = Suc j" by auto
    with 2(1) [OF False, of j] show ?thesis by simp
  qed
qed (auto split: if_splits)

end
