(* ===== verification/Contract.thy ===== *)
theory Contract
  imports Wal GoStrings "HOL-Library.Word" "HOL-Library.Signed_Division"
begin

text \<open>
  The gateway's side of the settlement contract (\<open>settlement/contract.go\<close>): the choice of nonce and
  gas price, the list of RPC endpoints and its failover, the wait for a receipt and for finality,
  the arguments of a submission and the decoded outcome. What a node answers is an argument; the
  ABI coding of go-ethereum is not modelled.
\<close>

section \<open>Nonce and gas price\<close>

definition gasHeadroomPercent :: int where "gasHeadroomPercent = 25"
definition gasReplacePercent :: int where "gasReplacePercent = 13"

definition bumpGasPrice :: "int option \<Rightarrow> int \<Rightarrow> int option" where
  "bumpGasPrice p percent =
     (case p of
        None \<Rightarrow> None
      | Some v \<Rightarrow> if v \<le> 0 then Some v else Some (v * (100 + percent) div 100))"

definition decideNonceGas ::
  "64 word \<Rightarrow> int option \<Rightarrow> 64 word option \<Rightarrow> int option \<Rightarrow> 64 word \<times> int option" where
  "decideNonceGas pendingNonce suggested lastNonce lastGasPrice =
     (let gasPrice = bumpGasPrice suggested gasHeadroomPercent
      in case lastNonce of
           None \<Rightarrow> (pendingNonce, gasPrice)
         | Some prior \<Rightarrow>
             if \<not> pendingNonce \<le> prior then (pendingNonce, gasPrice)
             else (case lastGasPrice of
                     None \<Rightarrow> (prior, gasPrice)
                   | Some lg \<Rightarrow>
                       let minReplace = bumpGasPrice (Some lg) gasReplacePercent
                       in (prior, (case gasPrice of
                                  None \<Rightarrow> minReplace
                                | Some g \<Rightarrow> if g < the minReplace then minReplace else gasPrice))))"

record rbf_state =
  cl_lastNonce :: "64 word option"
  cl_lastGasPrice :: "int option"

text \<open>The transaction options for the next submission; a failed query leaves the state alone.\<close>

definition transactor ::
  "64 word option \<Rightarrow> int option \<Rightarrow> rbf_state \<Rightarrow> (64 word \<times> int) option \<times> rbf_state" where
  "transactor pendingNonce suggested c =
     (case (pendingNonce, suggested) of
        (Some n, Some g) \<Rightarrow>
          (let (nonce, gasPrice) = decideNonceGas n (Some g) (cl_lastNonce c) (cl_lastGasPrice c)
           in (Some (nonce, the gasPrice), c\<lparr>cl_lastNonce := Some nonce, cl_lastGasPrice := gasPrice\<rparr>))
      | _ \<Rightarrow> (None, c))"

definition clearPendingTx :: "rbf_state \<Rightarrow> rbf_state" where
  "clearPendingTx c = c\<lparr>cl_lastNonce := None, cl_lastGasPrice := None\<rparr>"

section \<open>Submission and receipt\<close>

record submit_args =
  sa_users :: "string list"
  sa_sps :: "string list"
  sa_amounts :: "int list"
  sa_tokens :: "string list"
  sa_stats :: "(int list \<times> int list) option"
  sa_hash :: digest

definition submit_args_of :: "int \<Rightarrow> settlement_batch \<Rightarrow> submit_args" where
  "submit_args_of schema b =
     (let n = length (sb_users b);
          fill = (\<lambda>xs. if length xs \<noteq> n then replicate n 0 else xs)
      in \<lparr>sa_users = sb_users b, sa_sps = sb_sps b, sa_amounts = sb_amounts b, sa_tokens = sb_tokens b,
          sa_stats = (if schema \<ge> 3 then Some (fill (sb_requests b), fill (sb_tokenCounts b)) else None),
          sa_hash = sb_hash b\<rparr>)"

definition contract_schema :: "int \<Rightarrow> int option" where
  "contract_schema configured =
     (let schema = (if configured = 0 then 2 else configured)
      in if schema \<noteq> 2 \<and> schema \<noteq> 3 then None else Some schema)"

text \<open>An event log: its address, and the event its first topic names with the unpacked values.\<close>

datatype log_event = NoTopic | SettlementExecuted "nat list option" | SettlementItemFailed "nat list option" | OtherEvent

record chain_receipt =
  cr_status_ok :: bool
  cr_block :: nat
  cr_gas :: nat
  cr_logs :: "(string \<times> log_event) list"

datatype mined = MinedTx chain_receipt | WaitDeadline | WaitError

datatype receipt_error = ErrTxTimeout | ErrWait | ErrReverted

definition WaitForReceipt :: "mined \<Rightarrow> rbf_state \<Rightarrow> (receipt_error + chain_receipt) \<times> rbf_state" where
  "WaitForReceipt r c =
     (case r of
        WaitDeadline \<Rightarrow> (Inl ErrTxTimeout, c)
      | WaitError \<Rightarrow> (Inl ErrWait, c)
      | MinedTx rec \<Rightarrow> (if \<not> cr_status_ok rec then Inl ErrReverted else Inr rec, clearPendingTx c))"

definition uint64_of :: "nat \<Rightarrow> nat" where "uint64_of n = n mod 2 ^ 64"

definition outcome_log :: "string \<Rightarrow> string \<times> log_event \<Rightarrow> settlement_outcome \<Rightarrow> settlement_outcome" where
  "outcome_log contractAddr = (\<lambda>(addr, ev) out.
     if addr \<noteq> contractAddr then out
     else case ev of
       SettlementExecuted (Some vals) \<Rightarrow>
         if length vals < 4 then out
         else out\<lparr>so_settled := uint64_of (vals ! 2), so_failed := uint64_of (vals ! 3), so_found := True\<rparr>
     | SettlementItemFailed (Some vals) \<Rightarrow>
         if vals = [] then out else out\<lparr>so_indexes := so_indexes out @ [uint64_of (hd vals)]\<rparr>
     | _ \<Rightarrow> out)"

definition ParseSettlementOutcome :: "string \<Rightarrow> chain_receipt option \<Rightarrow> settlement_outcome" where
  "ParseSettlementOutcome contractAddr receipt =
     (let out = \<lparr>so_found = False, so_settled = 0, so_failed = 0, so_indexes = []\<rparr>
      in case receipt of None \<Rightarrow> out | Some r \<Rightarrow> fold (outcome_log contractAddr) (cr_logs r) out)"

section \<open>Finality\<close>

text \<open>
  One poll: the receipt is missing, the query failed, or the receipt was there at some head. The
  list of polls ends when the wait times out.
\<close>

datatype poll = PollNotFound | PollError | PollFound chain_receipt nat

datatype finality = Final chain_receipt | ErrReorged | ErrNotFinal

definition maxNotFoundStreak :: nat where "maxNotFoundStreak = 5"

fun finality_loop :: "nat \<Rightarrow> nat \<Rightarrow> poll list \<Rightarrow> finality" where
  "finality_loop confirmations streak [] = ErrNotFinal"
| "finality_loop confirmations streak (p # ps) =
     (case p of
        PollNotFound \<Rightarrow>
          if streak + 1 \<ge> maxNotFoundStreak then ErrReorged else finality_loop confirmations (streak + 1) ps
      | PollError \<Rightarrow> finality_loop confirmations streak ps
      | PollFound r hd_block \<Rightarrow>
          if hd_block \<ge> cr_block r \<and> hd_block - cr_block r \<ge> confirmations then Final r
          else finality_loop confirmations 0 ps)"

definition waitForFinality :: "nat \<Rightarrow> poll list \<Rightarrow> finality" where
  "waitForFinality confirmations polls =
     (if confirmations = 0
      then (case polls of PollFound r _ # _ \<Rightarrow> Final r | _ \<Rightarrow> ErrNotFinal)
      else finality_loop confirmations 0 polls)"

section \<open>Endpoints\<close>

definition add_endpoint :: "string \<Rightarrow> string list \<Rightarrow> string list" where
  "add_endpoint u out = (let u = TrimSpace u in if u = '''' \<or> u \<in> set out then out else out @ [u])"

definition buildEndpoints :: "string \<Rightarrow> string list \<Rightarrow> string list" where
  "buildEndpoints primary extra = fold add_endpoint (primary # extra) []"

text \<open>\<open>healthy\<close>: the endpoint can be dialled and answers the chain-id probe.\<close>

fun dial_loop :: "(string \<Rightarrow> bool) \<Rightarrow> string list \<Rightarrow> int \<Rightarrow> nat list \<Rightarrow> nat option" where
  "dial_loop healthy endpoints start [] = None"
| "dial_loop healthy endpoints start (i # is) =
     (let n = int (length endpoints);
          idx = nat (((start smod n) + n + int i) smod n)
      in if healthy (endpoints ! idx) then Some idx else dial_loop healthy endpoints start is)"

definition dialFirstHealthy :: "(string \<Rightarrow> bool) \<Rightarrow> string list \<Rightarrow> int \<Rightarrow> nat option" where
  "dialFirstHealthy healthy endpoints start =
     (if endpoints = [] then None else dial_loop healthy endpoints start [0..<length endpoints])"

record contract_client =
  cc_endpoints :: "string list"
  cc_activeIdx :: nat
  cc_schema :: int

text \<open>
  Schema 3 is checked against the contract: at most three tries to read its version, of which the
  first answer decides (\<open>None\<close>: a try without an answer).
\<close>

fun verify_tries :: "int option list \<Rightarrow> bool" where
  "verify_tries [] = False"
| "verify_tries (None # as) = verify_tries as"
| "verify_tries (Some v # as) = (v = 3)"

definition verifySchemaV3 :: "int option list \<Rightarrow> bool" where
  "verifySchemaV3 answers = verify_tries (take 3 answers)"

definition NewContractClient ::
  "(string \<Rightarrow> bool) \<Rightarrow> bool \<Rightarrow> int option list \<Rightarrow> settlement_config \<Rightarrow> contract_client option" where
  "NewContractClient healthy key_ok answers cfg =
     (let endpoints = buildEndpoints (cfg_RPCURL cfg) (cfg_RPCURLs cfg)
      in case dialFirstHealthy healthy endpoints 0 of
           None \<Rightarrow> None
         | Some idx \<Rightarrow>
             (case contract_schema (cfg_ContractSchema cfg) of
                None \<Rightarrow> None
              | Some schema \<Rightarrow>
                  if \<not> key_ok \<or> (schema = 3 \<and> \<not> verifySchemaV3 answers) then None
                  else Some \<lparr>cc_endpoints = endpoints, cc_activeIdx = idx, cc_schema = schema\<rparr>))"

definition rotateEndpoint :: "(string \<Rightarrow> bool) \<Rightarrow> contract_client \<Rightarrow> contract_client" where
  "rotateEndpoint healthy c =
     (case dialFirstHealthy healthy (cc_endpoints c) (int (cc_activeIdx c) + 1) of
        None \<Rightarrow> c
      | Some idx \<Rightarrow> c\<lparr>cc_activeIdx := idx\<rparr>)"

definition ActiveEndpoint :: "contract_client \<Rightarrow> string" where
  "ActiveEndpoint c = cc_endpoints c ! cc_activeIdx c"

text \<open>One tick of the monitor; \<open>probe\<close> is whether the active endpoint answered it.\<close>

definition monitor_tick :: "bool \<Rightarrow> (string \<Rightarrow> bool) \<Rightarrow> contract_client \<Rightarrow> contract_client" where
  "monitor_tick probe healthy c =
     (if length (cc_endpoints c) < 2 then c else if probe then c else rotateEndpoint healthy c)"

section \<open>A stuck transaction is replaced\<close>

text \<open>
While the network's nonce has not moved past an unconfirmed submission, the next submission
  replaces it: it has the same nonce, and a gas price of at least the prior one plus 13 percent
  (rounded down) and of at least the suggestion plus a quarter. Once the network has moved on,
  or nothing is pending, the network's nonce is used.
\<close>

theorem decideNonceGas_spec:
  assumes "0 < lastGas" "0 < suggested"
  shows "decideNonceGas pending (Some suggested) None g = (pending, Some (suggested * 125 div 100))"
    and "decideNonceGas pending (Some suggested) (Some prior) (Some lastGas) =
      (if pending \<le> prior then (prior, Some (max (suggested * 125 div 100) (lastGas * 113 div 100)))
       else (pending, Some (suggested * 125 div 100)))"
  using assms
  by (auto simp: decideNonceGas_def bumpGasPrice_def gasHeadroomPercent_def gasReplacePercent_def Let_def max_def)

theorem stuck_nonce_kept:
  assumes "cl_lastNonce c = Some prior" "cl_lastGasPrice c = Some lastGas" "0 < lastGas" "0 < suggested"
    and "pending \<le> prior" "200 \<le> lastGas"
  shows "case transactor (Some pending) (Some suggested) c of (opts, c') \<Rightarrow>
    (\<exists>gas. opts = Some (prior, gas) \<and> cl_lastNonce c' = Some prior \<and> cl_lastGasPrice c' = Some gas \<and>
       1125 * lastGas \<le> 1000 * gas)"
proof -
  let ?g = "max (suggested * 125 div 100) (lastGas * 113 div 100)"
  have "lastGas * 113 < 100 * (lastGas * 113 div 100) + 100" by presburger
  then have "1125 * lastGas \<le> 1000 * ?g" using assms(6) by linarith
  then show ?thesis
    using assms(1-5) by (simp add: transactor_def decideNonceGas_spec(2))
qed

section \<open>Finality\<close>

text \<open>\<open>gone n polls\<close>: the polls begin with \<open>n\<close> misses that no sighting interrupts.\<close>

definition gone :: "nat \<Rightarrow> poll list \<Rightarrow> bool" where
  "gone n polls \<longleftrightarrow> (\<exists>qs rs. polls = qs @ rs \<and> count_list qs PollNotFound = n \<and>
     list_all (\<lambda>p. p = PollNotFound \<or> p = PollError) qs)"

lemma goneI:
  "gone 0 polls" "gone n polls \<Longrightarrow> gone (Suc n) (PollNotFound # polls)" "gone n polls \<Longrightarrow> gone n (PollError # polls)"
proof -
  show "gone 0 polls" unfolding gone_def by (intro exI [of _ "[]"] exI [of _ polls]) simp
  assume "gone n polls"
  then obtain qs rs where g: "polls = qs @ rs" "count_list qs PollNotFound = n"
    "list_all (\<lambda>p. p = PollNotFound \<or> p = PollError) qs" by (auto simp: gone_def)
  then show "gone (Suc n) (PollNotFound # polls)"
    unfolding gone_def by (intro exI [of _ "PollNotFound # qs"] exI [of _ rs]) simp
  from g show "gone n (PollError # polls)"
    unfolding gone_def by (intro exI [of _ "PollError # qs"] exI [of _ rs]) simp
qed

lemma finality_reorged:
  "finality_loop confirmations streak polls = ErrReorged \<Longrightarrow> streak < maxNotFoundStreak \<Longrightarrow>
   gone (maxNotFoundStreak - streak) polls \<or> (\<exists>ps rs. polls = ps @ rs \<and> gone maxNotFoundStreak rs)"
proof (induction polls arbitrary: streak)
  case (Cons p polls)
  have lift: ?case if "\<exists>ps rs. polls = ps @ rs \<and> gone maxNotFoundStreak rs"
    using that by (metis append_Cons)
  show ?case
  proof (cases p)
    case PollNotFound
    show ?thesis
    proof (cases "streak + 1 \<ge> maxNotFoundStreak")
      case True
      then have "maxNotFoundStreak - streak = Suc 0" using Cons.prems(2) by simp
      then show ?thesis using goneI(1,2) by (simp add: PollNotFound)
    next
      case False
      then have e: "maxNotFoundStreak - streak = Suc (maxNotFoundStreak - (streak + 1))" by simp
      show ?thesis
        using Cons.IH [of "streak + 1"] Cons.prems(1) False goneI(2) lift unfolding PollNotFound e by auto
    qed
  next
    case PollError
    with Cons.IH [of streak] Cons.prems goneI(3) lift show ?thesis by auto
  next
    case (PollFound r h)
    have "finality_loop confirmations 0 polls = ErrReorged"
      using Cons.prems(1) PollFound by (simp split: if_splits)
    with Cons.IH [of 0] Cons.prems(2) lift show ?thesis
      by (metis append_Nil diff_zero less_nat_zero_code neq0_conv)
  qed
qed simp

lemma finality_final:
  "finality_loop confirmations streak polls = Final r \<Longrightarrow>
   \<exists>h. PollFound r h \<in> set polls \<and> cr_block r + confirmations \<le> h"
  by (induction confirmations streak polls rule: finality_loop.induct) (auto split: poll.splits if_splits)

lemma finality_open:
  "finality_loop confirmations streak polls = ErrNotFinal \<Longrightarrow>
   list_all (\<lambda>p. case p of PollFound r h \<Rightarrow> h < cr_block r + confirmations | _ \<Rightarrow> True) polls"
  by (induction confirmations streak polls rule: finality_loop.induct) (auto split: poll.splits if_splits)

text \<open>
  A transaction is declared final only on a poll at which its receipt was there under the required
  number of blocks, and reorganised away only when its receipt was missing in five polls without
  being seen between them; otherwise it was never seen deep enough.
\<close>

theorem finality_verdicts:
  "case finality_loop confirmations 0 polls of
     Final r \<Rightarrow> (\<exists>h. PollFound r h \<in> set polls \<and> cr_block r + confirmations \<le> h)
   | ErrReorged \<Rightarrow> (\<exists>ps rs. polls = ps @ rs \<and> gone maxNotFoundStreak rs)
   | ErrNotFinal \<Rightarrow> list_all (\<lambda>p. case p of PollFound r h \<Rightarrow> h < cr_block r + confirmations | _ \<Rightarrow> True) polls"
proof (cases "finality_loop confirmations 0 polls")
  case (Final r)
  with finality_final [OF Final] show ?thesis by simp
next
  case ErrReorged
  have "0 < maxNotFoundStreak" by (simp add: maxNotFoundStreak_def)
  with finality_reorged [OF ErrReorged] ErrReorged show ?thesis
    by simp (metis append_Nil)
next
  case ErrNotFinal
  with finality_open [OF ErrNotFinal] show ?thesis by simp
qed

section \<open>Failover\<close>

definition dial_order :: "nat \<Rightarrow> int \<Rightarrow> nat \<Rightarrow> nat" where
  "dial_order n start i = nat (((start smod int n) + int n + int i) smod int n)"

lemma dial_loop_find:
  "dial_loop healthy es start is =
     map_option (dial_order (length es) start) (List.find (\<lambda>i. healthy (es ! dial_order (length es) start i)) is)"
  by (induction "is") (auto simp: Let_def dial_order_def)

lemma dial_idx:
  assumes "0 < n" "0 \<le> start"
  shows "dial_order n start i = (nat start + i) mod n"
proof -
  have "start smod int n = start mod int n" using assms by (simp add: signed_modulo_int_def sgn_if)
  moreover have "(start mod int n + int n + int i) smod int n = (start mod int n + int n + int i) mod int n"
  proof -
    have "0 < start mod int n + int n + int i" using assms pos_mod_sign [of "int n" start] by linarith
    then show ?thesis using assms(1) by (simp add: signed_modulo_int_def)
  qed
  moreover have "(start mod int n + int n + int i) mod int n = (start + int i) mod int n"
    by (metis add.commute add.left_commute mod_add_left_eq mod_add_self1)
  ultimately show ?thesis
    using assms by (simp add: dial_order_def nat_mod_distrib nat_add_distrib)
qed

text \<open>
  Failover never leaves the client without an endpoint and prefers another one: the active
  endpoint stays in the list; it is healthy after a rotation if any endpoint is; it differs from
  the one rotated away from whenever another endpoint is healthy; and if none is, it is kept.
\<close>

theorem rotateEndpoint_spec:
  assumes "cc_activeIdx c < length (cc_endpoints c)"
  shows "cc_activeIdx (rotateEndpoint healthy c) < length (cc_endpoints c) \<and>
    cc_endpoints (rotateEndpoint healthy c) = cc_endpoints c \<and>
    (if list_ex healthy (cc_endpoints c) then healthy (ActiveEndpoint (rotateEndpoint healthy c))
     else rotateEndpoint healthy c = c) \<and>
    (if \<exists>j<length (cc_endpoints c). j \<noteq> cc_activeIdx c \<and> healthy (cc_endpoints c ! j)
     then cc_activeIdx (rotateEndpoint healthy c) \<noteq> cc_activeIdx c else True)"
proof -
  define es a n where "es = cc_endpoints c" and "a = cc_activeIdx c" and "n = length es"
  have n: "0 < n" "a < n" using assms by (auto simp: es_def a_def n_def)
  have ix: "dial_order n (int a + 1) i = (Suc a + i) mod n" for i
    using dial_idx [OF n(1), of "int a + 1" i] by (simp add: nat_add_distrib)
  have hit: "\<exists>i<n. (Suc a + i) mod n = j" if "j < n" for j
  proof (cases "a < j")
    case True
    then have "(Suc a + (j - Suc a)) mod n = j" using that by simp
    then show ?thesis using that by (intro exI [of _ "j - Suc a"]) auto
  next
    case False
    then have "Suc a + (n - Suc a + j) = n + j" using n by simp
    then have "(Suc a + (n - Suc a + j)) mod n = j" using that by (metis mod_add_self1 mod_less)
    then show ?thesis using False n that by (intro exI [of _ "n - Suc a + j"]) auto
  qed
  define fd where "fd = List.find (\<lambda>i. healthy (es ! ((Suc a + i) mod n))) [0..<n]"
  have r: "rotateEndpoint healthy c = (case fd of None \<Rightarrow> c | Some i \<Rightarrow> c\<lparr>cc_activeIdx := (Suc a + i) mod n\<rparr>)"
  proof -
    have "es \<noteq> []" using n by (auto simp: n_def)
    then have "dialFirstHealthy healthy es (int a + 1) = map_option (\<lambda>i. (Suc a + i) mod n) fd"
      unfolding dialFirstHealthy_def n_def [symmetric] dial_loop_find fd_def by (simp add: ix [abs_def] del: add_Suc)
    then show ?thesis
      by (simp add: rotateEndpoint_def es_def [symmetric] a_def [symmetric] split: option.split)
  qed
  show ?thesis
  proof (cases fd)
    case None
    have no: "\<not> healthy (es ! j)" if "j < n" for j
      using None hit [OF that] unfolding fd_def find_None_iff by auto
    then have "\<not> list_ex healthy es" by (auto simp: list_ex_iff in_set_conv_nth n_def)
    then show ?thesis using assms None no unfolding r by (auto simp: es_def n_def)
  next
    case (Some i)
    then have i: "i < n" "healthy (es ! ((Suc a + i) mod n))" and first: "\<And>k. k < i \<Longrightarrow> \<not> healthy (es ! ((Suc a + k) mod n))"
      unfolding fd_def find_Some_iff by (auto dest: less_trans)
    let ?idx = "(Suc a + i) mod n"
    have lt: "?idx < n" using n by simp
    have "?idx \<noteq> a" if j: "j < n" "j \<noteq> a" "healthy (es ! j)" for j
    proof
      assume e: "?idx = a"
      obtain k where k: "k < n" "(Suc a + k) mod n = j" using hit [OF j(1)] by blast
      have "\<not> k < i" using first [of k] j(3) k(2) by auto
      have "i = n - 1"
      proof (rule ccontr)
        assume "i \<noteq> n - 1"
        then have "Suc i < n" using i(1) by simp
        moreover have "(a + Suc i) mod n = a" using e by simp
        moreover have "(a + Suc i) mod n = (if a + Suc i < n then a + Suc i else a + Suc i - n)"
          using calculation(1) n(2) by (simp add: mod_if)
        ultimately show False using n by (auto split: if_splits)
      qed
      moreover have "k \<noteq> n - 1" using k j(2) e \<open>i = n - 1\<close> by auto
      ultimately show False using k(1) \<open>\<not> k < i\<close> by simp
    qed
    moreover have "list_ex healthy es" using i lt by (auto simp: list_ex_iff n_def)
    ultimately show ?thesis
      using lt i(2) Some unfolding r by (auto simp: es_def [symmetric] a_def [symmetric] n_def [symmetric] ActiveEndpoint_def)
  qed
qed

theorem rotateEndpoint_spec_witness:
  "let c = \<lparr>cc_endpoints = [''a'', ''b'', ''c''], cc_activeIdx = 2, cc_schema = 2\<rparr>
   in cc_activeIdx (rotateEndpoint (\<lambda>u. u \<noteq> ''a'') c) \<noteq> 2 \<and> ActiveEndpoint (rotateEndpoint (\<lambda>u. u \<noteq> ''a'') c) \<noteq> ''a''"
proof -
  let ?c = "\<lparr>cc_endpoints = [''a'', ''b'', ''c''], cc_activeIdx = 2, cc_schema = 2\<rparr>"
  have lt: "cc_activeIdx ?c < length (cc_endpoints ?c)" by simp
  have "\<exists>j<length (cc_endpoints ?c). j \<noteq> cc_activeIdx ?c \<and> cc_endpoints ?c ! j \<noteq> ''a''"
    by (intro exI [of _ 1]) simp
  moreover have "list_ex (\<lambda>u. u \<noteq> ''a'') (cc_endpoints ?c)" by simp
  ultimately have "cc_activeIdx (rotateEndpoint (\<lambda>u. u \<noteq> ''a'') ?c) \<noteq> cc_activeIdx ?c"
    "ActiveEndpoint (rotateEndpoint (\<lambda>u. u \<noteq> ''a'') ?c) \<noteq> ''a''"
    using rotateEndpoint_spec [of ?c "\<lambda>u. u \<noteq> ''a''", OF lt] by (simp_all only: if_True simp_thms)
  then show ?thesis by (simp add: Let_def)
qed

end
