(* ===== verification/Settler.thy ===== *)
theory Settler
  imports ReceiptStore Contract
begin

text \<open>
  The settlement cycle (\<open>settlement/settler.go\<close>): resuming the frozen plan, one full cycle, the debt
  ledger, the running total, the dead-letter file and the per-request ledger. The chain is an
  argument, the operations of the Go interface \<open>settlementContract\<close> on an abstract state.
  Whether a write to disk succeeds is an argument too, so an error return also stands for a crash
  at that point: what survives of a process that dies is the files and the chain.
\<close>

section \<open>The chain as the settler sees it\<close>

datatype finality_result = FinalReceipt "chain_receipt option" | ReorgedTx | FinalityFailed

record 'c chain_ops =
  op_processed :: "'c \<Rightarrow> digest \<Rightarrow> bool option"
  op_submit :: "'c \<Rightarrow> settlement_batch \<Rightarrow> string option \<times> 'c"
  op_receipt :: "'c \<Rightarrow> string \<Rightarrow> (receipt_error + chain_receipt) \<times> 'c"
  op_finality :: "'c \<Rightarrow> string \<Rightarrow> nat \<Rightarrow> finality_result \<times> 'c"
  op_outcome :: "chain_receipt \<Rightarrow> settlement_outcome"

section \<open>The settler's state\<close>

datatype wal_file = NoWal | BadWal | Wal pending_settlement

record item_row =
  ir_rid :: string
  ir_sp :: string
  ir_user :: string
  ir_token :: string
  ir_tx :: string
  ir_hash :: string
  ir_block :: nat
  ir_at :: gotime

record audit_row =
  au_tx :: string
  au_block :: nat
  au_gas :: nat
  au_items :: nat
  au_hash :: string
  au_at :: gotime

record 'c settler =
  se_chain :: 'c
  se_wal :: wal_file
  se_cursor :: "cursor option"
  se_debts :: "debt_record list option"
  se_dead :: "(nat \<times> line) list"
  se_total :: "(usd_text \<times> gotime) option"
  se_items :: "(nat \<times> item_row) list"
  se_audit :: "audit_row list"
  se_store :: receipt_store
  se_balance :: balance_cache

record settle_io =
  io_wal :: "pending_settlement \<Rightarrow> bool"
  io_cursor :: bool
  io_total :: bool
  io_debts :: bool
  io_remove :: bool
  io_dead :: bool
  io_now :: gotime
  io_store :: store_env
  io_items :: bool
  io_audit :: bool
  io_item_len :: "item_row \<Rightarrow> nat"
  io_rec_len :: "request_record \<Rightarrow> nat"
  io_get :: balance_reads
  io_confirm :: balance_reads

datatype settle_error = ReadPending | BadBatchHash | PersistConfirm | DecodeBatch | SubmitBatch
  | ConfirmBatch receipt_error | BatchReorged | AwaitFinality | CommitCursorFailed | ScanFailed scan_error | WritePending

section \<open>Ledgers of a confirmed batch\<close>

text \<open>The per-request ledger is searched up to the first line of more than 1 MiB.\<close>

fun itemsLedgerHasHash :: "(nat \<times> item_row) list \<Rightarrow> string \<Rightarrow> bool" where
  "itemsLedgerHasHash [] h = False"
| "itemsLedgerHasHash ((k, r) # rs) h = (if k > max_line then False else ir_hash r = h \<or> itemsLedgerHasHash rs h)"

definition item_rows :: "pending_batch \<Rightarrow> string \<Rightarrow> nat \<Rightarrow> gotime \<Rightarrow> item_row list" where
  "item_rows b txHash block now =
     [\<lparr>ir_rid = rid, ir_sp = pi_sp it, ir_user = pi_user it, ir_token = pi_token it, ir_tx = txHash,
       ir_hash = pb_hash b, ir_block = block, ir_at = now\<rparr>. it \<leftarrow> pb_items b, rid \<leftarrow> pi_ids it]"

definition appendItemsLedger ::
  "bool \<Rightarrow> (item_row \<Rightarrow> nat) \<Rightarrow> pending_batch \<Rightarrow> string \<Rightarrow> nat \<Rightarrow> gotime \<Rightarrow> (nat \<times> item_row) list \<Rightarrow> (nat \<times> item_row) list" where
  "appendItemsLedger ok len b txHash block now ledger =
     (if itemsLedgerHasHash ledger (pb_hash b) \<or> \<not> ok then ledger
      else ledger @ List.map (\<lambda>r. (len r, r)) (item_rows b txHash block now))"

definition logSettlement :: "bool \<Rightarrow> audit_row \<Rightarrow> audit_row list \<Rightarrow> audit_row list" where
  "logSettlement ok entry audit = (if ok then audit @ [entry] else audit)"

definition FindSettlementByHash :: "audit_row list \<Rightarrow> string \<Rightarrow> audit_row option" where
  "FindSettlementByHash audit detailsHash =
     (let want = ToLower (TrimPrefix detailsHash ''0x'')
      in List.find (\<lambda>e. ToLower (TrimPrefix (au_hash e) ''0x'') = want) audit)"

section \<open>The running total and the debt ledger\<close>

definition readSettledTotal :: "(usd_text \<times> gotime) option \<Rightarrow> usd_text \<times> gotime" where
  "readSettledTotal file =
     (case file of
        None \<Rightarrow> (DecText 0 0, zero_time)
      | Some (total_usd, lastWAL) \<Rightarrow> if total_usd = NoText then (DecText 0 0, zero_time) else (total_usd, lastWAL))"

definition sum_settled :: "(string \<times> usd_text) list \<Rightarrow> bigfloat \<Rightarrow> bigfloat" where
  "sum_settled settledUSD start =
     fold (\<lambda>(_, s) acc. case ParseFloat s of Some amt \<Rightarrow> bf_acc acc amt | None \<Rightarrow> acc) settledUSD start"

definition addSettledTotal ::
  "bool \<Rightarrow> (string \<times> usd_text) list \<Rightarrow> gotime \<Rightarrow> (usd_text \<times> gotime) option \<Rightarrow> (usd_text \<times> gotime) option" where
  "addSettledTotal ok settledUSD walCreatedAt file =
     (let (cur, lastWAL) = readSettledTotal file
      in if walCreatedAt \<noteq> zero_time \<and> lastWAL = walCreatedAt then file
         else let start = (case ParseFloat cur of Some t \<Rightarrow> t | None \<Rightarrow> bf_zero)
              in if ok then Some (Text18 (sum_settled settledUSD start), walCreatedAt) else file)"

definition SettledUSDTotal :: "(usd_text \<times> gotime) option \<Rightarrow> bigfloat" where
  "SettledUSDTotal file = (case ParseFloat (fst (readSettledTotal file)) of Some v \<Rightarrow> v | None \<Rightarrow> bf_zero)"

definition DebtUSDTotal :: "debt_record list option \<Rightarrow> bigfloat" where
  "DebtUSDTotal file =
     fold (\<lambda>d acc. case cd_usd d of Some u \<Rightarrow> bf_acc acc u | None \<Rightarrow> acc) (loadDebts file) bf_zero"

text \<open>The suspension set is refreshed even when the file cannot be written; an empty ledger is removed.\<close>

definition saveDebts :: "bool \<Rightarrow> debt_record list \<Rightarrow> 'c settler \<Rightarrow> 'c settler" where
  "saveDebts ok debts s =
     (let s = s\<lparr>se_balance := fst (UpdateDebts (List.map (\<lambda>(w, v). (w, Some v)) (debt_by_wallet debts)) (se_balance s))\<rparr>
      in if \<not> ok then s
         else s\<lparr>se_debts := (if debts = [] then None else Some debts)\<rparr>)"

definition reducePendingSpend :: "(string \<times> usd_text) list \<Rightarrow> balance_cache \<Rightarrow> balance_cache" where
  "reducePendingSpend settledUSD bc =
     fold (\<lambda>(wallet, s) bc. case ParseFloat s of Some amt \<Rightarrow> SettleSpend wallet amt bc | None \<Rightarrow> bc) settledUSD bc"

section \<open>Resuming the plan\<close>

definition confirm_at :: "nat \<Rightarrow> pending_settlement \<Rightarrow> pending_settlement" where
  "confirm_at i p = p\<lparr>ps_batches := (ps_batches p)[i := (ps_batches p ! i)\<lparr>pb_confirmed := True\<rparr>]\<rparr>"

definition await_finality ::
  "'c chain_ops \<Rightarrow> int option \<Rightarrow> digest \<Rightarrow> string \<Rightarrow> chain_receipt \<Rightarrow> 'c \<Rightarrow> (settle_error + chain_receipt) \<times> 'c" where
  "await_finality ops dep h tx r c =
     (let d = (case dep of Some d \<Rightarrow> d | None \<Rightarrow> 0)
      in if d \<le> 0 then (Inr r, c)
         else case op_finality ops c tx (nat d) of
           (ReorgedTx, c) \<Rightarrow> if op_processed ops c h = Some True then (Inr r, c) else (Inl BatchReorged, c)
         | (FinalityFailed, c) \<Rightarrow> (Inl AwaitFinality, c)
         | (FinalReceipt (Some r'), c) \<Rightarrow> (Inr r', c)
         | (FinalReceipt None, c) \<Rightarrow> (Inr r, c))"

definition record_batch ::
  "settle_io \<Rightarrow> pending_batch \<Rightarrow> string \<Rightarrow> chain_receipt \<Rightarrow> 'c settler \<Rightarrow> 'c settler" where
  "record_batch io b tx r s =
     s\<lparr>se_audit := logSettlement (io_audit io) \<lparr>au_tx = tx, au_block = cr_block r, au_gas = cr_gas r,
          au_items = length (pb_items b), au_hash = pb_hash b, au_at = io_now io\<rparr> (se_audit s),
       se_items := appendItemsLedger (io_items io) (io_item_len io) b tx (cr_block r) (io_now io) (se_items s),
       se_store := appendMerkleLedger (io_store io) b tx (cr_block r) (se_store s)\<rparr>"

type_synonym 'c progress = "settle_error + pending_settlement"

text \<open>One batch: skipped when confirmed, marked when the chain has it, submitted otherwise.\<close>

definition resume_batch ::
  "(string \<Rightarrow> string) \<Rightarrow> 'c chain_ops \<Rightarrow> int option \<Rightarrow> settle_io \<Rightarrow> nat \<Rightarrow> pending_settlement \<Rightarrow> 'c settler \<Rightarrow>
   'c progress \<times> 'c settler" where
  "resume_batch hexa ops dep io i p s =
     (let b = ps_batches p ! i
      in if pb_confirmed b then (Inr p, s)
         else case hexToHash32 (pb_hash b) of
           None \<Rightarrow> (Inl BadBatchHash, s)
         | Some h \<Rightarrow>
             if op_processed ops (se_chain s) h = Some True
             then (let p = confirm_at i p
                   in if \<not> io_wal io p then (Inl PersistConfirm, s) else (Inr p, s\<lparr>se_wal := Wal p\<rparr>))
             else case toBatch hexa h b of
               None \<Rightarrow> (Inl DecodeBatch, s)
             | Some batch \<Rightarrow>
                 (case op_submit ops (se_chain s) batch of
                    (None, c) \<Rightarrow> (Inl SubmitBatch, s\<lparr>se_chain := c\<rparr>)
                  | (Some tx, c) \<Rightarrow>
                      (case op_receipt ops c tx of
                         (Inl e, c) \<Rightarrow> (Inl (ConfirmBatch e), s\<lparr>se_chain := c\<rparr>)
                       | (Inr r, c) \<Rightarrow>
                           (case await_finality ops dep h tx r c of
                              (Inl e, c) \<Rightarrow> (Inl e, s\<lparr>se_chain := c\<rparr>)
                            | (Inr r, c) \<Rightarrow>
                                (let p = confirm_at i (reverseFailedItems EqualFold b (op_outcome ops r) p)
                                 in if \<not> io_wal io p then (Inl PersistConfirm, s\<lparr>se_chain := c\<rparr>)
                                    else (Inr p, record_batch io (b\<lparr>pb_confirmed := True\<rparr>) tx r
                                                   (s\<lparr>se_chain := c, se_wal := Wal p\<rparr>)))))))"

fun resume_batches ::
  "(string \<Rightarrow> string) \<Rightarrow> 'c chain_ops \<Rightarrow> int option \<Rightarrow> settle_io \<Rightarrow> nat list \<Rightarrow> pending_settlement \<Rightarrow> 'c settler \<Rightarrow>
   'c progress \<times> 'c settler" where
  "resume_batches hexa ops dep io [] p s = (Inr p, s)"
| "resume_batches hexa ops dep io (i # js) p s =
     (case resume_batch hexa ops dep io i p s of
        (Inl e, s) \<Rightarrow> (Inl e, s)
      | (Inr p, s) \<Rightarrow> resume_batches hexa ops dep io js p s)"

definition finish_plan ::
  "(string \<Rightarrow> string) \<Rightarrow> settle_io \<Rightarrow> pending_settlement \<Rightarrow> 'c settler \<Rightarrow> settle_error option \<times> 'c settler" where
  "finish_plan hexa io p s =
     (if \<not> io_cursor io then (Some CommitCursorFailed, s)
      else let s = s\<lparr>se_cursor := CommitCursor (ps_cursor p) (se_cursor s)\<rparr>;
               s = s\<lparr>se_balance := reducePendingSpend (ps_settled p) (se_balance s)\<rparr>;
               s = s\<lparr>se_total := addSettledTotal (io_total io) (ps_settled p) (ps_created p) (se_total s)\<rparr>;
               s = saveDebts (io_debts io) (ps_debts p) s;
               s = (if io_remove io then s\<lparr>se_wal := NoWal\<rparr> else s);
               s = s\<lparr>se_balance := ForceRefresh hexa (io_get io) (io_confirm io) (se_balance s)\<rparr>
           in (None, s))"

definition resumePending ::
  "(string \<Rightarrow> string) \<Rightarrow> 'c chain_ops \<Rightarrow> int option \<Rightarrow> settle_io \<Rightarrow> 'c settler \<Rightarrow> settle_error option \<times> 'c settler" where
  "resumePending hexa ops dep io s =
     (case se_wal s of
        NoWal \<Rightarrow> (None, s)
      | BadWal \<Rightarrow> (Some ReadPending, s)
      | Wal p \<Rightarrow>
          (case resume_batches hexa ops dep io [0..<length (ps_batches p)] p s of
             (Inl e, s) \<Rightarrow> (Some e, s)
           | (Inr p, s) \<Rightarrow> finish_plan hexa io p s))"

section \<open>The dead-letter file\<close>

text \<open>Reading stops silently at a line of more than 1 MiB.\<close>

fun loadDeadLetter :: "(nat \<times> line) list \<Rightarrow> request_record list" where
  "loadDeadLetter [] = []"
| "loadDeadLetter ((k, l) # ls) =
     (if k > max_line then []
      else case l of Row rec \<Rightarrow> rec # loadDeadLetter ls | Malformed \<Rightarrow> loadDeadLetter ls)"

definition writeDeadLetter ::
  "bool \<Rightarrow> (request_record \<Rightarrow> nat) \<Rightarrow> request_record list \<Rightarrow> (nat \<times> line) list \<Rightarrow> (nat \<times> line) list" where
  "writeDeadLetter ok len records file =
     (if \<not> ok then file else List.map (\<lambda>r. (len r, Row r)) records)"

section \<open>One cycle\<close>

record cycle_view =
  cy_log :: log_dir
  cy_agg :: aggregator
  cy_pricer :: pricer
  cy_now :: gotime
  cy_workerSP :: "(string \<rightharpoonup> string) option"
  cy_payout :: "(string \<rightharpoonup> string) option"

definition records_by_id :: "request_record list \<Rightarrow> (string \<rightharpoonup> request_record)" where
  "records_by_id records = fold (\<lambda>r m. if rr_id r \<noteq> '''' then m(rr_id r \<mapsto> r) else m) records Map.empty"

definition refresh_maps :: "cycle_view \<Rightarrow> aggregator" where
  "refresh_maps v =
     (let a = (case cy_workerSP v of Some m \<Rightarrow> UpdateWorkerSPMap m (cy_agg v) | None \<Rightarrow> cy_agg v)
      in case cy_payout v of Some m \<Rightarrow> UpdateMinerPayoutMap m a | None \<Rightarrow> a)"

definition plan_cycle ::
  "(string \<Rightarrow> string) \<Rightarrow> settlement_config \<Rightarrow> cycle_view \<Rightarrow> settle_io \<Rightarrow> 'c settler \<Rightarrow>
   settle_error + (pending_settlement \<times> 'c settler) option" where
  "plan_cycle hexa cfg v io s =
     (case Peek (se_cursor s) (cy_log v) of
        Inl e \<Rightarrow> Inl (ScanFailed e)
      | Inr (records, _, newCursor) \<Rightarrow>
          let deadLettered = loadDeadLetter (se_dead s);
              carried = loadDebts (se_debts s)
          in if records = [] \<and> deadLettered = [] \<and> carried = [] then Inr None
             else if IsStale (cy_pricer v) (cy_now v) then Inr None
             else let records = deadLettered @ records;
                      (items, unresolved, settledPerWallet, remainingDebts) =
                        AggregateWithDebts hexa (refresh_maps v) records carried
                          (Some (GetFILPriceUSD (cy_pricer v))) (GetAllBalances (se_balance s));
                      s = s\<lparr>se_dead := writeDeadLetter (io_dead io) (io_rec_len io) unresolved (se_dead s)\<rparr>
                  in Inr (Some (buildPending (cfg_MaxBatchSize cfg) items newCursor
                        (floatMapToStrings settledPerWallet) (carriedDebtsToRecords remainingDebts)
                        (records_by_id records) (io_now io), s)))"

definition Settle ::
  "(string \<Rightarrow> string) \<Rightarrow> 'c chain_ops \<Rightarrow> settlement_config \<Rightarrow> cycle_view \<Rightarrow> settle_io \<Rightarrow> settle_io \<Rightarrow> 'c settler \<Rightarrow>
   settle_error option \<times> 'c settler" where
  "Settle hexa ops cfg v io0 io s =
     (case resumePending hexa ops (cfg_ConfirmationDepth cfg) io0 s of
        (Some e, s) \<Rightarrow> (Some e, s)
      | (None, s) \<Rightarrow>
          (case plan_cycle hexa cfg v io s of
             Inl e \<Rightarrow> (Some e, s)
           | Inr None \<Rightarrow> (None, s)
           | Inr (Some (p, s)) \<Rightarrow>
               if \<not> io_wal io p then (Some WritePending, s)
               else resumePending hexa ops (cfg_ConfirmationDepth cfg) io (s\<lparr>se_wal := Wal p\<rparr>)))"

section \<open>After a restart\<close>

definition restorePendingSpend :: "aggregator \<Rightarrow> log_dir \<Rightarrow> 'c settler \<Rightarrow> 'c settler" where
  "restorePendingSpend a d s =
     (let carried = loadDebts (se_debts s);
          bc = fold (\<lambda>c bc. AddPendingSpend (cd_wallet c) (cd_usd c) bc) carried (se_balance s);
          owed = fold (\<lambda>c m. case cd_usd c of
                    Some u \<Rightarrow> if bf_sign u > 0 then add_debt_usd (cd_wallet c) u m else m
                  | None \<Rightarrow> m) carried [];
          bc = fst (UpdateDebts (List.map (\<lambda>(w, v). (w, Some v)) owed) bc);
          dl = loadDeadLetter (se_dead s);
          bc = (if dl \<noteq> [] then RestorePendingSpend dl (recordCostUSD a) bc else bc);
          bc = (case Peek (se_cursor s) d of
                  Inl _ \<Rightarrow> bc
                | Inr (records, _, _) \<Rightarrow> if records = [] then bc else RestorePendingSpend records (recordCostUSD a) bc)
      in s\<lparr>se_balance := bc\<rparr>)"

text \<open>Start: finish an interrupted settlement, then rebuild the unsettled spending.\<close>

definition start_settler ::
  "(string \<Rightarrow> string) \<Rightarrow> 'c chain_ops \<Rightarrow> settlement_config \<Rightarrow> aggregator \<Rightarrow> log_dir \<Rightarrow> settle_io \<Rightarrow> 'c settler \<Rightarrow> 'c settler" where
  "start_settler hexa ops cfg a d io s =
     restorePendingSpend a d (snd (resumePending hexa ops (cfg_ConfirmationDepth cfg) io s))"

section \<open>What is assumed of the chain\<close>

text \<open>
  \<open>durable c h\<close>: the contract has recorded the batch with details hash \<open>h\<close> for good. A batch the
  contract reports as processed is durable; so is one whose transaction was mined successfully
  and, where a depth is configured, buried that deep; and what is durable stays so. These are the
  contract's \<open>processedBatches\<close> and the meaning of the confirmation depth.
\<close>

definition chain_ok :: "'c chain_ops \<Rightarrow> int option \<Rightarrow> ('c \<Rightarrow> digest \<Rightarrow> bool) \<Rightarrow> bool" where
  "chain_ok ops dep durable \<longleftrightarrow>
     (\<forall>c h. op_processed ops c h = Some True \<longrightarrow> durable c h) \<and>
     (\<forall>c b r c' h. op_submit ops c b = (r, c') \<longrightarrow> durable c h \<longrightarrow> durable c' h) \<and>
     (\<forall>c tx r c' h. op_receipt ops c tx = (r, c') \<longrightarrow> durable c h \<longrightarrow> durable c' h) \<and>
     (\<forall>c tx d r c' h. op_finality ops c tx d = (r, c') \<longrightarrow> durable c h \<longrightarrow> durable c' h) \<and>
     (\<forall>c b tx c1 r c2. op_submit ops c b = (Some tx, c1) \<longrightarrow> op_receipt ops c1 tx = (Inr r, c2) \<longrightarrow>
        (case dep of Some d \<Rightarrow> d | None \<Rightarrow> 0) \<le> 0 \<longrightarrow> durable c2 (sb_hash b)) \<and>
     (\<forall>c b tx c1 r c2 d fr c3. op_submit ops c b = (Some tx, c1) \<longrightarrow> op_receipt ops c1 tx = (Inr r, c2) \<longrightarrow>
       0 < d \<longrightarrow> dep = Some (int d) \<longrightarrow>
        op_finality ops c2 tx d = (FinalReceipt fr, c3) \<longrightarrow>
       (case fr of Some r' \<Rightarrow> cr_status_ok r' | None \<Rightarrow> True) \<longrightarrow> durable c3 (sb_hash b))"

text \<open>
  The wait for finality does not look at the status of the receipt it returns: a transaction that a
  reorganisation mined again may have reverted there. \<open>finals_succeed\<close> excludes that.
\<close>

definition finals_succeed :: "'c chain_ops \<Rightarrow> bool" where
  "finals_succeed ops \<longleftrightarrow>
     (\<forall>c tx d r c'. op_finality ops c tx d = (FinalReceipt (Some r), c') \<longrightarrow> cr_status_ok r)"

lemma chain_okD:
  assumes "chain_ok ops dep durable" "finals_succeed ops"
  shows "op_processed ops c h = Some True \<Longrightarrow> durable c h"
    "op_submit ops c b = (t, c') \<Longrightarrow> durable c h \<Longrightarrow> durable c' h"
    "op_receipt ops c tx = (r, c') \<Longrightarrow> durable c h \<Longrightarrow> durable c' h"
    "op_finality ops c tx d = (f, c') \<Longrightarrow> durable c h \<Longrightarrow> durable c' h"
    "op_submit ops c b = (Some tx, c1) \<Longrightarrow> op_receipt ops c1 tx = (Inr rc, c2) \<Longrightarrow>
       (case dep of Some d \<Rightarrow> d | None \<Rightarrow> 0) \<le> 0 \<Longrightarrow> durable c2 (sb_hash b)"
    "op_submit ops c b = (Some tx, c1) \<Longrightarrow> op_receipt ops c1 tx = (Inr rc, c2) \<Longrightarrow> 0 < d \<Longrightarrow> dep = Some (int d) \<Longrightarrow>
       op_finality ops c2 tx d = (FinalReceipt fr, c3) \<Longrightarrow> durable c3 (sb_hash b)"
proof -
  note a = assms(1) [unfolded chain_ok_def]
  note a1 = a [THEN conjunct1] and a2 = a [THEN conjunct2, THEN conjunct1]
    and a3 = a [THEN conjunct2, THEN conjunct2, THEN conjunct1]
    and a4 = a [THEN conjunct2, THEN conjunct2, THEN conjunct2, THEN conjunct1]
    and a5 = a [THEN conjunct2, THEN conjunct2, THEN conjunct2, THEN conjunct2, THEN conjunct1]
    and a6 = a [THEN conjunct2, THEN conjunct2, THEN conjunct2, THEN conjunct2, THEN conjunct2]
  show "op_processed ops c h = Some True \<Longrightarrow> durable c h" using a1 by simp
  show "op_submit ops c b = (t, c') \<Longrightarrow> durable c h \<Longrightarrow> durable c' h" using a2 by simp
  show "op_receipt ops c tx = (r, c') \<Longrightarrow> durable c h \<Longrightarrow> durable c' h" using a3 by simp
  show "op_finality ops c tx d = (f, c') \<Longrightarrow> durable c h \<Longrightarrow> durable c' h" using a4 by simp
  show "op_submit ops c b = (Some tx, c1) \<Longrightarrow> op_receipt ops c1 tx = (Inr rc, c2) \<Longrightarrow>
       (case dep of Some d \<Rightarrow> d | None \<Rightarrow> 0) \<le> 0 \<Longrightarrow> durable c2 (sb_hash b)" using a5 by simp
  show "op_submit ops c b = (Some tx, c1) \<Longrightarrow> op_receipt ops c1 tx = (Inr rc, c2) \<Longrightarrow> 0 < d \<Longrightarrow> dep = Some (int d) \<Longrightarrow>
       op_finality ops c2 tx d = (FinalReceipt fr, c3) \<Longrightarrow> durable c3 (sb_hash b)"
    using a6 assms(2) by (cases fr) (fastforce simp: finals_succeed_def)+
qed

lemma await_finality_durable:
  assumes ok: "chain_ok ops dep durable" "finals_succeed ops" and sub: "op_submit ops c0 b = (Some tx, c1)"
    and rc: "op_receipt ops c1 tx = (Inr r, c)" and aw: "await_finality ops dep (sb_hash b) tx r c = (res, c')"
  shows "(durable c h \<longrightarrow> durable c' h) \<and> (case res of Inl _ \<Rightarrow> True | Inr _ \<Rightarrow> durable c' (sb_hash b))"
proof (cases "(case dep of Some d \<Rightarrow> d | None \<Rightarrow> 0) \<le> 0")
  case True
  with aw chain_okD(5) [OF ok sub rc] show ?thesis by (auto simp: await_finality_def)
next
  case False
  obtain f c2 where f: "op_finality ops c tx (nat (case dep of Some d \<Rightarrow> d | None \<Rightarrow> 0)) = (f, c2)"
    by (cases "op_finality ops c tx (nat (case dep of Some d \<Rightarrow> d | None \<Rightarrow> 0))") auto
  note mono = chain_okD(4) [OF ok f]
  show ?thesis
  proof (cases f)
    case (FinalReceipt fr)
    obtain k where k: "dep = Some k" "0 < k" using False by (cases dep) auto
    have "op_finality ops c tx (nat k) = (FinalReceipt fr, c2)" using f k FinalReceipt by simp
    moreover have "0 < nat k" "dep = Some (int (nat k))" using k by simp_all
    ultimately have "durable c2 (sb_hash b)" using chain_okD(6) [OF ok sub rc] by blast
    with mono aw False f FinalReceipt show ?thesis
      by (cases fr) (auto simp: await_finality_def)
  next
    case ReorgedTx
    with mono aw False f chain_okD(1) [OF ok, of c2 "sb_hash b"] show ?thesis
      by (auto simp: await_finality_def split: if_splits)
  next
    case FinalityFailed
    with mono aw False f show ?thesis by (auto simp: await_finality_def)
  qed
qed

section \<open>One batch\<close>

definition same_plan :: "pending_settlement \<Rightarrow> pending_settlement \<Rightarrow> bool" where
  "same_plan p p' \<longleftrightarrow> ps_cursor p' = ps_cursor p \<and> ps_created p' = ps_created p \<and>
     List.map (pb_confirmed_update (\<lambda>_. True)) (ps_batches p') = List.map (pb_confirmed_update (\<lambda>_. True)) (ps_batches p)"

definition confirmed_ok :: "('c \<Rightarrow> digest \<Rightarrow> bool) \<Rightarrow> 'c \<Rightarrow> pending_settlement \<Rightarrow> bool" where
  "confirmed_ok durable c p \<longleftrightarrow>
     (\<forall>b\<in>set (ps_batches p). pb_confirmed b \<longrightarrow> (\<exists>h. hexToHash32 (pb_hash b) = Some h \<and> durable c h))"

definition same_books :: "'c settler \<Rightarrow> 'c settler \<Rightarrow> bool" where
  "same_books s s' \<longleftrightarrow> se_cursor s' = se_cursor s \<and> se_debts s' = se_debts s \<and> se_dead s' = se_dead s \<and>
     se_total s' = se_total s \<and> se_balance s' = se_balance s"

lemma same_plan_refl [simp]: "same_plan p p" and same_books_refl [simp]: "same_books s s"
  by (simp_all add: same_plan_def same_books_def)

lemma same_plan_trans: "same_plan p q \<Longrightarrow> same_plan q r \<Longrightarrow> same_plan p r"
  by (simp add: same_plan_def)

lemma same_books_trans: "same_books s t \<Longrightarrow> same_books t u \<Longrightarrow> same_books s u"
  by (simp add: same_books_def)

lemma same_plan_length: "same_plan p p' \<Longrightarrow> length (ps_batches p') = length (ps_batches p)"
  unfolding same_plan_def by (metis length_map)

lemma same_plan_confirm: "i < length (ps_batches p) \<Longrightarrow> same_plan p (confirm_at i p)"
  by (simp add: same_plan_def confirm_at_def map_update list_update_same_conv)

lemma reverse_frame [simp]:
  "ps_batches (reverseFailedItems same b out p) = ps_batches p"
  "ps_cursor (reverseFailedItems same b out p) = ps_cursor p"
  "ps_created (reverseFailedItems same b out p) = ps_created p"
  by (simp_all add: reverseFailedItems_def Let_def split: prod.split)

lemma same_plan_reverse: "same_plan p (reverseFailedItems same b out p)"
  by (simp add: same_plan_def)

lemma confirmed_mono:
  "confirmed_ok durable c p \<Longrightarrow> (\<And>h. durable c h \<Longrightarrow> durable c' h) \<Longrightarrow> confirmed_ok durable c' p"
  by (fastforce simp: confirmed_ok_def)

lemma confirm_at_length [simp]: "length (ps_batches (confirm_at i p)) = length (ps_batches p)"
  by (simp add: confirm_at_def)

lemma confirmed_confirm:
  assumes "confirmed_ok durable c p" "i < length (ps_batches p)"
    and "hexToHash32 (pb_hash (ps_batches p ! i)) = Some h" "durable c h"
  shows "confirmed_ok durable c (confirm_at i p)"
proof -
  have "\<exists>h. hexToHash32 (pb_hash (ps_batches (confirm_at i p) ! j)) = Some h \<and> durable c h"
    if "j < length (ps_batches p)" "pb_confirmed (ps_batches (confirm_at i p) ! j)" for j
  proof (cases "j = i")
    case True
    with assms(2-4) show ?thesis by (simp add: confirm_at_def)
  next
    case False
    with that assms(1) show ?thesis by (simp add: confirm_at_def confirmed_ok_def)
  qed
  then show ?thesis unfolding confirmed_ok_def
    by (auto simp: in_set_conv_nth)
qed

definition kept_confirmed :: "pending_settlement \<Rightarrow> pending_settlement \<Rightarrow> bool" where
  "kept_confirmed p p' \<longleftrightarrow> (\<forall>j<length (ps_batches p). pb_confirmed (ps_batches p ! j) \<longrightarrow> pb_confirmed (ps_batches p' ! j))"

lemma record_batch_frame [simp]:
  "same_books s (record_batch io b tx r s)" "se_chain (record_batch io b tx r s) = se_chain s"
  "se_wal (record_batch io b tx r s) = se_wal s"
  by (simp_all add: record_batch_def same_books_def)

lemma toBatch_hash: "toBatch hexa h b = Some batch \<Longrightarrow> sb_hash batch = h"
  by (auto simp: toBatch_def Let_def split: if_splits)

lemma resume_batch_ok:
  assumes ok: "chain_ok ops dep durable" "finals_succeed ops" and w: "se_wal s = Wal p" and i: "i < length (ps_batches p)"
    and conf: "confirmed_ok durable (se_chain s) p"
    and res: "resume_batch hexa ops dep io i p s = (res, s')"
  shows "same_books s s' \<and> (\<forall>h. durable (se_chain s) h \<longrightarrow> durable (se_chain s') h) \<and>
    (case res of
       Inl e \<Rightarrow> se_wal s' = Wal p
     | Inr p' \<Rightarrow> se_wal s' = Wal p' \<and> same_plan p p' \<and> confirmed_ok durable (se_chain s') p' \<and>
         kept_confirmed p p' \<and> pb_confirmed (ps_batches p' ! i))"
proof -
  let ?b = "ps_batches p ! i"
  have kc: "kept_confirmed p (confirm_at i q)" if "ps_batches q = ps_batches p" for q
    using i that by (auto simp: kept_confirmed_def confirm_at_def nth_list_update)
  have ci: "pb_confirmed (ps_batches (confirm_at i q) ! i)" if "ps_batches q = ps_batches p" for q
    using i that by (simp add: confirm_at_def)
  show ?thesis
  proof (cases "pb_confirmed ?b")
    case True
    with res w conf show ?thesis by (auto simp: resume_batch_def Let_def kept_confirmed_def)
  next
    case nc: False
    show ?thesis
    proof (cases "hexToHash32 (pb_hash ?b)")
      case None
      with res w nc show ?thesis by (auto simp: resume_batch_def Let_def)
    next
      case (Some h)
      show ?thesis
      proof (cases "op_processed ops (se_chain s) h = Some True")
        case pr: True
        have "confirmed_ok durable (se_chain s) (confirm_at i p)"
          by (rule confirmed_confirm [OF conf i Some chain_okD(1) [OF ok pr]])
        with res w nc Some pr kc [of p] ci [of p] same_plan_confirm [OF i] show ?thesis
          by (auto simp: resume_batch_def Let_def same_books_def split: if_splits)
      next
        case npr: False
        show ?thesis
        proof (cases "toBatch hexa h ?b")
          case None
          with res w nc Some npr show ?thesis by (auto simp: resume_batch_def Let_def)
        next
          case tb: (Some batch)
          obtain t c1 where sub: "op_submit ops (se_chain s) batch = (t, c1)"
            by (cases "op_submit ops (se_chain s) batch")
          note m1 = chain_okD(2) [OF ok sub]
          show ?thesis
          proof (cases t)
            case None
            with res w nc Some npr tb sub m1 show ?thesis
              by (auto simp: resume_batch_def Let_def same_books_def)
          next
            case t: (Some tx)
            obtain rr c2 where rc: "op_receipt ops c1 tx = (rr, c2)" by (cases "op_receipt ops c1 tx")
            note m2 = chain_okD(3) [OF ok rc]
            show ?thesis
            proof (cases rr)
              case (Inl e)
              with res w nc Some npr tb sub t rc m1 m2 show ?thesis
                by (auto simp: resume_batch_def Let_def same_books_def)
            next
              case (Inr r)
              obtain fr c3 where aw: "await_finality ops dep h tx r c2 = (fr, c3)"
                by (cases "await_finality ops dep h tx r c2")
              have bh: "sb_hash batch = h" by (rule toBatch_hash [OF tb])
              note fd = await_finality_durable [OF ok sub [unfolded t] rc [unfolded Inr] aw [folded bh]]
              have m: "durable c3 h'" if "durable (se_chain s) h'" for h'
                using that m1 m2 fd by blast
              show ?thesis
              proof (cases fr)
                case (Inl e)
                with res w nc Some npr tb sub t rc \<open>rr = Inr r\<close> aw m show ?thesis
                  by (auto simp: resume_batch_def Let_def same_books_def)
              next
                case fin: (Inr r')
                let ?q = "reverseFailedItems EqualFold ?b (op_outcome ops r') p"
                let ?p = "confirm_at i ?q"
                have dh: "durable c3 h" using fd fin bh by simp
                have "confirmed_ok durable c3 ?q"
                  using confirmed_mono [OF conf m] by (simp add: confirmed_ok_def)
                then have cp: "confirmed_ok durable c3 ?p"
                  using confirmed_confirm [of durable c3 ?q i h] i Some dh by simp
                have sp: "same_plan p ?p"
                  using same_plan_trans [OF same_plan_reverse same_plan_confirm] i by simp
                have e: "resume_batch hexa ops dep io i p s =
                    (if \<not> io_wal io ?p then (Inl PersistConfirm, s\<lparr>se_chain := c3\<rparr>)
                     else (Inr ?p, record_batch io (?b\<lparr>pb_confirmed := True\<rparr>) tx r' (s\<lparr>se_chain := c3, se_wal := Wal ?p\<rparr>)))"
                  using nc Some npr tb sub t rc \<open>rr = Inr r\<close> aw fin by (simp add: resume_batch_def Let_def)
                have "same_books s (record_batch io (?b\<lparr>pb_confirmed := True\<rparr>) tx r' (s\<lparr>se_chain := c3, se_wal := Wal ?p\<rparr>))"
                  by (rule same_books_trans [OF _ record_batch_frame(1)]) (simp add: same_books_def)
                with e res w m cp sp kc [of ?q] ci [of ?q] show ?thesis
                  by (cases "io_wal io ?p") (auto simp: same_books_def)
              qed
            qed
          qed
        qed
      qed
    qed
  qed
qed

section \<open>All batches\<close>

lemma kept_confirmed_trans:
  "kept_confirmed p q \<Longrightarrow> kept_confirmed q r \<Longrightarrow> length (ps_batches q) = length (ps_batches p) \<Longrightarrow> kept_confirmed p r"
  by (simp add: kept_confirmed_def)

lemma resume_batches_ok:
  assumes ok: "chain_ok ops dep durable" "finals_succeed ops"
  shows "se_wal s = Wal p \<Longrightarrow> \<forall>i\<in>set is. i < length (ps_batches p) \<Longrightarrow> confirmed_ok durable (se_chain s) p \<Longrightarrow>
    resume_batches hexa ops dep io is p s = (res, s') \<Longrightarrow>
    same_books s s' \<and> (\<forall>h. durable (se_chain s) h \<longrightarrow> durable (se_chain s') h) \<and>
    (\<exists>p'. se_wal s' = Wal p' \<and> same_plan p p' \<and> confirmed_ok durable (se_chain s') p' \<and>
       (case res of Inl _ \<Rightarrow> True
        | Inr q \<Rightarrow> q = p' \<and> kept_confirmed p p' \<and> (\<forall>i\<in>set is. pb_confirmed (ps_batches p' ! i))))"
proof (induction "is" arbitrary: p s)
  case Nil
  then show ?case by (auto simp: kept_confirmed_def)
next
  case (Cons i js)
  obtain r1 s1 where b: "resume_batch hexa ops dep io i p s = (r1, s1)"
    by (cases "resume_batch hexa ops dep io i p s")
  have i: "i < length (ps_batches p)" using Cons.prems(2) by simp
  note one = resume_batch_ok [OF ok Cons.prems(1) i Cons.prems(3) b]
  show ?case
  proof (cases r1)
    case (Inl e)
    have "confirmed_ok durable (se_chain s1) p"
      using confirmed_mono [OF Cons.prems(3), of "se_chain s1"] one by blast
    with one Cons.prems(4) b Inl show ?thesis by (auto intro!: exI [of _ p])
  next
    case (Inr p1)
    with one have 1: "same_books s s1" "\<forall>h. durable (se_chain s) h \<longrightarrow> durable (se_chain s1) h" "se_wal s1 = Wal p1"
      "same_plan p p1" "confirmed_ok durable (se_chain s1) p1" "kept_confirmed p p1" "pb_confirmed (ps_batches p1 ! i)"
      by simp_all
    have len: "length (ps_batches p1) = length (ps_batches p)" by (rule same_plan_length [OF 1(4)])
    have res: "resume_batches hexa ops dep io js p1 s1 = (res, s')" using Cons.prems(4) b Inr by simp
    have js: "\<forall>i\<in>set js. i < length (ps_batches p1)" using Cons.prems(2) len by simp
    from Cons.IH [OF 1(3) js 1(5) res] obtain p' where IH: "same_books s1 s'"
      "\<forall>h. durable (se_chain s1) h \<longrightarrow> durable (se_chain s') h" "se_wal s' = Wal p'" "same_plan p1 p'"
      "confirmed_ok durable (se_chain s') p'"
      "case res of Inl _ \<Rightarrow> True | Inr q \<Rightarrow> q = p' \<and> kept_confirmed p1 p' \<and> (\<forall>i\<in>set js. pb_confirmed (ps_batches p' ! i))"
      by blast
    have "case res of Inl _ \<Rightarrow> True
        | Inr q \<Rightarrow> q = p' \<and> kept_confirmed p p' \<and> (\<forall>i\<in>set (i # js). pb_confirmed (ps_batches p' ! i))"
    proof (cases res)
      case (Inr q)
      with IH(6) have q: "q = p'" "kept_confirmed p1 p'" "\<forall>i\<in>set js. pb_confirmed (ps_batches p' ! i)" by simp_all
      moreover have "pb_confirmed (ps_batches p' ! i)" using q(2) 1(7) i len by (simp add: kept_confirmed_def)
      ultimately show ?thesis using Inr kept_confirmed_trans [OF 1(6) q(2) len] by simp
    qed simp
    then show ?thesis
      using 1 IH same_books_trans [OF 1(1) IH(1)] same_plan_trans [OF 1(4) IH(4)] by blast
  qed
qed

definition wal_ok :: "('c \<Rightarrow> digest \<Rightarrow> bool) \<Rightarrow> 'c settler \<Rightarrow> bool" where
  "wal_ok durable s \<longleftrightarrow> (case se_wal s of Wal p \<Rightarrow> confirmed_ok durable (se_chain s) p | _ \<Rightarrow> True)"

definition all_durable :: "('c \<Rightarrow> digest \<Rightarrow> bool) \<Rightarrow> 'c \<Rightarrow> pending_settlement \<Rightarrow> bool" where
  "all_durable durable c p \<longleftrightarrow>
     list_all (\<lambda>b. case hexToHash32 (pb_hash b) of Some h \<Rightarrow> durable c h | None \<Rightarrow> False) (ps_batches p)"

lemma all_durable_same_plan: "same_plan p p' \<Longrightarrow> all_durable durable c p' \<Longrightarrow> all_durable durable c p"
proof -
  assume "same_plan p p'" "all_durable durable c p'"
  then have m: "List.map (pb_confirmed_update (\<lambda>_. True)) (ps_batches p') =
      List.map (pb_confirmed_update (\<lambda>_. True)) (ps_batches p)" by (simp add: same_plan_def)
  have h: "List.map pb_hash bs = List.map pb_hash (List.map (pb_confirmed_update (\<lambda>_. True)) bs)" for bs
    by (simp add: comp_def)
  have "List.map pb_hash (ps_batches p') = List.map pb_hash (ps_batches p)"
    by (subst (1 2) h) (simp only: m)
  moreover have "all_durable durable c q \<longleftrightarrow>
      list_all (\<lambda>s. case hexToHash32 s of Some h \<Rightarrow> durable c h | None \<Rightarrow> False) (List.map pb_hash (ps_batches q))" for q
    by (simp add: all_durable_def list_all_iff)
  ultimately show ?thesis using \<open>all_durable durable c p'\<close> by simp
qed

lemma all_confirmed_durable:
  "confirmed_ok durable c p \<Longrightarrow> \<forall>i\<in>set [0..<length (ps_batches p)]. pb_confirmed (ps_batches p ! i) \<Longrightarrow>
   all_durable durable c p"
  unfolding all_durable_def confirmed_ok_def list_all_iff by (fastforce simp: in_set_conv_nth)

lemma finish_fields:
  assumes "finish_plan hexa io p s = (None, s')"
  shows "se_cursor s' = Some (ps_cursor p)" "se_chain s' = se_chain s"
    "se_wal s' = (if io_remove io then NoWal else se_wal s)"
    "se_total s' = addSettledTotal (io_total io) (ps_settled p) (ps_created p) (se_total s)"
    "se_debts s' = (if \<not> io_debts io then se_debts s else if ps_debts p = [] then None else Some (ps_debts p))"
    "se_dead s' = se_dead s" "se_items s' = se_items s" "se_store s' = se_store s" "se_audit s' = se_audit s"
  using assms by (auto simp: finish_plan_def Let_def saveDebts_def CommitCursor_def split: if_splits)

lemma finish_error: "finish_plan hexa io p s = (Some e, s') \<Longrightarrow> s' = s"
  by (auto simp: finish_plan_def Let_def split: if_splits)

section \<open>Money is booked only after the chain has moved it\<close>

text \<open>
  C6: Settled means durable. Let the chain and its client obey their laws (\<open>chain_ok\<close>) and a receipt that finality confirms be a
  successful one (\<open>finals_succeed\<close>: a transaction mined again after a reorganisation could have reverted, and waiting for
  finality does not look), and let the plan on disk mark only batches as confirmed that the chain has recorded for good (\<open>wal_ok\<close>). Then
  the cursor is committed, the debts are replaced and the plan is discarded only when every batch
  of the plan is durably recorded on the chain; and any failure before that leaves the cursor,
  the debt ledger, the running total, the dead letters and the unsettled spending as they were
  and the same plan (the same batches, items and hashes) on disk, so that a retry submits the same.
\<close>

theorem settled_means_durable:
  assumes "chain_ok ops dep durable" "finals_succeed ops" "wal_ok durable s" "se_wal s = Wal p"
  shows "case resumePending hexa ops dep io s of
      (None, s') \<Rightarrow> all_durable durable (se_chain s') p \<and> se_cursor s' = Some (ps_cursor p)
    | (Some e, s') \<Rightarrow> same_books s s' \<and> wal_ok durable s' \<and>
        (case se_wal s' of Wal p' \<Rightarrow> same_plan p p' | _ \<Rightarrow> False)"
proof -
  obtain res s1 where r: "resume_batches hexa ops dep io [0..<length (ps_batches p)] p s = (res, s1)"
    by (cases "resume_batches hexa ops dep io [0..<length (ps_batches p)] p s")
  have conf: "confirmed_ok durable (se_chain s) p" using assms(3,4) by (simp add: wal_ok_def)
  have "\<forall>i\<in>set [0..<length (ps_batches p)]. i < length (ps_batches p)" by simp
  from resume_batches_ok [OF assms(1,2,4) this conf r] obtain p' where b: "same_books s s1" "se_wal s1 = Wal p'"
    "same_plan p p'" "confirmed_ok durable (se_chain s1) p'"
    "case res of Inl _ \<Rightarrow> True
     | Inr q \<Rightarrow> q = p' \<and> kept_confirmed p p' \<and> (\<forall>i\<in>set [0..<length (ps_batches p)]. pb_confirmed (ps_batches p' ! i))"
    by blast
  have wk: "wal_ok durable s1" using b(2,4) by (simp add: wal_ok_def)
  show ?thesis
  proof (cases res)
    case (Inl e)
    with r b wk assms(4) show ?thesis by (simp add: resumePending_def)
  next
    case (Inr q)
    with b(5) have q: "q = p'" "\<forall>i\<in>set [0..<length (ps_batches p)]. pb_confirmed (ps_batches p' ! i)" by simp_all
    have e: "resumePending hexa ops dep io s = finish_plan hexa io p' s1"
      using r Inr q(1) assms(4) by (simp add: resumePending_def)
    show ?thesis
    proof (cases "finish_plan hexa io p' s1")
      case (Pair fe s')
      show ?thesis
      proof (cases fe)
        case None
        have "all_durable durable (se_chain s1) p'"
          using all_confirmed_durable [OF b(4)] q(2) same_plan_length [OF b(3)] by simp
        with all_durable_same_plan [OF b(3)] finish_fields [of hexa io p' s1 s'] Pair None b(3) show ?thesis
          by (simp add: e same_plan_def)
      next
        case (Some er)
        with finish_error [of hexa io p' s1] Pair b wk show ?thesis by (simp add: e)
      qed
    qed
  qed
qed

lemma resume_all_confirmed:
  "\<forall>i\<in>set is. pb_confirmed (ps_batches p ! i) \<Longrightarrow> resume_batches hexa ops dep io is p s = (Inr p, s)"
  by (induction "is") (simp_all add: resume_batch_def Let_def)

lemma refreshAll_pending [simp]: "pendingSpend (refreshAll hexa get confirm bc) = pendingSpend bc"
proof -
  have "pendingSpend (fold (refreshWallet hexa get confirm) ws bc) = pendingSpend bc" for ws
    by (induction ws arbitrary: bc) (simp_all add: ledger_simps)
  then show ?thesis by (simp add: refreshAll_def)
qed

text \<open>
  A plan that was finished but not removed is finished again without charging anyone: the chain,
  the cursor, the running total, the debts and the ledgers are as after the first time. Only the
  wallets' unsettled spending is reduced by the plan's amounts once more.
\<close>

theorem finishing_twice:
  assumes "chain_ok ops dep durable" "finals_succeed ops" "wal_ok durable s" "se_wal s = Wal p"
    and "resumePending hexa ops dep io s = (None, s1)" "\<not> io_remove io" "io_cursor io'" "io_debts io"
    and "io_total io" "ps_created p \<noteq> zero_time"
  shows "\<exists>p'. se_wal s1 = Wal p' \<and> same_plan p p' \<and> (case resumePending hexa ops dep io' s1 of (r, s2) \<Rightarrow>
    r = None \<and> se_chain s2 = se_chain s1 \<and> se_cursor s2 = se_cursor s1 \<and> se_total s2 = se_total s1 \<and>
    se_debts s2 = se_debts s1 \<and> se_dead s2 = se_dead s1 \<and> se_items s2 = se_items s1 \<and> se_audit s2 = se_audit s1 \<and>
    se_store s2 = se_store s1 \<and>
    pendingSpend (se_balance s2) = pendingSpend (reducePendingSpend (ps_settled p') (se_balance s1)))"
proof -
  obtain res s0 where r: "resume_batches hexa ops dep io [0..<length (ps_batches p)] p s = (res, s0)"
    by (cases "resume_batches hexa ops dep io [0..<length (ps_batches p)] p s")
  have conf: "confirmed_ok durable (se_chain s) p" using assms(3,4) by (simp add: wal_ok_def)
  have "\<forall>i\<in>set [0..<length (ps_batches p)]. i < length (ps_batches p)" by simp
  from resume_batches_ok [OF assms(1,2,4) this conf r] obtain p' where b: "se_wal s0 = Wal p'"
    "same_plan p p'" "case res of Inl _ \<Rightarrow> True
     | Inr q \<Rightarrow> q = p' \<and> kept_confirmed p p' \<and> (\<forall>i\<in>set [0..<length (ps_batches p)]. pb_confirmed (ps_batches p' ! i))"
    by blast
  obtain q where q: "res = Inr q" using r assms(4,5) by (cases res) (simp_all add: resumePending_def)
  with b(3) have qp: "q = p'" "\<forall>i\<in>set [0..<length (ps_batches p)]. pb_confirmed (ps_batches p' ! i)" by simp_all
  have f1: "finish_plan hexa io p' s0 = (None, s1)" using r q qp(1) assms(4,5) by (simp add: resumePending_def)
  note one = finish_fields [OF f1]
  have w1: "se_wal s1 = Wal p'" using one(3) assms(6) b(1) by simp
  have rb: "resume_batches hexa ops dep io' [0..<length (ps_batches p')] p' s1 = (Inr p', s1)"
    by (rule resume_all_confirmed) (use qp(2) same_plan_length [OF b(2)] in simp)
  have e2: "resumePending hexa ops dep io' s1 = finish_plan hexa io' p' s1" using w1 rb by (simp add: resumePending_def)
  obtain s2 where f2: "finish_plan hexa io' p' s1 = (None, s2)" using assms(7) by (simp add: finish_plan_def Let_def)
  note two = finish_fields [OF f2]
  have cr: "ps_created p' \<noteq> zero_time" using b(2) assms(10) by (simp add: same_plan_def)
  have tot: "addSettledTotal ok st (ps_created p') (se_total s1) = se_total s1" for ok st
    using one(4) cr assms(9)
    by (auto simp: addSettledTotal_def readSettledTotal_def Let_def Text18_def split: if_splits option.splits prod.splits)
  have "pendingSpend (se_balance s2) = pendingSpend (reducePendingSpend (ps_settled p') (se_balance s1))"
    using f2 by (auto simp: finish_plan_def Let_def saveDebts_def ForceRefresh_def refreshAll_pending ledger_simps split: if_splits)
  then show ?thesis
    using w1 b(2) one(1,5) two tot assms(8) by (intro exI [of _ p']) (simp add: e2 f2)
qed

end
