(* ===== verification/Cycle.thy ===== *)
theory Cycle
  imports Settler
begin

text \<open>
  The settlement cycle end to end: the contract client over an RPC node is a chain the settler can
  rely on, a healthy chain completes a plan, one cycle accounts for every record it saw, and the
  corner cases of the cycle (dead letters and a failed plan write, a late finality verdict, a
  transaction that reverts when it is mined again).
\<close>

section \<open>The contract client as the settler's chain\<close>

text \<open>What the node behind the client answers; the polls of one wait for finality come as a list.\<close>

record 'n node =
  nd_processed :: "'n \<Rightarrow> digest \<Rightarrow> bool option"
  nd_nonce :: "'n \<Rightarrow> 64 word option"
  nd_gas :: "'n \<Rightarrow> int option"
  nd_send :: "'n \<Rightarrow> 64 word \<times> int \<Rightarrow> submit_args \<Rightarrow> string option \<times> 'n"
  nd_mined :: "'n \<Rightarrow> string \<Rightarrow> mined \<times> 'n"
  nd_polls :: "'n \<Rightarrow> string \<Rightarrow> poll list \<times> 'n"

definition SubmitSettlement ::
  "int \<Rightarrow> 'n node \<Rightarrow> 'n \<times> rbf_state \<Rightarrow> settlement_batch \<Rightarrow> string option \<times> ('n \<times> rbf_state)" where
  "SubmitSettlement schema nd = (\<lambda>(n, c) batch.
     (case transactor (nd_nonce nd n) (nd_gas nd n) c of
        (None, c) \<Rightarrow> (None, (n, c))
      | (Some auth, c) \<Rightarrow> (let (tx, n) = nd_send nd n auth (submit_args_of schema batch) in (tx, (n, c)))))"

definition WaitForFinality :: "'n node \<Rightarrow> 'n \<times> rbf_state \<Rightarrow> string \<Rightarrow> nat \<Rightarrow> finality_result \<times> ('n \<times> rbf_state)" where
  "WaitForFinality nd = (\<lambda>(n, c) tx d.
     (let (polls, n) = nd_polls nd n tx
      in ((case waitForFinality d polls of
             Final r \<Rightarrow> FinalReceipt (Some r) | ErrReorged \<Rightarrow> ReorgedTx | ErrNotFinal \<Rightarrow> FinalityFailed), (n, c))))"

definition contract_ops :: "int \<Rightarrow> string \<Rightarrow> 'n node \<Rightarrow> ('n \<times> rbf_state) chain_ops" where
  "contract_ops schema contractAddr nd =
     \<lparr>op_processed = (\<lambda>(n, c) h. nd_processed nd n h),
      op_submit = SubmitSettlement schema nd,
      op_receipt = (\<lambda>(n, c) tx. let (m, n) = nd_mined nd n tx; (r, c) = WaitForReceipt m c in (r, (n, c))),
      op_finality = WaitForFinality nd,
      op_outcome = (\<lambda>r. ParseSettlementOutcome contractAddr (Some r))\<rparr>"

text \<open>
  What is assumed of the node and the chain behind it, for a notion \<open>durable\<close> of a batch recorded
  for good: what the contract reports as processed is durable and stays so; a transaction mined
  with success makes its batch durable where no depth is configured; and where one is, a poll that
  sees it succeeded and buried that deep does.
\<close>

definition node_ok :: "'n node \<Rightarrow> int option \<Rightarrow> ('n \<Rightarrow> digest \<Rightarrow> bool) \<Rightarrow> bool" where
  "node_ok nd dep durable \<longleftrightarrow>
     (\<forall>n h. nd_processed nd n h = Some True \<longrightarrow> durable n h) \<and>
     (\<forall>n auth a r n' h. nd_send nd n auth a = (r, n') \<longrightarrow> durable n h \<longrightarrow> durable n' h) \<and>
     (\<forall>n tx r n' h. nd_mined nd n tx = (r, n') \<longrightarrow> durable n h \<longrightarrow> durable n' h) \<and>
     (\<forall>n tx r n' h. nd_polls nd n tx = (r, n') \<longrightarrow> durable n h \<longrightarrow> durable n' h) \<and>
     (\<forall>n auth a tx n1 r n2. nd_send nd n auth a = (Some tx, n1) \<longrightarrow> nd_mined nd n1 tx = (MinedTx r, n2) \<longrightarrow>
        cr_status_ok r \<longrightarrow> (case dep of Some d \<Rightarrow> d | None \<Rightarrow> 0) \<le> 0 \<longrightarrow> durable n2 (sa_hash a)) \<and>
     (\<forall>n auth a tx n1 r n2 polls n3 d r' k. nd_send nd n auth a = (Some tx, n1) \<longrightarrow>
        nd_mined nd n1 tx = (MinedTx r, n2) \<longrightarrow> nd_polls nd n2 tx = (polls, n3) \<longrightarrow> dep = Some (int d) \<longrightarrow> 0 < d \<longrightarrow>
        PollFound r' k \<in> set polls \<longrightarrow> cr_status_ok r' \<longrightarrow> cr_block r' + d \<le> k \<longrightarrow> durable n3 (sa_hash a))"

lemma finality_deep:
  "waitForFinality d polls = Final r \<Longrightarrow> 0 < d \<Longrightarrow> \<exists>k. PollFound r k \<in> set polls \<and> cr_block r + d \<le> k"
  using finality_final [of d 0 polls r] by (simp add: waitForFinality_def)

lemma submit_cases:
  assumes "SubmitSettlement schema nd (n, c) b = (t, (n', c'))"
  obtains "t = None" "n' = n" | auth where "nd_send nd n auth (submit_args_of schema b) = (t, n')"
proof (cases "transactor (nd_nonce nd n) (nd_gas nd n) c")
  case (Pair a c1)
  show ?thesis
  proof (cases a)
    case None
    with Pair assms that(1) show ?thesis by (simp add: SubmitSettlement_def)
  next
    case (Some auth)
    with Pair assms that(2) [of auth] show ?thesis by (simp add: SubmitSettlement_def split: prod.splits)
  qed
qed

lemma sa_hash_args [simp]: "sa_hash (submit_args_of schema b) = sb_hash b"
  by (simp add: submit_args_of_def Let_def)

lemma receipt_mined:
  "op_receipt (contract_ops schema addr nd) (n, c) tx = (res, (n', c')) \<Longrightarrow>
   \<exists>m. nd_mined nd n tx = (m, n') \<and> (\<forall>r. res = Inr r \<longrightarrow> m = MinedTx r \<and> cr_status_ok r)"
  by (cases "nd_mined nd n tx"; cases "fst (nd_mined nd n tx)")
    (auto simp: contract_ops_def WaitForReceipt_def split: if_splits)

lemma node_okD:
  assumes "node_ok nd dep durable"
  shows "nd_processed nd n h = Some True \<Longrightarrow> durable n h"
    "nd_send nd n auth x = (r, n') \<Longrightarrow> durable n h \<Longrightarrow> durable n' h"
    "nd_mined nd n tx = (m, n') \<Longrightarrow> durable n h \<Longrightarrow> durable n' h"
    "nd_polls nd n tx = (ps, n') \<Longrightarrow> durable n h \<Longrightarrow> durable n' h"
    "nd_send nd n auth x = (Some tx, n1) \<Longrightarrow> nd_mined nd n1 tx = (MinedTx rc, n2) \<Longrightarrow> cr_status_ok rc \<Longrightarrow>
      (case dep of Some d \<Rightarrow> d | None \<Rightarrow> 0) \<le> 0 \<Longrightarrow> durable n2 (sa_hash x)"
    "nd_send nd n auth x = (Some tx, n1) \<Longrightarrow> nd_mined nd n1 tx = (MinedTx rc, n2) \<Longrightarrow>
      nd_polls nd n2 tx = (ps, n3) \<Longrightarrow> dep = Some (int d) \<Longrightarrow> 0 < d \<Longrightarrow> PollFound rc' k \<in> set ps \<Longrightarrow>
      cr_status_ok rc' \<Longrightarrow> cr_block rc' + d \<le> k \<Longrightarrow> durable n3 (sa_hash x)"
proof -
  note a = assms [unfolded node_ok_def]
  note a2 = a [THEN conjunct2] note a3 = a2 [THEN conjunct2] note a4 = a3 [THEN conjunct2]
  note a5 = a4 [THEN conjunct2]
  show "nd_processed nd n h = Some True \<Longrightarrow> durable n h" using a [THEN conjunct1] by blast
  show "nd_send nd n auth x = (r, n') \<Longrightarrow> durable n h \<Longrightarrow> durable n' h" using a2 [THEN conjunct1] by blast
  show "nd_mined nd n tx = (m, n') \<Longrightarrow> durable n h \<Longrightarrow> durable n' h" using a3 [THEN conjunct1] by blast
  show "nd_polls nd n tx = (ps, n') \<Longrightarrow> durable n h \<Longrightarrow> durable n' h" using a4 [THEN conjunct1] by blast
  show "nd_send nd n auth x = (Some tx, n1) \<Longrightarrow> nd_mined nd n1 tx = (MinedTx rc, n2) \<Longrightarrow> cr_status_ok rc \<Longrightarrow>
      (case dep of Some d \<Rightarrow> d | None \<Rightarrow> 0) \<le> 0 \<Longrightarrow> durable n2 (sa_hash x)" using a5 [THEN conjunct1] by blast
  show "nd_send nd n auth x = (Some tx, n1) \<Longrightarrow> nd_mined nd n1 tx = (MinedTx rc, n2) \<Longrightarrow>
      nd_polls nd n2 tx = (ps, n3) \<Longrightarrow> dep = Some (int d) \<Longrightarrow> 0 < d \<Longrightarrow> PollFound rc' k \<in> set ps \<Longrightarrow>
      cr_status_ok rc' \<Longrightarrow> cr_block rc' + d \<le> k \<Longrightarrow> durable n3 (sa_hash x)" using a5 [THEN conjunct2] by blast
qed

lemma client_submitted:
  "op_submit (contract_ops schema addr nd) (n, c) b = (Some tx, (n1, c1)) \<Longrightarrow>
   \<exists>auth. nd_send nd n auth (submit_args_of schema b) = (Some tx, n1)"
  by (rule submit_cases [of schema nd n c b "Some tx" n1 c1]) (auto simp: contract_ops_def)

lemma client_final:
  "op_finality (contract_ops schema addr nd) (n, c) tx d = (f, (n', c')) \<Longrightarrow>
   \<exists>ps. nd_polls nd n tx = (ps, n') \<and> (\<forall>r. f = FinalReceipt r \<longrightarrow> (\<exists>r'. r = Some r' \<and> waitForFinality d ps = Final r'))"
  by (auto simp: contract_ops_def WaitForFinality_def split: prod.splits finality.splits)

text \<open>
  C10: The contract client implements the interface the settler relies on. Over every node that obeys
  the laws, whatever its answers: a processed batch is durable, durability is never lost by a
  submission, a wait or a poll, and a submission whose wait for a receipt and (where a depth is
  configured) for finality ends with a successful receipt has made its batch durable.
\<close>

theorem contract_client_is_chain:
  assumes "node_ok nd dep durable"
  shows "chain_ok (contract_ops schema addr nd) dep (\<lambda>(n, c). durable n)"
proof -
  let ?ops = "contract_ops schema addr nd"
  note law = node_okD [OF assms]
  have sub: "durable n' h" if "op_submit ?ops (n, c) b = (t, (n', c'))" "durable n h" for n c b t n' c' h
    by (rule submit_cases [of schema nd n c b t n' c']) (use that law(2) in \<open>auto simp: contract_ops_def\<close>)
  have 5: "durable n2 (sb_hash b)"
    if s: "op_submit ?ops (n, c) b = (Some tx, (n1, c1))" and r: "op_receipt ?ops (n1, c1) tx = (Inr rc, (n2, c2))"
      and d: "(case dep of Some d \<Rightarrow> d | None \<Rightarrow> 0) \<le> 0" for n c b tx n1 c1 rc n2 c2
    using client_submitted [OF s] receipt_mined [OF r] law(5) [of n _ "submit_args_of schema b" tx n1 rc n2] d by fastforce
  have 6: "durable n3 (sb_hash b)"
    if s: "op_submit ?ops (n, c) b = (Some tx, (n1, c1))" and r: "op_receipt ?ops (n1, c1) tx = (Inr rc, (n2, c2))"
      and d: "0 < d" "dep = Some (int d)" and f: "op_finality ?ops (n2, c2) tx d = (FinalReceipt fr, (n3, c3))"
      and ok: "case fr of Some r' \<Rightarrow> cr_status_ok r' | None \<Rightarrow> True" for n c b tx n1 c1 rc n2 c2 d fr n3 c3
  proof -
    obtain ps r' where p: "nd_polls nd n2 tx = (ps, n3)" "fr = Some r'" "waitForFinality d ps = Final r'"
      using client_final [OF f] by blast
    obtain k where k: "PollFound r' k \<in> set ps" "cr_block r' + d \<le> k" using finality_deep [OF p(3) d(1)] by blast
    obtain auth where "nd_send nd n auth (submit_args_of schema b) = (Some tx, n1)" using client_submitted [OF s] by blast
    moreover have "nd_mined nd n1 tx = (MinedTx rc, n2)" using receipt_mined [OF r] by auto
    ultimately show ?thesis using law(6) [of n auth _ tx n1 rc n2 ps n3 d r' k] p(1) d k ok p(2) by fastforce
  qed
  show ?thesis
    unfolding chain_ok_def
  proof (intro conjI allI impI; (clarsimp split: prod.splits)?)
    show "durable n h" if "op_processed ?ops (n, c) h = Some True" for n c h
      using that law(1) by (simp add: contract_ops_def)
  next
    show "durable n' h" if "op_submit ?ops (n, c) b = (t, n', c')" "durable n h" for n c b t n' c' h
      using sub that by blast
  next
    show "durable n' h" if "op_receipt ?ops (n, c) tx = (r, n', c')" "durable n h" for n c tx r n' c' h
      using receipt_mined [OF that(1)] law(3) that(2) by blast
  next
    show "durable n' h" if "op_finality ?ops (n, c) tx d = (f, n', c')" "durable n h" for n c tx d f n' c' h
      using client_final [OF that(1)] law(4) that(2) by blast
  next
    show "durable n2 (sb_hash b)" if "op_submit ?ops (n, c) b = (Some tx, n1, c1)"
      "op_receipt ?ops (n1, c1) tx = (Inr rc, n2, c2)" "(case dep of Some d \<Rightarrow> d | None \<Rightarrow> 0) \<le> 0"
      for n c b tx n1 c1 rc n2 c2
      using 5 that by blast
  next
    show "durable n3 (sb_hash b)" if "op_submit ?ops (n, c) b = (Some tx, n1, c1)"
      "op_receipt ?ops (n1, c1) tx = (Inr rc, n2, c2)" "0 < d" "dep = Some (int d)"
      "op_finality ?ops (n2, c2) tx d = (FinalReceipt fr, n3, c3)"
      "case fr of Some r' \<Rightarrow> cr_status_ok r' | None \<Rightarrow> True"
      for n c b tx n1 c1 rc n2 c2 d fr n3 c3
      using 6 that by blast
  qed
qed

section \<open>A healthy chain completes the plan\<close>

text \<open>Every submission is accepted, mined with success and becomes final.\<close>

definition chain_live :: "'c chain_ops \<Rightarrow> int option \<Rightarrow> bool" where
  "chain_live ops dep \<longleftrightarrow>
     (\<forall>c b. \<exists>tx c'. op_submit ops c b = (Some tx, c')) \<and>
     (\<forall>c tx. \<exists>r c'. op_receipt ops c tx = (Inr r, c')) \<and>
     (\<forall>c tx d. dep = Some (int d) \<longrightarrow> 0 < d \<longrightarrow> (\<exists>fr c'. op_finality ops c tx d = (FinalReceipt fr, c')))"

definition submittable :: "pending_batch \<Rightarrow> bool" where
  "submittable b \<longleftrightarrow> hexToHash32 (pb_hash b) \<noteq> None \<and> (\<forall>it\<in>set (pb_items b). parse_int (pi_amount it) \<noteq> None)"

lemma submittable_toBatch: "submittable b \<Longrightarrow> \<exists>h batch. hexToHash32 (pb_hash b) = Some h \<and> toBatch hexa h b = Some batch"
  by (auto simp: submittable_def toBatch_def Let_def)

lemma live_finality:
  assumes "chain_live ops dep" shows "\<exists>r' c'. await_finality ops dep h tx r c = (Inr r', c')"
proof (cases "(case dep of Some d \<Rightarrow> d | None \<Rightarrow> 0) \<le> 0")
  case True
  then show ?thesis by (simp add: await_finality_def Let_def)
next
  case False
  then obtain k where k: "dep = Some k" "0 < k" by (cases dep) auto
  then have "dep = Some (int (nat k))" "0 < nat k" by simp_all
  then obtain fr c' where "op_finality ops c tx (nat k) = (FinalReceipt fr, c')"
    using assms unfolding chain_live_def by blast
  with k show ?thesis by (cases fr) (simp_all add: await_finality_def)
qed

lemma live_batch:
  assumes live: "chain_live ops dep" and disk: "\<forall>q. io_wal io q" and sb: "submittable (ps_batches p ! i)"
  shows "\<exists>p' s'. resume_batch hexa ops dep io i p s = (Inr p', s') \<and> (se_wal s = Wal p \<longrightarrow> se_wal s' = Wal p') \<and>
    (i < length (ps_batches p) \<longrightarrow> same_plan p p')"
proof -
  let ?b = "ps_batches p ! i"
  obtain h batch where h: "hexToHash32 (pb_hash ?b) = Some h" "toBatch hexa h ?b = Some batch"
    using submittable_toBatch [OF sb] by blast
  have sp: "i < length (ps_batches p) \<Longrightarrow> same_plan p (confirm_at i (reverseFailedItems EqualFold ?b out p))" for out
    by (rule same_plan_trans [OF same_plan_reverse same_plan_confirm]) simp
  show ?thesis
  proof (cases "pb_confirmed ?b \<or> op_processed ops (se_chain s) h = Some True")
    case True
    then consider "pb_confirmed ?b" | "\<not> pb_confirmed ?b" "op_processed ops (se_chain s) h = Some True" by blast
    then show ?thesis
    proof cases
      case 1
      then have "resume_batch hexa ops dep io i p s = (Inr p, s)" by (simp add: resume_batch_def Let_def)
      then show ?thesis by simp
    next
      case 2
      with h disk have "resume_batch hexa ops dep io i p s = (Inr (confirm_at i p), s\<lparr>se_wal := Wal (confirm_at i p)\<rparr>)"
        by (simp add: resume_batch_def Let_def)
      then show ?thesis by (simp add: same_plan_confirm)
    qed
  next
    case False
    obtain tx c1 where 1: "op_submit ops (se_chain s) batch = (Some tx, c1)"
      using live unfolding chain_live_def by blast
    obtain r c2 where 2: "op_receipt ops c1 tx = (Inr r, c2)" using live unfolding chain_live_def by blast
    obtain r' c3 where 3: "await_finality ops dep h tx r c2 = (Inr r', c3)" using live_finality [OF live] by blast
    let ?p = "confirm_at i (reverseFailedItems EqualFold ?b (op_outcome ops r') p)"
    have "resume_batch hexa ops dep io i p s =
        (Inr ?p, record_batch io (?b\<lparr>pb_confirmed := True\<rparr>) tx r' (s\<lparr>se_chain := c3, se_wal := Wal ?p\<rparr>))"
      using False h 1 2 3 disk by (simp add: resume_batch_def Let_def)
    then show ?thesis using sp by simp
  qed
qed

lemma submittable_confirmed: "list_all submittable (List.map (pb_confirmed_update (\<lambda>_. True)) bs) = list_all submittable bs"
  by (induction bs) (simp_all add: submittable_def)

lemma same_plan_submittable:
  assumes "same_plan p p'" "list_all submittable (ps_batches p)" shows "list_all submittable (ps_batches p')"
  by (subst submittable_confirmed [symmetric], subst assms(1) [unfolded same_plan_def, THEN conjunct2, THEN conjunct2])
    (simp only: submittable_confirmed assms(2))

lemma live_batches:
  assumes live: "chain_live ops dep" and disk: "\<forall>q. io_wal io q"
  shows "se_wal s = Wal p \<Longrightarrow> list_all submittable (ps_batches p) \<Longrightarrow> list_all (\<lambda>i. i < length (ps_batches p)) js \<Longrightarrow>
    \<exists>p' s'. resume_batches hexa ops dep io js p s = (Inr p', s') \<and> se_wal s' = Wal p' \<and> same_plan p p'"
proof (induction js arbitrary: p s)
  case (Cons i js)
  then have i: "i < length (ps_batches p)" by simp
  with Cons.prems(2) have sb: "submittable (ps_batches p ! i)" by (simp add: list_all_iff)
  obtain p1 s1 where 1: "resume_batch hexa ops dep io i p s = (Inr p1, s1)" "se_wal s1 = Wal p1" "same_plan p p1"
    using live_batch [OF live disk sb, of hexa s] Cons.prems(1) i by blast
  have "list_all (\<lambda>i. i < length (ps_batches p1)) js" using Cons.prems(3) same_plan_length [OF 1(3)] by simp
  from Cons.IH [OF 1(2) same_plan_submittable [OF 1(3) Cons.prems(2)] this] obtain p' s' where 2:
    "resume_batches hexa ops dep io js p1 s1 = (Inr p', s')" "se_wal s' = Wal p'" "same_plan p1 p'" by blast
  have "resume_batches hexa ops dep io (i # js) p s = (Inr p', s')" using 1(1) 2(1) by simp
  with 2(2) same_plan_trans [OF 1(3) 2(3)] show ?case by blast
qed simp

definition disk_ok :: "settle_io \<Rightarrow> bool" where
  "disk_ok io \<longleftrightarrow> (\<forall>q. io_wal io q) \<and> io_cursor io \<and> io_remove io"

definition wal_decodes :: "'c settler \<Rightarrow> bool" where
  "wal_decodes s \<longleftrightarrow> (case se_wal s of NoWal \<Rightarrow> True | BadWal \<Rightarrow> False | Wal p \<Rightarrow> list_all submittable (ps_batches p))"

lemma live_attempt:
  assumes "chain_live ops dep" "wal_decodes s" "\<forall>q. io_wal io q" "io_cursor io"
  shows "\<exists>s'. resumePending hexa ops dep io s = (None, s') \<and> (io_remove io \<longrightarrow> se_wal s' = NoWal)"
proof (cases "se_wal s")
  case (Wal p)
  have "list_all (\<lambda>i. i < length (ps_batches p)) [0..<length (ps_batches p)]" by (simp add: list_all_iff)
  moreover have "list_all submittable (ps_batches p)" using assms(2) Wal by (simp add: wal_decodes_def)
  ultimately obtain p' s1 where 1: "resume_batches hexa ops dep io [0..<length (ps_batches p)] p s = (Inr p', s1)"
    using live_batches [OF assms(1,3) Wal] by blast
  obtain s' where f: "finish_plan hexa io p' s1 = (None, s')"
    using assms(4) by (simp add: finish_plan_def Let_def)
  with 1 Wal finish_fields(3) [OF f] show ?thesis by (simp add: resumePending_def)
qed (use assms(2) in \<open>simp_all add: resumePending_def wal_decodes_def\<close>)

lemma live_resume:
  assumes "chain_live ops dep" "wal_decodes s" "disk_ok io"
  shows "\<exists>s'. resumePending hexa ops dep io s = (None, s') \<and> se_wal s' = NoWal"
  using live_attempt [OF assms(1,2), of io hexa] assms(3) unfolding disk_ok_def by blast

lemma frozen_submittable: "submittable (freeze_batch recs batch)"
proof -
  have "List.map (parse_int \<circ> pi_amount) (pb_items (freeze_batch recs batch)) = List.map (Some \<circ> it_amount) batch"
    by (subst frozen_field [where g = "\<lambda>(u, s, a, t, d, i). parse_int a"]) (simp_all add: parse_int_dec)
  then have "set (List.map (parse_int \<circ> pi_amount) (pb_items (freeze_batch recs batch))) \<subseteq> range Some" by auto
  then have "\<forall>it\<in>set (pb_items (freeze_batch recs batch)). parse_int (pi_amount it) \<noteq> None" by auto
  moreover have "hexToHash32 (pb_hash (freeze_batch recs batch)) \<noteq> None"
    by (simp add: freeze_batch_def Let_def hexToHash32_encode split: prod.split)
  ultimately show ?thesis by (simp add: submittable_def)
qed

lemma planned_decodes:
  "plan_cycle hexa cfg v io s = Inr (Some (p, s1)) \<Longrightarrow> list_all submittable (ps_batches p)"
  by (auto simp: plan_cycle_def Let_def buildPending_def list_all_iff frozen_submittable split: sum.splits if_splits prod.splits)

text \<open>
  C9: The settler makes progress. With a chain that accepts, mines and finalises submissions, a writable
  disk, readable logs, and no plan on disk or one whose hashes and amounts decode, one cycle finishes
  the old plan from whatever point it was left at, and the new plan as well: it returns without an
  error and leaves no plan behind. Every plan the settler makes itself decodes.
\<close>

theorem healthy_cycle_completes:
  assumes "chain_live ops (cfg_ConfirmationDepth cfg)" "wal_decodes s" "disk_ok io0" "disk_ok io"
    and "Peek (se_cursor (snd (resumePending hexa ops (cfg_ConfirmationDepth cfg) io0 s))) (cy_log v) = Inr found"
  shows "\<exists>s'. Settle hexa ops cfg v io0 io s = (None, s') \<and> se_wal s' = NoWal"
proof -
  obtain s0 where 0: "resumePending hexa ops (cfg_ConfirmationDepth cfg) io0 s = (None, s0)" "se_wal s0 = NoWal"
    using live_resume [OF assms(1-3)] by blast
  show ?thesis
  proof (cases "plan_cycle hexa cfg v io s0")
    case (Inl e)
    with assms(5) 0(1) show ?thesis by (simp add: plan_cycle_def Let_def split: prod.splits if_splits)
  next
    case (Inr a)
    show ?thesis
    proof (cases a)
      case None
      with Inr 0 show ?thesis by (simp add: Settle_def)
    next
      case (Some ps)
      obtain p s1 where p: "plan_cycle hexa cfg v io s0 = Inr (Some (p, s1))" using Inr Some by (cases ps) simp
      have "wal_decodes (s1\<lparr>se_wal := Wal p\<rparr>)" using planned_decodes [OF p] by (simp add: wal_decodes_def)
      from live_resume [OF assms(1) this assms(4), of hexa] p 0(1) assms(4) show ?thesis
        by (auto simp: Settle_def disk_ok_def)
    qed
  qed
qed

section \<open>A cycle accounts for every record\<close>

lemma reverse_item_debts: "\<exists>ds. snd (reverse_item same its idx (settled, debts)) = debts @ ds"
  by (auto simp: reverse_item_def Let_def split: option.split prod.split)

lemma reverse_fold_debts: "\<exists>ds. snd (fold (reverse_item same its) idxs (settled, debts)) = debts @ ds"
proof (induction idxs arbitrary: settled debts)
  case (Cons idx idxs)
  obtain settled' debts' where r: "reverse_item same its idx (settled, debts) = (settled', debts')"
    by (cases "reverse_item same its idx (settled, debts)")
  then obtain ds where "debts' = debts @ ds" using reverse_item_debts [of same its idx settled debts] by auto
  with Cons.IH [of settled' debts'] r show ?case by auto
qed simp

lemma reverseFailedItems_debts: "\<exists>ds. ps_debts (reverseFailedItems same b out p) = ps_debts p @ ds"
  using reverse_fold_debts [of same "pb_items b" "so_indexes out" "ps_settled p" "ps_debts p"]
  by (auto simp: reverseFailedItems_def Let_def split: prod.split)

lemma resume_batch_debts:
  assumes "resume_batch hexa ops dep io i p s = (Inr p', s')"
  shows "\<exists>ds. ps_debts p' = ps_debts p @ ds"
proof -
  have "p' = p \<or> p' = confirm_at i p \<or>
      (\<exists>out. p' = confirm_at i (reverseFailedItems EqualFold (ps_batches p ! i) out p))"
    using assms by (auto simp: resume_batch_def Let_def split: if_splits option.splits prod.splits sum.splits)
  then show ?thesis using reverseFailedItems_debts by (fastforce simp: confirm_at_def)
qed

lemma resume_batches_debts:
  "resume_batches hexa ops dep io js p s = (Inr p', s') \<Longrightarrow> \<exists>ds. ps_debts p' = ps_debts p @ ds"
proof (induction js arbitrary: p s)
  case (Cons i js)
  then obtain p1 s1 where b: "resume_batch hexa ops dep io i p s = (Inr p1, s1)"
    "resume_batches hexa ops dep io js p1 s1 = (Inr p', s')"
    by (auto split: prod.splits sum.splits)
  from resume_batch_debts [OF b(1)] Cons.IH [OF b(2)] show ?case by auto
qed simp

text \<open>What a successful attempt on a plan leaves behind.\<close>

lemma resumed:
  assumes ok: "chain_ok ops dep durable" "finals_succeed ops" and w: "wal_ok durable s" "se_wal s = Wal p"
    and r: "resumePending hexa ops dep io s = (None, s')"
  shows "all_durable durable (se_chain s') p" "se_cursor s' = Some (ps_cursor p)"
    "se_dead s' = se_dead s" "io_debts io \<Longrightarrow> set (ps_debts p) \<subseteq> set (case se_debts s' of None \<Rightarrow> [] | Some ds \<Rightarrow> ds)"
proof -
  obtain res s0 where b: "resume_batches hexa ops dep io [0..<length (ps_batches p)] p s = (res, s0)"
    by (cases "resume_batches hexa ops dep io [0..<length (ps_batches p)] p s")
  have conf: "confirmed_ok durable (se_chain s) p" using w by (simp add: wal_ok_def)
  have "\<forall>i\<in>set [0..<length (ps_batches p)]. i < length (ps_batches p)" by simp
  note 1 = resume_batches_ok [OF ok w(2) this conf b]
  obtain q where q: "res = Inr q" using b r w(2) by (cases res) (simp_all add: resumePending_def)
  with 1 have 2: "same_books s s0" "same_plan p q" "confirmed_ok durable (se_chain s0) q"
    "\<forall>i\<in>set [0..<length (ps_batches q)]. pb_confirmed (ps_batches q ! i)"
    by (auto dest: same_plan_length)
  have f: "finish_plan hexa io q s0 = (None, s')" using b r w(2) q by (simp add: resumePending_def)
  note ff = finish_fields [OF f]
  show "all_durable durable (se_chain s') p"
    using all_durable_same_plan [OF 2(2) all_confirmed_durable [OF 2(3,4)]] ff(2) by simp
  show "se_cursor s' = Some (ps_cursor p)" using ff(1) 2(2) by (simp add: same_plan_def)
  show "se_dead s' = se_dead s" using ff(6) 2(1) by (simp add: same_books_def)
  obtain ds where "ps_debts q = ps_debts p @ ds" using resume_batches_debts b q by blast
  then show "io_debts io \<Longrightarrow> set (ps_debts p) \<subseteq> set (case se_debts s' of None \<Rightarrow> [] | Some ds \<Rightarrow> ds)"
    using ff(5) by auto
qed

lemma all_durableD:
  "all_durable durable c p \<Longrightarrow> b \<in> set (ps_batches p) \<Longrightarrow> \<exists>h. hexToHash32 (pb_hash b) = Some h \<and> durable c h"
  unfolding all_durable_def list_all_iff by (drule (1) bspec) (cases "hexToHash32 (pb_hash b)"; simp)

lemma plan_cycle_cases:
  assumes "plan_cycle hexa cfg v io s = Inr (Some (p, s1))" "Peek (se_cursor s) (cy_log v) = Inr (records, n, newCursor)"
  obtains items unresolved settled remaining where
    "AggregateWithDebts hexa (refresh_maps v) (loadDeadLetter (se_dead s) @ records) (loadDebts (se_debts s))
       (Some (GetFILPriceUSD (cy_pricer v))) (GetAllBalances (se_balance s)) = (items, unresolved, settled, remaining)"
    "p = buildPending (cfg_MaxBatchSize cfg) items newCursor (floatMapToStrings settled)
       (carriedDebtsToRecords remaining) (records_by_id (loadDeadLetter (se_dead s) @ records)) (io_now io)"
    "s1 = s\<lparr>se_dead := writeDeadLetter (io_dead io) (io_rec_len io) unresolved (se_dead s)\<rparr>"
  using assms by (auto simp: plan_cycle_def Let_def split: if_splits prod.splits)

lemma load_written: "\<forall>q. len q \<le> max_line \<Longrightarrow> loadDeadLetter (writeDeadLetter True len records file) = records"
  by (induction records) (simp_all add: writeDeadLetter_def linorder_not_less)

lemma concat_splitBatches: "concat (splitBatches items maxSize) = items"
  using concat_split_loop [of "nat (if maxSize \<le> 0 then 50 else maxSize)" items] by (simp add: splitBatches_def Let_def)

lemma item_in_plan:
  assumes "it \<in> set items"
  shows "\<exists>b\<in>set (ps_batches (buildPending m items c st ds recs now)).
    \<exists>it'\<in>set (pb_items b). pi_user it' = it_userEVM it \<and> pi_sp it' = it_spEVM it \<and> pi_ids it' = it_ids it"
proof -
  have "it \<in> set (concat (splitBatches items m))" using assms by (simp only: concat_splitBatches)
  then obtain batch where b: "batch \<in> set (splitBatches items m)" "it \<in> set batch" by auto
  have "(it_userEVM it, it_spEVM it, it_ids it) \<in>
      set (List.map (\<lambda>p. (pi_user p, pi_sp p, pi_ids p)) (pb_items (freeze_batch recs batch)))"
    using b(2) by (subst frozen_field [where g = "\<lambda>(u, s, a, t, d, i). (u, s, i)"]) auto
  then have "\<exists>it'\<in>set (pb_items (freeze_batch recs batch)).
      pi_user it' = it_userEVM it \<and> pi_sp it' = it_spEVM it \<and> pi_ids it' = it_ids it" by auto
  then show ?thesis using b(1) by (auto simp: buildPending_def)
qed

text \<open>
  C4: No record is lost by a cycle. Let the chain and its client obey their laws (\<open>chain_ok\<close>) and a receipt that finality confirms be a
  successful one (\<open>finals_succeed\<close>, which waiting for finality does not itself ensure), let no plan be on disk at the start, the
  cycle write one at usable prices, and the writes of the dead letters and of the debt ledger succeed, with no dead-letter row longer than
  a line may be. If the cycle then returns without an error, the
  cursor stands behind everything the cycle has read, and every record with a request id that it read from the
  logs or took from the dead letters is in the new dead-letter file, or in an item for its
  provider in a batch that the chain has recorded for good, or in the debt ledger under its wallet
  and provider; the one exception is a total that is not positive or below one token unit.
\<close>

theorem cycle_loses_no_record:
  assumes "chain_ok ops (cfg_ConfirmationDepth cfg) durable" "finals_succeed ops"
    and "se_wal s = NoWal" "plan_cycle hexa cfg v io s = Inr (Some (p, s1))"
    and "Settle hexa ops cfg v io0 io s = (None, s')"
    and "Peek (se_cursor s) (cy_log v) = Inr (records, n, newCursor)"
    and "prices_usable (refresh_maps v) (GetFILPriceUSD (cy_pricer v))"
    and "io_dead io" "io_debts io" "\<forall>q. io_rec_len io q \<le> max_line"
    and "r \<in> set (loadDeadLetter (se_dead s) @ records)" "rr_id r \<noteq> ''''"
  defines "sp \<equiv> resolveWorkerToEVM (refresh_maps v) (rr_worker r)"
  shows "se_cursor s' = Some newCursor \<and>
    (r \<in> set (loadDeadLetter (se_dead s')) \<or>
     (\<exists>b\<in>set (ps_batches p). (\<exists>h. hexToHash32 (pb_hash b) = Some h \<and> durable (se_chain s') h) \<and>
        (\<exists>it\<in>set (pb_items b). pi_sp it = hexa sp \<and> rr_id r \<in> set (pi_ids it))) \<or>
     (\<exists>d\<in>set (case se_debts s' of None \<Rightarrow> [] | Some ds \<Rightarrow> ds).
        dr_wallet d = rr_wallet r \<and> dr_spEVM d = sp \<and> rr_id r \<in> set (dr_ids d)) \<or>
     (let owed = bf_val (ce_usd (entry_of (fst (collect_costs (refresh_maps v)
            (loadDeadLetter (se_dead s) @ records) (loadDebts (se_debts s)))) (rr_wallet r, sp)))
      in owed \<le> 0 \<or> dust (refresh_maps v) (GetFILPriceUSD (cy_pricer v)) (agg_deductPriority (refresh_maps v)) owed))"
proof -
  obtain items unresolved settled remaining where agg:
    "AggregateWithDebts hexa (refresh_maps v) (loadDeadLetter (se_dead s) @ records) (loadDebts (se_debts s))
       (Some (GetFILPriceUSD (cy_pricer v))) (GetAllBalances (se_balance s)) = (items, unresolved, settled, remaining)"
    and p: "p = buildPending (cfg_MaxBatchSize cfg) items newCursor (floatMapToStrings settled)
       (carriedDebtsToRecords remaining) (records_by_id (loadDeadLetter (se_dead s) @ records)) (io_now io)"
    and s1: "s1 = s\<lparr>se_dead := writeDeadLetter (io_dead io) (io_rec_len io) unresolved (se_dead s)\<rparr>"
    using plan_cycle_cases [OF assms(4,6)] by blast
  have r0: "resumePending hexa ops (cfg_ConfirmationDepth cfg) io0 s = (None, s)"
    using assms(3) by (simp add: resumePending_def)
  have r1: "resumePending hexa ops (cfg_ConfirmationDepth cfg) io (s1\<lparr>se_wal := Wal p\<rparr>) = (None, s')"
    using assms(4,5) r0 by (simp add: Settle_def split: if_splits)
  have "\<not> pb_confirmed b" if "b \<in> set (ps_batches p)" for b
    using that by (auto simp: p buildPending_def freeze_batch_def Let_def split: prod.splits)
  then have w: "wal_ok durable (s1\<lparr>se_wal := Wal p\<rparr>)" by (simp add: wal_ok_def confirmed_ok_def)
  have "se_wal (s1\<lparr>se_wal := Wal p\<rparr>) = Wal p" by simp
  note rd = resumed [OF assms(1,2) w this r1]
  note owed = rd(4) [OF assms(9)]
  have dead: "loadDeadLetter (se_dead s') = unresolved"
    using load_written [OF assms(10), of unresolved] assms(8) by (simp add: rd(3) s1)
  have dur: "\<exists>h. hexToHash32 (pb_hash b) = Some h \<and> durable (se_chain s') h" if "b \<in> set (ps_batches p)" for b
    by (rule all_durableD [OF rd(1) that])
  have debts: "\<exists>d'\<in>set (case se_debts s' of None \<Rightarrow> [] | Some ds \<Rightarrow> ds).
      dr_wallet d' = cd_wallet d \<and> dr_spEVM d' = cd_spEVM d \<and> dr_ids d' = cd_ids d" if "d \<in> set remaining" for d
  proof -
    have "\<exists>d'\<in>set (ps_debts p). dr_wallet d' = cd_wallet d \<and> dr_spEVM d' = cd_spEVM d \<and> dr_ids d' = cd_ids d"
      using that by (auto simp: p buildPending_def carriedDebtsToRecords_def)
    then show ?thesis using owed by (meson subsetD)
  qed
  have item: "\<exists>b\<in>set (ps_batches p). (\<exists>h. hexToHash32 (pb_hash b) = Some h \<and> durable (se_chain s') h) \<and>
      (\<exists>it'\<in>set (pb_items b). pi_sp it' = it_spEVM it \<and> pi_ids it' = it_ids it)" if "it \<in> set items" for it
    using item_in_plan [OF that] dur unfolding p by blast
  have cur: "se_cursor s' = Some newCursor" using rd(2) by (simp add: p buildPending_def)
  from request_covered [OF assms(7,11,12) agg] show ?thesis
    unfolding sp_def [symmetric]
  proof (elim disjE)
    assume "r \<in> set unresolved"
    then show ?thesis using dead cur by simp
  next
    assume "\<exists>it\<in>set items. it_wallet it = rr_wallet r \<and> it_spEVM it = hexa sp \<and> rr_id r \<in> set (it_ids it)"
    then show ?thesis using item cur by metis
  next
    assume "\<exists>d\<in>set remaining. cd_wallet d = rr_wallet r \<and> cd_spEVM d = sp \<and> rr_id r \<in> set (cd_ids d)"
    then show ?thesis using debts cur by metis
  qed (use cur in blast)
qed

section \<open>Corner cases\<close>

text \<open>
  A transaction that reverts when it is mined again is booked as settled. The receipt the wait for
  finality returns is not checked for success: if a submission is mined with success, a
  reorganisation puts it into another block where it reverts, and that block is buried deep enough,
  the plan is finished like any other (cursor committed, settled amounts added, plan removed)
  although the contract never recorded the batch.
\<close>

theorem reverted_reexecution_is_booked:
  assumes "se_wal s = Wal p" "ps_batches p = [b]" "\<not> pb_confirmed b" "hexToHash32 (pb_hash b) = Some h"
    and "toBatch hexa h b = Some batch" "se_chain s = (n, c)" "nd_processed nd n h \<noteq> Some True"
    and "transactor (nd_nonce nd n) (nd_gas nd n) c = (Some auth, c1)"
    and "nd_send nd n auth (submit_args_of schema batch) = (Some tx, n1)" "nd_mined nd n1 tx = (MinedTx r, n2)"
    and "cr_status_ok r" "nd_polls nd n2 tx = ([PollFound r' k], n3)" "\<not> cr_status_ok r'" "cr_logs r' = []"
    and "dep = Some (int d)" "0 < d" "cr_block r' + d \<le> k" "nd_processed nd n3 h = Some False"
    and "\<forall>q. io_wal io q" "io_cursor io" "io_remove io"
  shows "\<exists>s'. resumePending hexa (contract_ops schema addr nd) dep io s = (None, s') \<and> se_wal s' = NoWal \<and>
    se_cursor s' = Some (ps_cursor p) \<and> op_processed (contract_ops schema addr nd) (se_chain s') h = Some False \<and>
    se_total s' = addSettledTotal (io_total io) (ps_settled p) (ps_created p) (se_total s)"
proof -
  let ?ops = "contract_ops schema addr nd"
  have rcpt: "op_receipt ?ops (n1, c1) tx = (Inr r, (n2, clearPendingTx c1))"
    using assms(10,11) by (simp add: contract_ops_def WaitForReceipt_def)
  have fin: "op_finality ?ops (n2, c') tx d = (FinalReceipt (Some r'), (n3, c'))" for c'
    using assms(12,16,17) by (simp add: contract_ops_def WaitForFinality_def waitForFinality_def)
  have sub: "op_submit ?ops (n, c) batch = (Some tx, (n1, c1))"
    using assms(8,9) by (simp add: contract_ops_def SubmitSettlement_def)
  have aw: "await_finality ?ops dep h tx r (n2, clearPendingTx c1) = (Inr r', (n3, clearPendingTx c1))"
    using assms(15,16) fin by (simp add: await_finality_def)
  have out: "reverseFailedItems EqualFold b (op_outcome ?ops r') p = p"
    using assms(14) by (simp add: contract_ops_def ParseSettlementOutcome_def reverseFailedItems_def Let_def)
  have np: "op_processed ?ops (n, c) h \<noteq> Some True" using assms(7) by (simp add: contract_ops_def)
  let ?s = "record_batch io (b\<lparr>pb_confirmed := True\<rparr>) tx r'
      (s\<lparr>se_chain := (n3, clearPendingTx c1), se_wal := Wal (confirm_at 0 p)\<rparr>)"
  have rb: "resume_batch hexa ?ops dep io 0 p s = (Inr (confirm_at 0 p), ?s)"
    using assms(2-6,19) np sub rcpt aw out by (simp add: resume_batch_def Let_def)
  have rp: "resumePending hexa ?ops dep io s = finish_plan hexa io (confirm_at 0 p) ?s"
    using assms(1,2) rb by (simp add: resumePending_def)
  obtain s' where f: "finish_plan hexa io (confirm_at 0 p) ?s = (None, s')"
    using assms(20) by (simp add: finish_plan_def Let_def)
  have "op_processed ?ops (n3, c') h = Some False" for c' using assms(18) by (simp add: contract_ops_def)
  moreover have "se_total ?s = se_total s" by (simp add: record_batch_def)
  ultimately show ?thesis
    using finish_fields [OF f] assms(21) rp f by (simp add: confirm_at_def)
qed

text \<open>
  C40: A batch whose wait for finality runs out is not checked item by item. The attempt fails and leaves the
  plan as it is; when the next attempt finds the batch processed on the chain, the plan is
  finished with the settled amounts and debts it was made with, whatever items the chain
  skipped, and the batch appears in no item ledger and has no receipt.
\<close>

theorem late_finality_skips_reversal:
  assumes "se_wal s = Wal p" "ps_batches p = [b]" "\<not> pb_confirmed b" "hexToHash32 (pb_hash b) = Some h"
    and "toBatch hexa h b = Some batch" "op_processed ops (se_chain s) h \<noteq> Some True"
    and "op_submit ops (se_chain s) batch = (Some tx, c1)" "op_receipt ops c1 tx = (Inr r, c2)"
    and "dep = Some (int d)" "0 < d" "op_finality ops c2 tx d = (FinalityFailed, c3)"
    and "op_processed ops c3 h = Some True" "disk_ok io'" "io_debts io'"
  shows "\<exists>s1 s2. resumePending hexa ops dep io s = (Some AwaitFinality, s1) \<and> se_wal s1 = Wal p \<and>
    resumePending hexa ops dep io' s1 = (None, s2) \<and> se_wal s2 = NoWal \<and>
    se_total s2 = addSettledTotal (io_total io') (ps_settled p) (ps_created p) (se_total s) \<and>
    loadDebts (se_debts s2) = loadDebts (Some (ps_debts p)) \<and> se_items s2 = se_items s \<and> se_store s2 = se_store s"
proof -
  let ?s1 = "s\<lparr>se_chain := c3\<rparr>" and ?p = "confirm_at 0 p"
  have aw: "await_finality ops dep h tx r c2 = (Inl AwaitFinality, c3)"
    using assms(9-11) by (simp add: await_finality_def)
  have rb1: "resume_batch hexa ops dep io 0 p s = (Inl AwaitFinality, ?s1)"
    using assms(2-8) aw by (simp add: resume_batch_def Let_def)
  have rp1: "resumePending hexa ops dep io s = (Some AwaitFinality, ?s1)"
    using assms(1,2) rb1 by (simp add: resumePending_def)
  have rb2: "resume_batch hexa ops dep io' 0 p ?s1 = (Inr ?p, ?s1\<lparr>se_wal := Wal ?p\<rparr>)"
    using assms(2-4,12,13) by (simp add: resume_batch_def Let_def disk_ok_def)
  have rp2: "resumePending hexa ops dep io' ?s1 = finish_plan hexa io' ?p (?s1\<lparr>se_wal := Wal ?p\<rparr>)"
    using assms(1,2) rb2 by (simp add: resumePending_def)
  obtain s2 where f: "finish_plan hexa io' ?p (?s1\<lparr>se_wal := Wal ?p\<rparr>) = (None, s2)"
    using assms(13) by (simp add: finish_plan_def Let_def disk_ok_def)
  note ff = finish_fields [OF f]
  have "loadDebts (se_debts s2) = loadDebts (Some (ps_debts p))"
    using ff(5) assms(14) by (simp add: confirm_at_def loadDebts_def List.map_filter_def)
  then show ?thesis
    using rp1 rp2 f ff assms(1,13) by (intro exI [of _ ?s1] exI [of _ s2]) (simp add: confirm_at_def disk_ok_def)
qed

lemma add_records_unresolved:
  "r \<in> set (snd (fold (add_record a) records (costs, un))) \<Longrightarrow> r \<in> set un \<or> resolveWorkerToEVM a (rr_worker r) = ''''"
proof (induction records arbitrary: costs un)
  case (Cons x records)
  obtain costs' un' where x: "add_record a x (costs, un) = (costs', un')" by (cases "add_record a x (costs, un)")
  then have "r \<in> set un' \<Longrightarrow> r \<in> set un \<or> resolveWorkerToEVM a (rr_worker r) = ''''"
    by (auto simp: add_record_def Let_def split: if_splits)
  then show ?case using Cons.IH [of costs' un'] Cons.prems x by auto
qed simp

lemma unresolved_have_no_provider:
  "r \<in> set (snd (collect_costs a records debts)) \<Longrightarrow> resolveWorkerToEVM a (rr_worker r) = ''''"
  using add_records_unresolved [of r a records "[]" "[]"] by (simp add: collect_costs_def split: prod.splits)

text \<open>
  The dead-letter file is replaced before the plan is safe. If the plan cannot be written (or the
  process dies there), a dead-lettered record whose provider has become known is gone from the
  dead-letter file and is in no plan, debt or cursor range: its cost is never collected.
\<close>

theorem unwritten_plan_forgets_dead_letters:
  assumes "se_wal s = NoWal" "plan_cycle hexa cfg v io s = Inr (Some (p, s1))" "\<not> io_wal io p"
    and "Peek (se_cursor s) (cy_log v) = Inr (records, n, newCursor)" "0 < bf_sign (GetFILPriceUSD (cy_pricer v))"
    and "r \<in> set (loadDeadLetter (se_dead s))" "resolveWorkerToEVM (refresh_maps v) (rr_worker r) \<noteq> ''''"
    and "io_dead io" "\<forall>q. io_rec_len io q \<le> max_line"
  shows "\<exists>s'. Settle hexa ops cfg v io0 io s = (Some WritePending, s') \<and> r \<notin> set (loadDeadLetter (se_dead s')) \<and>
    se_wal s' = NoWal \<and> se_cursor s' = se_cursor s \<and> se_debts s' = se_debts s \<and> se_chain s' = se_chain s"
proof -
  obtain items unresolved settled remaining where agg:
    "AggregateWithDebts hexa (refresh_maps v) (loadDeadLetter (se_dead s) @ records) (loadDebts (se_debts s))
       (Some (GetFILPriceUSD (cy_pricer v))) (GetAllBalances (se_balance s)) = (items, unresolved, settled, remaining)"
    and "p = buildPending (cfg_MaxBatchSize cfg) items newCursor (floatMapToStrings settled)
       (carriedDebtsToRecords remaining) (records_by_id (loadDeadLetter (se_dead s) @ records)) (io_now io)"
    and s1: "s1 = s\<lparr>se_dead := writeDeadLetter (io_dead io) (io_rec_len io) unresolved (se_dead s)\<rparr>"
    using plan_cycle_cases [OF assms(2,4)] by blast
  have "r \<notin> set unresolved"
    unfolding aggregate_facts(1) [OF agg assms(5) refl] using assms(7) by (metis unresolved_have_no_provider)
  moreover have "Settle hexa ops cfg v io0 io s = (Some WritePending, s1)"
    using assms(1-3) by (simp add: Settle_def resumePending_def)
  ultimately show ?thesis
    using assms(1,8) load_written [OF assms(9), of unresolved] by (simp add: s1)
qed

section \<open>Concrete instances\<close>

text \<open>A chain that records every batch at once, over the list of the recorded hashes.\<close>

definition sample_receipt :: "bool \<Rightarrow> chain_receipt" where
  "sample_receipt ok = \<lparr>cr_status_ok = ok, cr_block = 10, cr_gas = 21000, cr_logs = []\<rparr>"

definition sample_chain :: "digest list chain_ops" where
  "sample_chain = \<lparr>op_processed = (\<lambda>c h. Some (h \<in> set c)), op_submit = (\<lambda>c b. (Some ''0xtx'', sb_hash b # c)),
     op_receipt = (\<lambda>c tx. (Inr (sample_receipt True), c)), op_finality = (\<lambda>c tx d. (FinalReceipt None, c)),
     op_outcome = ParseSettlementOutcome ''0xc'' \<circ> Some\<rparr>"

definition sample_io :: "bool \<Rightarrow> settle_io" where
  "sample_io rm = \<lparr>io_wal = (\<lambda>q. True), io_cursor = True, io_total = True, io_debts = True, io_remove = rm,
     io_dead = True, io_now = 7, io_store = sample_env True, io_items = True, io_audit = True, io_item_len = (\<lambda>r. 100), io_rec_len = (\<lambda>r. 300),
     io_get = (\<lambda>w t. None), io_confirm = (\<lambda>w t. None)\<rparr>"

definition sample_settler :: "'c \<Rightarrow> wal_file \<Rightarrow> 'c settler" where
  "sample_settler c w = \<lparr>se_chain = c, se_wal = w, se_cursor = None, se_debts = None, se_dead = [(300, Row sample_record)],
     se_total = None, se_items = [], se_audit = [], se_store = empty_store,
     se_balance = NewBalanceCache (cfg_SupportedTokens sample_config)\<rparr>"

definition sample_plan :: pending_settlement where
  "sample_plan = buildPending 50 [sample_item] zero_cursor [(''0xu'', DecText 7 0)] [] [''r1'' \<mapsto> sample_record] 7"

definition sample_view :: cycle_view where
  "sample_view = \<lparr>cy_log = empty_dir, cy_agg = sample_agg, cy_pricer = SetFILPriceUSD float64_3_50 5 (NewPricer sample_config), cy_now = 7,
     cy_workerSP = None, cy_payout = None\<rparr>"

lemma sample_chain_ok:
  "chain_ok sample_chain dep (\<lambda>c h. h \<in> set c)" "finals_succeed sample_chain" "chain_live sample_chain dep"
  by (auto simp: chain_ok_def finals_succeed_def chain_live_def sample_chain_def)

lemma sample_wal:
  "wal_ok (\<lambda>c h. h \<in> set c) (sample_settler [] (Wal sample_plan))" "wal_decodes (sample_settler c (Wal sample_plan))"
  "wal_decodes (sample_settler c NoWal)" "se_wal (sample_settler c w) = w"
  by (auto simp: wal_ok_def confirmed_ok_def sample_settler_def sample_plan_def buildPending_def freeze_batch_def
      wal_decodes_def list_all_iff Let_def frozen_submittable [unfolded freeze_batch_def Let_def] split: prod.splits)

lemma sample_disk: "disk_ok (sample_io True)" "\<forall>q. io_wal (sample_io b) q" "io_cursor (sample_io b)"
  "io_remove (sample_io b) = b" "io_debts (sample_io b)" "io_total (sample_io b)" "io_dead (sample_io b)"
  "\<forall>q. io_rec_len (sample_io b) q \<le> max_line"
  by (simp_all add: disk_ok_def sample_io_def max_line_def)

theorem settled_means_durable_witness:
  "\<exists>s'. resumePending (\<lambda>s. s) sample_chain (Some 5) (sample_io True) (sample_settler [] (Wal sample_plan)) = (None, s') \<and>
     all_durable (\<lambda>c h. h \<in> set c) (se_chain s') sample_plan \<and> se_cursor s' = Some (ps_cursor sample_plan)"
proof -
  obtain s' where r: "resumePending (\<lambda>s. s) sample_chain (Some 5) (sample_io True) (sample_settler [] (Wal sample_plan)) = (None, s')"
    using live_resume [OF sample_chain_ok(3) sample_wal(2) sample_disk(1)] by blast
  from settled_means_durable [OF sample_chain_ok(1,2) sample_wal(1,4), of "\<lambda>s. s" "Some 5" "sample_io True"] r
  show ?thesis by simp
qed

theorem finishing_twice_witness:
  "\<exists>s1 p'. resumePending (\<lambda>s. s) sample_chain None (sample_io False) (sample_settler [] (Wal sample_plan)) = (None, s1) \<and>
     se_wal s1 = Wal p' \<and>
     (\<exists>s2. resumePending (\<lambda>s. s) sample_chain None (sample_io True) s1 = (None, s2) \<and> se_chain s2 = se_chain s1 \<and>
        se_total s2 = se_total s1)"
proof -
  obtain s1 where r: "resumePending (\<lambda>s. s) sample_chain None (sample_io False) (sample_settler [] (Wal sample_plan)) = (None, s1)"
    using live_attempt [OF sample_chain_ok(3) sample_wal(2) sample_disk(2,3)] by blast
  have "ps_created sample_plan \<noteq> zero_time" by (simp add: sample_plan_def buildPending_def)
  from finishing_twice [OF sample_chain_ok(1,2) sample_wal(1,4) r _ sample_disk(3,5,6) this, of True] r
  show ?thesis by (cases "resumePending (\<lambda>s. s) sample_chain None (sample_io True) s1") (auto simp: sample_disk(4))
qed


lemma sample_peek: "Peek c empty_dir = Inr ([], case c of Some c \<Rightarrow> c | None \<Rightarrow> zero_cursor, case c of Some c \<Rightarrow> c | None \<Rightarrow> zero_cursor)"
  by (simp add: Peek_def empty_dir_def scanFrom_def Let_def split: option.split)

lemma sample_fresh: "\<not> IsStale (cy_pricer sample_view) (cy_now sample_view)"
  by (simp add: sample_view_def IsStale_def SetFILPriceUSD_def NewPricer_def sample_config_def zero_config_def Let_def minute_def second_def split: prod.split)

lemma sample_view_facts [simp]:
  "cy_log sample_view = empty_dir" "refresh_maps sample_view = sample_agg"
  "GetFILPriceUSD (cy_pricer sample_view) = float64_3_50"
  by (simp_all add: sample_view_def refresh_maps_def GetFILPriceUSD_def SetFILPriceUSD_def)

lemma sample_dead [simp]:
  "loadDeadLetter (se_dead (sample_settler c w)) = [sample_record]" "loadDebts (se_debts (sample_settler c w)) = []"
  "se_cursor (sample_settler c w) = None"
  by (simp_all add: sample_settler_def loadDebts_def max_line_def)

lemma sample_planned: "\<exists>p s1. plan_cycle hexa cfg sample_view io (sample_settler c NoWal) = Inr (Some (p, s1))"
  using sample_fresh by (simp add: plan_cycle_def sample_peek Let_def split: prod.split)

theorem healthy_cycle_completes_witness:
  "\<exists>s'. Settle (\<lambda>s. s) sample_chain sample_config sample_view (sample_io True) (sample_io True)
     (sample_settler [] (Wal sample_plan)) = (None, s') \<and> se_wal s' = NoWal"
  by (rule healthy_cycle_completes [OF sample_chain_ok(3) sample_wal(2) sample_disk(1,1)]) (simp add: sample_peek)

theorem cycle_loses_no_record_witness:
  "\<exists>p (s1 :: digest list settler) s'. plan_cycle (\<lambda>s. s) sample_config sample_view (sample_io True) (sample_settler [] NoWal) = Inr (Some (p, s1)) \<and>
     Settle (\<lambda>s. s) sample_chain sample_config sample_view (sample_io True) (sample_io True) (sample_settler [] NoWal) = (None, s') \<and>
     se_cursor s' = Some zero_cursor"
proof -
  obtain p and s1 :: "digest list settler" where p: "plan_cycle (\<lambda>s. s) sample_config sample_view (sample_io True) (sample_settler [] NoWal) = Inr (Some (p, s1))"
    using sample_planned [where c = "[]"] by blast
  have "wal_decodes (s1\<lparr>se_wal := Wal p\<rparr>)" using planned_decodes [OF p] by (simp add: wal_decodes_def)
  then obtain s' where s': "Settle (\<lambda>s. s) sample_chain sample_config sample_view (sample_io True) (sample_io True)
      (sample_settler [] NoWal) = (None, s')"
  proof -
    obtain s' where "resumePending (\<lambda>s. s) sample_chain (cfg_ConfirmationDepth sample_config) (sample_io True) (s1\<lparr>se_wal := Wal p\<rparr>) = (None, s')"
      using live_resume [OF sample_chain_ok(3) \<open>wal_decodes (s1\<lparr>se_wal := Wal p\<rparr>)\<close> sample_disk(1)] by blast
    moreover have "resumePending (\<lambda>s. s) sample_chain dep (sample_io True) (sample_settler [] NoWal) = (None, sample_settler [] NoWal)" for dep
      by (simp add: resumePending_def sample_wal(4))
    ultimately show ?thesis using that [of s'] p by (simp add: Settle_def sample_disk(2))
  qed
  have pk: "Peek (se_cursor (sample_settler [] NoWal)) (cy_log sample_view) = Inr ([], zero_cursor, zero_cursor)"
    by (simp add: sample_peek)
  have "rr_id sample_record \<noteq> ''''" by (simp add: sample_record_def)
  from cycle_loses_no_record [OF sample_chain_ok(1,2) sample_wal(4) p s' pk _ sample_disk(7,5,8) _ this] p s'
  show ?thesis by (simp add: sample_prices_usable)
qed

definition sample_node :: "digest list node" where
  "sample_node = \<lparr>nd_processed = (\<lambda>n h. Some (h \<in> set n)), nd_nonce = (\<lambda>n. Some 3), nd_gas = (\<lambda>n. Some 100),
     nd_send = (\<lambda>n auth a. (Some ''0xtx'', sa_hash a # n)), nd_mined = (\<lambda>n tx. (MinedTx (sample_receipt True), n)),
     nd_polls = (\<lambda>n tx. ([PollNotFound, PollFound (sample_receipt True) 20], n))\<rparr>"

theorem contract_client_is_chain_witness:
  "chain_ok (contract_ops 3 ''0xc'' sample_node) (Some 5) (\<lambda>(n, c) h. h \<in> set n)"
  by (rule contract_client_is_chain [where durable = "\<lambda>n h. h \<in> set n", simplified])
    (auto simp: node_ok_def sample_node_def)

text \<open>A node whose chain takes the transaction back and mines it again in a block where it reverts.\<close>

definition reorg_node :: "unit node" where
  "reorg_node = \<lparr>nd_processed = (\<lambda>n h. Some False), nd_nonce = (\<lambda>n. Some 3), nd_gas = (\<lambda>n. Some 100),
     nd_send = (\<lambda>n auth a. (Some ''0xtx'', n)), nd_mined = (\<lambda>n tx. (MinedTx (sample_receipt True), n)),
     nd_polls = (\<lambda>n tx. ([PollFound (sample_receipt False) 20], n))\<rparr>"

lemma sample_batches: "ps_batches sample_plan = [freeze_batch [''r1'' \<mapsto> sample_record] [sample_item]]"
  by (simp add: sample_plan_def buildPending_def splitBatches_def Let_def)

lemma sample_unconfirmed: "\<not> pb_confirmed (freeze_batch recs batch)"
  by (simp add: freeze_batch_def Let_def split: prod.split)

theorem reverted_reexecution_is_booked_witness:
  "\<exists>s' h. resumePending (\<lambda>s. s) (contract_ops 2 ''0xc'' reorg_node) (Some (int 5)) (sample_io True)
       (sample_settler ((), \<lparr>cl_lastNonce = None, cl_lastGasPrice = None\<rparr>) (Wal sample_plan)) = (None, s') \<and>
     se_wal s' = NoWal \<and> op_processed (contract_ops 2 ''0xc'' reorg_node) (se_chain s') h = Some False"
proof -
  let ?c = "\<lparr>cl_lastNonce = None, cl_lastGasPrice = None\<rparr>" and ?b = "freeze_batch [''r1'' \<mapsto> sample_record] [sample_item]"
  obtain h batch where h: "hexToHash32 (pb_hash ?b) = Some h" "toBatch (\<lambda>s. s) h ?b = Some batch"
    using submittable_toBatch [OF frozen_submittable] by blast
  obtain auth c1 where t: "transactor (nd_nonce reorg_node ()) (nd_gas reorg_node ()) ?c = (Some auth, c1)"
    by (cases "transactor (nd_nonce reorg_node ()) (nd_gas reorg_node ()) ?c")
      (auto simp: transactor_def reorg_node_def split: prod.splits)
  note nd = sample_wal(4) [of "((), ?c)" "Wal sample_plan"]
  have ch: "se_chain (sample_settler ((), ?c) w) = ((), ?c)" for w by (simp add: sample_settler_def)
  have "\<exists>s'. resumePending (\<lambda>s. s) (contract_ops 2 ''0xc'' reorg_node) (Some (int 5)) (sample_io True)
       (sample_settler ((), ?c) (Wal sample_plan)) = (None, s') \<and> se_wal s' = NoWal \<and>
     se_cursor s' = Some (ps_cursor sample_plan) \<and>
     op_processed (contract_ops 2 ''0xc'' reorg_node) (se_chain s') h = Some False \<and>
     se_total s' = addSettledTotal (io_total (sample_io True)) (ps_settled sample_plan) (ps_created sample_plan)
       (se_total (sample_settler ((), ?c) (Wal sample_plan)))"
    by (rule reverted_reexecution_is_booked [OF nd sample_batches sample_unconfirmed h ch _ t, where ?tx = "''0xtx''" and ?k = 20
        and ?r = "sample_receipt True" and ?r' = "sample_receipt False" and ?d = 5])
      (simp_all add: reorg_node_def sample_receipt_def sample_disk)
  then show ?thesis by blast
qed

theorem late_finality_skips_reversal_witness:
  "let slow = sample_chain\<lparr>op_finality := \<lambda>c tx d. (FinalityFailed, c)\<rparr>
   in \<exists>s1 s2. resumePending (\<lambda>s. s) slow (Some (int 5)) (sample_io True) (sample_settler [] (Wal sample_plan)) = (Some AwaitFinality, s1) \<and>
        resumePending (\<lambda>s. s) slow (Some (int 5)) (sample_io True) s1 = (None, s2) \<and> se_items s2 = []"
proof -
  let ?slow = "sample_chain\<lparr>op_finality := \<lambda>c tx d. (FinalityFailed, c)\<rparr>"
    and ?b = "freeze_batch [''r1'' \<mapsto> sample_record] [sample_item]" and ?s = "sample_settler ([] :: digest list) (Wal sample_plan)"
  obtain h batch where h: "hexToHash32 (pb_hash ?b) = Some h" "toBatch (\<lambda>s. s) h ?b = Some batch"
    using submittable_toBatch [OF frozen_submittable] by blast
  have "\<exists>s1 s2. resumePending (\<lambda>s. s) ?slow (Some (int 5)) (sample_io True) ?s = (Some AwaitFinality, s1) \<and> se_wal s1 = Wal sample_plan \<and>
    resumePending (\<lambda>s. s) ?slow (Some (int 5)) (sample_io True) s1 = (None, s2) \<and> se_wal s2 = NoWal \<and>
    se_total s2 = addSettledTotal (io_total (sample_io True)) (ps_settled sample_plan) (ps_created sample_plan) (se_total ?s) \<and>
    loadDebts (se_debts s2) = loadDebts (Some (ps_debts sample_plan)) \<and> se_items s2 = se_items ?s \<and> se_store s2 = se_store ?s"
    by (rule late_finality_skips_reversal [OF sample_wal(4) sample_batches sample_unconfirmed h, where ?tx = "''0xtx''"
          and ?c1.0 = "[h]" and ?c2.0 = "[h]" and ?c3.0 = "[h]" and ?r = "sample_receipt True" and ?d = 5])
      (simp_all add: sample_chain_def sample_settler_def sample_disk toBatch_hash [OF h(2)])
  then show ?thesis by (auto simp: Let_def sample_settler_def)
qed

theorem unwritten_plan_forgets_dead_letters_witness:
  "\<exists>s'. Settle (\<lambda>s. s) sample_chain sample_config sample_view (sample_io True) ((sample_io True)\<lparr>io_wal := \<lambda>q. False\<rparr>)
       (sample_settler [] NoWal) = (Some WritePending, s') \<and> sample_record \<notin> set (loadDeadLetter (se_dead s'))"
proof -
  let ?io = "(sample_io True)\<lparr>io_wal := \<lambda>q. False\<rparr>"
  obtain p and s1 :: "digest list settler" where p: "plan_cycle (\<lambda>s. s) sample_config sample_view ?io (sample_settler [] NoWal) = Inr (Some (p, s1))"
    using sample_planned [where c = "[]"] by blast
  have pk: "Peek (se_cursor (sample_settler [] NoWal)) (cy_log sample_view) = Inr ([], zero_cursor, zero_cursor)"
    by (simp add: sample_peek)
  have pr: "0 < bf_sign (GetFILPriceUSD (cy_pricer sample_view))" by (simp add: bf_sign_cases float64_3_50_ok)
  have "resolveWorkerToEVM (refresh_maps sample_view) (rr_worker sample_record) \<noteq> ''''"
    by (simp add: sample_agg_def NewAggregator_def resolveWorkerToEVM_def sample_record_def ApplyDefaults_def Let_def
        sample_config_def zero_config_def if_unset_def split: prod.split)
  from unwritten_plan_forgets_dead_letters [OF sample_wal(4) p _ pk pr _ this, where ops = sample_chain and ?io0.0 = "sample_io True"]
  show ?thesis using sample_disk(7,8) [of True] by auto
qed

end
