(* ===== verification/Registry.thy ===== *)
theory Registry
  imports GoStrings
begin

text \<open>
  The fleet registry (\<open>worker/state.go\<close>, \<open>worker/registry.go\<close>): registration, the state a poll
  derives, model switches, bans, verified models, the in-flight counts and the file the
  registrations are kept in. A registry's mutex makes each operation atomic. \<open>now\<close> is the time of
  the operation. URL parsing is an argument of \<open>Register\<close>; the JSON coding of the file is the
  identity on the persisted fields, and \<open>disk\<close> says whether the file could be replaced.
\<close>

section \<open>Workers\<close>

datatype worker_state = StateIdle | StateBusy | StateMining | StateLoading | StateOffline

record worker =
  wk_id :: string
  wk_endpoint :: string
  wk_scheduler :: string
  wk_token :: string
  wk_state :: worker_state
  wk_gpuState :: string
  wk_engineState :: string
  wk_active :: int
  wk_loaded :: string
  wk_supported :: "string list"
  wk_verified :: "string list"
  wk_verifiedAt :: gotime
  wk_gpus :: int
  wk_miner :: string
  wk_lastPoll :: gotime
  wk_registeredAt :: gotime
  wk_payout :: string
  wk_self :: bool
  wk_bannedUntil :: gotime
  wk_banReason :: string
  wk_inflight :: int
  wk_features :: "string list"
  wk_untilChange :: int
  wk_untilAt :: gotime
  wk_pubkey :: string
  wk_loadingSince :: gotime
  wk_switchingTo :: string
  wk_switchingSince :: gotime
  wk_failures :: int

definition HasFeature :: "worker \<Rightarrow> string \<Rightarrow> bool" where
  "HasFeature w name \<longleftrightarrow> name \<in> set (wk_features w)"

definition IsBanned :: "worker \<Rightarrow> gotime \<Rightarrow> bool" where
  "IsBanned w now \<longleftrightarrow> wk_bannedUntil w \<noteq> zero_time \<and> now < wk_bannedUntil w"

definition isEngineReady :: "string \<Rightarrow> bool" where
  "isEngineReady engineState \<longleftrightarrow> engineState = '''' \<or> engineState = ''running''"

definition DeriveState :: "string \<Rightarrow> string \<Rightarrow> int \<Rightarrow> worker_state" where
  "DeriveState gpuState engineState activeRequests =
     (if gpuState = ''GPU_STATE_AVAILABLE''
      then if \<not> isEngineReady engineState
           then if engineState = ''loading'' \<or> engineState = ''starting'' \<or> engineState = ''unloading''
                then StateLoading else StateMining
           else if activeRequests > 0 then StateBusy else StateIdle
      else if gpuState = ''GPU_STATE_YIELDING'' \<or> gpuState = ''GPU_STATE_WINDOW_POST'' \<or>
              gpuState = ''GPU_STATE_WINNING_POST''
      then StateMining
      else StateOffline)"

definition modelBasename :: "string \<Rightarrow> string" where
  "modelBasename m = after_last ''--'' (after_last ''/'' m)"

definition sameModelBasename :: "string \<Rightarrow> string \<Rightarrow> bool" where
  "sameModelBasename a b \<longleftrightarrow> a \<noteq> '''' \<and> b \<noteq> '''' \<and> modelBasename a = modelBasename b"

section \<open>The registry\<close>

record registration =
  reg_id :: string
  reg_endpoint :: string
  reg_scheduler :: string
  reg_gpus :: int
  reg_miner :: string
  reg_supported :: "string list"
  reg_token :: string
  reg_payout :: string
  reg_self :: bool

record persisted_worker =
  pw_id :: string
  pw_endpoint :: string
  pw_scheduler :: string
  pw_gpus :: int
  pw_miner :: string
  pw_supported :: "string list"
  pw_token :: string
  pw_payout :: string
  pw_self :: bool
  pw_bannedUntil :: gotime
  pw_banReason :: string
  pw_registeredAt :: gotime
  pw_verified :: "string list"
  pw_verifiedAt :: gotime

text \<open>\<open>rg_file\<close>: the saved registrations, \<open>None\<close> while there is no readable file.\<close>

record registry =
  rg_workers :: "(string \<times> worker) list"
  rg_inflight :: "(string \<times> int) list"
  rg_timeout :: duration
  rg_gate :: bool
  rg_path :: bool
  rg_file :: "persisted_worker list option"

definition defaultLoadingTimeout :: duration where "defaultLoadingTimeout = 5 * minute"

definition persist :: "worker \<Rightarrow> persisted_worker" where
  "persist w =
     \<lparr>pw_id = wk_id w, pw_endpoint = wk_endpoint w, pw_scheduler = wk_scheduler w, pw_gpus = wk_gpus w,
      pw_miner = wk_miner w, pw_supported = wk_supported w, pw_token = wk_token w, pw_payout = wk_payout w,
      pw_self = wk_self w, pw_bannedUntil = wk_bannedUntil w, pw_banReason = wk_banReason w,
      pw_registeredAt = wk_registeredAt w, pw_verified = wk_verified w, pw_verifiedAt = wk_verifiedAt w\<rparr>"

definition saveToDisk :: "bool \<Rightarrow> registry \<Rightarrow> registry" where
  "saveToDisk disk r =
     (if \<not> rg_path r \<or> \<not> disk then r
      else r\<lparr>rg_file := Some (List.map (persist \<circ> snd) (rg_workers r))\<rparr>)"

definition blank_worker :: worker where
  "blank_worker =
     \<lparr>wk_id = '''', wk_endpoint = '''', wk_scheduler = '''', wk_token = '''', wk_state = StateOffline,
      wk_gpuState = '''', wk_engineState = '''', wk_active = 0, wk_loaded = '''', wk_supported = [],
      wk_verified = [], wk_verifiedAt = zero_time, wk_gpus = 0, wk_miner = '''', wk_lastPoll = zero_time,
      wk_registeredAt = zero_time, wk_payout = '''', wk_self = False, wk_bannedUntil = zero_time,
      wk_banReason = '''', wk_inflight = 0, wk_features = [], wk_untilChange = 0, wk_untilAt = zero_time,
      wk_pubkey = '''', wk_loadingSince = zero_time, wk_switchingTo = '''', wk_switchingSince = zero_time,
      wk_failures = 0\<rparr>"

definition restored :: "gotime \<Rightarrow> persisted_worker \<Rightarrow> worker" where
  "restored now pw = blank_worker
     \<lparr>wk_id := pw_id pw, wk_endpoint := pw_endpoint pw, wk_scheduler := pw_scheduler pw, wk_gpus := pw_gpus pw,
      wk_miner := pw_miner pw, wk_supported := pw_supported pw, wk_verified := pw_verified pw,
      wk_verifiedAt := pw_verifiedAt pw, wk_token := pw_token pw, wk_payout := pw_payout pw, wk_self := pw_self pw,
      wk_bannedUntil := pw_bannedUntil pw, wk_banReason := pw_banReason pw,
      wk_registeredAt := (if pw_registeredAt pw = zero_time then now else pw_registeredAt pw)\<rparr>"

definition loadFromDisk :: "gotime \<Rightarrow> registry \<Rightarrow> registry" where
  "loadFromDisk now r =
     (case rg_file r of
        None \<Rightarrow> r
      | Some list \<Rightarrow> r\<lparr>rg_workers := fold (\<lambda>pw. aput (pw_id pw) (restored now pw)) list (rg_workers r)\<rparr>)"

definition NewRegistry :: "bool \<Rightarrow> persisted_worker list option \<Rightarrow> gotime \<Rightarrow> registry" where
  "NewRegistry path file now =
     (let r = \<lparr>rg_workers = [], rg_inflight = [], rg_timeout = defaultLoadingTimeout, rg_gate = False,
               rg_path = path, rg_file = file\<rparr>
      in if path then loadFromDisk now r else r)"

definition SetLoadingTimeout :: "duration \<Rightarrow> registry \<Rightarrow> registry" where
  "SetLoadingTimeout d r = r\<lparr>rg_timeout := d\<rparr>"

section \<open>In-flight requests\<close>

definition inflight_of :: "registry \<Rightarrow> string \<Rightarrow> int" where
  "inflight_of r wid = (case alookup (rg_inflight r) wid of Some n \<Rightarrow> n | None \<Rightarrow> 0)"

definition IncInflight :: "string \<Rightarrow> registry \<Rightarrow> registry" where
  "IncInflight wid r = r\<lparr>rg_inflight := aput wid (inflight_of r wid + 1) (rg_inflight r)\<rparr>"

definition DecInflight :: "string \<Rightarrow> registry \<Rightarrow> registry" where
  "DecInflight wid r =
     (let r = (if inflight_of r wid > 0 then r\<lparr>rg_inflight := aput wid (inflight_of r wid - 1) (rg_inflight r)\<rparr> else r)
      in if inflight_of r wid = 0 then r\<lparr>rg_inflight := adel wid (rg_inflight r)\<rparr> else r)"

section \<open>Registration\<close>

definition is_alnum :: "char \<Rightarrow> bool" where
  "is_alnum c \<longleftrightarrow> (CHR ''a'' \<le> c \<and> c \<le> CHR ''z'') \<or> (CHR ''A'' \<le> c \<and> c \<le> CHR ''Z'') \<or> (CHR ''0'' \<le> c \<and> c \<le> CHR ''9'')"

definition validWorkerID :: "string \<Rightarrow> bool" where
  "validWorkerID s \<longleftrightarrow> (case s of [] \<Rightarrow> False | c # cs \<Rightarrow> is_alnum c \<and> length cs \<le> 63 \<and>
     list_all (\<lambda>c. is_alnum c \<or> c = CHR ''.'' \<or> c = CHR ''_'' \<or> c = CHR ''-'') cs)"

datatype register_error = NoID | BadID | NoEndpoint | BadEndpoint | NoScheduler | BadScheduler

record register_result =
  rs_worker :: worker
  rs_created :: bool
  rs_endpointChanged :: bool
  rs_oldEndpoint :: string

definition reregister :: "registration \<Rightarrow> worker \<Rightarrow> worker" where
  "reregister reg w = w
     \<lparr>wk_endpoint := reg_endpoint reg, wk_scheduler := reg_scheduler reg, wk_gpus := reg_gpus reg,
      wk_miner := reg_miner reg, wk_token := reg_token reg,
      wk_supported := (if reg_supported reg \<noteq> [] then reg_supported reg else wk_supported w),
      wk_payout := (if reg_payout reg \<noteq> '''' then reg_payout reg else wk_payout w),
      wk_self := (wk_self w \<or> reg_self reg)\<rparr>"

definition first_registered :: "gotime \<Rightarrow> registration \<Rightarrow> worker" where
  "first_registered now reg = blank_worker
     \<lparr>wk_id := reg_id reg, wk_endpoint := reg_endpoint reg, wk_scheduler := reg_scheduler reg,
      wk_gpus := reg_gpus reg, wk_miner := reg_miner reg, wk_token := reg_token reg,
      wk_supported := reg_supported reg, wk_payout := reg_payout reg, wk_self := reg_self reg,
      wk_registeredAt := now\<rparr>"

definition Register ::
  "(string \<Rightarrow> bool) \<Rightarrow> bool \<Rightarrow> gotime \<Rightarrow> registration \<Rightarrow> registry \<Rightarrow> (register_error + register_result) \<times> registry" where
  "Register url_ok disk now reg r =
     (if reg_id reg = '''' then (Inl NoID, r)
      else if \<not> validWorkerID (reg_id reg) then (Inl BadID, r)
      else if reg_endpoint reg = '''' then (Inl NoEndpoint, r)
      else if \<not> url_ok (reg_endpoint reg) then (Inl BadEndpoint, r)
      else if reg_scheduler reg = '''' then (Inl NoScheduler, r)
      else if \<not> url_ok (reg_scheduler reg) then (Inl BadScheduler, r)
      else case alookup (rg_workers r) (reg_id reg) of
             Some w \<Rightarrow>
               (Inr \<lparr>rs_worker = reregister reg w, rs_created = False,
                     rs_endpointChanged = (wk_endpoint w \<noteq> reg_endpoint reg), rs_oldEndpoint = wk_endpoint w\<rparr>,
                saveToDisk disk (r\<lparr>rg_workers := aput (reg_id reg) (reregister reg w) (rg_workers r)\<rparr>))
           | None \<Rightarrow>
               (Inr \<lparr>rs_worker = first_registered now reg, rs_created = True, rs_endpointChanged = False,
                     rs_oldEndpoint = ''''\<rparr>,
                saveToDisk disk (r\<lparr>rg_workers := aput (reg_id reg) (first_registered now reg) (rg_workers r)\<rparr>)))"

definition Deregister :: "bool \<Rightarrow> string \<Rightarrow> registry \<Rightarrow> worker option \<times> registry" where
  "Deregister disk wid r =
     (case alookup (rg_workers r) wid of
        None \<Rightarrow> (None, r)
      | Some w \<Rightarrow> (Some w, saveToDisk disk (r\<lparr>rg_workers := adel wid (rg_workers r)\<rparr>)))"

section \<open>Lookups\<close>

definition snapshot :: "registry \<Rightarrow> worker \<Rightarrow> worker" where
  "snapshot r w = w\<lparr>wk_inflight := inflight_of r (wk_id w)\<rparr>"

definition Get :: "registry \<Rightarrow> string \<Rightarrow> worker option" where
  "Get r wid = map_option (\<lambda>w. w\<lparr>wk_inflight := inflight_of r wid\<rparr>) (alookup (rg_workers r) wid)"

definition ListWorkers :: "registry \<Rightarrow> worker list" where
  "ListWorkers r = List.map (snapshot r \<circ> snd) (rg_workers r)"

definition ListWorkerSPMap :: "registry \<Rightarrow> (string \<rightharpoonup> string)" where
  "ListWorkerSPMap r =
     fold (\<lambda>(wid, w) m. if wk_miner w \<noteq> '''' then m(wid \<mapsto> wk_miner w) else m) (rg_workers r) Map.empty"

definition ListMinerPayoutMap :: "registry \<Rightarrow> (string \<rightharpoonup> string)" where
  "ListMinerPayoutMap r =
     fold (\<lambda>(wid, w) m. if wk_miner w \<noteq> '''' \<and> wk_payout w \<noteq> '''' then m(wk_miner w \<mapsto> wk_payout w) else m)
       (rg_workers r) Map.empty"

definition FindByToken :: "registry \<Rightarrow> string \<Rightarrow> worker option" where
  "FindByToken r token =
     (if token = '''' then None
      else List.find (\<lambda>w. wk_token w \<noteq> '''' \<and> wk_token w = token) (List.map snd (rg_workers r)))"

definition FindByMiner :: "registry \<Rightarrow> string \<Rightarrow> worker option" where
  "FindByMiner r miner =
     map_option (snapshot r) (List.find (\<lambda>w. wk_miner w = miner) (List.map snd (rg_workers r)))"

definition CountWorkers :: "registry \<Rightarrow> nat" where
  "CountWorkers r = length (rg_workers r)"

record fleet_stats =
  fs_total :: nat
  fs_idle :: nat
  fs_busy :: nat
  fs_mining :: nat
  fs_loading :: nat
  fs_offline :: nat
  fs_gpus :: int
  fs_available :: int

definition Stats :: "registry \<Rightarrow> fleet_stats" where
  "Stats r =
     (let ws = List.map snd (rg_workers r);
          cnt = (\<lambda>st. length (filter (\<lambda>w. wk_state w = st) ws))
      in \<lparr>fs_total = length ws, fs_idle = cnt StateIdle, fs_busy = cnt StateBusy, fs_mining = cnt StateMining,
          fs_loading = cnt StateLoading, fs_offline = cnt StateOffline, fs_gpus = (\<Sum>w\<leftarrow>ws. wk_gpus w),
          fs_available = (\<Sum>w\<leftarrow>filter (\<lambda>w. wk_state w = StateIdle \<or> wk_state w = StateBusy) ws. wk_gpus w)\<rparr>)"

section \<open>Bans, verified models, capabilities\<close>

definition put_worker :: "string \<Rightarrow> worker \<Rightarrow> registry \<Rightarrow> registry" where
  "put_worker wid w r = r\<lparr>rg_workers := aput wid w (rg_workers r)\<rparr>"

definition SetBan :: "bool \<Rightarrow> string \<Rightarrow> gotime \<Rightarrow> string \<Rightarrow> registry \<Rightarrow> bool \<times> registry" where
  "SetBan disk wid until reason r =
     (case alookup (rg_workers r) wid of
        None \<Rightarrow> (False, r)
      | Some w \<Rightarrow> (True, saveToDisk disk (put_worker wid (w\<lparr>wk_bannedUntil := until, wk_banReason := reason\<rparr>) r)))"

definition SetVerified :: "bool \<Rightarrow> gotime \<Rightarrow> string \<Rightarrow> string list \<Rightarrow> registry \<Rightarrow> bool \<times> registry" where
  "SetVerified disk now wid models r =
     (case alookup (rg_workers r) wid of
        None \<Rightarrow> (False, r)
      | Some w \<Rightarrow> (True, saveToDisk disk (put_worker wid (w\<lparr>wk_verified := models, wk_verifiedAt := now\<rparr>) r)))"

definition SetAdmissionGate :: "bool \<Rightarrow> registry \<Rightarrow> registry" where
  "SetAdmissionGate on r = r\<lparr>rg_gate := on\<rparr>"

text \<open>
  A changed key is logged by its first 16 characters; slicing a shorter one panics (\<open>None\<close>).
\<close>

definition SetFeatures :: "string \<Rightarrow> string list \<Rightarrow> string \<Rightarrow> registry \<Rightarrow> registry option" where
  "SetFeatures wid features receiptPubkey r =
     (case alookup (rg_workers r) wid of
        None \<Rightarrow> Some r
      | Some w \<Rightarrow>
          if receiptPubkey \<noteq> '''' \<and> wk_pubkey w \<noteq> '''' \<and> wk_pubkey w \<noteq> receiptPubkey \<and>
             (length (wk_pubkey w) < 16 \<or> length receiptPubkey < 16)
          then None
          else Some (put_worker wid (w\<lparr>wk_features := features,
                 wk_pubkey := (if receiptPubkey \<noteq> '''' then receiptPubkey else wk_pubkey w)\<rparr>) r))"

definition SetUntilChange :: "gotime \<Rightarrow> string \<Rightarrow> int \<Rightarrow> registry \<Rightarrow> registry" where
  "SetUntilChange now wid seconds r =
     (case alookup (rg_workers r) wid of
        None \<Rightarrow> r
      | Some w \<Rightarrow> put_worker wid (w\<lparr>wk_untilChange := seconds, wk_untilAt := now\<rparr>) r)"

section \<open>State transitions\<close>

text \<open>What a poll makes of a worker that is being switched, and of one that is loading.\<close>

definition poll_switch :: "duration \<Rightarrow> gotime \<Rightarrow> string \<Rightarrow> worker_state \<times> worker \<Rightarrow> worker_state \<times> worker" where
  "poll_switch timeout now loadedModel = (\<lambda>(derived, w).
     if wk_switchingTo w = '''' then (derived, w)
     else if sameModelBasename loadedModel (wk_switchingTo w)
     then (derived, w\<lparr>wk_switchingTo := '''', wk_switchingSince := zero_time\<rparr>)
     else if timeout > 0 \<and> wk_switchingSince w \<noteq> zero_time \<and> now - wk_switchingSince w > timeout
     then (StateOffline, w\<lparr>wk_switchingTo := '''', wk_switchingSince := zero_time\<rparr>)
     else (StateLoading, w))"

definition poll_loading :: "duration \<Rightarrow> gotime \<Rightarrow> worker_state \<times> worker \<Rightarrow> worker_state \<times> worker" where
  "poll_loading timeout now = (\<lambda>(derived, w).
     if derived = StateLoading
     then if wk_loadingSince w = zero_time then (derived, w\<lparr>wk_loadingSince := now\<rparr>)
          else if timeout > 0 \<and> now - wk_loadingSince w > timeout then (StateOffline, w)
          else (derived, w)
     else (derived, w\<lparr>wk_loadingSince := zero_time\<rparr>))"

definition polled ::
  "duration \<Rightarrow> gotime \<Rightarrow> string \<Rightarrow> string \<Rightarrow> int \<Rightarrow> string \<Rightarrow> int \<Rightarrow> worker \<Rightarrow> worker" where
  "polled timeout now gpuState engineState activeRequests loadedModel engineCount w =
     (let w = w\<lparr>wk_gpuState := gpuState, wk_engineState := engineState, wk_active := activeRequests,
                wk_lastPoll := now, wk_failures := 0\<rparr>;
          (derived, w) = poll_loading timeout now (poll_switch timeout now loadedModel
             (DeriveState gpuState engineState activeRequests, w))
      in w\<lparr>wk_state := derived, wk_loaded := loadedModel,
           wk_gpus := (if engineCount > 0 \<and> wk_gpus w \<noteq> engineCount then engineCount else wk_gpus w)\<rparr>)"

definition UpdateState ::
  "gotime \<Rightarrow> string \<Rightarrow> string \<Rightarrow> string \<Rightarrow> int \<Rightarrow> string \<Rightarrow> int \<Rightarrow> registry \<Rightarrow>
   (worker_state \<times> worker_state \<times> bool) option \<times> registry" where
  "UpdateState now wid gpuState engineState activeRequests loadedModel engineCount r =
     (case alookup (rg_workers r) wid of
        None \<Rightarrow> (None, r)
      | Some w \<Rightarrow>
          (let w' = polled (rg_timeout r) now gpuState engineState activeRequests loadedModel engineCount w
           in (Some (wk_state w, wk_state w', wk_state w \<noteq> wk_state w'), put_worker wid w' r)))"

definition MarkSwitching :: "gotime \<Rightarrow> string \<Rightarrow> string \<Rightarrow> registry \<Rightarrow> registry" where
  "MarkSwitching now wid targetModel r =
     (case alookup (rg_workers r) wid of
        None \<Rightarrow> r
      | Some w \<Rightarrow>
          if targetModel = '''' \<or> sameModelBasename (wk_loaded w) targetModel then r
          else (let w = (if wk_switchingTo w \<noteq> targetModel
                         then w\<lparr>wk_switchingTo := targetModel, wk_switchingSince := now\<rparr> else w)
                in put_worker wid (w\<lparr>wk_state := StateLoading\<rparr>) r))"

definition RecordPollFailure :: "string \<Rightarrow> int \<Rightarrow> registry \<Rightarrow> (bool \<times> int) \<times> registry" where
  "RecordPollFailure wid threshold r =
     (case alookup (rg_workers r) wid of
        None \<Rightarrow> ((False, 0), r)
      | Some w \<Rightarrow>
          (let failures = wk_failures w + 1
           in ((failures \<ge> threshold \<and> wk_state w \<noteq> StateOffline, failures), put_worker wid (w\<lparr>wk_failures := failures\<rparr>) r)))"

definition MarkOffline :: "string \<Rightarrow> registry \<Rightarrow> (worker_state \<times> bool) option \<times> registry" where
  "MarkOffline wid r =
     (case alookup (rg_workers r) wid of
        None \<Rightarrow> (None, r)
      | Some w \<Rightarrow>
          if wk_state w = StateOffline then (Some (StateOffline, False), r)
          else (Some (wk_state w, True), put_worker wid (w\<lparr>wk_state := StateOffline, wk_gpuState := '''',
                  wk_engineState := '''', wk_active := 0\<rparr>) r))"

end
