(* ===== verification/Poller.thy ===== *)
theory Poller
  imports Registry GoJson
begin

text \<open>
  The fleet poller (\<open>worker/poller.go\<close>): what is read from a scheduler's \<open>/ready\<close> line and an
  engine's \<open>/health\<close> answer, and what one poll does to the registry. The HTTP exchange is an
  argument: a body or answer, or nothing when it failed. Concurrent polls are sequences of the
  registry operations.
\<close>

section \<open>The scheduler's answer\<close>

text \<open>Up to the first comma, blank or line break (\<open>IndexAny\<close>).\<close>

definition until_separator :: "string \<Rightarrow> string" where
  "until_separator s = takeWhile (\<lambda>c. c \<noteq> CHR '','' \<and> c \<noteq> CHR '' '' \<and> c \<noteq> CHR 0x0A) s"

definition parse_ready :: "string \<Rightarrow> (string \<times> int) option" where
  "parse_ready body =
     (let line = TrimSpace body;
          untilChange =
            (case split2 ''seconds_until_change='' line of
               None \<Rightarrow> -1
             | Some (_, rest) \<Rightarrow> (case ParseInt64 (until_separator rest) of Some v \<Rightarrow> v | None \<Rightarrow> -1))
      in case split2 ''gpu_state='' line of
           None \<Rightarrow> None
         | Some (_, st) \<Rightarrow> Some (TrimSpace st, untilChange))"

text \<open>\<open>Some (status, body)\<close>: an answer with its status and body (\<open>None\<close>: the body could not be read).\<close>

definition fetchGPUState :: "(int \<times> string option) option \<Rightarrow> (string \<times> int) option" where
  "fetchGPUState answer =
     (case answer of
        Some (status, Some body) \<Rightarrow> if status \<noteq> 200 then None else parse_ready body
      | _ \<Rightarrow> None)"

section \<open>The engine's answer\<close>

record health =
  he_engineState :: string
  he_active :: int
  he_loaded :: string
  he_multiGPU :: "int option"
  he_features :: "string list"
  he_pubkey :: string

definition engine_count :: "health \<Rightarrow> int" where
  "engine_count h = (case he_multiGPU h of Some n \<Rightarrow> if n > 0 then n else 1 | None \<Rightarrow> 1)"

definition fetchInferenceHealth :: "(int \<times> health option) option \<Rightarrow> health option" where
  "fetchInferenceHealth answer =
     (case answer of Some (status, Some h) \<Rightarrow> if status \<noteq> 200 then None else Some h | _ \<Rightarrow> None)"

section \<open>One poll\<close>

definition failure_threshold :: "int \<Rightarrow> int" where
  "failure_threshold configured = (if configured \<le> 0 then 3 else configured)"

text \<open>The second result is the state change announced to the gateway.\<close>

definition handlePollFailure ::
  "int \<Rightarrow> string \<Rightarrow> registry \<Rightarrow> registry \<times> (worker_state \<times> worker_state) option" where
  "handlePollFailure threshold wid r =
     (let ((shouldOffline, failures), r) = RecordPollFailure wid threshold r
      in if shouldOffline
         then (case MarkOffline wid r of
                 (Some (oldState, True), r) \<Rightarrow> (r, Some (oldState, StateOffline))
               | (_, r) \<Rightarrow> (r, None))
         else (r, None))"

text \<open>\<open>None\<close> is a panic of the poll.\<close>

definition pollWorker ::
  "int \<Rightarrow> gotime \<Rightarrow> (int \<times> string option) option \<Rightarrow> (int \<times> health option) option \<Rightarrow> string \<Rightarrow> registry \<Rightarrow>
   (registry \<times> (worker_state \<times> worker_state) option) option" where
  "pollWorker threshold now ready health wid r =
     (case fetchGPUState ready of
        None \<Rightarrow> Some (handlePollFailure threshold wid r)
      | Some (gpuState, untilChange) \<Rightarrow>
          (case fetchInferenceHealth health of
             None \<Rightarrow> Some (handlePollFailure threshold wid r)
           | Some h \<Rightarrow>
               (case SetFeatures wid (he_features h) (he_pubkey h) (SetUntilChange now wid untilChange r) of
                  None \<Rightarrow> None
                | Some r \<Rightarrow>
                    (case UpdateState now wid gpuState (he_engineState h) (he_active h) (he_loaded h) (engine_count h) r of
                       (Some (oldState, newState, True), r) \<Rightarrow> Some (r, Some (oldState, newState))
                     | (_, r) \<Rightarrow> Some (r, None)))))"

definition PollNow ::
  "int \<Rightarrow> gotime \<Rightarrow> (int \<times> string option) option \<Rightarrow> (int \<times> health option) option \<Rightarrow> string \<Rightarrow> registry \<Rightarrow>
   (registry \<times> (worker_state \<times> worker_state) option) option" where
  "PollNow threshold now ready health wid r =
     (case Get r wid of None \<Rightarrow> Some (r, None) | Some w \<Rightarrow> pollWorker threshold now ready health wid r)"

text \<open>A round over all workers, in the order their polls happen to run.\<close>

fun pollAll ::
  "int \<Rightarrow> gotime \<Rightarrow> (string \<Rightarrow> (int \<times> string option) option) \<Rightarrow> (string \<Rightarrow> (int \<times> health option) option) \<Rightarrow>
   string list \<Rightarrow> registry \<Rightarrow> registry option" where
  "pollAll threshold now ready health [] r = Some r"
| "pollAll threshold now ready health (wid # wids) r =
     (case pollWorker threshold now (ready wid) (health wid) wid r of
        None \<Rightarrow> None
      | Some (r, _) \<Rightarrow> pollAll threshold now ready health wids r)"

section \<open>Reachable registries\<close>

text \<open>The operations of the registry in any order, as the admin API, the polls and the requests interleave them.\<close>

inductive fleet_step :: "registry \<Rightarrow> registry \<Rightarrow> bool" where
  register: "fleet_step r (snd (Register url_ok disk now reg r))"
| deregister: "fleet_step r (snd (Deregister disk wid r))"
| ban: "fleet_step r (snd (SetBan disk wid until reason r))"
| verified: "fleet_step r (snd (SetVerified disk now wid models r))"
| gate: "fleet_step r (SetAdmissionGate on r)"
| timeout: "fleet_step r (SetLoadingTimeout d r)"
| features: "SetFeatures wid features key r = Some r' \<Longrightarrow> fleet_step r r'"
| until_change: "fleet_step r (SetUntilChange now wid seconds r)"
| update: "fleet_step r (snd (UpdateState now wid gpuState engineState active loaded engines r))"
| switching: "fleet_step r (MarkSwitching now wid model r)"
| failure: "fleet_step r (snd (RecordPollFailure wid threshold r))"
| offline: "fleet_step r (snd (MarkOffline wid r))"
| inc: "fleet_step r (IncInflight wid r)"
| dec: "fleet_step r (DecInflight wid r)"

inductive_cases fleet_stepE: "fleet_step r r'"

definition routable :: "worker \<Rightarrow> bool" where
  "routable w \<longleftrightarrow> wk_state w = StateIdle \<or> wk_state w = StateBusy"

definition servable :: "worker \<Rightarrow> bool" where
  "servable w \<longleftrightarrow> wk_gpuState w = ''GPU_STATE_AVAILABLE'' \<and> isEngineReady (wk_engineState w) \<and>
     wk_switchingTo w = '''' \<and> (wk_state w = StateBusy \<longleftrightarrow> wk_active w > 0)"

definition workers_ok :: "(string \<times> worker) list \<Rightarrow> bool" where
  "workers_ok ws \<longleftrightarrow> distinct (akeys ws) \<and> (\<forall>k w. alookup ws k = Some w \<longrightarrow> wk_id w = k \<and> (routable w \<longrightarrow> servable w))"

definition counts_ok :: "(string \<times> int) list \<Rightarrow> bool" where
  "counts_ok m \<longleftrightarrow> distinct (akeys m) \<and> (\<forall>k n. alookup m k = Some n \<longrightarrow> 0 < n)"

definition registry_ok :: "registry \<Rightarrow> bool" where
  "registry_ok r \<longleftrightarrow> workers_ok (rg_workers r) \<and> counts_ok (rg_inflight r)"

lemma workers_ok_put:
  "workers_ok ws \<Longrightarrow> wk_id w = k \<Longrightarrow> (routable w \<Longrightarrow> servable w) \<Longrightarrow> workers_ok (aput k w ws)"
  by (simp add: workers_ok_def)

lemma workers_ok_upd:
  assumes "workers_ok ws" "alookup ws k = Some w" "wk_id w' = wk_id w"
    and "(routable w \<longrightarrow> servable w) \<longrightarrow> routable w' \<longrightarrow> servable w'"
  shows "workers_ok (aput k w' ws)"
  using assms by (auto simp: workers_ok_def)

lemma workers_ok_del: "workers_ok ws \<Longrightarrow> workers_ok (adel k ws)"
  by (simp add: workers_ok_def)

lemma workers_okD: "workers_ok ws \<Longrightarrow> alookup ws k = Some w \<Longrightarrow> wk_id w = k \<and> (routable w \<longrightarrow> servable w)"
  by (simp add: workers_ok_def)

lemma fleet_frame [fleet_simps]:
  "rg_workers (saveToDisk disk r) = rg_workers r" "rg_inflight (saveToDisk disk r) = rg_inflight r"
  "rg_workers (put_worker wid w r) = aput wid w (rg_workers r)" "rg_inflight (put_worker wid w r) = rg_inflight r"
  "rg_path (put_worker wid w r) = rg_path r" "rg_timeout (put_worker wid w r) = rg_timeout r"
  by (simp_all add: saveToDisk_def put_worker_def)

lemma derived_servable:
  "DeriveState g e a = StateIdle \<or> DeriveState g e a = StateBusy \<Longrightarrow>
   g = ''GPU_STATE_AVAILABLE'' \<and> isEngineReady e \<and> (DeriveState g e a = StateBusy \<longleftrightarrow> a > 0)"
  by (auto simp: DeriveState_def split: if_splits)

lemma poll_switch_cases:
  assumes "poll_switch timeout now loadedModel (d, w) = (d', w')"
  shows "(d' = d \<and> wk_switchingTo w' = '''' \<or> d' = StateOffline \<or> d' = StateLoading) \<and>
    wk_gpuState w' = wk_gpuState w \<and> wk_engineState w' = wk_engineState w \<and> wk_active w' = wk_active w \<and>
    wk_id w' = wk_id w"
  using assms by (auto simp: poll_switch_def split: if_splits)

lemma poll_loading_cases:
  assumes "poll_loading timeout now (d, w) = (d', w')"
  shows "(d' = d \<or> d' = StateOffline) \<and> wk_switchingTo w' = wk_switchingTo w \<and> wk_gpuState w' = wk_gpuState w \<and>
    wk_engineState w' = wk_engineState w \<and> wk_active w' = wk_active w \<and> wk_id w' = wk_id w"
  using assms by (auto simp: poll_loading_def split: if_splits)

lemma polled_ok:
  "wk_id (polled t now g e a l c w) = wk_id w" "routable (polled t now g e a l c w) \<Longrightarrow> servable (polled t now g e a l c w)"
proof -
  let ?w = "w\<lparr>wk_gpuState := g, wk_engineState := e, wk_active := a, wk_lastPoll := now, wk_failures := 0\<rparr>"
  obtain d1 w1 where 1: "poll_switch t now l (DeriveState g e a, ?w) = (d1, w1)"
    by (cases "poll_switch t now l (DeriveState g e a, ?w)")
  obtain d2 w2 where 2: "poll_loading t now (d1, w1) = (d2, w2)" by (cases "poll_loading t now (d1, w1)")
  have p: "polled t now g e a l c w = w2\<lparr>wk_state := d2, wk_loaded := l,
      wk_gpus := (if c > 0 \<and> wk_gpus w2 \<noteq> c then c else wk_gpus w2)\<rparr>"
    using 1 2 by (simp add: polled_def)
  note c1 = poll_switch_cases [OF 1] and c2 = poll_loading_cases [OF 2]
  from c1 c2 show "wk_id (polled t now g e a l c w) = wk_id w" by (simp add: p)
  assume "routable (polled t now g e a l c w)"
  then have d: "d2 = StateIdle \<or> d2 = StateBusy" by (simp add: p routable_def)
  with c2 have "d2 = d1" by auto
  with c1 d have d1: "d1 = DeriveState g e a" "wk_switchingTo w1 = ''''" by auto
  with d \<open>d2 = d1\<close> have "DeriveState g e a = StateIdle \<or> DeriveState g e a = StateBusy" by simp
  then have der: "g = ''GPU_STATE_AVAILABLE''" "isEngineReady e" "DeriveState g e a = StateBusy \<longleftrightarrow> a > 0"
    using derived_servable by blast+
  have "wk_gpuState w2 = g" "wk_engineState w2 = e" "wk_active w2 = a" "wk_switchingTo w2 = ''''"
    using c1 c2 d1 by simp_all
  with der(2,3) show "servable (polled t now g e a l c w)"
    unfolding p by (simp add: servable_def d1 \<open>d2 = d1\<close> der(1) [symmetric])
qed

lemma counts_ok_inc: "counts_ok (rg_inflight r) \<Longrightarrow> counts_ok (rg_inflight (IncInflight wid r))"
  by (fastforce simp: counts_ok_def IncInflight_def inflight_of_def split: option.split)

lemma counts_ok_dec: "counts_ok (rg_inflight r) \<Longrightarrow> counts_ok (rg_inflight (DecInflight wid r))"
  by (auto simp: counts_ok_def DecInflight_def inflight_of_def Let_def split: option.splits if_splits)

lemma registry_ok_upd:
  assumes "registry_ok r" "alookup (rg_workers r) wid = Some w" "wk_id w' = wk_id w"
    and "(routable w \<longrightarrow> servable w) \<longrightarrow> routable w' \<longrightarrow> servable w'"
  shows "registry_ok (put_worker wid w' r)" "registry_ok (saveToDisk disk (put_worker wid w' r))"
  using assms workers_ok_upd [of "rg_workers r" wid w w'] by (simp_all add: registry_ok_def fleet_simps)

lemma registry_ok_registered:
  "registry_ok r \<Longrightarrow> registry_ok (snd (Register url_ok disk now reg r))"
proof (cases "alookup (rg_workers r) (reg_id reg)")
  case None
  assume "registry_ok r"
  then have "workers_ok (aput (reg_id reg) (first_registered now reg) (rg_workers r))"
    by (intro workers_ok_put) (simp_all add: registry_ok_def first_registered_def blank_worker_def routable_def)
  with \<open>registry_ok r\<close> None show ?thesis by (simp add: Register_def registry_ok_def fleet_simps)
next
  case (Some w)
  assume "registry_ok r"
  then have "workers_ok (aput (reg_id reg) (reregister reg w) (rg_workers r))"
    by (intro workers_ok_upd [OF _ Some]) (simp_all add: registry_ok_def reregister_def routable_def servable_def)
  with \<open>registry_ok r\<close> Some show ?thesis by (simp add: Register_def registry_ok_def fleet_simps)
qed

lemma registry_ok_step: "fleet_step r r' \<Longrightarrow> registry_ok r \<Longrightarrow> registry_ok r'"
proof (induction rule: fleet_step.induct)
  case (register r url_ok disk now reg)
  then show ?case by (rule registry_ok_registered)
next
  case (deregister r disk wid)
  then show ?case by (auto simp: registry_ok_def Deregister_def fleet_simps workers_ok_del split: option.split)
next
  case (ban r disk wid until reason)
  then show ?case
    by (auto simp: SetBan_def routable_def servable_def intro!: registry_ok_upd split: option.split)
next
  case (verified r disk now wid models)
  then show ?case
    by (auto simp: SetVerified_def routable_def servable_def intro!: registry_ok_upd split: option.split)
next
  case (features wid fs key r r')
  then show ?case
    by (auto simp: SetFeatures_def routable_def servable_def intro!: registry_ok_upd split: option.splits if_splits)
next
  case (until_change r now wid seconds)
  then show ?case
    by (auto simp: SetUntilChange_def routable_def servable_def intro!: registry_ok_upd split: option.split)
next
  case (update r now wid gpuState engineState active loaded engines)
  then show ?case
    by (auto simp: UpdateState_def Let_def polled_ok intro!: registry_ok_upd split: option.split)
next
  case (switching r now wid model)
  then show ?case
    by (auto simp: MarkSwitching_def Let_def routable_def intro!: registry_ok_upd split: option.split)
next
  case (failure r wid threshold)
  then show ?case
    by (auto simp: RecordPollFailure_def Let_def routable_def servable_def intro!: registry_ok_upd split: option.split)
next
  case (offline r wid)
  then show ?case
    by (auto simp: MarkOffline_def routable_def intro!: registry_ok_upd split: option.split)
next
  case (inc r wid)
  then show ?case using counts_ok_inc by (simp add: registry_ok_def) (simp add: IncInflight_def)
next
  case (dec r wid)
  then show ?case using counts_ok_dec by (simp add: registry_ok_def) (simp add: DecInflight_def Let_def)
qed (simp_all add: registry_ok_def SetAdmissionGate_def SetLoadingTimeout_def)

lemma registry_ok_reachable: "fleet_step\<^sup>*\<^sup>* r r' \<Longrightarrow> registry_ok r \<Longrightarrow> registry_ok r'"
  by (induction rule: rtranclp_induct) (auto intro: registry_ok_step)

lemma restored_ok: "wk_id (restored now pw) = pw_id pw" "\<not> routable (restored now pw)"
  by (simp_all add: restored_def blank_worker_def routable_def)

lemma registry_ok_load: "workers_ok ws \<Longrightarrow> workers_ok (fold (\<lambda>pw. aput (pw_id pw) (restored now pw)) list ws)"
proof (induction list arbitrary: ws)
  case (Cons pw list)
  have "workers_ok (aput (pw_id pw) (restored now pw) ws)"
    by (rule workers_ok_put [OF Cons.prems]) (simp_all add: restored_ok)
  with Cons.IH show ?case by simp
qed simp

lemma registry_ok_new: "registry_ok (NewRegistry path file now)"
proof -
  have "workers_ok []" "counts_ok []" by (simp_all add: workers_ok_def counts_ok_def akeys_def)
  then show ?thesis
    using registry_ok_load [of "[]"] by (simp add: NewRegistry_def loadFromDisk_def registry_ok_def Let_def split: option.split)
qed

section \<open>Only servable workers are routable\<close>

text \<open>
  C33: In every reachable registry a worker in state idle or busy has reported a free GPU and a ready
  engine, is in no model switch the gateway has started, and is busy exactly when it reported
  active requests; and every in-flight count is positive. So the router never sees a mining,
  switching or loading worker as routable, in whatever order polls, requests and admin calls come.
\<close>

theorem routable_is_servable:
  assumes "fleet_step\<^sup>*\<^sup>* (NewRegistry path file t) r"
  shows "list_all (\<lambda>w. wk_state w \<in> {StateIdle, StateBusy} \<longrightarrow>
      wk_gpuState w = ''GPU_STATE_AVAILABLE'' \<and> isEngineReady (wk_engineState w) \<and> wk_switchingTo w = '''' \<and>
      (wk_state w = StateBusy \<longleftrightarrow> wk_active w > 0)) (ListWorkers r) \<and> 0 \<le> inflight_of r wid"
proof -
  have ok: "registry_ok r" by (rule registry_ok_reachable [OF assms registry_ok_new])
  have "routable w \<longrightarrow> servable w" if "(k, w) \<in> set (rg_workers r)" for k w
    using ok that in_set_alookup [of "rg_workers r" k w] by (simp add: registry_ok_def workers_ok_def)
  then have "list_all (\<lambda>w. wk_state w \<in> {StateIdle, StateBusy} \<longrightarrow>
      wk_gpuState w = ''GPU_STATE_AVAILABLE'' \<and> isEngineReady (wk_engineState w) \<and> wk_switchingTo w = '''' \<and>
      (wk_state w = StateBusy \<longleftrightarrow> wk_active w > 0)) (ListWorkers r)"
    by (fastforce simp: list_all_iff ListWorkers_def snapshot_def routable_def servable_def)
  moreover have "0 \<le> inflight_of r wid"
    using ok by (force simp: registry_ok_def counts_ok_def inflight_of_def split: option.split)
  ultimately show ?thesis by simp
qed

section \<open>Model switches\<close>

text \<open>
  A started switch ends with the model or with the worker offline. Marking a worker for a model it
  has not loaded takes it out of routing at once, and a later poll makes it routable again only
  if that poll reports the target model; a switch that exceeds the loading timeout takes it offline.
\<close>

theorem switch_excludes_until_loaded:
  assumes "alookup (rg_workers r) wid = Some w" "target \<noteq> ''''" "\<not> sameModelBasename (wk_loaded w) target"
    and "alookup (rg_workers r') wid = Some w'" "wk_switchingTo w' = target" "wk_switchingSince w' \<noteq> zero_time"
  shows "(case Get (MarkSwitching now wid target r) wid of Some v \<Rightarrow> wk_state v = StateLoading \<and> wk_switchingTo v = target | None \<Rightarrow> False) \<and>
    (case UpdateState now' wid gpuState engineState active loaded engines r' of
       (Some (_, newState, _), r'') \<Rightarrow>
         (if newState = StateIdle \<or> newState = StateBusy then sameModelBasename loaded target else True) \<and>
         (if \<not> sameModelBasename loaded target \<and> 0 < rg_timeout r' \<and> wk_switchingSince w' + rg_timeout r' < now'
          then newState = StateOffline else True)
     | (None, _) \<Rightarrow> False)"
proof
  show "case Get (MarkSwitching now wid target r) wid of Some v \<Rightarrow> wk_state v = StateLoading \<and> wk_switchingTo v = target | None \<Rightarrow> False"
    using assms(1-3) by (simp add: MarkSwitching_def Get_def put_worker_def Let_def)
  let ?w = "w'\<lparr>wk_gpuState := gpuState, wk_engineState := engineState, wk_active := active, wk_lastPoll := now', wk_failures := 0\<rparr>"
  obtain d1 w1 where 1: "poll_switch (rg_timeout r') now' loaded (DeriveState gpuState engineState active, ?w) = (d1, w1)"
    by (cases "poll_switch (rg_timeout r') now' loaded (DeriveState gpuState engineState active, ?w)")
  obtain d2 w2 where 2: "poll_loading (rg_timeout r') now' (d1, w1) = (d2, w2)"
    by (cases "poll_loading (rg_timeout r') now' (d1, w1)")
  have st: "wk_state (polled (rg_timeout r') now' gpuState engineState active loaded engines w') = d2"
    using 1 2 by (simp add: polled_def)
  have d1: "d1 = (if sameModelBasename loaded target then DeriveState gpuState engineState active
      else if 0 < rg_timeout r' \<and> wk_switchingSince w' + rg_timeout r' < now' then StateOffline else StateLoading)"
    using 1 assms(2,5,6) by (auto simp: poll_switch_def split: if_splits)
  have "d2 = d1 \<or> d2 = StateOffline" using poll_loading_cases [OF 2] by blast
  with d1 show "case UpdateState now' wid gpuState engineState active loaded engines r' of
       (Some (_, newState, _), r'') \<Rightarrow>
         (if newState = StateIdle \<or> newState = StateBusy then sameModelBasename loaded target else True) \<and>
         (if \<not> sameModelBasename loaded target \<and> 0 < rg_timeout r' \<and> wk_switchingSince w' + rg_timeout r' < now'
          then newState = StateOffline else True)
     | (None, _) \<Rightarrow> False"
    using assms(4) by (simp add: UpdateState_def Let_def st) (cases "sameModelBasename loaded target"; auto split: if_splits)
qed

section \<open>Registration and restart\<close>

text \<open>
  A worker that registers again keeps what it has proven and what it is punished for: its verified
  models, ban, registration time and state; its signed payout address unless a new one comes, its
  self-registered mark once set, and its supported models unless it names some.
\<close>

theorem reregistration_keeps_proofs:
  assumes "alookup (rg_workers r) (reg_id reg) = Some w" "Register url_ok disk now reg r = (Inr res, r')"
  shows "\<exists>w'. alookup (rg_workers r') (reg_id reg) = Some w' \<and> \<not> rs_created res \<and>
    wk_verified w' = wk_verified w \<and> wk_verifiedAt w' = wk_verifiedAt w \<and> wk_bannedUntil w' = wk_bannedUntil w \<and>
    wk_banReason w' = wk_banReason w \<and> wk_registeredAt w' = wk_registeredAt w \<and> wk_state w' = wk_state w \<and>
    wk_switchingTo w' = wk_switchingTo w \<and> wk_payout w' = (if reg_payout reg = '''' then wk_payout w else reg_payout reg) \<and>
    wk_self w' = (wk_self w \<or> reg_self reg) \<and>
    wk_supported w' = (if reg_supported reg = [] then wk_supported w else reg_supported reg)"
  using assms by (auto simp: Register_def fleet_simps reregister_def split: if_splits)

lemma fold_aput_fresh:
  "distinct (List.map f xs @ akeys ws) \<Longrightarrow> fold (\<lambda>x. aput (f x) (g x)) xs ws = ws @ List.map (\<lambda>x. (f x, g x)) xs"
proof (induction xs arbitrary: ws)
  case (Cons x xs)
  have "f x \<notin> set (akeys ws) \<Longrightarrow> aput (f x) (g x) ws = ws @ [(f x, g x)]"
    by (induction ws) auto
  with Cons show ?case by (simp add: akeys_def)
qed simp

text \<open>
  The operations of the registry and restarts while every write of the file succeeds; workers in \<open>S\<close> are neither
  deregistered nor given another ban. A poll writes nothing, so the file is what the last registration, ban or
  verification left.
\<close>

inductive saved_step :: "string set \<Rightarrow> registry \<Rightarrow> registry \<Rightarrow> bool" for S where
  register: "now \<noteq> zero_time \<Longrightarrow> saved_step S r (snd (Register url_ok True now reg r))"
| deregister: "wid \<notin> S \<Longrightarrow> saved_step S r (snd (Deregister True wid r))"
| ban: "wid \<notin> S \<Longrightarrow> saved_step S r (snd (SetBan True wid until reason r))"
| verified: "saved_step S r (snd (SetVerified True now wid models r))"
| gate: "saved_step S r (SetAdmissionGate on r)"
| timeout: "saved_step S r (SetLoadingTimeout d r)"
| features: "SetFeatures wid features key r = Some r' \<Longrightarrow> saved_step S r r'"
| until_change: "saved_step S r (SetUntilChange now wid seconds r)"
| update: "saved_step S r (snd (UpdateState now wid gpuState engineState active loaded engines r))"
| switching: "saved_step S r (MarkSwitching now wid model r)"
| failure: "saved_step S r (snd (RecordPollFailure wid threshold r))"
| offline: "saved_step S r (snd (MarkOffline wid r))"
| inc: "saved_step S r (IncInflight wid r)"
| dec: "saved_step S r (DecInflight wid r)"
| restart: "saved_step S r (NewRegistry True (rg_file r) now)"

text \<open>What a worker has in common with its row: all but the GPU count, which a poll updates without writing.\<close>

definition row_of_worker :: "persisted_worker \<Rightarrow> worker \<Rightarrow> bool" where
  "row_of_worker pw w \<longleftrightarrow>
     wk_id w = pw_id pw \<and> wk_endpoint w = pw_endpoint pw \<and> wk_scheduler w = pw_scheduler pw \<and> wk_miner w = pw_miner pw \<and>
     wk_supported w = pw_supported pw \<and> wk_token w = pw_token pw \<and> wk_payout w = pw_payout pw \<and> wk_self w = pw_self pw \<and>
     wk_bannedUntil w = pw_bannedUntil pw \<and> wk_banReason w = pw_banReason pw \<and> wk_registeredAt w = pw_registeredAt pw \<and>
     wk_verified w = pw_verified pw \<and> wk_verifiedAt w = pw_verifiedAt pw \<and> wk_registeredAt w \<noteq> zero_time"

definition synced :: "registry \<Rightarrow> bool" where
  "synced r \<longleftrightarrow> rg_path r \<and> registry_ok r \<and>
     list_all2 (\<lambda>pw (k, w). pw_id pw = k \<and> row_of_worker pw w) (case rg_file r of None \<Rightarrow> [] | Some ps \<Rightarrow> ps) (rg_workers r)"

lemma restored_rows:
  assumes "distinct (List.map pw_id ps)"
  shows "rg_workers (NewRegistry True (Some ps) now) = List.map (\<lambda>pw. (pw_id pw, restored now pw)) ps"
  using fold_aput_fresh [of pw_id ps "[]" "restored now"] assms by (simp add: NewRegistry_def loadFromDisk_def akeys_def)

lemma new_registry_frame: "rg_path (NewRegistry path file now) = path" "rg_file (NewRegistry path file now) = file"
  by (simp_all add: NewRegistry_def loadFromDisk_def Let_def split: option.split)

lemma synced_new:
  assumes "case file of None \<Rightarrow> True | Some ps \<Rightarrow> distinct (List.map pw_id ps) \<and> list_all (\<lambda>pw. pw_registeredAt pw \<noteq> zero_time) ps"
  shows "synced (NewRegistry True file now)"
proof (cases "file")
  case None
  have "rg_workers (NewRegistry True None now) = []" by (simp add: NewRegistry_def loadFromDisk_def)
  then show ?thesis using registry_ok_new by (simp add: None synced_def new_registry_frame)
next
  case (Some ps)
  then have ps: "distinct (List.map pw_id ps)" "list_all (\<lambda>pw. pw_registeredAt pw \<noteq> zero_time) ps" using assms by simp_all
  have "list_all2 (\<lambda>pw (k, w). pw_id pw = k \<and> row_of_worker pw w) ps (List.map (\<lambda>pw. (pw_id pw, restored now pw)) ps)"
    using ps(2) by (simp add: list_all2_map2 list_all2_same list_all_iff row_of_worker_def restored_def blank_worker_def)
  then show ?thesis using registry_ok_new by (simp add: Some synced_def new_registry_frame restored_rows [OF ps(1)])
qed

lemma synced_file:
  assumes "synced r"
  shows "case rg_file r of None \<Rightarrow> True | Some ps \<Rightarrow> distinct (List.map pw_id ps) \<and> list_all (\<lambda>pw. pw_registeredAt pw \<noteq> zero_time) ps"
proof (cases "rg_file r")
  case (Some ps)
  have l: "list_all2 (\<lambda>pw (k, w). pw_id pw = k \<and> row_of_worker pw w) ps (rg_workers r)" using assms by (simp add: synced_def Some)
  then have "List.map pw_id ps = akeys (rg_workers r) \<and> list_all (\<lambda>pw. pw_registeredAt pw \<noteq> zero_time) ps"
    unfolding akeys_def by (induction rule: list_all2_induct) (auto simp: row_of_worker_def)
  then show ?thesis using assms Some by (simp add: synced_def registry_ok_def workers_ok_def)
qed simp

lemma synced_save:
  assumes "rg_path r" "registry_ok r" "\<And>k w. alookup (rg_workers r) k = Some w \<Longrightarrow> wk_registeredAt w \<noteq> zero_time"
  shows "synced (saveToDisk True r)"
proof -
  have w: "wk_id w = k \<and> wk_registeredAt w \<noteq> zero_time" if "(k, w) \<in> set (rg_workers r)" for k w
    using assms(2,3) that in_set_alookup [of "rg_workers r" k w] by (simp add: registry_ok_def workers_ok_def)
  have "list_all2 (\<lambda>pw (k, w). pw_id pw = k \<and> row_of_worker pw w) (List.map (persist \<circ> snd) (rg_workers r)) (rg_workers r)"
    using w by (auto simp: list_all2_map1 list_all2_same row_of_worker_def persist_def)
  moreover have "registry_ok (saveToDisk True r)" using assms(2) by (simp add: registry_ok_def fleet_simps)
  ultimately show ?thesis using assms(1) by (simp add: synced_def fleet_simps) (simp add: saveToDisk_def)
qed

lemma list_all2_aput:
  "list_all2 R ps ws \<Longrightarrow> alookup ws k = Some w \<Longrightarrow> (\<And>pw. R pw (k, w) \<Longrightarrow> R pw (k, w')) \<Longrightarrow> list_all2 R ps (aput k w' ws)"
  by (induction rule: list_all2_induct) (auto split: if_splits)

lemma synced_registered: "synced r \<Longrightarrow> alookup (rg_workers r) k = Some w \<Longrightarrow> wk_registeredAt w \<noteq> zero_time"
proof -
  assume "synced r" "alookup (rg_workers r) k = Some w"
  then have l: "list_all2 (\<lambda>pw (k, w). pw_id pw = k \<and> row_of_worker pw w) (case rg_file r of None \<Rightarrow> [] | Some ps \<Rightarrow> ps) (rg_workers r)"
    and m: "(k, w) \<in> set (rg_workers r)" by (auto simp: synced_def alookup_map_of dest: map_of_SomeD)
  have "\<exists>pw. row_of_worker pw w" using l m by (fastforce simp: list_all2_conv_all_nth in_set_conv_nth)
  then show "wk_registeredAt w \<noteq> zero_time" by (auto simp: row_of_worker_def)
qed

text \<open>A change of a worker that its row does not show keeps the file in step.\<close>

lemma synced_quiet:
  assumes "synced r" "registry_ok (put_worker wid w' r)" "alookup (rg_workers r) wid = Some w" "\<And>pw. row_of_worker pw w \<Longrightarrow> row_of_worker pw w'"
  shows "synced (put_worker wid w' r)"
proof -
  have "list_all2 (\<lambda>pw (k, w). pw_id pw = k \<and> row_of_worker pw w) (case rg_file r of None \<Rightarrow> [] | Some ps \<Rightarrow> ps) (aput wid w' (rg_workers r))"
    by (rule list_all2_aput [OF _ assms(3)]) (use assms(1,4) in \<open>auto simp: synced_def\<close>)
  then show ?thesis using assms(1,2) by (simp add: synced_def put_worker_def)
qed

lemma row_quiet:
  "persist w'\<lparr>pw_gpus := 0\<rparr> = persist w\<lparr>pw_gpus := 0\<rparr> \<Longrightarrow> row_of_worker pw w \<Longrightarrow> row_of_worker pw w'"
  by (simp add: persist_def row_of_worker_def)

lemma polled_persist: "persist (polled t now g e a l c w)\<lparr>pw_gpus := 0\<rparr> = persist w\<lparr>pw_gpus := 0\<rparr>"
  by (simp add: polled_def poll_switch_def poll_loading_def persist_def Let_def split: prod.split)

lemma saved_fleet: "saved_step S r r' \<Longrightarrow> fleet_step r r' \<or> (\<exists>now. r' = NewRegistry True (rg_file r) now)"
  by (induction rule: saved_step.induct) (auto intro: fleet_step.intros)

lemma saved_ok: "saved_step S r r' \<Longrightarrow> registry_ok r \<Longrightarrow> registry_ok r'"
  using saved_fleet registry_ok_step registry_ok_new by blast

lemma synced_step: "saved_step S r r' \<Longrightarrow> synced r \<Longrightarrow> synced r'"
proof -
  assume st: "saved_step S r r'" and s: "synced r"
  have ok: "registry_ok r'" using saved_ok [OF st] s by (simp add: synced_def)
  have path: "rg_path r" using s by (simp add: synced_def)
  have old: "wk_registeredAt w \<noteq> zero_time" if "alookup (rg_workers r) k = Some w" for k w by (rule synced_registered [OF s that])
  have put: "synced (put_worker wid w' r)"
    if "alookup (rg_workers r) wid = Some w" "registry_ok (put_worker wid w' r)" "persist w'\<lparr>pw_gpus := 0\<rparr> = persist w\<lparr>pw_gpus := 0\<rparr>" for wid w w'
    by (rule synced_quiet [OF s that(2,1)]) (rule row_quiet [OF that(3)])
  have save: "synced (saveToDisk True v)"
    if "registry_ok (saveToDisk True v)" "rg_path v" "\<And>k w. alookup (rg_workers v) k = Some w \<Longrightarrow> wk_registeredAt w \<noteq> zero_time" for v
    by (rule synced_save) (use that in \<open>simp_all add: registry_ok_def fleet_simps\<close>)
  show "synced r'"
    using st
  proof cases
    case (register now url_ok reg)
    show ?thesis
    proof (cases "alookup (rg_workers r) (reg_id reg)")
      case None
      have "wk_registeredAt w \<noteq> zero_time" if "alookup (aput (reg_id reg) (first_registered now reg) (rg_workers r)) k = Some w" for k w
        using that old register(2) by (auto simp: first_registered_def split: if_splits)
      then show ?thesis using ok s path None unfolding register(1) by (auto simp: Register_def split: if_splits intro!: save)
    next
      case (Some w0)
      have "wk_registeredAt w \<noteq> zero_time" if "alookup (aput (reg_id reg) (reregister reg w0) (rg_workers r)) k = Some w" for k w
        using that old Some by (auto simp: reregister_def split: if_splits)
      then show ?thesis using ok s path Some unfolding register(1) by (auto simp: Register_def split: if_splits intro!: save)
    qed
  next
    case (deregister wid)
    have "wk_registeredAt w \<noteq> zero_time" if "alookup (adel wid (rg_workers r)) k = Some w" for k w
      using that old by (auto split: if_splits)
    then show ?thesis using ok s path unfolding deregister(1) by (auto simp: Deregister_def split: option.splits intro!: save)
  next
    case (ban wid until reason)
    have "wk_registeredAt v \<noteq> zero_time"
      if "alookup (rg_workers r) wid = Some w" "alookup (aput wid (w\<lparr>wk_bannedUntil := until, wk_banReason := reason\<rparr>) (rg_workers r)) k = Some v" for k v w
      using that old by (auto split: if_splits)
    then show ?thesis using ok s path unfolding ban(1) by (auto simp: SetBan_def fleet_simps split: option.splits intro!: save)
  next
    case (verified now wid models)
    have "wk_registeredAt v \<noteq> zero_time"
      if "alookup (rg_workers r) wid = Some w" "alookup (aput wid (w\<lparr>wk_verified := models, wk_verifiedAt := now\<rparr>) (rg_workers r)) k = Some v" for k v w
      using that old by (auto split: if_splits)
    then show ?thesis using ok s path unfolding verified(1) by (auto simp: SetVerified_def fleet_simps split: option.splits intro!: save)
  next
    case (features wid fs key)
    then show ?thesis using put ok s by (auto simp: SetFeatures_def persist_def split: option.splits if_splits)
  next
    case (until_change now wid seconds)
    then show ?thesis using put ok s by (auto simp: SetUntilChange_def persist_def split: option.splits)
  next
    case (update now wid g e a l c)
    then show ?thesis using put ok s by (auto simp: UpdateState_def polled_persist Let_def split: option.splits)
  next
    case (switching now wid model)
    then show ?thesis using put ok s by (auto simp: MarkSwitching_def persist_def Let_def split: option.splits if_splits)
  next
    case (failure wid threshold)
    then show ?thesis using put ok s by (auto simp: RecordPollFailure_def persist_def Let_def split: option.splits)
  next
    case (offline wid)
    then show ?thesis using put ok s by (auto simp: MarkOffline_def persist_def split: option.splits if_splits)
  next
    case (restart now)
    then show ?thesis using synced_new [OF synced_file [OF s]] by simp
  qed (use s ok in \<open>simp_all add: synced_def SetAdmissionGate_def SetLoadingTimeout_def IncInflight_def DecInflight_def Let_def\<close>)
qed

lemma synced_steps: "(saved_step S)\<^sup>*\<^sup>* r r' \<Longrightarrow> synced r \<Longrightarrow> synced r'"
  by (induction rule: rtranclp_induct) (auto intro: synced_step)

lemma restarted_fleet:
  assumes "synced r" "r1 = NewRegistry True (rg_file r) now"
  shows "akeys (rg_workers r1) = akeys (rg_workers r) \<and>
    rel_option (\<lambda>w w1. wk_id w1 = wk_id w \<and> wk_endpoint w1 = wk_endpoint w \<and> wk_scheduler w1 = wk_scheduler w \<and> wk_miner w1 = wk_miner w \<and>
      wk_supported w1 = wk_supported w \<and> wk_token w1 = wk_token w \<and> wk_payout w1 = wk_payout w \<and> wk_self w1 = wk_self w \<and>
      wk_bannedUntil w1 = wk_bannedUntil w \<and> wk_banReason w1 = wk_banReason w \<and> wk_registeredAt w1 = wk_registeredAt w \<and>
      wk_verified w1 = wk_verified w \<and> wk_verifiedAt w1 = wk_verifiedAt w \<and>
      wk_state w1 = StateOffline \<and> wk_active w1 = 0 \<and> wk_switchingTo w1 = '''')
      (alookup (rg_workers r) wid) (alookup (rg_workers r1) wid)"
proof -
  note s = assms(1)
  define ps where "ps = (case rg_file r of None \<Rightarrow> [] | Some ps \<Rightarrow> ps)"
  have l: "list_all2 (\<lambda>pw (k, w). pw_id pw = k \<and> row_of_worker pw w) ps (rg_workers r)" using s by (simp add: synced_def ps_def)
  have "distinct (List.map pw_id ps)" using synced_file [OF s] by (simp add: ps_def split: option.splits)
  then have w1: "rg_workers r1 = List.map (\<lambda>pw. (pw_id pw, restored now pw)) ps"
    using restored_rows [of ps now]
    by (cases "rg_file r") (simp_all add: assms(2) ps_def NewRegistry_def loadFromDisk_def)
  show ?thesis unfolding w1 using l
    by (induction rule: list_all2_induct) (auto simp: row_of_worker_def restored_def blank_worker_def akeys_def)
qed

text \<open>
  C34: A restart at any moment brings the fleet back. From a file with distinct ids and registration times on, after any operations with successful writes and any
  restarts, a registry started from the file as the last operation left it has the same workers under the same ids, each
  with its endpoint, scheduler, miner, models, token, payout address, self-registered mark, ban, registration time
  and verified models, offline and idle until it is polled. Only the GPU count may be older, since a poll
  updates it without writing the file.
\<close>

theorem restart_round_trip:
  assumes "(saved_step {})\<^sup>*\<^sup>* (NewRegistry True file t) r"
    and "case file of None \<Rightarrow> True | Some ps \<Rightarrow> distinct (List.map pw_id ps) \<and> list_all (\<lambda>pw. pw_registeredAt pw \<noteq> zero_time) ps"
    and "r1 = NewRegistry True (rg_file r) now"
  shows "akeys (rg_workers r1) = akeys (rg_workers r) \<and>
    rel_option (\<lambda>w w1. wk_id w1 = wk_id w \<and> wk_endpoint w1 = wk_endpoint w \<and> wk_scheduler w1 = wk_scheduler w \<and> wk_miner w1 = wk_miner w \<and>
      wk_supported w1 = wk_supported w \<and> wk_token w1 = wk_token w \<and> wk_payout w1 = wk_payout w \<and> wk_self w1 = wk_self w \<and>
      wk_bannedUntil w1 = wk_bannedUntil w \<and> wk_banReason w1 = wk_banReason w \<and> wk_registeredAt w1 = wk_registeredAt w \<and>
      wk_verified w1 = wk_verified w \<and> wk_verifiedAt w1 = wk_verifiedAt w \<and>
      wk_state w1 = StateOffline \<and> wk_active w1 = 0 \<and> wk_switchingTo w1 = '''')
      (alookup (rg_workers r) wid) (alookup (rg_workers r1) wid)"
  by (rule restarted_fleet [OF synced_steps [OF assms(1) synced_new [OF assms(2)]] assms(3)])

text \<open>A ban stays until somebody lifts it or sets another: polls, switches, registrations and restarts keep it.\<close>

lemma ban_stays:
  assumes "saved_step S r r'" "synced r" "wid \<in> S" "alookup (rg_workers r) wid = Some w"
  shows "\<exists>w'. alookup (rg_workers r') wid = Some w' \<and> wk_bannedUntil w' = wk_bannedUntil w"
  using assms(1)
proof cases
  case (register now url_ok reg)
  then show ?thesis using assms(4) by (auto simp: Register_def fleet_simps reregister_def split: option.split)
next
  case (deregister wid')
  then show ?thesis using assms(3,4) by (auto simp: Deregister_def fleet_simps split: option.split)
next
  case (ban wid' until reason)
  then show ?thesis using assms(3,4) by (auto simp: SetBan_def fleet_simps split: option.split)
next
  case (verified now wid' models)
  then show ?thesis using assms(4) by (auto simp: SetVerified_def fleet_simps split: option.split)
next
  case (features wid' fs key)
  then show ?thesis using assms(4) by (auto simp: SetFeatures_def fleet_simps split: option.splits if_splits)
next
  case (until_change now wid' seconds)
  then show ?thesis using assms(4) by (auto simp: SetUntilChange_def fleet_simps split: option.split)
next
  case (update now wid' g e a l c)
  have "wk_bannedUntil (polled t n g e a l c v) = wk_bannedUntil v" for t n v
    by (simp add: polled_def poll_switch_def poll_loading_def Let_def split: prod.split)
  then show ?thesis using update assms(4) by (auto simp: UpdateState_def fleet_simps Let_def split: option.split)
next
  case (switching now wid' model)
  then show ?thesis using assms(4) by (auto simp: MarkSwitching_def fleet_simps Let_def split: option.split)
next
  case (failure wid' threshold)
  then show ?thesis using assms(4) by (auto simp: RecordPollFailure_def fleet_simps Let_def split: option.split)
next
  case (offline wid')
  then show ?thesis using assms(4) by (auto simp: MarkOffline_def fleet_simps split: option.split)
next
  case (restart now)
  from restarted_fleet [OF assms(2) restart, of wid] assms(4) show ?thesis by (auto elim: option.rel_cases)
qed (use assms(4) in \<open>simp_all add: SetAdmissionGate_def SetLoadingTimeout_def IncInflight_def DecInflight_def Let_def\<close>)

lemma bans_stay:
  assumes "(saved_step S)\<^sup>*\<^sup>* r r'" "synced r" "wid \<in> S" "alookup (rg_workers r) wid = Some w"
  shows "\<exists>w'. alookup (rg_workers r') wid = Some w' \<and> wk_bannedUntil w' = wk_bannedUntil w"
  using assms(1)
proof (induction rule: rtranclp_induct)
  case (step r1 r2)
  then obtain w1 where w1: "alookup (rg_workers r1) wid = Some w1" "wk_bannedUntil w1 = wk_bannedUntil w" by blast
  from ban_stays [OF step.hyps(2) synced_steps [OF step.hyps(1) assms(2)] assms(3) w1(1)] w1(2) show ?case by auto
qed (use assms(4) in simp)

section \<open>Failed polls\<close>

lemma fail_get:
  assumes "alookup (rg_workers r) wid = Some w" "wk_state w \<noteq> StateOffline"
  shows "alookup (rg_workers (fst (handlePollFailure t wid r))) wid =
    Some (if t \<le> wk_failures w + 1
          then w\<lparr>wk_failures := wk_failures w + 1, wk_state := StateOffline, wk_gpuState := '''', wk_engineState := '''', wk_active := 0\<rparr>
          else w\<lparr>wk_failures := wk_failures w + 1\<rparr>)"
  using assms by (simp add: handlePollFailure_def RecordPollFailure_def MarkOffline_def Let_def put_worker_def)

lemma fail_offline:
  assumes "alookup (rg_workers r) wid = Some w" "wk_state w = StateOffline"
  shows "alookup (rg_workers (fst (handlePollFailure t wid r))) wid = Some (w\<lparr>wk_failures := wk_failures w + 1\<rparr>)"
  using assms by (simp add: handlePollFailure_def RecordPollFailure_def MarkOffline_def Let_def put_worker_def)

text \<open>
  Transient failures do not take a worker out. A worker that is not offline and whose last poll
  succeeded is still in the same state after fewer failed polls in a row than the threshold, and
  offline after that many or more; the number of failures is counted exactly.
\<close>

theorem offline_exactly_at_threshold:
  assumes "alookup (rg_workers r) wid = Some w" "wk_state w \<noteq> StateOffline" "wk_failures w = 0" "0 < t"
  shows "case alookup (rg_workers (((\<lambda>r. fst (handlePollFailure t wid r)) ^^ n) r)) wid of
      Some w' \<Rightarrow> wk_failures w' = int n \<and> wk_state w' = (if int n < t then wk_state w else StateOffline)
    | None \<Rightarrow> False"
proof (induction n)
  case (Suc n)
  let ?r = "((\<lambda>r. fst (handlePollFailure t wid r)) ^^ n) r"
  obtain v where v: "alookup (rg_workers ?r) wid = Some v" "wk_failures v = int n"
    "wk_state v = (if int n < t then wk_state w else StateOffline)"
    using Suc by (cases "alookup (rg_workers ?r) wid") auto
  show ?case
  proof (cases "wk_state v = StateOffline")
    case True
    with v assms(2) have "\<not> int n < t" by (auto split: if_splits)
    with fail_offline [OF v(1) True] v(2) True show ?thesis by simp
  next
    case False
    with v have "int n < t" "wk_state v = wk_state w" by (auto split: if_splits)
    with fail_get [OF v(1) False, of t] v(2) show ?thesis by simp
  qed
qed (use assms in simp)

text \<open>
  A worker can crash the gateway. The receipt key a worker reports is recorded unchecked, and a
  change of it is logged by its first 16 characters: after a poll that records a shorter key, any
  successful poll that reports another one panics, and no handler of the poll recovers it.
\<close>

theorem short_receipt_key_panics:
  assumes "alookup (rg_workers r) wid = Some w" "wk_pubkey w = ''''"
    and "he_pubkey h1 \<noteq> ''''" "length (he_pubkey h1) < 16" "he_pubkey h2 \<noteq> ''''" "he_pubkey h2 \<noteq> he_pubkey h1"
    and "parse_ready line = Some (g, u)"
  shows "case pollWorker t now (Some (200, Some line)) (Some (200, Some h1)) wid r of
      Some (r', _) \<Rightarrow> pollWorker t now' (Some (200, Some line)) (Some (200, Some h2)) wid r' = None
    | None \<Rightarrow> False"
proof -
  have f: "fetchGPUState (Some (200, Some line)) = Some (g, u)" using assms(7) by (simp add: fetchGPUState_def)
  have h: "fetchInferenceHealth (Some (200, Some h)) = Some h" for h by (simp add: fetchInferenceHealth_def)
  let ?w1 = "w\<lparr>wk_untilChange := u, wk_untilAt := now, wk_features := he_features h1, wk_pubkey := he_pubkey h1\<rparr>"
  have u: "SetUntilChange now wid u r = put_worker wid (w\<lparr>wk_untilChange := u, wk_untilAt := now\<rparr>) r"
    using assms(1) by (simp add: SetUntilChange_def)
  have s: "SetFeatures wid (he_features h1) (he_pubkey h1) (put_worker wid (w\<lparr>wk_untilChange := u, wk_untilAt := now\<rparr>) r) =
      Some (put_worker wid ?w1 (put_worker wid (w\<lparr>wk_untilChange := u, wk_untilAt := now\<rparr>) r))"
    using assms(1-3) by (simp add: SetFeatures_def fleet_simps)
  let ?w2 = "polled (rg_timeout r) now g (he_engineState h1) (he_active h1) (he_loaded h1) (engine_count h1) ?w1"
  obtain r' c where p: "pollWorker t now (Some (200, Some line)) (Some (200, Some h1)) wid r = Some (r', c)"
    "alookup (rg_workers r') wid = Some ?w2"
    by (cases "wk_state ?w1 = wk_state ?w2")
      (auto simp: pollWorker_def f h u s UpdateState_def Let_def fleet_simps)
  have "wk_pubkey ?w2 = he_pubkey h1"
    by (simp add: polled_def Let_def poll_switch_def poll_loading_def split: prod.splits if_splits)
  then have "SetFeatures wid (he_features h2) (he_pubkey h2) (SetUntilChange now' wid u r') = None"
    using assms(3-6) p(2) by (simp add: SetFeatures_def SetUntilChange_def put_worker_def)
  then have "pollWorker t now' (Some (200, Some line)) (Some (200, Some h2)) wid r' = None"
    by (simp add: pollWorker_def f h)
  with p(1) show ?thesis by simp
qed

section \<open>Concrete instances\<close>

definition sample_reg :: registration where
  "sample_reg = \<lparr>reg_id = ''w1'', reg_endpoint = ''http://a:8000'', reg_scheduler = ''http://a:9090'', reg_gpus = 2,
     reg_miner = ''f01'', reg_supported = [''m''], reg_token = ''t'', reg_payout = '''', reg_self = True\<rparr>"

definition sample_fleet :: registry where
  "sample_fleet = snd (Register (\<lambda>u. True) True 5 sample_reg (NewRegistry True None 1))"

lemma sample_fleet_reachable: "fleet_step\<^sup>*\<^sup>* (NewRegistry True None 1) sample_fleet"
  unfolding sample_fleet_def by (rule r_into_rtranclp, rule fleet_step.register)

lemma sample_fleet_eq:
  "sample_fleet = \<lparr>rg_workers = [(''w1'', first_registered 5 sample_reg)], rg_inflight = [], rg_timeout = defaultLoadingTimeout,
     rg_gate = False, rg_path = True, rg_file = Some [persist (first_registered 5 sample_reg)]\<rparr>"
  by (simp add: sample_fleet_def Register_def NewRegistry_def loadFromDisk_def sample_reg_def validWorkerID_def is_alnum_def
      saveToDisk_def)

theorem routable_is_servable_witness:
  "let r = snd (UpdateState 6 ''w1'' ''GPU_STATE_AVAILABLE'' ''running'' 0 ''m'' 1 sample_fleet)
   in list_all (\<lambda>w. wk_state w = StateIdle \<longrightarrow> wk_gpuState w = ''GPU_STATE_AVAILABLE'' \<and> wk_active w \<le> 0) (ListWorkers r) \<and>
      0 \<le> inflight_of r ''w1''"
proof -
  let ?r = "snd (UpdateState 6 ''w1'' ''GPU_STATE_AVAILABLE'' ''running'' 0 ''m'' 1 sample_fleet)"
  have "fleet_step\<^sup>*\<^sup>* (NewRegistry True None 1) ?r"
    using sample_fleet_reachable fleet_step.update by (rule rtranclp.rtrancl_into_rtrancl)
  from routable_is_servable [OF this, of "''w1''"] show ?thesis
    unfolding Let_def list_all_iff by auto
qed

theorem switch_excludes_until_loaded_witness:
  "let r = MarkSwitching 9 ''w1'' ''m2'' sample_fleet in
   (case UpdateState 10 ''w1'' ''GPU_STATE_AVAILABLE'' ''running'' 0 ''m'' 1 r of
      (Some (_, newState, _), _) \<Rightarrow> newState \<noteq> StateIdle \<and> newState \<noteq> StateBusy | (None, _) \<Rightarrow> False)"
proof -
  let ?r = "MarkSwitching 9 ''w1'' ''m2'' sample_fleet"
  let ?w = "first_registered 5 sample_reg"
  have w: "alookup (rg_workers sample_fleet) ''w1'' = Some ?w" by (simp add: sample_fleet_eq)
  have 1: "\<not> sameModelBasename (wk_loaded ?w) ''m2''"
    by (simp add: first_registered_def blank_worker_def sameModelBasename_def)
  let ?w' = "?w\<lparr>wk_switchingTo := ''m2'', wk_switchingSince := 9, wk_state := StateLoading\<rparr>"
  have w': "alookup (rg_workers ?r) ''w1'' = Some ?w'"
    using 1 w by (simp add: MarkSwitching_def fleet_simps Let_def first_registered_def blank_worker_def)
  have "\<not> sameModelBasename ''m'' ''m2''"
    by (simp add: sameModelBasename_def modelBasename_def after_last_def HasPrefix_def)
  with switch_excludes_until_loaded [OF w _ 1 w', where now = 9 and now' = 10 and
      gpuState = "''GPU_STATE_AVAILABLE''" and engineState = "''running''" and active = 0 and loaded = "''m''" and engines = 1]
  show ?thesis by (auto simp: Let_def split: prod.splits option.splits if_splits)
qed

theorem reregistration_keeps_proofs_witness:
  "case Register (\<lambda>u. True) True 7 (sample_reg\<lparr>reg_self := False\<rparr>) sample_fleet of
     (Inr res, r') \<Rightarrow> \<not> rs_created res \<and> (\<exists>w'. alookup (rg_workers r') ''w1'' = Some w' \<and> wk_self w')
   | _ \<Rightarrow> False"
proof -
  let ?reg = "sample_reg\<lparr>reg_self := False\<rparr>"
  have w: "alookup (rg_workers sample_fleet) (reg_id ?reg) = Some (first_registered 5 sample_reg)"
    by (simp add: sample_fleet_eq sample_reg_def)
  obtain res r' where r: "Register (\<lambda>u. True) True 7 ?reg sample_fleet = (Inr res, r')"
    using w by (auto simp: Register_def sample_reg_def validWorkerID_def is_alnum_def)
  have "reg_id ?reg = ''w1''" "wk_self (first_registered 5 sample_reg)" by (simp_all add: sample_reg_def first_registered_def)
  with reregistration_keeps_proofs [OF w r] show ?thesis unfolding r by auto
qed

theorem restart_round_trip_witness:
  "akeys (rg_workers (NewRegistry True (rg_file sample_fleet) 9)) = [''w1''] \<and>
   map_option wk_endpoint (alookup (rg_workers (NewRegistry True (rg_file sample_fleet) 9)) ''w1'') = Some ''http://a:8000''"
proof -
  have "(saved_step {})\<^sup>*\<^sup>* (NewRegistry True None 1) sample_fleet"
    unfolding sample_fleet_def by (rule r_into_rtranclp, rule saved_step.register) simp
  from restart_round_trip [OF this _ refl, of 9 "''w1''"] show ?thesis
    by (auto simp: sample_fleet_eq akeys_def first_registered_def sample_reg_def elim: option.rel_cases)
qed

theorem offline_exactly_at_threshold_witness:
  "let r = snd (UpdateState 6 ''w1'' ''GPU_STATE_AVAILABLE'' ''running'' 0 ''m'' 1 sample_fleet) in
   case alookup (rg_workers (((\<lambda>r. fst (handlePollFailure 3 ''w1'' r)) ^^ 2) r)) ''w1'' of
     Some w' \<Rightarrow> wk_failures w' = 2 \<and> wk_state w' \<noteq> StateOffline | None \<Rightarrow> False"
proof -
  let ?r = "snd (UpdateState 6 ''w1'' ''GPU_STATE_AVAILABLE'' ''running'' 0 ''m'' 1 sample_fleet)"
  let ?w = "polled defaultLoadingTimeout 6 ''GPU_STATE_AVAILABLE'' ''running'' 0 ''m'' 1 (first_registered 5 sample_reg)"
  have w: "alookup (rg_workers ?r) ''w1'' = Some ?w" by (simp add: UpdateState_def sample_fleet_eq Let_def fleet_simps)
  have "wk_state ?w = StateIdle" "wk_failures ?w = 0"
    by (simp_all add: polled_def poll_switch_def poll_loading_def DeriveState_def isEngineReady_def Let_def
        first_registered_def blank_worker_def)
  with offline_exactly_at_threshold [OF w, of 3 2] show ?thesis
    by (simp add: Let_def eval_nat_numeral split: option.splits)
qed

theorem short_receipt_key_panics_witness:
  "let h = \<lparr>he_engineState = ''running'', he_active = 0, he_loaded = ''m'', he_multiGPU = None, he_features = [], he_pubkey = ''k1''\<rparr>
   in case pollWorker 3 6 (Some (200, Some ''gpu_state=A'')) (Some (200, Some h)) ''w1'' sample_fleet of
        Some (r', _) \<Rightarrow> pollWorker 3 7 (Some (200, Some ''gpu_state=A'')) (Some (200, Some (h\<lparr>he_pubkey := ''k2''\<rparr>))) ''w1'' r' = None
      | None \<Rightarrow> False"
proof -
  have "parse_ready ''gpu_state=A'' = Some (''A'', -1)"
    by (simp add: parse_ready_def TrimSpace_def is_space_def split2_def HasPrefix_def Let_def)
  moreover have "alookup (rg_workers sample_fleet) ''w1'' = Some (first_registered 5 sample_reg)"
    by (simp add: sample_fleet_eq)
  moreover have "wk_pubkey (first_registered 5 sample_reg) = ''''"
    by (simp add: first_registered_def blank_worker_def)
  ultimately show ?thesis
    unfolding Let_def by (intro short_receipt_key_panics) simp_all
qed

end
