(* ===== verification/Router.thy ===== *)
theory Router
  imports Poller GoFloat
begin

text \<open>
  Routing (\<open>gateway/router.go\<close> and the parts of \<open>gateway/gateway.go\<close> that choose a worker): model
  names, load-balancing weights, the choice of a worker for a model, session affinity's choice, and
  the estimates given to a client that has to wait. A \<open>float64\<close> is a float of 53 bits. \<open>u\<close> is the
  random number a weighted pick draws; \<open>now\<close> the time of the decision.
\<close>

section \<open>Model names\<close>

definition modelMatches :: "string \<Rightarrow> string \<Rightarrow> bool" where
  "modelMatches loadedModel requestedModel =
     (if loadedModel = '''' \<or> requestedModel = '''' then False
      else if loadedModel = requestedModel then True
      else let loadedBase = path_base loadedModel; requestedBase = path_base requestedModel
      in if loadedBase = requestedBase then True
      else let loadedNorm = replace_first ''--'' ''/'' loadedBase;
               requestedNorm = replace_first ''--'' ''/'' requestedBase
      in if loadedNorm = requestedNorm then True
      else if loadedNorm = requestedModel \<or> requestedNorm = loadedModel then True
      else HasSuffix loadedModel requestedModel \<or> HasSuffix requestedModel loadedModel)"

definition canonicalModelID :: "string \<Rightarrow> string" where
  "canonicalModelID m =
     (let base = path_base m in if Contains base ''--'' then replace_first ''--'' ''/'' base else m)"

definition workerVerifiedFor :: "worker \<Rightarrow> string \<Rightarrow> bool" where
  "workerVerifiedFor w model \<longleftrightarrow>
     model \<noteq> '''' \<and> list_ex (\<lambda>vm. modelMatches vm model \<or> modelMatches model vm) (wk_verified w)"

definition workerSupportsModel :: "worker \<Rightarrow> string \<Rightarrow> bool" where
  "workerSupportsModel w model \<longleftrightarrow> list_ex (\<lambda>m. m = model \<or> modelMatches m model) (wk_supported w)"

definition routableModels :: "worker \<Rightarrow> bool \<Rightarrow> string list" where
  "routableModels w gateOn =
     (let cand = (if wk_loaded w \<noteq> '''' then [wk_loaded w] else []) @ wk_supported w
      in if \<not> gateOn \<or> \<not> wk_self w then cand else filter (workerVerifiedFor w) cand)"

section \<open>Weights\<close>


definition effectiveLoad :: "worker \<Rightarrow> int" where
  "effectiveLoad w = (if wk_inflight w > wk_active w then wk_inflight w else wk_active w)"

definition yieldSoonWindow :: duration where "yieldSoonWindow = 60 * second"
definition yieldSoonPenalty :: bigfloat where "yieldSoonPenalty = bf_ratio 53 5 100"

definition yieldingSoon :: "worker \<Rightarrow> gotime \<Rightarrow> bool" where
  "yieldingSoon w now =
     (if wk_untilChange w < 0 \<or> wk_untilAt w = zero_time then False
      else wrap64 (Seconds (wk_untilChange w) - (now - wk_untilAt w)) < yieldSoonWindow)"

definition computeWeight :: "gotime \<Rightarrow> worker \<Rightarrow> bigfloat" where
  "computeWeight now w =
     (let gpus = (if wk_gpus w \<le> 0 then 1 else wk_gpus w);
          load = effectiveLoad w;
          weight = float64_of_int gpus;
          weight = (if load > 0
                    then let loadFactor = f64_quo (float64_of_int load) (float64_of_int gpus);
                             weight = f64_quo (float64_of_int gpus) (f64_add (float64_of_int 1) loadFactor)
                         in if bf_cmp weight (float64_of_int 1) < 0 then float64_of_int 1 else weight
                    else weight)
      in if yieldingSoon w now then f64_mul weight yieldSoonPenalty else weight)"

type_synonym candidate = "worker \<times> bigfloat"

fun pick_loop :: "bigfloat \<Rightarrow> candidate list \<Rightarrow> worker option" where
  "pick_loop r [] = None"
| "pick_loop r ((w, wt) # cs) =
     (let r = f64_sub r wt in if bf_sign r \<le> 0 then Some w else pick_loop r cs)"

definition weightedPick :: "bigfloat \<Rightarrow> candidate list \<Rightarrow> worker option" where
  "weightedPick u cs =
     (case cs of
        [] \<Rightarrow> None
      | [(w, _)] \<Rightarrow> Some w
      | _ \<Rightarrow>
          let totalWeight = fold (\<lambda>c t. f64_add t (snd c)) cs (float64_of_int 0)
          in case pick_loop (f64_mul u totalWeight) cs of
               Some w \<Rightarrow> Some w
             | None \<Rightarrow> Some (fst (List.last cs)))"

section \<open>Choosing a worker\<close>

definition isDefaultModel :: "string \<Rightarrow> bool" where
  "isDefaultModel model \<longleftrightarrow> model = '''' \<or> model = ''default''"

text \<open>Not skipped by the loop: routable, not banned, past the probe gate, not excluded.\<close>

definition admitted :: "bool \<Rightarrow> gotime \<Rightarrow> string \<Rightarrow> (string \<Rightarrow> bool) \<Rightarrow> worker \<Rightarrow> bool" where
  "admitted gate now model exclude w =
     (if wk_state w \<noteq> StateIdle \<and> wk_state w \<noteq> StateBusy then False
      else if IsBanned w now then False
      else if gate \<and> wk_self w \<and>
              (if isDefaultModel model then \<not> workerVerifiedFor w (wk_loaded w) else \<not> workerVerifiedFor w model)
      then False
      else \<not> exclude (wk_id w))"

record candidates =
  ca_loaded :: "candidate list"
  ca_supported :: "candidate list"
  ca_fallback :: "candidate list"

definition classify :: "bool \<Rightarrow> gotime \<Rightarrow> string \<Rightarrow> (string \<Rightarrow> bool) \<Rightarrow> worker \<Rightarrow> candidates \<Rightarrow> candidates" where
  "classify gate now model exclude w ca =
     (if \<not> admitted gate now model exclude w then ca
      else let c = (w, computeWeight now w)
      in if isDefaultModel model then ca\<lparr>ca_fallback := ca_fallback ca @ [c]\<rparr>
      else if modelMatches (wk_loaded w) model then ca\<lparr>ca_loaded := ca_loaded ca @ [c]\<rparr>
      else if workerSupportsModel w model \<and> wk_state w = StateIdle then ca\<lparr>ca_supported := ca_supported ca @ [c]\<rparr>
      else ca)"

definition is_overloaded :: "bigfloat \<Rightarrow> worker \<Rightarrow> bool" where
  "is_overloaded factor w \<longleftrightarrow>
     (let gpus = (if wk_gpus w \<le> 0 then 1 else wk_gpus w)
      in \<not> effectiveLoad w \<le> bf_to_int (f64_mul (float64_of_int gpus) factor))"

definition selectFrom ::
  "bool \<Rightarrow> gotime \<Rightarrow> bigfloat \<Rightarrow> worker list \<Rightarrow> string \<Rightarrow> (string \<Rightarrow> bool) \<Rightarrow> bigfloat \<Rightarrow> worker option" where
  "selectFrom gate now u workers model exclude factor =
     (let ca = fold (classify gate now model exclude) workers \<lparr>ca_loaded = [], ca_supported = [], ca_fallback = []\<rparr>
      in if bf_sign factor > 0 \<and> ca_loaded ca \<noteq> [] \<and> ca_supported ca \<noteq> [] \<and>
            list_all (\<lambda>c. is_overloaded factor (fst c)) (ca_loaded ca)
         then weightedPick u (ca_supported ca)
         else if ca_loaded ca \<noteq> [] then weightedPick u (ca_loaded ca)
         else if ca_supported ca \<noteq> [] then weightedPick u (ca_supported ca)
         else if isDefaultModel model \<and> ca_fallback ca \<noteq> [] then weightedPick u (ca_fallback ca)
         else None)"

definition selectWorkerForModel ::
  "registry \<Rightarrow> gotime \<Rightarrow> bigfloat \<Rightarrow> string \<Rightarrow> (string \<Rightarrow> bool) \<Rightarrow> bigfloat \<Rightarrow> worker option" where
  "selectWorkerForModel r now u model exclude factor =
     selectFrom (rg_gate r) now u (ListWorkers r) model exclude factor"

definition anyWorkerSupportsModel :: "registry \<Rightarrow> string \<Rightarrow> bool" where
  "anyWorkerSupportsModel r model \<longleftrightarrow> isDefaultModel model \<or>
     list_ex (\<lambda>w. modelMatches (wk_loaded w) model \<or> workerSupportsModel w model) (ListWorkers r)"

section \<open>How long a mining outage lasts\<close>

definition whole_seconds :: "duration \<Rightarrow> int" where
  "whole_seconds d = sgn d * (\<bar>d\<bar> div second)"

definition retry_step :: "gotime \<Rightarrow> worker \<Rightarrow> int \<Rightarrow> int" where
  "retry_step now w best =
     (if wk_state w \<noteq> StateMining \<or> wk_untilChange w < 0 \<or> wk_untilAt w = zero_time then best
      else let rest = wk_untilChange w - whole_seconds (now - wk_untilAt w);
               rest = (if rest < 0 then 0 else rest)
           in if best < 0 \<or> rest < best then rest else best)"

definition retryAfterEstimate :: "gotime \<Rightarrow> worker list \<Rightarrow> int" where
  "retryAfterEstimate now workers =
     (let best = fold (retry_step now) workers (-1)
      in if best < 0 then 30 else if best < 5 then 5 else if best > 120 then 120 else best)"

definition recovery_step :: "gotime \<Rightarrow> string \<Rightarrow> worker \<Rightarrow> duration \<Rightarrow> duration" where
  "recovery_step now model w best =
     (if wk_state w \<noteq> StateMining \<or> wk_untilChange w < 0 \<or> wk_untilAt w = zero_time then best
      else if \<not> isDefaultModel model \<and> \<not> modelMatches (wk_loaded w) model \<and> \<not> workerSupportsModel w model then best
      else let rest = wrap64 (Seconds (wk_untilChange w) - (now - wk_untilAt w));
               rest = (if rest < 0 then 0 else rest)
           in if best = 0 \<or> rest < best then rest else best)"

definition minMiningRecovery :: "gotime \<Rightarrow> worker list \<Rightarrow> string \<Rightarrow> duration" where
  "minMiningRecovery now workers model = fold (recovery_step now model) workers 0"

section \<open>What is chosen\<close>

definition no_candidates :: candidates where
  "no_candidates = \<lparr>ca_loaded = [], ca_supported = [], ca_fallback = []\<rparr>"

lemma classify_fold:
  "fold (classify gate now model exclude) ws ca = \<lparr>
     ca_loaded = ca_loaded ca @ List.map (\<lambda>w. (w, computeWeight now w))
        (filter (\<lambda>w. admitted gate now model exclude w \<and> \<not> isDefaultModel model \<and> modelMatches (wk_loaded w) model) ws),
     ca_supported = ca_supported ca @ List.map (\<lambda>w. (w, computeWeight now w))
        (filter (\<lambda>w. admitted gate now model exclude w \<and> \<not> isDefaultModel model \<and> \<not> modelMatches (wk_loaded w) model \<and>
           workerSupportsModel w model \<and> wk_state w = StateIdle) ws),
     ca_fallback = ca_fallback ca @ List.map (\<lambda>w. (w, computeWeight now w))
        (filter (\<lambda>w. admitted gate now model exclude w \<and> isDefaultModel model) ws)\<rparr>"
proof (induction ws arbitrary: ca)
  case (Cons w ws)
  show ?case unfolding fold_Cons o_apply Cons.IH by (simp add: classify_def Let_def)
qed simp

lemma pick_loop_in: "pick_loop r cs = Some w \<Longrightarrow> w \<in> fst ` set cs"
  by (induction r cs rule: pick_loop.induct) (auto simp: Let_def split: if_splits)

lemma weightedPick_in: "weightedPick u cs = Some w \<Longrightarrow> w \<in> fst ` set cs"
proof -
  assume w: "weightedPick u cs = Some w"
  show ?thesis
  proof (cases "length cs \<le> 1")
    case True
    with w show ?thesis by (cases cs) (auto simp: weightedPick_def split: list.splits)
  next
    case False
    then obtain a b rest where cs: "cs = a # b # rest" by (cases cs; cases "tl cs") auto
    define tot where "tot = fold (\<lambda>c t. f64_add t (snd c)) cs (float64_of_int 0)"
    have e: "weightedPick u cs = (case pick_loop (f64_mul u tot) cs of Some w \<Rightarrow> Some w | None \<Rightarrow> Some (fst (List.last cs)))"
      unfolding weightedPick_def tot_def Let_def by (simp only: cs list.case) (cases a; simp)
    have "List.last cs \<in> set cs" by (rule last_in_set) (simp add: cs)
    with w pick_loop_in [of "f64_mul u tot" cs w] show ?thesis unfolding e by (auto split: option.splits)
  qed
qed

lemma weightedPick_total: "weightedPick u cs = None \<longleftrightarrow> cs = []"
  by (auto simp: weightedPick_def Let_def split: list.splits option.splits)

definition suitable :: "string \<Rightarrow> worker \<Rightarrow> bool" where
  "suitable model w \<longleftrightarrow> isDefaultModel model \<or> modelMatches (wk_loaded w) model \<or>
     (workerSupportsModel w model \<and> wk_state w = StateIdle)"

lemma select_in:
  assumes "selectFrom gate now u ws model exclude factor = Some w"
  shows "w \<in> set ws \<and> admitted gate now model exclude w \<and> suitable model w"
  using assms weightedPick_in
  by (fastforce simp: selectFrom_def classify_fold Let_def suitable_def split: if_splits)

lemma select_None:
  "selectFrom gate now u ws model exclude factor = None \<longleftrightarrow>
   (\<forall>w\<in>set ws. \<not> (admitted gate now model exclude w \<and> suitable model w))"
proof
  assume n: "selectFrom gate now u ws model exclude factor = None"
  show "\<forall>w\<in>set ws. \<not> (admitted gate now model exclude w \<and> suitable model w)"
    using n by (auto simp: selectFrom_def classify_fold Let_def suitable_def weightedPick_total filter_empty_conv split: if_splits)
next
  assume n: "\<forall>w\<in>set ws. \<not> (admitted gate now model exclude w \<and> suitable model w)"
  show "selectFrom gate now u ws model exclude factor = None"
  proof (cases "selectFrom gate now u ws model exclude factor")
    case (Some w)
    with select_in [OF Some] n show ?thesis by blast
  qed simp
qed

text \<open>
  What a worker must be to serve a request, in terms of its fields: idle or busy, with no ban or one that is over,
  not excluded, with a verified model of that name if the probe gate is on and the worker registered itself, and
  with the model loaded, or idle and listing it; for the default model the loaded one counts.
\<close>

definition eligible :: "bool \<Rightarrow> gotime \<Rightarrow> string \<Rightarrow> (string \<Rightarrow> bool) \<Rightarrow> worker \<Rightarrow> bool" where
  "eligible gate now model exclude w \<longleftrightarrow>
     (wk_state w = StateIdle \<or> wk_state w = StateBusy) \<and>
     (wk_bannedUntil w = zero_time \<or> wk_bannedUntil w \<le> now) \<and> \<not> exclude (wk_id w) \<and>
     (gate \<and> wk_self w \<longrightarrow>
       (let name = (if model = '''' \<or> model = ''default'' then wk_loaded w else model)
        in name \<noteq> '''' \<and> (\<exists>vm\<in>set (wk_verified w). modelMatches vm name \<or> modelMatches name vm))) \<and>
     (model = '''' \<or> model = ''default'' \<or> modelMatches (wk_loaded w) model \<or>
       (wk_state w = StateIdle \<and> (\<exists>m\<in>set (wk_supported w). m = model \<or> modelMatches m model)))"

lemma eligible_code: "eligible gate now model exclude w \<longleftrightarrow> admitted gate now model exclude w \<and> suitable model w"
  by (auto simp: eligible_def admitted_def suitable_def IsBanned_def workerVerifiedFor_def workerSupportsModel_def isDefaultModel_def
      list_ex_iff Let_def split: if_splits)

text \<open>
  C28: Routing is sound and complete. A chosen worker is registered, idle or busy, not banned, not excluded,
  verified for the model when the probe gate is on and it registered itself, and has the model
  loaded or is idle and can load it; and a request is refused a worker only when no registered
  worker is all of that, whatever the weights and the random draw.
\<close>

theorem routing_sound_complete:
  "case selectWorkerForModel r now u model exclude factor of
     Some w \<Rightarrow> w \<in> set (ListWorkers r) \<and> eligible (rg_gate r) now model exclude w
   | None \<Rightarrow> \<not> list_ex (eligible (rg_gate r) now model exclude) (ListWorkers r)"
proof (cases "selectWorkerForModel r now u model exclude factor")
  case None
  then show ?thesis
    using select_None [of "rg_gate r" now u "ListWorkers r" model exclude factor]
    by (simp add: selectWorkerForModel_def list_ex_iff eligible_code)
next
  case (Some w)
  then show ?thesis
    using select_in [of "rg_gate r" now u "ListWorkers r" model exclude factor w]
    by (simp add: selectWorkerForModel_def eligible_code)
qed

text \<open>
  No needless model switch. As long as one admitted worker has the model loaded and is not
  overloaded, the chosen worker has the model loaded, so the request triggers no switch.
\<close>

theorem no_needless_switch:
  assumes "\<not> isDefaultModel model" "v \<in> set (ListWorkers r)" "admitted (rg_gate r) now model exclude v"
    and "modelMatches (wk_loaded v) model" "\<not> is_overloaded factor v \<or> bf_sign factor \<le> 0"
  shows "\<exists>w. selectWorkerForModel r now u model exclude factor = Some w \<and> modelMatches (wk_loaded w) model"
proof -
  let ?ca = "fold (classify (rg_gate r) now model exclude) (ListWorkers r) \<lparr>ca_loaded = [], ca_supported = [], ca_fallback = []\<rparr>"
  have v: "(v, computeWeight now v) \<in> set (ca_loaded ?ca)" using assms(1-4) by (auto simp: classify_fold)
  have ne: "ca_loaded ?ca \<noteq> []" using v by (metis empty_iff list.set(1))
  have "\<not> (bf_sign factor > 0 \<and> list_all (\<lambda>c. is_overloaded factor (fst c)) (ca_loaded ?ca))"
    using assms(5) by (auto simp: list_all_iff intro!: bexI [OF _ v])
  then have s: "selectWorkerForModel r now u model exclude factor = weightedPick u (ca_loaded ?ca)"
    unfolding selectWorkerForModel_def selectFrom_def Let_def using ne by auto
  obtain w where w: "weightedPick u (ca_loaded ?ca) = Some w"
    using weightedPick_total [of u "ca_loaded ?ca"] ne by (cases "weightedPick u (ca_loaded ?ca)") blast+
  then have "modelMatches (wk_loaded w) model" using weightedPick_in [OF w] by (auto simp: classify_fold)
  with s w show ?thesis by simp
qed

text \<open>Matching model names is symmetric, so an order of its arguments does not matter.\<close>

lemma modelMatches_sym: "modelMatches a b = modelMatches b a"
  by (auto simp: modelMatches_def Let_def)

text \<open>
  The recovery estimate is not the smallest one. A mining worker whose estimate has run out counts as
  0, which the loop takes for "nothing seen yet": the next mining worker's longer estimate replaces
  it, and a request that the first worker could serve at once is refused for the second one's sake.
\<close>

theorem recovery_estimate_skips_zero:
  assumes "wk_state a = StateMining" "0 \<le> wk_untilChange a" "wk_untilAt a \<noteq> zero_time"
    and "wk_untilChange a * second \<le> now - wk_untilAt a" "now - wk_untilAt a < 2 ^ 63"
    and "wk_state b = StateMining" "0 \<le> wk_untilChange b" "wk_untilAt b \<noteq> zero_time" "wk_untilAt b \<le> now"
    and "now - wk_untilAt b < wk_untilChange b * second" "wk_untilChange a \<le> 9223372036" "wk_untilChange b \<le> 9223372036"
  shows "minMiningRecovery now [a] [] = 0 \<and>
    minMiningRecovery now [a, b] [] = wk_untilChange b * second - (now - wk_untilAt b) \<and>
    0 < minMiningRecovery now [a, b] []"
proof -
  have "wrap64 (wk_untilChange a * second - (now - wk_untilAt a)) = wk_untilChange a * second - (now - wk_untilAt a)"
    by (rule wrap64_exact) (use assms(2,4,5) in \<open>simp_all add: second_def\<close>)
  moreover have "wrap64 (wk_untilChange b * second - (now - wk_untilAt b)) = wk_untilChange b * second - (now - wk_untilAt b)"
    by (rule wrap64_exact) (use assms(7,9-12) in \<open>simp_all add: second_def\<close>)
  ultimately show ?thesis
    using assms by (simp add: minMiningRecovery_def recovery_step_def isDefaultModel_def Seconds_exact)
qed

section \<open>A concrete fleet\<close>

definition live_worker :: worker where
  "live_worker = polled defaultLoadingTimeout 6 ''GPU_STATE_AVAILABLE'' ''running'' 0 ''m'' 1 (first_registered 5 sample_reg)"

definition live_fleet :: "bool \<Rightarrow> registry" where
  "live_fleet gate = SetAdmissionGate gate (snd (UpdateState 6 ''w1'' ''GPU_STATE_AVAILABLE'' ''running'' 0 ''m'' 1 sample_fleet))"

lemma live_fleet_reachable: "fleet_step\<^sup>*\<^sup>* (NewRegistry True None 1) (live_fleet gate)"
  unfolding live_fleet_def
  by (rule rtranclp.rtrancl_into_rtrancl [OF rtranclp.rtrancl_into_rtrancl [OF sample_fleet_reachable fleet_step.update] fleet_step.gate])

lemma live_fleet_eq:
  "live_fleet gate = \<lparr>rg_workers = [(''w1'', live_worker)], rg_inflight = [], rg_timeout = defaultLoadingTimeout,
     rg_gate = gate, rg_path = True, rg_file = Some [persist (first_registered 5 sample_reg)]\<rparr>"
  by (simp add: live_fleet_def SetAdmissionGate_def UpdateState_def sample_fleet_eq Let_def put_worker_def live_worker_def)

lemma live_worker_props:
  "wk_id live_worker = ''w1''" "wk_self live_worker" "wk_verified live_worker = []" "wk_state live_worker = StateIdle"
  "wk_bannedUntil live_worker = zero_time" "wk_loaded live_worker = ''m''" "wk_supported live_worker = [''m'']"
  "wk_active live_worker = 0" "wk_inflight live_worker = 0" "wk_gpus live_worker = 1" "wk_features live_worker = []"
  by (simp_all add: live_worker_def polled_def poll_switch_def poll_loading_def DeriveState_def isEngineReady_def Let_def
      first_registered_def blank_worker_def sample_reg_def)

lemma live_fleet_list: "ListWorkers (live_fleet gate) = [live_worker]"
  by (simp add: ListWorkers_def live_fleet_eq snapshot_def inflight_of_def live_worker_props)

lemma live_fleet_gate: "rg_gate (live_fleet gate) = gate"
  by (simp add: live_fleet_eq)

theorem no_needless_switch_witness:
  "\<exists>w. selectWorkerForModel (live_fleet False) 11 (float64_of_int 0) ''m'' (\<lambda>_. False) (float64_of_int 0) = Some w \<and>
     modelMatches (wk_loaded w) ''m''"
  by (rule no_needless_switch [of _ live_worker])
     (simp_all add: live_fleet_list live_fleet_gate live_worker_props isDefaultModel_def admitted_def IsBanned_def modelMatches_def
        float64_of_int_def bf_round_def bf_sign_def)

definition mining_worker :: "int \<Rightarrow> worker" where
  "mining_worker secs = live_worker\<lparr>wk_state := StateMining, wk_untilChange := secs, wk_untilAt := 1\<rparr>"

theorem recovery_estimate_skips_zero_witness:
  "0 < minMiningRecovery (20 * second) [mining_worker 5, mining_worker 600] '''' \<and>
   minMiningRecovery (20 * second) [mining_worker 5] '''' = 0"
  using recovery_estimate_skips_zero [of "mining_worker 5" "20 * second" "mining_worker 600"]
  by (simp add: mining_worker_def second_def)

end
