(* ===== verification/Body.thy ===== *)
theory Body
  imports GoStrings GoJson Aggregator
begin

text \<open>
  What the gateway reads from and writes into JSON bodies (the helpers of \<open>gateway/gateway.go\<close>,
  \<open>messagesPrefix\<close> of \<open>gateway/session.go\<close>): the model, the token limits, the usage a worker
  reports and its bounds, the prompt estimate. A body is the JSON value it encodes, \<open>None\<close> when it
  is not valid JSON; numbers are \<open>float64\<close>. \<open>int\<close> is 64 bits wide and wraps.
\<close>

section \<open>JSON values\<close>

datatype json = JNull | JBool bool | JNum bigfloat | JStr string | JArr "json list" | JObj "(string \<times> json) list"

type_synonym body = "json option"

text \<open>The members of an object in a Go map: the last value of a repeated key stays.\<close>

definition members :: "(string \<times> json) list \<Rightarrow> (string \<times> json) list" where
  "members ms = fold (\<lambda>(k, v). aput k v) ms []"

text \<open>\<open>json.Unmarshal\<close> into a map: an object, or \<open>null\<close>, which leaves the map nil.\<close>

definition as_object :: "body \<Rightarrow> (string \<times> json) list option" where
  "as_object b = (case b of Some (JObj ms) \<Rightarrow> Some (members ms) | Some JNull \<Rightarrow> Some [] | _ \<Rightarrow> None)"

definition field :: "body \<Rightarrow> string \<Rightarrow> json option" where
  "field b k = (case as_object b of None \<Rightarrow> None | Some m \<Rightarrow> alookup m k)"

text \<open>Writing a member and encoding again: assignment to the nil map of \<open>null\<close> panics (\<open>None\<close>).\<close>

definition with_field :: "body \<Rightarrow> string \<Rightarrow> json \<Rightarrow> body option" where
  "with_field b k v =
     (case b of Some (JObj ms) \<Rightarrow> Some (Some (JObj (aput k v (members ms)))) | Some JNull \<Rightarrow> None | _ \<Rightarrow> Some b)"

section \<open>Integers\<close>

text \<open>
  \<open>int(x)\<close> of a \<open>float64\<close> cuts towards zero; out of range the
  result is the processor's, on amd64 the least integer.
\<close>

definition int_of_float :: "bigfloat \<Rightarrow> int" where
  "int_of_float x = (let z = bf_to_int x in if - (2 ^ 63) \<le> z \<and> z < 2 ^ 63 then z else - (2 ^ 63))"

definition intFromJSON :: "json option \<Rightarrow> int" where
  "intFromJSON v = (case v of Some (JNum n) \<Rightarrow> int_of_float n | _ \<Rightarrow> 0)"

section \<open>Requests\<close>

definition extractModel :: "body \<Rightarrow> string" where
  "extractModel b = (case field b ''model'' of Some (JStr m) \<Rightarrow> m | _ \<Rightarrow> ''unknown'')"

definition hasTopLevelKey :: "body \<Rightarrow> string \<Rightarrow> bool" where
  "hasTopLevelKey b key \<longleftrightarrow> field b key \<noteq> None"

definition extractBool :: "body \<Rightarrow> string \<Rightarrow> bool" where
  "extractBool b k = (case field b k of Some (JBool v) \<Rightarrow> v | _ \<Rightarrow> False)"

definition extractInt :: "body \<Rightarrow> string \<Rightarrow> int" where
  "extractInt b k = (case field b k of Some (JNum v) \<Rightarrow> int_of_float v | _ \<Rightarrow> 0)"

definition withDefaultMaxTokens :: "body \<Rightarrow> int \<Rightarrow> body option" where
  "withDefaultMaxTokens b def =
     (if def \<le> 0 \<or> hasTopLevelKey b ''max_tokens'' then Some b
      else with_field b ''max_tokens'' (JNum (float64_of_int def)))"

definition rewriteModelField :: "body \<Rightarrow> string \<Rightarrow> body option" where
  "rewriteModelField b model = with_field b ''model'' (JStr model)"

text \<open>The body of a continued stream; \<open>Some None\<close> stands for the nil the caller gives up on.\<close>

definition withContinuation :: "body \<Rightarrow> string \<Rightarrow> int \<Rightarrow> body option" where
  "withContinuation orig prefix maxTokens =
     (case orig of
        Some (JObj ms) \<Rightarrow>
          Some (Some (JObj (aput ''max_tokens'' (JNum (float64_of_int maxTokens))
            (aput ''om_continuation'' (JStr prefix) (members ms)))))
      | Some JNull \<Rightarrow> None
      | _ \<Rightarrow> Some None)"

definition content_chars :: "json \<Rightarrow> nat" where
  "content_chars m =
     (case m of
        JObj ms \<Rightarrow> (case alookup (members ms) ''content'' of Some (JStr c) \<Rightarrow> length c | _ \<Rightarrow> 0)
      | _ \<Rightarrow> 0)"

definition text_chars :: "json \<Rightarrow> nat" where
  "text_chars s = (case s of JStr c \<Rightarrow> length c | _ \<Rightarrow> 0)"

definition estimatePromptTokens :: "body \<Rightarrow> int" where
  "estimatePromptTokens b =
     (let msgs = (case field b ''messages'' of Some (JArr ms) \<Rightarrow> sum_list (List.map content_chars ms) | _ \<Rightarrow> 0);
          prompt = (case field b ''prompt'' of
                      Some (JStr p) \<Rightarrow> length p
                    | Some (JArr ss) \<Rightarrow> sum_list (List.map text_chars ss)
                    | _ \<Rightarrow> 0)
      in int ((msgs + prompt) div 4))"

text \<open>
  The conversation's fingerprint. Decoding into a struct takes a key by its name in any case; a value
  of another type makes it fail.
\<close>

definition struct_field :: "(string \<times> json) list \<Rightarrow> string \<Rightarrow> json option" where
  "struct_field ms name = map_option snd (List.find (\<lambda>(k, _). EqualFold k name) (rev ms))"

definition message_text :: "json \<Rightarrow> string option" where
  "message_text m =
     (case m of
        JNull \<Rightarrow> Some ''''
      | JObj ms \<Rightarrow>
          let content = (case struct_field ms ''content'' of Some (JStr s) \<Rightarrow> Some s | _ \<Rightarrow> None);
              line = (\<lambda>role. case content of Some s \<Rightarrow> role @ '':'' @ s @ [CHR 0x0A] | None \<Rightarrow> '''')
          in (case struct_field ms ''role'' of
                Some (JStr r) \<Rightarrow> Some (line r)
              | None \<Rightarrow> Some (line '''')
              | Some JNull \<Rightarrow> Some (line '''')
              | _ \<Rightarrow> None)
      | _ \<Rightarrow> None)"

definition messagesPrefix :: "body \<Rightarrow> string" where
  "messagesPrefix b =
     (case b of
        Some (JObj ms) \<Rightarrow>
          (case (case struct_field ms ''messages'' of
                   None \<Rightarrow> Some []
                 | Some JNull \<Rightarrow> Some []
                 | Some (JArr xs) \<Rightarrow> those (List.map message_text xs)
                 | _ \<Rightarrow> None) of
             None \<Rightarrow> ''''
           | Some ts \<Rightarrow>
               let out = concat (take 2 ts)
               in if out \<noteq> '''' then out
                  else case struct_field ms ''prompt'' of
                         Some (JStr s) \<Rightarrow> if s \<noteq> '''' then ''prompt:'' @ s else ''''
                       | _ \<Rightarrow> '''')
      | _ \<Rightarrow> '''')"

section \<open>Responses\<close>

definition extractUsage :: "body \<Rightarrow> tokenUsage" where
  "extractUsage b =
     (case field b ''usage'' of
        Some (JObj us) \<Rightarrow>
          let usage = members us;
              cached = (case alookup usage ''prompt_tokens_details'' of
                          Some (JObj ds) \<Rightarrow> intFromJSON (alookup (members ds) ''cached_tokens'')
                        | _ \<Rightarrow> 0)
          in \<lparr>PromptTokens = intFromJSON (alookup usage ''prompt_tokens''),
              CompletionTokens = intFromJSON (alookup usage ''completion_tokens''),
              CachedTokens = cached,
              TotalTokens = intFromJSON (alookup usage ''total_tokens'')\<rparr>
      | _ \<Rightarrow> no_usage)"

definition catalog_entry :: "settlement_config option \<Rightarrow> string \<Rightarrow> model_info option" where
  "catalog_entry cfg model =
     (case cfg of
        None \<Rightarrow> None
      | Some c \<Rightarrow> (case cfg_ModelCatalog c of
            None \<Rightarrow> None
          | Some cat \<Rightarrow> (case alookup cat model of Some i \<Rightarrow> Some i | None \<Rightarrow> alookup cat ''default'')))"

definition clampUsage :: "settlement_config option \<Rightarrow> tokenUsage \<Rightarrow> string \<Rightarrow> tokenUsage" where
  "clampUsage cfg u model =
     (case catalog_entry cfg model of
        None \<Rightarrow> u
      | Some info \<Rightarrow>
          if mi_context_window info \<le> 0 then u
          else let ctxWin = mi_context_window info;
                   maxOut = (if mi_max_output info \<le> 0 then ctxWin else mi_max_output info);
                   u = (if PromptTokens u > ctxWin then u\<lparr>PromptTokens := ctxWin\<rparr> else u);
                   u = (if CompletionTokens u > maxOut then u\<lparr>CompletionTokens := maxOut\<rparr> else u);
                   u = (if CachedTokens u > PromptTokens u then u\<lparr>CachedTokens := PromptTokens u\<rparr> else u)
               in if TotalTokens u > ctxWin + maxOut then u\<lparr>TotalTokens := ctxWin + maxOut\<rparr> else u)"

text \<open>
  The first \<open>"model":"\<dots>"\<close> of raw bytes. A backslash in the value skips a byte; a value cut off
  in the middle of an escape reads past the end, which the code answers with nothing.
\<close>

fun value_end :: "string \<Rightarrow> nat" where
  "value_end [] = 0"
| "value_end [c] = (if c = CHR 0x22 then 0 else if c = CHR 0x5C then 2 else 1)"
| "value_end (c # d # s) =
     (if c = CHR 0x22 then 0
      else if c = CHR 0x5C then 2 + value_end s
      else 1 + value_end (d # s))"

definition model_marker :: string where
  "model_marker = [CHR 0x22] @ ''model'' @ [CHR 0x22]"

definition scanModelField :: "string \<Rightarrow> string" where
  "scanModelField b =
     (case Index model_marker b of
        None \<Rightarrow> ''''
      | Some i \<Rightarrow>
          let rest = dropWhile (\<lambda>c. c = CHR '' '' \<or> c = CHR '':'' \<or> c = CHR 0x09) (drop (i + length model_marker) b)
          in case rest of
               [] \<Rightarrow> ''''
             | c # v \<Rightarrow>
                 if c \<noteq> CHR 0x22 then ''''
                 else let j = value_end v in if j > length v then '''' else take j v)"

section \<open>Reading back what was written\<close>

lemma members_fold: "alookup (fold (\<lambda>(k, v). aput k v) ms acc) k = (case map_of (rev ms) k of Some v \<Rightarrow> Some v | None \<Rightarrow> alookup acc k)"
  by (induction ms arbitrary: acc) (auto simp: map_add_def split: option.splits)

lemma members_lookup: "alookup (members ms) k = map_of (rev ms) k"
  by (simp add: members_def members_fold split: option.split)

lemma distinct_members: "distinct (akeys (members ms))"
proof -
  have "distinct (akeys acc) \<Longrightarrow> distinct (akeys (fold (\<lambda>(k, v). aput k v) ms acc))" for acc
    by (induction ms arbitrary: acc) auto
  then show ?thesis by (simp add: members_def)
qed

lemma map_of_distinct_rev: "distinct (List.map fst ms) \<Longrightarrow> map_of (rev ms) = map_of ms"
proof (induction ms)
  case (Cons p ms)
  then have "map_of ms (fst p) = None" by (simp add: map_of_eq_None_iff)
  with Cons show ?case by (cases p) (auto simp: map_add_def split: option.splits)
qed simp

lemma alookup_members [simp]: "distinct (akeys ms) \<Longrightarrow> alookup (members ms) k = alookup ms k"
  by (simp add: members_lookup akeys_def map_of_distinct_rev) (simp add: alookup_map_of)

lemma field_with_field:
  assumes "with_field b k v = Some b'" "as_object b \<noteq> None"
  shows "field b' = (field b)(k \<mapsto> v)"
proof -
  obtain ms where b: "b = Some (JObj ms)"
    using assms by (cases b) (auto simp: with_field_def as_object_def split: json.splits)
  then have "b' = Some (JObj (aput k v (members ms)))" using assms(1) by (simp add: with_field_def)
  then show ?thesis using distinct_members [of ms] by (auto simp: field_def as_object_def b)
qed

text \<open>
  Rewriting a request for the worker changes one field. After the model name is rewritten the body
  reads back the worker's name and every other field as the client sent it; after the default
  limit is added a body without \<open>max_tokens\<close> reads back exactly the default (the number the
  reservation was sized with), and a body that has one is not touched.
\<close>

theorem rewritten_body:
  assumes "field b ''model'' = Some (JStr m)" "0 < def" "def < 2 ^ 53"
  shows "\<exists>b1 b2. rewriteModelField b loaded = Some b1 \<and> extractModel b1 = loaded \<and>
           (\<forall>k. k \<noteq> ''model'' \<longrightarrow> field b1 k = field b k) \<and>
           withDefaultMaxTokens b def = Some b2 \<and>
           (if hasTopLevelKey b ''max_tokens'' then b2 = b
            else extractInt b2 ''max_tokens'' = def \<and> (\<forall>k. k \<noteq> ''max_tokens'' \<longrightarrow> field b2 k = field b k))"
proof -
  obtain ms where b: "b = Some (JObj ms)"
    using assms(1) by (cases b) (auto simp: field_def as_object_def split: json.splits)
  have o: "as_object b \<noteq> None" by (simp add: as_object_def b)
  obtain b1 where b1: "rewriteModelField b loaded = Some b1" by (simp add: rewriteModelField_def with_field_def b)
  have f1: "field b1 = (field b)(''model'' \<mapsto> JStr loaded)"
    by (rule field_with_field [OF b1 [unfolded rewriteModelField_def] o])
  obtain b2 where b2: "withDefaultMaxTokens b def = Some b2"
    by (cases "withDefaultMaxTokens b def") (auto simp: withDefaultMaxTokens_def with_field_def b split: if_splits)
  have f2: "field b2 = (field b)(''max_tokens'' \<mapsto> JNum (float64_of_int def))" if "\<not> hasTopLevelKey b ''max_tokens''"
    using b2 assms(2) that by (intro field_with_field o) (simp add: withDefaultMaxTokens_def)
  have i: "int_of_float (float64_of_int def) = def"
  proof -
    have "nbits (nat \<bar>def\<bar>) \<le> 53" using assms(2,3) by (simp add: nbits_le_iff nat_less_iff)
    then have "float64_of_int def = BF 53 def 0" by (simp add: float64_of_int_def bf_round_def)
    then show ?thesis using assms(2,3) by (simp add: int_of_float_def bf_to_int_def)
  qed
  show ?thesis
  proof (intro exI conjI)
    show "rewriteModelField b loaded = Some b1" "withDefaultMaxTokens b def = Some b2" by (fact b1, fact b2)
    show "extractModel b1 = loaded" "\<forall>k. k \<noteq> ''model'' \<longrightarrow> field b1 k = field b k" by (simp_all add: extractModel_def f1)
    show "if hasTopLevelKey b ''max_tokens'' then b2 = b
            else extractInt b2 ''max_tokens'' = def \<and> (\<forall>k. k \<noteq> ''max_tokens'' \<longrightarrow> field b2 k = field b k)"
      using b2 assms(2) f2 i by (auto simp: withDefaultMaxTokens_def extractInt_def)
  qed
qed

section \<open>Bounds of the reported usage\<close>

text \<open>
  A worker cannot report more than the model can do. With a catalog entry, the billed counts are at
  most the context window, the output limit and their sum, the cached part at most the prompt; a
  report within these limits is billed as it is, and no count is ever raised.
\<close>

theorem clamped_usage_bounds:
  "case catalog_entry cfg model of
     None \<Rightarrow> clampUsage cfg u model = u
   | Some info \<Rightarrow>
       let ctxWin = mi_context_window info;
           maxOut = (if mi_max_output info \<le> 0 then ctxWin else mi_max_output info);
           v = clampUsage cfg u model
       in if ctxWin \<le> 0 then v = u
          else PromptTokens v = min (PromptTokens u) ctxWin \<and>
               CompletionTokens v = min (CompletionTokens u) maxOut \<and>
               CachedTokens v = min (CachedTokens u) (PromptTokens v) \<and>
               TotalTokens v = min (TotalTokens u) (ctxWin + maxOut)"
proof (cases "catalog_entry cfg model")
  case (Some info)
  define ctxWin maxOut
    where "ctxWin = mi_context_window info" "maxOut = (if mi_max_output info \<le> 0 then ctxWin else mi_max_output info)"
  have "clampUsage cfg u model = u\<lparr>PromptTokens := min (PromptTokens u) ctxWin, CompletionTokens := min (CompletionTokens u) maxOut,
      CachedTokens := min (CachedTokens u) (min (PromptTokens u) ctxWin), TotalTokens := min (TotalTokens u) (ctxWin + maxOut)\<rparr>"
    if "0 < ctxWin"
    unfolding clampUsage_def Some option.case Let_def ctxWin_maxOut_def(1) [symmetric] ctxWin_maxOut_def(2) [symmetric] using that
    by (cases u) (simp add: min_def)
  moreover have "clampUsage cfg u model = u" if "ctxWin \<le> 0"
    using that by (simp add: clampUsage_def Some ctxWin_maxOut_def)
  ultimately show ?thesis
    unfolding Some option.case Let_def ctxWin_maxOut_def(1) [symmetric] ctxWin_maxOut_def(2) [symmetric]
    by (cases "ctxWin \<le> 0") simp_all
qed (simp add: clampUsage_def)

text \<open>
  Nothing bounds a report from below. A worker that reports fewer than no completion tokens with a
  positive total is billed a negative cost, at any positive output price.
\<close>

theorem negative_usage_is_billed:
  assumes "0 < c" "c < 2 ^ 53" "0 < t" "t \<le> mi_context_window info" "catalog_entry cfg model = Some info"
    and "lookupPrice inputs model = Some inp" "lookupPrice outs model = Some out" "lookupPrice caches model = Some cr"
    and "bf_ok inp" "bf_ok out" "bf_ok cr" "0 < bf_val out"
    and "u = \<lparr>PromptTokens = 0, CompletionTokens = - c, CachedTokens = 0, TotalTokens = t\<rparr>"
  shows "clampUsage cfg u model = u \<and>
    bf_val (CostBreakdownUSD model (PromptTokens u) (CompletionTokens u) (CachedTokens u) (TotalTokens u) outs inputs caches) < 0"
proof
  show "clampUsage cfg u model = u"
    using assms by (simp add: clampUsage_def Let_def)
  let ?z = "float64_of_int 0" and ?o = "bf_mul out (float64_of_int (- c))"
  have z: "bf_val ?z = 0" by (simp add: bf_val_float64_of_int)
  have c: "bf_val (float64_of_int (- c)) = - of_int c" using assms(1,2) by (subst bf_val_float64_of_int) auto
  have o: "sgn (bf_val ?o) = - 1"
    using assms(1,10,12) by (simp add: bf_mulp_sgn c)
  have s: "sgn (bf_val (bf_mul x ?z)) = 0" if "bf_ok x" for x using that by (simp add: bf_mulp_sgn z)
  define q where "q = bf_acc (bf_mul inp ?z) (bf_mul cr ?z)"
  have "sgn (bf_val q) = sgn (bf_val (bf_mul inp ?z) + bf_val (bf_mul cr ?z))"
    unfolding q_def bf_acc_def using assms(9,11) by (intro bf_addp_sgn) simp_all
  then have q: "bf_val q = 0" using s [OF assms(9)] s [OF assms(11)] by (simp only: sgn_eq_0_iff sgn_0 add_0)
  have "bf_ok q" unfolding q_def using assms(9,11) by simp
  then have "sgn (bf_val (bf_acc q ?o)) = sgn (bf_val q + bf_val ?o)"
    unfolding bf_acc_def using assms(10) by (intro bf_addp_sgn) simp_all
  then have "sgn (bf_val (bf_acc q ?o)) = - 1" by (simp add: q o)
  moreover have "CostBreakdownUSD model (PromptTokens u) (CompletionTokens u) (CachedTokens u) (TotalTokens u) outs inputs caches = bf_acc q ?o"
    using assms(6,7,8,13) by (simp add: CostBreakdownUSD_def Let_def cached_part_def q_def)
  ultimately show "bf_val (CostBreakdownUSD model (PromptTokens u) (CompletionTokens u) (CachedTokens u) (TotalTokens u) outs inputs caches) < 0"
    by (simp add: sgn_if split: if_splits)
qed

section \<open>The model a worker claims\<close>

lemma value_end_plain:
  "list_all (\<lambda>c. c \<noteq> CHR 0x22 \<and> c \<noteq> CHR 0x5C) v \<Longrightarrow> value_end (v @ CHR 0x22 # rest) = length v"
proof (induction v rule: value_end.induct)
  case 1
  show ?case by (cases rest) simp_all
next
  case (2 c)
  then show ?case by (cases rest) simp_all
qed simp_all

lemma Index_first:
  assumes "\<And>i. i < length pre \<Longrightarrow> \<not> HasPrefix (drop i (pre @ sub @ rest)) sub" "sub \<noteq> []"
  shows "Index sub (pre @ sub @ rest) = Some (length pre)"
  using assms
proof (induction pre)
  case Nil
  then show ?case by (cases sub) (simp_all add: HasPrefix_def)
next
  case (Cons c pre)
  have "\<not> HasPrefix (drop i (pre @ sub @ rest)) sub" if "i < length pre" for i
    using Cons.prems(1) [of "Suc i"] that by simp
  then have "Index sub (pre @ sub @ rest) = Some (length pre)" using Cons.IH Cons.prems(2) by blast
  moreover have "\<not> HasPrefix (c # pre @ sub @ rest) sub" using Cons.prems(1) [of 0] by simp
  ultimately show ?case by simp
qed

text \<open>
  Reading the served model out of a raw response finds the value of the first \<open>"model"\<close> member,
  wherever it stands in the bytes, for a name without quotes and backslashes.
\<close>

theorem scan_finds_model:
  assumes "\<And>i. i < length pre \<Longrightarrow> \<not> HasPrefix (drop i (pre @ model_marker @ gap @ CHR 0x22 # v @ CHR 0x22 # rest)) model_marker"
    and "list_all (\<lambda>c. c = CHR '' '' \<or> c = CHR '':'' \<or> c = CHR 0x09) gap"
    and "list_all (\<lambda>c. c \<noteq> CHR 0x22 \<and> c \<noteq> CHR 0x5C) v"
  shows "scanModelField (pre @ model_marker @ gap @ CHR 0x22 # v @ CHR 0x22 # rest) = v"
proof -
  have i: "Index model_marker (pre @ model_marker @ gap @ CHR 0x22 # v @ CHR 0x22 # rest) = Some (length pre)"
    using assms(1) by (intro Index_first) (auto simp: model_marker_def)
  have "dropWhile (\<lambda>c. c = CHR '' '' \<or> c = CHR '':'' \<or> c = CHR 0x09) (gap @ CHR 0x22 # v @ CHR 0x22 # rest) = CHR 0x22 # v @ CHR 0x22 # rest"
    using assms(2) by (subst dropWhile_append2) (auto simp: list_all_iff)
  then show ?thesis
    unfolding scanModelField_def i option.case Let_def by (simp add: value_end_plain [OF assms(3)])
qed

section \<open>Concrete bodies\<close>

definition sample_body :: body where
  "sample_body = Some (JObj [(''model'', JStr ''m''), (''stream'', JBool False)])"

lemma sample_body_field: "field sample_body k = (if k = ''model'' then Some (JStr ''m'') else if k = ''stream'' then Some (JBool False) else None)"
  by (simp add: sample_body_def field_def as_object_def members_def)

theorem rewritten_body_witness:
  "\<exists>b1 b2. rewriteModelField sample_body ''/models/m'' = Some b1 \<and> extractModel b1 = ''/models/m'' \<and>
     withDefaultMaxTokens sample_body 512 = Some b2 \<and> extractInt b2 ''max_tokens'' = 512"
  using rewritten_body [of sample_body "''m''" 512 "''/models/m''"]
  by (auto simp: sample_body_field hasTopLevelKey_def)

definition sample_catalog :: settlement_config where
  "sample_catalog = zero_config\<lparr>cfg_ModelCatalog := Some [(''m'', \<lparr>mi_input = DecText 1 6, mi_cache_read = NoText, mi_context_window = 4096, mi_max_output = 1024\<rparr>)]\<rparr>"

theorem negative_usage_is_billed_witness:
  "bf_val (CostBreakdownUSD ''m'' 0 (- 100) 0 10 [''m'' \<mapsto> float64_of_int 2] [''m'' \<mapsto> float64_of_int 1] [''m'' \<mapsto> float64_of_int 1]) < 0 \<and>
   clampUsage (Some sample_catalog) \<lparr>PromptTokens = 0, CompletionTokens = - 100, CachedTokens = 0, TotalTokens = 10\<rparr> ''m''
     = \<lparr>PromptTokens = 0, CompletionTokens = - 100, CachedTokens = 0, TotalTokens = 10\<rparr>"
  using negative_usage_is_billed [of 100 10 "\<lparr>mi_input = DecText 1 6, mi_cache_read = NoText, mi_context_window = 4096, mi_max_output = 1024\<rparr>"
      "Some sample_catalog" "''m''" "[''m'' \<mapsto> float64_of_int 1]" "float64_of_int 1" "[''m'' \<mapsto> float64_of_int 2]" "float64_of_int 2"
      "[''m'' \<mapsto> float64_of_int 1]" "float64_of_int 1"]
  by (simp add: catalog_entry_def sample_catalog_def lookupPrice_def bf_val_float64_of_int)

theorem scan_finds_model_witness:
  "scanModelField (''{'' @ model_marker @ '':'' @ CHR 0x22 # ''m'' @ CHR 0x22 # ''}'') = ''m''"
  by (rule scan_finds_model) (auto simp: HasPrefix_def model_marker_def)

end
