(* ===== verification/Session.thy ===== *)
theory Session
  imports Router Body Wal
begin

text \<open>
  Session affinity (\<open>gateway/session.go\<close>, \<open>selectWithAffinity\<close> of \<open>gateway/gateway.go\<close>): the key of
  a conversation, the table that remembers its worker, and the choice of a worker that prefers it.
  \<open>order\<close> is the order in which Go's map iteration visits the keys of the table, which the language
  leaves open. One call reads the clock once.
\<close>

section \<open>The table\<close>

record sessionEntry =
  se_worker :: string
  se_expiry :: gotime

record sessionAffinity =
  sa_m :: "(string \<times> sessionEntry) list"
  sa_ttl :: duration

definition defaultSessionTTL :: duration where "defaultSessionTTL = 10 * minute"

definition newSessionAffinity :: "duration \<Rightarrow> sessionAffinity" where
  "newSessionAffinity ttl = \<lparr>sa_m = [], sa_ttl = (if ttl \<le> 0 then defaultSessionTTL else ttl)\<rparr>"

definition session_get :: "gotime \<Rightarrow> string \<Rightarrow> sessionAffinity \<Rightarrow> string option \<times> sessionAffinity" where
  "session_get now key s =
     (if key = '''' then (None, s)
      else case alookup (sa_m s) key of
             None \<Rightarrow> (None, s)
           | Some e \<Rightarrow> if se_expiry e < now then (None, s\<lparr>sa_m := adel key (sa_m s)\<rparr>) else (Some (se_worker e), s))"

definition evict :: "gotime \<Rightarrow> string \<Rightarrow> (string \<times> sessionEntry) list \<Rightarrow> (string \<times> sessionEntry) list" where
  "evict now k m = (case alookup m k of Some e \<Rightarrow> if se_expiry e < now then adel k m else m | None \<Rightarrow> m)"

definition session_put :: "gotime \<Rightarrow> string list \<Rightarrow> string \<Rightarrow> string \<Rightarrow> sessionAffinity \<Rightarrow> sessionAffinity" where
  "session_put now order key workerID s =
     (if key = '''' \<or> workerID = '''' then s
      else let m = aput key \<lparr>se_worker = workerID, se_expiry = now + sa_ttl s\<rparr> (sa_m s)
           in s\<lparr>sa_m := fold (evict now) (take 64 order) m\<rparr>)"

section \<open>Keys\<close>

definition shortSessionHash :: "string \<Rightarrow> string" where
  "shortSessionHash sessKey = (if sessKey = '''' then '''' else hex_encode (take 8 (sha256 sessKey)))"

definition sessionKeyOf :: "string \<Rightarrow> string \<Rightarrow> body \<Rightarrow> string" where
  "sessionKeyOf apiKeyName header body =
     (if header \<noteq> '''' then ''h:'' @ apiKeyName @ [CHR 0x00] @ header
      else let prefix = messagesPrefix body
           in if prefix = '''' then ''''
              else ''m:'' @ hex_encode (take 16 (sha256 (apiKeyName @ [CHR 0x00] @ prefix))))"

section \<open>Choosing with affinity\<close>

definition sticky_worker :: "gotime \<Rightarrow> registry \<Rightarrow> string \<Rightarrow> string option \<Rightarrow> worker option" where
  "sticky_worker now r model wid =
     (case wid of
        None \<Rightarrow> None
      | Some i \<Rightarrow> (case Get r i of
            None \<Rightarrow> None
          | Some w \<Rightarrow> if (wk_state w = StateIdle \<or> wk_state w = StateBusy) \<and> \<not> IsBanned w now \<and>
                         (isDefaultModel model \<or> modelMatches (wk_loaded w) model)
                      then Some w else None))"

definition selectWithAffinity ::
  "registry \<Rightarrow> gotime \<Rightarrow> bigfloat \<Rightarrow> bigfloat \<Rightarrow> string list \<Rightarrow> string \<Rightarrow> string \<Rightarrow> sessionAffinity \<Rightarrow>
   worker option \<times> sessionAffinity" where
  "selectWithAffinity r now u factor order sessKey model s =
     (let (wid, s1) = (if sessKey \<noteq> '''' then session_get now sessKey s else (None, s))
      in case sticky_worker now r model wid of
           Some w \<Rightarrow> (Some w, s1)
         | None \<Rightarrow> (case selectWorkerForModel r now u model (\<lambda>_. False) factor of
               None \<Rightarrow> (None, s1)
             | Some w \<Rightarrow> (Some w, session_put now order sessKey (wk_id w) s1)))"

section \<open>The table keeps a session for its time\<close>

definition live :: "gotime \<Rightarrow> string \<Rightarrow> sessionAffinity \<Rightarrow> string option" where
  "live now key s =
     (case alookup (sa_m s) key of Some e \<Rightarrow> if now \<le> se_expiry e then Some (se_worker e) else None | None \<Rightarrow> None)"

lemma evict_fold:
  "alookup (fold (evict now) ks m) k =
     (case alookup m k of
        Some e \<Rightarrow> if k \<in> set ks \<and> se_expiry e < now then None else Some e
      | None \<Rightarrow> None)"
proof (induction ks arbitrary: m)
  case (Cons x ks)
  show ?case unfolding fold_Cons o_apply Cons.IH
    by (cases "x = k") (auto simp: evict_def split: option.splits)
qed (simp split: option.split)

lemma session_get_live: "key \<noteq> '''' \<Longrightarrow> fst (session_get now key s) = live now key s"
  by (auto simp: session_get_def live_def split: option.splits)

lemma session_get_keeps: "t \<ge> now \<Longrightarrow> live t k (snd (session_get now key s)) = live t k s"
  by (auto simp: session_get_def live_def split: option.splits)

lemma session_put_live:
  assumes "key \<noteq> ''''" "workerID \<noteq> ''''" "0 \<le> sa_ttl s" "now \<le> t"
  shows "live t k (session_put now order key workerID s) =
    (if k = key then (if t \<le> now + sa_ttl s then Some workerID else None) else live t k s)"
  using assms by (simp add: session_put_def live_def Let_def evict_fold split: option.split)

text \<open>
  The session table is a map with expiry. After a session's worker is recorded, every lookup until
  its time is over returns that worker and afterwards none; other sessions are not affected, however
  the opportunistic clean-up walks the table, which removes expired entries only.
\<close>

theorem session_table:
  assumes "key \<noteq> ''''" "workerID \<noteq> ''''" "0 < sa_ttl s" "now \<le> t" "k \<noteq> ''''"
  shows "fst (session_get t k (session_put now order key workerID s)) =
    (if k = key then (if t \<le> now + sa_ttl s then Some workerID else None) else fst (session_get t k s))"
  using assms by (simp add: session_get_live session_put_live)

text \<open>
  Sessions of different API keys are apart. The key built from a session header determines the API
  key's name and the header, and never equals one built from a conversation; two conversations
  share a key only if they have the same API key and opening messages, or the truncated SHA-256
  digests of two different texts agree.
\<close>

theorem session_keys_separate:
  assumes "CHR 0x00 \<notin> set name" "CHR 0x00 \<notin> set name'" "sessionKeyOf name header b = sessionKeyOf name' header' b'"
    and "sessionKeyOf name header b \<noteq> ''''"
  shows "(header = '''' \<longleftrightarrow> header' = '''') \<and>
    (if header \<noteq> '''' then name = name' \<and> header = header'
     else (name = name' \<and> messagesPrefix b = messagesPrefix b') \<or>
       (\<exists>x y. x \<noteq> y \<and> x = name @ [CHR 0x00] @ messagesPrefix b \<and> y = name' @ [CHR 0x00] @ messagesPrefix b' \<and>
          hex_encode (take 16 (sha256 x)) = hex_encode (take 16 (sha256 y))))"
proof -
  have split: "n @ [CHR 0x00] @ x = n' @ [CHR 0x00] @ x' \<Longrightarrow> n = n' \<and> x = x'"
    if "CHR 0x00 \<notin> set n" "CHR 0x00 \<notin> set n'" for n n' x x' :: string
    using that by (auto simp: append_eq_append_conv2 append_eq_Cons_conv Cons_eq_append_conv)
  have hm: "(header = '''') = (header' = '''')"
    using assms(3,4) by (auto simp: sessionKeyOf_def Let_def split: if_splits)
  show ?thesis
  proof (cases "header = ''''")
    case False
    with hm assms(3) have "name @ [CHR 0x00] @ header = name' @ [CHR 0x00] @ header'" by (simp add: sessionKeyOf_def)
    from split [OF assms(1,2) this] show ?thesis using hm False by simp
  next
    case True
    let ?x = "name @ [CHR 0x00] @ messagesPrefix b" and ?y = "name' @ [CHR 0x00] @ messagesPrefix b'"
    from True hm assms(3,4) have h: "hex_encode (take 16 (sha256 ?x)) = hex_encode (take 16 (sha256 ?y))"
      by (auto simp: sessionKeyOf_def Let_def split: if_splits)
    show ?thesis
    proof (cases "?x = ?y")
      case x: True
      from split [OF assms(1,2) x] show ?thesis using hm True by simp
    next
      case x: False
      then show ?thesis using hm True h by auto
    qed
  qed
qed

section \<open>What affinity chooses\<close>

lemma sticky_worker_ok:
  assumes "sticky_worker now r model wid = Some w" "registry_ok r"
  shows "w \<in> set (ListWorkers r) \<and> routable w \<and> \<not> IsBanned w now \<and> (isDefaultModel model \<or> modelMatches (wk_loaded w) model)"
proof -
  from assms(1) obtain i where g: "Get r i = Some w" and w: "routable w" "\<not> IsBanned w now"
      "isDefaultModel model \<or> modelMatches (wk_loaded w) model"
    by (auto simp: sticky_worker_def routable_def split: option.splits if_splits)
  from g obtain v where v: "alookup (rg_workers r) i = Some v" "w = v\<lparr>wk_inflight := inflight_of r i\<rparr>"
    by (auto simp: Get_def)
  have "wk_id v = i" using assms(2) v(1) workers_okD by (auto simp: registry_ok_def)
  then have "w = (snapshot r \<circ> snd) (i, v)" by (simp add: v(2) snapshot_def)
  then have "w \<in> set (ListWorkers r)" using alookup_in_set [OF v(1)] unfolding ListWorkers_def by force
  with w show ?thesis by blast
qed

text \<open>
  Affinity never blocks and never routes to a worker that cannot serve. With or without a remembered
  worker, a request that some worker is suitable for gets one; the worker is idle or busy and not
  banned, and has the model loaded or is an idle one that can load it.
\<close>

theorem affinity_sound:
  assumes "fleet_step\<^sup>*\<^sup>* (NewRegistry path file t0) r"
  shows "case fst (selectWithAffinity r now u factor order sessKey model s) of
     Some w \<Rightarrow> w \<in> set (ListWorkers r) \<and> wk_state w \<in> {StateIdle, StateBusy} \<and> \<not> IsBanned w now \<and>
       (isDefaultModel model \<or> modelMatches (wk_loaded w) model \<or> (workerSupportsModel w model \<and> wk_state w = StateIdle))
   | None \<Rightarrow> \<not> list_ex (\<lambda>w. admitted (rg_gate r) now model (\<lambda>_. False) w \<and> suitable model w) (ListWorkers r)"
proof -
  have ok: "registry_ok r" by (rule registry_ok_reachable [OF assms registry_ok_new])
  define wid where "wid = fst (if sessKey \<noteq> '''' then session_get now sessKey s else (None, s))"
  have e: "fst (selectWithAffinity r now u factor order sessKey model s) =
      (case sticky_worker now r model wid of Some w \<Rightarrow> Some w
       | None \<Rightarrow> selectFrom (rg_gate r) now u (ListWorkers r) model (\<lambda>_. False) factor)"
    unfolding selectWithAffinity_def wid_def selectWorkerForModel_def Let_def
    by (auto simp: case_prod_beta split: option.split)
  show ?thesis
  proof (cases "sticky_worker now r model wid")
    case (Some w)
    from sticky_worker_ok [OF Some ok] show ?thesis by (auto simp: e Some routable_def)
  next
    case n: None
    show ?thesis
    proof (cases "selectFrom (rg_gate r) now u (ListWorkers r) model (\<lambda>_. False) factor")
      case None
      then have "\<not> list_ex (\<lambda>w. admitted (rg_gate r) now model (\<lambda>_. False) w \<and> suitable model w) (ListWorkers r)"
        unfolding select_None list_ex_iff by blast
      then show ?thesis by (simp only: e n None option.case) simp
    next
      case (Some w)
      from select_in [OF Some] show ?thesis
        by (auto simp: e n Some admitted_def suitable_def split: if_splits)
    qed
  qed
qed

text \<open>
  Affinity bypasses the probe gate. A session whose remembered worker registered itself and is not
  (or no longer) verified for the model still gets that worker while the gate is on, although the
  router alone would refuse it: the check that selection makes is missing on the remembered worker.
\<close>

theorem affinity_bypasses_gate:
  assumes "rg_gate r" "sessKey \<noteq> ''''" "live now sessKey s = Some wid" "Get r wid = Some w" "wk_self w" "wk_verified w = []"
    and "wk_state w = StateIdle" "\<not> IsBanned w now" "modelMatches (wk_loaded w) model"
  shows "fst (selectWithAffinity r now u factor order sessKey model s) = Some w \<and> \<not> admitted (rg_gate r) now model exclude w"
proof -
  have "fst (session_get now sessKey s) = Some wid" using assms(2,3) by (simp add: session_get_live)
  moreover have "sticky_worker now r model (Some wid) = Some w" using assms by (simp add: sticky_worker_def)
  ultimately have "fst (selectWithAffinity r now u factor order sessKey model s) = Some w"
    using assms(2) by (simp add: selectWithAffinity_def Let_def case_prod_beta)
  moreover have "\<not> workerVerifiedFor w m" for m using assms(6) by (simp add: workerVerifiedFor_def)
  then have "\<not> admitted (rg_gate r) now model exclude w" using assms by (simp add: admitted_def)
  ultimately show ?thesis by simp
qed

section \<open>Concrete sessions\<close>

definition sample_sessions :: sessionAffinity where
  "sample_sessions = session_put 10 [] ''h:k'' ''w1'' (newSessionAffinity 0)"

theorem session_table_witness:
  "fst (session_get 11 ''h:k'' sample_sessions) = Some ''w1''"
  unfolding sample_sessions_def
  using session_table [of "''h:k''" "''w1''" "newSessionAffinity 0" 10 11 "''h:k''" "[]"]
  by (simp add: newSessionAffinity_def defaultSessionTTL_def minute_def second_def)

theorem session_keys_separate_witness:
  "\<not> (sessionKeyOf ''a'' ''s'' None = sessionKeyOf ''b'' ''s'' None)"
  using session_keys_separate [of "''a''" "''b''" "''s''" None "''s''" None] by (auto simp: sessionKeyOf_def)

lemma live_fleet_get: "Get (live_fleet gate) ''w1'' = Some live_worker"
  by (simp add: Get_def live_fleet_eq inflight_of_def live_worker_def first_registered_def blank_worker_def polled_def
      poll_switch_def poll_loading_def Let_def)

theorem affinity_sound_witness:
  "case fst (selectWithAffinity (live_fleet False) 11 (float64_of_int 0) (float64_of_int 0) [] ''h:k'' ''m'' sample_sessions) of
     Some w \<Rightarrow> w \<in> set (ListWorkers (live_fleet False)) \<and> wk_state w \<in> {StateIdle, StateBusy} | None \<Rightarrow> True"
  using affinity_sound [OF live_fleet_reachable [of False], where now = 11 and u = "float64_of_int 0" and factor = "float64_of_int 0" and order = "[]" and sessKey = "''h:k''" and model = "''m''" and s = sample_sessions]
  by (auto split: option.splits)

theorem affinity_bypasses_gate_witness:
  "fst (selectWithAffinity (live_fleet True) 11 (float64_of_int 0) (float64_of_int 0) [] ''h:k'' ''m'' sample_sessions) = Some live_worker \<and>
   \<not> admitted True 11 ''m'' (\<lambda>_. False) live_worker"
proof -
  have "live 11 ''h:k'' sample_sessions = Some ''w1''"
    by (simp add: live_def sample_sessions_def session_put_def newSessionAffinity_def defaultSessionTTL_def minute_def second_def Let_def)
  moreover have "wk_self live_worker" "wk_verified live_worker = []" "wk_state live_worker = StateIdle" "\<not> IsBanned live_worker 11"
      "modelMatches (wk_loaded live_worker) ''m''" "rg_gate (live_fleet True)"
    by (simp_all add: live_worker_props live_fleet_eq IsBanned_def modelMatches_def)
  ultimately show ?thesis
    using affinity_bypasses_gate [of "live_fleet True" "''h:k''" 11 sample_sessions "''w1''" live_worker "''m''"
        "float64_of_int 0" "float64_of_int 0" "[]" "\<lambda>_. False"] live_fleet_get by simp
qed

end
