(* ===== verification/RateLimit.thy ===== *)
theory RateLimit
  imports GoFloat
begin

text \<open>
  Per-key abuse controls (\<open>gateway/ratelimit.go\<close>): the token bucket of the request rate, in
  \<open>float64\<close> arithmetic, and the slots of concurrent requests with releases that work once. The
  mutexes make each operation atomic; a bucket may see the times of its calls out of order, because
  the clock is read before its lock is taken. A nil limiter is \<open>None\<close>.
\<close>

section \<open>The token bucket\<close>


text \<open>\<open>Duration.Seconds\<close>: whole seconds plus the nanoseconds over \<open>1e9\<close>.\<close>

definition duration_seconds :: "duration \<Rightarrow> bigfloat" where
  "duration_seconds d =
     f64_add (float64_of_int (sgn d * (\<bar>d\<bar> div second)))
             (f64_quo (float64_of_int (sgn d * (\<bar>d\<bar> mod second))) (float64_of_int second))"

record tokenBucket =
  tb_tokens :: bigfloat
  tb_burst :: bigfloat
  tb_ratePerSec :: bigfloat
  tb_last :: gotime

definition newTokenBucket :: "bigfloat \<Rightarrow> int \<Rightarrow> gotime \<Rightarrow> tokenBucket" where
  "newTokenBucket ratePerSec burst now =
     (let b = float64_of_int burst;
          b = (if bf_cmp b (float64_of_int 1) < 0 then float64_of_int 1 else b)
      in \<lparr>tb_tokens = b, tb_burst = b, tb_ratePerSec = ratePerSec, tb_last = now\<rparr>)"

definition refill :: "gotime \<Rightarrow> tokenBucket \<Rightarrow> tokenBucket" where
  "refill now b =
     (let elapsed = duration_seconds (now - tb_last b)
      in if bf_sign elapsed > 0
         then let tokens = f64_add (tb_tokens b) (f64_mul elapsed (tb_ratePerSec b))
              in b\<lparr>tb_tokens := (if bf_cmp tokens (tb_burst b) > 0 then tb_burst b else tokens), tb_last := now\<rparr>
         else b)"

definition allowAt :: "gotime \<Rightarrow> tokenBucket \<Rightarrow> bool \<times> tokenBucket" where
  "allowAt now b =
     (let b = refill now b
      in if bf_cmp (tb_tokens b) (float64_of_int 1) \<ge> 0
         then (True, b\<lparr>tb_tokens := f64_sub (tb_tokens b) (float64_of_int 1)\<rparr>)
         else (False, b))"

section \<open>The limiter of all keys\<close>

record keyLimiter =
  kl_bucket :: "tokenBucket option"
  kl_inFlight :: int

record RateLimiter =
  rl_keys :: "(string \<times> keyLimiter) list"
  rl_ratePerSec :: bigfloat
  rl_burst :: int
  rl_maxInFlight :: int

record RateLimitConfig =
  rc_RatePerSec :: bigfloat
  rc_Burst :: int
  rc_MaxInFlight :: int

definition NewRateLimiter :: "RateLimitConfig \<Rightarrow> RateLimiter option" where
  "NewRateLimiter cfg =
     (if bf_sign (rc_RatePerSec cfg) \<le> 0 \<and> rc_MaxInFlight cfg \<le> 0 then None
      else let burst = rc_Burst cfg;
               burst = (if burst \<le> 0
                        then let b = bf_to_int (rc_RatePerSec cfg) in if b < 1 then 1 else b
                        else burst)
           in Some \<lparr>rl_keys = [], rl_ratePerSec = rc_RatePerSec cfg, rl_burst = burst, rl_maxInFlight = rc_MaxInFlight cfg\<rparr>)"

definition limiterFor :: "gotime \<Rightarrow> string \<Rightarrow> RateLimiter \<Rightarrow> keyLimiter \<times> RateLimiter" where
  "limiterFor now key rl =
     (case alookup (rl_keys rl) key of
        Some kl \<Rightarrow> (kl, rl)
      | None \<Rightarrow>
          let kl = \<lparr>kl_bucket = (if bf_sign (rl_ratePerSec rl) > 0
                                  then Some (newTokenBucket (rl_ratePerSec rl) (rl_burst rl) now) else None),
                     kl_inFlight = 0\<rparr>
          in (kl, rl\<lparr>rl_keys := aput key kl (rl_keys rl)\<rparr>))"

text \<open>A nil bucket would be dereferenced; \<open>AllowRate_total\<close> shows that this never happens.\<close>

definition AllowRate :: "gotime \<Rightarrow> string \<Rightarrow> RateLimiter option \<Rightarrow> (bool \<times> RateLimiter option) option" where
  "AllowRate now key limiter =
     (case limiter of
        None \<Rightarrow> Some (True, limiter)
      | Some rl \<Rightarrow>
          if bf_sign (rl_ratePerSec rl) \<le> 0 then Some (True, limiter)
          else let (kl, rl) = limiterFor now key rl
               in (case kl_bucket kl of
                    None \<Rightarrow> None
                  | Some b \<Rightarrow>
                      let (ok, b) = allowAt now b
                      in Some (ok, Some (rl\<lparr>rl_keys := aput key (kl\<lparr>kl_bucket := Some b\<rparr>) (rl_keys rl)\<rparr>))))"

definition Acquire :: "gotime \<Rightarrow> string \<Rightarrow> RateLimiter option \<Rightarrow> bool \<times> RateLimiter option" where
  "Acquire now key limiter =
     (case limiter of
        None \<Rightarrow> (True, limiter)
      | Some rl \<Rightarrow>
          if rl_maxInFlight rl \<le> 0 then (True, limiter)
          else let (kl, rl) = limiterFor now key rl
               in if kl_inFlight kl \<ge> rl_maxInFlight rl then (False, Some rl)
                  else (True, Some (rl\<lparr>rl_keys := aput key (kl\<lparr>kl_inFlight := kl_inFlight kl + 1\<rparr>) (rl_keys rl)\<rparr>)))"

text \<open>The work a release does when it runs for the first time.\<close>

definition release_slot :: "string \<Rightarrow> RateLimiter option \<Rightarrow> RateLimiter option" where
  "release_slot key limiter =
     (case limiter of
        None \<Rightarrow> None
      | Some rl \<Rightarrow>
          if rl_maxInFlight rl \<le> 0 then limiter
          else case alookup (rl_keys rl) key of
                 None \<Rightarrow> limiter
               | Some kl \<Rightarrow>
                   if kl_inFlight kl > 0
                   then Some (rl\<lparr>rl_keys := aput key (kl\<lparr>kl_inFlight := kl_inFlight kl - 1\<rparr>) (rl_keys rl)\<rparr>)
                   else limiter)"

text \<open>A release is a closure with a \<open>sync.Once\<close>: its key and whether it has run.\<close>

definition release :: "nat \<Rightarrow> (string \<times> bool) list \<Rightarrow> RateLimiter option \<Rightarrow> (string \<times> bool) list \<times> RateLimiter option" where
  "release i hs limiter =
     (if i < length hs \<and> \<not> snd (hs ! i)
      then (hs[i := (fst (hs ! i), True)], release_slot (fst (hs ! i)) limiter)
      else (hs, limiter))"

section \<open>The rate\<close>

definition f64 :: "bigfloat \<Rightarrow> bool" where "f64 x \<longleftrightarrow> fprec x = 53 \<and> bf_ok x"

lemma f64_int [simp]: "f64 (float64_of_int z)"
  by (simp add: f64_def)

lemma res_prec_53 [simp]: "res_prec 53 x y = 53"
  by (simp add: res_prec_def)

lemma f64_ops [simp]: "f64 x \<Longrightarrow> f64 y \<Longrightarrow> f64 (f64_add x y)" "f64 x \<Longrightarrow> f64 y \<Longrightarrow> f64 (f64_sub x y)"
    "f64 x \<Longrightarrow> f64 y \<Longrightarrow> f64 (f64_mul x y)"
  by (simp_all add: f64_def)

text \<open>One rounded operation on values that are not negative.\<close>

lemma f64_add_le: "0 \<le> bf_val x + bf_val y \<Longrightarrow> bf_val (f64_add x y) \<le> (bf_val x + bf_val y) * (1 + 1 / 2 ^ 53)"
  using near_upper [OF bf_addp_near [of 53 x y]] by simp

lemma f64_mul_le: "0 \<le> bf_val x * bf_val y \<Longrightarrow> bf_val (f64_mul x y) \<le> bf_val x * bf_val y * (1 + 1 / 2 ^ 53)"
  using near_upper [OF bf_mulp_near [of 53 x y]] by simp

lemma duration_seconds_f64 [simp]: "f64 (duration_seconds d)"
proof -
  have "bf_ok (f64_quo x y)" for x y by (simp add: bf_ok_def)
  then show ?thesis by (simp add: duration_seconds_def f64_def)
qed

lemma two_53: "(2 :: rat) ^ 53 = 9007199254740992"
  by (simp add: power_numeral)

lemma relerr_int: "relerr (1 / 2 ^ 53) (bf_val (float64_of_int z)) (of_int z)"
  using bf_round_error [of 53 z 0] by (simp add: float64_of_int_def relerr_def field_simps)

lemma duration_seconds_near:
  assumes "0 \<le> d"
  shows "relerr (4 / 2 ^ 53) (bf_val (duration_seconds d)) (of_int d / 10 ^ 9)"
proof -
  let ?u = "1 / 2 ^ 53 :: rat"
  define s n where "s = float64_of_int (sgn d * (\<bar>d\<bar> div second))" "n = float64_of_int (sgn d * (\<bar>d\<bar> mod second))"
  have sd: "sgn d * (\<bar>d\<bar> div second) = d div second" "sgn d * (\<bar>d\<bar> mod second) = d mod second"
    using assms by (auto simp: sgn_if)
  have sec: "bf_val (float64_of_int second) = 10 ^ 9"
    by (subst bf_val_float64_of_int) (simp_all add: second_def)
  have 1: "relerr ?u (bf_val s) (of_int (d div second))" "relerr ?u (bf_val n) (of_int (d mod second))"
    unfolding s_n_def sd by (rule relerr_int)+
  have "near 53 (bf_val (f64_quo n (float64_of_int second))) (bf_val n / bf_val (float64_of_int second))"
    using bf_quop_near [of 53 n "float64_of_int second"] by (simp add: sec)
  then have 2: "relerr ?u (bf_val (f64_quo n (float64_of_int second))) (bf_val n / 10 ^ 9)"
    unfolding sec by (rule relerr_near)
  have 3: "relerr ?u (bf_val n / 10 ^ 9) (of_int (d mod second) / 10 ^ 9)"
    using relerr_mult [OF 1(2), of "1 / 10 ^ 9"] by simp
  have 4: "relerr (?u + ?u + ?u * ?u) (bf_val (f64_quo n (float64_of_int second))) (of_int (d mod second) / 10 ^ 9)"
    by (rule relerr_trans [OF 3 2]) simp
  have 5: "relerr (?u + ?u + ?u * ?u) (bf_val s) (of_int (d div second))"
    by (rule relerr_mono [OF 1(1)]) simp
  have pos: "0 \<le> (of_int (d div second) :: rat)" "0 \<le> (of_int (d mod second) / 10 ^ 9 :: rat)"
    using assms by (auto simp: second_def pos_imp_zdiv_nonneg_iff)
  have 6: "relerr (?u + ?u + ?u * ?u) (bf_val s + bf_val (f64_quo n (float64_of_int second)))
      (of_int (d div second) + of_int (d mod second) / 10 ^ 9)"
    by (rule relerr_add [OF 5 4 pos])
  have v: "of_int (d div second) + of_int (d mod second) / 10 ^ 9 = (of_int d / 10 ^ 9 :: rat)"
  proof -
    have "of_int d = (of_int (d div second * second + d mod second) :: rat)" by simp
    then show ?thesis by (simp only: of_int_add of_int_mult) (simp add: second_def field_simps)
  qed
  have "near 53 (bf_val (duration_seconds d)) (bf_val s + bf_val (f64_quo n (float64_of_int second)))"
    using bf_addp_near [of 53 s "f64_quo n (float64_of_int second)"] by (simp add: duration_seconds_def s_n_def)
  then show ?thesis
    by (intro relerr_mono [OF relerr_trans [OF 6 [unfolded v] relerr_near [where p = 53]]]) (simp_all add: divide_simps two_53)
qed

lemma float64_of_int_sgn: "sgn (bf_val (float64_of_int z)) = of_int (sgn z)"
  using bf_round_val_sgn [of 53 z 0] by (simp add: float64_of_int_def of_int_sgn_rat)

lemma elapsed_sign: "bf_sign (duration_seconds d) > 0 \<longleftrightarrow> d > 0"
proof (cases "d > 0")
  case True
  then have "0 < of_int d / (10 ^ 9 :: rat) * (1 - 4 / 2 ^ 53)" by simp
  also have "\<dots> \<le> bf_val (duration_seconds d)"
    using duration_seconds_near [of d] True by (intro relerr_bounds) simp_all
  finally show ?thesis using True by (simp add: bf_sign_cases)
next
  case False
  define s n where "s = float64_of_int (sgn d * (\<bar>d\<bar> div second))" "n = float64_of_int (sgn d * (\<bar>d\<bar> mod second))"
  let ?q = "f64_quo n (float64_of_int second)"
  have neg: "bf_val (float64_of_int z) \<le> 0" if "z \<le> 0" for z
    using float64_of_int_sgn [of z] that by (auto simp: sgn_if split: if_splits)
  have "sgn d * (\<bar>d\<bar> div second) \<le> 0" "sgn d * (\<bar>d\<bar> mod second) \<le> 0"
    using False by (auto simp: sgn_if second_def)
  then have "bf_val s \<le> 0" and n: "bf_val n \<le> 0" unfolding s_n_def by (auto intro: neg)
  have sec: "0 < bf_val (float64_of_int second)" by (subst bf_val_float64_of_int) (simp_all add: second_def)
  have "sgn (bf_val ?q) = sgn (bf_val n) * sgn (bf_val (float64_of_int second))"
    using sec by (simp add: bf_quop_sgn s_n_def)
  then have "bf_val ?q \<le> 0" using n sec by (auto simp: sgn_if split: if_splits)
  moreover have "bf_ok ?q" by (simp add: bf_ok_def)
  then have "sgn (bf_val (duration_seconds d)) = sgn (bf_val s + bf_val ?q)"
    unfolding duration_seconds_def s_n_def [symmetric] by (intro bf_addp_sgn) (simp_all add: s_n_def)
  ultimately have "bf_val (duration_seconds d) \<le> 0" using \<open>bf_val s \<le> 0\<close> by (auto simp: sgn_if split: if_splits)
  then show ?thesis using False by (simp add: bf_sign_cases)
qed

definition bucket_ok :: "tokenBucket \<Rightarrow> bool" where
  "bucket_ok b \<longleftrightarrow> f64 (tb_tokens b) \<and> f64 (tb_burst b) \<and> f64 (tb_ratePerSec b) \<and>
     0 \<le> bf_val (tb_tokens b) \<and> bf_val (tb_tokens b) \<le> bf_val (tb_burst b) \<and> bf_val (tb_burst b) \<le> 2 ^ 53 \<and>
     0 \<le> bf_val (tb_ratePerSec b)"

text \<open>What is owed to a key since the last refill, in exact arithmetic.\<close>

definition earned :: "tokenBucket \<Rightarrow> gotime \<Rightarrow> rat" where
  "earned b now = bf_val (tb_ratePerSec b) * of_int (now - tb_last b) / 10 ^ 9"

lemma refilled_near:
  assumes "bucket_ok b" "0 \<le> now - tb_last b"
  shows "relerr (8 / 2 ^ 53) (bf_val (f64_add (tb_tokens b) (f64_mul (duration_seconds (now - tb_last b)) (tb_ratePerSec b))))
    (bf_val (tb_tokens b) + earned b now)" "0 \<le> earned b now"
proof -
  let ?el = "duration_seconds (now - tb_last b)" and ?r = "tb_ratePerSec b"
  have 1: "relerr (4 / 2 ^ 53) (bf_val ?el * bf_val ?r) (earned b now)"
    using relerr_mult [OF duration_seconds_near, of "now - tb_last b" "bf_val ?r"] assms(2) by (simp add: earned_def mult_ac)
  have "near 53 (bf_val (f64_mul ?el ?r)) (bf_val ?el * bf_val ?r)" using bf_mulp_near [of 53 ?el ?r] by simp
  then have 2: "relerr (6 / 2 ^ 53) (bf_val (f64_mul ?el ?r)) (earned b now)"
    by (intro relerr_mono [OF relerr_trans [OF 1 relerr_near [where p = 53]]]) (simp_all add: divide_simps two_53)
  show pos: "0 \<le> earned b now" using assms by (simp add: earned_def bucket_ok_def)
  have 3: "relerr (6 / 2 ^ 53) (bf_val (tb_tokens b) + bf_val (f64_mul ?el ?r)) (bf_val (tb_tokens b) + earned b now)"
    using assms(1) pos by (intro relerr_add 2 relerr_refl) (simp_all add: bucket_ok_def)
  have "near 53 (bf_val (f64_add (tb_tokens b) (f64_mul ?el ?r))) (bf_val (tb_tokens b) + bf_val (f64_mul ?el ?r))"
    using bf_addp_near [of 53 "tb_tokens b" "f64_mul ?el ?r"] by simp
  then show "relerr (8 / 2 ^ 53) (bf_val (f64_add (tb_tokens b) (f64_mul ?el ?r))) (bf_val (tb_tokens b) + earned b now)"
    by (intro relerr_mono [OF relerr_trans [OF 3 relerr_near [where p = 53]]]) (simp_all add: divide_simps two_53)
qed

lemma refill_frame [simp]: "tb_burst (refill now b) = tb_burst b" "tb_ratePerSec (refill now b) = tb_ratePerSec b"
  "tb_last (refill now b) = max now (tb_last b)"
  by (auto simp: refill_def Let_def elapsed_sign)

lemma refill_bounds:
  assumes "bucket_ok b"
  shows "bucket_ok (refill now b)"
    "bf_val (tb_tokens (refill now b)) \<le> bf_val (tb_tokens b) + earned b (max now (tb_last b)) + bf_val (tb_burst b) * 8 / 2 ^ 53"
    "tb_last b < now \<Longrightarrow> min (bf_val (tb_burst b)) ((bf_val (tb_tokens b) + earned b now) * (1 - 8 / 2 ^ 53)) \<le> bf_val (tb_tokens (refill now b))"
proof -
  let ?t = "f64_add (tb_tokens b) (f64_mul (duration_seconds (now - tb_last b)) (tb_ratePerSec b))"
  have b: "f64 (tb_tokens b)" "f64 (tb_burst b)" "f64 (tb_ratePerSec b)" "0 \<le> bf_val (tb_tokens b)"
      "bf_val (tb_tokens b) \<le> bf_val (tb_burst b)" using assms by (simp_all add: bucket_ok_def)
  have tok: "bf_val (tb_tokens (refill now b)) = min ((bf_val ?t)) (bf_val (tb_burst b))" if "0 < now - tb_last b"
    using that by (simp add: refill_def Let_def elapsed_sign bf_cmp_cases min_def)
  have keep: "refill now b = b" if "\<not> 0 < now - tb_last b"
    using that by (simp add: refill_def Let_def elapsed_sign)
  have near: "(bf_val (tb_tokens b) + earned b now) * (1 - 8 / 2 ^ 53) \<le> bf_val ?t"
      "bf_val ?t \<le> (bf_val (tb_tokens b) + earned b now) * (1 + 8 / 2 ^ 53)" "0 \<le> earned b now" if "0 < now - tb_last b"
    using relerr_bounds [OF refilled_near(1) [OF assms less_imp_le [OF that]]] refilled_near(2) [OF assms less_imp_le [OF that]] b(4) by simp_all
  show "bucket_ok (refill now b)"
  proof (cases "0 < now - tb_last b")
    case True
    have "f64 ?t" using b by simp
    then have "f64 (tb_tokens (refill now b))" using b True by (simp add: refill_def Let_def elapsed_sign)
    moreover have "0 \<le> (bf_val (tb_tokens b) + earned b now) * (1 - 8 / 2 ^ 53)" using near(3) [OF True] b(4) by simp
    then have "0 \<le> bf_val ?t" using near(1) [OF True] by linarith
    ultimately show ?thesis using assms tok [OF True] by (auto simp: bucket_ok_def)
  qed (simp add: keep assms)
  show "bf_val (tb_tokens (refill now b)) \<le> bf_val (tb_tokens b) + earned b (max now (tb_last b)) + bf_val (tb_burst b) * 8 / 2 ^ 53"
  proof (cases "0 < now - tb_last b")
    case True
    let ?A = "bf_val (tb_tokens b) + earned b now"
    have "max now (tb_last b) = now" using True by simp
    moreover have "min (bf_val ?t) (bf_val (tb_burst b)) \<le> ?A + bf_val (tb_burst b) * 8 / 2 ^ 53"
    proof (cases "?A \<le> bf_val (tb_burst b)")
      case le: True
      then show ?thesis using near(2) [OF True] by (simp add: algebra_simps min_le_iff_disj)
    next
      case False
      then show ?thesis using b(4,5) by (simp add: min_le_iff_disj)
    qed
    ultimately show ?thesis by (simp add: tok [OF True])
  next
    case False
    then have "max now (tb_last b) = tb_last b" by simp
    then show ?thesis using b(4,5) by (simp add: keep [OF False] earned_def)
  qed
  show "min (bf_val (tb_burst b)) ((bf_val (tb_tokens b) + earned b now) * (1 - 8 / 2 ^ 53)) \<le> bf_val (tb_tokens (refill now b))"
    if "tb_last b < now"
    using near(1) tok that by (simp add: min_le_iff_disj)
qed

lemma one_val [simp]: "bf_val (float64_of_int 1) = 1"
  by (subst bf_val_float64_of_int) simp_all

definition spend_one :: "tokenBucket \<Rightarrow> bool \<times> tokenBucket" where
  "spend_one b =
     (if 1 \<le> bf_val (tb_tokens b) then (True, b\<lparr>tb_tokens := f64_sub (tb_tokens b) (float64_of_int 1)\<rparr>) else (False, b))"

lemma spend_one_bounds:
  assumes "bucket_ok r" "spend_one r = (a, b')"
  shows "bucket_ok b'" "tb_burst b' = tb_burst r" "tb_ratePerSec b' = tb_ratePerSec r" "tb_last b' = tb_last r"
    "bf_val (tb_tokens b') + (if a then 1 else 0) \<le> bf_val (tb_tokens r) + bf_val (tb_burst r) / 2 ^ 53"
    "a \<longleftrightarrow> 1 \<le> bf_val (tb_tokens r)"
proof -
  show a: "a \<longleftrightarrow> 1 \<le> bf_val (tb_tokens r)" using assms(2) by (auto simp: spend_one_def split: if_splits)
  show "tb_burst b' = tb_burst r" "tb_ratePerSec b' = tb_ratePerSec r" "tb_last b' = tb_last r"
    using assms(2) by (auto simp: spend_one_def split: if_splits)
  have burst: "0 \<le> bf_val (tb_burst r)" using assms(1) by (simp add: bucket_ok_def)
  let ?d = "f64_sub (tb_tokens r) (float64_of_int 1)"
  have sub: "0 \<le> bf_val ?d" "bf_val ?d \<le> (bf_val (tb_tokens r) - 1) * (1 + 1 / 2 ^ 53)" if "1 \<le> bf_val (tb_tokens r)"
  proof -
    have "relerr (1 / 2 ^ 53) (bf_val ?d) (bf_val (tb_tokens r) - 1)"
      using relerr_near [OF bf_addp_near [of 53 "tb_tokens r" "bf_neg (float64_of_int 1)"]]
      by (simp add: bf_subp_def bf_simps)
    then show "0 \<le> bf_val ?d" "bf_val ?d \<le> (bf_val (tb_tokens r) - 1) * (1 + 1 / 2 ^ 53)"
      using that relerr_nonneg relerr_bounds(2) by fastforce+
  qed
  have rt: "bf_val (tb_tokens r) \<le> bf_val (tb_burst r)" "bf_val (tb_burst r) \<le> 2 ^ 53"
    using assms(1) by (simp_all add: bucket_ok_def)
  have slack: "(bf_val (tb_tokens r) - 1) * (1 + 1 / 2 ^ 53) \<le> bf_val (tb_tokens r) - 1 + bf_val (tb_burst r) / 2 ^ 53"
  proof -
    have "(bf_val (tb_tokens r) - 1) / 2 ^ 53 \<le> bf_val (tb_burst r) / 2 ^ 53"
      using rt(1) by (intro divide_right_mono) auto
    then show ?thesis by (simp only: distrib_left mult_1_right times_divide_eq_right)
  qed
  show "bucket_ok b'"
  proof (cases a)
    case True
    then have b': "b' = r\<lparr>tb_tokens := ?d\<rparr>" and ge: "1 \<le> bf_val (tb_tokens r)" using assms(2) a by (auto simp: spend_one_def)
    have "bf_val (tb_burst r) / 2 ^ 53 \<le> 1" using rt(2) by simp
    then have "bf_val ?d \<le> bf_val (tb_burst r)" using sub(2) [OF ge] slack rt(1) by linarith
    with assms(1) sub(1) [OF ge] show ?thesis by (simp add: bucket_ok_def b')
  next
    case False
    then show ?thesis using assms a by (auto simp: spend_one_def)
  qed
  show "bf_val (tb_tokens b') + (if a then 1 else 0) \<le> bf_val (tb_tokens r) + bf_val (tb_burst r) / 2 ^ 53"
  proof (cases a)
    case True
    then have b': "b' = r\<lparr>tb_tokens := ?d\<rparr>" and ge: "1 \<le> bf_val (tb_tokens r)" using assms(2) a by (auto simp: spend_one_def)
    then show ?thesis using sub(2) [OF ge] slack True by simp
  next
    case False
    then show ?thesis using assms(2) a burst by (auto simp: spend_one_def)
  qed
qed

lemma allowAt_bounds:
  assumes "bucket_ok b" "allowAt now b = (a, b')"
  shows "bucket_ok b'" "tb_burst b' = tb_burst b" "tb_ratePerSec b' = tb_ratePerSec b" "tb_last b' = max now (tb_last b)"
    "bf_val (tb_tokens b') + (if a then 1 else 0)
       \<le> bf_val (tb_tokens b) + earned b (tb_last b') + bf_val (tb_burst b) * 9 / 2 ^ 53"
    "a \<longleftrightarrow> 1 \<le> bf_val (tb_tokens (refill now b))"
proof -
  let ?r = "refill now b"
  have r: "bucket_ok ?r" "bf_val (tb_tokens ?r) \<le> bf_val (tb_tokens b) + earned b (max now (tb_last b)) + bf_val (tb_burst b) * 8 / 2 ^ 53"
    using refill_bounds [OF assms(1)] by blast+
  have e: "spend_one ?r = (a, b')"
    using assms(2) by (simp add: allowAt_def spend_one_def Let_def bf_cmp_cases)
  note s = spend_one_bounds [OF r(1) e]
  show "bucket_ok b'" "tb_burst b' = tb_burst b" "tb_ratePerSec b' = tb_ratePerSec b" "a \<longleftrightarrow> 1 \<le> bf_val (tb_tokens ?r)"
    and l: "tb_last b' = max now (tb_last b)" using s by simp_all
  have "bf_val (tb_tokens b') + (if a then 1 else 0) \<le> bf_val (tb_tokens ?r) + bf_val (tb_burst b) / 2 ^ 53" using s(5) by simp
  also have "\<dots> \<le> bf_val (tb_tokens b) + earned b (max now (tb_last b)) + bf_val (tb_burst b) * 8 / 2 ^ 53 + bf_val (tb_burst b) / 2 ^ 53"
    using r(2) by simp
  also have "\<dots> = bf_val (tb_tokens b) + earned b (max now (tb_last b)) + bf_val (tb_burst b) * 9 / 2 ^ 53" by simp
  finally show "bf_val (tb_tokens b') + (if a then 1 else 0)
      \<le> bf_val (tb_tokens b) + earned b (tb_last b') + bf_val (tb_burst b) * 9 / 2 ^ 53" unfolding l .
qed

section \<open>The interface of a token bucket\<close>

text \<open>A sequence of calls of a bucket: how many were allowed.\<close>

fun bucket_run :: "(gotime \<Rightarrow> 'b \<Rightarrow> bool \<times> 'b) \<Rightarrow> gotime list \<Rightarrow> 'b \<Rightarrow> nat \<times> 'b" where
  "bucket_run call [] b = (0, b)"
| "bucket_run call (t # ts) b =
     (let (a, b) = call t b; (n, b) = bucket_run call ts b in (if a then Suc n else n, b))"

text \<open>
  What the three limiters of the program share: keys (here), addresses and the public server. \<open>view\<close> reads the bucket of a state,
  and \<open>any_order\<close> says that the times may come in any order. The law: a call keeps the bucket well-formed and pays for what it
  allows out of what was there and was earned since, up to rounding.
\<close>

locale token_bucket =
  fixes call :: "gotime \<Rightarrow> 'b \<Rightarrow> bool \<times> 'b" and view :: "'b \<Rightarrow> tokenBucket" and any_order :: bool
  assumes pays: "bucket_ok (view b) \<Longrightarrow> any_order \<or> tb_last (view b) \<le> now \<Longrightarrow> call now b = (a, b') \<Longrightarrow>
    bucket_ok (view b') \<and> tb_burst (view b') = tb_burst (view b) \<and> tb_ratePerSec (view b') = tb_ratePerSec (view b) \<and>
    tb_last (view b') = max now (tb_last (view b)) \<and>
    bf_val (tb_tokens (view b')) + (if a then 1 else 0)
      \<le> bf_val (tb_tokens (view b)) + earned (view b) (tb_last (view b')) + bf_val (tb_burst (view b)) * 9 / 2 ^ 53"
begin

lemma run_pays:
  "bucket_ok (view b) \<Longrightarrow> any_order \<or> sorted (tb_last (view b) # ts) \<Longrightarrow> bucket_run call ts b = (n, b') \<Longrightarrow>
   bucket_ok (view b') \<and> tb_burst (view b') = tb_burst (view b) \<and> tb_ratePerSec (view b') = tb_ratePerSec (view b) \<and>
   tb_last (view b') = Max (set (tb_last (view b) # ts)) \<and>
   bf_val (tb_tokens (view b')) + of_nat n
     \<le> bf_val (tb_tokens (view b)) + earned (view b) (tb_last (view b')) + of_nat (length ts) * (bf_val (tb_burst (view b)) * 9 / 2 ^ 53)"
proof (induction ts arbitrary: b n)
  case Nil
  then show ?case by (simp add: earned_def)
next
  case (Cons t ts)
  obtain a b1 where 1: "call t b = (a, b1)" by fastforce
  obtain m where m: "bucket_run call ts b1 = (m, b')" and n: "n = (if a then Suc m else m)"
    using Cons.prems(3) 1 by (auto split: prod.splits)
  have "any_order \<or> tb_last (view b) \<le> t" using Cons.prems(2) by auto
  note b1 = pays [OF Cons.prems(1) this 1]
  have "any_order \<or> sorted (tb_last (view b1) # ts)" using Cons.prems(2) b1 by (auto simp: max_def)
  note ih = Cons.IH [OF conjunct1 [OF b1] this m]
  have l: "tb_last (view b') = Max (set (tb_last (view b) # t # ts))"
    using ih b1 by (cases "ts = []") (auto simp: max.assoc max.commute)
  have "earned (view b1) (tb_last (view b')) + earned (view b) (tb_last (view b1)) = earned (view b) (tb_last (view b'))"
    using b1 by (simp add: earned_def field_simps)
  moreover have "bf_val (tb_tokens (view b1)) + (if a then 1 else 0)
      \<le> bf_val (tb_tokens (view b)) + earned (view b) (tb_last (view b1)) + bf_val (tb_burst (view b)) * 9 / 2 ^ 53"
    using b1 by blast
  moreover have "bf_val (tb_tokens (view b')) + of_nat m
      \<le> bf_val (tb_tokens (view b1)) + earned (view b1) (tb_last (view b')) + of_nat (length ts) * (bf_val (tb_burst (view b)) * 9 / 2 ^ 53)"
    using ih b1 by metis
  moreover have "(of_nat n :: rat) = of_nat m + (if a then 1 else 0)" by (simp add: n)
  ultimately have "bf_val (tb_tokens (view b')) + of_nat n
     \<le> bf_val (tb_tokens (view b)) + earned (view b) (tb_last (view b'))
       + (of_nat (length ts) * (bf_val (tb_burst (view b)) * 9 / 2 ^ 53) + bf_val (tb_burst (view b)) * 9 / 2 ^ 53)"
    by linarith
  also have "\<dots> = bf_val (tb_tokens (view b)) + earned (view b) (tb_last (view b')) + of_nat (length (t # ts)) * (bf_val (tb_burst (view b)) * 9 / 2 ^ 53)"
    by (simp only: list.size of_nat_add of_nat_Suc distrib_right mult_1_left One_nat_def plus_nat.add_0 add.commute add.right_neutral add_Suc_right)
  finally have f: "bf_val (tb_tokens (view b')) + of_nat n
    \<le> bf_val (tb_tokens (view b)) + earned (view b) (tb_last (view b')) + of_nat (length (t # ts)) * (bf_val (tb_burst (view b)) * 9 / 2 ^ 53)" .
  from ih b1 have "bucket_ok (view b')" "tb_burst (view b') = tb_burst (view b)" "tb_ratePerSec (view b') = tb_ratePerSec (view b)" by auto
  with l f show ?case by blast
qed

text \<open>Over any calls up to a time, what was allowed is covered by the tokens there were and the rate times the time.\<close>

lemma run_is_limited:
  assumes "bucket_ok (view b)" "any_order \<or> sorted (tb_last (view b) # ts)" "bucket_run call ts b = (n, b')"
    and "\<And>t. t \<in> set (tb_last (view b) # ts) \<Longrightarrow> t \<le> until"
  shows "of_nat n \<le> bf_val (tb_tokens (view b)) + bf_val (tb_ratePerSec (view b)) * of_int (until - tb_last (view b)) / 10 ^ 9
    + of_nat (length ts) * (bf_val (tb_burst (view b)) * 9 / 2 ^ 53)"
proof -
  note r = run_pays [OF assms(1-3)]
  have "tb_last (view b') \<le> until" using r assms(4) by (metis List.finite_set Max_in list.set_sel(1) list.simps(3) empty_iff)
  then have "earned (view b) (tb_last (view b')) \<le> bf_val (tb_ratePerSec (view b)) * of_int (until - tb_last (view b)) / 10 ^ 9"
    using assms(1) by (simp add: earned_def bucket_ok_def divide_right_mono mult_left_mono)
  moreover have "0 \<le> bf_val (tb_tokens (view b'))" using r by (simp add: bucket_ok_def)
  ultimately show ?thesis using r by linarith
qed

end

text \<open>A call that refills, caps at the burst and spends: what the limiters of addresses and of the public server do.\<close>

definition capped_spend :: "gotime \<Rightarrow> tokenBucket \<Rightarrow> bool \<times> tokenBucket" where
  "capped_spend now b =
     (let t = f64_add (tb_tokens b) (f64_mul (duration_seconds (now - tb_last b)) (tb_ratePerSec b))
      in spend_one (b\<lparr>tb_tokens := (if bf_cmp t (tb_burst b) > 0 then tb_burst b else t), tb_last := now\<rparr>))"

lemma capped_spend_pays:
  assumes "bucket_ok b" "tb_last b \<le> now" "capped_spend now b = (a, b')"
  shows "bucket_ok b' \<and> tb_burst b' = tb_burst b \<and> tb_ratePerSec b' = tb_ratePerSec b \<and> tb_last b' = max now (tb_last b) \<and>
    bf_val (tb_tokens b') + (if a then 1 else 0) \<le> bf_val (tb_tokens b) + earned b (tb_last b') + bf_val (tb_burst b) * 9 / 2 ^ 53"
proof -
  let ?t = "f64_add (tb_tokens b) (f64_mul (duration_seconds (now - tb_last b)) (tb_ratePerSec b))"
  define m where "m = (if bf_cmp ?t (tb_burst b) > 0 then tb_burst b else ?t)"
  define r where "r = b\<lparr>tb_tokens := m, tb_last := now\<rparr>"
  have B: "f64 (tb_tokens b)" "f64 (tb_burst b)" "f64 (tb_ratePerSec b)" "0 \<le> bf_val (tb_tokens b)" "bf_val (tb_tokens b) \<le> bf_val (tb_burst b)"
    using assms(1) by (simp_all add: bucket_ok_def)
  have near: "relerr (8 / 2 ^ 53) (bf_val ?t) (bf_val (tb_tokens b) + earned b now)" "0 \<le> earned b now"
    using refilled_near [OF assms(1), of now] assms(2) by simp_all
  let ?A = "bf_val (tb_tokens b) + earned b now"
  have t: "0 \<le> bf_val ?t" "bf_val ?t \<le> ?A * (1 + 8 / 2 ^ 53)"
    using relerr_bounds [OF near(1)] near(2) B(4) relerr_nonneg [OF near(1)] by (auto intro: order_trans [rotated])
  have m: "bf_val m = min (bf_val ?t) (bf_val (tb_burst b))" by (simp add: m_def bf_cmp_cases min_def)
  have "f64 m" using B by (simp add: m_def)
  then have ok: "bucket_ok r" using assms(1) t(1) B m by (simp add: bucket_ok_def r_def)
  have "bf_val m \<le> ?A + bf_val (tb_burst b) * 8 / 2 ^ 53"
  proof (cases "?A \<le> bf_val (tb_burst b)")
    case True
    then show ?thesis using t(2) by (simp add: m algebra_simps min_le_iff_disj)
  next
    case False
    then show ?thesis using B(4,5) by (simp add: m min_le_iff_disj)
  qed
  then have le: "bf_val m + bf_val (tb_burst b) / 2 ^ 53 \<le> ?A + bf_val (tb_burst b) * 9 / 2 ^ 53" by simp
  have "spend_one r = (a, b')" using assms(3) by (simp add: capped_spend_def r_def m_def Let_def)
  note s = spend_one_bounds [OF ok this]
  have "tb_last b' = now" using s(4) by (simp add: r_def)
  then show ?thesis using s le assms(2) by (auto simp: r_def)
qed

interpretation key_bucket: token_bucket allowAt id True
proof
  fix b :: tokenBucket and now a b'
  assume "bucket_ok (id b)" "allowAt now b = (a, b')"
  then show "bucket_ok (id b') \<and> tb_burst (id b') = tb_burst (id b) \<and> tb_ratePerSec (id b') = tb_ratePerSec (id b) \<and>
    tb_last (id b') = max now (tb_last (id b)) \<and>
    bf_val (tb_tokens (id b')) + (if a then 1 else 0)
      \<le> bf_val (tb_tokens (id b)) + earned (id b) (tb_last (id b')) + bf_val (tb_burst (id b)) * 9 / 2 ^ 53"
    using allowAt_bounds [of b now a b'] by simp
qed

text \<open>
  The rate limit limits the rate. Over any sequence of calls, in whatever order their times reach the
  bucket, a key is allowed at most its burst plus its rate times the time that passed, up to
  rounding (less than one part in \<open>2 ^ 49\<close> of the burst per call).
\<close>

theorem rate_is_limited:
  assumes "f64 rate" "0 \<le> bf_val rate" "1 \<le> burst" "burst < 2 ^ 53" "\<And>t. t \<in> set ts \<Longrightarrow> t \<le> until" "start \<le> until"
    and "bucket_run allowAt ts (newTokenBucket rate burst start) = (n, b)"
  shows "of_nat n \<le> of_int burst + bf_val rate * of_int (until - start) / 10 ^ 9 + of_nat (length ts) * (of_int burst * 9 / 2 ^ 53)"
proof -
  let ?b = "newTokenBucket rate burst start"
  have v: "bf_val (float64_of_int burst) = of_int burst" using assms by (intro bf_val_float64_of_int) simp
  have b: "?b = \<lparr>tb_tokens = float64_of_int burst, tb_burst = float64_of_int burst, tb_ratePerSec = rate, tb_last = start\<rparr>"
    using assms(3) by (simp add: newTokenBucket_def Let_def bf_cmp_cases v)
  have "(of_int burst :: rat) \<le> of_int (2 ^ 53)" using assms(4) by (subst of_int_le_iff) simp
  then have ok: "bucket_ok ?b" using assms by (simp add: bucket_ok_def b v)
  have "s \<le> until" if "s \<in> set (tb_last (id ?b) # ts)" for s using that assms(5,6) by (auto simp: b)
  from key_bucket.run_is_limited [OF _ _ assms(7) this] ok show ?thesis by (simp add: b v)
qed

text \<open>
  A limited key recovers. Once the time since the last refill has earned one token (and rounding),
  the next request is allowed, whatever happened before.
\<close>

theorem limited_key_recovers:
  assumes "bucket_ok b" "1 \<le> bf_val (tb_burst b)" "tb_last b < now" "1 + 1 / 2 ^ 49 \<le> earned b now"
  shows "fst (allowAt now b)"
proof -
  obtain a b' where a: "allowAt now b = (a, b')" by fastforce
  have t: "0 \<le> bf_val (tb_tokens b)" using assms(1) by (simp add: bucket_ok_def)
  have "1 \<le> (1 + 1 / 2 ^ 49 :: rat) * (1 - 8 / 2 ^ 53)" by simp
  also have "\<dots> \<le> (bf_val (tb_tokens b) + earned b now) * (1 - 8 / 2 ^ 53)"
    using assms(4) t by (intro mult_right_mono) auto
  finally have "1 \<le> min (bf_val (tb_burst b)) ((bf_val (tb_tokens b) + earned b now) * (1 - 8 / 2 ^ 53))"
    using assms(2) by simp
  also have "\<dots> \<le> bf_val (tb_tokens (refill now b))" by (rule refill_bounds(3) [OF assms(1,3)])
  finally show ?thesis using allowAt_bounds(6) [OF assms(1) a] a by simp
qed

section \<open>The slots\<close>

definition inflight_at :: "RateLimiter \<Rightarrow> string \<Rightarrow> int" where
  "inflight_at rl k = (case alookup (rl_keys rl) k of Some kl \<Rightarrow> kl_inFlight kl | None \<Rightarrow> 0)"

definition holders :: "(string \<times> bool) list \<Rightarrow> string \<Rightarrow> int" where
  "holders hs k = int (length (filter (\<lambda>h. h = (k, False)) hs))"

text \<open>
  Requests of all keys in any order: each acquires a slot or is refused, and runs its release any
  number of times.
\<close>

inductive slot_step :: "RateLimiter option \<times> (string \<times> bool) list \<Rightarrow> RateLimiter option \<times> (string \<times> bool) list \<Rightarrow> bool" where
  acquire: "Acquire now key l = (ok, l') \<Longrightarrow> slot_step (l, hs) (l', if ok then hs @ [(key, False)] else hs)"
| release: "release i hs l = (hs', l') \<Longrightarrow> slot_step (l, hs) (l', hs')"
| rate: "AllowRate now key l = Some (ok, l') \<Longrightarrow> slot_step (l, hs) (l', hs)"

definition slots_ok :: "int \<Rightarrow> RateLimiter option \<times> (string \<times> bool) list \<Rightarrow> bool" where
  "slots_ok m st \<longleftrightarrow> (\<exists>rl. fst st = Some rl \<and> rl_maxInFlight rl = m \<and>
     (\<forall>k. inflight_at rl k = holders (snd st) k) \<and> (\<forall>k. holders (snd st) k \<le> m))"

lemma slots_okE:
  assumes "slots_ok m (l, hs)"
  obtains rl where "l = Some rl" "rl_maxInFlight rl = m" "\<forall>k. inflight_at rl k = holders hs k" "\<forall>k. holders hs k \<le> m"
  using assms by (auto simp: slots_ok_def)

lemma limiterFor_spec:
  assumes "limiterFor now key rl = (kl, rl')"
  shows "rl_maxInFlight rl' = rl_maxInFlight rl" "kl_inFlight kl = inflight_at rl key" "inflight_at rl' k = inflight_at rl k"
proof -
  show "rl_maxInFlight rl' = rl_maxInFlight rl"
    using assms by (auto simp: limiterFor_def Let_def split: option.splits)
  show "kl_inFlight kl = inflight_at rl key"
    using assms by (auto simp: limiterFor_def inflight_at_def Let_def split: option.splits)
  show "inflight_at rl' k = inflight_at rl k"
    using assms by (cases "alookup (rl_keys rl) key"; cases "k = key") (auto simp: limiterFor_def inflight_at_def Let_def)
qed

lemma inflight_put [simp]:
  "inflight_at (rl\<lparr>rl_keys := aput key kl (rl_keys rl)\<rparr>) k = (if k = key then kl_inFlight kl else inflight_at rl k)"
  by (simp add: inflight_at_def)

lemma holders_open: "holders (hs @ [(key, False)]) k = holders hs k + (if k = key then 1 else 0)"
  by (simp add: holders_def)

lemma holders_close:
  assumes "i < length hs" "\<not> snd (hs ! i)"
  shows "holders (hs[i := (fst (hs ! i), True)]) k = holders hs k - (if k = fst (hs ! i) then 1 else 0)"
proof -
  have s: "hs = take i hs @ hs ! i # drop (Suc i) hs" using assms(1) by (rule id_take_nth_drop)
  have "hs[i := (fst (hs ! i), True)] = take i hs @ (fst (hs ! i), True) # drop (Suc i) hs"
    using assms(1) by (rule upd_conv_take_nth_drop)
  moreover have "hs ! i = (fst (hs ! i), False)" using assms(2) by (cases "hs ! i") simp
  ultimately show ?thesis by (subst (2) s) (auto simp: holders_def)
qed

lemma slots_ok_step:
  assumes "slot_step st st'" "slots_ok m st" "0 < m"
  shows "slots_ok m st'"
  using assms
proof cases
  case (acquire now key l ok l' hs)
  with assms(2) obtain rl where rl: "l = Some rl" "rl_maxInFlight rl = m"
      "\<forall>k. inflight_at rl k = holders hs k" "\<forall>k. holders hs k \<le> m" by (auto elim: slots_okE)
  obtain kl rl' where k: "limiterFor now key rl = (kl, rl')" by fastforce
  note s = limiterFor_spec [OF k]
  show ?thesis
  proof (cases "kl_inFlight kl \<ge> m")
    case True
    then have "l' = Some rl'" "\<not> ok" using acquire(3) rl assms(3) s(1) by (auto simp: Acquire_def k)
    then show ?thesis using acquire(2) rl s by (auto simp: slots_ok_def)
  next
    case False
    then have "l' = Some (rl'\<lparr>rl_keys := aput key (kl\<lparr>kl_inFlight := kl_inFlight kl + 1\<rparr>) (rl_keys rl')\<rparr>)" "ok"
      using acquire(3) rl assms(3) s(1) by (auto simp: Acquire_def k)
    then show ?thesis using acquire(2) rl s False by (auto simp: slots_ok_def holders_open)
  qed
next
  case (release i hs l hs' l')
  with assms(2) obtain rl where rl: "l = Some rl" "rl_maxInFlight rl = m"
      "\<forall>k. inflight_at rl k = holders hs k" "\<forall>k. holders hs k \<le> m" by (auto elim: slots_okE)
  show ?thesis
  proof (cases "i < length hs \<and> \<not> snd (hs ! i)")
    case True
    define key where "key = fst (hs ! i)"
    have "hs ! i = (key, False)" using True by (cases "hs ! i") (simp add: key_def)
    then have "(key, False) \<in> set hs" using True nth_mem by metis
    then have "0 < holders hs key" by (auto simp: holders_def filter_empty_conv)
    then have "0 < inflight_at rl key" using rl(3) by simp
    then obtain kl where kl: "alookup (rl_keys rl) key = Some kl" "0 < kl_inFlight kl"
      by (auto simp: inflight_at_def split: option.splits)
    have "hs' = hs[i := (key, True)]" "l' = Some (rl\<lparr>rl_keys := aput key (kl\<lparr>kl_inFlight := kl_inFlight kl - 1\<rparr>) (rl_keys rl)\<rparr>)"
      using release(3) True kl rl(1,2) assms(3) by (auto simp: release_def release_slot_def key_def)
    moreover have "kl_inFlight kl = inflight_at rl key" using kl by (simp add: inflight_at_def)
    moreover have "holders hs k - 1 \<le> m" for k using spec [OF rl(4), of k] by simp
    ultimately show ?thesis using release(2) rl True by (auto simp: slots_ok_def key_def holders_close)
  next
    case False
    then show ?thesis using release assms(2) by (auto simp: release_def split: if_splits)
  qed
next
  case (rate now key l ok l' hs)
  with assms(2) obtain rl where rl: "l = Some rl" "rl_maxInFlight rl = m"
      "\<forall>k. inflight_at rl k = holders hs k" "\<forall>k. holders hs k \<le> m" by (auto elim: slots_okE)
  obtain kl rl' where k: "limiterFor now key rl = (kl, rl')" by fastforce
  from rate(3) rl(1) k have "l' = Some rl \<or> (\<exists>b. l' = Some (rl'\<lparr>rl_keys := aput key (kl\<lparr>kl_bucket := Some b\<rparr>) (rl_keys rl')\<rparr>))"
    by (auto simp: AllowRate_def Let_def split: if_splits option.splits prod.splits)
  then show ?thesis using rate(2) rl limiterFor_spec [OF k] by (auto simp: slots_ok_def)
qed

text \<open>
  The concurrency limit is exact. Under every interleaving of requests and releases, also of releases
  that run more than once, a key's counter is the number of its requests that hold a slot and
  never exceeds the limit, and a request is refused exactly when that many hold one.
\<close>

theorem concurrency_is_limited:
  assumes "NewRateLimiter cfg = Some rl0" "0 < rc_MaxInFlight cfg" "slot_step\<^sup>*\<^sup>* (Some rl0, []) (l, hs)"
  shows "\<exists>rl. l = Some rl \<and> inflight_at rl key = holders hs key \<and> holders hs key \<le> rc_MaxInFlight cfg \<and>
    (fst (Acquire now key l) \<longleftrightarrow> holders hs key < rc_MaxInFlight cfg)"
proof -
  have rl0: "rl_maxInFlight rl0 = rc_MaxInFlight cfg" "rl_keys rl0 = []"
    using assms(1) by (auto simp: NewRateLimiter_def Let_def split: if_splits)
  have "slots_ok (rc_MaxInFlight cfg) (Some rl0, [])"
    using assms(2) rl0 by (simp add: slots_ok_def inflight_at_def holders_def)
  with assms(3) have "slots_ok (rc_MaxInFlight cfg) (l, hs)"
    by (induction rule: rtranclp_induct) (auto intro: slots_ok_step [OF _ _ assms(2)])
  then obtain rl where rl: "l = Some rl" "rl_maxInFlight rl = rc_MaxInFlight cfg"
      "\<forall>k. inflight_at rl k = holders hs k" "\<forall>k. holders hs k \<le> rc_MaxInFlight cfg"
    by (auto elim: slots_okE)
  obtain kl rl' where k: "limiterFor now key rl = (kl, rl')" by fastforce
  have "fst (Acquire now key l) \<longleftrightarrow> holders hs key < rc_MaxInFlight cfg"
    using limiterFor_spec [OF k] rl assms(2) by (auto simp: Acquire_def k)
  with rl show ?thesis by auto
qed

section \<open>Concrete limits\<close>

definition sample_limits :: RateLimitConfig where
  "sample_limits = \<lparr>rc_RatePerSec = float64_of_int 2, rc_Burst = 3, rc_MaxInFlight = 1\<rparr>"

theorem rate_is_limited_witness:
  "of_nat (fst (bucket_run allowAt [1, 2] (newTokenBucket (float64_of_int 2) 3 0))) \<le> (3 + 2 * 2 / 10 ^ 9 + 2 * (3 * 9 / 2 ^ 53) :: rat)"
proof -
  obtain n b where r: "bucket_run allowAt [1, 2] (newTokenBucket (float64_of_int 2) 3 0) = (n, b)" by fastforce
  have "bf_val (float64_of_int 2) = 2" by (subst bf_val_float64_of_int) simp_all
  then have "of_nat n \<le> (of_int 3 + bf_val (float64_of_int 2) * of_int (2 - 0) / 10 ^ 9 + of_nat (length [1, 2 :: gotime]) * (of_int 3 * 9 / 2 ^ 53) :: rat)"
    by (intro rate_is_limited [OF _ _ _ _ _ _ r]) auto
  then show ?thesis unfolding r fst_conv by (simp add: \<open>bf_val (float64_of_int 2) = 2\<close>)
qed

theorem limited_key_recovers_witness:
  "fst (allowAt (2 * second) (newTokenBucket (float64_of_int 2) 1 0))"
proof -
  let ?b = "newTokenBucket (float64_of_int 2) 1 0"
  have 2: "bf_val (float64_of_int 2) = 2" by (subst bf_val_float64_of_int) simp_all
  have b: "?b = \<lparr>tb_tokens = float64_of_int 1, tb_burst = float64_of_int 1, tb_ratePerSec = float64_of_int 2, tb_last = 0\<rparr>"
    by (simp add: newTokenBucket_def Let_def)
  show ?thesis
    by (rule limited_key_recovers) (simp_all add: b bucket_ok_def earned_def 2 second_def)
qed

theorem concurrency_is_limited_witness:
  "\<exists>rl0. NewRateLimiter sample_limits = Some rl0 \<and> holders [(''k'', False)] ''k'' = 1 \<and>
     \<not> fst (Acquire 5 ''k'' (snd (Acquire 4 ''k'' (Some rl0))))"
proof -
  obtain rl0 where rl0: "NewRateLimiter sample_limits = Some rl0" by (simp add: NewRateLimiter_def sample_limits_def)
  obtain ok l where a: "Acquire 4 ''k'' (Some rl0) = (ok, l)" by fastforce
  have ok: "ok" using a rl0 by (auto simp: Acquire_def limiterFor_def NewRateLimiter_def sample_limits_def Let_def)
  have "slot_step (Some rl0, []) (l, if ok then [] @ [(''k'', False)] else [])" by (rule slot_step.acquire [OF a])
  then have "slot_step\<^sup>*\<^sup>* (Some rl0, []) (l, [(''k'', False)])" using ok by auto
  from concurrency_is_limited [OF rl0 _ this, of "''k''" 5] show ?thesis
    using rl0 a by (auto simp: sample_limits_def holders_def)
qed

end
