(* ===== verification/WaitQueue.thy ===== *)
theory WaitQueue
  imports Router
begin

text \<open>
  Waiting for a worker and shutting down (\<open>waitForWorkerInternal\<close>, \<open>blockForWorker\<close>, \<open>BeginDrain\<close>
  and the entry of \<open>handleProxy\<close> in \<open>gateway/gateway.go\<close>). The counters are atomics: one addition or
  load is one step, and the steps of different requests interleave. A wait is the sequence of events
  its \<open>select\<close> receives.
\<close>

section \<open>Waiting in the queue\<close>

datatype wait_error = CtxDoneErr | ErrNoWorkerAvailable | ErrQueueFull

text \<open>The context ends, the queue window ends, or the poll tick looks at the fleet at that moment.\<close>

datatype wait_event = CtxDone | WindowOver | Tick registry gotime bigfloat

fun wait_loop :: "string \<Rightarrow> bigfloat \<Rightarrow> wait_event list \<Rightarrow> (wait_error + worker) option" where
  "wait_loop model factor [] = None"
| "wait_loop model factor (CtxDone # es) = Some (Inl CtxDoneErr)"
| "wait_loop model factor (WindowOver # es) = Some (Inl ErrNoWorkerAvailable)"
| "wait_loop model factor (Tick r now u # es) =
     (case selectWorkerForModel r now u model (\<lambda>_. False) factor of
        Some w \<Rightarrow> Some (Inr w)
      | None \<Rightarrow> wait_loop model factor es)"

text \<open>
  The queue counter with the requests that wait and those that have overshot and not yet given their
  slot back. The size check compares the value the addition returned, so it belongs to its step.
\<close>

record queue_state =
  q_count :: int
  q_waiting :: nat
  q_overshot :: nat

definition queue_enter :: "int \<Rightarrow> queue_state \<Rightarrow> bool \<times> queue_state" where
  "queue_enter maxQueueSize q =
     (let queued = q_count q + 1
      in if maxQueueSize > 0 \<and> queued > maxQueueSize
         then (False, q\<lparr>q_count := queued, q_overshot := q_overshot q + 1\<rparr>)
         else (True, q\<lparr>q_count := queued, q_waiting := q_waiting q + 1\<rparr>))"

definition queue_undo :: "queue_state \<Rightarrow> queue_state" where
  "queue_undo q = q\<lparr>q_count := q_count q - 1, q_overshot := q_overshot q - 1\<rparr>"

definition queue_leave :: "queue_state \<Rightarrow> queue_state" where
  "queue_leave q = q\<lparr>q_count := q_count q - 1, q_waiting := q_waiting q - 1\<rparr>"

inductive queue_step :: "int \<Rightarrow> queue_state \<Rightarrow> queue_state \<Rightarrow> bool" for maxQueueSize where
  enter: "queue_step maxQueueSize q (snd (queue_enter maxQueueSize q))"
| undo: "0 < q_overshot q \<Longrightarrow> queue_step maxQueueSize q (queue_undo q)"
| leave: "0 < q_waiting q \<Longrightarrow> queue_step maxQueueSize q (queue_leave q)"

definition empty_queue :: queue_state where
  "empty_queue = \<lparr>q_count = 0, q_waiting = 0, q_overshot = 0\<rparr>"

text \<open>One call of \<open>waitForWorkerInternal\<close> as its caller sees it.\<close>

definition waitForWorker :: "string \<Rightarrow> bigfloat \<Rightarrow> bool \<Rightarrow> wait_event list \<Rightarrow> (wait_error + worker) option" where
  "waitForWorker model factor entered es =
     (if \<not> entered then Some (Inl ErrQueueFull) else wait_loop model factor es)"

section \<open>Waiting over several windows\<close>

text \<open>Each window: the time at which the loop condition is read, whether the queue took the request, its events.\<close>

type_synonym window = "gotime \<times> bool \<times> wait_event list"

fun block_loop :: "string \<Rightarrow> bigfloat \<Rightarrow> gotime \<Rightarrow> window list \<Rightarrow> (wait_error + worker) option" where
  "block_loop model factor deadline [] = None"
| "block_loop model factor deadline ((t, entered, es) # ws) =
     (if t < deadline
      then case waitForWorker model factor entered es of
             None \<Rightarrow> None
           | Some (Inr w) \<Rightarrow> Some (Inr w)
           | Some (Inl e) \<Rightarrow> if e = ErrNoWorkerAvailable then block_loop model factor deadline ws else Some (Inl e)
      else Some (Inl ErrNoWorkerAvailable))"

definition blockForWorker ::
  "registry \<Rightarrow> gotime \<Rightarrow> string \<Rightarrow> bigfloat \<Rightarrow> gotime \<Rightarrow> window list \<Rightarrow> (wait_error + worker) option" where
  "blockForWorker r now model factor deadline ws =
     (let est = minMiningRecovery now (ListWorkers r) model
      in if est > 0 \<and> now + est > deadline then Some (Inl ErrNoWorkerAvailable)
         else block_loop model factor deadline ws)"

section \<open>Draining\<close>

text \<open>The flag, the counter, the requests between the check of the flag and the addition, and those being served.\<close>

record drain_state =
  dr_draining :: bool
  dr_inFlight :: int
  dr_passed :: nat
  dr_serving :: nat
  dr_returned :: bool

definition proxy_check :: "drain_state \<Rightarrow> bool \<times> drain_state" where
  "proxy_check d = (if dr_draining d then (False, d) else (True, d\<lparr>dr_passed := dr_passed d + 1\<rparr>))"

definition proxy_enter :: "drain_state \<Rightarrow> drain_state" where
  "proxy_enter d = d\<lparr>dr_passed := dr_passed d - 1, dr_inFlight := dr_inFlight d + 1, dr_serving := dr_serving d + 1\<rparr>"

definition proxy_leave :: "drain_state \<Rightarrow> drain_state" where
  "proxy_leave d = d\<lparr>dr_inFlight := dr_inFlight d - 1, dr_serving := dr_serving d - 1\<rparr>"

definition drain_begin :: "drain_state \<Rightarrow> drain_state" where
  "drain_begin d = d\<lparr>dr_draining := True\<rparr>"

text \<open>\<open>BeginDrain\<close> reads the counter every 50 ms until the deadline; at the end it reports one last reading.\<close>

fun drain_loop :: "gotime \<Rightarrow> (gotime \<times> int) list \<Rightarrow> int \<Rightarrow> int" where
  "drain_loop deadline [] final = final"
| "drain_loop deadline ((t, n) # ps) final =
     (if t < deadline then if n = 0 then 0 else drain_loop deadline ps final else final)"

inductive drain_step :: "drain_state \<Rightarrow> drain_state \<Rightarrow> bool" where
  check: "drain_step d (snd (proxy_check d))"
| enter: "0 < dr_passed d \<Longrightarrow> drain_step d (proxy_enter d)"
| leave: "0 < dr_serving d \<Longrightarrow> drain_step d (proxy_leave d)"
| begin_drain: "drain_step d (drain_begin d)"
| observe: "dr_draining d \<Longrightarrow> dr_inFlight d = 0 \<Longrightarrow> drain_step d (d\<lparr>dr_returned := True\<rparr>)"

definition idle_gateway :: drain_state where
  "idle_gateway = \<lparr>dr_draining = False, dr_inFlight = 0, dr_passed = 0, dr_serving = 0, dr_returned = False\<rparr>"

section \<open>The queue is bounded\<close>

definition queue_ok :: "int \<Rightarrow> queue_state \<Rightarrow> bool" where
  "queue_ok m q \<longleftrightarrow> q_count q = int (q_waiting q) + int (q_overshot q) \<and> (m > 0 \<longrightarrow> int (q_waiting q) \<le> m)"

lemma queue_ok_step: "queue_step m q q' \<Longrightarrow> queue_ok m q \<Longrightarrow> queue_ok m q'"
  by (induction rule: queue_step.induct)
     (auto simp: queue_ok_def queue_enter_def queue_undo_def queue_leave_def Let_def)

text \<open>
  The queue holds at most its size. Whatever the interleaving of arrivals, refusals and departures,
  the number of waiting requests never exceeds \<open>max_queue_size\<close>, and the counter is their number
  plus the refused requests that are about to give their slot back: once those have, it is exact.
\<close>

theorem queue_is_bounded:
  assumes "(queue_step maxQueueSize)\<^sup>*\<^sup>* empty_queue q"
  shows "q_count q = int (q_waiting q) + int (q_overshot q) \<and> (if maxQueueSize > 0 then int (q_waiting q) \<le> maxQueueSize else True)"
proof -
  have "queue_ok maxQueueSize empty_queue" by (simp add: queue_ok_def empty_queue_def)
  with assms have "queue_ok maxQueueSize q"
    by (induction rule: rtranclp_induct) (auto intro: queue_ok_step)
  then show ?thesis by (simp add: queue_ok_def)
qed

text \<open>
  A full queue can refuse a request for which there is room: the increment of a refused request
  counts until it is taken back, and a request that arrives in between is refused too, even
  when nobody waits any more.
\<close>

theorem queue_refuses_with_room:
  "\<exists>q. (queue_step 1)\<^sup>*\<^sup>* empty_queue q \<and> q_waiting q = 0 \<and> \<not> fst (queue_enter 1 q)"
proof -
  let ?q = "\<lambda>c w v. \<lparr>q_count = c, q_waiting = w, q_overshot = v\<rparr>"
  have "queue_step 1 empty_queue (?q 1 1 0)" using queue_step.enter [of 1 empty_queue] by (simp add: queue_enter_def empty_queue_def)
  moreover have "queue_step 1 (?q 1 1 0) (?q 2 1 1)" using queue_step.enter [of 1 "?q 1 1 0"] by (simp add: queue_enter_def)
  moreover have "queue_step 1 (?q 2 1 1) (?q 1 0 1)" using queue_step.leave [of "?q 2 1 1" 1] by (simp add: queue_leave_def)
  ultimately have "(queue_step 1)\<^sup>*\<^sup>* empty_queue (?q 1 0 1)" by (meson rtranclp.rtrancl_into_rtrancl rtranclp.rtrancl_refl)
  moreover have "\<not> fst (queue_enter 1 (?q 1 0 1))" by (simp add: queue_enter_def)
  ultimately show ?thesis by (intro exI [of _ "?q 1 0 1"]) simp
qed

section \<open>What a wait gives\<close>

lemma wait_loop_result:
  "wait_loop model factor es = Some (Inr w) \<Longrightarrow>
   \<exists>r now u. Tick r now u \<in> set es \<and> selectWorkerForModel r now u model (\<lambda>_. False) factor = Some w"
  by (induction model factor es rule: wait_loop.induct) (auto split: option.splits)

lemma wait_loop_no_worker:
  "wait_loop model factor es = Some (Inl e) \<Longrightarrow>
   e \<noteq> ErrQueueFull \<and> (e = ErrNoWorkerAvailable \<longrightarrow> WindowOver \<in> set es)"
  by (induction model factor es rule: wait_loop.induct) (auto split: option.splits)

lemma block_loop_result:
  "block_loop model factor deadline ws = Some res \<Longrightarrow>
   (case res of
      Inr w \<Rightarrow> \<exists>t es r now u. (t, True, es) \<in> set ws \<and> t < deadline \<and> Tick r now u \<in> set es \<and>
                selectWorkerForModel r now u model (\<lambda>_. False) factor = Some w
    | Inl e \<Rightarrow> e = ErrNoWorkerAvailable \<longrightarrow> (\<exists>t entered es. (t, entered, es) \<in> set ws \<and> deadline \<le> t))"
proof (induction model factor deadline ws rule: block_loop.induct)
  case (2 model factor deadline t entered es ws)
  show ?case
  proof (cases "t < deadline")
    case True
    show ?thesis
    proof (cases "waitForWorker model factor entered es")
      case None
      with 2(2) True show ?thesis by simp
    next
      case (Some r)
      show ?thesis
      proof (cases r)
        case (Inr w)
        then have "res = Inr w" "entered" "wait_loop model factor es = Some (Inr w)"
          using 2(2) True Some by (auto simp: waitForWorker_def split: if_splits)
        with wait_loop_result [OF this(3)] True show ?thesis unfolding \<open>res = Inr w\<close> sum.case by (metis list.set_intros(1))
      next
        case (Inl e)
        show ?thesis
        proof (cases "e = ErrNoWorkerAvailable")
          case e: True
          with 2(2) True Some Inl have "block_loop model factor deadline ws = Some res" by simp
          note ih = 2(1) [OF True Some Inl e this]
          show ?thesis
          proof (cases res)
            case (Inl x)
            with ih show ?thesis unfolding Inl sum.case by (meson list.set_intros(2))
          next
            case (Inr w)
            with ih show ?thesis unfolding Inr sum.case by (meson list.set_intros(2))
          qed
        next
          case False
          with 2(2) True Some Inl show ?thesis by auto
        qed
      qed
    qed
  next
    case False
    then have "res = Inl ErrNoWorkerAvailable" "deadline \<le> t" using 2(2) by auto
    then show ?thesis by (auto intro!: exI [of _ t])
  qed
qed simp

text \<open>
  A wait ends with a worker the router chose at that moment, or after its deadline. A request that
  waits across queue windows gets only a worker that was routable, not banned and suitable when a
  tick looked; and it is told that no worker is available only when its deadline has passed, or at
  once when every estimate of a mining worker lies behind the deadline.
\<close>

theorem waiting_is_honest:
  assumes "blockForWorker r now model factor deadline ws = Some res"
  shows "case res of
      Inr w \<Rightarrow> (\<exists>t es r' now' u. (t, True, es) \<in> set ws \<and> t < deadline \<and> Tick r' now' u \<in> set es \<and> w \<in> set (ListWorkers r') \<and>
                 admitted (rg_gate r') now' model (\<lambda>_. False) w \<and> suitable model w)
    | Inl ErrNoWorkerAvailable \<Rightarrow> (\<exists>t entered es. (t, entered, es) \<in> set ws \<and> deadline \<le> t) \<or>
                 deadline < now + minMiningRecovery now (ListWorkers r) model
    | Inl e \<Rightarrow> True"
proof (cases res)
  case (Inr w)
  with assms have "block_loop model factor deadline ws = Some (Inr w)"
    by (auto simp: blockForWorker_def Let_def split: if_splits)
  from block_loop_result [OF this] obtain t es r' now' u where
    w: "(t, True, es) \<in> set ws" "t < deadline" "Tick r' now' u \<in> set es" "selectWorkerForModel r' now' u model (\<lambda>_. False) factor = Some w"
    by auto
  from select_in [OF w(4) [unfolded selectWorkerForModel_def]] w(1-3) show ?thesis unfolding Inr sum.case by blast
next
  case (Inl e)
  show ?thesis
  proof (cases "block_loop model factor deadline ws = Some res")
    case True
    from block_loop_result [OF True] show ?thesis unfolding Inl sum.case by (cases e) simp_all
  next
    case False
    with assms Inl show ?thesis by (auto simp: blockForWorker_def Let_def split: if_splits wait_error.splits)
  qed
qed

text \<open>
  A wait ends. If every queue window ends and takes at least the queue timeout, the wait is over after
  at most as many windows as fit before the deadline, and one more.
\<close>

theorem waiting_terminates:
  assumes "0 < queueTimeout" "\<And>t entered es. (t, entered, es) \<in> set ws \<Longrightarrow> waitForWorker model factor entered es \<noteq> None"
    and "\<And>i. i < length ws \<Longrightarrow> now + int i * queueTimeout \<le> fst (ws ! i)"
    and "deadline - now \<le> int (length ws - 1) * queueTimeout" "ws \<noteq> []"
  shows "\<exists>res. blockForWorker r now model factor deadline ws = Some res"
proof -
  have "\<exists>res. block_loop model factor deadline ws = Some res"
    using assms(2-5)
  proof (induction ws arbitrary: now)
    case (Cons w ws)
    obtain t entered es where w: "w = (t, entered, es)" by (cases w) auto
    show ?case
    proof (cases "t < deadline")
      case True
      obtain x where x: "waitForWorker model factor entered es = Some x" using Cons.prems(1) [of t entered es] w by auto
      have t: "now \<le> t" using Cons.prems(2) [of 0] w by simp
      have "deadline - now \<le> int (length ws) * queueTimeout" using Cons.prems(3) by simp
      then have ws: "ws \<noteq> []" using t True by (cases ws) simp_all
      have i: "now + queueTimeout + int i * queueTimeout \<le> fst (ws ! i)" if "i < length ws" for i
        using Cons.prems(2) [of "Suc i"] that by (simp add: distrib_right)
      obtain y ys where y: "ws = y # ys" using ws by (cases ws) auto
      have d: "deadline - (now + queueTimeout) \<le> int (length ws - 1) * queueTimeout"
        using \<open>deadline - now \<le> int (length ws) * queueTimeout\<close> by (simp add: y distrib_right)
      have "\<exists>res. block_loop model factor deadline ws = Some res"
      proof (rule Cons.IH [of "now + queueTimeout"])
        show "waitForWorker model factor entered es \<noteq> None" if "(t, entered, es) \<in> set ws" for t entered es
          using Cons.prems(1) [of t entered es] that by simp
        show "now + queueTimeout + int i * queueTimeout \<le> fst (ws ! i)" if "i < length ws" for i by (rule i [OF that])
      qed (fact d ws)+
      then show ?thesis using True x by (auto simp: w split: sum.split)
    qed (simp add: w)
  qed simp
  then show ?thesis by (auto simp: blockForWorker_def Let_def)
qed

section \<open>Draining\<close>

definition drain_ok :: "drain_state \<Rightarrow> bool" where
  "drain_ok d \<longleftrightarrow> dr_inFlight d = int (dr_serving d) \<and> (dr_returned d \<longrightarrow> dr_draining d)"

lemma drain_ok_step: "drain_step d d' \<Longrightarrow> drain_ok d \<Longrightarrow> drain_ok d'"
  by (induction rule: drain_step.induct)
     (auto simp: drain_ok_def proxy_check_def proxy_enter_def proxy_leave_def drain_begin_def)

lemma drain_ok_reachable: "drain_step\<^sup>*\<^sup>* d d' \<Longrightarrow> drain_ok d \<Longrightarrow> drain_ok d'"
  by (induction rule: rtranclp_induct) (auto intro: drain_ok_step)

lemma drained_step:
  "drain_step d d' \<Longrightarrow> dr_draining d \<Longrightarrow> dr_draining d' \<and> dr_passed d' + dr_serving d' \<le> dr_passed d + dr_serving d"
  by (induction rule: drain_step.induct) (auto simp: proxy_check_def proxy_enter_def proxy_leave_def drain_begin_def)

text \<open>
  Draining admits nothing new. The counter is the number of requests being served; from the moment the
  flag is set, a new request is refused and the requests that are served or already past the
  check of the flag only become fewer.
\<close>

theorem draining_admits_nothing_new:
  assumes "drain_step\<^sup>*\<^sup>* idle_gateway d" "dr_draining d" "drain_step\<^sup>*\<^sup>* d d'"
  shows "dr_inFlight d' = int (dr_serving d') \<and> \<not> fst (proxy_check d') \<and>
    dr_passed d' + dr_serving d' \<le> dr_passed d + dr_serving d"
proof -
  have "drain_ok idle_gateway" by (simp add: drain_ok_def idle_gateway_def)
  then have "drain_ok d'" by (rule drain_ok_reachable [OF rtranclp_trans [OF assms(1,3)]])
  moreover from assms(3,2) have "dr_draining d' \<and> dr_passed d' + dr_serving d' \<le> dr_passed d + dr_serving d"
    by (induction rule: rtranclp_induct) (use drained_step le_trans in blast)+
  ultimately show ?thesis by (simp add: drain_ok_def proxy_check_def)
qed

text \<open>
  A clean drain can still be followed by a request. A request that has passed the check of the flag and
  has not yet added itself to the counter is invisible: the drain reports that no request is in
  flight, and the request is served after that.
\<close>

theorem drain_misses_passed_request:
  "\<exists>d. drain_step\<^sup>*\<^sup>* idle_gateway d \<and> dr_returned d \<and> dr_serving d = 1"
proof -
  let ?d = "\<lambda>dr i p s r. \<lparr>dr_draining = dr, dr_inFlight = i, dr_passed = p, dr_serving = s, dr_returned = r\<rparr>"
  have "drain_step idle_gateway (?d False 0 1 0 False)"
    using drain_step.check [of idle_gateway] by (simp add: proxy_check_def idle_gateway_def)
  moreover have "drain_step (?d False 0 1 0 False) (?d True 0 1 0 False)"
    using drain_step.begin_drain [of "?d False 0 1 0 False"] by (simp add: drain_begin_def)
  moreover have "drain_step (?d True 0 1 0 False) (?d True 0 1 0 True)"
    using drain_step.observe [of "?d True 0 1 0 False"] by simp
  moreover have "drain_step (?d True 0 1 0 True) (?d True 1 0 1 True)"
    using drain_step.enter [of "?d True 0 1 0 True"] by (simp add: proxy_enter_def)
  ultimately have "drain_step\<^sup>*\<^sup>* idle_gateway (?d True 1 0 1 True)"
    by (meson rtranclp.rtrancl_into_rtrancl rtranclp.rtrancl_refl)
  then show ?thesis by (intro exI [of _ "?d True 1 0 1 True"]) simp
qed

lemma drain_loop_zero: "drain_loop deadline ps final = 0 \<Longrightarrow> final = 0 \<or> (\<exists>t. (t, 0) \<in> set ps \<and> t < deadline)"
  by (induction deadline ps final rule: drain_loop.induct) (auto split: if_splits)

section \<open>Concrete waits\<close>

theorem queue_is_bounded_witness:
  "int (q_waiting (snd (queue_enter 1 empty_queue))) \<le> 1"
  using queue_is_bounded [OF r_into_rtranclp [of "queue_step 1", OF queue_step.enter]] by simp

theorem waiting_is_honest_witness:
  "blockForWorker (live_fleet False) 1 ''m'' (float64_of_int 0) 9 [(2, True, [WindowOver]), (10, True, [])] = Some (Inl ErrNoWorkerAvailable) \<and>
   (\<exists>t entered es. (t, entered, es) \<in> set [(2 :: gotime, True, [WindowOver]), (10, True, [])] \<and> 9 \<le> t)"
proof -
  have m: "minMiningRecovery 1 (ListWorkers (live_fleet False)) ''m'' = 0"
    by (simp add: live_fleet_list minMiningRecovery_def recovery_step_def live_worker_props)
  then have b: "blockForWorker (live_fleet False) 1 ''m'' (float64_of_int 0) 9 [(2, True, [WindowOver]), (10, True, [])]
      = Some (Inl ErrNoWorkerAvailable)" by (simp add: blockForWorker_def waitForWorker_def)
  from waiting_is_honest [OF b] m b show ?thesis by simp
qed

theorem waiting_terminates_witness:
  "\<exists>res. blockForWorker (live_fleet False) 1 ''m'' (float64_of_int 0) 9 [(2, True, [WindowOver]), (10, True, [CtxDone])] = Some res"
  by (rule waiting_terminates [where queueTimeout = 8]) (auto simp: waitForWorker_def nth_Cons split: nat.splits)

theorem draining_admits_nothing_new_witness:
  "\<not> fst (proxy_check (drain_begin idle_gateway))"
  using draining_admits_nothing_new [OF r_into_rtranclp [of drain_step, OF drain_step.begin_drain] _ rtranclp.rtrancl_refl]
  by (simp add: drain_begin_def)

end
