(* ===== verification/SseStream.thy ===== *)
theory SseStream
  imports Body
begin

text \<open>
  The response writer of streamed answers (\<open>sseCaptureWriter\<close> of \<open>gateway/gateway.go\<close>): metering of
  delivered tokens, the usage and error events, and the filter that holds back the end of a stream so
  that an interrupted stream can be continued on another worker. \<open>decode\<close> is the JSON decoder,
  \<open>None\<close> for bytes it rejects. \<open>ss_out\<close> is what the client has been sent.
\<close>

type_synonym decoder = "string \<Rightarrow> body"

abbreviation newline :: char where "newline \<equiv> CHR 0x0A"

definition quoted :: "string \<Rightarrow> string" where
  "quoted s = [CHR 0x22] @ s @ [CHR 0x22]"

record sse =
  ss_status :: int
  ss_wroteHeader :: bool
  ss_usage :: tokenUsage
  ss_streamError :: string
  ss_delivered :: int
  ss_capture :: "string option"
  ss_captureCap :: nat
  ss_filter :: bool
  ss_headerSent :: bool
  ss_pend :: string
  ss_heldError :: string
  ss_heldDone :: bool
  ss_lastSuppressed :: bool
  ss_content :: string
  ss_contentCap :: nat
  ss_overflow :: bool
  ss_receipt :: "json option"
  ss_forwardReceipt :: bool
  ss_out :: string

definition resumeContentCap :: nat where "resumeContentCap = 262144"

section \<open>Events\<close>

text \<open>The text of each choice of a content delta; a value of another type makes the decoding fail.\<close>

definition delta_content :: "json \<Rightarrow> string option" where
  "delta_content c =
     (case c of
        JNull \<Rightarrow> Some ''''
      | JObj cs \<Rightarrow>
          (case struct_field cs ''delta'' of
             None \<Rightarrow> Some ''''
           | Some JNull \<Rightarrow> Some ''''
           | Some (JObj d) \<Rightarrow>
               (case struct_field d ''content'' of
                  None \<Rightarrow> Some ''''
                | Some JNull \<Rightarrow> Some ''''
                | Some (JStr s) \<Rightarrow> Some s
                | _ \<Rightarrow> None)
           | _ \<Rightarrow> None)
      | _ \<Rightarrow> None)"

definition delta_contents :: "body \<Rightarrow> string list option" where
  "delta_contents b =
     (case b of
        Some JNull \<Rightarrow> Some []
      | Some (JObj ms) \<Rightarrow>
          (case struct_field ms ''choices'' of
             None \<Rightarrow> Some []
           | Some JNull \<Rightarrow> Some []
           | Some (JArr xs) \<Rightarrow> those (List.map delta_content xs)
           | _ \<Rightarrow> None)
      | _ \<Rightarrow> None)"

definition receipt_event :: "body \<Rightarrow> json option" where
  "receipt_event b = (case b of Some (JObj ms) \<Rightarrow> struct_field ms ''om_receipt'' | _ \<Rightarrow> None)"

definition error_event :: "body \<Rightarrow> string option" where
  "error_event b =
     (case field b ''error'' of
        Some (JObj e) \<Rightarrow> (case alookup (members e) ''message'' of Some (JStr m) \<Rightarrow> Some m | _ \<Rightarrow> None)
      | _ \<Rightarrow> None)"

definition meter :: "string \<Rightarrow> sse \<Rightarrow> sse" where
  "meter c w =
     (if c = '''' then w
      else let w = w\<lparr>ss_delivered := ss_delivered w + 1\<rparr>
           in if ss_overflow w then w
              else if length (ss_content w) + length c > ss_contentCap w then w\<lparr>ss_overflow := True\<rparr>
              else w\<lparr>ss_content := ss_content w @ c\<rparr>)"

definition take_usage :: "body \<Rightarrow> sse \<Rightarrow> sse" where
  "take_usage b w = (if TotalTokens (extractUsage b) > 0 then w\<lparr>ss_usage := extractUsage b\<rparr> else w)"

definition forward :: "string \<Rightarrow> sse \<Rightarrow> sse" where
  "forward line w = w\<lparr>ss_lastSuppressed := False, ss_out := ss_out w @ line\<rparr>"

definition processData :: "decoder \<Rightarrow> string \<Rightarrow> string \<Rightarrow> sse \<Rightarrow> sse" where
  "processData decode payload line w =
     (let b = decode payload; w = take_usage b w
      in case (if Contains payload (quoted ''om_receipt'') then receipt_event b else None) of
           Some rc \<Rightarrow>
             if ss_forwardReceipt w then forward line (w\<lparr>ss_receipt := Some rc\<rparr>)
             else w\<lparr>ss_receipt := Some rc, ss_lastSuppressed := True\<rparr>
         | None \<Rightarrow>
             (case (if Contains payload (quoted ''error'') then error_event b else None) of
                Some msg \<Rightarrow>
                  w\<lparr>ss_streamError := (if ss_streamError w = '''' then msg else ss_streamError w),
                    ss_heldError := line, ss_lastSuppressed := True\<rparr>
              | None \<Rightarrow>
                  forward line (case delta_contents b of Some cs \<Rightarrow> fold meter cs w | None \<Rightarrow> w)))"

definition processLine :: "decoder \<Rightarrow> string \<Rightarrow> sse \<Rightarrow> sse" where
  "processLine decode line w =
     (let trim = TrimSpace line
      in if trim = ''''
         then if ss_lastSuppressed w then w\<lparr>ss_lastSuppressed := False\<rparr> else w\<lparr>ss_out := ss_out w @ line\<rparr>
         else if trim = ''data: [DONE]'' then w\<lparr>ss_heldDone := True, ss_lastSuppressed := True\<rparr>
         else if HasPrefix trim ''data: '' then processData decode (drop 6 trim) line w
         else forward line w)"

section \<open>Writing\<close>

function write_loop :: "decoder \<Rightarrow> string \<Rightarrow> sse \<Rightarrow> sse" where
  "write_loop decode data w =
     (if newline \<notin> set data then w\<lparr>ss_pend := data\<rparr>
      else let line = takeWhile (\<lambda>c. c \<noteq> newline) data @ [newline]
           in write_loop decode (drop (length line) data) (processLine decode line w))"
  by auto

termination
proof (relation "measure (\<lambda>(decode, data, w). length data)", goal_cases)
  case (2 decode data w x)
  then have "data \<noteq> []" by auto
  then show ?case using 2 by simp
qed simp

declare write_loop.simps [simp del]

definition capture :: "string \<Rightarrow> sse \<Rightarrow> sse" where
  "capture b w =
     (case ss_capture w of
        None \<Rightarrow> w
      | Some buf \<Rightarrow>
          if length buf < ss_captureCap w
          then let room = ss_captureCap w - length buf
               in w\<lparr>ss_capture := Some (buf @ (if room \<ge> length b then b else take room b))\<rparr>
          else w)"

fun Count :: "string \<Rightarrow> string \<Rightarrow> nat" where
  "Count sub [] = 0"
| "Count sub (c # s) =
     (if HasPrefix (c # s) sub then Suc (Count sub (drop (length sub - 1) s)) else Count sub s)"

definition countContentDeltas :: "string \<Rightarrow> int" where
  "countContentDeltas b =
     (let m = quoted ''content'' @ '':'' @ [CHR 0x22]; ms = quoted ''content'' @ '': '' @ [CHR 0x22]
      in int (Count m b) - int (Count (m @ [CHR 0x22]) b) + int (Count ms b) - int (Count (ms @ [CHR 0x22]) b))"

fun split_lines :: "string \<Rightarrow> string list" where
  "split_lines [] = [[]]"
| "split_lines (c # s) =
     (if c = newline then [] # split_lines s
      else case split_lines s of l # ls \<Rightarrow> (c # l) # ls | [] \<Rightarrow> [[c]])"

definition scan_line :: "decoder \<Rightarrow> string \<Rightarrow> sse \<Rightarrow> sse" where
  "scan_line decode line w =
     (let line = TrimSpace line
      in if \<not> HasPrefix line ''data: '' \<or> line = ''data: [DONE]'' then w
         else let payload = drop 6 line; b = decode payload; w = take_usage b w
              in if ss_streamError w = '''' \<and> Contains payload (quoted ''error'')
                 then (case error_event b of Some msg \<Rightarrow> w\<lparr>ss_streamError := msg\<rparr> | None \<Rightarrow> w)
                 else w)"

definition Write :: "decoder \<Rightarrow> string \<Rightarrow> sse \<Rightarrow> sse" where
  "Write decode b w =
     (let w = capture b (w\<lparr>ss_wroteHeader := True\<rparr>)
      in if ss_filter w then write_loop decode (ss_pend w @ b) (w\<lparr>ss_pend := ''''\<rparr>)
         else let n = countContentDeltas b;
                  w = (if n > 0 then w\<lparr>ss_delivered := ss_delivered w + n\<rparr> else w);
                  w = (if Contains b (quoted ''usage'') \<or> Contains b (quoted ''error'')
                       then fold (scan_line decode) (split_lines b) w else w)
              in w\<lparr>ss_out := ss_out w @ b\<rparr>)"

definition WriteHeader :: "int \<Rightarrow> sse \<Rightarrow> sse" where
  "WriteHeader code w = w\<lparr>ss_status := code, ss_wroteHeader := True\<rparr>"

definition done_line :: string where "done_line = ''data: [DONE]'' @ [newline, newline]"

definition pending_tail :: "sse \<Rightarrow> string" where
  "pending_tail w = (if ss_pend w \<noteq> '''' then ss_pend w @ [newline] else '''')"

definition flushHeld :: "sse \<Rightarrow> sse" where
  "flushHeld w =
     (if \<not> ss_filter w then w
      else w\<lparr>ss_out := ss_out w @ pending_tail w @
               (if ss_heldError w \<noteq> '''' then ss_heldError w @ [newline] else '''') @ done_line,
             ss_pend := '''', ss_heldError := ''''\<rparr>)"

definition finishClean :: "sse \<Rightarrow> sse" where
  "finishClean w =
     (if \<not> ss_filter w then w
      else w\<lparr>ss_out := ss_out w @ pending_tail w @ done_line, ss_pend := ''''\<rparr>)"

definition sseCapBody :: "sse \<Rightarrow> string" where
  "sseCapBody w = (case ss_capture w of None \<Rightarrow> '''' | Some b \<Rightarrow> b)"

section \<open>Byte by byte\<close>

text \<open>A filtering writer as a machine over bytes: a line is processed when its newline arrives.\<close>

definition feed :: "decoder \<Rightarrow> char \<Rightarrow> sse \<Rightarrow> sse" where
  "feed decode c w =
     (if c = newline then processLine decode (ss_pend w @ [newline]) (w\<lparr>ss_pend := ''''\<rparr>)
      else w\<lparr>ss_pend := ss_pend w @ [c]\<rparr>)"

lemma feed_newline: "feed decode newline w = processLine decode (ss_pend w @ [newline]) (w\<lparr>ss_pend := ''''\<rparr>)"
  by (simp add: feed_def)

lemma feed_other: "c \<noteq> newline \<Longrightarrow> feed decode c w = w\<lparr>ss_pend := ss_pend w @ [c]\<rparr>"
  by (simp add: feed_def)

lemma meter_frame [simp]:
  "ss_pend (meter c w) = ss_pend w" "ss_filter (meter c w) = ss_filter w" "ss_out (meter c w) = ss_out w"
  "ss_forwardReceipt (meter c w) = ss_forwardReceipt w" "ss_captureCap (meter c w) = ss_captureCap w"
  by (simp_all add: meter_def Let_def)

lemma meters_frame [simp]:
  "ss_pend (fold meter cs w) = ss_pend w" "ss_filter (fold meter cs w) = ss_filter w" "ss_out (fold meter cs w) = ss_out w"
  "ss_forwardReceipt (fold meter cs w) = ss_forwardReceipt w" "ss_captureCap (fold meter cs w) = ss_captureCap w"
  by (induction cs arbitrary: w) simp_all

lemma take_usage_frame [simp]:
  "ss_pend (take_usage b w) = ss_pend w" "ss_filter (take_usage b w) = ss_filter w" "ss_out (take_usage b w) = ss_out w"
  "ss_forwardReceipt (take_usage b w) = ss_forwardReceipt w" "ss_delivered (take_usage b w) = ss_delivered w"
  "ss_captureCap (take_usage b w) = ss_captureCap w" "ss_content (take_usage b w) = ss_content w" "ss_overflow (take_usage b w) = ss_overflow w" "ss_streamError (take_usage b w) = ss_streamError w"
  by (simp_all add: take_usage_def)

lemma forward_frame [simp]:
  "ss_pend (forward l w) = ss_pend w" "ss_filter (forward l w) = ss_filter w" "ss_out (forward l w) = ss_out w @ l"
  "ss_forwardReceipt (forward l w) = ss_forwardReceipt w" "ss_delivered (forward l w) = ss_delivered w"
  "ss_captureCap (forward l w) = ss_captureCap w" "ss_content (forward l w) = ss_content w" "ss_overflow (forward l w) = ss_overflow w"
  by (simp_all add: forward_def)

lemma processLine_frame [simp]:
  "ss_pend (processLine decode l w) = ss_pend w" "ss_filter (processLine decode l w) = ss_filter w"
  "ss_forwardReceipt (processLine decode l w) = ss_forwardReceipt w" "ss_captureCap (processLine decode l w) = ss_captureCap w"
  by (simp_all add: processLine_def processData_def Let_def split: option.split)

lemma write_loop_feed:
  "newline \<notin> set p \<Longrightarrow> write_loop decode (p @ b) (w\<lparr>ss_pend := ''''\<rparr>) = fold (feed decode) b (w\<lparr>ss_pend := p\<rparr>)"
proof (induction b arbitrary: p w)
  case Nil
  then show ?case by (simp add: write_loop.simps)
next
  case (Cons c b)
  show ?case
  proof (cases "c = newline")
    case True
    have t: "takeWhile (\<lambda>c. c \<noteq> newline) (p @ newline # b) = p" using Cons.prems by (subst takeWhile_append2) auto
    let ?w = "processLine decode (p @ [newline]) (w\<lparr>ss_pend := ''''\<rparr>)"
    have p0: "?w\<lparr>ss_pend := ''''\<rparr> = ?w" by simp
    have "write_loop decode (p @ c # b) (w\<lparr>ss_pend := ''''\<rparr>) = write_loop decode ([] @ b) (?w\<lparr>ss_pend := ''''\<rparr>)"
      unfolding p0 by (subst write_loop.simps) (simp add: True t Let_def)
    also have "\<dots> = fold (feed decode) b (?w\<lparr>ss_pend := ''''\<rparr>)" by (rule Cons.IH) simp
    finally show ?thesis by (simp add: p0 feed_newline True)
  next
    case False
    have "write_loop decode ((p @ [c]) @ b) (w\<lparr>ss_pend := ''''\<rparr>) = fold (feed decode) b (w\<lparr>ss_pend := p @ [c]\<rparr>)"
      using Cons.prems False by (intro Cons.IH) simp
    then show ?thesis using False by (simp add: feed_other)
  qed
qed

definition writer_ok :: "sse \<Rightarrow> bool" where
  "writer_ok w \<longleftrightarrow> ss_filter w \<and> newline \<notin> set (ss_pend w)"

lemma feed_ok: "writer_ok w \<Longrightarrow> writer_ok (feed decode c w)"
  by (simp add: writer_ok_def feed_def)

lemma feeds_ok: "writer_ok w \<Longrightarrow> writer_ok (fold (feed decode) b w)"
  by (induction b arbitrary: w) (simp_all add: feed_ok)

text \<open>Capturing for the samples and the header flag do not interfere with the filter.\<close>

definition tag :: "string option \<Rightarrow> bool \<Rightarrow> sse \<Rightarrow> sse" where
  "tag x h w = w\<lparr>ss_capture := x, ss_wroteHeader := h\<rparr>"

lemma tag_commutes:
  "meter c (tag x h w) = tag x h (meter c w)" "take_usage b (tag x h w) = tag x h (take_usage b w)"
  "forward l (tag x h w) = tag x h (forward l w)"
  by (simp_all add: tag_def meter_def take_usage_def forward_def Let_def)

lemma tag_meters: "fold meter cs (tag x h w) = tag x h (fold meter cs w)"
  by (induction cs arbitrary: w) (simp_all add: tag_commutes)

lemma tag_sel [simp]:
  "ss_lastSuppressed (tag x h w) = ss_lastSuppressed w" "ss_forwardReceipt (tag x h w) = ss_forwardReceipt w"
  "ss_streamError (tag x h w) = ss_streamError w" "ss_pend (tag x h w) = ss_pend w" "ss_out (tag x h w) = ss_out w"
  "ss_filter (tag x h w) = ss_filter w" "ss_captureCap (tag x h w) = ss_captureCap w" "ss_capture (tag x h w) = x"
  "ss_wroteHeader (tag x h w) = h" "tag x h (tag y k w) = tag x h w"
  by (simp_all add: tag_def)

lemma tag_upd:
  "(tag x h w)\<lparr>ss_lastSuppressed := a\<rparr> = tag x h (w\<lparr>ss_lastSuppressed := a\<rparr>)"
  "(tag x h w)\<lparr>ss_out := o'\<rparr> = tag x h (w\<lparr>ss_out := o'\<rparr>)"
  "(tag x h w)\<lparr>ss_pend := p\<rparr> = tag x h (w\<lparr>ss_pend := p\<rparr>)"
  "(tag x h w)\<lparr>ss_heldDone := d, ss_lastSuppressed := a\<rparr> = tag x h (w\<lparr>ss_heldDone := d, ss_lastSuppressed := a\<rparr>)"
  "(tag x h w)\<lparr>ss_receipt := r\<rparr> = tag x h (w\<lparr>ss_receipt := r\<rparr>)"
  "(tag x h w)\<lparr>ss_receipt := r, ss_lastSuppressed := a\<rparr> = tag x h (w\<lparr>ss_receipt := r, ss_lastSuppressed := a\<rparr>)"
  "(tag x h w)\<lparr>ss_streamError := e, ss_heldError := l, ss_lastSuppressed := a\<rparr>
     = tag x h (w\<lparr>ss_streamError := e, ss_heldError := l, ss_lastSuppressed := a\<rparr>)"
  by (simp_all add: tag_def)

lemma processData_tag: "processData decode payload l (tag x h w) = tag x h (processData decode payload l w)"
proof (cases "if Contains payload (quoted ''om_receipt'') then receipt_event (decode payload) else None")
  case None
  show ?thesis
  proof (cases "if Contains payload (quoted ''error'') then error_event (decode payload) else None")
    case n: None
    show ?thesis unfolding processData_def Let_def None n option.case
      by (cases "delta_contents (decode payload)") (simp_all only: option.case tag_commutes tag_meters)
  next
    case (Some m)
    show ?thesis unfolding processData_def Let_def None Some option.case by (simp only: tag_commutes tag_sel tag_upd)
  qed
next
  case (Some rc)
  show ?thesis unfolding processData_def Let_def Some option.case
    by (cases "ss_forwardReceipt (take_usage (decode payload) w)") (simp_all only: if_True if_False tag_commutes tag_sel tag_upd simp_thms)
qed

lemma processLine_tag: "processLine decode l (tag x h w) = tag x h (processLine decode l w)"
  unfolding processLine_def Let_def tag_sel
  by (cases "ss_lastSuppressed w") (simp_all only: if_True if_False if_distrib [of "tag x h"] processData_tag tag_commutes tag_upd)

lemma feed_tag: "feed decode c (tag x h w) = tag x h (feed decode c w)"
  by (simp add: feed_def tag_upd processLine_tag)

lemma feeds_tag: "fold (feed decode) b (tag x h w) = tag x h (fold (feed decode) b w)"
  by (induction b arbitrary: w) (simp_all add: feed_tag)

lemma feed_cap: "ss_captureCap (feed decode c w) = ss_captureCap w"
  by (simp add: feed_def)

lemma feeds_cap: "ss_captureCap (fold (feed decode) b w) = ss_captureCap w"
  by (induction b arbitrary: w) (simp_all add: feed_cap)

text \<open>What the samples keep: a prefix of everything written.\<close>

definition captured :: "string \<Rightarrow> sse \<Rightarrow> string option" where
  "captured b w = map_option (\<lambda>buf. take (ss_captureCap w) (buf @ b)) (ss_capture w)"

lemma capture_tag:
  assumes "\<And>buf. ss_capture w = Some buf \<Longrightarrow> length buf \<le> ss_captureCap w"
  shows "capture b w = tag (captured b w) (ss_wroteHeader w) w"
  using assms by (cases "ss_capture w") (auto simp: capture_def captured_def tag_def Let_def)

lemma take_take_append: "take n (take n x @ y) = take n (x @ y)"
  by (cases "n \<le> length x") simp_all

lemma Write_filter:
  assumes "writer_ok w" "\<And>buf. ss_capture w = Some buf \<Longrightarrow> length buf \<le> ss_captureCap w"
  shows "Write decode b w = tag (captured b w) True (fold (feed decode) b w)"
proof -
  let ?w = "w\<lparr>ss_wroteHeader := True\<rparr>"
  have c: "capture b ?w = tag (captured b w) True w"
    using capture_tag [of ?w b] assms(2) by (simp add: captured_def tag_def)
  have "write_loop decode (ss_pend w @ b) (tag (captured b w) True w\<lparr>ss_pend := ''''\<rparr>)
      = fold (feed decode) b ((tag (captured b w) True w)\<lparr>ss_pend := ss_pend w\<rparr>)"
    using assms(1) by (intro write_loop_feed) (simp add: writer_ok_def)
  also have "(tag (captured b w) True w)\<lparr>ss_pend := ss_pend w\<rparr> = tag (captured b w) True w" by (simp add: tag_def)
  finally show ?thesis using assms(1) by (simp add: Write_def c writer_ok_def feeds_tag)
qed

text \<open>
  C13: The filter does not depend on how the bytes arrive. In filter mode (with stream resumption on), with no complete line kept back and a captured sample within its bound, writing a worker's answer
  in any pieces, at least one, leaves the
  same output, the same metered tokens, usage, held events, continuation text and captured sample
  as writing it at once. In pass-through mode this fails (\<open>split_delta_is_not_metered\<close>).
\<close>

theorem filter_ignores_chunking:
  assumes "ss_filter w" "newline \<notin> set (ss_pend w)" "\<And>buf. ss_capture w = Some buf \<Longrightarrow> length buf \<le> ss_captureCap w"
    and "chunks \<noteq> []"
  shows "fold (Write decode) chunks w = Write decode (concat chunks) w"
  using assms
proof (induction chunks arbitrary: w)
  case (Cons b chunks)
  have ok: "writer_ok w" using Cons.prems by (simp add: writer_ok_def)
  let ?w = "Write decode b w"
  have e: "?w = tag (captured b w) True (fold (feed decode) b w)" by (rule Write_filter [OF ok Cons.prems(3)])
  have ok': "writer_ok ?w" using feeds_ok [OF ok] by (simp add: e writer_ok_def)
  have len: "length buf \<le> ss_captureCap ?w" if "ss_capture ?w = Some buf" for buf
    using that by (auto simp: e captured_def feeds_cap)
  have join: "Write decode (concat chunks) ?w = Write decode (b @ concat chunks) w"
  proof -
    have c: "captured (concat chunks) ?w = captured (b @ concat chunks) w"
      by (cases "ss_capture w") (simp_all add: captured_def e feeds_cap take_take_append del: take_append)
    have "Write decode (concat chunks) ?w = tag (captured (concat chunks) ?w) True (fold (feed decode) (concat chunks) ?w)"
      by (rule Write_filter [OF ok' len])
    also have "\<dots> = tag (captured (b @ concat chunks) w) True (fold (feed decode) (b @ concat chunks) w)"
      unfolding c by (simp add: e feeds_tag)
    also have "\<dots> = Write decode (b @ concat chunks) w"
      by (rule Write_filter [OF ok Cons.prems(3), symmetric])
    finally show ?thesis .
  qed
  show ?case
  proof (cases "chunks = []")
    case False
    have "fold (Write decode) chunks ?w = Write decode (concat chunks) ?w"
      using ok' len False by (intro Cons.IH) (auto simp: writer_ok_def)
    then show ?thesis using join by simp
  qed simp
qed simp

section \<open>What the client got\<close>

text \<open>
  A reference for the filter, over the worker's bytes instead of the writer's state. The complete
  lines of a text, and what is left behind the last of them.
\<close>

definition lines_of :: "string \<Rightarrow> string list" where
  "lines_of s = List.map (\<lambda>l. l @ [newline]) (butlast (split_lines s))"

definition unfinished :: "string \<Rightarrow> string" where
  "unfinished s = List.last (split_lines s)"

text \<open>
  The member of an object, absent when it is null, and the text deltas a chunk carries: one for each choice with
  a text that is not empty, none at all if a value has another type than the format says.
\<close>

definition member :: "string \<Rightarrow> json option \<Rightarrow> json option" where
  "member k j =
     (case j of
        Some (JObj ms) \<Rightarrow> (case struct_field ms k of Some JNull \<Rightarrow> None | v \<Rightarrow> v)
      | _ \<Rightarrow> None)"

definition is_object :: "json \<Rightarrow> bool" where
  "is_object j = (case j of JObj ms \<Rightarrow> True | JNull \<Rightarrow> True | _ \<Rightarrow> False)"

definition choice_typed :: "json \<Rightarrow> bool" where
  "choice_typed c \<longleftrightarrow> is_object c \<and>
     (case member ''delta'' (Some c) of None \<Rightarrow> True | Some d \<Rightarrow> is_object d) \<and>
     (case member ''content'' (member ''delta'' (Some c)) of None \<Rightarrow> True | Some (JStr s) \<Rightarrow> True | _ \<Rightarrow> False)"

definition choice_text :: "json \<Rightarrow> string" where
  "choice_text c = (case member ''content'' (member ''delta'' (Some c)) of Some (JStr s) \<Rightarrow> s | _ \<Rightarrow> '''')"

definition chunk_texts :: "body \<Rightarrow> string list" where
  "chunk_texts b =
     (case member ''choices'' b of
        Some (JArr cs) \<Rightarrow> if list_all choice_typed cs then filter (\<lambda>t. t \<noteq> '''') (List.map choice_text cs) else []
      | _ \<Rightarrow> [])"

text \<open>
  A line by its kind: data with a payload, an event of the worker's receipt, the end marker or an error event. The
  texts of a line are those of its chunk; a receipt event carries none.
\<close>

definition payload_of :: "string \<Rightarrow> string option" where
  "payload_of line = (if HasPrefix (TrimSpace line) ''data: '' then Some (drop 6 (TrimSpace line)) else None)"

definition receipt_line :: "decoder \<Rightarrow> string \<Rightarrow> bool" where
  "receipt_line decode line \<longleftrightarrow>
     (case payload_of line of
        None \<Rightarrow> False
      | Some p \<Rightarrow> TrimSpace line \<noteq> ''data: [DONE]'' \<and> Contains p (quoted ''om_receipt'') \<and> receipt_event (decode p) \<noteq> None)"

definition held_line :: "decoder \<Rightarrow> string \<Rightarrow> bool" where
  "held_line decode line \<longleftrightarrow>
     TrimSpace line = ''data: [DONE]'' \<or>
     (case payload_of line of
        None \<Rightarrow> False
      | Some p \<Rightarrow> \<not> receipt_line decode line \<and> Contains p (quoted ''error'') \<and> error_event (decode p) \<noteq> None)"

definition texts :: "decoder \<Rightarrow> string \<Rightarrow> string list" where
  "texts decode line =
     (case payload_of line of
        None \<Rightarrow> []
      | Some p \<Rightarrow> if receipt_line decode line then [] else chunk_texts (decode p))"

text \<open>
  The lines the client is to get: all but those held back, the receipt events unless the client asked for them
  (\<open>fwd\<close>), and the blank line behind a line that was left out (\<open>gap\<close>: the line before was).
\<close>

definition left_out :: "bool \<Rightarrow> decoder \<Rightarrow> string \<Rightarrow> bool" where
  "left_out fwd decode line \<longleftrightarrow> held_line decode line \<or> (\<not> fwd \<and> receipt_line decode line)"

fun kept_lines :: "bool \<Rightarrow> decoder \<Rightarrow> bool \<Rightarrow> string list \<Rightarrow> string list" where
  "kept_lines fwd decode gap [] = []"
| "kept_lines fwd decode gap (l # ls) =
     (if left_out fwd decode l \<or> (gap \<and> TrimSpace l = '''') then [] else [l]) @ kept_lines fwd decode (left_out fwd decode l) ls"

abbreviation all_texts :: "decoder \<Rightarrow> string list \<Rightarrow> string list" where
  "all_texts decode ls \<equiv> concat (List.map (texts decode) ls)"

lemma split_lines_cons: "split_lines s = takeWhile (\<lambda>c. c \<noteq> newline) s #
    (if newline \<in> set s then split_lines (drop (Suc (length (takeWhile (\<lambda>c. c \<noteq> newline) s))) s) else [])"
  by (induction s) (auto split: list.split)

lemma lines_unfold:
  "lines_of s = (if newline \<in> set s then (takeWhile (\<lambda>c. c \<noteq> newline) s @ [newline]) #
      lines_of (drop (Suc (length (takeWhile (\<lambda>c. c \<noteq> newline) s))) s) else [])"
  "unfinished s = (if newline \<in> set s then unfinished (drop (Suc (length (takeWhile (\<lambda>c. c \<noteq> newline) s))) s) else s)"
proof -
  have ne: "split_lines t \<noteq> []" for t by (subst split_lines_cons) simp
  have tw: "takeWhile (\<lambda>c. c \<noteq> newline) s = s" if "newline \<notin> set s"
    using that by (intro takeWhile_eq_all_conv [THEN iffD2]) blast
  show "lines_of s = (if newline \<in> set s then (takeWhile (\<lambda>c. c \<noteq> newline) s @ [newline]) #
      lines_of (drop (Suc (length (takeWhile (\<lambda>c. c \<noteq> newline) s))) s) else [])"
    unfolding lines_of_def by (subst split_lines_cons) (simp add: ne)
  show "unfinished s = (if newline \<in> set s then unfinished (drop (Suc (length (takeWhile (\<lambda>c. c \<noteq> newline) s))) s) else s)"
    unfolding unfinished_def by (subst split_lines_cons) (simp add: ne tw)
qed

lemma chunk_texts_code:
  "chunk_texts b = (case delta_contents b of Some cs \<Rightarrow> filter (\<lambda>c. c \<noteq> '''') cs | None \<Rightarrow> [])"
proof -
  have c: "delta_content c = (if choice_typed c then Some (choice_text c) else None)" for c
    by (auto simp: delta_content_def choice_typed_def choice_text_def member_def is_object_def split: json.split option.split)
  have th: "those (List.map delta_content cs) = (if list_all choice_typed cs then Some (List.map choice_text cs) else None)" for cs
    by (induction cs) (simp_all add: c)
  show ?thesis
    by (auto simp: chunk_texts_def delta_contents_def member_def th split: json.split option.split)
qed

definition accounted :: "decoder \<Rightarrow> string list \<Rightarrow> sse \<Rightarrow> sse \<Rightarrow> bool" where
  "accounted decode ls w w' \<longleftrightarrow>
     (let ks = kept_lines (ss_forwardReceipt w) decode (ss_lastSuppressed w) ls; ts = all_texts decode ks
      in ss_out w' = ss_out w @ concat ks \<and> ss_delivered w' = ss_delivered w + int (length ts) \<and>
         ss_lastSuppressed w' = (if ls = [] then ss_lastSuppressed w else left_out (ss_forwardReceipt w) decode (List.last ls)) \<and>
         ss_forwardReceipt w' = ss_forwardReceipt w \<and> ss_contentCap w' = ss_contentCap w \<and>
         (\<not> ss_overflow w' \<longrightarrow> ss_content w' = ss_content w @ concat ts) \<and>
         (length (ss_content w) \<le> ss_contentCap w \<longrightarrow> length (ss_content w') \<le> ss_contentCap w \<and>
            (ss_overflow w' \<longleftrightarrow> ss_overflow w \<or> ss_contentCap w < length (ss_content w @ concat ts))))"

lemma kept_lines_append: "kept_lines fwd decode gap (ls @ ks) =
    kept_lines fwd decode gap ls @ kept_lines fwd decode (if ls = [] then gap else left_out fwd decode (List.last ls)) ks"
  by (induction ls arbitrary: gap) auto

lemma accounted_refl: "accounted decode [] w w"
  by (simp add: accounted_def)

lemma accounted_trans:
  assumes "accounted decode ls w w'" "accounted decode ks w' w''" "length (ss_content w) \<le> ss_contentCap w"
  shows "accounted decode (ls @ ks) w w''"
proof -
  let ?gap = "if ls = [] then ss_lastSuppressed w else left_out (ss_forwardReceipt w) decode (List.last ls)"
  let ?t1 = "concat (all_texts decode (kept_lines (ss_forwardReceipt w) decode (ss_lastSuppressed w) ls))"
    and ?t2 = "concat (all_texts decode (kept_lines (ss_forwardReceipt w) decode ?gap ks))"
  have a: "ss_overflow w' \<longleftrightarrow> ss_overflow w \<or> ss_contentCap w < length (ss_content w @ ?t1)"
    "\<not> ss_overflow w' \<Longrightarrow> ss_content w' = ss_content w @ ?t1" "length (ss_content w') \<le> ss_contentCap w"
    "ss_forwardReceipt w' = ss_forwardReceipt w" "ss_contentCap w' = ss_contentCap w" "ss_lastSuppressed w' = ?gap"
    using assms(1,3) by (simp_all add: accounted_def Let_def)
  have b: "ss_overflow w'' \<longleftrightarrow> ss_overflow w' \<or> ss_contentCap w < length (ss_content w' @ ?t2)"
    "\<not> ss_overflow w'' \<Longrightarrow> ss_content w'' = ss_content w' @ ?t2" "length (ss_content w'') \<le> ss_contentCap w"
    using assms(2) a by (simp_all add: accounted_def Let_def)
  have "ss_overflow w'' \<longleftrightarrow> ss_overflow w \<or> ss_contentCap w < length (ss_content w @ ?t1 @ ?t2)"
    "\<not> ss_overflow w'' \<Longrightarrow> ss_content w'' = ss_content w @ ?t1 @ ?t2"
    using a(1,2) b(1,2) by auto
  then show ?thesis
    using assms(1,2) b(3) by (simp add: accounted_def Let_def kept_lines_append)
qed

lemma meters_account:
  "ss_delivered (fold meter cs w) = ss_delivered w + int (length (filter (\<lambda>c. c \<noteq> '''') cs))"
  "ss_contentCap (fold meter cs w) = ss_contentCap w" "ss_lastSuppressed (fold meter cs w) = ss_lastSuppressed w"
  "\<not> ss_overflow (fold meter cs w) \<Longrightarrow> ss_content (fold meter cs w) = ss_content w @ concat cs"
  "length (ss_content w) \<le> ss_contentCap w \<Longrightarrow> length (ss_content (fold meter cs w)) \<le> ss_contentCap w \<and>
     (ss_overflow (fold meter cs w) \<longleftrightarrow> ss_overflow w \<or> ss_contentCap w < length (ss_content w @ concat cs))"
proof (induction cs arbitrary: w)
  case (Cons c cs)
  have over: "ss_overflow v \<Longrightarrow> ss_overflow (fold meter cs v)" for v cs
    by (induction cs arbitrary: v) (simp_all add: meter_def Let_def)
  have cap: "ss_contentCap (meter c v) = ss_contentCap v" for v by (simp add: meter_def Let_def)
  { case 1 then show ?case using Cons.IH(1) [of "meter c w"] by (simp add: meter_def Let_def)
  next
    case 2 then show ?case using Cons.IH(2) [of "meter c w"] by (simp add: meter_def Let_def)
  next
    case 3 then show ?case using Cons.IH(3) [of "meter c w"] by (simp add: meter_def Let_def)
  next
    case 4
    then have n: "\<not> ss_overflow (meter c w)" using over [of "meter c w" cs] by auto
    have "ss_content (meter c w) = ss_content w @ c" using n by (auto simp: meter_def Let_def split: if_splits)
    then show ?case using Cons.IH(4) [of "meter c w"] 4 by simp
  next
    case 5
    have m: "length (ss_content (meter c w)) \<le> ss_contentCap (meter c w)" using 5 by (simp add: meter_def Let_def)
    have o1: "ss_overflow (meter c w) \<longleftrightarrow> ss_overflow w \<or> ss_contentCap w < length (ss_content w @ c)"
      using 5 by (auto simp: meter_def Let_def)
    have c1: "\<not> ss_overflow (meter c w) \<Longrightarrow> ss_content (meter c w) = ss_content w @ c"
      by (auto simp: meter_def Let_def split: if_splits)
    have ih: "length (ss_content (fold meter cs (meter c w))) \<le> ss_contentCap w \<and>
        (ss_overflow (fold meter cs (meter c w)) \<longleftrightarrow> ss_overflow (meter c w) \<or> ss_contentCap w < length (ss_content (meter c w) @ concat cs))"
      using Cons.IH(5) [of "meter c w"] m by (simp add: cap)
    then show ?case using o1 c1 by auto
  }
qed simp_all

lemma concat_filter_nonempty: "concat (filter (\<lambda>c. c \<noteq> '''') cs) = concat cs"
  by (induction cs) auto

lemma take_usage_more [simp]:
  "ss_contentCap (take_usage b w) = ss_contentCap w" "ss_lastSuppressed (take_usage b w) = ss_lastSuppressed w"
  "ss_contentCap (forward l w) = ss_contentCap w" "ss_lastSuppressed (forward l w) = False"
  by (simp_all add: take_usage_def forward_def)

lemma processData_accounted:
  assumes "payload_of line = Some p" "TrimSpace line \<noteq> ''data: [DONE]''"
  shows "accounted decode [line] w (processData decode p line w)"
proof -
  have ne: "TrimSpace line \<noteq> ''''" using assms(1) by (auto simp: payload_of_def HasPrefix_def split: if_splits)
  show ?thesis
  proof (cases "receipt_line decode line")
    case True
    then have c: "Contains p (quoted ''om_receipt'')" using assms by (simp add: receipt_line_def)
    obtain rc where rc: "receipt_event (decode p) = Some rc" using True assms by (auto simp: receipt_line_def)
    have nh: "\<not> held_line decode line" "texts decode line = []" using True assms by (simp_all add: held_line_def texts_def)
    have "processData decode p line w = (if ss_forwardReceipt w then forward line (take_usage (decode p) w\<lparr>ss_receipt := Some rc\<rparr>)
        else take_usage (decode p) w\<lparr>ss_receipt := Some rc, ss_lastSuppressed := True\<rparr>)"
      using c rc by (simp add: processData_def Let_def)
    then show ?thesis using True nh ne by (simp add: accounted_def left_out_def)
  next
    case nr: False
    then have rn: "(if Contains p (quoted ''om_receipt'') then receipt_event (decode p) else None) = None"
      using assms by (auto simp: receipt_line_def)
    show ?thesis
    proof (cases "held_line decode line")
      case True
      then have c: "Contains p (quoted ''error'')" using assms by (simp add: held_line_def)
      obtain m where "error_event (decode p) = Some m" using True assms by (auto simp: held_line_def)
      then show ?thesis using True c by (simp add: processData_def Let_def rn accounted_def left_out_def)
    next
      case nh: False
      then have en: "(if Contains p (quoted ''error'') then error_event (decode p) else None) = None"
        using assms nr by (auto simp: held_line_def)
      let ?u = "take_usage (decode p) w"
      have w: "processData decode p line w = forward line (case delta_contents (decode p) of Some cs \<Rightarrow> fold meter cs ?u | None \<Rightarrow> ?u)"
        by (simp add: processData_def Let_def rn en)
      have lo: "\<not> left_out fwd decode line" for fwd using nr nh by (simp add: left_out_def)
      have tx: "texts decode line = (case delta_contents (decode p) of Some cs \<Rightarrow> filter (\<lambda>c. c \<noteq> '''') cs | None \<Rightarrow> [])"
        using assms(1) nr by (simp add: texts_def chunk_texts_code)
      show ?thesis
      proof (cases "delta_contents (decode p)")
        case None
        then show ?thesis using lo ne tx by (simp add: w accounted_def)
      next
        case (Some cs)
        show ?thesis
          using meters_account [where cs = cs and w = ?u] lo ne
          by (simp add: w Some accounted_def tx concat_filter_nonempty Let_def)
      qed
    qed
  qed
qed

lemma processLine_accounted: "accounted decode [line] w (processLine decode line w)"
proof -
  let ?t = "TrimSpace line"
  consider (blank) "?t = ''''" | (dn) "?t = ''data: [DONE]''" | (data) "HasPrefix ?t ''data: ''" "?t \<noteq> ''data: [DONE]''"
    | (other) "?t \<noteq> ''''" "?t \<noteq> ''data: [DONE]''" "\<not> HasPrefix ?t ''data: ''" by blast
  then show ?thesis
  proof cases
    case blank
    then have n: "payload_of line = None" by (simp add: payload_of_def HasPrefix_def)
    then have "\<not> left_out fwd decode line" "texts decode line = []" for fwd
      using blank by (simp_all add: left_out_def held_line_def receipt_line_def texts_def)
    then show ?thesis using blank by (simp add: accounted_def processLine_def)
  next
    case dn
    then have "left_out fwd decode line" for fwd by (simp add: left_out_def held_line_def)
    then show ?thesis using dn by (simp add: accounted_def processLine_def)
  next
    case other
    then have n: "payload_of line = None" by (simp add: payload_of_def)
    then have "\<not> left_out fwd decode line" "texts decode line = []" for fwd
      using other by (simp_all add: left_out_def held_line_def receipt_line_def texts_def)
    then show ?thesis using other by (simp add: accounted_def processLine_def)
  next
    case data
    then have p: "payload_of line = Some (drop 6 ?t)" by (simp add: payload_of_def)
    have "?t \<noteq> ''''" using data by (auto simp: HasPrefix_def)
    then have "processLine decode line w = processData decode (drop 6 ?t) line w" using data by (simp add: processLine_def Let_def)
    then show ?thesis using processData_accounted [OF p data(2)] by simp
  qed
qed

lemma accounted_pend: "accounted decode ls (w\<lparr>ss_pend := p\<rparr>) w' = accounted decode ls w w'"
    "accounted decode ls w (w'\<lparr>ss_pend := p\<rparr>) = accounted decode ls w w'"
  by (simp_all add: accounted_def)

lemma write_loop_accounted:
  "length (ss_content w) \<le> ss_contentCap w \<Longrightarrow>
     accounted decode (lines_of data) w (write_loop decode data w) \<and> ss_pend (write_loop decode data w) = unfinished data"
proof (induction decode data w rule: write_loop.induct)
  case (1 decode data w)
  show ?case
  proof (cases "newline \<in> set data")
    case False
    then show ?thesis using accounted_refl [of decode w]
      by (simp add: write_loop.simps [of decode data] lines_unfold [of data] accounted_pend)
  next
    case True
    let ?l = "takeWhile (\<lambda>c. c \<noteq> newline) data @ [newline]" and ?w = "processLine decode (takeWhile (\<lambda>c. c \<noteq> newline) data @ [newline]) w"
    have a: "accounted decode [?l] w ?w" by (rule processLine_accounted)
    then have "length (ss_content ?w) \<le> ss_contentCap ?w" using "1.prems" unfolding accounted_def Let_def by metis
    then have "accounted decode (lines_of (drop (length ?l) data)) ?w (write_loop decode (drop (length ?l) data) ?w) \<and>
        ss_pend (write_loop decode (drop (length ?l) data) ?w) = unfinished (drop (length ?l) data)"
      using "1.IH" True by blast
    moreover have "write_loop decode data w = write_loop decode (drop (length ?l) data) ?w"
      using True by (subst write_loop.simps) (simp add: Let_def)
    ultimately show ?thesis
      using accounted_trans [OF a _ "1.prems"] True by (simp add: lines_unfold [of data])
  qed
qed

lemma feeds_accounted:
  assumes "newline \<notin> set (ss_pend w)" "length (ss_content w) \<le> ss_contentCap w"
  shows "accounted decode (lines_of (ss_pend w @ b)) w (fold (feed decode) b w)"
    and "ss_pend (fold (feed decode) b w) = unfinished (ss_pend w @ b)"
proof -
  have "fold (feed decode) b w = write_loop decode (ss_pend w @ b) (w\<lparr>ss_pend := []\<rparr>)"
    using write_loop_feed [of "ss_pend w" decode b w] assms(1) by simp
  then show "accounted decode (lines_of (ss_pend w @ b)) w (fold (feed decode) b w)"
      "ss_pend (fold (feed decode) b w) = unfinished (ss_pend w @ b)"
    using write_loop_accounted [of "w\<lparr>ss_pend := []\<rparr>" decode "ss_pend w @ b"] assms(2) by (simp_all add: accounted_pend)
qed

lemma accounted_tag: "accounted decode ls w (tag x h w') = accounted decode ls w w'"
  by (simp add: accounted_def tag_def)

text \<open>
  C12: The client gets exactly what is metered and what a continuation replays. In filter mode, with
  a text buffer and a captured sample within their bounds, the bytes sent are the complete lines of the worker's answer
  but for end markers, error events, receipt events the client did not ask for, and the blank line
  behind each of them; what follows the last line is kept back. The metered tokens are the text
  deltas of the lines sent, and the continuation text grows by exactly these texts, or is
  marked as overflowed when they pass its bound.
\<close>

theorem stream_is_accounted:
  assumes "ss_filter w" "newline \<notin> set (ss_pend w)" "length (ss_content w) \<le> ss_contentCap w" "\<not> ss_overflow w"
    and "\<And>buf. ss_capture w = Some buf \<Longrightarrow> length buf \<le> ss_captureCap w"
    and "sent = kept_lines (ss_forwardReceipt w) decode (ss_lastSuppressed w) (lines_of (ss_pend w @ b))"
  shows "ss_out (Write decode b w) = ss_out w @ concat sent \<and>
    ss_pend (Write decode b w) = unfinished (ss_pend w @ b) \<and>
    ss_delivered (Write decode b w) = ss_delivered w + int (length (all_texts decode sent)) \<and>
    (if length (ss_content w @ concat (all_texts decode sent)) \<le> ss_contentCap w
     then \<not> ss_overflow (Write decode b w) \<and> ss_content (Write decode b w) = ss_content w @ concat (all_texts decode sent)
     else ss_overflow (Write decode b w))"
proof -
  have e: "Write decode b w = tag (captured b w) True (fold (feed decode) b w)"
    using assms(1,2,5) by (intro Write_filter) (auto simp: writer_ok_def)
  note f = feeds_accounted [OF assms(2,3), of decode b]
  then show ?thesis
    using assms(3,4) unfolding e assms(6) by (auto simp: accounted_def tag_def Let_def)
qed

text \<open>
  Without the filter the metering depends on the pieces. A content delta whose marker is split between
  two writes is delivered and not counted.
\<close>

theorem split_delta_is_not_metered:
  assumes "\<not> ss_filter w" "ss_capture w = None"
  shows "\<exists>b1 b2. ss_delivered (Write decode b2 (Write decode b1 w)) = ss_delivered w \<and>
    ss_delivered (Write decode (b1 @ b2) w) = ss_delivered w + 1 \<and>
    ss_out (Write decode b2 (Write decode b1 w)) = ss_out (Write decode (b1 @ b2) w)"
proof (intro exI)
  let ?b1 = "[CHR 0x22] @ ''con''" and ?b2 = "''tent'' @ [CHR 0x22] @ '':'' @ quoted ''x''"
  show "ss_delivered (Write decode ?b2 (Write decode ?b1 w)) = ss_delivered w \<and>
    ss_delivered (Write decode (?b1 @ ?b2) w) = ss_delivered w + 1 \<and>
    ss_out (Write decode ?b2 (Write decode ?b1 w)) = ss_out (Write decode (?b1 @ ?b2) w)"
    using assms by (simp add: Write_def capture_def countContentDeltas_def quoted_def HasPrefix_def Let_def)
qed

text \<open>
  An error event without a message is taken for success. In filter mode it is held back like every
  error event, but leaves no stream error behind: the stream is finished as complete, the client
  never sees the error, and the answer is billed.
\<close>

theorem empty_error_is_success:
  assumes "TrimSpace line = ''data: '' @ payload" "Contains payload (quoted ''error'')"
    and "decode payload = Some (JObj [(''error'', JObj [(''message'', JStr '''')])])"
    and "\<not> Contains payload (quoted ''om_receipt'')" "payload \<noteq> ''[DONE]''" "ss_streamError w = ''''" "ss_filter w" "ss_pend w = ''''"
  shows "ss_streamError (processLine decode line w) = '''' \<and>
    ss_out (finishClean (processLine decode line w)) = ss_out w @ done_line"
proof -
  have e: "error_event (decode payload) = Some ''''"
    using assms(3) by (simp add: error_event_def field_def as_object_def members_def)
  have u: "take_usage (decode payload) w = w"
    using assms(3) by (simp add: take_usage_def extractUsage_def field_def as_object_def members_def no_usage_def)
  have d: "drop 6 (''data: '' @ payload) = payload" by simp
  have "processLine decode line w = w\<lparr>ss_streamError := '''', ss_heldError := line, ss_lastSuppressed := True\<rparr>"
    unfolding processLine_def processData_def Let_def assms(1) d using assms(2,4-6) e u by (simp add: HasPrefix_def)
  then show ?thesis using assms(7,8) by (simp add: finishClean_def pending_tail_def)
qed

section \<open>Concrete streams\<close>

definition new_writer :: "bool \<Rightarrow> bool \<Rightarrow> bool \<Rightarrow> string option \<Rightarrow> string \<Rightarrow> sse" where
  "new_writer flt headerSent forwardReceipt cap content =
     \<lparr>ss_status = 0, ss_wroteHeader = False, ss_usage = no_usage, ss_streamError = '''', ss_delivered = 0, ss_capture = cap,
      ss_captureCap = 16384, ss_filter = flt, ss_headerSent = headerSent, ss_pend = '''', ss_heldError = '''', ss_heldDone = False,
      ss_lastSuppressed = False, ss_content = content, ss_contentCap = resumeContentCap, ss_overflow = False, ss_receipt = None,
      ss_forwardReceipt = forwardReceipt, ss_out = ''''\<rparr>"

definition sample_writer :: "bool \<Rightarrow> sse" where
  "sample_writer flt = new_writer flt False False None ''''"

theorem filter_ignores_chunking_witness:
  "fold (Write (\<lambda>_. None)) [''data: '', ''[DONE]'' @ [newline]] (sample_writer True) =
   Write (\<lambda>_. None) (concat [''data: '', ''[DONE]'' @ [newline]]) (sample_writer True)"
  by (rule filter_ignores_chunking) (simp_all add: sample_writer_def new_writer_def)

lemma sample_sent:
  "lines_of ([newline] @ ''data: [DONE]'' @ [newline, newline]) = [[newline], ''data: [DONE]'' @ [newline], [newline]]"
  "kept_lines False (\<lambda>_. None) False [[newline], ''data: [DONE]'' @ [newline], [newline]] = [[newline]]"
  by (simp_all add: lines_of_def left_out_def held_line_def receipt_line_def payload_of_def TrimSpace_def is_space_def HasPrefix_def)

theorem stream_is_accounted_witness:
  "ss_out (Write (\<lambda>_. None) ([newline] @ ''data: [DONE]'' @ [newline, newline]) (sample_writer True)) = [newline] \<and>
   ss_delivered (Write (\<lambda>_. None) ([newline] @ ''data: [DONE]'' @ [newline, newline]) (sample_writer True)) = 0"
proof -
  have w: "ss_filter (sample_writer True)" "newline \<notin> set (ss_pend (sample_writer True))" "\<not> ss_overflow (sample_writer True)"
    "length (ss_content (sample_writer True)) \<le> ss_contentCap (sample_writer True)"
    "\<And>buf. ss_capture (sample_writer True) = Some buf \<Longrightarrow> length buf \<le> ss_captureCap (sample_writer True)"
    by (simp_all add: sample_writer_def new_writer_def)
  have s: "[[newline]] = kept_lines (ss_forwardReceipt (sample_writer True)) (\<lambda>_. None) (ss_lastSuppressed (sample_writer True))
      (lines_of (ss_pend (sample_writer True) @ ([newline] @ ''data: [DONE]'' @ [newline, newline])))"
    using sample_sent by (simp add: sample_writer_def new_writer_def)
  have t: "texts (\<lambda>_. None) [newline] = []" by (simp add: texts_def payload_of_def TrimSpace_def is_space_def HasPrefix_def)
  show ?thesis
    using stream_is_accounted [OF w(1,2,4,3,5) s] t by (simp add: sample_writer_def new_writer_def)
qed

theorem split_delta_is_not_metered_witness:
  "\<exists>b1 b2. ss_delivered (Write (\<lambda>_. None) b2 (Write (\<lambda>_. None) b1 (sample_writer False))) = 0 \<and>
     ss_delivered (Write (\<lambda>_. None) (b1 @ b2) (sample_writer False)) = 1"
  using split_delta_is_not_metered [of "sample_writer False" "\<lambda>_. None"]
  by (auto simp: sample_writer_def new_writer_def)

theorem empty_error_is_success_witness:
  "ss_out (finishClean (processLine (\<lambda>_. Some (JObj [(''error'', JObj [(''message'', JStr '''')])]))
      (''data: '' @ quoted ''error'') (sample_writer True))) = done_line"
proof -
  have t: "TrimSpace (''data: '' @ quoted ''error'') = ''data: '' @ quoted ''error''"
    by (simp add: TrimSpace_def quoted_def is_space_def)
  show ?thesis
    using empty_error_is_success [OF t, of "\<lambda>_. Some (JObj [(''error'', JObj [(''message'', JStr '''')])])" "sample_writer True"]
    by (simp add: quoted_def HasPrefix_def sample_writer_def new_writer_def)
qed

end
