(* ===== verification/Receipt.thy ===== *)
theory Receipt
  imports Body Wal
begin

text \<open>
  Signed inference receipts as the gateway captures them (\<open>gateway/receipt.go\<close>): the signed bytes, the
  checks, and the row kept for the ledger. \<open>verify\<close> is the signature check of \<open>crypto/ed25519\<close> on a
  key, a message and a signature; \<open>parse\<close> decodes the header (base64 and JSON).
\<close>

type_synonym sig_check = "string \<Rightarrow> string \<Rightarrow> string \<Rightarrow> bool"

definition canonicalReceiptPayload :: "receipt \<Rightarrow> string" where
  "canonicalReceiptPayload r =
     ''{\"cached_tokens\":'' @ dec_int (rc_cached r) @ '',\"completion_tokens\":'' @ dec_int (rc_completion r)
     @ '',\"model\":'' @ json_string (rc_model r) @ '',\"prompt_tokens\":'' @ dec_int (rc_prompt r)
     @ '',\"pubkey\":'' @ json_string (rc_pubkey r) @ '',\"request_id\":'' @ json_string (rc_request_id r)
     @ '',\"request_sha256\":'' @ json_string (rc_request_sha r) @ '',\"response_sha256\":'' @ json_string (rc_response_sha r)
     @ '',\"ts\":'' @ dec_int (rc_ts r) @ '',\"v\":1}''"

definition fail_receipt :: "string \<Rightarrow> receipt \<Rightarrow> receipt" where
  "fail_receipt why r = r\<lparr>rc_verified := False, rc_verify_error := why\<rparr>"

definition verifyReceipt :: "sig_check \<Rightarrow> string \<Rightarrow> string option \<Rightarrow> tokenUsage \<Rightarrow> bool \<Rightarrow> receipt \<Rightarrow> receipt" where
  "verifyReceipt verify expectPubkeyHex sentBody u checkUsage r =
     (if expectPubkeyHex = '''' then fail_receipt ''worker advertises no receipt pubkey'' r
      else if rc_pubkey r \<noteq> expectPubkeyHex then fail_receipt ''receipt pubkey differs from /health-advertised pubkey'' r
      else case hex_decode expectPubkeyHex of
        None \<Rightarrow> fail_receipt ''bad advertised pubkey encoding'' r
      | Some pub \<Rightarrow>
          if length pub \<noteq> 32 then fail_receipt ''bad advertised pubkey encoding'' r
          else case hex_decode (rc_sig r) of
            None \<Rightarrow> fail_receipt ''bad signature encoding'' r
          | Some sg \<Rightarrow>
              if length sg \<noteq> 64 then fail_receipt ''bad signature encoding'' r
              else if \<not> verify pub (canonicalReceiptPayload r) sg then fail_receipt ''signature does not verify'' r
              else if (case sentBody of Some b \<Rightarrow> rc_request_sha r \<noteq> hex_encode (sha256 b) | None \<Rightarrow> False)
              then fail_receipt ''request hash mismatch (worker attested different request bytes)'' r
              else if checkUsage \<and> (rc_prompt r \<noteq> PromptTokens u \<or> rc_completion r \<noteq> CompletionTokens u \<or> rc_cached r \<noteq> CachedTokens u)
              then fail_receipt ''receipt token counts differ from response usage'' r
              else r\<lparr>rc_verified := True\<rparr>)"

text \<open>A receipt that cannot be parsed is kept with the reason.\<close>

definition blank_receipt :: "string \<Rightarrow> string \<Rightarrow> receipt" where
  "blank_receipt rid why =
     \<lparr>rc_v = 0, rc_request_id = rid, rc_model = '''', rc_request_sha = '''', rc_response_sha = '''', rc_prompt = 0,
      rc_completion = 0, rc_cached = 0, rc_ts = 0, rc_pubkey = '''', rc_sig = '''', rc_verified = False, rc_verify_error = why\<rparr>"

definition captureReceipt ::
  "sig_check \<Rightarrow> (string \<Rightarrow> string + receipt) \<Rightarrow> string \<Rightarrow> string \<Rightarrow> string option \<Rightarrow> tokenUsage \<Rightarrow> bool \<Rightarrow> string \<Rightarrow> receipt option" where
  "captureReceipt verify parse headerVal expectPubkey sentBody u checkUsage requestID =
     (if headerVal = '''' then None
      else case parse headerVal of
        Inl err \<Rightarrow> Some (blank_receipt requestID (''unparseable: '' @ err))
      | Inr r \<Rightarrow> Some (verifyReceipt verify expectPubkey sentBody u checkUsage r))"

section \<open>What a verified receipt proves\<close>

lemma verifiedE:
  assumes "rc_verified (verifyReceipt verify pk sent u chk r)"
  obtains pub sg where "verifyReceipt verify pk sent u chk r = r\<lparr>rc_verified := True\<rparr>" "rc_pubkey r = pk"
    "hex_decode pk = Some pub" "length pub = 32" "hex_decode (rc_sig r) = Some sg" "length sg = 64"
    "verify pub (canonicalReceiptPayload r) sg" "\<forall>b. sent = Some b \<longrightarrow> rc_request_sha r = hex_encode (sha256 b)"
    "chk \<longrightarrow> rc_prompt r = PromptTokens u \<and> rc_completion r = CompletionTokens u \<and> rc_cached r = CachedTokens u"
proof -
  define v where "v = verifyReceipt verify pk sent u chk r"
  have no: "\<not> rc_verified (fail_receipt why r)" for why by (simp add: fail_receipt_def)
  have v: "rc_verified v" using assms by (simp add: v_def)
  have ne: "v \<noteq> fail_receipt why r" for why using v no by metis
  have "pk \<noteq> ''''" using ne [of "''worker advertises no receipt pubkey''"] by (auto simp: v_def verifyReceipt_def)
  moreover have "rc_pubkey r = pk"
    using ne [of "''receipt pubkey differs from /health-advertised pubkey''"] calculation by (cases "rc_pubkey r = pk") (simp_all add: v_def verifyReceipt_def)
  ultimately have 1: "pk \<noteq> ''''" "rc_pubkey r = pk" by blast+
  obtain pub where 2: "hex_decode pk = Some pub" 
    using ne [of "''bad advertised pubkey encoding''"] 1 unfolding v_def verifyReceipt_def by (cases "hex_decode pk") simp_all
  have 3: "length pub = 32" using ne [of "''bad advertised pubkey encoding''"] 1 2 by (cases "length pub = 32") (simp_all add: v_def verifyReceipt_def)
  obtain sg where 4: "hex_decode (rc_sig r) = Some sg"
    using ne [of "''bad signature encoding''"] 1 3 unfolding v_def verifyReceipt_def 2 option.case by (cases "hex_decode (rc_sig r)") simp_all
  have v': "v = (if length sg \<noteq> 64 then fail_receipt ''bad signature encoding'' r
        else if \<not> verify pub (canonicalReceiptPayload r) sg then fail_receipt ''signature does not verify'' r
        else if (case sent of Some b \<Rightarrow> rc_request_sha r \<noteq> hex_encode (sha256 b) | None \<Rightarrow> False)
        then fail_receipt ''request hash mismatch (worker attested different request bytes)'' r
        else if chk \<and> (rc_prompt r \<noteq> PromptTokens u \<or> rc_completion r \<noteq> CompletionTokens u \<or> rc_cached r \<noteq> CachedTokens u)
        then fail_receipt ''receipt token counts differ from response usage'' r
        else r\<lparr>rc_verified := True\<rparr>)"
    unfolding v_def verifyReceipt_def 2 4 option.case using 1 3 by simp
  have 5: "length sg = 64" "verify pub (canonicalReceiptPayload r) sg"
      "\<not> (case sent of Some b \<Rightarrow> rc_request_sha r \<noteq> hex_encode (sha256 b) | None \<Rightarrow> False)"
      "\<not> (chk \<and> (rc_prompt r \<noteq> PromptTokens u \<or> rc_completion r \<noteq> CompletionTokens u \<or> rc_cached r \<noteq> CachedTokens u))"
    using v no unfolding v' by (simp_all split: if_splits)
  show thesis
    by (rule that [OF _ 1(2) 2 3 4 5(1,2)]) (use 5 v' v_def in \<open>auto split: option.splits\<close>)
qed

lemma dec_int_inj [simp]: "dec_int a = dec_int b \<longleftrightarrow> a = b"
  by (metis parse_int_dec option.inject)

text \<open>
  C35: A verified receipt is evidence. If the gateway marks a receipt verified, of a header or of a stream, then the key the worker
  advertises, 32 bytes, has signed exactly its model, counts, hashes and time; where the gateway gives the bytes it sent, the
  request hash is theirs; and where it checks the counts, which it does for every answer but that of a resumed
  stream, they are those of the answer's usage. (A resumed stream's receipt attests the last segment, with counts nobody compares.)
\<close>

theorem verified_receipt_is_evidence:
  assumes "captureReceipt verify parse h pk sent u check rid = Some r \<or> r = verifyReceipt verify pk sent u check r0" "rc_verified r"
  shows "rc_pubkey r = pk \<and>
    (case (hex_decode pk, hex_decode (rc_sig r)) of
       (Some pub, Some sg) \<Rightarrow> length pub = 32 \<and> length sg = 64 \<and> verify pub (canonicalReceiptPayload r) sg
     | _ \<Rightarrow> False) \<and>
    (case sent of Some b \<Rightarrow> rc_request_sha r = hex_encode (sha256 b) | None \<Rightarrow> True) \<and>
    (check \<longrightarrow> rc_prompt r = PromptTokens u \<and> rc_completion r = CompletionTokens u \<and> rc_cached r = CachedTokens u)"
proof -
  from assms obtain r1 where r: "r = verifyReceipt verify pk sent u check r1"
    by (auto simp: captureReceipt_def blank_receipt_def split: if_splits sum.splits)
  with assms(2) have v: "rc_verified (verifyReceipt verify pk sent u check r1)" by simp
  have p: "canonicalReceiptPayload (r1\<lparr>rc_verified := True\<rparr>) = canonicalReceiptPayload r1"
    by (simp add: canonicalReceiptPayload_def)
  from v show ?thesis
  proof (rule verifiedE)
    fix pub sg
    assume e: "verifyReceipt verify pk sent u check r1 = r1\<lparr>rc_verified := True\<rparr>"
      and f: "rc_pubkey r1 = pk" "hex_decode pk = Some pub" "length pub = 32" "hex_decode (rc_sig r1) = Some sg" "length sg = 64"
        "verify pub (canonicalReceiptPayload r1) sg" "\<forall>b. sent = Some b \<longrightarrow> rc_request_sha r1 = hex_encode (sha256 b)"
        "check \<longrightarrow> rc_prompt r1 = PromptTokens u \<and> rc_completion r1 = CompletionTokens u \<and> rc_cached r1 = CachedTokens u"
    have "r = r1\<lparr>rc_verified := True\<rparr>" using r e by simp
    with f show ?thesis by (simp add: p split: option.split)
  qed
qed

text \<open>
  The signed bytes determine the receipt. Two receipts with the same signed bytes agree in the model,
  the token counts, the key, the request id, both hashes and the time.
\<close>

theorem receipt_bytes_bind:
  assumes "list_all ascii [rc_model r, rc_pubkey r, rc_request_id r, rc_request_sha r, rc_response_sha r]"
    and "list_all ascii [rc_model r', rc_pubkey r', rc_request_id r', rc_request_sha r', rc_response_sha r']"
    and "canonicalReceiptPayload r = canonicalReceiptPayload r'"
  shows "rc_cached r = rc_cached r' \<and> rc_completion r = rc_completion r' \<and> rc_model r = rc_model r' \<and>
    rc_prompt r = rc_prompt r' \<and> rc_pubkey r = rc_pubkey r' \<and> rc_request_id r = rc_request_id r' \<and>
    rc_request_sha r = rc_request_sha r' \<and> rc_response_sha r = rc_response_sha r' \<and> rc_ts r = rc_ts r'"
  using assms(3)
  by (simp add: canonicalReceiptPayload_def json_string_peel dec_int_peel assms(1) [simplified] assms(2) [simplified])

text \<open>
  A receipt is not bound to the request it is served with. The verdict does not depend on the request
  id: a worker that is sent the same body again, and reports the same usage, can present the old
  receipt and it is verified, with another request's id in it.
\<close>

theorem receipt_can_be_replayed:
  assumes "parse h = Inr r" "captureReceipt verify parse h pk (Some sent) u chk rid = Some r1" "rc_verified r1"
  shows "captureReceipt verify parse h pk (Some sent) u chk rid' = Some r1"
  using assms by (auto simp: captureReceipt_def split: if_splits)

section \<open>Concrete receipts\<close>

definition sample_receipt :: receipt where
  "sample_receipt = (blank_receipt ''r1'' '''')\<lparr>rc_model := ''m'', rc_prompt := 3, rc_completion := 4,
     rc_request_sha := hex_encode (sha256 ''b''), rc_pubkey := replicate 64 CHR ''a'', rc_sig := replicate 128 CHR ''a''\<rparr>"

lemma hex_decode_replicate: "hex_decode (replicate (2 * n) CHR ''a'') = Some (replicate n (char_of (170 :: nat)))"
  by (induction n) (simp_all add: unhex_def)

lemma sample_receipt_verified:
  "captureReceipt (\<lambda>_ _ _. True) (\<lambda>_. Inr sample_receipt) ''h'' (replicate 64 CHR ''a'') (Some ''b'')
     \<lparr>PromptTokens = 3, CompletionTokens = 4, CachedTokens = 0, TotalTokens = 7\<rparr> True rid = Some (sample_receipt\<lparr>rc_verified := True\<rparr>)"
proof -
  have 1: "hex_decode (replicate 64 CHR ''a'') = Some (replicate 32 (char_of (170 :: nat)))" using hex_decode_replicate [of 32] by simp
  have 2: "hex_decode (replicate 128 CHR ''a'') = Some (replicate 64 (char_of (170 :: nat)))" using hex_decode_replicate [of 64] by simp
  have ne: "replicate 64 CHR ''a'' \<noteq> ''''" by simp
  have s: "rc_pubkey sample_receipt = replicate 64 CHR ''a''" "rc_sig sample_receipt = replicate 128 CHR ''a''"
      "rc_request_sha sample_receipt = hex_encode (sha256 ''b'')" "rc_prompt sample_receipt = 3" "rc_completion sample_receipt = 4"
      "rc_cached sample_receipt = 0"
    by (simp_all only: sample_receipt_def receipt.simps) (simp_all add: blank_receipt_def)
  have c: "captureReceipt (\<lambda>_ _ _. True) (\<lambda>_. Inr sample_receipt) ''h'' pk sent u chk rid
      = Some (verifyReceipt (\<lambda>_ _ _. True) pk sent u chk sample_receipt)" for pk sent u chk
    by (simp add: captureReceipt_def)
  show ?thesis unfolding c verifyReceipt_def s 1 2 option.case length_replicate using ne by simp
qed

theorem verified_receipt_is_evidence_witness:
  "rc_request_sha (sample_receipt\<lparr>rc_verified := True\<rparr>) = hex_encode (sha256 ''b'')"
  using verified_receipt_is_evidence [OF disjI1 [OF sample_receipt_verified]] by simp

theorem receipt_bytes_bind_witness:
  "canonicalReceiptPayload (blank_receipt ''r1'' ''x'') \<noteq> canonicalReceiptPayload (blank_receipt ''r2'' ''x'')"
  using receipt_bytes_bind [of "blank_receipt ''r1'' ''x''" "blank_receipt ''r2'' ''x''"] by (auto simp: blank_receipt_def ascii_def)

theorem receipt_can_be_replayed_witness:
  "captureReceipt (\<lambda>_ _ _. True) (\<lambda>_. Inr sample_receipt) ''h'' (replicate 64 CHR ''a'') (Some ''b'')
     \<lparr>PromptTokens = 3, CompletionTokens = 4, CachedTokens = 0, TotalTokens = 7\<rparr> True ''another''
     = Some (sample_receipt\<lparr>rc_verified := True\<rparr>)"
  by (rule receipt_can_be_replayed [OF refl sample_receipt_verified [of "''r1''"]]) simp

end
