(* ===== verification/Usage.thy ===== *)
theory Usage
  imports Aggregator
begin

text \<open>
  The ring of recent requests behind \<open>/v1/me\<close> (\<open>gateway/me.go\<close>): a buffer of fixed size that is
  written round and read backwards. The cost is kept as the number whose text is shown.
\<close>

section \<open>The ring\<close>

record usage_entry =
  ue_key :: string
  ue_timestamp :: gotime
  ue_model :: string
  ue_status :: int
  ue_prompt :: int
  ue_cached :: int
  ue_completion :: int
  ue_cost :: "bigfloat option"
  ue_request :: string

record usageRing =
  ur_buf :: "usage_entry list"
  ur_next :: nat
  ur_full :: bool

definition zero_entry :: usage_entry where
  "zero_entry = \<lparr>ue_key = '''', ue_timestamp = 0, ue_model = '''', ue_status = 0, ue_prompt = 0, ue_cached = 0,
     ue_completion = 0, ue_cost = None, ue_request = ''''\<rparr>"

definition newUsageRing :: "nat \<Rightarrow> usageRing" where
  "newUsageRing n = \<lparr>ur_buf = replicate n zero_entry, ur_next = 0, ur_full = False\<rparr>"

definition push :: "usage_entry \<Rightarrow> usageRing \<Rightarrow> usageRing" where
  "push e u =
     (let nxt = (ur_next u + 1) mod length (ur_buf u)
      in u\<lparr>ur_buf := (ur_buf u)[ur_next u := e], ur_next := nxt, ur_full := ur_full u \<or> nxt = 0\<rparr>)"

definition ring_slot :: "nat \<Rightarrow> nat \<Rightarrow> nat \<Rightarrow> nat" where
  "ring_slot len n i = nat (((int n - 1 - int i) + int len) mod int len)"

fun ring_scan :: "usageRing \<Rightarrow> string \<Rightarrow> int \<Rightarrow> nat list \<Rightarrow> usage_entry list \<Rightarrow> usage_entry list" where
  "ring_scan u key most [] out = out"
| "ring_scan u key most (i # is) out =
     (if int (length out) < most
      then let e = ur_buf u ! ring_slot (length (ur_buf u)) (ur_next u) i
           in ring_scan u key most is (if ue_key e = key then out @ [e] else out)
      else out)"

definition lastByKey :: "string \<Rightarrow> int \<Rightarrow> usageRing \<Rightarrow> usage_entry list" where
  "lastByKey key most u =
     ring_scan u key most [0..<(if ur_full u then length (ur_buf u) else ur_next u)] []"

definition recordUsage ::
  "(string \<rightharpoonup> bigfloat) option \<Rightarrow> (string \<rightharpoonup> bigfloat) \<Rightarrow> (string \<rightharpoonup> bigfloat) \<Rightarrow> ('a) request_record_scheme \<Rightarrow> usageRing \<Rightarrow> usageRing" where
  "recordUsage prices inp cr rec u =
     (let cost = (case prices of
            Some ps \<Rightarrow>
              if rr_status rec = 200
              then let c = CostBreakdownUSD (rr_model rec) (rr_prompt rec) (rr_completion rec) (rr_cached rec) (rr_total rec) ps inp cr
                   in if bf_val c > 0 then Some c else None
              else None
          | None \<Rightarrow> None)
      in push \<lparr>ue_key = rr_api_key rec, ue_timestamp = rr_timestamp rec, ue_model = rr_model rec, ue_status = rr_status rec,
               ue_prompt = rr_prompt rec, ue_cached = rr_cached rec, ue_completion = rr_completion rec, ue_cost = cost,
               ue_request = rr_id rec\<rparr> u)"

section \<open>The ring is the recent history\<close>

text \<open>\<open>holds u hs\<close>: the ring holds the newest of the entries \<open>hs\<close>, oldest first.\<close>

definition holds :: "usageRing \<Rightarrow> usage_entry list \<Rightarrow> bool" where
  "holds u hs \<longleftrightarrow>
     0 < length (ur_buf u) \<and> ur_next u = length hs mod length (ur_buf u) \<and> (ur_full u \<longleftrightarrow> length hs \<ge> length (ur_buf u)) \<and>
     (\<forall>i < min (length (ur_buf u)) (length hs). ur_buf u ! ring_slot (length (ur_buf u)) (ur_next u) i = rev hs ! i)"

lemma ring_slot_lt: "0 < len \<Longrightarrow> ring_slot len n i < len"
  by (simp add: ring_slot_def nat_less_iff)

lemma ring_slot_0: "n < len \<Longrightarrow> ring_slot len ((n + 1) mod len) 0 = n"
  by (cases "n + 1 = len") (auto simp: ring_slot_def nat_eq_iff zmod_int zmod_minus1)

lemma ring_slot_Suc: "n < len \<Longrightarrow> ring_slot len ((n + 1) mod len) (Suc i) = ring_slot len n i"
proof -
  assume "n < len"
  have "int ((n + 1) mod len) = int n + 1 - int len * ((int n + 1) div int len)"
    by (simp add: zmod_int minus_mult_div_eq_mod add.commute)
  then have "(int ((n + 1) mod len) - 1 - int (Suc i) + int len) - (int n - 1 - int i + int len) = int len * (- ((int n + 1) div int len))"
    by (simp add: algebra_simps)
  then have "(int ((n + 1) mod len) - 1 - int (Suc i) + int len) mod int len = (int n - 1 - int i + int len) mod int len"
    using dvd_triv_left mod_eq_dvd_iff by metis
  then show ?thesis by (simp only: ring_slot_def)
qed

lemma ring_slot_other: "n < len \<Longrightarrow> i + 1 < len \<Longrightarrow> ring_slot len n i \<noteq> n"
proof
  assume n: "n < len" and i: "i + 1 < len" and e: "ring_slot len n i = n"
  have "((int n - 1 - int i) + int len) mod int len = int n"
    using e n by (simp add: ring_slot_def nat_eq_iff split: if_splits)
  then have "((int n - 1 - int i) + int len) mod int len = int n mod int len" using n by simp
  then have "int len dvd (int n - 1 - int i + int len) - int n" by (rule mod_eq_dvd_iff [THEN iffD1])
  then have "int len dvd int i + 1" by (metis add.commute add_diff_cancel_left' diff_diff_eq diff_minus_eq_add dvd_add_right_iff dvd_diff_commute dvd_refl uminus_add_conv_diff)
  then show False using i zdvd_imp_le [of "int len" "int i + 1"] by linarith
qed

lemma holds_push:
  assumes "holds u hs"
  shows "holds (push e u) (hs @ [e])"
proof -
  let ?n = "length (ur_buf u)"
  have n: "0 < ?n" and nx: "ur_next u = length hs mod ?n" and fl: "ur_full u \<longleftrightarrow> length hs \<ge> ?n"
    and at: "\<And>i. i < ?n \<Longrightarrow> i < length hs \<Longrightarrow> ur_buf u ! ring_slot ?n (ur_next u) i = rev hs ! i"
    using assms by (auto simp: holds_def)
  have lt: "ur_next u < ?n" using n nx by simp
  have full: "(ur_full u \<or> (ur_next u + 1) mod ?n = 0) \<longleftrightarrow> length (hs @ [e]) \<ge> ?n"
  proof (cases "length hs < ?n")
    case True
    then show ?thesis using nx fl by (cases "length hs + 1 = ?n") auto
  qed (use fl in auto)
  have slots: "ur_buf (push e u) ! ring_slot ?n ((ur_next u + 1) mod ?n) i = rev (hs @ [e]) ! i"
    if i: "i < ?n" "i < length (hs @ [e])" for i
  proof (cases i)
    case 0
    then show ?thesis using lt ring_slot_0 [OF lt] by (simp add: push_def Let_def)
  next
    case (Suc j)
    have "ring_slot ?n (ur_next u) j \<noteq> ur_next u" by (rule ring_slot_other [OF lt]) (use i Suc in simp)
    then show ?thesis using Suc i at [of j] ring_slot_Suc [OF lt, of j] by (simp add: push_def Let_def)
  qed
  show ?thesis using n nx full slots by (simp add: holds_def push_def Let_def mod_simps)
qed

lemma holds_new: "holds (newUsageRing (Suc n)) []"
  by (simp add: holds_def newUsageRing_def)

lemma holds_all: "holds u hs \<Longrightarrow> holds (fold push es u) (hs @ es)"
proof (induction es arbitrary: u hs)
  case (Cons e es)
  show ?case using Cons.IH [OF holds_push [OF Cons.prems, of e]] by simp
qed simp

lemma ring_scan_filter:
  assumes "list_all (\<lambda>i. ur_buf u ! ring_slot (length (ur_buf u)) (ur_next u) i = f i) is" "int (length out) \<le> most"
  shows "ring_scan u key most is out = take (nat most) (out @ filter (\<lambda>e. ue_key e = key) (List.map f is))"
  using assms
proof (induction "is" arbitrary: out)
  case (Cons i "is")
  show ?case
  proof (cases "int (length out) < most")
    case True
    then have "nat most - length out = Suc (nat most - Suc (length out))" by linarith
    then show ?thesis using True Cons.prems Cons.IH [of "if ue_key (f i) = key then out @ [f i] else out"] by (auto simp: Let_def)
  next
    case False
    then show ?thesis using Cons.prems by (simp add: nat_le_iff)
  qed
qed simp

text \<open>
  The ring shows the newest requests of a key. After any history of requests, the entries read for
  a key are that key's entries among the last 512 (in general: the size of the ring) requests of all
  keys, newest first, up to the number asked for.
\<close>

theorem ring_is_recent_history:
  "lastByKey key most (fold push hs (newUsageRing (Suc n))) =
     take (nat most) (filter (\<lambda>e. ue_key e = key) (take (Suc n) (rev hs)))"
proof -
  define u where "u = fold push hs (newUsageRing (Suc n))"
  have len: "length (ur_buf (fold push es r)) = length (ur_buf r)" for es and r :: usageRing
    by (induction es arbitrary: r) (simp_all add: push_def Let_def)
  have lu: "length (ur_buf u) = Suc n" by (simp add: u_def len newUsageRing_def)
  have h: "holds u hs" using holds_all [OF holds_new, of hs n] by (simp add: u_def)
  define tot where "tot = (if ur_full u then length (ur_buf u) else ur_next u)"
  have tot: "tot = min (Suc n) (length hs)" using h lu by (auto simp: tot_def holds_def)
  have read: "list_all (\<lambda>i. ur_buf u ! ring_slot (length (ur_buf u)) (ur_next u) i = rev hs ! i) [0..<tot]"
  proof -
    have "\<forall>i < min (length (ur_buf u)) (length hs). ur_buf u ! ring_slot (length (ur_buf u)) (ur_next u) i = rev hs ! i"
      using h unfolding holds_def by blast
    then show ?thesis by (simp add: list_all_iff tot lu)
  qed
  have m: "List.map (\<lambda>i. rev hs ! i) [0..<tot] = take (Suc n) (rev hs)"
    by (rule nth_equalityI) (simp_all add: tot)
  show ?thesis
  proof (cases "0 \<le> most")
    case True
    then show ?thesis using ring_scan_filter [OF read, of "[]" most key] by (simp only: lastByKey_def tot_def [symmetric] m u_def [symmetric]) simp
  next
    case False
    then have "ring_scan u key most is [] = []" for "is" by (cases "is") simp_all
    then show ?thesis using False by (simp add: lastByKey_def u_def [symmetric])
  qed
qed

end
