(* ===== verification/Sampler.thy ===== *)
theory Sampler
  imports Body RequestLog "HOL-Library.Sublist"
begin

text \<open>
  Samples of served requests kept for offline checks (\<open>gateway/verification.go\<close>). The sample log
  rotates like the request log, whose file operations it shares here. The length of a sample's JSON
  is a parameter; a sample's time stamp is the time, not its text.
\<close>

record sample =
  sm_id :: string
  sm_timestamp :: gotime
  sm_worker :: string
  sm_key :: string
  sm_model_req :: string
  sm_model_resp :: string
  sm_stream :: bool
  sm_status :: int
  sm_usage :: tokenUsage
  sm_request :: string
  sm_response :: string
  sm_truncated :: bool

definition sampleMaxBodyBytes :: nat where "sampleMaxBodyBytes = 16384"
definition defaultSampleMaxSize :: nat where "defaultSampleMaxSize = 50 * 2 ^ 20"
definition defaultSampleBackups :: int where "defaultSampleBackups = 5"

record sampler =
  vs_rate :: bigfloat
  vs_file :: req_logger

definition NewVerificationSampler :: "bool \<Rightarrow> bigfloat \<Rightarrow> int \<Rightarrow> int \<Rightarrow> sample file_dir \<Rightarrow> (sampler \<times> sample file_dir) option" where
  "NewVerificationSampler hasPath rate maxMB backups d =
     (if bf_val rate \<le> 0 \<or> \<not> hasPath then None
      else let d = open_main d
           in Some (\<lparr>vs_rate = (if bf_val rate > 1 then float64_of_int 1 else rate),
                     vs_file = \<lparr>rl_currentSize = (case file_at d 0 of Some f \<Rightarrow> lf_size f | None \<Rightarrow> 0),
                                rl_maxSize = (if maxMB > 0 then nat maxMB * 2 ^ 20 else defaultSampleMaxSize),
                                rl_maxBackups = (if backups \<le> 0 then defaultSampleBackups else backups)\<rparr>\<rparr>, d))"

definition shouldSample :: "bigfloat \<Rightarrow> sampler option \<Rightarrow> bool" where
  "shouldSample draw vs = (case vs of None \<Rightarrow> False | Some v \<Rightarrow> bf_val draw < bf_val (vs_rate v))"

definition truncate_sample :: "sample \<Rightarrow> sample" where
  "truncate_sample s =
     (let s = (if length (sm_request s) > sampleMaxBodyBytes
               then s\<lparr>sm_request := take sampleMaxBodyBytes (sm_request s), sm_truncated := True\<rparr> else s)
      in if length (sm_response s) > sampleMaxBodyBytes
         then s\<lparr>sm_response := take sampleMaxBodyBytes (sm_response s), sm_truncated := True\<rparr> else s)"

definition write_sample :: "(sample \<Rightarrow> nat) \<Rightarrow> sample \<Rightarrow> sampler \<times> sample file_dir \<Rightarrow> sampler \<times> sample file_dir" where
  "write_sample json_len s = (\<lambda>(vs, d).
     (let s = truncate_sample s;
          n = json_len s + 1;
          d = append_line (n, s) d;
          f = (vs_file vs)\<lparr>rl_currentSize := rl_currentSize (vs_file vs) + n\<rparr>
      in if rl_currentSize f \<ge> rl_maxSize f
         then (let (f, d) = rotate_log (f, d) in (vs\<lparr>vs_file := f\<rparr>, d))
         else (vs\<lparr>vs_file := f\<rparr>, d)))"

text \<open>What a handler retains of a served request; \<open>respRaw\<close> is the body, or the captured stream.\<close>

definition retained :: "string \<Rightarrow> gotime \<Rightarrow> string \<Rightarrow> string \<Rightarrow> string \<Rightarrow> bool \<Rightarrow> int \<Rightarrow> string \<Rightarrow> string \<Rightarrow> tokenUsage \<Rightarrow> sample" where
  "retained requestID t0 keyName workerID requestModel stream status reqBody respRaw u =
     \<lparr>sm_id = requestID, sm_timestamp = t0, sm_worker = workerID, sm_key = keyName, sm_model_req = requestModel,
      sm_model_resp = scanModelField respRaw, sm_stream = stream, sm_status = status, sm_usage = u,
      sm_request = reqBody, sm_response = respRaw, sm_truncated = False\<rparr>"

section \<open>What the sample log holds\<close>

definition kept :: "sample lines_file \<Rightarrow> sample lines_file list \<Rightarrow> sample list" where
  "kept m bs = concat (List.map (\<lambda>f. List.map snd (lf_lines f)) (rev (m # bs)))"

lemma kept_append: "kept (m\<lparr>lf_lines := lf_lines m @ [(n, s)]\<rparr>) bs = kept m bs @ [s]"
  by (simp add: kept_def)

lemma kept_rotate: "lf_lines m' = [] \<Longrightarrow> suffix (kept m' (m # take k bs)) (kept m bs)"
proof -
  assume m': "lf_lines m' = []"
  have "kept m bs = concat (List.map (\<lambda>f. List.map snd (lf_lines f)) (rev (drop k bs))) @ kept m (take k bs)"
    unfolding kept_def by (metis (no_types, lifting) append_Cons append_take_drop_id concat_append map_append rev_append)
  then show ?thesis using m' by (simp add: kept_def suffix_def)
qed

definition sampler_ok :: "sampler \<times> sample file_dir \<Rightarrow> sample list \<Rightarrow> bool" where
  "sampler_ok vd hist \<longleftrightarrow>
     (\<exists>m bs. chain (snd vd) m bs \<and> length bs \<le> backups_kept (vs_file (fst vd)) \<and> suffix (kept m bs) hist)"

lemma rotate_backups: "rl_maxBackups (fst (rotate_log (f, d))) = rl_maxBackups f"
  by (simp add: rotate_log_def Let_def)

lemma sampler_ok_write:
  assumes "sampler_ok vd hist"
  shows "sampler_ok (write_sample json_len s vd) (hist @ [truncate_sample s])"
    "rl_maxBackups (vs_file (fst (write_sample json_len s vd))) = rl_maxBackups (vs_file (fst vd))"
proof -
  obtain vs d where vd: "vd = (vs, d)" by (cases vd)
  obtain m bs where c: "chain d m bs" and len: "length bs \<le> backups_kept (vs_file vs)" and suf: "suffix (kept m bs) hist"
    using assms by (auto simp: sampler_ok_def vd)
  define n where "n = json_len (truncate_sample s) + 1"
  define f where "f = (vs_file vs)\<lparr>rl_currentSize := rl_currentSize (vs_file vs) + n\<rparr>"
  define d' where "d' = append_line (n, truncate_sample s) d"
  define m1 where "m1 = m\<lparr>lf_lines := lf_lines m @ [(n, truncate_sample s)]\<rparr>"
  have c1: "chain d' m1 bs" unfolding d'_def m1_def by (rule chain_append [OF c])
  have suf1: "suffix (kept m1 bs) (hist @ [truncate_sample s])" using suf by (simp add: m1_def kept_append suffix_def)
  have bk: "backups_kept f = backups_kept (vs_file vs)" by (simp add: f_def backups_kept_def)
  obtain m2 where c2: "chain (snd (rotate_log (f, d'))) m2 (m1 # take (backups_kept f - 1) bs @ drop (backups_kept f) bs)"
      and m2: "lf_lines m2 = []"
    using chain_rotate [OF c1 refl] by blast
  have dr: "drop (backups_kept f) bs = []" using len bk by simp
  have pos: "1 \<le> backups_kept f" by (auto simp: backups_kept_def Let_def)
  have w: "write_sample json_len s vd =
      (if rl_currentSize f \<ge> rl_maxSize f then (vs\<lparr>vs_file := fst (rotate_log (f, d'))\<rparr>, snd (rotate_log (f, d')))
       else (vs\<lparr>vs_file := f\<rparr>, d'))"
    by (simp add: write_sample_def vd Let_def n_def f_def d'_def case_prod_beta)
  have "backups_kept (fst (rotate_log (f, d'))) = backups_kept f" by (simp add: backups_kept_def rotate_backups)
  then have r: "sampler_ok (vs\<lparr>vs_file := fst (rotate_log (f, d'))\<rparr>, snd (rotate_log (f, d'))) (hist @ [truncate_sample s])"
    unfolding sampler_ok_def using c2 dr pos suffix_order.trans [OF kept_rotate [OF m2, of m1 "backups_kept f - 1" bs] suf1]
    by (intro exI [of _ m2] exI [of _ "m1 # take (backups_kept f - 1) bs"]) auto
  have nr: "sampler_ok (vs\<lparr>vs_file := f\<rparr>, d') (hist @ [truncate_sample s])"
    unfolding sampler_ok_def using c1 len bk suf1 by auto
  show "sampler_ok (write_sample json_len s vd) (hist @ [truncate_sample s])" unfolding w using r nr by simp
  show "rl_maxBackups (vs_file (fst (write_sample json_len s vd))) = rl_maxBackups (vs_file (fst vd))"
    unfolding w by (simp add: rotate_backups vd f_def)
qed

lemma sampler_ok_writes: "sampler_ok vd hist \<Longrightarrow>
    sampler_ok (fold (write_sample json_len) ss vd) (hist @ List.map truncate_sample ss) \<and>
    rl_maxBackups (vs_file (fst (fold (write_sample json_len) ss vd))) = rl_maxBackups (vs_file (fst vd))"
proof (induction ss arbitrary: vd hist)
  case (Cons s ss)
  show ?case using Cons.IH [OF sampler_ok_write(1) [OF Cons.prems, of json_len s]] sampler_ok_write(2) [OF Cons.prems, of json_len s]
    by simp
qed simp

definition no_samples :: "sample file_dir" where "no_samples = \<lparr>ld_files = [], ld_next = 1\<rparr>"

text \<open>
  The sample log keeps the newest evidence without a gap. After any samples the files, oldest
  backup first and main file last, hold a suffix of what was written, in order, in at most
  the configured number of backups, and no retained body is longer than 16 KiB.
\<close>

theorem samples_kept_without_gap:
  assumes "NewVerificationSampler True rate maxMB backups no_samples = Some vd"
  shows "\<exists>m bs k. chain (snd (fold (write_sample json_len) ss vd)) m bs \<and>
     int (length bs) \<le> (if backups \<le> 0 then 5 else backups) \<and>
     kept m bs = drop k (List.map truncate_sample ss) \<and>
     list_all (\<lambda>s. length (sm_request s) \<le> 16384 \<and> length (sm_response s) \<le> 16384) (kept m bs)"
proof -
  have vd: "snd vd = open_main no_samples" "rl_maxBackups (vs_file (fst vd)) = (if backups \<le> 0 then 5 else backups)"
    using assms by (auto simp: NewVerificationSampler_def Let_def defaultSampleBackups_def split: if_splits)
  have "chain (open_main no_samples) \<lparr>lf_ino = 1, lf_dev = 1, lf_lines = []\<rparr> []"
    by (simp add: chain_def open_main_def no_samples_def)
  then have "sampler_ok vd []" unfolding sampler_ok_def vd by (intro exI conjI, assumption) (simp_all add: kept_def)
  from sampler_ok_writes [OF this, of json_len ss]
  obtain m bs where c: "chain (snd (fold (write_sample json_len) ss vd)) m bs"
      and len: "length bs \<le> backups_kept (vs_file (fst (fold (write_sample json_len) ss vd)))"
      and suf: "suffix (kept m bs) (List.map truncate_sample ss)"
      and mb: "rl_maxBackups (vs_file (fst (fold (write_sample json_len) ss vd))) = (if backups \<le> 0 then 5 else backups)"
    unfolding vd(2) by (auto simp: sampler_ok_def)
  have "int (length bs) \<le> (if backups \<le> 0 then 5 else backups)"
    using len mb by (auto simp: backups_kept_def Let_def split: if_splits)
  moreover obtain k where k: "kept m bs = drop k (List.map truncate_sample ss)"
    using suf unfolding suffix_def by (metis append_eq_conv_conj)
  moreover have "list_all (\<lambda>s. length (sm_request s) \<le> 16384 \<and> length (sm_response s) \<le> 16384) (kept m bs)"
  proof -
    have "length (sm_request (truncate_sample s)) \<le> 16384 \<and> length (sm_response (truncate_sample s)) \<le> 16384" for s
      by (simp add: truncate_sample_def sampleMaxBodyBytes_def Let_def)
    then show ?thesis unfolding k list_all_iff by (fastforce dest: in_set_dropD)
  qed
  ultimately show ?thesis using c by blast
qed

theorem samples_kept_without_gap_witness:
  "\<exists>vd m bs k. chain (snd (fold (write_sample (\<lambda>_. 10)) [retained ''r'' 1 ''k'' ''w'' ''m'' False 200 ''{}'' ''{}'' no_usage] vd)) m bs \<and>
     kept m bs = drop k [truncate_sample (retained ''r'' 1 ''k'' ''w'' ''m'' False 200 ''{}'' ''{}'' no_usage)]"
proof -
  have "bf_val (float64_of_int 1) = 1" by code_simp
  then obtain vd where vd: "NewVerificationSampler True (float64_of_int 1) 1 2 no_samples = Some vd"
    by (simp add: NewVerificationSampler_def Let_def)
  from samples_kept_without_gap [OF vd, of "\<lambda>_. 10" "[retained ''r'' 1 ''k'' ''w'' ''m'' False 200 ''{}'' ''{}'' no_usage]"]
  show ?thesis unfolding list.map by (intro exI [of _ vd]) blast
qed

end
