(* ===== verification/Keys.thy ===== *)
theory Keys
  imports Body Wal
begin

text \<open>
  API keys: self-service registration and key management (\<open>gateway/registration.go\<close>,
  \<open>gateway/keys.go\<close>). The key table is indexed by the SHA-256 of a key; the store file holds the
  records of the registered keys. Arguments stand for the library code: \<open>is_hex\<close> and \<open>hexa\<close> are
  \<open>common.IsHexAddress\<close> and the checksummed form of an address, \<open>recover\<close> is the address that
  \<open>crypto.SigToPub\<close> recovers from a message and 65 signature bytes. The random bytes, the clock and
  the success of a file write are arguments too. \<open>regMu\<close> makes each handler one step.
\<close>

section \<open>The state\<close>

record apiKeyEntry =
  ke_name :: string
  ke_wallet :: string
  ke_id :: string
  ke_static :: bool

record registrationRecord =
  rg_id :: string
  rg_name :: string
  rg_wallet :: string
  rg_hash :: string
  rg_display :: string
  rg_created :: gotime
  rg_key :: string

text \<open>The store: no path is configured, no file yet, bytes that do not parse, or the records.\<close>

datatype reg_store = NoPath | Missing | Garbled | Stored "registrationRecord list"

record keystore =
  ks_keys :: "(string \<times> apiKeyEntry) list"
  ks_store :: reg_store
  ks_seen :: "(string \<times> gotime) list"
  ks_maxPerWallet :: int

section \<open>Keys\<close>

definition registrationWindow :: duration where "registrationWindow = 5 * minute"
definition maxKeysPerWalletDefault :: int where "maxKeysPerWalletDefault = 10"

definition hashKey :: "string \<Rightarrow> string" where
  "hashKey key = hex_encode (sha256 key)"

definition ellipsis :: string where "ellipsis = [CHR 0xE2, CHR 0x80, CHR 0xA6]"

definition keyDisplay :: "string \<Rightarrow> string" where
  "keyDisplay key = (if length key \<le> 14 then key else take 10 key @ ellipsis @ drop (length key - 4) key)"

definition generateKeyID :: "string option \<Rightarrow> string option" where
  "generateKeyID random = map_option (\<lambda>b. ''k-'' @ hex_encode b) random"

definition generateAPIKey :: "string option \<Rightarrow> string option" where
  "generateAPIKey random = map_option (\<lambda>b. ''sk-om-'' @ hex_encode b) random"

section \<open>The store\<close>

definition migrateRegistrationRecord :: "registrationRecord \<Rightarrow> registrationRecord" where
  "migrateRegistrationRecord rec =
     (if rg_key rec = '''' then rec
      else let rec = rec\<lparr>rg_hash := hashKey (rg_key rec), rg_display := keyDisplay (rg_key rec)\<rparr>;
               rec = (if rg_id rec = '''' then rec\<lparr>rg_id := ''k-'' @ take 12 (rg_hash rec)\<rparr> else rec)
           in rec\<lparr>rg_key := ''''\<rparr>)"

text \<open>Loading migrates legacy rows and rewrites the file when it changed one (the write may fail).\<close>

definition loadRegistrationsFile :: "bool \<Rightarrow> reg_store \<Rightarrow> registrationRecord list \<times> reg_store" where
  "loadRegistrationsFile writes st =
     (case st of
        Stored recs \<Rightarrow>
          let recs' = List.map migrateRegistrationRecord recs
          in (recs', if list_ex (\<lambda>r. rg_key r \<noteq> '''') recs \<and> writes then Stored recs' else st)
      | _ \<Rightarrow> ([], st))"

definition writeRegistrationsFile :: "bool \<Rightarrow> registrationRecord list \<Rightarrow> reg_store \<Rightarrow> reg_store option" where
  "writeRegistrationsFile writes recs st = (if writes then Some (Stored recs) else None)"

definition appendRegistration :: "bool \<Rightarrow> registrationRecord \<Rightarrow> reg_store \<Rightarrow> reg_store option" where
  "appendRegistration writes rec st =
     (if st = NoPath then Some NoPath
      else let (recs, st) = loadRegistrationsFile writes st in writeRegistrationsFile writes (recs @ [rec]) st)"

section \<open>Signatures\<close>

text \<open>\<open>time.Unix\<close> counts from 1970; its addition is that of \<open>int64\<close>. \<open>Time.Sub\<close> saturates.\<close>

definition unix_epoch :: int where "unix_epoch = 62135596800"

definition time_Unix :: "int \<Rightarrow> gotime" where
  "time_Unix s = wrap64 (s + unix_epoch) * second"

definition time_Sub :: "gotime \<Rightarrow> gotime \<Rightarrow> duration" where
  "time_Sub a b = max (- (2 ^ 63)) (min (2 ^ 63 - 1) (a - b))"

definition fresh_enough :: "gotime \<Rightarrow> int \<Rightarrow> bool" where
  "fresh_enough now issuedAt \<longleftrightarrow>
     (let skew = time_Sub now (time_Unix issuedAt);
          skew = (if skew < 0 then wrap64 (- skew) else skew)
      in \<not> (issuedAt = 0 \<or> skew > registrationWindow))"

definition registrationMessage :: "string \<Rightarrow> int \<Rightarrow> string" where
  "registrationMessage wallet issuedAt =
     ''OpenModel API key registration'' @ [CHR 0x0A] @ ''wallet: '' @ wallet @ [CHR 0x0A] @ ''issued_at: '' @ dec_int issuedAt"

definition keyManagementMessage :: "string \<Rightarrow> string \<Rightarrow> int \<Rightarrow> string \<Rightarrow> string \<Rightarrow> string" where
  "keyManagementMessage action wallet issuedAt name keyID =
     ''OpenModel key management'' @ [CHR 0x0A] @ ''action: '' @ action @ [CHR 0x0A] @ ''wallet: '' @ wallet @ [CHR 0x0A]
     @ ''issued_at: '' @ dec_int issuedAt
     @ (if name \<noteq> '''' then [CHR 0x0A] @ ''name: '' @ name else '''')
     @ (if keyID \<noteq> '''' then [CHR 0x0A] @ ''key_id: '' @ keyID else '''')"

definition verifyEthSignature :: "(string \<Rightarrow> string \<Rightarrow> string option) \<Rightarrow> string \<Rightarrow> string \<Rightarrow> string \<Rightarrow> bool" where
  "verifyEthSignature recover message sigHex wantAddr =
     (case hex_decode (TrimPrefix (TrimSpace sigHex) ''0x'') of
        None \<Rightarrow> False
      | Some sg \<Rightarrow>
          length sg = 65 \<and>
          (let v = of_char (sg ! 64) :: nat; v = (if v \<ge> 27 then v - 27 else v)
           in (v = 0 \<or> v = 1) \<and>
              (case recover message (sg[64 := char_of v]) of
                 None \<Rightarrow> False
               | Some addr \<Rightarrow> EqualFold addr wantAddr)))"

definition sig_key :: "string \<Rightarrow> string" where
  "sig_key signature = ToLower (TrimPrefix (TrimSpace signature) ''0x'')"

definition pruneSeenSigs :: "gotime \<Rightarrow> keystore \<Rightarrow> keystore" where
  "pruneSeenSigs now ks = ks\<lparr>ks_seen := filter (\<lambda>(s, expiry). \<not> now > expiry) (ks_seen ks)\<rparr>"

section \<open>Registration\<close>

text \<open>What the library and the environment give a handler.\<close>

record key_env =
  kv_ishex :: "string \<Rightarrow> bool"
  kv_hexa :: "string \<Rightarrow> string"
  kv_recover :: "string \<Rightarrow> string \<Rightarrow> string option"
  kv_keyBytes :: "string option"
  kv_idBytes :: "string option"
  kv_writes :: bool

datatype key_reply =
  Refused int string
| Registered string string string
| Created string registrationRecord
| Listed "(string \<times> string \<times> string \<times> bool) list"
| Deleted string

definition walletAlreadyRegistered :: "string \<Rightarrow> keystore \<Rightarrow> bool" where
  "walletAlreadyRegistered canonical ks \<longleftrightarrow> list_ex (\<lambda>(h, e). EqualFold (ke_wallet e) canonical) (ks_keys ks)"

definition createKey :: "key_env \<Rightarrow> string \<Rightarrow> string \<Rightarrow> gotime \<Rightarrow> keystore \<Rightarrow> (string \<times> registrationRecord \<times> keystore) option" where
  "createKey env wallet name now ks =
     (case (generateAPIKey (kv_keyBytes env), generateKeyID (kv_idBytes env)) of
        (Some key, Some i) \<Rightarrow>
          let rec = \<lparr>rg_id = i, rg_name = name, rg_wallet = wallet, rg_hash = hashKey key, rg_display = keyDisplay key,
                     rg_created = now, rg_key = ''''\<rparr>
          in (case appendRegistration (kv_writes env) rec (ks_store ks) of
                None \<Rightarrow> None
              | Some st \<Rightarrow>
                  Some (key, rec, ks\<lparr>ks_store := st,
                    ks_keys := aput (rg_hash rec) \<lparr>ke_name = name, ke_wallet = wallet, ke_id = i, ke_static = False\<rparr> (ks_keys ks)\<rparr>))
      | _ \<Rightarrow> None)"

record register_request =
  rr_wallet_hex :: string
  rr_issuedAt :: int
  rr_signature :: string
  rr_keyname :: string

definition handleRegister :: "key_env \<Rightarrow> bool \<Rightarrow> gotime \<Rightarrow> register_request option \<Rightarrow> keystore \<times> balance_cache option \<Rightarrow> key_reply \<times> keystore \<times> balance_cache option" where
  "handleRegister env allowed now rq = (\<lambda>(ks, bc).
     if \<not> allowed then (Refused 429 ''too many registration requests'', ks, bc)
     else case rq of
       None \<Rightarrow> (Refused 400 ''invalid JSON body'', ks, bc)
     | Some req \<Rightarrow>
         if \<not> kv_ishex env (rr_wallet_hex req) then (Refused 400 ''wallet must be a 0x EVM address'', ks, bc)
         else let canonical = kv_hexa env (rr_wallet_hex req)
              in if \<not> fresh_enough now (rr_issuedAt req) then (Refused 400 ''issued_at outside the window'', ks, bc)
                 else if \<not> verifyEthSignature (kv_recover env) (registrationMessage canonical (rr_issuedAt req)) (rr_signature req) canonical
                 then (Refused 401 ''signature does not match wallet'', ks, bc)
                 else let ks = pruneSeenSigs now ks; sk = sig_key (rr_signature req)
                      in if alookup (ks_seen ks) sk \<noteq> None then (Refused 409 ''signature already used'', ks, bc)
                         else if walletAlreadyRegistered canonical ks then (Refused 409 ''wallet already registered'', ks, bc)
                         else let name = TrimSpace (rr_keyname req);
                                  name = (if name = '''' then ''user-'' @ ToLower (take 6 (drop 2 canonical)) else name)
                              in (case createKey env canonical name now ks of
                                    None \<Rightarrow> (Refused 500 ''failed to persist registration'', ks, bc)
                                  | Some (key, rec, ks) \<Rightarrow>
                                      (Registered key canonical name, ks\<lparr>ks_seen := aput sk (now + registrationWindow) (ks_seen ks)\<rparr>,
                                       map_option (AddWallet EqualFold canonical) bc)))"

section \<open>Key management\<close>

definition validKeysAction :: "string \<Rightarrow> bool" where
  "validKeysAction a \<longleftrightarrow> a = ''create'' \<or> a = ''delete'' \<or> a = ''list''"

definition keysCreate :: "key_env \<Rightarrow> string \<Rightarrow> string \<Rightarrow> gotime \<Rightarrow> keystore \<times> balance_cache option \<Rightarrow> key_reply \<times> keystore \<times> balance_cache option" where
  "keysCreate env wallet name now = (\<lambda>(ks, bc).
     let most = (if ks_maxPerWallet ks \<le> 0 then maxKeysPerWalletDefault else ks_maxPerWallet ks);
         (recs, st) = loadRegistrationsFile (kv_writes env) (ks_store ks);
         ks = ks\<lparr>ks_store := st\<rparr>;
         owned = int (length (filter (\<lambda>r. EqualFold (rg_wallet r) wallet) recs))
     in if owned \<ge> most then (Refused 409 ''key limit reached'', ks, bc)
        else let name = (if name = '''' then ''key-'' @ dec_int (owned + 1) else name)
             in (case createKey env wallet name now ks of
                   None \<Rightarrow> (Refused 500 ''failed to create key'', ks, bc)
                 | Some (key, rec, ks) \<Rightarrow> (Created key rec, ks, map_option (AddWallet EqualFold wallet) bc)))"

definition keysList :: "key_env \<Rightarrow> string \<Rightarrow> keystore \<Rightarrow> key_reply \<times> keystore" where
  "keysList env wallet ks =
     (let (recs, st) = loadRegistrationsFile (kv_writes env) (ks_store ks)
      in (Listed (List.map (\<lambda>r. (rg_id r, rg_name r, rg_display r, False)) (filter (\<lambda>r. EqualFold (rg_wallet r) wallet) recs)
            @ List.map (\<lambda>(h, e). ('''', ke_name e, ''(operator-configured)'', True))
                (filter (\<lambda>(h, e). ke_static e \<and> EqualFold (ke_wallet e) wallet) (ks_keys ks))),
          ks\<lparr>ks_store := st\<rparr>))"

fun remove_first :: "('a \<Rightarrow> bool) \<Rightarrow> 'a list \<Rightarrow> ('a \<times> 'a list) option" where
  "remove_first P [] = None"
| "remove_first P (x # xs) = (if P x then Some (x, xs) else map_option (\<lambda>(y, ys). (y, x # ys)) (remove_first P xs))"

definition keysDelete :: "key_env \<Rightarrow> string \<Rightarrow> string \<Rightarrow> keystore \<Rightarrow> key_reply \<times> keystore" where
  "keysDelete env wallet keyID ks =
     (let (recs, st) = loadRegistrationsFile (kv_writes env) (ks_store ks);
          ks = ks\<lparr>ks_store := st\<rparr>
      in case remove_first (\<lambda>r. rg_id r = keyID \<and> EqualFold (rg_wallet r) wallet) recs of
           None \<Rightarrow> (Refused 404 ''key not found for this wallet'', ks)
         | Some (removed, rest) \<Rightarrow>
             (case (if st = NoPath then Some NoPath else writeRegistrationsFile (kv_writes env) rest st) of
                None \<Rightarrow> (Refused 500 ''failed to persist deletion'', ks)
              | Some st \<Rightarrow> (Deleted keyID, ks\<lparr>ks_store := st, ks_keys := adel (rg_hash removed) (ks_keys ks)\<rparr>)))"

record keys_request =
  kq_wallet :: string
  kq_action :: string
  kq_issuedAt :: int
  kq_signature :: string
  kq_name :: string
  kq_keyID :: string

text \<open>The switch over the action, once the signature is recorded as used.\<close>

definition keysAction :: "key_env \<Rightarrow> string \<Rightarrow> string \<Rightarrow> string \<Rightarrow> string \<Rightarrow> gotime \<Rightarrow> keystore \<times> balance_cache option \<Rightarrow> key_reply \<times> keystore \<times> balance_cache option" where
  "keysAction env action canonical name keyID now = (\<lambda>(ks, bc).
     if action = ''create'' then keysCreate env canonical name now (ks, bc)
     else if action = ''list'' then (let (r, ks) = keysList env canonical ks in (r, ks, bc))
     else (let (r, ks) = keysDelete env canonical keyID ks in (r, ks, bc)))"

definition handleKeys :: "key_env \<Rightarrow> bool \<Rightarrow> gotime \<Rightarrow> keys_request option \<Rightarrow> keystore \<times> balance_cache option \<Rightarrow> key_reply \<times> keystore \<times> balance_cache option" where
  "handleKeys env allowed now rq = (\<lambda>(ks, bc).
     if \<not> allowed then (Refused 429 ''too many key-management requests'', ks, bc)
     else case rq of
       None \<Rightarrow> (Refused 400 ''invalid JSON body'', ks, bc)
     | Some req \<Rightarrow>
         if \<not> validKeysAction (kq_action req) then (Refused 400 ''unknown action'', ks, bc)
         else if \<not> kv_ishex env (kq_wallet req) then (Refused 400 ''wallet must be a 0x EVM address'', ks, bc)
         else let canonical = kv_hexa env (kq_wallet req); name = TrimSpace (kq_name req); keyID = TrimSpace (kq_keyID req)
              in if kq_action req = ''delete'' \<and> keyID = '''' then (Refused 400 ''delete requires key_id'', ks, bc)
                 else if \<not> fresh_enough now (kq_issuedAt req) then (Refused 400 ''issued_at outside the window'', ks, bc)
                 else if \<not> verifyEthSignature (kv_recover env)
                        (keyManagementMessage (kq_action req) canonical (kq_issuedAt req) name keyID) (kq_signature req) canonical
                 then (Refused 401 ''signature does not match wallet'', ks, bc)
                 else let ks = pruneSeenSigs now ks; sk = sig_key (kq_signature req)
                      in if alookup (ks_seen ks) sk \<noteq> None then (Refused 409 ''signature already used'', ks, bc)
                         else keysAction env (kq_action req) canonical name keyID now
                                (ks\<lparr>ks_seen := aput sk (now + registrationWindow) (ks_seen ks)\<rparr>, bc))"

text \<open>The bearer token of a request is looked up by its hash.\<close>

definition authenticate :: "bool \<Rightarrow> string \<Rightarrow> keystore \<Rightarrow> apiKeyEntry option" where
  "authenticate authEnabled auth ks =
     (if \<not> authEnabled then Some \<lparr>ke_name = ''anonymous'', ke_wallet = '''', ke_id = '''', ke_static = False\<rparr>
      else if auth = '''' then None
      else alookup (ks_keys ks) (hashKey (TrimSpace (TrimPrefix auth ''Bearer ''))))"

definition KnownWallets :: "keystore \<Rightarrow> string list" where
  "KnownWallets ks =
     rev (snd (fold (\<lambda>(_, e) (seen, out).
        if ke_wallet e = '''' \<or> ToLower (ke_wallet e) \<in> set seen then (seen, out)
        else (ToLower (ke_wallet e) # seen, ke_wallet e # out)) (ks_keys ks) ([], [])))"

section \<open>The start of the gateway\<close>

text \<open>The keys of the configuration (the single token only if there is no list), then the stored ones.\<close>

record config_key =
  ck_key :: string
  ck_name :: string
  ck_wallet :: string

definition config_keys :: "config_key list \<Rightarrow> string \<Rightarrow> (string \<times> apiKeyEntry) list" where
  "config_keys ks clientToken =
     (if ks \<noteq> [] then
        fold (\<lambda>k m. if ck_key k \<noteq> '''' then aput (hashKey (ck_key k)) \<lparr>ke_name = ck_name k, ke_wallet = ck_wallet k, ke_id = '''', ke_static = True\<rparr> m else m) ks []
      else if clientToken \<noteq> '''' then [(hashKey clientToken, \<lparr>ke_name = ''default'', ke_wallet = '''', ke_id = '''', ke_static = True\<rparr>)]
      else [])"

definition add_stored :: "registrationRecord \<Rightarrow> (string \<times> apiKeyEntry) list \<Rightarrow> (string \<times> apiKeyEntry) list" where
  "add_stored rec m =
     (if rg_hash rec \<noteq> '''' then aput (rg_hash rec) \<lparr>ke_name = rg_name rec, ke_wallet = rg_wallet rec, ke_id = rg_id rec, ke_static = False\<rparr> m
      else m)"

definition new_keystore :: "(string \<times> apiKeyEntry) list \<Rightarrow> int \<Rightarrow> bool \<Rightarrow> reg_store \<Rightarrow> keystore" where
  "new_keystore static maxPerWallet writes st =
     (let (recs, st) = loadRegistrationsFile writes st
      in \<lparr>ks_keys = fold add_stored recs static, ks_store = st, ks_seen = [], ks_maxPerWallet = maxPerWallet\<rparr>)"

section \<open>A signature works once\<close>

lemma seen_kept: "alookup m k = Some e \<Longrightarrow> now \<le> e \<Longrightarrow> alookup (filter (\<lambda>(s, e). \<not> now > e) m) k = Some (e :: int)"
  by (induction m) (auto split: if_splits)

lemma prune_kept: "alookup (ks_seen ks) k = Some e \<Longrightarrow> now \<le> e \<Longrightarrow> alookup (ks_seen (pruneSeenSigs now ks)) k = Some e"
  using seen_kept by (simp add: pruneSeenSigs_def)

lemma createKey_seen: "createKey env w n t ks = Some (key, rec, ks') \<Longrightarrow> ks_seen ks' = ks_seen ks"
  by (auto simp: createKey_def Let_def split: option.splits)

lemma keysCreate_seen: "ks_seen (fst (snd (keysCreate env w n t (ks, bc)))) = ks_seen ks"
proof -
  obtain recs st where l: "loadRegistrationsFile (kv_writes env) (ks_store ks) = (recs, st)" by fastforce
  have "ks_seen (fst (snd (case createKey env w m t (ks\<lparr>ks_store := st\<rparr>) of
      None \<Rightarrow> (Refused c d, ks\<lparr>ks_store := st\<rparr>, bc) | Some (key, rec, ks) \<Rightarrow> (Created key rec, ks, map_option (AddWallet EqualFold w) bc)))) = ks_seen ks"
    for m c d
    by (cases "createKey env w m t (ks\<lparr>ks_store := st\<rparr>)") (auto dest: createKey_seen)
  then show ?thesis by (simp add: keysCreate_def l Let_def del: split_paired_All)
qed

lemma keysDelete_seen: "ks_seen (snd (keysDelete env w i ks)) = ks_seen ks"
proof -
  obtain recs st where l: "loadRegistrationsFile (kv_writes env) (ks_store ks) = (recs, st)" by fastforce
  show ?thesis
  proof (cases "remove_first (\<lambda>r. rg_id r = i \<and> EqualFold (rg_wallet r) w) recs")
    case (Some p)
    then show ?thesis by (cases p) (simp add: keysDelete_def l writeRegistrationsFile_def)
  qed (simp add: keysDelete_def l)
qed

lemma keysList_seen: "ks_seen (snd (keysList env w ks)) = ks_seen ks"
  by (simp add: keysList_def case_prod_beta)

lemma keysAction_seen: "ks_seen (fst (snd (keysAction env a w n i t (ks, bc)))) = ks_seen ks"
  using keysCreate_seen [of env w n t ks bc] keysDelete_seen [of env w i ks] keysList_seen [of env w ks]
  by (simp add: keysAction_def case_prod_beta)

lemma handleKeys_seen:
  assumes "alookup (ks_seen ks) (sig_key (kq_signature req)) = Some e" "now \<le> e"
  shows "\<exists>c s. fst (handleKeys env a now (Some req) (ks, bc)) = Refused c s"
  using prune_kept [OF assms] by (simp add: handleKeys_def Let_def)

lemma handleKeys_stale:
  "\<not> fresh_enough now (kq_issuedAt req) \<Longrightarrow> \<exists>c s. fst (handleKeys env a now (Some req) (ks, bc)) = Refused c s"
  by (simp add: handleKeys_def Let_def)

lemma handleKeys_marks:
  assumes "handleKeys env a now (Some req) (ks, bc) = (rep, ks', bc')" "\<And>c s. rep \<noteq> Refused c s"
  shows "alookup (ks_seen ks') (sig_key (kq_signature req)) = Some (now + registrationWindow)"
proof -
  let ?ks = "(pruneSeenSigs now ks)\<lparr>ks_seen := aput (sig_key (kq_signature req)) (now + registrationWindow) (ks_seen (pruneSeenSigs now ks))\<rparr>"
  have "(rep, ks', bc') = keysAction env (kq_action req) (kv_hexa env (kq_wallet req)) (TrimSpace (kq_name req)) (TrimSpace (kq_keyID req)) now (?ks, bc)"
    using assms by (auto simp: handleKeys_def Let_def split: if_splits)
  then have "ks_seen ks' = ks_seen ?ks" by (metis fst_conv snd_conv keysAction_seen)
  then show ?thesis by simp
qed

text \<open>The handlers as steps on the key store, and the steps taken up to a time.\<close>

inductive key_call :: "gotime \<Rightarrow> keystore \<Rightarrow> keystore \<Rightarrow> bool" where
  register: "handleRegister env a t rq (ks, bc) = (rep, ks', bc') \<Longrightarrow> key_call t ks ks'"
| manage: "handleKeys env a t rq (ks, bc) = (rep, ks', bc') \<Longrightarrow> key_call t ks ks'"

inductive calls_until :: "gotime \<Rightarrow> keystore \<Rightarrow> keystore \<Rightarrow> bool" where
  none: "calls_until T ks ks"
| call: "calls_until T ks ks' \<Longrightarrow> key_call t ks' ks'' \<Longrightarrow> t \<le> T \<Longrightarrow> calls_until T ks ks''"

lemma alookup_aput_Some: "alookup m k = Some e \<Longrightarrow> k \<noteq> k' \<Longrightarrow> alookup (aput k' v m) k = Some e"
  by simp

lemma key_call_seen:
  assumes "key_call t ks ks'" "alookup (ks_seen ks) k = Some e" "t \<le> e"
  shows "alookup (ks_seen ks') k = Some e"
  using assms(1)
proof cases
  case (register env a rq bc rep bc')
  have "alookup (ks_seen (fst (snd (handleRegister env a t rq (ks, bc))))) k = Some e"
    using assms(2) prune_kept [OF assms(2,3)]
    by (auto simp: handleRegister_def Let_def split: option.splits dest: createKey_seen)
  then show ?thesis using register by simp
next
  case (manage env a rq bc rep bc')
  have "alookup (ks_seen (fst (snd (handleKeys env a t rq (ks, bc))))) k = Some e"
    using assms(2) prune_kept [OF assms(2,3)]
    by (auto simp: handleKeys_def Let_def keysAction_seen split: option.splits)
  then show ?thesis using manage by simp
qed

lemma calls_seen: "calls_until T ks ks' \<Longrightarrow> alookup (ks_seen ks) k = Some e \<Longrightarrow> T \<le> e \<Longrightarrow> alookup (ks_seen ks') k = Some e"
  by (induction rule: calls_until.induct) (auto intro: key_call_seen)

lemma stale: "time_Unix i \<le> t - registrationWindow - 1 \<Longrightarrow> \<not> fresh_enough t i"
  by (auto simp: fresh_enough_def time_Sub_def registrationWindow_def minute_def second_def Let_def)

text \<open>
  C15: A signed management request is carried out at most once while the gateway runs. If a request was accepted and the
  time it was signed for was not in the future then, every later presentation of the same request is
  refused, whatever calls were made in between; the used signatures are in memory, so a restart is not
  one of them.
\<close>

theorem signature_used_once:
  assumes "handleKeys env a now (Some req) (ks, bc) = (rep, ks1, bc1)" "\<forall>c s. rep \<noteq> Refused c s"
    and "time_Unix (kq_issuedAt req) \<le> now" "now \<le> t" "calls_until t ks1 ks2"
  shows "\<exists>c s. fst (handleKeys env' a' t (Some req) (ks2, bc2)) = Refused c s"
proof (cases "t \<le> now + registrationWindow")
  case True
  have "alookup (ks_seen ks2) (sig_key (kq_signature req)) = Some (now + registrationWindow)"
    by (rule calls_seen [OF assms(5) handleKeys_marks [OF assms(1)] True]) (use assms(2) in blast)
  then show ?thesis by (rule handleKeys_seen) (rule True)
next
  case False
  then show ?thesis by (intro handleKeys_stale stale) (use assms(3) in linarith)
qed

section \<open>Where replays get through\<close>

text \<open>
  A restart forgets the used signatures. Started anew, the gateway answers a request it carried out
  before the restart like one it has never seen, until the five minutes are over.
\<close>

theorem restart_forgets_signatures:
  assumes "loadRegistrationsFile (kv_writes env) (ks_store ks) = (recs, ks_store ks)" "fresh_enough now (kq_issuedAt req)"
    and "kq_action req = ''list''" "kv_ishex env (kq_wallet req)"
    and "verifyEthSignature (kv_recover env) (keyManagementMessage ''list'' (kv_hexa env (kq_wallet req)) (kq_issuedAt req)
      (TrimSpace (kq_name req)) (TrimSpace (kq_keyID req))) (kq_signature req) (kv_hexa env (kq_wallet req))"
  shows "\<exists>xs ks' bc'. handleKeys env True now (Some req) (new_keystore static m w (ks_store ks), bc) = (Listed xs, ks', bc')"
  using assms by (auto simp: handleKeys_def validKeysAction_def new_keystore_def pruneSeenSigs_def keysAction_def keysList_def case_prod_beta Let_def)

text \<open>
  A time far in the future is always fresh. When \<open>issued_at\<close> lies more than 292 years ahead, the
  difference saturates at the smallest duration, whose negation is itself: the skew stays negative and
  passes the five-minute check at every later time, until that distance is reached.
\<close>

theorem far_future_is_always_fresh:
  assumes "now + 2 ^ 63 \<le> time_Unix s" "s \<noteq> 0"
  shows "fresh_enough now s"
proof -
  have "time_Sub now (time_Unix s) = - (2 ^ 63)" using assms(1) by (simp add: time_Sub_def)
  moreover have "wrap64 (2 ^ 63) = - (2 ^ 63)" by (simp add: wrap64_def)
  ultimately show ?thesis using assms(2) by (simp add: fresh_enough_def registrationWindow_def minute_def second_def)
qed

lemma hex_encode_chars: "c \<in> set (hex_encode s) \<Longrightarrow> \<exists>n < 16. c = hex_digit n"
proof -
  assume "c \<in> set (hex_encode s)"
  then obtain d where "c = hex_digit (of_char d div 16) \<or> c = hex_digit (of_char d mod 16)"
    by (auto simp: hex_encode_def)
  moreover have "(of_char d :: nat) div 16 < 16"
  proof -
    have "(of_char d :: nat) < 256" by (metis of_char_mod_256 mod_less_divisor zero_less_numeral)
    then show ?thesis by (simp add: less_mult_imp_div_less)
  qed
  moreover have "(of_char d :: nat) mod 16 < 16" by simp
  ultimately show ?thesis by blast
qed

lemma hex_digit_facts: "n < 16 \<Longrightarrow> \<not> is_space (hex_digit n) \<and> lower_char (hex_digit n) = hex_digit n \<and> hex_digit n \<noteq> CHR ''x''"
proof -
  assume n: "n < 16"
  have v: "(of_char (hex_digit n) :: nat) = (if n < 10 then 48 + n else 87 + n)" using n by (simp add: hex_digit_def)
  have "hex_digit n \<noteq> CHR ''x''"
  proof
    assume "hex_digit n = CHR ''x''"
    then have "(of_char (hex_digit n) :: nat) = 120" by simp
    then show False using v n by (simp split: if_splits)
  qed
  then show ?thesis using n by (simp add: is_space_def lower_char_def v Let_def)
qed

lemma hex_encode_plain:
  "TrimSpace (hex_encode s) = hex_encode s" "TrimPrefix (hex_encode s) ''0x'' = hex_encode s" "ToLower (hex_encode s) = hex_encode s"
proof -
  have c: "\<not> is_space c \<and> lower_char c = c \<and> c \<noteq> CHR ''x''" if m: "c \<in> set (hex_encode s)" for c
  proof -
    obtain n where "n < 16" "c = hex_digit n" using hex_encode_chars [OF m] by blast
    then show ?thesis using hex_digit_facts [of n] by simp
  qed
  have drop: "dropWhile is_space xs = xs" if "\<forall>c \<in> set xs. \<not> is_space c" for xs
    using that by (cases xs) auto
  show "TrimSpace (hex_encode s) = hex_encode s" using c by (simp add: TrimSpace_def drop)
  show "ToLower (hex_encode s) = hex_encode s" using c by (simp add: ToLower_def map_idI)
  have "\<not> HasPrefix (hex_encode s) ''0x''"
  proof
    assume "HasPrefix (hex_encode s) ''0x''"
    then obtain r where "hex_encode s = ''0x'' @ r" by (auto simp: HasPrefix_iff)
    then have "CHR ''x'' \<in> set (hex_encode s)" by simp
    then show False using c by blast
  qed
  then show "TrimPrefix (hex_encode s) ''0x'' = hex_encode s" by (simp add: TrimPrefix_def)
qed

lemma hex_encode_inj: "hex_encode a = hex_encode b \<longleftrightarrow> a = b"
  by (metis hex_roundtrip option.inject)

lemma signature_update: "length b = 64 \<Longrightarrow> (b @ [c])[64 := d] = b @ [d]"
  by (metis list_update_length)

text \<open>
  A signature has two spellings. The verifier maps the recovery byte 27 to 0 and 28 to 1, but the
  replay guard compares the text: a signature with the low form verifies exactly like the one with
  the high form, and using one does not mark the other.
\<close>

theorem recovery_byte_evades_guard:
  assumes "length b = 64" "v = 0 \<or> v = (1 :: nat)"
  shows "verifyEthSignature recover msg (hex_encode (b @ [char_of v])) addr =
      verifyEthSignature recover msg (hex_encode (b @ [char_of (v + 27)])) addr \<and>
    sig_key (hex_encode (b @ [char_of v])) \<noteq> sig_key (hex_encode (b @ [char_of (v + 27)]))"
  using assms signature_update [of b] by (auto simp: verifyEthSignature_def hex_encode_plain hex_encode_inj sig_key_def nth_append Let_def)

theorem recovery_byte_evades_guard_witness:
  "sig_key (hex_encode (replicate 64 CHR ''a'' @ [char_of (0 :: nat)])) \<noteq> sig_key (hex_encode (replicate 64 CHR ''a'' @ [char_of (27 :: nat)]))"
  using recovery_byte_evades_guard [of "replicate 64 CHR ''a''" 0] by simp

theorem far_future_is_always_fresh_witness: "fresh_enough (unix_epoch * second) (10 ^ 10)"
  by (rule far_future_is_always_fresh) (simp_all add: time_Unix_def unix_epoch_def second_def wrap64_def)

section \<open>The store and the key table agree\<close>

definition store_recs :: "reg_store \<Rightarrow> registrationRecord list" where
  "store_recs st = fst (loadRegistrationsFile False st)"

lemma load_eq [simp]: "fst (loadRegistrationsFile w st) = store_recs st"
  by (simp add: store_recs_def loadRegistrationsFile_def Let_def split: reg_store.split)

lemma migrate_idem [simp]: "migrateRegistrationRecord (migrateRegistrationRecord r) = migrateRegistrationRecord r"
  by (simp add: migrateRegistrationRecord_def Let_def)

lemma store_recs_load [simp]: "store_recs (snd (loadRegistrationsFile w st)) = store_recs st"
  by (simp add: store_recs_def loadRegistrationsFile_def Let_def comp_def split: reg_store.split)

lemma store_recs_Stored: "store_recs (Stored recs) = List.map migrateRegistrationRecord recs"
  by (simp add: store_recs_def loadRegistrationsFile_def Let_def)

lemma store_recs_fixed: "List.map migrateRegistrationRecord (store_recs st) = store_recs st"
  by (simp add: store_recs_def loadRegistrationsFile_def Let_def comp_def split: reg_store.split)

definition real_store :: "reg_store \<Rightarrow> bool" where
  "real_store st \<longleftrightarrow> st = Missing \<or> (\<exists>recs. st = Stored recs)"

lemma real_store_load [simp]: "real_store (snd (loadRegistrationsFile w st)) = real_store st"
  by (auto simp: real_store_def loadRegistrationsFile_def Let_def split: reg_store.split)

lemma table_other: "h \<notin> rg_hash ` set recs \<Longrightarrow> alookup (fold add_stored recs m) h = alookup m h"
  by (induction recs arbitrary: m) (auto simp: add_stored_def)

lemma table_cong: "(\<And>h. h \<noteq> k \<Longrightarrow> alookup m h = alookup m' h) \<Longrightarrow> h \<noteq> k \<Longrightarrow>
    alookup (fold add_stored recs m) h = alookup (fold add_stored recs m') h"
proof (induction recs arbitrary: m m')
  case (Cons r recs)
  have "alookup (add_stored r m) h = alookup (add_stored r m') h" if "h \<noteq> k" for h
    using Cons.prems(1) that by (simp add: add_stored_def)
  then show ?case unfolding fold_simps by (rule Cons.IH [OF _ Cons.prems(2)])
qed simp

lemma remove_first_split: "remove_first P xs = Some (y, zs) \<Longrightarrow> \<exists>us vs. xs = us @ y # vs \<and> zs = us @ vs \<and> P y"
proof (induction xs arbitrary: zs)
  case (Cons x xs)
  show ?case
  proof (cases "P x")
    case True
    then have "x # xs = [] @ y # zs \<and> zs = [] @ zs \<and> P y" using Cons.prems by simp
    then show ?thesis by blast
  next
    case False
    then obtain ws where r: "remove_first P xs = Some (y, ws)" "zs = x # ws" using Cons.prems by auto
    from Cons.IH [OF r(1)] obtain us vs where "xs = us @ y # vs" "ws = us @ vs" "P y" by blast
    then show ?thesis using r(2) by (intro exI [of _ "x # us"] exI [of _ vs]) simp
  qed
qed simp

definition hashes_ok :: "(string \<times> apiKeyEntry) list \<Rightarrow> registrationRecord list \<Rightarrow> bool" where
  "hashes_ok static recs \<longleftrightarrow>
     distinct (filter (\<lambda>h. h \<noteq> '''') (List.map rg_hash recs)) \<and> rg_hash ` set recs \<inter> set (akeys static) = {} \<and> '''' \<notin> set (akeys static)"

definition store_ok :: "(string \<times> apiKeyEntry) list \<Rightarrow> keystore \<Rightarrow> bool" where
  "store_ok static ks \<longleftrightarrow>
     real_store (ks_store ks) \<and> hashes_ok static (store_recs (ks_store ks)) \<and>
     (\<forall>h. alookup (ks_keys ks) h = alookup (fold add_stored (store_recs (ks_store ks)) static) h)"

lemma hashKey_nonempty: "hashKey k \<noteq> ''''"
proof
  assume "hashKey k = ''''"
  then have "hex_decode (hex_encode (sha256 k)) = hex_decode []" by (simp add: hashKey_def)
  then have "sha256 k = []" by simp
  then show False using length_sha256 [of k] by simp
qed

lemma store_ok_seen [simp]: "store_ok static (ks\<lparr>ks_seen := s\<rparr>) = store_ok static ks"
  by (simp add: store_ok_def)

lemma store_ok_prune [simp]: "store_ok static (pruneSeenSigs t ks) = store_ok static ks"
  by (simp add: pruneSeenSigs_def)

lemma store_ok_load: "store_ok static ks \<Longrightarrow> store_ok static (ks\<lparr>ks_store := snd (loadRegistrationsFile w (ks_store ks))\<rparr>)"
  by (simp add: store_ok_def)

text \<open>The random bytes of a new key make one that is not in the table yet.\<close>

definition fresh_key :: "key_env \<Rightarrow> keystore \<Rightarrow> bool" where
  "fresh_key env ks \<longleftrightarrow>
     (case generateAPIKey (kv_keyBytes env) of Some k \<Rightarrow> hashKey k \<notin> set (akeys (ks_keys ks)) | None \<Rightarrow> True)"

lemma fresh_key_frame [simp]:
  "fresh_key env (ks\<lparr>ks_store := st\<rparr>) = fresh_key env ks" "fresh_key env (ks\<lparr>ks_seen := s\<rparr>) = fresh_key env ks"
  "fresh_key env (pruneSeenSigs t ks) = fresh_key env ks"
  by (simp_all add: fresh_key_def pruneSeenSigs_def split: option.split)

lemma table_keeps: "alookup m h \<noteq> None \<Longrightarrow> alookup (fold add_stored recs m) h \<noteq> None"
proof (induction recs arbitrary: m)
  case (Cons r recs)
  have "alookup (add_stored r m) h \<noteq> None" using Cons.prems by (simp add: add_stored_def)
  then show ?case unfolding fold_simps by (rule Cons.IH)
qed simp

lemma in_table: "r \<in> set recs \<Longrightarrow> rg_hash r \<noteq> '''' \<Longrightarrow> alookup (fold add_stored recs m) (rg_hash r) \<noteq> None"
proof -
  assume r: "r \<in> set recs" "rg_hash r \<noteq> ''''"
  obtain us vs where recs: "recs = us @ r # vs" using r(1) by (meson split_list)
  have "alookup (add_stored r (fold add_stored us m)) (rg_hash r) \<noteq> None" using r(2) by (simp add: add_stored_def)
  from table_keeps [OF this, of vs] show ?thesis by (simp add: recs)
qed

lemma store_ok_create:
  assumes "store_ok static ks" "fresh_key env ks" "createKey env w n t ks = Some (key, rec, ks')"
  shows "store_ok static ks'"
proof -
  let ?recs = "store_recs (ks_store ks)"
  obtain i where k: "generateAPIKey (kv_keyBytes env) = Some key" and
      rec: "rec = \<lparr>rg_id = i, rg_name = n, rg_wallet = w, rg_hash = hashKey key, rg_display = keyDisplay key, rg_created = t, rg_key = ''''\<rparr>"
    using assms(3) by (auto simp: createKey_def Let_def split: option.splits)
  have np: "ks_store ks \<noteq> NoPath" using assms(1) by (auto simp: store_ok_def real_store_def)
  have ks': "ks' = ks\<lparr>ks_store := Stored (?recs @ [rec]),
      ks_keys := aput (hashKey key) \<lparr>ke_name = n, ke_wallet = w, ke_id = i, ke_static = False\<rparr> (ks_keys ks)\<rparr>"
    using assms(3) np by (auto simp: createKey_def Let_def rec appendRegistration_def writeRegistrationsFile_def case_prod_beta split: option.splits if_splits)
  have mig: "migrateRegistrationRecord rec = rec" by (simp add: migrateRegistrationRecord_def rec)
  have recs': "store_recs (ks_store ks') = ?recs @ [rec]" by (simp add: ks' store_recs_Stored store_recs_fixed mig)
  have new: "hashKey key \<notin> set (akeys (ks_keys ks))" using assms(2) by (simp add: fresh_key_def k)
  then have look: "alookup (fold add_stored ?recs static) (hashKey key) = None"
    using assms(1) by (simp add: store_ok_def alookup_None_iff [symmetric])
  have nh: "hashKey key \<notin> rg_hash ` set ?recs"
  proof
    assume "hashKey key \<in> rg_hash ` set ?recs"
    then obtain r where "r \<in> set ?recs" "rg_hash r = hashKey key" by auto
    then show False using in_table [of r ?recs static] look hashKey_nonempty by simp
  qed
  then have ns: "hashKey key \<notin> set (akeys static)" using look by (simp add: table_other alookup_None_iff)
  have "hashes_ok static (?recs @ [rec])"
    using assms(1) nh ns by (auto simp: store_ok_def hashes_ok_def rec)
  moreover have "alookup (ks_keys ks') h = alookup (fold add_stored (?recs @ [rec]) static) h" for h
    using assms(1) hashKey_nonempty [of key] by (simp add: ks' rec add_stored_def store_ok_def)
  ultimately show ?thesis by (simp add: store_ok_def recs') (simp add: ks' real_store_def)
qed

lemma store_ok_delete:
  assumes "store_ok static ks"
  shows "store_ok static (snd (keysDelete env w i ks))"
proof -
  let ?recs = "store_recs (ks_store ks)"
  define st where "st = snd (loadRegistrationsFile (kv_writes env) (ks_store ks))"
  have l: "loadRegistrationsFile (kv_writes env) (ks_store ks) = (?recs, st)" by (simp add: st_def prod_eq_iff)
  have keep: "store_ok static (ks\<lparr>ks_store := st\<rparr>)" unfolding st_def by (rule store_ok_load [OF assms])
  have np: "st \<noteq> NoPath" using keep by (auto simp: store_ok_def real_store_def)
  show ?thesis
  proof (cases "remove_first (\<lambda>r. rg_id r = i \<and> EqualFold (rg_wallet r) w) ?recs")
    case None
    then show ?thesis using keep by (simp add: keysDelete_def l)
  next
    case (Some p)
    obtain removed rest where p: "p = (removed, rest)" by (cases p)
    obtain us vs where recs: "?recs = us @ removed # vs" "rest = us @ vs" using remove_first_split [OF Some [unfolded p]] by blast
    show ?thesis
    proof (cases "kv_writes env")
      case False
      show ?thesis using keep np unfolding keysDelete_def l by (simp add: Some p writeRegistrationsFile_def False)
    next
      case True
      have r: "snd (keysDelete env w i ks) = ks\<lparr>ks_store := Stored rest, ks_keys := adel (rg_hash removed) (ks_keys ks)\<rparr>"
        using np unfolding keysDelete_def l by (simp add: Some p writeRegistrationsFile_def True)
      have fixed: "List.map migrateRegistrationRecord rest = rest"
        using store_recs_fixed [of "ks_store ks"] by (simp add: recs)
      have ok: "hashes_ok static (us @ removed # vs)" using assms by (simp add: store_ok_def recs)
      have "hashes_ok static rest" using ok by (auto simp: hashes_ok_def recs split: if_splits)
      moreover have "alookup (adel (rg_hash removed) (ks_keys ks)) h = alookup (fold add_stored rest static) h" for h
      proof (cases "h = rg_hash removed")
        case True
        have "alookup static h = None" using ok True by (auto simp: hashes_ok_def alookup_None_iff)
        moreover have "alookup (fold add_stored rest static) h = alookup static h"
        proof (cases "h = ''''")
          case True
          have "alookup (fold add_stored rs m) '''' = alookup m ''''" for rs m
            by (induction rs arbitrary: m) (auto simp: add_stored_def)
          then show ?thesis using True by simp
        next
          case False
          then have "h \<notin> rg_hash ` set rest" using ok True by (auto simp: hashes_ok_def recs)
          then show ?thesis by (rule table_other)
        qed
        ultimately show ?thesis using True by simp
      next
        case False
        have "alookup (fold add_stored vs (add_stored removed (fold add_stored us static))) h = alookup (fold add_stored vs (fold add_stored us static)) h"
          by (rule table_cong [where k = "rg_hash removed"]) (use False in \<open>auto simp: add_stored_def\<close>)
        then show ?thesis using False assms by (simp add: store_ok_def recs)
      qed
      ultimately show ?thesis by (simp add: r store_ok_def store_recs_Stored fixed) (simp add: real_store_def)
    qed
  qed
qed

lemma store_ok_register:
  assumes "store_ok static ks" "fresh_key env ks"
  shows "store_ok static (fst (snd (handleRegister env a t rq (ks, bc))))"
proof -
  have f: "fresh_key env (pruneSeenSigs t ks)" using assms(2) by simp
  have "store_ok static ks'" if "createKey env w n t (pruneSeenSigs t ks) = Some (key, rec, ks')" for w n key rec ks'
    using store_ok_create [OF _ f that] assms(1) by simp
  then show ?thesis using assms(1)
    by (auto simp: handleRegister_def Let_def split: option.split)
qed

lemma store_ok_manage:
  assumes "store_ok static ks" "fresh_key env ks"
  shows "store_ok static (fst (snd (handleKeys env a t rq (ks, bc))))"
proof -
  have cr: "store_ok static (fst (snd (keysCreate env w n t (k, bc))))" if k: "store_ok static k" "fresh_key env k" for w n k
  proof -
    let ?k = "k\<lparr>ks_store := snd (loadRegistrationsFile (kv_writes env) (ks_store k))\<rparr>"
    have f: "fresh_key env ?k" using k(2) by simp
    note ok = store_ok_load [OF k(1), of "kv_writes env"]
    have "store_ok static k'" if "createKey env w m t ?k = Some (key, rec, k')" for m key rec k'
      by (rule store_ok_create [OF ok f that])
    then show ?thesis using ok by (auto simp: keysCreate_def case_prod_beta Let_def split: option.split)
  qed
  have act: "store_ok static (fst (snd (keysAction env act w n i t (k, bc))))" if k: "store_ok static k" "fresh_key env k" for act w n i k
    using cr [OF k, of w n] store_ok_delete [OF k(1), of env w i] store_ok_load [OF k(1), of "kv_writes env"]
    by (simp add: keysAction_def case_prod_beta keysList_def)
  have p: "store_ok static ((pruneSeenSigs t ks)\<lparr>ks_seen := s\<rparr>)" "fresh_key env ((pruneSeenSigs t ks)\<lparr>ks_seen := s\<rparr>)" for s
    using assms by simp_all
  show ?thesis using assms(1) act [OF p] by (auto simp: handleKeys_def Let_def split: option.split)
qed

text \<open>A gateway's life: handler calls with fresh keys, and restarts.\<close>

inductive key_life :: "(string \<times> apiKeyEntry) list \<Rightarrow> keystore \<Rightarrow> keystore \<Rightarrow> bool" for static where
  start: "key_life static ks ks"
| registering: "key_life static ks ks' \<Longrightarrow> fresh_key env ks' \<Longrightarrow> handleRegister env a t rq (ks', bc) = (rep, ks'', bc') \<Longrightarrow> key_life static ks ks''"
| managing: "key_life static ks ks' \<Longrightarrow> fresh_key env ks' \<Longrightarrow> handleKeys env a t rq (ks', bc) = (rep, ks'', bc') \<Longrightarrow> key_life static ks ks''"
| restart: "key_life static ks ks' \<Longrightarrow> key_life static ks (new_keystore static (ks_maxPerWallet ks') writes (ks_store ks'))"

lemma store_ok_new: "real_store st \<Longrightarrow> hashes_ok static (store_recs st) \<Longrightarrow> store_ok static (new_keystore static m w st)"
  by (simp add: store_ok_def new_keystore_def case_prod_beta)

lemma store_ok_life: "key_life static ks ks' \<Longrightarrow> store_ok static ks \<Longrightarrow> store_ok static ks'"
proof (induction rule: key_life.induct)
  case (registering ks ks' env a t rq bc rep ks'' bc')
  then show ?case using store_ok_register [of static ks' env a t rq bc] by simp
next
  case (managing ks ks' env a t rq bc rep ks'' bc')
  then show ?case using store_ok_manage [of static ks' env a t rq bc] by simp
next
  case (restart ks ks' writes)
  then show ?case by (intro store_ok_new) (simp_all add: store_ok_def)
qed simp

text \<open>
  A store to start from: readable, with distinct hashes, none of them that of a key of the
  configuration.
\<close>

definition good_store :: "(string \<times> apiKeyEntry) list \<Rightarrow> reg_store \<Rightarrow> bool" where
  "good_store static st \<longleftrightarrow> real_store st \<and> hashes_ok static (store_recs st)"

lemma store_ok_started: "good_store static st \<Longrightarrow> key_life static (new_keystore static m w st) ks \<Longrightarrow> store_ok static ks"
  by (rule store_ok_life) (auto simp: good_store_def intro: store_ok_new)

lemma good_store_again: "store_ok static ks \<Longrightarrow> good_store static (ks_store ks)"
  by (simp add: store_ok_def good_store_def)

lemma restarted_table:
  "store_ok static ks \<Longrightarrow> alookup (ks_keys (new_keystore static m w (ks_store ks))) h = alookup (ks_keys ks) h"
  by (simp add: store_ok_def new_keystore_def case_prod_beta)

section \<open>Only the owner's keys change\<close>

definition stored_entry :: "registrationRecord \<Rightarrow> apiKeyEntry" where
  "stored_entry r = \<lparr>ke_name = rg_name r, ke_wallet = rg_wallet r, ke_id = rg_id r, ke_static = False\<rparr>"

lemma table_at:
  assumes "hashes_ok static recs" "r \<in> set recs" "rg_hash r \<noteq> ''''"
  shows "alookup (fold add_stored recs static) (rg_hash r) = Some (stored_entry r)"
proof -
  obtain us vs where recs: "recs = us @ r # vs" using assms(2) by (meson split_list)
  have "rg_hash r \<notin> rg_hash ` set vs" using assms(1,3) by (auto simp: hashes_ok_def recs)
  then show ?thesis by (simp add: recs table_other) (simp add: add_stored_def stored_entry_def assms(3))
qed

lemma delete_keeps_others:
  assumes "store_ok static ks" "alookup (ks_keys ks) h = Some e" "\<not> EqualFold (ke_wallet e) w"
  shows "alookup (ks_keys (snd (keysDelete env w i ks))) h = Some e"
proof -
  let ?recs = "store_recs (ks_store ks)"
  define st where "st = snd (loadRegistrationsFile (kv_writes env) (ks_store ks))"
  have l: "loadRegistrationsFile (kv_writes env) (ks_store ks) = (?recs, st)" by (simp add: st_def prod_eq_iff)
  have other: "rg_hash removed \<noteq> h" if rf: "remove_first (\<lambda>r. rg_id r = i \<and> EqualFold (rg_wallet r) w) ?recs = Some (removed, rest)" for removed rest
  proof
    assume h: "rg_hash removed = h"
    obtain us vs where r: "?recs = us @ removed # vs" "EqualFold (rg_wallet removed) w"
      using remove_first_split [OF rf] by blast
    have ok: "hashes_ok static ?recs" "alookup (fold add_stored ?recs static) h = Some e" using assms(1,2) by (simp_all add: store_ok_def)
    have "h \<noteq> ''''"
    proof
      assume "h = ''''"
      moreover have "alookup (fold add_stored rs m) '''' = alookup m ''''" for rs m
        by (induction rs arbitrary: m) (auto simp: add_stored_def)
      ultimately have "alookup static '''' = Some e" using ok(2) by simp
      moreover have "alookup static '''' = None" using ok(1) by (simp add: hashes_ok_def alookup_None_iff)
      ultimately show False by simp
    qed
    then have "e = stored_entry removed" using table_at [OF ok(1), of removed] ok(2) h r(1) by simp
    then show False using r(2) assms(3) by (simp add: stored_entry_def)
  qed
  show ?thesis
  proof (cases "remove_first (\<lambda>r. rg_id r = i \<and> EqualFold (rg_wallet r) w) ?recs")
    case None
    then show ?thesis using assms(2) unfolding keysDelete_def l by simp
  next
    case (Some p)
    obtain removed rest where p: "p = (removed, rest)" by (cases p)
    show ?thesis using assms(2) other [OF Some [unfolded p]] unfolding keysDelete_def l
      by (simp add: Some p writeRegistrationsFile_def)
  qed
qed

text \<open>\<open>owned w x\<close>: \<open>x\<close> is no entry, or one of the wallet \<open>w\<close>.\<close>

definition owned :: "string \<Rightarrow> apiKeyEntry option \<Rightarrow> bool" where
  "owned w x = (case x of None \<Rightarrow> True | Some e \<Rightarrow> EqualFold (ke_wallet e) w)"

definition only_changes :: "string \<Rightarrow> keystore \<Rightarrow> keystore \<Rightarrow> bool" where
  "only_changes w ks ks' \<longleftrightarrow>
     (\<forall>h. alookup (ks_keys ks') h = alookup (ks_keys ks) h \<or> owned w (alookup (ks_keys ks) h) \<and> owned w (alookup (ks_keys ks') h)) \<and>
     filter (\<lambda>r. \<not> EqualFold (rg_wallet r) w) (store_recs (ks_store ks')) = filter (\<lambda>r. \<not> EqualFold (rg_wallet r) w) (store_recs (ks_store ks))"

lemma only_changes_refl [simp]: "only_changes w ks ks"
  by (simp add: only_changes_def)

lemma only_changes_load:
  "only_changes w (k\<lparr>ks_store := snd (loadRegistrationsFile b (ks_store k))\<rparr>) k' = only_changes w k k'"
  "only_changes w k (k'\<lparr>ks_store := snd (loadRegistrationsFile b (ks_store k'))\<rparr>) = only_changes w k k'"
  by (simp_all add: only_changes_def)

lemma EqualFold_refl [simp]: "EqualFold w w"
  by (simp add: EqualFold_def)

lemma delete_only_changes:
  assumes "store_ok static ks"
  shows "only_changes w ks (snd (keysDelete env w i ks))"
proof -
  let ?recs = "store_recs (ks_store ks)"
  define st where "st = snd (loadRegistrationsFile (kv_writes env) (ks_store ks))"
  have l: "loadRegistrationsFile (kv_writes env) (ks_store ks) = (?recs, st)" by (simp add: st_def prod_eq_iff)
  have same: "only_changes w ks (ks\<lparr>ks_store := st\<rparr>)" by (simp add: st_def only_changes_load)
  have np: "st \<noteq> NoPath"
    using assms by (auto simp: store_ok_def real_store_def st_def loadRegistrationsFile_def Let_def split: if_splits)
  show ?thesis
  proof (cases "remove_first (\<lambda>r. rg_id r = i \<and> EqualFold (rg_wallet r) w) ?recs")
    case None
    then show ?thesis using same by (simp add: keysDelete_def l)
  next
    case (Some p)
    obtain removed rest where p: "p = (removed, rest)" by (cases p)
    obtain us vs where recs: "?recs = us @ removed # vs" "rest = us @ vs" "EqualFold (rg_wallet removed) w"
      using remove_first_split [OF Some [unfolded p]] by blast
    show ?thesis
    proof (cases "kv_writes env")
      case False
      then show ?thesis using same np unfolding keysDelete_def l by (simp add: Some p writeRegistrationsFile_def)
    next
      case True
      have r: "snd (keysDelete env w i ks) = ks\<lparr>ks_store := Stored rest, ks_keys := adel (rg_hash removed) (ks_keys ks)\<rparr>"
        using np unfolding keysDelete_def l by (simp add: Some p writeRegistrationsFile_def True)
      have fixed: "List.map migrateRegistrationRecord rest = rest"
        using store_recs_fixed [of "ks_store ks"] by (simp add: recs)
      have f: "filter (\<lambda>r. \<not> EqualFold (rg_wallet r) w) rest = filter (\<lambda>r. \<not> EqualFold (rg_wallet r) w) ?recs"
        using recs by simp
      have own: "owned w (alookup (ks_keys ks) (rg_hash removed))"
      proof (rule ccontr)
        assume "\<not> ?thesis"
        then obtain e where e: "alookup (ks_keys ks) (rg_hash removed) = Some e" "\<not> EqualFold (ke_wallet e) w"
          by (auto simp: owned_def split: option.splits)
        have "alookup (ks_keys (snd (keysDelete env w i ks))) (rg_hash removed) = Some e" by (rule delete_keeps_others [OF assms e])
        then show False by (simp add: r)
      qed
      have "owned w None" by (simp add: owned_def)
      then show ?thesis using own by (auto simp: r only_changes_def store_recs_Stored fixed f)
    qed
  qed
qed

lemma create_only_changes:
  assumes "store_ok static ks" "fresh_key env ks" "createKey env w n t ks = Some (key, rec, ks')"
  shows "only_changes w ks ks'"
proof -
  let ?recs = "store_recs (ks_store ks)"
  obtain i where k: "generateAPIKey (kv_keyBytes env) = Some key" and
      rec: "rec = \<lparr>rg_id = i, rg_name = n, rg_wallet = w, rg_hash = hashKey key, rg_display = keyDisplay key, rg_created = t, rg_key = ''''\<rparr>"
    using assms(3) by (auto simp: createKey_def Let_def split: option.splits)
  have np: "ks_store ks \<noteq> NoPath" using assms(1) by (auto simp: store_ok_def real_store_def)
  have ks': "ks' = ks\<lparr>ks_store := Stored (?recs @ [rec]),
      ks_keys := aput (hashKey key) \<lparr>ke_name = n, ke_wallet = w, ke_id = i, ke_static = False\<rparr> (ks_keys ks)\<rparr>"
    using assms(3) np by (auto simp: createKey_def Let_def rec appendRegistration_def writeRegistrationsFile_def case_prod_beta split: option.splits if_splits)
  have mig: "migrateRegistrationRecord rec = rec" by (simp add: migrateRegistrationRecord_def rec)
  have new: "alookup (ks_keys ks) (hashKey key) = None"
    using assms(2) by (simp add: fresh_key_def k alookup_None_iff)
  have o1: "owned w (Some \<lparr>ke_name = n, ke_wallet = w, ke_id = i, ke_static = False\<rparr>)" "owned w None" by (simp_all add: owned_def)
  have keys: "alookup (ks_keys ks') h = alookup (ks_keys ks) h \<or> owned w (alookup (ks_keys ks) h) \<and> owned w (alookup (ks_keys ks') h)" for h
    using new o1 by (cases "h = hashKey key") (simp_all add: ks')
  have "store_recs (ks_store ks') = ?recs @ [rec]" by (simp add: ks' store_recs_Stored store_recs_fixed mig)
  then show ?thesis using keys by (simp add: only_changes_def) (simp add: rec)
qed

lemma action_only_changes:
  assumes "store_ok static ks" "fresh_key env ks"
  shows "only_changes w ks (fst (snd (keysAction env act w n i t (ks, bc))))"
proof -
  let ?k = "ks\<lparr>ks_store := snd (loadRegistrationsFile (kv_writes env) (ks_store ks))\<rparr>"
  have f: "fresh_key env ?k" using assms(2) by simp
  note ok = store_ok_load [OF assms(1), of "kv_writes env"]
  have "only_changes w ks k'" if "createKey env w m t ?k = Some (key, rec, k')" for m key rec k'
    using create_only_changes [OF ok f that] by (simp add: only_changes_load)
  then have "only_changes w ks (fst (snd (keysCreate env w n t (ks, bc))))"
    by (auto simp: keysCreate_def case_prod_beta Let_def only_changes_load split: option.split)
  then show ?thesis using delete_only_changes [OF assms(1)]
    by (simp add: keysAction_def case_prod_beta keysList_def only_changes_load)
qed

text \<open>
  C17: Nobody touches another wallet's keys. From any readable store with distinct hashes on, with fresh new keys, whatever a
  management request asks, every entry of the key table that it adds, changes or removes belonged to and belongs to
  the wallet it names, the records of the other wallets in the store file stay as they are, and table
  and records change only if the signature of the exact message recovers to the named wallet.
\<close>

theorem keys_of_others_untouched:
  assumes "key_life static (new_keystore static m w st) ks" "good_store static st" "fresh_key env ks"
    and "handleKeys env a t (Some req) (ks, bc) = (rep, ks', bc')" "wallet = kv_hexa env (kq_wallet req)"
  shows "(alookup (ks_keys ks') h = alookup (ks_keys ks) h \<or>
      (case alookup (ks_keys ks) h of None \<Rightarrow> True | Some e \<Rightarrow> EqualFold (ke_wallet e) wallet) \<and>
      (case alookup (ks_keys ks') h of None \<Rightarrow> True | Some e \<Rightarrow> EqualFold (ke_wallet e) wallet)) \<and>
    filter (\<lambda>r. \<not> EqualFold (rg_wallet r) wallet) (store_recs (ks_store ks')) =
      filter (\<lambda>r. \<not> EqualFold (rg_wallet r) wallet) (store_recs (ks_store ks)) \<and>
    ((ks_keys ks' = ks_keys ks \<and> store_recs (ks_store ks') = store_recs (ks_store ks)) \<or>
     verifyEthSignature (kv_recover env)
       (keyManagementMessage (kq_action req) wallet (kq_issuedAt req) (TrimSpace (kq_name req)) (TrimSpace (kq_keyID req)))
       (kq_signature req) wallet)"
proof -
  have ok: "store_ok static ks" by (rule store_ok_started [OF assms(2,1)])
  let ?v = "verifyEthSignature (kv_recover env)
       (keyManagementMessage (kq_action req) wallet (kq_issuedAt req) (TrimSpace (kq_name req)) (TrimSpace (kq_keyID req)))
       (kq_signature req) wallet"
  let ?r = "fst (snd (handleKeys env a t (Some req) (ks, bc)))"
  have seen: "only_changes wallet ((pruneSeenSigs t ks)\<lparr>ks_seen := s\<rparr>) k' = only_changes wallet ks k'" for s k'
    by (simp add: only_changes_def pruneSeenSigs_def)
  have prune: "only_changes wallet ks (pruneSeenSigs t ks)" by (simp add: only_changes_def pruneSeenSigs_def)
  have act: "only_changes wallet ks (fst (snd (keysAction env act wallet n i t ((pruneSeenSigs t ks)\<lparr>ks_seen := s\<rparr>, bc))))" for act n i s
  proof -
    have "store_ok static ((pruneSeenSigs t ks)\<lparr>ks_seen := s\<rparr>)" "fresh_key env ((pruneSeenSigs t ks)\<lparr>ks_seen := s\<rparr>)"
      using ok assms(3) by simp_all
    from action_only_changes [OF this, where w = wallet] show ?thesis unfolding seen .
  qed
  have "only_changes wallet ks ?r"
    using act prune by (auto simp: handleKeys_def Let_def assms(5))
  moreover have "ks_keys ?r = ks_keys ks \<and> store_recs (ks_store ?r) = store_recs (ks_store ks)" if "\<not> ?v"
    using that by (simp add: handleKeys_def Let_def assms(5))
  ultimately show ?thesis using assms(4) by (auto simp: only_changes_def owned_def)
qed

section \<open>Without a store, and with a damaged one\<close>

text \<open>
  Without a store a key cannot be revoked. If no request log, and so no key store, is configured,
  keys are created in memory, but every deletion answers "not found", and the limit per wallet is never reached.
\<close>

theorem unpersisted_key_is_irrevocable:
  assumes "ks_store ks = NoPath"
  shows "fst (keysDelete env w i ks) = Refused 404 ''key not found for this wallet'' \<and>
    fst (keysCreate env w n t (ks, bc)) \<noteq> Refused 409 ''key limit reached''"
  using assms
  by (auto simp: keysDelete_def keysCreate_def loadRegistrationsFile_def maxKeysPerWalletDefault_def Let_def split: option.split)

text \<open>
  A damaged store is overwritten. When the store file does not parse, the next key that is created
  replaces it by a file with that key alone: the other keys still work until the restart and are gone after it.
\<close>

theorem garbled_store_is_overwritten:
  assumes "ks_store ks = Garbled" "createKey env w n t ks = Some (key, rec, ks')"
  shows "ks_store ks' = Stored [rec] \<and> (\<forall>h e. alookup (ks_keys ks) h = Some e \<longrightarrow> alookup (ks_keys ks') h \<noteq> None)"
  using assms by (auto simp: createKey_def appendRegistration_def loadRegistrationsFile_def writeRegistrationsFile_def Let_def
      split: option.splits if_splits)

section \<open>A concrete key\<close>

definition sample_env :: key_env where
  "sample_env = \<lparr>kv_ishex = (\<lambda>_. True), kv_hexa = (\<lambda>s. s), kv_recover = (\<lambda>_ _. Some ''0xaa''), kv_keyBytes = Some ''k'', kv_idBytes = Some ''i'', kv_writes = True\<rparr>"

definition sample_sig :: string where "sample_sig = hex_encode (replicate 64 CHR ''a'' @ [char_of (0 :: nat)])"

definition list_request :: keys_request where
  "list_request = \<lparr>kq_wallet = ''0xaa'', kq_action = ''list'', kq_issuedAt = 100, kq_signature = sample_sig, kq_name = '''', kq_keyID = ''''\<rparr>"

definition sample_time :: gotime where "sample_time = (100 + unix_epoch) * second"

definition no_keys :: keystore where "no_keys = new_keystore [] 0 True Missing"

lemma sample_signature: "verifyEthSignature (\<lambda>_ _. Some ''0xaa'') msg sample_sig ''0xaa''"
  by (simp add: verifyEthSignature_def sample_sig_def hex_encode_plain nth_append EqualFold_def)

lemma list_accepted:
  "handleKeys sample_env True sample_time (Some list_request) (no_keys, None) =
     (Listed [], no_keys\<lparr>ks_seen := [(sig_key sample_sig, sample_time + registrationWindow)]\<rparr>, None)"
proof -
  have f: "fresh_enough sample_time 100"
    by (simp add: fresh_enough_def sample_time_def time_Unix_def unix_epoch_def second_def wrap64_def time_Sub_def registrationWindow_def minute_def)
  have n: "no_keys = \<lparr>ks_keys = [], ks_store = Missing, ks_seen = [], ks_maxPerWallet = 0\<rparr>"
    by (simp add: no_keys_def new_keystore_def loadRegistrationsFile_def)
  have trim: "TrimSpace '''' = ''''" by (simp add: TrimSpace_def)
  show ?thesis
    by (simp add: handleKeys_def list_request_def sample_env_def validKeysAction_def f sample_signature n trim Let_def
        pruneSeenSigs_def keysAction_def keysList_def loadRegistrationsFile_def)
qed

theorem signature_used_once_witness:
  "\<exists>c s. fst (handleKeys sample_env True (sample_time + second) (Some list_request)
     (no_keys\<lparr>ks_seen := [(sig_key sample_sig, sample_time + registrationWindow)]\<rparr>, None)) = Refused c s"
  by (rule signature_used_once [OF list_accepted])
     (auto simp: list_request_def sample_time_def time_Unix_def unix_epoch_def second_def wrap64_def intro: calls_until.none)

theorem restart_forgets_signatures_witness:
  "\<exists>xs ks' bc'. handleKeys sample_env True sample_time (Some list_request)
     (new_keystore [] 0 True (ks_store (fst (snd (handleKeys sample_env True sample_time (Some list_request) (no_keys, None))))), None) = (Listed xs, ks', bc')"
proof -
  have st: "ks_store (fst (snd (handleKeys sample_env True sample_time (Some list_request) (no_keys, None)))) = ks_store no_keys"
    by (simp add: list_accepted)
  have l: "loadRegistrationsFile b (ks_store no_keys) = ([], ks_store no_keys)" for b
    by (simp add: no_keys_def new_keystore_def loadRegistrationsFile_def)
  have f: "fresh_enough sample_time (kq_issuedAt list_request)"
    by (simp add: fresh_enough_def list_request_def sample_time_def time_Unix_def unix_epoch_def second_def wrap64_def time_Sub_def registrationWindow_def minute_def)
  show ?thesis unfolding st
    by (rule restart_forgets_signatures [OF l f]) (simp_all add: list_request_def sample_env_def sample_signature)
qed

definition operator_entry :: apiKeyEntry where
  "operator_entry = \<lparr>ke_name = ''op'', ke_wallet = ''0xbb'', ke_id = '''', ke_static = True\<rparr>"

theorem keys_of_others_untouched_witness:
  "alookup (ks_keys (fst (snd (handleKeys sample_env False 0 (Some list_request) (new_keystore [(''h'', operator_entry)] 0 True Missing, None))))) ''h'' =
     Some operator_entry"
proof -
  let ?ks = "new_keystore [(''h'', operator_entry)] 0 True Missing"
  have f: "fresh_key sample_env ?ks"
  proof -
    have "hashKey x \<noteq> ''h''" for x
    proof
      assume "hashKey x = ''h''"
      then have "hex_decode (hex_encode (sha256 x)) = hex_decode ''h''" by (simp add: hashKey_def)
      then show False by simp
    qed
    then show ?thesis by (auto simp: fresh_key_def sample_env_def generateAPIKey_def new_keystore_def loadRegistrationsFile_def)
  qed
  obtain rep ks' bc' where h: "handleKeys sample_env False 0 (Some list_request) (?ks, None) = (rep, ks', bc')"
    by (metis prod_cases3)
  have g: "good_store [(''h'', operator_entry)] Missing"
    by (simp add: good_store_def real_store_def hashes_ok_def store_recs_def loadRegistrationsFile_def)
  have k: "alookup (ks_keys ?ks) ''h'' = Some operator_entry" by (simp add: new_keystore_def loadRegistrationsFile_def)
  have "\<not> EqualFold (ke_wallet operator_entry) (kv_hexa sample_env (kq_wallet list_request))"
    by (simp add: operator_entry_def sample_env_def list_request_def EqualFold_def ToLower_def lower_char_def)
  then show ?thesis using keys_of_others_untouched [OF key_life.start g f h refl, of "''h''"] k by (simp add: h)
qed

theorem unpersisted_key_is_irrevocable_witness:
  "fst (keysDelete sample_env ''0xaa'' ''k-1'' (no_keys\<lparr>ks_store := NoPath\<rparr>)) = Refused 404 ''key not found for this wallet''"
  using unpersisted_key_is_irrevocable [of "no_keys\<lparr>ks_store := NoPath\<rparr>"] by simp

theorem garbled_store_is_overwritten_witness:
  "\<exists>rec ks'. createKey sample_env ''0xaa'' ''n'' 0 (no_keys\<lparr>ks_store := Garbled\<rparr>) = Some (''sk-om-6b'', rec, ks') \<and> ks_store ks' = Stored [rec]"
proof -
  have "hex_encode ''k'' = ''6b''" by code_simp
  then obtain rec ks' where c: "createKey sample_env ''0xaa'' ''n'' 0 (no_keys\<lparr>ks_store := Garbled\<rparr>) = Some (''sk-om-6b'', rec, ks')"
    by (simp add: createKey_def sample_env_def generateAPIKey_def generateKeyID_def appendRegistration_def loadRegistrationsFile_def writeRegistrationsFile_def Let_def)
  then show ?thesis using garbled_store_is_overwritten [OF _ c] by simp
qed

end
