(* ===== verification/Gateway.thy ===== *)
theory Gateway
  imports Session RateLimit WaitQueue SseStream Receipt Balance Usage Sampler Keys
begin

text \<open>
  The gateway's state and the forwarding of one answer (\<open>gateway/gateway.go\<close>): construction, prices,
  the correction of a reservation, the request log and its ring, and \<open>handleNonStreaming\<close>. One request
  is followed through its handler; what polls and other requests do to the fleet meanwhile is an
  argument of each attempt. HTTP clients, log lines and metrics are left out.
\<close>

section \<open>State\<close>

record gateway =
  gw_keystore :: keystore
  gw_authEnabled :: bool
  gw_requestTimeout :: duration
  gw_queueTimeout :: duration
  gw_maxQueueSize :: int
  gw_factor :: bigfloat
  gw_log :: "gw_record list"
  gw_balance :: "balance_cache option"
  gw_pricer :: "pricer option"
  gw_cfg :: "settlement_config option"
  gw_modelPrices :: "(string \<rightharpoonup> bigfloat) option"
  gw_catalogInput :: "string \<rightharpoonup> bigfloat"
  gw_catalogCacheRead :: "string \<rightharpoonup> bigfloat"
  gw_sessions :: sessionAffinity
  gw_limiter :: "RateLimiter option"
  gw_maxRequestBytes :: int
  gw_draining :: bool
  gw_inFlight :: int
  gw_usage :: usageRing
  gw_streamResume :: bool
  gw_maxResumes :: int

record gateway_config =
  gc_ClientToken :: string
  gc_APIKeys :: "config_key list"
  gc_RequestTimeoutSec :: int
  gc_QueueTimeoutSec :: int
  gc_MaxQueueSize :: int
  gc_ModelSwitchLoadFactor :: bigfloat
  gc_StreamResume :: bool
  gc_StreamMaxResumes :: int
  gc_RatePerSecPerKey :: bigfloat
  gc_RateBurstPerKey :: int
  gc_MaxConcurrentPerKey :: int
  gc_MaxRequestBytes :: int
  gc_MaxKeysPerWallet :: int

text \<open>\<open>New\<close>; the request log file is opened elsewhere. \<open>st\<close> is the key store it finds.\<close>

definition NewGateway :: "gateway_config \<Rightarrow> bool \<Rightarrow> reg_store \<Rightarrow> gateway" where
  "NewGateway cfg writes st =
     (let timeout = Seconds (gc_RequestTimeoutSec cfg);
          queueTimeout = Seconds (gc_QueueTimeoutSec cfg);
          ks = new_keystore (config_keys (gc_APIKeys cfg) (gc_ClientToken cfg)) (gc_MaxKeysPerWallet cfg) writes st
      in \<lparr>gw_keystore = ks, gw_authEnabled = (ks_keys ks \<noteq> []),
          gw_requestTimeout = (if timeout \<le> 0 then 120 * second else timeout),
          gw_queueTimeout = (if queueTimeout \<le> 0 then 60 * second else queueTimeout),
          gw_maxQueueSize = gc_MaxQueueSize cfg, gw_factor = gc_ModelSwitchLoadFactor cfg, gw_log = [],
          gw_balance = None, gw_pricer = None, gw_cfg = None, gw_modelPrices = None,
          gw_catalogInput = Map.empty, gw_catalogCacheRead = Map.empty, gw_sessions = newSessionAffinity 0,
          gw_limiter = NewRateLimiter \<lparr>rc_RatePerSec = gc_RatePerSecPerKey cfg, rc_Burst = gc_RateBurstPerKey cfg,
             rc_MaxInFlight = gc_MaxConcurrentPerKey cfg\<rparr>,
          gw_maxRequestBytes = gc_MaxRequestBytes cfg, gw_draining = False, gw_inFlight = 0,
          gw_usage = newUsageRing 512, gw_streamResume = gc_StreamResume cfg,
          gw_maxResumes = (if gc_StreamMaxResumes cfg \<le> 0 then 2 else gc_StreamMaxResumes cfg)\<rparr>)"

text \<open>The prices are parsed once, in the order of the configuration's maps.\<close>

definition per_token :: "usd_text \<Rightarrow> bigfloat option" where
  "per_token s = map_option (\<lambda>p. bf_quop (fprec p) p (float64_of_int 1000000)) (ParseFloat s)"

definition parse_model_prices :: "(string \<times> usd_text) list \<Rightarrow> (string \<rightharpoonup> bigfloat)" where
  "parse_model_prices ps =
     fold (\<lambda>(model, s) m. case per_token s of None \<Rightarrow> m | Some p \<Rightarrow> m(model \<mapsto> p)) ps Map.empty"

definition SetBalanceChecker :: "(balance_cache \<times> pricer) option \<Rightarrow> settlement_config option \<Rightarrow> gateway \<Rightarrow> gateway" where
  "SetBalanceChecker bc cfg g =
     (let g = g\<lparr>gw_balance := map_option fst bc, gw_pricer := map_option snd bc, gw_cfg := cfg, gw_modelPrices := Some Map.empty\<rparr>
      in case cfg of
           None \<Rightarrow> g
         | Some c \<Rightarrow>
             (let (inp, cr) = ParseCatalogPrices (case cfg_ModelCatalog c of Some m \<Rightarrow> m | None \<Rightarrow> [])
              in g\<lparr>gw_modelPrices := Some (parse_model_prices (case cfg_ModelPricesUSD c of Some m \<Rightarrow> m | None \<Rightarrow> [])),
                   gw_catalogInput := inp, gw_catalogCacheRead := cr\<rparr>))"

definition prices_of :: "gateway \<Rightarrow> (string \<rightharpoonup> bigfloat)" where
  "prices_of g = (case gw_modelPrices g of Some m \<Rightarrow> m | None \<Rightarrow> Map.empty)"

text \<open>What a request costs by the gateway's prices; a request without usage costs nothing.\<close>

definition actual_cost :: "gateway \<Rightarrow> string \<Rightarrow> tokenUsage \<Rightarrow> bigfloat" where
  "actual_cost g model u =
     (if TotalTokens u > 0
      then CostBreakdownUSD model (PromptTokens u) (CompletionTokens u) (CachedTokens u) (TotalTokens u)
             (prices_of g) (gw_catalogInput g) (gw_catalogCacheRead g)
      else bf_zero)"

definition adjustBalance :: "string \<Rightarrow> bigfloat option \<Rightarrow> string \<Rightarrow> tokenUsage \<Rightarrow> gateway \<Rightarrow> gateway" where
  "adjustBalance wallet estimated model u g =
     (case (gw_balance g, estimated) of
        (Some bc, Some est) \<Rightarrow>
          if wallet = '''' then g
          else g\<lparr>gw_balance := Some (Adjust wallet est (actual_cost g model u) bc)\<rparr>
      | _ \<Rightarrow> g)"

definition logRequest :: "gw_record \<Rightarrow> gateway \<Rightarrow> gateway" where
  "logRequest rec g =
     g\<lparr>gw_log := gw_log g @ [rec],
       gw_usage := recordUsage (gw_modelPrices g) (gw_catalogInput g) (gw_catalogCacheRead g) rec (gw_usage g)\<rparr>"

section \<open>A request and its rows\<close>

record request =
  rq_id :: string
  rq_key :: apiKeyEntry
  rq_path :: string
  rq_model :: string
  rq_body :: body
  rq_start :: gotime
  rq_receipts :: bool
  rq_sampled :: bool

definition millisecond :: duration where "millisecond = 1000000"

definition log_row :: "request \<Rightarrow> string \<Rightarrow> string \<Rightarrow> int \<Rightarrow> string \<Rightarrow> gotime \<Rightarrow> tokenUsage \<Rightarrow> int \<Rightarrow> receipt option \<Rightarrow> gw_record" where
  "log_row rq workerID model status reason now u resumes rc =
     \<lparr>rr_id = rq_id rq, rr_timestamp = rq_start rq, rr_api_key = ke_name (rq_key rq), rr_wallet = ke_wallet (rq_key rq),
      rr_worker = workerID, rr_path = rq_path rq, rr_model = model, rr_status = status, rr_error = reason,
      rr_duration = (now - rq_start rq) div millisecond, rr_prompt = PromptTokens u, rr_completion = CompletionTokens u,
      rr_cached = CachedTokens u, rr_total = TotalTokens u, rr_receipt = rc, gr_resumes = resumes\<rparr>"

text \<open>What a handler leaves: the status and bytes for the client, its row, the retained sample, the billable outcome.\<close>

record outcome =
  oc_status :: int
  oc_out :: string
  oc_row :: "gw_record option"
  oc_sample :: "sample option"
  oc_model :: string
  oc_usage :: tokenUsage

text \<open>Libraries and formats the handlers call: the bytes of a body, the JSON decoder, the receipt checks, \<open>url.Parse\<close>.\<close>

record codecs =
  cd_wire :: "body \<Rightarrow> string"
  cd_decode :: decoder
  cd_verify :: sig_check
  cd_parse :: "string \<Rightarrow> string + receipt"
  cd_receipt :: "json \<Rightarrow> receipt option"
  cd_url_ok :: "string \<Rightarrow> bool"

definition retainSample :: "codecs \<Rightarrow> request \<Rightarrow> string \<Rightarrow> bool \<Rightarrow> int \<Rightarrow> string \<Rightarrow> tokenUsage \<Rightarrow> sample option" where
  "retainSample cd rq workerID stream status respRaw u =
     (if \<not> rq_sampled rq then None
      else Some (retained (rq_id rq) (rq_start rq) (ke_name (rq_key rq)) workerID (rq_model rq) stream status
                   (cd_wire cd (rq_body rq)) respRaw u))"

section \<open>One answer, not streamed\<close>

text \<open>
  One attempt: the answer of the worker (status, body and receipt header, or a transport error), what
  happened to the fleet meanwhile, and, for the next choice, the time, the random draw and the
  windows of a wait.
\<close>

record attempt =
  at_reply :: "(int \<times> string \<times> string) option"
  at_fleet :: "registry \<Rightarrow> registry"
  at_now :: gotime
  at_rand :: bigfloat
  at_windows :: "window list"

definition FeatureReceipt :: string where "FeatureReceipt = ''receipt''"
definition FeatureContinuation :: string where "FeatureContinuation = ''continuation''"

definition served :: "codecs \<Rightarrow> gateway \<Rightarrow> request \<Rightarrow> worker \<Rightarrow> gotime \<Rightarrow> int \<Rightarrow> string \<Rightarrow> string \<Rightarrow> outcome" where
  "served cd g rq target now status respBody header =
     (let reported = extractUsage (cd_decode cd respBody);
          usage = clampUsage (gw_cfg g) reported (rq_model rq);
          rc = (if status = 200 \<and> HasFeature target FeatureReceipt
                then captureReceipt (cd_verify cd) (cd_parse cd) header (wk_pubkey target) (Some (cd_wire cd (rq_body rq)))
                       reported True (rq_id rq)
                else None)
      in \<lparr>oc_status = status, oc_out = respBody,
          oc_row = Some (log_row rq (wk_id target) (rq_model rq) status '''' now usage 0 rc),
          oc_sample = retainSample cd rq (wk_id target) False status respBody usage,
          oc_model = rq_model rq, oc_usage = (if status = 200 then usage else no_usage)\<rparr>)"

definition all_retries_failed :: "request \<Rightarrow> gotime \<Rightarrow> outcome" where
  "all_retries_failed rq now =
     \<lparr>oc_status = 503, oc_out = '''', oc_row = Some (log_row rq ''none'' (rq_model rq) 503 ''all_retries_failed'' now no_usage 0 None),
      oc_sample = None, oc_model = '''', oc_usage = no_usage\<rparr>"

text \<open>The in-flight count of the worker is raised around the call.\<close>

definition around :: "string \<Rightarrow> (registry \<Rightarrow> registry) \<Rightarrow> registry \<Rightarrow> registry" where
  "around wid f r = DecInflight wid (f (IncInflight wid r))"

text \<open>A transport error and a 503 are retried; everything else goes to the client.\<close>

definition final_reply :: "attempt \<Rightarrow> (int \<times> string \<times> string) option" where
  "final_reply a = (case at_reply a of Some (status, b, h) \<Rightarrow> if status = 503 then None else Some (status, b, h) | None \<Rightarrow> None)"

definition excluded :: "string list \<Rightarrow> string \<Rightarrow> bool" where
  "excluded tried i \<longleftrightarrow> i \<in> set tried"

fun nonstream_loop ::
  "codecs \<Rightarrow> gateway \<Rightarrow> request \<Rightarrow> gotime \<Rightarrow> attempt list \<Rightarrow> worker \<Rightarrow> string list \<Rightarrow> registry \<Rightarrow> (outcome \<times> registry) option" where
  "nonstream_loop cd g rq deadline [] target tried r = None"
| "nonstream_loop cd g rq deadline (a # as) target tried r =
     (let r = around (wk_id target) (at_fleet a) r
      in case final_reply a of
           Some (status, b, h) \<Rightarrow> Some (served cd g rq target (at_now a) status b h, r)
         | None \<Rightarrow>
             (let tried = wk_id target # tried
              in case selectWorkerForModel r (at_now a) (at_rand a) (rq_model rq) (excluded tried) (gw_factor g) of
                   Some nxt \<Rightarrow> nonstream_loop cd g rq deadline as nxt tried r
                 | None \<Rightarrow>
                     (case blockForWorker r (at_now a) (rq_model rq) (gw_factor g) (min (at_now a + gw_queueTimeout g) deadline) (at_windows a) of
                        None \<Rightarrow> None
                      | Some (Inr w2) \<Rightarrow> nonstream_loop cd g rq deadline as w2 [] r
                      | Some (Inl _) \<Rightarrow> Some (all_retries_failed rq (at_now a), r))))"

definition handleNonStreaming ::
  "codecs \<Rightarrow> gateway \<Rightarrow> request \<Rightarrow> attempt list \<Rightarrow> worker \<Rightarrow> registry \<Rightarrow> (outcome \<times> registry) option" where
  "handleNonStreaming cd g rq as target r =
     nonstream_loop cd g rq (rq_start rq + gw_requestTimeout g) as target [] r"

section \<open>One price for the gate and for the bill\<close>

lemma per_token_is_parsePerToken: "per_token s = parsePerToken s"
  by (cases s) (simp_all add: per_token_def parsePerToken_def ParseFloat_def)

definition priced :: "settlement_config \<Rightarrow> gateway \<Rightarrow> bool" where
  "priced cfg g \<longleftrightarrow>
     prices_of g = agg_modelPrices (NewAggregator cfg Map.empty) \<and> gw_catalogInput g = agg_catalogInput (NewAggregator cfg Map.empty) \<and>
     gw_catalogCacheRead g = agg_catalogCacheRead (NewAggregator cfg Map.empty)"

lemma SetBalanceChecker_priced: "priced cfg (SetBalanceChecker bc (Some cfg) g0)"
  by (simp add: priced_def SetBalanceChecker_def NewAggregator_def prices_of_def parse_model_prices_def parse_rates_def
      per_token_is_parsePerToken case_prod_beta Let_def)

lemma priced_as_settled:
  assumes "priced cfg g"
  shows "prices_of g = agg_modelPrices (NewAggregator cfg ws)" "gw_catalogInput g = agg_catalogInput (NewAggregator cfg ws)"
    "gw_catalogCacheRead g = agg_catalogCacheRead (NewAggregator cfg ws)"
  using assms by (simp_all add: priced_def NewAggregator_def case_prod_beta Let_def)

text \<open>What an outcome keeps as pending is what settlement bills for its row, and nothing for any other row.\<close>

definition bill_of :: "settlement_config \<Rightarrow> (string \<rightharpoonup> string) \<Rightarrow> gw_record \<Rightarrow> bigfloat" where
  "bill_of cfg ws row = (if isBillable row then recordCostUSD (NewAggregator cfg ws) row else bf_zero)"

lemma bill_of_row:
  assumes "priced cfg g" "ke_wallet (rq_key rq) \<noteq> ''''" "status = 200" "reason = ''''"
  shows "bill_of cfg ws (log_row rq wid model status reason now u n rc) = actual_cost g model u"
  using assms(2-) by (simp add: bill_of_def isBillable_def log_row_def actual_cost_def recordCostUSD_def priced_as_settled [OF assms(1), of ws])

lemma no_bill: "\<not> (status = 200 \<and> reason = '''') \<Longrightarrow> bill_of cfg ws (log_row rq wid model status reason now u n rc) = actual_cost g m no_usage"
  by (auto simp: bill_of_def isBillable_def log_row_def actual_cost_def no_usage_def)

definition billed_right :: "settlement_config \<Rightarrow> (string \<rightharpoonup> string) \<Rightarrow> gateway \<Rightarrow> outcome \<Rightarrow> bool" where
  "billed_right cfg ws g oc \<longleftrightarrow>
     (case oc_row oc of Some row \<Rightarrow> bill_of cfg ws row = actual_cost g (oc_model oc) (oc_usage oc) | None \<Rightarrow> False)"

text \<open>The ways a request that is not streamed ends.\<close>

lemma nonstream_outcome:
  "nonstream_loop cd g rq deadline as target tried r = Some (oc, r') \<Longrightarrow>
   (\<exists>w now status b h. oc = served cd g rq w now status b h) \<or> (\<exists>now. oc = all_retries_failed rq now)"
proof (induction as arbitrary: target tried r)
  case (Cons a as)
  let ?r = "around (wk_id target) (at_fleet a) r"
  show ?case
  proof (cases "final_reply a")
    case (Some reply)
    obtain status b h where "reply = (status, b, h)" by (cases reply) auto
    then have "oc = served cd g rq target (at_now a) status b h" using Cons.prems by (simp add: Some Let_def)
    then show ?thesis by blast
  next
    case None
    let ?sel = "selectWorkerForModel ?r (at_now a) (at_rand a) (rq_model rq) (excluded (wk_id target # tried)) (gw_factor g)"
    let ?blk = "blockForWorker ?r (at_now a) (rq_model rq) (gw_factor g) (min (at_now a + gw_queueTimeout g) deadline) (at_windows a)"
    note step = Cons.prems [unfolded nonstream_loop.simps Let_def None option.case]
    show ?thesis
    proof (cases ?sel)
      case (Some nxt)
      then show ?thesis using Cons.IH step by simp
    next
      case sel: None
      show ?thesis
      proof (cases ?blk)
        case None
        then show ?thesis using step by (simp add: sel)
      next
        case (Some res)
        show ?thesis
        proof (cases res)
          case (Inl e)
          then have "oc = all_retries_failed rq (at_now a)" using step by (simp add: sel Some)
          then show ?thesis by blast
        next
          case (Inr w2)
          then show ?thesis using Cons.IH step by (simp add: sel Some)
        qed
      qed
    qed
  qed
qed simp

lemma served_billed:
  assumes "priced cfg g" "ke_wallet (rq_key rq) \<noteq> ''''"
  shows "billed_right cfg ws g (served cd g rq w now status b h)"
proof (cases "status = 200")
  case True
  then show ?thesis using bill_of_row [OF assms True refl] by (simp add: billed_right_def served_def Let_def)
next
  case False
  then show ?thesis using no_bill by (simp add: billed_right_def served_def Let_def)
qed

lemma nonstream_billed:
  assumes "priced cfg g" "ke_wallet (rq_key rq) \<noteq> ''''" "nonstream_loop cd g rq deadline as target tried r = Some (oc, r')"
  shows "billed_right cfg ws g oc"
  using nonstream_outcome [OF assms(3)] served_billed [OF assms(1,2)] no_bill
  by (auto simp: billed_right_def all_retries_failed_def)

text \<open>Every row bears the wallet of the key.\<close>

definition row_of :: "request \<Rightarrow> outcome \<Rightarrow> bool" where
  "row_of rq oc \<longleftrightarrow> (case oc_row oc of Some row \<Rightarrow> rr_wallet row = ke_wallet (rq_key rq) | None \<Rightarrow> oc_usage oc = no_usage)"

lemma log_row_wallet [simp]: "rr_wallet (log_row rq wid model status reason now u n rc) = ke_wallet (rq_key rq)"
  by (simp add: log_row_def)

lemma nonstream_row: "nonstream_loop cd g rq deadline as target tried r = Some (oc, r') \<Longrightarrow> row_of rq oc"
  using nonstream_outcome [of cd g rq deadline as target tried r oc r'] by (auto simp: row_of_def served_def all_retries_failed_def Let_def)

text \<open>
  The credit gate keeps what settlement will bill. However often a request that is not streamed is
  retried, it leaves exactly one row in the request log, and the cost the gateway keeps as unsettled
  spending is the one the settlement computes from that row, zero when settlement skips the row.
\<close>

theorem pending_is_what_is_billed:
  assumes "handleNonStreaming cd (SetBalanceChecker bc (Some cfg) g0) rq as target r = Some (oc, r')" "ke_wallet (rq_key rq) \<noteq> ''''"
  shows "\<exists>row. oc_row oc = Some row \<and>
    (if isBillable row then recordCostUSD (NewAggregator cfg ws) row else bf_zero) =
      actual_cost (SetBalanceChecker bc (Some cfg) g0) (oc_model oc) (oc_usage oc)"
  using nonstream_billed [OF SetBalanceChecker_priced assms(2) assms(1) [unfolded handleNonStreaming_def], of ws]
  by (cases "oc_row oc") (simp_all add: billed_right_def bill_of_def)

section \<open>Retries end\<close>

definition fleet_ids :: "registry \<Rightarrow> string set" where
  "fleet_ids r = wk_id ` set (ListWorkers r)"

lemma selected_is_new:
  "selectWorkerForModel r now u model (excluded tried) factor = Some w \<Longrightarrow> wk_id w \<in> fleet_ids r - set tried"
proof -
  assume "selectWorkerForModel r now u model (excluded tried) factor = Some w"
  then have "w \<in> set (ListWorkers r)" "admitted (rg_gate r) now model (excluded tried) w"
    using select_in by (auto simp: selectWorkerForModel_def)
  then show ?thesis by (simp add: fleet_ids_def admitted_def excluded_def split: if_splits)
qed

lemma wait_is_over:
  "deadline \<le> fst v \<Longrightarrow> \<exists>e. blockForWorker r now model factor deadline (v # ws) = Some (Inl e)"
  by (cases v) (simp add: blockForWorker_def Let_def)

text \<open>An attempt after the deadline in a fleet of known workers: the wait, if any, reads a clock past its deadline.\<close>

definition late_attempt :: "gotime \<Rightarrow> string set \<Rightarrow> attempt \<Rightarrow> bool" where
  "late_attempt deadline W a \<longleftrightarrow>
     (\<exists>v ws. at_windows a = v # ws \<and> deadline \<le> fst v) \<and> (\<forall>r. fleet_ids (at_fleet a r) \<subseteq> W)"

lemma fleet_ids_frame [simp]: "fleet_ids (IncInflight i r) = fleet_ids r" "fleet_ids (DecInflight i r) = fleet_ids r"
proof -
  have e: "fleet_ids r = (wk_id \<circ> snd) ` set (rg_workers r)" for r
    by (simp add: fleet_ids_def ListWorkers_def snapshot_def image_image)
  show "fleet_ids (IncInflight i r) = fleet_ids r" "fleet_ids (DecInflight i r) = fleet_ids r"
    by (simp_all add: e IncInflight_def DecInflight_def Let_def)
qed

lemma nonstream_ends:
  assumes "finite W"
  shows "list_all (late_attempt deadline W) as \<Longrightarrow> card (W - set tried) + (if wk_id target \<in> W - set tried then 0 else 1) < length as + 1 \<Longrightarrow> as \<noteq> [] \<Longrightarrow>
    nonstream_loop cd g rq deadline as target tried r \<noteq> None"
proof (induction as arbitrary: target tried r)
  case (Cons a as)
  let ?r = "around (wk_id target) (at_fleet a) r"
  let ?T = "insert (wk_id target) (set tried)"
  show ?case
  proof (cases "final_reply a")
    case None
    let ?sel = "selectWorkerForModel ?r (at_now a) (at_rand a) (rq_model rq) (excluded (wk_id target # tried)) (gw_factor g)"
    let ?until = "min (at_now a + gw_queueTimeout g) deadline"
    obtain v ws where w: "at_windows a = v # ws" "deadline \<le> fst v" and fl: "\<And>r. fleet_ids (at_fleet a r) \<subseteq> W"
      using Cons.prems(1) by (auto simp: late_attempt_def)
    show ?thesis
    proof (cases ?sel)
      case (Some nxt)
      have "wk_id nxt \<in> fleet_ids ?r - ?T" using selected_is_new [OF Some] by simp
      then have nxt: "wk_id nxt \<in> W - ?T" using fl by (auto simp: around_def)
      have "card (W - ?T) \<le> card (W - set tried) - (if wk_id target \<in> W - set tried then 1 else 0)"
      proof (cases "wk_id target \<in> W - set tried")
        case True
        have "W - ?T = (W - set tried) - {wk_id target}" by auto
        then show ?thesis using True assms by simp
      next
        case False
        then have "W - ?T = W - set tried" by auto
        then show ?thesis using False by auto
      qed
      moreover have "0 < card (W - ?T)" using nxt assms card_gt_0_iff by fastforce
      ultimately have m: "card (W - ?T) + 0 < length as + 1" "as \<noteq> []"
        using Cons.prems(2) by (auto split: if_splits)
      have "nonstream_loop cd g rq deadline as nxt (wk_id target # tried) ?r \<noteq> None"
        by (rule Cons.IH) (use Cons.prems(1) m nxt in auto)
      then show ?thesis by (simp add: None Let_def Some)
    next
      case sel: None
      obtain e where "blockForWorker ?r (at_now a) (rq_model rq) (gw_factor g) ?until (at_windows a) = Some (Inl e)"
        unfolding w(1) using wait_is_over [of ?until v] w(2) by (metis min.coboundedI2)
      then show ?thesis by (simp add: None Let_def sel)
    qed
  qed (auto simp: Let_def)
qed simp

text \<open>The windows of a wait are all closed, and the clock gets to the deadline: the wait does not hang.\<close>

definition waits_end :: "gotime \<Rightarrow> attempt \<Rightarrow> bool" where
  "waits_end deadline a \<longleftrightarrow>
     list_ex (\<lambda>v. deadline \<le> fst v) (at_windows a) \<and>
     list_all (\<lambda>(t, entered, es). list_ex (\<lambda>e. e = CtxDone \<or> e = WindowOver) es) (at_windows a)"

lemma wait_loop_closed: "list_ex (\<lambda>e. e = CtxDone \<or> e = WindowOver) es \<Longrightarrow> wait_loop model factor es \<noteq> None"
  by (induction model factor es rule: wait_loop.induct) (auto split: option.split)

lemma wait_ends:
  assumes "until \<le> deadline" "waits_end deadline a"
  shows "blockForWorker r now model factor until (at_windows a) \<noteq> None"
proof -
  have "block_loop model factor until ws \<noteq> None"
    if "list_ex (\<lambda>v. deadline \<le> fst v) ws" "list_all (\<lambda>(t, entered, es). list_ex (\<lambda>e. e = CtxDone \<or> e = WindowOver) es) ws" for ws
    using that
  proof (induction ws)
    case (Cons v ws)
    obtain t entered es where v: "v = (t, entered, es)" by (cases v) auto
    show ?case
    proof (cases "t < until")
      case True
      then have "\<not> deadline \<le> fst v" using assms(1) v by simp
      then have ih: "block_loop model factor until ws \<noteq> None" using Cons by simp
      have "waitForWorker model factor entered es \<noteq> None"
        using Cons.prems(2) wait_loop_closed v by (simp add: waitForWorker_def)
      then show ?thesis using ih True by (auto simp: v split: sum.split)
    qed (simp add: v)
  qed simp
  then show ?thesis using assms(2) by (simp add: blockForWorker_def waits_end_def Let_def)
qed

lemma nonstream_reaches_deadline:
  assumes "finite W" "card W < length late" "list_all (late_attempt deadline W) late"
  shows "list_all (waits_end deadline) pre \<Longrightarrow> nonstream_loop cd g rq deadline (pre @ late) target tried r \<noteq> None"
proof (induction pre arbitrary: target tried r)
  case Nil
  have c: "card (W - set tried) \<le> card W" by (rule card_mono) (use assms(1) in auto)
  have "nonstream_loop cd g rq deadline late target tried r \<noteq> None"
  proof (rule nonstream_ends [OF assms(1,3)])
    have "card (W - set tried) < card W" if "wk_id target \<in> W" "wk_id target \<in> set tried"
      using that assms(1) by (intro psubset_card_mono) auto
    then show "card (W - set tried) + (if wk_id target \<in> W - set tried then 0 else 1) < length late + 1"
      using c assms(2) by (auto split: if_splits)
    show "late \<noteq> []" using assms(2) by auto
  qed
  then show ?case by simp
next
  case (Cons a pre)
  let ?r = "around (wk_id target) (at_fleet a) r"
  show ?case
  proof (cases "final_reply a")
    case None
    let ?sel = "selectWorkerForModel ?r (at_now a) (at_rand a) (rq_model rq) (excluded (wk_id target # tried)) (gw_factor g)"
    let ?blk = "blockForWorker ?r (at_now a) (rq_model rq) (gw_factor g) (min (at_now a + gw_queueTimeout g) deadline) (at_windows a)"
    have "?blk \<noteq> None" using Cons.prems by (intro wait_ends [where deadline = deadline]) simp_all
    then show ?thesis using Cons.IH Cons.prems
      by (cases ?sel; cases ?blk) (auto simp: None Let_def split: sum.split)
  qed (auto simp: Let_def)
qed

text \<open>
  C36: A request that is not streamed is answered. Its deadline is set once, when it is taken: whatever happened in
  the attempts before it, if their waits end, after the deadline there are no more attempts
  than workers, and one for a worker the fleet no longer lists. Every failed worker is then tried at
  most once and the wait in the queue ends at once, so the handler returns an answer or the final 503.
\<close>

theorem retries_end_after_deadline:
  assumes "deadline = rq_start rq + gw_requestTimeout g" "list_all (waits_end deadline) early"
    and "finite W" "card W < length late" "list_all (late_attempt deadline W) late"
  shows "\<exists>oc r'. handleNonStreaming cd g rq (early @ late) target r = Some (oc, r')"
proof -
  have "nonstream_loop cd g rq deadline (early @ late) target [] r \<noteq> None"
    by (rule nonstream_reaches_deadline [OF assms(3-5,2)])
  then show ?thesis by (auto simp: handleNonStreaming_def assms(1))
qed

section \<open>Restarts and access\<close>

text \<open>A gateway with one configuration over the calls that manage keys, with fresh keys, and restarts over the store it left.\<close>

inductive gateway_life :: "gateway_config \<Rightarrow> reg_store \<Rightarrow> gateway \<Rightarrow> bool" for cfg st where
  started: "gateway_life cfg st (NewGateway cfg writes st)"
| registering: "gateway_life cfg st g \<Longrightarrow> fresh_key env (gw_keystore g) \<Longrightarrow>
    handleRegister env a t rq (gw_keystore g, bc) = (rep, ks, bc') \<Longrightarrow> gateway_life cfg st (g\<lparr>gw_keystore := ks\<rparr>)"
| managing: "gateway_life cfg st g \<Longrightarrow> fresh_key env (gw_keystore g) \<Longrightarrow>
    handleKeys env a t rq (gw_keystore g, bc) = (rep, ks, bc') \<Longrightarrow> gateway_life cfg st (g\<lparr>gw_keystore := ks\<rparr>)"
| restarted: "gateway_life cfg st g \<Longrightarrow> gateway_life cfg st (NewGateway cfg writes (ks_store (gw_keystore g)))"

definition static_keys :: "gateway_config \<Rightarrow> (string \<times> apiKeyEntry) list" where
  "static_keys cfg = config_keys (gc_APIKeys cfg) (gc_ClientToken cfg)"

lemma aput_nonempty: "aput k v m \<noteq> []"
  by (cases m) (auto split: if_splits)

lemma add_stored_nonempty: "m \<noteq> [] \<Longrightarrow> fold add_stored recs m \<noteq> []"
  by (induction recs arbitrary: m) (auto simp: add_stored_def aput_nonempty)

lemma NewGateway_keys:
  "gw_keystore (NewGateway cfg writes st) = new_keystore (static_keys cfg) (gc_MaxKeysPerWallet cfg) writes st"
  "static_keys cfg \<noteq> [] \<Longrightarrow> gw_authEnabled (NewGateway cfg writes st)"
  by (simp_all add: NewGateway_def static_keys_def new_keystore_def add_stored_nonempty case_prod_beta Let_def)

lemma NewGateway_auth: "gw_authEnabled (NewGateway cfg writes st) \<longleftrightarrow> ks_keys (gw_keystore (NewGateway cfg writes st)) \<noteq> []"
  by (simp add: NewGateway_def Let_def)

lemma gateway_life_ok:
  assumes "gateway_life cfg st g" "good_store (static_keys cfg) st" "static_keys cfg \<noteq> []"
  shows "store_ok (static_keys cfg) (gw_keystore g) \<and> gw_authEnabled g"
  using assms(1)
proof (induction rule: gateway_life.induct)
  case (started writes)
  then show ?case using store_ok_started [OF assms(2) key_life.start] assms(3) by (simp add: NewGateway_keys)
next
  case (registering g env a t rq bc rep ks bc')
  then show ?case using store_ok_register [of "static_keys cfg" "gw_keystore g" env a t rq bc] by simp
next
  case (managing g env a t rq bc rep ks bc')
  then show ?case using store_ok_manage [of "static_keys cfg" "gw_keystore g" env a t rq bc] by simp
next
  case (restarted g writes)
  then have "good_store (static_keys cfg) (ks_store (gw_keystore g))" by (simp add: good_store_again)
  then show ?case using store_ok_started [OF _ key_life.start] assms(3) by (simp add: NewGateway_keys)
qed


text \<open>
  Without a key in the configuration the restart does change it. The switch is set once, at the start: a gateway without keys lets
  everybody in, also after wallets have registered, and one started anew from the store they left asks for a key.
\<close>

theorem registrations_close_at_restart:
  assumes "static_keys cfg = []" "st = Missing" "createKey env wallet n t (gw_keystore (NewGateway cfg w st)) = Some (key, rec, ks)"
    and "g = (NewGateway cfg w st)\<lparr>gw_keystore := ks\<rparr>" "g' = NewGateway cfg w' (ks_store ks)"
  shows "(\<exists>anyone. authenticate (gw_authEnabled g) '''' (gw_keystore g) = Some anyone) \<and>
    authenticate (gw_authEnabled g') '''' (gw_keystore g') = None"
proof -
  have n: "new_keystore [] m w Missing = \<lparr>ks_keys = [], ks_store = Missing, ks_seen = [], ks_maxPerWallet = m\<rparr>" for m
    by (simp add: new_keystore_def loadRegistrationsFile_def)
  have "\<not> gw_authEnabled g"
    using assms(1,2) by (simp add: assms(4) NewGateway_def static_keys_def n Let_def)
  moreover have "ks_store ks = Stored [rec] \<and> rg_hash rec \<noteq> '''' \<and> migrateRegistrationRecord rec = rec"
    using assms(3) unfolding NewGateway_keys assms(1,2) n
    by (auto simp: createKey_def appendRegistration_def loadRegistrationsFile_def writeRegistrationsFile_def hashKey_nonempty
        migrateRegistrationRecord_def Let_def split: option.splits if_splits)
  then have "ks_keys (gw_keystore g') \<noteq> []"
    by (simp add: assms(5) NewGateway_keys(1) assms(1) new_keystore_def store_recs_Stored case_prod_beta add_stored_def)
  then have "gw_authEnabled g'" by (simp add: assms(5) NewGateway_auth)
  ultimately show ?thesis by (simp add: authenticate_def)
qed

section \<open>Concrete requests\<close>

definition sample_codecs :: codecs where
  "sample_codecs = \<lparr>cd_wire = (\<lambda>_. ''{}''), cd_decode = (\<lambda>_. None), cd_verify = (\<lambda>_ _ _. False), cd_parse = (\<lambda>_. Inl ''''),
     cd_receipt = (\<lambda>_. None), cd_url_ok = (\<lambda>_. True)\<rparr>"

definition sample_gateway :: gateway where
  "sample_gateway = NewGateway \<lparr>gc_ClientToken = '''', gc_APIKeys = [], gc_RequestTimeoutSec = 0, gc_QueueTimeoutSec = 0, gc_MaxQueueSize = 0,
     gc_ModelSwitchLoadFactor = bf_zero, gc_StreamResume = False, gc_StreamMaxResumes = 0, gc_RatePerSecPerKey = bf_zero,
     gc_RateBurstPerKey = 0, gc_MaxConcurrentPerKey = 0, gc_MaxRequestBytes = 0, gc_MaxKeysPerWallet = 0\<rparr> True Missing"

definition sample_request :: request where
  "sample_request = \<lparr>rq_id = ''r1'', rq_key = \<lparr>ke_name = ''k'', ke_wallet = ''0xu'', ke_id = '''', ke_static = True\<rparr>, rq_path = ''/v1/chat/completions'',
     rq_model = ''m'', rq_body = sample_body, rq_start = 1, rq_receipts = False, rq_sampled = False\<rparr>"

definition answered :: attempt where
  "answered = \<lparr>at_reply = Some (200, ''{}'', ''''), at_fleet = id, at_now = 2, at_rand = bf_zero, at_windows = []\<rparr>"

theorem pending_is_what_is_billed_witness:
  "\<exists>oc r' row. handleNonStreaming sample_codecs (SetBalanceChecker None (Some sample_config) sample_gateway) sample_request [answered] live_worker (live_fleet False) = Some (oc, r') \<and>
     oc_row oc = Some row"
proof -
  obtain oc r' where h: "handleNonStreaming sample_codecs (SetBalanceChecker None (Some sample_config) sample_gateway) sample_request [answered] live_worker (live_fleet False) = Some (oc, r')"
    by (simp add: handleNonStreaming_def final_reply_def answered_def Let_def)
  show ?thesis using pending_is_what_is_billed [OF h] h by (auto simp: sample_request_def)
qed

definition late_error :: attempt where
  "late_error = \<lparr>at_reply = None, at_fleet = (\<lambda>_. live_fleet False), at_now = 10 ^ 12, at_rand = bf_zero, at_windows = [(10 ^ 12, True, [])]\<rparr>"

definition early_error :: attempt where
  "early_error = \<lparr>at_reply = None, at_fleet = (\<lambda>_. live_fleet False), at_now = 2, at_rand = bf_zero, at_windows = [(10 ^ 12, True, [WindowOver])]\<rparr>"

theorem retries_end_after_deadline_witness:
  "\<exists>oc r'. handleNonStreaming sample_codecs sample_gateway sample_request ([early_error] @ [late_error, late_error]) live_worker (live_fleet False) = Some (oc, r')"
  by (rule retries_end_after_deadline [where W = "fleet_ids (live_fleet False)", OF refl])
     (simp_all add: fleet_ids_def live_fleet_list late_attempt_def late_error_def waits_end_def early_error_def sample_request_def sample_gateway_def NewGateway_def second_def Let_def)

definition keyed_config :: "string \<Rightarrow> gateway_config" where
  "keyed_config token = \<lparr>gc_ClientToken = token, gc_APIKeys = [], gc_RequestTimeoutSec = 0, gc_QueueTimeoutSec = 0, gc_MaxQueueSize = 0,
     gc_ModelSwitchLoadFactor = bf_zero, gc_StreamResume = False, gc_StreamMaxResumes = 0, gc_RatePerSecPerKey = bf_zero,
     gc_RateBurstPerKey = 0, gc_MaxConcurrentPerKey = 0, gc_MaxRequestBytes = 0, gc_MaxKeysPerWallet = 0\<rparr>"


theorem registrations_close_at_restart_witness:
  "\<exists>key rec ks. createKey Keys.sample_env ''0xaa'' ''n'' 0 (gw_keystore (NewGateway (keyed_config '''') True Missing)) = Some (key, rec, ks) \<and>
     authenticate (gw_authEnabled (NewGateway (keyed_config '''') True (ks_store ks))) '''' (gw_keystore (NewGateway (keyed_config '''') True (ks_store ks))) = None"
proof -
  have s: "static_keys (keyed_config '''') = []" by (simp add: static_keys_def config_keys_def keyed_config_def)
  obtain key rec ks where c: "createKey Keys.sample_env ''0xaa'' ''n'' 0 (gw_keystore (NewGateway (keyed_config '''') True Missing)) = Some (key, rec, ks)"
    by (simp add: NewGateway_keys(1) s new_keystore_def createKey_def Keys.sample_env_def generateAPIKey_def generateKeyID_def appendRegistration_def
        loadRegistrationsFile_def writeRegistrationsFile_def Let_def)
  from registrations_close_at_restart [OF s refl c refl refl] c show ?thesis by blast
qed

end
