(* ===== verification/StreamProxy.thy ===== *)
theory StreamProxy
  imports Gateway
begin

text \<open>
  Streamed answers through the gateway (\<open>handleStreaming\<close> and \<open>tryResume\<close> of \<open>gateway/gateway.go\<close>): the
  segments of one client stream, retries before the first byte, continuation on another worker, and
  the bill. A segment is what \<open>httputil.ReverseProxy\<close> does with the writer of \<open>SseStream\<close>: nothing when
  the call fails or the answer is a 503, else the status, the chunks of the body, and a panic
  \<open>ErrAbortHandler\<close> when the copy breaks off.
\<close>

section \<open>One segment\<close>

datatype proxy_error = UpstreamError string | WorkerMining | AbortHandler

datatype reply = NoAnswer string | Answer int "string list" bool

record segment =
  sg_reply :: reply
  sg_fleet :: "registry \<Rightarrow> registry"
  sg_gone :: bool
  sg_now :: gotime
  sg_rands :: "bigfloat list"
  sg_windows :: "window list"

definition serve_segment :: "decoder \<Rightarrow> reply \<Rightarrow> sse \<Rightarrow> sse \<times> proxy_error option" where
  "serve_segment decode rep w =
     (case rep of
        NoAnswer e \<Rightarrow> (w, Some (UpstreamError e))
      | Answer status parts broken \<Rightarrow>
          if status = 503 then (w, Some WorkerMining)
          else (fold (Write decode) parts (WriteHeader status w), if broken then Some AbortHandler else None))"

text \<open>The state that spans the segments. \<open>st_status\<close> is the status the client has seen, 0 for none.\<close>

record stream =
  st_target :: worker
  st_tried :: "string list"
  st_body :: body
  st_content :: string
  st_resumes :: int
  st_delivered :: int
  st_started :: bool
  st_status :: int
  st_out :: string

definition segment_writer :: "gateway \<Rightarrow> request \<Rightarrow> stream \<Rightarrow> sse" where
  "segment_writer g rq st =
     new_writer (gw_streamResume g) (gw_streamResume g \<and> st_started st) (rq_receipts rq) (if rq_sampled rq then Some '''' else None) (st_content st)"

text \<open>What the segment adds to the stream; an error after the worker's own end of the stream is noise.\<close>

definition after_segment :: "sse \<Rightarrow> stream \<Rightarrow> stream" where
  "after_segment w st =
     st\<lparr>st_content := (if ss_filter w then ss_content w else st_content st),
       st_started := st_started st \<or> ss_wroteHeader w, st_delivered := st_delivered st + ss_delivered w,
       st_status := (if st_status st = 0 then ss_status w else st_status st), st_out := st_out st @ ss_out w\<rparr>"

definition real_error :: "sse \<Rightarrow> proxy_error option \<Rightarrow> proxy_error option" where
  "real_error w e = (if ss_heldDone w then None else e)"

section \<open>Continuing on another worker\<close>

fun resume_search ::
  "gateway \<Rightarrow> request \<Rightarrow> gotime \<Rightarrow> gotime \<Rightarrow> window list \<Rightarrow> registry \<Rightarrow> bigfloat list \<Rightarrow> string list \<Rightarrow> (worker option \<times> string list) option" where
  "resume_search g rq now deadline ws r [] tried = None"
| "resume_search g rq now deadline ws r (u # us) tried =
     (case selectWorkerForModel r now u (rq_model rq) (excluded tried) (gw_factor g) of
        None \<Rightarrow>
          (case blockForWorker r now (rq_model rq) (gw_factor g) deadline ws of
             None \<Rightarrow> None
           | Some (Inl _) \<Rightarrow> Some (None, tried)
           | Some (Inr w2) \<Rightarrow> Some (if HasFeature w2 FeatureContinuation then Some w2 else None, tried))
      | Some cand \<Rightarrow>
          if \<not> HasFeature cand FeatureContinuation then resume_search g rq now deadline ws r us (wk_id cand # tried)
          else Some (Some cand, tried))"

definition tryResume ::
  "gateway \<Rightarrow> request \<Rightarrow> gotime \<Rightarrow> segment \<Rightarrow> int \<Rightarrow> sse \<Rightarrow> registry \<Rightarrow> stream \<Rightarrow> ((worker \<times> body) option \<times> string list) option" where
  "tryResume g rq deadline sg remaining w r st =
     (if \<not> gw_streamResume g \<or> st_resumes st \<ge> gw_maxResumes g then Some (None, st_tried st)
      else if sg_gone sg \<or> \<not> sg_now sg < deadline \<or> st_content st = '''' \<or> ss_overflow w \<or> remaining < 1
      then Some (None, st_tried st)
      else case resume_search g rq (sg_now sg) deadline (sg_windows sg) r (sg_rands sg) (wk_id (st_target st) # st_tried st) of
             None \<Rightarrow> None
           | Some (None, tried) \<Rightarrow> Some (None, tried)
           | Some (Some nxt, tried) \<Rightarrow>
               (case withContinuation (rq_body rq) (st_content st) remaining of
                  None \<Rightarrow> None
                | Some None \<Rightarrow> Some (None, tried)
                | Some (Some nb) \<Rightarrow> Some (Some (nxt, Some nb), tried)))"

section \<open>Endings\<close>

definition metered_usage :: "request \<Rightarrow> int \<Rightarrow> tokenUsage" where
  "metered_usage rq delivered =
     (let prompt = estimatePromptTokens (rq_body rq)
      in \<lparr>PromptTokens = prompt, CompletionTokens = delivered, CachedTokens = 0, TotalTokens = prompt + delivered\<rparr>)"

text \<open>No worker before the first byte.\<close>

definition stream_failed :: "request \<Rightarrow> gotime \<Rightarrow> proxy_error \<Rightarrow> stream \<Rightarrow> outcome" where
  "stream_failed rq now err st =
     (let status = (if err = WorkerMining then 503 else 502);
          reason = (if err = WorkerMining then ''all_retries_failed'' else ''upstream_error'')
      in \<lparr>oc_status = status, oc_out = '''',
          oc_row = Some (log_row rq (wk_id (st_target st)) (rq_model rq) status reason now no_usage 0 None),
          oc_sample = None, oc_model = '''', oc_usage = no_usage\<rparr>)"

text \<open>The client went away: what it was sent is billed.\<close>

definition client_gone :: "codecs \<Rightarrow> request \<Rightarrow> gotime \<Rightarrow> sse \<Rightarrow> stream \<Rightarrow> outcome" where
  "client_gone cd rq now w st =
     (let u = metered_usage rq (st_delivered st)
      in \<lparr>oc_status = st_status st, oc_out = st_out st,
          oc_row = Some (log_row rq (wk_id (st_target st)) (rq_model rq) 200 '''' now u (st_resumes st) None),
          oc_sample = retainSample cd rq (wk_id (st_target st)) True 200 (sseCapBody w) u,
          oc_model = rq_model rq, oc_usage = u\<rparr>)"

text \<open>The worker broke off and nobody could continue: terminated in place, not billed.\<close>

definition stream_broken :: "request \<Rightarrow> gotime \<Rightarrow> sse \<Rightarrow> stream \<Rightarrow> outcome" where
  "stream_broken rq now w st =
     \<lparr>oc_status = st_status st, oc_out = st_out st @ drop (length (ss_out w)) (ss_out (flushHeld w)),
      oc_row = Some (log_row rq (wk_id (st_target st)) (rq_model rq) 200 ''stream_interrupted'' now (ss_usage w) (st_resumes st) None),
      oc_sample = None, oc_model = '''', oc_usage = no_usage\<rparr>"

text \<open>The bill of a stream that ended: the worker's usage, or what was delivered when there is none or the stream was continued.\<close>

definition stream_usage :: "request \<Rightarrow> tokenUsage \<Rightarrow> stream \<Rightarrow> tokenUsage" where
  "stream_usage rq reported st =
     (if st_resumes st > 0 then metered_usage rq (st_delivered st)
      else if TotalTokens reported = 0 \<and> st_delivered st > 0 then metered_usage rq (st_delivered st)
      else reported)"

definition stream_receipt :: "codecs \<Rightarrow> worker \<Rightarrow> tokenUsage \<Rightarrow> sse \<Rightarrow> stream \<Rightarrow> receipt option" where
  "stream_receipt cd target usage w st =
     (case ss_receipt w of
        None \<Rightarrow> None
      | Some j \<Rightarrow> map_option (verifyReceipt (cd_verify cd) (wk_pubkey target) (Some (cd_wire cd (st_body st))) usage (st_resumes st = 0)) (cd_receipt cd j))"

definition stream_finished :: "codecs \<Rightarrow> gateway \<Rightarrow> request \<Rightarrow> gotime \<Rightarrow> sse \<Rightarrow> stream \<Rightarrow> outcome" where
  "stream_finished cd g rq now w st =
     (let target = st_target st;
          status = (if ss_status w = 0 then 200 else ss_status w);
          out = (if ss_streamError w = '''' then finishClean w else w);
          usage = clampUsage (gw_cfg g) (ss_usage w) (rq_model rq);
          billed = stream_usage rq usage st;
          reason = (if ss_streamError w \<noteq> '''' then ''stream_interrupted'' else '''')
      in \<lparr>oc_status = (if st_status st = 0 then 200 else st_status st), oc_out = st_out st @ drop (length (ss_out w)) (ss_out out),
          oc_row = Some (log_row rq (wk_id target) (rq_model rq) status reason now billed (st_resumes st) (stream_receipt cd target usage w st)),
          oc_sample = retainSample cd rq (wk_id target) True status (sseCapBody w) billed,
          oc_model = (if reason \<noteq> '''' then '''' else rq_model rq), oc_usage = (if reason \<noteq> '''' then no_usage else billed)\<rparr>)"

section \<open>The stream\<close>

text \<open>The terminal step of a segment, or the stream state the next segment starts from.\<close>

datatype next_step = Ended outcome registry | Continue stream registry

definition stream_step :: "codecs \<Rightarrow> gateway \<Rightarrow> request \<Rightarrow> gotime \<Rightarrow> int \<Rightarrow> segment \<Rightarrow> stream \<Rightarrow> registry \<Rightarrow> next_step option" where
  "stream_step cd g rq deadline origMax sg st r =
     (let r = around (wk_id (st_target st)) (sg_fleet sg) r;
          (w, e) = serve_segment (cd_decode cd) (sg_reply sg) (segment_writer g rq st);
          st = after_segment w st;
          resume = tryResume g rq deadline sg (origMax - st_delivered st) w r st
      in case real_error w e of
           None \<Rightarrow>
             if ss_streamError w \<noteq> ''''
             then (case resume of
                     None \<Rightarrow> None
                   | Some (Some (nxt, nb), tried) \<Rightarrow>
                       Some (Continue (st\<lparr>st_target := nxt, st_body := nb, st_tried := tried, st_resumes := st_resumes st + 1\<rparr>) r)
                   | Some (None, tried) \<Rightarrow>
                       let w' = flushHeld w
                       in Some (Ended (stream_finished cd g rq (sg_now sg) w' (st\<lparr>st_out := st_out st @ drop (length (ss_out w)) (ss_out w')\<rparr>)) r))
             else Some (Ended (stream_finished cd g rq (sg_now sg) w st) r)
         | Some err \<Rightarrow>
             if \<not> st_started st
             then (let tried = wk_id (st_target st) # st_tried st
                   in case sg_rands sg of
                        [] \<Rightarrow> None
                      | u # _ \<Rightarrow>
                          (case selectWorkerForModel r (sg_now sg) u (rq_model rq) (excluded tried) (gw_factor g) of
                             Some nxt \<Rightarrow> Some (Continue (st\<lparr>st_target := nxt, st_tried := tried\<rparr>) r)
                           | None \<Rightarrow>
                               (case blockForWorker r (sg_now sg) (rq_model rq) (gw_factor g) deadline (sg_windows sg) of
                                  None \<Rightarrow> None
                                | Some (Inr w2) \<Rightarrow> Some (Continue (st\<lparr>st_target := w2, st_tried := []\<rparr>) r)
                                | Some (Inl _) \<Rightarrow> Some (Ended (stream_failed rq (sg_now sg) err st) r))))
             else if sg_gone sg \<and> st_delivered st > 0 then Some (Ended (client_gone cd rq (sg_now sg) w st) r)
             else (case resume of
                     None \<Rightarrow> None
                   | Some (Some (nxt, nb), tried) \<Rightarrow>
                       Some (Continue (st\<lparr>st_target := nxt, st_body := nb, st_tried := tried, st_resumes := st_resumes st + 1\<rparr>) r)
                   | Some (None, tried) \<Rightarrow> Some (Ended (stream_broken rq (sg_now sg) w st) r)))"

definition bad_endpoint :: outcome where
  "bad_endpoint = \<lparr>oc_status = 502, oc_out = '''', oc_row = None, oc_sample = None, oc_model = '''', oc_usage = no_usage\<rparr>"

fun stream_loop :: "codecs \<Rightarrow> gateway \<Rightarrow> request \<Rightarrow> gotime \<Rightarrow> int \<Rightarrow> segment list \<Rightarrow> stream \<Rightarrow> registry \<Rightarrow> (outcome \<times> registry) option" where
  "stream_loop cd g rq deadline origMax sgs st r =
     (if \<not> cd_url_ok cd (wk_endpoint (st_target st)) then Some (bad_endpoint, r)
      else case sgs of
             [] \<Rightarrow> None
           | sg # sgs \<Rightarrow>
               (case stream_step cd g rq deadline origMax sg st r of
                  None \<Rightarrow> None
                | Some (Ended oc r) \<Rightarrow> Some (oc, r)
                | Some (Continue st r) \<Rightarrow> stream_loop cd g rq deadline origMax sgs st r))"

declare stream_loop.simps [simp del]

definition original_max :: "gateway \<Rightarrow> request \<Rightarrow> int" where
  "original_max g rq =
     (let m = extractInt (rq_body rq) ''max_tokens'';
          m = (case gw_cfg g of Some c \<Rightarrow> if m \<le> 0 then cfg_DefaultMaxTokens c else m | None \<Rightarrow> m)
      in if m \<le> 0 then 256 else m)"

definition new_stream :: "request \<Rightarrow> worker \<Rightarrow> stream" where
  "new_stream rq target =
     \<lparr>st_target = target, st_tried = [], st_body = rq_body rq, st_content = '''', st_resumes = 0, st_delivered = 0,
      st_started = False, st_status = 0, st_out = ''''\<rparr>"

definition handleStreaming :: "codecs \<Rightarrow> gateway \<Rightarrow> request \<Rightarrow> segment list \<Rightarrow> worker \<Rightarrow> registry \<Rightarrow> (outcome \<times> registry) option" where
  "handleStreaming cd g rq sgs target r =
     stream_loop cd g rq (rq_start rq + gw_requestTimeout g) (original_max g rq) sgs (new_stream rq target) r"

section \<open>What a writer keeps\<close>

lemma meter_status [simp]: "ss_status (meter c w) = ss_status w" "ss_wroteHeader (meter c w) = ss_wroteHeader w"
  by (simp_all add: meter_def Let_def)

lemma meters_status [simp]: "ss_status (fold meter cs w) = ss_status w" "ss_wroteHeader (fold meter cs w) = ss_wroteHeader w"
  by (induction cs arbitrary: w) simp_all

lemma line_status [simp]:
  "ss_status (processLine decode l w) = ss_status w" "ss_wroteHeader (processLine decode l w) = ss_wroteHeader w"
  by (simp_all add: processLine_def processData_def take_usage_def forward_def Let_def split: option.split)

lemma write_loop_status: "ss_status (write_loop decode b w) = ss_status w \<and> ss_wroteHeader (write_loop decode b w) = ss_wroteHeader w \<and> ss_filter (write_loop decode b w) = ss_filter w"
  by (induction decode b w rule: write_loop.induct) (subst (1 2 3) write_loop.simps, simp add: Let_def)

lemma scans_status:
  "ss_status (fold (scan_line decode) ls w) = ss_status w \<and> ss_wroteHeader (fold (scan_line decode) ls w) = ss_wroteHeader w \<and>
   ss_filter (fold (scan_line decode) ls w) = ss_filter w"
proof (induction ls arbitrary: w)
  case (Cons l ls)
  have "ss_status (scan_line decode l w) = ss_status w \<and> ss_wroteHeader (scan_line decode l w) = ss_wroteHeader w \<and> ss_filter (scan_line decode l w) = ss_filter w"
    by (simp add: scan_line_def take_usage_def Let_def split: option.split)
  then show ?case using Cons.IH by simp
qed simp

lemma capture_status [simp]:
  "ss_status (capture b w) = ss_status w" "ss_wroteHeader (capture b w) = ss_wroteHeader w" "ss_filter (capture b w) = ss_filter w"
  by (simp_all add: capture_def Let_def split: option.split)

lemma Write_status: "ss_status (Write decode b w) = ss_status w" "ss_wroteHeader (Write decode b w)" "ss_filter (Write decode b w) = ss_filter w"
  using write_loop_status scans_status by (simp_all add: Write_def Let_def)

lemma Writes_status:
  "ss_status (fold (Write decode) bs w) = ss_status w" "ss_wroteHeader w \<Longrightarrow> ss_wroteHeader (fold (Write decode) bs w)"
  "ss_filter (fold (Write decode) bs w) = ss_filter w"
  by (induction bs arbitrary: w) (simp_all add: Write_status)

section \<open>The bill of a stream\<close>

text \<open>The replies of a well-behaved worker: success, or a 503.\<close>

definition plain_reply :: "reply \<Rightarrow> bool" where
  "plain_reply rep \<longleftrightarrow> (case rep of NoAnswer e \<Rightarrow> True | Answer status bs broken \<Rightarrow> status = 200 \<or> status = 503)"

lemma new_writer_sel [simp]:
  "ss_status (segment_writer g rq st) = 0" "ss_wroteHeader (segment_writer g rq st) = False" "ss_filter (segment_writer g rq st) = gw_streamResume g"
  "ss_delivered (segment_writer g rq st) = 0" "ss_out (segment_writer g rq st) = ''''" "ss_content (segment_writer g rq st) = st_content st"
  "ss_overflow (segment_writer g rq st) = False" "ss_heldDone (segment_writer g rq st) = False" "ss_pend (segment_writer g rq st) = ''''"
  "ss_forwardReceipt (segment_writer g rq st) = rq_receipts rq"
  by (simp_all add: segment_writer_def new_writer_def)

lemma plain_status: "serve_segment decode rep (segment_writer g rq st) = (w, e) \<Longrightarrow> plain_reply rep \<Longrightarrow> ss_status w = 0 \<or> ss_status w = 200"
  by (cases rep) (auto simp: serve_segment_def plain_reply_def Writes_status WriteHeader_def split: if_splits)

lemma billed_no_usage:
  "oc_row oc = Some (log_row rq wid m status reason now u n rc) \<Longrightarrow> \<not> (status = 200 \<and> reason = '''') \<Longrightarrow> oc_usage oc = no_usage \<Longrightarrow> billed_right cfg ws g oc"
  using no_bill by (simp add: billed_right_def)

lemma billed_usage:
  assumes "priced cfg g" "ke_wallet (rq_key rq) \<noteq> ''''"
    and "oc_row oc = Some (log_row rq wid (oc_model oc) 200 '''' now (oc_usage oc) n rc)"
  shows "billed_right cfg ws g oc"
  using bill_of_row [OF assms(1,2) refl refl] assms(3) by (simp add: billed_right_def)

lemma finished_billed:
  assumes "priced cfg g" "ke_wallet (rq_key rq) \<noteq> ''''" "ss_status w = 0 \<or> ss_status w = 200"
  shows "billed_right cfg ws g (stream_finished cd g rq now w st)"
proof (cases "ss_streamError w = ''''")
  case True
  show ?thesis by (rule billed_usage [OF assms(1,2)]) (use True assms(3) in \<open>auto simp: stream_finished_def Let_def\<close>)
next
  case False
  show ?thesis by (rule billed_no_usage [where reason = "''stream_interrupted''"]) (use False in \<open>simp_all add: stream_finished_def Let_def\<close>)
qed

lemma flush_status [simp]: "ss_status (flushHeld w) = ss_status w"
  by (simp add: flushHeld_def)

text \<open>The ways a stream ends; with plain replies its last status is a success.\<close>

definition stream_end :: "codecs \<Rightarrow> gateway \<Rightarrow> request \<Rightarrow> bool \<Rightarrow> outcome \<Rightarrow> bool" where
  "stream_end cd g rq plain oc \<longleftrightarrow>
     oc = bad_endpoint \<or> (\<exists>now err st. oc = stream_failed rq now err st) \<or> (\<exists>now w st. oc = client_gone cd rq now w st) \<or>
     (\<exists>now w st. oc = stream_broken rq now w st) \<or>
     (\<exists>now w st. oc = stream_finished cd g rq now w st \<and> (plain \<longrightarrow> ss_status w = 0 \<or> ss_status w = 200))"

lemma stream_endI:
  "stream_end cd g rq plain bad_endpoint" "stream_end cd g rq plain (stream_failed rq now err st)"
  "stream_end cd g rq plain (client_gone cd rq now w st)" "stream_end cd g rq plain (stream_broken rq now w st)"
  "(plain \<Longrightarrow> ss_status w = 0 \<or> ss_status w = 200) \<Longrightarrow> stream_end cd g rq plain (stream_finished cd g rq now w st)"
  unfolding stream_end_def by blast+

lemma step_end:
  assumes "plain \<longrightarrow> plain_reply (sg_reply sg)" "stream_step cd g rq deadline origMax sg st r = Some (Ended oc r')"
  shows "stream_end cd g rq plain oc"
proof -
  obtain w e where s: "serve_segment (cd_decode cd) (sg_reply sg) (segment_writer g rq st) = (w, e)" by fastforce
  have st: "plain \<Longrightarrow> ss_status w = 0 \<or> ss_status w = 200" using plain_status [OF s] assms(1) by blast
  note ends = stream_endI(2-4) stream_endI(5) [OF st] 
  have fl: "stream_end cd g rq plain (stream_finished cd g rq now (flushHeld w) st)" for now st
    by (rule stream_endI(5)) (use st in simp)
  show ?thesis
    using assms(2) stream_endI(2-4) stream_endI(5) [OF st] fl
    by (auto simp: stream_step_def s Let_def split: option.splits if_splits sum.splits list.splits)
qed

lemma stream_end_weaken: "stream_end cd g rq plain oc \<Longrightarrow> (plain' \<Longrightarrow> plain) \<Longrightarrow> stream_end cd g rq plain' oc"
  unfolding stream_end_def by blast

lemma stream_ends:
  "stream_loop cd g rq deadline origMax sgs st r = Some (oc, r') \<Longrightarrow>
   stream_end cd g rq (list_all (\<lambda>sg. plain_reply (sg_reply sg)) sgs) oc"
proof (induction sgs arbitrary: st r)
  case Nil
  then show ?case using stream_endI(1) by (auto simp: stream_loop.simps [of cd g rq deadline origMax "[]"] split: if_splits)
next
  case (Cons sg sgs)
  note step = Cons.prems [unfolded stream_loop.simps [of cd g rq deadline origMax "sg # sgs"]]
  let ?plain = "list_all (\<lambda>sg. plain_reply (sg_reply sg)) (sg # sgs)"
  show ?case
  proof (cases "cd_url_ok cd (wk_endpoint (st_target st))")
    case False
    then show ?thesis using step stream_endI(1) by simp
  next
    case True
    show ?thesis
    proof (cases "stream_step cd g rq deadline origMax sg st r")
      case None
      then show ?thesis using step True by simp
    next
      case (Some nx)
      show ?thesis
      proof (cases nx)
        case (Ended oc2 r2)
        then have "oc2 = oc" using step True Some by simp
        then show ?thesis using step_end [of ?plain, OF _ Some [unfolded Ended]] by simp
      next
        case (Continue st2 r2)
        then have "stream_end cd g rq (list_all (\<lambda>sg. plain_reply (sg_reply sg)) sgs) oc" using Cons.IH step True Some by simp
        then show ?thesis by (rule stream_end_weaken) simp
      qed
    qed
  qed
qed

lemma end_billed:
  assumes "priced cfg g" "ke_wallet (rq_key rq) \<noteq> ''''" "stream_end cd g rq True oc"
  shows "oc = bad_endpoint \<or> billed_right cfg ws g oc"
proof -
  have gone: "billed_right cfg ws g (client_gone cd rq now w st)" for now w st
    by (rule billed_usage [OF assms(1,2)]) (simp add: client_gone_def Let_def)
  have failed: "billed_right cfg ws g (stream_failed rq now err st)" for now err st
    by (rule billed_no_usage [where status = "if err = WorkerMining then 503 else 502"]) (simp_all add: stream_failed_def Let_def)
  have broken: "billed_right cfg ws g (stream_broken rq now w st)" for now w st
    by (rule billed_no_usage [where reason = "''stream_interrupted''"]) (simp_all add: stream_broken_def)
  from assms(3) show ?thesis
    unfolding stream_end_def using gone failed broken finished_billed [OF assms(1,2)] by blast
qed

lemma end_row: "stream_end cd g rq plain oc \<Longrightarrow> row_of rq oc"
  by (auto simp: stream_end_def row_of_def bad_endpoint_def stream_failed_def client_gone_def stream_broken_def stream_finished_def Let_def)

text \<open>
  A stream keeps what settlement will bill. If the workers answer with success or 503, then however a
  streamed request ends (complete, continued, cut off, client gone, no worker) its one row is billed
  exactly at the cost the gateway keeps as unsettled spending; the only ending without a row, an
  unusable worker address, keeps nothing.
\<close>

theorem stream_is_billed_once:
  assumes "handleStreaming cd (SetBalanceChecker bc (Some cfg) g0) rq sgs target r = Some (oc, r')" "ke_wallet (rq_key rq) \<noteq> ''''"
    and "list_all (\<lambda>sg. plain_reply (sg_reply sg)) sgs"
  shows "case oc_row oc of
      Some row \<Rightarrow> (if isBillable row then recordCostUSD (NewAggregator cfg ws) row else bf_zero) =
        actual_cost (SetBalanceChecker bc (Some cfg) g0) (oc_model oc) (oc_usage oc)
    | None \<Rightarrow> oc_usage oc = no_usage"
proof -
  have "stream_end cd (SetBalanceChecker bc (Some cfg) g0) rq True oc"
    using stream_ends [OF assms(1) [unfolded handleStreaming_def]] assms(3) by simp
  from end_billed [OF SetBalanceChecker_priced assms(2) this, of ws] show ?thesis
    by (cases "oc_row oc") (auto simp: billed_right_def bill_of_def bad_endpoint_def)
qed

definition delta_bytes :: string where
  "delta_bytes = quoted ''content'' @ '':'' @ quoted ''x''"

lemma delta_write:
  assumes "\<not> ss_filter w"
  shows "ss_delivered (Write decode delta_bytes w) = ss_delivered w + 1" "ss_streamError (Write decode delta_bytes w) = ss_streamError w"
    "ss_usage (Write decode delta_bytes w) = ss_usage w" "ss_heldDone (Write decode delta_bytes w) = ss_heldDone w"
proof -
  have c: "ss_delivered (capture b w) = ss_delivered w" "ss_streamError (capture b w) = ss_streamError w" "ss_usage (capture b w) = ss_usage w"
    "ss_heldDone (capture b w) = ss_heldDone w" for b w
    by (simp_all add: capture_def Let_def split: option.split)
  have n: "countContentDeltas delta_bytes = 1" by (simp add: delta_bytes_def countContentDeltas_def quoted_def HasPrefix_def Let_def)
  have no: "\<not> Contains delta_bytes (quoted ''usage'')" "\<not> Contains delta_bytes (quoted ''error'')"
    by (simp_all add: delta_bytes_def quoted_def HasPrefix_def)
  show "ss_delivered (Write decode delta_bytes w) = ss_delivered w + 1" "ss_streamError (Write decode delta_bytes w) = ss_streamError w"
    "ss_usage (Write decode delta_bytes w) = ss_usage w" "ss_heldDone (Write decode delta_bytes w) = ss_heldDone w"
    using assms by (simp_all add: Write_def n no c Let_def)
qed

lemma prompt_estimate_nonneg: "0 \<le> estimatePromptTokens b"
  by (simp add: estimatePromptTokens_def Let_def split: option.split json.split)

definition one_answer :: "int \<Rightarrow> string list \<Rightarrow> bool \<Rightarrow> segment" where
  "one_answer status parts broken = \<lparr>sg_reply = Answer status parts broken, sg_fleet = id, sg_gone = False, sg_now = 2, sg_rands = [], sg_windows = []\<rparr>"

text \<open>
  A refused stream leaves spending that nothing clears. A worker that answers a streamed request with an
  error status and a body in which one content delta is counted leaves a row settlement skips, yet the
  gateway keeps its cost: the stream is charged to the credit gate whatever its status, unlike an
  answer that is not streamed.
\<close>

theorem refused_stream_keeps_spending:
  assumes "cd_url_ok cd (wk_endpoint target)" "status \<noteq> 200" "status \<noteq> 503" "status \<noteq> 0" "\<not> gw_streamResume g" "gw_cfg g = None"
  shows "\<exists>oc row r'. handleStreaming cd g rq [one_answer status [delta_bytes] False] target r = Some (oc, r') \<and> oc_row oc = Some row \<and>
    \<not> isBillable row \<and> rr_status row = status \<and> TotalTokens (oc_usage oc) = estimatePromptTokens (rq_body rq) + 1 \<and> 0 < TotalTokens (oc_usage oc)"
proof -
  define w where "w = Write (cd_decode cd) delta_bytes (WriteHeader status (segment_writer g rq (new_stream rq target)))"
  define st where "st = after_segment w (new_stream rq target)"
  have f: "\<not> ss_filter (WriteHeader status (segment_writer g rq (new_stream rq target)))" using assms(5) by (simp add: WriteHeader_def)
  have w: "ss_delivered w = 1" "ss_streamError w = ''''" "ss_usage w = no_usage" "ss_status w = status"
    using delta_write [OF f] Write_status(1) by (simp_all add: w_def WriteHeader_def segment_writer_def new_writer_def)
  have u: "clampUsage None no_usage m = no_usage" for m by (simp add: clampUsage_def catalog_entry_def no_usage_def Let_def)
  let ?oc = "stream_finished cd g rq 2 w st"
  let ?r = "around (wk_id target) id r"
  have "stream_step cd g rq d m (one_answer status [delta_bytes] False) (new_stream rq target) r = Some (Ended ?oc ?r)" for d m
  proof -
    have s: "serve_segment (cd_decode cd) (sg_reply (one_answer status [delta_bytes] False)) (segment_writer g rq (new_stream rq target)) = (w, None)"
      using assms(3) by (simp add: serve_segment_def one_answer_def w_def)
    have t: "st_target (new_stream rq target) = target" "sg_now (one_answer status [delta_bytes] False) = 2"
      "sg_fleet (one_answer status [delta_bytes] False) = id"
      by (simp_all add: new_stream_def one_answer_def)
    show ?thesis unfolding stream_step_def s t by (simp add: real_error_def w(2) st_def Let_def)
  qed
  then have h: "handleStreaming cd g rq [one_answer status [delta_bytes] False] target r = Some (?oc, ?r)"
    using assms(1) by (simp add: handleStreaming_def stream_loop.simps [of _ _ _ _ _ "[_]"] new_stream_def)
  have b: "stream_usage rq no_usage st = metered_usage rq 1"
    using w(1) by (simp add: stream_usage_def st_def after_segment_def new_stream_def no_usage_def)
  show ?thesis
    using assms(2,4) prompt_estimate_nonneg [of "rq_body rq"]
    by (intro exI [of _ ?oc] exI [of _ "the (oc_row ?oc)"] exI [of _ ?r])
       (simp add: h stream_finished_def Let_def w assms(6) u b log_row_def isBillable_def metered_usage_def)
qed

section \<open>Continued streams\<close>

text \<open>
  What the client is to have after some segments, from the bytes of the workers alone: of each
  answer the kept lines; a line a worker breaks off in is not sent.
\<close>

definition reply_bytes :: "reply \<Rightarrow> string" where
  "reply_bytes rep =
     (case rep of NoAnswer e \<Rightarrow> [] | Answer status parts broken \<Rightarrow> if status = 503 then [] else concat parts)"

definition segment_lines :: "bool \<Rightarrow> decoder \<Rightarrow> segment \<Rightarrow> string list" where
  "segment_lines fwd decode sg = kept_lines fwd decode False (lines_of (reply_bytes (sg_reply sg)))"

definition client_lines :: "bool \<Rightarrow> decoder \<Rightarrow> segment list \<Rightarrow> string list" where
  "client_lines fwd decode sgs = concat (List.map (segment_lines fwd decode) sgs)"

text \<open>
  \<open>told decode ls st\<close>: the client has been sent the lines \<open>ls\<close>, and the state counts their content deltas and
  holds their text.
\<close>

definition told :: "decoder \<Rightarrow> string list \<Rightarrow> stream \<Rightarrow> bool" where
  "told decode ls st \<longleftrightarrow>
     st_out st = concat ls \<and> st_delivered st = int (length (all_texts decode ls)) \<and>
     st_content st = concat (all_texts decode ls) \<and> length (st_content st) \<le> resumeContentCap"

definition writer_fit :: "sse \<Rightarrow> bool" where
  "writer_fit w \<longleftrightarrow> writer_ok w \<and> (\<forall>buf. ss_capture w = Some buf \<longrightarrow> length buf \<le> ss_captureCap w)"

lemma Writes_feed: "writer_fit w \<Longrightarrow> \<exists>x h. fold (Write decode) bs w = tag x h (fold (feed decode) (concat bs) w)"
proof (induction bs arbitrary: w)
  case Nil
  then show ?case by (intro exI [of _ "ss_capture w"] exI [of _ "ss_wroteHeader w"]) (simp add: tag_def)
next
  case (Cons b bs)
  have e: "Write decode b w = tag (captured b w) True (fold (feed decode) b w)"
    using Cons.prems by (intro Write_filter) (auto simp: writer_fit_def)
  have "writer_fit (Write decode b w)"
    using Cons.prems feeds_ok [of w decode b] by (auto simp: e writer_fit_def writer_ok_def captured_def feeds_cap)
  from Cons.IH [OF this] show ?case by (auto simp: e feeds_tag)
qed

lemma accounted_header: "accounted decode ls (WriteHeader status w) w' = accounted decode ls w w'"
  by (simp add: accounted_def WriteHeader_def)

lemma segment_accounted:
  assumes "serve_segment decode (sg_reply sg) (segment_writer g rq st) = (w, e)" "gw_streamResume g" "length (st_content st) \<le> resumeContentCap"
  shows "accounted decode (lines_of (reply_bytes (sg_reply sg))) (segment_writer g rq st) w"
proof -
  have nil: "lines_of [] = []" by (simp add: lines_of_def)
  show ?thesis
  proof (cases "sg_reply sg")
    case (NoAnswer x)
    then show ?thesis using assms(1) accounted_refl nil by (auto simp: serve_segment_def reply_bytes_def)
  next
    case (Answer status bs broken)
    let ?w = "WriteHeader status (segment_writer g rq st)"
    show ?thesis
    proof (cases "status = 503")
      case True
      then show ?thesis using assms(1) Answer accounted_refl nil by (auto simp: serve_segment_def reply_bytes_def)
    next
      case False
      have "writer_fit ?w" using assms(2)
        by (auto simp: writer_fit_def writer_ok_def WriteHeader_def segment_writer_def new_writer_def split: if_splits)
      from Writes_feed [OF this] obtain x h where f: "fold (Write decode) bs ?w = tag x h (fold (feed decode) (concat bs) ?w)" by blast
      have "accounted decode (lines_of (ss_pend ?w @ concat bs)) ?w (fold (feed decode) (concat bs) ?w)"
        using assms(3) by (intro feeds_accounted) (simp_all add: WriteHeader_def segment_writer_def new_writer_def)
      then have "accounted decode (lines_of (concat bs)) (segment_writer g rq st) (fold (Write decode) bs ?w)"
        by (simp add: f accounted_tag accounted_header) (simp add: WriteHeader_def)
      then show ?thesis using assms(1) Answer False by (auto simp: serve_segment_def reply_bytes_def)
    qed
  qed
qed

lemma told_segment:
  assumes "told decode ls st" "serve_segment decode (sg_reply sg) (segment_writer g rq st) = (w, e)" "gw_streamResume g" "\<not> ss_overflow w"
  shows "told decode (ls @ segment_lines (rq_receipts rq) decode sg) (after_segment w st)"
proof -
  have c: "length (st_content st) \<le> resumeContentCap" using assms(1) unfolding told_def by blast
  note k = segment_accounted [OF assms(2,3) c]
  have cap: "ss_contentCap (segment_writer g rq st) = resumeContentCap" "ss_lastSuppressed (segment_writer g rq st) = False"
    by (simp_all add: segment_writer_def new_writer_def)
  have "ss_filter w"
    using assms(2,3) by (cases "sg_reply sg") (auto simp: serve_segment_def Writes_status WriteHeader_def split: if_splits)
  then show ?thesis
    using k assms(1,4) c by (simp add: told_def after_segment_def accounted_def Let_def segment_lines_def cap)
qed

lemma told_frame [simp]: "told decode ls (st\<lparr>st_target := t\<rparr>) = told decode ls st" "told decode ls (st\<lparr>st_body := b\<rparr>) = told decode ls st"
  "told decode ls (st\<lparr>st_tried := tr\<rparr>) = told decode ls st" "told decode ls (st\<lparr>st_resumes := n\<rparr>) = told decode ls st"
  by (simp_all add: told_def)

lemma resume_search_able: "resume_search g rq now deadline ws r us tried = Some (Some w, tried') \<Longrightarrow> HasFeature w FeatureContinuation"
  by (induction g rq now deadline ws r us tried rule: resume_search.induct) (auto split: option.splits sum.splits if_splits)

lemma tryResume_Some:
  assumes "tryResume g rq deadline sg remaining w r st = Some (Some (nxt, nb), tried)"
  shows "\<not> ss_overflow w \<and> 1 \<le> remaining \<and> st_resumes st < gw_maxResumes g \<and> \<not> sg_gone sg \<and> gw_streamResume g \<and>
    HasFeature nxt FeatureContinuation \<and> withContinuation (rq_body rq) (st_content st) remaining = Some nb"
  using assms by (auto simp: tryResume_def resume_search_able split: if_splits option.splits)

text \<open>A stream's states: it starts fresh, and each segment that does not end it leads to the next.\<close>

inductive streaming :: "codecs \<Rightarrow> gateway \<Rightarrow> request \<Rightarrow> gotime \<Rightarrow> int \<Rightarrow> segment list \<Rightarrow> stream \<Rightarrow> bool" for cd g rq deadline origMax where
  fresh: "streaming cd g rq deadline origMax [] (new_stream rq target)"
| segment: "streaming cd g rq deadline origMax sgs st \<Longrightarrow> stream_step cd g rq deadline origMax sg st r = Some (Continue st' r') \<Longrightarrow>
    streaming cd g rq deadline origMax (sgs @ [sg]) st'"

lemma Continue_cases:
  assumes "serve_segment (cd_decode cd) (sg_reply sg) (segment_writer g rq st) = (w, e)"
    and "stream_step cd g rq deadline origMax sg st r = Some (Continue st' r')"
  obtains (resumed) nxt nb tried where
      "tryResume g rq deadline sg (origMax - st_delivered (after_segment w st)) w (around (wk_id (st_target st)) (sg_fleet sg) r) (after_segment w st)
         = Some (Some (nxt, nb), tried)"
      "st' = (after_segment w st)\<lparr>st_target := nxt, st_body := nb, st_tried := tried, st_resumes := st_resumes (after_segment w st) + 1\<rparr>"
    | (retried) nxt tried where "\<not> st_started (after_segment w st)" "st' = (after_segment w st)\<lparr>st_target := nxt, st_tried := tried\<rparr>"
proof -
  define r2 where "r2 = around (wk_id (st_target st)) (sg_fleet sg) r"
  define st2 where "st2 = after_segment w st"
  define T where "T = tryResume g rq deadline sg (origMax - st_delivered st2) w r2 st2"
  note a = assms(2) [unfolded stream_step_def Let_def assms(1) prod.case r2_def [symmetric], folded st2_def, folded T_def]
  have T: thesis if "T = Some (Some (nxt, nb), tried)" "st' = st2\<lparr>st_target := nxt, st_body := nb, st_tried := tried, st_resumes := st_resumes st2 + 1\<rparr>" for nxt nb tried
    using resumed that by (simp add: T_def r2_def st2_def)
  have R: thesis if "\<not> st_started st2" "st' = st2\<lparr>st_target := nxt, st_tried := tried\<rparr>" for nxt tried
    using retried that by (simp add: st2_def)
  have res: thesis
    if c: "(case T of None \<Rightarrow> None
        | Some (Some (nxt, nb), tried) \<Rightarrow> Some (Continue (st2\<lparr>st_target := nxt, st_body := nb, st_tried := tried, st_resumes := st_resumes st2 + 1\<rparr>) r2)
        | Some (None, tried) \<Rightarrow> Some (Ended x r2)) = Some (Continue st' r')" for x
  proof (cases T)
    case (Some p)
    obtain o1 tried where p: "p = (o1, tried)" by (cases p)
    show ?thesis
    proof (cases o1)
      case (Some q)
      obtain nxt nb where "q = (nxt, nb)" by (cases q)
      then show ?thesis using T [where nxt = nxt and nb = nb and tried = tried] c \<open>T = Some p\<close> p Some by simp
    qed (use c \<open>T = Some p\<close> p in simp)
  qed (use c in simp)
  show thesis
  proof (cases "real_error w e")
    case None
    show ?thesis
    proof (cases "ss_streamError w = ''''")
      case False
      show ?thesis by (rule res) (use a None False in \<open>simp only: option.case if_True simp_thms\<close>)
    qed (use a None in simp)
  next
    case (Some err)
    note b = a [unfolded Some option.case]
    show ?thesis
    proof (cases "st_started st2")
      case False
      let ?sel = "\<lambda>u. selectWorkerForModel r2 (sg_now sg) u (rq_model rq) (excluded (wk_id (st_target st2) # st_tried st2)) (gw_factor g)"
      let ?blk = "blockForWorker r2 (sg_now sg) (rq_model rq) (gw_factor g) deadline (sg_windows sg)"
      show ?thesis
      proof (cases "sg_rands sg")
        case Nil
        then show ?thesis using b False by simp
      next
        case (Cons u us)
        note c = b [unfolded Cons list.case]
        show ?thesis
        proof (cases "?sel u")
          case (Some nxt)
          then show ?thesis using R [where nxt = nxt and tried = "wk_id (st_target st2) # st_tried st2"] c False by simp
        next
          case sel: None
          show ?thesis
          proof (cases ?blk)
            case None
            then show ?thesis using c False sel by simp
          next
            case (Some v)
            then show ?thesis using R [where nxt = "projr v" and tried = "[]"] c False sel by (cases v) simp_all
          qed
        qed
      qed
    next
      case True
      show ?thesis
      proof (cases "sg_gone sg \<and> st_delivered st2 > 0")
        case False
        show ?thesis by (rule res) (use b True False in \<open>simp only: simp_thms if_False\<close>)
      qed (use b True in simp)
    qed
  qed
qed

lemma step_told:
  assumes "told (cd_decode cd) ls st" "gw_streamResume g"
    and "stream_step cd g rq deadline origMax sg st r = Some (Continue st' r')"
  shows "told (cd_decode cd) (ls @ segment_lines (rq_receipts rq) (cd_decode cd) sg) st' \<and>
    (st_resumes st' = st_resumes st \<or>
     st_resumes st' = st_resumes st + 1 \<and> st_resumes st < gw_maxResumes g \<and> st_delivered st' < origMax \<and>
     HasFeature (st_target st') FeatureContinuation \<and>
     withContinuation (rq_body rq) (st_content st') (origMax - st_delivered st') = Some (st_body st'))"
proof -
  obtain w e where s: "serve_segment (cd_decode cd) (sg_reply sg) (segment_writer g rq st) = (w, e)" by fastforce
  let ?r = "around (wk_id (st_target st)) (sg_fleet sg) r"
  let ?st = "after_segment w st"
  have resumed: ?thesis
    if "tryResume g rq deadline sg (origMax - st_delivered ?st) w ?r ?st = Some (Some (nxt, nb), tried)"
      and "st' = ?st\<lparr>st_target := nxt, st_body := nb, st_tried := tried, st_resumes := st_resumes ?st + 1\<rparr>" for nxt nb tried
  proof -
    note t = tryResume_Some [OF that(1)]
    have "told (cd_decode cd) (ls @ segment_lines (rq_receipts rq) (cd_decode cd) sg) ?st" using told_segment [OF assms(1) s assms(2)] t by blast
    then show ?thesis using t by (auto simp: that(2) told_def after_segment_def)
  qed
  have retried: ?thesis
    if "\<not> st_started ?st" and "st' = ?st\<lparr>st_target := nxt, st_tried := tried\<rparr>" for nxt tried
  proof -
    have "w = segment_writer g rq st"
    proof (cases "sg_reply sg")
      case (NoAnswer x)
      then show ?thesis using s by (simp add: serve_segment_def)
    next
      case (Answer status bs broken)
      show ?thesis
      proof (cases "status = 503")
        case True
        then show ?thesis using s Answer by (simp add: serve_segment_def)
      next
        case False
        then have "w = fold (Write (cd_decode cd)) bs (WriteHeader status (segment_writer g rq st))" using s Answer by (simp add: serve_segment_def)
        then have "ss_wroteHeader w" using Writes_status(2) by (simp add: WriteHeader_def)
        then show ?thesis using that(1) by (simp add: after_segment_def)
      qed
    qed
    then have "\<not> ss_overflow w" by simp
    from told_segment [OF assms(1) s assms(2) this] show ?thesis by (auto simp: that(2) told_def after_segment_def)
  qed
  from s assms(3) show ?thesis by (cases rule: Continue_cases) (use resumed retried in blast)+
qed

lemma streaming_told:
  "streaming cd g rq deadline origMax sgs st \<Longrightarrow> gw_streamResume g \<Longrightarrow>
     told (cd_decode cd) (client_lines (rq_receipts rq) (cd_decode cd) sgs) st"
proof (induction rule: streaming.induct)
  case (fresh target)
  show ?case by (simp add: told_def new_stream_def client_lines_def)
next
  case (segment sgs st sg r st' r')
  from step_told [OF segment.IH [OF segment.prems] segment.prems segment.hyps(2)] show ?case by (simp add: client_lines_def)
qed

text \<open>
  C11: A continued stream starts exactly where the client is. With stream resumption on, whenever an interrupted
  stream is handed to another worker, the client has been sent the kept lines of the answers of all segments
  so far and nothing else, and the worker, one that can continue, is sent the original request with
  precisely the text of their content deltas and with the tokens that are left of the original
  limit, at least one; a request is continued at most as often as configured.
\<close>

theorem continuation_is_seamless:
  assumes "streaming cd g rq deadline origMax sgs st" "gw_streamResume g"
    and "stream_step cd g rq deadline origMax sg st r = Some (Continue st' r')" "st_resumes st' \<noteq> st_resumes st"
    and "ls = client_lines (rq_receipts rq) (cd_decode cd) (sgs @ [sg])"
  shows "st_out st' = concat ls \<and> HasFeature (st_target st') FeatureContinuation \<and>
    int (length (all_texts (cd_decode cd) ls)) < origMax \<and> st_resumes st' \<le> gw_maxResumes g \<and>
    withContinuation (rq_body rq) (concat (all_texts (cd_decode cd) ls))
      (origMax - int (length (all_texts (cd_decode cd) ls))) = Some (st_body st')"
proof -
  have ls: "ls = client_lines (rq_receipts rq) (cd_decode cd) sgs @ segment_lines (rq_receipts rq) (cd_decode cd) sg"
    by (simp add: assms(5) client_lines_def)
  from step_told [OF streaming_told [OF assms(1,2)] assms(2,3)] assms(4)
  show ?thesis unfolding ls [symmetric] by (auto simp: told_def)
qed

section \<open>Concrete streams\<close>

theorem stream_is_billed_once_witness:
  "case oc_row bad_endpoint of Some row \<Rightarrow> False | None \<Rightarrow> oc_usage bad_endpoint = no_usage"
proof -
  have h: "handleStreaming (sample_codecs\<lparr>cd_url_ok := \<lambda>_. False\<rparr>) (SetBalanceChecker None (Some sample_config) sample_gateway) sample_request [] live_worker (live_fleet False)
      = Some (bad_endpoint, live_fleet False)"
    by (simp add: handleStreaming_def stream_loop.simps)
  have w: "ke_wallet (rq_key sample_request) \<noteq> ''''" by (simp add: sample_request_def)
  show ?thesis using stream_is_billed_once [OF h w, of Map.empty] by (simp add: bad_endpoint_def)
qed

theorem refused_stream_keeps_spending_witness:
  "\<exists>oc row r'. handleStreaming sample_codecs sample_gateway sample_request [one_answer 400 [delta_bytes] False] live_worker (live_fleet False) = Some (oc, r') \<and>
     oc_row oc = Some row \<and> \<not> isBillable row \<and> 0 < TotalTokens (oc_usage oc)"
  using refused_stream_keeps_spending [of sample_codecs live_worker 400 sample_gateway sample_request "live_fleet False"]
  by (auto simp: sample_codecs_def sample_gateway_def NewGateway_def Let_def)

definition delta_codecs :: codecs where
  "delta_codecs = sample_codecs\<lparr>cd_decode := \<lambda>_. Some (JObj [(''choices'', JArr [JObj [(''delta'', JObj [(''content'', JStr ''a'')])]])])\<rparr>"

definition resume_gateway :: gateway where "resume_gateway = sample_gateway\<lparr>gw_streamResume := True\<rparr>"

definition able_worker :: worker where "able_worker = live_worker\<lparr>wk_features := [FeatureContinuation]\<rparr>"

definition able_fleet :: registry where "able_fleet = (live_fleet False)\<lparr>rg_workers := [(wk_id able_worker, able_worker)]\<rparr>"

definition data_line :: string where "data_line = ''data: x'' @ [newline]"

definition cut_segment :: segment where
  "cut_segment = (one_answer 200 [data_line] True)\<lparr>sg_fleet := \<lambda>_. able_fleet, sg_rands := [bf_zero]\<rparr>"

definition gone_worker :: worker where "gone_worker = live_worker\<lparr>wk_id := ''other''\<rparr>"

lemma cut_writer:
  assumes "ss_filter w" "ss_pend w = ''''" "ss_capture w = None" "ss_content w = ''''" "ss_contentCap w = resumeContentCap" "\<not> ss_overflow w" "\<not> ss_heldDone w"
  shows "ss_content (Write (cd_decode delta_codecs) data_line w) = ''a''" "\<not> ss_overflow (Write (cd_decode delta_codecs) data_line w)"
    "\<not> ss_heldDone (Write (cd_decode delta_codecs) data_line w)" "ss_delivered (Write (cd_decode delta_codecs) data_line w) = ss_delivered w + 1"
proof -
  let ?d = "cd_decode delta_codecs"
  have t: "TrimSpace data_line = ''data: x''" by (simp add: data_line_def TrimSpace_def is_space_def)
  have d: "delta_contents (?d p) = Some [''a'']" for p
    by (simp add: delta_codecs_def delta_contents_def delta_content_def struct_field_def EqualFold_def)
  have u: "take_usage (?d q) v = v" for q v
    by (simp add: delta_codecs_def take_usage_def extractUsage_def field_def as_object_def members_def no_usage_def)
  have no: "\<not> Contains ''x'' (quoted s)" for s by (simp add: quoted_def HasPrefix_def)
  have p: "processLine ?d data_line v = forward data_line (meter ''a'' v)" for v
    by (simp add: processLine_def t HasPrefix_def processData_def no u d Let_def del: Contains.simps)
  have l: "write_loop ?d data_line v = (processLine ?d data_line v)\<lparr>ss_pend := ''''\<rparr>" for v
    by (subst write_loop.simps, subst write_loop.simps) (simp add: data_line_def Let_def)
  have c: "capture b (w\<lparr>ss_wroteHeader := True\<rparr>) = w\<lparr>ss_wroteHeader := True\<rparr>" for b using assms(3) by (simp add: capture_def)
  have e: "Write ?d data_line w = (forward data_line (meter ''a'' (w\<lparr>ss_wroteHeader := True, ss_pend := ''''\<rparr>)))\<lparr>ss_pend := ''''\<rparr>"
    using assms(1,2) by (simp add: Write_def c l p Let_def)
  show "ss_content (Write ?d data_line w) = ''a''" "\<not> ss_overflow (Write ?d data_line w)"
    "\<not> ss_heldDone (Write ?d data_line w)" "ss_delivered (Write ?d data_line w) = ss_delivered w + 1"
    using assms by (simp_all add: e meter_def forward_def resumeContentCap_def Let_def)
qed

definition able_registry :: registry where "able_registry = around ''other'' (\<lambda>_. able_fleet) able_fleet"

lemma able_selected:
  "\<exists>c. selectWorkerForModel able_registry 2 bf_zero ''m'' (excluded [''other'']) f = Some c \<and> HasFeature c FeatureContinuation"
proof -
  have l: "ListWorkers able_registry = [able_worker]" "\<not> rg_gate able_registry"
    by (simp_all add: able_registry_def around_def able_fleet_def able_worker_def DecInflight_def ListWorkers_def snapshot_def
        inflight_of_def live_fleet_eq live_worker_props Let_def)
  have a: "admitted False 2 ''m'' (excluded [''other'']) able_worker \<and> suitable ''m'' able_worker"
    by (simp add: admitted_def suitable_def able_worker_def live_worker_props IsBanned_def excluded_def modelMatches_def)
  obtain c where c: "selectWorkerForModel able_registry 2 bf_zero ''m'' (excluded [''other'']) f = Some c"
    using a select_None [of False 2 bf_zero "[able_worker]" "''m''" "excluded [''other'']" f] by (auto simp: selectWorkerForModel_def l)
  then have "c \<in> set (ListWorkers able_registry)" using select_in by (auto simp: selectWorkerForModel_def)
  then show ?thesis using c by (simp add: l able_worker_def HasFeature_def)
qed

lemma cut_step:
  "\<exists>st'. stream_step delta_codecs resume_gateway sample_request (10 ^ 12) 256 cut_segment (new_stream sample_request gone_worker) able_fleet = Some (Continue st' able_registry) \<and>
     st_resumes st' = 1"
proof -
  let ?w0 = "WriteHeader 200 (segment_writer resume_gateway sample_request (new_stream sample_request gone_worker))"
  define w where "w = Write (cd_decode delta_codecs) data_line ?w0"
  have f: "ss_filter ?w0" "ss_pend ?w0 = ''''" "ss_capture ?w0 = None" "ss_content ?w0 = ''''" "ss_contentCap ?w0 = resumeContentCap" "\<not> ss_overflow ?w0" "\<not> ss_heldDone ?w0"
    by (simp_all add: WriteHeader_def segment_writer_def new_writer_def resume_gateway_def sample_request_def new_stream_def)
  note w = cut_writer [OF f, folded w_def]
  have w': "ss_filter w" "ss_wroteHeader w" using Write_status f(1) by (simp_all add: w_def)
  have d0: "ss_delivered ?w0 = 0" by (simp add: WriteHeader_def)
  define st2 where "st2 = after_segment w (new_stream sample_request gone_worker)"
  have s: "serve_segment (cd_decode delta_codecs) (sg_reply cut_segment) (segment_writer resume_gateway sample_request (new_stream sample_request gone_worker)) = (w, Some AbortHandler)"
    by (simp add: serve_segment_def cut_segment_def one_answer_def w_def)
  have sg: "sg_fleet cut_segment = (\<lambda>_. able_fleet)" "sg_gone cut_segment = False" "sg_now cut_segment = 2" "sg_rands cut_segment = [bf_zero]"
    "wk_id (st_target (new_stream sample_request gone_worker)) = ''other''"
    by (simp_all add: cut_segment_def one_answer_def new_stream_def gone_worker_def)
  have st2: "st_content st2 = ''a''" "st_delivered st2 = 1" "st_started st2" "st_resumes st2 = 0" "st_tried st2 = []" "wk_id (st_target st2) = ''other''"
    using w w' d0 by (simp_all add: st2_def after_segment_def new_stream_def gone_worker_def)
  have g: "gw_streamResume resume_gateway" "gw_maxResumes resume_gateway = 2"
    by (simp_all add: resume_gateway_def sample_gateway_def NewGateway_def Let_def)
  have rq: "rq_model sample_request = ''m''" by (simp add: sample_request_def)
  obtain c where c: "selectWorkerForModel able_registry 2 bf_zero ''m'' (excluded [''other'']) (gw_factor resume_gateway) = Some c" "HasFeature c FeatureContinuation"
    using able_selected by blast
  obtain nb where nb: "withContinuation (rq_body sample_request) ''a'' 255 = Some (Some nb)"
    by (simp add: sample_request_def sample_body_def withContinuation_def)
  have t: "tryResume resume_gateway sample_request (10 ^ 12) cut_segment (256 - st_delivered st2) w able_registry st2 = Some (Some (c, Some nb), [''other''])"
    using w by (simp add: tryResume_def g st2 sg rq c nb)
  show ?thesis
    unfolding stream_step_def Let_def s prod.case sg able_registry_def [symmetric] st2_def [symmetric] t
    using w(3) st2 by (simp add: real_error_def sg)
qed

lemma cut_lines: "client_lines False (cd_decode delta_codecs) [cut_segment] = [data_line]" "texts (cd_decode delta_codecs) data_line = [''a'']"
proof -
  have t: "TrimSpace data_line = ''data: x''" by (simp add: data_line_def TrimSpace_def is_space_def)
  have p: "payload_of data_line = Some ''x''" by (simp add: payload_of_def t HasPrefix_def)
  have no: "\<not> Contains ''x'' (quoted s)" for s by (simp add: quoted_def HasPrefix_def)
  have k: "\<not> receipt_line d data_line" "\<not> held_line d data_line" for d
    by (simp_all add: receipt_line_def held_line_def p t no del: Contains.simps)
  have "reply_bytes (sg_reply cut_segment) = data_line" by (simp add: reply_bytes_def cut_segment_def one_answer_def)
  moreover have "lines_of data_line = [data_line]" by (simp add: lines_of_def data_line_def)
  ultimately show "client_lines False (cd_decode delta_codecs) [cut_segment] = [data_line]"
    by (simp add: client_lines_def segment_lines_def left_out_def k)
  show "texts (cd_decode delta_codecs) data_line = [''a'']"
    by (simp add: texts_def p k delta_codecs_def chunk_texts_def member_def choice_typed_def choice_text_def is_object_def struct_field_def EqualFold_def)
qed

theorem continuation_is_seamless_witness:
  "\<exists>st'. stream_step delta_codecs resume_gateway sample_request (10 ^ 12) 256 cut_segment (new_stream sample_request gone_worker) able_fleet = Some (Continue st' able_registry) \<and>
     st_out st' = data_line \<and> withContinuation (rq_body sample_request) ''a'' 255 = Some (st_body st')"
proof -
  obtain st' where st': "stream_step delta_codecs resume_gateway sample_request (10 ^ 12) 256 cut_segment (new_stream sample_request gone_worker) able_fleet = Some (Continue st' able_registry)"
      "st_resumes st' = 1" using cut_step by blast
  have g: "gw_streamResume resume_gateway" by (simp add: resume_gateway_def)
  have q: "rq_receipts sample_request = False" by (simp add: sample_request_def)
  have n: "st_resumes st' \<noteq> st_resumes (new_stream sample_request gone_worker)" by (simp add: st'(2) new_stream_def)
  have l: "[data_line] = client_lines (rq_receipts sample_request) (cd_decode delta_codecs) ([] @ [cut_segment])" by (simp add: q cut_lines)
  from continuation_is_seamless [OF streaming.fresh g st'(1) n l] st'(1) show ?thesis by (simp add: cut_lines)
qed

end
