(* ===== verification/Proxy.thy ===== *)
theory Proxy
  imports StreamProxy
begin

text \<open>
  The handler of an inference request (\<open>handleProxy\<close> of \<open>gateway/gateway.go\<close>): admission, the checks of
  the body, the reservation, the choice of a worker, and the deferred clean-up. One request runs
  from beginning to end; \<open>pr_others\<close> is what other requests do to the shared state while it is being
  served, \<open>pr_between\<close> what they do between the writing of its row and the correction of its reservation.
  Client headers are left out.
\<close>

section \<open>A request\<close>

record proxy_request =
  pr_post :: bool
  pr_auth :: string
  pr_id :: string
  pr_path :: string
  pr_session :: string
  pr_receipts :: bool
  pr_sampled :: bool
  pr_bytes :: "(int \<times> body) option"
  pr_now :: gotime
  pr_order :: "string list"
  pr_rand :: bigfloat
  pr_windows :: "window list"
  pr_waited :: gotime
  pr_start :: gotime
  pr_attempts :: "attempt list"
  pr_segments :: "segment list"
  pr_others :: "gateway \<Rightarrow> gateway"
  pr_between :: "gateway \<Rightarrow> gateway"

definition maxRequestBody :: int where "maxRequestBody = 10485760"

definition refuse :: "int \<Rightarrow> outcome" where
  "refuse status = \<lparr>oc_status = status, oc_out = '''', oc_row = None, oc_sample = None, oc_model = '''', oc_usage = no_usage\<rparr>"

section \<open>The body\<close>

definition body_cap :: "gateway \<Rightarrow> int" where
  "body_cap g = (if gw_maxRequestBytes g \<le> 0 then maxRequestBody else gw_maxRequestBytes g)"

text \<open>The model asked for, or the status the request is refused with.\<close>

definition check_body :: "gateway \<Rightarrow> (int \<times> body) option \<Rightarrow> int + string" where
  "check_body g bytes =
     (case bytes of
        None \<Rightarrow> Inl 400
      | Some (len, b) \<Rightarrow>
          if len > body_cap g then Inl 413
          else if b = None then Inl 400
          else let model = extractModel b
               in if model = '''' \<or> model = ''default'' \<or> model = ''unknown'' then Inl 400
                  else if hasTopLevelKey b ''om_continuation'' then Inl 400
                  else Inr model)"

section \<open>The reservation\<close>

text \<open>The tokens reserved: a sum of Go integers, so it wraps.\<close>

definition estimated_tokens :: "int \<Rightarrow> body \<Rightarrow> int" where
  "estimated_tokens maxTokens b = wrap64 (maxTokens + estimatePromptTokens b)"

text \<open>The status of a refusal, or the reservation and the body that goes to the worker; \<open>None\<close> for a panic.\<close>

definition reserve_credit :: "string \<Rightarrow> string \<Rightarrow> body \<Rightarrow> gateway \<Rightarrow> ((int + (bigfloat option \<times> body)) \<times> gateway) option" where
  "reserve_credit wallet model b g =
     (case (gw_balance g, gw_pricer g) of
        (Some bc, Some p) \<Rightarrow>
          if wallet = '''' then Some (Inr (None, b), g)
          else if IsSuspended bc wallet \<noteq> None then Some (Inl 402, g)
          else let maxTokens = extractInt b ''max_tokens'';
                   (maxTokens, b') = (case gw_cfg g of
                       Some c \<Rightarrow> if maxTokens \<le> 0 then (cfg_DefaultMaxTokens c, withDefaultMaxTokens b (cfg_DefaultMaxTokens c)) else (maxTokens, Some b)
                     | None \<Rightarrow> (maxTokens, Some b))
               in (case b' of
                     None \<Rightarrow> None
                   | Some b \<Rightarrow>
                       let est = EstimateCostUSD model (estimated_tokens maxTokens b) (prices_of g);
                           (ok, bc) = Reserve p wallet est bc
                       in Some (if ok then (Inr (Some est, b), g\<lparr>gw_balance := Some bc\<rparr>) else (Inl 402, g)))
      | _ \<Rightarrow> Some (Inr (None, b), g))"

section \<open>The worker\<close>

definition queue_row :: "proxy_request \<Rightarrow> apiKeyEntry \<Rightarrow> string \<Rightarrow> gw_record" where
  "queue_row pr key reason =
     \<lparr>rr_id = pr_id pr, rr_timestamp = pr_waited pr, rr_api_key = ke_name key, rr_wallet = ke_wallet key, rr_worker = ''none'',
      rr_path = pr_path pr, rr_model = '''', rr_status = 503, rr_error = reason, rr_duration = 0, rr_prompt = 0,
      rr_completion = 0, rr_cached = 0, rr_total = 0, rr_receipt = None, gr_resumes = 0\<rparr>"

definition queue_refusal :: "proxy_request \<Rightarrow> apiKeyEntry \<Rightarrow> wait_error \<Rightarrow> outcome" where
  "queue_refusal pr key e =
     (refuse 503)\<lparr>oc_row := Some (queue_row pr key (if e = ErrQueueFull then ''queue_full'' else ''queue_timeout''))\<rparr>"

text \<open>The sticky worker, a selection, or a wait of one queue timeout.\<close>

definition choose_worker :: "proxy_request \<Rightarrow> apiKeyEntry \<Rightarrow> string \<Rightarrow> body \<Rightarrow> gateway \<Rightarrow> registry \<Rightarrow> ((outcome + worker) \<times> gateway) option" where
  "choose_worker pr key model b g r =
     (let sessKey = sessionKeyOf (ke_name key) (pr_session pr) b;
          (w, sa) = selectWithAffinity r (pr_now pr) (pr_rand pr) (gw_factor g) (pr_order pr) sessKey model (gw_sessions g);
          g = g\<lparr>gw_sessions := sa\<rparr>
      in case w of
           Some target \<Rightarrow> Some (Inr target, g)
         | None \<Rightarrow>
             if \<not> anyWorkerSupportsModel r model then Some (Inl (refuse 404), g)
             else (case blockForWorker r (pr_now pr) model (gw_factor g) (pr_now pr + gw_queueTimeout g) (pr_windows pr) of
                     None \<Rightarrow> None
                   | Some (Inr target) \<Rightarrow> Some (Inr target, g)
                   | Some (Inl e) \<Rightarrow> Some (Inl (queue_refusal pr key e), g)))"

definition body_for :: "worker \<Rightarrow> string \<Rightarrow> body \<Rightarrow> body option" where
  "body_for target model b =
     (if wk_loaded target \<noteq> '''' \<and> modelMatches (wk_loaded target) model then rewriteModelField b (wk_loaded target) else Some b)"

text \<open>A request for a model the worker has not loaded marks it as switching.\<close>

definition mark_switch :: "gotime \<Rightarrow> worker \<Rightarrow> string \<Rightarrow> registry \<Rightarrow> registry" where
  "mark_switch now target model r =
     (if \<not> isDefaultModel model \<and> \<not> modelMatches (wk_loaded target) model then MarkSwitching now (wk_id target) model r else r)"

definition request_of :: "proxy_request \<Rightarrow> apiKeyEntry \<Rightarrow> string \<Rightarrow> body \<Rightarrow> request" where
  "request_of pr key model b =
     \<lparr>rq_id = pr_id pr, rq_key = key, rq_path = pr_path pr, rq_model = model, rq_body = b, rq_start = pr_start pr,
      rq_receipts = pr_receipts pr, rq_sampled = pr_sampled pr\<rparr>"

section \<open>The handler\<close>

text \<open>From the choice of a worker to the outcome.\<close>

definition forward_request :: "codecs \<Rightarrow> proxy_request \<Rightarrow> apiKeyEntry \<Rightarrow> string \<Rightarrow> body \<Rightarrow> body \<Rightarrow> gateway \<Rightarrow> registry \<Rightarrow> (outcome \<times> gateway \<times> registry) option" where
  "forward_request cd pr key model sent b g r =
     (case choose_worker pr key model sent g r of
        None \<Rightarrow> None
      | Some (Inl oc, g) \<Rightarrow> Some (oc, g, r)
      | Some (Inr target, g) \<Rightarrow>
          (case body_for target model b of
             None \<Rightarrow> None
           | Some b \<Rightarrow>
               let r = mark_switch (pr_start pr) target model r; rq = request_of pr key model b
               in map_option (\<lambda>(oc, r). (oc, g, r))
                    (if extractBool sent ''stream'' then handleStreaming cd g rq (pr_segments pr) target r
                     else handleNonStreaming cd g rq (pr_attempts pr) target r)))"

text \<open>The row, then the deferred correction of the reservation.\<close>

definition settle_request :: "proxy_request \<Rightarrow> string \<Rightarrow> bigfloat option \<Rightarrow> outcome \<Rightarrow> gateway \<Rightarrow> gateway" where
  "settle_request pr wallet est oc g =
     (let g = pr_others pr g;
          g = pr_between pr (case oc_row oc of Some row \<Rightarrow> logRequest row g | None \<Rightarrow> g)
      in adjustBalance wallet est (oc_model oc) (oc_usage oc) g)"

definition serve_request :: "codecs \<Rightarrow> proxy_request \<Rightarrow> apiKeyEntry \<Rightarrow> gateway \<Rightarrow> registry \<Rightarrow> (outcome \<times> gateway \<times> registry) option" where
  "serve_request cd pr key g r =
     (case check_body g (pr_bytes pr) of
        Inl status \<Rightarrow> Some (refuse status, g, r)
      | Inr model \<Rightarrow>
          let sent = snd (the (pr_bytes pr))
          in (case reserve_credit (ke_wallet key) model sent g of
                None \<Rightarrow> None
              | Some (Inl status, g) \<Rightarrow> Some (refuse status, g, r)
              | Some (Inr (est, b), g) \<Rightarrow>
                  (case forward_request cd pr key model sent b g r of
                     None \<Rightarrow> None
                   | Some (oc, g, r) \<Rightarrow> Some (oc, settle_request pr (ke_wallet key) est oc g, r))))"

definition enter_request :: "gateway \<Rightarrow> gateway" where "enter_request g = g\<lparr>gw_inFlight := gw_inFlight g + 1\<rparr>"
definition leave_request :: "gateway \<Rightarrow> gateway" where "leave_request g = g\<lparr>gw_inFlight := gw_inFlight g - 1\<rparr>"

text \<open>The limits of the key, with the slot held for the whole request.\<close>

definition limited_request :: "codecs \<Rightarrow> proxy_request \<Rightarrow> apiKeyEntry \<Rightarrow> gateway \<Rightarrow> registry \<Rightarrow> (outcome \<times> gateway \<times> registry) option" where
  "limited_request cd pr key g r =
     (case gw_limiter g of
        None \<Rightarrow> serve_request cd pr key g r
      | Some rl \<Rightarrow>
          (case AllowRate (pr_now pr) (ke_name key) (Some rl) of
             None \<Rightarrow> None
           | Some (ok, rlim) \<Rightarrow>
               let g = g\<lparr>gw_limiter   := rlim\<rparr>
               in if \<not> ok then Some (refuse 429, g, r)
                  else let (ok, rlim) = Acquire (pr_now pr) (ke_name key) rlim; g = g\<lparr>gw_limiter   := rlim\<rparr>
                       in if \<not> ok then Some (refuse 429, g, r)
                          else map_option (\<lambda>(oc, g, r). (oc, g\<lparr>gw_limiter := release_slot (ke_name key) (gw_limiter g)\<rparr>, r))
                                 (serve_request cd pr key g r)))"

definition handleProxy :: "codecs \<Rightarrow> proxy_request \<Rightarrow> gateway \<Rightarrow> registry \<Rightarrow> (outcome \<times> gateway \<times> registry) option" where
  "handleProxy cd pr g r =
     (if \<not> pr_post pr then Some (refuse 405, g, r)
      else if gw_draining g then Some (refuse 503, g, r)
      else map_option (\<lambda>(oc, g, r). (oc, leave_request g, r))
             (case authenticate (gw_authEnabled g) (pr_auth pr) (gw_keystore g) of
                None \<Rightarrow> Some (refuse 401, enter_request g, r)
              | Some key \<Rightarrow> limited_request cd pr key (enter_request g) r))"

section \<open>One request, one charge\<close>

lemma choose_worker_frame:
  assumes "choose_worker pr key model b g r = Some (x, g')"
  shows "\<exists>sa. g' = g\<lparr>gw_sessions := sa\<rparr>"
    and "\<And>oc. x = Inl oc \<Longrightarrow> oc = refuse 404 \<or> (\<exists>e. oc = queue_refusal pr key e)"
  using assms by (auto simp: choose_worker_def Let_def case_prod_beta split: option.splits if_splits sum.splits)

lemma queue_refusal_row:
  "oc_row (queue_refusal pr key e) = Some (queue_row pr key (if e = ErrQueueFull then ''queue_full'' else ''queue_timeout''))"
  "oc_usage (queue_refusal pr key e) = no_usage"
  "\<not> isBillable (queue_row pr key reason)" "rr_wallet (queue_row pr key reason) = ke_wallet key"
  by (simp_all add: queue_refusal_def refuse_def queue_row_def isBillable_def)

text \<open>What an outcome is billed: its row if it has a billable one.\<close>

definition charge_of :: "settlement_config \<Rightarrow> (string \<rightharpoonup> string) \<Rightarrow> outcome \<Rightarrow> bigfloat" where
  "charge_of cfg ws oc = (case oc_row oc of Some row \<Rightarrow> bill_of cfg ws row | None \<Rightarrow> bf_zero)"

definition charged :: "settlement_config \<Rightarrow> (string \<rightharpoonup> string) \<Rightarrow> gateway \<Rightarrow> outcome \<Rightarrow> bool" where
  "charged cfg ws g oc \<longleftrightarrow> actual_cost g (oc_model oc) (oc_usage oc) = charge_of cfg ws oc"

lemma billed_right_charged: "billed_right cfg ws g oc \<Longrightarrow> charged cfg ws g oc"
  by (simp add: billed_right_def charged_def charge_of_def split: option.splits)

lemma unused_charged: "oc_usage oc = no_usage \<Longrightarrow> (\<And>row. oc_row oc = Some row \<Longrightarrow> \<not> isBillable row) \<Longrightarrow> charged cfg ws g oc"
  by (simp add: charged_def charge_of_def actual_cost_def no_usage_def bill_of_def split: option.split)

lemma actual_cost_sessions [simp]: "actual_cost (g\<lparr>gw_sessions := sa\<rparr>) = actual_cost g" "priced cfg (g\<lparr>gw_sessions := sa\<rparr>) = priced cfg g"
proof -
  have p: "prices_of (g\<lparr>gw_sessions := sa\<rparr>) = prices_of g" by (simp add: prices_of_def)
  then show "actual_cost (g\<lparr>gw_sessions := sa\<rparr>) = actual_cost g" by (intro ext) (simp add: actual_cost_def)
  show "priced cfg (g\<lparr>gw_sessions := sa\<rparr>) = priced cfg g" by (simp add: priced_def p)
qed

lemma charged_sessions: "charged cfg ws (g\<lparr>gw_sessions := sa\<rparr>) oc = charged cfg ws g oc"
  by (simp add: charged_def)

lemma streaming_charged:
  assumes "priced cfg g" "ke_wallet (rq_key rq) \<noteq> ''''" "handleStreaming cd g rq sgs target r = Some (oc, r')"
    "list_all (\<lambda>sg. plain_reply (sg_reply sg)) sgs"
  shows "charged cfg ws g oc"
proof -
  have "stream_end cd g rq True oc" using stream_ends [OF assms(3) [unfolded handleStreaming_def]] assms(4) by simp
  from end_billed [OF assms(1,2) this, of ws] show ?thesis
    by (auto intro: billed_right_charged unused_charged simp: bad_endpoint_def)
qed

lemma nonstreaming_charged:
  assumes "priced cfg g" "ke_wallet (rq_key rq) \<noteq> ''''" "handleNonStreaming cd g rq as target r = Some (oc, r')"
  shows "charged cfg ws g oc"
  by (rule billed_right_charged [OF nonstream_billed [OF assms(1,2) assms(3) [unfolded handleNonStreaming_def]]])

lemma forward_request_spec:
  assumes "forward_request cd pr key model sent b g r = Some (oc, g', r')" "priced cfg g" "ke_wallet key \<noteq> ''''"
    "list_all (\<lambda>sg. plain_reply (sg_reply sg)) (pr_segments pr)"
  shows "(\<exists>sa. g' = g\<lparr>gw_sessions := sa\<rparr>) \<and> charged cfg ws g oc"
proof -
  obtain x g1 where c: "choose_worker pr key model sent g r = Some (x, g1)"
    using assms(1) by (auto simp: forward_request_def split: option.splits)
  obtain sa where g1: "g1 = g\<lparr>gw_sessions := sa\<rparr>" using choose_worker_frame(1) [OF c] by blast
  show ?thesis
  proof (cases x)
    case (Inl oc1)
    then have "oc1 = oc" "g' = g1" using assms(1) c by (auto simp: forward_request_def)
    moreover have "charged cfg ws g oc1"
      using choose_worker_frame(2) [OF c Inl] queue_refusal_row by (auto intro!: unused_charged simp: refuse_def)
    ultimately show ?thesis using g1 by blast
  next
    case (Inr target)
    obtain b2 where b2: "body_for target model b = Some b2" using assms(1) c Inr by (auto simp: forward_request_def split: option.splits)
    let ?rq = "request_of pr key model b2" and ?r = "mark_switch (pr_start pr) target model r"
    have w: "ke_wallet (rq_key ?rq) \<noteq> ''''" "priced cfg g1" using assms(2,3) g1 by (simp_all add: request_of_def)
    have "(handleStreaming cd g1 ?rq (pr_segments pr) target ?r = Some (oc, r') \<or>
           handleNonStreaming cd g1 ?rq (pr_attempts pr) target ?r = Some (oc, r')) \<and> g' = g1"
      using assms(1) c Inr b2 by (auto simp: forward_request_def Let_def split: if_splits)
    then have "charged cfg ws g1 oc" "g' = g1"
      using streaming_charged [OF w(2,1) _ assms(4)] nonstreaming_charged [OF w(2,1)] by blast+
    then show ?thesis using g1 charged_sessions by blast
  qed
qed

text \<open>Nothing before the reservation touches the gateway.\<close>

lemma reserve_credit_spec:
  assumes "reserve_credit wallet model b g = Some (x, g')" "gw_balance g = Some bc" "gw_pricer g = Some p" "wallet \<noteq> ''''"
  shows "(x = Inl 402 \<and> g' = g) \<or>
    (\<exists>est b' bc1. x = Inr (Some est, b') \<and> Reserve p wallet est bc = (True, bc1) \<and> g' = g\<lparr>gw_balance := Some bc1\<rparr>)"
  using assms by (auto simp: reserve_credit_def Let_def case_prod_beta prod_eq_iff split: option.splits if_splits)

text \<open>
  How a request leaves the ledger: refused before anything was reserved, or with one reservation
  \<open>est\<close> that the end of the request corrects to the billed cost, after its row, if it has one, was written. What
  others did before the row (\<open>pr_others\<close>) and before the correction (\<open>pr_between\<close>) is kept.
\<close>

definition with_row :: "outcome \<Rightarrow> gateway \<Rightarrow> gateway" where
  "with_row oc g = (case oc_row oc of Some row \<Rightarrow> logRequest row g | None \<Rightarrow> g)"

definition charged_once ::
  "settlement_config \<Rightarrow> (string \<rightharpoonup> string) \<Rightarrow> proxy_request \<Rightarrow> string \<Rightarrow> outcome \<Rightarrow> gateway \<Rightarrow> gateway \<Rightarrow> bool" where
  "charged_once cfg ws pr wallet oc g g' \<longleftrightarrow>
     (oc_row oc = None \<and> gw_balance g' = gw_balance g \<and> gw_log g' = gw_log g) \<or>
     (\<exists>bc p est bc1 g1. gw_balance g = Some bc \<and> gw_pricer g = Some p \<and> Reserve p wallet est bc = (True, bc1) \<and>
        gw_balance g1 = Some bc1 \<and> gw_log g1 = gw_log g \<and>
        gw_log (with_row oc (pr_others pr g1)) = gw_log (pr_others pr g1) @ (case oc_row oc of Some row \<Rightarrow> [row] | None \<Rightarrow> []) \<and>
        gw_balance (with_row oc (pr_others pr g1)) = gw_balance (pr_others pr g1) \<and>
        gw_log g' = gw_log (pr_between pr (with_row oc (pr_others pr g1))) \<and>
        gw_balance g' = map_option (Adjust wallet est (charge_of cfg ws oc)) (gw_balance (pr_between pr (with_row oc (pr_others pr g1)))))"

lemma with_row_spec:
  "gw_log (with_row oc g) = gw_log g @ (case oc_row oc of Some row \<Rightarrow> [row] | None \<Rightarrow> [])"
  "gw_balance (with_row oc g) = gw_balance g" "priced cfg (with_row oc g) = priced cfg g"
  by (simp_all add: with_row_def logRequest_def priced_def prices_of_def split: option.split)

lemma settle_request_spec:
  assumes "charged cfg ws (pr_between pr (with_row oc (pr_others pr g))) oc" "wallet \<noteq> ''''"
  shows "gw_log (settle_request pr wallet (Some est) oc g) = gw_log (pr_between pr (with_row oc (pr_others pr g)))"
    "gw_balance (settle_request pr wallet (Some est) oc g) =
       map_option (Adjust wallet est (charge_of cfg ws oc)) (gw_balance (pr_between pr (with_row oc (pr_others pr g))))"
  using assms by (simp_all add: settle_request_def adjustBalance_def charged_def with_row_def Let_def split: option.split)

lemma charged_priced: "priced cfg g \<Longrightarrow> priced cfg g2 \<Longrightarrow> charged cfg ws g oc = charged cfg ws g2 oc"
  by (simp add: charged_def actual_cost_def priced_def)

lemma priced_balance [simp]: "priced cfg (g\<lparr>gw_balance := x\<rparr>) = priced cfg g" "priced cfg (g\<lparr>gw_limiter := y\<rparr>) = priced cfg g"
  "priced cfg (g\<lparr>gw_inFlight := z\<rparr>) = priced cfg g"
  by (simp_all add: priced_def prices_of_def)

lemma serve_request_charges:
  assumes "serve_request cd pr key g r = Some (oc, g', r')" "priced cfg g" "ke_wallet key \<noteq> ''''"
    "list_all (\<lambda>sg. plain_reply (sg_reply sg)) (pr_segments pr)" "gw_balance g = Some bc" "gw_pricer g = Some p"
    "\<And>x. priced cfg x \<Longrightarrow> priced cfg (pr_others pr x) \<and> priced cfg (pr_between pr x)"
  shows "charged_once cfg ws pr (ke_wallet key) oc g g'"
proof (cases "check_body g (pr_bytes pr)")
  case (Inl status)
  then show ?thesis using assms(1) by (auto simp: serve_request_def charged_once_def refuse_def)
next
  case (Inr model)
  let ?sent = "snd (the (pr_bytes pr))"
  obtain x g1 where x: "reserve_credit (ke_wallet key) model ?sent g = Some (x, g1)"
    using assms(1) Inr by (auto simp: serve_request_def Let_def split: option.splits)
  from reserve_credit_spec [OF x assms(5,6,3)] show ?thesis
  proof (elim disjE exE conjE)
    assume "x = Inl 402" "g1 = g"
    then show ?thesis using assms(1) Inr x by (auto simp: serve_request_def Let_def charged_once_def refuse_def)
  next
    fix est b bc1
    assume r: "x = Inr (Some est, b)" "Reserve p (ke_wallet key) est bc = (True, bc1)" "g1 = g\<lparr>gw_balance := Some bc1\<rparr>"
    obtain g2 r2 where f: "forward_request cd pr key model ?sent b g1 r = Some (oc, g2, r2)"
      and g': "g' = settle_request pr (ke_wallet key) (Some est) oc g2"
      using assms(1) Inr x r(1) by (auto simp: serve_request_def Let_def split: option.splits)
    have p1: "priced cfg g1" using assms(2) r(3) by simp
    obtain sa where g2: "g2 = g1\<lparr>gw_sessions := sa\<rparr>" and ch: "charged cfg ws g1 oc"
      using forward_request_spec [OF f p1 assms(3,4)] by blast
    have p2: "priced cfg (pr_between pr (with_row oc (pr_others pr g2)))" using assms(7) p1 g2 by (simp add: with_row_spec)
    have s: "gw_balance g2 = Some bc1" "gw_log g2 = gw_log g" using g2 r(3) by simp_all
    have ch2: "charged cfg ws (pr_between pr (with_row oc (pr_others pr g2))) oc" using ch charged_priced [OF p1 p2] by simp
    show ?thesis
      unfolding charged_once_def g'
      using settle_request_spec [OF ch2 assms(3), of est] with_row_spec(1,2) [of oc "pr_others pr g2"] assms(5,6) r(2) s by blast
  qed
qed

lemma charged_once_frame:
  "charged_once cfg ws pr w oc (g\<lparr>gw_limiter := y\<rparr>) g' = charged_once cfg ws pr w oc g g'"
  "charged_once cfg ws pr w oc (g\<lparr>gw_inFlight := z\<rparr>) g' = charged_once cfg ws pr w oc g g'"
  "charged_once cfg ws pr w oc g (g'\<lparr>gw_limiter := y\<rparr>) = charged_once cfg ws pr w oc g g'"
  "charged_once cfg ws pr w oc g (g'\<lparr>gw_inFlight := z\<rparr>) = charged_once cfg ws pr w oc g g'"
  by (simp_all add: charged_once_def)

lemma refused_charged [simp]: "charged_once cfg ws pr w (refuse status) g g"
  by (simp add: charged_once_def refuse_def)

lemma limited_request_charges:
  assumes "limited_request cd pr key g r = Some (oc, g', r')" "priced cfg g" "ke_wallet key \<noteq> ''''"
    "list_all (\<lambda>sg. plain_reply (sg_reply sg)) (pr_segments pr)" "gw_balance g = Some bc" "gw_pricer g = Some p"
    "\<And>x. priced cfg x \<Longrightarrow> priced cfg (pr_others pr x) \<and> priced cfg (pr_between pr x)"
  shows "charged_once cfg ws pr (ke_wallet key) oc g g'"
proof (cases "gw_limiter g")
  case None
  then show ?thesis using assms serve_request_charges [of cd pr key g r oc g' r' cfg bc p ws] by (simp add: limited_request_def)
next
  case (Some rl)
  obtain ok rlim where a: "AllowRate (pr_now pr) (ke_name key) (Some rl) = Some (ok, rlim)"
    using assms(1) Some by (auto simp: limited_request_def split: option.splits)
  obtain ok2 rlim2 where b: "Acquire (pr_now pr) (ke_name key) rlim = (ok2, rlim2)" by (cases "Acquire (pr_now pr) (ke_name key) rlim")
  consider "oc = refuse 429" "\<exists>y. g' = g\<lparr>gw_limiter := y\<rparr>"
    | g2 where "serve_request cd pr key (g\<lparr>gw_limiter := rlim2\<rparr>) r = Some (oc, g2, r')"
        "g' = g2\<lparr>gw_limiter := release_slot (ke_name key) (gw_limiter g2)\<rparr>"
    using assms(1) Some a b by (auto simp: limited_request_def Let_def split: if_splits)
  then show ?thesis
  proof cases
    case 1
    then show ?thesis using charged_once_frame(3) by auto
  next
    case 2
    have "charged_once cfg ws pr (ke_wallet key) oc (g\<lparr>gw_limiter := rlim2\<rparr>) g2"
      by (rule serve_request_charges [OF 2(1) _ assms(3,4)]) (use assms in auto)
    then show ?thesis by (simp add: 2(2) charged_once_frame)
  qed
qed

text \<open>
  C3: One request, one charge. With the credit gate in force, a request of a key with a wallet, whose worker's
  streamed replies (if it is streamed) have status 200 or 503 or never come, while whatever other requests do keeps the
  prices, ends in one of two ways: refused, without a row and with ledger and request log as they were; or with one reservation, at most one row
  appended after whatever others did, and then the reservation corrected in the ledger of that moment to what
  settlement bills for that row (nothing without a row). Other statuses of a streamed reply are the exception (\<open>refused_stream_keeps_spending\<close>).
\<close>

theorem one_request_one_charge:
  assumes "handleProxy cd pr g r = Some (oc, g', r')" "g = SetBalanceChecker (Some (bc, p)) (Some cfg) g0"
    "authenticate (gw_authEnabled g) (pr_auth pr) (gw_keystore g) = Some key" "ke_wallet key \<noteq> ''''"
    "list_all (\<lambda>sg. plain_reply (sg_reply sg)) (pr_segments pr)" "\<And>x. priced cfg x \<Longrightarrow> priced cfg (pr_others pr x) \<and> priced cfg (pr_between pr x)"
  shows "charged_once cfg ws pr (ke_wallet key) oc g g'"
proof -
  have b: "gw_balance g = Some bc" "gw_pricer g = Some p" by (simp_all add: assms(2) SetBalanceChecker_def Let_def case_prod_beta)
  have pg: "priced cfg g" using assms(2) SetBalanceChecker_priced by simp
  consider "oc = refuse 405 \<or> oc = refuse 503" "g' = g"
    | g2 where "limited_request cd pr key (enter_request g) r = Some (oc, g2, r')" "g' = leave_request g2"
    using assms(1,3) by (auto simp: handleProxy_def split: if_splits)
  then show ?thesis
  proof cases
    case 2
    have "charged_once cfg ws pr (ke_wallet key) oc (enter_request g) g2"
      by (rule limited_request_charges [OF 2(1) _ assms(4,5)]) (use pg b assms(6) in \<open>auto simp: enter_request_def\<close>)
    then show ?thesis by (simp add: 2(2) enter_request_def leave_request_def charged_once_frame)
  qed auto
qed

section \<open>A reservation that wraps\<close>

text \<open>The largest \<open>float64\<close> below \<open>2 ^ 63\<close>.\<close>

definition huge_tokens :: bigfloat where "huge_tokens = BF 53 (2 ^ 53 - 1) 10"

lemma huge_tokens_int: "int_of_float huge_tokens = 2 ^ 63 - 1024"
  by (simp add: huge_tokens_def int_of_float_def bf_to_int_def Let_def)

lemma wrapped_tokens:
  assumes "1024 \<le> n" "n < 2 ^ 63"
  shows "wrap64 (2 ^ 63 - 1024 + n) = n - 1024 - 2 ^ 63"
proof -
  have "(2 ^ 63 - 1024 + n + 2 ^ 63) mod 2 ^ 64 = (n - 1024 :: int)"
  proof -
    have "2 ^ 63 - 1024 + n + 2 ^ 63 = (n - 1024) + 2 ^ 64" by simp
    moreover have "(n - 1024) mod 2 ^ 64 = n - 1024" using assms by (intro mod_pos_pos_trivial) auto
    ultimately show ?thesis by (metis mod_add_self2)
  qed
  then show ?thesis by (simp only: wrap64_def)
qed

text \<open>
  A reservation can wrap below zero. The tokens to reserve are added as machine integers, so a
  \<open>max_tokens\<close> just below \<open>2 ^ 63\<close> with a prompt of 4096 characters makes them negative: a wallet with
  no deposit and no unsettled spending passes the credit gate, and as long as its request runs its
  unsettled spending is negative, credit that nobody paid for.
\<close>

theorem reservation_can_wrap:
  assumes "field b ''max_tokens'' = Some (JNum huge_tokens)" "1024 \<le> estimatePromptTokens b" "estimatePromptTokens b < 2 ^ 63"
    "gw_balance g = Some bc" "gw_pricer g = Some p" "wallet \<noteq> ''''" "IsSuspended bc wallet = None"
    "prices_of g model = Some price" "bf_ok price \<and> 0 < bf_val price" "bf_ok (GetFILPriceUSD p) \<and> 0 < bf_val (GetFILPriceUSD p)"
    "0 \<le> bf_val (availableUSD bc p wallet)" "alookup (pendingSpend bc) wallet = None"
    "\<And>m. maxPendingSpendFIL bc = Some m \<Longrightarrow> bf_ok m"
  shows "\<exists>est bc'. reserve_credit wallet model b g = Some (Inr (Some est, b), g\<lparr>gw_balance := Some bc'\<rparr>) \<and>
    bf_val est < 0 \<and> bf_val (GetPendingSpend bc' wallet) < 0"
proof -
  have i: "extractInt b ''max_tokens'' = 2 ^ 63 - 1024" by (simp add: extractInt_def assms(1) huge_tokens_int)
  define t where "t = estimated_tokens (2 ^ 63 - 1024) b"
  define est where "est = EstimateCostUSD model t (prices_of g)"
  have t: "t < 0" using wrapped_tokens [OF assms(2,3)] assms(2,3) by (simp add: t_def estimated_tokens_def)
  have ts: "bf_val (float64_of_int t) < 0"
    using bf_round_val_sgn [of 53 t 0] t by (simp add: float64_of_int_def sgn_if split: if_splits)
  have okp: "bf_ok price" using assms(9) by blast
  have est: "est = bf_mul price (float64_of_int t)" by (simp add: est_def EstimateCostUSD_def assms(8))
  have e0: "bf_val est < 0"
    using bf_mulp_sgn [OF okp bf_ok_float64(1), of 0 t] assms(9) ts est by (simp add: sgn_if split: if_splits)
  have ok: "bf_ok est" using okp by (simp add: est bf_ok_mulp)
  have pend: "pending_of bc wallet = bf_zero" by (simp add: pending_of_def assms(12))
  have z: "bf_ok bf_zero" "bf_val bf_zero = 0" by (simp_all add: bf_ok_def bf_zero_def bf_val_def)
  have n0: "bf_val (bf_add bf_zero est) < 0"
    using bf_addp_sgn [OF z(1) ok, of 0] e0 z(2) by (simp add: sgn_if split: if_splits)
  have cap: "\<not> over_cap bc p (bf_add bf_zero est)"
  proof (cases "maxPendingSpendFIL bc")
    case (Some m)
    have "0 < bf_val (bf_mul m (GetFILPriceUSD p))" if "0 < bf_val m"
      using bf_mulp_sgn [of m "GetFILPriceUSD p" 0] assms(13) [OF Some] that assms(10) by (simp add: sgn_if split: if_splits)
    then show ?thesis using Some n0 by (auto simp: over_cap_def bf_sign_cases bf_cmp_cases)
  qed (simp add: over_cap_def)
  let ?bc = "bc\<lparr>pendingSpend := aput wallet (bf_add bf_zero est) (pendingSpend bc)\<rparr>"
  have "Reserve p wallet est bc = (True, ?bc)"
    using assms(11) e0 cap by (simp add: Reserve_def pend bf_cmp_cases Let_def)
  then have "reserve_credit wallet model b g = Some (Inr (Some est, b), g\<lparr>gw_balance := Some ?bc\<rparr>)"
    by (auto simp: reserve_credit_def assms(4-7) i Let_def t_def est_def split: option.split)
  moreover have "GetPendingSpend ?bc wallet = bf_add bf_zero est" by (simp add: GetPendingSpend_def pending_of_def)
  ultimately show ?thesis using e0 n0 by auto
qed

section \<open>Concrete requests\<close>

definition gate_gateway :: gateway where
  "gate_gateway = SetBalanceChecker (Some (NewBalanceCache [], NewPricer sample_config)) (Some zero_config)
     (sample_gateway\<lparr>gw_authEnabled := True, gw_keystore := no_keys\<lparr>ks_keys := [(hashKey ''k'', \<lparr>ke_name = ''alice'', ke_wallet = ''0xu'', ke_id = '''', ke_static = True\<rparr>)]\<rparr>\<rparr>)"

definition plain_post :: proxy_request where
  "plain_post = \<lparr>pr_post = True, pr_auth = ''Bearer k'', pr_id = ''r1'', pr_path = ''/v1/chat/completions'', pr_session = '''', pr_receipts = False,
     pr_sampled = False, pr_bytes = Some (64, sample_body), pr_now = 11, pr_order = [], pr_rand = float64_of_int 0, pr_windows = [],
     pr_waited = 11, pr_start = 11, pr_attempts = [answered], pr_segments = [], pr_others = id, pr_between = id\<rparr>"

lemma live_chosen: "\<exists>sa. selectWithAffinity (live_fleet False) 11 (float64_of_int 0) f [] key ''m'' (newSessionAffinity 0) = (Some live_worker, sa)"
proof -
  have s: "fst (if key \<noteq> '''' then session_get 11 key (newSessionAffinity 0) else (None, newSessionAffinity 0)) = None"
    by (simp add: session_get_def newSessionAffinity_def)
  have a: "admitted False 11 ''m'' (\<lambda>_. False) live_worker \<and> suitable ''m'' live_worker"
    by (simp add: admitted_def suitable_def live_worker_props IsBanned_def modelMatches_def)
  obtain c where c: "selectWorkerForModel (live_fleet False) 11 (float64_of_int 0) ''m'' (\<lambda>_. False) f = Some c"
    using a select_None [of False 11 "float64_of_int 0" "[live_worker]" "''m''" "\<lambda>_. False" f]
    by (auto simp: selectWorkerForModel_def live_fleet_list live_fleet_gate)
  then have "c \<in> set (ListWorkers (live_fleet False))" using select_in by (auto simp: selectWorkerForModel_def)
  then have "c = live_worker" by (simp add: live_fleet_list)
  then show ?thesis using s c by (auto simp: selectWithAffinity_def sticky_worker_def Let_def case_prod_beta)
qed

lemma reserve_credit_default:
  assumes "gw_balance g = Some bc" "gw_pricer g = Some p" "gw_cfg g = Some c" "wallet \<noteq> ''''" "IsSuspended bc wallet = None"
    "extractInt b ''max_tokens'' \<le> 0" "withDefaultMaxTokens b (cfg_DefaultMaxTokens c) = Some b'"
    "Reserve p wallet (EstimateCostUSD model (estimated_tokens (cfg_DefaultMaxTokens c) b') (prices_of g)) bc = (True, bc1)"
  shows "reserve_credit wallet model b g =
    Some (Inr (Some (EstimateCostUSD model (estimated_tokens (cfg_DefaultMaxTokens c) b') (prices_of g)), b'), g\<lparr>gw_balance := Some bc1\<rparr>)"
  using assms by (simp add: reserve_credit_def)

theorem one_request_one_charge_witness:
  "\<exists>oc g' r'. handleProxy sample_codecs plain_post gate_gateway (live_fleet False) = Some (oc, g', r') \<and>
     charged_once zero_config Map.empty plain_post ''0xu'' oc gate_gateway g'"
proof -
  let ?key = "\<lparr>ke_name = ''alice'', ke_wallet = ''0xu'', ke_id = '''', ke_static = True\<rparr>"
  have g: "gw_authEnabled gate_gateway" "ks_keys (gw_keystore gate_gateway) = [(hashKey ''k'', ?key)]" "\<not> gw_draining gate_gateway"
    "gw_limiter gate_gateway = None" "gw_balance gate_gateway = Some (NewBalanceCache [])" "gw_pricer gate_gateway = Some (NewPricer sample_config)"
    "gw_cfg gate_gateway = Some zero_config" "prices_of gate_gateway = Map.empty" "gw_maxRequestBytes gate_gateway = 0"
    "gw_sessions gate_gateway = newSessionAffinity 0"
    by (simp_all add: gate_gateway_def SetBalanceChecker_def sample_gateway_def NewGateway_def NewRateLimiter_def prices_of_def
        parse_model_prices_def zero_config_def no_keys_def bf_zero_def bf_sign_def case_prod_beta Let_def)
  have key: "authenticate (gw_authEnabled gate_gateway) (pr_auth plain_post) (gw_keystore gate_gateway) = Some ?key"
    by (simp add: authenticate_def g plain_post_def TrimPrefix_def TrimSpace_def HasPrefix_def is_space_def)
  have e: "EstimateCostUSD ''m'' n (prices_of (enter_request gate_gateway)) = bf_zero" for n
    using g(8) by (simp add: EstimateCostUSD_def enter_request_def prices_of_def)
  obtain bc1 where bc1: "Reserve (NewPricer sample_config) ''0xu'' bf_zero (NewBalanceCache []) = (True, bc1)"
    by (simp add: Reserve_spec NewBalanceCache_def availableUSD_def grossUSD_def bf_simps)
  have s: "IsSuspended (NewBalanceCache []) ''0xu'' = None" "withDefaultMaxTokens sample_body (cfg_DefaultMaxTokens zero_config) = Some sample_body"
    by (simp_all add: IsSuspended_def NewBalanceCache_def withDefaultMaxTokens_def zero_config_def)
  have enter_sel: "gw_balance (enter_request gate_gateway) = Some (NewBalanceCache [])" "gw_pricer (enter_request gate_gateway) = Some (NewPricer sample_config)"
    "gw_cfg (enter_request gate_gateway) = Some zero_config"
    by (simp_all add: enter_request_def g)
  have i: "extractInt sample_body ''max_tokens'' = 0" by (simp add: extractInt_def sample_body_field)
  have r: "reserve_credit ''0xu'' ''m'' sample_body (enter_request gate_gateway) =
      Some (Inr (Some bf_zero, sample_body), (enter_request gate_gateway)\<lparr>gw_balance := Some bc1\<rparr>)"
    using reserve_credit_default [where model = "''m''", OF enter_sel _ s(1) _ s(2), unfolded e i, OF _ _ bc1] by blast
  define sa where "sa = (\<lambda>f s. snd (selectWithAffinity (live_fleet False) 11 (float64_of_int 0) f [] s ''m'' (newSessionAffinity 0)))"
  have sel: "selectWithAffinity (live_fleet False) 11 (float64_of_int 0) f [] s ''m'' (newSessionAffinity 0) = (Some live_worker, sa f s)" for f s
    using live_chosen [of f s] by (auto simp: sa_def)
  obtain b where b: "rewriteModelField sample_body ''m'' = Some b" by (simp add: rewriteModelField_def with_field_def sample_body_def)
  have post: "pr_post plain_post" "pr_bytes plain_post = Some (64, sample_body)" "pr_attempts plain_post = [answered]"
    "pr_now plain_post = 11" "pr_rand plain_post = float64_of_int 0" "pr_order plain_post = []" "pr_segments plain_post = []"
    "pr_others plain_post = id" "pr_between plain_post = id"
    by (simp_all add: plain_post_def)
  have c: "check_body (enter_request gate_gateway) (Some (64, sample_body)) = Inr ''m''"
    by (simp add: check_body_def body_cap_def maxRequestBody_def enter_request_def g extractModel_def hasTopLevelKey_def sample_body_field)
       (simp add: sample_body_def)
  have f: "forward_request sample_codecs plain_post ?key ''m'' sample_body sample_body ((enter_request gate_gateway)\<lparr>gw_balance := Some bc1\<rparr>) (live_fleet False) \<noteq> None"
    by (simp add: forward_request_def choose_worker_def post enter_request_def g sel body_for_def live_worker_props modelMatches_def b
        extractBool_def sample_body_field mark_switch_def handleNonStreaming_def final_reply_def answered_def Let_def)
  have sv: "serve_request sample_codecs plain_post ?key (enter_request gate_gateway) (live_fleet False) \<noteq> None"
    using f r by (auto simp: serve_request_def post c)
  have lim: "gw_limiter (enter_request gate_gateway) = None" by (simp add: enter_request_def g)
  obtain oc g' r' where h: "handleProxy sample_codecs plain_post gate_gateway (live_fleet False) = Some (oc, g', r')"
    using sv by (auto simp: handleProxy_def post g(3) key limited_request_def lim)
  have "charged_once zero_config Map.empty plain_post (ke_wallet ?key) oc gate_gateway g'"
    by (rule one_request_one_charge [OF h gate_gateway_def key]) (simp_all add: post)
  with h show ?thesis by auto
qed

definition wrapping_body :: body where
  "wrapping_body = Some (JObj [(''model'', JStr ''m''), (''max_tokens'', JNum huge_tokens), (''prompt'', JStr (replicate 4096 CHR ''x''))])"

theorem reservation_can_wrap_witness:
  "\<exists>est bc'. reserve_credit ''0xu'' ''m'' wrapping_body (gate_gateway\<lparr>gw_modelPrices := Some [''m'' \<mapsto> float64_of_int 1]\<rparr>) =
      Some (Inr (Some est, wrapping_body), gate_gateway\<lparr>gw_modelPrices := Some [''m'' \<mapsto> float64_of_int 1], gw_balance := Some bc'\<rparr>) \<and>
     bf_val est < 0 \<and> bf_val (GetPendingSpend bc' ''0xu'') < 0"
proof -
  let ?g = "gate_gateway\<lparr>gw_modelPrices := Some [''m'' \<mapsto> float64_of_int 1]\<rparr>"
  have f: "field wrapping_body ''max_tokens'' = Some (JNum huge_tokens)" "estimatePromptTokens wrapping_body = 1024"
    by (simp_all add: wrapping_body_def field_def as_object_def members_def estimatePromptTokens_def Let_def)
  have g: "gw_balance ?g = Some (NewBalanceCache [])" "gw_pricer ?g = Some (NewPricer sample_config)" "prices_of ?g ''m'' = Some (float64_of_int 1)"
    by (simp_all add: gate_gateway_def SetBalanceChecker_def prices_of_def case_prod_beta Let_def)
  have p: "bf_ok (GetFILPriceUSD (NewPricer sample_config)) \<and> 0 < bf_val (GetFILPriceUSD (NewPricer sample_config))"
    by code_simp
  show ?thesis
    using reservation_can_wrap [OF f(1) _ _ g(1,2) _ _ g(3) _ p, of "''0xu''"] f(2)
    by (simp add: IsSuspended_def NewBalanceCache_def availableUSD_def grossUSD_def bf_simps bf_val_float64_of_int)
qed

end
