(* ===== verification/ProbeGen.thy ===== *)
theory ProbeGen
  imports GoStrings GoJson GoFloat
begin

text \<open>
  The questions of the capability probe (\<open>gateway/probe_gen.go\<close>) and the scoring of an answer
  (\<open>scoreProbeAnswer\<close> of \<open>gateway/probe.go\<close>). A random source is the list of its draws, and
  \<open>intn n\<close> reduces the next one below \<open>n\<close>; a list that has run out draws zeros. The permutation
  of the last shuffle is an argument. Regular expressions are the matchers they stand for, with
  ASCII case folding.
\<close>

section \<open>Draws\<close>

definition intn :: "nat \<Rightarrow> nat list \<Rightarrow> int \<times> nat list" where
  "intn n ds = (case ds of [] \<Rightarrow> (0, []) | d # ds \<Rightarrow> (int (d mod n), ds))"

definition pick :: "'a list \<Rightarrow> nat list \<Rightarrow> 'a \<times> nat list" where
  "pick xs ds = (let (i, ds) = intn (length xs) ds in (xs ! nat i, ds))"

lemma intn_range: "0 < n \<Longrightarrow> 0 \<le> fst (intn n ds) \<and> fst (intn n ds) < int n"
  by (simp add: intn_def split: list.split)

lemma pick_in: "xs \<noteq> [] \<Longrightarrow> fst (pick xs ds) \<in> set xs"
  using intn_range [of "length xs" ds] by (auto simp: pick_def case_prod_beta)

section \<open>Questions\<close>

record probeQuestion =
  pq_prompt :: string
  pq_answer :: string
  pq_numeric :: bool

definition numQ :: "string \<Rightarrow> int \<Rightarrow> probeQuestion" where
  "numQ prompt answer = \<lparr>pq_prompt = prompt, pq_answer = dec_int answer, pq_numeric = True\<rparr>"

type_synonym template = "nat list \<Rightarrow> probeQuestion \<times> nat list"

section \<open>Baseline templates\<close>

definition buy_return :: template where
  "buy_return ds =
     (let (p, ds) = intn 11 ds;
          p = p + 2;
          (buy, ds) = intn 15 ds;
          buy = buy + 6;
          (ret, ds) = intn 5 ds;
          ret = ret + 1
      in (numQ (''A shopper buys '' @ dec_int buy @ '' items at $'' @ dec_int p @ '' each, then returns '' @ dec_int ret @ '' of them for a full refund. How much do they pay in total, in dollars?'') ((buy - ret) * p), ds))"

definition percent_of :: template where
  "percent_of ds =
     (let (nb, ds) = pick [120, 200, 240, 300, 400, 500, 60, 80] ds;
          (pc, ds) = pick [5, 10, 15, 20, 25, 40, 75] ds
      in (numQ (''What is '' @ dec_int pc @ ''% of '' @ dec_int nb @ ''?'') (nb * pc div 100), ds))"

text \<open>The draws are repeated until the discounted price is integral.\<close>

function discount_draw :: "nat list \<Rightarrow> int \<times> int \<times> nat list" where
  "discount_draw ds =
     (let (orig, ds1) = pick [50, 60, 80, 100, 120, 150, 200] ds;
          (d, ds2) = pick [10, 20, 25, 40] ds1
      in if orig * (100 - d) mod 100 = 0 then (orig, d, ds2) else discount_draw ds2)"
  by auto

termination
proof (relation "measure length")
  fix ds ds1 ds2 :: "nat list" and orig d :: int and x y
  assume "x = pick [50, 60, 80, 100, 120, 150, 200] ds" "(orig, ds1) = x" "y = pick [10, 20, 25, 40] ds1" "(d, ds2) = y"
    "\<not> orig * (100 - d) mod 100 = 0"
  then show "(ds2, ds) \<in> measure length"
    by (cases ds; cases ds1) (auto simp: pick_def intn_def)
qed simp

declare discount_draw.simps [simp del]

definition discount_original :: template where
  "discount_original ds =
     (let (orig, d, ds) = discount_draw ds;
          price = orig * (100 - d) div 100
      in (numQ (''After a '' @ dec_int d @ ''% discount an item costs $'' @ dec_int price @ ''. What was its original price, in dollars?'') (orig), ds))"

definition remainder_of :: template where
  "remainder_of ds =
     (let (b, ds) = intn 10 ds;
          b = b + 3;
          (q, ds) = intn 19 ds;
          q = q + 2;
          (r, ds) = intn (nat (b - 1)) ds;
          r = r + 1
      in (numQ (''What is the remainder when '' @ dec_int (b * q + r) @ '' is divided by '' @ dec_int b @ ''?'') (r), ds))"

definition sum_to :: template where
  "sum_to ds =
     (let (nn, ds) = pick [10, 12, 15, 17, 20, 25, 50, 100] ds
      in (numQ (''What is the sum of all the positive integers from 1 to '' @ dec_int nn @ '' inclusive?'') (nn * (nn + 1) div 2), ds))"

definition handshakes :: template where
  "handshakes ds =
     (let (nn, ds) = intn 12 ds;
          nn = nn + 4
      in (numQ (''There are '' @ dec_int nn @ '' people at a meeting and everyone shakes hands exactly once with everyone else. How many handshakes occur in total?'') (nn * (nn - 1) div 2), ds))"

definition next_term :: template where
  "next_term ds =
     (let (start, ds) = intn 9 ds;
          start = start + 1;
          (d, ds) = intn 8 ds;
          d = d + 2
      in (numQ (''What is the next number in the sequence '' @ dec_int start @ '', '' @ dec_int (start + d) @ '', '' @ dec_int (start + 2 * d) @ '', '' @ dec_int (start + 3 * d) @ ''?'') (start + 4 * d), ds))"

definition linear_equation :: template where
  "linear_equation ds =
     (let (m, ds) = pick [2, 3, 4, 5] ds;
          (x, ds) = intn 13 ds;
          x = x + 3;
          (b, ds) = intn 20 ds;
          b = b + 1
      in (numQ (''A number is multiplied by '' @ dec_int m @ '' and then '' @ dec_int b @ '' is added, giving '' @ dec_int (m * x + b) @ ''. What is the number?'') (x), ds))"

definition total_cost :: template where
  "total_cost ds =
     (let (p1, ds) = intn 10 ds;
          p1 = p1 + 3;
          (n1, ds) = intn 6 ds;
          n1 = n1 + 2;
          (p2, ds) = intn 8 ds;
          p2 = p2 + 2;
          (n2, ds) = intn 6 ds;
          n2 = n2 + 2
      in (numQ (''Someone buys '' @ dec_int n1 @ '' books at $'' @ dec_int p1 @ '' each and '' @ dec_int n2 @ '' pens at $'' @ dec_int p2 @ '' each. How much do they spend in dollars?'') (n1 * p1 + n2 * p2), ds))"

definition change_due :: template where
  "change_due ds =
     (let (price, ds) = intn 180 ds;
          price = price + 20;
          paid = (price div 100 + 1) * 100
      in (numQ (''An item costs $'' @ dec_int price @ ''. If you pay with $'' @ dec_int paid @ '', how much change do you receive, in dollars?'') (paid - price), ds))"

definition baselineTemplates :: "template list" where
  "baselineTemplates =
     [buy_return, percent_of, discount_original, remainder_of, sum_to, handshakes, next_term, linear_equation, total_cost, change_due]"

section \<open>Discriminating templates\<close>

definition inverse_handshakes :: template where
  "inverse_handshakes ds =
     (let (n, ds) = intn 9 ds;
          n = n + 4
      in (numQ (''At a meeting everyone shook hands exactly once with everyone else, and there were '' @ dec_int (n * (n - 1) div 2) @ '' handshakes in total. How many people were at the meeting?'') (n), ds))"

definition average_after :: template where
  "average_after ds =
     (let (cnt, ds) = pick [5, 6, 8, 10] ds;
          (x, ds) = intn 8 ds;
          avg = (x + 3) * 5;
          (y, ds) = intn 5 ds;
          rem = avg + (y + 1) * (cnt - 1);
          whole = cnt * avg
      in (numQ (''The average of '' @ dec_int cnt @ '' numbers is '' @ dec_int avg @ ''. If the number '' @ dec_int rem @ '' is removed from the set, what is the average of the remaining '' @ dec_int (cnt - 1) @ '' numbers?'') ((whole - rem) div (cnt - 1)), ds))"

definition square_fields :: template where
  "square_fields ds =
     (let (x, ds) = intn 8 ds;
          x = x + 3;
          (y, ds) = intn 8 ds;
          y = y + 3
      in (numQ (''One square field has area '' @ dec_int (x * x) @ '' square meters and another has area '' @ dec_int (y * y) @ '' square meters. A new square field has a side equal to the sum of the side lengths of those two fields. What is the area of the new field, in square meters?'') ((x + y) * (x + y)), ds))"

definition leap_february :: template where
  "leap_february ds =
     (let (yr, ds) = pick [1900, 2000, 2100, 2200, 2400, 1800, 2300] ds;
          days = (if yr mod 4 = 0 \<and> (yr mod 100 \<noteq> 0 \<or> yr mod 400 = 0) then 29 else 28)
      in (numQ (''How many days are in February in the year '' @ dec_int yr @ ''?'') (days), ds))"

definition doubling_jar :: template where
  "doubling_jar ds =
     (let (h, ds) = intn 6 ds;
          h = h + 5
      in (numQ (''A bacteria colony doubles in size every hour and completely fills a jar after '' @ dec_int h @ '' hours. After how many hours was the jar half full?'') (h - 1), ds))"

definition cats_and_mice :: template where
  "cats_and_mice ds =
     (let (n, ds) = pick [3, 4, 5, 6] ds;
          (m, ds) = pick [50, 90, 100, 120] ds
      in (numQ (''If '' @ dec_int n @ '' cats catch '' @ dec_int n @ '' mice in '' @ dec_int n @ '' minutes, how many cats are needed to catch '' @ dec_int m @ '' mice in '' @ dec_int m @ '' minutes?'') (n), ds))"

definition book_orders :: template where
  "book_orders ds =
     (let (n, ds) = intn 4 ds;
          n = n + 4;
          f = fold (\<lambda>i f. f * i) [2..n] 1
      in (numQ (''In how many different orders can '' @ dec_int n @ '' distinct books be arranged on a shelf?'') (f), ds))"

definition units_digit :: template where
  "units_digit ds =
     (let (base, ds) = pick [2, 3, 7, 8] ds;
          (x, ds) = intn 20 ds;
          e = (x + 5) * 4;
          d = ((\<lambda>d. d * base mod 10) ^^ nat e) 1
      in (numQ (''What is the units digit of '' @ dec_int base @ '' raised to the power '' @ dec_int e @ ''?'') (d), ds))"

definition weekdays :: "string list" where
  "weekdays = [''Monday'', ''Tuesday'', ''Wednesday'', ''Thursday'', ''Friday'', ''Saturday'', ''Sunday'']"

definition weekday_after :: template where
  "weekday_after ds =
     (let (start, ds) = intn 7 ds;
          (n, ds) = intn 200 ds;
          n = n + 20
      in (\<lparr>pq_prompt = ''If today is '' @ weekdays ! nat start @ '', what day of the week will it be '' @ dec_int n @ '' days from now?'',
           pq_answer = weekdays ! nat ((start + n) mod 7), pq_numeric = False\<rparr>, ds))"

definition joint_work :: template where
  "joint_work ds =
     (let ((a, b, c), ds) = pick [(6, 12, 4), (10, 15, 6), (12, 24, 8), (20, 30, 12), (4, 12, 3)] ds
      in (numQ (''One worker paints a room in '' @ dec_int a @ '' hours and another in '' @ dec_int b @ '' hours. Working together, how many hours does it take them to paint the room?'') (c), ds))"

definition discriminatingTemplates :: "template list" where
  "discriminatingTemplates =
     [inverse_handshakes, average_after, square_fields, leap_february, doubling_jar, cats_and_mice, book_orders, units_digit, weekday_after, joint_work]"

section \<open>A stratified sample\<close>

definition draw_question :: "template list \<Rightarrow> probeQuestion list \<times> nat list \<Rightarrow> probeQuestion list \<times> nat list" where
  "draw_question ts = (\<lambda>(out, ds). let (t, ds) = pick ts ds; (q, ds) = t ds in (out @ [q], ds))"

definition generate :: "(probeQuestion list \<Rightarrow> probeQuestion list) \<Rightarrow> nat \<Rightarrow> nat list \<Rightarrow> probeQuestion list" where
  "generate shuffle n ds =
     (let nDisc = n div 2;
          s = (draw_question baselineTemplates ^^ (n - nDisc)) ([], ds);
          (out, ds) = (draw_question discriminatingTemplates ^^ nDisc) s
      in shuffle out)"

section \<open>How a question is put\<close>

definition probeInstructions :: "string list" where
  "probeInstructions = List.map (\<lambda>s. CHR 0x0A # CHR 0x0A # s)
     [''Solve it. Think briefly if needed, then on the final line write the word ANSWER: followed by only the final result.'',
      ''Work it out, then finish with a line beginning ANSWER: and just the answer.'',
      ''Give your reasoning if you like, but end your reply with 'ANSWER: <result>'.'',
      ''Please answer. Put your final answer on the last line as ANSWER: <value>.'',
      ''After any working, state the result on a final line: ANSWER: ...'']"

text \<open>The wording depends on the prompt alone; the prompts are ASCII, a rune each.\<close>

definition pickInstruction :: "string \<Rightarrow> string" where
  "pickInstruction prompt = probeInstructions ! (sum_list (List.map of_char prompt) mod length probeInstructions)"

definition question_text :: "probeQuestion \<Rightarrow> string" where
  "question_text q = pq_prompt q @ pickInstruction (pq_prompt q) @ '' /no_think''"

section \<open>Scoring\<close>

text \<open>\<open>-?\d+(?:\.\d+)?\<close> at the head of a text, and all its matches.\<close>

definition unsigned_number :: "string \<Rightarrow> string option" where
  "unsigned_number s =
     (let d = takeWhile is_digit s; r = dropWhile is_digit s
      in if d = [] then None
         else case r of
                [] \<Rightarrow> Some d
              | c # r \<Rightarrow> (let f = takeWhile is_digit r in if c = CHR ''.'' \<and> f \<noteq> [] then Some (d @ c # f) else Some d))"

definition number_at :: "string \<Rightarrow> string option" where
  "number_at s =
     (case s of
        [] \<Rightarrow> None
      | c # r \<Rightarrow> if c = CHR ''-'' then map_option ((#) c) (unsigned_number r) else unsigned_number s)"

function all_numbers :: "string \<Rightarrow> string list" where
  "all_numbers [] = []"
| "all_numbers (c # s) =
     (case number_at (c # s) of Some m \<Rightarrow> m # all_numbers (drop (length m - 1) s) | None \<Rightarrow> all_numbers s)"
  by pat_completeness auto

termination by (relation "measure length") auto

text \<open>\<open>ANSWER:\s*(.*)\<close> in any case: the captured rest of the line, for every match.\<close>

definition re_space :: "char \<Rightarrow> bool" where
  "re_space c \<longleftrightarrow> c \<in> {CHR '' '', CHR 0x09, CHR 0x0A, CHR 0x0C, CHR 0x0D}"

definition answer_mark :: string where "answer_mark = ''answer:''"

function answer_lines :: "string \<Rightarrow> string list" where
  "answer_lines [] = []"
| "answer_lines (c # s) =
     (if HasPrefix (ToLower (c # s)) answer_mark
      then let rest = dropWhile re_space (drop 6 s)
           in takeWhile (\<lambda>c. c \<noteq> CHR 0x0A) rest # answer_lines (dropWhile (\<lambda>c. c \<noteq> CHR 0x0A) rest)
      else answer_lines s)"
  by pat_completeness auto

termination
proof (relation "measure length")
  fix c :: char and s rest
  assume "rest = dropWhile re_space (drop 6 s)"
  then show "(dropWhile (\<lambda>c. c \<noteq> CHR 0x0A) rest, c # s) \<in> measure length"
    using length_dropWhile_le [of "\<lambda>c. c \<noteq> CHR 0x0A" rest] length_dropWhile_le [of re_space "drop 6 s"] by simp
qed auto

text \<open>\<open>strconv.ParseFloat(s, 64)\<close> of such a numeral; a value that rounds to \<open>2 ^ 1024\<close> is out of range.\<close>

definition parse_unsigned :: "string \<Rightarrow> bigfloat" where
  "parse_unsigned s =
     (let d = takeWhile is_digit s; f = drop 1 (dropWhile is_digit s)
      in bf_ratio 53 (int (undec (d @ f))) (10 ^ length f))"

definition parse_float :: "string \<Rightarrow> bigfloat option" where
  "parse_float s =
     (let x = (case s of [] \<Rightarrow> bf_zero | c # r \<Rightarrow> if c = CHR ''-'' then bf_neg (parse_unsigned r) else parse_unsigned s)
      in if bf_cmp (bf_abs x) (BF 53 1 1024) \<ge> 0 then None else Some x)"

definition diffAbs :: "bigfloat \<Rightarrow> bigfloat \<Rightarrow> bigfloat" where
  "diffAbs a b = (if bf_cmp a b < 0 then f64_sub b a else f64_sub a b)"

text \<open>The whole-token match of a text answer: no letter or digit on either side.\<close>

definition token_char :: "char \<Rightarrow> bool" where
  "token_char c \<longleftrightarrow> (CHR ''a'' \<le> c \<and> c \<le> CHR ''z'') \<or> (CHR ''0'' \<le> c \<and> c \<le> CHR ''9'')"

definition token_at :: "string \<Rightarrow> string \<Rightarrow> nat \<Rightarrow> bool" where
  "token_at s t i \<longleftrightarrow> HasPrefix (drop i s) t \<and> (i = 0 \<or> \<not> token_char (s ! (i - 1))) \<and>
     (i + length t \<ge> length s \<or> \<not> token_char (s ! (i + length t)))"

definition without_commas :: "string \<Rightarrow> string" where
  "without_commas s = filter (\<lambda>c. c \<noteq> CHR '','') s"

definition scoreProbeAnswer :: "probeQuestion \<Rightarrow> string \<Rightarrow> bool" where
  "scoreProbeAnswer q response =
     (let ans = (case answer_lines response of [] \<Rightarrow> response | as \<Rightarrow> last as)
      in if pq_numeric q
         then (let nums = all_numbers (without_commas ans);
                   nums = (if nums = [] then all_numbers (without_commas response) else nums)
               in if nums = [] then False
                  else case (parse_float (last nums), parse_float (pq_answer q)) of
                         (None, _) \<Rightarrow> False
                       | (Some got, want) \<Rightarrow> bf_cmp (diffAbs got (case want of Some x \<Rightarrow> x | None \<Rightarrow> bf_zero)) (bf_ratio 53 1 1000000) < 0)
         else let e = ToLower (pq_answer q); s = ToLower ans
              in list_ex (token_at s e) [0..<Suc (length s)])"

section \<open>The answers are exact\<close>

lemma discount_draw_exact:
  "discount_draw ds = (orig, d, ds') \<Longrightarrow> orig * (100 - d) mod 100 = 0 \<and> d \<in> {10, 20, 25, 40}"
proof (induction ds arbitrary: orig d ds' rule: discount_draw.induct)
  case (1 ds)
  obtain p1 ds1 where p1: "pick [50, 60, 80, 100, 120, 150, 200] ds = (p1 :: int, ds1)" by (cases "pick [50, 60, 80, 100, 120, 150, 200 :: int] ds")
  obtain p2 ds2 where p2: "pick [10, 20, 25, 40] ds1 = (p2 :: int, ds2)" by (cases "pick [10, 20, 25, 40 :: int] ds1")
  have i: "p2 \<in> {10, 20, 25, 40}" using pick_in [of "[10, 20, 25, 40 :: int]" ds1] by (simp add: p2)
  show ?case
  proof (cases "p1 * (100 - p2) mod 100 = 0")
    case True
    then show ?thesis using 1(2) i by (simp add: discount_draw.simps [of ds] p1 p2)
  next
    case False
    have "discount_draw ds2 = (orig, d, ds')" using 1(2) False by (simp add: discount_draw.simps [of ds] p1 p2)
    then show ?thesis using "1.IH" [OF p1 [symmetric] refl p2 [symmetric] refl False] by blast
  qed
qed

lemma units_walk: "((\<lambda>d. d * base mod 10) ^^ n) (1 :: int) mod 10 = (base :: int) ^ n mod 10"
proof (induction n)
  case (Suc n)
  have "((\<lambda>d. d * base mod 10) ^^ Suc n) 1 mod 10 = (((\<lambda>d. d * base mod 10) ^^ n) 1 mod 10) * base mod 10"
    by (simp add: mod_mult_left_eq)
  also have "\<dots> = base ^ n mod 10 * base mod 10" using Suc by simp
  also have "\<dots> = base ^ Suc n mod 10" by (simp add: mod_mult_right_eq mult.commute)
  finally show ?case .
qed simp

lemma units_digit_exact:
  assumes "0 < n"
  shows "((\<lambda>d. d * base mod 10) ^^ n) (1 :: int) = (base :: int) ^ n mod 10"
proof -
  obtain m where "n = Suc m" using assms by (cases n) auto
  then have "((\<lambda>d. d * base mod 10) ^^ n) 1 mod 10 = ((\<lambda>d. d * base mod 10) ^^ n) (1 :: int)" by simp
  then show ?thesis using units_walk [where base = base and n = n] by metis
qed

text \<open>
  A question and its answer agree. Whatever is drawn, the percentage, the original price, the average
  after a removal and the joint working time that the probe expects solve the question as it is
  printed exactly, without a rest that the integer divisions would drop, and the units digit is
  that of the power.
\<close>

theorem answers_are_exact:
  "(\<exists>nb pc a. fst (percent_of ds) = numQ (''What is '' @ dec_int pc @ ''% of '' @ dec_int nb @ ''?'') a \<and> 100 * a = nb * pc) \<and>
   (\<exists>d price a. fst (discount_original ds) = numQ (''After a '' @ dec_int d @ ''% discount an item costs $'' @ dec_int price @
        ''. What was its original price, in dollars?'') a \<and> price * 100 = a * (100 - d)) \<and>
   (\<exists>cnt avg rem a. fst (average_after ds) = numQ (''The average of '' @ dec_int cnt @ '' numbers is '' @ dec_int avg @ ''. If the number '' @
        dec_int rem @ '' is removed from the set, what is the average of the remaining '' @ dec_int (cnt - 1) @ '' numbers?'') a \<and>
        a * (cnt - 1) = cnt * avg - rem \<and> 0 < a) \<and>
   (\<exists>m n a. fst (joint_work ds) = numQ (''One worker paints a room in '' @ dec_int m @ '' hours and another in '' @ dec_int n @
        '' hours. Working together, how many hours does it take them to paint the room?'') a \<and> a * (m + n) = m * n) \<and>
   (\<exists>base e. fst (units_digit ds) = numQ (''What is the units digit of '' @ dec_int base @ '' raised to the power '' @ dec_int e @ ''?'')
        (base ^ nat e mod 10) \<and> 0 < e)"
proof (intro conjI)
  obtain nb ds1 where nb: "pick [120, 200, 240, 300, 400, 500, 60, 80] ds = (nb :: int, ds1)" by (cases "pick [120, 200, 240, 300, 400, 500, 60, 80 :: int] ds")
  obtain pc ds2 where pc: "pick [5, 10, 15, 20, 25, 40, 75] ds1 = (pc :: int, ds2)" by (cases "pick [5, 10, 15, 20, 25, 40, 75 :: int] ds1")
  have "nb \<in> {120, 200, 240, 300, 400, 500, 60, 80}" "pc \<in> {5, 10, 15, 20, 25, 40, 75}"
    using pick_in [of "[120, 200, 240, 300, 400, 500, 60, 80 :: int]" ds] pick_in [of "[5, 10, 15, 20, 25, 40, 75 :: int]" ds1] nb pc by auto
  then have "100 * (nb * pc div 100) = nb * pc" by auto
  then show "\<exists>nb pc a. fst (percent_of ds) = numQ (''What is '' @ dec_int pc @ ''% of '' @ dec_int nb @ ''?'') a \<and> 100 * a = nb * pc"
    unfolding percent_of_def Let_def nb pc prod.case fst_conv by blast
next
  obtain orig d ds1 where d: "discount_draw ds = (orig, d, ds1)" by (cases "discount_draw ds")
  then have "orig * (100 - d) div 100 * 100 = orig * (100 - d)" using discount_draw_exact by fastforce
  then show "\<exists>d price a. fst (discount_original ds) = numQ (''After a '' @ dec_int d @ ''% discount an item costs $'' @ dec_int price @
        ''. What was its original price, in dollars?'') a \<and> price * 100 = a * (100 - d)"
    unfolding discount_original_def Let_def d prod.case fst_conv by blast
next
  obtain cnt ds1 where c: "pick [5, 6, 8, 10] ds = (cnt :: int, ds1)" by (cases "pick [5, 6, 8, 10 :: int] ds")
  obtain x ds2 where x: "intn 8 ds1 = (x, ds2)" by (cases "intn 8 ds1")
  obtain y ds3 where y: "intn 5 ds2 = (y, ds3)" by (cases "intn 5 ds2")
  have cnt: "1 < cnt" using pick_in [of "[5, 6, 8, 10 :: int]" ds] c by auto
  have r: "0 \<le> x" "y < 5" using intn_range [of 8 ds1] intn_range [of 5 ds2] x y by auto
  have e: "cnt * ((x + 3) * 5) - ((x + 3) * 5 + (y + 1) * (cnt - 1)) = ((x + 3) * 5 - (y + 1)) * (cnt - 1)" by (simp add: algebra_simps)
  have q: "(cnt * ((x + 3) * 5) - ((x + 3) * 5 + (y + 1) * (cnt - 1))) div (cnt - 1) = (x + 3) * 5 - (y + 1)" unfolding e using cnt by simp
  show "\<exists>cnt avg rem a. fst (average_after ds) = numQ (''The average of '' @ dec_int cnt @ '' numbers is '' @ dec_int avg @ ''. If the number '' @
        dec_int rem @ '' is removed from the set, what is the average of the remaining '' @ dec_int (cnt - 1) @ '' numbers?'') a \<and>
        a * (cnt - 1) = cnt * avg - rem \<and> 0 < a"
    unfolding average_after_def Let_def c x y prod.case fst_conv q
    by (rule exI [of _ cnt], rule exI [of _ "(x + 3) * 5"], rule exI [of _ "(x + 3) * 5 + (y + 1) * (cnt - 1)"],
        rule exI [of _ "(x + 3) * 5 - (y + 1)"], simp only: e) (use r in simp)
next
  obtain m n c ds1 where p: "pick [(6, 12, 4), (10, 15, 6), (12, 24, 8), (20, 30, 12), (4, 12, 3)] ds = ((m :: int, n :: int, c :: int), ds1)"
    by (cases "pick [(6, 12, 4), (10, 15, 6), (12, 24, 8), (20, 30, 12), (4, 12, 3) :: int \<times> int \<times> int] ds") auto
  have "(m, n, c) \<in> {(6, 12, 4), (10, 15, 6), (12, 24, 8), (20, 30, 12), (4, 12, 3)}"
    using pick_in [of "[(6, 12, 4), (10, 15, 6), (12, 24, 8), (20, 30, 12), (4, 12, 3) :: int \<times> int \<times> int]" ds] p by auto
  then have "c * (m + n) = m * n" by auto
  then show "\<exists>m n a. fst (joint_work ds) = numQ (''One worker paints a room in '' @ dec_int m @ '' hours and another in '' @ dec_int n @
        '' hours. Working together, how many hours does it take them to paint the room?'') a \<and> a * (m + n) = m * n"
    unfolding joint_work_def Let_def p prod.case fst_conv by blast
next
  obtain base ds1 where b: "pick [2, 3, 7, 8] ds = (base :: int, ds1)" by (cases "pick [2, 3, 7, 8 :: int] ds")
  obtain x ds2 where x: "intn 20 ds1 = (x, ds2)" by (cases "intn 20 ds1")
  have "0 \<le> x" using intn_range [of 20 ds1] x by simp
  then have "0 < nat ((x + 5) * 4)" "0 < (x + 5) * 4" by auto
  then show "\<exists>base e. fst (units_digit ds) = numQ (''What is the units digit of '' @ dec_int base @ '' raised to the power '' @ dec_int e @ ''?'')
        (base ^ nat e mod 10) \<and> 0 < e"
    unfolding units_digit_def Let_def b x prod.case fst_conv
    by (intro exI [of _ base] exI [of _ "(x + 5) * 4"] conjI) (simp only: units_digit_exact, assumption)
qed

section \<open>A right answer is scored as right\<close>

lemma digits_only:
  assumes "\<forall>c\<in>set d. is_digit c"
  shows "takeWhile is_digit d = d" "dropWhile is_digit d = []"
  using assms by (simp_all add: takeWhile_eq_all_conv dropWhile_eq_Nil_conv)

lemma number_at_dec:
  "number_at (dec_int z) = Some (dec_int z)"
proof (cases "z < 0")
  case True
  have d: "\<forall>c\<in>set (dec_nat (nat (- z))). is_digit c" "dec_nat (nat (- z)) \<noteq> []" using dec_nat_props by blast+
  show ?thesis using True d(2)
    by (simp add: digits_only [OF d(1)] number_at_def dec_int_def unsigned_number_def Let_def)
next
  case False
  obtain c r where s: "dec_nat (nat z) = c # r" "is_digit c" using dec_nat_props [of "nat z"] by (cases "dec_nat (nat z)") auto
  have "c \<noteq> CHR ''-''" using s(2) minus_no_digit by blast
  moreover have d: "\<forall>c\<in>set (dec_nat (nat z)). is_digit c" using dec_nat_props by blast
  moreover have "\<forall>c\<in>set r. is_digit c" using d s by simp
  ultimately show ?thesis using False s
    by (simp add: digits_only [of r] number_at_def dec_int_def unsigned_number_def Let_def)
qed

lemma dec_int_Cons: "\<exists>c r. dec_int z = c # r"
  using number_at_dec [of z] by (cases "dec_int z") (auto simp: number_at_def)

lemma all_numbers_dec: "all_numbers (dec_int z) = [dec_int z]"
proof -
  obtain c r where s: "dec_int z = c # r" using dec_int_Cons by blast
  then show ?thesis using number_at_dec [of z] by simp
qed

lemma all_numbers_skip: "number_at (c # s) = None \<Longrightarrow> all_numbers (c # s) = all_numbers s"
  by simp

lemma dec_int_chars: "c \<in> set (dec_int z) \<Longrightarrow> is_digit c \<or> c = CHR ''-''"
  using dec_nat_props [of "nat z"] dec_nat_props [of "nat (- z)"] by (auto simp: dec_int_def split: if_splits)

lemma no_number: "\<not> is_digit c \<Longrightarrow> c \<noteq> CHR ''-'' \<Longrightarrow> number_at (c # s) = None"
  by (simp add: number_at_def unsigned_number_def)

definition answer_line :: "int \<Rightarrow> string" where
  "answer_line z = ''ANSWER: '' @ dec_int z"

lemma plain_chars:
  assumes "c \<in> set (answer_line z)"
  shows "c \<noteq> CHR 0x0A" "c \<noteq> CHR '',''"
  using assms by (auto simp: answer_line_def is_digit_def dest!: dec_int_chars)

lemma all_numbers_line: "all_numbers (answer_line z) = [dec_int z]"
proof -
  have "all_numbers (xs @ dec_int z) = all_numbers (dec_int z)" if "\<forall>c\<in>set xs. \<not> is_digit c \<and> c \<noteq> CHR ''-''" for xs
    using that by (induction xs) (auto simp: no_number simp del: all_numbers.simps simp: all_numbers_skip)
  from this [of "''ANSWER: ''"] show ?thesis by (simp add: answer_line_def all_numbers_dec is_digit_def)
qed

lemma no_commas [simp]: "without_commas (answer_line z) = answer_line z" "without_commas (dec_int z) = dec_int z"
proof -
  show "without_commas (answer_line z) = answer_line z"
    using plain_chars(2) [of _ z] unfolding without_commas_def by (auto simp: filter_id_conv)
  then show "without_commas (dec_int z) = dec_int z"
    by (simp add: answer_line_def without_commas_def)
qed

lemma takeWhile_line: "takeWhile (\<lambda>c. c \<noteq> CHR 0x0A) (answer_line z) = answer_line z" "dropWhile (\<lambda>c. c \<noteq> CHR 0x0A) (answer_line z) = []"
  "takeWhile (\<lambda>c. c \<noteq> CHR 0x0A) (dec_int z) = dec_int z" "dropWhile (\<lambda>c. c \<noteq> CHR 0x0A) (dec_int z) = []"
  using plain_chars(1) [of _ z] by (auto simp: takeWhile_eq_all_conv dropWhile_eq_Nil_conv answer_line_def)

lemma answer_lines_line: "answer_lines (answer_line z) = [dec_int z]"
proof -
  obtain c r where s: "dec_int z = c # r" using dec_int_Cons by blast
  have c: "\<not> re_space c" using dec_int_chars [of c z] s by (auto simp: re_space_def is_digit_def)
  have "dropWhile re_space (CHR '' '' # dec_int z) = dec_int z" using c by (simp add: s re_space_def)
  moreover have "HasPrefix (ToLower (CHR ''A'' # ''NSWER: '' @ dec_int z)) answer_mark"
  proof -
    have "map lower_char ''ANSWER:'' = answer_mark" by code_simp
    then have "ToLower (''ANSWER:'' @ '' '' @ dec_int z) = answer_mark @ map lower_char ('' '' @ dec_int z)"
      by (simp only: ToLower_def map_append)
    then have "HasPrefix (ToLower (''ANSWER:'' @ '' '' @ dec_int z)) answer_mark" by (simp only: HasPrefix_append)
    then show ?thesis by simp
  qed
  ultimately have "answer_lines (CHR ''A'' # ''NSWER: '' @ dec_int z) = [dec_int z]"
    by (simp add: takeWhile_line Let_def del: dropWhile.simps)
  then show ?thesis by (simp add: answer_line_def)
qed

text \<open>Whatever stands before it, the last captured line is the number or the whole last line.\<close>

lemma last_answer:
  "s = pre @ CHR 0x0A # answer_line z \<Longrightarrow> answer_lines s \<noteq> [] \<and> last (answer_lines s) \<in> {dec_int z, answer_line z}"
proof (induction s arbitrary: pre rule: answer_lines.induct)
  case (2 c s)
  let ?L = "answer_line z"
  show ?case
  proof (cases "HasPrefix (ToLower (c # s)) answer_mark")
    case False
    show ?thesis
    proof (cases pre)
      case Nil
      then have "s = ?L" using 2 by simp
      then show ?thesis using False by (simp add: answer_lines_line)
    next
      case (Cons x xs)
      then have "s = xs @ CHR 0x0A # ?L" using 2 by simp
      then show ?thesis using "2.IH"(2) [OF False] False by simp
    qed
  next
    case True
    have seven: "take 7 (c # s) = take 7 (pre @ CHR 0x0A # ?L)" using 2 by simp
    have nl: "CHR 0x0A \<notin> set (take 7 (c # s))"
    proof
      assume "CHR 0x0A \<in> set (take 7 (c # s))"
      then have "lower_char (CHR 0x0A) \<in> set (take 7 (ToLower (c # s)))" by (simp only: ToLower_def take_map set_map) (rule imageI)
      moreover have "take 7 (ToLower (c # s)) = answer_mark" 
      proof -
        have "length answer_mark = 7" by (simp add: answer_mark_def)
        then show ?thesis using True by (metis HasPrefix_def)
      qed
      moreover have "lower_char (CHR 0x0A) = CHR 0x0A" by code_simp
      ultimately have "CHR 0x0A \<in> set answer_mark" by metis
      then show False by (simp add: answer_mark_def)
    qed
    have len: "7 \<le> length pre"
    proof (rule ccontr)
      assume "\<not> 7 \<le> length pre"
      then obtain k where "7 - length pre = Suc k" by (metis Suc_diff_Suc not_le)
      then have "CHR 0x0A \<in> set (take 7 (pre @ CHR 0x0A # ?L))" by simp
      then show False by (rule notE [OF nl [unfolded seven]])
    qed
    define mid where "mid = drop 7 pre"
    have "drop 6 s = drop 7 (c # s)" by simp
    then have d: "drop 6 s = mid @ CHR 0x0A # ?L" unfolding "2.prems" mid_def using len by (simp only: drop_append) simp
    obtain c0 r0 where L: "?L = c0 # r0" "\<not> re_space c0" by (simp add: answer_line_def re_space_def)
    let ?rest = "dropWhile re_space (drop 6 s)"
    have rest: "?rest = ?L \<or> (\<exists>m. ?rest = m @ CHR 0x0A # ?L)"
    proof (cases "\<forall>x\<in>set mid. re_space x")
      case True
      then have "?rest = dropWhile re_space (CHR 0x0A # ?L)" unfolding d by simp
      then show ?thesis using L by (simp add: re_space_def)
    next
      case False
      then have "?rest = dropWhile re_space mid @ CHR 0x0A # ?L" unfolding d by (meson dropWhile_append1)
      then show ?thesis by blast
    qed
    have step: "answer_lines (c # s) = takeWhile (\<lambda>c. c \<noteq> CHR 0x0A) ?rest # answer_lines (dropWhile (\<lambda>c. c \<noteq> CHR 0x0A) ?rest)"
      using True by (simp add: Let_def)
    from rest show ?thesis
    proof
      assume r: "?rest = ?L"
      show ?thesis unfolding step r by (simp add: takeWhile_line)
    next
      assume "\<exists>m. ?rest = m @ CHR 0x0A # ?L"
      then obtain m where m: "?rest = m @ CHR 0x0A # ?L" by blast
      have "\<exists>m'. dropWhile (\<lambda>c. c \<noteq> CHR 0x0A) ?rest = m' @ CHR 0x0A # ?L"
      proof (cases "\<forall>x\<in>set m. x \<noteq> CHR 0x0A")
        case True
        then have "dropWhile (\<lambda>c. c \<noteq> CHR 0x0A) ?rest = [] @ CHR 0x0A # ?L" unfolding m by simp
        then show ?thesis by blast
      next
        case False
        then have "dropWhile (\<lambda>c. c \<noteq> CHR 0x0A) ?rest = dropWhile (\<lambda>c. c \<noteq> CHR 0x0A) m @ CHR 0x0A # ?L"
          unfolding m by (intro dropWhile_append1) auto
        then show ?thesis by blast
      qed
      then obtain m' where m': "dropWhile (\<lambda>c. c \<noteq> CHR 0x0A) ?rest = m' @ CHR 0x0A # ?L" by blast
      have "answer_lines (m' @ CHR 0x0A # ?L) \<noteq> [] \<and> last (answer_lines (m' @ CHR 0x0A # ?L)) \<in> {dec_int z, ?L}"
        using "2.IH"(1) [OF True refl m'] unfolding m' .
      then show ?thesis unfolding step m' by simp
    qed
  qed
qed simp

lemma parse_float_dec:
  assumes "\<bar>z\<bar> < 2 ^ 53"
  shows "\<exists>x. parse_float (dec_int z) = Some x"
proof -
  have u: "parse_unsigned (dec_nat n) = bf_ratio 53 (int n) 1" for n
  proof -
    have d: "\<forall>c\<in>set (dec_nat n). is_digit c" using dec_nat_props by blast
    show ?thesis using dec_nat_props [of n] by (simp add: parse_unsigned_def Let_def digits_only [OF d])
  qed
  have b: "\<bar>bf_val (bf_ratio 53 (int n) 1)\<bar> < 2 ^ 1024" if "int n < 2 ^ 53" for n
  proof -
    have "near 53 (bf_val (bf_ratio 53 (int n) 1)) (of_nat n)" using bf_ratio_error [of 53 1 "int n"] by (simp add: near_def)
    then have "\<bar>bf_val (bf_ratio 53 (int n) 1)\<bar> \<le> of_nat n * (1 + 1 / 2 ^ 53)" using near_upper by fastforce
    also have "\<dots> \<le> 2 ^ 53 * 2"
    proof (rule mult_mono)
      have "rat_of_int (int n) \<le> of_int (2 ^ 53)" using that by (intro of_int_le_iff [THEN iffD2]) simp
      then show "rat_of_nat n \<le> 2 ^ 53" by simp
    qed simp_all
    also have "\<dots> < 2 ^ 1024" by simp
    finally show ?thesis .
  qed
  have c: "bf_cmp (bf_abs x) (BF 53 1 1024) < 0" if "\<bar>bf_val x\<bar> < 2 ^ 1024" for x
    using that by (simp only: bf_cmp_cases bf_simps) (simp add: bf_val_def powi2_nat)
  show ?thesis
  proof (cases "z < 0")
    case True
    have "\<bar>bf_val (bf_neg (bf_ratio 53 (- z) 1))\<bar> < 2 ^ 1024" using b [of "nat (- z)"] True assms by (simp add: bf_simps)
    then show ?thesis using c True by (simp add: parse_float_def dec_int_def u Let_def not_le)
  next
    case False
    obtain ch r where s: "dec_nat (nat z) = ch # r" "is_digit ch"
      using dec_nat_props [of "nat z"] by (cases "dec_nat (nat z)") auto
    have "\<bar>bf_val (bf_ratio 53 z 1)\<bar> < 2 ^ 1024" using b [of "nat z"] False assms by simp
    then show ?thesis using c False s u [of "nat z"] minus_no_digit by (auto simp add: parse_float_def dec_int_def Let_def not_le)
  qed
qed

lemma diffAbs_self: "bf_cmp (diffAbs x x) (bf_ratio 53 1 1000000) < 0"
proof -
  have "sum_mant x (bf_neg x) = 0" by (simp add: sum_mant_def bf_neg_def Let_def)
  then have "bf_val (diffAbs x x) = 0" by (simp add: diffAbs_def bf_subp_def bf_addp_def)
  moreover have "0 < bf_val (bf_ratio 53 1 1000000)" using bf_ratio_sgn [of 53 1000000 1] by (simp add: sgn_if split: if_splits)
  ultimately show ?thesis by (simp add: bf_cmp_cases)
qed

text \<open>
  A right answer is scored as right. A reply that ends with a line \<open>ANSWER:\<close> and the expected number
  counts as correct whatever the model wrote before it: earlier answers, other numbers, commas, or an
  announcement without an answer.
\<close>

theorem right_answer_scores:
  assumes "\<bar>z\<bar> < 2 ^ 53"
  shows "scoreProbeAnswer (numQ prompt z) (pre @ CHR 0x0A # ''ANSWER: '' @ dec_int z)"
proof -
  let ?resp = "pre @ CHR 0x0A # answer_line z"
  obtain x where x: "parse_float (dec_int z) = Some x" using parse_float_dec [OF assms] by blast
  have l: "answer_lines ?resp \<noteq> []" "last (answer_lines ?resp) \<in> {dec_int z, answer_line z}" using last_answer [OF refl] by blast+
  then have "all_numbers (without_commas (last (answer_lines ?resp))) = [dec_int z]"
    by (auto simp: all_numbers_dec all_numbers_line)
  moreover have "(case answer_lines ?resp of [] \<Rightarrow> ?resp | as \<Rightarrow> last as) = last (answer_lines ?resp)"
    using l(1) by (cases "answer_lines ?resp") simp_all
  ultimately have "scoreProbeAnswer (numQ prompt z) ?resp"
    using x diffAbs_self unfolding scoreProbeAnswer_def numQ_def by simp
  then show ?thesis by (simp add: answer_line_def)
qed

theorem right_answer_scores_witness:
  "scoreProbeAnswer (numQ ''What is 5% of 60?'' 3) (''Is it 7? ANSWER: 7'' @ [CHR 0x0A] @ ''ANSWER: 3'')"
proof -
  have "dec_int 3 = ''3''" by code_simp
  with right_answer_scores [of 3 "''What is 5% of 60?''" "''Is it 7? ANSWER: 7''"] show ?thesis by simp
qed

lemma within_one:
  assumes "\<bar>r - v\<bar> * 2 ^ 53 \<le> w" "w < 2 ^ 53"
  shows "v - 1 < r \<and> (r :: rat) < v + 1"
proof -
  have "\<bar>r - v\<bar> * 2 ^ 53 < 1 * 2 ^ 53" using assms by simp
  then have "\<bar>r - v\<bar> < 1" by (rule mult_right_less_imp_less) simp
  then show ?thesis by (simp add: abs_less_iff)
qed

lemma far_apart:
  assumes "bf_val x + 2 \<le> bf_val y"
  shows "\<not> bf_cmp (diffAbs x y) (bf_ratio 53 1 1000000) < 0"
proof -
  have n: "near 53 (bf_val (bf_addp 53 y (bf_neg x))) (bf_val y + bf_val (bf_neg x))" using bf_addp_near [of 53 y "bf_neg x"] by (simp add: res_prec_def)
  then have "\<bar>bf_val y - bf_val x\<bar> * (1 - 1 / 2 ^ 53) \<le> \<bar>bf_val (f64_sub y x)\<bar>" using near_lower by (fastforce simp: bf_subp_def bf_simps)
  moreover have "2 * (1 - 1 / 2 ^ 53) \<le> \<bar>bf_val y - bf_val x\<bar> * (1 - 1 / 2 ^ 53)" by (rule mult_right_mono) (use assms in simp_all)
  moreover have "1 \<le> 2 * (1 - 1 / 2 ^ 53 :: rat)" by simp
  ultimately have a: "1 \<le> \<bar>bf_val (f64_sub y x)\<bar>" by linarith
  have "bf_val (diffAbs x y) = bf_val (f64_sub y x)" using assms by (simp add: diffAbs_def bf_cmp_cases)
  moreover have "0 \<le> bf_val (f64_sub y x)"
  proof -
    have "sgn (bf_val (bf_addp 53 y (bf_neg x))) = sgn (bf_val y + bf_val (bf_neg x))" by (rule near_sgn [OF _ n]) simp
    then show ?thesis using assms by (simp add: bf_subp_def bf_simps sgn_if split: if_splits)
  qed
  moreover have "bf_val (bf_ratio 53 1 1000000) < 1"
  proof -
    have "near 53 (bf_val (bf_ratio 53 1 1000000)) (1 / 1000000)" using bf_ratio_error [of 53 1000000 1] by (simp add: near_def)
    from near_upper [OF this] show ?thesis by (auto simp: abs_le_iff)
  qed
  ultimately show ?thesis using a by (simp add: bf_cmp_cases)
qed

text \<open>
  A remark behind the number changes the verdict: the last number of the line counts, so a right answer with
  its unit's exponent, a date or a page number behind it is wrong.
\<close>

theorem number_behind_answer_counts:
  "\<not> scoreProbeAnswer (numQ ''What is the area of the new field, in square meters?'' 49) ''ANSWER: 49 m^2''"
proof -
  have a: "answer_lines ''ANSWER: 49 m^2'' = [''49 m^2'']" by code_simp
  have n: "all_numbers (without_commas ''49 m^2'') = [''49'', ''2'']" by code_simp
  have d: "dec_int 49 = ''49''" by code_simp
  have u: "parse_unsigned ''2'' = bf_ratio 53 2 1" "parse_unsigned ''49'' = bf_ratio 53 49 1"
    by (simp_all add: parse_unsigned_def is_digit_def undec_def)
  have near: "\<bar>bf_val (bf_ratio 53 2 1) - 2\<bar> * 2 ^ 53 \<le> 2" "\<bar>bf_val (bf_ratio 53 49 1) - 49\<bar> * 2 ^ 53 \<le> 49"
    using bf_ratio_error [of 53 1 2] bf_ratio_error [of 53 1 49] by simp_all
  have v: "1 < bf_val (bf_ratio 53 2 1)" "bf_val (bf_ratio 53 2 1) < 3" "48 < bf_val (bf_ratio 53 49 1)" "bf_val (bf_ratio 53 49 1) < 50"
    using within_one [OF near(1)] within_one [OF near(2)] by simp_all
  have p: "parse_float ''2'' = Some (bf_ratio 53 2 1)" "parse_float ''49'' = Some (bf_ratio 53 49 1)"
    using v by (simp_all add: parse_float_def u bf_cmp_cases bf_simps Let_def) (simp_all add: bf_val_def [of "BF 53 1 1024"] powi2_nat)
  have "\<not> bf_cmp (diffAbs (bf_ratio 53 2 1) (bf_ratio 53 49 1)) (bf_ratio 53 1 1000000) < 0"
    by (rule far_apart) (use v in simp)
  then show ?thesis
    unfolding scoreProbeAnswer_def numQ_def a d probeQuestion.simps list.case last.simps
    by (simp add: n p del: all_numbers.simps answer_lines.simps)
qed

end
