(* ===== verification/Auditor.thy ===== *)
theory Auditor
  imports Router ProbeGen
begin

text \<open>
  The capability auditor (\<open>gateway/probe.go\<close>) and the workers' own view of it
  (\<open>gateway/workerself.go\<close>): admission of claimed models, their re-verification, spot checks,
  pooled evidence, bans, and the lever that restarts a verification. What a worker answers to
  the questions of a run is an argument, and so is what happens to the auditor's tables and the
  fleet while an exam and a confirmation run are under way, with the clock at each reading
  (\<open>audit_env\<close>). A map that is walked is a list.
\<close>

section \<open>Configuration and state\<close>

record probe_config =
  pc_Enabled :: bool
  pc_IntervalSec :: int
  pc_NumQuestions :: int
  pc_MinScore :: bigfloat
  pc_BanSeconds :: int
  pc_RequestTimeout :: duration
  pc_AdmissionGate :: bool
  pc_VerifyTTL :: duration
  pc_ModelFloors :: "(string \<times> bigfloat) list"
  pc_SpotMinInterval :: duration

type_synonym probeRun = "nat \<times> nat"

record auditor =
  au_cfg :: probe_config
  au_fails :: "(string \<times> int) list"
  au_evidence :: "(string \<times> probeRun list) list"
  au_checked :: "(string \<times> gotime) list"
  au_cursor :: nat

definition f64_frac :: "int \<Rightarrow> int \<Rightarrow> bigfloat" where
  "f64_frac a b = f64_quo (float64_of_int a) (float64_of_int b)"

definition newAuditor :: "probe_config \<Rightarrow> auditor" where
  "newAuditor cfg =
     \<lparr>au_cfg = cfg
        \<lparr>pc_NumQuestions := (if pc_NumQuestions cfg \<le> 0 then 16 else pc_NumQuestions cfg),
         pc_MinScore := (if bf_sign (pc_MinScore cfg) \<le> 0 then f64_frac 1 2 else pc_MinScore cfg),
         pc_BanSeconds := (if pc_BanSeconds cfg \<le> 0 then 3600 else pc_BanSeconds cfg),
         pc_RequestTimeout := (if pc_RequestTimeout cfg \<le> 0 then 120 * second else pc_RequestTimeout cfg),
         pc_VerifyTTL := (if pc_VerifyTTL cfg \<le> 0 then 7 * 24 * 60 * minute else pc_VerifyTTL cfg),
         pc_SpotMinInterval := (if pc_SpotMinInterval cfg \<le> 0 then 3 * 24 * 60 * minute else pc_SpotMinInterval cfg)\<rparr>,
      au_fails = [], au_evidence = [], au_checked = [], au_cursor = 0\<rparr>"

definition StartAuditor :: "probe_config \<Rightarrow> auditor option" where
  "StartAuditor cfg = (if \<not> pc_Enabled cfg \<or> pc_IntervalSec cfg \<le> 0 then None else Some (newAuditor cfg))"

section \<open>Floors\<close>

definition normalizeModelKey :: "string \<Rightarrow> string" where
  "normalizeModelKey s = filter (\<lambda>c. (CHR ''a'' \<le> c \<and> c \<le> CHR ''z'') \<or> (CHR ''0'' \<le> c \<and> c \<le> CHR ''9'')) (ToLower s)"

definition defaultModelFloors :: "(string \<times> bigfloat) list" where
  "defaultModelFloors =
     [(''Qwen/Qwen2.5-1.5B-Instruct'', f64_frac 37 48), (''Qwen/Qwen2.5-3B-Instruct'', f64_frac 46 48),
      (''qwen3-4b'', f64_frac 46 48), (''qwen3-8b'', f64_frac 46 48), (''qwen3-32b'', f64_frac 46 48),
      (''gpt-oss-20b'', f64_frac 46 48), (''qwen3.8-27b'', f64_frac 46 48)]"

text \<open>The longest key that occurs in the model's name, over one table.\<close>

definition weigh_floor :: "string \<Rightarrow> string \<times> bigfloat \<Rightarrow> (nat \<times> bigfloat) option \<Rightarrow> (nat \<times> bigfloat) option" where
  "weigh_floor model = (\<lambda>(k, f) best.
     let nk = normalizeModelKey k
     in if nk = '''' \<or> \<not> Contains model nk then best
        else case best of
               None \<Rightarrow> Some (length nk, f)
             | Some (bestLen, _) \<Rightarrow> if length nk > bestLen then Some (length nk, f) else best)"

definition floorFor :: "probe_config \<Rightarrow> string \<Rightarrow> bigfloat" where
  "floorFor cfg model =
     (let norm = normalizeModelKey model
      in case fold (weigh_floor norm) (pc_ModelFloors cfg) None of
           Some (_, f) \<Rightarrow> f
         | None \<Rightarrow> (case fold (weigh_floor norm) defaultModelFloors None of
               Some (_, f) \<Rightarrow> f
             | None \<Rightarrow> pc_MinScore cfg))"

section \<open>Runs\<close>

text \<open>
  An answer: the status and, if the body could be read, the contents of the choices; \<open>None\<close> is a
  failed exchange.
\<close>

type_synonym probe_reply = "(int \<times> string list option) option"

definition askModel :: "probeQuestion \<Rightarrow> probe_reply \<Rightarrow> bool option" where
  "askModel q reply =
     (case reply of
        Some (status, Some (content # _)) \<Rightarrow> if status \<noteq> 200 then None else Some (scoreProbeAnswer q content)
      | _ \<Rightarrow> None)"

text \<open>A run: the questions with the worker's replies. The first error ends it without a score.\<close>

type_synonym exam = "(probeQuestion \<times> probe_reply) list"

fun run_exam :: "exam \<Rightarrow> nat \<Rightarrow> nat option" where
  "run_exam [] correct = Some correct"
| "run_exam ((q, reply) # qs) correct =
     (case askModel q reply of None \<Rightarrow> None | Some ok \<Rightarrow> run_exam qs (if ok then correct + 1 else correct))"

definition score :: "nat \<Rightarrow> nat \<Rightarrow> bigfloat" where
  "score correct n = f64_frac (int correct) (int n)"

definition confirmBelowFloor :: "exam \<Rightarrow> bigfloat \<Rightarrow> bool option" where
  "confirmBelowFloor qs bar = map_option (\<lambda>correct. bf_cmp (score correct (length qs)) bar < 0) (run_exam qs 0)"

definition evidenceWindow :: nat where "evidenceWindow = 3"

definition evidence_of :: "auditor \<Rightarrow> string \<Rightarrow> probeRun list" where
  "evidence_of a key = (case alookup (au_evidence a) key of Some runs \<Rightarrow> runs | None \<Rightarrow> [])"

definition last_runs :: "probeRun list \<Rightarrow> probeRun list" where
  "last_runs runs = drop (length runs - evidenceWindow) runs"

definition pooled_score :: "probeRun list \<Rightarrow> bigfloat" where
  "pooled_score runs =
     (let c = sum_list (List.map fst runs); t = sum_list (List.map snd runs)
      in if t = 0 then float64_of_int 0 else score c t)"

definition record_run :: "string \<Rightarrow> nat \<Rightarrow> nat \<Rightarrow> auditor \<Rightarrow> (bigfloat \<times> bool) \<times> auditor" where
  "record_run key correct n a =
     (let runs = last_runs (evidence_of a key @ [(correct, n)])
      in ((pooled_score runs, sum_list (List.map snd runs) \<noteq> 0 \<and> length runs \<ge> evidenceWindow),
          a\<lparr>au_evidence := aput key runs (au_evidence a)\<rparr>))"

definition fails_of :: "auditor \<Rightarrow> string \<Rightarrow> int" where
  "fails_of a key = (case alookup (au_fails a) key of Some n \<Rightarrow> n | None \<Rightarrow> 0)"

definition resetFails :: "string \<Rightarrow> auditor \<Rightarrow> auditor" where
  "resetFails key a = a\<lparr>au_fails := adel key (au_fails a)\<rparr>"

definition bumpFails :: "string \<Rightarrow> auditor \<Rightarrow> int \<times> auditor" where
  "bumpFails key a = (let n = fails_of a key + 1 in (n, a\<lparr>au_fails := aput key n (au_fails a)\<rparr>))"

definition clearEvidence :: "string \<Rightarrow> auditor \<Rightarrow> auditor" where
  "clearEvidence key a = a\<lparr>au_evidence := aput key [] (au_evidence a)\<rparr>"

definition resetAdmission :: "string \<Rightarrow> auditor \<Rightarrow> auditor" where
  "resetAdmission key a = clearEvidence key (resetFails key a)"

definition markChecked :: "gotime \<Rightarrow> string \<Rightarrow> auditor \<Rightarrow> auditor" where
  "markChecked now wid a = a\<lparr>au_checked := aput wid now (au_checked a)\<rparr>"

definition checked_at :: "auditor \<Rightarrow> string \<Rightarrow> gotime" where
  "checked_at a wid = (case alookup (au_checked a) wid of Some t \<Rightarrow> t | None \<Rightarrow> zero_time)"

definition spotDue :: "gotime \<Rightarrow> auditor \<Rightarrow> string \<Rightarrow> bool" where
  "spotDue now a wid \<longleftrightarrow> now - checked_at a wid \<ge> pc_SpotMinInterval (au_cfg a)"

section \<open>Bans\<close>

definition in_service :: "gotime \<Rightarrow> worker \<Rightarrow> bool" where
  "in_service now w \<longleftrightarrow> \<not> IsBanned w now \<and> (wk_state w = StateIdle \<or> wk_state w = StateBusy)"

definition banWouldEmptyFleet :: "gotime \<Rightarrow> string \<Rightarrow> registry \<Rightarrow> bool" where
  "banWouldEmptyFleet now wid r \<longleftrightarrow> \<not> list_ex (\<lambda>w. wk_id w \<noteq> wid \<and> in_service now w) (ListWorkers r)"

definition banOrWarn :: "bool \<Rightarrow> gotime \<Rightarrow> string \<Rightarrow> string \<Rightarrow> gotime \<Rightarrow> registry \<Rightarrow> registry" where
  "banOrWarn disk now wid reason until r =
     (if banWouldEmptyFleet now wid r then r else snd (SetBan disk wid until reason r))"

section \<open>What is examined next\<close>

definition audited :: "gotime \<Rightarrow> worker \<Rightarrow> bool" where
  "audited now w \<longleftrightarrow> wk_self w \<and> in_service now w"

definition unverified_claim :: "worker \<Rightarrow> string option" where
  "unverified_claim w =
     (case List.find (\<lambda>m. \<not> workerVerifiedFor w m) (wk_supported w) of
        Some m \<Rightarrow> Some m
      | None \<Rightarrow> if wk_supported w = [] \<and> wk_loaded w \<noteq> '''' \<and> \<not> workerVerifiedFor w (wk_loaded w)
                then Some (wk_loaded w) else None)"

definition nextUnverified :: "gotime \<Rightarrow> registry \<Rightarrow> (worker \<times> string) option" where
  "nextUnverified now r =
     (case List.find (\<lambda>w. audited now w \<and> unverified_claim w \<noteq> None) (ListWorkers r) of
        Some w \<Rightarrow> Some (w, the (unverified_claim w))
      | None \<Rightarrow> None)"

definition nextExpired :: "gotime \<Rightarrow> probe_config \<Rightarrow> registry \<Rightarrow> (worker \<times> string) option" where
  "nextExpired now cfg r =
     (case List.find (\<lambda>w. audited now w \<and> wk_verified w \<noteq> [] \<and> now - wk_verifiedAt w \<ge> pc_VerifyTTL cfg) (ListWorkers r) of
        Some w \<Rightarrow> Some (w, if wk_loaded w \<noteq> '''' \<and> workerVerifiedFor w (wk_loaded w) then wk_loaded w else hd (wk_verified w))
      | None \<Rightarrow> None)"

definition candidates :: "gotime \<Rightarrow> auditor \<Rightarrow> registry \<Rightarrow> worker list" where
  "candidates now a r = filter (\<lambda>w. audited now w \<and> wk_loaded w \<noteq> '''' \<and> spotDue now a (wk_id w)) (ListWorkers r)"

section \<open>Verdicts\<close>

definition admission_key :: "string \<Rightarrow> string \<Rightarrow> string" where
  "admission_key wid model = wid @ ''|'' @ model"

text \<open>The first, the exam; the second, the confirmation run.\<close>

record probe_runs =
  pr_exam :: exam
  pr_confirm :: exam

definition set_models :: "string list \<Rightarrow> string \<Rightarrow> bool \<Rightarrow> string list" where
  "set_models verified model pass =
     (if pass then (if model \<in> set verified then remdups verified else remdups verified @ [model])
      else remdups (removeAll model verified))"

text \<open>The verified set goes back into the registry, and a full check has been made.\<close>

definition store_verified :: "bool \<Rightarrow> gotime \<Rightarrow> string \<Rightarrow> string list \<Rightarrow> auditor \<times> registry \<Rightarrow> auditor \<times> registry" where
  "store_verified disk now wid models = (\<lambda>(a, r). (markChecked now wid a, snd (SetVerified disk now wid models r)))"

definition ban_until :: "gotime \<Rightarrow> probe_config \<Rightarrow> gotime" where
  "ban_until now cfg = now + Seconds (pc_BanSeconds cfg)"

text \<open>
  A tick takes minutes, and the rest of the gateway runs on: what others do to the auditor's tables and to the registry
  while the exam runs and while the confirmation runs, and the clock at the choice, after the exam and at the end.
\<close>

record audit_env =
  ev_start :: gotime
  ev_exam :: "auditor \<times> registry \<Rightarrow> auditor \<times> registry"
  ev_examined :: gotime
  ev_confirm :: "auditor \<times> registry \<Rightarrow> auditor \<times> registry"
  ev_end :: gotime

definition verifyModel ::
  "bool \<Rightarrow> audit_env \<Rightarrow> probe_runs \<Rightarrow> worker \<Rightarrow> string \<Rightarrow> auditor \<times> registry \<Rightarrow> auditor \<times> registry" where
  "verifyModel disk ev pr w model = (\<lambda>s.
     let key = admission_key (wk_id w) model; (a, r) = ev_exam ev s
     in case run_exam (pr_exam pr) 0 of
          None \<Rightarrow> (a, r)
        | Some correct \<Rightarrow>
            let bar = floorFor (au_cfg a) model;
                ((pooled, full), a) = record_run key correct (length (pr_exam pr)) a;
                pass = (bf_cmp pooled bar \<ge> 0)
            in case Get r (wk_id w) of
                 None \<Rightarrow> (a, r)
               | Some cur \<Rightarrow>
                   if pass then store_verified disk (ev_examined ev) (wk_id w) (set_models (wk_verified cur) model True) (resetFails key a, r)
                   else if \<not> full then (a, r)
                   else let models = set_models (wk_verified cur) model False;
                            (fails, a) = bumpFails key a
                        in if fails < 3 then store_verified disk (ev_examined ev) (wk_id w) models (a, r)
                           else let (a, r) = ev_confirm ev (a, r)
                                in case confirmBelowFloor (pr_confirm pr) bar of
                                     None \<Rightarrow> (a, r)
                                   | Some False \<Rightarrow> (resetAdmission key a, r)
                                   | Some True \<Rightarrow>
                                       store_verified disk (ev_end ev) (wk_id w) models
                                         (resetFails key a, banOrWarn disk (ev_end ev) (wk_id w) ''admission'' (ban_until (ev_end ev) (au_cfg a)) r))"

definition probeWorker ::
  "bool \<Rightarrow> audit_env \<Rightarrow> probe_runs \<Rightarrow> worker \<Rightarrow> auditor \<times> registry \<Rightarrow> auditor \<times> registry" where
  "probeWorker disk ev pr w = (\<lambda>s.
     let (a, r) = ev_exam ev s
     in case run_exam (pr_exam pr) 0 of
       None \<Rightarrow> (a, r)
     | Some correct \<Rightarrow>
         let key = admission_key (wk_id w) (wk_loaded w);
             bar = floorFor (au_cfg a) (wk_loaded w);
             ((pooled, full), a) = record_run key correct (length (pr_exam pr)) (markChecked (ev_examined ev) (wk_id w) a)
         in if \<not> (full \<and> bf_cmp pooled bar < 0) then (a, r)
            else let (a, r) = ev_confirm ev (a, r)
                 in case confirmBelowFloor (pr_confirm pr) bar of
                      None \<Rightarrow> (a, r)
                    | Some False \<Rightarrow> (clearEvidence key a, r)
                    | Some True \<Rightarrow> (a, banOrWarn disk (ev_end ev) (wk_id w) ''probe'' (ban_until (ev_end ev) (au_cfg a)) r))"

text \<open>One tick: admission first, then expired verifications, then a spot check.\<close>

definition audit_tick ::
  "bool \<Rightarrow> audit_env \<Rightarrow> (worker \<Rightarrow> string \<Rightarrow> probe_runs) \<Rightarrow> auditor \<times> registry \<Rightarrow> auditor \<times> registry" where
  "audit_tick disk ev runs = (\<lambda>(a, r).
     let now = ev_start ev;
         due = (if pc_AdmissionGate (au_cfg a)
                then (case nextUnverified now r of Some t \<Rightarrow> Some t | None \<Rightarrow> nextExpired now (au_cfg a) r) else None)
     in case due of
          Some (w, model) \<Rightarrow> verifyModel disk ev (runs w model) w model (a, r)
        | None \<Rightarrow>
            (case candidates now a r of
               [] \<Rightarrow> (a, r)
             | cands \<Rightarrow> let w = cands ! (au_cursor a mod length cands)
                        in probeWorker disk ev (runs w (wk_loaded w)) w (a\<lparr>au_cursor := au_cursor a + 1\<rparr>, r)))"

section \<open>The worker's own view\<close>

record admission_state =
  as_fails :: int
  as_runs :: nat

text \<open>The tables are searched by the prefix of the worker's id.\<close>

definition admissionSnapshot :: "string \<Rightarrow> auditor \<Rightarrow> (string \<times> admission_state) list" where
  "admissionSnapshot wid a =
     (let prefix = wid @ ''|'';
          out = fold (\<lambda>(k, f) out. if HasPrefix k prefix then aput (TrimPrefix k prefix) \<lparr>as_fails = f, as_runs = 0\<rparr> out else out) (au_fails a) []
      in fold (\<lambda>(k, runs) out.
           if HasPrefix k prefix
           then let m = TrimPrefix k prefix;
                    st = (case alookup out m of Some st \<Rightarrow> st | None \<Rightarrow> \<lparr>as_fails = 0, as_runs = 0\<rparr>)
                in aput m (st\<lparr>as_runs := length runs\<rparr>) out
           else out) (au_evidence a) out)"

definition workerFromToken :: "string \<Rightarrow> registry \<Rightarrow> worker option" where
  "workerFromToken auth r =
     (let tok = TrimPrefix auth ''Bearer ''
      in if tok = '''' \<or> tok = auth then None else FindByToken r tok)"

datatype claim_status = Verified | Failing | Pending

record claim_view =
  cv_model :: string
  cv_status :: claim_status
  cv_floor :: bigfloat
  cv_fails :: int
  cv_runs :: nat

definition claims_of :: "worker \<Rightarrow> string list" where
  "claims_of w =
     rev (fold (\<lambda>m seen. if m \<in> set seen then seen else m # seen) (wk_supported w)
            (if wk_loaded w \<noteq> '''' then [wk_loaded w] else []))"

definition claim_row :: "auditor option \<Rightarrow> worker \<Rightarrow> string \<Rightarrow> claim_view" where
  "claim_row au w m =
     (let st = (case au of
                  None \<Rightarrow> \<lparr>as_fails = 0, as_runs = 0\<rparr>
                | Some a \<Rightarrow> (case alookup (admissionSnapshot (wk_id w) a) m of Some st \<Rightarrow> st | None \<Rightarrow> \<lparr>as_fails = 0, as_runs = 0\<rparr>))
      in \<lparr>cv_model = m,
          cv_status = (if m \<in> set (wk_verified w) then Verified else if as_fails st > 0 then Failing else Pending),
          cv_floor = (case au of Some a \<Rightarrow> floorFor (au_cfg a) m | None \<Rightarrow> float64_of_int 0),
          cv_fails = as_fails st, cv_runs = as_runs st\<rparr>)"

text \<open>A status, or the rows with the gate and, while the worker is banned, the end and reason of the ban.\<close>

definition handleWorkerSelf ::
  "bool \<Rightarrow> string \<Rightarrow> gotime \<Rightarrow> auditor option \<Rightarrow> registry \<Rightarrow> int + (string \<times> bool \<times> claim_view list \<times> (gotime \<times> string) option)" where
  "handleWorkerSelf get auth now au r =
     (if \<not> get then Inl 405
      else case workerFromToken auth r of
             None \<Rightarrow> Inl 401
           | Some w \<Rightarrow> Inr (wk_id w, rg_gate r, List.map (claim_row au w) (claims_of w),
               if IsBanned w now then Some (wk_bannedUntil w, wk_banReason w) else None))"

definition reverifyMinInterval :: duration where "reverifyMinInterval = 10 * minute"

text \<open>The model of the request is \<open>None\<close> if the body does not decode; 200 is the answer "scheduled".\<close>

definition handleWorkerReverify ::
  "bool \<Rightarrow> string \<Rightarrow> gotime \<Rightarrow> string option \<Rightarrow> registry \<Rightarrow> (string \<times> gotime) list \<times> auditor option \<Rightarrow> int \<times> (string \<times> gotime) list \<times> auditor option" where
  "handleWorkerReverify post auth now body r = (\<lambda>(times, au).
     if \<not> post then (405, times, au)
     else case workerFromToken auth r of
            None \<Rightarrow> (401, times, au)
          | Some w \<Rightarrow>
              (case body of
                 None \<Rightarrow> (400, times, au)
               | Some m \<Rightarrow>
                   let model = TrimSpace m; key = admission_key (wk_id w) model
                   in if model = '''' then (400, times, au)
                      else if \<not> (wk_loaded w = model \<or> model \<in> set (wk_supported w)) then (404, times, au)
                      else if IsBanned w now then (409, times, au)
                      else case au of
                             None \<Rightarrow> (503, times, au)
                           | Some a \<Rightarrow>
                               if (case alookup times key of Some t \<Rightarrow> now - t < reverifyMinInterval | None \<Rightarrow> False) then (429, times, au)
                               else (200, aput key now times, Some (resetAdmission key a))))"

section \<open>Bans need evidence\<close>

definition ban_of :: "registry \<Rightarrow> string \<Rightarrow> (gotime \<times> string) option" where
  "ban_of r wid = map_option (\<lambda>w. (wk_bannedUntil w, wk_banReason w)) (alookup (rg_workers r) wid)"

lemma ban_of_verified [simp]: "ban_of (snd (SetVerified disk now wid models r)) = ban_of r"
  by (auto simp: ban_of_def SetVerified_def fleet_simps fun_eq_iff split: option.split)

lemma ban_of_banned: "ban_of (snd (SetBan disk wid until reason r)) k = (if k = wid \<and> ban_of r wid \<noteq> None then Some (until, reason) else ban_of r k)"
  by (auto simp: ban_of_def SetBan_def fleet_simps split: option.split)

lemma ban_of_warned:
  "ban_of (banOrWarn disk now wid reason until r) k =
     (if k = wid \<and> ban_of r wid \<noteq> None \<and> \<not> banWouldEmptyFleet now wid r then Some (until, reason) else ban_of r k)"
  by (auto simp: banOrWarn_def ban_of_banned)

lemma store_verified_sel [simp]:
  "ban_of (snd (store_verified disk now wid models s)) = ban_of (snd s)" "fst (store_verified disk now wid models s) = markChecked now wid (fst s)"
  "snd (store_verified disk now wid models s) = snd (SetVerified disk now wid models (snd s))"
  by (cases s; simp add: store_verified_def)+

lemma auditor_frame [simp]:
  "au_cfg (resetFails k a) = au_cfg a" "au_cfg (snd (record_run k c n a)) = au_cfg a" "au_cfg (snd (bumpFails k a)) = au_cfg a"
  "au_cfg (clearEvidence k a) = au_cfg a" "au_cfg (markChecked t i a) = au_cfg a" "au_cfg (resetAdmission k a) = au_cfg a"
  "au_evidence (resetFails k a) = au_evidence a" "au_evidence (markChecked t i a) = au_evidence a" "au_evidence (snd (bumpFails k a)) = au_evidence a"
  by (simp_all add: resetFails_def record_run_def bumpFails_def clearEvidence_def markChecked_def resetAdmission_def Let_def)

lemma evidence_frame [simp]:
  "evidence_of (resetFails k a) key = evidence_of a key" "evidence_of (markChecked t i a) key = evidence_of a key"
  "evidence_of (snd (bumpFails k a)) key = evidence_of a key" "evidence_of (clearEvidence k a) key = (if key = k then [] else evidence_of a key)"
  "evidence_of (resetAdmission k a) key = (if key = k then [] else evidence_of a key)"
  "evidence_of (a\<lparr>au_cursor := n\<rparr>) key = evidence_of a key"
  by (simp_all add: evidence_of_def resetAdmission_def) (simp_all add: clearEvidence_def)

text \<open>
  What convicts a worker: a run that ended, with which its last three runs, pooled, are below the bar of the model, and a
  fresh confirmation run below it as well.
\<close>

definition evidence_against :: "probe_runs \<Rightarrow> string \<Rightarrow> string \<Rightarrow> auditor \<Rightarrow> bool" where
  "evidence_against pr wid model a \<longleftrightarrow>
     (case run_exam (pr_exam pr) 0 of
        None \<Rightarrow> False
      | Some c \<Rightarrow>
          let rs = last_runs (evidence_of a (admission_key wid model) @ [(c, length (pr_exam pr))]); bar = floorFor (au_cfg a) model
          in length rs = evidenceWindow \<and> bf_cmp (pooled_score rs) bar < 0 \<and> confirmBelowFloor (pr_confirm pr) bar = Some True)"

text \<open>The others neither change the ban of the worker nor the auditor's configuration.\<close>

definition others_leave :: "audit_env \<Rightarrow> string \<Rightarrow> bool" where
  "others_leave ev k \<longleftrightarrow>
     (\<forall>s. au_cfg (fst (ev_exam ev s)) = au_cfg (fst s) \<and> ban_of (snd (ev_exam ev s)) k = ban_of (snd s) k \<and>
          au_cfg (fst (ev_confirm ev s)) = au_cfg (fst s) \<and> ban_of (snd (ev_confirm ev s)) k = ban_of (snd s) k)"

lemma others_leaveD:
  assumes "others_leave ev k"
  shows "ev_exam ev (a, r) = (a1, r1) \<Longrightarrow> au_cfg a1 = au_cfg a \<and> ban_of r1 k = ban_of r k"
    and "ev_confirm ev (a, r) = (a1, r1) \<Longrightarrow> au_cfg a1 = au_cfg a \<and> ban_of r1 k = ban_of r k"
  using assms unfolding others_leave_def by (metis fst_conv snd_conv)+

lemma last_runs_length: "length (last_runs rs) = min (length rs) evidenceWindow"
  by (auto simp: last_runs_def)

lemma record_run_eq:
  "record_run key c n a =
     ((pooled_score (last_runs (evidence_of a key @ [(c, n)])),
       sum_list (List.map snd (last_runs (evidence_of a key @ [(c, n)]))) \<noteq> 0 \<and> length (last_runs (evidence_of a key @ [(c, n)])) \<ge> evidenceWindow),
      a\<lparr>au_evidence := aput key (last_runs (evidence_of a key @ [(c, n)])) (au_evidence a)\<rparr>)"
  by (simp add: record_run_def Let_def)

lemma verify_bans:
  assumes "verifyModel disk ev pr w model (a0, r0) = (a', r')" "others_leave ev k" "ban_of r' k \<noteq> ban_of r0 k"
  shows "\<exists>a r a2 a3 r3 reason. ev_exam ev (a0, r0) = (a, r) \<and> ev_confirm ev (a2, r) = (a3, r3) \<and> k = wk_id w \<and>
    evidence_against pr k model a \<and> \<not> banWouldEmptyFleet (ev_end ev) k r3 \<and> ban_of r' k = Some (ban_until (ev_end ev) (au_cfg a0), reason)"
proof -
  obtain a r where ex: "ev_exam ev (a0, r0) = (a, r)" by fastforce
  note ex' = others_leaveD(1) [OF assms(2) ex]
  then have diff: "ban_of r' k \<noteq> ban_of r k" using assms(3) by simp
  obtain c where c: "run_exam (pr_exam pr) 0 = Some c"
    using assms(1) diff ex by (cases "run_exam (pr_exam pr) 0") (auto simp: verifyModel_def Let_def)
  let ?key = "admission_key (wk_id w) model"
  let ?rs = "last_runs (evidence_of a ?key @ [(c, length (pr_exam pr))])"
  let ?bar = "floorFor (au_cfg a) model"
  define a1 where "a1 = a\<lparr>au_evidence := aput ?key ?rs (au_evidence a)\<rparr>"
  define full where "full = (sum_list (List.map snd ?rs) \<noteq> 0 \<and> length ?rs \<ge> evidenceWindow)"
  have cfg: "au_cfg a1 = au_cfg a" by (simp add: a1_def)
  note v = assms(1) [unfolded verifyModel_def Let_def ex prod.case c option.case record_run_eq, folded a1_def full_def]
  obtain cur where get: "Get r (wk_id w) = Some cur" using v diff by (cases "Get r (wk_id w)") auto
  note v = v [unfolded get option.case]
  have below: "\<not> bf_cmp (pooled_score ?rs) ?bar \<ge> 0"
  proof
    assume "bf_cmp (pooled_score ?rs) ?bar \<ge> 0"
    then have "r' = snd (store_verified disk (ev_examined ev) (wk_id w) (set_models (wk_verified cur) model True) (resetFails ?key a1, r))"
      using v by simp
    then have "ban_of r' = ban_of r" by (simp del: store_verified_sel(3))
    then show False using diff by simp
  qed
  have full using v below diff by (cases full) auto
  obtain n a2 where b: "bumpFails ?key a1 = (n, a2)" by (cases "bumpFails ?key a1")
  have a2: "au_cfg a2 = au_cfg a" using auditor_frame(3) [of ?key a1] by (simp add: b cfg)
  note v = v [unfolded b prod.case]
  have many: "\<not> n < 3"
  proof
    assume "n < 3"
    then have "ban_of r' = ban_of r" using v below \<open>full\<close>
      by (simp add: store_verified_def) (metis ban_of_verified snd_conv)
    then show False using diff by simp
  qed
  obtain a3 r3 where co: "ev_confirm ev (a2, r) = (a3, r3)" by fastforce
  note co' = others_leaveD(2) [OF assms(2) co]
  then have diff3: "ban_of r' k \<noteq> ban_of r3 k" using diff by simp
  note v = v [unfolded co prod.case]
  obtain still where conf: "confirmBelowFloor (pr_confirm pr) ?bar = Some still"
    using v below many diff3 \<open>full\<close> by (cases "confirmBelowFloor (pr_confirm pr) ?bar") auto
  have True: still using v below many conf diff3 \<open>full\<close> by (cases still) auto
  let ?r2 = "banOrWarn disk (ev_end ev) (wk_id w) ''admission'' (ban_until (ev_end ev) (au_cfg a3)) r3"
  have "r' = snd (SetVerified disk (ev_end ev) (wk_id w) (set_models (wk_verified cur) model False) ?r2)"
    using v below many conf True \<open>full\<close> by (simp add: store_verified_def)
  then have "ban_of r' = ban_of ?r2" by simp
  then have k: "k = wk_id w" "\<not> banWouldEmptyFleet (ev_end ev) (wk_id w) r3" "ban_of r' k = Some (ban_until (ev_end ev) (au_cfg a0), ''admission'')"
    using diff3 a2 co' ex' by (auto simp: ban_of_warned split: if_splits) metis+
  have "length ?rs = evidenceWindow" using \<open>full\<close> by (simp add: full_def last_runs_length)
  moreover have "bf_cmp (pooled_score ?rs) ?bar < 0" using below by simp
  ultimately have "evidence_against pr (wk_id w) model a"
    using c conf True by (auto simp: evidence_against_def Let_def)
  then show ?thesis using k ex co by blast
qed

lemma probe_bans:
  assumes "probeWorker disk ev pr w (a0, r0) = (a', r')" "others_leave ev k" "ban_of r' k \<noteq> ban_of r0 k"
  shows "\<exists>a r a2 a3 r3 reason. ev_exam ev (a0, r0) = (a, r) \<and> ev_confirm ev (a2, r) = (a3, r3) \<and> k = wk_id w \<and>
    evidence_against pr k (wk_loaded w) a \<and> \<not> banWouldEmptyFleet (ev_end ev) k r3 \<and> ban_of r' k = Some (ban_until (ev_end ev) (au_cfg a0), reason)"
proof -
  obtain a r where ex: "ev_exam ev (a0, r0) = (a, r)" by fastforce
  note ex' = others_leaveD(1) [OF assms(2) ex]
  then have diff: "ban_of r' k \<noteq> ban_of r k" using assms(3) by simp
  obtain c where c: "run_exam (pr_exam pr) 0 = Some c"
    using assms(1) diff ex by (cases "run_exam (pr_exam pr) 0") (auto simp: probeWorker_def Let_def)
  let ?key = "admission_key (wk_id w) (wk_loaded w)"
  let ?rs = "last_runs (evidence_of a ?key @ [(c, length (pr_exam pr))])"
  let ?bar = "floorFor (au_cfg a) (wk_loaded w)"
  define full where "full = (sum_list (List.map snd ?rs) \<noteq> 0 \<and> length ?rs \<ge> evidenceWindow)"
  define a2 where "a2 = (markChecked (ev_examined ev) (wk_id w) a)\<lparr>au_evidence := aput ?key ?rs (au_evidence (markChecked (ev_examined ev) (wk_id w) a))\<rparr>"
  have a2: "au_cfg a2 = au_cfg a" by (simp add: a2_def)
  note v = assms(1) [unfolded probeWorker_def Let_def ex prod.case c option.case record_run_eq evidence_frame(2), folded full_def, folded a2_def]
  have below: "full \<and> bf_cmp (pooled_score ?rs) ?bar < 0" using v diff by (cases "full \<and> bf_cmp (pooled_score ?rs) ?bar < 0") auto
  obtain a3 r3 where co: "ev_confirm ev (a2, r) = (a3, r3)" by fastforce
  note co' = others_leaveD(2) [OF assms(2) co]
  then have diff3: "ban_of r' k \<noteq> ban_of r3 k" using diff by simp
  note v = v [unfolded co prod.case]
  obtain still where conf: "confirmBelowFloor (pr_confirm pr) ?bar = Some still"
    using v below diff3 by (cases "confirmBelowFloor (pr_confirm pr) ?bar") auto
  have True: still using v below conf diff3 by (cases still) auto
  have "r' = banOrWarn disk (ev_end ev) (wk_id w) ''probe'' (ban_until (ev_end ev) (au_cfg a3)) r3"
    using v below conf True by auto
  then have k: "k = wk_id w" "\<not> banWouldEmptyFleet (ev_end ev) (wk_id w) r3" "ban_of r' k = Some (ban_until (ev_end ev) (au_cfg a0), ''probe'')"
    using diff3 a2 co' ex' by (auto simp: ban_of_warned split: if_splits) metis+
  have "length ?rs = evidenceWindow" using below by (simp add: full_def last_runs_length)
  then have "evidence_against pr (wk_id w) (wk_loaded w) a"
    using c below conf True by (simp add: evidence_against_def Let_def)
  then show ?thesis using k ex co by blast
qed

lemma nextUnverified_Some:
  assumes "nextUnverified now r = Some (w, m)"
  shows "w \<in> set (ListWorkers r) \<and> audited now w \<and> unverified_claim w = Some m"
  using assms by (auto simp: nextUnverified_def find_Some_iff split: option.splits)

lemma nextExpired_Some:
  assumes "nextExpired now cfg r = Some (w, m)"
  shows "w \<in> set (ListWorkers r) \<and> audited now w \<and> m \<in> {wk_loaded w, hd (wk_verified w)} \<and> wk_verified w \<noteq> []"
  using assms by (auto simp: nextExpired_def find_Some_iff split: option.splits if_splits)

text \<open>What a tick does: nothing, one verification, or one spot check, always of an audited worker.\<close>

lemma tick_cases:
  obtains (idle) "audit_tick disk ev runs (a, r) = (a, r)"
  | (verify) w m where "w \<in> set (ListWorkers r)" "audited (ev_start ev) w"
      "audit_tick disk ev runs (a, r) = verifyModel disk ev (runs w m) w m (a, r)"
  | (spot) w where "w \<in> set (ListWorkers r)" "audited (ev_start ev) w"
      "audit_tick disk ev runs (a, r) = probeWorker disk ev (runs w (wk_loaded w)) w (a\<lparr>au_cursor := au_cursor a + 1\<rparr>, r)"
proof (cases "if pc_AdmissionGate (au_cfg a)
                then (case nextUnverified (ev_start ev) r of Some t \<Rightarrow> Some t | None \<Rightarrow> nextExpired (ev_start ev) (au_cfg a) r) else None")
  case None
  show ?thesis
  proof (cases "candidates (ev_start ev) a r")
    case Nil
    then show ?thesis using None idle by (simp add: audit_tick_def Let_def)
  next
    case (Cons c cs)
    let ?w = "(c # cs) ! (au_cursor a mod length (c # cs))"
    have "?w \<in> set (candidates (ev_start ev) a r)" unfolding Cons by (rule nth_mem) simp
    then have "?w \<in> set (ListWorkers r)" "audited (ev_start ev) ?w" by (auto simp: candidates_def)
    then show ?thesis using spot [of ?w] None Cons by (simp add: audit_tick_def Let_def)
  qed
next
  case (Some t)
  obtain w m where t: "t = (w, m)" by (cases t)
  have "w \<in> set (ListWorkers r) \<and> audited (ev_start ev) w"
    using Some nextUnverified_Some [of "ev_start ev" r w m] nextExpired_Some [of "ev_start ev" "au_cfg a" r w m] by (auto simp: t split: if_splits option.splits)
  then show ?thesis using verify [of w m] Some by (simp add: audit_tick_def t Let_def)
qed

text \<open>
  C29: A ban needs evidence. Whoever gets banned in a tick of the auditor, while the other parts of the gateway, which run on during the exam and the
  confirmation, leave this ban and the auditor's configuration alone, registered itself and was in service when the tick began; its last three runs of the model examined, as recorded
  after the exam and pooled, are below the model's bar, a fresh confirmation run is below it too, somebody else is in
  service after that run, and the ban ends after the configured time from then on.
\<close>

theorem ban_needs_evidence:
  assumes "audit_tick disk ev runs (a, r) = (a', r')" "others_leave ev k" "ban_of r' k \<noteq> ban_of r k"
  shows "\<exists>w model a0 a1 r1 a2 a3 r3 reason. w \<in> set (ListWorkers r) \<and> wk_id w = k \<and> wk_self w \<and> wk_state w \<in> {StateIdle, StateBusy} \<and>
    \<not> IsBanned w (ev_start ev) \<and>
    ev_exam ev (a0, r) = (a1, r1) \<and> au_evidence a0 = au_evidence a \<and> evidence_against (runs w model) k model a1 \<and>
    ev_confirm ev (a2, r1) = (a3, r3) \<and>
    (\<exists>v\<in>set (ListWorkers r3). wk_id v \<noteq> k \<and> wk_state v \<in> {StateIdle, StateBusy} \<and> \<not> IsBanned v (ev_end ev)) \<and>
    ban_of r' k = Some (ev_end ev + Seconds (pc_BanSeconds (au_cfg a)), reason)"
proof -
  have other: "\<exists>v\<in>set (ListWorkers r3). wk_id v \<noteq> k \<and> wk_state v \<in> {StateIdle, StateBusy} \<and> \<not> IsBanned v (ev_end ev)"
    if "\<not> banWouldEmptyFleet (ev_end ev) k r3" for r3
    using that by (auto simp: banWouldEmptyFleet_def list_ex_iff in_service_def)
  show ?thesis
  proof (cases rule: tick_cases [of disk ev runs a r])
    case idle
    then show ?thesis using assms by simp
  next
    case (verify w m)
    have "verifyModel disk ev (runs w m) w m (a, r) = (a', r')" using verify(3) assms(1) by simp
    from verify_bans [OF this assms(2,3)] obtain a1 r1 a2 a3 r3 reason where
      "ev_exam ev (a, r) = (a1, r1)" "ev_confirm ev (a2, r1) = (a3, r3)" "k = wk_id w" "evidence_against (runs w m) k m a1"
      "\<not> banWouldEmptyFleet (ev_end ev) k r3" "ban_of r' k = Some (ban_until (ev_end ev) (au_cfg a), reason)" by blast
    then show ?thesis using verify(1,2) other [of r3]
      by (intro exI [of _ w] exI [of _ m] exI [of _ a] exI [of _ a1] exI [of _ r1] exI [of _ a2] exI [of _ a3] exI [of _ r3] exI [of _ reason])
         (simp add: audited_def in_service_def ban_until_def)
  next
    case (spot w)
    let ?a = "a\<lparr>au_cursor := au_cursor a + 1\<rparr>"
    have "probeWorker disk ev (runs w (wk_loaded w)) w (?a, r) = (a', r')" using spot(3) assms(1) by simp
    from probe_bans [OF this assms(2,3)] obtain a1 r1 a2 a3 r3 reason where
      "ev_exam ev (?a, r) = (a1, r1)" "ev_confirm ev (a2, r1) = (a3, r3)" "k = wk_id w" "evidence_against (runs w (wk_loaded w)) k (wk_loaded w) a1"
      "\<not> banWouldEmptyFleet (ev_end ev) k r3" "ban_of r' k = Some (ban_until (ev_end ev) (au_cfg ?a), reason)" by blast
    then show ?thesis using spot(1,2) other [of r3]
      by (intro exI [of _ w] exI [of _ "wk_loaded w"] exI [of _ ?a] exI [of _ a1] exI [of _ r1] exI [of _ a2] exI [of _ a3] exI [of _ r3] exI [of _ reason])
         (simp add: audited_def in_service_def ban_until_def)
  qed
qed

section \<open>The fleet keeps serving\<close>

definition serving :: "gotime \<Rightarrow> registry \<Rightarrow> bool" where
  "serving now r \<longleftrightarrow> registry_ok r \<and> list_ex (in_service now) (ListWorkers r)"

lemma serving_iff:
  "serving now r \<longleftrightarrow> registry_ok r \<and> (\<exists>k w. alookup (rg_workers r) k = Some w \<and> in_service now w)"
proof -
  have e: "in_service now (snapshot r w) = in_service now w" for w by (simp add: in_service_def snapshot_def IsBanned_def)
  have "list_ex (in_service now) (ListWorkers r) \<longleftrightarrow> (\<exists>p\<in>set (rg_workers r). in_service now (snd p))"
    by (auto simp: ListWorkers_def list_ex_iff e)
  moreover have "(\<exists>p\<in>set (rg_workers r). in_service now (snd p)) \<longleftrightarrow> (\<exists>k w. alookup (rg_workers r) k = Some w \<and> in_service now w)"
    if "registry_ok r"
  proof -
    have "distinct (akeys (rg_workers r))" using that by (simp add: registry_ok_def workers_ok_def)
    then show ?thesis by (metis alookup_in_set in_set_alookup prod.collapse snd_conv)
  qed
  ultimately show ?thesis by (auto simp: serving_def)
qed

lemma serving_verified: "serving now r \<Longrightarrow> serving now (snd (SetVerified disk t wid models r))"
proof -
  assume s: "serving now r"
  then have "registry_ok (snd (SetVerified disk t wid models r))" using registry_ok_step [OF fleet_step.verified] by (simp add: serving_def)
  moreover have "\<exists>k w. alookup (rg_workers (snd (SetVerified disk t wid models r))) k = Some w \<and> in_service now w"
  proof -
    obtain k w where k: "alookup (rg_workers r) k = Some w" "in_service now w" using s serving_iff by blast
    show ?thesis
    proof (cases "alookup (rg_workers r) wid")
      case None
      then show ?thesis using k by (auto simp: SetVerified_def)
    next
      case (Some v)
      show ?thesis
      proof (cases "k = wid")
        case True
        then have "in_service now (v\<lparr>wk_verified := models, wk_verifiedAt := t\<rparr>)" using k Some by (simp add: in_service_def IsBanned_def)
        then show ?thesis using Some by (auto simp: SetVerified_def fleet_simps)
      next
        case False
        then show ?thesis using k Some by (auto simp: SetVerified_def fleet_simps intro!: exI [of _ k])
      qed
    qed
  qed
  ultimately show ?thesis using serving_iff by blast
qed

lemma serving_warned: "serving now r \<Longrightarrow> serving now (banOrWarn disk now wid reason until r)"
proof -
  assume s: "serving now r"
  show ?thesis
  proof (cases "banWouldEmptyFleet now wid r")
    case False
    then obtain v where v: "v \<in> set (ListWorkers r)" "wk_id v \<noteq> wid" "in_service now v" by (auto simp: banWouldEmptyFleet_def list_ex_iff)
    then obtain k w where p: "(k, w) \<in> set (rg_workers r)" "v = snapshot r w" by (auto simp: ListWorkers_def)
    have ok: "workers_ok (rg_workers r)" using s by (simp add: serving_def registry_ok_def)
    then have w: "alookup (rg_workers r) k = Some w" using p(1) in_set_alookup by (auto simp: workers_ok_def)
    then have "wk_id w = k" using ok by (simp add: workers_ok_def)
    then have kw: "k \<noteq> wid" using v(2) p(2) by (simp add: snapshot_def)
    have "in_service now w" using v(3) p(2) by (simp add: in_service_def snapshot_def IsBanned_def)
    then have "\<exists>k w. alookup (rg_workers (snd (SetBan disk wid until reason r))) k = Some w \<and> in_service now w"
      using w kw by (auto simp: SetBan_def fleet_simps split: option.split intro!: exI [of _ k])
    moreover have "registry_ok (snd (SetBan disk wid until reason r))"
      using s registry_ok_step [OF fleet_step.ban] by (simp add: serving_def)
    ultimately show ?thesis using False serving_iff by (simp add: banOrWarn_def)
  qed (simp add: banOrWarn_def s)
qed

lemma serving_store: "serving now (snd s) \<Longrightarrow> serving now (snd (store_verified disk t wid models s))"
  by (simp add: serving_verified)

lemma serving_later: "serving now r \<Longrightarrow> now \<le> t \<Longrightarrow> serving t r"
  unfolding serving_def list_ex_iff in_service_def IsBanned_def by (meson le_less_trans linorder_not_less)

text \<open>Whenever somebody is in service, somebody still is after what the others do.\<close>

definition others_serve :: "audit_env \<Rightarrow> bool" where
  "others_serve ev \<longleftrightarrow> ev_start ev \<le> ev_end ev \<and>
     (\<forall>s. serving (ev_end ev) (snd s) \<longrightarrow> serving (ev_end ev) (snd (ev_exam ev s)) \<and> serving (ev_end ev) (snd (ev_confirm ev s)))"

lemma serving_verify:
  assumes "serving (ev_end ev) r" "others_serve ev"
  shows "serving (ev_end ev) (snd (verifyModel disk ev pr w model (a, r)))"
proof -
  have "serving (ev_end ev) (snd (ev_exam ev (a, r)))" "\<And>s. serving (ev_end ev) (snd s) \<Longrightarrow> serving (ev_end ev) (snd (ev_confirm ev s))"
    using assms by (auto simp: others_serve_def)
  then show ?thesis
    unfolding verifyModel_def Let_def by (auto simp: case_prod_beta serving_verified serving_warned split: option.splits bool.splits)
qed

lemma serving_probe:
  assumes "serving (ev_end ev) r" "others_serve ev"
  shows "serving (ev_end ev) (snd (probeWorker disk ev pr w (a, r)))"
proof -
  have "serving (ev_end ev) (snd (ev_exam ev (a, r)))" "\<And>s. serving (ev_end ev) (snd s) \<Longrightarrow> serving (ev_end ev) (snd (ev_confirm ev s))"
    using assms by (auto simp: others_serve_def)
  then show ?thesis
    unfolding probeWorker_def Let_def by (auto simp: case_prod_beta serving_warned split: option.splits bool.splits)
qed

text \<open>
  Bans never switch the service off. If some worker is in service before a tick, some worker is after
  it, whatever the answers, and whatever else happens during the runs that itself leaves one.
\<close>

theorem bans_leave_a_worker:
  assumes "serving (ev_start ev) r" "others_serve ev"
  shows "serving (ev_end ev) (snd (audit_tick disk ev runs (a, r)))"
proof -
  have s: "serving (ev_end ev) r" using serving_later [OF assms(1)] assms(2) by (simp add: others_serve_def)
  show ?thesis
    by (cases rule: tick_cases [of disk ev runs a r]) (simp_all add: s serving_verify [OF s assms(2)] serving_probe [OF s assms(2)])
qed

section \<open>Restarted verifications\<close>

definition proves :: "registry \<Rightarrow> string \<Rightarrow> string \<Rightarrow> bool" where
  "proves r wid m = (case alookup (rg_workers r) wid of Some w \<Rightarrow> m \<in> set (wk_verified w) | None \<Rightarrow> False)"

lemma proves_stored:
  "proves (snd (SetVerified disk now wid models r)) k m \<longleftrightarrow> (if k = wid \<and> alookup (rg_workers r) wid \<noteq> None then m \<in> set models else proves r k m)"
  by (auto simp: proves_def SetVerified_def fleet_simps split: option.split)

text \<open>An exam of either kind.\<close>

definition examine ::
  "bool \<Rightarrow> bool \<Rightarrow> audit_env \<Rightarrow> probe_runs \<Rightarrow> worker \<Rightarrow> string \<Rightarrow> auditor \<times> registry \<Rightarrow> auditor \<times> registry" where
  "examine admission disk ev pr w model =
     (if admission then verifyModel disk ev pr w model else probeWorker disk ev pr (w\<lparr>wk_loaded := model\<rparr>))"

lemma evidence_recorded: "evidence_of (snd (record_run key c n a)) key = last_runs (evidence_of a key @ [(c, n)])"
  by (simp add: record_run_eq evidence_of_def)

lemma young_window:
  assumes "length (evidence_of a key) < 2"
  shows "snd (fst (record_run key c n a)) = False" "length (evidence_of (snd (record_run key c n a)) key) = length (evidence_of a key) + 1"
  using assms by (simp_all add: evidence_recorded) (simp_all add: record_run_eq last_runs_length evidenceWindow_def)

lemma Get_lookup: "Get r wid = Some cur \<Longrightarrow> \<exists>w. alookup (rg_workers r) wid = Some w \<and> wk_verified cur = wk_verified w"
  by (auto simp: Get_def snapshot_def split: option.splits)

lemma verify_young:
  assumes "length (evidence_of a (admission_key (wk_id w) model)) < 2" "verifyModel disk ev pr w model (a, r) = (a', r')" "ev_exam ev = id"
  shows "ban_of r' = ban_of r \<and> (proves r k m \<longrightarrow> proves r' k m) \<and>
    length (evidence_of a' (admission_key (wk_id w) model)) \<le> length (evidence_of a (admission_key (wk_id w) model)) + 1"
proof (cases "run_exam (pr_exam pr) 0")
  case None
  then show ?thesis using assms by (simp add: verifyModel_def Let_def)
next
  case (Some c)
  let ?key = "admission_key (wk_id w) model"
  obtain p f a1 where rec: "record_run ?key c (length (pr_exam pr)) a = ((p, f), a1)" by (cases "record_run ?key c (length (pr_exam pr)) a") auto
  have y: "\<not> f" "length (evidence_of a1 ?key) = length (evidence_of a ?key) + 1"
    using young_window [OF assms(1), of c "length (pr_exam pr)"] by (simp_all add: rec)
  show ?thesis
  proof (cases "Get r (wk_id w)")
    case None
    then show ?thesis using assms(2,3) Some rec y by (auto simp: verifyModel_def Let_def)
  next
    case get: (Some cur)
    obtain v where v: "alookup (rg_workers r) (wk_id w) = Some v" "wk_verified cur = wk_verified v" using Get_lookup [OF get] by blast
    show ?thesis
    proof (cases "bf_cmp p (floorFor (au_cfg a) model) \<ge> 0")
      case False
      then show ?thesis using assms(2,3) Some rec y get by (simp add: verifyModel_def Let_def)
    next
      case True
      then have r: "store_verified disk (ev_examined ev) (wk_id w) (set_models (wk_verified cur) model True) (resetFails ?key a1, r) = (a', r')"
        using assms(2,3) Some rec get by (simp add: verifyModel_def Let_def)
      then have "r' = snd (SetVerified disk (ev_examined ev) (wk_id w) (set_models (wk_verified cur) model True) r)" "a' = markChecked (ev_examined ev) (wk_id w) (resetFails ?key a1)"
        by (simp_all add: store_verified_def)
      then show ?thesis using y v by (auto simp: proves_stored set_models_def proves_def [of r])
    qed
  qed
qed

lemma probe_young:
  assumes "length (evidence_of a (admission_key (wk_id w) (wk_loaded w))) < 2" "probeWorker disk ev pr w (a, r) = (a', r')" "ev_exam ev = id"
  shows "r' = r \<and> length (evidence_of a' (admission_key (wk_id w) (wk_loaded w))) \<le> length (evidence_of a (admission_key (wk_id w) (wk_loaded w))) + 1"
proof (cases "run_exam (pr_exam pr) 0")
  case None
  then show ?thesis using assms by (simp add: probeWorker_def Let_def)
next
  case (Some c)
  let ?key = "admission_key (wk_id w) (wk_loaded w)"
  obtain p f a1 where rec: "record_run ?key c (length (pr_exam pr)) (markChecked (ev_examined ev) (wk_id w) a) = ((p, f), a1)"
    by (cases "record_run ?key c (length (pr_exam pr)) (markChecked (ev_examined ev) (wk_id w) a)") auto
  have "\<not> f" "length (evidence_of a1 ?key) = length (evidence_of a ?key) + 1"
    using young_window [of "markChecked (ev_examined ev) (wk_id w) a" ?key c "length (pr_exam pr)"] assms(1) by (simp_all add: rec)
  then show ?thesis using assms(2,3) Some rec by (simp add: probeWorker_def Let_def)
qed

lemma exam_young:
  assumes "length (evidence_of a (admission_key (wk_id w) model)) < 2" "examine adm disk ev pr w model (a, r) = (a', r')" "ev_exam ev = id"
  shows "ban_of r' = ban_of r \<and> (proves r k m \<longrightarrow> proves r' k m) \<and>
    length (evidence_of a' (admission_key (wk_id w) model)) \<le> length (evidence_of a (admission_key (wk_id w) model)) + 1"
  using verify_young [of a w model disk ev pr r a' r' k m] probe_young [of a "w\<lparr>wk_loaded := model\<rparr>" disk ev pr r a' r'] assms
  by (auto simp: examine_def split: if_splits)

text \<open>
  A worker that restarts its verification is not convicted: the two exams after an accepted request, with nothing else going on, ban nobody
  and take no proven model away, however wrong the answers, and ten minutes after the request no request for the
  model is refused as too early.
\<close>

theorem restart_prevents_conviction:
  assumes "handleWorkerReverify post auth t body r0 (asked, Some a) = (200, asked', Some a')"
  shows "\<exists>w model. workerFromToken auth r0 = Some w \<and> map_option TrimSpace body = Some model \<and>
    (\<forall>adm1 adm2 disk ev1 ev2 pr1 pr2 w1 w2 r k m. wk_id w1 = wk_id w \<and> wk_id w2 = wk_id w \<and> ev_exam ev1 = id \<and> ev_exam ev2 = id \<longrightarrow>
      (let r2 = snd (examine adm2 disk ev2 pr2 w2 model (examine adm1 disk ev1 pr1 w1 model (a', r)))
       in ban_of r2 = ban_of r \<and> (proves r k m \<longrightarrow> proves r2 k m))) \<and>
    (\<forall>now r a2. now - t \<ge> reverifyMinInterval \<and> map_option wk_id (workerFromToken auth r) = Some (wk_id w) \<longrightarrow>
      fst (handleWorkerReverify post auth now body r (asked', Some a2)) \<noteq> 429)"
proof -
  obtain w b where w: "workerFromToken auth r0 = Some w" "body = Some b" and a': "a' = resetAdmission (admission_key (wk_id w) (TrimSpace b)) a"
    and asked': "asked' = aput (admission_key (wk_id w) (TrimSpace b)) t asked"
    using assms by (auto simp: handleWorkerReverify_def Let_def split: if_splits option.splits)
  let ?m = "TrimSpace b"
  have ev: "evidence_of a' (admission_key (wk_id w) ?m) = []" by (simp add: a')
  have two: "let r2 = snd (examine adm2 disk ev2 pr2 w2 ?m (examine adm1 disk ev1 pr1 w1 ?m (a', r)))
       in ban_of r2 = ban_of r \<and> (proves r k m \<longrightarrow> proves r2 k m)" if "wk_id w1 = wk_id w \<and> wk_id w2 = wk_id w \<and> ev_exam ev1 = id \<and> ev_exam ev2 = id"
      for adm1 adm2 disk ev1 ev2 pr1 pr2 w1 w2 r k m
  proof -
    obtain a1 r1 where e1: "examine adm1 disk ev1 pr1 w1 ?m (a', r) = (a1, r1)" by (cases "examine adm1 disk ev1 pr1 w1 ?m (a', r)")
    obtain a2 r2 where e2: "examine adm2 disk ev2 pr2 w2 ?m (a1, r1) = (a2, r2)" by (cases "examine adm2 disk ev2 pr2 w2 ?m (a1, r1)")
    have 1: "ban_of r1 = ban_of r \<and> (proves r k m \<longrightarrow> proves r1 k m) \<and> length (evidence_of a1 (admission_key (wk_id w1) ?m)) \<le> 1"
      using exam_young [OF _ e1, of k m] that ev by simp
    have "ban_of r2 = ban_of r1 \<and> (proves r1 k m \<longrightarrow> proves r2 k m)" using exam_young [OF _ e2, of k m] 1 that by simp
    then show ?thesis using 1 by (simp add: e1 e2)
  qed
  have "fst (handleWorkerReverify post auth now body r (asked', Some a2)) \<noteq> 429"
    if "now - t \<ge> reverifyMinInterval \<and> map_option wk_id (workerFromToken auth r) = Some (wk_id w)" for now r a2
    using that by (auto simp: handleWorkerReverify_def Let_def w asked' not_less split: if_splits)
  then show ?thesis using w two by (intro exI [of _ w] exI [of _ ?m]) (simp add: Let_def)
qed

section \<open>Admission comes first\<close>

lemma audited_later: "audited now w \<Longrightarrow> now \<le> t \<Longrightarrow> audited t w"
  by (auto simp: audited_def in_service_def IsBanned_def)

lemma nextUnverified_exists:
  assumes "w \<in> set (ListWorkers r)" "audited now w" "unverified_claim w \<noteq> None"
  shows "\<exists>v m. nextUnverified now r = Some (v, m) \<and> unverified_claim v = Some m"
proof -
  have "List.find (\<lambda>w. audited now w \<and> unverified_claim w \<noteq> None) (ListWorkers r) \<noteq> None"
    using assms by (auto simp: find_None_iff)
  then obtain v where "List.find (\<lambda>w. audited now w \<and> unverified_claim w \<noteq> None) (ListWorkers r) = Some v" by blast
  moreover from this have "unverified_claim v \<noteq> None" by (auto simp: find_Some_iff)
  ultimately show ?thesis by (auto simp: nextUnverified_def)
qed

text \<open>
  Admission can starve every other check. With the gate on, while some worker in service has an unproven claim
  and the exams of unproven claims abort (a failed exchange or an error status is never counted), no tick changes
  anything by itself: nobody is verified again, nobody is checked on the spot, nobody is banned.
\<close>

theorem admission_starves_checks:
  assumes "pc_AdmissionGate (au_cfg a)" "w \<in> set (ListWorkers r)" "audited now w" "unverified_claim w \<noteq> None"
    "\<forall>(ev, runs)\<in>set ticks. now \<le> ev_start ev \<and> ev_exam ev = id \<and>
      (\<forall>v m. unverified_claim v = Some m \<longrightarrow> run_exam (pr_exam (runs v m)) 0 = None)"
  shows "fold (\<lambda>(ev, runs). audit_tick disk ev runs) ticks (a, r) = (a, r)"
  using assms(5)
proof (induction ticks)
  case (Cons p ticks)
  obtain ev runs where p: "p = (ev, runs)" by (cases p)
  have t: "now \<le> ev_start ev" "ev_exam ev = id" and ab: "\<And>v m. unverified_claim v = Some m \<Longrightarrow> run_exam (pr_exam (runs v m)) 0 = None"
    using Cons.prems by (auto simp: p)
  obtain v m where "nextUnverified (ev_start ev) r = Some (v, m)" "unverified_claim v = Some m"
    using nextUnverified_exists [OF assms(2) audited_later [OF assms(3) t(1)] assms(4)] by blast
  then have "audit_tick disk ev runs (a, r) = (a, r)" using ab assms(1) t(2) by (simp add: audit_tick_def verifyModel_def Let_def)
  then show ?case using Cons by (simp add: p)
qed simp

section \<open>Examples\<close>

definition sample_probe :: "bool \<Rightarrow> probe_config" where
  "sample_probe gate =
     \<lparr>pc_Enabled = True, pc_IntervalSec = 600, pc_NumQuestions = 1, pc_MinScore = bf_zero, pc_BanSeconds = 0, pc_RequestTimeout = 0,
      pc_AdmissionGate = gate, pc_VerifyTTL = 0, pc_ModelFloors = [(''m'', float64_of_int 1)], pc_SpotMinInterval = 1\<rparr>"

text \<open>An auditor that has seen two wrong runs of the loaded model, and a fleet of two workers that serve it.\<close>

definition warned_auditor :: auditor where
  "warned_auditor = (newAuditor (sample_probe False))\<lparr>au_evidence := [(''w1|m'', [(0, 1), (0, 1)])], au_fails := [(''w1|m'', 2)]\<rparr>"

definition pair_fleet :: registry where
  "pair_fleet = (live_fleet False)\<lparr>rg_workers := [(''w1'', live_worker), (''w2'', live_worker\<lparr>wk_id := ''w2''\<rparr>)]\<rparr>"

definition wrong_runs :: probe_runs where
  "wrong_runs = (let q = (numQ ''What is 6 x 7?'' 42, Some (200, Some [''?''])) in \<lparr>pr_exam = [q], pr_confirm = [q]\<rparr>)"

definition failed_runs :: probe_runs where
  "failed_runs = \<lparr>pr_exam = [(numQ ''What is 6 x 7?'' 42, Some (503, None))], pr_confirm = []\<rparr>"

lemma wrong_run: "run_exam (pr_exam wrong_runs) 0 = Some 0" "run_exam (pr_confirm wrong_runs) 0 = Some 0"
    "length (pr_exam wrong_runs) = 1" "length (pr_confirm wrong_runs) = 1"
proof -
  have "run_exam [(numQ ''What is 6 x 7?'' 42, Some (200, Some [''?'']))] 0 = Some 0" by code_simp
  then show "run_exam (pr_exam wrong_runs) 0 = Some 0" "run_exam (pr_confirm wrong_runs) 0 = Some 0"
    by (simp_all only: wrong_runs_def Let_def probe_runs.simps)
  show "length (pr_exam wrong_runs) = 1" "length (pr_confirm wrong_runs) = 1" by (simp_all add: wrong_runs_def Let_def)
qed

lemma failed_run: "run_exam (pr_exam failed_runs) 0 = None"
  by (simp add: failed_runs_def askModel_def)
lemma bar_of_m: "floorFor (au_cfg warned_auditor) ''m'' = float64_of_int 1"
proof -
  have "normalizeModelKey ''m'' = ''m''" "Contains ''m'' ''m''" by code_simp+
  then show ?thesis by (simp add: floorFor_def weigh_floor_def warned_auditor_def newAuditor_def sample_probe_def Let_def)
qed

lemma score_zero: "0 < n \<Longrightarrow> n < 2 ^ 53 \<Longrightarrow> bf_val (score 0 n) = 0"
proof -
  assume n: "0 < n" "n < 2 ^ 53"
  then have "bf_val (float64_of_int (int n)) = of_int (int n)" by (intro bf_val_float64_of_int) auto
  moreover have "bf_val (float64_of_int 0) = 0" by (simp add: bf_val_float64_of_int)
  ultimately have "sgn (bf_val (score 0 n)) = 0" using n by (simp add: score_def f64_frac_def bf_quop_sgn res_prec_def)
  then show ?thesis by (simp add: sgn_0_0)
qed

lemma nothing_scores_low: "bf_cmp (score 0 (Suc (Suc (Suc 0)))) (float64_of_int 1) < 0" "bf_cmp (score 0 (Suc 0)) (float64_of_int 1) < 0"
  by (simp_all add: bf_cmp_cases score_zero bf_val_float64_of_int)

lemma pair_fleet_list: "ListWorkers pair_fleet = [live_worker, live_worker\<lparr>wk_id := ''w2''\<rparr>]"
  by (simp add: ListWorkers_def pair_fleet_def live_fleet_eq snapshot_def inflight_of_def live_worker_props)
lemma live_audited: "audited 10 live_worker" "audited 10 (live_worker\<lparr>wk_id := ''w2''\<rparr>)"
  by (simp_all add: audited_def in_service_def live_worker_props IsBanned_def)

lemma pair_candidates: "candidates 10 warned_auditor pair_fleet = ListWorkers pair_fleet"
  by (simp add: candidates_def pair_fleet_list live_audited live_worker_props spotDue_def checked_at_def
      warned_auditor_def newAuditor_def sample_probe_def)

text \<open>A tick of one minute during which nothing else happens.\<close>

definition quiet_env :: audit_env where
  "quiet_env = \<lparr>ev_start = 10, ev_exam = id, ev_examined = 10, ev_confirm = id, ev_end = 10 + minute\<rparr>"

lemma quiet_leaves: "others_leave quiet_env k"
  by (simp add: others_leave_def quiet_env_def)

lemma later_serving: "banWouldEmptyFleet (10 + minute) ''w1'' pair_fleet = False"
proof -
  have "audited (10 + minute) (live_worker\<lparr>wk_id := ''w2''\<rparr>)"
    by (rule audited_later [OF live_audited(2)]) (simp add: minute_def second_def)
  then show ?thesis by (simp add: banWouldEmptyFleet_def pair_fleet_list audited_def)
qed

theorem ban_needs_evidence_witness:
  "\<exists>a' r' w model a0 a1 r1 a2 a3 r3 reason. audit_tick False quiet_env (\<lambda>_ _. wrong_runs) (warned_auditor, pair_fleet) = (a', r') \<and>
    w \<in> set (ListWorkers pair_fleet) \<and> wk_id w = ''w1'' \<and>
    ev_exam quiet_env (a0, pair_fleet) = (a1, r1) \<and> evidence_against wrong_runs ''w1'' model a1 \<and> ev_confirm quiet_env (a2, r1) = (a3, r3) \<and>
    ban_of r' ''w1'' = Some (10 + minute + 3600 * second, reason)"
proof -
  obtain a r where t: "audit_tick False quiet_env (\<lambda>_ _. wrong_runs) (warned_auditor, pair_fleet) = (a, r)"
    by (cases "audit_tick False quiet_env (\<lambda>_ _. wrong_runs) (warned_auditor, pair_fleet)")
  have ev: "evidence_of warned_auditor ''w1|m'' = [(0, 1), (0, 1)]" by (simp add: evidence_of_def warned_auditor_def)
  have gate: "\<not> pc_AdmissionGate (au_cfg warned_auditor)" "au_cursor warned_auditor = 0"
    by (simp_all add: warned_auditor_def newAuditor_def sample_probe_def)
  have key: "admission_key ''w1'' ''m'' = ''w1|m''" by (simp add: admission_key_def)
  have old: "ban_of pair_fleet ''w1'' = Some (zero_time, wk_banReason live_worker)"
    by (simp add: ban_of_def pair_fleet_def live_worker_props)
  have secs: "Seconds (pc_BanSeconds (au_cfg warned_auditor)) = 3600 * second"
    by (simp add: Seconds_exact warned_auditor_def newAuditor_def sample_probe_def)
  have q: "ev_start quiet_env = 10" "ev_end quiet_env = 10 + minute" "ev_exam quiet_env = id" "ev_confirm quiet_env = id"
    by (simp_all add: quiet_env_def)
  have until: "ban_until (10 + minute) (au_cfg warned_auditor) = 10 + minute + 3600 * second" by (simp add: ban_until_def secs)
  have "r = banOrWarn False (10 + minute) ''w1'' ''probe'' (ban_until (10 + minute) (au_cfg warned_auditor)) pair_fleet"
    using t by (simp add: audit_tick_def q gate pair_candidates pair_fleet_list probeWorker_def live_worker_props wrong_run Let_def
        record_run_eq key ev bar_of_m last_runs_def evidenceWindow_def pooled_score_def nothing_scores_low confirmBelowFloor_def
        eval_nat_numeral)
  then have "ban_of r ''w1'' \<noteq> ban_of pair_fleet ''w1''"
    by (simp add: ban_of_warned later_serving old until) (simp add: second_def minute_def)
  from ban_needs_evidence [OF t quiet_leaves this] show ?thesis using t by (auto simp: secs q)
qed

lemma live_serving: "serving 10 (live_fleet False)"
proof -
  have "registry_ok (live_fleet False)" by (rule registry_ok_reachable [OF live_fleet_reachable registry_ok_new])
  then show ?thesis using live_audited(1) by (simp add: serving_def live_fleet_list audited_def)
qed

theorem bans_leave_a_worker_witness:
  "serving 10 (live_fleet False) \<and> serving (10 + minute) (snd (audit_tick False quiet_env (\<lambda>_ _. wrong_runs) (warned_auditor, live_fleet False)))"
proof -
  have ev: "ev_start quiet_env = 10" "ev_end quiet_env = 10 + minute" by (simp_all add: quiet_env_def)
  have "others_serve quiet_env" by (simp add: others_serve_def quiet_env_def minute_def second_def)
  then show ?thesis
    using bans_leave_a_worker [of quiet_env "live_fleet False" False "\<lambda>_ _. wrong_runs" warned_auditor] live_serving by (simp add: ev)
qed

theorem admission_starves_checks_witness:
  "fold (\<lambda>(ev, runs). audit_tick False ev runs) [(quiet_env, \<lambda>_ _. failed_runs), (quiet_env\<lparr>ev_start := 20\<rparr>, \<lambda>_ _. failed_runs)] (newAuditor (sample_probe True), live_fleet True) =
    (newAuditor (sample_probe True), live_fleet True)"
proof (rule admission_starves_checks)
  show "pc_AdmissionGate (au_cfg (newAuditor (sample_probe True)))" by (simp add: newAuditor_def sample_probe_def)
  show "live_worker \<in> set (ListWorkers (live_fleet True))" by (simp add: live_fleet_list)
  show "audited 10 live_worker" by (rule live_audited)
  show "unverified_claim live_worker \<noteq> None" by (simp add: unverified_claim_def live_worker_props workerVerifiedFor_def)
qed (simp add: failed_run quiet_env_def)

theorem restart_prevents_conviction_witness:
  "let a' = resetAdmission ''w1|m'' warned_auditor
   in handleWorkerReverify True ''Bearer t'' 10 (Some ''m'') (live_fleet False) ([], Some warned_auditor) = (200, [(''w1|m'', 10)], Some a') \<and>
      (\<exists>w model. workerFromToken ''Bearer t'' (live_fleet False) = Some w \<and> map_option TrimSpace (Some ''m'') = Some model \<and>
        fst (handleWorkerReverify True ''Bearer t'' (10 + reverifyMinInterval) (Some ''m'') (live_fleet False) ([(''w1|m'', 10)], Some a')) \<noteq> 429)"
proof -
  define a' where "a' = resetAdmission ''w1|m'' warned_auditor"
  have trim: "TrimSpace ''m'' = ''m''" "TrimPrefix ''Bearer t'' ''Bearer '' = ''t''" by code_simp+
  have tok: "wk_token live_worker = ''t''"
    by (simp add: live_worker_def polled_def poll_switch_def poll_loading_def Let_def first_registered_def blank_worker_def sample_reg_def)
  have f: "workerFromToken ''Bearer t'' (live_fleet False) = Some live_worker"
    by (simp add: workerFromToken_def Let_def trim FindByToken_def live_fleet_eq tok)
  have h: "handleWorkerReverify True ''Bearer t'' 10 (Some ''m'') (live_fleet False) ([], Some warned_auditor) = (200, [(''w1|m'', 10)], Some a')"
    by (simp add: handleWorkerReverify_def f trim Let_def live_worker_props IsBanned_def admission_key_def a'_def)
  from restart_prevents_conviction [OF h] f
  show ?thesis unfolding a'_def [symmetric] Let_def using h
    by (auto dest!: spec [of _ "10 + reverifyMinInterval"] spec [of _ "live_fleet False"])
qed

text \<open>
  The guard against an empty fleet is a guard of bans only. Here the one worker in service has proven the model
  it serves; one failed window, with no confirmation run, takes the model away, bans nobody, and from then on
  the router has no worker for the model.
\<close>

definition proven_fleet :: registry where
  "proven_fleet = (live_fleet True)\<lparr>rg_workers := [(''w1'', live_worker\<lparr>wk_verified := [''m'']\<rparr>)]\<rparr>"

definition doubting_auditor :: auditor where
  "doubting_auditor = (newAuditor (sample_probe True))\<lparr>au_evidence := [(''w1|m'', [(0, 1), (0, 1)])]\<rparr>"
lemma proven_list: "ListWorkers proven_fleet = [live_worker\<lparr>wk_verified := [''m'']\<rparr>]"
  by (simp add: ListWorkers_def proven_fleet_def live_fleet_eq snapshot_def inflight_of_def live_worker_props)

theorem removal_stops_service:
  "\<exists>a r. audit_tick False (quiet_env\<lparr>ev_start := 1000000000000000000, ev_examined := 1000000000000000000\<rparr>) (\<lambda>_ _. wrong_runs) (doubting_auditor, proven_fleet) = (a, r) \<and> ban_of r = ban_of proven_fleet \<and>
     banWouldEmptyFleet 1000000000000000000 ''w1'' proven_fleet \<and>
     selectWorkerForModel proven_fleet 1000000000000000000 (float64_of_int 0) ''m'' (\<lambda>_. False) (float64_of_int 0) \<noteq> None \<and>
     (\<forall>now u exclude factor. selectWorkerForModel r now u ''m'' exclude factor = None)"
proof -
  let ?w = "live_worker\<lparr>wk_verified := [''m'']\<rparr>"
  define r where "r = snd (SetVerified False 1000000000000000000 ''w1'' [] proven_fleet)"
  have norm: "normalizeModelKey ''m'' = ''m''" "Contains ''m'' ''m''" by code_simp+
  have cfg: "au_cfg doubting_auditor = au_cfg (newAuditor (sample_probe True))" "pc_AdmissionGate (au_cfg doubting_auditor)"
    "pc_VerifyTTL (au_cfg doubting_auditor) \<le> 1000000000000000000"
    by (simp_all add: doubting_auditor_def newAuditor_def sample_probe_def minute_def second_def)
  have bar: "floorFor (au_cfg doubting_auditor) ''m'' = float64_of_int 1"
    using norm by (simp add: floorFor_def weigh_floor_def doubting_auditor_def newAuditor_def sample_probe_def Let_def)
  have ver: "workerVerifiedFor ?w ''m''" by (simp add: workerVerifiedFor_def modelMatches_def)
  have aud: "audited 1000000000000000000 ?w" by (simp add: audited_def in_service_def live_worker_props IsBanned_def)
  have old: "wk_verifiedAt live_worker = 0"
    by (simp add: live_worker_def polled_def poll_switch_def poll_loading_def Let_def first_registered_def blank_worker_def)
  have next1: "nextUnverified 1000000000000000000 proven_fleet = None"
    using ver by (simp add: nextUnverified_def proven_list unverified_claim_def live_worker_props)
  have next2: "nextExpired 1000000000000000000 (au_cfg doubting_auditor) proven_fleet = Some (?w, ''m'')"
    using aud ver cfg(3) by (simp add: nextExpired_def proven_list live_worker_props old)
  have ev: "evidence_of doubting_auditor ''w1|m'' = [(0, 1), (0, 1)]" "fails_of doubting_auditor ''w1|m'' = 0"
    by (simp_all add: evidence_of_def fails_of_def doubting_auditor_def newAuditor_def)
  have fails: "fails_of (doubting_auditor\<lparr>au_evidence := e\<rparr>) k = fails_of doubting_auditor k" for e k by (simp add: fails_of_def)
  have key: "admission_key ''w1'' ''m'' = ''w1|m''" by (simp add: admission_key_def)
  have get: "Get proven_fleet ''w1'' = Some ?w"
    by (simp add: Get_def proven_fleet_def live_fleet_eq snapshot_def inflight_of_def live_worker_props)
  have low: "\<not> 0 \<le> bf_cmp (score 0 (Suc (Suc (Suc 0)))) (float64_of_int 1)" using nothing_scores_low(1) by simp
  have tick: "snd (audit_tick False (quiet_env\<lparr>ev_start := 1000000000000000000, ev_examined := 1000000000000000000\<rparr>) (\<lambda>_ _. wrong_runs) (doubting_auditor, proven_fleet)) = r"
    by (simp add: audit_tick_def quiet_env_def cfg(2) next1 next2 verifyModel_def wrong_run Let_def record_run_eq key ev fails bar live_worker_props
        last_runs_def evidenceWindow_def pooled_score_def nothing_scores_low low get bumpFails_def set_models_def
        store_verified_def r_def eval_nat_numeral)
  have list: "ListWorkers r = [live_worker\<lparr>wk_verified := [], wk_verifiedAt := 1000000000000000000, wk_inflight := 0\<rparr>]"
    by (simp add: r_def SetVerified_def fleet_simps proven_fleet_def live_fleet_eq ListWorkers_def snapshot_def inflight_of_def live_worker_props)
  have bans: "ban_of r = ban_of proven_fleet" by (simp add: r_def)
  have alone: "banWouldEmptyFleet 1000000000000000000 ''w1'' proven_fleet" by (simp add: banWouldEmptyFleet_def proven_list live_worker_props)
  have gate: "rg_gate r" "rg_gate proven_fleet"
    by (simp_all add: r_def SetVerified_def saveToDisk_def put_worker_def proven_fleet_def live_fleet_eq)
  have before: "selectWorkerForModel proven_fleet 1000000000000000000 (float64_of_int 0) ''m'' (\<lambda>_. False) (float64_of_int 0) \<noteq> None"
    using ver by (simp add: selectWorkerForModel_def select_None proven_list gate admitted_def suitable_def live_worker_props
        IsBanned_def isDefaultModel_def modelMatches_def)
  have after: "selectWorkerForModel r now u ''m'' exclude factor = None" for now u exclude factor
    by (simp add: selectWorkerForModel_def select_None list gate admitted_def live_worker_props isDefaultModel_def workerVerifiedFor_def)
  show ?thesis using tick bans alone before after
    by (cases "audit_tick False (quiet_env\<lparr>ev_start := 1000000000000000000, ev_examined := 1000000000000000000\<rparr>) (\<lambda>_ _. wrong_runs) (doubting_auditor, proven_fleet)") auto
qed
section \<open>Verdicts are exact\<close>

lemma frac_near:
  assumes "0 \<le> c" "0 < n" "c < 2 ^ 53" "n < 2 ^ 53"
  shows "near 53 (bf_val (f64_frac c n)) (of_int c / of_int n)"
proof -
  have "bf_val (float64_of_int c) = of_int c" "bf_val (float64_of_int n) = of_int n"
    using assms by (auto intro!: bf_val_float64_of_int)
  moreover have "res_prec 53 (float64_of_int c) (float64_of_int n) = 53" by (simp add: res_prec_def)
  ultimately show ?thesis using bf_quop_near [of 53 "float64_of_int c" "float64_of_int n"] assms by (simp add: f64_frac_def)
qed

text \<open>The scores of two counts out of the same number keep the order of the counts.\<close>

lemma frac_less:
  assumes "0 \<le> c" "c < d" "0 < n" "c + d < 2 ^ 53" "n < 2 ^ 53"
  shows "bf_val (f64_frac c n) < bf_val (f64_frac d n)"
proof -
  define x y :: rat where "x = bf_val (f64_frac c n)" and "y = bf_val (f64_frac d n)"
  define p q :: rat where "p = of_int c / of_int n" and "q = of_int d / of_int n"
  have "\<bar>x - p\<bar> * 2 ^ 53 \<le> \<bar>p\<bar>" "\<bar>y - q\<bar> * 2 ^ 53 \<le> \<bar>q\<bar>"
    using frac_near [of c n] frac_near [of d n] assms by (auto simp: near_def x_def y_def p_def q_def)
  moreover have "0 \<le> p" "0 \<le> q" using assms by (simp_all add: p_def q_def)
  moreover have "(x - p) * 2 ^ 53 \<le> \<bar>x - p\<bar> * 2 ^ 53" "(q - y) * 2 ^ 53 \<le> \<bar>y - q\<bar> * 2 ^ 53" by (rule mult_right_mono; simp)+
  ultimately have err: "(x - p) * 2 ^ 53 \<le> p" "(q - y) * 2 ^ 53 \<le> q" by linarith+
  have "c + d < 2 ^ 53 * (d - c)" using assms by simp
  then have "rat_of_int (c + d) < rat_of_int (2 ^ 53 * (d - c))" by (subst of_int_less_iff)
  then have "of_int (c + d) / rat_of_int n < of_int (2 ^ 53 * (d - c)) / of_int n"
    using assms(3) by (intro divide_strict_right_mono) simp_all
  moreover have "of_int (c + d) / of_int n = p + q" by (simp add: p_def q_def add_divide_distrib)
  moreover have "of_int (2 ^ 53 * (d - c)) / of_int n = 2 ^ 53 * (q - p)" by (simp add: p_def q_def diff_divide_distrib)
  ultimately have "p + q < 2 ^ 53 * (q - p)" by simp
  then have "(x - y) * 2 ^ 53 < 0" using err by (simp add: algebra_simps)
  then have "x - y < 0" by (simp add: zero_less_mult_iff mult_less_0_iff)
  then show ?thesis by (simp add: x_def y_def)
qed

text \<open>
  C30: Verdicts are exact. The pooled score of a window reaches a floor of \<open>k\<close> right answers out of as many
  questions as the window has exactly when the window has \<open>k\<close> right answers: no rounding of the two
  quotients admits or convicts a worker.
\<close>

theorem pooled_verdict_exact:
  assumes "t = sum_list (List.map snd runs)" "c = sum_list (List.map fst runs)" "0 < t" "t < 2 ^ 53" "c + k < 2 ^ 53"
  shows "bf_cmp (pooled_score runs) (f64_frac (int k) (int t)) \<ge> 0 \<longleftrightarrow> k \<le> c"
proof -
  have p: "pooled_score runs = f64_frac (int c) (int t)"
    unfolding pooled_score_def score_def Let_def assms(1,2) [symmetric] using assms(3) by simp
  have b: "int c + int k < 2 ^ 53" "int t < 2 ^ 53" using assms(4,5) by auto
  consider "c < k" | "c = k" | "k < c" by linarith
  then show ?thesis
  proof cases
    case 1
    then have "bf_val (f64_frac (int c) (int t)) < bf_val (f64_frac (int k) (int t))" using b assms(3) by (intro frac_less) auto
    then show ?thesis using 1 by (simp add: p bf_cmp_cases)
  next
    case 3
    then have "bf_val (f64_frac (int k) (int t)) < bf_val (f64_frac (int c) (int t))" using b assms(3) by (intro frac_less) auto
    then show ?thesis using 3 by (simp add: p bf_cmp_cases)
  qed (simp add: p bf_cmp_cases)
qed

theorem pooled_verdict_exact_witness:
  "bf_cmp (pooled_score [(15, 16), (16, 16), (15, 16)]) (f64_frac 46 48) \<ge> 0 \<and>
   \<not> bf_cmp (pooled_score [(15, 16), (15, 16), (15, 16)]) (f64_frac 46 48) \<ge> 0"
  using pooled_verdict_exact [of 48 "[(15, 16), (16, 16), (15, 16)]" 46 46]
    pooled_verdict_exact [of 48 "[(15, 16), (15, 16), (15, 16)]" 45 46] by simp
text \<open>
  An override shadows every default: a broad override applies to a model that a longer default names, although
  the longest key is meant to win.
\<close>

theorem override_shadows_default:
  "floorFor (cfg\<lparr>pc_ModelFloors := [(''qwen3'', low)]\<rparr>) ''/models/Qwen--Qwen3-32B-AWQ'' = low"
proof -
  have "normalizeModelKey ''/models/Qwen--Qwen3-32B-AWQ'' = ''modelsqwenqwen332bawq''" "normalizeModelKey ''qwen3'' = ''qwen3''"
    "Contains ''modelsqwenqwen332bawq'' ''qwen3''" by code_simp+
  then show ?thesis by (simp add: floorFor_def weigh_floor_def Let_def)
qed

end
