(* ===== verification/Filecoin.thy ===== *)
theory Filecoin
  imports GoStrings GoJson
begin

text \<open>
  Access to the Filecoin chain (\<open>filecoin/client.go\<close>) and wallet signatures (\<open>filecoin/sig.go\<close>).
  The endpoints are an argument that maps an endpoint, a method and its parameter to a reply, and
  the decoding of a result into the caller's variable is one too: it may fill a part of the variable
  and fail, as \<open>json.Unmarshal\<close> does. Address parsing, hashes, key recovery and pairings are
  arguments.
\<close>

section \<open>JSON-RPC with ordered endpoints\<close>

record rpcResponse =
  rr_result :: string
  rr_error :: "(int \<times> string) option"

text \<open>No reply at all, or the status and the response, if the body decodes.\<close>

type_synonym rpc_reply = "(int \<times> rpcResponse option) option"

type_synonym rpc = "string \<Rightarrow> string \<Rightarrow> string \<Rightarrow> rpc_reply"

type_synonym 'a decoder = "string \<Rightarrow> 'a \<Rightarrow> bool \<times> 'a"

definition callOne :: "'a decoder \<Rightarrow> rpc \<Rightarrow> string \<Rightarrow> string \<Rightarrow> string \<Rightarrow> 'a \<Rightarrow> bool \<times> 'a" where
  "callOne dec rpc endpoint method param out =
     (case rpc endpoint method param of
        None \<Rightarrow> (False, out)
      | Some (status, body) \<Rightarrow>
          if status \<noteq> 200 then (False, out)
          else case body of
                 None \<Rightarrow> (False, out)
               | Some rr \<Rightarrow>
                   if rr_error rr \<noteq> None then (False, out)
                   else if rr_result rr = '''' \<or> rr_result rr = ''null'' then (False, out)
                   else dec (rr_result rr) out)"

primrec call :: "'a decoder \<Rightarrow> rpc \<Rightarrow> string list \<Rightarrow> string \<Rightarrow> string \<Rightarrow> 'a \<Rightarrow> bool \<times> 'a" where
  "call dec rpc [] method param out = (False, out)"
| "call dec rpc (ep # eps) method param out =
     (let (ok, out) = callOne dec rpc ep method param out
      in if ok then (True, out) else call dec rpc eps method param out)"

section \<open>State methods\<close>

text \<open>The decoders of the results: of an owner and worker, of a text, and of a number in a field.\<close>

record decoders =
  de_info :: "(string \<times> string) decoder"
  de_text :: "string decoder"
  de_power :: "string decoder"
  de_balance :: "string decoder"

definition MinerInfo :: "decoders \<Rightarrow> rpc \<Rightarrow> string list \<Rightarrow> string \<Rightarrow> (string \<times> string) option" where
  "MinerInfo de rpc eps miner =
     (let (ok, out) = call (de_info de) rpc eps ''Filecoin.StateMinerInfo'' miner ('''', '''')
      in if \<not> ok then None
         else if fst out = '''' \<or> snd out = '''' then None
         else Some out)"

definition AccountKey :: "decoders \<Rightarrow> rpc \<Rightarrow> string list \<Rightarrow> string \<Rightarrow> string option" where
  "AccountKey de rpc eps idAddr =
     (let (ok, out) = call (de_text de) rpc eps ''Filecoin.StateAccountKey'' idAddr ''''
      in if \<not> ok then None else if out = '''' then None else Some out)"

text \<open>\<open>big.Int.SetString\<close> in base 10: an optional sign and digits.\<close>

definition parse_big :: "string \<Rightarrow> int option" where
  "parse_big s =
     (let neg = HasPrefix s ''-'';
          d = (if neg \<or> HasPrefix s ''+'' then drop 1 s else s)
      in if d = '''' \<or> \<not> list_all is_digit d then None
         else Some (if neg then - int (undec d) else int (undec d)))"

fun crossCheckedRead :: "(string \<Rightarrow> int option) \<Rightarrow> string list \<Rightarrow> bool \<Rightarrow> int option" where
  "crossCheckedRead read [] sawZero = (if sawZero then Some 0 else None)"
| "crossCheckedRead read (ep # eps) sawZero =
     (case read ep of
        None \<Rightarrow> crossCheckedRead read eps sawZero
      | Some v \<Rightarrow> if v > 0 then Some v else crossCheckedRead read eps True)"

definition read_number :: "string decoder \<Rightarrow> rpc \<Rightarrow> string \<Rightarrow> string \<Rightarrow> string \<Rightarrow> int option" where
  "read_number dec rpc method param ep =
     (let (ok, out) = callOne dec rpc ep method param '''' in if ok then parse_big out else None)"

definition MinerRawPower :: "decoders \<Rightarrow> rpc \<Rightarrow> string list \<Rightarrow> string \<Rightarrow> int option" where
  "MinerRawPower de rpc eps miner =
     crossCheckedRead (read_number (de_power de) rpc ''Filecoin.StateMinerPower'' miner) eps False"

definition ActorBalance :: "decoders \<Rightarrow> rpc \<Rightarrow> string list \<Rightarrow> string \<Rightarrow> int option" where
  "ActorBalance de rpc eps addr =
     crossCheckedRead (read_number (de_balance de) rpc ''Filecoin.StateGetActor'' addr) eps False"

section \<open>Reading through failures\<close>

text \<open>The specification of a read: the first positive answer, else zero if there is any answer.\<close>

definition agreed :: "int option list \<Rightarrow> int option" where
  "agreed vs =
     (case List.find (\<lambda>v. case v of Some n \<Rightarrow> n > 0 | None \<Rightarrow> False) vs of
        Some v \<Rightarrow> v
      | None \<Rightarrow> if \<exists>v\<in>set vs. v \<noteq> None then Some 0 else None)"

lemma positive_found:
  "List.find (\<lambda>v. case v of Some n \<Rightarrow> n > 0 | None \<Rightarrow> False) vs = Some v \<Longrightarrow> \<exists>n>0. v = Some n \<and> Some n \<in> set vs"
  by (auto simp: find_Some_iff in_set_conv_nth split: option.splits)

lemma agreed_cases:
  "agreed vs = None \<longleftrightarrow> (\<forall>v\<in>set vs. v = None)"
  "agreed vs = Some 0 \<longleftrightarrow> (\<exists>v\<in>set vs. v \<noteq> None) \<and> (\<forall>v\<in>set vs. case v of Some n \<Rightarrow> n \<le> 0 | None \<Rightarrow> True)"
proof -
  let ?f = "List.find (\<lambda>v. case v of Some n \<Rightarrow> n > 0 | None \<Rightarrow> False) vs"
  have "(agreed vs = None \<longleftrightarrow> (\<forall>v\<in>set vs. v = None)) \<and>
    (agreed vs = Some 0 \<longleftrightarrow> (\<exists>v\<in>set vs. v \<noteq> None) \<and> (\<forall>v\<in>set vs. case v of Some n \<Rightarrow> n \<le> 0 | None \<Rightarrow> True))"
  proof (cases ?f)
    case None
    then have "\<forall>v\<in>set vs. case v of Some n \<Rightarrow> n \<le> 0 | None \<Rightarrow> True" by (auto simp: find_None_iff split: option.splits)
    then show ?thesis using None by (auto simp: agreed_def)
  next
    case (Some v)
    then obtain n where n: "n > 0" "v = Some n" "Some n \<in> set vs" using positive_found by blast
    then have "\<not> (\<forall>v\<in>set vs. case v of Some n \<Rightarrow> n \<le> 0 | None \<Rightarrow> True)" by fastforce
    then show ?thesis using Some n by (auto simp: agreed_def)
  qed
  then show "agreed vs = None \<longleftrightarrow> (\<forall>v\<in>set vs. v = None)"
    "agreed vs = Some 0 \<longleftrightarrow> (\<exists>v\<in>set vs. v \<noteq> None) \<and> (\<forall>v\<in>set vs. case v of Some n \<Rightarrow> n \<le> 0 | None \<Rightarrow> True)"
    by blast+
qed

lemma agreed_Cons:
  "agreed (v # vs) =
     (case v of
        None \<Rightarrow> agreed vs
      | Some n \<Rightarrow> if n > 0 then Some n else case agreed vs of Some m \<Rightarrow> Some m | None \<Rightarrow> Some 0)"
proof (cases "List.find (\<lambda>v. case v of Some n \<Rightarrow> n > 0 | None \<Rightarrow> False) vs")
  case (Some u)
  then obtain m where "u = Some m" using positive_found by blast
  then show ?thesis using Some by (simp add: agreed_def split: option.split)
qed (auto simp: agreed_def split: option.split)

lemma crossCheckedRead_agreed:
  "crossCheckedRead read eps sawZero =
     (case agreed (List.map read eps) of Some v \<Rightarrow> Some v | None \<Rightarrow> if sawZero then Some 0 else None)"
proof (induction eps arbitrary: sawZero)
  case Nil
  show ?case by (simp add: agreed_def)
qed (simp add: agreed_Cons split: option.split)

text \<open>
  A read accepts a zero only when every endpoint that answers says so, fails only when no endpoint
  answers, and otherwise returns the positive answer of the first endpoint that has one.
\<close>

theorem zero_needs_agreement:
  "MinerRawPower de rpc eps miner = agreed (List.map (read_number (de_power de) rpc ''Filecoin.StateMinerPower'' miner) eps)"
  "(agreed vs = Some 0) = ((\<exists>v\<in>set vs. v \<noteq> None) \<and> (\<forall>v\<in>set vs. case v of Some n \<Rightarrow> n \<le> 0 | None \<Rightarrow> True))"
  "(agreed vs = None) = (\<forall>v\<in>set vs. v = None)"
proof -
  show "MinerRawPower de rpc eps miner = agreed (List.map (read_number (de_power de) rpc ''Filecoin.StateMinerPower'' miner) eps)"
    by (simp add: MinerRawPower_def crossCheckedRead_agreed split: option.split)
qed (rule agreed_cases)+

text \<open>
  A call returns what the first endpoint that answers says only if a failed answer has left nothing behind:
  the variable is shared by all endpoints. Here the first answer decodes half, the second lacks the owner, and the
  result joins the owner of the one with the worker of the other.
\<close>

theorem answers_are_mixed:
  "\<exists>de rpc. de_info de ''half'' ('''', '''') = (False, (''f01'', '''')) \<and>
     (\<forall>out. de_info de ''no owner'' out = (True, (fst out, ''f02''))) \<and> MinerInfo de rpc [''b''] ''f0100'' = None \<and>
     MinerInfo de rpc [''a'', ''b''] ''f0100'' = Some (''f01'', ''f02'')"
proof -
  define de where "de = \<lparr>de_info = (\<lambda>raw out. if raw = ''half'' then (False, (''f01'', snd out)) else (True, (fst out, ''f02''))),
    de_text = (\<lambda>_ out. (False, out)), de_power = (\<lambda>_ out. (False, out)), de_balance = (\<lambda>_ out. (False, out))\<rparr>"
  define rpc :: rpc where "rpc = (\<lambda>ep _ _. Some (200, Some \<lparr>rr_result = (if ep = ''a'' then ''half'' else ''no owner''), rr_error = None\<rparr>))"
  show ?thesis by (intro exI [of _ de] exI [of _ rpc]) (simp add: MinerInfo_def callOne_def de_def rpc_def Let_def)
qed

section \<open>Wallet signatures\<close>

datatype protocol = SECP256K1 | BLS | OtherProtocol nat

record address =
  ad_protocol :: protocol
  ad_payload :: string

record sig_ops =
  so_address :: "string \<Rightarrow> address option"
  so_hash256 :: "string \<Rightarrow> string"
  so_hash160 :: "string \<Rightarrow> string"
  so_recover :: "string \<Rightarrow> string \<Rightarrow> string option"
  so_point :: "string \<Rightarrow> bool"
  so_pairing :: "string \<Rightarrow> string \<Rightarrow> string \<Rightarrow> bool"

definition byte :: "char \<Rightarrow> nat" where "byte c = of_char c"

definition verifySecp :: "sig_ops \<Rightarrow> string \<Rightarrow> address \<Rightarrow> string \<Rightarrow> bool" where
  "verifySecp so sg addr msg =
     (if ad_protocol addr \<noteq> SECP256K1 then False
      else if length sg \<noteq> 65 then False
      else let norm = (if byte (sg ! 64) \<ge> 27 then sg[64 := char_of (byte (sg ! 64) - 27)] else sg)
           in if byte (norm ! 64) \<noteq> 0 \<and> byte (norm ! 64) \<noteq> 1 then False
              else case so_recover so (so_hash256 so msg) norm of
                     None \<Rightarrow> False
                   | Some pub \<Rightarrow> so_hash160 so pub = ad_payload addr)"

definition verifyBLS :: "sig_ops \<Rightarrow> string \<Rightarrow> address \<Rightarrow> string \<Rightarrow> bool" where
  "verifyBLS so sg addr msg =
     (if ad_protocol addr \<noteq> BLS then False
      else if length sg \<noteq> 96 then False
      else if \<not> so_point so (ad_payload addr) then False
      else so_pairing so (ad_payload addr) msg sg)"

definition VerifySignature :: "sig_ops \<Rightarrow> nat \<Rightarrow> string \<Rightarrow> string \<Rightarrow> string \<Rightarrow> bool" where
  "VerifySignature so sigType sg signer msg =
     (case so_address so signer of
        None \<Rightarrow> False
      | Some addr \<Rightarrow>
          if sigType = 1 then verifySecp so sg addr msg
          else if sigType = 2 then verifyBLS so sg addr msg
          else False)"

definition SameKey :: "sig_ops \<Rightarrow> string \<Rightarrow> string \<Rightarrow> bool" where
  "SameKey so a b =
     (case (so_address so a, so_address so b) of
        (Some pa, Some pb) \<Rightarrow> ad_protocol pa = ad_protocol pb \<and> ad_payload pa = ad_payload pb
      | _ \<Rightarrow> False)"

lemma SameKey_address: "SameKey so a b \<longleftrightarrow> (\<exists>x. so_address so a = Some x \<and> so_address so b = Some x)"
  by (auto simp: SameKey_def split: option.splits)

text \<open>
  Equal keys have equal signatures: what verifies against an address verifies against every spelling of
  its key, so the network prefix does not matter, and no signature verifies against keys of two protocols.
\<close>

theorem same_key_same_signatures:
  assumes "SameKey so a b"
  shows "VerifySignature so ty sg a msg = VerifySignature so ty sg b msg"
    "VerifySignature so ty sg a msg \<Longrightarrow> VerifySignature so ty' sg b msg' \<Longrightarrow> ty' = ty"
proof -
  obtain x where x: "so_address so a = Some x" "so_address so b = Some x" using assms by (auto simp: SameKey_address)
  then show "VerifySignature so ty sg a msg = VerifySignature so ty sg b msg" by (simp add: VerifySignature_def)
  show "ty' = ty" if "VerifySignature so ty sg a msg" "VerifySignature so ty' sg b msg'"
    using that x by (auto simp: VerifySignature_def verifySecp_def verifyBLS_def split: if_splits)
qed

end
