(* ===== verification/CertIssuer.thy ===== *)
theory CertIssuer
  imports GoStrings
begin

text \<open>
  The issuing of worker certificates at registration (\<open>gateway/certissuer.go\<close>). PEM and X.509
  parsing and the signing of a template are arguments; a certificate is the template it was signed
  from with its public key. The serial counter does not reach the end of its 64 bits.
\<close>

section \<open>Certificates\<close>

datatype publicKey = ECDSA string | RSA nat string | OtherKey string

record csr =
  cs_signed :: bool
  cs_cn :: string
  cs_key :: publicKey

datatype extKeyUsage = ServerAuth | ClientAuth

record certificate =
  ct_serial :: int
  ct_cn :: string
  ct_dns :: "string list"
  ct_notBefore :: gotime
  ct_notAfter :: gotime
  ct_usage :: "extKeyUsage list"
  ct_ca :: string
  ct_key :: publicKey

record certIssuer =
  ci_ca :: string
  ci_pem :: string
  ci_validity :: duration
  ci_serial :: int

definition newCertIssuer ::
  "(string \<Rightarrow> string option) \<Rightarrow> (string \<Rightarrow> string option) \<Rightarrow> (string \<Rightarrow> bool) \<Rightarrow> gotime \<Rightarrow> string \<Rightarrow> string \<Rightarrow> duration \<Rightarrow> certIssuer option option" where
  "newCertIssuer readFile parseCert keyParses now caCertFile caKeyFile validity =
     (if caCertFile = '''' \<and> caKeyFile = '''' then Some None
      else if caCertFile = '''' \<or> caKeyFile = '''' then None
      else case readFile caCertFile of
             None \<Rightarrow> None
           | Some certPEM \<Rightarrow>
               (case parseCert certPEM of
                  None \<Rightarrow> None
                | Some caCert \<Rightarrow>
                    (case readFile caKeyFile of
                       None \<Rightarrow> None
                     | Some keyPEM \<Rightarrow>
                         if \<not> keyParses keyPEM then None
                         else Some (Some \<lparr>ci_ca = caCert, ci_pem = certPEM,
                                ci_validity = (if validity \<le> 0 then 7 * 24 * 60 * minute else validity), ci_serial = now\<rparr>))))"

definition key_accepted :: "publicKey \<Rightarrow> bool" where
  "key_accepted k = (case k of ECDSA _ \<Rightarrow> True | RSA bits _ \<Rightarrow> bits \<ge> 2048 | OtherKey _ \<Rightarrow> False)"

text \<open>\<open>parse\<close> reads the request out of its PEM block, \<open>signs\<close> tells whether the signing of a template succeeds.\<close>

definition issueFromCSR ::
  "(string \<Rightarrow> csr option) \<Rightarrow> (certificate \<Rightarrow> bool) \<Rightarrow> gotime \<Rightarrow> string \<Rightarrow> string \<Rightarrow> certIssuer \<Rightarrow> certificate option \<times> certIssuer" where
  "issueFromCSR parse signs now csrPEM workerID ci =
     (case parse csrPEM of
        None \<Rightarrow> (None, ci)
      | Some csr \<Rightarrow>
          if \<not> cs_signed csr then (None, ci)
          else if cs_cn csr \<noteq> workerID then (None, ci)
          else if \<not> key_accepted (cs_key csr) then (None, ci)
          else let ci = ci\<lparr>ci_serial := ci_serial ci + 1\<rparr>;
                   tmpl = \<lparr>ct_serial = ci_serial ci, ct_cn = workerID, ct_dns = [workerID], ct_notBefore = now - 5 * minute,
                           ct_notAfter = now + ci_validity ci, ct_usage = [ServerAuth], ct_ca = ci_ca ci, ct_key = cs_key csr\<rparr>
               in (if signs tmpl then Some tmpl else None, ci))"

text \<open>The gateway's own certificate, for the key it has generated.\<close>

definition serverTLSCert :: "(certificate \<Rightarrow> bool) \<Rightarrow> gotime \<Rightarrow> string option \<Rightarrow> string \<Rightarrow> certIssuer \<Rightarrow> certificate option \<times> certIssuer" where
  "serverTLSCert signs now key gatewayID ci =
     (case key of
        None \<Rightarrow> (None, ci)
      | Some k \<Rightarrow>
          let ci = ci\<lparr>ci_serial := ci_serial ci + 1\<rparr>;
              tmpl = \<lparr>ct_serial = ci_serial ci, ct_cn = gatewayID, ct_dns = [gatewayID], ct_notBefore = now - 5 * minute,
                      ct_notAfter = now + 365 * 24 * 60 * minute, ct_usage = [ServerAuth], ct_ca = ci_ca ci, ct_key = ECDSA k\<rparr>
          in (if signs tmpl then Some tmpl else None, ci))"

text \<open>What a peer checks of a server certificate that chains to the authority: the name it expects, the time, the usage.\<close>

definition accepted_for :: "string \<Rightarrow> string \<Rightarrow> gotime \<Rightarrow> certificate \<Rightarrow> bool" where
  "accepted_for ca serverName now c \<longleftrightarrow>
     ct_ca c = ca \<and> serverName \<in> set (ct_dns c) \<and> ct_notBefore c \<le> now \<and> now \<le> ct_notAfter c \<and> ServerAuth \<in> set (ct_usage c)"

section \<open>What an issued certificate says\<close>

text \<open>
  A certificate names the worker it was issued to and nobody else, carries the key of the request, whose holder signed
  it, and ends after the validity of the issuer; nothing else of the request goes into it, and its serial
  is new.
\<close>

theorem certificate_is_bound:
  assumes "issueFromCSR parse signs now csrPEM workerID ci = (Some c, ci')"
  shows "\<exists>csr. parse csrPEM = Some csr \<and> cs_signed csr \<and> cs_cn csr = workerID \<and> key_accepted (cs_key csr) \<and> ct_key c = cs_key csr"
    "accepted_for ca name t c \<Longrightarrow> name = workerID \<and> t \<le> now + ci_validity ci"
    "ct_serial c = ci_serial ci' \<and> ci_serial ci < ci_serial ci' \<and> ci_validity ci' = ci_validity ci \<and> ci_ca ci' = ci_ca ci"
  using assms by (auto simp: issueFromCSR_def Let_def accepted_for_def split: option.splits if_splits)

end
