(* ===== verification/ClientAddr.thy ===== *)
theory ClientAddr
  imports GoStrings RateLimit
begin

text \<open>
  The address per-IP limits key on and the limiter itself (\<open>clientIP\<close> and \<open>ipLimiter\<close> of
  \<open>gateway/spregister.go\<close>). Parsing and comparing of IP addresses and networks are arguments. A
  header is the list of its lines.
\<close>

section \<open>Trusted proxies\<close>

record ip_ops =
  io_host :: "string \<Rightarrow> string option"
  io_parse :: "string \<Rightarrow> string option"
  io_text :: "string \<Rightarrow> string"
  io_is4 :: "string \<Rightarrow> bool"
  io_cidr :: "string \<Rightarrow> string option"
  io_contains :: "string \<Rightarrow> string \<Rightarrow> bool"

definition proxy_entry :: "ip_ops \<Rightarrow> string \<Rightarrow> string" where
  "proxy_entry io e =
     (if Contains e ''/'' then e
      else case io_parse io e of
             None \<Rightarrow> e
           | Some ip \<Rightarrow> io_text io ip @ ''/'' @ (if io_is4 io ip then ''32'' else ''128''))"

primrec read_proxies :: "ip_ops \<Rightarrow> string list \<Rightarrow> string list \<Rightarrow> string list option" where
  "read_proxies io [] nets = Some nets"
| "read_proxies io (e # es) nets =
     (let e = TrimSpace e
      in if e = '''' then read_proxies io es nets
         else case io_cidr io (proxy_entry io e) of
                None \<Rightarrow> None
              | Some net \<Rightarrow> read_proxies io es (nets @ [net]))"

text \<open>The networks in force afterwards, and whether the entries were accepted.\<close>

definition SetTrustedProxies :: "ip_ops \<Rightarrow> string list \<Rightarrow> string list \<Rightarrow> bool \<times> string list" where
  "SetTrustedProxies io entries old =
     (case read_proxies io entries [] of None \<Rightarrow> (False, old) | Some nets \<Rightarrow> (True, nets))"

definition isTrustedProxy :: "ip_ops \<Rightarrow> string list \<Rightarrow> string \<Rightarrow> bool" where
  "isTrustedProxy io nets host =
     (case io_parse io host of None \<Rightarrow> False | Some ip \<Rightarrow> list_ex (\<lambda>n. io_contains io n ip) nets)"

section \<open>The client's address\<close>

fun split_on :: "char \<Rightarrow> string \<Rightarrow> string list" where
  "split_on c [] = [[]]"
| "split_on c (x # xs) =
     (if x = c then [] # split_on c xs
      else case split_on c xs of p # ps \<Rightarrow> (x # p) # ps | [] \<Rightarrow> [[x]])"

text \<open>\<open>Header.Get\<close>: the first line, or nothing.\<close>

definition header_get :: "string list \<Rightarrow> string" where
  "header_get ls = (case ls of [] \<Rightarrow> '''' | l # _ \<Rightarrow> l)"

definition last_external :: "(string \<Rightarrow> bool) \<Rightarrow> string list \<Rightarrow> string option" where
  "last_external trusted parts =
     List.find (\<lambda>p. p \<noteq> '''' \<and> \<not> trusted p) (List.map TrimSpace (rev parts))"

definition clientIP :: "ip_ops \<Rightarrow> string list \<Rightarrow> string \<Rightarrow> string list \<Rightarrow> string list \<Rightarrow> string" where
  "clientIP io nets remoteAddr xffLines realIP =
     (let host = (case io_host io remoteAddr of Some h \<Rightarrow> h | None \<Rightarrow> remoteAddr)
      in if \<not> isTrustedProxy io nets host then host
         else let xff = header_get xffLines;
                  rip = TrimSpace (header_get realIP);
                  rest = (if rip \<noteq> '''' then rip else host)
              in if xff \<noteq> ''''
                 then (case last_external (isTrustedProxy io nets) (split_on (CHR '','') xff) of Some p \<Rightarrow> p | None \<Rightarrow> rest)
                 else rest)"

section \<open>The limiter of an address\<close>

record ipBucket =
  ib_tokens :: bigfloat
  ib_last :: gotime

record ipLimiter =
  il_perSec :: bigfloat
  il_burst :: bigfloat
  il_buckets :: "(string \<times> ipBucket) list"

definition newIPLimiter :: "bigfloat \<Rightarrow> ipLimiter" where
  "newIPLimiter perMin = \<lparr>il_perSec = f64_quo perMin (float64_of_int 60), il_burst = perMin, il_buckets = []\<rparr>"

definition refilled :: "gotime \<Rightarrow> ipLimiter \<Rightarrow> ipBucket \<Rightarrow> bool" where
  "refilled now l b \<longleftrightarrow> bf_cmp (f64_mul (duration_seconds (now - ib_last b)) (il_perSec l)) (il_burst l) \<ge> 0"

definition pruneLocked :: "gotime \<Rightarrow> ipLimiter \<Rightarrow> ipLimiter" where
  "pruneLocked now l = l\<lparr>il_buckets := filter (\<lambda>(ip, b). \<not> refilled now l b) (il_buckets l)\<rparr>"

text \<open>The bucket of an address: the one there is, or a full one, after a pruning at 4096 buckets.\<close>

definition bucket_for :: "gotime \<Rightarrow> string \<Rightarrow> ipLimiter \<Rightarrow> ipBucket \<times> ipLimiter" where
  "bucket_for now ip l =
     (case alookup (il_buckets l) ip of
        Some b \<Rightarrow> (b, l)
      | None \<Rightarrow>
          let l = (if length (il_buckets l) \<ge> 4096 then pruneLocked now l else l)
          in (\<lparr>ib_tokens = il_burst l, ib_last = now\<rparr>, l))"

definition spend :: "gotime \<Rightarrow> ipLimiter \<Rightarrow> ipBucket \<Rightarrow> bool \<times> ipBucket" where
  "spend now l b =
     (let tokens = f64_add (ib_tokens b) (f64_mul (duration_seconds (now - ib_last b)) (il_perSec l));
          tokens = (if bf_cmp tokens (il_burst l) > 0 then il_burst l else tokens)
      in if bf_cmp tokens (float64_of_int 1) < 0 then (False, \<lparr>ib_tokens = tokens, ib_last = now\<rparr>)
         else (True, \<lparr>ib_tokens = f64_sub tokens (float64_of_int 1), ib_last = now\<rparr>))"

definition allow :: "gotime \<Rightarrow> string \<Rightarrow> ipLimiter \<Rightarrow> bool \<times> ipLimiter" where
  "allow now ip l =
     (let (b, l) = bucket_for now ip l; (ok, b) = spend now l b
      in (ok, l\<lparr>il_buckets := aput ip b (il_buckets l)\<rparr>))"

section \<open>A forged header changes nothing\<close>

lemma split_on_nonempty [simp]: "split_on c s \<noteq> []"
  by (induction s) (auto split: list.split)

lemma split_on_append: "split_on c (s @ c # t) = split_on c s @ split_on c t"
  by (induction s) (auto split: list.split)

lemma find_append: "List.find P (xs @ ys) = (case List.find P xs of Some x \<Rightarrow> Some x | None \<Rightarrow> List.find P ys)"
  by (induction xs) auto

text \<open>
  Forwarding headers cannot be forged past the proxies. Of a peer that is not a listed proxy, the peer's own address
  counts, whatever the headers say; behind a listed proxy, the address that the proxies have appended counts, whatever
  the client has put in front of it in the same header line.
\<close>

theorem forged_hops_ignored:
  assumes "\<exists>p\<in>set (split_on (CHR '','') hops). TrimSpace p \<noteq> '''' \<and> \<not> isTrustedProxy io nets (TrimSpace p)"
  shows "clientIP io nets remote [forged @ '','' @ hops] realIP = clientIP io nets remote [hops] realIP"
    "\<not> isTrustedProxy io nets (case io_host io remote of Some h \<Rightarrow> h | None \<Rightarrow> remote) \<Longrightarrow>
      clientIP io nets remote xff realIP = clientIP io nets remote [] []"
proof -
  have "last_external (isTrustedProxy io nets) (split_on (CHR '','') hops) \<noteq> None"
    using assms by (auto simp: last_external_def find_None_iff)
  moreover have "hops \<noteq> ''''"
  proof
    assume "hops = ''''"
    with assms show False by (simp add: TrimSpace_def)
  qed
  ultimately show "clientIP io nets remote [forged @ '','' @ hops] realIP = clientIP io nets remote [hops] realIP"
    by (auto simp: clientIP_def header_get_def split_on_append last_external_def find_append Let_def)
qed (simp add: clientIP_def Let_def)

text \<open>
  Only the first line of the header is read. A proxy that appends its hop as a line of its own leaves the client's
  line first, and the address is the one the client has chosen.
\<close>

theorem separate_line_is_forged:
  assumes "isTrustedProxy io nets (case io_host io remote of Some h \<Rightarrow> h | None \<Rightarrow> remote)" "CHR '','' \<notin> set forged"
    "TrimSpace forged \<noteq> ''''" "\<not> isTrustedProxy io nets (TrimSpace forged)"
  shows "clientIP io nets remote [forged, peer] realIP = TrimSpace forged"
proof -
  have "split_on (CHR '','') s = [s]" if "CHR '','' \<notin> set s" for s using that by (induction s) auto
  moreover have "forged \<noteq> ''''" using assms(3) by (auto simp: TrimSpace_def)
  ultimately show ?thesis using assms by (simp add: clientIP_def header_get_def last_external_def Let_def)
qed

section \<open>The limiter under spread addresses\<close>

lemma aput_new: "alookup m k = None \<Longrightarrow> aput k v m = m @ [(k, v)]"
  by (induction m) auto

lemma just_seen: "0 < bf_val (il_burst l) \<Longrightarrow> ib_last b = now \<Longrightarrow> \<not> refilled now l b"
proof -
  assume a: "0 < bf_val (il_burst l)" "ib_last b = now"
  have d: "bf_val (duration_seconds 0) = 0" using duration_seconds_near [of 0] by (simp add: relerr_def)
  have "near 53 (bf_val (f64_mul (duration_seconds 0) (il_perSec l))) 0"
    using bf_mulp_near [of 53 "duration_seconds 0" "il_perSec l"] by (simp add: d)
  then have "bf_val (f64_mul (duration_seconds 0) (il_perSec l)) = 0" by (simp add: near_def)
  then show ?thesis using a by (simp add: refilled_def bf_cmp_cases)
qed

text \<open>Buckets that were used just now are not evicted.\<close>

definition fresh_buckets :: "gotime \<Rightarrow> ipLimiter \<Rightarrow> bool" where
  "fresh_buckets now l \<longleftrightarrow> 0 < bf_val (il_burst l) \<and> (\<forall>(k, b)\<in>set (il_buckets l). \<not> refilled now l b)"

lemma allow_new:
  assumes "fresh_buckets now l" "alookup (il_buckets l) ip = None"
  shows "\<exists>b. il_buckets (snd (allow now ip l)) = il_buckets l @ [(ip, b)] \<and> fresh_buckets now (snd (allow now ip l))"
proof -
  have "filter (\<lambda>(ip, b). \<not> refilled now l b) (il_buckets l) = il_buckets l"
    using assms(1) by (intro filter_True) (auto simp: fresh_buckets_def)
  then have p: "pruneLocked now l = l" by (simp add: pruneLocked_def)
  obtain ok b where s: "spend now l \<lparr>ib_tokens = il_burst l, ib_last = now\<rparr> = (ok, b)"
    by (cases "spend now l \<lparr>ib_tokens = il_burst l, ib_last = now\<rparr>")
  then have "ib_last b = now" by (auto simp: spend_def Let_def split: if_splits)
  moreover have e: "snd (allow now ip l) = l\<lparr>il_buckets := il_buckets l @ [(ip, b)]\<rparr>"
    using assms(2) p s by (simp add: allow_def bucket_for_def Let_def aput_new)
  moreover have "refilled now (l\<lparr>il_buckets := bs\<rparr>) x = refilled now l x" for bs x by (simp add: refilled_def)
  ultimately show ?thesis using assms(1) just_seen [of l b now] by (auto simp: fresh_buckets_def)
qed

text \<open>
  The pruning does not bound the memory: requests of new addresses in the time a bucket takes to refill leave one
  bucket each, however many there are, and from 4096 on each one walks all of them.
\<close>

theorem spread_addresses_fill_memory:
  assumes "fresh_buckets now l" "distinct ips" "\<forall>ip\<in>set ips. alookup (il_buckets l) ip = None"
  shows "length (il_buckets (fold (\<lambda>ip l. snd (allow now ip l)) ips l)) = length (il_buckets l) + length ips"
  using assms
proof (induction ips arbitrary: l)
  case (Cons ip ips)
  obtain b where b: "il_buckets (snd (allow now ip l)) = il_buckets l @ [(ip, b)]" "fresh_buckets now (snd (allow now ip l))"
    using allow_new [of now l ip] Cons.prems by auto
  have look: "alookup (m @ [(ip, b)]) k = (case alookup m k of Some v \<Rightarrow> Some v | None \<Rightarrow> if k = ip then Some b else None)" for m k
    by (induction m) auto
  have "\<forall>k\<in>set ips. alookup (il_buckets (snd (allow now ip l))) k = None"
    using Cons.prems by (auto simp: b look)
  then show ?case using Cons.IH [OF b(2)] Cons.prems b(1) by simp
qed simp

section \<open>The requests of one address are limited\<close>

definition ip_view :: "ipLimiter \<Rightarrow> ipBucket \<Rightarrow> tokenBucket" where
  "ip_view l b = \<lparr>tb_tokens = ib_tokens b, tb_burst = il_burst l, tb_ratePerSec = il_perSec l, tb_last = ib_last b\<rparr>"

lemma ip_view_simps [simp]:
  "tb_tokens (ip_view l b) = ib_tokens b" "tb_burst (ip_view l b) = il_burst l" "tb_ratePerSec (ip_view l b) = il_perSec l"
  "tb_last (ip_view l b) = ib_last b"
  by (simp_all add: ip_view_def)

lemma spend_capped: "spend now l b = (a, b') \<Longrightarrow> capped_spend now (ip_view l b) = (a, ip_view l b')"
  by (auto simp: spend_def capped_spend_def spend_one_def ip_view_def bf_cmp_cases Let_def split: if_splits)

interpretation ip_bucket: token_bucket "\<lambda>now. spend now l" "ip_view l" False for l
proof
  fix b now a b'
  assume "bucket_ok (ip_view l b)" "False \<or> tb_last (ip_view l b) \<le> now" "spend now l b = (a, b')"
  then show "bucket_ok (ip_view l b') \<and> tb_burst (ip_view l b') = tb_burst (ip_view l b) \<and>
    tb_ratePerSec (ip_view l b') = tb_ratePerSec (ip_view l b) \<and> tb_last (ip_view l b') = max now (tb_last (ip_view l b)) \<and>
    bf_val (tb_tokens (ip_view l b')) + (if a then 1 else 0)
      \<le> bf_val (tb_tokens (ip_view l b)) + earned (ip_view l b) (tb_last (ip_view l b')) + bf_val (tb_burst (ip_view l b)) * 9 / 2 ^ 53"
    by (intro capped_spend_pays spend_capped) simp_all
qed

text \<open>Requests of any addresses in the order of time; how many of the address \<open>ip\<close> pass.\<close>

fun ip_run :: "string \<Rightarrow> (gotime \<times> string) list \<Rightarrow> ipLimiter \<Rightarrow> nat \<times> ipLimiter" where
  "ip_run ip [] l = (0, l)"
| "ip_run ip ((t, from) # qs) l =
     (let (ok, l) = allow t from l; (n, l) = ip_run ip qs l in (if ok \<and> from = ip then Suc n else n, l))"

text \<open>
  The account of an address at time \<open>t\<close>: \<open>n\<close> requests have passed and \<open>k\<close> calls have been made since \<open>start\<close>. The
  tokens of its bucket, or a full bucket if it has none, are what is left of burst and rate, up to rounding.
\<close>

definition account_ok :: "bigfloat \<Rightarrow> bigfloat \<Rightarrow> gotime \<Rightarrow> string \<Rightarrow> nat \<Rightarrow> nat \<Rightarrow> gotime \<Rightarrow> ipLimiter \<Rightarrow> bool" where
  "account_ok burst rate start ip n k t l \<longleftrightarrow>
     il_burst l = burst \<and> il_perSec l = rate \<and> distinct (akeys (il_buckets l)) \<and> start \<le> t \<and>
     (case alookup (il_buckets l) ip of
        Some b \<Rightarrow> bucket_ok (ip_view l b) \<and> ib_last b \<le> t \<and>
          of_nat n + bf_val (ib_tokens b) \<le> bf_val burst + bf_val rate * of_int (ib_last b - start) / 10 ^ 9 + of_nat k * (bf_val burst * 9 / 2 ^ 53)
      | None \<Rightarrow> of_nat n \<le> bf_val rate * of_int (t - start) / 10 ^ 9 + of_nat k * (bf_val burst * 9 / 2 ^ 53))"

lemma alookup_filter_pairs:
  "distinct (akeys m) \<Longrightarrow> alookup (filter (\<lambda>(k, b). P b) m) k = (case alookup m k of Some b \<Rightarrow> if P b then Some b else None | None \<Rightarrow> None)"
proof (induction m)
  case (Cons p m)
  have "alookup m k = None" if "k \<notin> set (akeys m)" for k using that by (induction m) auto
  then show ?case using Cons by (cases p) (auto split: option.splits)
qed simp

lemma distinct_filter_keys: "distinct (akeys m) \<Longrightarrow> distinct (akeys (filter P m))"
  by (simp add: akeys_def distinct_map_filter)

text \<open>An evicted bucket was full again: what it has earned pays for a new one.\<close>

lemma evicted_is_full:
  assumes "bucket_ok (ip_view l b)" "ib_last b \<le> now" "refilled now l b"
  shows "bf_val (il_burst l) \<le> earned (ip_view l b) now + bf_val (il_burst l) * 9 / 2 ^ 53"
proof -
  let ?el = "duration_seconds (now - ib_last b)" and ?v = "ip_view l b"
  have r: "0 \<le> bf_val (il_perSec l)" "f64 (il_perSec l)" using assms(1) by (simp_all add: bucket_ok_def)
  have 1: "relerr (4 / 2 ^ 53) (bf_val ?el * bf_val (il_perSec l)) (earned ?v now)"
    using relerr_mult [OF duration_seconds_near, of "now - ib_last b" "bf_val (il_perSec l)"] assms(2) r by (simp add: earned_def mult_ac)
  have "near 53 (bf_val (f64_mul ?el (il_perSec l))) (bf_val ?el * bf_val (il_perSec l))" using bf_mulp_near [of 53 ?el "il_perSec l"] by simp
  then have 2: "relerr (6 / 2 ^ 53) (bf_val (f64_mul ?el (il_perSec l))) (earned ?v now)"
    by (intro relerr_mono [OF relerr_trans [OF 1 relerr_near [where p = 53]]]) (simp_all add: divide_simps two_53)
  have pos: "0 \<le> earned ?v now" using assms(2) r by (simp add: earned_def)
  have b: "bf_val (il_burst l) \<le> bf_val (f64_mul ?el (il_perSec l))" using assms(3) by (simp add: refilled_def bf_cmp_cases split: if_splits)
  also have "\<dots> \<le> earned ?v now * (1 + 6 / 2 ^ 53)" using relerr_bounds(2) [OF 2 pos] .
  finally have f: "bf_val (il_burst l) \<le> earned ?v now * (1 + 6 / 2 ^ 53)" .
  show ?thesis
  proof (cases "earned ?v now \<le> bf_val (il_burst l)")
    case True
    then show ?thesis using f by (simp add: algebra_simps)
  next
    case False
    then show ?thesis using assms(1) by (simp add: bucket_ok_def)
  qed
qed

lemma slack_Suc: "of_nat (Suc k) * x = of_nat k * x + (x :: rat)"
  by (simp add: algebra_simps)

lemma account_waits:
  assumes "account_ok burst rate start ip n k t l" "t \<le> now" "0 \<le> bf_val burst" "0 \<le> bf_val rate"
  shows "account_ok burst rate start ip n (Suc k) now l"
proof -
  have "bf_val rate * of_int (t - start) / 10 ^ 9 \<le> bf_val rate * of_int (now - start) / 10 ^ 9"
    using assms(2,4) by (intro divide_right_mono mult_left_mono) simp_all
  moreover have "0 \<le> bf_val burst * 9 / 2 ^ 53" using assms(3) by simp
  ultimately show ?thesis using assms(1,2) unfolding account_ok_def slack_Suc by (auto split: option.splits)
qed

lemma account_pruned:
  assumes "account_ok burst rate start ip n k t l" "t \<le> now" "0 \<le> bf_val burst" "0 \<le> bf_val rate"
  shows "account_ok burst rate start ip n (Suc k) now (pruneLocked now l)"
proof (cases "\<exists>b. alookup (il_buckets l) ip = Some b \<and> refilled now l b")
  case True
  then obtain b where b: "alookup (il_buckets l) ip = Some b" "refilled now l b" by blast
  have a: "il_burst l = burst" "il_perSec l = rate" "distinct (akeys (il_buckets l))" "start \<le> t" "bucket_ok (ip_view l b)" "ib_last b \<le> t"
    "of_nat n + bf_val (ib_tokens b) \<le> bf_val burst + bf_val rate * of_int (ib_last b - start) / 10 ^ 9 + of_nat k * (bf_val burst * 9 / 2 ^ 53)"
    using assms(1) b(1) by (simp_all add: account_ok_def)
  have "bf_val burst \<le> bf_val rate * of_int (now - ib_last b) / 10 ^ 9 + bf_val burst * 9 / 2 ^ 53"
    using evicted_is_full [OF a(5) _ b(2)] a(1,2,6) assms(2) by (simp add: earned_def)
  moreover have "bf_val rate * of_int (now - ib_last b) / 10 ^ 9 + bf_val rate * of_int (ib_last b - start) / 10 ^ 9 =
      bf_val rate * of_int (now - start) / 10 ^ 9"
    by (simp add: field_simps)
  moreover have "0 \<le> bf_val (ib_tokens b)" using a(5) by (simp add: bucket_ok_def)
  ultimately have "of_nat n \<le> bf_val rate * of_int (now - start) / 10 ^ 9 + (of_nat k * (bf_val burst * 9 / 2 ^ 53) + bf_val burst * 9 / 2 ^ 53)"
    using a(7) by linarith
  then show ?thesis using a b assms(2) unfolding account_ok_def slack_Suc
    by (simp add: pruneLocked_def alookup_filter_pairs [of _ "\<lambda>b. \<not> refilled now l b"] distinct_filter_keys)
next
  case False
  have "account_ok burst rate start ip n (Suc k) now l" by (rule account_waits [OF assms])
  then show ?thesis using False unfolding account_ok_def
    by (auto simp: pruneLocked_def alookup_filter_pairs [of _ "\<lambda>b. \<not> refilled now l b"] distinct_filter_keys ip_view_def split: option.splits)
qed

lemma account_spends:
  assumes "account_ok burst rate start ip n k now l" "f64 burst" "f64 rate" "0 \<le> bf_val burst" "bf_val burst \<le> 2 ^ 53" "0 \<le> bf_val rate"
    and b: "b = (case alookup (il_buckets l) from of Some b \<Rightarrow> b | None \<Rightarrow> \<lparr>ib_tokens = il_burst l, ib_last = now\<rparr>)"
    and s: "spend now l b = (ok, b')"
  shows "account_ok burst rate start ip (if ok \<and> from = ip then Suc n else n) (Suc k) now (l\<lparr>il_buckets := aput from b' (il_buckets l)\<rparr>)"
proof (cases "from = ip")
  case False
  have "account_ok burst rate start ip n (Suc k) now l" by (rule account_waits [OF assms(1) order_refl assms(4,6)])
  then show ?thesis using False unfolding account_ok_def by (auto simp: ip_view_def split: option.splits)
next
  case True
  have l: "il_burst l = burst" "il_perSec l = rate" "distinct (akeys (il_buckets l))" "start \<le> now" using assms(1) by (simp_all add: account_ok_def)
  have pre: "bucket_ok (ip_view l b)" "ib_last b \<le> now"
    "of_nat n + bf_val (ib_tokens b) \<le> bf_val burst + bf_val rate * of_int (ib_last b - start) / 10 ^ 9 + of_nat k * (bf_val burst * 9 / 2 ^ 53)"
  proof -
    have "bucket_ok (ip_view l b) \<and> ib_last b \<le> now \<and>
      of_nat n + bf_val (ib_tokens b) \<le> bf_val burst + bf_val rate * of_int (ib_last b - start) / 10 ^ 9 + of_nat k * (bf_val burst * 9 / 2 ^ 53)"
    proof (cases "alookup (il_buckets l) ip")
      case None
      then show ?thesis using assms(1-6) l b True by (simp add: account_ok_def bucket_ok_def)
    next
      case (Some x)
      then show ?thesis using assms(1) l b True by (simp add: account_ok_def)
    qed
    then show "bucket_ok (ip_view l b)" "ib_last b \<le> now"
      "of_nat n + bf_val (ib_tokens b) \<le> bf_val burst + bf_val rate * of_int (ib_last b - start) / 10 ^ 9 + of_nat k * (bf_val burst * 9 / 2 ^ 53)"
      by blast+
  qed
  have p: "bucket_ok (ip_view l b')" "ib_last b' = now"
    "bf_val (ib_tokens b') + (if ok then 1 else 0) \<le> bf_val (ib_tokens b) + earned (ip_view l b) now + bf_val burst * 9 / 2 ^ 53"
    using ip_bucket.pays [OF pre(1) _ s] pre(2) l(1) by (auto simp: max_absorb1)
  have "earned (ip_view l b) now + bf_val rate * of_int (ib_last b - start) / 10 ^ 9 = bf_val rate * of_int (now - start) / 10 ^ 9"
    using l(2) by (simp add: earned_def field_simps)
  then have "of_nat (if ok then Suc n else n) + bf_val (ib_tokens b')
      \<le> bf_val burst + bf_val rate * of_int (now - start) / 10 ^ 9 + (of_nat k * (bf_val burst * 9 / 2 ^ 53) + bf_val burst * 9 / 2 ^ 53)"
    using p(3) pre(3) by (cases ok) simp_all
  then show ?thesis using True l p unfolding account_ok_def slack_Suc by (simp add: ip_view_def)
qed

lemma account_step:
  assumes "account_ok burst rate start ip n k t l" "t \<le> now" "f64 burst" "f64 rate" "0 \<le> bf_val burst" "bf_val burst \<le> 2 ^ 53" "0 \<le> bf_val rate"
    and "allow now from l = (ok, l')"
  shows "account_ok burst rate start ip (if ok \<and> from = ip then Suc n else n) (Suc (Suc k)) now l'"
proof -
  obtain b l1 where f: "bucket_for now from l = (b, l1)" by fastforce
  obtain b' where s: "spend now l1 b = (ok, b')" "l' = l1\<lparr>il_buckets := aput from b' (il_buckets l1)\<rparr>"
    using assms(8) f by (auto simp: allow_def split: prod.splits)
  have d: "distinct (akeys (il_buckets l))" using assms(1) by (simp add: account_ok_def)
  have "l1 = l \<or> l1 = pruneLocked now l"
    and b: "b = (case alookup (il_buckets l1) from of Some b \<Rightarrow> b | None \<Rightarrow> \<lparr>ib_tokens = il_burst l1, ib_last = now\<rparr>)"
    using f alookup_filter_pairs [OF d, of "\<lambda>b. \<not> refilled now l b" "from"]
    by (auto simp: bucket_for_def pruneLocked_def Let_def split: option.splits if_splits)
  then have "account_ok burst rate start ip n (Suc k) now l1"
    using account_waits [OF assms(1,2,5,7)] account_pruned [OF assms(1,2,5,7)] by blast
  then show ?thesis unfolding s(2) by (rule account_spends [OF _ assms(3-7) b s(1)])
qed

lemma account_run:
  assumes "account_ok burst rate start ip n k t l" "sorted (t # List.map fst qs)"
    and "f64 burst" "f64 rate" "0 \<le> bf_val burst" "bf_val burst \<le> 2 ^ 53" "0 \<le> bf_val rate" "ip_run ip qs l = (m, l')"
  shows "account_ok burst rate start ip (n + m) (k + 2 * length qs) (List.last (t # List.map fst qs)) l'"
  using assms
proof (induction qs arbitrary: n k t l m)
  case (Cons q qs)
  obtain now "from" where q: "q = (now, from)" by fastforce
  obtain ok l1 where 1: "allow now from l = (ok, l1)" by fastforce
  obtain m1 where 2: "ip_run ip qs l1 = (m1, l')" "m = (if ok \<and> from = ip then Suc m1 else m1)"
    using Cons.prems(8) 1 by (auto simp: q split: prod.splits if_splits)
  have "t \<le> now" "sorted (now # List.map fst qs)" using Cons.prems(2) by (auto simp: q)
  from Cons.IH [OF account_step [OF Cons.prems(1) this(1) Cons.prems(3-7) 1] this(2) Cons.prems(3-7) 2(1)]
  show ?case using 2(2) by (auto simp: q)
qed simp

text \<open>
  C32: Whatever other addresses do, and however often buckets are evicted, the requests of one address that pass are at most the
  burst plus the rate times the time, up to rounding.
\<close>

theorem address_rate_is_limited:
  assumes "1 \<le> perMin" "perMin < 2 ^ 53" "sorted (start # List.map fst qs)"
    "ip_run ip qs (newIPLimiter (float64_of_int perMin)) = (n, l)"
  shows "of_nat n \<le> of_int perMin + bf_val (il_perSec l) * of_int (List.last (start # List.map fst qs) - start) / 10 ^ 9
    + of_nat (2 * length qs) * (of_int perMin * 9 / 2 ^ 53)"
proof -
  let ?b = "float64_of_int perMin"
  define r where "r = f64_quo ?b (float64_of_int 60)"
  have v: "bf_val ?b = of_int perMin" using assms by (intro bf_val_float64_of_int) simp
  have "(of_int perMin :: rat) \<le> of_int (2 ^ 53)" using assms(2) by (subst of_int_le_iff) simp
  then have c: "f64 ?b" "0 \<le> bf_val ?b" "bf_val ?b \<le> 2 ^ 53" using assms(1) by (simp_all add: v)
  have "bf_val (float64_of_int 60) = 60" by (subst bf_val_float64_of_int) simp_all
  then have "near 53 (bf_val r) (of_int perMin / 60)"
    using bf_quop_near [where p = 53 and x = ?b and y = "float64_of_int 60"] by (simp add: r_def v)
  then have "sgn (bf_val r) = 1" using near_sgn [of 53 "bf_val r"] assms(1) by simp
  then have "0 \<le> bf_val r" by (simp add: sgn_1_pos)
  moreover have "f64 r" by (simp add: r_def f64_def bf_ok_pos)
  moreover have "account_ok ?b r start ip 0 0 start (newIPLimiter ?b)" by (simp add: account_ok_def newIPLimiter_def r_def)
  ultimately have a: "account_ok ?b r start ip (0 + n) (0 + 2 * length qs) (List.last (start # List.map fst qs)) l"
    using account_run [OF _ assms(3) c(1) _ c(2,3) _ assms(4)] by blast
  show ?thesis
  proof (cases "alookup (il_buckets l) ip")
    case None
    then show ?thesis using a assms(1) by (simp add: account_ok_def v)
  next
    case (Some b)
    have "bf_val r * of_int (ib_last b - start) / 10 ^ 9 \<le> bf_val r * of_int (List.last (start # List.map fst qs) - start) / 10 ^ 9"
      using a Some \<open>0 \<le> bf_val r\<close> by (intro divide_right_mono mult_left_mono) (simp_all add: account_ok_def)
    moreover have "0 \<le> bf_val (ib_tokens b)" using a Some by (simp add: account_ok_def bucket_ok_def)
    ultimately show ?thesis using a Some by (simp add: account_ok_def v)
  qed
qed

theorem address_rate_is_limited_witness:
  "\<exists>n l. ip_run ''a'' [(5, ''a''), (6, ''b''), (7, ''a'')] (newIPLimiter (float64_of_int 6)) = (n, l) \<and>
     of_nat n \<le> of_int 6 + bf_val (il_perSec l) * of_int (List.last [5, 5, 6, 7] - 5) / 10 ^ 9 + of_nat (2 * 3) * (of_int 6 * 9 / 2 ^ 53)"
proof -
  let ?qs = "[(5 :: gotime, ''a''), (6, ''b''), (7, ''a'')]"
  obtain n l where r: "ip_run ''a'' ?qs (newIPLimiter (float64_of_int 6)) = (n, l)"
    by (cases "ip_run ''a'' ?qs (newIPLimiter (float64_of_int 6))")
  have "sorted ((5 :: gotime) # List.map fst ?qs)" by simp
  from address_rate_is_limited [OF _ _ this r] show ?thesis using r by (intro exI [of _ n] exI [of _ l]) simp
qed

end
