(* ===== verification/SpRegister.thy ===== *)
theory SpRegister
  imports Auditor Filecoin CertIssuer ClientAddr
begin

text \<open>
  Self-registration of storage providers (\<open>gateway/spregister.go\<close>): challenges, the admission
  pipeline, certificates and their renewal. Chain reads, signature primitives, address and URL
  parsing, base64 and random sources are arguments. The lock of the registrar is held over the use
  of the challenge and over the insertion, not over the chain reads between them: what happens to
  registrar and fleet in between is an argument too (\<open>during\<close>).
\<close>

section \<open>State and requests\<close>

record sp_options =
  op_GatewayID :: string
  op_MinRawPower :: "int option"
  op_MinBalance :: "int option"
  op_ChallengeTTL :: duration
  op_RatePerMin :: int
  op_MaxSPs :: int

record spChallenge =
  sc_miner :: string
  sc_expires :: gotime

record spRegistrar =
  sr_opts :: sp_options
  sr_challenges :: "(string \<times> spChallenge) list"
  sr_ipl :: ipLimiter

definition EnableSPRegistration :: "sp_options \<Rightarrow> spRegistrar" where
  "EnableSPRegistration opts =
     (let opts = opts\<lparr>op_ChallengeTTL := (if op_ChallengeTTL opts \<le> 0 then 10 * minute else op_ChallengeTTL opts),
                      op_RatePerMin := (if op_RatePerMin opts \<le> 0 then 6 else op_RatePerMin opts),
                      op_MaxSPs := (if op_MaxSPs opts \<le> 0 then 1000 else op_MaxSPs opts)\<rparr>
      in \<lparr>sr_opts = opts, sr_challenges = [], sr_ipl = newIPLimiter (float64_of_int (op_RatePerMin opts))\<rparr>)"

definition minerIDRe :: "string \<Rightarrow> bool" where
  "minerIDRe s \<longleftrightarrow> (case s of p # z # ds \<Rightarrow> (p = CHR ''t'' \<or> p = CHR ''f'') \<and> z = CHR ''0'' \<and> ds \<noteq> [] \<and> list_all is_digit ds | _ \<Rightarrow> False)"

definition spWorkerIDRe :: "string \<Rightarrow> bool" where
  "spWorkerIDRe s \<longleftrightarrow> (case s of [] \<Rightarrow> False | c # cs \<Rightarrow> is_alnum c \<and> length cs \<le> 63 \<and>
     list_all (\<lambda>c. is_alnum c \<or> c \<in> {CHR ''.'', CHR ''_'', CHR ''-''}) cs)"

definition msg_line :: "string \<Rightarrow> string \<Rightarrow> string" where
  "msg_line label v = label @ '': '' @ v"

definition newline :: string where "newline = [CHR 0x0A]"

definition buildSPRegistrationMessage ::
  "string \<Rightarrow> string \<Rightarrow> string \<Rightarrow> string \<Rightarrow> string \<Rightarrow> string \<Rightarrow> string \<Rightarrow> string" where
  "buildSPRegistrationMessage minerID gatewayID workerID payout endpoint schedulerURL challenge =
     ''OpenModel SP registration'' @ newline @
     msg_line ''miner'' minerID @ newline @
     msg_line ''gateway'' gatewayID @ newline @
     msg_line ''worker_id'' workerID @ newline @
     msg_line ''payout'' payout @ newline @
     msg_line ''endpoint'' endpoint @ newline @
     msg_line ''scheduler_url'' schedulerURL @ newline @
     msg_line ''challenge'' challenge"

record spRegisterRequest =
  rq_MinerID :: string
  rq_WorkerID :: string
  rq_Payout :: string
  rq_Endpoint :: string
  rq_SchedulerURL :: string
  rq_Models :: "string list"
  rq_GPUCount :: int
  rq_Challenge :: string
  rq_Signer :: string
  rq_SigType :: nat
  rq_SigData :: string
  rq_CSR :: string

record spRegisterResponse =
  rp_WorkerID :: string
  rp_AuthToken :: string
  rp_MinerID :: string
  rp_Payout :: string
  rp_Rotated :: bool
  rp_Cert :: "certificate option"
  rp_CACert :: string
  rp_NotAfter :: gotime

text \<open>What the chain and the libraries answer during a request, and the random token.\<close>

record sp_env =
  se_sig :: sig_ops
  se_info :: "string \<Rightarrow> (string \<times> string) option"
  se_key :: "string \<Rightarrow> string option"
  se_power :: "string \<Rightarrow> int option"
  se_balance :: "string \<Rightarrow> int option"
  se_isHex :: "string \<Rightarrow> bool"
  se_hex :: "string \<Rightarrow> string"
  se_url :: "string \<Rightarrow> (string \<times> string) option"
  se_urlOK :: "string \<Rightarrow> bool"
  se_base64 :: "string \<Rightarrow> string option"
  se_token :: "string option"
  se_csr :: "string \<Rightarrow> csr option"
  se_signs :: "certificate \<Rightarrow> bool"

section \<open>Challenges\<close>

definition pruneChallengesLocked :: "gotime \<Rightarrow> spRegistrar \<Rightarrow> spRegistrar" where
  "pruneChallengesLocked now reg = reg\<lparr>sr_challenges := filter (\<lambda>(c, ch). \<not> now > sc_expires ch) (sr_challenges reg)\<rparr>"

text \<open>\<open>random\<close> is the hexadecimal text of the bytes read, if they can be read; the body is the miner id.\<close>

definition handleSPChallenge ::
  "gotime \<Rightarrow> string option \<Rightarrow> bool \<Rightarrow> string \<Rightarrow> string option \<Rightarrow> spRegistrar option \<Rightarrow> (int + string \<times> gotime) \<times> spRegistrar option" where
  "handleSPChallenge now random post ip body spReg =
     (case spReg of
        None \<Rightarrow> (Inl 404, spReg)
      | Some reg \<Rightarrow>
          if \<not> post then (Inl 405, spReg)
          else let (ok, ipl) = allow now ip (sr_ipl reg); reg = reg\<lparr>sr_ipl := ipl\<rparr>
               in if \<not> ok then (Inl 429, Some reg)
                  else case body of
                         None \<Rightarrow> (Inl 400, Some reg)
                       | Some miner \<Rightarrow>
                           if \<not> minerIDRe miner then (Inl 400, Some reg)
                           else case random of
                                  None \<Rightarrow> (Inl 500, Some reg)
                                | Some c \<Rightarrow>
                                    let expires = now + op_ChallengeTTL (sr_opts reg);
                                        reg = pruneChallengesLocked now reg
                                    in (Inr (c, expires),
                                        Some (reg\<lparr>sr_challenges := aput c \<lparr>sc_miner = miner, sc_expires = expires\<rparr> (sr_challenges reg)\<rparr>)))"

section \<open>Admission\<close>

definition validHTTPURL :: "(string \<Rightarrow> (string \<times> string) option) \<Rightarrow> string \<Rightarrow> bool" where
  "validHTTPURL parse s =
     (case parse s of None \<Rightarrow> False | Some (scheme, host) \<Rightarrow> (scheme = ''http'' \<or> scheme = ''https'') \<and> host \<noteq> '''')"

definition signerControlsMiner :: "sp_env \<Rightarrow> string \<Rightarrow> string \<Rightarrow> string \<Rightarrow> bool option" where
  "signerControlsMiner env signer ownerID workerKeyID =
     (case se_key env workerKeyID of
        None \<Rightarrow> None
      | Some workerKey \<Rightarrow>
          if SameKey (se_sig env) signer workerKey then Some True
          else case se_key env ownerID of
                 None \<Rightarrow> None
               | Some ownerKey \<Rightarrow> Some (SameKey (se_sig env) signer ownerKey))"

text \<open>A threshold that is nil or not positive is off; \<open>None\<close> is a pass.\<close>

definition threshold :: "int option \<Rightarrow> int option \<Rightarrow> int option" where
  "threshold least reading =
     (case least of
        None \<Rightarrow> None
      | Some m \<Rightarrow>
          if m \<le> 0 then None
          else case reading of None \<Rightarrow> Some 502 | Some v \<Rightarrow> if v < m then Some 403 else None)"

text \<open>The checks of the fields: the signature's bytes, or the status of the refusal.\<close>

definition check_fields :: "sp_env \<Rightarrow> spRegisterRequest \<Rightarrow> string option" where
  "check_fields env rq =
     (if \<not> minerIDRe (rq_MinerID rq) then None
      else if \<not> spWorkerIDRe (rq_WorkerID rq) then None
      else if \<not> se_isHex env (rq_Payout rq) then None
      else if \<not> validHTTPURL (se_url env) (rq_Endpoint rq) \<or> \<not> validHTTPURL (se_url env) (rq_SchedulerURL rq) then None
      else case se_base64 env (rq_SigData rq) of
             None \<Rightarrow> None
           | Some sigBytes \<Rightarrow> if sigBytes = '''' then None else Some sigBytes)"

definition use_challenge :: "string \<Rightarrow> spRegistrar \<Rightarrow> spChallenge option \<times> spRegistrar" where
  "use_challenge c reg = (alookup (sr_challenges reg) c, reg\<lparr>sr_challenges := adel c (sr_challenges reg)\<rparr>)"

definition registration_message :: "string \<Rightarrow> spRegisterRequest \<Rightarrow> string" where
  "registration_message gatewayID rq =
     buildSPRegistrationMessage (rq_MinerID rq) gatewayID (rq_WorkerID rq) (rq_Payout rq) (rq_Endpoint rq) (rq_SchedulerURL rq) (rq_Challenge rq)"

text \<open>Proof of control and thresholds; \<open>None\<close> is a pass.\<close>

definition check_control :: "sp_env \<Rightarrow> sp_options \<Rightarrow> string \<Rightarrow> spRegisterRequest \<Rightarrow> int option" where
  "check_control env opts sigBytes rq =
     (if \<not> VerifySignature (se_sig env) (rq_SigType rq) sigBytes (rq_Signer rq) (registration_message (op_GatewayID opts) rq) then Some 401
      else case se_info env (rq_MinerID rq) of
             None \<Rightarrow> Some 502
           | Some (ownerID, workerKeyID) \<Rightarrow>
               (case signerControlsMiner env (rq_Signer rq) ownerID workerKeyID of
                  None \<Rightarrow> Some 502
                | Some False \<Rightarrow> Some 403
                | Some True \<Rightarrow>
                    (case threshold (op_MinRawPower opts) (se_power env (rq_MinerID rq)) of
                       Some st \<Rightarrow> Some st
                     | None \<Rightarrow> threshold (op_MinBalance opts) (se_balance env (rq_MinerID rq)))))"

section \<open>Insertion\<close>

definition clean_models :: "string list \<Rightarrow> string list" where
  "clean_models ms =
     List.map TrimSpace (filter (\<lambda>m. let l = length (TrimSpace m) in l > 0 \<and> l \<le> 128) (take 16 ms))"

text \<open>Whether the registration updates an existing one, or the status of the refusal.\<close>

definition check_unique :: "sp_options \<Rightarrow> spRegisterRequest \<Rightarrow> registry \<Rightarrow> int + bool" where
  "check_unique opts rq r =
     (let existing = FindByMiner r (rq_MinerID rq);
          rotated = (existing \<noteq> None)
      in if (case existing of Some w \<Rightarrow> wk_id w \<noteq> rq_WorkerID rq | None \<Rightarrow> False) then Inl 409
         else if (case Get r (rq_WorkerID rq) of Some w \<Rightarrow> wk_miner w \<noteq> rq_MinerID rq | None \<Rightarrow> False) then Inl 409
         else if \<not> rotated \<and> Get r (rq_WorkerID rq) = None \<and> int (CountWorkers r) \<ge> op_MaxSPs opts then Inl 503
         else Inr rotated)"

definition sp_registration :: "sp_env \<Rightarrow> string \<Rightarrow> spRegisterRequest \<Rightarrow> registration" where
  "sp_registration env token rq =
     \<lparr>reg_id = rq_WorkerID rq, reg_endpoint = rq_Endpoint rq, reg_scheduler = rq_SchedulerURL rq, reg_gpus = rq_GPUCount rq,
      reg_miner = rq_MinerID rq, reg_supported = clean_models (rq_Models rq), reg_token = token,
      reg_payout = se_hex env (rq_Payout rq), reg_self = True\<rparr>"

definition register_cert ::
  "sp_env \<Rightarrow> gotime \<Rightarrow> spRegisterRequest \<Rightarrow> certIssuer option \<Rightarrow> (certificate option \<times> string \<times> gotime) \<times> certIssuer option" where
  "register_cert env now rq issuer =
     (case issuer of
        None \<Rightarrow> ((None, '''', 0), None)
      | Some ci \<Rightarrow>
          if rq_CSR rq = '''' then ((None, '''', 0), issuer)
          else case issueFromCSR (se_csr env) (se_signs env) now (rq_CSR rq) (rq_WorkerID rq) ci of
                 (None, ci) \<Rightarrow> ((None, '''', 0), Some ci)
               | (Some c, ci) \<Rightarrow> ((Some c, ci_pem ci, now + ci_validity ci), Some ci))"

definition insert_sp ::
  "sp_env \<Rightarrow> bool \<Rightarrow> gotime \<Rightarrow> sp_options \<Rightarrow> spRegisterRequest \<Rightarrow> registry \<Rightarrow> certIssuer option \<Rightarrow>
   (int + spRegisterResponse) \<times> registry \<times> certIssuer option" where
  "insert_sp env disk now opts rq r issuer =
     (case check_unique opts rq r of
        Inl st \<Rightarrow> (Inl st, r, issuer)
      | Inr rotated \<Rightarrow>
          (case se_token env of
             None \<Rightarrow> (Inl 500, r, issuer)
           | Some token \<Rightarrow>
               (case Register (se_urlOK env) disk now (sp_registration env token rq) r of
                  (Inl _, r) \<Rightarrow> (Inl 400, r, issuer)
                | (Inr _, r) \<Rightarrow>
                    let ((cert, ca, notAfter), issuer) = register_cert env now rq issuer
                    in (Inr \<lparr>rp_WorkerID = rq_WorkerID rq, rp_AuthToken = token, rp_MinerID = rq_MinerID rq,
                             rp_Payout = se_hex env (rq_Payout rq), rp_Rotated = rotated, rp_Cert = cert, rp_CACert = ca,
                             rp_NotAfter = notAfter\<rparr>, r, issuer))))"

record sp_state =
  ss_reg :: "spRegistrar option"
  ss_fleet :: registry
  ss_issuer :: "certIssuer option"

definition handleSPRegister ::
  "sp_env \<Rightarrow> bool \<Rightarrow> gotime \<Rightarrow> (sp_state \<Rightarrow> sp_state) \<Rightarrow> bool \<Rightarrow> string \<Rightarrow> spRegisterRequest option \<Rightarrow> sp_state \<Rightarrow> (int + spRegisterResponse) \<times> sp_state" where
  "handleSPRegister env disk now during post ip body s =
     (case ss_reg s of
        None \<Rightarrow> (Inl 404, s)
      | Some reg \<Rightarrow>
          if \<not> post then (Inl 405, s)
          else let (ok, ipl) = allow now ip (sr_ipl reg); reg = reg\<lparr>sr_ipl := ipl\<rparr>; s = s\<lparr>ss_reg := Some reg\<rparr>
               in if \<not> ok then (Inl 429, s)
                  else case body of
                         None \<Rightarrow> (Inl 400, s)
                       | Some rq \<Rightarrow>
                           (case check_fields env rq of
                              None \<Rightarrow> (Inl 400, s)
                            | Some sigBytes \<Rightarrow>
                                let (ch, reg) = use_challenge (rq_Challenge rq) reg; s = s\<lparr>ss_reg := Some reg\<rparr>
                                in if (case ch of None \<Rightarrow> True | Some c \<Rightarrow> now > sc_expires c \<or> sc_miner c \<noteq> rq_MinerID rq) then (Inl 400, s)
                                   else case check_control env (sr_opts reg) sigBytes rq of
                                          Some st \<Rightarrow> (Inl st, during s)
                                        | None \<Rightarrow>
                                            let s = during s;
                                                (res, r, issuer) = insert_sp env disk now (sr_opts reg) rq (ss_fleet s) (ss_issuer s)
                                            in (res, s\<lparr>ss_fleet := r, ss_issuer := issuer\<rparr>)))"

section \<open>Renewal\<close>

definition bearerToken :: "string \<Rightarrow> string" where
  "bearerToken h = (if HasPrefix h ''Bearer '' then TrimSpace (TrimPrefix h ''Bearer '') else '''')"

definition handleSPRenewCert ::
  "sp_env \<Rightarrow> gotime \<Rightarrow> bool \<Rightarrow> string \<Rightarrow> string option \<Rightarrow> sp_state \<Rightarrow> (int + string \<times> certificate \<times> string \<times> gotime) \<times> sp_state" where
  "handleSPRenewCert env now post auth body s =
     (case ss_issuer s of
        None \<Rightarrow> (Inl 404, s)
      | Some ci \<Rightarrow>
          if \<not> post then (Inl 405, s)
          else if bearerToken auth = '''' then (Inl 401, s)
          else case FindByToken (ss_fleet s) (bearerToken auth) of
                 None \<Rightarrow> (Inl 401, s)
               | Some w \<Rightarrow>
                   if IsBanned w now then (Inl 403, s)
                   else case body of
                          None \<Rightarrow> (Inl 400, s)
                        | Some csrText \<Rightarrow>
                            if csrText = '''' then (Inl 400, s)
                            else case issueFromCSR (se_csr env) (se_signs env) now csrText (wk_id w) ci of
                                   (None, ci) \<Rightarrow> (Inl 400, s\<lparr>ss_issuer := Some ci\<rparr>)
                                 | (Some c, ci) \<Rightarrow> (Inr (wk_id w, c, ci_pem ci, now + ci_validity ci), s\<lparr>ss_issuer := Some ci\<rparr>))"

section \<open>Thresholds in FIL\<close>

text \<open>\<open>big.Rat.SetString\<close> is an argument: a numerator and a positive denominator.\<close>

definition ParseFILToAtto :: "(string \<Rightarrow> (int \<times> int) option) \<Rightarrow> string \<Rightarrow> int option" where
  "ParseFILToAtto rat s =
     (let s = TrimSpace s
      in if s = '''' \<or> s = ''0'' then Some 0
         else case rat s of
                None \<Rightarrow> None
              | Some (n, d) \<Rightarrow> if n < 0 then None else Some ((n * 10 ^ 18) div d))"
section \<open>Who is admitted\<close>

text \<open>The signer is the worker key or the owner key of the miner, by the chain.\<close>

definition controls :: "sp_env \<Rightarrow> string \<Rightarrow> string \<Rightarrow> bool" where
  "controls env signer miner \<longleftrightarrow>
     (\<exists>ownerID workerKeyID idAddr key. se_info env miner = Some (ownerID, workerKeyID) \<and> idAddr \<in> {ownerID, workerKeyID} \<and>
        se_key env idAddr = Some key \<and> SameKey (se_sig env) signer key)"

definition meets :: "int option \<Rightarrow> int option \<Rightarrow> bool" where
  "meets least reading \<longleftrightarrow> (case least of None \<Rightarrow> True | Some m \<Rightarrow> m \<le> 0 \<or> (\<exists>v\<ge>m. reading = Some v))"

lemma threshold_None: "threshold least reading = None \<longleftrightarrow> meets least reading"
  by (auto simp: threshold_def meets_def split: option.split)

lemma signer_True: "signerControlsMiner env signer ownerID workerKeyID = Some True \<Longrightarrow> se_info env miner = Some (ownerID, workerKeyID) \<Longrightarrow> controls env signer miner"
  by (auto simp: signerControlsMiner_def controls_def split: option.splits if_splits)

lemma check_control_None:
  assumes "check_control env opts sg rq = None"
  shows "VerifySignature (se_sig env) (rq_SigType rq) sg (rq_Signer rq) (registration_message (op_GatewayID opts) rq)"
    "controls env (rq_Signer rq) (rq_MinerID rq)" "meets (op_MinRawPower opts) (se_power env (rq_MinerID rq))"
    "meets (op_MinBalance opts) (se_balance env (rq_MinerID rq))"
  using assms by (auto simp: check_control_def threshold_None [symmetric] intro: signer_True split: if_splits option.splits prod.splits bool.splits)

lemma check_fields_Some:
  assumes "check_fields env rq = Some sg"
  shows "minerIDRe (rq_MinerID rq)" "spWorkerIDRe (rq_WorkerID rq)" "se_isHex env (rq_Payout rq)"
    "validHTTPURL (se_url env) (rq_Endpoint rq)" "validHTTPURL (se_url env) (rq_SchedulerURL rq)" "se_base64 env (rq_SigData rq) = Some sg"
  using assms by (auto simp: check_fields_def split: if_splits option.splits)

text \<open>The registrar after the limiter and the use of the challenge.\<close>

definition after_use :: "gotime \<Rightarrow> string \<Rightarrow> spRegisterRequest \<Rightarrow> spRegistrar \<Rightarrow> spRegistrar" where
  "after_use now ip rq reg = snd (use_challenge (rq_Challenge rq) (reg\<lparr>sr_ipl := snd (allow now ip (sr_ipl reg))\<rparr>))"

lemma after_use_sel [simp]: "sr_opts (after_use now ip rq reg) = sr_opts reg" "sr_challenges (after_use now ip rq reg) = adel (rq_Challenge rq) (sr_challenges reg)"
  by (simp_all add: after_use_def use_challenge_def)

lemma register_success:
  assumes "handleSPRegister env disk now during post ip body s = (Inr rp, s')"
  obtains reg rq sg ch where "ss_reg s = Some reg" "post" "body = Some rq" "check_fields env rq = Some sg"
    "alookup (sr_challenges reg) (rq_Challenge rq) = Some ch" "now \<le> sc_expires ch" "sc_miner ch = rq_MinerID rq"
    "check_control env (sr_opts reg) sg rq = None"
    "insert_sp env disk now (sr_opts reg) rq (ss_fleet (during (s\<lparr>ss_reg := Some (after_use now ip rq reg)\<rparr>)))
       (ss_issuer (during (s\<lparr>ss_reg := Some (after_use now ip rq reg)\<rparr>))) = (Inr rp, ss_fleet s', ss_issuer s')"
    "ss_reg s' = ss_reg (during (s\<lparr>ss_reg := Some (after_use now ip rq reg)\<rparr>))"
proof -
  obtain reg where reg: "ss_reg s = Some reg" using assms by (auto simp: handleSPRegister_def split: option.splits)
  have post using assms reg by (auto simp: handleSPRegister_def split: if_splits)
  obtain ok ipl where a: "allow now ip (sr_ipl reg) = (ok, ipl)" by (cases "allow now ip (sr_ipl reg)")
  have ok using assms reg \<open>post\<close> a by (auto simp: handleSPRegister_def Let_def split: if_splits)
  obtain rq where rq: "body = Some rq" using assms reg \<open>post\<close> a \<open>ok\<close> by (auto simp: handleSPRegister_def Let_def split: option.splits)
  obtain sg where sg: "check_fields env rq = Some sg"
    using assms reg \<open>post\<close> a \<open>ok\<close> rq by (auto simp: handleSPRegister_def Let_def split: option.splits)
  have u: "use_challenge (rq_Challenge rq) (reg\<lparr>sr_ipl := ipl\<rparr>) = (alookup (sr_challenges reg) (rq_Challenge rq), after_use now ip rq reg)"
    by (simp add: after_use_def use_challenge_def a)
  note h = assms [unfolded handleSPRegister_def reg option.case a rq sg Let_def prod.case u]
  obtain ch where ch: "alookup (sr_challenges reg) (rq_Challenge rq) = Some ch" "now \<le> sc_expires ch" "sc_miner ch = rq_MinerID rq"
    using h \<open>post\<close> \<open>ok\<close> by (auto simp: u split: option.splits if_splits)
  have cc: "check_control env (sr_opts reg) sg rq = None"
    using h \<open>post\<close> \<open>ok\<close> ch by (auto simp: u split: option.splits if_splits)
  let ?s = "during (s\<lparr>ss_reg := Some (after_use now ip rq reg)\<rparr>)"
  obtain res r issuer where i: "insert_sp env disk now (sr_opts reg) rq (ss_fleet ?s) (ss_issuer ?s) = (res, r, issuer)"
    by (metis prod_cases3)
  have "res = Inr rp" "s' = ?s\<lparr>ss_fleet := r, ss_issuer := issuer\<rparr>"
    using h \<open>post\<close> \<open>ok\<close> ch cc i by (simp_all add: u)
  then show ?thesis using that [OF reg \<open>post\<close> rq sg ch cc] i by simp
qed

lemma insert_success:
  assumes "insert_sp env disk now opts rq r issuer = (Inr rp, r', issuer')"
  obtains rotated token res where "check_unique opts rq r = Inr rotated" "se_token env = Some token"
    "Register (se_urlOK env) disk now (sp_registration env token rq) r = (Inr res, r')"
    "rp_WorkerID rp = rq_WorkerID rq" "rp_AuthToken rp = token" "rp_MinerID rp = rq_MinerID rq" "rp_Payout rp = se_hex env (rq_Payout rq)"
    "((rp_Cert rp, rp_CACert rp, rp_NotAfter rp), issuer') = register_cert env now rq issuer"
  using assms by (auto simp: insert_sp_def Let_def split: sum.splits option.splits prod.splits)

lemma Register_lookup:
  assumes "Register url_ok disk now reg r = (Inr res, r')"
  shows "\<exists>w. alookup (rg_workers r') (reg_id reg) = Some w \<and> wk_miner w = reg_miner reg \<and> wk_token w = reg_token reg \<and>
      (reg_payout reg \<noteq> '''' \<longrightarrow> wk_payout w = reg_payout reg) \<and> (reg_self reg \<longrightarrow> wk_self w) \<and> wk_endpoint w = reg_endpoint reg \<and>
      (case alookup (rg_workers r) (reg_id reg) of
         Some v \<Rightarrow> wk_bannedUntil w = wk_bannedUntil v \<and> wk_banReason w = wk_banReason v \<and> wk_verified w = wk_verified v
       | None \<Rightarrow> wk_bannedUntil w = 0 \<and> wk_verified w = [])"
    "k \<noteq> reg_id reg \<Longrightarrow> alookup (rg_workers r') k = alookup (rg_workers r) k"
  using assms
  by (auto simp: Register_def fleet_simps reregister_def first_registered_def blank_worker_def split: if_splits option.splits)
text \<open>
  C22: Admission is earned. An accepted registration used a challenge that was open for this miner and is closed
  now; its message was signed by a key the chain names as the miner's owner or worker; the miner met the thresholds
  that are set; and what is in the fleet afterwards under the worker id is a self-registered worker of that miner with the new
  token and the payout address of the signed message, banned as it was before.
\<close>

theorem admission_is_earned:
  assumes "handleSPRegister env disk now during post ip body s = (Inr rp, s')"
  shows "\<exists>reg rq ch sg w. ss_reg s = Some reg \<and> body = Some rq \<and>
    alookup (sr_challenges reg) (rq_Challenge rq) = Some ch \<and> now \<le> sc_expires ch \<and> sc_miner ch = rq_MinerID rq \<and>
    VerifySignature (se_sig env) (rq_SigType rq) sg (rq_Signer rq) (registration_message (op_GatewayID (sr_opts reg)) rq) \<and>
    controls env (rq_Signer rq) (rq_MinerID rq) \<and>
    meets (op_MinRawPower (sr_opts reg)) (se_power env (rq_MinerID rq)) \<and> meets (op_MinBalance (sr_opts reg)) (se_balance env (rq_MinerID rq)) \<and>
    alookup (rg_workers (ss_fleet s')) (rq_WorkerID rq) = Some w \<and> wk_miner w = rq_MinerID rq \<and> wk_self w \<and> wk_token w = rp_AuthToken rp \<and>
    (se_hex env (rq_Payout rq) \<noteq> '''' \<longrightarrow> wk_payout w = se_hex env (rq_Payout rq)) \<and>
    (let old = ss_fleet (during (s\<lparr>ss_reg := Some (after_use now ip rq reg)\<rparr>))
     in ban_of old (rq_WorkerID rq) \<noteq> None \<longrightarrow> ban_of (ss_fleet s') (rq_WorkerID rq) = ban_of old (rq_WorkerID rq))"
  using assms
proof (cases rule: register_success)
  case (1 reg rq sg ch)
  from 1(9) obtain rotated token res where i: "Register (se_urlOK env) disk now (sp_registration env token rq)
      (ss_fleet (during (s\<lparr>ss_reg := Some (after_use now ip rq reg)\<rparr>))) = (Inr res, ss_fleet s')" "rp_AuthToken rp = token"
    by (rule insert_success)
  from Register_lookup(1) [OF i(1)] obtain w where w: "alookup (rg_workers (ss_fleet s')) (rq_WorkerID rq) = Some w"
    "wk_miner w = rq_MinerID rq" "wk_token w = token" "se_hex env (rq_Payout rq) \<noteq> '''' \<longrightarrow> wk_payout w = se_hex env (rq_Payout rq)" "wk_self w"
    "case alookup (rg_workers (ss_fleet (during (s\<lparr>ss_reg := Some (after_use now ip rq reg)\<rparr>)))) (rq_WorkerID rq) of
       Some v \<Rightarrow> wk_bannedUntil w = wk_bannedUntil v \<and> wk_banReason w = wk_banReason v \<and> wk_verified w = wk_verified v
     | None \<Rightarrow> wk_bannedUntil w = 0 \<and> wk_verified w = []"
    by (auto simp: sp_registration_def)
  have "let old = ss_fleet (during (s\<lparr>ss_reg := Some (after_use now ip rq reg)\<rparr>))
     in ban_of old (rq_WorkerID rq) \<noteq> None \<longrightarrow> ban_of (ss_fleet s') (rq_WorkerID rq) = ban_of old (rq_WorkerID rq)"
    using w(1,6) by (auto simp: ban_of_def Let_def split: option.splits)
  moreover note 1(1,3,5-8) check_control_None [OF 1(8)] w(1-5) i(2)
  ultimately show ?thesis
    by (intro exI [of _ reg] exI [of _ rq] exI [of _ ch] exI [of _ sg] exI [of _ w] conjI) (assumption | simp)+
qed

section \<open>A challenge works once\<close>

text \<open>
  Whatever a registration ends in, a challenge it has got as far as looking up is gone, and a request with a challenge
  that is not open is never accepted.
\<close>

theorem challenge_works_once:
  assumes "ss_reg s = Some reg" "post" "fst (allow now ip (sr_ipl reg))" "check_fields env rq \<noteq> None"
    "\<And>t. ss_reg (during t) = ss_reg t"
  shows "\<exists>reg'. ss_reg (snd (handleSPRegister env disk now during post ip (Some rq) s)) = Some reg' \<and>
      alookup (sr_challenges reg') (rq_Challenge rq) = None \<and>
      (\<forall>env2 disk2 now2 during2 post2 ip2 rq2 s2. ss_reg s2 = Some reg' \<and> rq_Challenge rq2 = rq_Challenge rq \<longrightarrow>
        (\<exists>st. fst (handleSPRegister env2 disk2 now2 during2 post2 ip2 (Some rq2) s2) = Inl st))"
proof -
  obtain sg where sg: "check_fields env rq = Some sg" using assms(4) by auto
  obtain ipl where a: "allow now ip (sr_ipl reg) = (True, ipl)" using assms(3) by (cases "allow now ip (sr_ipl reg)") auto
  have u: "use_challenge (rq_Challenge rq) (reg\<lparr>sr_ipl := ipl\<rparr>) = (alookup (sr_challenges reg) (rq_Challenge rq), after_use now ip rq reg)"
    by (simp add: after_use_def use_challenge_def a)
  have r: "ss_reg (snd (handleSPRegister env disk now during post ip (Some rq) s)) = Some (after_use now ip rq reg)"
    using assms(1,2,5) sg a u by (simp add: handleSPRegister_def Let_def case_prod_beta split: option.split)
  have gone: "alookup (sr_challenges (after_use now ip rq reg)) (rq_Challenge rq) = None" by simp
  have "\<exists>st. fst (handleSPRegister env2 disk2 now2 during2 post2 ip2 (Some rq2) s2) = Inl st"
    if "ss_reg s2 = Some (after_use now ip rq reg)" "rq_Challenge rq2 = rq_Challenge rq" for env2 disk2 now2 during2 post2 ip2 rq2 s2
  proof (cases "fst (handleSPRegister env2 disk2 now2 during2 post2 ip2 (Some rq2) s2)")
    case (Inr rp)
    then obtain s' where "handleSPRegister env2 disk2 now2 during2 post2 ip2 (Some rq2) s2 = (Inr rp, s')" by (metis prod.collapse)
    then show ?thesis by (cases rule: register_success) (use that gone in auto)
  qed simp
  then show ?thesis using r gone by blast
qed

section \<open>One worker for a miner id\<close>

definition miners_distinct :: "registry \<Rightarrow> bool" where
  "miners_distinct r \<longleftrightarrow>
     (\<forall>k w k' w'. alookup (rg_workers r) k = Some w \<and> alookup (rg_workers r) k' = Some w' \<and> wk_miner w = wk_miner w' \<and> wk_miner w \<noteq> '''' \<longrightarrow> k = k')"

lemma Register_workers:
  "Register url_ok disk now reg r = (Inr res, r') \<Longrightarrow> rg_workers r' = aput (reg_id reg) (rs_worker res) (rg_workers r)"
  by (auto simp: Register_def fleet_simps split: if_splits option.splits)

lemma length_aput: "length (aput k v m) = (if alookup m k = None then Suc (length m) else length m)"
  by (induction m) (auto split: if_splits)

lemma find_SomeD: "List.find P xs = Some x \<Longrightarrow> x \<in> set xs \<and> P x"
  by (induction xs) (auto split: if_splits)

lemma FindByMiner_None:
  "FindByMiner r m = None \<Longrightarrow> alookup (rg_workers r) k = Some w \<Longrightarrow> wk_miner w \<noteq> m"
  by (fastforce simp: FindByMiner_def find_None_iff dest: alookup_in_set)

lemma FindByMiner_Some:
  assumes "FindByMiner r m = Some w" "registry_ok r"
  shows "\<exists>v. alookup (rg_workers r) (wk_id w) = Some v \<and> wk_miner v = m"
proof -
  obtain v where f: "List.find (\<lambda>w. wk_miner w = m) (List.map snd (rg_workers r)) = Some v" "w = snapshot r v"
    using assms(1) by (auto simp: FindByMiner_def)
  have v: "v \<in> set (List.map snd (rg_workers r))" "wk_miner v = m" "w = snapshot r v"
    using find_SomeD [OF f(1)] f(2) by simp_all
  then obtain k where k: "(k, v) \<in> set (rg_workers r)" by auto
  have ok: "workers_ok (rg_workers r)" using assms(2) by (simp add: registry_ok_def)
  then have "alookup (rg_workers r) k = Some v" using k in_set_alookup by (auto simp: workers_ok_def)
  moreover from this have "wk_id v = k" using ok by (simp add: workers_ok_def)
  ultimately show ?thesis using v by (auto simp: snapshot_def)
qed

text \<open>
  Registrations keep the miner ids of the fleet distinct, and its size within the limit: an accepted one is the only
  worker with its miner id, provided that held before.
\<close>

theorem one_worker_per_miner_id:
  assumes "handleSPRegister env disk now during post ip body s = (Inr rp, s')" "\<And>t. ss_fleet (during t) = ss_fleet t"
    "registry_ok (ss_fleet s)" "miners_distinct (ss_fleet s)"
  shows "registry_ok (ss_fleet s') \<and> miners_distinct (ss_fleet s') \<and>
    (\<exists>reg. ss_reg s = Some reg \<and> int (CountWorkers (ss_fleet s')) \<le> max (int (CountWorkers (ss_fleet s))) (op_MaxSPs (sr_opts reg)))"
  using assms(1)
proof (cases rule: register_success)
  case (1 reg rq sg ch)
  let ?r = "ss_fleet s"
  from 1(9) obtain rotated token res where i: "check_unique (sr_opts reg) rq ?r = Inr rotated"
    "Register (se_urlOK env) disk now (sp_registration env token rq) ?r = (Inr res, ss_fleet s')"
    by (rule insert_success) (simp_all add: assms(2))
  note at = Register_lookup(1) [OF i(2), unfolded sp_registration_def, simplified]
  note off = Register_lookup(2) [OF i(2), unfolded sp_registration_def, simplified]
  have only: "k = rq_WorkerID rq" if "alookup (rg_workers ?r) k = Some w" "wk_miner w = rq_MinerID rq" for k w
  proof (cases "FindByMiner ?r (rq_MinerID rq)")
    case None
    then show ?thesis using FindByMiner_None that by blast
  next
    case (Some v)
    then have "wk_id v = rq_WorkerID rq" using i(1) by (auto simp: check_unique_def Let_def split: if_splits)
    moreover obtain x where "alookup (rg_workers ?r) (wk_id v) = Some x" "wk_miner x = rq_MinerID rq"
      using FindByMiner_Some [OF Some assms(3)] by blast
    moreover have "rq_MinerID rq \<noteq> ''''" using check_fields_Some(1) [OF 1(4)] by (auto simp: minerIDRe_def)
    ultimately show ?thesis using assms(4) that unfolding miners_distinct_def by metis
  qed
  have "miners_distinct (ss_fleet s')"
    unfolding miners_distinct_def
  proof (intro allI impI, elim conjE)
    fix k w k' w'
    assume k: "alookup (rg_workers (ss_fleet s')) k = Some w" "alookup (rg_workers (ss_fleet s')) k' = Some w'"
      and m: "wk_miner w = wk_miner w'" "wk_miner w \<noteq> ''''"
    obtain v where v: "alookup (rg_workers (ss_fleet s')) (rq_WorkerID rq) = Some v" "wk_miner v = rq_MinerID rq" using at by auto
    have new: "x = rq_WorkerID rq" if "alookup (rg_workers (ss_fleet s')) x = Some y" "wk_miner y = rq_MinerID rq" for x y
      using only [of x y] off [of x] that by (cases "x = rq_WorkerID rq") auto
    show "k = k'"
    proof (cases "k = rq_WorkerID rq \<or> k' = rq_WorkerID rq")
      case True
      then show ?thesis
      proof
        assume e: "k = rq_WorkerID rq"
        then have "w = v" using k(1) v(1) by simp
        then have "wk_miner w' = rq_MinerID rq" using m(1) v(2) by simp
        from new [OF k(2) this] show ?thesis by (rule trans [OF e sym])
      next
        assume e: "k' = rq_WorkerID rq"
        then have "w' = v" using k(2) v(1) by simp
        then have "wk_miner w = rq_MinerID rq" using m(1) v(2) by simp
        from new [OF k(1) this] show ?thesis by (rule trans [OF _ e [symmetric]])
      qed
    next
      case False
      then have "alookup (rg_workers ?r) k = Some w" "alookup (rg_workers ?r) k' = Some w'" using k off by simp_all
      then show ?thesis using assms(4) [unfolded miners_distinct_def, rule_format, of k w k' w'] m by blast
    qed
  qed
  moreover have "registry_ok (ss_fleet s')"
  proof -
    have "fleet_step ?r (snd (Register (se_urlOK env) disk now (sp_registration env token rq) ?r))" by (rule fleet_step.register)
    then show ?thesis using registry_ok_step [OF _ assms(3)] i(2) by simp
  qed
  moreover have "int (CountWorkers (ss_fleet s')) \<le> max (int (CountWorkers ?r)) (op_MaxSPs (sr_opts reg))"
  proof -
    have g: "(Get ?r (rq_WorkerID rq) = None) = (alookup (rg_workers ?r) (rq_WorkerID rq) = None)" by (simp add: Get_def)
    have "length (rg_workers (ss_fleet s')) = (if alookup (rg_workers ?r) (rq_WorkerID rq) = None then Suc (length (rg_workers ?r)) else length (rg_workers ?r))"
      using Register_workers [OF i(2)] by (simp add: sp_registration_def length_aput)
    moreover have "int (length (rg_workers ?r)) < op_MaxSPs (sr_opts reg)" if none: "alookup (rg_workers ?r) (rq_WorkerID rq) = None"
    proof -
      have "FindByMiner ?r (rq_MinerID rq) = None"
      proof (rule ccontr)
        assume "FindByMiner ?r (rq_MinerID rq) \<noteq> None"
        then obtain v where v: "FindByMiner ?r (rq_MinerID rq) = Some v" by auto
        then obtain x where "alookup (rg_workers ?r) (wk_id v) = Some x" "wk_miner x = rq_MinerID rq" using FindByMiner_Some assms(3) by blast
        then show False using only none by auto
      qed
      then show ?thesis using i(1) none by (auto simp: check_unique_def g CountWorkers_def Let_def split: if_splits)
    qed
    ultimately show ?thesis by (auto simp: CountWorkers_def)
  qed
  ultimately show ?thesis using 1(1) by blast
qed
section \<open>The signed message\<close>

lemma line_cancel:
  assumes "CHR 0x0A \<notin> set a" "CHR 0x0A \<notin> set b" "a @ CHR 0x0A # x = b @ CHR 0x0A # y"
  shows "a = b \<and> x = y"
  using assms by (induction a arbitrary: b) (auto simp: Cons_eq_append_conv append_eq_Cons_conv)

text \<open>
  The message is unambiguous. Requests whose fields have no line breaks and whose messages are equal agree in
  everything the message names, so a signature cannot be carried over to another worker, payout address, endpoint,
  gateway or challenge.
\<close>

theorem message_is_unambiguous:
  assumes "registration_message g rq = registration_message g' rq'"
    "list_all (\<lambda>s. CHR 0x0A \<notin> set s) [g, rq_MinerID rq, rq_WorkerID rq, rq_Payout rq, rq_Endpoint rq, rq_SchedulerURL rq]"
    "list_all (\<lambda>s. CHR 0x0A \<notin> set s) [g', rq_MinerID rq', rq_WorkerID rq', rq_Payout rq', rq_Endpoint rq', rq_SchedulerURL rq']"
  shows "g = g' \<and> rq_MinerID rq = rq_MinerID rq' \<and> rq_WorkerID rq = rq_WorkerID rq' \<and> rq_Payout rq = rq_Payout rq' \<and>
    rq_Endpoint rq = rq_Endpoint rq' \<and> rq_SchedulerURL rq = rq_SchedulerURL rq' \<and> rq_Challenge rq = rq_Challenge rq'"
proof -
  have n: "CHR 0x0A \<notin> set x" if "x \<in> set [g, rq_MinerID rq, rq_WorkerID rq, rq_Payout rq, rq_Endpoint rq, rq_SchedulerURL rq,
      g', rq_MinerID rq', rq_WorkerID rq', rq_Payout rq', rq_Endpoint rq', rq_SchedulerURL rq']" for x
    using assms(2,3) that by auto
  note m = assms(1) [unfolded registration_message_def buildSPRegistrationMessage_def msg_line_def newline_def, simplified]
  have c: "rq_MinerID rq = rq_MinerID rq' \<and> X = Y" if "rq_MinerID rq @ CHR 0x0A # X = rq_MinerID rq' @ CHR 0x0A # Y" for X Y
    using line_cancel [OF _ _ that] n by simp
  note m1 = conjunct1 [OF c [OF m]] and m2 = conjunct2 [OF c [OF m], simplified]
  have "CHR 0x0A \<notin> set g" "CHR 0x0A \<notin> set g'" using n by auto
  note m3 = line_cancel [OF this m2]
  have "CHR 0x0A \<notin> set (rq_WorkerID rq)" "CHR 0x0A \<notin> set (rq_WorkerID rq')" using n by auto
  note m4 = line_cancel [OF this conjunct2 [OF m3, simplified]]
  have "CHR 0x0A \<notin> set (rq_Payout rq)" "CHR 0x0A \<notin> set (rq_Payout rq')" using n by auto
  note m5 = line_cancel [OF this conjunct2 [OF m4, simplified]]
  have "CHR 0x0A \<notin> set (rq_Endpoint rq)" "CHR 0x0A \<notin> set (rq_Endpoint rq')" using n by auto
  note m6 = line_cancel [OF this conjunct2 [OF m5, simplified]]
  have "CHR 0x0A \<notin> set (rq_SchedulerURL rq)" "CHR 0x0A \<notin> set (rq_SchedulerURL rq')" using n by auto
  note m7 = line_cancel [OF this conjunct2 [OF m6, simplified]]
  show ?thesis using m1 m3 m4 m5 m6 m7 by simp
qed

section \<open>Certificates\<close>

text \<open>
  A renewed certificate goes to a worker of the fleet that is not banned, for its own id and the key of its request, and
  is refused by every peer after one more validity: a ban or a removal ends the worker's place in the network layer too.
\<close>

theorem renewal_needs_standing:
  assumes "handleSPRenewCert env now post auth body s = (Inr (wid, c, ca, till), s')"
  shows "\<exists>w ci. w \<in> snd ` set (rg_workers (ss_fleet s)) \<and> wk_id w = wid \<and> wk_token w = bearerToken auth \<and> wk_token w \<noteq> '''' \<and>
    \<not> IsBanned w now \<and> ss_issuer s = Some ci \<and> till = now + ci_validity ci \<and>
    (\<forall>a name t. accepted_for a name t c \<longrightarrow> name = wid \<and> t \<le> till) \<and> ss_fleet s' = ss_fleet s"
proof -
  obtain ci where ci: "ss_issuer s = Some ci" using assms by (auto simp: handleSPRenewCert_def split: option.splits)
  obtain w where w: "FindByToken (ss_fleet s) (bearerToken auth) = Some w" "\<not> IsBanned w now"
    using assms ci by (auto simp: handleSPRenewCert_def split: option.splits if_splits)
  obtain csrText where t: "body = Some csrText" using assms ci w by (auto simp: handleSPRenewCert_def split: option.splits if_splits)
  obtain ci' where i: "issueFromCSR (se_csr env) (se_signs env) now csrText (wk_id w) ci = (Some c, ci')" "wid = wk_id w"
      "till = now + ci_validity ci'" "s' = s\<lparr>ss_issuer := Some ci'\<rparr>"
    using assms ci w t by (auto simp: handleSPRenewCert_def split: option.splits if_splits prod.splits)
  note b = certificate_is_bound [OF i(1)]
  have "w \<in> snd ` set (rg_workers (ss_fleet s)) \<and> wk_token w = bearerToken auth \<and> wk_token w \<noteq> ''''"
    using w(1) by (auto simp: FindByToken_def split: if_splits dest!: find_SomeD)
  then show ?thesis using w(2) ci i b by auto
qed

text \<open>
  C39: Nothing keeps a worker from registering under the id of the gateway. Its certificate then passes for the gateway's
  own: the name is the gateway's, the authority and the usage are the same.
\<close>

theorem worker_passes_for_gateway:
  assumes "handleSPRegister env disk now during post ip (Some rq) s = (Inr rp, s')" "rp_Cert rp = Some c" "0 \<le> now"
    "ss_reg s = Some reg" "rq_WorkerID rq = op_GatewayID (sr_opts reg)" "\<And>t. ss_issuer (during t) = ss_issuer t"
  shows "\<exists>ci csr. ss_issuer s = Some ci \<and> se_csr env (rq_CSR rq) = Some csr \<and> ct_key c = cs_key csr \<and>
    (\<forall>t. now \<le> t \<and> t \<le> now + ci_validity ci \<longrightarrow> accepted_for (ci_ca ci) (op_GatewayID (sr_opts reg)) t c)"
  using assms(1)
proof (cases rule: register_success)
  case (1 reg' rq' sg ch)
  have e: "reg' = reg" "rq' = rq" using 1 assms(4) by simp_all
  from 1(9) have "((rp_Cert rp, rp_CACert rp, rp_NotAfter rp), ss_issuer s') = register_cert env now rq (ss_issuer s)"
    by (rule insert_success) (simp add: e assms(6))
  then obtain ci ci' where ci: "ss_issuer s = Some ci" "issueFromCSR (se_csr env) (se_signs env) now (rq_CSR rq) (rq_WorkerID rq) ci = (Some c, ci')"
    using assms(2) by (auto simp: register_cert_def split: option.splits if_splits prod.splits)
  then have "accepted_for (ci_ca ci) (rq_WorkerID rq) t c" if "now \<le> t \<and> t \<le> now + ci_validity ci" for t
    using that by (auto simp: issueFromCSR_def accepted_for_def Let_def minute_def second_def split: option.splits if_splits)
  moreover obtain csr where "se_csr env (rq_CSR rq) = Some csr" "ct_key c = cs_key csr"
    using certificate_is_bound(1) [OF ci(2)] by blast
  ultimately show ?thesis using ci(1) assms(5) by auto
qed
section \<open>An address that is new is let in\<close>

lemma allow_first:
  assumes "alookup (il_buckets l) ip = None" "2 \<le> bf_val (il_burst l)"
  shows "fst (allow now ip l)"
proof -
  have burst: "il_burst (pruneLocked now l) = il_burst l" by (simp add: pruneLocked_def)
  obtain l' where b: "bucket_for now ip l = (\<lparr>ib_tokens = il_burst l, ib_last = now\<rparr>, l')" "il_burst l' = il_burst l"
    using assms(1) burst by (simp add: bucket_for_def Let_def)
  have d: "bf_val (duration_seconds 0) = 0" using duration_seconds_near [of 0] by (simp add: relerr_def)
  have "near 53 (bf_val (f64_mul (duration_seconds 0) (il_perSec l'))) 0"
    using bf_mulp_near [of 53 "duration_seconds 0" "il_perSec l'"] by (simp add: d)
  then have z: "bf_val (f64_mul (duration_seconds 0) (il_perSec l')) = 0" by (simp add: near_def)
  let ?t = "f64_add (il_burst l) (f64_mul (duration_seconds 0) (il_perSec l'))"
  have "near 53 (bf_val ?t) (bf_val (il_burst l))"
    using bf_addp_near [of 53 "il_burst l" "f64_mul (duration_seconds 0) (il_perSec l')"] by (simp add: z)
  then have "\<bar>bf_val ?t - bf_val (il_burst l)\<bar> * 2 ^ 53 \<le> bf_val (il_burst l)" using assms(2) by (simp add: near_def)
  then have "1 \<le> bf_val ?t" using assms(2) by (simp add: abs_if split: if_splits)
  then show ?thesis using assms(2) b by (auto simp: allow_def spend_def Let_def bf_cmp_cases split: prod.split)
qed

section \<open>Example\<close>

text \<open>
  One miner with one key, at the chain under its id with either network prefix; a signature is good if it names the
  signer; URLs, base64 and addresses are taken as they are.
\<close>

definition sample_sig :: sig_ops where
  "sample_sig =
     \<lparr>so_address = (\<lambda>s. Some \<lparr>ad_protocol = BLS, ad_payload = s\<rparr>), so_hash256 = id, so_hash160 = id, so_recover = (\<lambda>_ _. None),
      so_point = (\<lambda>_. True), so_pairing = (\<lambda>pub msg sg. sg = replicate 96 (CHR ''s'') \<and> pub = ''f3key'')\<rparr>"

definition sample_sp :: sp_env where
  "sample_sp =
     \<lparr>se_sig = sample_sig, se_info = (\<lambda>m. if drop 1 m = ''0100'' then Some (''f01'', ''f02'') else None), se_key = (\<lambda>_. Some ''f3key''),
      se_power = (\<lambda>_. Some 10), se_balance = (\<lambda>_. Some 10), se_isHex = (\<lambda>_. True), se_hex = id, se_url = (\<lambda>u. Some (''http'', u)),
      se_urlOK = (\<lambda>_. True), se_base64 = Some, se_token = Some ''wk-1'', se_csr = (\<lambda>t. Some \<lparr>cs_signed = True, cs_cn = t, cs_key = ECDSA ''k''\<rparr>),
      se_signs = (\<lambda>_. True)\<rparr>"

definition sample_options :: sp_options where
  "sample_options = \<lparr>op_GatewayID = ''gw'', op_MinRawPower = Some 5, op_MinBalance = None, op_ChallengeTTL = 0, op_RatePerMin = 0, op_MaxSPs = 0\<rparr>"

definition sample_rq :: "string \<Rightarrow> string \<Rightarrow> string \<Rightarrow> spRegisterRequest" where
  "sample_rq miner wid c =
     \<lparr>rq_MinerID = miner, rq_WorkerID = wid, rq_Payout = ''0x1'', rq_Endpoint = ''a'', rq_SchedulerURL = ''b'', rq_Models = [], rq_GPUCount = 1,
      rq_Challenge = c, rq_Signer = ''f3key'', rq_SigType = 2, rq_SigData = replicate 96 (CHR ''s''), rq_CSR = wid\<rparr>"

definition sample_issuer :: certIssuer where
  "sample_issuer = \<lparr>ci_ca = ''ca'', ci_pem = ''pem'', ci_validity = 7 * 24 * 60 * minute, ci_serial = 0\<rparr>"

definition sample_registrar :: spRegistrar where
  "sample_registrar = (EnableSPRegistration sample_options)
     \<lparr>sr_challenges := [(''c1'', \<lparr>sc_miner = ''f0100'', sc_expires = 100\<rparr>), (''c2'', \<lparr>sc_miner = ''t0100'', sc_expires = 100\<rparr>)]\<rparr>"

definition sample_sp_state :: sp_state where
  "sample_sp_state = \<lparr>ss_reg = Some sample_registrar, ss_fleet = NewRegistry False None 1, ss_issuer = Some sample_issuer\<rparr>"

lemma sample_opts:
  "sr_opts sample_registrar = \<lparr>op_GatewayID = ''gw'', op_MinRawPower = Some 5, op_MinBalance = None, op_ChallengeTTL = 10 * minute, op_RatePerMin = 6, op_MaxSPs = 1000\<rparr>"
  by (simp add: sample_registrar_def EnableSPRegistration_def sample_options_def Let_def)

lemma sample_let_in: "fst (allow now ip (sr_ipl sample_registrar))"
  by (rule allow_first)
     (simp_all add: sample_registrar_def EnableSPRegistration_def sample_options_def newIPLimiter_def bf_val_float64_of_int Let_def)

lemma sample_fields:
  assumes "spWorkerIDRe wid" "minerIDRe m"
  shows "check_fields sample_sp (sample_rq m wid c) = Some (replicate 96 (CHR ''s''))"
  using assms by (simp add: check_fields_def sample_sp_def sample_rq_def validHTTPURL_def)

lemma sample_control:
  assumes "drop 1 m = ''0100''"
  shows "check_control sample_sp (sr_opts sample_registrar) (replicate 96 (CHR ''s'')) (sample_rq m wid c) = None"
  using assms
  by (simp add: check_control_def sample_sp_def sample_rq_def sample_opts VerifySignature_def sample_sig_def verifyBLS_def
      signerControlsMiner_def SameKey_def threshold_def)

lemma sample_ids: "spWorkerIDRe ''w1''" "spWorkerIDRe ''w2''" "spWorkerIDRe ''gw''" "minerIDRe ''f0100''" "minerIDRe ''t0100''"
  by (simp_all add: spWorkerIDRe_def minerIDRe_def is_alnum_def is_digit_def)

text \<open>What a registration with an open challenge comes to.\<close>

lemma register_run:
  assumes "ss_reg s = Some reg" "fst (allow now ip (sr_ipl reg))" "check_fields env rq = Some sg"
    "alookup (sr_challenges reg) (rq_Challenge rq) = Some ch" "now \<le> sc_expires ch" "sc_miner ch = rq_MinerID rq"
    "check_control env (sr_opts reg) sg rq = None"
    "insert_sp env disk now (sr_opts reg) rq (ss_fleet s) (ss_issuer s) = (res, r, issuer)"
  shows "handleSPRegister env disk now id True ip (Some rq) s =
    (res, s\<lparr>ss_reg := Some (after_use now ip rq reg), ss_fleet := r, ss_issuer := issuer\<rparr>)"
proof -
  obtain ipl where a: "allow now ip (sr_ipl reg) = (True, ipl)" using assms(2) by (cases "allow now ip (sr_ipl reg)") auto
  have u: "use_challenge (rq_Challenge rq) (reg\<lparr>sr_ipl := ipl\<rparr>) = (alookup (sr_challenges reg) (rq_Challenge rq), after_use now ip rq reg)"
    by (simp add: after_use_def use_challenge_def a)
  show ?thesis using assms by (simp add: handleSPRegister_def a u Let_def)
qed
definition sample_worker :: "string \<Rightarrow> string \<Rightarrow> worker" where
  "sample_worker m wid = first_registered 7 (sp_registration sample_sp ''wk-1'' (sample_rq m wid []))"

lemma sample_worker_props:
  "wk_id (sample_worker m wid) = wid" "wk_miner (sample_worker m wid) = m" "wk_bannedUntil (sample_worker m wid) = 0"
  by (simp_all add: sample_worker_def first_registered_def blank_worker_def sp_registration_def sample_rq_def)

lemma sample_insert:
  assumes "FindByMiner r m = None" "alookup (rg_workers r) wid = None" "length (rg_workers r) < 1000" "validWorkerID wid"
  shows "\<exists>rp cert ci'. insert_sp sample_sp False 7 (sr_opts sample_registrar) (sample_rq m wid c) r (Some ci) =
      (Inr rp, r\<lparr>rg_workers := aput wid (sample_worker m wid) (rg_workers r)\<rparr>, Some ci') \<and> rp_Cert rp = Some cert"
proof -
  have reg: "sp_registration sample_sp ''wk-1'' (sample_rq m wid c) = sp_registration sample_sp ''wk-1'' (sample_rq m wid [])"
    by (simp add: sp_registration_def sample_rq_def)
  have u: "check_unique (sr_opts sample_registrar) (sample_rq m wid c) r = Inr False"
    using assms by (simp add: check_unique_def sample_rq_def Get_def CountWorkers_def sample_opts Let_def)
  have "wid \<noteq> ''''" using assms(4) by (auto simp: validWorkerID_def)
  then have g: "Register (se_urlOK sample_sp) False 7 (sp_registration sample_sp ''wk-1'' (sample_rq m wid c)) r =
      (Inr \<lparr>rs_worker = sample_worker m wid, rs_created = True, rs_endpointChanged = False, rs_oldEndpoint = ''''\<rparr>,
       r\<lparr>rg_workers := aput wid (sample_worker m wid) (rg_workers r)\<rparr>)"
    using assms(2,4) by (simp add: reg) (simp add: Register_def sp_registration_def sample_sp_def sample_rq_def saveToDisk_def sample_worker_def)
  have "\<exists>cert ca till ci'. register_cert sample_sp 7 (sample_rq m wid c) (Some ci) = ((Some cert, ca, till), Some ci')"
    by (simp add: register_cert_def issueFromCSR_def sample_sp_def sample_rq_def key_accepted_def \<open>wid \<noteq> ''''\<close> Let_def)
  then obtain cert ca till ci' where rc: "register_cert sample_sp 7 (sample_rq m wid c) (Some ci) = ((Some cert, ca, till), Some ci')" by blast
  have "se_token sample_sp = Some ''wk-1''" by (simp add: sample_sp_def)
  then show ?thesis by (simp add: insert_sp_def u g rc)
qed
text \<open>A registration of the sample miner on an empty fleet.\<close>

lemma sample_register:
  assumes "spWorkerIDRe wid" "validWorkerID wid"
  shows "\<exists>rp cert s'. handleSPRegister sample_sp False 7 id True ''ip'' (Some (sample_rq ''f0100'' wid ''c1'')) sample_sp_state = (Inr rp, s') \<and>
    rp_Cert rp = Some cert \<and> ss_fleet s' = (NewRegistry False None 1)\<lparr>rg_workers := [(wid, sample_worker ''f0100'' wid)]\<rparr> \<and>
    ss_reg s' = Some (after_use 7 ''ip'' (sample_rq ''f0100'' wid ''c1'') sample_registrar) \<and> (\<exists>ci. ss_issuer s' = Some ci)"
proof -
  let ?r = "NewRegistry False None 1" and ?rq = "sample_rq ''f0100'' wid ''c1''"
  have r: "rg_workers ?r = []" by (simp add: NewRegistry_def)
  obtain rp cert ci where i: "insert_sp sample_sp False 7 (sr_opts sample_registrar) ?rq ?r (Some sample_issuer) =
      (Inr rp, ?r\<lparr>rg_workers := aput wid (sample_worker ''f0100'' wid) (rg_workers ?r)\<rparr>, Some ci)" "rp_Cert rp = Some cert"
    using sample_insert [of ?r "''f0100''" wid "''c1''" sample_issuer] assms(2) r by (auto simp: FindByMiner_def)
  have "handleSPRegister sample_sp False 7 id True ''ip'' (Some ?rq) sample_sp_state =
    (Inr rp, sample_sp_state\<lparr>ss_reg := Some (after_use 7 ''ip'' ?rq sample_registrar),
       ss_fleet := ?r\<lparr>rg_workers := aput wid (sample_worker ''f0100'' wid) (rg_workers ?r)\<rparr>, ss_issuer := Some ci\<rparr>)"
  proof (rule register_run [where ch = "\<lparr>sc_miner = ''f0100'', sc_expires = 100\<rparr>", OF _ sample_let_in sample_fields [OF assms(1) sample_ids(4)]])
    show "check_control sample_sp (sr_opts sample_registrar) (replicate 96 (CHR ''s'')) ?rq = None" by (rule sample_control) simp
  qed (simp_all add: sample_sp_state_def i(1), simp_all add: sample_registrar_def sample_rq_def)
  then show ?thesis using i(2) r by simp
qed

lemma sample_valid: "validWorkerID ''w1''" "validWorkerID ''w2''" "validWorkerID ''gw''"
  by (simp_all add: validWorkerID_def is_alnum_def)
theorem admission_is_earned_witness:
  "\<exists>rp s' w. handleSPRegister sample_sp False 7 id True ''ip'' (Some (sample_rq ''f0100'' ''w1'' ''c1'')) sample_sp_state = (Inr rp, s') \<and>
     controls sample_sp ''f3key'' ''f0100'' \<and> meets (Some 5) (se_power sample_sp ''f0100'') \<and>
     alookup (rg_workers (ss_fleet s')) ''w1'' = Some w \<and> wk_token w = rp_AuthToken rp"
proof -
  obtain rp s' where h: "handleSPRegister sample_sp False 7 id True ''ip'' (Some (sample_rq ''f0100'' ''w1'' ''c1'')) sample_sp_state = (Inr rp, s')"
    using sample_register [OF sample_ids(1) sample_valid(1)] by blast
  have "sr_opts sample_registrar = \<lparr>op_GatewayID = ''gw'', op_MinRawPower = Some 5, op_MinBalance = None,
      op_ChallengeTTL = 10 * minute, op_RatePerMin = 6, op_MaxSPs = 1000\<rparr>" by (rule sample_opts)
  then show ?thesis using admission_is_earned [OF h] h by (auto simp: sample_sp_state_def sample_rq_def)
qed

theorem challenge_works_once_witness:
  "\<exists>reg' st. ss_reg (snd (handleSPRegister sample_sp False 7 id True ''ip'' (Some (sample_rq ''f0100'' ''w1'' ''c1'')) sample_sp_state)) = Some reg' \<and>
     alookup (sr_challenges reg') ''c1'' = None \<and>
     fst (handleSPRegister sample_sp False 8 id True ''ip'' (Some (sample_rq ''f0100'' ''w1'' ''c1'')) (sample_sp_state\<lparr>ss_reg := Some reg'\<rparr>)) = Inl st"
proof -
  have "\<exists>reg'. ss_reg (snd (handleSPRegister sample_sp False 7 id True ''ip'' (Some (sample_rq ''f0100'' ''w1'' ''c1'')) sample_sp_state)) = Some reg' \<and>
      alookup (sr_challenges reg') (rq_Challenge (sample_rq ''f0100'' ''w1'' ''c1'')) = None \<and>
      (\<forall>env2 disk2 now2 during2 post2 ip2 rq2 s2. ss_reg s2 = Some reg' \<and> rq_Challenge rq2 = rq_Challenge (sample_rq ''f0100'' ''w1'' ''c1'') \<longrightarrow>
        (\<exists>st. fst (handleSPRegister env2 disk2 now2 during2 post2 ip2 (Some rq2) s2) = Inl st))"
    by (rule challenge_works_once [where reg = sample_registrar and post = True])
       (simp_all add: sample_sp_state_def sample_let_in sample_fields sample_ids)
  moreover have "rq_Challenge (sample_rq ''f0100'' ''w1'' ''c1'') = ''c1''" by (simp add: sample_rq_def)
  ultimately show ?thesis by fastforce
qed

theorem one_worker_per_miner_id_witness:
  "\<exists>rp s'. handleSPRegister sample_sp False 7 id True ''ip'' (Some (sample_rq ''f0100'' ''w1'' ''c1'')) sample_sp_state = (Inr rp, s') \<and>
     miners_distinct (ss_fleet s') \<and> int (CountWorkers (ss_fleet s')) \<le> 1000"
proof -
  obtain rp s' where h: "handleSPRegister sample_sp False 7 id True ''ip'' (Some (sample_rq ''f0100'' ''w1'' ''c1'')) sample_sp_state = (Inr rp, s')"
    using sample_register [OF sample_ids(1) sample_valid(1)] by blast
  have e: "rg_workers (ss_fleet sample_sp_state) = []" by (simp add: sample_sp_state_def NewRegistry_def)
  have "registry_ok (ss_fleet sample_sp_state)" by (simp add: sample_sp_state_def registry_ok_new)
  moreover have "miners_distinct (ss_fleet sample_sp_state)" by (simp add: miners_distinct_def e)
  ultimately have "registry_ok (ss_fleet s') \<and> miners_distinct (ss_fleet s') \<and>
    (\<exists>reg. ss_reg sample_sp_state = Some reg \<and> int (CountWorkers (ss_fleet s')) \<le> max (int (CountWorkers (ss_fleet sample_sp_state))) (op_MaxSPs (sr_opts reg)))"
    using one_worker_per_miner_id [OF h] by simp
  then have "miners_distinct (ss_fleet s') \<and> int (CountWorkers (ss_fleet s')) \<le> 1000"
    by (auto simp: sample_sp_state_def sample_opts CountWorkers_def NewRegistry_def)
  then show ?thesis using h by blast
qed

theorem worker_passes_for_gateway_witness:
  "\<exists>rp c s'. handleSPRegister sample_sp False 7 id True ''ip'' (Some (sample_rq ''f0100'' ''gw'' ''c1'')) sample_sp_state = (Inr rp, s') \<and>
     rp_Cert rp = Some c \<and> accepted_for ''ca'' ''gw'' 7 c"
proof -
  obtain rp c s' where h: "handleSPRegister sample_sp False 7 id True ''ip'' (Some (sample_rq ''f0100'' ''gw'' ''c1'')) sample_sp_state = (Inr rp, s')"
    "rp_Cert rp = Some c"
    using sample_register [OF sample_ids(3) sample_valid(3)] by blast
  have "\<exists>ci csr. ss_issuer sample_sp_state = Some ci \<and> se_csr sample_sp (rq_CSR (sample_rq ''f0100'' ''gw'' ''c1'')) = Some csr \<and> ct_key c = cs_key csr \<and>
    (\<forall>t. 7 \<le> t \<and> t \<le> 7 + ci_validity ci \<longrightarrow> accepted_for (ci_ca ci) (op_GatewayID (sr_opts sample_registrar)) t c)"
    by (rule worker_passes_for_gateway [OF h]) (simp_all add: sample_sp_state_def sample_rq_def sample_opts)
  then show ?thesis using h by (auto simp: sample_sp_state_def sample_issuer_def sample_opts minute_def second_def)
qed

text \<open>
  One miner, two workers. A miner that is registered under its id with one network prefix, and whose worker is banned,
  registers again under the same id with the other prefix and has a worker that is not banned: ids are
  compared as texts, the chain knows one miner.
\<close>

theorem alias_evades_ban:
  "\<exists>rp1 s1 rp2 s2. handleSPRegister sample_sp False 7 id True ''ip'' (Some (sample_rq ''f0100'' ''w1'' ''c1'')) sample_sp_state = (Inr rp1, s1) \<and>
     handleSPRegister sample_sp False 7 id True ''ip2'' (Some (sample_rq ''t0100'' ''w2'' ''c2''))
       (s1\<lparr>ss_fleet := snd (SetBan False ''w1'' 1000 ''probe'' (ss_fleet s1))\<rparr>) = (Inr rp2, s2) \<and>
     se_info sample_sp ''f0100'' = se_info sample_sp ''t0100'' \<and> se_info sample_sp ''f0100'' \<noteq> None \<and>
     ban_of (ss_fleet s2) ''w1'' = Some (1000, ''probe'') \<and> map_option fst (ban_of (ss_fleet s2) ''w2'') = Some 0"
proof -
  obtain rp1 s1 ci where 1: "handleSPRegister sample_sp False 7 id True ''ip'' (Some (sample_rq ''f0100'' ''w1'' ''c1'')) sample_sp_state = (Inr rp1, s1)"
    "ss_fleet s1 = (NewRegistry False None 1)\<lparr>rg_workers := [(''w1'', sample_worker ''f0100'' ''w1'')]\<rparr>"
    "ss_reg s1 = Some (after_use 7 ''ip'' (sample_rq ''f0100'' ''w1'' ''c1'') sample_registrar)" "ss_issuer s1 = Some ci"
    using sample_register [OF sample_ids(1) sample_valid(1)] by blast
  let ?reg = "after_use 7 ''ip'' (sample_rq ''f0100'' ''w1'' ''c1'') sample_registrar"
  let ?w = "(sample_worker ''f0100'' ''w1'')\<lparr>wk_bannedUntil := 1000, wk_banReason := ''probe''\<rparr>"
  define r where "r = snd (SetBan False ''w1'' 1000 ''probe'' (ss_fleet s1))"
  have r: "rg_workers r = [(''w1'', ?w)]" by (simp add: r_def 1(2) SetBan_def put_worker_def saveToDisk_def)
  have find2: "FindByMiner r ''t0100'' = None" by (simp add: FindByMiner_def r sample_worker_props)
  obtain rp2 ci2 where i: "insert_sp sample_sp False 7 (sr_opts sample_registrar) (sample_rq ''t0100'' ''w2'' ''c2'') r (Some ci) =
      (Inr rp2, r\<lparr>rg_workers := aput ''w2'' (sample_worker ''t0100'' ''w2'') (rg_workers r)\<rparr>, Some ci2)"
    using sample_insert [OF find2, of "''w2''" "''c2''" ci] sample_valid(2) by (auto simp: r)
  have ipl: "sr_ipl ?reg = snd (allow 7 ''ip'' (sr_ipl sample_registrar))" by (simp add: after_use_def use_challenge_def)
  have in2: "fst (allow 7 ''ip2'' (sr_ipl ?reg))"
  proof (rule allow_first)
    have b: "il_buckets (sr_ipl sample_registrar) = []" "il_burst (sr_ipl sample_registrar) = float64_of_int 6"
      by (simp_all add: sample_registrar_def EnableSPRegistration_def sample_options_def newIPLimiter_def Let_def)
    then show "alookup (il_buckets (sr_ipl ?reg)) ''ip2'' = None" by (simp add: ipl allow_def bucket_for_def Let_def split: prod.split)
    show "2 \<le> bf_val (il_burst (sr_ipl ?reg))" using b by (simp add: ipl allow_def bucket_for_def Let_def bf_val_float64_of_int split: prod.split)
  qed
  let ?s = "s1\<lparr>ss_fleet := r\<rparr>"
  have 2: "handleSPRegister sample_sp False 7 id True ''ip2'' (Some (sample_rq ''t0100'' ''w2'' ''c2'')) ?s =
    (Inr rp2, ?s\<lparr>ss_reg := Some (after_use 7 ''ip2'' (sample_rq ''t0100'' ''w2'' ''c2'') ?reg),
       ss_fleet := r\<lparr>rg_workers := aput ''w2'' (sample_worker ''t0100'' ''w2'') (rg_workers r)\<rparr>, ss_issuer := Some ci2\<rparr>)"
  proof (rule register_run [where ch = "\<lparr>sc_miner = ''t0100'', sc_expires = 100\<rparr>", OF _ in2 sample_fields [OF sample_ids(2) sample_ids(5)]])
    show "check_control sample_sp (sr_opts ?reg) (replicate 96 (CHR ''s'')) (sample_rq ''t0100'' ''w2'' ''c2'') = None"
      unfolding after_use_sel by (rule sample_control) simp
    show "insert_sp sample_sp False 7 (sr_opts ?reg) (sample_rq ''t0100'' ''w2'' ''c2'') (ss_fleet ?s) (ss_issuer ?s) =
      (Inr rp2, r\<lparr>rg_workers := aput ''w2'' (sample_worker ''t0100'' ''w2'') (rg_workers r)\<rparr>, Some ci2)"
      using i 1(4) by simp
  qed (simp_all add: 1(3), simp_all add: sample_registrar_def sample_rq_def)
  have "ban_of (r\<lparr>rg_workers := aput ''w2'' (sample_worker ''t0100'' ''w2'') (rg_workers r)\<rparr>) ''w1'' = Some (1000, ''probe'')"
    "map_option fst (ban_of (r\<lparr>rg_workers := aput ''w2'' (sample_worker ''t0100'' ''w2'') (rg_workers r)\<rparr>) ''w2'') = Some 0"
    by (simp_all add: ban_of_def r sample_worker_props)
  moreover have "se_info sample_sp ''f0100'' = se_info sample_sp ''t0100''" "se_info sample_sp ''f0100'' \<noteq> None" by (simp_all add: sample_sp_def)
  ultimately show ?thesis using 1(1) 2 unfolding r_def by fastforce
qed

end
