(* ===== verification/Reconcile.thy ===== *)
theory Reconcile
  imports Settler
begin

text \<open>
  The three-way reconciliation of billing (\<open>settlement/reconcile.go\<close>): what was billed since the
  first pass against what was settled and what is pending since then. The reconciler has a cursor
  and a persisted total of its own. Whether its two files can be written is an argument, so that a
  crash between the two writes is a pass whose second write is lost.
\<close>

section \<open>State\<close>

record reconcile_state =
  rs_Initialized :: bool
  rs_BilledCum :: usd_text
  rs_BillableCount :: nat
  rs_SettledBase :: usd_text
  rs_PendingBase :: usd_text
  rs_DebtBase :: usd_text

definition fresh_state :: reconcile_state where
  "fresh_state = \<lparr>rs_Initialized = False, rs_BilledCum = NoText, rs_BillableCount = 0, rs_SettledBase = NoText,
     rs_PendingBase = NoText, rs_DebtBase = NoText\<rparr>"

text \<open>The state file is missing, does not decode, or holds a state.\<close>

datatype state_file = NoState | BadState | StateFile reconcile_state

record reconciler =
  rc_cursor :: "cursor option"
  rc_file :: state_file
  rc_st :: reconcile_state
  rc_tolerance :: bigfloat

definition loadState :: "state_file \<Rightarrow> reconcile_state" where
  "loadState f = (case f of NoState \<Rightarrow> fresh_state | BadState \<Rightarrow> fresh_state | StateFile st \<Rightarrow> st)"

definition NewReconciler :: "cursor option \<Rightarrow> state_file \<Rightarrow> bigfloat option \<Rightarrow> reconciler" where
  "NewReconciler cur f tolerance =
     \<lparr>rc_cursor = cur, rc_file = f, rc_st = loadState f,
      rc_tolerance = (case tolerance of Some t \<Rightarrow> t | None \<Rightarrow> f64_quo (float64_of_int 1) (float64_of_int 100))\<rparr>"

definition saveState :: "bool \<Rightarrow> reconciler \<Rightarrow> reconciler" where
  "saveState ok rc = (if ok then rc\<lparr>rc_file := StateFile (rc_st rc)\<rparr> else rc)"

definition parseBigOrZero :: "usd_text \<Rightarrow> bigfloat" where
  "parseBigOrZero s = (case ParseFloat s of Some f \<Rightarrow> f | None \<Rightarrow> bf_zero)"

definition TextN :: "nat \<Rightarrow> bigfloat \<Rightarrow> usd_text" where
  "TextN k x = DecText (text_dec k x) k"

section \<open>One pass\<close>

record reconcile_report =
  rp_Billed :: usd_text
  rp_Settled :: usd_text
  rp_Pending :: usd_text
  rp_Debt :: usd_text
  rp_Drift :: usd_text
  rp_DriftAbs :: usd_text
  rp_Within :: bool
  rp_Tolerance :: usd_text
  rp_Count :: nat
  rp_DeadLetters :: nat

text \<open>The three totals at the time of a pass.\<close>

record totals =
  to_settled :: bigfloat
  to_pending :: bigfloat
  to_debt :: bigfloat

definition count_record :: "(request_record \<Rightarrow> bigfloat) \<Rightarrow> request_record \<Rightarrow> bigfloat \<times> nat \<Rightarrow> bigfloat \<times> nat" where
  "count_record costFn r = (\<lambda>(billed, n). if bf_sign (costFn r) > 0 then (bf_acc billed (costFn r), n + 1) else (billed, n))"

definition advance :: "(request_record \<Rightarrow> bigfloat) \<Rightarrow> totals \<Rightarrow> request_record list \<Rightarrow> reconcile_state \<Rightarrow> bigfloat \<times> reconcile_state" where
  "advance costFn t records st =
     (let billedCum = parseBigOrZero (rs_BilledCum st)
      in if \<not> rs_Initialized st
         then (billedCum, st\<lparr>rs_SettledBase := TextN 12 (to_settled t), rs_PendingBase := TextN 12 (to_pending t),
                             rs_DebtBase := TextN 12 (to_debt t), rs_Initialized := True\<rparr>)
         else let (billedCum, n) = fold (count_record costFn) records (billedCum, rs_BillableCount st)
              in (billedCum, st\<lparr>rs_BillableCount := n, rs_BilledCum := TextN 12 billedCum\<rparr>))"

fun deadLetterCount :: "(nat \<times> line) list \<Rightarrow> nat" where
  "deadLetterCount [] = 0"
| "deadLetterCount ((k, l) # ls) = (if k > max_line then 0 else Suc (deadLetterCount ls))"

definition drift_of :: "bigfloat \<Rightarrow> totals \<Rightarrow> reconcile_state \<Rightarrow> bigfloat" where
  "drift_of billedCum t st =
     bf_sub billedCum (bf_add (bf_sub (to_settled t) (parseBigOrZero (rs_SettledBase st)))
                              (bf_sub (to_pending t) (parseBigOrZero (rs_PendingBase st))))"

definition report_of :: "bigfloat \<Rightarrow> totals \<Rightarrow> (nat \<times> line) list \<Rightarrow> reconciler \<Rightarrow> reconcile_report" where
  "report_of billedCum t dead rc =
     (let st = rc_st rc; drift = drift_of billedCum t st
      in \<lparr>rp_Billed = TextN 6 billedCum,
          rp_Settled = TextN 6 (bf_sub (to_settled t) (parseBigOrZero (rs_SettledBase st))),
          rp_Pending = TextN 6 (bf_sub (to_pending t) (parseBigOrZero (rs_PendingBase st))),
          rp_Debt = TextN 6 (bf_sub (to_debt t) (parseBigOrZero (rs_DebtBase st))),
          rp_Drift = TextN 6 drift, rp_DriftAbs = TextN 6 (bf_abs drift),
          rp_Within = (bf_cmp (bf_abs drift) (rc_tolerance rc) \<le> 0), rp_Tolerance = TextN 6 (rc_tolerance rc),
          rp_Count = rs_BillableCount st, rp_DeadLetters = deadLetterCount dead\<rparr>)"

text \<open>The cursor is committed before the state is saved; both failures are ignored.\<close>

definition Run ::
  "bool \<Rightarrow> bool \<Rightarrow> (request_record \<Rightarrow> bigfloat) \<Rightarrow> totals \<Rightarrow> (nat \<times> line) list \<Rightarrow> log_dir \<Rightarrow> reconciler \<Rightarrow> (scan_error + reconcile_report) \<times> reconciler" where
  "Run cursor_ok state_ok costFn t dead d rc =
     (case Peek (rc_cursor rc) d of
        Inl e \<Rightarrow> (Inl e, rc)
      | Inr (records, _, newCur) \<Rightarrow>
          let (billedCum, st) = advance costFn t records (rc_st rc);
              rc = rc\<lparr>rc_st := st\<rparr>;
              rc = (if cursor_ok then rc\<lparr>rc_cursor := CommitCursor newCur (rc_cursor rc)\<rparr> else rc);
              rc = saveState state_ok rc
          in (Inr (report_of billedCum t dead rc), rc))"

text \<open>A restart of the process.\<close>

definition restart_reconciler :: "reconciler \<Rightarrow> reconciler" where
  "restart_reconciler rc = NewReconciler (rc_cursor rc) (rc_file rc) (Some (rc_tolerance rc))"

section \<open>Each record is counted once\<close>

text \<open>A day: rows are logged, then a pass runs with the totals of that time.\<close>

definition day ::
  "(request_record \<Rightarrow> nat) \<Rightarrow> (request_record \<Rightarrow> bigfloat) \<Rightarrow> request_record list \<times> totals \<times> bool \<Rightarrow>
   (req_logger \<times> log_dir) \<times> reconciler \<Rightarrow> (req_logger \<times> log_dir) \<times> reconciler" where
  "day json_len costFn = (\<lambda>(recs, t, reboot) (s, rc).
     let s = fold (Log json_len) recs s;
         rc = (if reboot then restart_reconciler rc else rc)
     in (s, snd (Run True True costFn t [] (snd s) rc)))"

text \<open>The reference: the total and the count after the billable rows of some days, rounded to text after each.\<close>

definition count_day :: "(request_record \<Rightarrow> bigfloat) \<Rightarrow> request_record list \<Rightarrow> usd_text \<times> nat \<Rightarrow> usd_text \<times> nat" where
  "count_day costFn recs = (\<lambda>(billed, n).
     let (b, n) = fold (count_record costFn) (filter isBillable recs) (parseBigOrZero billed, n) in (TextN 12 b, n))"

text \<open>The reconciler's books are on disk, its cursor has \<open>ls\<close> left to read.\<close>

definition caught_up :: "(req_logger \<times> log_dir) \<Rightarrow> reconciler \<Rightarrow> bool" where
  "caught_up s rc \<longleftrightarrow> (\<exists>c. rc_cursor rc = Some c \<and> log_ok s c 0 []) \<and> rc_file rc = StateFile (rc_st rc) \<and> rs_Initialized (rc_st rc)"

fun days_fit :: "(request_record \<Rightarrow> nat) \<Rightarrow> (request_record list \<times> totals \<times> bool) list \<Rightarrow> (req_logger \<times> log_dir) \<Rightarrow> bool" where
  "days_fit json_len [] s = True"
| "days_fit json_len ((recs, t, b) # ds) s =
     (list_all (\<lambda>r. json_len r + 1 \<le> max_line) recs \<and> rotations json_len recs s \<le> backups_kept (fst s) \<and>
      days_fit json_len ds (fold (Log json_len) recs s))"

lemma restart_same: "rc_file rc = StateFile (rc_st rc) \<Longrightarrow> restart_reconciler rc = rc"
  by (simp add: restart_reconciler_def NewReconciler_def loadState_def)

text \<open>One pass over the rows logged since the last one, saved or not.\<close>

lemma pass_step:
  assumes "caught_up s rc" "list_all (\<lambda>r. json_len r + 1 \<le> max_line) recs" "rotations json_len recs s \<le> backups_kept (fst s)"
    "fold (count_record costFn) (filter isBillable recs) (parseBigOrZero (rs_BilledCum (rc_st rc)), rs_BillableCount (rc_st rc)) = (b, n)"
  shows "\<exists>c. log_ok (fold (Log json_len) recs s) c 0 [] \<and>
    Run True ok costFn t dead (snd (fold (Log json_len) recs s)) rc =
      (let st = (rc_st rc)\<lparr>rs_BillableCount := n, rs_BilledCum := TextN 12 b\<rparr>;
           rc' = rc\<lparr>rc_st := st, rc_cursor := Some c, rc_file := (if ok then StateFile st else rc_file rc)\<rparr>
       in (Inr (report_of b t dead rc'), rc'))"
proof -
  obtain c where c: "rc_cursor rc = Some c" "log_ok s c 0 []" and i: "rs_Initialized (rc_st rc)"
    using assms(1) by (auto simp: caught_up_def)
  let ?s = "fold (Log json_len) recs s"
  have ok: "log_ok ?s c (rotations json_len recs s) (logged json_len recs)"
    using Logs_ok [where recs = recs and json_len = json_len, OF c(2)] assms(2,3) by (simp add: list_all_iff)
  then obtain m bs where l: "chain (snd ?s) m bs" "\<forall>f\<in>set (m # bs). file_fits f" "points_at (m # bs) c (rotations json_len recs s)"
    "unread (m # bs) (rotations json_len recs s) (cu_offset c) = logged json_len recs" by (auto simp: log_ok_def)
  obtain ts where p: "Peek (Some c) (snd ?s) = Inr (filter isBillable recs, c, cursor_at m (lf_size m) ts)"
    using Peek_chain [OF l(1-3)] l(4) by (auto simp: billable_logged)
  have "log_ok ?s (cursor_at m (lf_size m) ts) 0 []"
    using l(1,2) unread_fresh [OF l(2)] unfolding log_ok_def
    by (intro exI [of _ m] exI [of _ bs]) (simp add: cursor_at_def)
  then show ?thesis
    using assms(4) by (intro exI [of _ "cursor_at m (lf_size m) ts"]) (simp add: Run_def c(1) p advance_def i saveState_def CommitCursor_def Let_def)
qed

lemma day_step:
  assumes "caught_up s rc" "list_all (\<lambda>r. json_len r + 1 \<le> max_line) recs" "rotations json_len recs s \<le> backups_kept (fst s)"
    "day json_len costFn (recs, t, reboot) (s, rc) = (s', rc')"
  shows "s' = fold (Log json_len) recs s \<and> caught_up s' rc' \<and>
    (rs_BilledCum (rc_st rc'), rs_BillableCount (rc_st rc')) = count_day costFn recs (rs_BilledCum (rc_st rc), rs_BillableCount (rc_st rc))"
proof -
  have rb: "(if reboot then restart_reconciler rc else rc) = rc" using restart_same assms(1) by (simp add: caught_up_def)
  obtain b n where bn: "fold (count_record costFn) (filter isBillable recs) (parseBigOrZero (rs_BilledCum (rc_st rc)), rs_BillableCount (rc_st rc)) = (b, n)"
    by (cases "fold (count_record costFn) (filter isBillable recs) (parseBigOrZero (rs_BilledCum (rc_st rc)), rs_BillableCount (rc_st rc))")
  from pass_step [OF assms(1-3) bn, of True t "[]"] obtain c where c: "log_ok (fold (Log json_len) recs s) c 0 []"
    "snd (Run True True costFn t [] (snd (fold (Log json_len) recs s)) rc) =
      rc\<lparr>rc_st := (rc_st rc)\<lparr>rs_BillableCount := n, rs_BilledCum := TextN 12 b\<rparr>, rc_cursor := Some c,
         rc_file := StateFile ((rc_st rc)\<lparr>rs_BillableCount := n, rs_BilledCum := TextN 12 b\<rparr>)\<rparr>"
    by (auto simp: Let_def)
  have "s' = fold (Log json_len) recs s" "rc' = rc\<lparr>rc_st := (rc_st rc)\<lparr>rs_BillableCount := n, rs_BilledCum := TextN 12 b\<rparr>, rc_cursor := Some c,
         rc_file := StateFile ((rc_st rc)\<lparr>rs_BillableCount := n, rs_BilledCum := TextN 12 b\<rparr>)\<rparr>"
    using assms(4) by (simp_all add: day_def rb c(2) Let_def)
  then show ?thesis using c(1) assms(1) bn by (simp add: caught_up_def count_day_def Let_def)
qed

lemma days_count:
  assumes "caught_up s rc" "days_fit json_len ds s" "fold (day json_len costFn) ds (s, rc) = (s', rc')"
  shows "caught_up s' rc' \<and>
    (rs_BilledCum (rc_st rc'), rs_BillableCount (rc_st rc')) =
      fold (count_day costFn) (List.map fst ds) (rs_BilledCum (rc_st rc), rs_BillableCount (rc_st rc))"
  using assms
proof (induction ds arbitrary: s rc)
  case (Cons d ds)
  obtain recs t reboot where d: "d = (recs, t, reboot)" by (cases d)
  obtain s1 rc1 where 1: "day json_len costFn (recs, t, reboot) (s, rc) = (s1, rc1)" by (cases "day json_len costFn (recs, t, reboot) (s, rc)")
  have fit: "list_all (\<lambda>r. json_len r + 1 \<le> max_line) recs" "rotations json_len recs s \<le> backups_kept (fst s)"
    "days_fit json_len ds (fold (Log json_len) recs s)" using Cons.prems(2) by (simp_all add: d)
  note st = day_step [OF Cons.prems(1) fit(1,2) 1]
  have "days_fit json_len ds s1" using fit(3) conjunct1 [OF st] by metis
  moreover have "fold (day json_len costFn) ds (s1, rc1) = (s', rc')" using Cons.prems(3) 1 by (simp add: d)
  ultimately have "caught_up s' rc' \<and> (rs_BilledCum (rc_st rc'), rs_BillableCount (rc_st rc')) =
      fold (count_day costFn) (List.map fst ds) (rs_BilledCum (rc_st rc1), rs_BillableCount (rc_st rc1))"
    using Cons.IH st by blast
  then show ?case using conjunct2 [OF conjunct2 [OF st]] by (simp add: d)
qed simp

text \<open>
  C27: Every billable row logged since the baseline is counted once. Let the reconciler's books be on disk and its cursor have read everything (\<open>caught_up\<close>). Over any
  number of days, each with any rows in lines of at most 1 MiB, at most as many rotations as backups are kept and possibly a restart before its pass, if both writes of every pass
  succeed, the persisted total is that of the rows in the order
  they were logged, rounded to twelve decimals at each pass, and the count is that of the rows with a cost. (A crash between the two writes of a pass
  loses its rows: \<open>crash_loses_window\<close>.)
\<close>

theorem billed_counts_each_row_once:
  assumes "caught_up s rc" "days_fit json_len ds s" "fold (day json_len costFn) ds (s, rc) = (s', rc')"
  shows "caught_up s' rc' \<and>
    (rs_BilledCum (rc_st rc'), rs_BillableCount (rc_st rc')) =
      fold (count_day costFn) (List.map fst ds) (rs_BilledCum (rc_st rc), rs_BillableCount (rc_st rc))"
  using assms by (rule days_count)

section \<open>A crash between the writes\<close>

text \<open>
  A crash after the cursor is committed and before the total is saved loses the window. The rows of that pass are
  never counted: every later pass goes on from the old total, so the books show less billed than there was, not
  more.
\<close>

theorem crash_loses_window:
  assumes "caught_up s rc" "list_all (\<lambda>r. json_len r + 1 \<le> max_line) recs" "rotations json_len recs s \<le> backups_kept (fst s)"
    "Run True False costFn t dead (snd (fold (Log json_len) recs s)) rc = (res, rc')"
    "days_fit json_len ds (fold (Log json_len) recs s)"
    "fold (day json_len costFn) ds (fold (Log json_len) recs s, restart_reconciler rc') = (s'', rc'')"
  shows "(rs_BilledCum (rc_st rc'), rs_BillableCount (rc_st rc')) = count_day costFn recs (rs_BilledCum (rc_st rc), rs_BillableCount (rc_st rc))"
    "(rs_BilledCum (rc_st rc''), rs_BillableCount (rc_st rc'')) =
       fold (count_day costFn) (List.map fst ds) (rs_BilledCum (rc_st rc), rs_BillableCount (rc_st rc))"
proof -
  obtain b n where bn: "fold (count_record costFn) (filter isBillable recs) (parseBigOrZero (rs_BilledCum (rc_st rc)), rs_BillableCount (rc_st rc)) = (b, n)"
    by (cases "fold (count_record costFn) (filter isBillable recs) (parseBigOrZero (rs_BilledCum (rc_st rc)), rs_BillableCount (rc_st rc))")
  from pass_step [OF assms(1-3) bn, of False t dead] obtain c where c: "log_ok (fold (Log json_len) recs s) c 0 []"
    "rc' = rc\<lparr>rc_st := (rc_st rc)\<lparr>rs_BillableCount := n, rs_BilledCum := TextN 12 b\<rparr>, rc_cursor := Some c, rc_file := rc_file rc\<rparr>"
    using assms(4) by (auto simp: Let_def)
  show "(rs_BilledCum (rc_st rc'), rs_BillableCount (rc_st rc')) = count_day costFn recs (rs_BilledCum (rc_st rc), rs_BillableCount (rc_st rc))"
    by (simp add: c(2) count_day_def bn)
  have r: "rc_st (restart_reconciler rc') = rc_st rc" "caught_up (fold (Log json_len) recs s) (restart_reconciler rc')"
    using assms(1) c(1) by (auto simp: caught_up_def restart_reconciler_def NewReconciler_def loadState_def c(2))
  show "(rs_BilledCum (rc_st rc''), rs_BillableCount (rc_st rc'')) =
       fold (count_day costFn) (List.map fst ds) (rs_BilledCum (rc_st rc), rs_BillableCount (rc_st rc))"
    using days_count [OF r(2) assms(5,6)] by (simp add: r(1))
qed
section \<open>Example\<close>

text \<open>A new log and a reconciler after its first pass on it.\<close>

definition sample_totals :: totals where
  "sample_totals = \<lparr>to_settled = bf_zero, to_pending = bf_zero, to_debt = bf_zero\<rparr>"

definition first_reconciler :: reconciler where
  "first_reconciler = snd (Run True True (\<lambda>_. bf_of_int 1) sample_totals [] (snd (NewRequestLogger empty_dir)) (NewReconciler None NoState None))"

lemma first_caught_up: "caught_up (NewRequestLogger empty_dir) first_reconciler"
proof -
  obtain rl d where s: "NewRequestLogger empty_dir = (rl, d)" by (cases "NewRequestLogger empty_dir")
  have d: "d = \<lparr>ld_files = [(0, fresh_main)], ld_next = 2\<rparr>" using fresh_log(1) by (simp add: s)
  have p: "Peek None d = Inr ([], zero_cursor, cursor_at fresh_main 0 0)"
    by (simp add: Peek_def d rotated_def zero_cursor_def scanFrom_def fresh_main_def lf_size_def)
  have r: "first_reconciler = (NewReconciler None NoState None)
    \<lparr>rc_st := snd (advance (\<lambda>_. bf_of_int 1) sample_totals [] fresh_state), rc_cursor := Some (cursor_at fresh_main 0 0),
     rc_file := StateFile (snd (advance (\<lambda>_. bf_of_int 1) sample_totals [] fresh_state))\<rparr>"
    by (simp add: first_reconciler_def s Run_def NewReconciler_def p loadState_def saveState_def CommitCursor_def case_prod_beta Let_def)
  have "chain d fresh_main []" using fresh_log(2) by (simp add: s)
  moreover have f: "\<forall>f\<in>set (fresh_main # []). file_fits f" by (simp add: file_fits_def lines_fit_def fresh_main_def)
  moreover have "lf_size fresh_main = 0" by (simp add: fresh_main_def lf_size_def)
  ultimately have "log_ok (rl, d) (cursor_at fresh_main 0 0) 0 []"
    using unread_fresh [OF f] unfolding log_ok_def by (intro exI [of _ fresh_main] exI [of _ "[]"]) (simp add: cursor_at_def)
  then show ?thesis by (simp add: s caught_up_def r advance_def fresh_state_def Let_def)
qed

lemma sample_fits:
  "list_all (\<lambda>r. 300 + 1 \<le> max_line) [sample_record]" "rotations (\<lambda>r. 300) [sample_record] (NewRequestLogger empty_dir) \<le> backups_kept (fst (NewRequestLogger empty_dir))"
proof -
  have "backups_kept (fst (NewRequestLogger empty_dir)) = 10"
    by (simp add: NewRequestLogger_def backups_kept_def defaultMaxBackups_def Let_def)
  then show "rotations (\<lambda>r. 300) [sample_record] (NewRequestLogger empty_dir) \<le> backups_kept (fst (NewRequestLogger empty_dir))" by simp
qed (simp add: max_line_def)

lemma sample_count:
  "count_day (\<lambda>_. bf_of_int 1) [sample_record] (NoText, 0) = (TextN 12 (bf_acc bf_zero (bf_of_int 1)), 1)"
  by (simp add: count_day_def count_record_def isBillable_def sample_record_def bf_sign_def bf_of_int_def parseBigOrZero_def ParseFloat_def Let_def)

lemma first_books: "rs_BilledCum (rc_st first_reconciler) = NoText" "rs_BillableCount (rc_st first_reconciler) = 0"
proof -
  obtain rl d where s: "NewRequestLogger empty_dir = (rl, d)" by (cases "NewRequestLogger empty_dir")
  have d: "d = \<lparr>ld_files = [(0, fresh_main)], ld_next = 2\<rparr>" using fresh_log(1) by (simp add: s)
  have p: "Peek None d = Inr ([], zero_cursor, cursor_at fresh_main 0 0)"
    by (simp add: Peek_def d rotated_def zero_cursor_def scanFrom_def fresh_main_def lf_size_def)
  show "rs_BilledCum (rc_st first_reconciler) = NoText" "rs_BillableCount (rc_st first_reconciler) = 0"
    by (simp_all add: first_reconciler_def s Run_def NewReconciler_def p loadState_def saveState_def advance_def fresh_state_def Let_def)
qed

theorem billed_counts_each_row_once_witness:
  "let (s, rc) = day (\<lambda>r. 300) (\<lambda>_. bf_of_int 1) ([sample_record], sample_totals, True) (NewRequestLogger empty_dir, first_reconciler)
   in (rs_BilledCum (rc_st rc), rs_BillableCount (rc_st rc)) = (TextN 12 (bf_acc bf_zero (bf_of_int 1)), 1)"
proof -
  obtain s rc where d: "day (\<lambda>r. 300) (\<lambda>_. bf_of_int 1) ([sample_record], sample_totals, True) (NewRequestLogger empty_dir, first_reconciler) = (s, rc)"
    by (cases "day (\<lambda>r. 300) (\<lambda>_. bf_of_int 1) ([sample_record], sample_totals, True) (NewRequestLogger empty_dir, first_reconciler)")
  have f: "days_fit (\<lambda>r. 300) [([sample_record], sample_totals, True)] (NewRequestLogger empty_dir)" using sample_fits by simp
  have "fold (day (\<lambda>r. 300) (\<lambda>_. bf_of_int 1)) [([sample_record], sample_totals, True)] (NewRequestLogger empty_dir, first_reconciler) = (s, rc)"
    using d by simp
  from billed_counts_each_row_once [OF first_caught_up f this] show ?thesis by (simp add: d first_books sample_count)
qed

theorem crash_loses_window_witness:
  "let s = Log (\<lambda>r. 300) sample_record (NewRequestLogger empty_dir);
       rc' = snd (Run True False (\<lambda>_. bf_of_int 1) sample_totals [] (snd s) first_reconciler)
   in rs_BillableCount (rc_st rc') = 1 \<and> rs_BillableCount (rc_st (restart_reconciler rc')) = 0"
proof -
  let ?s = "fold (Log (\<lambda>r. 300)) [sample_record] (NewRequestLogger empty_dir)"
  obtain res rc' where r: "Run True False (\<lambda>_. bf_of_int 1) sample_totals [] (snd ?s) first_reconciler = (res, rc')"
    by (cases "Run True False (\<lambda>_. bf_of_int 1) sample_totals [] (snd ?s) first_reconciler")
  have "days_fit (\<lambda>r. 300) [] ?s" "fold (day (\<lambda>r. 300) (\<lambda>_. bf_of_int 1)) [] (?s, restart_reconciler rc') = (?s, restart_reconciler rc')"
    by simp_all
  note crash_loses_window [OF first_caught_up sample_fits r this]
  then show ?thesis using r by (simp add: first_books sample_count)
qed

end
