(* ===== verification/Reports.thy ===== *)
theory Reports
  imports Settler
begin

text \<open>
  What the settlement reports about itself: the check of restored state files
  (\<open>settlement/statecheck.go\<close>), the answer for a request that is not settled yet
  (\<open>settlement/receipt_status.go\<close>), the public count of active wallets
  (\<open>settlement/publicstats.go\<close>) and the earnings of one provider per request
  (\<open>settlement/sp_detail.go\<close>).
\<close>

section \<open>The check of restored state\<close>

text \<open>A file is missing, does not decode, or holds a value.\<close>

datatype 'a json_file = Missing | Garbled | Decoded 'a

record state_files =
  sf_cursor :: "cursor json_file"
  sf_log :: log_dir
  sf_total :: "(usd_text \<times> gotime) json_file"
  sf_debts :: "debt_record list json_file"
  sf_dead :: "(nat \<times> line) list"
  sf_wal :: wal_file

datatype state_problem = CursorUnreadable | CursorBeyondLog | TotalUnparseable | WalUnparseable

record state_check =
  ck_OK :: bool
  ck_Offset :: nat
  ck_SettledUSD :: usd_text
  ck_Debts :: nat
  ck_DeadLetters :: nat
  ck_WALPresent :: bool
  ck_WALConfirmed :: nat
  ck_WALTotal :: nat
  ck_Problems :: "state_problem list"

definition decoded :: "'a json_file \<Rightarrow> 'a option" where
  "decoded f = (case f of Decoded x \<Rightarrow> Some x | _ \<Rightarrow> None)"

text \<open>\<open>scans\<close> tells whether \<open>Sscanf\<close> with \<open>%g\<close> accepts a text; it does accept a decimal numeral.\<close>

definition bigParse :: "(usd_text \<Rightarrow> bool) \<Rightarrow> usd_text \<Rightarrow> bool" where
  "bigParse scans s = (if s = NoText then True else scans s)"

definition check_cursor :: "state_files \<Rightarrow> state_problem list" where
  "check_cursor f =
     (let offset = (case sf_cursor f of Decoded c \<Rightarrow> cu_offset c | _ \<Rightarrow> 0)
      in (if sf_cursor f = Garbled then [CursorUnreadable] else []) @
         (case file_at (sf_log f) 0 of
            None \<Rightarrow> []
          | Some m \<Rightarrow> if offset > lf_size m \<and> file_at (sf_log f) 1 = None then [CursorBeyondLog] else []))"

definition VerifyState :: "(usd_text \<Rightarrow> bool) \<Rightarrow> state_files \<Rightarrow> state_check" where
  "VerifyState scans f =
     (let settled = fst (readSettledTotal (decoded (sf_total f)));
          problems = check_cursor f @
            (if bigParse scans settled then [] else [TotalUnparseable]) @
            (if sf_wal f = BadWal then [WalUnparseable] else []);
          batches = (case sf_wal f of Wal p \<Rightarrow> ps_batches p | _ \<Rightarrow> [])
      in \<lparr>ck_OK = (problems = []), ck_Offset = (case sf_cursor f of Decoded c \<Rightarrow> cu_offset c | _ \<Rightarrow> 0), ck_SettledUSD = settled,
          ck_Debts = length (loadDebts (decoded (sf_debts f))), ck_DeadLetters = length (loadDeadLetter (sf_dead f)),
          ck_WALPresent = (case sf_wal f of Wal _ \<Rightarrow> True | _ \<Rightarrow> False), ck_WALConfirmed = length (filter pb_confirmed batches),
          ck_WALTotal = length batches, ck_Problems = problems\<rparr>)"

lemma check_cursor_frame:
  "check_cursor (f\<lparr>sf_debts := ds\<rparr>) = check_cursor f" "check_cursor (f\<lparr>sf_dead := dead\<rparr>) = check_cursor f"
  "check_cursor (f\<lparr>sf_total := t\<rparr>) = check_cursor f"
  by (simp_all add: check_cursor_def Let_def split: option.split)

text \<open>
  The check misses half of the state. A garbled debt ledger, a garbled running total and any damage to the dead-letter
  file pass it: the result is that of files that are missing, and a state that is safe to start on stays so.
\<close>

theorem damage_passes_check:
  "VerifyState scans (f\<lparr>sf_debts := Garbled\<rparr>) = VerifyState scans (f\<lparr>sf_debts := Missing\<rparr>)"
  "VerifyState scans (f\<lparr>sf_total := Garbled\<rparr>) = VerifyState scans (f\<lparr>sf_total := Missing\<rparr>)"
  "ck_OK (VerifyState scans (f\<lparr>sf_debts := ds, sf_dead := dead\<rparr>)) = ck_OK (VerifyState scans f)"
  by (simp_all add: VerifyState_def check_cursor_frame decoded_def Let_def)

section \<open>Before a batch is committed\<close>

definition SettleETA :: "int \<Rightarrow> int \<Rightarrow> int \<Rightarrow> int" where
  "SettleETA intervalMinutes lastSettleUnix nowUnix =
     (let interval = intervalMinutes * 60
      in if interval \<le> 0 then 0
         else if lastSettleUnix = 0 then interval
         else let eta = lastSettleUnix + interval - nowUnix in if eta < 0 then 0 else eta)"

text \<open>\<open>contains\<close> tells whether a line has the quoted id in it; the JSON of a row has its own id quoted.\<close>

fun find_row :: "(nat \<times> line \<Rightarrow> string \<Rightarrow> bool) \<Rightarrow> string \<Rightarrow> (nat \<times> line) list \<Rightarrow> request_record option" where
  "find_row contains rid [] = None"
| "find_row contains rid ((k, l) # ls) =
     (if k > max_line then None
      else if \<not> contains (k, l) rid then find_row contains rid ls
      else case l of
             Row rec \<Rightarrow> if rr_id rec = rid then Some rec else find_row contains rid ls
           | Malformed \<Rightarrow> find_row contains rid ls)"

definition FindUnsettled :: "(nat \<times> line \<Rightarrow> string \<Rightarrow> bool) \<Rightarrow> string \<Rightarrow> log_dir \<Rightarrow> request_record option" where
  "FindUnsettled contains rid d =
     (if rid = '''' then None
      else case (case file_at d 0 of Some f \<Rightarrow> find_row contains rid (lf_lines f) | None \<Rightarrow> None) of
             Some rec \<Rightarrow> Some rec
           | None \<Rightarrow> (case file_at d 1 of Some f \<Rightarrow> find_row contains rid (lf_lines f) | None \<Rightarrow> None))"

lemma SettleETA_bounds: "0 \<le> SettleETA i l now" "l \<le> now \<Longrightarrow> 0 \<le> i \<Longrightarrow> SettleETA i l now \<le> i * 60"
  by (auto simp: SettleETA_def Let_def)

lemma find_row_sound: "find_row contains rid ls = Some rec \<Longrightarrow> rr_id rec = rid \<and> (\<exists>k. (k, Row rec) \<in> set ls)"
  by (induction contains rid ls rule: find_row.induct) (auto split: if_splits line.splits)

lemma find_row_complete:
  assumes "(k, Row rec) \<in> set ls" "list_all (\<lambda>(k, l). k \<le> max_line) ls" "\<And>k rec. contains (k, Row rec) (rr_id rec)"
  shows "find_row contains (rr_id rec) ls \<noteq> None"
  using assms by (induction ls) (auto split: line.splits)

text \<open>
  A request is known at once. Right after its row is logged, with or without a rotation by this very row, the lookup finds
  a row of this request, and whatever it finds for an id is a row with that id in the log.
\<close>

lemma fresh_request_is_found:
  assumes "chain d m bs" "file_fits m" "json_len r + 1 \<le> max_line" "rr_id r \<noteq> ''''" "\<And>k rec. contains (k, Row rec) (rr_id rec)"
  shows "\<exists>rec. FindUnsettled contains (rr_id r) (snd (Log json_len r (rl, d))) = Some rec \<and> rr_id rec = rr_id r"
proof -
  let ?l = "(json_len r + 1, Row r)"
  let ?m = "m\<lparr>lf_lines := lf_lines m @ [?l]\<rparr>"
  have ch: "chain (append_line ?l d) ?m bs" by (rule chain_append [OF assms(1)])
  have fit: "list_all (\<lambda>(k, l). k \<le> max_line) (lf_lines ?m)"
    using assms(2,3) by (auto simp: file_fits_def lines_fit_def list_all_iff)
  have "find_row contains (rr_id r) (lf_lines ?m) \<noteq> None" by (rule find_row_complete [where k = "json_len r + 1" and rec = r and contains = contains, OF _ fit]) (simp_all add: assms(5))
  then obtain rec where rec: "find_row contains (rr_id r) (lf_lines ?m) = Some rec" by blast
  then have id: "rr_id rec = rr_id r" using find_row_sound by blast
  show ?thesis
  proof (cases "rl_currentSize rl + (json_len r + 1) \<ge> rl_maxSize rl")
    case False
    then have "snd (Log json_len r (rl, d)) = append_line ?l d" by (simp add: Log_def Let_def)
    moreover have "file_at (append_line ?l d) 0 = Some ?m" using ch by (simp add: chain_def)
    ultimately show ?thesis using rec id assms(4) by (simp add: FindUnsettled_def)
  next
    case True
    let ?rl = "rl\<lparr>rl_currentSize := rl_currentSize rl + (json_len r + 1)\<rparr>"
    have L: "Log json_len r (rl, d) = rotate_log (?rl, append_line ?l d)" using True by (simp add: Log_def Let_def)
    obtain m' where m': "chain (snd (rotate_log (?rl, append_line ?l d))) m' (?m # take (backups_kept ?rl - 1) bs @ drop (backups_kept ?rl) bs)"
      "lf_lines m' = []" using chain_rotate [OF ch refl, of ?rl] by blast
    then have "file_at (snd (rotate_log (?rl, append_line ?l d))) 0 = Some m'" "file_at (snd (rotate_log (?rl, append_line ?l d))) 1 = Some ?m"
      by (auto simp: chain_def dest: spec [of _ 0])
    then show ?thesis using rec id assms(4) m'(2) by (simp add: FindUnsettled_def L)
  qed
qed

text \<open>
  The lookup does not ask whether the row is billable: a request that failed and will never be in a batch is
  reported as waiting for the next one.
\<close>

lemma failed_request_awaits_settlement:
  assumes "chain d m bs" "file_fits m" "json_len r + 1 \<le> max_line" "rr_id r \<noteq> ''''" "\<And>k rec. contains (k, Row rec) (rr_id rec)"
    "rr_status r = 502" "\<And>k rec. \<exists>f\<in>set (m # bs). (k, Row rec) \<in> set (lf_lines f) \<Longrightarrow> rr_id rec \<noteq> rr_id r"
    "rl_currentSize rl + (json_len r + 1) < rl_maxSize rl"
  shows "FindUnsettled contains (rr_id r) (snd (Log json_len r (rl, d))) = Some r \<and> \<not> isBillable r"
proof -
  let ?l = "(json_len r + 1, Row r)"
  have L: "snd (Log json_len r (rl, d)) = append_line ?l d" using assms(8) by (simp add: Log_def Let_def)
  have f: "file_at (append_line ?l d) 0 = Some (m\<lparr>lf_lines := lf_lines m @ [?l]\<rparr>)"
    using chain_append [OF assms(1), of ?l] by (simp add: chain_def)
  have fit: "list_all (\<lambda>(k, l). k \<le> max_line) (lf_lines m @ [?l])"
    using assms(2,3) by (auto simp: file_fits_def lines_fit_def list_all_iff)
  have "find_row contains (rr_id r) (lf_lines m @ [?l]) \<noteq> None" by (rule find_row_complete [where k = "json_len r + 1" and rec = r and contains = contains, OF _ fit]) (simp_all add: assms(5))
  then obtain rec where rec: "find_row contains (rr_id r) (lf_lines m @ [?l]) = Some rec" by blast
  then have "rec = r" using find_row_sound [OF rec] assms(7) by auto
  then show ?thesis using rec f assms(4,6) by (simp add: FindUnsettled_def L isBillable_def)
qed

section \<open>Active wallets\<close>

definition ActiveWalletWindow :: duration where "ActiveWalletWindow = 90 * 24 * 60 * minute"
definition ActiveWalletMinRequests :: nat where "ActiveWalletMinRequests = 10"
definition activeWalletTTL :: duration where "activeWalletTTL = 10 * minute"

text \<open>The newest time and whether the scan ended in an error, with the tallies.\<close>

fun scanWalletsSince :: "gotime \<Rightarrow> (nat \<times> line) list \<Rightarrow> gotime \<Rightarrow> (string \<times> nat) list \<Rightarrow> gotime \<times> bool \<times> (string \<times> nat) list" where
  "scanWalletsSince cutoff [] newest tally = (newest, False, tally)"
| "scanWalletsSince cutoff ((k, l) # ls) newest tally =
     (if k > max_line then (newest, True, tally)
      else case l of
             Malformed \<Rightarrow> scanWalletsSince cutoff ls newest tally
           | Row rec \<Rightarrow>
               let newest = (if rr_timestamp rec > newest then rr_timestamp rec else newest)
               in if rr_status rec \<noteq> 200 \<or> rr_wallet rec = '''' \<or> rr_timestamp rec < cutoff
                  then scanWalletsSince cutoff ls newest tally
                  else let w = ToLower (rr_wallet rec)
                       in scanWalletsSince cutoff ls newest (aput w ((case alookup tally w of Some n \<Rightarrow> n | None \<Rightarrow> 0) + 1) tally))"

text \<open>The names of the backups are sorted as texts.\<close>

definition rotatedLogPaths :: "log_dir \<Rightarrow> nat list" where
  "rotatedLogPaths d = 0 # sort_key (\<lambda>i. dec_nat i) (filter (\<lambda>i. i \<noteq> 0) (remdups (akeys (ld_files d))))"

fun walk_files :: "gotime \<Rightarrow> log_dir \<Rightarrow> nat list \<Rightarrow> bool \<Rightarrow> (string \<times> nat) list \<Rightarrow> bool \<times> (string \<times> nat) list" where
  "walk_files cutoff d [] err tally = (err, tally)"
| "walk_files cutoff d (i # is) err tally =
     (case file_at d i of
        None \<Rightarrow> walk_files cutoff d is err tally
      | Some f \<Rightarrow>
          let (newest, e, tally) = scanWalletsSince cutoff (lf_lines f) zero_time tally; err = (err \<or> e)
          in if newest \<noteq> zero_time \<and> newest < cutoff then (err, tally) else walk_files cutoff d is err tally)"

definition walk_logs :: "gotime \<Rightarrow> log_dir \<Rightarrow> nat option" where
  "walk_logs now d =
     (let (err, tally) = walk_files (now - ActiveWalletWindow) d (rotatedLogPaths d) False []
      in if err \<and> tally = [] then None
         else Some (length (filter (\<lambda>(w, c). c \<ge> ActiveWalletMinRequests) tally)))"

record wallet_counter =
  wc_count :: nat
  wc_computed :: gotime

text \<open>Calls during a walk wait for it and share its result; \<open>None\<close> is no log at all.\<close>

definition Count :: "gotime \<Rightarrow> log_dir option \<Rightarrow> wallet_counter \<Rightarrow> (nat \<times> gotime) \<times> wallet_counter" where
  "Count now dir c =
     (case dir of
        None \<Rightarrow> ((0, zero_time), c)
      | Some d \<Rightarrow>
          if wc_computed c \<noteq> zero_time \<and> now - wc_computed c < activeWalletTTL then ((wc_count c, wc_computed c), c)
          else let c = (case walk_logs now d of Some n \<Rightarrow> \<lparr>wc_count = n, wc_computed = now\<rparr> | None \<Rightarrow> c)
               in ((wc_count c, wc_computed c), c))"

subsection \<open>The walk and the whole log\<close>

text \<open>What counts: the successful rows of a wallet, in any case, at or after the cutoff.\<close>

fun wallet_hit :: "gotime \<Rightarrow> string \<Rightarrow> nat \<times> line \<Rightarrow> bool" where
  "wallet_hit cutoff w (k, Malformed) \<longleftrightarrow> False"
| "wallet_hit cutoff w (k, Row rec) \<longleftrightarrow>
     rr_status rec = 200 \<and> rr_wallet rec \<noteq> '''' \<and> cutoff \<le> rr_timestamp rec \<and> ToLower (rr_wallet rec) = w"

definition hits :: "gotime \<Rightarrow> (nat \<times> line) list \<Rightarrow> string \<Rightarrow> nat" where
  "hits cutoff ls w = length (filter (wallet_hit cutoff w) ls)"

definition active_wallets :: "gotime \<Rightarrow> (nat \<times> line) list \<Rightarrow> nat" where
  "active_wallets cutoff ls = card {w. ActiveWalletMinRequests \<le> hits cutoff ls w}"

text \<open>Every row of an older file is at most as new as every row of a newer one.\<close>

definition row_times :: "(nat \<times> line) list \<Rightarrow> gotime set" where
  "row_times ls = {rr_timestamp rec | k rec. (k, Row rec) \<in> set ls}"

fun chronological :: "line lines_file list \<Rightarrow> bool" where
  "chronological [] \<longleftrightarrow> True"
| "chronological (f # fs) \<longleftrightarrow>
     (\<forall>g\<in>set fs. \<forall>a\<in>row_times (lf_lines g). \<forall>b\<in>row_times (lf_lines f). a \<le> b) \<and> chronological fs"

definition tally_of :: "(string \<times> nat) list \<Rightarrow> string \<Rightarrow> nat" where
  "tally_of t w = (case alookup t w of Some n \<Rightarrow> n | None \<Rightarrow> 0)"

lemma hits_simps [simp]:
  "hits cutoff [] w = 0" "hits cutoff (x # ls) w = (if wallet_hit cutoff w x then 1 else 0) + hits cutoff ls w"
  "hits cutoff (ls @ ls') w = hits cutoff ls w + hits cutoff ls' w"
  by (simp_all add: hits_def)

lemma hits_stale: "(\<And>a. a \<in> row_times ls \<Longrightarrow> a < cutoff) \<Longrightarrow> hits cutoff ls w = 0"
proof -
  assume a: "\<And>a. a \<in> row_times ls \<Longrightarrow> a < cutoff"
  have "\<not> wallet_hit cutoff w x" if "x \<in> set ls" for x
    using a that by (cases "(cutoff, w, x)" rule: wallet_hit.cases) (force simp: row_times_def)+
  then show ?thesis by (simp add: hits_def)
qed

lemma tally_of_aput [simp]: "tally_of (aput w n t) w' = (if w' = w then n else tally_of t w')"
  by (simp add: tally_of_def)

lemma row_times_Cons [simp]:
  "row_times [] = {}" "row_times ((k, Malformed) # ls) = row_times ls"
  "row_times ((k, Row rec) # ls) = insert (rr_timestamp rec) (row_times ls)"
  by (auto simp: row_times_def)

definition scan_ok :: "gotime \<Rightarrow> (nat \<times> line) list \<Rightarrow> gotime \<Rightarrow> (string \<times> nat) list \<Rightarrow> gotime \<times> bool \<times> (string \<times> nat) list \<Rightarrow> bool" where
  "scan_ok cutoff ls newest t r \<longleftrightarrow>
     (case r of (n', e, t') \<Rightarrow>
        \<not> e \<and> (\<forall>w. tally_of t' w = tally_of t w + hits cutoff ls w) \<and> distinct (akeys t') \<and> newest \<le> n' \<and>
        (n' = newest \<or> n' \<in> row_times ls) \<and> (\<forall>a\<in>row_times ls. a \<le> n'))"

lemma scan_ok_Row:
  assumes "scan_ok cutoff ls (if rr_timestamp rec > newest then rr_timestamp rec else newest) t' r"
    "\<And>w. tally_of t' w = tally_of t w + (if wallet_hit cutoff w (k, Row rec) then 1 else 0)"
  shows "scan_ok cutoff ((k, Row rec) # ls) newest t r"
proof -
  obtain n e u where r: "r = (n, e, u)" by (cases r)
  show ?thesis using assms(1) unfolding scan_ok_def r assms(2) by (auto split: if_splits)
qed

lemma scan_tallies:
  assumes "list_all (\<lambda>(k, l). k \<le> max_line) ls" "distinct (akeys t)"
  shows "scan_ok cutoff ls newest t (scanWalletsSince cutoff ls newest t)"
  using assms
proof (induction ls arbitrary: newest t)
  case Nil
  then show ?case by (simp add: scan_ok_def)
next
  case (Cons x ls)
  obtain k l where x: "x = (k, l)" by (cases x)
  have k: "\<not> k > max_line" and fit: "list_all (\<lambda>(k, l). k \<le> max_line) ls" using Cons.prems(1) by (simp_all add: x)
  show ?case
  proof (cases l)
    case Malformed
    then show ?thesis using Cons.IH [OF fit Cons.prems(2), of newest] k by (simp add: x scan_ok_def)
  next
    case (Row rec)
    let ?n = "if rr_timestamp rec > newest then rr_timestamp rec else newest"
    let ?skip = "rr_status rec \<noteq> 200 \<or> rr_wallet rec = '''' \<or> rr_timestamp rec < cutoff"
    let ?w = "ToLower (rr_wallet rec)"
    let ?t = "if ?skip then t else aput ?w (tally_of t ?w + 1) t"
    have s: "scanWalletsSince cutoff (x # ls) newest t = scanWalletsSince cutoff ls ?n ?t"
      using k by (simp add: x Row Let_def tally_of_def)
    have "distinct (akeys ?t)" using Cons.prems(2) by simp
    then have "scan_ok cutoff ls ?n ?t (scanWalletsSince cutoff ls ?n ?t)" by (rule Cons.IH [OF fit])
    then show ?thesis unfolding s unfolding x Row by (rule scan_ok_Row) auto
  qed
qed

lemma walk_tallies:
  assumes "\<forall>f\<in>set fs. file_fits f" "chronological fs" "list_all2 (\<lambda>i f. file_at d i = Some f) is fs" "distinct (akeys t)"
  shows "\<exists>t'. walk_files cutoff d is False t = (False, t') \<and> distinct (akeys t') \<and>
    (\<forall>w. tally_of t' w = tally_of t w + hits cutoff (concat (List.map lf_lines fs)) w)"
  using assms
proof (induction fs arbitrary: "is" t)
  case Nil
  then show ?case by simp
next
  case (Cons f fs)
  then obtain i js where "is": "is = i # js" and f: "file_at d i = Some f" and js: "list_all2 (\<lambda>i f. file_at d i = Some f) js fs"
    by (auto simp: list_all2_Cons2)
  obtain n e t' where s: "scanWalletsSince cutoff (lf_lines f) zero_time t = (n, e, t')" by (metis prod_cases3)
  have "list_all (\<lambda>(k, l). k \<le> max_line) (lf_lines f)"
    using Cons.prems(1) by (auto simp: file_fits_def lines_fit_def list_all_iff)
  from scan_tallies [OF this Cons.prems(4), of cutoff zero_time] have
    ok: "\<not> e" "\<And>w. tally_of t' w = tally_of t w + hits cutoff (lf_lines f) w" "distinct (akeys t')"
      "n = zero_time \<or> n \<in> row_times (lf_lines f)" by (simp_all add: scan_ok_def s)
  show ?case
  proof (cases "n \<noteq> zero_time \<and> n < cutoff")
    case True
    then have n: "n \<in> row_times (lf_lines f)" "n < cutoff" using ok(4) by auto
    have "hits cutoff (concat (List.map lf_lines fs)) w = 0" for w
    proof (rule hits_stale)
      fix a assume "a \<in> row_times (concat (List.map lf_lines fs))"
      then obtain g where "g \<in> set fs" "a \<in> row_times (lf_lines g)" by (auto simp: row_times_def)
      then have "a \<le> n" using Cons.prems(2) n(1) by auto
      then show "a < cutoff" using n(2) by simp
    qed
    then show ?thesis using True ok by (simp add: "is" f s)
  next
    case False
    obtain t'' where "walk_files cutoff d js False t' = (False, t'')" "distinct (akeys t'')"
      "\<And>w. tally_of t'' w = tally_of t' w + hits cutoff (concat (List.map lf_lines fs)) w"
      using Cons.IH [OF _ _ js ok(3)] Cons.prems(1,2) by auto
    then show ?thesis using False ok by (auto simp: "is" f s)
  qed
qed

lemma inj_dec_nat: "inj dec_nat"
  by (rule inj_on_inverseI [of _ undec]) (simp add: dec_nat_props)

lemma digit_less [simp]: "i < 10 \<Longrightarrow> j < 10 \<Longrightarrow> digit i < digit j \<longleftrightarrow> i < j"
  by (simp add: digit_def less_char_def)

lemma sort_by_name:
  assumes "distinct xs" "set xs = set ys" "distinct ys" "sorted (List.map dec_nat ys)"
  shows "sort_key dec_nat xs = ys"
proof -
  have "List.map dec_nat (sort_key dec_nat xs) = List.map dec_nat ys"
    by (rule sorted_distinct_set_unique)
      (use assms inj_on_subset [OF inj_dec_nat subset_UNIV] in \<open>simp_all add: distinct_map\<close>)
  then show ?thesis by (simp add: inj_map_eq_map [OF inj_dec_nat])
qed

lemma paths_in_order:
  assumes "chain d m bs" "length bs \<le> 9"
  shows "rotatedLogPaths d = [0..<Suc (length bs)]"
proof -
  let ?xs = "filter (\<lambda>i. i \<noteq> 0) (remdups (akeys (ld_files d)))"
  have "i \<in> set ?xs \<longleftrightarrow> i \<in> {1..length bs}" for i
  proof (cases i)
    case (Suc j)
    then show ?thesis using assms(1) alookup_None_iff [of "ld_files d" i] by (auto simp: chain_def)
  qed simp
  then have S: "set ?xs = set [1..<Suc (length bs)]" unfolding set_upt atLeastLessThanSuc_atLeastAtMost by (rule set_eqI)
  have "dec_nat i \<le> dec_nat j" if "i \<le> j" "j < 10" for i j
    using that by (cases "i = j") (auto simp: dec_nat.simps)
  then have "sorted (List.map dec_nat [1..<10])" by (auto simp: sorted_map sorted_wrt_iff_nth_less)
  moreover have "[1..<Suc (length bs)] = take (length bs) [1..<10]" using assms(2) by (simp add: take_upt del: upt_Suc)
  ultimately have srt: "sorted (List.map dec_nat [1..<Suc (length bs)])" by (simp add: take_map [symmetric] sorted_wrt_take)
  have "sort_key dec_nat ?xs = [1..<Suc (length bs)]" by (rule sort_by_name) (use S srt in \<open>simp_all del: upt_Suc\<close>)
  then show ?thesis by (simp add: rotatedLogPaths_def upt_conv_Cons del: upt_Suc)
qed

lemma tally_card:
  assumes "distinct (akeys t)"
  shows "length (filter (\<lambda>(w, c). c \<ge> ActiveWalletMinRequests) t) = card {w. ActiveWalletMinRequests \<le> tally_of t w}"
proof -
  have "{w. ActiveWalletMinRequests \<le> tally_of t w} = fst ` set (filter (\<lambda>(w, c). c \<ge> ActiveWalletMinRequests) t)"
  proof (intro set_eqI iffI)
    fix w assume "w \<in> {w. ActiveWalletMinRequests \<le> tally_of t w}"
    then obtain c where "alookup t w = Some c" "ActiveWalletMinRequests \<le> c"
      by (auto simp: tally_of_def ActiveWalletMinRequests_def split: option.splits)
    then show "w \<in> fst ` set (filter (\<lambda>(w, c). c \<ge> ActiveWalletMinRequests) t)"
      using alookup_in_set by (force simp: image_iff)
  next
    fix w assume "w \<in> fst ` set (filter (\<lambda>(w, c). c \<ge> ActiveWalletMinRequests) t)"
    then obtain c where "(w, c) \<in> set t" "ActiveWalletMinRequests \<le> c" by auto
    then show "w \<in> {w. ActiveWalletMinRequests \<le> tally_of t w}" using in_set_alookup [OF assms] by (simp add: tally_of_def)
  qed
  moreover have "distinct (List.map fst (filter (\<lambda>(w, c). c \<ge> ActiveWalletMinRequests) t))"
    using assms by (simp add: akeys_def distinct_map_filter)
  ultimately show ?thesis by (metis distinct_card length_map set_map)
qed

text \<open>
  The walk stops at the first file that is older than the window, and on a log with at most nine backups it still counts
  exactly the wallets that the whole log has.
\<close>

theorem walk_counts_active_wallets:
  assumes "chain d m bs" "length bs \<le> 9" "\<forall>f\<in>set (m # bs). file_fits f" "chronological (m # bs)"
  shows "walk_logs now d = Some (active_wallets (now - ActiveWalletWindow) (concat (List.map lf_lines (m # bs))))"
proof -
  have "list_all2 (\<lambda>i f. file_at d i = Some f) [0..<Suc (length bs)] (m # bs)"
  proof (rule list_all2_all_nthI)
    fix i assume "i < length [0..<Suc (length bs)]"
    then show "file_at d ([0..<Suc (length bs)] ! i) = Some ((m # bs) ! i)"
      using assms(1) by (cases i) (auto simp: chain_def simp del: upt_Suc)
  qed simp
  from walk_tallies [OF assms(3,4) this, of "[]" "now - ActiveWalletWindow"]
  obtain t where "walk_files (now - ActiveWalletWindow) d [0..<Suc (length bs)] False [] = (False, t)" "distinct (akeys t)"
    "\<And>w. tally_of t w = hits (now - ActiveWalletWindow) (concat (List.map lf_lines (m # bs))) w"
    by (auto simp: tally_of_def)
  then show ?thesis using tally_card [of t] by (simp add: walk_logs_def paths_in_order [OF assms(1,2)] active_wallets_def)
qed

definition wallet_file :: "nat \<Rightarrow> gotime \<Rightarrow> nat \<Rightarrow> line lines_file" where
  "wallet_file i t n = \<lparr>lf_ino = i, lf_dev = 1, lf_lines = replicate n (1, Row (sample_record\<lparr>rr_timestamp := t\<rparr>))\<rparr>"

definition ten_backups :: "line lines_file list" where
  "ten_backups = wallet_file 1 (100 * ActiveWalletWindow) 0 # wallet_file 2 (100 * ActiveWalletWindow) 0 #
     wallet_file 3 (100 * ActiveWalletWindow) 10 # List.map (\<lambda>i. wallet_file i ActiveWalletWindow 1) [4..<12]"

definition ten_backups_dir :: log_dir where
  "ten_backups_dir = \<lparr>ld_files = zip [0..<11] ten_backups, ld_next = 12\<rparr>"


lemma hits_replicate: "hits cutoff (replicate n x) w = (if wallet_hit cutoff w x then n else 0)"
  by (induction n) simp_all

lemma row_times_replicate: "row_times (replicate n (k, Row rec)) = (if n = 0 then {} else {rr_timestamp rec})"
  by (auto simp: row_times_def)

lemma seven: "[4..<12] = [4, 5, 6, 7, 8, 9, 10, 11::nat]"
  by code_simp

lemma eleven: "[0..<11] = [0, 1, 2, 3, 4, 5, 6, 7, 8, 9, 10::nat]"
  by code_simp

lemma ten_backups_paths: "rotatedLogPaths ten_backups_dir = [0, 1, 10, 2, 3, 4, 5, 6, 7, 8, 9]"
proof -
  have k: "akeys (ld_files ten_backups_dir) = [0, 1, 2, 3, 4, 5, 6, 7, 8, 9, 10]"
    by (simp add: ten_backups_dir_def ten_backups_def akeys_def eleven seven)
  have "sort_key dec_nat [1, 2, 3, 4, 5, 6, 7, 8, 9, 10] = [1, 10, 2, 3, 4, 5, 6, 7, 8, 9]"
    by (rule sort_by_name) (auto simp: dec_nat.simps)
  then show ?thesis by (simp add: rotatedLogPaths_def k)
qed

lemma ten_backups_hits:
  "hits (99 * ActiveWalletWindow) (concat (List.map lf_lines ten_backups)) w = (if w = ToLower (rr_wallet sample_record) then 10 else 0)"
proof -
  show ?thesis
    by (simp add: ten_backups_def wallet_file_def hits_replicate seven ActiveWalletWindow_def minute_def second_def sample_record_def)
qed

text \<open>
  With the ten backups of the default rotation the tenth is read before the second. When it is older than the window the
  walk stops there: a wallet with ten requests of this hour is not counted.
\<close>

theorem tenth_backup_ends_the_walk:
  "chronological ten_backups \<and> walk_logs (100 * ActiveWalletWindow) ten_backups_dir = Some 0 \<and>
   active_wallets (99 * ActiveWalletWindow) (concat (List.map lf_lines ten_backups)) = 1"
proof (intro conjI)
  show "chronological ten_backups"
    by (simp add: ten_backups_def wallet_file_def row_times_replicate seven ActiveWalletWindow_def minute_def second_def)
  show "walk_logs (100 * ActiveWalletWindow) ten_backups_dir = Some 0"
    unfolding walk_logs_def ten_backups_paths
    by (simp add: Let_def ten_backups_dir_def ten_backups_def wallet_file_def seven eleven ActiveWalletWindow_def minute_def second_def
      sample_record_def max_line_def)
  show "active_wallets (99 * ActiveWalletWindow) (concat (List.map lf_lines ten_backups)) = 1"
    by (simp add: active_wallets_def ten_backups_hits ActiveWalletMinRequests_def)
qed


definition page_dir :: log_dir where
  "page_dir = \<lparr>ld_files = [(0, wallet_file 1 5 2), (1, wallet_file 2 3 1)], ld_next = 3\<rparr>"

lemma page_dir_chain: "chain page_dir (wallet_file 1 5 2) [wallet_file 2 3 1]"
  by (auto simp: page_dir_def chain_def wallet_file_def less_Suc_eq)

lemma page_dir_ok:
  "\<forall>f\<in>set [wallet_file 1 5 2, wallet_file 2 3 1]. file_fits f" "chronological [wallet_file 1 5 2, wallet_file 2 3 1]"
  by (simp_all add: file_fits_def lines_fit_def wallet_file_def max_line_def row_times_replicate)

theorem walk_counts_active_wallets_witness:
  "walk_logs 10 page_dir = Some (active_wallets (10 - ActiveWalletWindow)
     (concat (List.map lf_lines [wallet_file 1 5 2, wallet_file 2 3 1])))"
  by (rule walk_counts_active_wallets [OF page_dir_chain _ page_dir_ok]) simp

end
