(* ===== verification/SpDetail.thy ===== *)
theory SpDetail
  imports ReceiptStore Reconcile Reports Keys
begin

text \<open>
  The earnings of one storage provider per request (\<open>settlement/sp_detail.go\<close>): the walk of the
  rotated log from newest to oldest with its two early stops, the page of the newest requests, and
  the settled status of each from the receipt index. \<open>sort.Slice\<close> is an argument: it leaves rows
  of one time in any order.
\<close>

section \<open>The rows of one provider\<close>

definition time_unix :: "gotime \<Rightarrow> int" where
  "time_unix t = t div second - unix_epoch"

definition sp_row :: "aggregator \<Rightarrow> string \<Rightarrow> int \<Rightarrow> request_record \<Rightarrow> bool" where
  "sp_row a want since rec =
     (if rr_status rec \<noteq> 200 \<or> rr_total rec \<le> 0 \<or> rr_wallet rec = '''' \<or> rr_error rec \<noteq> '''' then False
      else if since > 0 \<and> time_unix (rr_timestamp rec) < since then False
      else let sp = resolveWorkerToEVM a (rr_worker rec) in \<not> (sp = '''' \<or> ToLower sp \<noteq> want))"

text \<open>A line that is too long fails the scan.\<close>

fun scanSPRecords :: "aggregator \<Rightarrow> string \<Rightarrow> int \<Rightarrow> (nat \<times> line) list \<Rightarrow> request_record list \<Rightarrow> gotime \<Rightarrow>
    (request_record list \<times> gotime) option" where
  "scanSPRecords a want since [] out maxTS = Some (out, maxTS)"
| "scanSPRecords a want since ((k, l) # ls) out maxTS =
     (if k > max_line then None
      else case l of
             Malformed \<Rightarrow> scanSPRecords a want since ls out maxTS
           | Row rec \<Rightarrow>
               scanSPRecords a want since ls (if sp_row a want since rec then out @ [rec] else out)
                 (if rr_timestamp rec > maxTS then rr_timestamp rec else maxTS))"

text \<open>The main file, which may be missing, and the backups up to the first that is.\<close>

fun backups_from :: "log_dir \<Rightarrow> nat \<Rightarrow> nat \<Rightarrow> (nat \<times> line) list list" where
  "backups_from d i 0 = []"
| "backups_from d i (Suc fuel) =
     (case file_at d i of None \<Rightarrow> [] | Some f \<Rightarrow> lf_lines f # backups_from d (Suc i) fuel)"

definition log_files :: "log_dir \<Rightarrow> (nat \<times> line) list list" where
  "log_files d =
     (case file_at d 0 of Some f \<Rightarrow> lf_lines f | None \<Rightarrow> []) # backups_from d 1 (length (ld_files d))"

fun collect_page :: "aggregator \<Rightarrow> string \<Rightarrow> int \<Rightarrow> nat \<Rightarrow> (nat \<times> line) list list \<Rightarrow> request_record list \<Rightarrow> request_record list option" where
  "collect_page a want since limit [] recs = Some recs"
| "collect_page a want since limit (ls # lss) recs =
     (case scanSPRecords a want since ls [] zero_time of
        None \<Rightarrow> None
      | Some (fileRecs, maxTS) \<Rightarrow>
          let recs = recs @ fileRecs
          in if length recs \<ge> limit then Some recs
             else if since > 0 \<and> maxTS \<noteq> zero_time \<and> time_unix maxTS < since then Some recs
             else collect_page a want since limit lss recs)"

section \<open>The answer\<close>

record sp_earning =
  sp_rid :: string
  sp_time :: gotime
  sp_model :: string
  sp_total :: int
  sp_prompt :: int
  sp_cached :: int
  sp_usd :: usd_text
  sp_settled :: bool
  sp_tx :: string
  sp_details :: string
  sp_block :: nat

record sp_detail =
  sd_sp :: string
  sd_fee :: int
  sd_total :: usd_text
  sd_settled_usd :: usd_text
  sd_pending_usd :: usd_text
  sd_settled :: nat
  sd_pending :: nat
  sd_items :: "sp_earning list"

text \<open>Each id of the page is looked up by itself: ids of one line are read together in the code.\<close>

definition settledInfoForRIDs :: "store_env \<Rightarrow> string list \<Rightarrow> receipt_store \<Rightarrow> (string \<rightharpoonup> merkle_row) \<times> receipt_store" where
  "settledInfoForRIDs e rids st =
     (if rids = [] then (Map.empty, st)
      else let st = WarmReceiptIndex e st
           in (\<lambda>rid. if rid \<in> set rids
                     then (case index_lookup (rs_midx st) rid of Some off \<Rightarrow> readMerkleBatchAt st off rid | None \<Rightarrow> None)
                     else None, st))"

definition detail_item :: "request_record \<Rightarrow> bigfloat \<Rightarrow> merkle_row option \<Rightarrow> sp_earning" where
  "detail_item rec earn led =
     \<lparr>sp_rid = rr_id rec, sp_time = rr_timestamp rec, sp_model = rr_model rec, sp_total = rr_total rec,
      sp_prompt = rr_prompt rec, sp_cached = rr_cached rec, sp_usd = TextN 8 earn,
      sp_settled = (led \<noteq> None), sp_tx = (case led of Some r \<Rightarrow> mr_tx r | None \<Rightarrow> ''''),
      sp_details = (case led of Some r \<Rightarrow> mr_hash r | None \<Rightarrow> ''''), sp_block = (case led of Some r \<Rightarrow> mr_block r | None \<Rightarrow> 0)\<rparr>"

text \<open>The three sums: all, settled, pending.\<close>

definition add_earning ::
  "aggregator \<Rightarrow> int \<Rightarrow> (string \<rightharpoonup> merkle_row) \<Rightarrow> request_record \<Rightarrow>
   bigfloat \<times> bigfloat \<times> bigfloat \<times> nat \<times> nat \<times> sp_earning list \<Rightarrow>
   bigfloat \<times> bigfloat \<times> bigfloat \<times> nat \<times> nat \<times> sp_earning list" where
  "add_earning a feeBps settled rec = (\<lambda>(t, s, p, ns, np, items).
     (let earn = RecordEarningUSD a rec feeBps;
          t = bf_add t earn;
          items = items @ [detail_item rec earn (settled (rr_id rec))]
      in case settled (rr_id rec) of
           Some _ \<Rightarrow> (t, bf_add s earn, p, ns + 1, np, items)
         | None \<Rightarrow> (t, s, bf_add p earn, ns, np + 1, items)))"

definition page_of :: "(request_record list \<Rightarrow> request_record list) \<Rightarrow> int \<Rightarrow> request_record list \<Rightarrow> request_record list" where
  "page_of order limit recs = take (nat (if limit \<le> 0 then 200 else limit)) (order recs)"

definition SPEarningsDetail ::
  "(request_record list \<Rightarrow> request_record list) \<Rightarrow> store_env \<Rightarrow> cycle_view \<Rightarrow> string \<Rightarrow> int \<Rightarrow> int \<Rightarrow> int \<Rightarrow>
   receipt_store \<Rightarrow> sp_detail option \<times> receipt_store" where
  "SPEarningsDetail order e v spEVM since limit feeBps st =
     (let a = refresh_maps v
      in case collect_page a (ToLower spEVM) since (nat (if limit \<le> 0 then 200 else limit)) (log_files (cy_log v)) [] of
           None \<Rightarrow> (None, st)
         | Some recs \<Rightarrow>
             let recs = page_of order limit recs;
                 (settled, st) = settledInfoForRIDs e (List.map rr_id recs) st;
                 (t, s, p, ns, np, items) = fold (add_earning a feeBps settled) recs (bf_zero, bf_zero, bf_zero, 0, 0, [])
             in (Some \<lparr>sd_sp = spEVM, sd_fee = feeBps, sd_total = TextN 8 t, sd_settled_usd = TextN 8 s,
                   sd_pending_usd = TextN 8 p, sd_settled = ns, sd_pending = np, sd_items = items\<rparr>, st))"
section \<open>The page is the newest\<close>

definition newest_first :: "(request_record list \<Rightarrow> request_record list) \<Rightarrow> bool" where
  "newest_first order \<longleftrightarrow>
     (\<forall>rs. mset (order rs) = mset rs \<and> sorted_wrt (\<lambda>r s. rr_timestamp s \<le> rr_timestamp r) (order rs))"

definition newest_page :: "nat \<Rightarrow> request_record list \<Rightarrow> request_record list \<Rightarrow> bool" where
  "newest_page n page rs \<longleftrightarrow>
     length page = min n (length rs) \<and> sorted_wrt (\<lambda>r s. rr_timestamp s \<le> rr_timestamp r) page \<and>
     (\<exists>others. mset rs = mset (page @ others) \<and> (\<forall>r\<in>set others. \<forall>p\<in>set page. rr_timestamp r \<le> rr_timestamp p))"

definition log_rows :: "(nat \<times> line) list \<Rightarrow> request_record list" where
  "log_rows ls = [r. (k, Row r) \<leftarrow> ls]"

lemma log_rows_simps [simp]:
  "log_rows [] = []" "log_rows ((k, Malformed) # ls) = log_rows ls" "log_rows ((k, Row r) # ls) = r # log_rows ls"
  "log_rows (ls @ ls') = log_rows ls @ log_rows ls'"
  by (simp_all add: log_rows_def)

lemma log_rows_times: "r \<in> set (log_rows ls) \<Longrightarrow> rr_timestamp r \<in> row_times ls"
  by (force simp: log_rows_def row_times_def split: line.splits)

lemma time_unix_mono: "s \<le> t \<Longrightarrow> time_unix s \<le> time_unix t"
  by (simp add: time_unix_def second_def zdiv_mono1)

lemma scan_rows:
  assumes "list_all (\<lambda>(k, l). k \<le> max_line) ls"
  shows "\<exists>mx. scanSPRecords a want since ls out maxTS = Some (out @ filter (sp_row a want since) (log_rows ls), mx) \<and>
    (mx = maxTS \<or> mx \<in> row_times ls)"
  using assms
proof (induction ls arbitrary: out maxTS)
  case (Cons x ls)
  obtain k l where x: "x = (k, l)" by (cases x)
  show ?case
  proof (cases l)
    case Malformed
    then show ?thesis using Cons by (simp add: x)
  next
    case (Row rec)
    let ?out = "if sp_row a want since rec then out @ [rec] else out"
    let ?mx = "if rr_timestamp rec > maxTS then rr_timestamp rec else maxTS"
    obtain mx where "scanSPRecords a want since ls ?out ?mx = Some (?out @ filter (sp_row a want since) (log_rows ls), mx)"
      "mx = ?mx \<or> mx \<in> row_times ls" using Cons by auto
    then show ?thesis using Cons.prems by (auto simp: x Row)
  qed
qed simp

lemma collect_newest:
  assumes "\<forall>f\<in>set fs. file_fits f" "chronological fs"
  shows "\<exists>out others. collect_page a want since limit (List.map lf_lines fs) recs = Some (recs @ out) \<and>
    filter (sp_row a want since) (log_rows (concat (List.map lf_lines fs))) = out @ others \<and>
    (others = [] \<or> limit \<le> length (recs @ out)) \<and> (\<forall>r\<in>set others. \<forall>p\<in>set out. rr_timestamp r \<le> rr_timestamp p)"
  using assms
proof (induction fs arbitrary: recs)
  case (Cons f fs)
  let ?own = "filter (sp_row a want since) (log_rows (lf_lines f))"
  let ?older = "filter (sp_row a want since) (log_rows (concat (List.map lf_lines fs)))"
  have "list_all (\<lambda>(k, l). k \<le> max_line) (lf_lines f)"
    using Cons.prems(1) by (auto simp: file_fits_def lines_fit_def list_all_iff)
  then obtain mx where s: "scanSPRecords a want since (lf_lines f) [] zero_time = Some (?own, mx)"
    "mx = zero_time \<or> mx \<in> row_times (lf_lines f)" using scan_rows [of "lf_lines f" a want since "[]" zero_time] by auto
  have older: "rr_timestamp r \<le> t" if "r \<in> set ?older" "t \<in> row_times (lf_lines f)" for r t
  proof -
    have "rr_timestamp r \<in> row_times (concat (List.map lf_lines fs))" using that(1) log_rows_times by auto
    then obtain g where "g \<in> set fs" "rr_timestamp r \<in> row_times (lf_lines g)" by (auto simp: row_times_def)
    then show ?thesis using Cons.prems(2) that(2) by auto
  qed
  then have own: "rr_timestamp r \<le> rr_timestamp p" if "r \<in> set ?older" "p \<in> set ?own" for r p
    using that log_rows_times [of p "lf_lines f"] by auto
  show ?case
  proof (cases "limit \<le> length (recs @ ?own)")
    case True
    then show ?thesis using own by (intro exI [of _ ?own] exI [of _ ?older]) (auto simp: s)
  next
    case False
    show ?thesis
    proof (cases "since > 0 \<and> mx \<noteq> zero_time \<and> time_unix mx < since")
      case True
      then have mx: "mx \<in> row_times (lf_lines f)" using s(2) by simp
      have "?older = []"
      proof (rule ccontr)
        assume "?older \<noteq> []"
        then obtain r where r: "r \<in> set ?older" by (cases ?older) auto
        then have "time_unix (rr_timestamp r) \<le> time_unix mx" by (intro time_unix_mono older mx)
        then show False using r True by (auto simp: sp_row_def split: if_splits)
      qed
      then show ?thesis using True False by (intro exI [of _ ?own] exI [of _ "[]"]) (simp add: s)
    next
      case notsince: False
      obtain out others where IH: "collect_page a want since limit (List.map lf_lines fs) (recs @ ?own) = Some ((recs @ ?own) @ out)"
        "?older = out @ others" "others = [] \<or> limit \<le> length ((recs @ ?own) @ out)"
        "\<forall>r\<in>set others. \<forall>p\<in>set out. rr_timestamp r \<le> rr_timestamp p"
        using Cons.IH [of "recs @ ?own"] Cons.prems by auto
      have c: "collect_page a want since limit (List.map lf_lines (f # fs)) recs = Some (recs @ (?own @ out))"
        using False notsince IH(1) by (auto simp: s(1) Let_def not_le)
      have "\<forall>r\<in>set others. \<forall>p\<in>set (?own @ out). rr_timestamp r \<le> rr_timestamp p"
        using IH(4) own unfolding IH(2) by (metis Un_iff set_append)
      then show ?thesis using IH(2,3) unfolding c by (intro exI [of _ "?own @ out"] exI [of _ others]) simp
    qed
  qed
qed simp

lemma take_is_newest:
  assumes "newest_first order" "rs = out @ others" "others = [] \<or> n \<le> length out"
    "\<forall>r\<in>set others. \<forall>p\<in>set out. rr_timestamp r \<le> rr_timestamp p"
  shows "newest_page n (take n (order out)) rs"
proof -
  let ?o = "order out"
  have o: "mset ?o = mset out" "sorted_wrt (\<lambda>r s. rr_timestamp s \<le> rr_timestamp r) ?o" using assms(1) by (auto simp: newest_first_def)
  then have len: "length ?o = length out" and st: "set ?o = set out" by (auto dest: mset_eq_length mset_eq_setD)
  have w: "sorted_wrt (\<lambda>r s. rr_timestamp s \<le> rr_timestamp r) (take n ?o @ drop n ?o)" using o(2) by simp
  have "mset rs = mset (take n ?o @ drop n ?o @ others)" using o(1) assms(2) by (metis append_assoc append_take_drop_id mset_append)
  moreover have "\<forall>r\<in>set (drop n ?o @ others). \<forall>p\<in>set (take n ?o). rr_timestamp r \<le> rr_timestamp p"
    using w assms(4) st set_take_subset [of n ?o] unfolding sorted_wrt_append by auto
  moreover have "length (take n ?o) = min n (length rs)" using assms(2,3) len by auto
  ultimately show ?thesis using w unfolding newest_page_def sorted_wrt_append by blast
qed

lemma backups_from_chain:
  assumes "\<And>i. file_at d (k + i) = (if i < length bs then Some (bs ! i) else None)" "length bs \<le> fuel"
  shows "backups_from d k fuel = List.map lf_lines bs"
  using assms
proof (induction bs arbitrary: k fuel)
  case Nil
  then show ?case using Nil(1) [of 0] by (cases fuel) auto
next
  case (Cons b bs)
  then obtain n where n: "fuel = Suc n" "length bs \<le> n" by (cases fuel) auto
  have "file_at d (Suc k + i) = (if i < length bs then Some (bs ! i) else None)" for i
    using Cons.prems(1) [of "Suc i"] by simp
  then show ?case using Cons.IH [of "Suc k" n] Cons.prems(1) [of 0] n by simp
qed

lemma chain_files:
  assumes "chain d m bs"
  shows "log_files d = List.map lf_lines (m # bs)"
proof -
  have "{0..<Suc (length bs)} \<subseteq> set (akeys (ld_files d))"
  proof
    fix i assume "i \<in> {0..<Suc (length bs)}"
    then show "i \<in> set (akeys (ld_files d))"
      using assms alookup_None_iff [of "ld_files d" i] by (cases i) (auto simp: chain_def)
  qed
  then have "card {0..<Suc (length bs)} \<le> length (akeys (ld_files d))" by (meson List.finite_set card_length card_mono le_trans)
  then have "length bs \<le> length (ld_files d)" by (simp add: akeys_def)
  then have "backups_from d 1 (length (ld_files d)) = List.map lf_lines bs"
    by (intro backups_from_chain) (use assms in \<open>simp_all add: chain_def\<close>)
  then show ?thesis using assms by (simp add: log_files_def chain_def)
qed

lemma settled_info:
  assumes "ReceiptStore.store_ok st" "en_sidecar_ok e"
  shows "rid \<in> set rids \<Longrightarrow> fst (settledInfoForRIDs e rids st) rid = newest_batch (rs_ledger st) rid"
proof -
  assume rid: "rid \<in> set rids"
  let ?w = "WarmReceiptIndex e st"
  have w: "rs_ledger ?w = rs_ledger st" "rs_midx ?w = Some (ledger_index (rs_ledger st))" and p: "lines_pos (rs_ledger st)"
    using warm_ok [OF assms] assms(1) by (auto simp: ReceiptStore.store_ok_def)
  have "rids \<noteq> []" using rid by auto
  then show ?thesis using rid index_reads_newest [OF p, of rid]
    by (auto simp: settledInfoForRIDs_def Let_def index_lookup_def w readMerkleBatchAt_def split: option.splits)
qed

lemma add_earning_step:
  "\<exists>t' s' p'. add_earning a fee settled r (t, s, p, ns, np, items) =
     (t', s', p', ns + (if settled (rr_id r) \<noteq> None then 1 else 0), np + (if settled (rr_id r) = None then 1 else 0),
      items @ [detail_item r (RecordEarningUSD a r fee) (settled (rr_id r))])"
  by (cases "settled (rr_id r)") (simp_all add: add_earning_def Let_def)

lemma fold_earnings:
  "\<exists>t' s' p'. fold (add_earning a fee settled) rs (t, s, p, ns, np, items) =
     (t', s', p', ns + length (filter (\<lambda>r. settled (rr_id r) \<noteq> None) rs), np + length (filter (\<lambda>r. settled (rr_id r) = None) rs),
      items @ List.map (\<lambda>r. detail_item r (RecordEarningUSD a r fee) (settled (rr_id r))) rs)"
proof (induction rs arbitrary: t s p ns np items)
  case (Cons r rs)
  obtain t1 s1 p1 where 1: "add_earning a fee settled r (t, s, p, ns, np, items) =
     (t1, s1, p1, ns + (if settled (rr_id r) \<noteq> None then 1 else 0), np + (if settled (rr_id r) = None then 1 else 0),
      items @ [detail_item r (RecordEarningUSD a r fee) (settled (rr_id r))])" using add_earning_step by blast
  show ?case using Cons.IH [of t1 s1 p1 "ns + (if settled (rr_id r) \<noteq> None then 1 else 0)"
      "np + (if settled (rr_id r) = None then 1 else 0)" "items @ [detail_item r (RecordEarningUSD a r fee) (settled (rr_id r))]"]
    by (cases "settled (rr_id r) = None") (auto simp: 1)
qed simp

lemma detail_answer:
  assumes "collect_page (refresh_maps v) (ToLower sp) since (nat (if limit \<le> 0 then 200 else limit)) (log_files (cy_log v)) [] = Some recs"
    and page_def: "page = page_of order limit recs"
    and settled_def: "settled = fst (settledInfoForRIDs e (List.map rr_id page) st)"
  shows "\<exists>t s p. fst (SPEarningsDetail order e v sp since limit fee st) = Some
    \<lparr>sd_sp = sp, sd_fee = fee, sd_total = TextN 8 t, sd_settled_usd = TextN 8 s, sd_pending_usd = TextN 8 p,
     sd_settled = length (filter (\<lambda>r. settled (rr_id r) \<noteq> None) page),
     sd_pending = length (filter (\<lambda>r. settled (rr_id r) = None) page),
     sd_items = List.map (\<lambda>r. detail_item r (RecordEarningUSD (refresh_maps v) r fee) (settled (rr_id r))) page\<rparr>"
proof -
  obtain settled' st' where se: "settledInfoForRIDs e (List.map rr_id page) st = (settled', st')"
    by (cases "settledInfoForRIDs e (List.map rr_id page) st")
  then have s: "settled = settled'" by (simp add: settled_def)
  obtain t s p where f: "fold (add_earning (refresh_maps v) fee settled') page (bf_zero, bf_zero, bf_zero, 0, 0, []) =
    (t, s, p, length (filter (\<lambda>r. settled' (rr_id r) \<noteq> None) page), length (filter (\<lambda>r. settled' (rr_id r) = None) page),
     List.map (\<lambda>r. detail_item r (RecordEarningUSD (refresh_maps v) r fee) (settled' (rr_id r))) page)"
    using fold_earnings [of "refresh_maps v" fee settled' page bf_zero bf_zero bf_zero 0 0 "[]"] by auto
  show ?thesis unfolding SPEarningsDetail_def assms(1) Let_def option.case page_def [symmetric] se prod.case f s by auto
qed

text \<open>
  The page of a provider is exact in spite of the early stops of the walk: it holds as many of its billable requests since
  the given time as the limit allows, the newest ones, and each is shown settled if and only if the receipt ledger has a
  batch with it, with the transaction of the newest such batch.
\<close>

theorem page_is_exact:
  fixes v :: cycle_view
  defines "a \<equiv> refresh_maps v"
  assumes "chain (cy_log v) m bs" "\<forall>f\<in>set (m # bs). file_fits f" "chronological (m # bs)"
    "newest_first order" "store_step\<^sup>*\<^sup>* empty_store st" "en_sidecar_ok e"
  shows "\<exists>res page. fst (SPEarningsDetail order e v sp since limit fee st) = Some res \<and>
    newest_page (nat (if limit \<le> 0 then 200 else limit)) page
      (filter (sp_row a (ToLower sp) since) (log_rows (concat (List.map lf_lines (m # bs))))) \<and>
    sd_items res = List.map (\<lambda>r. detail_item r (RecordEarningUSD a r fee) (newest_batch (rs_ledger st) (rr_id r))) page \<and>
    sd_settled res = length (filter (\<lambda>r. newest_batch (rs_ledger st) (rr_id r) \<noteq> None) page) \<and>
    sd_settled res + sd_pending res = length page"
proof -
  let ?n = "nat (if limit \<le> 0 then 200 else limit)"
  obtain out others where c: "collect_page a (ToLower sp) since ?n (List.map lf_lines (m # bs)) [] = Some out"
    "filter (sp_row a (ToLower sp) since) (log_rows (concat (List.map lf_lines (m # bs)))) = out @ others"
    "others = [] \<or> ?n \<le> length out" "\<forall>r\<in>set others. \<forall>p\<in>set out. rr_timestamp r \<le> rr_timestamp p"
    using collect_newest [OF assms(3,4), of a "ToLower sp" since ?n "[]"] by auto
  let ?page = "page_of order limit out"
  have pg: "newest_page ?n ?page (filter (sp_row a (ToLower sp) since) (log_rows (concat (List.map lf_lines (m # bs)))))"
    unfolding page_of_def by (rule take_is_newest [OF assms(5) c(2,3,4)])
  let ?s = "fst (settledInfoForRIDs e (List.map rr_id ?page) st)"
  have nb: "?s (rr_id r) = newest_batch (rs_ledger st) (rr_id r)" if "r \<in> set ?page" for r
    using settled_info [OF store_steps_ok [OF assms(6)] assms(7), of "rr_id r" "List.map rr_id ?page"] that by simp
  have r: "List.map (\<lambda>r. detail_item r (RecordEarningUSD a r fee) (?s (rr_id r))) ?page =
      List.map (\<lambda>r. detail_item r (RecordEarningUSD a r fee) (newest_batch (rs_ledger st) (rr_id r))) ?page"
    "length (filter (\<lambda>r. ?s (rr_id r) \<noteq> None) ?page) = length (filter (\<lambda>r. newest_batch (rs_ledger st) (rr_id r) \<noteq> None) ?page)"
    "length (filter (\<lambda>r. ?s (rr_id r) \<noteq> None) ?page) + length (filter (\<lambda>r. ?s (rr_id r) = None) ?page) = length ?page"
    using nb sum_length_filter_compl [of "\<lambda>r. ?s (rr_id r) = None" ?page] by (simp_all cong: filter_cong)
  have "collect_page (refresh_maps v) (ToLower sp) since ?n (log_files (cy_log v)) [] = Some out"
    using c(1) by (simp only: a_def chain_files [OF assms(2)])
  from detail_answer [where order = order and e = e and st = st and fee = fee, OF this refl refl] obtain t s p where
    "fst (SPEarningsDetail order e v sp since limit fee st) = Some
      \<lparr>sd_sp = sp, sd_fee = fee, sd_total = TextN 8 t, sd_settled_usd = TextN 8 s, sd_pending_usd = TextN 8 p,
       sd_settled = length (filter (\<lambda>r. ?s (rr_id r) \<noteq> None) ?page),
       sd_pending = length (filter (\<lambda>r. ?s (rr_id r) = None) ?page),
       sd_items = List.map (\<lambda>r. detail_item r (RecordEarningUSD a r fee) (?s (rr_id r))) ?page\<rparr>" by (auto simp: a_def)
  then show ?thesis using pg r by (intro exI [of _ "the (fst (SPEarningsDetail order e v sp since limit fee st))"] exI [of _ ?page]) simp
qed

definition page_view :: "pricer \<Rightarrow> cycle_view" where
  "page_view pr = \<lparr>cy_log = page_dir, cy_agg = sample_agg,
     cy_pricer = pr, cy_now = 10, cy_workerSP = Some (Map.empty(rr_worker sample_record \<mapsto> ''f01'')),
     cy_payout = Some (Map.empty(''f01'' \<mapsto> ''0xs''))\<rparr>"

lemma newest_first_sort: "newest_first (sort_key (\<lambda>r. - rr_timestamp r))"
  by (auto simp: newest_first_def) (metis (mono_tags, lifting) neg_le_iff_le sorted_map sorted_sort_key sorted_wrt_mono_rel)

theorem page_is_exact_witness:
  "\<forall>pr. \<exists>res. fst (SPEarningsDetail (sort_key (\<lambda>r. - rr_timestamp r)) (ReceiptStore.sample_env True) (page_view pr) ''0xs'' 0 2 500 empty_store) = Some res \<and>
     length (sd_items res) = 2"
proof
  fix pr
  let ?a = "refresh_maps (page_view pr)"
  have rows: "log_rows (concat (List.map lf_lines [wallet_file 1 5 2, wallet_file 2 3 1])) =
      [sample_record\<lparr>rr_timestamp := 5\<rparr>, sample_record\<lparr>rr_timestamp := 5\<rparr>, sample_record\<lparr>rr_timestamp := 3\<rparr>]"
    by (simp add: wallet_file_def numeral_2_eq_2)
  have mine: "sp_row ?a (ToLower ''0xs'') 0 (sample_record\<lparr>rr_timestamp := t\<rparr>)" for t
    by (simp add: sp_row_def refresh_maps_def page_view_def UpdateWorkerSPMap_def UpdateMinerPayoutMap_def resolveWorkerToEVM_def
      sample_record_def Let_def)
  have m: "filter (sp_row ?a (ToLower ''0xs'') 0) (log_rows (concat (List.map lf_lines [wallet_file 1 5 2, wallet_file 2 3 1]))) =
      [sample_record\<lparr>rr_timestamp := 5\<rparr>, sample_record\<lparr>rr_timestamp := 5\<rparr>, sample_record\<lparr>rr_timestamp := 3\<rparr>]"
    unfolding rows by (simp only: filter.simps mine if_True)
  have c: "chain (cy_log (page_view pr)) (wallet_file 1 5 2) [wallet_file 2 3 1]"
    using page_dir_chain by (simp add: page_view_def)
  obtain res page where "fst (SPEarningsDetail (sort_key (\<lambda>r. - rr_timestamp r)) (ReceiptStore.sample_env True) (page_view pr) ''0xs'' 0 2 500 empty_store) = Some res"
    "newest_page 2 page [sample_record\<lparr>rr_timestamp := 5\<rparr>, sample_record\<lparr>rr_timestamp := 5\<rparr>, sample_record\<lparr>rr_timestamp := 3\<rparr>]"
    "sd_items res = List.map (\<lambda>r. detail_item r (RecordEarningUSD ?a r 500) (newest_batch (rs_ledger empty_store) (rr_id r))) page"
    using page_is_exact [OF c page_dir_ok newest_first_sort rtranclp.rtrancl_refl ReceiptStore.sample_env_ok(2) [of True, simplified],
      of "''0xs''" 0 2 500, unfolded m] by auto
  then show "\<exists>res. fst (SPEarningsDetail (sort_key (\<lambda>r. - rr_timestamp r)) (ReceiptStore.sample_env True) (page_view pr) ''0xs'' 0 2 500 empty_store) = Some res \<and>
     length (sd_items res) = 2"
    by (auto simp: newest_page_def)
qed

end
