(* ===== verification/AdminApi.thy ===== *)
theory AdminApi
  imports Router Poller Body Sha256 RateLimit
begin

text \<open>
  The admin API (\<open>admin/api.go\<close>, \<open>admin/auth.go\<close>) over the worker registry, and the rate limit of the
  public query server (\<open>admin/public.go\<close>). A handler is a function of a request and the registry.
  JSON decoding of request bodies is an argument of the request: what the body decodes to.
\<close>

section \<open>Authentication\<close>

text \<open>A ban request: an empty body, one that does not decode, or one with its two fields.\<close>

datatype ban_body = EmptyBody | BadBody | BanBody int string

record admin_request =
  aq_method :: string
  aq_path :: string
  aq_auth :: string
  aq_registration :: "registration option"
  aq_ban :: ban_body

definition isPublicPath :: "string \<Rightarrow> bool" where
  "isPublicPath path \<longleftrightarrow> path = ''/health'' \<or> path = ''/ready'' \<or> path = ''/metrics''"

definition extractBearerToken :: "string \<Rightarrow> string option" where
  "extractBearerToken auth =
     (if \<not> HasPrefix auth ''Bearer '' then None
      else let token = TrimSpace (drop (length ''Bearer '') auth)
           in if token = '''' then None else Some token)"

definition tokensEqual :: "string \<Rightarrow> string \<Rightarrow> bool" where
  "tokensEqual a b \<longleftrightarrow> sha256 a = sha256 b"

datatype 'b reply = Reply nat 'b | Fail nat

fun reply_status :: "'b reply \<Rightarrow> nat" where
  "reply_status (Reply n b) = n"
| "reply_status (Fail n) = n"

definition authMiddleware ::
  "string \<Rightarrow> (admin_request \<Rightarrow> 's \<Rightarrow> 'b reply \<times> 's) \<Rightarrow> admin_request \<Rightarrow> 's \<Rightarrow> 'b reply \<times> 's" where
  "authMiddleware adminToken handler q s =
     (if isPublicPath (aq_path q) then handler q s
      else if adminToken = '''' then handler q s
      else case extractBearerToken (aq_auth q) of
             None \<Rightarrow> (Fail 401, s)
           | Some token \<Rightarrow> if \<not> tokensEqual token adminToken then (Fail 401, s) else handler q s)"

section \<open>Handlers\<close>

datatype admin_body =
    Registered string bool bool
  | WorkersBody "worker list"
  | WorkerBody worker
  | Deregistered string
  | Banned string gotime string
  | BanLifted string
  | StatsBody fleet_stats
  | HealthOk
  | Readiness nat nat bool
  | OtherBody

record admin_server =
  as_token :: string
  as_banDefault :: duration

definition SetBanDefault :: "duration \<Rightarrow> admin_server \<Rightarrow> admin_server" where
  "SetBanDefault d s = (if d > 0 then s\<lparr>as_banDefault := d\<rparr> else s)"

definition NewServer :: "string \<Rightarrow> admin_server" where
  "NewServer adminToken = \<lparr>as_token = adminToken, as_banDefault = 7 * 24 * 60 * minute\<rparr>"

record admin_env =
  ae_now :: gotime
  ae_disk :: bool
  ae_url_ok :: "string \<Rightarrow> bool"

definition handleRegister :: "admin_env \<Rightarrow> admin_request \<Rightarrow> registry \<Rightarrow> admin_body reply \<times> registry" where
  "handleRegister e q r =
     (if aq_method q \<noteq> ''POST'' then (Fail 405, r)
      else case aq_registration q of
             None \<Rightarrow> (Fail 400, r)
           | Some reg \<Rightarrow>
               (case Register (ae_url_ok e) (ae_disk e) (ae_now e) reg r of
                  (Inl err, r) \<Rightarrow> (Fail 400, r)
                | (Inr res, r) \<Rightarrow>
                    (Reply 200 (Registered (wk_id (rs_worker res)) (rs_created res) (rs_endpointChanged res)), r)))"

definition handleWorkers :: "admin_request \<Rightarrow> registry \<Rightarrow> admin_body reply \<times> registry" where
  "handleWorkers q r = (if aq_method q \<noteq> ''GET'' then (Fail 405, r) else (Reply 200 (WorkersBody (ListWorkers r)), r))"

text \<open>The product with \<open>time.Second\<close> is one of \<open>int64\<close>.\<close>

definition ban_duration :: "duration \<Rightarrow> int \<Rightarrow> duration" where
  "ban_duration banDefault sec = (let d = wrap64 (sec * second) in if d \<le> 0 then banDefault else d)"

definition handleWorkerBan ::
  "admin_server \<Rightarrow> admin_env \<Rightarrow> admin_request \<Rightarrow> string \<Rightarrow> registry \<Rightarrow> admin_body reply \<times> registry" where
  "handleWorkerBan s e q wid r =
     (if wid = '''' then (Fail 400, r)
      else if aq_method q = ''POST''
      then (let ban = (\<lambda>sec reason.
                  let until = ae_now e + ban_duration (as_banDefault s) sec
                  in (case SetBan (ae_disk e) wid until reason r of
                        (False, r) \<Rightarrow> (Fail 404, r)
                      | (True, r) \<Rightarrow> (Reply 200 (Banned wid until reason), r)))
            in case aq_ban q of BadBody \<Rightarrow> (Fail 400, r) | EmptyBody \<Rightarrow> ban 0 '''' | BanBody sec reason \<Rightarrow> ban sec reason)
      else if aq_method q = ''DELETE''
      then (case SetBan (ae_disk e) wid zero_time '''' r of
              (False, r) \<Rightarrow> (Fail 404, r)
            | (True, r) \<Rightarrow> (Reply 200 (BanLifted wid), r))
      else (Fail 405, r))"

definition TrimRightSlash :: "string \<Rightarrow> string" where
  "TrimRightSlash s = rev (dropWhile (\<lambda>c. c = CHR ''/'') (rev s))"

definition handleWorkerByID ::
  "admin_server \<Rightarrow> admin_env \<Rightarrow> admin_request \<Rightarrow> registry \<Rightarrow> admin_body reply \<times> registry" where
  "handleWorkerByID s e q r =
     (let path = TrimRightSlash (TrimPrefix (aq_path q) ''/api/v1/workers/'')
      in if HasSuffix path ''/ban'' then handleWorkerBan s e q (TrimSuffix path ''/ban'') r
         else if path = '''' then (Fail 400, r)
         else if aq_method q = ''GET''
         then (case Get r path of None \<Rightarrow> (Fail 404, r) | Some wk \<Rightarrow> (Reply 200 (WorkerBody wk), r))
         else if aq_method q = ''DELETE''
         then (case Deregister (ae_disk e) path r of
                 (None, r) \<Rightarrow> (Fail 404, r)
               | (Some _, r) \<Rightarrow> (Reply 200 (Deregistered path), r))
         else (Fail 405, r))"

definition handleStats :: "admin_request \<Rightarrow> registry \<Rightarrow> admin_body reply \<times> registry" where
  "handleStats q r = (if aq_method q \<noteq> ''GET'' then (Fail 405, r) else (Reply 200 (StatsBody (Stats r)), r))"

definition handleHealth :: "registry \<Rightarrow> admin_body reply \<times> registry" where
  "handleHealth r = (Reply 200 HealthOk, r)"

definition handleReady :: "registry \<Rightarrow> admin_body reply \<times> registry" where
  "handleReady r =
     (let st = Stats r;
          available = fs_idle st + fs_busy st;
          ready = (fs_total st = 0 \<or> available > 0)
      in (Reply (if ready then 200 else 503) (Readiness (fs_total st) available ready), r))"

text \<open>
  The patterns of the multiplexer on a clean path: an exact pattern goes before a subtree.
  The settlement endpoints, which do not touch the registry, and the metrics are one answer.
\<close>

definition admin_mux :: "admin_server \<Rightarrow> admin_env \<Rightarrow> (string \<Rightarrow> bool) \<Rightarrow> admin_request \<Rightarrow> registry \<Rightarrow> admin_body reply \<times> registry" where
  "admin_mux s e others q r =
     (let path = aq_path q
      in if path = ''/api/v1/workers/register'' then handleRegister e q r
         else if path = ''/api/v1/workers'' then handleWorkers q r
         else if HasPrefix path ''/api/v1/workers/'' then handleWorkerByID s e q r
         else if path = ''/api/v1/stats'' then handleStats q r
         else if path = ''/health'' then handleHealth r
         else if path = ''/ready'' then handleReady r
         else if path = ''/metrics'' \<or> others path then (Reply 200 OtherBody, r)
         else (Fail 404, r))"

definition serve_admin :: "admin_server \<Rightarrow> admin_env \<Rightarrow> (string \<Rightarrow> bool) \<Rightarrow> admin_request \<Rightarrow> registry \<Rightarrow> admin_body reply \<times> registry" where
  "serve_admin s e others = authMiddleware (as_token s) (admin_mux s e others)"

section \<open>The public query server\<close>

record public_bucket =
  pu_tokens :: bigfloat
  pu_max :: bigfloat
  pu_rate :: bigfloat
  pu_last :: gotime

definition newPublicBucket :: "bigfloat \<Rightarrow> int \<Rightarrow> gotime \<Rightarrow> public_bucket" where
  "newPublicBucket ratePerSec burst now =
     \<lparr>pu_tokens = float64_of_int burst, pu_max = float64_of_int burst, pu_rate = ratePerSec, pu_last = now\<rparr>"

definition public_allow :: "gotime \<Rightarrow> public_bucket \<Rightarrow> bool \<times> public_bucket" where
  "public_allow now b =
     (let t = f64_add (pu_tokens b) (f64_mul (duration_seconds (now - pu_last b)) (pu_rate b));
          t = (if bf_cmp t (pu_max b) > 0 then pu_max b else t);
          b = b\<lparr>pu_tokens := t, pu_last := now\<rparr>
      in if bf_cmp t (float64_of_int 1) \<ge> 0 then (True, b\<lparr>pu_tokens := f64_sub t (float64_of_int 1)\<rparr>) else (False, b))"

definition NewPublicServer :: "bigfloat \<Rightarrow> int \<Rightarrow> gotime \<Rightarrow> public_bucket" where
  "NewPublicServer ratePerSec burst now =
     (let ratePerSec = (if bf_sign ratePerSec \<le> 0 then float64_of_int 20 else ratePerSec);
          burst = (if burst \<le> 0 then (let b = bf_to_int (f64_mul ratePerSec (float64_of_int 2)) in if b < 1 then 1 else b) else burst)
      in newPublicBucket ratePerSec burst now)"

definition rateLimitMiddleware :: "gotime \<Rightarrow> string \<Rightarrow> ('s \<Rightarrow> 'b reply \<times> 's) \<Rightarrow> public_bucket \<times> 's \<Rightarrow> 'b reply \<times> public_bucket \<times> 's" where
  "rateLimitMiddleware now path next' = (\<lambda>(b, s).
     (if path = ''/health'' then (let (a, s) = next' s in (a, b, s))
      else case public_allow now b of
             (True, b) \<Rightarrow> (let (a, s) = next' s in (a, b, s))
           | (False, b) \<Rightarrow> (Fail 429, b, s)))"
section \<open>Nothing without the token\<close>

lemma public_paths_only_read:
  "isPublicPath (aq_path q) \<Longrightarrow> snd (admin_mux s e others q r) = r"
  by (auto simp: isPublicPath_def admin_mux_def Let_def handleHealth_def handleReady_def HasPrefix_def)

text \<open>
  With an admin token set, a request that changes the registry, or gets anything but a refusal outside the three
  public paths, carries a bearer token with the hash of the admin token.
\<close>

theorem changes_need_the_token:
  assumes "as_token s \<noteq> ''''" "serve_admin s e others q r = (a, r')" "r' \<noteq> r \<or> (reply_status a \<noteq> 401 \<and> \<not> isPublicPath (aq_path q))"
  shows "\<exists>t. extractBearerToken (aq_auth q) = Some t \<and> sha256 t = sha256 (as_token s)"
  using assms public_paths_only_read [of q s e others r]
  by (auto simp: serve_admin_def authMiddleware_def tokensEqual_def split: if_splits option.splits)

section \<open>Bans\<close>

lemma ban_path:
  "TrimRightSlash (TrimPrefix (''/api/v1/workers/'' @ wid @ ''/ban'') ''/api/v1/workers/'') = wid @ ''/ban''"
  by (simp add: TrimPrefix_def TrimRightSlash_def HasPrefix_def)

lemma ban_suffix: "HasSuffix (wid @ ''/ban'') ''/ban''" "TrimSuffix (wid @ ''/ban'') ''/ban'' = wid"
  by (simp_all add: HasSuffix_def TrimSuffix_def HasPrefix_def)

lemma mux_ban:
  "aq_path q = ''/api/v1/workers/'' @ wid @ ''/ban'' \<Longrightarrow> admin_mux s e others q r = handleWorkerBan s e q wid r"
proof -
  assume p: "aq_path q = ''/api/v1/workers/'' @ wid @ ''/ban''"
  have "''/api/v1/workers/'' @ wid @ ''/ban'' \<noteq> ''/api/v1/workers/register''"
  proof
    assume "''/api/v1/workers/'' @ wid @ ''/ban'' = ''/api/v1/workers/register''"
    then have "rev (''/api/v1/workers/'' @ wid @ ''/ban'') = rev ''/api/v1/workers/register''" by (rule arg_cong)
    then show False by simp
  qed
  then show ?thesis
    unfolding admin_mux_def handleWorkerByID_def p Let_def ban_path by (simp add: HasPrefix_def ban_suffix [simplified])
qed

lemma ban_duration_exact: "0 < sec \<Longrightarrow> sec \<le> 9223372036 \<Longrightarrow> ban_duration d sec = sec * second"
  by (simp add: ban_duration_def wrap64_def second_def)

lemma banned_not_selected:
  assumes "registry_ok r" "alookup (rg_workers r) wid = Some w" "wk_bannedUntil w = until" "t < until" "until \<noteq> zero_time"
    "selectWorkerForModel r t u model ex factor = Some w'"
  shows "wk_id w' \<noteq> wid"
proof
  assume id: "wk_id w' = wid"
  have sel: "w' \<in> set (ListWorkers r)" "admitted (rg_gate r) t model ex w'"
    using select_in [OF assms(6) [unfolded selectWorkerForModel_def]] by blast+
  then obtain k x where x: "(k, x) \<in> set (rg_workers r)" "w' = snapshot r x" by (auto simp: ListWorkers_def)
  have a: "alookup (rg_workers r) k = Some x" using x(1) assms(1) by (intro in_set_alookup) (simp_all add: registry_ok_def workers_ok_def)
  then have "wk_id x = k" using assms(1) by (simp add: registry_ok_def workers_ok_def)
  then have "k = wid" using id x(2) by (simp add: snapshot_def)
  then have "wk_bannedUntil w' = until" using a assms(2,3) x(2) by (simp add: snapshot_def)
  then have "IsBanned w' t" using assms(4,5) by (simp add: IsBanned_def)
  then show False using sel(2) by (simp add: admitted_def split: if_splits)
qed

text \<open>
  C31: A ban over the API is a ban in the router until its time is over. After a request with the admin token that bans a
  registered worker for 1 to 9223372036 seconds, whatever polls, switches, registrations, verifications, in-flight requests, bans and deregistrations of other
  workers and restarts follow, with every write of the registry's file successful, no request of any model goes to the worker before the
  ban's end.
\<close>

theorem banned_worker_gets_nothing:
  assumes "(saved_step {})\<^sup>*\<^sup>* (NewRegistry True file t0) r"
    and "case file of None \<Rightarrow> True | Some ps \<Rightarrow> distinct (List.map pw_id ps) \<and> list_all (\<lambda>pw. pw_registeredAt pw \<noteq> zero_time) ps"
    and "alookup (rg_workers r) wid = Some w" "wid \<noteq> ''''" "extractBearerToken (aq_auth q) = Some (as_token s)"
    and "aq_method q = ''POST''" "aq_path q = ''/api/v1/workers/'' @ wid @ ''/ban''" "aq_ban q = BanBody sec reason"
    and "0 < sec" "sec \<le> 9223372036" "0 < ae_now e" "ae_disk e"
    and "serve_admin s e others q r = (a, r')" "(saved_step {wid})\<^sup>*\<^sup>* r' r''" "t < ae_now e + sec * second"
  shows "case selectWorkerForModel r'' t u model ex factor of Some w' \<Rightarrow> wk_id w' \<noteq> wid | None \<Rightarrow> True"
proof -
  let ?until = "ae_now e + sec * second"
  have sy: "synced r" by (rule synced_steps [OF assms(1) synced_new [OF assms(2)]])
  have b: "authMiddleware (as_token s) (admin_mux s e others) q r = handleWorkerBan s e q wid r"
    using assms(5) mux_ban [OF assms(7)] by (simp add: authMiddleware_def tokensEqual_def)
  have r': "r' = snd (SetBan True wid ?until reason r)"
    using assms(3,4,6,8,12,13) ban_duration_exact [OF assms(9,10)]
    unfolding serve_admin_def b by (auto simp: handleWorkerBan_def Let_def SetBan_def split: prod.splits bool.splits)
  have sy': "synced r'" unfolding r' by (rule synced_step [OF saved_step.ban [where S = "{}"] sy]) simp
  obtain v where v: "alookup (rg_workers r') wid = Some v" "wk_bannedUntil v = ?until"
    using assms(3) by (simp add: r' SetBan_def fleet_simps)
  obtain w' where w': "alookup (rg_workers r'') wid = Some w'" "wk_bannedUntil w' = ?until"
    using bans_stay [OF assms(14) sy' _ v(1)] v(2) by auto
  have "registry_ok r''" using synced_steps [OF assms(14) sy'] by (simp add: synced_def)
  moreover have "?until \<noteq> zero_time" using assms(9,11) by (simp add: second_def)
  ultimately show ?thesis using banned_not_selected [OF _ w' assms(15)] by (auto split: option.split)
qed

text \<open>The seconds of a ban are multiplied in 64 bits: a ban of 18446744074 seconds is over after 0.3 seconds.\<close>

theorem long_ban_wraps:
  "ban_duration (7 * 24 * 60 * minute) 18446744074 = 290448384"
  by (simp add: ban_duration_def wrap64_def second_def Let_def)

section \<open>The public rate\<close>

definition bucket_of :: "public_bucket \<Rightarrow> tokenBucket" where
  "bucket_of b = \<lparr>tb_tokens = pu_tokens b, tb_burst = pu_max b, tb_ratePerSec = pu_rate b, tb_last = pu_last b\<rparr>"

lemma public_allow_capped: "public_allow now b = (a, b') \<Longrightarrow> capped_spend now (bucket_of b) = (a, bucket_of b')"
  by (auto simp: public_allow_def capped_spend_def spend_one_def bucket_of_def bf_cmp_cases Let_def split: if_splits)

interpretation public_bucket: token_bucket public_allow bucket_of False
proof
  fix b now a b'
  assume "bucket_ok (bucket_of b)" "False \<or> tb_last (bucket_of b) \<le> now" "public_allow now b = (a, b')"
  then show "bucket_ok (bucket_of b') \<and> tb_burst (bucket_of b') = tb_burst (bucket_of b) \<and>
    tb_ratePerSec (bucket_of b') = tb_ratePerSec (bucket_of b) \<and> tb_last (bucket_of b') = max now (tb_last (bucket_of b)) \<and>
    bf_val (tb_tokens (bucket_of b')) + (if a then 1 else 0)
      \<le> bf_val (tb_tokens (bucket_of b)) + earned (bucket_of b) (tb_last (bucket_of b')) + bf_val (tb_burst (bucket_of b)) * 9 / 2 ^ 53"
    by (intro capped_spend_pays public_allow_capped) simp_all
qed

text \<open>
  The log scans that the public server can be made to do are bounded: all callers together pass at most the burst plus
  the rate times the time, up to rounding.
\<close>

theorem public_scans_are_bounded:
  assumes "f64 rate" "0 \<le> bf_val rate" "1 \<le> burst" "burst < 2 ^ 53" "sorted (start # ts)"
    "bucket_run public_allow ts (newPublicBucket rate burst start) = (n, b)"
  shows "of_nat n \<le> of_int burst + bf_val rate * of_int (List.last (start # ts) - start) / 10 ^ 9 +
    of_nat (length ts) * (of_int burst * 9 / 2 ^ 53)"
proof -
  let ?b = "newPublicBucket rate burst start"
  have v: "bf_val (float64_of_int burst) = of_int burst" using assms by (intro bf_val_float64_of_int) simp
  have "(of_int burst :: rat) \<le> of_int (2 ^ 53)" using assms(4) by (subst of_int_le_iff) simp
  then have ok: "bucket_ok (bucket_of ?b)" using assms by (simp add: bucket_ok_def bucket_of_def newPublicBucket_def v)
  have b: "tb_last (bucket_of ?b) = start" "tb_tokens (bucket_of ?b) = float64_of_int burst" "tb_burst (bucket_of ?b) = float64_of_int burst"
    "tb_ratePerSec (bucket_of ?b) = rate"
    by (simp_all add: newPublicBucket_def bucket_of_def)
  have "s \<le> List.last (start # ts)" if "s \<in> set (tb_last (bucket_of ?b) # ts)" for s
    using that assms(5) unfolding b by (metis in_set_conv_nth last_conv_nth length_pos_if_in_set list.distinct(1) Suc_pred' less_Suc_eq_le diff_less zero_less_one sorted_nth_mono)
  from public_bucket.run_is_limited [OF ok _ assms(6) this] assms(5) show ?thesis unfolding b v by simp
qed

theorem public_scans_are_bounded_witness:
  "\<exists>n b. bucket_run public_allow [5, 5, 7] (newPublicBucket (float64_of_int 20) 40 5) = (n, b) \<and>
     (of_nat n :: rat) \<le> of_int 40 + bf_val (float64_of_int 20) * of_int (List.last [5, 5, 5, 7] - 5) / 10 ^ 9 +
       of_nat (length [5, 5, 7 :: int]) * (of_int 40 * 9 / 2 ^ 53)"
proof -
  obtain n b where r: "bucket_run public_allow [5, 5, 7] (newPublicBucket (float64_of_int 20) 40 5) = (n, b)"
    by (cases "bucket_run public_allow [5, 5, 7] (newPublicBucket (float64_of_int 20) 40 5)")
  have "bf_val (float64_of_int 20) = 20" by (subst bf_val_float64_of_int) simp_all
  from public_scans_are_bounded [OF _ _ _ _ _ r] this show ?thesis using r by (intro exI [of _ n] exI [of _ b]) simp
qed

section \<open>Concrete instances\<close>

definition sample_env :: admin_env where
  "sample_env = \<lparr>ae_now = 10, ae_disk = True, ae_url_ok = (\<lambda>_. True)\<rparr>"

definition ban_request :: "string \<Rightarrow> admin_request" where
  "ban_request auth = \<lparr>aq_method = ''POST'', aq_path = ''/api/v1/workers/w1/ban'', aq_auth = auth, aq_registration = None,
     aq_ban = BanBody 60 ''fraud''\<rparr>"

lemma sample_token: "extractBearerToken ''Bearer t0'' = Some ''t0''"
  by code_simp

lemma sample_ban:
  "\<exists>a r'. serve_admin (NewServer ''t0'') sample_env (\<lambda>_. False) (ban_request ''Bearer t0'') (live_fleet True) = (a, r') \<and>
     r' = snd (SetBan True ''w1'' (10 + 60 * second) ''fraud'' (live_fleet True)) \<and> r' \<noteq> live_fleet True"
proof -
  let ?q = "ban_request ''Bearer t0''"
  have "aq_path ?q = ''/api/v1/workers/'' @ ''w1'' @ ''/ban''" by (simp add: ban_request_def)
  then have "serve_admin (NewServer ''t0'') sample_env (\<lambda>_. False) ?q (live_fleet True) =
      handleWorkerBan (NewServer ''t0'') sample_env ?q ''w1'' (live_fleet True)"
    using mux_ban [of ?q "''w1''"] by (simp add: serve_admin_def authMiddleware_def NewServer_def sample_token tokensEqual_def ban_request_def)
  moreover have "live_worker\<lparr>wk_bannedUntil := 60000000010, wk_banReason := ''fraud''\<rparr> \<noteq> live_worker"
    using live_worker_props(5) by (metis (no_types, lifting) worker.select_convs(19) worker.surjective worker.update_convs(19,20) zero_neq_numeral)
  ultimately show ?thesis
    using ban_duration_exact [of 60]
    by (auto simp: handleWorkerBan_def ban_request_def sample_env_def Let_def SetBan_def live_fleet_eq put_worker_def saveToDisk_def second_def)
qed

theorem changes_need_the_token_witness:
  "\<exists>t. extractBearerToken (aq_auth (ban_request ''Bearer t0'')) = Some t \<and> sha256 t = sha256 (as_token (NewServer ''t0''))"
proof -
  obtain a r' where s: "serve_admin (NewServer ''t0'') sample_env (\<lambda>_. False) (ban_request ''Bearer t0'') (live_fleet True) = (a, r')"
    "r' \<noteq> live_fleet True" using sample_ban by blast
  show ?thesis by (rule changes_need_the_token [OF _ s(1)]) (simp_all add: s(2) NewServer_def)
qed

lemma live_fleet_saved: "(saved_step {})\<^sup>*\<^sup>* (NewRegistry True None 1) (live_fleet gate)"
proof -
  have "saved_step {} (NewRegistry True None 1) sample_fleet"
    unfolding sample_fleet_def by (rule saved_step.register) simp
  moreover have "saved_step {} sample_fleet (snd (UpdateState 6 ''w1'' ''GPU_STATE_AVAILABLE'' ''running'' 0 ''m'' 1 sample_fleet))"
    by (rule saved_step.update)
  ultimately show ?thesis unfolding live_fleet_def
    using saved_step.gate by (meson r_into_rtranclp rtranclp.rtrancl_into_rtrancl)
qed

theorem banned_worker_gets_nothing_witness:
  "\<exists>a r'. serve_admin (NewServer ''t0'') sample_env (\<lambda>_. False) (ban_request ''Bearer t0'') (live_fleet False) = (a, r') \<and>
     (\<forall>u. selectWorkerForModel (NewRegistry True (rg_file r') 12) (11 + second) u ''m'' (\<lambda>_. False) bf_zero = None)"
proof -
  let ?q = "ban_request ''Bearer t0''"
  obtain a r' where s: "serve_admin (NewServer ''t0'') sample_env (\<lambda>_. False) ?q (live_fleet False) = (a, r')" by fastforce
  let ?r = "NewRegistry True (rg_file r') 12"
  have w: "alookup (rg_workers (live_fleet False)) ''w1'' = Some live_worker" by (simp add: live_fleet_eq)
  have st: "(saved_step {''w1''})\<^sup>*\<^sup>* r' ?r" by (rule r_into_rtranclp) (rule saved_step.restart)
  have "r' = snd (serve_admin (NewServer ''t0'') sample_env (\<lambda>_. False) ?q (live_fleet False))" by (simp add: s)
  also have "\<dots> = snd (SetBan True ''w1'' (10 + 60 * second) ''fraud'' (live_fleet False))"
    using mux_ban [of ?q "''w1''"] ban_duration_exact [of 60]
    by (auto simp: serve_admin_def authMiddleware_def NewServer_def sample_token tokensEqual_def ban_request_def handleWorkerBan_def
      sample_env_def Let_def SetBan_def w)
  finally have l: "set (ListWorkers ?r) \<subseteq> {w. wk_id w = ''w1''}"
    by (auto simp: ListWorkers_def SetBan_def w fleet_simps live_fleet_eq snapshot_def live_worker_props NewRegistry_def loadFromDisk_def
        put_worker_def saveToDisk_def persist_def restored_def blank_worker_def)
  have "selectWorkerForModel ?r (11 + second) u ''m'' (\<lambda>_. False) bf_zero = None" for u
  proof (rule ccontr)
    assume "selectWorkerForModel ?r (11 + second) u ''m'' (\<lambda>_. False) bf_zero \<noteq> None"
    then obtain w' where w': "selectWorkerForModel ?r (11 + second) u ''m'' (\<lambda>_. False) bf_zero = Some w'" by auto
    have "case selectWorkerForModel ?r (11 + second) u ''m'' (\<lambda>_. False) bf_zero of Some w' \<Rightarrow> wk_id w' \<noteq> ''w1'' | None \<Rightarrow> True"
      by (rule banned_worker_gets_nothing [OF live_fleet_saved _ w _ _ _ _ _ _ _ _ _ s st, of 60 "''fraud''"])
        (simp_all add: sample_token ban_request_def NewServer_def sample_env_def second_def)
    then have "wk_id w' \<noteq> ''w1''" by (simp add: w')
    moreover have "w' \<in> set (ListWorkers ?r)" using select_in w' by (fastforce simp: selectWorkerForModel_def)
    ultimately show False using l by auto
  qed
  then show ?thesis using s by blast
qed

end
