(* ===== verification/SettlementApi.thy ===== *)
theory SettlementApi
  imports AdminApi SpDetail
begin

text \<open>
  The settlement endpoints of the admin API (\<open>admin/settlement_api.go\<close>) and the public network statistics
  (\<open>admin/network_stats.go\<close>). A handler is a function of the request, of what it reads (\<open>chain_view\<close>: the answers of
  the contract client, \<open>None\<close> for an error) and of the state it may change. \<open>slot\<close> says whether one of the two scan
  slots was free before the caller gave up.
\<close>

section \<open>Reading the chain\<close>

record on_chain =
  oc_hash :: string
  oc_total :: "int option"
  oc_settled :: "int option"
  oc_failed :: "int option"
  oc_time :: "int option"
  oc_requests :: "int option"
  oc_tokens :: "int option"

text \<open>\<open>cv_v11\<close>: the client has the views of the earnings freeze; the address texts are converted by the reader.\<close>

record chain_view =
  cv_userBalance :: "string \<Rightarrow> string \<Rightarrow> int option"
  cv_spEarnings :: "string \<Rightarrow> string \<Rightarrow> int option"
  cv_v11 :: bool
  cv_totalEarnings :: "string \<Rightarrow> string \<Rightarrow> int option"
  cv_frozen :: "string \<Rightarrow> string \<Rightarrow> int option"
  cv_withdrawable :: "string \<Rightarrow> string \<Rightarrow> int option"
  cv_nonce :: "nat option"
  cv_settlement :: "nat \<Rightarrow> on_chain option"
  cv_processed :: "string \<Rightarrow> bool option"
  cv_operatorBalance :: "int option"
  cv_operatorAddress :: string
  cv_feeBps :: "int option"
  cv_cumulative :: "(nat \<times> nat) option option"

definition formatTokenAmount :: "int \<Rightarrow> nat \<Rightarrow> usd_text" where
  "formatTokenAmount wei decimals =
     (if wei = 0 then DecText 0 0 else TextN 6 (bf_quo (bf_of_int wei) (bf_of_int (pow10 decimals))))"

definition FormatFIL :: "int option \<Rightarrow> usd_text" where
  "FormatFIL wei = (case wei of None \<Rightarrow> DecText 0 0 | Some w \<Rightarrow> TextN 6 (weiToFloat w 18))"

definition put_positive :: "token_config \<Rightarrow> int option \<Rightarrow> (string \<rightharpoonup> usd_text) \<Rightarrow> (string \<rightharpoonup> usd_text)" where
  "put_positive t v m =
     (case v of
        None \<Rightarrow> m
      | Some n \<Rightarrow> if n > 0 then m(tok_symbol t \<mapsto> formatTokenAmount n (tok_decimals t)) else m)"

definition read_token ::
  "chain_view \<Rightarrow> string \<Rightarrow> token_config \<Rightarrow> (string \<rightharpoonup> usd_text) \<times> (string \<rightharpoonup> usd_text) \<times> (string \<rightharpoonup> usd_text) \<Rightarrow>
   (string \<rightharpoonup> usd_text) \<times> (string \<rightharpoonup> usd_text) \<times> (string \<rightharpoonup> usd_text)" where
  "read_token c evm t = (\<lambda>(earnings, frozen, withdrawable).
     (let total = (if cv_v11 c then cv_totalEarnings c evm (tok_address t) else None)
      in case total of
           Some n \<Rightarrow> (put_positive t (Some n) earnings, put_positive t (cv_frozen c evm (tok_address t)) frozen,
                      put_positive t (cv_withdrawable c evm (tok_address t)) withdrawable)
         | None \<Rightarrow> (put_positive t (cv_spEarnings c evm (tok_address t)) earnings, frozen, withdrawable)))"

definition readEarningsSplit ::
  "chain_view \<Rightarrow> token_config list \<Rightarrow> string \<Rightarrow> (string \<rightharpoonup> usd_text) \<times> (string \<rightharpoonup> usd_text) \<times> (string \<rightharpoonup> usd_text)" where
  "readEarningsSplit c tokens evm = fold (read_token c evm) tokens (Map.empty, Map.empty, Map.empty)"

section \<open>Providers\<close>

text \<open>The static map and the signed payouts, \<open>None\<close> without a source of them.\<close>

definition effectiveSPMap :: "(string \<times> string) list \<Rightarrow> (string \<times> string) list option \<Rightarrow> (string \<times> string) list" where
  "effectiveSPMap spMap payout =
     (case payout of None \<Rightarrow> spMap | Some dyn \<Rightarrow> if dyn = [] then spMap else fold (\<lambda>(k, v). aput k v) dyn spMap)"

definition resolveToEVM :: "(string \<times> string) list \<Rightarrow> (string \<times> string) list option \<Rightarrow> string \<Rightarrow> string" where
  "resolveToEVM spMap payout addr =
     (case alookup (effectiveSPMap spMap payout) addr of Some evm \<Rightarrow> evm | None \<Rightarrow> addr)"

section \<open>Answers\<close>

record sp_revenue =
  sv_miner :: string
  sv_evm :: string
  sv_earnings :: "string \<rightharpoonup> usd_text"
  sv_frozen :: "string \<rightharpoonup> usd_text"
  sv_withdrawable :: "string \<rightharpoonup> usd_text"

record user_balance =
  ub_wallet :: string
  ub_balances :: "string \<rightharpoonup> usd_text"
  ub_pending :: usd_text

datatype settle_body =
    ProofBody receipt_proof
  | PendingBody request_record int
  | DetailBody sp_detail
  | StateBody state_check
  | ReconcileBody reconcile_report
  | ProvidersBody "sp_revenue list" usd_text
  | RevenueBody sp_revenue
  | UsersBody "user_balance list"
  | UserBody user_balance
  | TotalBatches nat
  | BatchBody nat on_chain bool "audit_row option option"
  | Triggered
  | OperatorBody string usd_text
  | PriceBody usd_text bool

definition path_rest :: "string \<Rightarrow> string \<Rightarrow> string" where
  "path_rest pfx path = TrimRightSlash (TrimPrefix path pfx)"

subsection \<open>A receipt\<close>

definition handleReceiptProof ::
  "bool \<Rightarrow> bool \<Rightarrow> store_env \<Rightarrow> (nat \<times> line \<Rightarrow> string \<Rightarrow> bool) \<Rightarrow> int \<Rightarrow> int \<Rightarrow> int \<Rightarrow> log_dir \<Rightarrow> string \<Rightarrow> string \<Rightarrow>
   receipt_store \<Rightarrow> settle_body reply \<times> receipt_store" where
  "handleReceiptProof running slot e contains interval lastSettle nowUnix d method path st =
     (if method \<noteq> ''GET'' then (Fail 405, st)
      else if \<not> running then (Fail 503, st)
      else let rid = path_rest ''/api/v1/receipt-proof/'' path
           in if rid = '''' then (Fail 400, st)
              else if \<not> slot then (Fail 503, st)
              else case BuildReceiptProof e rid st of
                     (Inr p, st) \<Rightarrow> (Reply 200 (ProofBody p), st)
                   | (Inl _, st) \<Rightarrow>
                       (case FindUnsettled contains rid d of
                          Some rec \<Rightarrow> (Reply 202 (PendingBody rec (SettleETA interval lastSettle nowUnix)), st)
                        | None \<Rightarrow> (Fail 404, st)))"

subsection \<open>The requests of a provider\<close>

definition maxDetailLimit :: int where "maxDetailLimit = 1000"

definition detail_limit :: "string \<Rightarrow> int" where
  "detail_limit v =
     (let limit = (if v \<noteq> '''' then (case ParseInt64 v of Some n \<Rightarrow> if n > 0 then n else 200 | None \<Rightarrow> 200) else 200)
      in if limit > maxDetailLimit then maxDetailLimit else limit)"

definition handleSPEarningsDetail ::
  "bool \<Rightarrow> bool \<Rightarrow> (request_record list \<Rightarrow> request_record list) \<Rightarrow> store_env \<Rightarrow> cycle_view \<Rightarrow> chain_view \<Rightarrow>
   (string \<times> string) list \<Rightarrow> (string \<times> string) list option \<Rightarrow> string \<Rightarrow> string \<Rightarrow> string \<Rightarrow> string \<Rightarrow>
   receipt_store \<Rightarrow> settle_body reply \<times> receipt_store" where
  "handleSPEarningsDetail running slot order e v c spMap payout method path since limit st =
     (if method \<noteq> ''GET'' then (Fail 405, st)
      else if \<not> running then (Fail 503, st)
      else let sp = path_rest ''/api/v1/sp-earnings-detail/'' path
           in if sp = '''' then (Fail 400, st)
              else let evm = resolveToEVM spMap payout sp;
                       sinceUnix = (if since \<noteq> '''' then (case ParseInt64 since of Some n \<Rightarrow> n | None \<Rightarrow> 0) else 0);
                       feeBps = (case cv_feeBps c of Some n \<Rightarrow> n | None \<Rightarrow> 0)
                   in if \<not> slot then (Fail 503, st)
                      else case SPEarningsDetail order e v evm sinceUnix (detail_limit limit) feeBps st of
                             (None, st) \<Rightarrow> (Fail 500, st)
                           | (Some res, st) \<Rightarrow> (Reply 200 (DetailBody res), st))"

subsection \<open>State and reconciliation\<close>

definition handleStateCheck :: "bool \<Rightarrow> (usd_text \<Rightarrow> bool) \<Rightarrow> state_files \<Rightarrow> string \<Rightarrow> settle_body reply" where
  "handleStateCheck running scans f method =
     (if method \<noteq> ''GET'' then Fail 405
      else if \<not> running then Fail 503
      else let res = VerifyState scans f in Reply (if \<not> ck_OK res then 409 else 200) (StateBody res))"

definition handleReconcile ::
  "bool \<Rightarrow> bool \<Rightarrow> (request_record \<Rightarrow> bigfloat) \<Rightarrow> totals \<Rightarrow> (nat \<times> line) list \<Rightarrow> log_dir \<Rightarrow> string \<Rightarrow> reconciler option \<Rightarrow>
   settle_body reply \<times> reconciler option" where
  "handleReconcile cursor_ok state_ok costFn t dead d method rc =
     (if method \<noteq> ''GET'' \<and> method \<noteq> ''POST'' then (Fail 405, rc)
      else case rc of
             None \<Rightarrow> (Fail 503, rc)
           | Some x \<Rightarrow>
               (case Run cursor_ok state_ok costFn t dead d x of
                  (Inl _, x) \<Rightarrow> (Fail 500, Some x)
                | (Inr report, x) \<Rightarrow> (Reply (if \<not> rp_Within report then 409 else 200) (ReconcileBody report), Some x)))"

subsection \<open>Revenue and balances\<close>

definition revenue_of :: "chain_view \<Rightarrow> token_config list \<Rightarrow> string \<Rightarrow> string \<Rightarrow> sp_revenue" where
  "revenue_of c tokens miner evm =
     (case readEarningsSplit c tokens evm of
        (earnings, frozen, withdrawable) \<Rightarrow>
          \<lparr>sv_miner = miner, sv_evm = evm, sv_earnings = earnings, sv_frozen = frozen, sv_withdrawable = withdrawable\<rparr>)"

definition handleRevenue ::
  "chain_view \<Rightarrow> token_config list \<Rightarrow> (string \<times> string) list \<Rightarrow> (string \<times> string) list option \<Rightarrow> pricer \<Rightarrow> string \<Rightarrow> settle_body reply" where
  "handleRevenue c tokens spMap payout p method =
     (if method \<noteq> ''GET'' then Fail 405
      else Reply 200 (ProvidersBody (List.map (\<lambda>(miner, evm). revenue_of c tokens miner evm) (effectiveSPMap spMap payout))
             (TextN 4 (GetFILPriceUSD p))))"

definition handleRevenueBySP ::
  "chain_view \<Rightarrow> token_config list \<Rightarrow> (string \<times> string) list \<Rightarrow> (string \<times> string) list option \<Rightarrow> string \<Rightarrow> string \<Rightarrow> settle_body reply" where
  "handleRevenueBySP c tokens spMap payout method path =
     (if method \<noteq> ''GET'' then Fail 405
      else let sp = path_rest ''/api/v1/revenue/'' path
           in if sp = '''' then Fail 400 else Reply 200 (RevenueBody (revenue_of c tokens '''' (resolveToEVM spMap payout sp))))"

definition token_texts :: "token_config list \<Rightarrow> (string \<Rightarrow> int option) \<Rightarrow> (string \<rightharpoonup> usd_text)" where
  "token_texts tokens bal = fold (\<lambda>t. put_positive t (bal (tok_address t))) tokens Map.empty"

text \<open>\<open>wallets\<close> lists the wallets of the cache in the order of the map.\<close>

definition handleBalances :: "balance_cache \<Rightarrow> token_config list \<Rightarrow> string list \<Rightarrow> string \<Rightarrow> settle_body reply" where
  "handleBalances bc tokens wallets method =
     (if method \<noteq> ''GET'' then Fail 405
      else Reply 200 (UsersBody (List.map (\<lambda>w. \<lparr>ub_wallet = w, ub_balances = token_texts tokens (GetAllBalances bc w),
             ub_pending = TextN 6 (GetPendingSpend bc w)\<rparr>) wallets)))"

definition handleBalanceByAddr :: "chain_view \<Rightarrow> balance_cache \<Rightarrow> token_config list \<Rightarrow> string \<Rightarrow> string \<Rightarrow> settle_body reply" where
  "handleBalanceByAddr c bc tokens method path =
     (if method \<noteq> ''GET'' then Fail 405
      else let addr = path_rest ''/api/v1/balances/'' path
           in if addr = '''' then Fail 400
              else Reply 200 (UserBody \<lparr>ub_wallet = addr, ub_balances = token_texts tokens (cv_userBalance c addr),
                     ub_pending = TextN 6 (GetPendingSpend bc addr)\<rparr>))"

subsection \<open>Batches\<close>

definition handleSettlements :: "chain_view \<Rightarrow> string \<Rightarrow> settle_body reply" where
  "handleSettlements c method =
     (if method \<noteq> ''GET'' then Fail 405
      else case cv_nonce c of None \<Rightarrow> Fail 500 | Some n \<Rightarrow> Reply 200 (TotalBatches n))"

definition ParseUint64 :: "string \<Rightarrow> nat option" where
  "ParseUint64 s = (case parse_nat s of Some n \<Rightarrow> if n < 2 ^ 64 then Some n else None | None \<Rightarrow> None)"

text \<open>Absent counters of the chain are 0; the others are cut to 64 bits.\<close>

definition uint64OrZero :: "int option \<Rightarrow> int" where
  "uint64OrZero v = (case v of None \<Rightarrow> 0 | Some n \<Rightarrow> n mod 2 ^ 64)"

definition cut_counters :: "on_chain \<Rightarrow> on_chain" where
  "cut_counters rec =
     rec\<lparr>oc_total := (case oc_total rec of None \<Rightarrow> Some 0 | Some n \<Rightarrow> Some n),
         oc_settled := Some (uint64OrZero (oc_settled rec)), oc_failed := Some (uint64OrZero (oc_failed rec)),
         oc_time := Some (uint64OrZero (oc_time rec)), oc_requests := map_option (\<lambda>n. n mod 2 ^ 64) (oc_requests rec),
         oc_tokens := map_option (\<lambda>n. n mod 2 ^ 64) (oc_tokens rec)\<rparr>"

definition handleSettlementByID :: "chain_view \<Rightarrow> audit_row list option \<Rightarrow> string \<Rightarrow> string \<Rightarrow> settle_body reply" where
  "handleSettlementByID c audit method path =
     (if method \<noteq> ''GET'' then Fail 405
      else case ParseUint64 (path_rest ''/api/v1/settlements/'' path) of
             None \<Rightarrow> Fail 400
           | Some n \<Rightarrow>
               if n = 0 then Fail 400
               else case cv_nonce c of
                      None \<Rightarrow> Fail 500
                    | Some nonce \<Rightarrow>
                        if n > nonce then Fail 404
                        else case cv_settlement c n of
                               None \<Rightarrow> Fail 500
                             | Some rec \<Rightarrow>
                                 let hashHex = ''0x'' @ hex_encode (oc_hash rec);
                                     processed = (case cv_processed c (oc_hash rec) of Some b \<Rightarrow> b | None \<Rightarrow> False)
                                 in Reply 200 (BatchBody n (cut_counters rec) processed
                                      (map_option (\<lambda>au. FindSettlementByHash au hashHex) audit)))"

subsection \<open>Triggers and prices\<close>

text \<open>The channel of the settlement loop holds one signal.\<close>

definition TriggerNow :: "bool \<Rightarrow> bool" where
  "TriggerNow pending = True"

definition handleSettleNow :: "bool \<Rightarrow> string \<Rightarrow> bool \<Rightarrow> settle_body reply \<times> bool" where
  "handleSettleNow running method pending =
     (if method \<noteq> ''POST'' then (Fail 405, pending)
      else if \<not> running then (Fail 503, pending)
      else (Reply 200 Triggered, TriggerNow pending))"

definition handleOperatorBalance :: "chain_view \<Rightarrow> string \<Rightarrow> settle_body reply" where
  "handleOperatorBalance c method =
     (if method \<noteq> ''GET'' then Fail 405
      else case cv_operatorBalance c of
             None \<Rightarrow> Fail 500
           | Some bal \<Rightarrow> Reply 200 (OperatorBody (cv_operatorAddress c) (FormatFIL (Some bal))))"

text \<open>The body is \<open>None\<close> when it does not decode.\<close>

definition handleFILPrice :: "string \<Rightarrow> usd_text option \<Rightarrow> gotime \<Rightarrow> pricer \<Rightarrow> settle_body reply \<times> pricer" where
  "handleFILPrice method body now p =
     (if method = ''GET'' then (Reply 200 (PriceBody (TextN 4 (GetFILPriceUSD p)) False), p)
      else if method = ''PUT''
      then (case body of
              None \<Rightarrow> (Fail 400, p)
            | Some price \<Rightarrow>
                (case handlePutFILPrice price now p of
                   None \<Rightarrow> (Fail 400, p)
                 | Some p \<Rightarrow> (Reply 200 (PriceBody (TextN 4 (GetFILPriceUSD p)) True), p)))
      else (Fail 405, p))"

section \<open>Network statistics\<close>

text \<open>A text is zero when no digit of it is not: \<open>DecText a k\<close> is the numeral of \<open>a / 10 ^ k\<close>.\<close>

definition isZeroDecimal :: "usd_text \<Rightarrow> bool" where
  "isZeroDecimal s = (case s of DecText a k \<Rightarrow> a = 0 | _ \<Rightarrow> True)"

definition has_revenue :: "chain_view \<Rightarrow> token_config list \<Rightarrow> string \<Rightarrow> bool" where
  "has_revenue c tokens evm =
     list_ex (\<lambda>t. case fst (readEarningsSplit c tokens evm) (tok_symbol t) of Some v \<Rightarrow> \<not> isZeroDecimal v | None \<Rightarrow> False) tokens"

record network_stats =
  ns_providers :: "nat option"
  ns_models :: "nat option"
  ns_developers :: "(nat \<times> gotime \<times> int \<times> nat) option"
  ns_onchain :: "(nat \<times> nat) option"

definition handleNetworkStats ::
  "chain_view \<Rightarrow> token_config list \<Rightarrow> (string \<times> string) list \<Rightarrow> (string \<times> string) list option \<Rightarrow> nat option \<Rightarrow> (nat \<times> gotime) option \<Rightarrow>
   string \<Rightarrow> network_stats reply" where
  "handleNetworkStats c tokens spMap payout models developers method =
     (if method \<noteq> ''GET'' then Fail 405
      else let m = effectiveSPMap spMap payout
           in Reply 200 \<lparr>ns_providers = (if m = [] then None else Some (length (filter (\<lambda>(miner, evm). has_revenue c tokens evm) m))),
                ns_models = models,
                ns_developers = (case developers of
                   Some (n, as_of) \<Rightarrow> if as_of \<noteq> zero_time then Some (n, as_of, ActiveWalletWindow div (24 * 60 * minute), ActiveWalletMinRequests) else None
                 | None \<Rightarrow> None),
                ns_onchain = (case cv_cumulative c of Some (Some x) \<Rightarrow> Some x | _ \<Rightarrow> None)\<rparr>)"
section \<open>A receipt link always answers\<close>

lemma path_rest_append: "TrimRightSlash rid = rid \<Longrightarrow> path_rest pfx (pfx @ rid) = rid"
  by (simp add: path_rest_def TrimPrefix_def HasPrefix_def)

lemma last_index_nonneg: "0 \<le> acc \<Longrightarrow> 0 \<le> last_index P xs i acc"
  by (induction P xs i acc rule: last_index.induct) auto

lemma last_index_in: "x \<in> set xs \<Longrightarrow> 0 \<le> last_index (\<lambda>r. r = x) xs i acc"
  by (induction xs arbitrary: i acc) (auto intro: last_index_nonneg)

lemma build_proof_settled:
  assumes "ReceiptStore.store_ok st" "en_sidecar_ok e"
  shows "(\<exists>p. fst (BuildReceiptProof e rid st) = Inr p) \<longleftrightarrow>
    (case newest_batch (rs_ledger st) rid of None \<Rightarrow> False
     | Some row \<Rightarrow> list_all (\<lambda>l. hexToHash32 (ml_leaf l) \<noteq> None) (mr_leaves row))"
proof (cases "newest_batch (rs_ledger st) rid")
  case None
  then show ?thesis using find_newest [OF assms, of rid] by (simp add: BuildReceiptProof_def)
next
  case (Some row)
  have rid: "rid \<in> set (row_rids row)" using Some by (auto simp: newest_batch_def find_Some_iff)
  then have i: "\<not> last_index (\<lambda>r. r = rid) (row_rids row) 0 (-1) < 0" using last_index_in by (simp add: not_less)
  let ?hs = "List.map (hexToHash32 \<circ> ml_leaf) (mr_leaves row)"
  have ok: "None \<notin> set ?hs \<longleftrightarrow> list_all (\<lambda>l. hexToHash32 (ml_leaf l) \<noteq> None) (mr_leaves row)"
    by (auto simp: list_all_iff image_iff) (metis option.exhaust)
  have f: "findMerkleBatch e rid st = (Some row, WarmReceiptIndex e st)" using find_newest [OF assms, of rid] Some by simp
  show ?thesis
  proof (cases "None \<in> set ?hs")
    case True
    then show ?thesis using ok Some f by (simp add: BuildReceiptProof_def Let_def del: set_map)
  next
    case False
    have "\<exists>p. fst (BuildReceiptProof e rid st) = Inr p"
      unfolding BuildReceiptProof_def f prod.case option.case Let_def if_not_P [OF False] if_not_P [OF i]
      by (simp split: prod.split)
    then show ?thesis using ok Some False by simp
  qed
qed

text \<open>
  A receipt link answers from the moment the request is logged: with the proof when a batch of the ledger has the request
  (and its leaves decode), else that it waits for settlement; never that it is unknown.
\<close>

theorem receipt_link_always_answers:
  assumes "chain d m bs" "file_fits m" "json_len r + 1 \<le> max_line" "rr_id r \<noteq> ''''" "TrimRightSlash (rr_id r) = rr_id r"
    "\<And>k rec. contains (k, Row rec) (rr_id rec)" "store_step\<^sup>*\<^sup>* empty_store st" "en_sidecar_ok e"
  shows "reply_status (fst (handleReceiptProof True True e contains interval lastSettle now (snd (Log json_len r (rl, d))) ''GET''
      (''/api/v1/receipt-proof/'' @ rr_id r) st)) =
    (case newest_batch (rs_ledger st) (rr_id r) of
       None \<Rightarrow> 202
     | Some row \<Rightarrow> if list_all (\<lambda>l. hexToHash32 (ml_leaf l) \<noteq> None) (mr_leaves row) then 200 else 202)"
proof -
  obtain rec where rec: "FindUnsettled contains (rr_id r) (snd (Log json_len r (rl, d))) = Some rec"
    using fresh_request_is_found [where contains = contains and json_len = json_len and r = r and rl = rl, OF assms(1-4) assms(6)] by blast
  have "ReceiptStore.store_ok st" by (rule store_steps_ok [OF assms(7)])
  note b = build_proof_settled [OF this assms(8), of "rr_id r"]
  obtain x st' where x: "BuildReceiptProof e (rr_id r) st = (x, st')" by fastforce
  have "handleReceiptProof True True e contains interval lastSettle now (snd (Log json_len r (rl, d))) ''GET''
      (''/api/v1/receipt-proof/'' @ rr_id r) st =
    (case x of Inr p \<Rightarrow> (Reply 200 (ProofBody p), st') | Inl _ \<Rightarrow> (Reply 202 (PendingBody rec (SettleETA interval lastSettle now)), st'))"
    unfolding handleReceiptProof_def Let_def path_rest_append [OF assms(5)] x rec prod.case option.case
    using assms(4) by (simp only: simp_thms if_True if_False)
  then show ?thesis using b unfolding x by (cases x) (auto split: option.splits)
qed

section \<open>The public page is bounded\<close>

lemma detail_limit_bounds: "1 \<le> detail_limit v \<and> detail_limit v \<le> 1000"
  by (auto simp: detail_limit_def Let_def maxDetailLimit_def split: option.splits)

lemma detail_items: "fst (SPEarningsDetail order e v sp since limit fee st) = Some res \<Longrightarrow>
    length (sd_items res) \<le> nat (if limit \<le> 0 then 200 else limit)"
proof -
  assume res: "fst (SPEarningsDetail order e v sp since limit fee st) = Some res"
  then obtain recs where c: "collect_page (refresh_maps v) (ToLower sp) since (nat (if limit \<le> 0 then 200 else limit)) (log_files (cy_log v)) [] = Some recs"
    by (cases "collect_page (refresh_maps v) (ToLower sp) since (nat (if limit \<le> 0 then 200 else limit)) (log_files (cy_log v)) []")
      (auto simp: SPEarningsDetail_def Let_def)
  show ?thesis using detail_answer [where order = order and e = e and st = st and fee = fee, OF c refl refl] res by (auto simp: page_of_def)
qed

text \<open>
  The detail of a provider, which anyone may ask for, never has more than a thousand requests, whatever limit the query
  has.
\<close>

theorem public_page_is_bounded:
  "case fst (handleSPEarningsDetail running slot order e v c spMap payout method path since limit st) of
     Reply n (DetailBody res) \<Rightarrow> length (sd_items res) \<le> 1000 | _ \<Rightarrow> True"
proof -
  let ?X = "SPEarningsDetail order e v (resolveToEVM spMap payout (path_rest ''/api/v1/sp-earnings-detail/'' path))
    (if since \<noteq> '''' then (case ParseInt64 since of Some n \<Rightarrow> n | None \<Rightarrow> 0) else 0) (detail_limit limit)
    (case cv_feeBps c of Some n \<Rightarrow> n | None \<Rightarrow> 0) st"
  obtain x st2 where X: "?X = (x, st2)" by fastforce
  have "length (sd_items res) \<le> 1000" if "x = Some res" for res
  proof -
    have "fst ?X = Some res" using X that by simp
    from detail_items [OF this] show ?thesis using detail_limit_bounds [of limit] by (auto split: if_splits)
  qed
  then show ?thesis unfolding handleSPEarningsDetail_def Let_def X by (cases x) simp_all
qed

section \<open>Who is paid\<close>

lemma alookup_overlay:
  "distinct (akeys dyn) \<Longrightarrow>
   alookup (fold (\<lambda>(k, v). aput k v) dyn m) k = (case alookup dyn k of Some v \<Rightarrow> Some v | None \<Rightarrow> alookup m k)"
proof (induction dyn arbitrary: m)
  case (Cons p dyn)
  then show ?case using alookup_None_iff [of dyn k] by (cases p) (auto split: option.splits)
qed simp

lemma payout_fold:
  "m miner \<noteq> Some '''' \<Longrightarrow>
   fold (\<lambda>(wid, w) m. if wk_miner w \<noteq> '''' \<and> wk_payout w \<noteq> '''' then m(wk_miner w \<mapsto> wk_payout w) else m) ws m miner \<noteq> Some ''''"
proof (induction ws arbitrary: m)
  case (Cons p ws)
  obtain wid w where p: "p = (wid, w)" by (cases p)
  have "(if wk_miner w \<noteq> '''' \<and> wk_payout w \<noteq> '''' then m(wk_miner w \<mapsto> wk_payout w) else m) miner \<noteq> Some ''''"
    using Cons.prems by simp
  then show ?case unfolding p fold_Cons comp_apply prod.case by (rule Cons.IH)
qed simp

lemma payout_not_empty: "ListMinerPayoutMap r miner \<noteq> Some ''''"
  unfolding ListMinerPayoutMap_def by (rule payout_fold) simp

text \<open>
  The address whose revenue the API shows for a miner is the address that settlement credits for the requests of its
  workers: the signed payout where there is one, the static map otherwise.
\<close>

theorem revenue_is_of_the_paid_address:
  assumes "agg_workerSPMap a wid = Some miner" "agg_minerPayoutMap a = ListMinerPayoutMap r" "agg_spAddressMap a = alookup spMap"
    "alookup dyn = ListMinerPayoutMap r" "distinct (akeys dyn)" "resolveWorkerToEVM a wid \<noteq> ''''"
  shows "resolveToEVM spMap (Some dyn) miner = resolveWorkerToEVM a wid"
proof (cases "dyn = []")
  case True
  then have "ListMinerPayoutMap r = Map.empty" using assms(4) by (auto simp: fun_eq_iff)
  then show ?thesis using assms True
    by (auto simp: resolveToEVM_def effectiveSPMap_def resolveWorkerToEVM_def split: option.splits)
next
  case False
  then show ?thesis using assms payout_not_empty [of r miner]
    by (auto simp: resolveToEVM_def effectiveSPMap_def resolveWorkerToEVM_def alookup_overlay split: option.splits)
qed


section \<open>Concrete instances\<close>

theorem receipt_link_always_answers_witness:
  "reply_status (fst (handleReceiptProof True True (ReceiptStore.sample_env True) (\<lambda>_ _. True) 60 0 0
     (snd (Log (\<lambda>_. 1) sample_record (\<lparr>rl_currentSize = 0, rl_maxSize = 10, rl_maxBackups = 3\<rparr>, page_dir))) ''GET''
     (''/api/v1/receipt-proof/'' @ rr_id sample_record) empty_store)) = 202"
proof -
  have "TrimRightSlash (rr_id sample_record) = rr_id sample_record" "rr_id sample_record \<noteq> ''''" "file_fits (wallet_file 1 5 2)"
    using page_dir_ok by (simp_all add: sample_record_def TrimRightSlash_def)
  moreover have "newest_batch (rs_ledger empty_store) (rr_id sample_record) = None" by (simp add: newest_batch_def empty_store_def)
  ultimately show ?thesis
    using receipt_link_always_answers [of page_dir "wallet_file 1 5 2" "[wallet_file 2 3 1]" "\<lambda>_. 1" sample_record "\<lambda>_ _. True" empty_store
        "ReceiptStore.sample_env True"] page_dir_chain
    by (simp add: ReceiptStore.sample_env_ok max_line_def)
qed

definition paid_fleet :: registry where
  "paid_fleet = (live_fleet False)\<lparr>rg_workers := [(''w1'', live_worker\<lparr>wk_miner := ''f01'', wk_payout := ''0xp''\<rparr>)]\<rparr>"

theorem revenue_is_of_the_paid_address_witness:
  "resolveToEVM [(''f01'', ''0xs'')] (Some [(''f01'', ''0xp'')]) ''f01'' =
     resolveWorkerToEVM (sample_agg\<lparr>agg_workerSPMap := [''w1'' \<mapsto> ''f01''], agg_minerPayoutMap := ListMinerPayoutMap paid_fleet,
       agg_spAddressMap := alookup [(''f01'', ''0xs'')]\<rparr>) ''w1''"
proof -
  have m: "ListMinerPayoutMap paid_fleet = [''f01'' \<mapsto> ''0xp'']" by (simp add: ListMinerPayoutMap_def paid_fleet_def)
  show ?thesis
    by (rule revenue_is_of_the_paid_address [where r = paid_fleet]) (auto simp: m resolveWorkerToEVM_def)
qed

end
