(* ===== verification/Migrate.thy ===== *)
theory Migrate
  imports ReceiptStore
begin

text \<open>
  The offline migration of a ledger with embedded records (\<open>settlement/migrate.go\<close>, \<open>cmd/merkle-migrate\<close>): each line
  is split into a thin line, lines of the record store and a line of the sidecar, and the new files replace the old ones
  by four renames. A crash is a prefix of the renames; a read error is a prefix of the lines.
\<close>

section \<open>The files\<close>

record ledger_dir =
  fd_ledger :: "merkle_row jsonl option"
  fd_records :: "(string \<times> request_record) jsonl option"
  fd_sidecar :: "idx_line option list option"
  fd_backup :: "merkle_row jsonl option"

definition contents :: "'a jsonl option \<Rightarrow> 'a jsonl" where
  "contents f = (case f of Some ls \<Rightarrow> ls | None \<Rightarrow> [])"

text \<open>The gateway that starts on the directory.\<close>

definition store_of :: "ledger_dir \<Rightarrow> receipt_store" where
  "store_of d = \<lparr>rs_ledger = contents (fd_ledger d), rs_records = contents (fd_records d), rs_sidecar = fd_sidecar d,
     rs_midx = None, rs_ridx = None, rs_warm = False\<rparr>"

section \<open>One line\<close>

record migration =
  mg_ledger :: "merkle_row jsonl"
  mg_records :: "(string \<times> request_record) jsonl"
  mg_index :: "idx_line list"
  mg_leaves :: nat
  mg_moved :: nat

definition thin_row :: "merkle_row \<Rightarrow> merkle_row" where
  "thin_row row = row\<lparr>mr_leaves := List.map thin_leaf (mr_leaves row)\<rparr>"

definition move_leaf ::
  "store_env \<Rightarrow> merkle_leaf \<Rightarrow> (string \<times> record_loc) list \<times> (string \<times> request_record) jsonl \<Rightarrow>
   (string \<times> record_loc) list \<times> (string \<times> request_record) jsonl" where
  "move_leaf e l = (\<lambda>(recs, rf).
     (case ml_record l of
        None \<Rightarrow> (recs, rf)
      | Some rec \<Rightarrow>
          let n = en_rec e (ml_rid l, rec)
          in (aput (ml_rid l) \<lparr>lo_off = fileSize rf, lo_len = n\<rparr> recs, rf @ [(n, Some (ml_rid l, rec))])))"

definition migrate_line :: "store_env \<Rightarrow> nat \<times> merkle_row option \<Rightarrow> migration \<Rightarrow> migration" where
  "migrate_line e = (\<lambda>(k, l) mg.
     (case l of
        None \<Rightarrow> mg
      | Some row \<Rightarrow>
          let (recs, rf) = fold (move_leaf e) (mr_leaves row) ([], mg_records mg);
              thin = thin_row row
          in \<lparr>mg_ledger = mg_ledger mg @ [(en_row e thin, Some thin)], mg_records = rf,
              mg_index = mg_index mg @ [\<lparr>xl_off = int (fileSize (mg_ledger mg)), xl_merkle = 0, xl_record = 0,
                xl_rids = row_rids row, xl_recs = recs\<rparr>],
              mg_leaves = mg_leaves mg + length (mr_leaves row),
              mg_moved = mg_moved mg + length (filter (\<lambda>l. ml_record l \<noteq> None) (mr_leaves row))\<rparr>))"

definition empty_migration :: migration where
  "empty_migration = \<lparr>mg_ledger = [], mg_records = [], mg_index = [], mg_leaves = 0, mg_moved = 0\<rparr>"

definition migrate_lines :: "store_env \<Rightarrow> merkle_row jsonl \<Rightarrow> migration" where
  "migrate_lines e ls = fold (migrate_line e) ls empty_migration"

definition sidecar_of :: "migration \<Rightarrow> idx_line option list" where
  "sidecar_of mg =
     List.map Some (mg_index mg @ [\<lparr>xl_off = -1, xl_merkle = fileSize (mg_ledger mg), xl_record = fileSize (mg_records mg),
       xl_rids = [], xl_recs = []\<rparr>])"

section \<open>The whole migration\<close>

text \<open>The four renames in their order, up to the \<open>n\<close>-th.\<close>

definition install :: "nat \<Rightarrow> migration \<Rightarrow> ledger_dir \<Rightarrow> ledger_dir" where
  "install n mg d =
     (let d = (if 1 \<le> n then d\<lparr>fd_records := Some (mg_records mg)\<rparr> else d);
          d = (if 2 \<le> n then d\<lparr>fd_sidecar := Some (sidecar_of mg)\<rparr> else d);
          d = (if 3 \<le> n then d\<lparr>fd_backup := fd_ledger d, fd_ledger := None\<rparr> else d)
      in if 4 \<le> n then d\<lparr>fd_ledger := Some (mg_ledger mg)\<rparr> else d)"

datatype migrate_result = NothingToMigrate | AlreadyMigrated | Migrated migration

text \<open>\<open>readable\<close>: how many lines can be read; \<open>steps\<close>: how many renames are done.\<close>

definition MigrateFatLedger :: "store_env \<Rightarrow> nat \<Rightarrow> nat \<Rightarrow> ledger_dir \<Rightarrow> migrate_result \<times> ledger_dir" where
  "MigrateFatLedger e readable steps d =
     (if fileSize (contents (fd_ledger d)) = 0 then (NothingToMigrate, d)
      else if fileSize (contents (fd_records d)) > 0 then (AlreadyMigrated, d)
      else let mg = migrate_lines e (take readable (contents (fd_ledger d))) in (Migrated mg, install steps mg d))"

section \<open>Nothing is lost\<close>

text \<open>A ledger of the old layout: every leaf has its record, no id is twice in a batch.\<close>

definition fat :: "merkle_row jsonl \<Rightarrow> bool" where
  "fat ls \<longleftrightarrow> lines_pos ls \<and> (\<forall>row\<in>set (rows ls). distinct (row_rids row) \<and> (\<forall>l\<in>set (mr_leaves row). ml_record l \<noteq> None))"

definition leaf_of :: "string \<Rightarrow> merkle_row \<Rightarrow> merkle_leaf option" where
  "leaf_of rid row = List.find (\<lambda>l. ml_rid l = rid) (mr_leaves row)"

lemma thin_row_simps [simp]:
  "row_rids (thin_row row) = row_rids row" "mr_hash (thin_row row) = mr_hash row" "mr_root (thin_row row) = mr_root row"
  "mr_legacy (thin_row row) = mr_legacy row" "mr_tx (thin_row row) = mr_tx row" "mr_block (thin_row row) = mr_block row"
  "mr_leaves (thin_row row) = List.map thin_leaf (mr_leaves row)"
  by (simp_all add: thin_row_def row_rids_def thin_leaf_def comp_def)

lemma line_at_last: "lines_pos ls \<Longrightarrow> line_at (ls @ [(k, Some x)]) (fileSize ls) = Some (k, x)"
  by (rule line_at_end)

lemma put_locs_lookup:
  "distinct (akeys recs) \<Longrightarrow> put_locs recs m k = (case alookup recs k of Some v \<Rightarrow> Some v | None \<Rightarrow> m k)"
proof (induction recs arbitrary: m)
  case (Cons p recs)
  then show ?case using alookup_None_iff [of recs k] by (cases p) (auto simp: put_locs_def split: option.splits)
qed (simp add: put_locs_def)

lemma move_leaves:
  assumes "lines_pos rf" "distinct (List.map ml_rid ls)" "\<forall>l\<in>set ls. ml_record l \<noteq> None" "\<And>r. 0 < en_rec e r" "distinct (akeys recs)"
  shows "\<exists>recs' ys. fold (move_leaf e) ls (recs, rf) = (recs', rf @ ys) \<and> lines_pos (rf @ ys) \<and> distinct (akeys recs') \<and>
    (\<forall>rid. if rid \<in> ml_rid ` set ls
           then (\<exists>l rec loc. l \<in> set ls \<and> ml_rid l = rid \<and> ml_record l = Some rec \<and> alookup recs' rid = Some loc \<and>
                   line_at (rf @ ys) (lo_off loc) = Some (lo_len loc, (rid, rec)))
           else alookup recs' rid = alookup recs rid)"
  using assms
proof (induction ls arbitrary: recs rf)
  case Nil
  then show ?case by (intro exI [of _ recs] exI [of _ "[]"]) simp
next
  case (Cons l ls)
  obtain rec where rec: "ml_record l = Some rec" using Cons.prems(3) by auto
  let ?n = "en_rec e (ml_rid l, rec)"
  let ?rf = "rf @ [(?n, Some (ml_rid l, rec))]"
  let ?recs = "aput (ml_rid l) \<lparr>lo_off = fileSize rf, lo_len = ?n\<rparr> recs"
  have s: "fold (move_leaf e) (l # ls) (recs, rf) = fold (move_leaf e) ls (?recs, ?rf)"
    by (simp add: move_leaf_def rec Let_def)
  have pos: "lines_pos ?rf" using Cons.prems(1,4) by simp
  obtain recs' ys where ih: "fold (move_leaf e) ls (?recs, ?rf) = (recs', ?rf @ ys)" "lines_pos (?rf @ ys)" "distinct (akeys recs')"
    "\<And>rid. if rid \<in> ml_rid ` set ls
           then (\<exists>l rec loc. l \<in> set ls \<and> ml_rid l = rid \<and> ml_record l = Some rec \<and> alookup recs' rid = Some loc \<and>
                   line_at (?rf @ ys) (lo_off loc) = Some (lo_len loc, (rid, rec)))
           else alookup recs' rid = alookup ?recs rid"
    using Cons.IH [OF pos _ _ Cons.prems(4), of ?recs] Cons.prems(2,3,5) by (auto simp del: append_assoc)
  have own: "line_at (?rf @ ys) (fileSize rf) = Some (?n, (ml_rid l, rec))"
    by (rule line_at_append [OF line_at_last [OF Cons.prems(1)]])
  have nin: "ml_rid l \<notin> ml_rid ` set ls" using Cons.prems(2) by simp
  show ?case
  proof (intro exI conjI allI)
    show "fold (move_leaf e) (l # ls) (recs, rf) = (recs', rf @ ((?n, Some (ml_rid l, rec)) # ys))" using s ih(1) by simp
    show "lines_pos (rf @ ((?n, Some (ml_rid l, rec)) # ys))" using ih(2) by simp
    show "distinct (akeys recs')" by (rule ih(3))
    fix rid
    show "if rid \<in> ml_rid ` set (l # ls)
           then (\<exists>l' rec' loc. l' \<in> set (l # ls) \<and> ml_rid l' = rid \<and> ml_record l' = Some rec' \<and> alookup recs' rid = Some loc \<and>
                   line_at (rf @ ((?n, Some (ml_rid l, rec)) # ys)) (lo_off loc) = Some (lo_len loc, (rid, rec')))
           else alookup recs' rid = alookup recs rid"
    proof (cases "rid = ml_rid l")
      case True
      then have "alookup recs' rid = Some \<lparr>lo_off = fileSize rf, lo_len = ?n\<rparr>" using ih(4) [of rid] nin by simp
      then show ?thesis using True own rec by auto
    next
      case False
      show ?thesis
      proof (cases "rid \<in> ml_rid ` set ls")
        case True
        then obtain l' rec' loc where "l' \<in> set ls" "ml_rid l' = rid" "ml_record l' = Some rec'" "alookup recs' rid = Some loc"
          "line_at (?rf @ ys) (lo_off loc) = Some (lo_len loc, (rid, rec'))" using ih(4) [of rid] by auto
        moreover have "rid \<in> ml_rid ` set (l # ls)" using True by simp
        ultimately show ?thesis unfolding if_P [OF \<open>rid \<in> ml_rid ` set (l # ls)\<close>]
          by (intro exI [of _ l'] exI [of _ rec'] exI [of _ loc]) simp
      next
        case nin: False
        then show ?thesis using ih(4) [of rid] False by simp
      qed
    qed
  qed
qed

text \<open>After each line the sidecar's replay is the index of the thin ledger, and finds the record of every request.\<close>

definition found_record :: "(string \<times> request_record) jsonl \<Rightarrow> (string \<rightharpoonup> record_loc) \<Rightarrow> string \<Rightarrow> merkle_row \<Rightarrow> bool" where
  "found_record rf rr rid row \<longleftrightarrow>
     (\<exists>l rec loc. l \<in> set (mr_leaves row) \<and> ml_rid l = rid \<and> ml_record l = Some rec \<and> rr rid = Some loc \<and>
        line_at rf (lo_off loc) = Some (lo_len loc, (rid, rec)))"

definition migrated_ok :: "merkle_row jsonl \<Rightarrow> migration \<Rightarrow> bool" where
  "migrated_ok ls mg \<longleftrightarrow>
     rows (mg_ledger mg) = List.map thin_row (rows ls) \<and> lines_pos (mg_ledger mg) \<and> lines_pos (mg_records mg) \<and>
     (case fold replay_line (mg_index mg) (Map.empty, Map.empty, 0, 0) of
        (m, rr, _, _) \<Rightarrow>
          m = ledger_index (mg_ledger mg) \<and>
          (\<forall>rid. case newest_batch ls rid of
             None \<Rightarrow> True | Some row \<Rightarrow> found_record (mg_records mg) rr rid row))"

lemma migrated_ok_line:
  assumes "migrated_ok ls mg" "fat (ls @ [(k, l)])" "env_ok e" "\<And>r. 0 < en_rec e r"
  shows "migrated_ok (ls @ [(k, l)]) (migrate_line e (k, l) mg)"
proof (cases l)
  case None
  then have "newest_batch (ls @ [(k, l)]) = newest_batch ls" by (auto simp: newest_snoc)
  then show ?thesis using assms(1) None by (simp add: migrated_ok_def migrate_line_def)
next
  case (Some row)
  have row: "distinct (row_rids row)" "\<forall>l\<in>set (mr_leaves row). ml_record l \<noteq> None" using assms(2) Some by (auto simp: fat_def)
  obtain m rr a b where f: "fold replay_line (mg_index mg) (Map.empty, Map.empty, 0, 0) = (m, rr, a, b)" by (metis prod_cases4)
  have ok: "rows (mg_ledger mg) = List.map thin_row (rows ls)" "lines_pos (mg_ledger mg)" "lines_pos (mg_records mg)"
      "m = ledger_index (mg_ledger mg)"
    and old: "\<And>rid row. newest_batch ls rid = Some row \<Longrightarrow> found_record (mg_records mg) rr rid row"
    using assms(1) by (auto simp: migrated_ok_def f split: option.splits)
  have d: "distinct (List.map ml_rid (mr_leaves row))" using row(1) by (simp add: row_rids_def)
  have e: "distinct (akeys ([] :: (string \<times> record_loc) list))" by simp
  obtain recs ys where mv: "fold (move_leaf e) (mr_leaves row) ([], mg_records mg) = (recs, mg_records mg @ ys)"
    "lines_pos (mg_records mg @ ys)"
    "\<And>rid. if rid \<in> ml_rid ` set (mr_leaves row)
           then (\<exists>l rec loc. l \<in> set (mr_leaves row) \<and> ml_rid l = rid \<and> ml_record l = Some rec \<and> alookup recs rid = Some loc \<and>
                   line_at (mg_records mg @ ys) (lo_off loc) = Some (lo_len loc, (rid, rec)))
           else alookup recs rid = alookup [] rid" and dist: "distinct (akeys recs)"
    using move_leaves [OF ok(3) d row(2) assms(4) e] by blast
  let ?thin = "thin_row row"
  let ?mg = "migrate_line e (k, l) mg"
  have mg: "mg_ledger ?mg = mg_ledger mg @ [(en_row e ?thin, Some ?thin)]" "mg_records ?mg = mg_records mg @ ys"
    "mg_index ?mg = mg_index mg @ [\<lparr>xl_off = int (fileSize (mg_ledger mg)), xl_merkle = 0, xl_record = 0, xl_rids = row_rids row, xl_recs = recs\<rparr>]"
    by (simp_all add: migrate_line_def Some mv(1) Let_def)
  have rr: "put_locs recs rr rid = (case alookup recs rid of Some v \<Rightarrow> Some v | None \<Rightarrow> rr rid)" for rid
    by (rule put_locs_lookup [OF dist])
  have "case newest_batch (ls @ [(k, l)]) rid of
      None \<Rightarrow> True | Some row' \<Rightarrow> found_record (mg_records mg @ ys) (put_locs recs rr) rid row'" for rid
  proof (cases "rid \<in> set (row_rids row)")
    case True
    then have "rid \<in> ml_rid ` set (mr_leaves row)" by (simp add: row_rids_def)
    then have "found_record (mg_records mg @ ys) (put_locs recs rr) rid row"
      using mv(3) [of rid] by (auto simp: found_record_def rr)
    then show ?thesis using True Some by (simp add: newest_snoc)
  next
    case False
    then have "alookup recs rid = None" using mv(3) [of rid] by (simp add: row_rids_def)
    then have r: "put_locs recs rr rid = rr rid" by (simp add: rr)
    have "found_record (mg_records mg @ ys) (put_locs recs rr) rid row'" if "newest_batch ls rid = Some row'" for row'
      using old [OF that] line_at_append [of "mg_records mg" _ _ ys] by (fastforce simp: found_record_def r)
    then show ?thesis using False Some by (simp add: newest_snoc split: option.split)
  qed
  moreover have "fold replay_line (mg_index ?mg) (Map.empty, Map.empty, 0, 0) =
      (ledger_index (mg_ledger ?mg), put_locs recs rr, 0, 0)"
    by (simp add: mg f replay_line_def ok(4) ledger_index_snoc)
  moreover have "0 < en_row e ?thin" using assms(3) by (simp add: env_ok_def)
  ultimately show ?thesis unfolding migrated_ok_def mg using ok mv(2) by (simp add: Some)
qed

lemma migrated_ok_lines:
  assumes "fat ls" "env_ok e" "\<And>r. 0 < en_rec e r"
  shows "migrated_ok ls (migrate_lines e ls)"
  using assms(1)
proof (induction ls rule: rev_induct)
  case Nil
  show ?case by (simp add: migrated_ok_def migrate_lines_def empty_migration_def ledger_index_def newest_batch_def)
next
  case (snoc p ls)
  obtain k l where p: "p = (k, l)" by (cases p)
  have "fat ls" using snoc.prems by (auto simp: fat_def)
  from migrated_ok_line [OF snoc.IH [OF this] snoc.prems [unfolded p] assms(2,3)] show ?case by (simp add: p migrate_lines_def)
qed

lemma newest_thin:
  "rows ls' = List.map thin_row (rows ls) \<Longrightarrow> newest_batch ls' rid = map_option thin_row (newest_batch ls rid)"
proof -
  have f: "List.find (\<lambda>row. rid \<in> set (row_rids row)) (List.map thin_row xs) = map_option thin_row (List.find (\<lambda>row. rid \<in> set (row_rids row)) xs)" for xs
    by (induction xs) simp_all
  assume "rows ls' = List.map thin_row (rows ls)"
  then show ?thesis unfolding newest_batch_def by (simp add: rev_map f)
qed

lemma fat_store_ok:
  assumes "fat ls" "ls \<noteq> []"
  shows "store_ok \<lparr>rs_ledger = ls, rs_records = [], rs_sidecar = None, rs_midx = None, rs_ridx = None, rs_warm = False\<rparr>"
  using assms fileSize_0 [of ls] by (simp add: fat_def store_ok_def side_size_def side_fold_def replaySidecar_def)

lemma migrated_replay:
  assumes "fold replay_line (mg_index mg) (Map.empty, Map.empty, 0, 0) = (m, rr, a, b)"
  shows "fold replay_line (List.map the (sidecar_of mg)) (Map.empty, Map.empty, 0, 0) =
    (m, rr, fileSize (mg_ledger mg), fileSize (mg_records mg))"
  using assms by (simp add: sidecar_of_def comp_def replay_line_def put_rids_def put_locs_def)

lemma proof_of_row:
  assumes "findMerkleBatch e rid st = (Some row, st')" "distinct (row_rids row)" "j < length (mr_leaves row)" "ml_rid (mr_leaves row ! j) = rid"
    "ml_record (mr_leaves row ! j) = Some rec \<or>
     (ml_record (mr_leaves row ! j) = None \<and> fst (loadRecordForRID e rid st') = Some rec)"
  shows "fst (BuildReceiptProof e rid st) =
    (let hashes = List.map (hexToHash32 \<circ> ml_leaf) (mr_leaves row)
     in if None \<in> set hashes then Inl CorruptLeaf
        else Inr \<lparr>rp_rid = rid, rp_sp = ml_sp (mr_leaves row ! j), rp_record = Some rec, rp_leaf = ml_leaf (mr_leaves row ! j), rp_index = j,
          rp_proof = List.map hex_encode (MerkleProofFor (List.map the hashes) (int j)), rp_root = mr_root row, rp_legacy = mr_legacy row,
          rp_details = mr_hash row, rp_tx = mr_tx row, rp_block = mr_block row\<rparr>)"
proof -
  have "row_rids row ! j = rid" using assms(3,4) by (simp add: row_rids_def)
  then have idx: "last_index (\<lambda>r. r = rid) (row_rids row) 0 (-1) = int j"
    using last_index_nth [OF assms(2), of j rid 0 "-1"] assms(3) by (simp add: row_rids_def)
  obtain st2 where r: "(case ml_record (mr_leaves row ! j) of Some r \<Rightarrow> (Some r, st') | None \<Rightarrow> loadRecordForRID e rid st') = (Some rec, st2)"
    using assms(5) by (cases "loadRecordForRID e rid st'") auto
  have i: "\<not> int j < 0" "nat (int j) = j" by simp_all
  show ?thesis unfolding BuildReceiptProof_def assms(1) prod.case option.case Let_def idx i(2) if_not_P [OF i(1)] r by simp
qed

text \<open>
  C26: A migration loses nothing. Let the ledger be one of the old format: its lines readable and non-empty, in every batch each request id once and every leaf with its record
  embedded (\<open>fat\<close>); let there be neither a record file nor a sidecar yet, the ledger be read to its end, and the index be writable. Then
  the gateway that starts on the migrated directory serves for every request the proof, with the record of the request,
  that it would have served on the old ledger.
\<close>

theorem migration_keeps_proofs:
  assumes "fd_ledger d = Some ls" "fat ls" "ls \<noteq> []" "contents (fd_records d) = []" "fd_sidecar d = None" "env_ok e" "en_sidecar_ok e"
    "\<And>r. 0 < en_rec e r"
  shows "fst (BuildReceiptProof e rid (store_of (snd (MigrateFatLedger e (length ls) 4 d)))) = fst (BuildReceiptProof e rid (store_of d))"
proof -
  let ?mg = "migrate_lines e ls"
  obtain m rr a b where f: "fold replay_line (mg_index ?mg) (Map.empty, Map.empty, 0, 0) = (m, rr, a, b)" by (metis prod_cases4)
  have ok: "rows (mg_ledger ?mg) = List.map thin_row (rows ls)" "lines_pos (mg_ledger ?mg)" "m = ledger_index (mg_ledger ?mg)"
    and found: "\<And>row. newest_batch ls rid = Some row \<Longrightarrow> found_record (mg_records ?mg) rr rid row"
    using migrated_ok_lines [OF assms(2,6,8)] by (auto simp: migrated_ok_def f split: option.splits)
  have sz: "fileSize ls \<noteq> 0" using assms(2,3) fileSize_0 [of ls] by (simp add: fat_def)
  let ?old = "store_of d" and ?new = "store_of (snd (MigrateFatLedger e (length ls) 4 d))"
  have old: "?old = \<lparr>rs_ledger = ls, rs_records = [], rs_sidecar = None, rs_midx = None, rs_ridx = None, rs_warm = False\<rparr>"
    using assms(1,4,5) by (simp add: store_of_def contents_def)
  have new: "?new = \<lparr>rs_ledger = mg_ledger ?mg, rs_records = mg_records ?mg, rs_sidecar = Some (sidecar_of ?mg), rs_midx = None, rs_ridx = None,
      rs_warm = False\<rparr>"
    using assms(1,4) sz by (simp add: store_of_def MigrateFatLedger_def contents_def install_def Let_def)
  have none: "None \<notin> set (sidecar_of ?mg)" by (auto simp: sidecar_of_def)
  have replay: "replaySidecar ?new = Some (m, rr)"
    using none by (simp add: new replaySidecar_def migrated_replay [OF f])
  have sf: "side_fold ?new = (m, rr, fileSize (mg_ledger ?mg), fileSize (mg_records ?mg))"
    by (simp add: side_fold_def new migrated_replay [OF f])
  have "store_ok ?new" using ok(2,3) none by (simp add: store_ok_def synced_def side_size_def sf) (simp add: new)
  moreover have w: "WarmReceiptIndex e ?new = ?new\<lparr>rs_midx := Some m, rs_ridx := Some rr, rs_warm := True\<rparr>"
    using replay by (simp add: WarmReceiptIndex_def loadOrWarmIndexes_def) (simp add: new)
  ultimately have fnew: "findMerkleBatch e rid ?new =
      (map_option thin_row (newest_batch ls rid), ?new\<lparr>rs_midx := Some m, rs_ridx := Some rr, rs_warm := True\<rparr>)"
    using find_newest [of ?new e rid] assms(7) newest_thin [OF ok(1), of rid] by (simp add: new)
  have fold: "findMerkleBatch e rid ?old = (newest_batch ls rid, WarmReceiptIndex e ?old)"
    using find_newest [OF fat_store_ok [OF assms(2,3)] assms(7), of rid] by (simp add: old)
  show ?thesis
  proof (cases "newest_batch ls rid")
    case None
    then show ?thesis using fnew fold by (simp add: BuildReceiptProof_def)
  next
    case (Some row)
    then have row: "row \<in> set (rows ls)" "rid \<in> set (row_rids row)" unfolding newest_batch_def find_Some_iff by (metis nth_mem set_rev)+
    then have dist: "distinct (row_rids row)" using assms(2) by (auto simp: fat_def)
    from found [OF Some] obtain l rec loc where l: "l \<in> set (mr_leaves row)" "ml_rid l = rid" "ml_record l = Some rec" "rr rid = Some loc"
      "line_at (mg_records ?mg) (lo_off loc) = Some (lo_len loc, (rid, rec))" by (auto simp: found_record_def)
    then obtain j where j: "j < length (mr_leaves row)" "mr_leaves row ! j = l" by (auto simp: in_set_conv_nth)
    let ?w = "?new\<lparr>rs_midx := Some m, rs_ridx := Some rr, rs_warm := True\<rparr>"
    have ld: "fst (loadRecordForRID e rid ?w) = Some rec"
      using l(4,5) by (simp add: loadRecordForRID_def Let_def WarmReceiptIndex_def index_lookup_def) (simp add: new)
    have 1: "findMerkleBatch e rid ?old = (Some row, WarmReceiptIndex e ?old)" using fold Some by simp
    have 2: "findMerkleBatch e rid ?new = (Some (thin_row row), ?w)" using fnew Some by simp
    have "ml_rid (mr_leaves row ! j) = rid" "ml_record (mr_leaves row ! j) = Some rec" using j l by simp_all
    note p1 = proof_of_row [OF 1 dist j(1) this(1), of rec]
    have t: "mr_leaves (thin_row row) ! j = thin_leaf l" using j by simp
    have "j < length (mr_leaves (thin_row row))" "ml_rid (mr_leaves (thin_row row) ! j) = rid" "ml_record (mr_leaves (thin_row row) ! j) = None"
      using j l t by (simp_all add: thin_leaf_def)
    note p2 = proof_of_row [OF 2 _ this(1,2), of rec]
    show ?thesis using p1 p2 dist l j ld by (simp add: thin_leaf_def comp_def)
  qed
qed

section \<open>Interruption\<close>

text \<open>
  The renames are not safe in every order of crashes. After the third of four the old ledger has its backup name and the new one
  is not yet in place: the gateway that starts then answers for every request, also one that is settled, that it is not.
  Running the migration again finds nothing to migrate.
\<close>

theorem interrupted_migration_hides_ledger:
  assumes "fd_ledger d = Some ls" "fat ls" "ls \<noteq> []" "contents (fd_records d) = []" "env_ok e" "\<And>r. 0 < en_rec e r"
  shows "fst (BuildReceiptProof e rid (store_of (snd (MigrateFatLedger e (length ls) 3 d)))) = Inl NotSettled \<and>
    fst (MigrateFatLedger e (length ls) 4 (snd (MigrateFatLedger e (length ls) 3 d))) = NothingToMigrate"
proof -
  have sz: "fileSize ls \<noteq> 0" using assms(2,3) fileSize_0 [of ls] by (simp add: fat_def)
  let ?mg = "migrate_lines e ls" and ?d = "snd (MigrateFatLedger e (length ls) 3 d)"
  obtain m rr a b where f: "fold replay_line (mg_index ?mg) (Map.empty, Map.empty, 0, 0) = (m, rr, a, b)" by (metis prod_cases4)
  have ok: "lines_pos (mg_ledger ?mg)" "m = ledger_index (mg_ledger ?mg)"
    using migrated_ok_lines [OF assms(2,5,6)] by (auto simp: migrated_ok_def f)
  have new: "store_of ?d = \<lparr>rs_ledger = [], rs_records = mg_records ?mg, rs_sidecar = Some (sidecar_of ?mg), rs_midx = None, rs_ridx = None,
      rs_warm = False\<rparr>" and d: "fd_ledger ?d = None"
    using assms(1,4) sz by (simp_all add: store_of_def MigrateFatLedger_def contents_def install_def Let_def)
  have "index_lookup (rs_midx (WarmReceiptIndex e (store_of ?d))) rid = None"
  proof (cases "replaySidecar (store_of ?d)")
    case None
    then show ?thesis
      by (simp add: WarmReceiptIndex_def loadOrWarmIndexes_def rebuildFromData_def Let_def index_lookup_def) (simp add: new)
  next
    case (Some x)
    obtain m' rr' where x: "x = (m', rr')" by (cases x)
    from replay_Some [OF Some [unfolded x]] have "m' = m" "fileSize (mg_ledger ?mg) = 0"
      by (simp_all add: side_fold_def new migrated_replay [OF f])
    then have "m' = Map.empty" using ok fileSize_0 [of "mg_ledger ?mg"] by (simp add: ledger_index_def)
    then show ?thesis using Some x by (simp add: WarmReceiptIndex_def loadOrWarmIndexes_def index_lookup_def) (simp add: new)
  qed
  then have "fst (findMerkleBatch e rid (store_of ?d)) = None" by (simp add: findMerkleBatch_def Let_def)
  then have "fst (BuildReceiptProof e rid (store_of ?d)) = Inl NotSettled"
    by (cases "findMerkleBatch e rid (store_of ?d)") (simp add: BuildReceiptProof_def)
  then show ?thesis using d by (simp add: MigrateFatLedger_def [of e "length ls" 4] contents_def)
qed

section \<open>A concrete ledger\<close>

definition fat_row :: merkle_row where
  "fat_row = \<lparr>mr_hash = ''h1'', mr_legacy = '''', mr_root = ''r'', mr_tx = ''0xt'', mr_block = 7,
     mr_leaves = [\<lparr>ml_rid = ''r1'', ml_leaf = hex_encode (sha256 ''r1''), ml_record = Some sample_record, ml_sp = ''0xs''\<rparr>]\<rparr>"

definition fat_dir :: ledger_dir where
  "fat_dir = \<lparr>fd_ledger = Some [(300, Some fat_row)], fd_records = None, fd_sidecar = None, fd_backup = None\<rparr>"

lemma fat_sample: "fat [(300, Some fat_row)]"
  by (simp add: fat_def fat_row_def row_rids_def)

theorem migration_keeps_proofs_witness:
  "fst (BuildReceiptProof (sample_env True) ''r1'' (store_of (snd (MigrateFatLedger (sample_env True) 1 4 fat_dir)))) =
   fst (BuildReceiptProof (sample_env True) ''r1'' (store_of fat_dir))"
  using migration_keeps_proofs [OF _ fat_sample, of fat_dir "sample_env True" "''r1''"]
  by (simp add: fat_dir_def contents_def sample_env_ok) (simp add: sample_env_def)

theorem interrupted_migration_hides_ledger_witness:
  "fst (BuildReceiptProof (sample_env True) ''r1'' (store_of (snd (MigrateFatLedger (sample_env True) 1 3 fat_dir)))) = Inl NotSettled"
  using interrupted_migration_hides_ledger [OF _ fat_sample, of fat_dir "sample_env True" "''r1''"]
  by (simp add: fat_dir_def contents_def sample_env_ok) (simp add: sample_env_def)

end
