(* ===== verification/Mtls.thy ===== *)
theory Mtls
  imports Prelude
begin

text \<open>
  The factory of the clients for the connections to workers (\<open>workermtls/factory.go\<close>) with its three callers: the poller,
  the forwarding and the streaming of the gateway. Reading and parsing the three files are arguments.
\<close>

section \<open>Transports\<close>

text \<open>\<open>tr_peer\<close>: the name the certificate of the worker must have, \<open>None\<close> without a TLS configuration.\<close>

record transport =
  tr_idleTimeout :: duration
  tr_headerTimeout :: duration
  tr_peer :: "string option"

record mtls_factory =
  mf_armed :: bool
  mf_cache :: "(string \<times> transport) list"

datatype mtls_error = PartialConfig | NoCA | NoCertificates | NoKeyPair

text \<open>The default transport of \<open>net/http\<close>: idle connections live 90 seconds, headers are waited for without bound.\<close>

definition DefaultTransport :: transport where
  "DefaultTransport = \<lparr>tr_idleTimeout = 90 * second, tr_headerTimeout = 0, tr_peer = None\<rparr>"

definition NewFactory ::
  "(string \<Rightarrow> 'b option) \<Rightarrow> ('b \<Rightarrow> bool) \<Rightarrow> (string \<Rightarrow> string \<Rightarrow> bool) \<Rightarrow> string \<Rightarrow> string \<Rightarrow> string \<Rightarrow> mtls_error + mtls_factory" where
  "NewFactory read parses pair_ok caFile certFile keyFile =
     (if caFile = '''' \<and> certFile = '''' \<and> keyFile = '''' then Inr \<lparr>mf_armed = False, mf_cache = []\<rparr>
      else if caFile = '''' \<or> certFile = '''' \<or> keyFile = '''' then Inl PartialConfig
      else case read caFile of
             None \<Rightarrow> Inl NoCA
           | Some pem \<Rightarrow>
               if \<not> parses pem then Inl NoCertificates
               else if \<not> pair_ok certFile keyFile then Inl NoKeyPair
               else Inr \<lparr>mf_armed = True, mf_cache = []\<rparr>)"

definition TransportFor :: "string \<Rightarrow> transport option \<Rightarrow> mtls_factory \<Rightarrow> transport \<times> mtls_factory" where
  "TransportFor workerID base f =
     (if \<not> mf_armed f then (case base of Some b \<Rightarrow> b | None \<Rightarrow> DefaultTransport, f)
      else case alookup (mf_cache f) workerID of
             Some t \<Rightarrow> (t, f)
           | None \<Rightarrow>
               let t = (case base of Some b \<Rightarrow> b | None \<Rightarrow> DefaultTransport)\<lparr>tr_peer := Some workerID\<rparr>
               in (t, f\<lparr>mf_cache := aput workerID t (mf_cache f)\<rparr>))"

section \<open>The callers\<close>

text \<open>A client is a timeout with a transport.\<close>

definition ClientFor :: "string \<Rightarrow> duration \<Rightarrow> transport option \<Rightarrow> mtls_factory \<Rightarrow> (duration \<times> transport) \<times> mtls_factory" where
  "ClientFor workerID timeout base f = (case TransportFor workerID base f of (t, f) \<Rightarrow> ((timeout, t), f))"

definition clientFor :: "duration \<times> transport \<Rightarrow> string \<Rightarrow> mtls_factory \<Rightarrow> (duration \<times> transport) \<times> mtls_factory" where
  "clientFor client workerID f = (if mf_armed f then ClientFor workerID (fst client) None f else (client, f))"

definition idleConnTimeout :: duration where "idleConnTimeout = 3 * second"

definition nonStreamTransport :: transport where
  "nonStreamTransport = \<lparr>tr_idleTimeout = idleConnTimeout, tr_headerTimeout = 0, tr_peer = None\<rparr>"

definition streamTransport :: "duration \<Rightarrow> transport" where
  "streamTransport timeout = \<lparr>tr_idleTimeout = idleConnTimeout, tr_headerTimeout = timeout, tr_peer = None\<rparr>"

definition workerHTTPClient :: "duration \<Rightarrow> string \<Rightarrow> mtls_factory \<Rightarrow> (duration \<times> transport) \<times> mtls_factory" where
  "workerHTTPClient timeout workerID f =
     (if mf_armed f then ClientFor workerID timeout (Some nonStreamTransport) f else ((timeout, nonStreamTransport), f))"

definition workerStreamTransport :: "duration \<Rightarrow> string \<Rightarrow> mtls_factory \<Rightarrow> transport \<times> mtls_factory" where
  "workerStreamTransport timeout workerID f =
     (if mf_armed f then TransportFor workerID (Some (streamTransport timeout)) f else (streamTransport timeout, f))"

section \<open>The peer is pinned\<close>

text \<open>A sequence of calls, each of a worker with any base.\<close>

fun transports :: "(string \<times> transport option) list \<Rightarrow> mtls_factory \<Rightarrow> transport list \<times> mtls_factory" where
  "transports [] f = ([], f)"
| "transports ((wid, base) # cs) f =
     (case TransportFor wid base f of (t, f) \<Rightarrow> (case transports cs f of (ts, f) \<Rightarrow> (t # ts, f)))"

definition pinned :: "mtls_factory \<Rightarrow> bool" where
  "pinned f \<longleftrightarrow> mf_armed f \<and> (\<forall>wid t. alookup (mf_cache f) wid = Some t \<longrightarrow> tr_peer t = Some wid)"

lemma pinned_call: "pinned f \<Longrightarrow> tr_peer (fst (TransportFor wid base f)) = Some wid \<and> pinned (snd (TransportFor wid base f))"
  by (auto simp: TransportFor_def pinned_def Let_def split: option.split)

lemma pinned_calls: "pinned f \<Longrightarrow> List.map tr_peer (fst (transports cs f)) = List.map (Some \<circ> fst) cs"
proof (induction cs f rule: transports.induct)
  case (2 wid base cs f)
  obtain t f' where t: "TransportFor wid base f = (t, f')" by fastforce
  then have "tr_peer t = Some wid" "pinned f'" using pinned_call [OF 2(2), of wid base] by simp_all
  then show ?case using 2(1) [OF t [symmetric]] t by (cases "transports cs f'") simp
qed simp

text \<open>
  With certificates configured, a half configuration is refused and every connection to a worker is made to the holder of a
  certificate of that worker's id, whatever calls came before.
\<close>

theorem peers_are_pinned:
  assumes "NewFactory read parses pair_ok caFile certFile keyFile = Inr f" "caFile \<noteq> '''' \<or> certFile \<noteq> '''' \<or> keyFile \<noteq> ''''"
  shows "List.map tr_peer (fst (transports calls f)) = List.map (Some \<circ> fst) calls"
proof -
  have "f = \<lparr>mf_armed = True, mf_cache = []\<rparr>" using assms by (auto simp: NewFactory_def split: if_splits option.splits)
  then show ?thesis by (intro pinned_calls) (simp add: pinned_def)
qed

theorem peers_are_pinned_witness:
  "List.map tr_peer (fst (transports [(''w1'', None), (''w2'', Some nonStreamTransport), (''w1'', Some nonStreamTransport)]
     \<lparr>mf_armed = True, mf_cache = []\<rparr>)) = [Some ''w1'', Some ''w2'', Some ''w1'']"
  using peers_are_pinned [of "\<lambda>_. Some ()" "\<lambda>_. True" "\<lambda>_ _. True" "''ca''" "''crt''" "''key''" "\<lparr>mf_armed = True, mf_cache = []\<rparr>"
      "[(''w1'', None), (''w2'', Some nonStreamTransport), (''w1'', Some nonStreamTransport)]"]
  by (simp add: NewFactory_def)

text \<open>
  The cache does not know the base: the first caller tunes the transport for all. A worker is polled before it serves, so with
  TLS its streams wait for a first byte without bound, and idle connections live 90 seconds instead of 3.
\<close>

theorem first_caller_tunes_transport:
  "let f = snd (clientFor client workerID \<lparr>mf_armed = True, mf_cache = []\<rparr>);
       t = fst (workerStreamTransport timeout workerID f)
   in tr_headerTimeout t = 0 \<and> tr_idleTimeout t = 90 * second \<and> tr_headerTimeout (streamTransport timeout) = timeout \<and>
      tr_idleTimeout (streamTransport timeout) = 3 * second"
  by (simp add: clientFor_def ClientFor_def TransportFor_def workerStreamTransport_def DefaultTransport_def streamTransport_def
      idleConnTimeout_def Let_def)

end
