(* ===== verification/Startup.thy ===== *)
theory Startup
  imports Proxy Auditor AdminApi Config Mtls
begin

text \<open>
  The configuration of the agent (\<open>config/config.go\<close>) and its start (\<open>cmd/agent/main.go\<close>): environment variables, defaults,
  validation, and the order in which gateway, registry and auditor are put together. Reading the file, decoding YAML and the
  operating system's environment are arguments; log lines are left out.
\<close>

section \<open>Configuration\<close>

record agent_config =
  cf_Mode :: string
  cf_GatewayPort :: int
  cf_Gateway :: gateway_config
  cf_PollIntervalSec :: int
  cf_OfflineTimeoutSec :: int
  cf_OfflineFailThreshold :: int
  cf_AdminPort :: int
  cf_AdminToken :: string
  cf_PublicPort :: int
  cf_LogLevel :: string
  cf_LogFormat :: string
  cf_SPEnabled :: bool
  cf_GatewayID :: string
  cf_FilecoinRPCURLs :: "string list"
  cf_ChallengeTTLSec :: int
  cf_SPRatePerMin :: int
  cf_MaxRegisteredSPs :: int
  cf_HTTPSPort :: int
  cf_BanDurationSec :: int
  cf_Probe :: probe_config
  cf_CAFile :: string
  cf_CertFile :: string
  cf_KeyFile :: string
  cf_Settlement :: settlement_config

definition applyDefaults :: "agent_config \<Rightarrow> agent_config" where
  "applyDefaults c = c\<lparr>
     cf_Mode := if_unset '''' ''dev'' (cf_Mode c),
     cf_GatewayPort := if_unset 0 3000 (cf_GatewayPort c),
     cf_Gateway := (cf_Gateway c)\<lparr>
       gc_RequestTimeoutSec := if_unset 0 120 (gc_RequestTimeoutSec (cf_Gateway c)),
       gc_QueueTimeoutSec := if_unset 0 60 (gc_QueueTimeoutSec (cf_Gateway c))\<rparr>,
     cf_PollIntervalSec := if_unset 0 5 (cf_PollIntervalSec c),
     cf_OfflineTimeoutSec := if_unset 0 30 (cf_OfflineTimeoutSec c),
     cf_OfflineFailThreshold := if_unset 0 3 (cf_OfflineFailThreshold c),
     cf_AdminPort := if_unset 0 9091 (cf_AdminPort c),
     cf_PublicPort := if_unset 0 9092 (cf_PublicPort c),
     cf_LogLevel := if_unset '''' ''info'' (cf_LogLevel c),
     cf_LogFormat := if_unset '''' ''json'' (cf_LogFormat c),
     cf_ChallengeTTLSec := if_unset 0 600 (cf_ChallengeTTLSec c),
     cf_SPRatePerMin := if_unset 0 6 (cf_SPRatePerMin c),
     cf_MaxRegisteredSPs := if_unset 0 1000 (cf_MaxRegisteredSPs c),
     cf_BanDurationSec := if_unset 0 604800 (cf_BanDurationSec c)\<rparr>"

datatype agent_error =
    PollIntervalTooSmall | FailThresholdTooSmall | AdminTokenRequired | ClientAuthRequired nat
  | GatewayIDRequired | FilecoinRPCRequired

definition validate :: "agent_config \<Rightarrow> agent_error + unit" where
  "validate c =
     (if cf_PollIntervalSec c < 1 then Inl PollIntervalTooSmall
      else if cf_OfflineFailThreshold c < 1 then Inl FailThresholdTooSmall
      else if cf_Mode c = ''prod'' \<and> cf_AdminToken c = '''' then Inl AdminTokenRequired
      else if cf_Mode c = ''prod'' \<and> gc_ClientToken (cf_Gateway c) = '''' \<and>
              length (filter (\<lambda>k. ck_key k \<noteq> '''') (gc_APIKeys (cf_Gateway c))) = 0
      then Inl (ClientAuthRequired (length (gc_APIKeys (cf_Gateway c))))
      else if cf_SPEnabled c \<and> cf_GatewayID c = '''' then Inl GatewayIDRequired
      else if cf_SPEnabled c \<and> length (cf_FilecoinRPCURLs c) = 0 then Inl FilecoinRPCRequired
      else Inr ())"

section \<open>Environment variables\<close>

text \<open>What stands between the braces: a name, or a name and a default.\<close>

definition env_value :: "(string \<Rightarrow> string) \<Rightarrow> string \<Rightarrow> string" where
  "env_value env envExpr =
     (case Index '':-'' envExpr of
        Some idx \<Rightarrow> (let envVal = env (take idx envExpr) in if envVal = '''' then drop (idx + 2) envExpr else envVal)
      | None \<Rightarrow> env envExpr)"

text \<open>The search starts over from the first character after every substitution, so the loop need not end.\<close>

partial_function (option) interpolateEnvVars :: "(string \<Rightarrow> string) \<Rightarrow> string \<Rightarrow> string option" where
  "interpolateEnvVars env result =
     (case Index ''${'' result of
        None \<Rightarrow> Some result
      | Some start \<Rightarrow>
          (case Index ''}'' (drop start result) of
             None \<Rightarrow> Some result
           | Some n \<Rightarrow>
               interpolateEnvVars env
                 (take start result @ env_value env (drop 2 (take n (drop start result))) @ drop (start + n + 1) result)))"

datatype load_error = NoConfigFile | NoYAML | InvalidConfig agent_error | InvalidSettlement config_error

text \<open>\<open>None\<close> is a load that does not return.\<close>

definition LoadConfig :: "(string \<Rightarrow> string) \<Rightarrow> (string \<Rightarrow> agent_config option) \<Rightarrow> string option \<Rightarrow> (load_error + agent_config) option" where
  "LoadConfig env unmarshal file =
     (case file of
        None \<Rightarrow> Some (Inl NoConfigFile)
      | Some data \<Rightarrow>
          (case interpolateEnvVars env data of
             None \<Rightarrow> None
           | Some content \<Rightarrow>
               Some (case unmarshal content of
                       None \<Rightarrow> Inl NoYAML
                     | Some cfg \<Rightarrow>
                         (let cfg = applyDefaults cfg; cfg = cfg\<lparr>cf_Settlement := ApplyDefaults (cf_Settlement cfg)\<rparr>
                          in (case validate cfg of
                                Inl e \<Rightarrow> Inl (InvalidConfig e)
                              | Inr _ \<Rightarrow>
                                  (case Validate (cf_Settlement cfg) of
                                     Inl e \<Rightarrow> Inl (InvalidSettlement e)
                                   | Inr _ \<Rightarrow> Inr cfg))))))"

section \<open>The end of the substitution\<close>

lemma Index_brace: "Index ''}'' s = Some n \<Longrightarrow> CHR ''}'' \<notin> set (take n s) \<and> s = take n s @ CHR ''}'' # drop (n + 1) s"
proof (induction s arbitrary: n)
  case (Cons c s)
  then show ?case by (cases "c = CHR ''}''") (auto simp: HasPrefix_def)
qed simp

lemma env_value_brace:
  assumes "\<forall>v. CHR ''}'' \<notin> set (env v)" "CHR ''}'' \<notin> set e"
  shows "CHR ''}'' \<notin> set (env_value env e)"
  using assms by (auto simp: env_value_def Let_def dest: in_set_dropD split: option.split)

text \<open>A text without a placeholder: no opening of one, or nothing that closes the first.\<close>

definition no_placeholder :: "string \<Rightarrow> bool" where
  "no_placeholder s \<longleftrightarrow> (case Index ''${'' s of None \<Rightarrow> True | Some i \<Rightarrow> Index ''}'' (drop i s) = None)"

lemma substitution_step:
  assumes "Index ''}'' (drop i s) = Some n" "CHR ''}'' \<notin> set v"
  shows "count_list (take i s @ v @ drop (i + n + 1) s) (CHR ''}'') < count_list s (CHR ''}'')"
proof -
  have "count_list s (CHR ''}'') = count_list (take i s) (CHR ''}'') + count_list (drop i s) (CHR ''}'')"
    by (metis append_take_drop_id count_list_append)
  moreover have "count_list (drop i s) (CHR ''}'') = Suc (count_list (drop (i + n + 1) s) (CHR ''}''))"
  proof -
    have b: "CHR ''}'' \<notin> set (take n (drop i s))" "drop i s = take n (drop i s) @ CHR ''}'' # drop (i + n + 1) s"
      using Index_brace [OF assms(1)] by (simp_all add: add.commute)
    have "count_list (take n (drop i s) @ CHR ''}'' # drop (i + n + 1) s) (CHR ''}'') = Suc (count_list (drop (i + n + 1) s) (CHR ''}''))"
      using b(1) by (simp add: count_notin)
    then show ?thesis using b(2) by metis
  qed
  ultimately show ?thesis using assms(2) by (simp add: count_notin)
qed

text \<open>
  If no environment variable has a closing brace in its value, the substitution ends, and what it returns has no
  placeholder.
\<close>

theorem interpolation_ends:
  assumes "\<forall>v. CHR ''}'' \<notin> set (env v)"
  shows "\<exists>r. interpolateEnvVars env s = Some r \<and> no_placeholder r"
proof (induction "count_list s (CHR ''}'')" arbitrary: s rule: less_induct)
  case less
  show ?case
  proof (cases "Index ''${'' s")
    case None
    then show ?thesis by (simp add: interpolateEnvVars.simps no_placeholder_def)
  next
    case (Some i)
    show ?thesis
    proof (cases "Index ''}'' (drop i s)")
      case None
      then show ?thesis using Some by (simp add: interpolateEnvVars.simps no_placeholder_def)
    next
      case (Some n)
      let ?v = "env_value env (drop 2 (take n (drop i s)))"
      have "CHR ''}'' \<notin> set ?v"
        by (rule env_value_brace [OF assms]) (use Index_brace [OF Some] in \<open>blast dest: in_set_dropD\<close>)
      from less [OF substitution_step [OF Some this]] show ?thesis
        using Some \<open>Index ''${'' s = _\<close> by (simp add: interpolateEnvVars.simps [of env s])
    qed
  qed
qed

theorem interpolation_ends_witness:
  "\<exists>r. interpolateEnvVars (\<lambda>v. if v = ''T'' then ''${PORT:-3000'' else '''') ''token: ${T}}'' = Some r \<and> no_placeholder r"
  by (rule interpolation_ends) simp

text \<open>A variable whose value refers to itself: the start never returns.\<close>

definition circular_env :: "string \<Rightarrow> string" where
  "circular_env v = (if v = ''A'' then ''${A}'' else '''')"

lemma circular_step:
  "Index ''${'' ''${A}'' = Some 0" "Index ''}'' ''${A}'' = Some 3" "env_value circular_env (drop 2 (take 3 ''${A}'')) = ''${A}''"
  by (simp_all add: HasPrefix_def env_value_def circular_env_def)

lemma circular_never_returns:
  assumes "interpolateEnvVars env s = Some r"
  shows "env = circular_env \<longrightarrow> s \<noteq> ''${A}''"
proof (rule interpolateEnvVars.raw_induct [where P = "\<lambda>env s r. env = circular_env \<longrightarrow> s \<noteq> ''${A}''", OF _ assms])
  fix f :: "(string \<Rightarrow> string) \<Rightarrow> string \<Rightarrow> string option" and env s r
  assume IH: "\<And>env s r. f env s = Some r \<Longrightarrow> env = circular_env \<longrightarrow> s \<noteq> ''${A}''"
    and b: "(case Index ''${'' s of None \<Rightarrow> Some s | Some start \<Rightarrow> (case Index ''}'' (drop start s) of None \<Rightarrow> Some s
       | Some n \<Rightarrow> f env (take start s @ env_value env (drop 2 (take n (drop start s))) @ drop (start + n + 1) s))) = Some r"
  show "env = circular_env \<longrightarrow> s \<noteq> ''${A}''"
  proof (intro impI notI)
    assume s: "env = circular_env" "s = ''${A}''"
    have "f env ''${A}'' = Some r"
      using b unfolding s circular_step option.case drop_0 by (simp add: circular_step)
    then show False using IH s by blast
  qed
qed

theorem self_reference_hangs:
  "LoadConfig circular_env unmarshal (Some ''${A}'') = None"
  using circular_never_returns [of circular_env "''${A}''"] by (cases "interpolateEnvVars circular_env ''${A}''") (simp_all add: LoadConfig_def)
section \<open>The start of the agent\<close>

definition parseFILOrNil :: "usd_text \<Rightarrow> bigfloat option" where
  "parseFILOrNil s = (case ParseFloat s of None \<Rightarrow> None | Some v \<Rightarrow> if bf_sign v \<le> 0 then None else Some v)"

definition parseSuspendThreshold :: "usd_text \<Rightarrow> bigfloat option" where
  "parseSuspendThreshold s = (case ParseFloat s of None \<Rightarrow> None | Some v \<Rightarrow> if bf_sign v < 0 then None else Some v)"

datatype log_level = LevelDebug | LevelInfo | LevelWarn | LevelError

definition parseLogLevel :: "string \<Rightarrow> log_level" where
  "parseLogLevel level =
     (if level = ''debug'' then LevelDebug else if level = ''info'' then LevelInfo
      else if level = ''warn'' \<or> level = ''warning'' then LevelWarn else if level = ''error'' then LevelError else LevelInfo)"

datatype start_error =
    BadWorkerTLS mtls_error | BadTrustedProxies | BadMinRawPower | BadMinMinerBalance | BadIssuer | HTTPSFailed
  | NoContractClient | GateWithoutProber

text \<open>How the parts end that read files or ask the network; the HTTPS listener may fail at any later time as well.\<close>

record start_io =
  io_workerTLS :: "mtls_error + mtls_factory"
  io_proxies :: bool
  io_minPower :: bool
  io_minBalance :: bool
  io_issuer :: bool
  io_https :: bool
  io_contract :: bool

record agent =
  an_gateway :: gateway
  an_registry :: registry
  an_admin :: admin_server
  an_auditor :: "auditor option"
  an_https :: bool
  an_listening :: bool

definition wants_https :: "agent_config \<Rightarrow> bool" where
  "wants_https c \<longleftrightarrow> cf_SPEnabled c \<and> cf_HTTPSPort c > 0"

definition early_error :: "agent_config \<Rightarrow> start_io \<Rightarrow> start_error option" where
  "early_error c i =
     (case io_workerTLS i of
        Inl e \<Rightarrow> Some (BadWorkerTLS e)
      | Inr _ \<Rightarrow>
          if \<not> io_proxies i then Some BadTrustedProxies
          else if cf_SPEnabled c \<and> \<not> io_minPower i then Some BadMinRawPower
          else if cf_SPEnabled c \<and> \<not> io_minBalance i then Some BadMinMinerBalance
          else if cf_SPEnabled c \<and> \<not> io_issuer i then Some BadIssuer
          else if wants_https c \<and> \<not> io_https i then Some HTTPSFailed
          else None)"

definition first_agent :: "agent_config \<Rightarrow> bool \<Rightarrow> reg_store \<Rightarrow> persisted_worker list option \<Rightarrow> gotime \<Rightarrow> agent" where
  "first_agent c writes st file now =
     \<lparr>an_gateway = NewGateway (cf_Gateway c) writes st, an_registry = NewRegistry True file now,
      an_admin = SetBanDefault (Seconds (cf_BanDurationSec c)) (NewServer (cf_AdminToken c)), an_auditor = None,
      an_https = wants_https c, an_listening = False\<rparr>"

definition start_balance :: "settlement_config \<Rightarrow> gateway \<Rightarrow> balance_cache" where
  "start_balance s g =
     SetDebtSuspension (parseSuspendThreshold (cfg_DebtSuspendUSD s))
       (SetCreditLimits (parseFILOrNil (cfg_MinBalanceFIL s)) (parseFILOrNil (cfg_MaxPendingSpend s))
         (SetWallets (KnownWallets (gw_keystore g)) (NewBalanceCache (cfg_SupportedTokens s))))"

definition with_settlement :: "settlement_config \<Rightarrow> agent \<Rightarrow> agent" where
  "with_settlement s a =
     (if \<not> cfg_Enabled s then a
      else a\<lparr>an_gateway := SetBalanceChecker (Some (start_balance s (an_gateway a), NewPricer s)) (Some s) (an_gateway a)\<rparr>)"

definition with_probe :: "probe_config \<Rightarrow> agent \<Rightarrow> agent" where
  "with_probe p a = a\<lparr>an_registry := SetAdmissionGate (pc_AdmissionGate p) (an_registry a), an_auditor := StartAuditor p\<rparr>"

text \<open>
  The states the agent goes through from the moment its first listener may answer, and how the start ends. The HTTPS
  listener is started in a goroutine of its own before the settlement engine is put in and the admission gate is set.
\<close>

definition start_agent ::
  "agent_config \<Rightarrow> start_io \<Rightarrow> bool \<Rightarrow> reg_store \<Rightarrow> persisted_worker list option \<Rightarrow> gotime \<Rightarrow> start_error option \<times> agent list" where
  "start_agent c i writes st file now =
     (case early_error c i of
        Some e \<Rightarrow> (Some e, [])
      | None \<Rightarrow>
          let a = first_agent c writes st file now; b = with_settlement (cf_Settlement c) a; d = with_probe (cf_Probe c) b
          in if cfg_Enabled (cf_Settlement c) \<and> \<not> io_contract i then (Some NoContractClient, [a])
             else if pc_AdmissionGate (cf_Probe c) \<and> \<not> pc_Enabled (cf_Probe c) then (Some GateWithoutProber, [a, b])
             else (None, [a, b, d, d\<lparr>an_listening := True\<rparr>]))"

section \<open>Authentication in production\<close>

lemma start_agent_keys:
  assumes "start_agent c i writes st file now = (e, as)" "a \<in> set as"
  shows "gw_keystore (an_gateway a) = gw_keystore (NewGateway (cf_Gateway c) writes st) \<and>
    gw_authEnabled (an_gateway a) = gw_authEnabled (NewGateway (cf_Gateway c) writes st) \<and> as_token (an_admin a) = cf_AdminToken c"
  using assms
  by (auto simp: start_agent_def first_agent_def with_settlement_def with_probe_def SetBalanceChecker_def SetBanDefault_def
      NewServer_def Let_def case_prod_beta split: option.splits if_splits)

lemma config_keys_fold:
  "m \<noteq> [] \<or> (\<exists>k\<in>set ks. ck_key k \<noteq> '''') \<Longrightarrow>
   fold (\<lambda>k m. if ck_key k \<noteq> '''' then aput (hashKey (ck_key k)) (f k) m else m) ks m \<noteq> []"
proof (induction ks arbitrary: m)
  case (Cons k ks)
  show ?case unfolding fold_Cons comp_apply by (rule Cons.IH) (use Cons.prems in \<open>auto simp: aput_nonempty\<close>)
qed simp

lemma no_values_no_keys:
  "\<forall>k\<in>set ks. ck_key k = '''' \<Longrightarrow> fold (\<lambda>k m. if ck_key k \<noteq> '''' then aput (hashKey (ck_key k)) (f k) m else m) ks m = m"
proof (induction ks arbitrary: m)
  case (Cons k ks)
  have k: "ck_key k = ''''" "\<forall>k\<in>set ks. ck_key k = ''''" using Cons.prems by simp_all
  show ?case unfolding fold_Cons comp_apply k(1) simp_thms not_True_eq_False if_False by (rule Cons.IH [OF k(2)])
qed simp

lemma accepted_config:
  assumes "LoadConfig env unmarshal file = Some (Inr c)"
  shows "validate c = Inr ()"
  using assms by (auto simp: LoadConfig_def Let_def split: option.splits sum.splits)

lemma keys_of_accepted:
  assumes "validate c = Inr ()" "cf_Mode c = ''prod''"
    and "gc_APIKeys (cf_Gateway c) = [] \<or> (\<exists>k\<in>set (gc_APIKeys (cf_Gateway c)). ck_key k \<noteq> '''')"
  shows "gw_authEnabled (NewGateway (cf_Gateway c) writes st)"
proof -
  let ?g = "cf_Gateway c"
  have "config_keys (gc_APIKeys ?g) (gc_ClientToken ?g) \<noteq> []"
  proof (cases "gc_APIKeys ?g = []")
    case True
    then have "gc_ClientToken ?g \<noteq> ''''" using assms(1,2) by (auto simp: validate_def split: if_splits)
    then show ?thesis using True by (simp add: config_keys_def)
  next
    case False
    then show ?thesis using assms(3) by (simp add: config_keys_def config_keys_fold)
  qed
  then show ?thesis
    by (simp add: NewGateway_def new_keystore_def Let_def case_prod_beta add_stored_nonempty)
qed

text \<open>The hashes a client can be known by: those of the configured keys, or of the single token without a list, and the stored ones.\<close>

definition known_hashes :: "gateway_config \<Rightarrow> reg_store \<Rightarrow> string set" where
  "known_hashes cfg st =
     hashKey ` (ck_key ` set (gc_APIKeys cfg) \<union> (if gc_APIKeys cfg = [] then {gc_ClientToken cfg} else {}) - {[]}) \<union>
     rg_hash ` set (store_recs st)"

lemma config_keys_hashes:
  "alookup (fold (\<lambda>k m. if ck_key k \<noteq> [] then aput (hashKey (ck_key k)) (f k) m else m) ks m) h = Some e \<Longrightarrow>
   alookup m h = Some e \<or> h \<in> hashKey ` (ck_key ` set ks - {[]})"
proof (induction ks arbitrary: m)
  case (Cons k ks)
  from Cons.IH [OF Cons.prems [unfolded fold_Cons comp_apply]] show ?case by (auto split: if_splits)
qed simp

lemma stored_hashes: "alookup (fold add_stored recs m) h = Some e \<Longrightarrow> alookup m h = Some e \<or> h \<in> rg_hash ` set recs"
proof (induction recs arbitrary: m)
  case (Cons r recs)
  from Cons.IH [OF Cons.prems [unfolded fold_Cons comp_apply]] show ?case by (auto simp: add_stored_def split: if_splits)
qed simp

lemma keys_are_known:
  assumes "alookup (ks_keys (gw_keystore (NewGateway cfg writes st))) h = Some e"
  shows "h \<in> known_hashes cfg st"
proof -
  have s: "alookup (static_keys cfg) h = Some e \<or> h \<in> rg_hash ` set (store_recs st)"
    using assms stored_hashes by (simp add: NewGateway_keys new_keystore_def case_prod_beta)
  then show ?thesis
  proof
    assume a: "alookup (static_keys cfg) h = Some e"
    then show ?thesis
    proof (cases "gc_APIKeys cfg = []")
      case True
      then show ?thesis using a by (simp add: static_keys_def config_keys_def known_hashes_def split: if_splits)
    next
      case False
      then show ?thesis using a config_keys_hashes [where m = "[]" and ks = "gc_APIKeys cfg" and h = h and e = e]
        by (simp add: static_keys_def config_keys_def known_hashes_def)
    qed
  qed (simp add: known_hashes_def)
qed

text \<open>
  C14: An accepted production configuration whose list of keys is absent or has a key with a value: in every state from the first
  listener to the running agent a client is let in only with a bearer token whose hash is that of a configured key or of a stored registration, and the admin
  API changes the registry, or answers outside its public paths anything but 401, only for a request that bears a token with the
  hash of the admin token, which is not empty.
\<close>

theorem production_is_authenticated:
  assumes "LoadConfig env unmarshal file = Some (Inr c)" "cf_Mode c = ''prod''"
    and "gc_APIKeys (cf_Gateway c) = [] \<or> (\<exists>k\<in>set (gc_APIKeys (cf_Gateway c)). ck_key k \<noteq> '''')"
    and "start_agent c i writes st workers now = (err, as)" "a \<in> set as" "serve_admin (an_admin a) e others q r = (answer, r')"
  shows "(authenticate (gw_authEnabled (an_gateway a)) auth (gw_keystore (an_gateway a)) = Some entry \<longrightarrow>
      auth \<noteq> '''' \<and> hashKey (TrimSpace (TrimPrefix auth ''Bearer '')) \<in> known_hashes (cf_Gateway c) st \<and>
      alookup (ks_keys (gw_keystore (an_gateway a))) (hashKey (TrimSpace (TrimPrefix auth ''Bearer ''))) = Some entry) \<and>
    (r' \<noteq> r \<or> (reply_status answer \<noteq> 401 \<and> aq_path q \<notin> {''/health'', ''/ready'', ''/metrics''}) \<longrightarrow>
      cf_AdminToken c \<noteq> '''' \<and> (\<exists>t. extractBearerToken (aq_auth q) = Some t \<and> sha256 t = sha256 (cf_AdminToken c)))"
proof -
  note ok = accepted_config [OF assms(1)] and keys = start_agent_keys [OF assms(4,5)]
  have "gw_authEnabled (an_gateway a)" using keys keys_of_accepted [OF ok assms(2,3)] by simp
  moreover have "as_token (an_admin a) \<noteq> '''' \<and> as_token (an_admin a) = cf_AdminToken c"
    using keys ok assms(2) by (auto simp: validate_def split: if_splits)
  ultimately show ?thesis
    using keys keys_are_known [of "cf_Gateway c" writes st] changes_need_the_token [OF _ assms(6)]
    by (auto simp: authenticate_def isPublicPath_def)
qed

text \<open>A production configuration with one key and a client token, and its start without settlement.\<close>

definition sample_probe_config :: "int \<Rightarrow> probe_config" where
  "sample_probe_config interval =
     \<lparr>pc_Enabled = True, pc_IntervalSec = interval, pc_NumQuestions = 0, pc_MinScore = bf_zero, pc_BanSeconds = 0, pc_RequestTimeout = 0,
      pc_AdmissionGate = True, pc_VerifyTTL = 0, pc_ModelFloors = [], pc_SpotMinInterval = 0\<rparr>"

definition sample_agent_config :: "config_key list \<Rightarrow> int \<Rightarrow> agent_config" where
  "sample_agent_config ks interval =
     \<lparr>cf_Mode = ''prod'', cf_GatewayPort = 0,
      cf_Gateway = \<lparr>gc_ClientToken = ''c0'', gc_APIKeys = ks, gc_RequestTimeoutSec = 0, gc_QueueTimeoutSec = 0, gc_MaxQueueSize = 0,
        gc_ModelSwitchLoadFactor = bf_zero, gc_StreamResume = False, gc_StreamMaxResumes = 0, gc_RatePerSecPerKey = bf_zero,
        gc_RateBurstPerKey = 0, gc_MaxConcurrentPerKey = 0, gc_MaxRequestBytes = 0, gc_MaxKeysPerWallet = 0\<rparr>,
      cf_PollIntervalSec = 0, cf_OfflineTimeoutSec = 0, cf_OfflineFailThreshold = 0, cf_AdminPort = 0, cf_AdminToken = ''t0'',
      cf_PublicPort = 0, cf_LogLevel = '''', cf_LogFormat = '''', cf_SPEnabled = True, cf_GatewayID = ''gw'',
      cf_FilecoinRPCURLs = [''u''], cf_ChallengeTTLSec = 0, cf_SPRatePerMin = 0, cf_MaxRegisteredSPs = 0, cf_HTTPSPort = 8443,
      cf_BanDurationSec = 0, cf_Probe = sample_probe_config interval, cf_CAFile = '''', cf_CertFile = '''', cf_KeyFile = '''',
      cf_Settlement = zero_config\<rparr>"

definition loaded_config :: "config_key list \<Rightarrow> int \<Rightarrow> agent_config" where
  "loaded_config ks interval = applyDefaults (sample_agent_config ks interval)\<lparr>cf_Settlement := ApplyDefaults zero_config\<rparr>"

definition good_io :: start_io where
  "good_io = \<lparr>io_workerTLS = Inr \<lparr>mf_armed = False, mf_cache = []\<rparr>, io_proxies = True, io_minPower = True, io_minBalance = True,
     io_issuer = True, io_https = True, io_contract = True\<rparr>"

lemma sample_load:
  "LoadConfig env (\<lambda>_. Some (sample_agent_config ks interval)) (Some ''x'') = Some (Inr (loaded_config ks interval))"
proof -
  have "Validate (ApplyDefaults zero_config) = Inr ()" by (simp add: Validate_def ApplyDefaults_def zero_config_def)
  moreover have "interpolateEnvVars env ''x'' = Some ''x''" by (simp add: interpolateEnvVars.simps HasPrefix_def)
  ultimately show ?thesis
    by (simp add: LoadConfig_def loaded_config_def applyDefaults_def sample_agent_config_def if_unset_def validate_def Let_def)
qed

lemma loaded_props:
  "cf_Mode (loaded_config ks interval) = ''prod''" "cf_Probe (loaded_config ks interval) = sample_probe_config interval"
  "gc_APIKeys (cf_Gateway (loaded_config ks interval)) = ks" "gc_ClientToken (cf_Gateway (loaded_config ks interval)) = ''c0''"
  "\<not> cfg_Enabled (cf_Settlement (loaded_config ks interval))" "wants_https (loaded_config ks interval)"
  "early_error (loaded_config ks interval) good_io = None"
  by (simp_all add: loaded_config_def applyDefaults_def sample_agent_config_def if_unset_def wants_https_def early_error_def good_io_def
      ApplyDefaults_def zero_config_def)

lemma sample_start:
  "start_agent (loaded_config ks interval) good_io writes st workers now =
     (let a = first_agent (loaded_config ks interval) writes st workers now; d = with_probe (sample_probe_config interval) a
      in (None, [a, a, d, d\<lparr>an_listening := True\<rparr>]))"
  by (simp add: start_agent_def loaded_props with_settlement_def sample_probe_config_def Let_def)

theorem production_is_authenticated_witness:
  "authenticate
     (gw_authEnabled (an_gateway (hd (snd (start_agent (loaded_config [\<lparr>ck_key = ''k0'', ck_name = ''n'', ck_wallet = ''''\<rparr>] 0) good_io True Missing None 0)))))
     '''' (gw_keystore (an_gateway (hd (snd (start_agent (loaded_config [\<lparr>ck_key = ''k0'', ck_name = ''n'', ck_wallet = ''''\<rparr>] 0) good_io True Missing None 0)))))
   = None \<and>
   snd (serve_admin (an_admin (hd (snd (start_agent (loaded_config [\<lparr>ck_key = ''k0'', ck_name = ''n'', ck_wallet = ''''\<rparr>] 0) good_io True Missing None 0))))
     sample_env (\<lambda>_. False) (ban_request ''t0'') (live_fleet True)) = live_fleet True"
proof -
  let ?ks = "[\<lparr>ck_key = ''k0'', ck_name = ''n'', ck_wallet = ''''\<rparr>]"
  let ?s = "start_agent (loaded_config ?ks 0) good_io True Missing None 0"
  let ?a = "hd (snd ?s)"
  obtain answer r' where q: "serve_admin (an_admin ?a) sample_env (\<lambda>_. False) (ban_request ''t0'') (live_fleet True) = (answer, r')" by fastforce
  have a: "?a \<in> set (snd ?s)" by (simp add: sample_start Let_def)
  have k: "gc_APIKeys (cf_Gateway (loaded_config ?ks 0)) = [] \<or> (\<exists>k\<in>set (gc_APIKeys (cf_Gateway (loaded_config ?ks 0))). ck_key k \<noteq> '''')"
    by (simp add: loaded_props)
  note p = production_is_authenticated [OF sample_load loaded_props(1) k prod.collapse [of ?s, symmetric] a q]
  have "authenticate (gw_authEnabled (an_gateway ?a)) '''' (gw_keystore (an_gateway ?a)) \<noteq> Some entry" for entry
    using p by blast
  moreover have "extractBearerToken (aq_auth (ban_request ''t0'')) = None" by (simp add: extractBearerToken_def ban_request_def HasPrefix_def)
  then have "r' = live_fleet True" using p by auto
  ultimately show ?thesis using q by (metis not_None_eq snd_conv)
qed

text \<open>
  C38: With a list of keys that have no value the client token satisfies the validation and is then ignored: the production
  gateway starts with authentication off and takes every request for an anonymous client without a wallet.
\<close>

theorem empty_keys_open_production:
  assumes "ks \<noteq> []" "\<forall>k\<in>set ks. ck_key k = ''''"
  shows "LoadConfig env (\<lambda>_. Some (sample_agent_config ks interval)) (Some ''x'') = Some (Inr (loaded_config ks interval)) \<and>
    cf_Mode (loaded_config ks interval) = ''prod'' \<and> gc_ClientToken (cf_Gateway (loaded_config ks interval)) = ''c0'' \<and>
    (\<forall>a\<in>set (snd (start_agent (loaded_config ks interval) good_io writes Missing workers now)).
       \<exists>anyone. authenticate (gw_authEnabled (an_gateway a)) auth (gw_keystore (an_gateway a)) = Some anyone \<and> ke_wallet anyone = '''')"
proof -
  have "config_keys ks ''c0'' = []" unfolding config_keys_def if_P [OF assms(1)] by (rule no_values_no_keys [OF assms(2)])
  then have "\<not> gw_authEnabled (NewGateway (cf_Gateway (loaded_config ks interval)) writes Missing)"
    by (simp add: NewGateway_def loaded_props new_keystore_def loadRegistrationsFile_def Let_def)
  then have "\<not> gw_authEnabled (an_gateway a)"
    if "a \<in> set (snd (start_agent (loaded_config ks interval) good_io writes Missing workers now))" for a
    using start_agent_keys [OF prod.collapse [symmetric] that] by simp
  then show ?thesis by (simp add: sample_load loaded_props authenticate_def)
qed

theorem empty_keys_open_production_witness:
  "\<exists>anyone. authenticate
     (gw_authEnabled (an_gateway (hd (snd (start_agent (loaded_config [\<lparr>ck_key = '''', ck_name = ''n'', ck_wallet = ''''\<rparr>] 60) good_io True Missing None 0)))))
     ''Bearer x'' (gw_keystore (an_gateway (hd (snd (start_agent (loaded_config [\<lparr>ck_key = '''', ck_name = ''n'', ck_wallet = ''''\<rparr>] 60) good_io True Missing None 0)))))
   = Some anyone"
proof -
  let ?ks = "[\<lparr>ck_key = '''', ck_name = ''n'', ck_wallet = ''''\<rparr>]"
  let ?s = "start_agent (loaded_config ?ks 60) good_io True Missing None 0"
  have a: "hd (snd ?s) \<in> set (snd ?s)" by (simp add: sample_start Let_def)
  have "?ks \<noteq> []" "\<forall>k\<in>set ?ks. ck_key k = ''''" by simp_all
  from empty_keys_open_production [OF this] a show ?thesis by blast
qed

section \<open>What the order of the start leaves open\<close>

text \<open>
  The start refuses an admission gate without a prober, but not one whose interval is 0: the gate is on, no auditor runs,
  and a fleet of registered workers that are not yet verified gets no request.
\<close>

theorem gate_without_interval_starves:
  assumes "pc_AdmissionGate (cf_Probe c)" "pc_IntervalSec (cf_Probe c) \<le> 0" "start_agent c i writes st workers now = (None, as)"
  shows "an_auditor (last as) = None \<and> rg_gate (an_registry (last as)) \<and>
    (rg_gate r \<and> (\<forall>w\<in>set (ListWorkers r). wk_self w \<and> wk_verified w = []) \<longrightarrow> selectWorkerForModel r t u model ex factor = None)"
proof -
  have "selectWorkerForModel r t u model ex factor = None" if "rg_gate r" "\<forall>w\<in>set (ListWorkers r). wk_self w \<and> wk_verified w = []"
    unfolding selectWorkerForModel_def select_None using that by (auto simp: admitted_def workerVerifiedFor_def)
  then show ?thesis
    using assms by (auto simp: start_agent_def with_probe_def StartAuditor_def SetAdmissionGate_def Let_def split: option.splits if_splits)
qed

theorem gate_without_interval_starves_witness:
  "an_auditor (last (snd (start_agent (loaded_config [] 0) good_io True Missing None 0))) = None \<and>
   selectWorkerForModel (live_fleet True) 10 bf_zero ''m'' (\<lambda>_. False) bf_zero = None"
proof -
  let ?s = "start_agent (loaded_config [] 0) good_io True Missing None 0"
  have "?s = (None, snd ?s)" by (simp add: sample_start Let_def)
  from gate_without_interval_starves [OF _ _ this, of "live_fleet True" 10 bf_zero "''m''" "\<lambda>_. False" bf_zero]
  show ?thesis by (simp add: loaded_props sample_probe_config_def live_fleet_list live_worker_props) (simp add: live_fleet_eq)
qed

text \<open>
  The HTTPS listener answers before the settlement engine is in: a request over it is forwarded without reservation, whatever
  the balance of the wallet, and to workers the admission gate would keep out.
\<close>

theorem early_https_is_ungated:
  assumes "wants_https c" "early_error c i = None" "start_agent c i writes st workers now = (err, as)"
  shows "an_https (hd as) \<and> reserve_credit wallet model b (an_gateway (hd as)) = Some (Inr (None, b), an_gateway (hd as)) \<and>
    \<not> rg_gate (an_registry (hd as)) \<and>
    (err = None \<and> cfg_Enabled (cf_Settlement c) \<longrightarrow> gw_balance (an_gateway (last as)) \<noteq> None)"
proof -
  have "hd as = first_agent c writes st workers now" using assms(2,3) by (auto simp: start_agent_def Let_def split: if_splits)
  moreover have "gw_balance (an_gateway (last as)) \<noteq> None" if "err = None" "cfg_Enabled (cf_Settlement c)"
  proof -
    have "last as = with_probe (cf_Probe c) (with_settlement (cf_Settlement c) (first_agent c writes st workers now))\<lparr>an_listening := True\<rparr>"
      using assms(2,3) that(1) by (auto simp: start_agent_def Let_def split: if_splits)
    then show ?thesis using that(2)
      by (simp add: with_probe_def with_settlement_def SetBalanceChecker_def Let_def case_prod_beta)
  qed
  moreover have "gw_balance (an_gateway (first_agent c writes st workers now)) = None"
    "\<not> rg_gate (an_registry (first_agent c writes st workers now))" "an_https (first_agent c writes st workers now)"
    using assms(1) by (simp_all add: first_agent_def NewGateway_def NewRegistry_def loadFromDisk_def Let_def split: option.split)
  ultimately show ?thesis by (simp add: reserve_credit_def)
qed

theorem early_https_is_ungated_witness:
  "reserve_credit ''0xw'' ''m'' b (an_gateway (hd (snd (start_agent (loaded_config [] 60) good_io True Missing None 0)))) =
     Some (Inr (None, b), an_gateway (hd (snd (start_agent (loaded_config [] 60) good_io True Missing None 0))))"
  using early_https_is_ungated [OF loaded_props(6,7) prod.collapse [symmetric]] by blast

end
