(* ===== verification/Catalog.thy ===== *)
theory Catalog
  imports Auditor Poller Keys Usage Balance
begin

text \<open>
  What the gateway tells a client (\<open>gateway/gateway.go\<close>, \<open>gateway/me.go\<close>): the listing of models, the catalog with prices,
  the number of available models and the account view. A Go map that is ranged over is a list in the order of the range.
\<close>

section \<open>The listing\<close>

datatype 'b client_answer = Answer 'b | ClientError nat

definition routable_state :: "worker \<Rightarrow> bool" where
  "routable_state w \<longleftrightarrow> wk_state w = StateIdle \<or> wk_state w = StateBusy"

fun list_model :: "string \<Rightarrow> string list \<times> string list \<Rightarrow> string list \<times> string list" where
  "list_model m (seen, models) =
     (if m = '''' then (seen, models)
      else let mid = canonicalModelID m; key = normalizeModelKey mid
           in if key \<in> set seen then (seen, models) else (key # seen, models @ [mid]))"

definition list_models :: "bool \<Rightarrow> worker list \<Rightarrow> string list" where
  "list_models gate ws =
     snd (fold (\<lambda>w acc. if routable_state w then fold list_model (routableModels w gate) acc else acc) ws ([], []))"

definition handleModels :: "string \<Rightarrow> apiKeyEntry option \<Rightarrow> registry \<Rightarrow> string list client_answer" where
  "handleModels method auth r =
     (if method \<noteq> ''GET'' then ClientError 405
      else case auth of
             None \<Rightarrow> ClientError 401
           | Some _ \<Rightarrow> Answer (list_models (rg_gate r) (ListWorkers r)))"

section \<open>The catalog\<close>

record resolved_model =
  rm_id :: string
  rm_input :: usd_text
  rm_output :: usd_text
  rm_cacheRead :: usd_text
  rm_context :: int
  rm_maxOutput :: int
  rm_available :: bool

definition priceOf :: "(string \<times> usd_text) list option \<Rightarrow> string \<Rightarrow> usd_text" where
  "priceOf m mid =
     (case m of
        None \<Rightarrow> NoText
      | Some m \<Rightarrow> (case alookup m mid of Some v \<Rightarrow> v | None \<Rightarrow> (case alookup m ''default'' of Some v \<Rightarrow> v | None \<Rightarrow> NoText)))"

definition no_info :: model_info where
  "no_info = \<lparr>mi_input = NoText, mi_cache_read = NoText, mi_context_window = 0, mi_max_output = 0\<rparr>"

definition catOf :: "(string \<times> model_info) list option \<Rightarrow> string \<Rightarrow> model_info" where
  "catOf catalog mid =
     (case catalog of
        None \<Rightarrow> no_info
      | Some c \<Rightarrow> (case alookup c mid of Some v \<Rightarrow> v | None \<Rightarrow> (case alookup c ''default'' of Some v \<Rightarrow> v | None \<Rightarrow> no_info)))"

definition claimed_ids :: "settlement_config option \<Rightarrow> worker list \<Rightarrow> string list" where
  "claimed_ids cfg ws = remdups
     ((case cfg of
         None \<Rightarrow> []
       | Some c \<Rightarrow> akeys (case cfg_ModelPricesUSD c of Some m \<Rightarrow> m | None \<Rightarrow> []) @
                    akeys (case cfg_ModelCatalog c of Some m \<Rightarrow> m | None \<Rightarrow> [])) @
      concat (List.map (\<lambda>w. (if wk_loaded w \<noteq> '''' then [wk_loaded w] else []) @ wk_supported w) ws))"

definition available_ids :: "bool \<Rightarrow> worker list \<Rightarrow> string list" where
  "available_ids gate ws = concat (List.map (\<lambda>w. if routable_state w then routableModels w gate else []) ws)"

definition resolve_model :: "settlement_config option \<Rightarrow> string list \<Rightarrow> string \<Rightarrow> resolved_model" where
  "resolve_model cfg avail mid =
     (let prices = (case cfg of Some c \<Rightarrow> cfg_ModelPricesUSD c | None \<Rightarrow> None);
          info = catOf (case cfg of Some c \<Rightarrow> cfg_ModelCatalog c | None \<Rightarrow> None) mid;
          input = (if mi_input info = NoText then priceOf prices mid else mi_input info)
      in \<lparr>rm_id = mid, rm_input = input, rm_output = priceOf prices mid, rm_cacheRead = mi_cache_read info,
          rm_context = mi_context_window info, rm_maxOutput = mi_max_output info, rm_available = (mid \<in> set avail)\<rparr>)"

text \<open>The gateway may run without a registry.\<close>

definition resolveModels :: "settlement_config option \<Rightarrow> registry option \<Rightarrow> resolved_model list" where
  "resolveModels cfg reg =
     (let ws = (case reg of Some r \<Rightarrow> ListWorkers r | None \<Rightarrow> []);
          gate = (case reg of Some r \<Rightarrow> rg_gate r | None \<Rightarrow> False)
      in List.map (resolve_model cfg (available_ids gate ws)) (filter (\<lambda>mid. mid \<noteq> ''default'') (claimed_ids cfg ws)))"

definition AvailableModelCount :: "settlement_config option \<Rightarrow> registry option \<Rightarrow> nat" where
  "AvailableModelCount cfg reg = length (filter rm_available (resolveModels cfg reg))"

record catalog_answer =
  ca_data :: "resolved_model list"
  ca_filPrice :: "bigfloat option"

definition handleCatalog ::
  "string \<Rightarrow> apiKeyEntry option \<Rightarrow> settlement_config option \<Rightarrow> registry option \<Rightarrow> bigfloat option \<Rightarrow> catalog_answer client_answer" where
  "handleCatalog method auth cfg reg filPrice =
     (if method \<noteq> ''GET'' then ClientError 405
      else case auth of
             None \<Rightarrow> ClientError 401
           | Some _ \<Rightarrow>
               Answer \<lparr>ca_data = resolveModels cfg reg,
                 ca_filPrice = (case filPrice of Some p \<Rightarrow> if bf_sign p > 0 then Some p else None | None \<Rightarrow> None)\<rparr>)"

definition handleUnsupported :: "'b client_answer" where
  "handleUnsupported = ClientError 404"

section \<open>The account view\<close>

text \<open>Amounts are the numbers whose text is shown.\<close>

record balance_view =
  bv_filPrice :: bigfloat
  bv_chainFIL :: "bigfloat option"
  bv_tokens :: "(string \<times> bigfloat) list"
  bv_pending :: bigfloat
  bv_available :: bigfloat

record me_answer =
  me_name :: string
  me_id :: string
  me_static :: bool
  me_wallet :: string
  me_balance :: "balance_view option option"
  me_usage :: "usage_entry list option"

definition nativeToken :: string where "nativeToken = ''0x0000000000000000000000000000000000000000''"

definition account_balance :: "balance_cache \<Rightarrow> pricer \<Rightarrow> bigfloat \<Rightarrow> string \<Rightarrow> balance_view" where
  "account_balance bc p price wallet =
     (let available = AvailableUSDView bc p wallet
      in \<lparr>bv_filPrice = price,
          bv_chainFIL = map_option (\<lambda>tokens. case tokens nativeToken of
            Some wei \<Rightarrow> bf_quo (bf_of_int wei) (float64_of_int (10 ^ 18)) | None \<Rightarrow> bf_zero) (chainBalances bc wallet),
          bv_tokens = TokenBalancesView bc wallet, bv_pending = GetPendingSpend bc wallet,
          bv_available = (if bf_sign available < 0 then bf_zero else available)\<rparr>)"

definition handleMe ::
  "string \<Rightarrow> apiKeyEntry option \<Rightarrow> balance_cache option \<Rightarrow> pricer \<Rightarrow> bigfloat option \<Rightarrow> usageRing option \<Rightarrow> me_answer client_answer" where
  "handleMe method auth bc p filPrice usage =
     (if method \<noteq> ''GET'' then ClientError 405
      else case auth of
             None \<Rightarrow> ClientError 401
           | Some entry \<Rightarrow>
               Answer \<lparr>me_name = ke_name entry, me_id = ke_id entry, me_static = ke_static entry, me_wallet = ke_wallet entry,
                 me_balance =
                   (case bc of
                      None \<Rightarrow> None
                    | Some b \<Rightarrow>
                        if ke_wallet entry = '''' then None
                        else Some (case filPrice of
                               Some price \<Rightarrow> if bf_sign price > 0 then Some (account_balance b p price (ke_wallet entry)) else None
                             | None \<Rightarrow> None)),
                 me_usage = map_option (lastByKey (ke_name entry) 20) usage\<rparr>)"

text \<open>The derivation of the delegated address and the form of an EVM address are arguments.\<close>

definition handleF4Addr ::
  "(string \<Rightarrow> bool) \<Rightarrow> (string \<Rightarrow> string) \<Rightarrow> (string \<Rightarrow> string option) \<Rightarrow> string \<Rightarrow> string \<Rightarrow> (string \<times> string) client_answer" where
  "handleF4Addr isHexAddress hexa delegated method wallet =
     (if method \<noteq> ''GET'' then ClientError 405
      else if \<not> isHexAddress wallet then ClientError 400
      else case delegated (hexa wallet) of None \<Rightarrow> ClientError 500 | Some f4 \<Rightarrow> Answer (hexa wallet, f4))"

section \<open>The listing has each model once\<close>

lemma list_model_step:
  "distinct (List.map normalizeModelKey (snd acc)) \<and> set (fst acc) = normalizeModelKey ` set (snd acc) \<Longrightarrow>
   distinct (List.map normalizeModelKey (snd (list_model m acc))) \<and>
   set (fst (list_model m acc)) = normalizeModelKey ` set (snd (list_model m acc))"
  by (cases acc) (auto simp: Let_def)

lemma list_models_step:
  "distinct (List.map normalizeModelKey (snd acc)) \<and> set (fst acc) = normalizeModelKey ` set (snd acc) \<Longrightarrow>
   distinct (List.map normalizeModelKey (snd (fold list_model ms acc))) \<and>
   set (fst (fold list_model ms acc)) = normalizeModelKey ` set (snd (fold list_model ms acc))"
proof (induction ms arbitrary: acc)
  case (Cons m ms)
  show ?case unfolding fold_Cons comp_apply by (rule Cons.IH) (rule list_model_step [OF Cons.prems])
qed simp

text \<open>The listing has no two spellings of one model.\<close>

theorem listing_has_no_duplicates:
  "distinct (List.map normalizeModelKey (list_models gate ws))"
proof -
  have "distinct (List.map normalizeModelKey (snd (fold (\<lambda>w acc. if routable_state w then fold list_model (routableModels w gate) acc else acc) ws acc))) \<and>
    set (fst (fold (\<lambda>w acc. if routable_state w then fold list_model (routableModels w gate) acc else acc) ws acc)) =
      normalizeModelKey ` set (snd (fold (\<lambda>w acc. if routable_state w then fold list_model (routableModels w gate) acc else acc) ws acc))"
    if "distinct (List.map normalizeModelKey (snd acc)) \<and> set (fst acc) = normalizeModelKey ` set (snd acc)" for acc
    using that
  proof (induction ws arbitrary: acc)
    case (Cons w ws)
    show ?case unfolding fold_Cons comp_apply
    proof (rule Cons.IH)
      show "distinct (List.map normalizeModelKey (snd (if routable_state w then fold list_model (routableModels w gate) acc else acc))) \<and>
        set (fst (if routable_state w then fold list_model (routableModels w gate) acc else acc)) =
          normalizeModelKey ` set (snd (if routable_state w then fold list_model (routableModels w gate) acc else acc))"
        by (cases "routable_state w") (simp_all only: if_True if_False Cons.prems list_models_step simp_thms)
    qed
  qed simp
  from this [of "([], [])"] show ?thesis by (simp add: list_models_def)
qed


section \<open>Where the listing and the count are not what a request can reach\<close>

text \<open>The model of one worker under its two names: listed once, counted twice.\<close>

definition two_names :: registry where
  "two_names = (live_fleet False)\<lparr>rg_workers := [(''w1'', live_worker\<lparr>wk_loaded := ''/models/a--b'', wk_supported := [''a/b'']\<rparr>)]\<rparr>"

lemma two_names_worker: "ListWorkers two_names = [live_worker\<lparr>wk_loaded := ''/models/a--b'', wk_supported := [''a/b'']\<rparr>]"
  by (simp add: ListWorkers_def two_names_def snapshot_def inflight_of_def live_fleet_eq live_worker_props)

theorem model_counted_twice:
  "handleModels ''GET'' (Some e) two_names = Answer [''a/b''] \<and> AvailableModelCount None (Some two_names) = 2"
proof -
  have c: "canonicalModelID ''/models/a--b'' = ''a/b''" "canonicalModelID ''a/b'' = ''a/b''" by code_simp+
  have g: "rg_gate two_names = False" by (simp add: two_names_def live_fleet_eq)
  show ?thesis
    by (simp add: handleModels_def list_models_def two_names_worker g routable_state_def live_worker_props routableModels_def c
      AvailableModelCount_def resolveModels_def claimed_ids_def available_ids_def resolve_model_def Let_def)
qed

text \<open>The listing does not ask for bans: the model of a fleet that is banned is listed, and no request reaches it.\<close>

definition banned_fleet :: registry where
  "banned_fleet = snd (SetBan True ''w1'' 100 ''fraud'' (live_fleet False))"

lemma banned_fleet_list: "ListWorkers banned_fleet = [live_worker\<lparr>wk_bannedUntil := 100, wk_banReason := ''fraud''\<rparr>]"
  by (simp add: ListWorkers_def banned_fleet_def SetBan_def live_fleet_eq fleet_simps snapshot_def inflight_of_def live_worker_props)

theorem banned_models_are_listed:
  "handleModels ''GET'' (Some e) banned_fleet = Answer [''m''] \<and> selectWorkerForModel banned_fleet 50 u model ex factor = None"
proof -
  have c: "canonicalModelID ''m'' = ''m''" by code_simp
  have g: "rg_gate banned_fleet = False" by (simp add: banned_fleet_def SetBan_def live_fleet_eq saveToDisk_def put_worker_def)
  have "selectWorkerForModel banned_fleet 50 u model ex factor = None"
    unfolding selectWorkerForModel_def select_None banned_fleet_list by (simp add: admitted_def IsBanned_def live_worker_props)
  then show ?thesis
    by (simp add: handleModels_def list_models_def banned_fleet_list g routable_state_def live_worker_props routableModels_def c Let_def)
qed

section \<open>Displayed and billed prices\<close>

text \<open>
  The resolver takes the whole catalog entry of a model or of the default, the biller falls back for each price alone. With an
  entry that names only the context window the client is shown the output price for its input and is billed the default's.
\<close>

definition windowed_config :: settlement_config where
  "windowed_config = zero_config\<lparr>cfg_ModelPricesUSD := Some [(''default'', DecText 20 0)],
     cfg_ModelCatalog := Some [(''default'', \<lparr>mi_input = DecText 1 0, mi_cache_read = NoText, mi_context_window = 0, mi_max_output = 0\<rparr>),
       (''m'', \<lparr>mi_input = NoText, mi_cache_read = NoText, mi_context_window = 8192, mi_max_output = 0\<rparr>)]\<rparr>"

theorem displayed_input_is_not_billed:
  "rm_input (resolve_model (Some windowed_config) avail ''m'') = DecText 20 0 \<and>
   lookupPrice (fst (ParseCatalogPrices (the (cfg_ModelCatalog windowed_config)))) ''m'' = parsePerToken (DecText 1 0)"
  by (simp add: windowed_config_def zero_config_def resolve_model_def catOf_def priceOf_def lookupPrice_def ParseCatalogPrices_def
      parse_rates_def parsePerToken_def ParseFloat_def Let_def)

end
