(* ===== verification/WebUi.thy ===== *)
theory WebUi
  imports Catalog
begin

text \<open>
  What the gateway serves to the browser (\<open>gateway/webui.go\<close>, \<open>handleKeysMessage\<close> of \<open>gateway/keys.go\<close>): the routes of the
  embedded files, the public configuration, and the texts a wallet signs. The contents of the files and the display data of
  the two chains are left out; JSON encoding is the identity.
\<close>

section \<open>The embedded files\<close>

definition web_asset :: "string \<Rightarrow> string \<Rightarrow> string client_answer" where
  "web_asset method path =
     (if method \<noteq> ''GET'' \<and> method \<noteq> ''HEAD'' then ClientError 405
      else if path = ''/'' \<or> path = ''/index.html'' then Answer ''index.html''
      else if path = ''/app.js'' \<or> path = ''/style.css'' \<or> path = ''/favicon.svg'' then Answer (TrimPrefix path ''/'')
      else ClientError 404)"

section \<open>The public configuration\<close>

definition webTokens :: "settlement_config option \<Rightarrow> token_config list" where
  "webTokens cfg =
     \<lparr>tok_symbol = ''FIL'', tok_address = nativeToken, tok_decimals = 18\<rparr> #
     (case cfg of None \<Rightarrow> [] | Some c \<Rightarrow> filter (\<lambda>t. tok_symbol t \<noteq> ''FIL'') (cfg_SupportedTokens c))"

text \<open>The chains that come with display data and a faucet.\<close>

definition chainPresets :: "int list" where "chainPresets = [314, 314159]"
definition faucetURLs :: "(int \<times> string) list" where "faucetURLs = [(314159, ''https://faucet.calibnet.chainsafe-fil.io'')]"

record web_settlement =
  ws_chainID :: int
  ws_contract :: string
  ws_preset :: bool
  ws_faucet :: "string option"
  ws_defaultOutput :: "usd_text option"
  ws_defaultInput :: "(usd_text \<times> usd_text) option"
  ws_models :: "resolved_model list"
  ws_filPrice :: "bigfloat option"

record web_config =
  wc_publicQueryURL :: string
  wc_tokens :: "token_config list"
  wc_settlement :: "web_settlement option"

definition trim_slashes :: "string \<Rightarrow> string" where
  "trim_slashes s = rev (dropWhile (\<lambda>c. c = CHR ''/'') (rev s))"

definition handleWebConfig ::
  "string \<Rightarrow> string \<Rightarrow> settlement_config option \<Rightarrow> registry option \<Rightarrow> bigfloat option \<Rightarrow> web_config client_answer" where
  "handleWebConfig method publicQueryURL cfg reg filPrice =
     (if method \<noteq> ''GET'' then ClientError 405
      else Answer \<lparr>wc_publicQueryURL = trim_slashes publicQueryURL, wc_tokens = webTokens cfg,
        wc_settlement = map_option (\<lambda>c.
          \<lparr>ws_chainID = cfg_ChainID c, ws_contract = cfg_ContractAddress c, ws_preset = (cfg_ChainID c \<in> set chainPresets),
           ws_faucet = alookup faucetURLs (cfg_ChainID c),
           ws_defaultOutput = (case cfg_ModelPricesUSD c of None \<Rightarrow> None | Some m \<Rightarrow> alookup m ''default''),
           ws_defaultInput = (case cfg_ModelCatalog c of None \<Rightarrow> None
             | Some m \<Rightarrow> map_option (\<lambda>i. (mi_input i, mi_cache_read i)) (alookup m ''default'')),
           ws_models = resolveModels cfg reg,
           ws_filPrice = (case filPrice of Some p \<Rightarrow> if bf_sign p > 0 then Some p else None | None \<Rightarrow> None)\<rparr>) cfg\<rparr>)"

section \<open>The texts to sign\<close>

definition time_now_Unix :: "gotime \<Rightarrow> int" where
  "time_now_Unix now = now div second - unix_epoch"

definition handleRegisterMessage :: "key_env \<Rightarrow> string \<Rightarrow> string \<Rightarrow> gotime \<Rightarrow> (string \<times> int \<times> string) client_answer" where
  "handleRegisterMessage env method wallet now =
     (if method \<noteq> ''GET'' then ClientError 405
      else if \<not> kv_ishex env wallet then ClientError 400
      else let canonical = kv_hexa env wallet; issuedAt = time_now_Unix now
           in Answer (canonical, issuedAt, registrationMessage canonical issuedAt))"

record keys_message =
  km_wallet :: string
  km_action :: string
  km_issuedAt :: int
  km_name :: string
  km_keyID :: string
  km_message :: string

definition handleKeysMessage ::
  "key_env \<Rightarrow> string \<Rightarrow> string \<Rightarrow> string \<Rightarrow> string \<Rightarrow> string \<Rightarrow> gotime \<Rightarrow> keys_message client_answer" where
  "handleKeysMessage env method action wallet nm kid now =
     (if method \<noteq> ''GET'' then ClientError 405
      else if \<not> validKeysAction action then ClientError 400
      else if \<not> kv_ishex env wallet then ClientError 400
      else let canonical = kv_hexa env wallet; name = TrimSpace nm; keyID = TrimSpace kid
           in if action = ''delete'' \<and> keyID = '''' then ClientError 400
              else let issuedAt = time_now_Unix now
                   in Answer \<lparr>km_wallet = canonical, km_action = action, km_issuedAt = issuedAt, km_name = name, km_keyID = keyID,
                        km_message = keyManagementMessage action canonical issuedAt name keyID\<rparr>)"

section \<open>The served text is the text that is checked\<close>

text \<open>A moment after 1970 that fits into 64 bits of seconds, and one up to a second less than the window later.\<close>

definition in_window :: "gotime \<Rightarrow> gotime \<Rightarrow> bool" where
  "in_window now t \<longleftrightarrow> (unix_epoch + 1) * second \<le> now \<and> now < 2 ^ 62 * second \<and> now \<le> t \<and> t + second \<le> now + registrationWindow"

lemma served_time_is_fresh:
  assumes "in_window now t"
  shows "fresh_enough t (time_now_Unix now)"
proof -
  have s: "second = 1000000000" by (simp add: second_def)
  define q where "q = now div 1000000000"
  have q: "1000000000 * q \<le> now" "now < 1000000000 * q + 1000000000" by (simp_all add: q_def)
  have "unix_epoch < q" "q < 2 ^ 62" using assms q by (simp_all add: in_window_def s unix_epoch_def)
  then have u: "time_Unix (time_now_Unix now) = q * second" "time_now_Unix now \<noteq> 0"
    by (simp_all add: time_Unix_def time_now_Unix_def wrap64_def s q_def unix_epoch_def)
  have "0 \<le> t - q * second" "t - q * second \<le> registrationWindow" using assms q by (simp_all add: in_window_def s)
  moreover from this have "time_Sub t (q * second) = t - q * second" by (simp add: time_Sub_def registrationWindow_def minute_def s)
  ultimately show ?thesis using u by (simp add: fresh_enough_def Let_def)
qed

lemma new_key_is_stored:
  assumes "kv_keyBytes env = Some kb" "kv_idBytes env = Some ib" "kv_writes env"
  shows "\<exists>rec ks'. createKey env wallet name now ks = Some (''sk-om-'' @ hex_encode kb, rec, ks') \<and>
    alookup (ks_keys ks') (hashKey (''sk-om-'' @ hex_encode kb)) =
      Some \<lparr>ke_name = name, ke_wallet = wallet, ke_id = ''k-'' @ hex_encode ib, ke_static = False\<rparr>"
  using assms by (simp add: createKey_def generateAPIKey_def generateKeyID_def appendRegistration_def writeRegistrationsFile_def
      Let_def case_prod_beta)

lemma key_is_trimmed: "TrimSpace (''sk-om-'' @ hex_encode b) = ''sk-om-'' @ hex_encode b"
proof -
  have c: "\<not> is_space c" if m: "c \<in> set (hex_encode b)" for c
  proof -
    obtain n where "n < 16" "c = hex_digit n" using hex_encode_chars [OF m] by blast
    then show ?thesis using hex_digit_facts [of n] by simp
  qed
  have r: "dropWhile is_space (rev (hex_encode b) @ zs) = rev (hex_encode b) @ zs" if "\<not> is_space (hd zs)" "zs \<noteq> []" for zs
  proof -
    have "\<not> is_space (hd (rev (hex_encode b) @ zs))"
    proof (cases "hex_encode b = []")
      case False
      then have "hd (rev (hex_encode b)) \<in> set (hex_encode b)" by (metis hd_in_set rev_is_Nil_conv set_rev)
      then show ?thesis using c False by (simp add: hd_append)
    qed (simp add: that)
    then show ?thesis using that(2) by (cases "rev (hex_encode b) @ zs") simp_all
  qed
  have "\<not> is_space CHR ''s''" "\<not> is_space CHR ''-''" by (simp_all add: is_space_def)
  then show ?thesis using r [of "rev ''sk-om-''"] by (simp add: TrimSpace_def)
qed

text \<open>
  Whoever signs the text that the gateway serves for a wallet and sends it within the window is registered, and the key it
  gets is let in for that wallet: if the signature is new, the wallet has no key yet, and random bytes and disk are there.
\<close>

theorem served_text_registers:
  assumes "handleRegisterMessage env ''GET'' wallet now = Answer (canonical, issuedAt, msg)" "in_window now t"
    and "verifyEthSignature (kv_recover env) msg sg canonical"
    and "alookup (ks_seen (pruneSeenSigs t ks)) (sig_key sg) = None" "\<not> walletAlreadyRegistered canonical ks"
    and "kv_keyBytes env = Some kb" "kv_idBytes env = Some ib" "kv_writes env"
  shows "\<exists>name ks' bc'. handleRegister env True t
      (Some \<lparr>rr_wallet_hex = wallet, rr_issuedAt = issuedAt, rr_signature = sg, rr_keyname = nm\<rparr>) (ks, bc) =
        (Registered (''sk-om-'' @ hex_encode kb) canonical name, ks', bc') \<and>
    authenticate True (''Bearer sk-om-'' @ hex_encode kb) ks' =
      Some \<lparr>ke_name = name, ke_wallet = canonical, ke_id = ''k-'' @ hex_encode ib, ke_static = False\<rparr>"
proof -
  let ?name = "if TrimSpace nm = '''' then ''user-'' @ ToLower (take 6 (drop 2 canonical)) else TrimSpace nm"
  have m: "kv_ishex env wallet" "canonical = kv_hexa env wallet" "issuedAt = time_now_Unix now" "msg = registrationMessage canonical issuedAt"
    using assms(1) by (auto simp: handleRegisterMessage_def Let_def split: if_splits)
  obtain rec ks' where c: "createKey env canonical ?name t (pruneSeenSigs t ks) = Some (''sk-om-'' @ hex_encode kb, rec, ks')"
      "alookup (ks_keys ks') (hashKey (''sk-om-'' @ hex_encode kb)) =
        Some \<lparr>ke_name = ?name, ke_wallet = canonical, ke_id = ''k-'' @ hex_encode ib, ke_static = False\<rparr>"
    using new_key_is_stored [OF assms(6,7,8)] by blast
  have w: "\<not> walletAlreadyRegistered canonical (pruneSeenSigs t ks)"
    using assms(5) by (simp add: walletAlreadyRegistered_def pruneSeenSigs_def)
  have "handleRegister env True t (Some \<lparr>rr_wallet_hex = wallet, rr_issuedAt = issuedAt, rr_signature = sg, rr_keyname = nm\<rparr>) (ks, bc) =
      (Registered (''sk-om-'' @ hex_encode kb) canonical ?name, ks'\<lparr>ks_seen := aput (sig_key sg) (t + registrationWindow) (ks_seen ks')\<rparr>,
       map_option (AddWallet EqualFold canonical) bc)"
    using m(1) served_time_is_fresh [OF assms(2)] assms(3,4) w c(1) by (simp add: Keys.handleRegister_def Let_def m(2) [symmetric] m(3,4) split del: if_split)
  moreover have "authenticate True (''Bearer sk-om-'' @ hex_encode kb) k = alookup (ks_keys k) (hashKey (''sk-om-'' @ hex_encode kb))" for k
    using TrimPrefix_append [of "''Bearer ''" "''sk-om-'' @ hex_encode kb"] key_is_trimmed [of kb] by (simp add: authenticate_def)
  ultimately show ?thesis using c(2) by (auto simp del: append.simps split del: if_split)
qed

text \<open>The served text of a key-management action is the one its request is checked against.\<close>

theorem served_action_is_accepted:
  assumes "handleKeysMessage env ''GET'' action wallet nm kid now = Answer m" "in_window now t"
    and "verifyEthSignature (kv_recover env) (km_message m) sg (km_wallet m)"
    and "alookup (ks_seen (pruneSeenSigs t ks)) (sig_key sg) = None"
  shows "handleKeys env True t (Some \<lparr>kq_wallet = wallet, kq_action = action, kq_issuedAt = km_issuedAt m, kq_signature = sg,
      kq_name = nm, kq_keyID = kid\<rparr>) (ks, bc) =
    keysAction env action (km_wallet m) (km_name m) (km_keyID m) t
      ((pruneSeenSigs t ks)\<lparr>ks_seen := aput (sig_key sg) (t + registrationWindow) (ks_seen (pruneSeenSigs t ks))\<rparr>, bc)"
proof -
  have m: "validKeysAction action" "kv_ishex env wallet" "\<not> (action = ''delete'' \<and> TrimSpace kid = '''')"
    "m = \<lparr>km_wallet = kv_hexa env wallet, km_action = action, km_issuedAt = time_now_Unix now, km_name = TrimSpace nm,
      km_keyID = TrimSpace kid, km_message = keyManagementMessage action (kv_hexa env wallet) (time_now_Unix now) (TrimSpace nm) (TrimSpace kid)\<rparr>"
    using assms(1) by (auto simp: handleKeysMessage_def Let_def split: if_splits)
  show ?thesis using assms(2-) m served_time_is_fresh [OF assms(2)] by (auto simp: handleKeys_def Let_def)
qed

section \<open>A concrete text\<close>

lemma sample_window: "in_window sample_time (sample_time + minute)"
  by (simp add: in_window_def sample_time_def unix_epoch_def second_def minute_def registrationWindow_def)

lemma sample_unix: "time_now_Unix sample_time = 100"
  by (simp add: time_now_Unix_def sample_time_def second_def)

theorem served_text_registers_witness:
  "\<exists>name ks' bc'. handleRegister Keys.sample_env True (sample_time + minute)
      (Some \<lparr>rr_wallet_hex = ''0xaa'', rr_issuedAt = 100, rr_signature = sample_sig, rr_keyname = ''''\<rparr>) (no_keys, None) =
        (Registered (''sk-om-'' @ hex_encode ''k'') ''0xaa'' name, ks', bc') \<and>
    authenticate True (''Bearer sk-om-'' @ hex_encode ''k'') ks' =
      Some \<lparr>ke_name = name, ke_wallet = ''0xaa'', ke_id = ''k-'' @ hex_encode ''i'', ke_static = False\<rparr>"
proof (rule served_text_registers [OF _ sample_window])
  show "handleRegisterMessage Keys.sample_env ''GET'' ''0xaa'' sample_time = Answer (''0xaa'', 100, registrationMessage ''0xaa'' 100)"
    by (simp add: handleRegisterMessage_def Keys.sample_env_def sample_unix Let_def)
  show "verifyEthSignature (kv_recover Keys.sample_env) (registrationMessage ''0xaa'' 100) sample_sig ''0xaa''"
    by (simp add: Keys.sample_env_def sample_signature)
qed (simp_all add: Keys.sample_env_def no_keys_def new_keystore_def loadRegistrationsFile_def pruneSeenSigs_def walletAlreadyRegistered_def)

theorem served_action_is_accepted_witness:
  "fst (handleKeys Keys.sample_env True (sample_time + minute) (Some \<lparr>kq_wallet = ''0xaa'', kq_action = ''list'', kq_issuedAt = 100,
      kq_signature = sample_sig, kq_name = '''', kq_keyID = ''''\<rparr>) (no_keys, None)) = Listed []"
proof -
  let ?m = "\<lparr>km_wallet = ''0xaa'', km_action = ''list'', km_issuedAt = 100, km_name = '''', km_keyID = '''',
    km_message = keyManagementMessage ''list'' ''0xaa'' 100 '''' ''''\<rparr>"
  have trim: "TrimSpace '''' = ''''" by (simp add: TrimSpace_def)
  have m: "handleKeysMessage Keys.sample_env ''GET'' ''list'' ''0xaa'' '''' '''' sample_time = Answer ?m"
    by (simp add: handleKeysMessage_def Keys.sample_env_def sample_unix validKeysAction_def trim Let_def)
  have v: "verifyEthSignature (kv_recover Keys.sample_env) (km_message ?m) sample_sig (km_wallet ?m)"
    by (simp add: Keys.sample_env_def sample_signature)
  have n: "alookup (ks_seen (pruneSeenSigs (sample_time + minute) no_keys)) (sig_key sample_sig) = None"
    by (simp add: no_keys_def new_keystore_def loadRegistrationsFile_def pruneSeenSigs_def)
  show ?thesis
    using served_action_is_accepted [OF m sample_window v n, of None]
    by (simp add: keysAction_def keysList_def no_keys_def new_keystore_def loadRegistrationsFile_def pruneSeenSigs_def)
qed

end
