(* ===== verification/Operator.thy ===== *)
theory Operator
  imports SettlementApi
begin

text \<open>
  The operator's tools: the command line client (\<open>cmd/settlement-cli/main.go\<close>), and the gauges per worker
  (\<open>health/health.go\<close>). The transport of a call, and how answers are printed, are left out.
\<close>

section \<open>The command line client\<close>

datatype api_call = ApiGet string | ApiPost string | ApiPut string string

text \<open>What a command asks of the admin API; the errors end the program with status 1.\<close>

datatype cli_plan = NoCommand | UnknownCommand string | UsageError | Calls "api_call list"

definition sp_detail_path :: "string list \<Rightarrow> string" where
  "sp_detail_path args =
     (let q = (if length args \<ge> 2 \<and> args ! 1 \<noteq> '''' then ''since='' @ args ! 1 else '''');
          q = (if length args \<ge> 3 \<and> args ! 2 \<noteq> '''' then (if q \<noteq> '''' then q @ ''&'' else q) @ ''limit='' @ args ! 2 else q)
      in ''/api/v1/sp-earnings-detail/'' @ args ! 0 @ (if q \<noteq> '''' then ''?'' @ q else ''''))"

definition price_body :: "string \<Rightarrow> string" where
  "price_body p = [CHR 0x7B, CHR 0x22] @ ''fil_price_usd'' @ [CHR 0x22, CHR '':'', CHR 0x22] @ p @ [CHR 0x22, CHR 0x7D]"

definition plan_of :: "string list \<Rightarrow> cli_plan" where
  "plan_of argv =
     (case argv of
        [] \<Rightarrow> NoCommand
      | cmd # args \<Rightarrow>
          if cmd = ''balance'' then (if length args < 1 then UsageError else Calls [ApiGet (''/api/v1/balances/'' @ args ! 0)])
          else if cmd = ''balances'' then Calls [ApiGet ''/api/v1/balances'']
          else if cmd = ''earnings'' then (if length args < 1 then UsageError else Calls [ApiGet (''/api/v1/revenue/'' @ args ! 0)])
          else if cmd = ''revenue'' then Calls [ApiGet ''/api/v1/revenue'']
          else if cmd = ''settlements'' then Calls [ApiGet ''/api/v1/settlements'']
          else if cmd = ''verify'' then (if length args < 1 then UsageError else Calls [ApiGet (''/api/v1/settlements/'' @ args ! 0)])
          else if cmd = ''settle-now'' then Calls [ApiPost ''/api/v1/settle-now'']
          else if cmd = ''operator-balance'' then Calls [ApiGet ''/api/v1/operator-balance'']
          else if cmd = ''fil-price'' then
            (if length args \<ge> 2 \<and> args ! 0 = ''set'' then Calls [ApiPut ''/api/v1/fil-price'' (price_body (args ! 1))]
             else Calls [ApiGet ''/api/v1/fil-price''])
          else if cmd = ''revenue-report'' then
            Calls [ApiGet ''/api/v1/fil-price'', ApiGet ''/api/v1/operator-balance'', ApiGet ''/api/v1/revenue'',
              ApiGet ''/api/v1/balances'', ApiGet ''/api/v1/settlements'']
          else if cmd = ''sp-detail'' then (if length args < 1 then UsageError else Calls [ApiGet (sp_detail_path args)])
          else UnknownCommand cmd)"

definition adminURL :: "string \<Rightarrow> string" where
  "adminURL env = (if env = '''' then ''http://localhost:9091'' else env)"

text \<open>The header of a call and what the client makes of the answer.\<close>

definition auth_header :: "string \<Rightarrow> string" where
  "auth_header tok = (if tok \<noteq> '''' then ''Bearer '' @ tok else '''')"

definition apiRequest :: "'b reply \<Rightarrow> nat + 'b" where
  "apiRequest r = (case r of Fail n \<Rightarrow> Inl n | Reply n b \<Rightarrow> if n \<ge> 400 then Inl n else Inr b)"

datatype verdict = VerdictOK | NoLocalRecord | OKOnChain | NotProcessed | NothingFound

definition settlementVerdict :: "settle_body \<Rightarrow> verdict" where
  "settlementVerdict resp =
     (let (processed, hasLocal, localFound) =
        (case resp of BatchBody n rec p la \<Rightarrow> (p, la \<noteq> None, (case la of Some (Some _) \<Rightarrow> True | _ \<Rightarrow> False)) | _ \<Rightarrow> (False, False, False))
      in if processed \<and> localFound then VerdictOK
         else if processed \<and> hasLocal \<and> \<not> localFound then NoLocalRecord
         else if processed \<and> \<not> hasLocal then OKOnChain
         else if \<not> processed \<and> localFound then NotProcessed
         else NothingFound)"

text \<open>\<open>verify\<close>: the call to the API and the verdict on its answer.\<close>

definition cmdVerify :: "chain_view \<Rightarrow> audit_row list option \<Rightarrow> string \<Rightarrow> nat + verdict" where
  "cmdVerify c audit bid =
     (case apiRequest (handleSettlementByID c audit ''GET'' (''/api/v1/settlements/'' @ bid)) of
        Inl n \<Rightarrow> Inl n
      | Inr b \<Rightarrow> Inr (settlementVerdict b))"

section \<open>Gauges\<close>

record gauges =
  ga_workers :: "(string \<times> int) list"
  ga_failures :: "(string \<times> int) list"
  ga_known :: "string list"

definition no_gauges :: gauges where
  "no_gauges = \<lparr>ga_workers = [], ga_failures = [], ga_known = []\<rparr>"

definition UpdateMetrics :: "registry \<Rightarrow> gauges \<Rightarrow> gauges" where
  "UpdateMetrics r g =
     (let s = Stats r; ws = ListWorkers r; current = List.map wk_id ws;
          failures = fold (\<lambda>w m. aput (wk_id w) (wk_failures w) m) ws (ga_failures g)
      in \<lparr>ga_workers = [(''idle'', int (fs_idle s)), (''busy'', int (fs_busy s)), (''mining'', int (fs_mining s)),
            (''loading'', int (fs_loading s)), (''offline'', int (fs_offline s))],
          ga_failures = fold adel (filter (\<lambda>i. i \<notin> set current) (ga_known g)) failures,
          ga_known = current\<rparr>)"

section \<open>What OK means\<close>

lemma found_row:
  assumes "FindSettlementByHash rs h = Some row"
  shows "row \<in> set rs \<and> ToLower (TrimPrefix (au_hash row) ''0x'') = ToLower (TrimPrefix h ''0x'')"
  using assms by (auto simp: FindSettlementByHash_def find_Some_iff Let_def)

text \<open>
  The verdict OK on a batch: its number is one the chain has given out, the chain says that its hash is processed, and the
  local audit log has a row with that hash.
\<close>

theorem verify_ok_is_matched:
  assumes "cmdVerify c audit bid = Inr VerdictOK"
  shows "\<exists>n nonce rec rs row. ParseUint64 (path_rest ''/api/v1/settlements/'' (''/api/v1/settlements/'' @ bid)) = Some n \<and>
    0 < n \<and> cv_nonce c = Some nonce \<and> n \<le> nonce \<and> cv_settlement c n = Some rec \<and> cv_processed c (oc_hash rec) = Some True \<and>
    audit = Some rs \<and> row \<in> set rs \<and>
    ToLower (TrimPrefix (au_hash row) ''0x'') = ToLower (TrimPrefix (''0x'' @ hex_encode (oc_hash rec)) ''0x'')"
  using assms
  by (auto simp: cmdVerify_def apiRequest_def handleSettlementByID_def settlementVerdict_def Let_def
      simp del: append.simps dest!: found_row split: if_splits option.splits)

text \<open>A query of the processed flag that fails is taken for a batch that is not processed.\<close>

theorem failed_query_is_an_alarm:
  assumes "ParseUint64 (path_rest ''/api/v1/settlements/'' (''/api/v1/settlements/'' @ bid)) = Some n" "0 < n" "cv_nonce c = Some nonce"
    and "n \<le> nonce" "cv_settlement c n = Some rec" "cv_processed c (oc_hash rec) = None"
    and "FindSettlementByHash rs (''0x'' @ hex_encode (oc_hash rec)) = Some row"
  shows "cmdVerify c (Some rs) bid = Inr NotProcessed"
  using assms by (simp add: cmdVerify_def apiRequest_def handleSettlementByID_def settlementVerdict_def Let_def)

section \<open>The gauges follow the fleet\<close>

lemma failures_labels:
  "set (akeys (fold (\<lambda>w m. aput (wk_id w) (wk_failures w) m) ws m)) = set (akeys m) \<union> wk_id ` set ws"
  by (induction ws arbitrary: m) auto

lemma deleted_labels: "set (akeys (fold adel ids m)) = set (akeys m) - set ids"
  by (induction ids arbitrary: m) auto

lemma UpdateMetrics_labels:
  "set (akeys (ga_failures g)) = set (ga_known g) \<Longrightarrow>
   set (akeys (ga_failures (UpdateMetrics r g))) = wk_id ` set (ListWorkers r) \<and> set (ga_known (UpdateMetrics r g)) = wk_id ` set (ListWorkers r)"
  by (auto simp: UpdateMetrics_def Let_def failures_labels deleted_labels)

text \<open>After every update the gauges of failures are labelled with the workers of the registry, and no others.\<close>

theorem gauges_follow_fleet:
  "set (akeys (ga_failures (fold UpdateMetrics (rs @ [r]) no_gauges))) = wk_id ` set (ListWorkers r)"
proof -
  have "set (akeys (ga_failures (fold UpdateMetrics rs g))) = set (ga_known (fold UpdateMetrics rs g))"
    if "set (akeys (ga_failures g)) = set (ga_known g)" for g
    using that UpdateMetrics_labels by (induction rs arbitrary: g) auto
  from this [of no_gauges] show ?thesis using UpdateMetrics_labels by (simp add: no_gauges_def)
qed

section \<open>A concrete batch\<close>

definition sample_chain :: "bool option \<Rightarrow> chain_view" where
  "sample_chain p = \<lparr>cv_userBalance = (\<lambda>_ _. None), cv_spEarnings = (\<lambda>_ _. None), cv_v11 = False, cv_totalEarnings = (\<lambda>_ _. None),
     cv_frozen = (\<lambda>_ _. None), cv_withdrawable = (\<lambda>_ _. None), cv_nonce = Some 7,
     cv_settlement = (\<lambda>_. Some \<lparr>oc_hash = [CHR 0x01], oc_total = None, oc_settled = None, oc_failed = None, oc_time = None,
       oc_requests = None, oc_tokens = None\<rparr>), cv_processed = (\<lambda>_. p), cv_operatorBalance = None, cv_operatorAddress = '''', cv_feeBps = None, cv_cumulative = None\<rparr>"

definition sample_audit :: "audit_row list" where
  "sample_audit = [\<lparr>au_tx = ''0xt'', au_block = 1, au_gas = 1, au_items = 1, au_hash = ''0x01'', au_at = 0\<rparr>]"

lemma sample_batch:
  "ParseUint64 (path_rest ''/api/v1/settlements/'' (''/api/v1/settlements/'' @ ''3'')) = Some 3"
  "FindSettlementByHash sample_audit (''0x'' @ hex_encode [CHR 0x01]) = Some (hd sample_audit)"
proof -
  have "path_rest ''/api/v1/settlements/'' (''/api/v1/settlements/'' @ ''3'') = ''3''" "parse_nat ''3'' = Some 3" by code_simp+
  then show "ParseUint64 (path_rest ''/api/v1/settlements/'' (''/api/v1/settlements/'' @ ''3'')) = Some 3" by (simp add: ParseUint64_def)
  show "FindSettlementByHash sample_audit (''0x'' @ hex_encode [CHR 0x01]) = Some (hd sample_audit)" by code_simp
qed

theorem verify_ok_is_matched_witness:
  "\<exists>rec rs. cv_settlement (sample_chain (Some True)) 3 = Some rec \<and> cv_processed (sample_chain (Some True)) (oc_hash rec) = Some True \<and>
    Some sample_audit = Some rs"
proof -
  have "cmdVerify (sample_chain (Some True)) (Some sample_audit) ''3'' = Inr VerdictOK"
    using sample_batch
    by (simp add: cmdVerify_def apiRequest_def handleSettlementByID_def settlementVerdict_def sample_chain_def Let_def)
  from verify_ok_is_matched [OF this] show ?thesis using sample_batch(1) by auto
qed

theorem failed_query_is_an_alarm_witness:
  "cmdVerify (sample_chain None) (Some sample_audit) ''3'' = Inr NotProcessed"
proof (rule failed_query_is_an_alarm [OF sample_batch(1)])
  show "cv_settlement (sample_chain None) 3 = Some \<lparr>oc_hash = [CHR 0x01], oc_total = None, oc_settled = None, oc_failed = None,
      oc_time = None, oc_requests = None, oc_tokens = None\<rparr>"
    by (simp add: sample_chain_def)
  show "cv_nonce (sample_chain None) = Some 7" by (simp add: sample_chain_def)
  show "FindSettlementByHash sample_audit (''0x'' @ hex_encode (oc_hash \<lparr>oc_hash = [CHR 0x01], oc_total = None, oc_settled = None,
      oc_failed = None, oc_time = None, oc_requests = None, oc_tokens = None\<rparr>)) = Some (hd sample_audit)"
    unfolding on_chain.simps by (rule sample_batch)
qed (simp_all add: sample_chain_def)

end
