(* ===== verification/Spec2Isabelle.thy ===== *)
theory Spec2Isabelle
  imports Cycle Config Proxy Usage Sampler Keys SpRegister SpDetail SettlementApi Migrate Startup WebUi Operator
begin

text \<open>
  Verification library of the OpenModel gateway, the Go program under \<open>src/src\<close>. Paths below are relative to
  \<open>src/src/internal\<close> unless they begin with \<open>cmd\<close>.

  \<^bold>\<open>The program.\<close> A gateway takes inference requests over HTTP, authenticates them by API key, checks the credit of the key's
  wallet, forwards them to one of a fleet of workers, meters the answer and writes a row into the request log. A settlement
  engine reads that log, turns rows into amounts of tokens, sends them in batches to a contract on the Filecoin chain, and
  keeps receipts that a client can check against the chain. Workers are polled, probed for the models they claim, banned when they
  fail, and can register themselves by proving control of a storage miner. Operators use an admin API, a command line
  client, a public read-only API and reports over the same files.

  \<^bold>\<open>How the parts meet.\<close> The request log connects the gateway (\<open>RequestLog\<close>, written by \<open>Gateway\<close>) to settlement
  (\<open>Scanner\<close>, read by \<open>Settler\<close>, \<open>Reconcile\<close>, \<open>Reports\<close>, \<open>SpDetail\<close>). The ledger of unsettled spending (\<open>Balance\<close>) is raised by the
  gateway (\<open>Proxy\<close>) and lowered by the settler. One billing formula (\<open>Aggregator\<close>) prices for both. The fleet (\<open>Registry\<close>) is
  changed by the poller, the auditor, registration and the admin API, and read by the router. The frozen plan (\<open>Wal\<close>) makes a
  settlement cycle restartable; its batches are what the receipt store serves proofs from.

  \<^bold>\<open>Conventions.\<close> A struct is a record with the source's fields, an enumeration a datatype. A \<open>time.Time\<close> is the number of
  nanoseconds since the year 1 (\<open>gotime\<close>), a \<open>time.Duration\<close> an \<open>int\<close> with \<open>wrap64\<close> where it can overflow (\<open>Seconds\<close> for a configured
  or reported number of seconds); machine integers are
  \<open>int\<close> with the wrap-around written out where a computation can reach it, SHA-256 is over \<open>32 word\<close>. \<open>math/big\<close> floats and float64
  values are \<open>bigfloat\<close>s with Go's rounding (\<open>GoFloat\<close>); \<open>bf_val\<close> is the rational they stand for. A Go map is an association
  list with \<open>alookup\<close>, \<open>aput\<close> and \<open>adel\<close> where it is ranged over, in the order of that range, and a HOL map where it is only looked
  up. A file of JSON lines is a list of its lines with their lengths in bytes. An error return is \<open>Inl\<close> of an error datatype or
  \<open>None\<close>; a handler returns its status code and the new state. Each operation is atomic where the source holds a mutex over it;
  where it uses atomics or releases the lock in between, the interleavings are a step relation or a state-changing argument.
\<close>

text \<open>
  \<^bold>\<open>Theories and what they model.\<close>

  Foundations: \<open>Prelude\<close> (vocabulary, association lists, the collections \<open>bf_simps\<close>, \<open>ledger_simps\<close>, \<open>fleet_simps\<close>), \<open>GoFloat\<close>, \<open>GoStrings\<close>,
  \<open>GoJson\<close> (what the source uses of \<open>math/big\<close>, \<open>strings\<close>, \<open>encoding/json\<close>), \<open>Sha256\<close>, \<open>Types\<close> (rows and configuration).

  Settlement: \<open>Config\<close> (\<open>settlement/config.go\<close>), \<open>Pricer\<close> (\<open>pricer.go\<close>), \<open>Aggregator\<close> (\<open>aggregator.go\<close>), \<open>Balance\<close> (\<open>balance.go\<close>), \<open>Scanner\<close>
  (\<open>scanner.go\<close>), \<open>Merkle\<close> (\<open>merkle.go\<close>), \<open>Wal\<close> and \<open>Settler\<close> (\<open>settler.go\<close>), \<open>Contract\<close> (\<open>contract.go\<close>), \<open>ReceiptStore\<close> (\<open>merkle_store.go\<close> and
  the ledgers of \<open>settler.go\<close>), \<open>Cycle\<close> (the cycle over the contract client), \<open>Reconcile\<close> (\<open>reconcile.go\<close>), \<open>Reports\<close> (\<open>statecheck.go\<close>,
  \<open>receipt_status.go\<close>, \<open>publicstats.go\<close>), \<open>SpDetail\<close> (\<open>sp_detail.go\<close>), \<open>Migrate\<close> (\<open>migrate.go\<close>, \<open>cmd/merkle-migrate\<close>).

  Fleet: \<open>Registry\<close> (\<open>worker/state.go\<close>, \<open>worker/registry.go\<close>), \<open>Poller\<close> (\<open>worker/poller.go\<close>), \<open>Router\<close> (\<open>gateway/router.go\<close>), \<open>ProbeGen\<close>
  (\<open>gateway/probe_gen.go\<close>), \<open>Auditor\<close> (\<open>gateway/probe.go\<close>, \<open>gateway/workerself.go\<close>), \<open>Filecoin\<close> (\<open>filecoin\<close>), \<open>CertIssuer\<close>
  (\<open>gateway/certissuer.go\<close>), \<open>SpRegister\<close> and \<open>ClientAddr\<close> (\<open>gateway/spregister.go\<close>), \<open>Mtls\<close> (\<open>workermtls/factory.go\<close>).

  Gateway: \<open>RequestLog\<close> (\<open>gateway/requestlog.go\<close>), \<open>Keys\<close> (\<open>registration.go\<close>, \<open>keys.go\<close>), \<open>RateLimit\<close> (\<open>ratelimit.go\<close>), \<open>Session\<close>
  (\<open>session.go\<close>), \<open>Receipt\<close> (\<open>receipt.go\<close>), \<open>Sampler\<close> (\<open>verification.go\<close>), \<open>Usage\<close> (\<open>me.go\<close>), and the parts of \<open>gateway.go\<close>: \<open>Body\<close> (JSON bodies),
  \<open>WaitQueue\<close> (queue and drain), \<open>SseStream\<close> (the writer of a stream), \<open>Gateway\<close> (state and answers that are not streamed), \<open>StreamProxy\<close>
  (streams and their continuation), \<open>Proxy\<close> (the handler of a request), \<open>Catalog\<close> (models, prices, account), \<open>WebUi\<close> (\<open>webui.go\<close>).

  Around them: \<open>AdminApi\<close> (\<open>admin/api.go\<close>, \<open>auth.go\<close>, \<open>public.go\<close>), \<open>SettlementApi\<close> (\<open>admin/settlement_api.go\<close>, \<open>network_stats.go\<close>),
  \<open>Startup\<close> (\<open>config/config.go\<close>, \<open>cmd/agent\<close>), \<open>Operator\<close> (\<open>cmd/settlement-cli\<close>, \<open>health/health.go\<close>).

  \<^bold>\<open>Interfaces.\<close> \<open>prefix_code\<close> (\<open>GoJson\<close>): encoders whose words can be told apart, interpreted for JSON strings and for the hashed
  settlement items; the injectivity of hashed payloads rests on it. \<open>token_bucket\<close> (\<open>RateLimit\<close>): what a call may take out of a
  bucket, interpreted for the limiters of keys, of addresses (\<open>ClientAddr\<close>) and of the public server (\<open>AdminApi\<close>); the bounds on
  rates are proved once. \<open>billing_cost\<close> (\<open>Balance\<close>): what restart and reconciliation need of a price, interpreted for the
  aggregator's. The chain as the settler sees it is the record \<open>chain_ops\<close> with the laws \<open>chain_ok\<close>; the contract client satisfies
  them over any node with the laws \<open>node_ok\<close>.
\<close>

text \<open>
  \<^bold>\<open>What is shown.\<close>

  Each property states its conditions in the text before it, and names the theorem that shows what happens without them where
  there is one.

  Money: allocation over the tokens of a wallet conserves the owed amount and never pays twice from one balance; every row is
  in an item, in a debt or below one token unit; the bill of counts that are not negative is the exact split up to rounding; a reservation is
  corrected to what is billed, whatever other requests do before the row is written and before the correction (\<open>pr_others\<close>, \<open>pr_between\<close>);
  prices stay positive; the reconciler counts every row once.

  Durability: on a chain whose finality confirms successful receipts only, one cycle accounts for every record it read and books change only when a batch
  is durable on the chain; an interrupted
  cycle resumes; the indexed receipt store refines a search of its ledger over crashes and restarts, before and after the
  migration; proofs that are served verify, and only payloads of the batch have proofs, of whatever length.

  Streams: a specification of the protocol (\<open>SseStream\<close>: \<open>lines_of\<close>, \<open>kept_lines\<close>, \<open>all_texts\<close>), independent of the writer, fixes the client's bytes, the metered
  tokens and the text to continue from, for one write and over all segments of a continued stream; in filter mode writing in pieces does
  not matter; a continuation asks for exactly what has been delivered and for the tokens that have not.

  Fleet: a chosen worker is eligible (\<open>eligible\<close>, a specification of its own) and one is chosen if there is any; routable workers have a ready engine; bans follow from
  evidence, whatever else goes on during the minutes of a run (\<open>audit_env\<close>), and are respected over all operations and restarts with successful writes
  (\<open>saved_step\<close>); a restart brings the fleet back from the file as the last operation left it; admission of a provider is earned;
  probe verdicts are exact in spite of floating point.

  Access: signatures work once while the gateway runs; keys change only by their owners; with a configured key a restart keeps access
  (\<open>gateway_life\<close>); production lets in known keys and the admin token only, with
  the exception that is proved; rates per key, per address and of the public server are bounded; the texts that are
  served to be signed are the ones that are checked.

  Findings: theorems of kind \<open>error\<close>, and others after the text that explains them, show on concrete or general inputs where the
  code does not do what it or its comments say.

  \<^bold>\<open>Loops and bounds.\<close> Loops over data are structural or have a measure. A loop that asks the outside world (attempts of a request,
  windows of the waiting queue, polls of finality, segments of a stream) recurses over the list of the answers it gets and returns
  \<open>None\<close> when the list ends first; that requests that are not streamed, the queue and the wait for finality end is proved from the
  deadlines, not assumed. The walk over rotated files takes as many steps as there are files, which is enough since
  their numbers are distinct. The expansion of environment variables is a partial function: it ends if no value has
  a closing brace, and a value that names itself is proved to hang it.

  \<^bold>\<open>Arguments of the models.\<close> Code outside the repository: elliptic-curve recovery, BLS and Ed25519 verification, address checksums,
  certificate parsing and signing, JSON and YAML decoding of foreign bodies, the RPC answers of chain nodes, the HTTP answers of
  workers and price sources, the success of disk writes, random draws, the order of a map range. Laws about them are hypotheses
  of the theorems that need them, with an instance in the witness.

  \<^bold>\<open>Simplifications.\<close> A price text is a decimal or no number: Go's \<open>ParseFloat\<close> also reads infinities. A file is seen as it is between two
  writes of a row, a directory by one snapshot per pass, and a write happens whole or not at all. New inodes are fresh. A walk over a Go map has the order of the list (\<open>reverse_item\<close> keeps it
  over the items of a batch). A request's parallel others act at the points named above, not inside its single operations.

  \<^bold>\<open>Not modelled.\<close> Metrics declarations (\<open>metrics/metrics.go\<close>: nothing reads them back), log lines, the resolver adapter
  (\<open>settlement/resolver.go\<close>: forwards two calls), flushing and headers of HTTP answers, the scheduling of tickers and goroutines
  and the shutdown sequence of \<open>cmd/agent\<close>, ABI coding and the read-only contract views, printing of the command line client, the
  browser application (JavaScript).
\<close>

end
